(* ===== verification/Prelude.thy ===== *)
theory Prelude
  imports Main "HOL-Library.AList" "HOL-Library.Sublist" "HOL-Library.Char_ord"
    "HOL-Library.List_Lexorder" "HOL-Library.Product_Lexorder"
begin

text \<open>
  Shared vocabulary of the development: how the Python values, strings, dictionaries, sets and
  exceptions of \<^verbatim>\<open>src/ucf\<close> are represented, the lemmas every component uses about them, and
  the two interfaces that do not belong to one component (the iteration order of a Python set,
  and invariants of a transition system).

  \<^item> A \<^verbatim>\<open>str\<close> is a \<open>string\<close>; the operations below are exact on ASCII text (characters from 128
    on have no case and are printed as they are).
  \<^item> A \<^verbatim>\<open>dict\<close> is an association list in insertion order: \<open>map_of\<close> reads a key and
    \<open>AList.update\<close> writes one, in place when the key exists and at the end when it does not.
  \<^item> A function that raises returns a sum: \<open>Inl\<close> the exception, \<open>Inr\<close> the result.
  \<^item> A \<^verbatim>\<open>set\<close> is the list of the elements added to it. Where the code iterates over a set, the
    order is an argument \<open>ord\<close> of the definition, which the locale \<open>set_iteration\<close> describes.
\<close>

named_theorems dict_simps \<open>lookups and keys after a dictionary write\<close>
named_theorems res_simps \<open>the exception monad\<close>

section \<open>Exceptions as values\<close>

type_synonym ('e, 'a) res = "'e + 'a"

definition res_bind :: "('e, 'a) res \<Rightarrow> ('a \<Rightarrow> ('e, 'b) res) \<Rightarrow> ('e, 'b) res" where
  "res_bind r f = (case r of Inl e \<Rightarrow> Inl e | Inr x \<Rightarrow> f x)"

text \<open>\<open>require c e\<close> is \<^verbatim>\<open>if not c: raise e\<close>.\<close>

definition require :: "bool \<Rightarrow> 'e \<Rightarrow> ('e, unit) res" where
  "require c e = (if c then Inr () else Inl e)"

text \<open>A loop whose body may raise: the first exception ends it.\<close>

fun res_all :: "('a \<Rightarrow> ('e, unit) res) \<Rightarrow> 'a list \<Rightarrow> ('e, unit) res" where
  "res_all f [] = Inr ()"
| "res_all f (x # xs) = (case f x of Inl e \<Rightarrow> Inl e | Inr _ \<Rightarrow> res_all f xs)"

fun res_map :: "('a \<Rightarrow> ('e, 'b) res) \<Rightarrow> 'a list \<Rightarrow> ('e, 'b list) res" where
  "res_map f [] = Inr []"
| "res_map f (x # xs) =
     (case f x of Inl e \<Rightarrow> Inl e
      | Inr y \<Rightarrow> (case res_map f xs of Inl e \<Rightarrow> Inl e | Inr ys \<Rightarrow> Inr (y # ys)))"

lemma res_bind_simps [simp, res_simps]:
  "res_bind (Inl e) f = Inl e"
  "res_bind (Inr x) f = f x"
  by (simp_all add: res_bind_def)

lemma res_bind_Inr [res_simps]: "res_bind r f = Inr y \<longleftrightarrow> (\<exists>x. r = Inr x \<and> f x = Inr y)"
  by (cases r) simp_all

lemma res_bind_Inl: "res_bind r f = Inl e \<longleftrightarrow> r = Inl e \<or> (\<exists>x. r = Inr x \<and> f x = Inl e)"
  by (cases r) simp_all

lemma require_Inr [simp, res_simps]: "require c e = Inr u \<longleftrightarrow> c"
  by (cases u) (simp add: require_def)

lemma require_Inl [simp, res_simps]: "require c e = Inl e' \<longleftrightarrow> \<not> c \<and> e' = e"
  by (auto simp: require_def)

lemma require_simps [simp]:
  "require True e = Inr ()"
  "require False e = Inl e"
  by (simp_all add: require_def)

lemma res_all_Inr: "res_all f xs = Inr u \<longleftrightarrow> (\<forall>x \<in> set xs. f x = Inr ())"
  by (induction xs) (auto split: sum.splits)

lemma res_map_Inr: "res_map f xs = Inr ys \<longleftrightarrow> list_all2 (\<lambda>x y. f x = Inr y) xs ys"
proof (induction xs arbitrary: ys)
  case Nil
  then show ?case by auto
next
  case (Cons x xs)
  show ?case
    by (cases ys; cases "res_map f xs") (auto simp: Cons.IH [symmetric] split: sum.splits)
qed

lemma res_map_total: "(\<And>x. x \<in> set xs \<Longrightarrow> f x = Inr (h x)) \<Longrightarrow> res_map f xs = Inr (map h xs)"
  by (induction xs) auto

section \<open>Dictionaries\<close>

type_synonym ('k, 'v) dict = "('k \<times> 'v) list"

definition dict_get :: "('k, 'v) dict \<Rightarrow> 'k \<Rightarrow> 'v \<Rightarrow> 'v" where
  "dict_get d k v = (case map_of d k of None \<Rightarrow> v | Some w \<Rightarrow> w)"

text \<open>\<^verbatim>\<open>d.setdefault(k, []).append(x)\<close>\<close>

definition dict_append :: "('k, 'a list) dict \<Rightarrow> 'k \<Rightarrow> 'a \<Rightarrow> ('k, 'a list) dict" where
  "dict_append d k x = AList.update k (dict_get d k [] @ [x]) d"

text \<open>\<^verbatim>\<open>{**d, **e}\<close>, and \<^verbatim>\<open>{k: v for k, v in ps}\<close> as the case \<open>d = []\<close>.\<close>

definition dict_merge :: "('k, 'v) dict \<Rightarrow> ('k, 'v) dict \<Rightarrow> ('k, 'v) dict" where
  "dict_merge d e = foldl (\<lambda>acc (k, v). AList.update k v acc) d e"

abbreviation dict_of :: "('k \<times> 'v) list \<Rightarrow> ('k, 'v) dict" where
  "dict_of ps \<equiv> dict_merge [] ps"

abbreviation dict_keys :: "('k, 'v) dict \<Rightarrow> 'k list" where
  "dict_keys d \<equiv> map fst d"

abbreviation dict_values :: "('k, 'v) dict \<Rightarrow> 'v list" where
  "dict_values d \<equiv> map snd d"

definition wf_dict :: "('k, 'v) dict \<Rightarrow> bool" where
  "wf_dict d \<longleftrightarrow> distinct (dict_keys d)"

lemma map_of_update [simp, dict_simps]: "map_of (AList.update k v d) = (map_of d)(k \<mapsto> v)"
  by (rule AList.update_conv')

lemma keys_update [dict_simps]: "set (dict_keys (AList.update k v d)) = insert k (set (dict_keys d))"
  by (induction d) auto

lemma wf_dict_Nil [simp]: "wf_dict []"
  by (simp add: wf_dict_def)

lemma wf_dict_update [simp]: "wf_dict d \<Longrightarrow> wf_dict (AList.update k v d)"
  by (simp add: wf_dict_def AList.distinct_update)

lemma wf_dict_lookup: "wf_dict d \<Longrightarrow> (k, v) \<in> set d \<longleftrightarrow> map_of d k = Some v"
  by (simp add: wf_dict_def)

lemma map_of_append_key [dict_simps]:
  "map_of (dict_append d k x) k' =
     (if k' = k then Some (dict_get d k [] @ [x]) else map_of d k')"
  by (simp add: dict_append_def)

lemma dict_get_append [dict_simps]:
  "dict_get (dict_append d k x) k' [] =
     (if k' = k then dict_get d k [] @ [x] else dict_get d k' [])"
  by (simp add: dict_append_def dict_get_def)

lemma dict_get_Nil [simp]: "dict_get [] k v = v"
  by (simp add: dict_get_def)

lemma keys_append [dict_simps]:
  "set (dict_keys (dict_append d k x)) = insert k (set (dict_keys d))"
  by (simp add: dict_append_def keys_update del: set_map)

lemma wf_dict_append [simp]: "wf_dict d \<Longrightarrow> wf_dict (dict_append d k x)"
  by (simp add: dict_append_def)

text \<open>Grouping values under keys: what a loop of \<open>dict_append\<close> collects.\<close>

definition dict_group :: "('k, 'a list) dict \<Rightarrow> ('k \<times> 'a) list \<Rightarrow> ('k, 'a list) dict" where
  "dict_group d ps = foldl (\<lambda>acc (k, x). dict_append acc k x) d ps"

lemma dict_group_simps [simp]:
  "dict_group d [] = d"
  "dict_group d ((k, x) # ps) = dict_group (dict_append d k x) ps"
  by (simp_all add: dict_group_def)

lemma dict_get_group [dict_simps]:
  "dict_get (dict_group d ps) k [] = dict_get d k [] @ map snd (filter (\<lambda>p. fst p = k) ps)"
proof (induction ps arbitrary: d)
  case Nil
  show ?case by simp
next
  case (Cons p ps)
  obtain k' x where "p = (k', x)" by (cases p)
  then show ?case using Cons.IH by (simp add: dict_get_append)
qed

lemma keys_group [dict_simps]:
  "set (dict_keys (dict_group d ps)) = set (dict_keys d) \<union> fst ` set ps"
proof (induction ps arbitrary: d)
  case Nil
  show ?case by simp
next
  case (Cons p ps)
  obtain k' x where "p = (k', x)" by (cases p)
  then show ?case using Cons.IH by (simp add: keys_append del: set_map)
qed

lemma wf_dict_group [simp]: "wf_dict d \<Longrightarrow> wf_dict (dict_group d ps)"
  by (induction ps arbitrary: d) auto

lemma dict_merge_simps [simp]:
  "dict_merge d [] = d"
  "dict_merge d ((k, v) # e) = dict_merge (AList.update k v d) e"
  by (simp_all add: dict_merge_def)

lemma wf_dict_merge [simp]: "wf_dict d \<Longrightarrow> wf_dict (dict_merge d e)"
  by (induction e arbitrary: d) auto

lemma keys_merge [dict_simps]:
  "set (dict_keys (dict_merge d e)) = set (dict_keys d) \<union> set (dict_keys e)"
proof (induction e arbitrary: d)
  case Nil
  show ?case by simp
next
  case (Cons p e)
  obtain k v where "p = (k, v)" by (cases p)
  then show ?case using Cons.IH by (simp add: keys_update del: set_map) 
qed

lemma map_of_merge_rev: "map_of (dict_merge d e) = map_of d ++ map_of (rev e)"
proof (induction e arbitrary: d)
  case Nil
  show ?case by simp
next
  case (Cons p e)
  obtain k v where "p = (k, v)" by (cases p)
  then show ?case using Cons.IH by (simp add: map_add_def fun_eq_iff split: option.splits)
qed

lemma map_of_rev_distinct: "distinct (map fst e) \<Longrightarrow> map_of (rev e) = map_of e"
  by (rule map_of_inject_set [THEN iffD2]) (simp_all add: rev_map [symmetric])

lemma map_of_merge [dict_simps]: "wf_dict e \<Longrightarrow> map_of (dict_merge d e) = map_of d ++ map_of e"
  by (simp add: map_of_merge_rev map_of_rev_distinct wf_dict_def)

text \<open>A dictionary built by a comprehension from keys that are all different.\<close>

lemma dict_of_distinct: "distinct (map fst ps) \<Longrightarrow> map_of (dict_of ps) = map_of ps"
  by (simp add: map_of_merge_rev map_of_rev_distinct)

lemma dict_of_inj:
  assumes inj: "inj_on k (set xs)"
  shows "map_of (dict_of (map (\<lambda>x. (k x, v x)) xs)) ref = Some w \<longleftrightarrow>
    (\<exists>x \<in> set xs. ref = k x \<and> w = v x)" (is "map_of ?d ref = _ \<longleftrightarrow> _")
proof -
  have d: "map_of ?d = map_of (rev (map (\<lambda>x. (k x, v x)) xs))" by (simp add: map_of_merge_rev)
  have found: "\<exists>x \<in> set xs. ref = k x \<and> u = v x" if "map_of ?d ref = Some u" for u
    using map_of_SomeD [OF that [unfolded d]] by auto
  show ?thesis
  proof
    assume "\<exists>x \<in> set xs. ref = k x \<and> w = v x"
    then obtain x where x: "x \<in> set xs" "ref = k x" "w = v x" by blast
    then have "map_of ?d ref \<noteq> None" unfolding d by (simp add: map_of_eq_None_iff image_image)
    then obtain u where u: "map_of ?d ref = Some u" by blast
    with found obtain y where "y \<in> set xs" "ref = k y" "u = v y" by blast
    with x inj have "u = w" by (auto dest: inj_onD)
    with u show "map_of ?d ref = Some w" by simp
  qed (rule found)
qed

section \<open>Sets and their iteration order\<close>

text \<open>\<^verbatim>\<open>sorted(set(xs))\<close>.\<close>

definition sorted_set :: "'a::linorder list \<Rightarrow> 'a list" where
  "sorted_set xs = sort (remdups xs)"

lemma set_sorted_set [simp]: "set (sorted_set xs) = set xs"
  by (simp add: sorted_set_def)

lemma distinct_sorted_set [simp]: "distinct (sorted_set xs)"
  by (simp add: sorted_set_def)

lemma sorted_sorted_set [simp]: "sorted (sorted_set xs)"
  by (simp add: sorted_set_def)

lemma sorted_set_Nil_iff [simp]: "sorted_set xs = [] \<longleftrightarrow> xs = []"
  by (metis set_empty2 set_sorted_set)

lemma sorted_set_cong: "set xs = set ys \<Longrightarrow> sorted_set xs = sorted_set ys"
  by (rule sorted_distinct_set_unique) simp_all

text \<open>\<^verbatim>\<open>len(set(xs))\<close>.\<close>

definition set_size :: "'a list \<Rightarrow> nat" where
  "set_size xs = length (remdups xs)"

lemma set_size_card: "set_size xs = card (set xs)"
  by (simp add: set_size_def length_remdups_card_conv)

lemma set_size_eq_length [simp]: "length xs = set_size xs \<longleftrightarrow> distinct xs"
  by (metis card_distinct distinct_card set_size_card)

lemma set_size_le: "set_size xs \<le> length xs"
  by (simp add: set_size_card card_length)

text \<open>
  CPython iterates over a set in an order that depends on hashes and history. All the code can
  rely on is that every element comes exactly once; the definitions that iterate take the order
  as an argument, and their properties are proved for every order of this kind.
\<close>

locale set_iteration =
  fixes ord :: "string list \<Rightarrow> string list"
  assumes ord_set: "set (ord xs) = set xs"
    and ord_distinct: "distinct (ord xs)"
begin

lemma ord_Nil [simp]: "ord [] = []"
  using ord_set [of "[]"] by simp

lemma ord_Nil_iff: "ord xs = [] \<longleftrightarrow> xs = []"
  by (metis ord_set set_empty2)

lemma ord_length: "length (ord xs) = set_size xs"
  by (metis distinct_card ord_distinct ord_set set_size_card)

lemma ord_filter_nonempty: "filter P (ord xs) = [] \<longleftrightarrow> filter P xs = []"
  by (simp add: filter_empty_conv ord_set)

end

interpretation sorted_iter: set_iteration "sorted_set :: string list \<Rightarrow> string list"
  by unfold_locales simp_all

section \<open>Invariants of a transition system\<close>

locale transition_system =
  fixes init :: "'s \<Rightarrow> bool" and step :: "'s \<Rightarrow> 's \<Rightarrow> bool" and inv :: "'s \<Rightarrow> bool"
  assumes inv_init: "init s \<Longrightarrow> inv s"
    and inv_step: "step s t \<Longrightarrow> inv s \<Longrightarrow> inv t"
begin

lemma inv_steps: "step\<^sup>*\<^sup>* s t \<Longrightarrow> inv s \<Longrightarrow> inv t"
  by (induction rule: rtranclp_induct) (auto intro: inv_step)

lemma inv_reachable: "init s \<Longrightarrow> step\<^sup>*\<^sup>* s t \<Longrightarrow> inv t"
  using inv_init inv_steps by blast

end

end
