(* ===== verification/Py_String.thy ===== *)
theory Py_String
  imports Prelude
begin

text \<open>
  The operations of Python's \<^verbatim>\<open>str\<close> the sources use, as functions on \<open>string\<close>: \<^verbatim>\<open>lower\<close>,
  \<^verbatim>\<open>strip\<close>, the forms of \<^verbatim>\<open>split\<close>, \<^verbatim>\<open>splitlines\<close>, \<^verbatim>\<open>join\<close>, \<^verbatim>\<open>replace\<close>, \<^verbatim>\<open>removeprefix\<close>, the substring test \<^verbatim>\<open>in\<close>, \<^verbatim>\<open>str(int)\<close>
  and \<^verbatim>\<open>repr\<close> of strings and tuples, with the lemmas on splitting and joining. \<^verbatim>\<open>startswith\<close>, \<^verbatim>\<open>endswith\<close> and
  \<^verbatim>\<open>in\<close> are the library's \<open>prefix\<close>, \<open>suffix\<close> and \<open>sublist\<close>.
\<close>

section \<open>Characters\<close>

abbreviation code_of :: "char \<Rightarrow> nat" where
  "code_of c \<equiv> of_char c"

definition is_space :: "char \<Rightarrow> bool" where
  "is_space c \<longleftrightarrow> (let n = code_of c in (9 \<le> n \<and> n \<le> 13) \<or> (28 \<le> n \<and> n \<le> 32))"

definition is_lower :: "char \<Rightarrow> bool" where
  "is_lower c \<longleftrightarrow> (let n = code_of c in 97 \<le> n \<and> n \<le> 122)"

definition is_upper :: "char \<Rightarrow> bool" where
  "is_upper c \<longleftrightarrow> (let n = code_of c in 65 \<le> n \<and> n \<le> 90)"

definition is_digit :: "char \<Rightarrow> bool" where
  "is_digit c \<longleftrightarrow> (let n = code_of c in 48 \<le> n \<and> n \<le> 57)"

definition is_alpha :: "char \<Rightarrow> bool" where
  "is_alpha c \<longleftrightarrow> is_lower c \<or> is_upper c"

definition lower_char :: "char \<Rightarrow> char" where
  "lower_char c = (if is_upper c then char_of (code_of c + 32) else c)"

definition py_lower :: "string \<Rightarrow> string" where
  "py_lower s = map lower_char s"

section \<open>Splitting, joining, stripping, replacing\<close>

text \<open>\<^verbatim>\<open>s.split(c)\<close> for a one-character separator, generalised to a set of separators.\<close>

fun split_by :: "(char \<Rightarrow> bool) \<Rightarrow> string \<Rightarrow> string list" where
  "split_by P [] = [[]]"
| "split_by P (c # cs) =
     (if P c then [] # split_by P cs
      else (case split_by P cs of [] \<Rightarrow> [[c]] | w # ws \<Rightarrow> (c # w) # ws))"

abbreviation split_on :: "char \<Rightarrow> string \<Rightarrow> string list" where
  "split_on sep \<equiv> split_by (\<lambda>c. c = sep)"

text \<open>\<^verbatim>\<open>s.split(c, 1)\<close>: one part when \<open>c\<close> does not occur, two otherwise.\<close>

definition split_once :: "char \<Rightarrow> string \<Rightarrow> string \<times> string option" where
  "split_once sep s =
     (takeWhile (\<lambda>c. c \<noteq> sep) s,
      if sep \<in> set s then Some (tl (dropWhile (\<lambda>c. c \<noteq> sep) s)) else None)"

text \<open>\<^verbatim>\<open>s.split()\<close>: the maximal runs of characters that are not white space.\<close>

definition py_words :: "string \<Rightarrow> string list" where
  "py_words s = filter (\<lambda>w. w \<noteq> []) (split_by is_space s)"

fun py_join :: "string \<Rightarrow> string list \<Rightarrow> string" where
  "py_join sep [] = []"
| "py_join sep [w] = w"
| "py_join sep (w # v # ws) = w @ sep @ py_join sep (v # ws)"

definition py_strip :: "string \<Rightarrow> string" where
  "py_strip s = rev (dropWhile is_space (rev (dropWhile is_space s)))"

text \<open>\<^verbatim>\<open>s.replace(old, new)\<close> for a non-empty \<open>old\<close>: left to right, without overlaps.\<close>

function py_replace :: "string \<Rightarrow> string \<Rightarrow> string \<Rightarrow> string" where
  "py_replace old new [] = []"
| "py_replace old new (c # cs) =
     (if old \<noteq> [] \<and> prefix old (c # cs)
      then new @ py_replace old new (drop (length old) (c # cs))
      else c # py_replace old new cs)"
  by pat_completeness auto
termination
  by (relation "measure (\<lambda>(old, new, s). length s)") (auto simp: Suc_diff_le)

text \<open>\<^verbatim>\<open>bool(s)\<close> for an optional text.\<close>

definition truthy :: "string option \<Rightarrow> bool" where
  "truthy s \<longleftrightarrow> s \<noteq> None \<and> s \<noteq> Some []"

section \<open>Text of numbers and quoted strings\<close>

definition digit_char :: "nat \<Rightarrow> char" where
  "digit_char d = char_of (48 + d)"

fun show_nat :: "nat \<Rightarrow> string" where
  "show_nat n = (if n < 10 then [digit_char n] else show_nat (n div 10) @ [digit_char (n mod 10)])"

declare show_nat.simps [simp del]

definition show_int :: "int \<Rightarrow> string" where
  "show_int i = (if i < 0 then CHR ''-'' # show_nat (nat (- i)) else show_nat (nat i))"

text \<open>The text \<^verbatim>\<open>'s'\<close> of a message.\<close>

definition quoted :: "string \<Rightarrow> string" where
  "quoted s = [CHR 0x27] @ s @ [CHR 0x27]"

definition hex_digit :: "nat \<Rightarrow> char" where
  "hex_digit d = (if d < 10 then char_of (48 + d) else char_of (87 + d))"

text \<open>\<^verbatim>\<open>repr(s)\<close>: single quotes unless the text has a single quote and no double quote.\<close>

definition repr_char :: "char \<Rightarrow> char \<Rightarrow> string" where
  "repr_char q c =
     (if c = q \<or> c = CHR 0x5C then [CHR 0x5C, c]
      else if c = CHR 0x0A then [CHR 0x5C, CHR ''n'']
      else if c = CHR 0x0D then [CHR 0x5C, CHR ''r'']
      else if c = CHR 0x09 then [CHR 0x5C, CHR ''t'']
      else if code_of c < 32 \<or> code_of c = 127
        then [CHR 0x5C, CHR ''x'', hex_digit (code_of c div 16), hex_digit (code_of c mod 16)]
      else [c])"

definition repr_str :: "string \<Rightarrow> string" where
  "repr_str s =
     (let q = (if CHR 0x27 \<in> set s \<and> CHR 0x22 \<notin> set s then CHR 0x22 else CHR 0x27)
      in [q] @ concat (map (repr_char q) s) @ [q])"

text \<open>\<^verbatim>\<open>repr\<close> of a list of strings.\<close>

definition repr_str_list :: "string list \<Rightarrow> string" where
  "repr_str_list xs = ''['' @ py_join '', '' (map repr_str xs) @ '']''"

definition repr_str_tuple :: "string list \<Rightarrow> string" where
  "repr_str_tuple xs = ''('' @ py_join '', '' (map repr_str xs) @ (if length xs = 1 then '','' else []) @ '')''"

text \<open>\<^verbatim>\<open>s.splitlines()\<close>: a carriage return and the line feed after it end one line.\<close>

definition is_line_break :: "char \<Rightarrow> bool" where
  "is_line_break c \<longleftrightarrow> code_of c \<in> {10 .. 13} \<union> {28 .. 30} \<union> {133 :: nat}"

fun py_splitlines :: "string \<Rightarrow> string list" where
  "py_splitlines [] = []"
| "py_splitlines (c # cs) =
     (if is_line_break c
      then [] # py_splitlines (if c = CHR 0x0D \<and> cs \<noteq> [] \<and> hd cs = CHR 0x0A then tl cs else cs)
      else (case py_splitlines cs of [] \<Rightarrow> [[c]] | w # ws \<Rightarrow> (c # w) # ws))"

section \<open>Lemmas\<close>

lemma length_py_lower [simp]: "length (py_lower s) = length s"
  by (simp add: py_lower_def)

lemma py_lower_append [simp]: "py_lower (s @ t) = py_lower s @ py_lower t"
  by (simp add: py_lower_def)

lemma split_by_nonempty [simp]: "split_by P s \<noteq> []"
  by (induction s) (auto split: list.splits)

lemma split_by_no_sep: "(\<And>c. c \<in> set s \<Longrightarrow> \<not> P c) \<Longrightarrow> split_by P s = [s]"
  by (induction s) auto

lemma split_by_parts: "w \<in> set (split_by P s) \<Longrightarrow> c \<in> set w \<Longrightarrow> \<not> P c \<and> c \<in> set s"
  by (induction s arbitrary: w) (fastforce split: list.splits if_splits)+

lemma split_by_append:
  "(\<And>c. c \<in> set w \<Longrightarrow> \<not> P c) \<Longrightarrow> P sep \<Longrightarrow> split_by P (w @ sep # s) = w # split_by P s"
  by (induction w) auto

lemma join_split: "py_join [sep] (split_on sep s) = s"
proof (induction s)
  case Nil
  show ?case by simp
next
  case (Cons c cs)
  obtain w ws where w: "split_on sep cs = w # ws"
    by (meson neq_Nil_conv split_by_nonempty)
  show ?case
    using Cons.IH by (cases ws) (auto simp: w)
qed

lemma split_join:
  "ws \<noteq> [] \<Longrightarrow> (\<And>w. w \<in> set ws \<Longrightarrow> sep \<notin> set w) \<Longrightarrow> split_on sep (py_join [sep] ws) = ws"
proof (induction ws rule: induct_list012)
  case 1
  then show ?case by simp
next
  case (2 w)
  then show ?case by (auto intro!: split_by_no_sep)
next
  case (3 w v ws)
  have "split_on sep (w @ sep # py_join [sep] (v # ws)) = w # split_on sep (py_join [sep] (v # ws))"
    using "3.prems" by (intro split_by_append) auto
  then show ?case using 3 by simp
qed

lemma takeWhile_absent: "sep \<notin> set s \<Longrightarrow> takeWhile (\<lambda>c. c \<noteq> sep) s = s"
  by (metis (mono_tags, lifting) takeWhile_eq_all_conv)

lemma split_once_prefix: "sep \<notin> set w \<Longrightarrow> split_once sep (w @ sep # s) = (w, Some s)"
  by (auto simp: split_once_def takeWhile_append dropWhile_append takeWhile_eq_all_conv
      dropWhile_eq_Nil_conv)

lemma split_once_none: "sep \<notin> set s \<Longrightarrow> split_once sep s = (s, None)"
  by (auto simp: split_once_def takeWhile_eq_all_conv)

lemma split_once_Some: "split_once sep s = (w, Some t) \<Longrightarrow> s = w @ sep # t \<and> sep \<notin> set w"
proof -
  assume a: "split_once sep s = (w, Some t)"
  then have w: "w = takeWhile (\<lambda>c. c \<noteq> sep) s" and sep: "sep \<in> set s"
    and t: "t = tl (dropWhile (\<lambda>c. c \<noteq> sep) s)"
    by (auto simp: split_once_def split: if_splits)
  from sep obtain d ds where d: "dropWhile (\<lambda>c. c \<noteq> sep) s = d # ds"
    by (metis (full_types) dropWhile_eq_Nil_conv list.exhaust)
  then have "d = sep"
    by (metis (full_types) hd_dropWhile list.sel(1) list.simps(3))
  with d w t have "s = w @ sep # t"
    by (metis list.sel(3) takeWhile_dropWhile_id)
  moreover have "sep \<notin> set w"
    unfolding w by (auto dest: set_takeWhileD)
  ultimately show ?thesis by blast
qed

lemma split_once_None: "split_once sep s = (w, None) \<longleftrightarrow> s = w \<and> sep \<notin> set s"
  by (auto simp: split_once_def takeWhile_absent split: if_splits)

lemma py_replace_absent: "\<not> sublist old s \<Longrightarrow> py_replace old new s = s"
proof (induction old new s rule: py_replace.induct)
  case (1 old new)
  then show ?case by simp
next
  case (2 old new c cs)
  then have "\<not> prefix old (c # cs)" "\<not> sublist old cs"
    by (auto simp: sublist_Cons_right)
  with 2 show ?case by simp
qed

lemma show_nat_digits: "c \<in> set (show_nat n) \<Longrightarrow> is_digit c"
proof (induction n rule: show_nat.induct)
  case (1 n)
  have d: "is_digit (digit_char d)" if "d < 10" for d
    using that by (simp add: is_digit_def digit_char_def)
  show ?case
  proof (cases "n < 10")
    case True
    then show ?thesis using 1 d by (simp add: show_nat.simps [of n])
  next
    case False
    then show ?thesis using 1 d by (auto simp: show_nat.simps [of n])
  qed
qed

lemma quoted_inject [simp]: "quoted s = quoted t \<longleftrightarrow> s = t"
  by (simp add: quoted_def)

section \<open>Prefixes\<close>

definition remove_prefix :: "string \<Rightarrow> string \<Rightarrow> string" where
  "remove_prefix p s = (if prefix p s then drop (length p) s else s)"

lemma remove_prefix_append [simp]: "remove_prefix p (p @ s) = s"
  by (simp add: remove_prefix_def)

end
