(* ===== verification/Spec_Model.thy ===== *)
theory Spec_Model
  imports Py_String
begin

text \<open>
  The source-level data model, \<^verbatim>\<open>src/ucf/models\<close>: one record per pydantic model with the fields
  of the class in their order, one datatype per \<^verbatim>\<open>StrEnum\<close>, union or discriminated type. An
  optional field is an \<open>option\<close>, a \<^verbatim>\<open>dict\<close> an association list in insertion order, \<^verbatim>\<open>Any\<close> the
  type \<open>pyval\<close> of JSON values. A \<^verbatim>\<open>float\<close> is kept as its \<^verbatim>\<open>repr\<close> text, since the sources only
  print it. The constant \<^verbatim>\<open>kind\<close> of each class is the constructor of \<open>any_spec\<close>.
\<close>

section \<open>Shared types (models/base.py)\<close>

datatype pyval =
    VNone
  | VBool bool
  | VInt int
  | VFloat string
  | VStr string
  | VList "pyval list"
  | VDict "(string \<times> pyval) list"

datatype field_type = TString | TInteger | TNumber | TBoolean | TArray | TObject

fun field_type_value :: "field_type \<Rightarrow> string" where
  "field_type_value TString = ''string''"
| "field_type_value TInteger = ''integer''"
| "field_type_value TNumber = ''number''"
| "field_type_value TBoolean = ''boolean''"
| "field_type_value TArray = ''array''"
| "field_type_value TObject = ''object''"

datatype mutation_type = MCreate | MSet | MIncrement | MDecrement | MAppend | MDelete

datatype severity = Critical | High | Medium

record metadata =
  md_name :: string
  md_version :: "string option"
  md_owner :: "string option"
  md_actor :: "string option"
  md_tags :: "string list"
  md_severity :: "severity option"
  md_description :: "string option"

record field_def =
  fd_type :: field_type
  fd_required :: bool
  fd_format :: "string option"
  fd_min :: "string option"
  fd_max :: "string option"
  fd_enum :: "pyval list option"
  fd_description :: "string option"

datatype status = StatusStr string | StatusInt int

record error_def =
  err_status :: status
  err_code :: string
  err_condition :: string
  err_description :: "string option"

record resource_read =
  rr_resource :: string
  rr_fields :: "string list"

record resource_write =
  rw_resource :: string
  rw_mutation :: mutation_type
  rw_by :: "string option"
  rw_fields :: "string list"

record emit_ref =
  em_event :: string

record spec_ref =
  ref_ref :: string

section \<open>Actions (models/action.py)\<close>

record http_binding =
  http_method :: string
  http_path :: string

record grpc_binding =
  grpc_service :: string
  grpc_method :: string
  grpc_proto :: "string option"

record graphql_binding =
  gql_operation :: string
  gql_name :: string

record ui_step =
  ui_click :: "string option"
  ui_fill :: "string option"
  ui_value :: "string option"
  ui_assert_condition :: "string option"

record ui_binding =
  ui_steps :: "ui_step list"

record cli_binding =
  cli_command :: string
  cli_exit_code :: int

record kafka_binding =
  kafka_topic :: string

record platform =
  pf_http :: "http_binding option"
  pf_grpc :: "grpc_binding option"
  pf_graphql :: "graphql_binding option"
  pf_ui :: "ui_binding option"
  pf_cli :: "cli_binding option"
  pf_kafka :: "kafka_binding option"

record action_spec =
  act_metadata :: metadata
  act_platform :: "platform option"
  act_input :: "(string, field_def) dict"
  act_output :: "(string, field_def) dict"
  act_errors :: "error_def list"
  act_reads :: "resource_read list"
  act_writes :: "resource_write list"
  act_preconditions :: "string list"
  act_postconditions :: "string list"
  act_emits :: "emit_ref list"

section \<open>Events (models/event.py)\<close>

record event_trigger =
  et_after :: string

record delivery_channel =
  dc_channel :: string
  dc_condition :: "string option"

record event_spec =
  ev_metadata :: metadata
  ev_trigger :: "event_trigger option"
  ev_payload :: "(string, field_def) dict"
  ev_delivery :: "delivery_channel list"

section \<open>Steps and components (models/component.py)\<close>

datatype on_error = OneCode string | ManyCodes "string list"

datatype backoff = Constant | Linear | Exponential

record retry_config =
  rt_max_attempts :: int
  rt_on_error :: on_error
  rt_backoff :: backoff
  rt_initial_delay_ms :: int

record step_def =
  st_id :: string
  st_use :: string
  st_input :: "(string, pyval) dict"
  st_output :: "(string, string) dict"
  st_when :: "string option"
  st_skip_if :: "string option"
  st_depends_on :: "string list"
  st_postcondition :: "string option"
  st_retry :: "retry_config option"

text \<open>
  The validators of \<^verbatim>\<open>StepDef\<close>: a blank expression is rejected, and at most one of \<^verbatim>\<open>when\<close> and
  \<^verbatim>\<open>skip_if\<close> may be given. \<open>retry_config_ok\<close> are the bounds of the \<^verbatim>\<open>Field\<close> declarations.
\<close>

definition reject_empty_expression :: "string option \<Rightarrow> (string, string option) res" where
  "reject_empty_expression v =
     (case v of
        None \<Rightarrow> Inr None
      | Some s \<Rightarrow>
          if py_strip s = [] then Inl ''Expression cannot be empty or whitespace-only''
          else Inr (Some s))"

definition check_mutually_exclusive_conditions :: "step_def \<Rightarrow> (string, step_def) res" where
  "check_mutually_exclusive_conditions s =
     (if st_when s \<noteq> None \<and> st_skip_if s \<noteq> None
      then Inl (''Cannot specify both '' @ quoted ''when'' @ '' and '' @ quoted ''skip_if''
                @ '' on the same step.'')
      else Inr s)"

definition retry_config_ok :: "retry_config \<Rightarrow> bool" where
  "retry_config_ok r \<longleftrightarrow>
     1 \<le> rt_max_attempts r \<and> rt_max_attempts r \<le> 100 \<and> 0 \<le> rt_initial_delay_ms r"

definition validate_step_def :: "step_def \<Rightarrow> (string, step_def) res" where
  "validate_step_def s =
     res_bind (reject_empty_expression (st_when s)) (\<lambda>w.
     res_bind (reject_empty_expression (st_skip_if s)) (\<lambda>k.
     check_mutually_exclusive_conditions (s\<lparr>st_when := w, st_skip_if := k\<rparr>)))"

record component_spec =
  comp_metadata :: metadata
  comp_parameters :: "(string, field_def) dict"
  comp_provides :: "(string, field_def) dict"
  comp_steps :: "step_def list"

section \<open>Protocols (models/protocol.py)\<close>

datatype implementation_binding = ImplRef spec_ref | ImplInline component_spec

fun implementation_reference :: "implementation_binding \<Rightarrow> string" where
  "implementation_reference (ImplRef r) = ref_ref r"
| "implementation_reference (ImplInline c) = ''components/'' @ md_name (comp_metadata c)"

record protocol_spec =
  proto_metadata :: metadata
  proto_input :: "(string, field_def) dict"
  proto_output :: "(string, field_def) dict"
  proto_writes :: "resource_write list"
  proto_guarantees :: "string list"
  proto_implementations :: "implementation_binding list"

section \<open>Invariants (models/invariant.py)\<close>

datatype invariant_type =
  IData | IRelationship | IAggregate | IStateMachine | ITemporal | IUniqueness | IComposite

record forbidden_transition =
  ft_from_state :: string
  ft_to :: string
  ft_reason :: string

record applies_to =
  at_resource :: "string option"
  at_action :: "string option"
  at_usecase :: "string option"

record invariant_spec =
  inv_metadata :: metadata
  inv_type :: invariant_type
  inv_rule :: "string option"
  inv_rules :: "(string, pyval) dict list"
  inv_entity :: "string option"
  inv_field :: "string option"
  inv_condition :: "string option"
  inv_states :: "string list"
  inv_transitions :: "(string, string list) dict"
  inv_forbidden :: "forbidden_transition list"
  inv_applies_to :: "applies_to list"
  inv_unique_fields :: "string list"
  inv_scope :: "string option"
  inv_entities :: "(string, pyval) dict"
  inv_before :: "(string, string) dict"
  inv_after :: "(string, string) dict"
  inv_join :: "string option"
  inv_composed_of :: "(string, pyval) dict list"
  inv_parameters :: "(string, string) dict"
  inv_instances :: "(string, pyval) dict list"

section \<open>Use cases (models/usecase.py)\<close>

datatype invariant_binding = InvRef spec_ref | InvInline invariant_spec

fun invariant_reference :: "invariant_binding \<Rightarrow> string" where
  "invariant_reference (InvRef r) = ref_ref r"
| "invariant_reference (InvInline i) = ''invariants/'' @ md_name (inv_metadata i)"

record component_requirement =
  req_ref :: string
  req_as :: string
  req_params :: "(string, pyval) dict"

record alternative_flow =
  alt_name :: string
  alt_trigger :: string
  alt_handles_error :: "string option"
  alt_steps :: "step_def list"

record concurrency_def =
  conc_conflict :: string
  conc_strategy :: string
  conc_description :: "string option"

record usecase_spec =
  uc_metadata :: metadata
  uc_extends :: "string option"
  uc_trigger :: "string option"
  uc_input_from_event :: "(string, string) dict"
  uc_requires :: "component_requirement list"
  uc_preconditions :: "string list"
  uc_assumed_preconditions :: "string list"
  uc_steps :: "step_def list"
  uc_alternative_flows :: "alternative_flow list"
  uc_postconditions :: "string list"
  uc_terminal :: bool
  uc_invariants :: "invariant_binding list"
  uc_concurrency :: "concurrency_def list"

section \<open>Any specification (models/spec.py)\<close>

datatype any_spec =
    ActionSpec action_spec
  | EventSpec event_spec
  | ComponentSpec component_spec
  | ProtocolSpec protocol_spec
  | UseCaseSpec usecase_spec
  | InvariantSpec invariant_spec

fun spec_metadata :: "any_spec \<Rightarrow> metadata" where
  "spec_metadata (ActionSpec s) = act_metadata s"
| "spec_metadata (EventSpec s) = ev_metadata s"
| "spec_metadata (ComponentSpec s) = comp_metadata s"
| "spec_metadata (ProtocolSpec s) = proto_metadata s"
| "spec_metadata (UseCaseSpec s) = uc_metadata s"
| "spec_metadata (InvariantSpec s) = inv_metadata s"

fun spec_kind :: "any_spec \<Rightarrow> string" where
  "spec_kind (ActionSpec s) = ''action''"
| "spec_kind (EventSpec s) = ''event''"
| "spec_kind (ComponentSpec s) = ''component''"
| "spec_kind (ProtocolSpec s) = ''protocol''"
| "spec_kind (UseCaseSpec s) = ''usecase''"
| "spec_kind (InvariantSpec s) = ''invariant''"

definition spec_name :: "any_spec \<Rightarrow> string" where
  "spec_name s = md_name (spec_metadata s)"

abbreviation act_name :: "action_spec \<Rightarrow> string" where "act_name s \<equiv> md_name (act_metadata s)"
abbreviation ev_name :: "event_spec \<Rightarrow> string" where "ev_name s \<equiv> md_name (ev_metadata s)"
abbreviation comp_name :: "component_spec \<Rightarrow> string" where
  "comp_name s \<equiv> md_name (comp_metadata s)"
abbreviation proto_name :: "protocol_spec \<Rightarrow> string" where
  "proto_name s \<equiv> md_name (proto_metadata s)"
abbreviation uc_name :: "usecase_spec \<Rightarrow> string" where "uc_name s \<equiv> md_name (uc_metadata s)"
abbreviation inv_name :: "invariant_spec \<Rightarrow> string" where
  "inv_name s \<equiv> md_name (inv_metadata s)"

lemma spec_name_simps [simp]:
  "spec_name (ActionSpec a) = act_name a"
  "spec_name (EventSpec e) = ev_name e"
  "spec_name (ComponentSpec c) = comp_name c"
  "spec_name (ProtocolSpec p) = proto_name p"
  "spec_name (UseCaseSpec u) = uc_name u"
  "spec_name (InvariantSpec i) = inv_name i"
  by (simp_all add: spec_name_def)

section \<open>Small instances for examples\<close>

definition plain_metadata :: "string \<Rightarrow> metadata" where
  "plain_metadata n = \<lparr>md_name = n, md_version = None, md_owner = None, md_actor = None,
     md_tags = [], md_severity = None, md_description = None\<rparr>"

definition plain_field :: "field_type \<Rightarrow> bool \<Rightarrow> field_def" where
  "plain_field t r = \<lparr>fd_type = t, fd_required = r, fd_format = None, fd_min = None,
     fd_max = None, fd_enum = None, fd_description = None\<rparr>"

definition plain_action :: "string \<Rightarrow> action_spec" where
  "plain_action n = \<lparr>act_metadata = plain_metadata n, act_platform = None, act_input = [],
     act_output = [], act_errors = [], act_reads = [], act_writes = [], act_preconditions = [],
     act_postconditions = [], act_emits = []\<rparr>"

definition plain_step :: "string \<Rightarrow> string \<Rightarrow> step_def" where
  "plain_step i u = \<lparr>st_id = i, st_use = u, st_input = [], st_output = [], st_when = None,
     st_skip_if = None, st_depends_on = [], st_postcondition = None, st_retry = None\<rparr>"

definition plain_component :: "string \<Rightarrow> component_spec" where
  "plain_component n = \<lparr>comp_metadata = plain_metadata n, comp_parameters = [],
     comp_provides = [], comp_steps = []\<rparr>"

definition plain_usecase :: "string \<Rightarrow> string option \<Rightarrow> step_def list \<Rightarrow> usecase_spec" where
  "plain_usecase n e ss = \<lparr>uc_metadata = plain_metadata n, uc_extends = e, uc_trigger = None,
     uc_input_from_event = [], uc_requires = [], uc_preconditions = [],
     uc_assumed_preconditions = [], uc_steps = ss, uc_alternative_flows = [],
     uc_postconditions = [''done''], uc_terminal = False, uc_invariants = [],
     uc_concurrency = []\<rparr>"

lemmas plain_defs =
  plain_metadata_def plain_field_def plain_action_def plain_step_def plain_component_def
  plain_usecase_def

section \<open>Lemmas\<close>

lemma step_def_validated:
  assumes "validate_step_def s = Inr t"
  shows "t = s" and "\<not> (st_when t \<noteq> None \<and> st_skip_if t \<noteq> None)"
proof -
  have id: "reject_empty_expression v = Inr w \<Longrightarrow> w = v" for v w
    by (auto simp: reject_empty_expression_def split: option.splits if_splits)
  from assms show "t = s" "\<not> (st_when t \<noteq> None \<and> st_skip_if t \<noteq> None)"
    by (auto simp: validate_step_def_def res_bind_Inr check_mutually_exclusive_conditions_def
        dest!: id split: if_splits)
qed

end
