(* ===== verification/Registry.thy ===== *)
theory Registry
  imports Spec_Model
begin

text \<open>
  The central registry, \<^verbatim>\<open>src/ucf/parser/registry.py\<close>: the three dictionaries of
  \<^verbatim>\<open>SpecRegistry\<close> as a record, its operations, the invariant that ties the dictionaries
  together, and the lookups a client may rely on (locale \<open>spec_source\<close>). A \<^verbatim>\<open>Path\<close> is its text.
\<close>

section \<open>State and operations\<close>

record registry =
  by_kind :: "(string, (string, any_spec) dict) dict"
  by_ref :: "(string, any_spec) dict"
  paths :: "(string, string) dict"

definition empty_registry :: registry where
  "empty_registry = \<lparr>by_kind = [], by_ref = [], paths = []\<rparr>"

record duplicate_spec_error =
  dup_kind :: string
  dup_name :: string
  dup_existing_path :: "string option"
  dup_duplicate_path :: "string option"

definition duplicate_message :: "duplicate_spec_error \<Rightarrow> string" where
  "duplicate_message e =
     (let shown = (\<lambda>p. case p of None \<Rightarrow> ''<unknown>'' | Some s \<Rightarrow> s) in
      ''Duplicate spec '' @ quoted (dup_kind e @ ''/'' @ dup_name e) @ '': first defined at ''
      @ shown (dup_existing_path e) @ ''; duplicate at '' @ shown (dup_duplicate_path e))"

text \<open>\<^verbatim>\<open>_KIND_PLURAL\<close>, keyed by the class of the specification.\<close>

fun kind_plural :: "any_spec \<Rightarrow> string" where
  "kind_plural (ActionSpec s) = ''actions''"
| "kind_plural (EventSpec s) = ''events''"
| "kind_plural (ComponentSpec s) = ''components''"
| "kind_plural (ProtocolSpec s) = ''protocols''"
| "kind_plural (UseCaseSpec s) = ''use-cases''"
| "kind_plural (InvariantSpec s) = ''invariants''"

definition ref_key :: "any_spec \<Rightarrow> string" where
  "ref_key s = kind_plural s @ ''/'' @ spec_name s"

definition get :: "registry \<Rightarrow> string \<Rightarrow> string \<Rightarrow> any_spec option" where
  "get r kind name = map_of (dict_get (by_kind r) kind []) name"

definition register ::
  "registry \<Rightarrow> any_spec \<Rightarrow> string option \<Rightarrow> (duplicate_spec_error, registry) res" where
  "register r spec path =
     (let kind = spec_kind spec; name = spec_name spec; key = ref_key spec in
      if get r kind name \<noteq> None
      then Inl \<lparr>dup_kind = kind, dup_name = name, dup_existing_path = map_of (paths r) key,
                dup_duplicate_path = path\<rparr>
      else Inr \<lparr>by_kind = AList.update kind
                   (AList.update name spec (dict_get (by_kind r) kind [])) (by_kind r),
                by_ref = AList.update key spec (by_ref r),
                paths = (case path of None \<Rightarrow> paths r | Some p \<Rightarrow> AList.update key p (paths r))\<rparr>)"

definition singular_to_plural :: "(string, string) dict" where
  "singular_to_plural =
     [(''action'', ''actions''), (''event'', ''events''), (''component'', ''components''),
      (''protocol'', ''protocols''), (''usecase'', ''use-cases''), (''invariant'', ''invariants'')]"

definition resolve_ref :: "registry \<Rightarrow> string \<Rightarrow> any_spec option" where
  "resolve_ref r ref =
     (case map_of (by_ref r) ref of
        Some s \<Rightarrow> Some s
      | None \<Rightarrow>
          (case split_once (CHR ''/'') ref of
             (p, Some rest) \<Rightarrow>
               (case map_of singular_to_plural p of
                  Some plural \<Rightarrow> map_of (by_ref r) (plural @ ''/'' @ rest)
                | None \<Rightarrow> None)
           | (p, None) \<Rightarrow> None))"

definition get_path :: "registry \<Rightarrow> string \<Rightarrow> string option" where
  "get_path r ref = map_of (paths r) ref"

definition all_specs :: "registry \<Rightarrow> any_spec list" where
  "all_specs r = concat (map dict_values (dict_values (by_kind r)))"

definition specs_of_kind :: "registry \<Rightarrow> string \<Rightarrow> any_spec list" where
  "specs_of_kind r kind = dict_values (dict_get (by_kind r) kind [])"

definition actions :: "registry \<Rightarrow> action_spec list" where
  "actions r = List.map_filter (\<lambda>s. case s of ActionSpec a \<Rightarrow> Some a | _ \<Rightarrow> None)
     (specs_of_kind r ''action'')"

definition events :: "registry \<Rightarrow> event_spec list" where
  "events r = List.map_filter (\<lambda>s. case s of EventSpec a \<Rightarrow> Some a | _ \<Rightarrow> None)
     (specs_of_kind r ''event'')"

definition components :: "registry \<Rightarrow> component_spec list" where
  "components r = List.map_filter (\<lambda>s. case s of ComponentSpec a \<Rightarrow> Some a | _ \<Rightarrow> None)
     (specs_of_kind r ''component'')"

definition protocols :: "registry \<Rightarrow> protocol_spec list" where
  "protocols r = List.map_filter (\<lambda>s. case s of ProtocolSpec a \<Rightarrow> Some a | _ \<Rightarrow> None)
     (specs_of_kind r ''protocol'')"

definition usecases :: "registry \<Rightarrow> usecase_spec list" where
  "usecases r = List.map_filter (\<lambda>s. case s of UseCaseSpec a \<Rightarrow> Some a | _ \<Rightarrow> None)
     (specs_of_kind r ''usecase'')"

definition invariants :: "registry \<Rightarrow> invariant_spec list" where
  "invariants r = List.map_filter (\<lambda>s. case s of InvariantSpec a \<Rightarrow> Some a | _ \<Rightarrow> None)
     (specs_of_kind r ''invariant'')"

definition counts :: "registry \<Rightarrow> (string, nat) dict" where
  "counts r = map (\<lambda>(kind, specs). (kind, length specs)) (by_kind r)"

definition total :: "registry \<Rightarrow> nat" where
  "total r = sum_list (map length (dict_values (by_kind r)))"

text \<open>
  \<^verbatim>\<open>_load_registry\<close> of \<^verbatim>\<open>src/ucf/cli.py\<close>: the specifications the loader read, in order; a duplicate
  is reported with its path and skipped. Errors are pairs of a path and a message.
\<close>

fun load_specs ::
  "registry \<Rightarrow> (string \<times> any_spec) list \<Rightarrow>
     registry \<times> (string \<times> any_spec) list \<times> (string \<times> string) list" where
  "load_specs r [] = (r, [], [])"
| "load_specs r ((path, spec) # xs) =
     (case register r spec (Some path) of
        Inl e \<Rightarrow> (let (r', reg, errs) = load_specs r xs
                  in (r', reg, (path, duplicate_message e) # errs))
      | Inr r1 \<Rightarrow> (let (r', reg, errs) = load_specs r1 xs in (r', (path, spec) # reg, errs)))"

definition load_registry ::
  "(string \<times> any_spec) list \<Rightarrow> (string \<times> string) list \<Rightarrow>
     registry \<times> (string \<times> any_spec) list \<times> (string \<times> string) list" where
  "load_registry loaded errors =
     (let (r, reg, errs) = load_specs empty_registry loaded in (r, reg, errors @ errs))"

definition registry_of :: "(string \<times> any_spec) list \<Rightarrow> registry" where
  "registry_of loaded = fst (load_registry loaded [])"

section \<open>Keys\<close>

lemma slash_notin_plural: "CHR ''/'' \<notin> set (kind_plural s)"
  by (cases s) simp_all

lemma kind_eq_iff: "spec_kind s = spec_kind t \<longleftrightarrow> kind_plural s = kind_plural t"
  by (cases s; cases t) simp_all

lemma ref_key_split: "split_once (CHR ''/'') (ref_key s) = (kind_plural s, Some (spec_name s))"
  unfolding ref_key_def using split_once_prefix [OF slash_notin_plural, of s] by simp

lemma ref_key_inject [simp]:
  "ref_key s = ref_key t \<longleftrightarrow> spec_kind s = spec_kind t \<and> spec_name s = spec_name t"
proof
  assume "ref_key s = ref_key t"
  then have "(kind_plural s, Some (spec_name s)) = (kind_plural t, Some (spec_name t))"
    by (metis ref_key_split)
  then show "spec_kind s = spec_kind t \<and> spec_name s = spec_name t"
    by (simp add: kind_eq_iff)
qed (simp add: ref_key_def kind_eq_iff)

text \<open>The short form \<^verbatim>\<open>kind/name\<close> of a reference.\<close>

definition short_ref :: "any_spec \<Rightarrow> string" where
  "short_ref s = spec_kind s @ ''/'' @ spec_name s"

lemma short_ref_split: "split_once (CHR ''/'') (short_ref s) = (spec_kind s, Some (spec_name s))"
proof -
  have "CHR ''/'' \<notin> set (spec_kind s)" by (cases s) simp_all
  from split_once_prefix [OF this, of "spec_name s"] show ?thesis
    by (simp add: short_ref_def)
qed

lemma short_ref_inject [simp]:
  "short_ref s = short_ref t \<longleftrightarrow> spec_kind s = spec_kind t \<and> spec_name s = spec_name t"
proof
  assume "short_ref s = short_ref t"
  then have "(spec_kind s, Some (spec_name s)) = (spec_kind t, Some (spec_name t))"
    by (metis short_ref_split)
  then show "spec_kind s = spec_kind t \<and> spec_name s = spec_name t" by simp
qed (simp add: short_ref_def)

lemma singular_to_plural_kind: "map_of singular_to_plural (spec_kind s) = Some (kind_plural s)"
  by (cases s) (simp_all add: singular_to_plural_def)

lemma kind_ne_plural: "spec_kind s \<noteq> kind_plural t"
  by (cases s; cases t) simp_all

lemma short_ref_ne_key: "short_ref s \<noteq> ref_key t"
proof
  assume "short_ref s = ref_key t"
  then have "(spec_kind s, Some (spec_name s)) = (kind_plural t, Some (spec_name t))"
    by (metis ref_key_split short_ref_split)
  then show False by (simp add: kind_ne_plural)
qed

section \<open>The invariant\<close>

text \<open>
  Names are unique within a kind, every specification is filed under its own kind and name, the
  reference index holds exactly the filed specifications, and only those have paths.
\<close>

definition filed :: "registry \<Rightarrow> string \<Rightarrow> string \<Rightarrow> any_spec \<Rightarrow> bool" where
  "filed r k n s \<longleftrightarrow> get r k n = Some s"

definition registry_inv :: "registry \<Rightarrow> bool" where
  "registry_inv r \<longleftrightarrow>
     wf_dict (by_kind r) \<and> (\<forall>(k, g) \<in> set (by_kind r). wf_dict g) \<and> wf_dict (by_ref r) \<and>
     (\<forall>k n s. get r k n = Some s \<longrightarrow> spec_kind s = k \<and> spec_name s = n) \<and>
     (\<forall>ref s. map_of (by_ref r) ref = Some s \<longleftrightarrow>
        ref = ref_key s \<and> get r (spec_kind s) (spec_name s) = Some s) \<and>
     set (dict_keys (paths r)) \<subseteq> set (dict_keys (by_ref r))"

lemma registry_invD:
  assumes "registry_inv r"
  shows inv_wf_kind: "wf_dict (by_kind r)"
    and inv_wf_group: "\<forall>(k, g) \<in> set (by_kind r). wf_dict g"
    and inv_wf_ref: "wf_dict (by_ref r)"
    and inv_filed: "get r k n = Some s \<Longrightarrow> spec_kind s = k \<and> spec_name s = n"
    and inv_index: "map_of (by_ref r) ref = Some s \<longleftrightarrow>
      ref = ref_key s \<and> get r (spec_kind s) (spec_name s) = Some s"
    and inv_paths: "set (dict_keys (paths r)) \<subseteq> set (dict_keys (by_ref r))"
proof -
  note all = assms [unfolded registry_inv_def]
  show "wf_dict (by_kind r)" using all by (elim conjE)
  show "\<forall>(k, g) \<in> set (by_kind r). wf_dict g" using all by (elim conjE)
  show "wf_dict (by_ref r)" using all by (elim conjE)
  show "set (dict_keys (paths r)) \<subseteq> set (dict_keys (by_ref r))" using all by (elim conjE)
  have f: "\<forall>k n s. get r k n = Some s \<longrightarrow> spec_kind s = k \<and> spec_name s = n"
    using all by (elim conjE)
  have i: "\<forall>ref s. map_of (by_ref r) ref = Some s \<longleftrightarrow>
        ref = ref_key s \<and> get r (spec_kind s) (spec_name s) = Some s"
    using all by (elim conjE)
  show "spec_kind s = k \<and> spec_name s = n" if "get r k n = Some s"
    using f that by (elim allE impE)
  show "map_of (by_ref r) ref = Some s \<longleftrightarrow>
      ref = ref_key s \<and> get r (spec_kind s) (spec_name s) = Some s"
    using i by (elim allE)
qed

lemma get_register:
  assumes "register r spec path = Inr r'"
  shows "get r' k n =
           (if k = spec_kind spec \<and> n = spec_name spec then Some spec else get r k n)"
  using assms
  by (auto simp: register_def get_def Let_def dict_get_def split: if_splits option.splits)

lemma by_ref_register:
  "register r spec path = Inr r' \<Longrightarrow> map_of (by_ref r') = (map_of (by_ref r))(ref_key spec \<mapsto> spec)"
  by (auto simp: register_def Let_def split: if_splits)

lemma register_fresh:
  "register r spec path = Inr r' \<Longrightarrow> get r (spec_kind spec) (spec_name spec) = None"
  by (auto simp: register_def Let_def split: if_splits)

lemma get_empty: "get empty_registry k n = None"
  by (simp add: get_def empty_registry_def)

lemma registry_inv_empty: "registry_inv empty_registry"
  by (simp add: registry_inv_def empty_registry_def get_def)

lemma wf_dict_get: "\<forall>(k, g) \<in> set d. wf_dict g \<Longrightarrow> wf_dict (dict_get d k [])"
  by (auto simp: dict_get_def split: option.splits dest: map_of_SomeD)

lemma set_update_subset: "set (AList.update k v d) \<subseteq> insert (k, v) (set d)"
  by (induction d) auto

lemma registry_inv_register:
  assumes inv: "registry_inv r" and reg: "register r spec path = Inr r'"
  shows "registry_inv r'"
  unfolding registry_inv_def
proof (intro conjI allI impI)
  let ?k = "spec_kind spec" and ?n = "spec_name spec"
  let ?g = "AList.update ?n spec (dict_get (by_kind r) ?k [])"
  have r': "by_kind r' = AList.update ?k ?g (by_kind r)"
    "by_ref r' = AList.update (ref_key spec) spec (by_ref r)"
    using reg by (auto simp: register_def Let_def split: if_splits)
  show "wf_dict (by_kind r')" "wf_dict (by_ref r')"
    using inv_wf_kind [OF inv] inv_wf_ref [OF inv] by (simp_all add: r')
  have "wf_dict ?g" using wf_dict_get [OF inv_wf_group [OF inv]] by simp
  then show "\<forall>(k, g) \<in> set (by_kind r'). wf_dict g"
    using inv_wf_group [OF inv] set_update_subset [of ?k ?g "by_kind r"] by (auto simp: r')
  fix k n s
  assume g: "get r' k n = Some s"
  then show "spec_kind s = k" and "spec_name s = n"
    using inv_filed [OF inv, of k n s] by (auto simp: get_register [OF reg] split: if_splits)
next
  fix ref s
  have new: "map_of (by_ref r) (ref_key spec) = None"
  proof (rule ccontr)
    assume "map_of (by_ref r) (ref_key spec) \<noteq> None"
    then obtain t where "map_of (by_ref r) (ref_key spec) = Some t" by blast
    with inv_index [OF inv, of "ref_key spec" t] register_fresh [OF reg] show False by simp
  qed
  show "map_of (by_ref r') ref = Some s \<longleftrightarrow>
      ref = ref_key s \<and> get r' (spec_kind s) (spec_name s) = Some s"
    using inv_index [OF inv, of ref s] new
    by (auto simp: by_ref_register [OF reg] get_register [OF reg])
next
  have "set (dict_keys (paths r')) \<subseteq> insert (ref_key spec) (set (dict_keys (paths r)))"
    using reg by (auto simp: register_def Let_def keys_update split: if_splits option.splits
        simp del: set_map)
  moreover have "set (dict_keys (by_ref r')) = insert (ref_key spec) (set (dict_keys (by_ref r)))"
    using reg by (auto simp: register_def Let_def keys_update split: if_splits simp del: set_map)
  ultimately show "set (dict_keys (paths r')) \<subseteq> set (dict_keys (by_ref r'))"
    using inv_paths [OF inv] by blast
qed

lemma registry_inv_load: "registry_inv r \<Longrightarrow> registry_inv (fst (load_specs r xs))"
  by (induction r xs rule: load_specs.induct)
    (auto split: sum.splits prod.splits dest: registry_inv_register)

lemma registry_inv_of [simp]: "registry_inv (registry_of xs)"
  using registry_inv_load [OF registry_inv_empty]
  by (simp add: registry_of_def load_registry_def split: prod.splits)

lemma get_load_specs:
  "get (fst (load_specs r xs)) k n =
     (case get r k n of Some s \<Rightarrow> Some s
      | None \<Rightarrow> map_of (map (\<lambda>(p, s). ((spec_kind s, spec_name s), s)) xs) (k, n))"
proof (induction r xs rule: load_specs.induct)
  case (1 r)
  show ?case by (simp split: option.splits)
next
  case (2 r path spec xs)
  show ?case
  proof (cases "register r spec (Some path)")
    case (Inl e)
    then have "get r (spec_kind spec) (spec_name spec) \<noteq> None"
      by (auto simp: register_def Let_def split: if_splits)
    then show ?thesis using "2.IH"(1) [OF Inl]
      by (auto simp: Inl split: prod.splits option.splits)
  next
    case (Inr r1)
    then show ?thesis using "2.IH"(2) [OF Inr] register_fresh [OF Inr]
      by (auto simp: Inr get_register [OF Inr] split: prod.splits option.splits)
  qed
qed

section \<open>Lookups\<close>

lemma resolve_ref_key:
  assumes inv: "registry_inv r" and g: "get r (spec_kind s) (spec_name s) = Some s"
  shows "resolve_ref r (ref_key s) = Some s"
proof -
  have "map_of (by_ref r) (ref_key s) = Some s"
    using g by (simp add: inv_index [OF inv])
  then show ?thesis by (simp add: resolve_ref_def)
qed

lemma resolve_ref_short:
  assumes inv: "registry_inv r" and g: "get r (spec_kind s) (spec_name s) = Some s"
  shows "resolve_ref r (short_ref s) = Some s"
proof -
  have "map_of (by_ref r) (short_ref s) = None"
    using inv_index [OF inv] short_ref_ne_key by (metis not_Some_eq)
  moreover have "map_of (by_ref r) (kind_plural s @ ''/'' @ spec_name s) = Some s"
    using g inv_index [OF inv, of "ref_key s" s] by (simp add: ref_key_def)
  ultimately show ?thesis
    by (simp add: resolve_ref_def short_ref_split singular_to_plural_kind)
qed

lemma resolve_ref_in_index: "resolve_ref r ref = Some s \<Longrightarrow> s \<in> set (dict_values (by_ref r))"
  by (auto simp: resolve_ref_def split: option.splits prod.splits dest!: map_of_SomeD
      intro: rev_image_eqI)

lemma resolve_ref_filed:
  assumes inv: "registry_inv r" and res: "resolve_ref r ref = Some s"
  shows "get r (spec_kind s) (spec_name s) = Some s"
proof -
  from res obtain ref' where "map_of (by_ref r) ref' = Some s"
    by (auto simp: resolve_ref_def split: option.splits prod.splits)
  then show ?thesis by (simp add: inv_index [OF inv])
qed

lemma resolve_ref_iff:
  assumes inv: "registry_inv r"
  shows "resolve_ref r ref = Some s \<longleftrightarrow>
    get r (spec_kind s) (spec_name s) = Some s \<and> (ref = ref_key s \<or> ref = short_ref s)"
proof
  assume res: "resolve_ref r ref = Some s"
  have "ref = ref_key s \<or> ref = short_ref s"
  proof (cases "map_of (by_ref r) ref")
    case (Some t)
    with res have "t = s" by (simp add: resolve_ref_def)
    with Some show ?thesis by (simp add: inv_index [OF inv])
  next
    case None
    with res obtain p rest plural where sp: "split_once (CHR ''/'') ref = (p, Some rest)"
      and pl: "map_of singular_to_plural p = Some plural"
      and ix: "map_of (by_ref r) (plural @ ''/'' @ rest) = Some s"
      by (auto simp: resolve_ref_def split: option.splits prod.splits)
    from pl obtain t where "plural = kind_plural t" "p = spec_kind t"
    proof (atomize_elim, unfold singular_to_plural_def, simp split: if_splits, goal_cases)
      case 1 then show ?case by (metis kind_plural.simps(1) spec_kind.simps(1))
    next
      case 2 then show ?case by (metis kind_plural.simps(2) spec_kind.simps(2))
    next
      case 3 then show ?case by (metis kind_plural.simps(3) spec_kind.simps(3))
    next
      case 4 then show ?case by (metis kind_plural.simps(4) spec_kind.simps(4))
    next
      case 5 then show ?case by (metis kind_plural.simps(5) spec_kind.simps(5))
    next
      case 6 then show ?case by (metis kind_plural.simps(6) spec_kind.simps(6))
    qed
    note t = this
    from ix have "plural @ ''/'' @ rest = ref_key s" by (simp add: inv_index [OF inv])
    then have "split_once (CHR ''/'') (kind_plural t @ ''/'' @ rest) = (kind_plural s, Some (spec_name s))"
      using ref_key_split t by simp
    then have k: "kind_plural s = kind_plural t" and "rest = spec_name s"
      using split_once_prefix [OF slash_notin_plural, of t rest] by simp_all
    moreover have "p = spec_kind s" using k t by (simp add: kind_eq_iff)
    ultimately show ?thesis using split_once_Some [OF sp] by (simp add: short_ref_def)
  qed
  with resolve_ref_filed [OF inv res]
  show "get r (spec_kind s) (spec_name s) = Some s \<and> (ref = ref_key s \<or> ref = short_ref s)" by blast
qed (auto intro: resolve_ref_key [OF inv] resolve_ref_short [OF inv])

lemma get_in_all_specs: "get r k n = Some s \<Longrightarrow> s \<in> set (all_specs r)"
  by (force simp: get_def all_specs_def dict_get_def split: option.splits
      dest: map_of_SomeD)

lemma all_specs_filed:
  assumes inv: "registry_inv r" and s: "s \<in> set (all_specs r)"
  shows "get r (spec_kind s) (spec_name s) = Some s"
proof -
  from s obtain k g n where kg: "(k, g) \<in> set (by_kind r)" and ng: "(n, s) \<in> set g"
    by (auto simp: all_specs_def)
  from kg have "wf_dict (by_kind r)" "wf_dict g"
    using inv_wf_kind [OF inv] inv_wf_group [OF inv] by auto
  with kg ng have "get r k n = Some s"
    by (simp add: get_def dict_get_def wf_dict_lookup)
  with inv_filed [OF inv, of k n s] show ?thesis by auto
qed

lemma specs_of_kind_iff:
  assumes inv: "registry_inv r"
  shows "s \<in> set (specs_of_kind r k) \<longleftrightarrow> s \<in> set (all_specs r) \<and> spec_kind s = k"
proof
  assume s: "s \<in> set (specs_of_kind r k)"
  have "wf_dict (dict_get (by_kind r) k [])"
    by (rule wf_dict_get [OF inv_wf_group [OF inv]])
  with s obtain n where "get r k n = Some s"
    by (auto simp: specs_of_kind_def get_def wf_dict_lookup)
  with inv_filed [OF inv, of k n s] show "s \<in> set (all_specs r) \<and> spec_kind s = k"
    by (auto intro: get_in_all_specs)
next
  assume "s \<in> set (all_specs r) \<and> spec_kind s = k"
  with all_specs_filed [OF inv] have "get r k (spec_name s) = Some s" by blast
  then show "s \<in> set (specs_of_kind r k)"
    by (auto simp: get_def specs_of_kind_def dest: map_of_SomeD intro: rev_image_eqI)
qed

lemma usecases_iff:
  assumes inv: "registry_inv r"
  shows "u \<in> set (usecases r) \<longleftrightarrow> UseCaseSpec u \<in> set (all_specs r)"
proof -
  have "u \<in> set (usecases r) \<longleftrightarrow> UseCaseSpec u \<in> set (specs_of_kind r ''usecase'')"
    by (auto simp: usecases_def List.map_filter_def split: any_spec.splits
        intro!: rev_image_eqI [of "UseCaseSpec u"])
  then show ?thesis by (simp add: specs_of_kind_iff [OF inv])
qed

lemma resolve_ref_usecase:
  "registry_inv r \<Longrightarrow> resolve_ref r ref = Some (UseCaseSpec u) \<Longrightarrow> u \<in> set (usecases r)"
  using get_in_all_specs [OF resolve_ref_filed] by (simp add: usecases_iff)

lemma total_eq: "total r = length (all_specs r)"
  unfolding total_def all_specs_def length_concat map_map by (simp add: comp_def)

lemma counts_total: "sum_list (dict_values (counts r)) = total r"
  unfolding counts_def total_def by (simp add: case_prod_beta comp_def)

text \<open>
  What the clients of the registry rely on: a reference resolves to a specification of a finite
  collection, and a use case is determined by its name.
\<close>

locale spec_source =
  fixes resolve :: "string \<Rightarrow> any_spec option" and universe :: "usecase_spec list"
  assumes resolve_universe: "resolve ref = Some (UseCaseSpec u) \<Longrightarrow> u \<in> set universe"
    and universe_names: "u \<in> set universe \<Longrightarrow> v \<in> set universe \<Longrightarrow> uc_name u = uc_name v \<Longrightarrow> u = v"

lemma spec_source_registry:
  assumes inv: "registry_inv r"
  shows "spec_source (resolve_ref r) (usecases r)"
proof
  fix ref u
  assume "resolve_ref r ref = Some (UseCaseSpec u)"
  with inv show "u \<in> set (usecases r)" by (rule resolve_ref_usecase)
next
  have g: "get r ''usecase'' (uc_name w) = Some (UseCaseSpec w)" if "w \<in> set (usecases r)" for w
    using all_specs_filed [OF inv, of "UseCaseSpec w"] that by (simp add: usecases_iff [OF inv])
  fix u v
  assume u: "u \<in> set (usecases r)" and v: "v \<in> set (usecases r)" and n: "uc_name u = uc_name v"
  have "Some (UseCaseSpec u) = Some (UseCaseSpec v)"
    using g [OF u] g [OF v] unfolding n by (rule trans [OF sym])
  then show "u = v" by (simp only: option.inject any_spec.inject)
qed

interpretation loaded: spec_source "resolve_ref (registry_of xs)" "usecases (registry_of xs)" for xs
  by (rule spec_source_registry) simp

section \<open>Properties\<close>

text \<open>What loading leaves out: every specification is registered or reported, never both.\<close>

lemma load_specs_counted:
  "load_specs r xs = (r', reg, errs) \<Longrightarrow> length reg + length errs = length xs"
  by (induction r xs arbitrary: r' reg errs rule: load_specs.induct)
    (auto split: sum.splits prod.splits)

lemma load_specs_registered:
  "load_specs r xs = (r', reg, errs) \<Longrightarrow>
     (path, spec) \<in> set reg \<Longrightarrow> get r' (spec_kind spec) (spec_name spec) = Some spec"
proof (induction r xs arbitrary: r' reg errs rule: load_specs.induct)
  case (1 r)
  then show ?case by simp
next
  case (2 r p s xs)
  show ?case
  proof (cases "register r s (Some p)")
    case (Inl e)
    then show ?thesis using "2.IH"(1) [OF Inl] "2.prems" by (auto split: prod.splits)
  next
    case (Inr r1)
    then obtain reg1 where rec: "load_specs r1 xs = (r', reg1, errs)" "reg = (p, s) # reg1"
      using "2.prems"(1) by (auto split: prod.splits)
    have "get (fst (load_specs r1 xs)) (spec_kind s) (spec_name s) = Some s"
      by (simp add: get_load_specs get_register [OF Inr])
    with rec "2.IH"(2) [OF Inr rec(1)] "2.prems"(2) show ?thesis by auto
  qed
qed

text \<open>
  C14: Loading never fails and the first definition of a kind and name wins: the registry holds, for
  every kind and name, the first specification of the list with that kind and name, its three
  dictionaries agree, each specification of the input is either registered or reported as a
  duplicate, and every registered one is the one the registry returns.
\<close>

theorem load_registry_first_wins:
  "case load_registry loaded errors of (r, registered, errors') \<Rightarrow>
     registry_inv r \<and>
     (\<forall>k n. get r k n = map_of (map (\<lambda>(p, s). ((spec_kind s, spec_name s), s)) loaded) (k, n)) \<and>
     length registered + length errors' = length loaded + length errors \<and>
     list_all (\<lambda>(p, s). get r (spec_kind s) (spec_name s) = Some s) registered"
proof -
  obtain r reg errs where l: "load_specs empty_registry loaded = (r, reg, errs)"
    by (cases "load_specs empty_registry loaded")
  have "registry_inv r"
    using registry_inv_load [OF registry_inv_empty, of loaded] by (simp add: l)
  moreover have "get r k n = map_of (map (\<lambda>(p, s). ((spec_kind s, spec_name s), s)) loaded) (k, n)"
    for k n
    using get_load_specs [of empty_registry loaded k n] by (simp add: l get_empty)
  ultimately show ?thesis
    using load_specs_counted [OF l] load_specs_registered [OF l]
    by (auto simp: load_registry_def l list_all_iff)
qed

text \<open>
  In a loaded registry a reference resolves to a specification exactly when the registry holds
  it and the reference is its plural key or the short form \<^verbatim>\<open>kind/name\<close>: both forms name the
  same specification and no other text resolves to it.
\<close>

theorem resolve_ref_loaded:
  "resolve_ref (registry_of loaded) ref = Some s \<longleftrightarrow>
     get (registry_of loaded) (spec_kind s) (spec_name s) = Some s \<and> ref \<in> {ref_key s, short_ref s}"
  by (simp add: resolve_ref_iff)

text \<open>
  A successful \<^verbatim>\<open>register\<close> keeps the dictionaries consistent and changes the registry at the
  two references of the new specification only, one of which was free before; a second
  registration of the same kind and name is refused, with the path of the first one.
\<close>

theorem register_changes_one_ref:
  assumes inv: "registry_inv r" and reg: "register r spec (Some path) = Inr r'"
  shows "registry_inv r' \<and>
    resolve_ref r' ref = (if ref \<in> {ref_key spec, short_ref spec} then Some spec else resolve_ref r ref) \<and>
    register r' spec other = Inl \<lparr>dup_kind = spec_kind spec, dup_name = spec_name spec,
      dup_existing_path = Some path, dup_duplicate_path = other\<rparr>"
proof -
  note inv' = registry_inv_register [OF inv reg]
  have "resolve_ref r' ref = Some s \<longleftrightarrow>
    (if ref \<in> {ref_key spec, short_ref spec} then Some spec else resolve_ref r ref) = Some s" for s
  proof (cases "spec_kind s = spec_kind spec \<and> spec_name s = spec_name spec")
    case True
    then have "ref_key s = ref_key spec" "short_ref s = short_ref spec"
      by (simp_all add: short_ref_def)
    then show ?thesis using True register_fresh [OF reg]
      by (auto simp: resolve_ref_iff [OF inv] resolve_ref_iff [OF inv'] get_register [OF reg])
  next
    case False
    then have "ref_key s \<noteq> ref_key spec" "short_ref s \<noteq> short_ref spec"
      by auto
    then show ?thesis using False short_ref_ne_key [of s spec] short_ref_ne_key [of spec s]
      by (auto simp: resolve_ref_iff [OF inv] resolve_ref_iff [OF inv'] get_register [OF reg])
  qed
  then have "resolve_ref r' ref =
    (if ref \<in> {ref_key spec, short_ref spec} then Some spec else resolve_ref r ref)"
    by (metis not_Some_eq)
  moreover have "map_of (paths r') (ref_key spec) = Some path"
    using reg by (auto simp: register_def Let_def split: if_splits)
  ultimately show ?thesis
    using inv' by (simp add: register_def [of r'] get_register [OF reg] Let_def)
qed

theorem register_changes_one_ref_witness:
  "register empty_registry (ActionSpec (plain_action ''Pay'')) (Some ''pay.yaml'')
     = Inr (registry_of [(''pay.yaml'', ActionSpec (plain_action ''Pay''))]) \<and>
   resolve_ref (registry_of [(''pay.yaml'', ActionSpec (plain_action ''Pay''))]) ''actions/Pay''
     = Some (ActionSpec (plain_action ''Pay''))"
proof -
  have reg: "register empty_registry (ActionSpec (plain_action ''Pay'')) (Some ''pay.yaml'')
     = Inr (registry_of [(''pay.yaml'', ActionSpec (plain_action ''Pay''))])"
    by (simp add: registry_of_def load_registry_def register_def get_def empty_registry_def Let_def)
  moreover have "ref_key (ActionSpec (plain_action ''Pay'')) = ''actions/Pay''"
    by code_simp
  ultimately show ?thesis
    using register_changes_one_ref [OF registry_inv_empty reg, of "''actions/Pay''"] by simp
qed

end
