(* ===== verification/Composition.thy ===== *)
theory Composition
  imports Registry
begin

text \<open>
  Use case composition, \<^verbatim>\<open>src/ucf/composition.py\<close>: \<^verbatim>\<open>resolve_extends\<close> follows the \<^verbatim>\<open>extends\<close>
  chain and flattens it. The recursion is defined as the code has it; it terminates because every
  call adds to the chain the name of a use case the registry knows. The specification is a path of
  use cases from the child to a root (\<open>extends_path\<close>); the main lemma says that the code returns
  exactly the flattening of a path without repeated names and without step-id clashes.
\<close>

section \<open>The code\<close>

datatype composition_code = PARENT_NOT_FOUND | CIRCULAR_EXTENDS | STEP_ID_CLASH

record composition_error =
  ce_code :: composition_code
  ce_message :: string

definition parent_ref :: "string \<Rightarrow> string" where
  "parent_ref ext = py_replace ''$ref:'' [] ext"

text \<open>\<open>xs\<close> and then the elements of \<open>ys\<close> whose key is not a key of \<open>xs\<close>.\<close>

definition merge_new :: "('a \<Rightarrow> 'k) \<Rightarrow> 'a list \<Rightarrow> 'a list \<Rightarrow> 'a list" where
  "merge_new key xs ys = xs @ filter (\<lambda>y. key y \<notin> key ` set xs) ys"

definition step_ids :: "usecase_spec \<Rightarrow> string list" where
  "step_ids uc = map st_id (uc_steps uc)"

definition step_clash :: "usecase_spec \<Rightarrow> usecase_spec \<Rightarrow> string list" where
  "step_clash parent uc = filter (\<lambda>i. i \<in> set (step_ids uc)) (step_ids parent)"

text \<open>\<^verbatim>\<open>uc.trigger or parent.trigger\<close>\<close>

definition or_else :: "string option \<Rightarrow> string option \<Rightarrow> string option" where
  "or_else a b = (if a = None \<or> a = Some [] then b else a)"

text \<open>
  The flattened record the code builds. \<^verbatim>\<open>assumed_preconditions\<close> and \<^verbatim>\<open>terminal\<close> are not passed
  to the constructor, so they take the class's defaults.
\<close>

definition flatten_onto :: "usecase_spec \<Rightarrow> usecase_spec \<Rightarrow> usecase_spec" where
  "flatten_onto uc parent =
     \<lparr>uc_metadata = uc_metadata uc,
      uc_extends = None,
      uc_trigger = or_else (uc_trigger uc) (uc_trigger parent),
      uc_input_from_event = dict_merge (uc_input_from_event parent) (uc_input_from_event uc),
      uc_requires = merge_new req_ref (uc_requires parent) (uc_requires uc),
      uc_preconditions = merge_new id (uc_preconditions parent) (uc_preconditions uc),
      uc_assumed_preconditions = [],
      uc_steps = uc_steps parent @ uc_steps uc,
      uc_alternative_flows = uc_alternative_flows parent @ uc_alternative_flows uc,
      uc_postconditions = merge_new id (uc_postconditions parent) (uc_postconditions uc),
      uc_terminal = False,
      uc_invariants = merge_new invariant_reference (uc_invariants parent) (uc_invariants uc),
      uc_concurrency = uc_concurrency parent @ uc_concurrency uc\<rparr>"

definition not_known_error :: "string \<Rightarrow> composition_error" where
  "not_known_error ext = \<lparr>ce_code = PARENT_NOT_FOUND, ce_message =
     ''PARENT_NOT_FOUND: extends reference '' @ quoted ext
     @ '' does not resolve to a known use case''\<rparr>"

definition not_usecase_error :: "string \<Rightarrow> any_spec \<Rightarrow> composition_error" where
  "not_usecase_error ext s = \<lparr>ce_code = PARENT_NOT_FOUND, ce_message =
     ''PARENT_NOT_FOUND: extends reference '' @ quoted ext @ '' resolves to a '' @ spec_kind s
     @ '', not a use case''\<rparr>"

definition circular_error :: "string list \<Rightarrow> string \<Rightarrow> composition_error" where
  "circular_error chain name = \<lparr>ce_code = CIRCULAR_EXTENDS, ce_message =
     ''CIRCULAR_EXTENDS: circular extends: '' @ py_join '' -> '' chain @ '' -> '' @ name\<rparr>"

definition clash_error :: "string list \<Rightarrow> composition_error" where
  "clash_error clash = \<lparr>ce_code = STEP_ID_CLASH, ce_message =
     ''STEP_ID_CLASH: step IDs conflict between parent and child: ''
     @ repr_str_list (sorted_set clash)\<rparr>"

definition known_usecase_names :: "registry \<Rightarrow> string set" where
  "known_usecase_names r = {uc_name u | u. UseCaseSpec u \<in> set (dict_values (by_ref r))}"

lemma finite_known_usecase_names [simp]: "finite (known_usecase_names r)"
proof -
  have "known_usecase_names r \<subseteq> spec_name ` set (dict_values (by_ref r))"
    by (force simp: known_usecase_names_def)
  then show ?thesis by (rule finite_subset) simp
qed

lemma resolve_known_name:
  "resolve_ref r ref = Some (UseCaseSpec u) \<Longrightarrow> uc_name u \<in> known_usecase_names r"
  unfolding known_usecase_names_def using resolve_ref_in_index by blast

text \<open>The optional argument \<^verbatim>\<open>_chain\<close> is the list \<open>ch\<close>; \<open>[]\<close> stands for \<^verbatim>\<open>None\<close>.\<close>

function resolve_extends ::
  "registry \<Rightarrow> string list \<Rightarrow> usecase_spec \<Rightarrow>
     (composition_error, usecase_spec \<times> string list \<times> string list) res" where
  "resolve_extends r ch uc =
     (case uc_extends uc of
        None \<Rightarrow> Inr (uc, [uc_name uc], [])
      | Some ext \<Rightarrow>
          let chain = (if ch = [] then [uc_name uc] else ch) in
          (case resolve_ref r (parent_ref ext) of
             None \<Rightarrow> Inl (not_known_error ext)
           | Some (UseCaseSpec parent) \<Rightarrow>
               if uc_name parent \<in> set chain then Inl (circular_error chain (uc_name parent))
               else
                 (case (if uc_extends parent \<noteq> None
                        then resolve_extends r (chain @ [uc_name parent]) parent
                        else Inr (parent, chain @ [uc_name parent], [])) of
                    Inl e \<Rightarrow> Inl e
                  | Inr (flat_parent, full_chain, ancestor_step_ids) \<Rightarrow>
                      if step_clash flat_parent uc \<noteq> []
                      then Inl (clash_error (step_clash flat_parent uc))
                      else Inr (flatten_onto uc flat_parent, full_chain, step_ids flat_parent))
           | Some s \<Rightarrow> Inl (not_usecase_error ext s)))"
  by pat_completeness auto
termination
proof (relation "measure (\<lambda>(r, ch, uc). card (known_usecase_names r - set ch))")
  fix r ch uc ext chain s parent
  assume chain: "chain = (if ch = [] then [uc_name uc] else ch)"
    and res: "resolve_ref r (parent_ref ext) = Some s" and s: "s = UseCaseSpec parent"
    and new: "uc_name parent \<notin> set chain"
  have p: "uc_name parent \<in> known_usecase_names r"
    using res s resolve_known_name by blast
  have "known_usecase_names r - set (chain @ [uc_name parent]) \<subset> known_usecase_names r - set ch"
    using p new chain by (cases "ch = []") auto
  then show "((r, chain @ [uc_name parent], parent), r, ch, uc)
      \<in> measure (\<lambda>(r, ch, uc). card (known_usecase_names r - set ch))"
    by (auto intro: psubset_card_mono)
qed simp

declare resolve_extends.simps [simp del]

section \<open>The specification\<close>

inductive extends_path ::
  "(string \<Rightarrow> any_spec option) \<Rightarrow> usecase_spec \<Rightarrow> usecase_spec list \<Rightarrow> bool"
  for resolve where
  root: "uc_extends uc = None \<Longrightarrow> extends_path resolve uc [uc]"
| child: "uc_extends uc = Some ext \<Longrightarrow> resolve (parent_ref ext) = Some (UseCaseSpec parent) \<Longrightarrow>
    extends_path resolve parent us \<Longrightarrow> extends_path resolve uc (uc # us)"

lemma extends_path_None: "uc_extends uc = None \<Longrightarrow> extends_path resolve uc us \<longleftrightarrow> us = [uc]"
  by (subst extends_path.simps) simp

lemma extends_path_Some:
  assumes "uc_extends uc = Some ext"
  shows "extends_path resolve uc us \<longleftrightarrow>
    (\<exists>p vs. resolve (parent_ref ext) = Some (UseCaseSpec p) \<and> us = uc # vs \<and> extends_path resolve p vs)"
  by (subst extends_path.simps) (use assms in simp, metis)

fun flatten_path :: "usecase_spec list \<Rightarrow> usecase_spec" where
  "flatten_path [] = undefined"
| "flatten_path [u] = u"
| "flatten_path (u # v # us) = flatten_onto u (flatten_path (v # us))"

text \<open>No step id of a use case is a step id of one of its ancestors.\<close>

fun steps_disjoint :: "usecase_spec list \<Rightarrow> bool" where
  "steps_disjoint [] = True"
| "steps_disjoint (u # us) =
     ((\<forall>v \<in> set us. set (step_ids u) \<inter> set (step_ids v) = {}) \<and> steps_disjoint us)"

lemma extends_path_Cons: "extends_path resolve uc us \<Longrightarrow> \<exists>vs. us = uc # vs"
  by (erule extends_path.cases) simp_all

lemma extends_path_deterministic:
  "extends_path resolve uc us \<Longrightarrow> extends_path resolve uc vs \<Longrightarrow> us = vs"
proof (induction arbitrary: vs rule: extends_path.induct)
  case (root uc)
  then show ?case by (simp add: extends_path_None)
next
  case (child uc ext parent us)
  from child.prems child.hyps(1) obtain p ws where
    p: "resolve (parent_ref ext) = Some (UseCaseSpec p)" and vs: "vs = uc # ws" "extends_path resolve p ws"
    by (auto simp: extends_path_Some)
  from p child.hyps(2) have "p = parent" by simp
  with vs child.IH show ?case by simp
qed

lemma extends_path_mem:
  "extends_path resolve uc us \<Longrightarrow> v \<in> set us \<Longrightarrow> \<exists>vs. extends_path resolve v vs \<and> suffix vs us"
proof (induction rule: extends_path.induct)
  case (root uc)
  then show ?case by (auto intro: extends_path.root)
next
  case (child uc ext parent us)
  show ?case
  proof (cases "v = uc")
    case True
    with child.hyps show ?thesis by (auto intro: extends_path.child)
  next
    case False
    with child.prems child.IH show ?thesis by (auto intro: suffix_ConsI)
  qed
qed

text \<open>What the laws of \<open>spec_source\<close> give: a chain that reaches a root never repeats a name.\<close>

context spec_source
begin

lemma path_universe:
  "extends_path resolve uc us \<Longrightarrow> uc \<in> set universe \<Longrightarrow> set us \<subseteq> set universe"
  by (induction rule: extends_path.induct) (auto dest: resolve_universe)

lemma path_distinct:
  "extends_path resolve uc us \<Longrightarrow> uc \<in> set universe \<Longrightarrow> distinct (map uc_name us)"
proof (induction rule: extends_path.induct)
  case (root uc)
  show ?case by simp
next
  case (child uc ext parent us)
  have p: "parent \<in> set universe" using child.hyps(2) by (rule resolve_universe)
  have "uc_name uc \<notin> uc_name ` set us"
  proof
    assume "uc_name uc \<in> uc_name ` set us"
    then obtain v where v: "v \<in> set us" "uc_name v = uc_name uc" by auto
    moreover have "set us \<subseteq> set universe" using child.hyps(3) p by (rule path_universe)
    ultimately have "v = uc" using universe_names child.prems by blast
    then obtain vs where vs: "extends_path resolve uc vs" "suffix vs us"
      using extends_path_mem [OF child.hyps(3) v(1)] by blast
    have "vs = uc # us"
      using vs(1) extends_path.child [OF child.hyps] by (rule extends_path_deterministic)
    with vs(2) show False by (auto dest: suffix_length_le)
  qed
  with child.IH [OF p] show ?case by simp
qed

end

section \<open>Correctness\<close>

lemma step_ids_flatten_onto [simp]: "step_ids (flatten_onto uc p) = step_ids p @ step_ids uc"
  by (simp add: step_ids_def flatten_onto_def)

lemma step_ids_flatten_path:
  "us \<noteq> [] \<Longrightarrow> step_ids (flatten_path us) = concat (map step_ids (rev us))"
  by (induction us rule: flatten_path.induct) simp_all

lemma uc_extends_flatten_path: "extends_path resolve uc us \<Longrightarrow> uc_extends (flatten_path us) = None"
proof (induction rule: extends_path.induct)
  case (child uc ext parent us)
  then show ?case by (cases us) (auto simp: flatten_onto_def dest: extends_path_Cons)
qed simp

lemma step_clash_Nil:
  "step_clash p uc = [] \<longleftrightarrow> set (step_ids uc) \<inter> set (step_ids p) = {}"
  by (auto simp: step_clash_def filter_empty_conv)

lemma step_clash_path:
  "us \<noteq> [] \<Longrightarrow> step_clash (flatten_path us) uc = [] \<longleftrightarrow>
     (\<forall>v \<in> set us. set (step_ids uc) \<inter> set (step_ids v) = {})"
  by (auto simp: step_clash_Nil step_ids_flatten_path)

text \<open>One call, seen from the child: what it returns for an \<^verbatim>\<open>extends\<close> that is present.\<close>

lemma resolve_extends_None:
  "uc_extends uc = None \<Longrightarrow> resolve_extends r ch uc = Inr (uc, [uc_name uc], [])"
  by (subst resolve_extends.simps) simp

lemma resolve_extends_unknown:
  "uc_extends uc = Some ext \<Longrightarrow> resolve_ref r (parent_ref ext) = None \<Longrightarrow>
     resolve_extends r ch uc = Inl (not_known_error ext)"
  by (subst resolve_extends.simps) simp

lemma usecase_kind_iff: "spec_kind s = ''usecase'' \<longleftrightarrow> (\<exists>u. s = UseCaseSpec u)"
  by (cases s) simp_all

lemma resolve_extends_other:
  "uc_extends uc = Some ext \<Longrightarrow> resolve_ref r (parent_ref ext) = Some s \<Longrightarrow>
     spec_kind s \<noteq> ''usecase'' \<Longrightarrow> resolve_extends r ch uc = Inl (not_usecase_error ext s)"
  by (subst resolve_extends.simps) (cases s; simp)

text \<open>The step to a parent; \<open>start_chain\<close> is the chain a call starts from.\<close>

definition start_chain :: "string list \<Rightarrow> usecase_spec \<Rightarrow> string list" where
  "start_chain ch uc = (if ch = [] then [uc_name uc] else ch)"

definition parent_result ::
  "registry \<Rightarrow> string list \<Rightarrow> usecase_spec \<Rightarrow>
     (composition_error, usecase_spec \<times> string list \<times> string list) res" where
  "parent_result r chain p =
     (if uc_extends p = None then Inr (p, chain, []) else resolve_extends r chain p)"

lemma resolve_extends_parent:
  assumes "uc_extends uc = Some ext" "resolve_ref r (parent_ref ext) = Some (UseCaseSpec p)"
  shows "resolve_extends r ch uc =
    (if uc_name p \<in> set (start_chain ch uc)
     then Inl (circular_error (start_chain ch uc) (uc_name p))
     else case parent_result r (start_chain ch uc @ [uc_name p]) p of
         Inl e \<Rightarrow> Inl e
       | Inr (fp, full_chain, ids) \<Rightarrow>
           if step_clash fp uc \<noteq> [] then Inl (clash_error (step_clash fp uc))
           else Inr (flatten_onto uc fp, full_chain, step_ids fp))"
  by (subst resolve_extends.simps)
    (simp add: assms start_chain_def parent_result_def del: not_None_eq)

lemma resolve_extends_Some:
  assumes "uc_extends uc = Some ext"
  shows "resolve_extends r ch uc = Inr (f, chain, ids) \<longleftrightarrow>
    (\<exists>us. extends_path (resolve_ref r) uc (uc # us) \<and> us \<noteq> [] \<and>
          distinct (map uc_name us) \<and> set (map uc_name us) \<inter> set (start_chain ch uc) = {} \<and>
          steps_disjoint (uc # us) \<and> f = flatten_path (uc # us) \<and>
          chain = start_chain ch uc @ map uc_name us \<and> ids = step_ids (flatten_path us))"
  using assms
proof (induction r ch uc arbitrary: f chain ids ext rule: resolve_extends.induct)
  case (1 r ch uc)
  note ext = "1.prems"
  consider (unknown) "resolve_ref r (parent_ref ext) = None"
    | (other) s where "resolve_ref r (parent_ref ext) = Some s" "spec_kind s \<noteq> ''usecase''"
    | (parent) p where "resolve_ref r (parent_ref ext) = Some (UseCaseSpec p)"
    using usecase_kind_iff by (metis not_None_eq)
  then show ?case
  proof cases
    case unknown
    then show ?thesis using ext by (simp add: resolve_extends_unknown extends_path_Some)
  next
    case other
    then show ?thesis using ext by (auto simp: resolve_extends_other extends_path_Some)
  next
    case (parent p)
    let ?c = "start_chain ch uc"
    let ?c1 = "?c @ [uc_name p]"
    have rec: "(\<exists>ids. parent_result r ?c1 p = Inr (fp, full, ids)) \<longleftrightarrow>
      (\<exists>vs. extends_path (resolve_ref r) p (p # vs) \<and> distinct (map uc_name vs) \<and>
        set (map uc_name vs) \<inter> set ?c1 = {} \<and> steps_disjoint (p # vs) \<and>
        fp = flatten_path (p # vs) \<and> full = ?c1 @ map uc_name vs)"
      if new: "uc_name p \<notin> set ?c" for fp full
    proof (cases "uc_extends p")
      case None
      then show ?thesis by (auto simp: parent_result_def extends_path_None)
    next
      case (Some e)
      have "resolve_extends r ?c1 p = Inr (fp, full, ids) \<longleftrightarrow>
        (\<exists>us. extends_path (resolve_ref r) p (p # us) \<and> us \<noteq> [] \<and>
          distinct (map uc_name us) \<and> set (map uc_name us) \<inter> set (start_chain ?c1 p) = {} \<and>
          steps_disjoint (p # us) \<and> fp = flatten_path (p # us) \<and>
          full = start_chain ?c1 p @ map uc_name us \<and> ids = step_ids (flatten_path us))" for ids
        by (rule "1.IH" [OF ext refl parent refl, folded start_chain_def, OF new _ Some])
          (simp add: Some)
      moreover have "us \<noteq> []" if "extends_path (resolve_ref r) p (p # us)" for us
        using that Some by (auto simp: extends_path_Some dest: extends_path_Cons)
      moreover have "start_chain ?c1 p = ?c1" by (simp add: start_chain_def)
      moreover have "parent_result r ?c1 p = resolve_extends r ?c1 p"
        using Some by (simp add: parent_result_def)
      ultimately show ?thesis by metis
    qed
    show ?thesis
    proof (cases "uc_name p \<in> set ?c")
      case True
      then show ?thesis using ext parent
        by (auto simp: resolve_extends_parent extends_path_Some dest!: extends_path_Cons)
    next
      case new: False
      have "resolve_extends r ch uc = Inr (f, chain, ids) \<longleftrightarrow>
        (\<exists>fp. (\<exists>i. parent_result r ?c1 p = Inr (fp, chain, i)) \<and> step_clash fp uc = [] \<and>
          f = flatten_onto uc fp \<and> ids = step_ids fp)"
        using new by (auto simp: resolve_extends_parent [OF ext parent] split: sum.splits)
      also have "\<dots> \<longleftrightarrow> (\<exists>vs. extends_path (resolve_ref r) p (p # vs) \<and> distinct (map uc_name vs) \<and>
        set (map uc_name vs) \<inter> set ?c1 = {} \<and> steps_disjoint (uc # p # vs) \<and>
        f = flatten_path (uc # p # vs) \<and> chain = ?c1 @ map uc_name vs \<and>
        ids = step_ids (flatten_path (p # vs)))"
        unfolding rec [OF new] by (auto simp: step_clash_path)
      also have "\<dots> \<longleftrightarrow> (\<exists>us. extends_path (resolve_ref r) uc (uc # us) \<and> us \<noteq> [] \<and>
          distinct (map uc_name us) \<and> set (map uc_name us) \<inter> set ?c = {} \<and>
          steps_disjoint (uc # us) \<and> f = flatten_path (uc # us) \<and>
          chain = ?c @ map uc_name us \<and> ids = step_ids (flatten_path us))"
      proof -
        have path: "extends_path (resolve_ref r) uc (uc # us) \<longleftrightarrow>
            (\<exists>vs. us = p # vs \<and> extends_path (resolve_ref r) p (p # vs))" for us
          using parent extends_path_Cons [of "resolve_ref r" p us]
          by (auto simp: extends_path_Some [OF ext])
        have pull: "(\<exists>us. (\<exists>vs. us = p # vs \<and> Q vs) \<and> R us) \<longleftrightarrow> (\<exists>vs. Q vs \<and> R (p # vs))" for Q R
          by blast
        show ?thesis unfolding path pull using new by auto
      qed
      finally show ?thesis .
    qed
  qed
qed

section \<open>Outcomes\<close>

text \<open>
  The three ways in which a chain of \<^verbatim>\<open>extends\<close> references can go wrong: it reaches a reference
  that is not a use case (\<open>dangling\<close>), it runs in a circle, or a step id is declared twice on it.
\<close>

definition extends_step ::
  "(string \<Rightarrow> any_spec option) \<Rightarrow> usecase_spec \<Rightarrow> usecase_spec \<Rightarrow> bool" where
  "extends_step resolve u v \<longleftrightarrow>
     (case uc_extends u of None \<Rightarrow> False
      | Some ext \<Rightarrow> resolve (parent_ref ext) = Some (UseCaseSpec v))"

definition unresolved :: "(string \<Rightarrow> any_spec option) \<Rightarrow> usecase_spec \<Rightarrow> bool" where
  "unresolved resolve u \<longleftrightarrow>
     (case uc_extends u of None \<Rightarrow> False
      | Some ext \<Rightarrow> (case resolve (parent_ref ext) of
            None \<Rightarrow> True | Some s \<Rightarrow> spec_kind s \<noteq> ''usecase''))"

definition dangling :: "(string \<Rightarrow> any_spec option) \<Rightarrow> usecase_spec \<Rightarrow> bool" where
  "dangling resolve u \<longleftrightarrow> (\<exists>v. (extends_step resolve)\<^sup>*\<^sup>* u v \<and> unresolved resolve v)"

definition circular :: "(string \<Rightarrow> any_spec option) \<Rightarrow> usecase_spec \<Rightarrow> bool" where
  "circular resolve u \<longleftrightarrow>
     (\<exists>v. (extends_step resolve)\<^sup>*\<^sup>* u v \<and> (extends_step resolve)\<^sup>+\<^sup>+ v v)"

lemma extends_step_functional: "extends_step f u v \<Longrightarrow> extends_step f u w \<Longrightarrow> v = w"
  by (simp add: extends_step_def split: option.splits)

lemma extends_step_resolved: "extends_step f u v \<Longrightarrow> \<not> unresolved f u"
  by (auto simp: extends_step_def unresolved_def split: option.splits)

lemma extends_steps_via:
  "(extends_step f)\<^sup>*\<^sup>* u v \<Longrightarrow> extends_step f u p \<Longrightarrow> v = u \<or> (extends_step f)\<^sup>*\<^sup>* p v"
  by (metis converse_rtranclpE extends_step_functional)

lemma dangling_step: "extends_step f u p \<Longrightarrow> dangling f u \<longleftrightarrow> dangling f p"
  unfolding dangling_def
  by (metis converse_rtranclp_into_rtranclp extends_step_resolved extends_steps_via)

lemma circular_step: "extends_step f u p \<Longrightarrow> circular f u \<longleftrightarrow> circular f p"
proof -
  let ?S = "extends_step f"
  assume p: "?S u p"
  show "circular f u \<longleftrightarrow> circular f p"
  proof
    assume "circular f u"
    then obtain v where v: "?S\<^sup>*\<^sup>* u v" "?S\<^sup>+\<^sup>+ v v" by (auto simp: circular_def)
    then obtain w where w: "?S v w" "?S\<^sup>*\<^sup>* w v" by (meson tranclpD)
    have "?S\<^sup>*\<^sup>* p v"
    proof (cases "v = u")
      case True
      with w p show ?thesis by (auto dest: extends_step_functional)
    next
      case False
      with extends_steps_via [OF v(1) p] show ?thesis by simp
    qed
    with v(2) show "circular f p" by (auto simp: circular_def)
  next
    assume "circular f p"
    with p show "circular f u" by (auto simp: circular_def intro: converse_rtranclp_into_rtranclp)
  qed
qed

lemma dangling_not_circular:
  assumes "dangling f u"
  shows "\<not> circular f u"
proof -
  obtain v where v: "(extends_step f)\<^sup>*\<^sup>* u v" "unresolved f v"
    using assms by (auto simp: dangling_def)
  then show ?thesis
  proof (induction rule: converse_rtranclp_induct)
    case base
    then have "\<not> extends_step f v w" for w using extends_step_resolved by blast
    then show ?case by (metis circular_def converse_rtranclpE tranclpD)
  next
    case (step y z)
    then show ?case by (simp add: circular_step)
  qed
qed

lemma path_neither:
  "extends_path f u us \<Longrightarrow> \<not> dangling f u \<and> \<not> circular f u"
proof (induction rule: extends_path.induct)
  case (root u)
  then have "\<not> extends_step f u w" for w by (simp add: extends_step_def)
  with root show ?case
    by (auto simp: dangling_def circular_def unresolved_def dest: tranclpD elim: converse_rtranclpE)
next
  case (child u ext p us)
  then have "extends_step f u p" by (simp add: extends_step_def)
  with child.IH show ?case by (simp add: dangling_step circular_step)
qed

text \<open>What an error code says about the chain that starts at \<open>uc\<close>, the names \<open>c\<close> being visited.\<close>

definition fails_with ::
  "(string \<Rightarrow> any_spec option) \<Rightarrow> string list \<Rightarrow> usecase_spec \<Rightarrow> composition_code \<Rightarrow> bool" where
  "fails_with f c uc code =
     (case code of
        PARENT_NOT_FOUND \<Rightarrow> dangling f uc
      | STEP_ID_CLASH \<Rightarrow> (\<exists>us. extends_path f uc us \<and> \<not> steps_disjoint us)
      | CIRCULAR_EXTENDS \<Rightarrow>
          (\<exists>v w. (extends_step f)\<^sup>*\<^sup>* uc v \<and> extends_step f v w \<and>
             (uc_name w \<in> set c \<or>
              (\<exists>x. (extends_step f)\<^sup>*\<^sup>* uc x \<and> (extends_step f)\<^sup>*\<^sup>* x v \<and> uc_name x = uc_name w))))"

lemma fails_with_step:
  assumes step: "extends_step f uc p" and p: "fails_with f (c @ [uc_name p]) p code"
  shows "fails_with f c uc code"
proof (cases code)
  case PARENT_NOT_FOUND
  with p step show ?thesis by (simp add: fails_with_def dangling_step)
next
  case STEP_ID_CLASH
  with p obtain us where us: "extends_path f p us" "\<not> steps_disjoint us"
    by (auto simp: fails_with_def)
  from step obtain ext where "uc_extends uc = Some ext" "f (parent_ref ext) = Some (UseCaseSpec p)"
    by (auto simp: extends_step_def split: option.splits)
  then have "extends_path f uc (uc # us)" using us(1) by (rule extends_path.child)
  moreover have "\<not> steps_disjoint (uc # us)" using us by simp
  ultimately show ?thesis using STEP_ID_CLASH unfolding fails_with_def by (simp del: steps_disjoint.simps) blast
next
  case CIRCULAR_EXTENDS
  let ?S = "extends_step f"
  have down: "?S\<^sup>*\<^sup>* p x \<Longrightarrow> ?S\<^sup>*\<^sup>* uc x" for x
    using step by (rule converse_rtranclp_into_rtranclp)
  from p CIRCULAR_EXTENDS obtain v w where v: "?S\<^sup>*\<^sup>* p v" "?S v w"
    and w: "uc_name w \<in> set c \<or> uc_name p = uc_name w \<or>
      (\<exists>x. ?S\<^sup>*\<^sup>* p x \<and> ?S\<^sup>*\<^sup>* x v \<and> uc_name x = uc_name w)"
    by (auto simp: fails_with_def)
  from w v(1) have "uc_name w \<in> set c \<or> (\<exists>x. ?S\<^sup>*\<^sup>* uc x \<and> ?S\<^sup>*\<^sup>* x v \<and> uc_name x = uc_name w)"
    using down [of p] down by blast
  with v down CIRCULAR_EXTENDS show ?thesis unfolding fails_with_def by auto
qed

lemma parent_result_path:
  assumes "parent_result r c p = Inr (fp, full, ids)"
  shows "\<exists>us. extends_path (resolve_ref r) p (p # us) \<and> fp = flatten_path (p # us)"
  using assms
  by (cases "uc_extends p") (auto simp: parent_result_def extends_path_None resolve_extends_Some)

lemma unresolved_fails: "unresolved f uc \<Longrightarrow> fails_with f c uc PARENT_NOT_FOUND"
  by (auto simp: fails_with_def dangling_def)

lemma resolve_extends_Inl:
  "resolve_extends r ch uc = Inl e \<Longrightarrow> fails_with (resolve_ref r) (start_chain ch uc) uc (ce_code e)"
proof (induction r ch uc arbitrary: e rule: resolve_extends.induct)
  case (1 r ch uc)
  let ?c = "start_chain ch uc"
  obtain ext where ext: "uc_extends uc = Some ext"
    using "1.prems" by (cases "uc_extends uc") (simp_all add: resolve_extends_None)
  consider (unknown) "resolve_ref r (parent_ref ext) = None"
    | (other) s where "resolve_ref r (parent_ref ext) = Some s" "spec_kind s \<noteq> ''usecase''"
    | (parent) p where "resolve_ref r (parent_ref ext) = Some (UseCaseSpec p)"
    using usecase_kind_iff by (metis not_None_eq)
  then show ?case
  proof cases
    case unknown
    with ext "1.prems" have "ce_code e = PARENT_NOT_FOUND" "unresolved (resolve_ref r) uc"
      by (auto simp: resolve_extends_unknown not_known_error_def unresolved_def)
    then show ?thesis using unresolved_fails by simp
  next
    case other
    with ext "1.prems" have "ce_code e = PARENT_NOT_FOUND" "unresolved (resolve_ref r) uc"
      by (auto simp: resolve_extends_other not_usecase_error_def unresolved_def)
    then show ?thesis using unresolved_fails by simp
  next
    case (parent p)
    have step: "extends_step (resolve_ref r) uc p" using ext parent by (simp add: extends_step_def)
    note call = "1.prems" [unfolded resolve_extends_parent [OF ext parent]]
    consider (circ) "uc_name p \<in> set ?c"
      | (res) fp full ids where "uc_name p \<notin> set ?c" "parent_result r (?c @ [uc_name p]) p = Inr (fp, full, ids)"
      | (err) e' where "uc_name p \<notin> set ?c" "parent_result r (?c @ [uc_name p]) p = Inl e'"
      by (metis prod_cases3 sum.exhaust)
    then show ?thesis
    proof cases
      case circ
      with call have "ce_code e = CIRCULAR_EXTENDS" by (auto simp: circular_error_def)
      with step circ show ?thesis unfolding fails_with_def by auto
    next
      case res
      then have clash: "step_clash fp uc \<noteq> []" and code: "ce_code e = STEP_ID_CLASH"
        using call by (auto simp: clash_error_def split: if_splits)
      obtain us where us: "extends_path (resolve_ref r) p (p # us)" "fp = flatten_path (p # us)"
        using parent_result_path [OF res(2)] by blast
      have "extends_path (resolve_ref r) uc (uc # p # us)"
        using ext parent us(1) by (rule extends_path.child)
      moreover have "\<not> steps_disjoint (uc # p # us)"
        using clash us by (simp add: step_clash_path del: flatten_path.simps)
      ultimately show ?thesis using code
        unfolding fails_with_def by (simp del: steps_disjoint.simps) blast
    next
      case err
      with call have e': "e' = e" by simp
      obtain pe where pe: "uc_extends p = Some pe"
        using err by (auto simp: parent_result_def split: if_splits)
      have rec: "resolve_extends r (?c @ [uc_name p]) p = Inl e"
        using err e' pe by (simp add: parent_result_def)
      have "fails_with (resolve_ref r) (start_chain (?c @ [uc_name p]) p) p (ce_code e)"
        by (rule "1.IH" [OF ext refl parent refl, folded start_chain_def, OF err(1) _ rec])
          (simp add: pe)
      then show ?thesis using fails_with_step [OF step] by (simp add: start_chain_def)
    qed
  qed
qed

lemma resolve_extends_path:
  "resolve_extends r ch uc = Inr (f, chain, ids) \<Longrightarrow>
     \<exists>us. extends_path (resolve_ref r) uc us \<and> steps_disjoint us \<and> f = flatten_path us"
  by (cases "uc_extends uc")
    (auto simp: resolve_extends_None extends_path_None resolve_extends_Some
      simp del: flatten_path.simps(3) intro: exI [of _ "[uc]"])

lemma ex_path_Cons:
  "(\<exists>vs. extends_path f uc (uc # vs) \<and> Q (uc # vs)) \<longleftrightarrow> (\<exists>us. extends_path f uc us \<and> Q us)"
  using extends_path_Cons by blast

text \<open>In a source of specifications, a name that repeats is a use case that repeats.\<close>

context spec_source
begin

lemma step_universe: "extends_step resolve u v \<Longrightarrow> v \<in> set universe"
  by (auto simp: extends_step_def split: option.splits intro: resolve_universe)

lemma steps_universe:
  "(extends_step resolve)\<^sup>*\<^sup>* u v \<Longrightarrow> u \<in> set universe \<Longrightarrow> v \<in> set universe"
  by (induction rule: rtranclp_induct) (auto intro: step_universe)

lemma fails_circular:
  assumes uc: "uc \<in> set universe" and fail: "fails_with resolve [uc_name uc] uc CIRCULAR_EXTENDS"
  shows "circular resolve uc"
proof -
  let ?S = "extends_step resolve"
  obtain v w x where v: "?S\<^sup>*\<^sup>* uc v" "?S v w"
    and x: "?S\<^sup>*\<^sup>* uc x" "?S\<^sup>*\<^sup>* x v" "uc_name x = uc_name w"
    using fail unfolding fails_with_def by (auto dest: sym)
  have "x = w"
    using steps_universe [OF x(1) uc] step_universe [OF v(2)] x(3) by (rule universe_names)
  with x(2) v(2) have "?S\<^sup>+\<^sup>+ x x" by (metis rtranclp_into_tranclp1)
  with x(1) show ?thesis by (auto simp: circular_def)
qed

lemma fails_iff:
  assumes uc: "uc \<in> set universe"
  shows "fails_with resolve [uc_name uc] uc code \<longleftrightarrow>
    (case code of
       PARENT_NOT_FOUND \<Rightarrow> dangling resolve uc
     | CIRCULAR_EXTENDS \<Rightarrow> circular resolve uc
     | STEP_ID_CLASH \<Rightarrow> (\<exists>us. extends_path resolve uc us \<and> \<not> steps_disjoint us))"
proof (cases code)
  case CIRCULAR_EXTENDS
  have "fails_with resolve [uc_name uc] uc CIRCULAR_EXTENDS" if "circular resolve uc"
  proof -
    from that obtain v where v: "(extends_step resolve)\<^sup>*\<^sup>* uc v" "(extends_step resolve)\<^sup>+\<^sup>+ v v"
      by (auto simp: circular_def)
    then obtain x where x: "(extends_step resolve)\<^sup>*\<^sup>* v x" "extends_step resolve x v"
      using tranclD2 [to_pred] by metis
    from v(1) x(1) have "(extends_step resolve)\<^sup>*\<^sup>* uc x" by (rule rtranclp_trans)
    with x v(1) show ?thesis unfolding fails_with_def composition_code.case by blast
  qed
  with fails_circular [OF uc] CIRCULAR_EXTENDS show ?thesis by auto
qed (simp_all add: fails_with_def)

end

section \<open>Properties\<close>

definition example_base :: usecase_spec where
  "example_base = plain_usecase ''Base'' None [plain_step ''s1'' ''actions/A'']"

definition example_child :: usecase_spec where
  "example_child = plain_usecase ''Child'' (Some ''$ref:use-cases/Base'')
     [plain_step ''s2'' ''actions/A'']"

definition example_loop :: usecase_spec where
  "example_loop = plain_usecase ''Loop'' (Some ''usecase/Loop'') []"

definition example_registry :: registry where
  "example_registry = registry_of
     [(''base.yaml'', UseCaseSpec example_base), (''child.yaml'', UseCaseSpec example_child),
      (''loop.yaml'', UseCaseSpec example_loop)]"

lemma example_registry_inv: "registry_inv example_registry"
  by (simp add: example_registry_def)

lemma example_child_known: "example_child \<in> set (usecases example_registry)"
  by code_simp

lemma example_path:
  "extends_path (resolve_ref example_registry) example_child [example_child, example_base]"
proof (rule extends_path.child)
  show "uc_extends example_child = Some ''$ref:use-cases/Base''" by code_simp
  show "resolve_ref example_registry (parent_ref ''$ref:use-cases/Base'')
      = Some (UseCaseSpec example_base)" by code_simp
  show "extends_path (resolve_ref example_registry) example_base [example_base]"
    by (rule extends_path.root) code_simp
qed

lemma example_resolved:
  obtains f ids where
    "resolve_extends example_registry [] example_child = Inr (f, [''Child'', ''Base''], ids)"
proof -
  have "map_sum id (\<lambda>(f, chain, ids). chain) (resolve_extends example_registry [] example_child)
      = Inr [''Child'', ''Base'']"
    by code_simp
  then show ?thesis
    using that by (cases "resolve_extends example_registry [] example_child") auto
qed

text \<open>
  The documented order of \<^verbatim>\<open>extends_chain\<close>, from the root to the child, is never the order of the
  returned list when \<^verbatim>\<open>uc\<close> extends something: the list then starts with the name of \<^verbatim>\<open>uc\<close>, and a
  root-to-child list of the same names would end with it.
\<close>

lemma chain_not_in_documented_order:
  assumes result: "resolve_extends r [] uc = Inr (f, chain, ids)" and "uc_extends uc \<noteq> None"
    and path: "extends_path (resolve_ref r) uc us"
  shows "chain = map uc_name us \<and> chain \<noteq> rev (map uc_name us)"
proof -
  from assms(2) obtain ext where ext: "uc_extends uc = Some ext" by blast
  obtain vs where vs: "extends_path (resolve_ref r) uc (uc # vs)" "vs \<noteq> []"
    "distinct (map uc_name vs)" "set (map uc_name vs) \<inter> set (start_chain [] uc) = {}"
    "chain = start_chain [] uc @ map uc_name vs"
    using result unfolding resolve_extends_Some [OF ext] by blast
  have us: "us = uc # vs" using path vs(1) by (rule extends_path_deterministic)
  have "uc_name (last vs) \<noteq> uc_name uc"
    using vs(2,4) by (auto simp: start_chain_def) (metis image_eqI last_in_set)
  then have "last (map uc_name us) \<noteq> hd (map uc_name us)" using us vs(2) by (simp add: last_map)
  then have "map uc_name us \<noteq> rev (map uc_name us)" by (metis hd_rev)
  moreover have "chain = map uc_name us" using vs(5) us by (simp add: start_chain_def)
  ultimately show ?thesis by simp
qed

text \<open>
  C1: \<^verbatim>\<open>resolve_extends(uc, registry)\<close> returns a result exactly when the \<^verbatim>\<open>extends\<close> references
  lead from \<^verbatim>\<open>uc\<close> to a use case that extends nothing, without meeting a name twice and without
  two use cases of the chain declaring the same step id; then the result is the flattening of that
  chain, the names of the chain from the child to the root, and the step ids of the ancestors from
  the root downwards. The order of the names is that of the code, which starts the list with the
  child and appends each parent. It is the reverse of the documented one: the output
  \<^verbatim>\<open>extends_chain\<close> of \<^verbatim>\<open>specs/actions/resolve-uc-extends.yaml\<close> is to list the names
  from the root ancestor to the child. \<^verbatim>\<open>chain_not_in_documented_order\<close> shows that the two never
  agree when there is a parent.
\<close>

theorem resolve_extends_correct:
  "resolve_extends r [] uc = Inr (f, chain, ids) \<longleftrightarrow>
    (\<exists>us. extends_path (resolve_ref r) uc us \<and> distinct (map uc_name us) \<and> steps_disjoint us \<and>
          f = flatten_path us \<and> chain = map uc_name us \<and>
          ids = concat (map step_ids (rev (tl us))))"
proof (cases "uc_extends uc")
  case None
  then show ?thesis by (auto simp: resolve_extends_None extends_path_None)
next
  case (Some ext)
  have pointwise: "extends_path (resolve_ref r) uc (uc # us) \<and> us \<noteq> [] \<and> distinct (map uc_name us) \<and>
      set (map uc_name us) \<inter> set (start_chain [] uc) = {} \<and> steps_disjoint (uc # us) \<and>
      f = flatten_path (uc # us) \<and> chain = start_chain [] uc @ map uc_name us \<and>
      ids = step_ids (flatten_path us) \<longleftrightarrow>
    extends_path (resolve_ref r) uc (uc # us) \<and> distinct (map uc_name (uc # us)) \<and>
      steps_disjoint (uc # us) \<and> f = flatten_path (uc # us) \<and> chain = map uc_name (uc # us) \<and>
      ids = concat (map step_ids (rev us))" for us
    using extends_path_Some [OF Some, of "resolve_ref r" "uc # us"]
    by (cases us) (auto simp: start_chain_def step_ids_flatten_path dest: extends_path_Cons)
  have "resolve_extends r [] uc = Inr (f, chain, ids) \<longleftrightarrow>
    (\<exists>vs. extends_path (resolve_ref r) uc (uc # vs) \<and> distinct (map uc_name (uc # vs)) \<and>
       steps_disjoint (uc # vs) \<and> f = flatten_path (uc # vs) \<and> chain = map uc_name (uc # vs) \<and>
       ids = concat (map step_ids (rev vs)))"
    unfolding resolve_extends_Some [OF Some] pointwise ..
  also have "\<dots> \<longleftrightarrow> (\<exists>us. extends_path (resolve_ref r) uc us \<and> distinct (map uc_name us) \<and>
       steps_disjoint us \<and> f = flatten_path us \<and> chain = map uc_name us \<and>
       ids = concat (map step_ids (rev (tl us))))"
    using ex_path_Cons [of "resolve_ref r" uc "\<lambda>us. distinct (map uc_name us) \<and>
       steps_disjoint us \<and> f = flatten_path us \<and> chain = map uc_name us \<and>
       ids = concat (map step_ids (rev (tl us)))"] by (simp only: list.sel(3))
  finally show ?thesis .
qed

text \<open>
  C2: In a loaded registry the exception tells the shape of the chain, and nothing else can happen:
  \<^verbatim>\<open>PARENT_NOT_FOUND\<close> means the chain reaches a reference that is not a use case,
  \<^verbatim>\<open>CIRCULAR_EXTENDS\<close> that it enters a cycle, \<^verbatim>\<open>STEP_ID_CLASH\<close> that it ends at a root but
  declares a step id twice; in the remaining case the result is the flattened chain.
\<close>

theorem resolve_extends_outcomes:
  assumes "registry_inv r" and "uc \<in> set (usecases r)"
  shows "case resolve_extends r [] uc of
      Inl e \<Rightarrow> (case ce_code e of
          PARENT_NOT_FOUND \<Rightarrow> dangling (resolve_ref r) uc
        | CIRCULAR_EXTENDS \<Rightarrow> circular (resolve_ref r) uc \<and> \<not> dangling (resolve_ref r) uc
        | STEP_ID_CLASH \<Rightarrow> (\<exists>us. extends_path (resolve_ref r) uc us \<and> \<not> steps_disjoint us))
    | Inr (f, chain, ids) \<Rightarrow>
        (\<exists>us. extends_path (resolve_ref r) uc us \<and> steps_disjoint us \<and> f = flatten_path us)"
proof (cases "resolve_extends r [] uc")
  case (Inl e)
  have "fails_with (resolve_ref r) [uc_name uc] uc (ce_code e)"
    using resolve_extends_Inl [OF Inl] by (simp add: start_chain_def)
  then have "case ce_code e of
       PARENT_NOT_FOUND \<Rightarrow> dangling (resolve_ref r) uc
     | CIRCULAR_EXTENDS \<Rightarrow> circular (resolve_ref r) uc
     | STEP_ID_CLASH \<Rightarrow> (\<exists>us. extends_path (resolve_ref r) uc us \<and> \<not> steps_disjoint us)"
    using spec_source.fails_iff [OF spec_source_registry [OF assms(1)] assms(2)] by blast
  with dangling_not_circular show ?thesis
    by (auto simp: Inl split: composition_code.splits)
next
  case (Inr res)
  obtain f chain ids where "res = (f, chain, ids)" by (cases res)
  with Inr resolve_extends_path show ?thesis by auto
qed

theorem resolve_extends_outcomes_witness:
  "registry_inv example_registry \<and> example_child \<in> set (usecases example_registry) \<and>
   (case resolve_extends example_registry [] example_child of
      Inl e \<Rightarrow> False
    | Inr (f, chain, ids) \<Rightarrow> chain = [''Child'', ''Base''] \<and>
        (\<exists>us. extends_path (resolve_ref example_registry) example_child us \<and> steps_disjoint us \<and>
              f = flatten_path us))"
proof -
  obtain f ids where
    "resolve_extends example_registry [] example_child = Inr (f, [''Child'', ''Base''], ids)"
    by (rule example_resolved)
  then show ?thesis
    using resolve_extends_outcomes [OF example_registry_inv example_child_known]
      example_registry_inv example_child_known
    by simp
qed

text \<open>
  What the flattened use case contains, for a chain \<^verbatim>\<open>us\<close> from the child to the root: it
  extends nothing and keeps the child's name; its steps are those of the chain, the root's first;
  its preconditions and postconditions are those of the whole chain; an event input and the trigger
  come from the use case nearest to the child that gives them.
\<close>

theorem flatten_path_contents:
  assumes "extends_path resolve uc us"
  shows "uc_extends (flatten_path us) = None \<and> uc_metadata (flatten_path us) = uc_metadata uc \<and>
    uc_steps (flatten_path us) = concat (map uc_steps (rev us)) \<and>
    set (uc_preconditions (flatten_path us)) = (\<Union>u\<in>set us. set (uc_preconditions u)) \<and>
    set (uc_postconditions (flatten_path us)) = (\<Union>u\<in>set us. set (uc_postconditions u)) \<and>
    map_of (uc_input_from_event (flatten_path us)) =
      foldr (\<lambda>u m. m ++ map_of (rev (uc_input_from_event u))) (butlast us)
        (map_of (uc_input_from_event (last us))) \<and>
    uc_trigger (flatten_path us) =
      foldr (\<lambda>u t. or_else (uc_trigger u) t) (butlast us) (uc_trigger (last us))"
  using assms
proof (induction rule: extends_path.induct)
  case (root uc)
  then show ?case by simp
next
  case (child uc ext parent us)
  obtain vs where us: "us = parent # vs" using child.hyps(3) extends_path_Cons by blast
  have flat: "flatten_path (uc # us) = flatten_onto uc (flatten_path us)" by (simp add: us)
  show ?case
    using child.IH unfolding flat
    by (auto simp: flatten_onto_def merge_new_def map_of_merge_rev us)
qed

theorem flatten_path_contents_witness:
  "extends_path (resolve_ref example_registry) example_child [example_child, example_base] \<and>
   uc_steps (flatten_path [example_child, example_base]) =
     [plain_step ''s1'' ''actions/A'', plain_step ''s2'' ''actions/A''] \<and>
   uc_extends (flatten_path [example_child, example_base]) = None"
proof -
  have "concat (map uc_steps (rev [example_child, example_base])) =
      [plain_step ''s1'' ''actions/A'', plain_step ''s2'' ''actions/A'']"
    by code_simp
  then show ?thesis
    using example_path flatten_path_contents [OF example_path] by (simp only:)
qed

text \<open>
  Composition loses two fields: whatever the child and its ancestors declare, a use case that
  was flattened has no assumed preconditions and is not terminal.
\<close>

theorem resolve_extends_drops:
  assumes "resolve_extends r ch uc = Inr (f, chain, ids)" and "uc_extends uc \<noteq> None"
  shows "uc_assumed_preconditions f = [] \<and> uc_terminal f = False"
proof -
  obtain ext where "uc_extends uc = Some ext" using assms(2) by blast
  with assms(1) obtain us where "f = flatten_path (uc # us)" "us \<noteq> []"
    by (auto simp: resolve_extends_Some)
  then show ?thesis by (cases us) (simp_all add: flatten_onto_def)
qed

theorem resolve_extends_drops_witness:
  "\<exists>f chain ids. resolve_extends example_registry [] example_child = Inr (f, chain, ids) \<and>
     uc_extends example_child \<noteq> None \<and> uc_assumed_preconditions f = [] \<and> uc_terminal f = False"
proof -
  obtain f ids where
    r: "resolve_extends example_registry [] example_child = Inr (f, [''Child'', ''Base''], ids)"
    by (rule example_resolved)
  have e: "uc_extends example_child \<noteq> None" by code_simp
  from resolve_extends_drops [OF r e] r e show ?thesis by blast
qed

end
