(* ===== verification/Validator.thy ===== *)
theory Validator
  imports Composition
begin

text \<open>
  The structural validator, \<^verbatim>\<open>src/ucf/validator/core.py\<close>. Each \<^verbatim>\<open>_validate_\<close> method appends
  issues to \<^verbatim>\<open>self.issues\<close>; here it returns the issues it appends, in order, and
  \<^verbatim>\<open>validate_all\<close> is their concatenation. The only place where the code prints a set
  (\<^verbatim>\<open>' -> '.join(visited)\<close>) takes the order of the set as the argument \<open>ord\<close>. The specification
  says which registries have no issue of severity \<^verbatim>\<open>error\<close>.
\<close>

section \<open>Issues\<close>

datatype issue_severity = SevError | SevWarning | SevInfo

datatype issue_category =
    BrokenRef | MissingField | Naming | Duplicate | Orphan | Unused | StepOrder
  | TypeMismatch | InvariantBinding | CompletenessIssue

record validation_issue =
  is_severity :: issue_severity
  is_category :: issue_category
  is_spec :: string
  is_message :: string
  is_suggestion :: string

definition issue ::
  "issue_severity \<Rightarrow> issue_category \<Rightarrow> string \<Rightarrow> string \<Rightarrow> string \<Rightarrow> validation_issue" where
  "issue sev cat spec msg sug = \<lparr>is_severity = sev, is_category = cat, is_spec = spec,
     is_message = msg, is_suggestion = sug\<rparr>"

section \<open>Names\<close>

definition kebab_part :: "string \<Rightarrow> bool" where
  "kebab_part p \<longleftrightarrow> p \<noteq> [] \<and> list_all (\<lambda>c. is_lower c \<or> is_digit c) p"

definition kebab_text :: "string \<Rightarrow> bool" where
  "kebab_text s \<longleftrightarrow> s \<noteq> [] \<and> is_lower (hd s) \<and> list_all kebab_part (split_on (CHR ''-'') s)"

text \<open>\<^verbatim>\<open>KEBAB_RE.match(name)\<close>; \<^verbatim>\<open>$\<close> also matches before a final line feed.\<close>

definition kebab_match :: "string \<Rightarrow> bool" where
  "kebab_match s \<longleftrightarrow>
     kebab_text s \<or> (s \<noteq> [] \<and> last s = CHR 0x0A \<and> kebab_text (butlast s))"

definition validate_naming :: "any_spec \<Rightarrow> validation_issue list" where
  "validate_naming spec =
     (let name = spec_name spec in
      if name = [] then
        [issue SevError MissingField ''<unnamed>'' ''Spec has an empty name''
           (''Add a non-empty '' @ quoted ''name'' @ '' field to metadata'')]
      else if \<not> kebab_match name then
        [issue SevWarning Naming name (''Name '' @ quoted name @ '' is not kebab-case'')
           ''Use lowercase letters and hyphens: my-action-name'']
      else [])"

section \<open>References\<close>

text \<open>\<^verbatim>\<open>model.__name__.removesuffix("Spec")\<close>; an expected type is given by its kind.\<close>

fun model_name :: "string \<Rightarrow> string" where
  "model_name k =
     (if k = ''action'' then ''Action'' else if k = ''event'' then ''Event''
      else if k = ''component'' then ''Component'' else if k = ''protocol'' then ''Protocol''
      else if k = ''usecase'' then ''UseCase'' else ''Invariant'')"

definition not_loaded_issue :: "string \<Rightarrow> string \<Rightarrow> string \<Rightarrow> validation_issue" where
  "not_loaded_issue relationship ref spec =
     issue SevError BrokenRef spec
       (relationship @ '' reference '' @ quoted ref @ '' is not loaded'')
       (''Ensure '' @ ref @ ''.yaml exists in specs/'')"

definition wrong_kind_issue ::
  "string \<Rightarrow> string \<Rightarrow> string \<Rightarrow> any_spec \<Rightarrow> string list \<Rightarrow> validation_issue" where
  "wrong_kind_issue relationship ref spec resolved expected =
     issue SevError TypeMismatch spec
       (relationship @ '' reference '' @ quoted ref @ '' resolves to kind ''
        @ quoted (spec_kind resolved) @ '', expected '' @ py_join '' or '' (map model_name expected))
       []"

definition validate_identity_ref ::
  "registry \<Rightarrow> string \<Rightarrow> string \<Rightarrow> string \<Rightarrow> string list \<Rightarrow> validation_issue list" where
  "validate_identity_ref r ref spec relationship expected =
     (case resolve_ref r ref of
        None \<Rightarrow> [not_loaded_issue relationship ref spec]
      | Some resolved \<Rightarrow>
          if spec_kind resolved \<notin> set expected
          then [wrong_kind_issue relationship ref spec resolved expected] else [])"

definition validate_step_ref :: "registry \<Rightarrow> string \<Rightarrow> string \<Rightarrow> validation_issue list" where
  "validate_step_ref r use spec =
     (if use = [] then [issue SevError MissingField spec (''Step has empty '' @ quoted ''use'' @ '' field'') []]
      else validate_identity_ref r use spec ''step'' [''action'', ''protocol''])"

definition with_default_prefix :: "string \<Rightarrow> string \<Rightarrow> string" where
  "with_default_prefix ref pre = (if CHR ''/'' \<in> set ref then ref else pre @ ''/'' @ ref)"

section \<open>The extends chain\<close>

definition circular_issue ::
  "(string list \<Rightarrow> string list) \<Rightarrow> string \<Rightarrow> string list \<Rightarrow> string \<Rightarrow> validation_issue" where
  "circular_issue ord name visited current =
     issue SevError BrokenRef name
       (''circular extends chain detected: '' @ py_join '' -> '' (ord visited) @ '' -> '' @ current) []"

text \<open>The loop over the ancestors: \<open>Some\<close> the issue, or \<open>None\<close> when the loop ends.\<close>

function extends_loop ::
  "(string list \<Rightarrow> string list) \<Rightarrow> registry \<Rightarrow> string \<Rightarrow> string list \<Rightarrow> usecase_spec \<Rightarrow>
     validation_issue option" where
  "extends_loop ord r name visited current =
     (if \<not> truthy (uc_extends current) then None
      else if uc_name current \<in> set visited
      then Some (circular_issue ord name visited (uc_name current))
      else
        (case resolve_ref r (parent_ref (the (uc_extends current))) of
           Some (UseCaseSpec p) \<Rightarrow> extends_loop ord r name (visited @ [uc_name current]) p
         | _ \<Rightarrow> None))"
  by pat_completeness auto
termination
proof (relation "measure (\<lambda>(ord, r, name, visited, current).
    card (insert (uc_name current) (known_usecase_names r) - set visited))")
  fix ord r name visited current s p
  assume res: "resolve_ref r (parent_ref (the (uc_extends current))) = Some s" "s = UseCaseSpec p"
    and new: "uc_name current \<notin> set visited"
  have "uc_name p \<in> known_usecase_names r" using res resolve_known_name by blast
  then have "insert (uc_name p) (known_usecase_names r) - set (visited @ [uc_name current])
      \<subset> insert (uc_name current) (known_usecase_names r) - set visited"
    using new by auto
  then show "((ord, r, name, visited @ [uc_name current], p), ord, r, name, visited, current)
      \<in> measure (\<lambda>(ord, r, name, visited, current).
          card (insert (uc_name current) (known_usecase_names r) - set visited))"
    by (auto intro: psubset_card_mono)
qed simp

declare extends_loop.simps [simp del]

definition parent_clash_issues :: "usecase_spec \<Rightarrow> usecase_spec \<Rightarrow> validation_issue list" where
  "parent_clash_issues parent uc =
     (let clash = step_clash parent uc in
      if clash \<noteq> [] then
        [issue SevError Duplicate (uc_name uc)
           (''step IDs conflict with parent: '' @ repr_str_list (sorted_set clash)) []]
      else [])"

definition validate_extends ::
  "(string list \<Rightarrow> string list) \<Rightarrow> registry \<Rightarrow> usecase_spec \<Rightarrow> validation_issue list" where
  "validate_extends ord r uc =
     (if \<not> truthy (uc_extends uc) then []
      else
        (let name = uc_name uc; ref = the (uc_extends uc) in
         case resolve_ref r (parent_ref ref) of
           None \<Rightarrow>
             [issue SevError BrokenRef name
               (''extends reference '' @ quoted ref @ '' does not resolve to a known use case'') []]
         | Some (UseCaseSpec parent) \<Rightarrow>
             (case extends_loop ord r name [name] parent of
                Some i \<Rightarrow> [i]
              | None \<Rightarrow> parent_clash_issues parent uc)
         | Some other \<Rightarrow>
             [issue SevError TypeMismatch name
               (''extends reference '' @ quoted ref @ '' resolves to a '' @ spec_kind other
                @ '', not a use case'') []]))"

section \<open>Use cases\<close>

definition duplicate_step_issue :: "string \<Rightarrow> string \<Rightarrow> validation_issue" where
  "duplicate_step_issue name i =
     issue SevError Duplicate name (''Duplicate step id '' @ quoted i @ '' in use case'') []"

fun duplicate_step_issues :: "string \<Rightarrow> string list \<Rightarrow> step_def list \<Rightarrow> validation_issue list" where
  "duplicate_step_issues name seen [] = []"
| "duplicate_step_issues name seen (s # ss) =
     (if st_id s \<in> set seen then [duplicate_step_issue name (st_id s)] else [])
       @ duplicate_step_issues name (seen @ [st_id s]) ss"

definition missing_dep_issue :: "string \<Rightarrow> string \<Rightarrow> string \<Rightarrow> string \<Rightarrow> validation_issue" where
  "missing_dep_issue name i context dep =
     issue SevError BrokenRef name (''Step '' @ quoted i @ context @ '' depends on '' @ quoted dep
       @ '' which does not exist'') []"

definition dep_issues ::
  "string \<Rightarrow> string \<Rightarrow> string list \<Rightarrow> step_def \<Rightarrow> validation_issue list" where
  "dep_issues name context ids s =
     map (missing_dep_issue name (st_id s) context) (filter (\<lambda>d. d \<notin> set ids) (st_depends_on s))"

text \<open>The body of a loop over steps: the reference and then the dependencies.\<close>

definition step_issues ::
  "registry \<Rightarrow> string \<Rightarrow> string \<Rightarrow> string list \<Rightarrow> step_def list \<Rightarrow> validation_issue list" where
  "step_issues r name context ids ss =
     concat (map (\<lambda>s. validate_step_ref r (st_use s) name @ dep_issues name context ids s) ss)"

definition trigger_issues :: "registry \<Rightarrow> usecase_spec \<Rightarrow> validation_issue list" where
  "trigger_issues r uc =
     (case uc_trigger uc of
        None \<Rightarrow> []
      | Some t \<Rightarrow>
          if prefix ''event/'' t \<or> prefix ''events/'' t
          then validate_identity_ref r t (uc_name uc) ''trigger'' [''event''] else [])"

definition alternative_issues ::
  "registry \<Rightarrow> usecase_spec \<Rightarrow> alternative_flow \<Rightarrow> validation_issue list" where
  "alternative_issues r uc alt =
     step_issues r (uc_name uc) ('' in alternative flow '' @ quoted (alt_name alt))
       (step_ids uc @ map st_id (alt_steps alt)) (alt_steps alt)"

definition validate_usecase ::
  "(string list \<Rightarrow> string list) \<Rightarrow> registry \<Rightarrow> usecase_spec \<Rightarrow> validation_issue list" where
  "validate_usecase ord r uc =
     (let name = uc_name uc in
      validate_extends ord r uc
      @ trigger_issues r uc
      @ (if uc_steps uc = [] then [issue SevError MissingField name ''Use case has no steps'' []] else [])
      @ (if uc_postconditions uc = []
         then [issue SevWarning MissingField name ''Use case has no postconditions''
                 ''Add postconditions to verify the expected outcome''] else [])
      @ duplicate_step_issues name [] (uc_steps uc)
      @ step_issues r name [] (step_ids uc) (uc_steps uc)
      @ concat (map (\<lambda>q. validate_identity_ref r (req_ref q) name ''requires'' [''component''])
          (uc_requires uc))
      @ concat (map (alternative_issues r uc) (uc_alternative_flows uc))
      @ concat (map (\<lambda>i. validate_identity_ref r (invariant_reference i) name ''invariant''
          [''invariant'']) (uc_invariants uc)))"

section \<open>The other kinds\<close>

definition validate_action :: "registry \<Rightarrow> action_spec \<Rightarrow> validation_issue list" where
  "validate_action r a =
     concat (map (\<lambda>e. validate_identity_ref r (with_default_prefix (em_event e) ''events'')
       (act_name a) ''emits'' [''event'']) (act_emits a))"

definition validate_component :: "registry \<Rightarrow> component_spec \<Rightarrow> validation_issue list" where
  "validate_component r c =
     (let name = comp_name c in
      (if comp_provides c = []
       then [issue SevWarning MissingField name ''Component provides nothing''
               (''Add '' @ quoted ''provides'' @ '' fields so use cases can consume this component'')]
       else [])
      @ step_issues r name ('' in component '' @ quoted name) (map st_id (comp_steps c)) (comp_steps c))"

definition validate_protocol :: "registry \<Rightarrow> protocol_spec \<Rightarrow> validation_issue list" where
  "validate_protocol r p =
     (let name = proto_name p in
      (if proto_guarantees p = []
       then [issue SevWarning MissingField name ''Protocol has no guarantees''
               ''Add guarantees to document behavioral contracts''] else [])
      @ concat (map (\<lambda>i. validate_identity_ref r (implementation_reference i) name
          ''implementation'' [''component'']) (proto_implementations p)))"

definition validate_event :: "registry \<Rightarrow> event_spec \<Rightarrow> validation_issue list" where
  "validate_event r e =
     (case ev_trigger e of
        None \<Rightarrow> []
      | Some t \<Rightarrow>
          if et_after t = [] then []
          else validate_identity_ref r (with_default_prefix (et_after t) ''actions'')
            (ev_name e) ''trigger'' [''action''])"

definition applies_to_issues :: "registry \<Rightarrow> string \<Rightarrow> applies_to \<Rightarrow> validation_issue list" where
  "applies_to_issues r name b =
     (if truthy (at_action b)
      then validate_identity_ref r (with_default_prefix (the (at_action b)) ''actions'') name
        ''applies_to.action'' [''action''] else [])
     @ (if truthy (at_usecase b)
        then validate_identity_ref r (with_default_prefix (the (at_usecase b)) ''use-cases'') name
          ''applies_to.usecase'' [''usecase''] else [])"

definition validate_invariant :: "registry \<Rightarrow> invariant_spec \<Rightarrow> validation_issue list" where
  "validate_invariant r i =
     (if \<not> truthy (inv_rule i) \<and> inv_rules i = [] \<and> inv_transitions i = []
      then [issue SevError MissingField (inv_name i)
              ''Invariant has no rule, rules, or transitions defined'' []] else [])
     @ concat (map (applies_to_issues r (inv_name i)) (inv_applies_to i))"

section \<open>Orphans\<close>

definition usecase_refs :: "usecase_spec \<Rightarrow> string list" where
  "usecase_refs uc =
     map st_use (uc_steps uc)
     @ concat (map (\<lambda>alt. map st_use (alt_steps alt)) (uc_alternative_flows uc))
     @ map req_ref (uc_requires uc)
     @ filter (\<lambda>s. s \<noteq> []) (map invariant_reference (uc_invariants uc))"

definition referenced_refs :: "registry \<Rightarrow> string list" where
  "referenced_refs r =
     concat (map usecase_refs (usecases r))
     @ concat (map (\<lambda>c. map st_use (comp_steps c)) (components r))"

definition orphan_issue :: "string \<Rightarrow> string \<Rightarrow> string \<Rightarrow> validation_issue" where
  "orphan_issue what name rest =
     issue SevInfo Orphan name (what @ '' '' @ quoted name @ rest) []"

definition check_orphans :: "registry \<Rightarrow> validation_issue list" where
  "check_orphans r =
     (let refs = set (referenced_refs r) in
      map (\<lambda>a. orphan_issue ''Action'' (act_name a) '' is not used by any use case or component'')
        (filter (\<lambda>a. ''actions/'' @ act_name a \<notin> refs) (actions r))
      @ map (\<lambda>c. orphan_issue ''Component'' (comp_name c) '' is not referenced by any use case'')
          (filter (\<lambda>c. ''components/'' @ comp_name c \<notin> refs) (components r))
      @ map (\<lambda>i. orphan_issue ''Invariant'' (inv_name i) '' is not referenced by any use case'')
          (filter (\<lambda>i. ''invariants/'' @ inv_name i \<notin> refs) (invariants r)))"

definition validate_all ::
  "(string list \<Rightarrow> string list) \<Rightarrow> registry \<Rightarrow> validation_issue list" where
  "validate_all ord r =
     concat (map validate_naming (all_specs r))
     @ concat (map (validate_action r) (actions r))
     @ concat (map (validate_usecase ord r) (usecases r))
     @ concat (map (validate_component r) (components r))
     @ concat (map (validate_protocol r) (protocols r))
     @ concat (map (validate_event r) (events r))
     @ concat (map (validate_invariant r) (invariants r))
     @ check_orphans r"

section \<open>The specification\<close>

definition error_free :: "validation_issue list \<Rightarrow> bool" where
  "error_free xs \<longleftrightarrow> (\<forall>i \<in> set xs. is_severity i \<noteq> SevError)"

definition resolves_to :: "registry \<Rightarrow> string \<Rightarrow> string list \<Rightarrow> bool" where
  "resolves_to r ref kinds \<longleftrightarrow> (\<exists>s. resolve_ref r ref = Some s \<and> spec_kind s \<in> set kinds)"

definition step_ok :: "registry \<Rightarrow> string list \<Rightarrow> step_def \<Rightarrow> bool" where
  "step_ok r ids s \<longleftrightarrow> st_use s \<noteq> [] \<and> resolves_to r (st_use s) [''action'', ''protocol''] \<and>
     set (st_depends_on s) \<subseteq> set ids"

definition extends_ok :: "registry \<Rightarrow> usecase_spec \<Rightarrow> bool" where
  "extends_ok r uc \<longleftrightarrow> truthy (uc_extends uc) \<longrightarrow>
     (\<exists>p. extends_step (resolve_ref r) uc p \<and> \<not> circular (resolve_ref r) uc \<and>
          set (step_ids uc) \<inter> set (step_ids p) = {})"

definition trigger_ok :: "registry \<Rightarrow> usecase_spec \<Rightarrow> bool" where
  "trigger_ok r uc \<longleftrightarrow> (\<forall>t. uc_trigger uc = Some t \<longrightarrow> prefix ''event/'' t \<or> prefix ''events/'' t \<longrightarrow>
     resolves_to r t [''event''])"

definition usecase_ok :: "registry \<Rightarrow> usecase_spec \<Rightarrow> bool" where
  "usecase_ok r uc \<longleftrightarrow>
     extends_ok r uc \<and> trigger_ok r uc \<and> uc_steps uc \<noteq> [] \<and> distinct (step_ids uc) \<and>
     (\<forall>s \<in> set (uc_steps uc). step_ok r (step_ids uc) s) \<and>
     (\<forall>q \<in> set (uc_requires uc). resolves_to r (req_ref q) [''component'']) \<and>
     (\<forall>alt \<in> set (uc_alternative_flows uc). \<forall>s \<in> set (alt_steps alt).
        step_ok r (step_ids uc @ map st_id (alt_steps alt)) s) \<and>
     (\<forall>i \<in> set (uc_invariants uc). resolves_to r (invariant_reference i) [''invariant''])"

definition invariant_ok :: "registry \<Rightarrow> invariant_spec \<Rightarrow> bool" where
  "invariant_ok r i \<longleftrightarrow>
     (truthy (inv_rule i) \<or> inv_rules i \<noteq> [] \<or> inv_transitions i \<noteq> []) \<and>
     (\<forall>b \<in> set (inv_applies_to i).
        (truthy (at_action b) \<longrightarrow>
           resolves_to r (with_default_prefix (the (at_action b)) ''actions'') [''action'']) \<and>
        (truthy (at_usecase b) \<longrightarrow>
           resolves_to r (with_default_prefix (the (at_usecase b)) ''use-cases'') [''usecase'']))"

definition registry_ok :: "registry \<Rightarrow> bool" where
  "registry_ok r \<longleftrightarrow>
     (\<forall>s \<in> set (all_specs r). spec_name s \<noteq> []) \<and>
     (\<forall>a \<in> set (actions r). \<forall>e \<in> set (act_emits a).
        resolves_to r (with_default_prefix (em_event e) ''events'') [''event'']) \<and>
     (\<forall>u \<in> set (usecases r). usecase_ok r u) \<and>
     (\<forall>c \<in> set (components r). \<forall>s \<in> set (comp_steps c).
        step_ok r (map st_id (comp_steps c)) s) \<and>
     (\<forall>p \<in> set (protocols r). \<forall>i \<in> set (proto_implementations p).
        resolves_to r (implementation_reference i) [''component'']) \<and>
     (\<forall>e \<in> set (events r). \<forall>t. ev_trigger e = Some t \<longrightarrow> et_after t \<noteq> [] \<longrightarrow>
        resolves_to r (with_default_prefix (et_after t) ''actions'') [''action'']) \<and>
     (\<forall>i \<in> set (invariants r). invariant_ok r i)"

section \<open>Lemmas on single checks\<close>

named_theorems issue_simps \<open>when a check reports no error\<close>

lemma error_free_simps [simp]:
  "error_free []"
  "error_free (i # xs) \<longleftrightarrow> is_severity i \<noteq> SevError \<and> error_free xs"
  "error_free (xs @ ys) \<longleftrightarrow> error_free xs \<and> error_free ys"
  by (auto simp: error_free_def)

lemma error_free_concat [simp]: "error_free (concat (map f xs)) \<longleftrightarrow> (\<forall>x \<in> set xs. error_free (f x))"
  by (auto simp: error_free_def)

lemma issue_severity [simp]: "is_severity (issue sev cat spec msg sug) = sev"
  by (simp add: issue_def)

lemma error_free_naming [issue_simps]: "error_free (validate_naming s) \<longleftrightarrow> spec_name s \<noteq> []"
  by (simp add: validate_naming_def Let_def)

lemma error_free_identity_ref [issue_simps]:
  "error_free (validate_identity_ref r ref spec rel kinds) \<longleftrightarrow> resolves_to r ref kinds"
  by (simp add: validate_identity_ref_def resolves_to_def not_loaded_issue_def wrong_kind_issue_def
      split: option.split)

lemma error_free_step_ref [issue_simps]:
  "error_free (validate_step_ref r use spec) \<longleftrightarrow>
     use \<noteq> [] \<and> resolves_to r use [''action'', ''protocol'']"
  by (simp add: validate_step_ref_def issue_simps)

lemma error_free_deps [issue_simps]:
  "error_free (dep_issues name context ids s) \<longleftrightarrow> set (st_depends_on s) \<subseteq> set ids"
  by (auto simp: dep_issues_def error_free_def missing_dep_issue_def)

lemma error_free_steps [issue_simps]:
  "error_free (step_issues r name context ids ss) \<longleftrightarrow> (\<forall>s \<in> set ss. step_ok r ids s)"
  by (auto simp: step_issues_def issue_simps step_ok_def)

lemma error_free_duplicates:
  "error_free (duplicate_step_issues name seen ss) \<longleftrightarrow>
     distinct (map st_id ss) \<and> set (map st_id ss) \<inter> set seen = {}"
  by (induction name seen ss rule: duplicate_step_issues.induct)
    (auto simp: duplicate_step_issue_def)

lemma error_free_trigger [issue_simps]: "error_free (trigger_issues r uc) \<longleftrightarrow> trigger_ok r uc"
  by (auto simp: trigger_issues_def trigger_ok_def issue_simps split: option.split)

lemma error_free_invariant [issue_simps]: "error_free (validate_invariant r i) \<longleftrightarrow> invariant_ok r i"
  by (auto simp: validate_invariant_def invariant_ok_def applies_to_issues_def issue_simps)

lemma error_free_orphans [issue_simps]: "error_free (check_orphans r)"
  by (auto simp: check_orphans_def orphan_issue_def Let_def error_free_def)

section \<open>The extends loop finds exactly the cycles\<close>

lemma resolve_ref_Nil: "registry_inv r \<Longrightarrow> resolve_ref r [] = None"
proof (rule ccontr)
  assume inv: "registry_inv r" and "resolve_ref r [] \<noteq> None"
  then obtain s where "resolve_ref r [] = Some s" by blast
  then have "[] = ref_key s \<or> [] = short_ref s" by (simp add: resolve_ref_iff [OF inv])
  then show False by (simp add: ref_key_def short_ref_def)
qed

lemma extends_step_truthy:
  "registry_inv r \<Longrightarrow> extends_step (resolve_ref r) u v \<Longrightarrow> truthy (uc_extends u)"
  by (auto simp: extends_step_def truthy_def parent_ref_def resolve_ref_Nil split: option.splits)

lemma extends_step_iff:
  "truthy (uc_extends u) \<Longrightarrow> extends_step f u v \<longleftrightarrow>
     f (parent_ref (the (uc_extends u))) = Some (UseCaseSpec v)"
  by (auto simp: extends_step_def truthy_def split: option.splits)

text \<open>One unfolding of the loop, in terms of the steps of the chain.\<close>

lemma extends_loop_step:
  assumes "extends_step (resolve_ref r) u v" "truthy (uc_extends u)"
  shows "extends_loop ord r name vis u =
    (if uc_name u \<in> set vis then Some (circular_issue ord name vis (uc_name u))
     else extends_loop ord r name (vis @ [uc_name u]) v)"
  using assms by (simp add: extends_loop.simps [of _ _ _ _ u] extends_step_iff)

lemma extends_loop_end:
  "(\<And>v. \<not> extends_step (resolve_ref r) u v) \<Longrightarrow> uc_name u \<notin> set vis \<Longrightarrow>
     extends_loop ord r name vis u = None"
  by (auto simp: extends_loop.simps [of _ _ _ _ u] extends_step_iff
      split: option.split any_spec.split) metis

lemma circular_no_step: "(\<And>v. \<not> extends_step f u v) \<Longrightarrow> \<not> circular f u"
  by (metis circular_def converse_rtranclpE tranclpD)

lemma extends_loop_None:
  "registry_inv r \<Longrightarrow> extends_loop ord r name vis u = None \<Longrightarrow> \<not> circular (resolve_ref r) u"
proof (induction ord r name vis u rule: extends_loop.induct)
  case (1 ord r name vis u)
  show ?case
  proof (cases "\<exists>v. extends_step (resolve_ref r) u v")
    case True
    then obtain v where v: "extends_step (resolve_ref r) u v" ..
    then have t: "truthy (uc_extends u)" using "1.prems"(1) by (rule extends_step_truthy [rotated])
    have fresh: "uc_name u \<notin> set vis"
      and rec: "extends_loop ord r name (vis @ [uc_name u]) v = None"
      using "1.prems"(2) by (simp_all add: extends_loop_step [OF v t] split: if_splits)
    have "resolve_ref r (parent_ref (the (uc_extends u))) = Some (UseCaseSpec v)"
      using v t by (simp add: extends_step_iff)
    with "1.IH" [OF _ fresh _ refl "1.prems"(1) rec] t have "\<not> circular (resolve_ref r) v" by blast
    then show ?thesis using v by (simp add: circular_step)
  next
    case False
    then show ?thesis by (simp add: circular_no_step)
  qed
qed

lemma extends_loop_Some:
  "registry_inv r \<Longrightarrow> extends_loop ord r name vis u = Some i \<Longrightarrow>
     \<exists>v. (extends_step (resolve_ref r))\<^sup>*\<^sup>* u v \<and>
       (uc_name v \<in> set vis \<or>
        (\<exists>x. (extends_step (resolve_ref r))\<^sup>*\<^sup>* u x \<and> (extends_step (resolve_ref r))\<^sup>+\<^sup>+ x v \<and>
             uc_name x = uc_name v))"
proof (induction ord r name vis u rule: extends_loop.induct)
  case (1 ord r name vis u)
  let ?S = "extends_step (resolve_ref r)"
  show ?case
  proof (cases "uc_name u \<in> set vis")
    case True
    then show ?thesis by blast
  next
    case fresh: False
    then obtain v where v: "?S u v" using "1.prems"(2) extends_loop_end by (metis option.distinct(1))
    then have t: "truthy (uc_extends u)" using "1.prems"(1) by (rule extends_step_truthy [rotated])
    have rec: "extends_loop ord r name (vis @ [uc_name u]) v = Some i"
      using "1.prems"(2) fresh by (simp add: extends_loop_step [OF v t])
    have res: "resolve_ref r (parent_ref (the (uc_extends u))) = Some (UseCaseSpec v)"
      using v t by (simp add: extends_step_iff)
    have "\<exists>w. ?S\<^sup>*\<^sup>* v w \<and> (uc_name w \<in> set (vis @ [uc_name u]) \<or>
        (\<exists>x. ?S\<^sup>*\<^sup>* v x \<and> ?S\<^sup>+\<^sup>+ x w \<and> uc_name x = uc_name w))"
      using "1.IH" [OF _ fresh res refl "1.prems"(1) rec] t by blast
    then obtain w where w: "?S\<^sup>*\<^sup>* v w"
      and c: "uc_name w \<in> set vis \<or> uc_name u = uc_name w \<or>
        (\<exists>x. ?S\<^sup>*\<^sup>* v x \<and> ?S\<^sup>+\<^sup>+ x w \<and> uc_name x = uc_name w)"
      by auto
    have uw: "?S\<^sup>*\<^sup>* u w" "?S\<^sup>+\<^sup>+ u w"
      using v w by (auto intro: converse_rtranclp_into_rtranclp rtranclp_into_tranclp2)
    have down: "?S\<^sup>*\<^sup>* v x \<Longrightarrow> ?S\<^sup>*\<^sup>* u x" for x
      using v by (rule converse_rtranclp_into_rtranclp)
    from c uw down show ?thesis by blast
  qed
qed

context spec_source
begin

lemma revisited_circular:
  assumes uc: "uc \<in> set universe" and p: "extends_step resolve uc p"
    and v: "(extends_step resolve)\<^sup>*\<^sup>* p v"
    and again: "uc_name v = uc_name uc \<or>
      (\<exists>x. (extends_step resolve)\<^sup>*\<^sup>* p x \<and> (extends_step resolve)\<^sup>+\<^sup>+ x v \<and> uc_name x = uc_name v)"
  shows "circular resolve uc"
proof -
  let ?S = "extends_step resolve"
  have pu: "p \<in> set universe" using p by (rule step_universe)
  have vu: "v \<in> set universe" using v pu by (rule steps_universe)
  from again show ?thesis
  proof
    assume "uc_name v = uc_name uc"
    then have "v = uc" using vu uc by (rule universe_names [rotated 2])
    with p v have "?S\<^sup>+\<^sup>+ uc uc" by (auto intro: rtranclp_into_tranclp2)
    then show ?thesis by (auto simp: circular_def)
  next
    assume "\<exists>x. ?S\<^sup>*\<^sup>* p x \<and> ?S\<^sup>+\<^sup>+ x v \<and> uc_name x = uc_name v"
    then obtain x where x: "?S\<^sup>*\<^sup>* p x" "?S\<^sup>+\<^sup>+ x v" "uc_name x = uc_name v" by blast
    then have "x = v" using steps_universe [OF x(1) pu] vu by (intro universe_names)
    with x p show ?thesis
      by (auto simp: circular_def intro: converse_rtranclp_into_rtranclp)
  qed
qed

end

lemma extends_loop_circular:
  assumes inv: "registry_inv r" and uc: "uc \<in> set (usecases r)"
    and p: "extends_step (resolve_ref r) uc p"
  shows "extends_loop ord r name [uc_name uc] p = None \<longleftrightarrow> \<not> circular (resolve_ref r) uc"
proof (cases "extends_loop ord r name [uc_name uc] p")
  case None
  with inv have "\<not> circular (resolve_ref r) p" by (rule extends_loop_None)
  with None p show ?thesis by (simp add: circular_step)
next
  case (Some i)
  have "circular (resolve_ref r) uc"
    using extends_loop_Some [OF inv Some]
      spec_source.revisited_circular [OF spec_source_registry [OF inv] uc p] by auto
  with Some show ?thesis by simp
qed

lemma extends_loop_severity: "extends_loop ord r name vis u = Some i \<Longrightarrow> is_severity i = SevError"
proof (induction ord r name vis u rule: extends_loop.induct)
  case (1 ord r name vis u)
  then show ?case
    by (auto simp: extends_loop.simps [of _ _ _ _ u] circular_issue_def
        split: if_splits option.splits any_spec.splits)
qed

lemma error_free_extends:
  assumes inv: "registry_inv r" and uc: "uc \<in> set (usecases r)"
  shows "error_free (validate_extends ord r uc) \<longleftrightarrow> extends_ok r uc"
proof (cases "truthy (uc_extends uc)")
  case False
  then show ?thesis by (simp add: validate_extends_def extends_ok_def)
next
  case t: True
  show ?thesis
  proof (cases "\<exists>p. extends_step (resolve_ref r) uc p")
    case False
    with t show ?thesis
      by (auto simp: validate_extends_def extends_ok_def extends_step_iff Let_def
          split: option.split any_spec.split)
  next
    case True
    then obtain p where p: "extends_step (resolve_ref r) uc p" ..
    then have only: "extends_step (resolve_ref r) uc q \<longleftrightarrow> q = p" for q
      using extends_step_functional by blast
    have res: "resolve_ref r (parent_ref (the (uc_extends uc))) = Some (UseCaseSpec p)"
      using p t by (simp add: extends_step_iff)
    have clash: "error_free (parent_clash_issues p uc) \<longleftrightarrow>
        set (step_ids uc) \<inter> set (step_ids p) = {}"
      by (simp add: parent_clash_issues_def Let_def step_clash_Nil)
    show ?thesis
      using extends_loop_circular [OF inv uc p, of ord "uc_name uc"] clash t
      by (auto simp: validate_extends_def extends_ok_def res only Let_def
          dest: extends_loop_severity split: option.split)
  qed
qed

lemma error_free_usecase:
  assumes "registry_inv r" and "uc \<in> set (usecases r)"
  shows "error_free (validate_usecase ord r uc) \<longleftrightarrow> usecase_ok r uc"
  by (simp add: validate_usecase_def Let_def usecase_ok_def error_free_extends [OF assms]
      error_free_duplicates issue_simps alternative_issues_def step_ids_def conj_ac)

lemma error_free_validate_all:
  assumes inv: "registry_inv r"
  shows "error_free (validate_all ord r) \<longleftrightarrow> registry_ok r"
proof -
  have "(\<forall>u \<in> set (usecases r). error_free (validate_usecase ord r u)) \<longleftrightarrow>
      (\<forall>u \<in> set (usecases r). usecase_ok r u)"
    using error_free_usecase [OF inv] by blast
  moreover have "error_free (validate_action r a) \<longleftrightarrow>
      (\<forall>e \<in> set (act_emits a). resolves_to r (with_default_prefix (em_event e) ''events'') [''event''])"
    for a by (simp add: validate_action_def issue_simps)
  moreover have "error_free (validate_component r c) \<longleftrightarrow>
      (\<forall>s \<in> set (comp_steps c). step_ok r (map st_id (comp_steps c)) s)"
    for c by (simp add: validate_component_def Let_def issue_simps)
  moreover have "error_free (validate_protocol r p) \<longleftrightarrow>
      (\<forall>i \<in> set (proto_implementations p). resolves_to r (implementation_reference i) [''component''])"
    for p by (simp add: validate_protocol_def Let_def issue_simps)
  moreover have "error_free (validate_event r e) \<longleftrightarrow>
      (\<forall>t. ev_trigger e = Some t \<longrightarrow> et_after t \<noteq> [] \<longrightarrow>
        resolves_to r (with_default_prefix (et_after t) ''actions'') [''action''])"
    for e by (simp add: validate_event_def issue_simps split: option.split)
  ultimately show ?thesis
    by (simp only: validate_all_def registry_ok_def error_free_simps error_free_concat issue_simps
        simp_thms)
qed

section \<open>Properties\<close>

text \<open>
  C3: On a consistent registry the validator reports no error exactly when every name is non-empty,
  every reference of every action, use case, component, protocol, event and invariant resolves to a
  specification of an expected kind, steps have distinct ids and depend on existing ones, each
  invariant has a rule, and every \<^verbatim>\<open>extends\<close> has a parent, no cycle and no clash with that parent.
\<close>

theorem validate_all_exact:
  assumes inv: "registry_inv r"
  shows "(\<forall>i \<in> set (validate_all ord r). is_severity i \<noteq> SevError) \<longleftrightarrow> registry_ok r"
  using error_free_validate_all [OF inv] by (simp add: error_free_def)

text \<open>Three generations of use cases; the youngest one declares a step of the oldest again.\<close>

definition pay_action :: any_spec where
  "pay_action = ActionSpec (plain_action ''pay'')"

definition oldest :: usecase_spec where
  "oldest = plain_usecase ''oldest'' None [plain_step ''s1'' ''actions/pay'']"

definition middle :: usecase_spec where
  "middle = plain_usecase ''middle'' (Some ''use-cases/oldest'') [plain_step ''s2'' ''actions/pay'']"

definition youngest :: usecase_spec where
  "youngest = plain_usecase ''youngest'' (Some ''use-cases/middle'')
     [plain_step ''s1'' ''actions/pay'']"

definition family :: registry where
  "family = registry_of (map (Pair ''spec.yaml'')
     [pay_action, UseCaseSpec oldest, UseCaseSpec middle, UseCaseSpec youngest])"

lemma family_inv: "registry_inv family"
  by (simp add: family_def)

lemma family_valid: "list_all (\<lambda>i. is_severity i \<noteq> SevError) (validate_all sorted_set family)"
  by code_simp

theorem validate_all_exact_witness:
  "registry_inv family \<and> list_all (\<lambda>i. is_severity i \<noteq> SevError) (validate_all sorted_set family) \<and>
   registry_ok family"
  using family_inv family_valid validate_all_exact [OF family_inv, of sorted_set]
  by (simp add: list_all_iff)

lemma registry_ok_extends:
  "registry_ok r \<Longrightarrow> uc \<in> set (usecases r) \<Longrightarrow> extends_ok r uc"
  by (simp add: registry_ok_def usecase_ok_def)

lemma validated_not_failing:
  assumes inv: "registry_inv r" and ok: "registry_ok r"
    and ext: "\<forall>u \<in> set (usecases r). uc_extends u \<noteq> Some []" and uc: "uc \<in> set (usecases r)"
  shows "\<not> dangling (resolve_ref r) uc" and "\<not> circular (resolve_ref r) uc"
proof -
  have e: "extends_ok r v" "uc_extends v \<noteq> Some []" if "v \<in> set (usecases r)" for v
    using that ext registry_ok_extends [OF ok] by blast+
  have "\<not> unresolved (resolve_ref r) v" if "v \<in> set (usecases r)" for v
    using e [OF that]
    by (cases "uc_extends v")
      (auto simp: extends_ok_def truthy_def extends_step_def unresolved_def split: option.splits)
  then show "\<not> dangling (resolve_ref r) uc"
    using spec_source.steps_universe [OF spec_source_registry [OF inv] _ uc]
    unfolding dangling_def by blast
  show "\<not> circular (resolve_ref r) uc"
    using e [OF uc] circular_no_step [of "resolve_ref r" uc]
    by (auto simp: extends_ok_def truthy_def extends_step_def split: option.splits)
qed

lemma path_successively:
  assumes inv: "registry_inv r" and ok: "registry_ok r"
  shows "extends_path (resolve_ref r) uc us \<Longrightarrow> uc \<in> set (usecases r) \<Longrightarrow>
    successively (\<lambda>u v. set (step_ids u) \<inter> set (step_ids v) = {}) us"
proof (induction rule: extends_path.induct)
  case (root uc)
  show ?case by simp
next
  case (child uc ext p us)
  then have step: "extends_step (resolve_ref r) uc p" by (simp add: extends_step_def)
  have t: "truthy (uc_extends uc)" using inv step by (rule extends_step_truthy)
  have "set (step_ids uc) \<inter> set (step_ids p) = {}"
    using registry_ok_extends [OF ok child.prems] t extends_step_functional [OF step]
    unfolding extends_ok_def by blast
  moreover have "p \<in> set (usecases r)" using inv child.hyps(2) by (rule resolve_ref_usecase)
  moreover obtain vs where "us = p # vs" using child.hyps(3) extends_path_Cons by blast
  ultimately show ?case using child.IH by simp
qed

text \<open>
  What validation guarantees to composition: when the validator reports no error and no
  \<^verbatim>\<open>extends\<close> is the empty text, flattening a use case of the registry succeeds, or it reports
  \<^verbatim>\<open>STEP_ID_CLASH\<close> for a clash between a use case and an ancestor that is not its parent.
\<close>

theorem validated_composes:
  assumes inv: "registry_inv r"
    and valid: "\<forall>i \<in> set (validate_all ord r). is_severity i \<noteq> SevError"
    and ext: "\<forall>u \<in> set (usecases r). uc_extends u \<noteq> Some []" and uc: "uc \<in> set (usecases r)"
  shows "\<exists>us. extends_path (resolve_ref r) uc us \<and> distinct (map uc_name us) \<and>
    successively (\<lambda>u v. set (step_ids u) \<inter> set (step_ids v) = {}) us \<and>
    (case resolve_extends r [] uc of
       Inr (f, chain, ids) \<Rightarrow> steps_disjoint us \<and> f = flatten_path us
     | Inl e \<Rightarrow> ce_code e = STEP_ID_CLASH \<and> \<not> steps_disjoint us)"
proof -
  have ok: "registry_ok r" using valid error_free_validate_all [OF inv] by (simp add: error_free_def)
  note never = validated_not_failing [OF inv ok ext uc]
  have "\<exists>us. extends_path (resolve_ref r) uc us \<and>
    (case resolve_extends r [] uc of
       Inr (f, chain, ids) \<Rightarrow> steps_disjoint us \<and> f = flatten_path us
     | Inl e \<Rightarrow> ce_code e = STEP_ID_CLASH \<and> \<not> steps_disjoint us)"
  proof (cases "resolve_extends r [] uc")
    case (Inl e)
    have "fails_with (resolve_ref r) [uc_name uc] uc (ce_code e)"
      using resolve_extends_Inl [OF Inl] by (simp add: start_chain_def)
    with never show ?thesis
      by (auto simp: Inl spec_source.fails_iff [OF spec_source_registry [OF inv] uc]
          split: composition_code.splits)
  next
    case (Inr res)
    obtain f chain ids where "res = (f, chain, ids)" by (cases res)
    with Inr resolve_extends_path show ?thesis by auto
  qed
  then show ?thesis
    using path_successively [OF inv ok _ uc]
      spec_source.path_distinct [OF spec_source_registry [OF inv] _ uc] by blast
qed

theorem validated_composes_witness:
  "list_all (\<lambda>i. is_severity i \<noteq> SevError) (validate_all sorted_set family) \<and>
   middle \<in> set (usecases family) \<and>
   (\<exists>us. extends_path (resolve_ref family) middle us \<and>
     (case resolve_extends family [] middle of
        Inr (f, chain, ids) \<Rightarrow> f = flatten_path us | Inl e \<Rightarrow> False))"
proof -
  have uc: "middle \<in> set (usecases family)" by code_simp
  have ext: "\<forall>u \<in> set (usecases family). uc_extends u \<noteq> Some []" by code_simp
  have "case resolve_extends family [] middle of Inl e \<Rightarrow> False | Inr x \<Rightarrow> True" by code_simp
  then show ?thesis
    using validated_composes [OF family_inv family_valid [unfolded list_all_iff] ext uc]
      family_valid uc
    by (cases "resolve_extends family [] middle") auto
qed

text \<open>
  The gap is real: there is a registry in which the validator reports no error, while flattening
  one of its use cases raises \<^verbatim>\<open>STEP_ID_CLASH\<close>. The validator compares a use case with the steps
  its parent declares itself, composition with those the parent inherits as well.
\<close>

theorem validator_misses_inherited_clash:
  "list_all (\<lambda>i. is_severity i \<noteq> SevError) (validate_all sorted_set family) \<and>
   youngest \<in> set (usecases family) \<and>
   (case resolve_extends family [] youngest of
      Inl e \<Rightarrow> ce_code e = STEP_ID_CLASH | Inr x \<Rightarrow> False)"
proof -
  have "case resolve_extends family [] youngest of
      Inl e \<Rightarrow> ce_code e = STEP_ID_CLASH | Inr x \<Rightarrow> False"
    by code_simp
  moreover have "youngest \<in> set (usecases family)" by code_simp
  ultimately show ?thesis using family_valid by blast
qed

text \<open>
  An action is reported as unused exactly when no step of a use case, an alternative flow or a
  component names it in the form \<^verbatim>\<open>actions/name\<close>. The short form \<^verbatim>\<open>action/name\<close>, which resolves
  to the same action, does not count as a use.
\<close>

theorem orphan_actions_exact:
  "orphan_issue ''Action'' n '' is not used by any use case or component'' \<in> set (check_orphans r) \<longleftrightarrow>
     (\<exists>a \<in> set (actions r). act_name a = n) \<and> ''actions/'' @ n \<notin> set (referenced_refs r)"
  by (auto simp: check_orphans_def orphan_issue_def issue_def Let_def)

end
