(* ===== verification/Expressions.thy ===== *)
theory Expressions
  imports Spec_Model
begin

text \<open>
  The \<^verbatim>\<open>$\<close> expressions of \<^verbatim>\<open>src/ucf/expressions/resolver.py\<close>: the two regular expressions as
  scanners, parsing and extraction, the context of available names, and the validation of the
  expressions in a JSON value. The regular expressions are deterministic: a name is a maximal run
  of name characters, and a path follows when the next characters are a dot and a path character,
  so \<open>match_expression\<close> is what both of them match at the start of a text.
\<close>

section \<open>Expressions\<close>

datatype expression_namespace =
  NSInputs | NSSteps | NSEvent | NSContext | NSParameters | NSOld | NSGenerated

fun namespace_value :: "expression_namespace \<Rightarrow> string" where
  "namespace_value NSInputs = ''inputs''"
| "namespace_value NSSteps = ''steps''"
| "namespace_value NSEvent = ''event''"
| "namespace_value NSContext = ''context''"
| "namespace_value NSParameters = ''parameters''"
| "namespace_value NSOld = ''old''"
| "namespace_value NSGenerated = ''generated''"

definition all_namespaces :: "expression_namespace list" where
  "all_namespaces = [NSInputs, NSSteps, NSEvent, NSContext, NSParameters, NSOld, NSGenerated]"

datatype namespace = Known expression_namespace | Alias string

fun ns_str :: "namespace \<Rightarrow> string" where
  "ns_str (Known n) = namespace_value n"
| "ns_str (Alias s) = s"

definition namespace_of :: "string \<Rightarrow> namespace" where
  "namespace_of s =
     (case filter (\<lambda>n. namespace_value n = s) all_namespaces of [] \<Rightarrow> Alias s | n # _ \<Rightarrow> Known n)"

record resolved_expression =
  re_raw :: string
  re_namespace :: namespace
  re_path :: "string list"

definition re_root :: "resolved_expression \<Rightarrow> string" where
  "re_root e = (case re_path e of [] \<Rightarrow> [] | p # _ \<Rightarrow> p)"

definition re_field :: "resolved_expression \<Rightarrow> string" where
  "re_field e = (case re_path e of [] \<Rightarrow> [] | p # ps \<Rightarrow> last (p # ps))"

definition re_step_id :: "resolved_expression \<Rightarrow> string option" where
  "re_step_id e =
     (if re_namespace e = Known NSSteps \<and> 2 \<le> length (re_path e) then Some (hd (re_path e)) else None)"

definition name_start :: "char \<Rightarrow> bool" where
  "name_start c \<longleftrightarrow> is_alpha c \<or> c = CHR ''_''"

definition name_char :: "char \<Rightarrow> bool" where
  "name_char c \<longleftrightarrow> is_alpha c \<or> is_digit c \<or> c = CHR ''_'' \<or> c = CHR ''-''"

definition path_char :: "char \<Rightarrow> bool" where
  "path_char c \<longleftrightarrow> name_char c \<or> c = CHR ''.''"

text \<open>The two groups and the rest of the text after the match.\<close>

definition match_expression :: "string \<Rightarrow> (string \<times> string option \<times> string) option" where
  "match_expression s =
     (case s of
        c # d # cs \<Rightarrow>
          if c = CHR ''$'' \<and> name_start d then
            (let name = d # takeWhile name_char cs; rest = dropWhile name_char cs;
                 path = takeWhile path_char (tl rest) in
             if rest \<noteq> [] \<and> hd rest = CHR ''.'' \<and> path \<noteq> []
             then Some (name, Some path, dropWhile path_char (tl rest))
             else Some (name, None, rest))
          else None
      | _ \<Rightarrow> None)"

definition match_text :: "string \<Rightarrow> string option \<Rightarrow> string" where
  "match_text name rest =
     CHR ''$'' # name @ (case rest of None \<Rightarrow> [] | Some p \<Rightarrow> CHR ''.'' # p)"

definition parse_expression :: "string \<Rightarrow> resolved_expression option" where
  "parse_expression expr =
     (case match_expression (py_strip expr) of
        Some (name, rest, []) \<Rightarrow>
          Some \<lparr>re_raw = py_strip expr, re_namespace = namespace_of name,
                re_path = filter (\<lambda>p. p \<noteq> [])
                  (split_on (CHR ''.'') (case rest of None \<Rightarrow> [] | Some p \<Rightarrow> p))\<rparr>
      | _ \<Rightarrow> None)"

lemma match_expression_text:
  "match_expression s = Some (name, rest, suf) \<Longrightarrow> s = match_text name rest @ suf"
proof -
  assume m: "match_expression s = Some (name, rest, suf)"
  then obtain d cs where s: "s = CHR ''$'' # d # cs"
    by (auto simp: match_expression_def split: list.splits if_splits)
  have split: "cs = takeWhile name_char cs @ dropWhile name_char cs" by simp
  show ?thesis
  proof (cases "dropWhile name_char cs")
    case Nil
    with m s split show ?thesis
      by (auto simp: match_expression_def match_text_def Let_def split: if_splits)
  next
    case (Cons e es)
    have "es = takeWhile path_char es @ dropWhile path_char es" by simp
    with m s split Cons show ?thesis
      by (auto simp: match_expression_def match_text_def Let_def split: if_splits)
  qed
qed

lemma match_expression_shorter:
  "match_expression s = Some (name, rest, suf) \<Longrightarrow> length suf < length s"
  using match_expression_text [of s name rest suf] by (simp add: match_text_def)

text \<open>\<^verbatim>\<open>[m.group(0) for m in _EXPR_RE.finditer(text)]\<close>\<close>

function find_expressions :: "string \<Rightarrow> string list" where
  "find_expressions s =
     (case match_expression s of
        Some (name, rest, suf) \<Rightarrow> match_text name rest # find_expressions suf
      | None \<Rightarrow> (if s = [] then [] else find_expressions (tl s)))"
  by pat_completeness auto
termination
  by (relation "measure length") (auto dest: match_expression_shorter)

declare find_expressions.simps [simp del]

definition extract_expressions :: "string \<Rightarrow> resolved_expression list" where
  "extract_expressions text = List.map_filter parse_expression (find_expressions text)"

section \<open>The context\<close>

text \<open>\<^verbatim>\<open>available\<close>, a set of fields for each namespace.\<close>

type_synonym expression_context = "(string, string list) dict"

definition add_namespace ::
  "expression_context \<Rightarrow> string \<Rightarrow> string list \<Rightarrow> expression_context" where
  "add_namespace ctx ns fs = AList.update ns (dict_get ctx ns [] @ fs) ctx"

definition add_step_outputs ::
  "expression_context \<Rightarrow> string \<Rightarrow> string list \<Rightarrow> expression_context" where
  "add_step_outputs ctx step_id fs =
     AList.update ''steps''
       (dict_get ctx ''steps'' [] @ map (\<lambda>f. step_id @ ''.'' @ f) fs) ctx"

definition add_component ::
  "expression_context \<Rightarrow> string \<Rightarrow> string list \<Rightarrow> expression_context" where
  "add_component ctx alias fs = foldl (\<lambda>c f. dict_append c alias f) ctx fs"

definition match_path :: "string list \<Rightarrow> string list \<Rightarrow> bool" where
  "match_path path fs \<longleftrightarrow>
     py_join ''.'' path \<in> set fs \<or>
     list_ex (\<lambda>i. py_join ''.'' (take i path) \<in> set fs) (rev [1..<Suc (length path)])"

definition can_resolve :: "expression_context \<Rightarrow> resolved_expression \<Rightarrow> bool" where
  "can_resolve ctx e =
     (let ns = ns_str (re_namespace e) in
      if ns \<in> {''generated'', ''context'', ''old''} then True
      else if map_of ctx ns = None then
        (let component_aliases =
           filter (\<lambda>alias. alias \<notin> namespace_value ` set all_namespaces) (dict_keys ctx) in
         if ns \<in> set component_aliases
         then re_path e = [] \<or> match_path (re_path e) (dict_get ctx ns [])
         else False)
      else re_path e = [] \<or> match_path (re_path e) (dict_get ctx ns []))"

record expression_error =
  xe_expression :: string
  xe_location :: string
  xe_message :: string

definition unresolved_error :: "string \<Rightarrow> resolved_expression \<Rightarrow> expression_error" where
  "unresolved_error location e = \<lparr>xe_expression = re_raw e, xe_location = location,
     xe_message = ''Cannot resolve '' @ quoted (re_raw e) @ '': namespace ''
       @ quoted (ns_str (re_namespace e)) @ '' not available''\<rparr>"

fun validate_expressions_in_value ::
    "expression_context \<Rightarrow> string \<Rightarrow> pyval \<Rightarrow> expression_error list"
  and validate_entries ::
    "expression_context \<Rightarrow> string \<Rightarrow> (string \<times> pyval) list \<Rightarrow> expression_error list"
  and validate_items ::
    "expression_context \<Rightarrow> string \<Rightarrow> nat \<Rightarrow> pyval list \<Rightarrow> expression_error list" where
  "validate_expressions_in_value ctx loc (VStr s) =
     map (unresolved_error loc) (filter (\<lambda>e. \<not> can_resolve ctx e) (extract_expressions s))"
| "validate_expressions_in_value ctx loc (VDict es) = validate_entries ctx loc es"
| "validate_expressions_in_value ctx loc (VList vs) = validate_items ctx loc 0 vs"
| "validate_expressions_in_value ctx loc v = []"
| "validate_entries ctx loc [] = []"
| "validate_entries ctx loc ((k, v) # es) =
     validate_expressions_in_value ctx (loc @ ''.'' @ k) v @ validate_entries ctx loc es"
| "validate_items ctx loc i [] = []"
| "validate_items ctx loc i (v # vs) =
     validate_expressions_in_value ctx (loc @ ''['' @ show_nat i @ '']'') v
       @ validate_items ctx loc (Suc i) vs"

section \<open>What the scanners match\<close>

definition valid_name :: "string \<Rightarrow> bool" where
  "valid_name n \<longleftrightarrow> n \<noteq> [] \<and> name_start (hd n) \<and> list_all name_char (tl n)"

definition valid_rest :: "string option \<Rightarrow> bool" where
  "valid_rest r \<longleftrightarrow> (case r of None \<Rightarrow> True | Some p \<Rightarrow> p \<noteq> [] \<and> list_all path_char p)"

lemma match_expression_groups:
  "match_expression s = Some (name, rest, suf) \<Longrightarrow> valid_name name \<and> valid_rest rest"
  by (auto simp: match_expression_def valid_name_def valid_rest_def Let_def list_all_iff
      split: list.splits if_splits dest: set_takeWhileD)

lemma match_expression_of_text:
  assumes "valid_name name" and "valid_rest rest"
  shows "match_expression (match_text name rest) = Some (name, rest, [])"
proof -
  from assms(1) obtain d cs where n: "name = d # cs" "name_start d" "\<forall>c \<in> set cs. name_char c"
    by (auto simp: valid_name_def neq_Nil_conv list_all_iff)
  have dot: "\<not> name_char (CHR ''.'')" by code_simp
  show ?thesis
  proof (cases rest)
    case None
    with n show ?thesis by (simp add: match_expression_def match_text_def Let_def)
  next
    case (Some p)
    with assms(2) have p: "p \<noteq> []" "\<forall>c \<in> set p. path_char c"
      by (auto simp: valid_rest_def list_all_iff)
    have tw: "takeWhile path_char p = p" using p(2) by (simp add: takeWhile_eq_all_conv)
    with n p dot Some show ?thesis
      by (simp add: tw match_expression_def match_text_def Let_def dropWhile_append takeWhile_append)
  qed
qed

lemma py_strip_id: "\<forall>c \<in> set s. \<not> is_space c \<Longrightarrow> py_strip s = s"
proof -
  assume s: "\<forall>c \<in> set s. \<not> is_space c"
  have "dropWhile is_space t = t" if "\<forall>c \<in> set t. \<not> is_space c" for t
    using that by (cases t) auto
  from this [OF s] this [of "rev s"] s show ?thesis by (simp add: py_strip_def)
qed

lemma name_char_not_space: "name_char c \<Longrightarrow> \<not> is_space c"
  by (auto simp: name_char_def is_alpha_def is_lower_def is_upper_def is_digit_def is_space_def Let_def)

lemma py_strip_match_text:
  assumes "valid_name name" and "valid_rest rest"
  shows "py_strip (match_text name rest) = match_text name rest"
proof (rule py_strip_id)
  have "name_start c \<Longrightarrow> name_char c" for c by (auto simp: name_start_def name_char_def)
  with assms have chars: "c \<in> {CHR ''$'', CHR ''.''} \<or> name_char c" if "c \<in> set (match_text name rest)" for c
    using that
    by (cases name) (auto simp: match_text_def valid_name_def valid_rest_def list_all_iff path_char_def
        split: option.splits)
  have "\<not> is_space (CHR ''$'')" "\<not> is_space (CHR ''.'')" by code_simp+
  then show "\<forall>c \<in> set (match_text name rest). \<not> is_space c"
    using chars name_char_not_space by blast
qed

lemma parse_match_text:
  assumes "valid_name name" and "valid_rest rest"
  shows "parse_expression (match_text name rest) =
    Some \<lparr>re_raw = match_text name rest, re_namespace = namespace_of name,
      re_path = filter (\<lambda>p. p \<noteq> []) (split_on (CHR ''.'') (case rest of None \<Rightarrow> [] | Some p \<Rightarrow> p))\<rparr>"
  by (simp add: parse_expression_def py_strip_match_text [OF assms]
      match_expression_of_text [OF assms])

lemma find_expressions_texts:
  "x \<in> set (find_expressions s) \<Longrightarrow>
     \<exists>name rest. x = match_text name rest \<and> valid_name name \<and> valid_rest rest"
proof (induction s rule: find_expressions.induct)
  case (1 s)
  show ?case
  proof (cases "match_expression s")
    case None
    have "s \<noteq> []"
      using "1.prems" None by (auto simp: find_expressions.simps [of "[]"])
    with "1.prems" "1.IH"(1) [OF None] None show ?thesis
      by (simp add: find_expressions.simps [of s])
  next
    case (Some m)
    obtain name rest suf where m: "m = (name, rest, suf)" by (cases m)
    show ?thesis
      using "1.prems" "1.IH"(2) [OF Some] m match_expression_groups [of s name rest suf] Some m
      by (auto simp: find_expressions.simps [of s])
  qed
qed

lemma extract_expressions_raw: "map re_raw (extract_expressions s) = find_expressions s"
proof -
  have "map re_raw (List.map_filter parse_expression xs) = xs"
    if "\<forall>x \<in> set xs. \<exists>name rest. x = match_text name rest \<and> valid_name name \<and> valid_rest rest" for xs
    using that by (induction xs) (auto simp: parse_match_text)
  then show ?thesis using find_expressions_texts unfolding extract_expressions_def by blast
qed

lemma match_path_iff:
  "match_path path fs \<longleftrightarrow>
     py_join ''.'' path \<in> set fs \<or> (\<exists>i \<in> {1..length path}. py_join ''.'' (take i path) \<in> set fs)"
  by (auto simp: match_path_def list_ex_iff)

lemma can_resolve_iff:
  "can_resolve ctx e \<longleftrightarrow>
     ns_str (re_namespace e) \<in> {''generated'', ''context'', ''old''} \<or>
     (\<exists>fs. map_of ctx (ns_str (re_namespace e)) = Some fs \<and> (re_path e = [] \<or> match_path (re_path e) fs))"
proof (cases "map_of ctx (ns_str (re_namespace e))")
  case None
  then have "ns_str (re_namespace e) \<notin> set (dict_keys ctx)" by (simp add: map_of_eq_None_iff)
  with None show ?thesis by (auto simp: can_resolve_def Let_def)
next
  case (Some fs)
  then show ?thesis by (simp add: can_resolve_def Let_def dict_get_def)
qed

text \<open>The texts in a JSON value at which the validator looks, with their locations.\<close>

fun located_texts :: "string \<Rightarrow> pyval \<Rightarrow> (string \<times> string) list"
  and located_entries :: "string \<Rightarrow> (string \<times> pyval) list \<Rightarrow> (string \<times> string) list"
  and located_items :: "string \<Rightarrow> nat \<Rightarrow> pyval list \<Rightarrow> (string \<times> string) list" where
  "located_texts loc (VStr s) = [(loc, s)]"
| "located_texts loc (VDict es) = located_entries loc es"
| "located_texts loc (VList vs) = located_items loc 0 vs"
| "located_texts loc v = []"
| "located_entries loc [] = []"
| "located_entries loc ((k, v) # es) =
     located_texts (loc @ ''.'' @ k) v @ located_entries loc es"
| "located_items loc i [] = []"
| "located_items loc i (v # vs) =
     located_texts (loc @ ''['' @ show_nat i @ '']'') v @ located_items loc (Suc i) vs"

definition text_errors :: "expression_context \<Rightarrow> string \<times> string \<Rightarrow> expression_error list" where
  "text_errors ctx t =
     map (unresolved_error (fst t)) (filter (\<lambda>e. \<not> can_resolve ctx e) (extract_expressions (snd t)))"

lemma validate_value_texts:
  "validate_expressions_in_value ctx loc v = concat (map (text_errors ctx) (located_texts loc v))"
  "validate_entries ctx loc es = concat (map (text_errors ctx) (located_entries loc es))"
  "validate_items ctx loc i vs = concat (map (text_errors ctx) (located_items loc i vs))"
  by (induction ctx loc v and ctx loc es and ctx loc i vs
      rule: validate_expressions_in_value_validate_entries_validate_items.induct)
    (simp_all add: text_errors_def)

section \<open>Properties\<close>

text \<open>
  Extraction loses nothing: every match of \<^verbatim>\<open>_EXPR_RE\<close> in a text is parsed again by
  \<^verbatim>\<open>_FULL_EXPR_RE\<close> to one expression, whose \<^verbatim>\<open>raw\<close> text is the match; each has a well-formed
  name.
\<close>

theorem extract_expressions_complete:
  "map re_raw (extract_expressions text) = find_expressions text \<and>
   map parse_expression (find_expressions text) = map Some (extract_expressions text)"
proof -
  have "map parse_expression xs = map Some (List.map_filter parse_expression xs)"
    if "\<forall>x \<in> set xs. \<exists>name rest. x = match_text name rest \<and> valid_name name \<and> valid_rest rest" for xs
    using that by (induction xs) (auto simp: parse_match_text)
  then show ?thesis
    using find_expressions_texts extract_expressions_raw unfolding extract_expressions_def by blast
qed

text \<open>
  Parsing inverts printing: the text \<^verbatim>\<open>$name.p1.p2...\<close> of a well-formed name and a non-empty
  path of non-empty parts made of name characters parses to that namespace and that path.
\<close>

theorem parse_expression_roundtrip:
  assumes "valid_name name" and "ps \<noteq> []" and "list_all (\<lambda>p. p \<noteq> [] \<and> list_all name_char p) ps"
  shows "parse_expression (CHR ''$'' # name @ CHR ''.'' # py_join ''.'' ps) =
    Some \<lparr>re_raw = CHR ''$'' # name @ CHR ''.'' # py_join ''.'' ps,
      re_namespace = namespace_of name, re_path = ps\<rparr>"
proof -
  have dot: "\<not> name_char (CHR ''.'')" by code_simp
  with assms(3) have parts: "CHR ''.'' \<notin> set p" if "p \<in> set ps" for p
    using that by (auto simp: list_all_iff)
  have "list_all path_char (py_join ''.'' ps)"
    using assms(3) by (induction ps rule: induct_list012) (auto simp: list_all_iff path_char_def)
  moreover have "py_join ''.'' ps \<noteq> []"
    using assms(2,3) by (cases ps rule: list.exhaust; cases "tl ps") auto
  ultimately have rest: "valid_rest (Some (py_join ''.'' ps))" by (simp add: valid_rest_def)
  have "filter (\<lambda>p. p \<noteq> []) (split_on (CHR ''.'') (py_join ''.'' ps)) = ps"
    using assms(2,3) parts by (subst split_join) (auto simp: list_all_iff filter_id_conv)
  then show ?thesis
    using parse_match_text [OF assms(1) rest] by (simp add: match_text_def)
qed

theorem parse_expression_roundtrip_witness:
  "parse_expression ''$steps.create-order.order_id'' =
    Some \<lparr>re_raw = ''$steps.create-order.order_id'', re_namespace = Known NSSteps,
      re_path = [''create-order'', ''order_id'']\<rparr>"
proof -
  have "valid_name ''steps''"
    and "list_all (\<lambda>p. p \<noteq> [] \<and> list_all name_char p) [''create-order'', ''order_id'']"
    and "namespace_of ''steps'' = Known NSSteps"
    by code_simp+
  with parse_expression_roundtrip [of "''steps''" "[''create-order'', ''order_id'']"]
  show ?thesis by simp
qed

text \<open>
  An expression resolves in a context exactly when its namespace is one of \<^verbatim>\<open>generated\<close>,
  \<^verbatim>\<open>context\<close> and \<^verbatim>\<open>old\<close>, or the context has the namespace and either the path is empty or
  some non-empty prefix of the path, joined by dots, is a field of it.
\<close>

theorem can_resolve_exact:
  "can_resolve ctx e \<longleftrightarrow>
     ns_str (re_namespace e) \<in> {''generated'', ''context'', ''old''} \<or>
     (\<exists>fs. map_of ctx (ns_str (re_namespace e)) = Some fs \<and>
       (re_path e = [] \<or>
        (\<exists>q rest. re_path e = q @ rest \<and> q \<noteq> [] \<and> py_join ''.'' q \<in> set fs)))"
proof -
  have "match_path path fs \<longleftrightarrow> (\<exists>q rest. path = q @ rest \<and> q \<noteq> [] \<and> py_join ''.'' q \<in> set fs)"
    if "path \<noteq> []" for path fs
  proof
    assume "match_path path fs"
    then show "\<exists>q rest. path = q @ rest \<and> q \<noteq> [] \<and> py_join ''.'' q \<in> set fs"
      unfolding match_path_iff using that
      by (metis append_Nil2 append_take_drop_id atLeastAtMost_iff not_one_le_zero take_eq_Nil2)
  next
    assume "\<exists>q rest. path = q @ rest \<and> q \<noteq> [] \<and> py_join ''.'' q \<in> set fs"
    then obtain q rest where q: "path = q @ rest" "q \<noteq> []" "py_join ''.'' q \<in> set fs" by blast
    then have "length q \<in> {1..length path}" "take (length q) path = q"
      by (auto simp: Suc_le_eq)
    with q(3) show "match_path path fs" unfolding match_path_iff by metis
  qed
  then show ?thesis unfolding can_resolve_iff by blast
qed

text \<open>
  Validation of a JSON value looks at every string in it, at any depth, and reports exactly the
  expressions that do not resolve, each at its location: it returns no error if and only if every
  expression of every string resolves.
\<close>

theorem validate_expressions_exact:
  "set (validate_expressions_in_value ctx loc v) =
     {unresolved_error l e | l t e. (l, t) \<in> set (located_texts loc v) \<and>
        e \<in> set (extract_expressions t) \<and> \<not> can_resolve ctx e}"
  unfolding validate_value_texts text_errors_def by force

text \<open>
  A field that a context is told about resolves: after \<^verbatim>\<open>add_step_outputs(step, fields)\<close> the
  expression of that step and field does, for any namespace that resolved before it still does.
\<close>

theorem add_step_outputs_resolves:
  "can_resolve (add_step_outputs ctx sid (xs @ f # ys))
     \<lparr>re_raw = raw, re_namespace = Known NSSteps, re_path = [sid, f]\<rparr> \<and>
   (can_resolve ctx e \<longrightarrow> can_resolve (add_step_outputs ctx sid fs) e)"
proof
  show "can_resolve (add_step_outputs ctx sid (xs @ f # ys))
     \<lparr>re_raw = raw, re_namespace = Known NSSteps, re_path = [sid, f]\<rparr>"
    by (simp add: can_resolve_iff add_step_outputs_def match_path_iff)
  show "can_resolve ctx e \<longrightarrow> can_resolve (add_step_outputs ctx sid fs) e"
    by (auto simp: can_resolve_iff add_step_outputs_def match_path_iff dict_get_def)
qed

theorem add_step_outputs_resolves_witness:
  "can_resolve [(''steps'', [''s1.id''])] \<lparr>re_raw = [], re_namespace = Known NSSteps,
      re_path = [''s1'', ''id'']\<rparr> \<and>
   can_resolve (add_step_outputs [(''steps'', [''s1.id''])] ''s2'' [''total''])
     \<lparr>re_raw = [], re_namespace = Known NSSteps, re_path = [''s1'', ''id'']\<rparr>"
proof -
  have c: "can_resolve [(''steps'', [''s1.id''])] \<lparr>re_raw = [], re_namespace = Known NSSteps,
      re_path = [''s1'', ''id'']\<rparr>"
    by code_simp
  with add_step_outputs_resolves [of "[(''steps'', [''s1.id''])]" "''s2''"
      "[]" "''total''" "[]" "[]" _ "[''total'']"]
  show ?thesis by blast
qed

end
