(* ===== verification/Tracer.thy ===== *)
theory Tracer
  imports Composition
begin

text \<open>
  The context tracer, \<^verbatim>\<open>src/ucf/tracer/context.py\<close> and \<^verbatim>\<open>engine.py\<close>: slots and snapshots, the
  effect of a step, the execution of a step on a snapshot and the analyses that \<^verbatim>\<open>trace_usecase\<close>
  runs. A method that appends to \<^verbatim>\<open>self.findings\<close> returns the findings it appends, next to the new
  snapshot when it changes one; \<open>ord\<close> is the order in which a Python set is iterated.
\<close>

section \<open>Slots, snapshots and findings (context.py)\<close>

datatype slot_state = Available | Mutated | Invalidated

datatype finding_severity = FError | FWarning | FInfo

datatype finding_category =
    DATA_GAP | DEAD_DATA | TYPE_MISMATCH | OVERWRITE_WARNING | BRANCH_DIVERGENCE
  | BRANCH_STATE_DIFFERENCE | FORBIDDEN_TRANSITION | CROSS_UC_MUTATION_CONFLICT
  | MISSING_POSTCONDITION | UNCOVERED_ERROR | UNCOVERED_INPUT_PARTITION | UNREACHABLE_STATE
  | DEAD_END_STATE | UNCOVERED_HTTP_SCENARIO | UNTESTABLE_INVARIANT | UNGUARDED_RESOURCE_CONFLICT

record slot =
  sl_name :: string
  sl_type :: string
  sl_source :: string
  sl_state :: slot_state
  sl_constraint :: "string option"
  sl_read_by :: "string list"

record snapshot =
  sn_step :: string
  sn_slots :: "(string, slot) dict"

definition has_slot :: "snapshot \<Rightarrow> string \<Rightarrow> bool" where
  "has_slot c name =
     (case map_of (sn_slots c) name of None \<Rightarrow> False | Some s \<Rightarrow> sl_state s \<noteq> Invalidated)"

definition slot_type :: "snapshot \<Rightarrow> string \<Rightarrow> string option" where
  "slot_type c name = map_option sl_type (map_of (sn_slots c) name)"

text \<open>\<^verbatim>\<open>copy.deepcopy\<close> is the identity on values.\<close>

definition fork :: "snapshot \<Rightarrow> string \<Rightarrow> snapshot" where
  "fork c step = c\<lparr>sn_step := step\<rparr>"

record read_effect =
  rd_field :: string
  rd_expected :: string

record write_effect =
  wr_field :: string
  wr_type :: string
  wr_constraint :: "string option"

record action_effect =
  ef_reads :: "read_effect list"
  ef_writes :: "write_effect list"
  ef_invalidates :: "string list"

text \<open>The field \<^verbatim>\<open>f\<close> of a reference \<^verbatim>\<open>$steps.X.f...\<close>.\<close>

definition steps_field :: "string \<Rightarrow> string option" where
  "steps_field s =
     (let parts = split_on (CHR ''.'') s in
      if prefix ''$steps.'' s \<and> 3 \<le> length parts then Some (parts ! 2) else None)"

text \<open>\<^verbatim>\<open>ActionEffect.from_step_spec\<close>, on the input and output of the step.\<close>

definition from_step_spec ::
  "(string, pyval) dict \<Rightarrow> (string, pyval) dict \<Rightarrow> action_effect" where
  "from_step_spec inp out =
     \<lparr>ef_reads = map (\<lambda>f. \<lparr>rd_field = f, rd_expected = []\<rparr>)
        (List.map_filter (\<lambda>(k, b). case b of VStr s \<Rightarrow> steps_field s | _ \<Rightarrow> None) inp),
      ef_writes = map (\<lambda>(k, b). \<lparr>wr_field = (case b of VStr s \<Rightarrow> s | _ \<Rightarrow> k), wr_type = [],
        wr_constraint = None\<rparr>) out,
      ef_invalidates = []\<rparr>"

record finding =
  fi_severity :: finding_severity
  fi_category :: finding_category
  fi_step :: string
  fi_message :: string
  fi_suggestion :: string

section \<open>Effects of steps (engine.py)\<close>

definition set_slot :: "snapshot \<Rightarrow> string \<Rightarrow> slot \<Rightarrow> snapshot" where
  "set_slot c name s = c\<lparr>sn_slots := AList.update name s (sn_slots c)\<rparr>"

definition provide_fields :: "string \<Rightarrow> (string, field_def) dict \<Rightarrow> snapshot \<Rightarrow> snapshot" where
  "provide_fields source provides ctx =
     foldl (\<lambda>c (name, fd). set_slot c name \<lparr>sl_name = name, sl_type = field_type_value (fd_type fd),
       sl_source = source, sl_state = Available, sl_constraint = None, sl_read_by = []\<rparr>) ctx provides"

definition apply_require :: "registry \<Rightarrow> snapshot \<Rightarrow> component_requirement \<Rightarrow> snapshot" where
  "apply_require r ctx q =
     (case resolve_ref r (req_ref q) of
        Some (ComponentSpec cm) \<Rightarrow>
          provide_fields
            (''component:'' @ (if req_as q = [] then comp_name cm else req_as q))
            (comp_provides cm) ctx
      | _ \<Rightarrow> ctx)"

definition apply_requires :: "registry \<Rightarrow> snapshot \<Rightarrow> usecase_spec \<Rightarrow> snapshot" where
  "apply_requires r ctx uc = foldl (apply_require r) ctx (uc_requires uc)"

fun collect_reads :: "pyval \<Rightarrow> string list"
  and collect_entries :: "(string \<times> pyval) list \<Rightarrow> string list"
  and collect_items :: "pyval list \<Rightarrow> string list" where
  "collect_reads (VStr s) = (case steps_field s of None \<Rightarrow> [] | Some f \<Rightarrow> [f])"
| "collect_reads (VDict es) = collect_entries es"
| "collect_reads (VList vs) = collect_items vs"
| "collect_reads v = []"
| "collect_entries [] = []"
| "collect_entries ((k, v) # es) = collect_reads v @ collect_entries es"
| "collect_items [] = []"
| "collect_items (v # vs) = collect_reads v @ collect_items vs"

definition step_reads :: "step_def \<Rightarrow> string list" where
  "step_reads s = concat (map (\<lambda>(k, v). collect_reads v) (st_input s))"

definition step_outputs :: "step_def \<Rightarrow> string list" where
  "step_outputs s = dict_values (st_output s)"

definition expected_type :: "any_spec option \<Rightarrow> string \<Rightarrow> string" where
  "expected_type spec field =
     (case spec of
        Some (ActionSpec a) \<Rightarrow>
          (case map_of (act_input a) field of
             None \<Rightarrow> [] | Some fd \<Rightarrow> field_type_value (fd_type fd))
      | _ \<Rightarrow> [])"

definition build_effect :: "registry \<Rightarrow> step_def \<Rightarrow> action_effect" where
  "build_effect r s =
     \<lparr>ef_reads = map (\<lambda>f. \<lparr>rd_field = f, rd_expected = expected_type (resolve_ref r (st_use s)) f\<rparr>)
        (step_reads s),
      ef_writes = map (\<lambda>f. \<lparr>wr_field = f, wr_type = [], wr_constraint = None\<rparr>) (step_outputs s),
      ef_invalidates = []\<rparr>"

section \<open>Execution\<close>

definition data_gap_finding :: "string \<Rightarrow> string \<Rightarrow> finding" where
  "data_gap_finding step field = \<lparr>fi_severity = FError, fi_category = DATA_GAP, fi_step = step,
     fi_message = ''Step reads '' @ quoted field @ '' but it does not exist in context'',
     fi_suggestion = ''Add a preceding step that produces '' @ quoted field
       @ '' or include it in components''\<rparr>"

definition type_mismatch_finding :: "string \<Rightarrow> read_effect \<Rightarrow> string \<Rightarrow> finding" where
  "type_mismatch_finding step rd actual = \<lparr>fi_severity = FError, fi_category = TYPE_MISMATCH,
     fi_step = step,
     fi_message = ''Step expects '' @ quoted (rd_field rd) @ '' as '' @ rd_expected rd
       @ '' but context has '' @ actual,
     fi_suggestion = ''Align types between producer and consumer of '' @ quoted (rd_field rd)\<rparr>"

definition overwrite_finding :: "string \<Rightarrow> string \<Rightarrow> string \<Rightarrow> finding" where
  "overwrite_finding step field source = \<lparr>fi_severity = FWarning, fi_category = OVERWRITE_WARNING,
     fi_step = step,
     fi_message = ''Step overwrites '' @ quoted field @ '' previously set by '' @ quoted source,
     fi_suggestion =
       ''Verify this overwrite is intentional; consider using a mutation instead''\<rparr>"

definition execute_read :: "string \<Rightarrow> snapshot \<Rightarrow> read_effect \<Rightarrow> finding list \<times> snapshot" where
  "execute_read step c rd =
     (if \<not> has_slot c (rd_field rd) then ([data_gap_finding step (rd_field rd)], c)
      else
        (case map_of (sn_slots c) (rd_field rd) of
           None \<Rightarrow> ([], c)
         | Some s \<Rightarrow>
             ((if rd_expected rd \<noteq> [] \<and> sl_type s \<noteq> [] \<and> sl_type s \<noteq> rd_expected rd
               then [type_mismatch_finding step rd (sl_type s)] else []),
              set_slot c (rd_field rd) (s\<lparr>sl_read_by := sl_read_by s @ [step]\<rparr>))))"

definition execute_write :: "string \<Rightarrow> snapshot \<Rightarrow> write_effect \<Rightarrow> finding list \<times> snapshot" where
  "execute_write step c wr =
     ((case map_of (sn_slots c) (wr_field wr) of
         Some existing \<Rightarrow>
           if sl_state existing \<noteq> Invalidated
           then [overwrite_finding step (wr_field wr) (sl_source existing)] else []
       | None \<Rightarrow> []),
      set_slot c (wr_field wr) \<lparr>sl_name = wr_field wr, sl_type = wr_type wr, sl_source = step,
        sl_state = Available, sl_constraint = wr_constraint wr, sl_read_by = []\<rparr>)"

definition execute_invalidate :: "snapshot \<Rightarrow> string \<Rightarrow> snapshot" where
  "execute_invalidate c field =
     (case map_of (sn_slots c) field of
        None \<Rightarrow> c | Some s \<Rightarrow> set_slot c field (s\<lparr>sl_state := Invalidated\<rparr>))"

text \<open>A loop that appends findings and changes the snapshot.\<close>

definition thread ::
  "('c \<Rightarrow> 'a \<Rightarrow> 'f list \<times> 'c) \<Rightarrow> 'c \<Rightarrow> 'a list \<Rightarrow> 'f list \<times> 'c" where
  "thread f c xs = foldl (\<lambda>(fs, c) x. let (gs, c') = f c x in (fs @ gs, c')) ([], c) xs"

text \<open>The keyword \<^verbatim>\<open>record\<close> decides whether the findings are kept.\<close>

definition execute_step ::
  "bool \<Rightarrow> snapshot \<Rightarrow> string \<Rightarrow> action_effect \<Rightarrow> finding list \<times> snapshot" where
  "execute_step rec ctx step e =
     (let (fs1, c1) = thread (execute_read step) ctx (ef_reads e);
          (fs2, c2) = thread (execute_write step) c1 (ef_writes e);
          c3 = foldl execute_invalidate c2 (ef_invalidates e)
      in (if rec then fs1 @ fs2 else [], c3\<lparr>sn_step := step\<rparr>))"

definition run_steps ::
  "bool \<Rightarrow> registry \<Rightarrow> snapshot \<Rightarrow> step_def list \<Rightarrow> finding list \<times> snapshot" where
  "run_steps rec r = thread (\<lambda>c s. execute_step rec c (st_id s) (build_effect r s))"

definition init_snapshot :: snapshot where
  "init_snapshot = \<lparr>sn_step = ''init'', sn_slots = []\<rparr>"

definition resolve_composition :: "registry \<Rightarrow> usecase_spec \<Rightarrow> (composition_error, usecase_spec) res" where
  "resolve_composition r uc =
     (if uc_extends uc = None then Inr uc
      else res_bind (resolve_extends r [] uc) (\<lambda>(f, chain, ids). Inr f))"

definition get_final_context :: "registry \<Rightarrow> usecase_spec \<Rightarrow> (composition_error, snapshot) res" where
  "get_final_context r uc =
     res_bind (resolve_composition r uc) (\<lambda>uc.
       Inr (snd (run_steps False r (apply_requires r init_snapshot uc) (uc_steps uc))))"

section \<open>The analyses\<close>

definition missing_postcondition_finding :: finding where
  "missing_postcondition_finding = \<lparr>fi_severity = FWarning, fi_category = MISSING_POSTCONDITION,
     fi_step = ''postcondition'',
     fi_message = ''Use case has postconditions but no data was produced by steps'',
     fi_suggestion = ''Ensure steps produce outputs that can be verified''\<rparr>"

definition verify_postconditions :: "snapshot \<Rightarrow> usecase_spec \<Rightarrow> finding list" where
  "verify_postconditions ctx uc =
     (if uc_postconditions uc \<noteq> [] \<and> sn_slots ctx = [] then [missing_postcondition_finding] else [])"

definition live_fields :: "snapshot \<Rightarrow> string list" where
  "live_fields c = map fst (filter (\<lambda>(k, s). sl_state s \<noteq> Invalidated) (sn_slots c))"

definition divergence_finding :: "string \<Rightarrow> string \<Rightarrow> finding" where
  "divergence_finding alt field = \<lparr>fi_severity = FWarning, fi_category = BRANCH_DIVERGENCE,
     fi_step = ''alt:'' @ alt,
     fi_message = ''Field '' @ quoted field @ '' exists in happy path but not in alt flow ''
       @ quoted alt,
     fi_suggestion = ''Ensure downstream consumers handle absence of '' @ quoted field
       @ '' in the alt flow''\<rparr>"

text \<open>\<^verbatim>\<open>str\<close> of an optional constraint.\<close>

definition show_constraint :: "string option \<Rightarrow> string" where
  "show_constraint c = (case c of None \<Rightarrow> ''None'' | Some s \<Rightarrow> s)"

definition state_difference_finding ::
  "string \<Rightarrow> string \<Rightarrow> string option \<Rightarrow> string option \<Rightarrow> finding" where
  "state_difference_finding alt field main_c alt_c = \<lparr>fi_severity = FWarning,
     fi_category = BRANCH_STATE_DIFFERENCE, fi_step = ''alt:'' @ alt,
     fi_message = ''Field '' @ quoted field @ '' has different constraints: ''
       @ quoted (show_constraint main_c) @ '' (happy) vs '' @ quoted (show_constraint alt_c)
       @ '' (alt flow)'',
     fi_suggestion = ''Verify both constraint values are valid for downstream steps''\<rparr>"

definition slot_constraint :: "snapshot \<Rightarrow> string \<Rightarrow> string option" where
  "slot_constraint c f = (case map_of (sn_slots c) f of None \<Rightarrow> None | Some s \<Rightarrow> sl_constraint s)"

definition check_branch_compatibility ::
  "(string list \<Rightarrow> string list) \<Rightarrow> snapshot \<Rightarrow> snapshot \<Rightarrow> string \<Rightarrow> finding list" where
  "check_branch_compatibility ord main alt name =
     (let main_fields = live_fields main; alt_fields = live_fields alt in
      map (divergence_finding name) (ord (filter (\<lambda>f. f \<notin> set alt_fields) main_fields))
      @ concat (map (\<lambda>f.
          let main_c = slot_constraint main f; alt_c = slot_constraint alt f in
          if main_c \<noteq> alt_c \<and> (main_c \<noteq> None \<or> alt_c \<noteq> None)
          then [state_difference_finding name f main_c alt_c] else [])
          (ord (filter (\<lambda>f. f \<in> set alt_fields) main_fields))))"

text \<open>The fields added to \<^verbatim>\<open>alt_reads\<close> are those the steps of the flow read.\<close>

definition trace_alternative_flow ::
  "(string list \<Rightarrow> string list) \<Rightarrow> registry \<Rightarrow> snapshot \<Rightarrow> usecase_spec \<Rightarrow> alternative_flow \<Rightarrow>
     finding list" where
  "trace_alternative_flow ord r main uc alt =
     (let branch = snd (run_steps False r (apply_requires r init_snapshot uc) (uc_steps uc));
          (fs, branch') = run_steps True r (fork branch (''alt:'' @ alt_name alt)) (alt_steps alt)
      in fs @ check_branch_compatibility ord main branch' (alt_name alt))"

definition alt_reads :: "usecase_spec \<Rightarrow> string list" where
  "alt_reads uc = concat (map (\<lambda>alt. concat (map step_reads (alt_steps alt))) (uc_alternative_flows uc))"

definition dead_data_finding :: "string \<Rightarrow> string \<Rightarrow> finding" where
  "dead_data_finding source name = \<lparr>fi_severity = FInfo, fi_category = DEAD_DATA, fi_step = source,
     fi_message = ''Step produces '' @ quoted name @ '' but no subsequent step reads it'',
     fi_suggestion = ''Remove '' @ quoted name @ '' from step output or add a consumer''\<rparr>"

definition detect_dead_data :: "snapshot \<Rightarrow> string list \<Rightarrow> finding list" where
  "detect_dead_data ctx alts =
     concat (map (\<lambda>(name, s).
       if prefix ''component:'' (sl_source s) then []
       else if name \<in> set alts then []
       else if sl_read_by s = [] then [dead_data_finding (sl_source s) name] else [])
       (sn_slots ctx))"

definition trace_usecase ::
  "(string list \<Rightarrow> string list) \<Rightarrow> registry \<Rightarrow> usecase_spec \<Rightarrow>
     (composition_error, finding list) res" where
  "trace_usecase ord r uc =
     res_bind (resolve_composition r uc) (\<lambda>uc.
       let (fs, ctx) = run_steps True r (apply_requires r init_snapshot uc) (uc_steps uc) in
       Inr (fs @ verify_postconditions ctx uc
         @ concat (map (trace_alternative_flow ord r ctx uc) (uc_alternative_flows uc))
         @ detect_dead_data ctx (alt_reads uc)))"

section \<open>The cross use case analyzer\<close>

type_synonym write_map = "(string, (string \<times> string \<times> string option) list) dict"

definition register_trace :: "write_map \<Rightarrow> string \<Rightarrow> snapshot \<Rightarrow> write_map" where
  "register_trace wm uid ctx =
     foldl (\<lambda>m (name, s).
       if prefix ''component:'' (sl_source s) then m
       else dict_append m name (uid, sl_source s, sl_constraint s)) wm (sn_slots ctx)"

definition conflict_finding :: "string \<Rightarrow> (string \<times> string \<times> string option) list \<Rightarrow> finding" where
  "conflict_finding field records = \<lparr>fi_severity = FWarning,
     fi_category = CROSS_UC_MUTATION_CONFLICT, fi_step = ''cross-uc'',
     fi_message = ''Field '' @ quoted field @ '' written with different constraints by: ''
       @ py_join '', '' (map (\<lambda>(u, s, c). u @ '':'' @ s) records),
     fi_suggestion = ''Verify that concurrent mutations to '' @ quoted field
       @ '' don'' @ [CHR 0x27] @ ''t conflict at runtime''\<rparr>"

definition find_conflicts :: "write_map \<Rightarrow> finding list" where
  "find_conflicts wm =
     concat (map (\<lambda>(field, records).
       if length records < 2 then []
       else if set_size (map fst records) < 2 then []
       else if set_size (map (snd \<circ> snd) records) > 1 then [conflict_finding field records] else [])
       wm)"

section \<open>Runs of steps\<close>

lemma foldl_thread:
  "foldl (\<lambda>(fs, c) x. let (gs, c') = f c x in (fs @ gs, c')) (hs, c) xs =
     (hs @ fst (thread f c xs), snd (thread f c xs))"
  unfolding thread_def
proof (induction xs arbitrary: hs c)
  case Nil
  show ?case by simp
next
  case (Cons y ys)
  obtain gs c' where "f c y = (gs, c')" by (cases "f c y")
  then show ?case using Cons.IH [of "hs @ gs" c'] Cons.IH [of gs c'] by simp
qed

lemma thread_simps [simp]:
  "thread f c [] = ([], c)"
  "thread f c (x # xs) =
     (let (fs, c1) = f c x; (gs, c2) = thread f c1 xs in (fs @ gs, c2))"
proof -
  show "thread f c [] = ([], c)" by (simp add: thread_def)
  obtain gs c' where "f c x = (gs, c')" by (cases "f c x")
  then show "thread f c (x # xs) =
     (let (fs, c1) = f c x; (gs, c2) = thread f c1 xs in (fs @ gs, c2))"
    using foldl_thread [of f gs c' xs] by (simp add: thread_def [of f c "x # xs"] split_beta)
qed

lemma thread_append:
  "thread f c (xs @ ys) =
     (let (fs, c1) = thread f c xs; (gs, c2) = thread f c1 ys in (fs @ gs, c2))"
  by (induction xs arbitrary: c) (simp_all add: Let_def split_beta)

text \<open>
  What holds of every snapshot the engine builds: no slot is ever invalidated or constrained,
  because \<^verbatim>\<open>_build_effect\<close> produces neither invalidations nor constraints.
\<close>

definition plain_snapshot :: "snapshot \<Rightarrow> bool" where
  "plain_snapshot c \<longleftrightarrow> wf_dict (sn_slots c) \<and>
     (\<forall>f s. map_of (sn_slots c) f = Some s \<longrightarrow> sl_state s = Available \<and> sl_constraint s = None)"

abbreviation slot_at :: "snapshot \<Rightarrow> string \<Rightarrow> slot option" where
  "slot_at c f \<equiv> map_of (sn_slots c) f"

lemma plain_lookup:
  "plain_snapshot c \<Longrightarrow> slot_at c f = Some s \<Longrightarrow> sl_state s = Available \<and> sl_constraint s = None"
  by (simp add: plain_snapshot_def)

lemma plain_has: "plain_snapshot c \<Longrightarrow> has_slot c f \<longleftrightarrow> slot_at c f \<noteq> None"
  by (auto simp: has_slot_def dest: plain_lookup split: option.splits)

lemma slot_at_set [simp]: "slot_at (set_slot c g s) f = (if f = g then Some s else slot_at c f)"
  by (simp add: set_slot_def)

lemma plain_set:
  "plain_snapshot c \<Longrightarrow> sl_state s = Available \<Longrightarrow> sl_constraint s = None \<Longrightarrow>
     plain_snapshot (set_slot c f s)"
  by (simp add: plain_snapshot_def set_slot_def)

lemma plain_provide: "plain_snapshot c \<Longrightarrow> plain_snapshot (provide_fields src ps c)"
  unfolding provide_fields_def by (induction ps arbitrary: c) (auto simp: plain_set)

lemma plain_requires: "plain_snapshot (apply_requires r init_snapshot uc)"
proof -
  have "plain_snapshot c \<Longrightarrow> plain_snapshot (apply_require r c q)" for c q
    by (auto simp: apply_require_def plain_provide split: option.split any_spec.split)
  then have "plain_snapshot c \<Longrightarrow> plain_snapshot (foldl (apply_require r) c qs)" for c qs
    by (induction qs arbitrary: c) auto
  moreover have "plain_snapshot init_snapshot" by (simp add: plain_snapshot_def init_snapshot_def)
  ultimately show ?thesis by (simp add: apply_requires_def)
qed

section \<open>One step\<close>

lemma execute_read_plain:
  assumes "plain_snapshot c"
  shows "plain_snapshot (snd (execute_read i c rd))"
    and "slot_at (snd (execute_read i c rd)) f =
      (if f = rd_field rd then map_option (\<lambda>s. s\<lparr>sl_read_by := sl_read_by s @ [i]\<rparr>) (slot_at c f)
       else slot_at c f)"
    and "data_gap_finding i f \<in> set (fst (execute_read i c rd)) \<longleftrightarrow>
      f = rd_field rd \<and> slot_at c f = None"
proof -
  show "plain_snapshot (snd (execute_read i c rd))"
    using plain_lookup [OF assms] assms
    by (auto simp: execute_read_def intro!: plain_set split: option.split)
  show "slot_at (snd (execute_read i c rd)) f =
      (if f = rd_field rd then map_option (\<lambda>s. s\<lparr>sl_read_by := sl_read_by s @ [i]\<rparr>) (slot_at c f)
       else slot_at c f)"
    by (auto simp: execute_read_def plain_has [OF assms] split: option.split)
  show "data_gap_finding i f \<in> set (fst (execute_read i c rd)) \<longleftrightarrow>
      f = rd_field rd \<and> slot_at c f = None"
    by (auto simp: execute_read_def plain_has [OF assms] data_gap_finding_def
        type_mismatch_finding_def split: option.split)
qed

lemma reads_plain:
  assumes "plain_snapshot c"
  shows "plain_snapshot (snd (thread (execute_read i) c rds))"
    and "slot_at (snd (thread (execute_read i) c rds)) f =
      map_option (\<lambda>s. s\<lparr>sl_read_by := sl_read_by s @ replicate (count_list (map rd_field rds) f) i\<rparr>)
        (slot_at c f)"
    and "data_gap_finding i f \<in> set (fst (thread (execute_read i) c rds)) \<longleftrightarrow>
      f \<in> rd_field ` set rds \<and> slot_at c f = None"
  using assms
proof (induction rds arbitrary: c)
  case Nil
  { case 1 then show ?case by simp }
  { case 2 then show ?case by (simp add: option.map_ident) }
  { case 3 then show ?case by simp }
next
  case (Cons rd rds)
  { case 1
    then show ?case using Cons.IH(1) execute_read_plain(1) by (simp add: split_beta) }
  { case 2
    then show ?case
      using Cons.IH(2) [OF execute_read_plain(1) [OF 2]]
      by (auto simp: split_beta execute_read_plain(2) [OF 2] option.map_comp comp_def
          replicate_append_same intro!: option.map_cong0) }
  { case 3
    then show ?case
      using Cons.IH(3) [OF execute_read_plain(1) [OF 3]]
      by (auto simp: split_beta execute_read_plain(2,3) [OF 3]) }
qed

definition fresh_slot :: "string \<Rightarrow> string \<Rightarrow> slot" where
  "fresh_slot i f = \<lparr>sl_name = f, sl_type = [], sl_source = i, sl_state = Available,
     sl_constraint = None, sl_read_by = []\<rparr>"

lemma writes_plain:
  assumes "plain_snapshot c"
    and "\<forall>w \<in> set ws. wr_type w = [] \<and> wr_constraint w = None"
  shows "plain_snapshot (snd (thread (execute_write i) c ws))"
    and "slot_at (snd (thread (execute_write i) c ws)) f =
      (if f \<in> wr_field ` set ws then Some (fresh_slot i f) else slot_at c f)"
    and "x \<in> set (fst (thread (execute_write i) c ws)) \<Longrightarrow> fi_category x = OVERWRITE_WARNING"
  using assms
proof (induction ws arbitrary: c)
  case Nil
  { case 1 then show ?case by simp }
  { case 2 then show ?case by simp }
  { case 3 then show ?case by simp }
next
  case (Cons w ws)
  have p: "plain_snapshot (snd (execute_write i c w))"
    and at: "slot_at (snd (execute_write i c w)) f =
      (if f = wr_field w then Some (fresh_slot i f) else slot_at c f)"
    and cat: "x \<in> set (fst (execute_write i c w)) \<Longrightarrow> fi_category x = OVERWRITE_WARNING"
    if "plain_snapshot c" "\<forall>w \<in> set (w # ws). wr_type w = [] \<and> wr_constraint w = None" for c
    using that by (auto simp: execute_write_def fresh_slot_def plain_set overwrite_finding_def
        split: option.splits if_splits)
  { case 1 then show ?case using Cons.IH(1) [OF p] by (simp add: split_beta) }
  { case 2 then show ?case using Cons.IH(2) [OF p] at by (auto simp: split_beta) }
  { case 3 then show ?case using Cons.IH(3) [OF _ p] cat by (auto simp: split_beta) }
qed

lemma rd_fields_build [simp]: "map rd_field (ef_reads (build_effect r s)) = step_reads s"
  by (simp add: build_effect_def comp_def)

lemma wr_fields_build [simp]: "wr_field ` set (ef_writes (build_effect r s)) = set (step_outputs s)"
  by (force simp: build_effect_def)

abbreviation one_step :: "bool \<Rightarrow> registry \<Rightarrow> snapshot \<Rightarrow> step_def \<Rightarrow> finding list \<times> snapshot" where
  "one_step rec r c s \<equiv> execute_step rec c (st_id s) (build_effect r s)"

lemma slot_at_step [simp]: "slot_at (c\<lparr>sn_step := i\<rparr>) f = slot_at c f"
  by simp

lemma plain_step_id [simp]: "plain_snapshot (c\<lparr>sn_step := i\<rparr>) = plain_snapshot c"
  by (simp add: plain_snapshot_def)

text \<open>The effect of a step on the slots, and the data gaps it reports.\<close>

lemma one_step_plain:
  assumes c: "plain_snapshot c"
  shows "plain_snapshot (snd (one_step rec r c s))"
    and "slot_at (snd (one_step rec r c s)) f =
      (if f \<in> set (step_outputs s) then Some (fresh_slot (st_id s) f)
       else map_option (\<lambda>sl. sl\<lparr>sl_read_by := sl_read_by sl @
              replicate (count_list (step_reads s) f) (st_id s)\<rparr>) (slot_at c f))"
    and "data_gap_finding i f \<in> set (fst (one_step True r c s)) \<longleftrightarrow>
      i = st_id s \<and> f \<in> set (step_reads s) \<and> slot_at c f = None"
proof -
  let ?e = "build_effect r s"
  let ?c1 = "snd (thread (execute_read (st_id s)) c (ef_reads ?e))"
  let ?w = "thread (execute_write (st_id s)) ?c1 (ef_writes ?e)"
  have ws: "\<forall>w \<in> set (ef_writes ?e). wr_type w = [] \<and> wr_constraint w = None"
    by (auto simp: build_effect_def)
  have step: "snd (one_step rec r c s) = (snd ?w)\<lparr>sn_step := st_id s\<rparr>" for rec
    by (simp add: execute_step_def split_beta Let_def build_effect_def)
  note p1 = reads_plain(1) [OF c, of "st_id s" "ef_reads ?e"]
  show "plain_snapshot (snd (one_step rec r c s))"
    using writes_plain(1) [OF p1 ws] by (simp add: step)
  show "slot_at (snd (one_step rec r c s)) f =
      (if f \<in> set (step_outputs s) then Some (fresh_slot (st_id s) f)
       else map_option (\<lambda>sl. sl\<lparr>sl_read_by := sl_read_by sl @
              replicate (count_list (step_reads s) f) (st_id s)\<rparr>) (slot_at c f))"
    using writes_plain(2) [OF p1 ws, of "st_id s" f] reads_plain(2) [OF c, of "st_id s" "ef_reads ?e" f]
    by (simp add: step)
  have cats: "x \<in> set (fst (thread (execute_read j) c rds)) \<Longrightarrow> fi_step x = j" for x j c rds
    by (induction rds arbitrary: c)
      (auto simp: split_beta execute_read_def data_gap_finding_def type_mismatch_finding_def
        split: option.splits if_splits)
  have "data_gap_finding i f \<in> set (fst ?w) \<longleftrightarrow> False"
    using writes_plain(3) [OF p1 ws, of "data_gap_finding i f" "st_id s"]
    by (auto simp: data_gap_finding_def)
  then have "data_gap_finding i f \<in> set (fst (one_step True r c s)) \<longleftrightarrow>
      data_gap_finding i f \<in> set (fst (thread (execute_read (st_id s)) c (ef_reads ?e)))"
    by (simp add: execute_step_def split_beta Let_def)
  also have "\<dots> \<longleftrightarrow> i = st_id s \<and> f \<in> rd_field ` set (ef_reads ?e) \<and> slot_at c f = None"
    using cats [of "data_gap_finding i f"] reads_plain(3) [OF c, of "st_id s" f "ef_reads ?e"]
    by (cases "i = st_id s") (auto simp: data_gap_finding_def)
  also have "rd_field ` set (ef_reads ?e) = set (step_reads s)"
    by (metis list.set_map rd_fields_build)
  finally show "data_gap_finding i f \<in> set (fst (one_step True r c s)) \<longleftrightarrow>
      i = st_id s \<and> f \<in> set (step_reads s) \<and> slot_at c f = None" .
qed

section \<open>Runs\<close>

definition outputs_of :: "step_def list \<Rightarrow> string set" where
  "outputs_of ss = (\<Union>s \<in> set ss. set (step_outputs s))"

definition reads_of :: "step_def list \<Rightarrow> string set" where
  "reads_of ss = (\<Union>s \<in> set ss. set (step_reads s))"

lemma outputs_of_simps [simp]:
  "outputs_of [] = {}" "outputs_of (s # ss) = set (step_outputs s) \<union> outputs_of ss"
  "outputs_of (ss @ ts) = outputs_of ss \<union> outputs_of ts"
  by (auto simp: outputs_of_def)

lemma reads_of_simps [simp]:
  "reads_of [] = {}" "reads_of (s # ss) = set (step_reads s) \<union> reads_of ss"
  by (auto simp: reads_of_def)

lemma run_steps_simps [simp]:
  "run_steps rec r c [] = ([], c)"
  "run_steps rec r c (s # ss) =
     (let (fs, c1) = one_step rec r c s; (gs, c2) = run_steps rec r c1 ss in (fs @ gs, c2))"
  by (simp_all add: run_steps_def)

lemma run_steps_append:
  "snd (run_steps rec r c (ss @ ts)) = snd (run_steps rec r (snd (run_steps rec r c ss)) ts)"
  by (simp add: run_steps_def thread_append split_beta Let_def)

lemma run_plain: "plain_snapshot c \<Longrightarrow> plain_snapshot (snd (run_steps rec r c ss))"
  by (induction ss arbitrary: c) (auto simp: split_beta Let_def one_step_plain(1))

lemma run_None:
  "plain_snapshot c \<Longrightarrow> slot_at (snd (run_steps rec r c ss)) f = None \<longleftrightarrow>
     slot_at c f = None \<and> f \<notin> outputs_of ss"
  by (induction ss arbitrary: c)
    (auto simp: split_beta Let_def one_step_plain(1,2) split: if_splits)

text \<open>The keyword \<^verbatim>\<open>record\<close> changes the findings only.\<close>

lemma run_record: "snd (run_steps rec r c ss) = snd (run_steps True r c ss)"
proof -
  have "snd (one_step rec r c s) = snd (one_step True r c s)" for c s
    by (simp add: execute_step_def split_beta Let_def)
  then show ?thesis by (induction ss arbitrary: c) (simp_all add: split_beta Let_def)
qed

lemma run_data_gap:
  "plain_snapshot c \<Longrightarrow> data_gap_finding i f \<in> set (fst (run_steps True r c ss)) \<longleftrightarrow>
     (\<exists>pre s post. ss = pre @ s # post \<and> st_id s = i \<and> f \<in> set (step_reads s) \<and>
        slot_at c f = None \<and> f \<notin> outputs_of pre)"
proof (induction ss arbitrary: c)
  case Nil
  then show ?case by simp
next
  case (Cons t ts)
  have split: "(\<exists>pre s post. t # ts = pre @ s # post \<and> P pre s) \<longleftrightarrow>
      P [] t \<or> (\<exists>pre s post. ts = pre @ s # post \<and> P (t # pre) s)" for P
    by (auto simp: Cons_eq_append_conv)
  have IH: "data_gap_finding i f \<in> set (fst (run_steps True r (snd (one_step True r c t)) ts)) \<longleftrightarrow>
     (\<exists>pre s post. ts = pre @ s # post \<and> st_id s = i \<and> f \<in> set (step_reads s) \<and>
        slot_at (snd (one_step True r c t)) f = None \<and> f \<notin> outputs_of pre)"
    by (rule Cons.IH [OF one_step_plain(1) [OF Cons.prems]])
  show ?case
    unfolding split using IH
    by (auto simp: split_beta Let_def one_step_plain(2,3) [OF Cons.prems])
qed

lemma run_kept:
  "plain_snapshot c \<Longrightarrow> f \<notin> outputs_of ss \<Longrightarrow>
     slot_at (snd (run_steps rec r c ss)) f =
       map_option (\<lambda>sl. sl\<lparr>sl_read_by := sl_read_by sl @
         concat (map (\<lambda>s. replicate (count_list (step_reads s) f) (st_id s)) ss)\<rparr>) (slot_at c f)"
proof (induction ss arbitrary: c)
  case Nil
  then show ?case by (simp add: option.map_ident)
next
  case (Cons s ss)
  then show ?case
    using Cons.IH [OF one_step_plain(1) [OF Cons.prems(1)]]
    by (auto simp: split_beta Let_def one_step_plain(2) [OF Cons.prems(1)] option.map_comp comp_def
        intro!: option.map_cong0)
qed

lemma no_reads: "(\<forall>s \<in> set ss. count_list (step_reads s) f = 0) \<longleftrightarrow> f \<notin> reads_of ss"
  by (auto simp: reads_of_def count_list_0_iff)

lemma run_written:
  assumes "plain_snapshot c" and "f \<in> set (step_outputs s)" and "f \<notin> outputs_of post"
  shows "\<exists>sl. slot_at (snd (run_steps rec r c (pre @ s # post))) f = Some sl \<and>
    sl_source sl = st_id s \<and> (sl_read_by sl = [] \<longleftrightarrow> f \<notin> reads_of post)"
proof -
  let ?c = "snd (run_steps rec r c pre)"
  have p: "plain_snapshot ?c" using assms(1) by (rule run_plain)
  have "snd (run_steps rec r c (pre @ s # post)) = snd (run_steps rec r (snd (one_step rec r ?c s)) post)"
    by (simp add: run_steps_append split_beta Let_def)
  moreover have "slot_at (snd (one_step rec r ?c s)) f = Some (fresh_slot (st_id s) f)"
    using assms(2) by (simp add: one_step_plain(2) [OF p])
  ultimately show ?thesis
    using run_kept [OF one_step_plain(1) [OF p] assms(3)] by (simp add: fresh_slot_def no_reads)
qed

lemma last_write:
  "f \<in> outputs_of ss \<Longrightarrow>
     \<exists>pre s post. ss = pre @ s # post \<and> f \<in> set (step_outputs s) \<and> f \<notin> outputs_of post"
proof (induction ss rule: rev_induct)
  case Nil
  then show ?case by simp
next
  case (snoc s ss)
  show ?case
  proof (cases "f \<in> set (step_outputs s)")
    case True
    then show ?thesis by (metis empty_iff outputs_of_simps(1))
  next
    case False
    with snoc.prems have "f \<in> outputs_of ss" by simp
    from snoc.IH [OF this] obtain pre t post where
      t: "ss = pre @ t # post" "f \<in> set (step_outputs t)" "f \<notin> outputs_of post" by blast
    with False have "ss @ [s] = pre @ t # (post @ [s]) \<and> f \<notin> outputs_of (post @ [s])" by simp
    with t(2) show ?thesis by blast
  qed
qed

lemma require_slots:
  "slot_at (apply_requires r init_snapshot uc) f = Some sl \<Longrightarrow> prefix ''component:'' (sl_source sl)"
proof -
  have prov: "slot_at (provide_fields src ps c) f = Some sl \<Longrightarrow>
      slot_at c f = Some sl \<or> sl_source sl = src" for src ps c
    unfolding provide_fields_def
    by (induction ps arbitrary: c) (auto split: if_splits, fastforce split: if_splits)
  have req: "slot_at c f = Some sl \<or> prefix ''component:'' (sl_source sl)"
    if a: "slot_at (apply_require r c q) f = Some sl" for c q
  proof (cases "\<exists>cm. resolve_ref r (req_ref q) = Some (ComponentSpec cm)")
    case True
    then obtain cm where "resolve_ref r (req_ref q) = Some (ComponentSpec cm)" ..
    then have "\<exists>x. apply_require r c q = provide_fields (''component:'' @ x) (comp_provides cm) c"
      by (auto simp: apply_require_def)
    with a prov have "\<exists>x. slot_at c f = Some sl \<or> sl_source sl = ''component:'' @ x"
      by metis
    then show ?thesis by (metis prefixI)
  next
    case False
    then have "apply_require r c q = c"
      unfolding apply_require_def by (simp split: option.split any_spec.split)
    with a show ?thesis by simp
  qed
  have "slot_at (foldl (apply_require r) c qs) f = Some sl \<Longrightarrow>
      slot_at c f = Some sl \<or> prefix ''component:'' (sl_source sl)" for c qs
  proof (induction qs arbitrary: c)
    case (Cons q qs)
    then show ?case using req by (metis foldl_Cons)
  qed simp
  from this [of init_snapshot] show "slot_at (apply_requires r init_snapshot uc) f = Some sl \<Longrightarrow>
      prefix ''component:'' (sl_source sl)"
    by (simp add: apply_requires_def init_snapshot_def)
qed

lemma dead_data_iff:
  "wf_dict (sn_slots c) \<Longrightarrow> dead_data_finding i f \<in> set (detect_dead_data c alts) \<longleftrightarrow>
     (\<exists>sl. slot_at c f = Some sl \<and> sl_source sl = i \<and> \<not> prefix ''component:'' i \<and> f \<notin> set alts \<and>
        sl_read_by sl = [])"
  by (auto simp: detect_dead_data_def dead_data_finding_def wf_dict_lookup [symmetric]
      split: if_splits)

lemma run_categories:
  "x \<in> set (fst (run_steps True r c ss)) \<Longrightarrow>
     fi_category x \<in> {DATA_GAP, TYPE_MISMATCH, OVERWRITE_WARNING}"
proof (induction ss arbitrary: c)
  case Nil
  then show ?case by simp
next
  case (Cons s ss)
  have "y \<in> set (fst (thread (execute_read i) c rds)) \<Longrightarrow> fi_category y \<in> {DATA_GAP, TYPE_MISMATCH}"
    for y i c rds
    by (induction rds arbitrary: c)
      (auto simp: split_beta execute_read_def data_gap_finding_def type_mismatch_finding_def
        split: option.splits if_splits)
  moreover have "y \<in> set (fst (thread (execute_write i) c ws)) \<Longrightarrow> fi_category y = OVERWRITE_WARNING"
    for y i c ws
    by (induction ws arbitrary: c)
      (auto simp: split_beta execute_write_def overwrite_finding_def split: option.splits if_splits)
  ultimately have "y \<in> set (fst (one_step True r c s)) \<Longrightarrow>
      fi_category y \<in> {DATA_GAP, TYPE_MISMATCH, OVERWRITE_WARNING}" for y c
    by (fastforce simp: execute_step_def split_beta Let_def)
  with Cons show ?case by (auto simp: split_beta Let_def)
qed

section \<open>Branches\<close>

lemma live_plain: "plain_snapshot c \<Longrightarrow> set (live_fields c) = {f. slot_at c f \<noteq> None}"
  by (force simp: plain_snapshot_def live_fields_def wf_dict_lookup)

lemma constraint_plain: "plain_snapshot c \<Longrightarrow> slot_constraint c f = None"
  by (auto simp: slot_constraint_def dest: plain_lookup split: option.splits)

context set_iteration
begin

lemma branch_check_empty:
  assumes "plain_snapshot main" "plain_snapshot alt"
    and "\<And>f. slot_at main f \<noteq> None \<Longrightarrow> slot_at alt f \<noteq> None"
  shows "check_branch_compatibility ord main alt name = []"
proof -
  have "filter (\<lambda>f. f \<notin> set (live_fields alt)) (live_fields main) = []"
    using assms by (simp add: filter_empty_conv live_plain)
  then show ?thesis
    using assms by (simp add: check_branch_compatibility_def Let_def constraint_plain)
qed

lemma alternative_flow_findings:
  "trace_alternative_flow ord r
     (snd (run_steps True r (apply_requires r init_snapshot uc) (uc_steps uc))) uc alt =
   fst (run_steps True r (fork (snd (run_steps True r (apply_requires r init_snapshot uc) (uc_steps uc)))
     (''alt:'' @ alt_name alt)) (alt_steps alt))"
proof -
  let ?c = "snd (run_steps True r (apply_requires r init_snapshot uc) (uc_steps uc))"
  let ?f = "fork ?c (''alt:'' @ alt_name alt)"
  have p: "plain_snapshot ?c" "plain_snapshot ?f"
    using run_plain [OF plain_requires] by (auto simp: fork_def plain_snapshot_def)
  have at: "slot_at ?f g = slot_at ?c g" for g by (simp add: fork_def)
  have "check_branch_compatibility ord ?c (snd (run_steps True r ?f (alt_steps alt))) (alt_name alt) = []"
    using p(1) run_plain [OF p(2)]
  proof (rule branch_check_empty)
    show "slot_at (snd (run_steps True r ?f (alt_steps alt))) g \<noteq> None" if "slot_at ?c g \<noteq> None" for g
      unfolding run_None [OF p(2)] at using that by blast
  qed
  then show ?thesis
    by (simp add: trace_alternative_flow_def Let_def split_beta run_record [of False])
qed

end

section \<open>The findings of a trace\<close>

text \<open>The parts of the result, for the use case \<open>v\<close> that composition returns.\<close>

definition main_run :: "registry \<Rightarrow> usecase_spec \<Rightarrow> finding list \<times> snapshot" where
  "main_run r v = run_steps True r (apply_requires r init_snapshot v) (uc_steps v)"

definition flow_run :: "registry \<Rightarrow> usecase_spec \<Rightarrow> alternative_flow \<Rightarrow> finding list" where
  "flow_run r v alt =
     fst (run_steps True r (fork (snd (main_run r v)) (''alt:'' @ alt_name alt)) (alt_steps alt))"

lemma main_plain: "plain_snapshot (snd (main_run r v))"
  unfolding main_run_def by (rule run_plain [OF plain_requires])

lemma trace_parts:
  assumes "set_iteration ord" and "resolve_composition r uc = Inr v"
  shows "trace_usecase ord r uc = Inr (fst (main_run r v) @ verify_postconditions (snd (main_run r v)) v
    @ concat (map (flow_run r v) (uc_alternative_flows v))
    @ detect_dead_data (snd (main_run r v)) (alt_reads v))"
proof -
  have "trace_alternative_flow ord r (snd (main_run r v)) v = flow_run r v"
    unfolding main_run_def flow_run_def
    by (rule ext) (rule set_iteration.alternative_flow_findings [OF assms(1)])
  then show ?thesis
    by (simp add: trace_usecase_def assms(2) main_run_def [symmetric] Let_def split_beta)
qed

lemma trace_composed: "trace_usecase ord r uc = Inr fs \<Longrightarrow> \<exists>v. resolve_composition r uc = Inr v"
  by (auto simp: trace_usecase_def res_bind_Inr)

lemma part_categories:
  "x \<in> set (fst (main_run r v)) \<Longrightarrow> fi_category x \<in> {DATA_GAP, TYPE_MISMATCH, OVERWRITE_WARNING}"
  "x \<in> set (flow_run r v alt) \<Longrightarrow> fi_category x \<in> {DATA_GAP, TYPE_MISMATCH, OVERWRITE_WARNING}"
  "x \<in> set (verify_postconditions c v) \<Longrightarrow> fi_category x = MISSING_POSTCONDITION"
  "x \<in> set (detect_dead_data c alts) \<Longrightarrow> fi_category x = DEAD_DATA"
  unfolding main_run_def flow_run_def
  by (fast dest: run_categories)+
    (auto simp: verify_postconditions_def missing_postcondition_finding_def detect_dead_data_def
      dead_data_finding_def split: if_splits)

text \<open>A slot of the main flow that nothing reads belongs to the last step that writes it.\<close>

lemma dead_slot_iff:
  "(\<exists>sl. slot_at (snd (main_run r v)) f = Some sl \<and> sl_source sl = i \<and> sl_read_by sl = []) \<and>
     \<not> prefix ''component:'' i \<longleftrightarrow>
   (\<exists>pre s post. uc_steps v = pre @ s # post \<and> st_id s = i \<and> f \<in> set (step_outputs s) \<and>
       f \<notin> outputs_of post \<and> f \<notin> reads_of post) \<and> \<not> prefix ''component:'' i"
proof (cases "f \<in> outputs_of (uc_steps v)")
  case True
  have written: "\<exists>sl. slot_at (snd (main_run r v)) f = Some sl \<and> sl_source sl = st_id s \<and>
      (sl_read_by sl = [] \<longleftrightarrow> f \<notin> reads_of post)"
    if "uc_steps v = pre @ s # post" "f \<in> set (step_outputs s)" "f \<notin> outputs_of post" for pre s post
    unfolding main_run_def that(1) by (rule run_written [OF plain_requires that(2,3)])
  from last_write [OF True] obtain pre s post where last: "uc_steps v = pre @ s # post"
    "f \<in> set (step_outputs s)" "f \<notin> outputs_of post" by blast
  with written [OF last] show ?thesis using written by (metis option.inject)
next
  case False
  have "prefix ''component:'' (sl_source sl)" if "slot_at (snd (main_run r v)) f = Some sl" for sl
    using that require_slots [of r v f] unfolding main_run_def run_kept [OF plain_requires False]
    by (auto simp del: prefix_Cons)
  moreover have "f \<notin> set (step_outputs s)" if "uc_steps v = pre @ s # post" for pre s post
    using False that by simp
  ultimately show ?thesis by blast
qed

text \<open>Records of the cross use case analyzer that come from final contexts have no constraint.\<close>

definition unconstrained :: "write_map \<Rightarrow> bool" where
  "unconstrained wm \<longleftrightarrow> (\<forall>(f, rs) \<in> set wm. \<forall>(u, s, c) \<in> set rs. c = None)"

lemma unconstrained_append:
  assumes "unconstrained wm"
  shows "unconstrained (dict_append wm f (u, s, None))"
proof -
  have get: "\<forall>(u, s, c) \<in> set (dict_get wm f []). c = None"
  proof (cases "map_of wm f")
    case None
    then show ?thesis by (simp add: dict_get_def)
  next
    case (Some rs)
    then have "(f, rs) \<in> set wm" by (rule map_of_SomeD)
    with assms Some show ?thesis by (auto simp: unconstrained_def dict_get_def)
  qed
  show ?thesis
    unfolding unconstrained_def dict_append_def
  proof
    fix e
    assume "e \<in> set (AList.update f (dict_get wm f [] @ [(u, s, None)]) wm)"
    then have "e = (f, dict_get wm f [] @ [(u, s, None)]) \<or> e \<in> set wm"
      using set_update_subset by fast
    then show "case e of (f, rs) \<Rightarrow> \<forall>(u, s, c) \<in> set rs. c = None"
      using get assms by (auto simp: unconstrained_def)
  qed
qed

lemma unconstrained_register:
  assumes "plain_snapshot c" and "unconstrained wm"
  shows "unconstrained (register_trace wm u c)"
proof -
  have none: "\<forall>(f, s) \<in> set (sn_slots c). sl_constraint s = None"
    using assms(1) by (auto simp: plain_snapshot_def wf_dict_lookup)
  have "unconstrained (foldl (\<lambda>m (name, s). if prefix ''component:'' (sl_source s) then m
      else dict_append m name (u, sl_source s, sl_constraint s)) wm ss)"
    if "\<forall>(f, s) \<in> set ss. sl_constraint s = None" "unconstrained wm" for ss wm
    using that
  proof (induction ss arbitrary: wm)
    case (Cons p ss)
    obtain f s where "p = (f, s)" by (cases p)
    with Cons show ?case by (simp add: unconstrained_append)
  qed simp
  from this [OF none assms(2)] show ?thesis by (simp add: register_trace_def)
qed

lemma unconstrained_no_conflicts:
  assumes u: "unconstrained wm"
  shows "find_conflicts wm = []"
proof -
  have "\<not> set_size (map (snd \<circ> snd) rs) > 1" if "(f, rs) \<in> set wm" for f rs
  proof -
    have "set (map (snd \<circ> snd) rs) \<subseteq> {None}" using u that by (fastforce simp: unconstrained_def)
    then have "card (set (map (snd \<circ> snd) rs)) \<le> card {None :: string option}"
      by (rule card_mono [rotated]) simp
    then show ?thesis by (simp add: set_size_card)
  qed
  then show ?thesis by (auto simp: find_conflicts_def)
qed

text \<open>An example: \<^verbatim>\<open>s2\<close> reads one field that exists and one that does not.\<close>

definition example_s1 :: step_def where
  "example_s1 = (plain_step ''s1'' ''actions/order'')\<lparr>st_output := [(''id'', ''order_id'')]\<rparr>"

definition example_s2 :: step_def where
  "example_s2 = (plain_step ''s2'' ''actions/pay'')\<lparr>st_input := [(''a'', VStr ''$steps.s1.order_id''),
     (''b'', VList [VStr ''$steps.s1.total''])], st_output := [(''r'', ''receipt'')]\<rparr>"

definition example_flow :: usecase_spec where
  "example_flow = plain_usecase ''checkout'' None [example_s1, example_s2]"

lemma example_flow_simps:
  "uc_steps example_flow = [example_s1, example_s2]" "st_id example_s2 = ''s2''"
  "uc_alternative_flows example_flow = []" "uc_requires example_flow = []"
  by (simp_all add: example_flow_def example_s2_def plain_defs)

lemma example_step_simps:
  "step_reads example_s2 = [''order_id'', ''total'']" "step_outputs example_s1 = [''order_id'']"
  "step_reads example_s1 = []" "step_outputs example_s2 = [''receipt'']"
  by code_simp+

lemma example_flow_composed: "resolve_composition empty_registry example_flow = Inr example_flow"
  by code_simp

lemma example_flow_traced: "\<exists>fs. trace_usecase sorted_set empty_registry example_flow = Inr fs"
  using trace_parts [OF sorted_iter.set_iteration_axioms example_flow_composed] by blast

section \<open>Properties\<close>

text \<open>
  A data gap is reported for a step and a field exactly when the step reads the field while no
  required component provides it and no earlier step outputs it; for a step of an alternative flow
  the earlier steps are all steps of the main flow and the earlier ones of that flow.
\<close>

theorem data_gap_exact:
  assumes "set_iteration ord" and "resolve_composition r uc = Inr v"
    and "trace_usecase ord r uc = Inr fs"
  shows "data_gap_finding i f \<in> set fs \<longleftrightarrow>
    slot_at (apply_requires r init_snapshot v) f = None \<and>
    ((\<exists>pre s post. uc_steps v = pre @ s # post \<and> st_id s = i \<and> f \<in> set (step_reads s) \<and>
        f \<notin> outputs_of pre) \<or>
     (\<exists>alt \<in> set (uc_alternative_flows v). \<exists>pre s post. alt_steps alt = pre @ s # post \<and>
        st_id s = i \<and> f \<in> set (step_reads s) \<and> f \<notin> outputs_of (uc_steps v) \<union> outputs_of pre))"
proof -
  let ?c = "apply_requires r init_snapshot v"
  have gap: "fi_category (data_gap_finding i f) = DATA_GAP" by (simp add: data_gap_finding_def)
  then have "data_gap_finding i f \<in> set fs \<longleftrightarrow> data_gap_finding i f \<in> set (fst (main_run r v)) \<or>
      (\<exists>alt \<in> set (uc_alternative_flows v). data_gap_finding i f \<in> set (flow_run r v alt))"
    using assms(3) part_categories(3,4) by (fastforce simp: trace_parts [OF assms(1,2)])
  moreover have "data_gap_finding i f \<in> set (fst (main_run r v)) \<longleftrightarrow>
      (\<exists>pre s post. uc_steps v = pre @ s # post \<and> st_id s = i \<and> f \<in> set (step_reads s) \<and>
        slot_at ?c f = None \<and> f \<notin> outputs_of pre)"
    unfolding main_run_def by (rule run_data_gap [OF plain_requires])
  moreover have "data_gap_finding i f \<in> set (flow_run r v alt) \<longleftrightarrow>
      (\<exists>pre s post. alt_steps alt = pre @ s # post \<and> st_id s = i \<and> f \<in> set (step_reads s) \<and>
        (slot_at ?c f = None \<and> f \<notin> outputs_of (uc_steps v)) \<and> f \<notin> outputs_of pre)" for alt
  proof -
    let ?m = "fork (snd (main_run r v)) (''alt:'' @ alt_name alt)"
    have "plain_snapshot ?m" using main_plain by (simp add: fork_def)
    moreover have "slot_at ?m f = None \<longleftrightarrow> slot_at ?c f = None \<and> f \<notin> outputs_of (uc_steps v)"
      unfolding main_run_def using run_None [OF plain_requires] by (simp add: fork_def)
    ultimately show ?thesis unfolding flow_run_def by (simp only: run_data_gap)
  qed
  ultimately show ?thesis by (simp only: Un_iff) blast
qed

theorem data_gap_exact_witness:
  "\<exists>fs. trace_usecase sorted_set empty_registry example_flow = Inr fs \<and>
     data_gap_finding ''s2'' ''total'' \<in> set fs \<and> data_gap_finding ''s2'' ''order_id'' \<notin> set fs"
proof -
  obtain fs where fs: "trace_usecase sorted_set empty_registry example_flow = Inr fs"
    using example_flow_traced ..
  note gap = data_gap_exact [OF sorted_iter.set_iteration_axioms example_flow_composed fs]
  have none: "slot_at (apply_requires empty_registry init_snapshot example_flow) f = None" for f
    by (simp add: apply_requires_def init_snapshot_def example_flow_simps)
  have "data_gap_finding ''s2'' ''total'' \<in> set fs"
    unfolding gap example_flow_simps
    by (intro conjI none disjI1 exI [of _ "[example_s1]"] exI [of _ example_s2] exI [of _ "[]"])
      (simp_all add: example_flow_simps example_step_simps)
  moreover have "data_gap_finding ''s2'' ''order_id'' \<notin> set fs"
    unfolding gap example_flow_simps
    by (auto simp: Cons_eq_append_conv example_step_simps)
  ultimately show ?thesis using fs by blast
qed

text \<open>
  A field is reported as dead data of a step exactly when the step is the last of the main flow
  to output it, no later step of the main flow and no step of an alternative flow reads it, and the
  id of the step does not start with \<^verbatim>\<open>component:\<close>.
\<close>

theorem dead_data_exact:
  assumes "set_iteration ord" and "resolve_composition r uc = Inr v"
    and "trace_usecase ord r uc = Inr fs"
  shows "dead_data_finding i f \<in> set fs \<longleftrightarrow>
    (\<exists>pre s post. uc_steps v = pre @ s # post \<and> st_id s = i \<and> f \<in> set (step_outputs s) \<and>
       f \<notin> outputs_of post \<and> f \<notin> reads_of post) \<and>
    f \<notin> set (alt_reads v) \<and> \<not> prefix ''component:'' i"
proof -
  let ?c = "snd (main_run r v)"
  have dead: "fi_category (dead_data_finding i f) = DEAD_DATA" by (simp add: dead_data_finding_def)
  have "dead_data_finding i f \<in> set fs \<longleftrightarrow> dead_data_finding i f \<in> set (detect_dead_data ?c (alt_reads v))"
    using assms(3) part_categories(1,2,3) dead by (fastforce simp: trace_parts [OF assms(1,2)])
  also have "\<dots> \<longleftrightarrow> (\<exists>sl. slot_at ?c f = Some sl \<and> sl_source sl = i \<and> \<not> prefix ''component:'' i \<and>
      f \<notin> set (alt_reads v) \<and> sl_read_by sl = [])"
    using main_plain by (intro dead_data_iff) (auto simp: plain_snapshot_def)
  also have "\<dots> \<longleftrightarrow> (\<exists>pre s post. uc_steps v = pre @ s # post \<and> st_id s = i \<and>
      f \<in> set (step_outputs s) \<and> f \<notin> outputs_of post \<and> f \<notin> reads_of post) \<and>
      f \<notin> set (alt_reads v) \<and> \<not> prefix ''component:'' i"
    using dead_slot_iff [of r v f i] by blast
  finally show ?thesis .
qed

theorem dead_data_exact_witness:
  "\<exists>fs. trace_usecase sorted_set empty_registry example_flow = Inr fs \<and>
     dead_data_finding ''s2'' ''receipt'' \<in> set fs"
proof -
  obtain fs where fs: "trace_usecase sorted_set empty_registry example_flow = Inr fs"
    using example_flow_traced ..
  note dead = dead_data_exact [OF sorted_iter.set_iteration_axioms example_flow_composed fs]
  have "alt_reads example_flow = []" by (simp add: alt_reads_def example_flow_simps)
  then have "dead_data_finding ''s2'' ''receipt'' \<in> set fs"
    unfolding dead example_flow_simps
    by (intro conjI exI [of _ "[example_s1]"] exI [of _ example_s2] exI [of _ "[]"])
      (simp_all add: example_flow_simps example_step_simps)
  with fs show ?thesis by blast
qed

text \<open>
  Three of the analyses never report anything: whatever the use case, a trace contains no
  \<^verbatim>\<open>branch_divergence\<close> and no \<^verbatim>\<open>branch_state_difference\<close> finding. The branch starts from the same
  steps as the main flow, so it has every field of it, and no slot ever has a constraint.
\<close>

theorem trace_categories:
  assumes "set_iteration ord" and "trace_usecase ord r uc = Inr fs" and "x \<in> set fs"
  shows "fi_category x \<in>
    {DATA_GAP, TYPE_MISMATCH, OVERWRITE_WARNING, MISSING_POSTCONDITION, DEAD_DATA}"
proof -
  obtain v where v: "resolve_composition r uc = Inr v" using trace_composed [OF assms(2)] ..
  show ?thesis
    using assms(2,3) part_categories by (fastforce simp: trace_parts [OF assms(1) v])
qed

theorem trace_categories_witness:
  "\<exists>fs. trace_usecase sorted_set empty_registry example_flow = Inr fs \<and>
     list_all (\<lambda>x. fi_category x \<noteq> BRANCH_DIVERGENCE \<and> fi_category x \<noteq> BRANCH_STATE_DIFFERENCE) fs"
proof -
  obtain fs where fs: "trace_usecase sorted_set empty_registry example_flow = Inr fs"
    using example_flow_traced ..
  then show ?thesis
    using trace_categories [OF sorted_iter.set_iteration_axioms fs] by (fastforce simp: list_all_iff)
qed

text \<open>
  \<^verbatim>\<open>get_final_context\<close> is the context that \<^verbatim>\<open>trace_usecase\<close> analyses: whether findings are
  recorded does not influence the execution, and a trace raises exactly when it does.
\<close>

theorem final_context_is_traced:
  "get_final_context r uc = map_sum id (\<lambda>v. snd (main_run r v)) (resolve_composition r uc) \<and>
   (isl (get_final_context r uc) \<longleftrightarrow> isl (trace_usecase ord r uc))"
  by (cases "resolve_composition r uc")
    (simp_all add: get_final_context_def trace_usecase_def main_run_def run_record [of False]
      Let_def split_beta)

text \<open>
  The cross use case analysis finds nothing: fed with the final contexts of any use cases under
  any names, it reports no mutation conflict, because no slot of a final context has a constraint.
\<close>

theorem no_cross_usecase_conflicts:
  assumes "\<forall>(u, c) \<in> set ts. \<exists>r uc. get_final_context r uc = Inr c"
  shows "find_conflicts (foldl (\<lambda>m (u, c). register_trace m u c) [] ts) = []"
proof -
  have "plain_snapshot c" if "get_final_context r uc = Inr c" for r uc c
    using that run_plain [OF plain_requires] by (auto simp: get_final_context_def res_bind_Inr)
  then have "\<forall>(u, c) \<in> set ts. plain_snapshot c" using assms by fast
  then have "unconstrained wm \<Longrightarrow> unconstrained (foldl (\<lambda>m (u, c). register_trace m u c) wm ts)" for wm
    by (induction ts arbitrary: wm) (auto simp: unconstrained_register)
  from this [of "[]"] show ?thesis by (simp add: unconstrained_no_conflicts unconstrained_def [of "[]"])
qed

theorem no_cross_usecase_conflicts_witness:
  "\<exists>c. get_final_context empty_registry example_flow = Inr c \<and>
     find_conflicts (foldl (\<lambda>m (u, c). register_trace m u c) [] [(''a'', c), (''b'', c)]) = []"
proof -
  obtain c where c: "get_final_context empty_registry example_flow = Inr c"
    by (simp add: get_final_context_def example_flow_composed)
  then have "\<forall>(u, c) \<in> set [(''a'', c), (''b'', c)]. \<exists>r uc. get_final_context r uc = Inr c" by auto
  from no_cross_usecase_conflicts [OF this] c show ?thesis by blast
qed

end
