(* ===== verification/State_Coverage.thy ===== *)
theory State_Coverage
  imports Tracer
begin

text \<open>
  The state coverage analyzer, \<^verbatim>\<open>src/ucf/completeness/state_coverage.py\<close>: the graph of states that
  the conditions of the use cases imply, the search of its reachable states and the findings. A
  \<^verbatim>\<open>frozenset\<close> of conditions is kept as a list; \<open>ord\<close> is the iteration order of a set.
  The search is specified by reachability in the transition relation.
\<close>

section \<open>The state graph\<close>

record state_node =
  node_name :: string
  node_pre :: "string list"
  node_post :: "string list"
  node_sources :: "string list"
  node_terminal :: bool

record state_transition =
  tr_from :: string
  tr_to :: string
  tr_via :: string

record state_graph =
  sg_states :: "(string, state_node) dict"
  sg_transitions :: "state_transition list"
  sg_initial :: string

definition state_name_for :: "string list \<Rightarrow> string" where
  "state_name_for conditions =
     (if conditions = [] then ''initial''
      else
        (let words = concat (map (\<lambda>c. take 4 (py_words (py_lower c))) (sorted_set conditions))
         in py_join ''-'' (take 6 words)))"

definition state_node_of :: "string \<Rightarrow> string list \<Rightarrow> string list \<Rightarrow> string list \<Rightarrow> bool \<Rightarrow> state_node" where
  "state_node_of n pre post ucs t =
     \<lparr>node_name = n, node_pre = pre, node_post = post, node_sources = ucs, node_terminal = t\<rparr>"

definition empty_graph :: state_graph where
  "empty_graph = \<lparr>sg_states = [(''initial'', state_node_of ''initial'' [] [] [] False)],
     sg_transitions = [], sg_initial = ''initial''\<rparr>"

definition uc_required :: "usecase_spec \<Rightarrow> string list" where
  "uc_required uc = filter (\<lambda>p. p \<notin> set (uc_assumed_preconditions uc)) (uc_preconditions uc)"

definition uc_from_state :: "usecase_spec \<Rightarrow> string" where
  "uc_from_state uc =
     (if uc_required uc \<noteq> [] then state_name_for (uc_required uc) else ''initial'')"

definition uc_to_state :: "usecase_spec \<Rightarrow> string" where
  "uc_to_state uc =
     (if uc_postconditions uc \<noteq> [] then state_name_for (uc_postconditions uc) else uc_from_state uc)"

definition add_usecase :: "state_graph \<Rightarrow> usecase_spec \<Rightarrow> state_graph" where
  "add_usecase g uc =
     (let name = uc_name uc; from_state = uc_from_state uc; to_state = uc_to_state uc;
          states = (if map_of (sg_states g) from_state = None
                    then AList.update from_state
                      (state_node_of from_state (uc_required uc) [] [] False) (sg_states g)
                    else sg_states g);
          states' = (case map_of states to_state of
                None \<Rightarrow> AList.update to_state
                  (state_node_of to_state [] (uc_postconditions uc) [name] (uc_terminal uc)) states
              | Some n \<Rightarrow> AList.update to_state
                  (n\<lparr>node_sources := node_sources n @ [name],
                     node_terminal := (if uc_terminal uc then True else node_terminal n)\<rparr>) states)
      in g\<lparr>sg_states := states',
           sg_transitions := sg_transitions g
             @ [\<lparr>tr_from = from_state, tr_to = to_state, tr_via = name\<rparr>]\<rparr>)"

definition build_state_graph :: "registry \<Rightarrow> state_graph" where
  "build_state_graph r = foldl add_usecase empty_graph (usecases r)"

section \<open>The search\<close>

text \<open>
  The loop over the stack, whose top is the last element of the list: \<^verbatim>\<open>visited\<close> is the list of
  the visited states in the order of the visits.
\<close>

definition successors :: "state_graph \<Rightarrow> string list \<Rightarrow> string \<Rightarrow> string list" where
  "successors g visited current =
     map tr_to (filter (\<lambda>t. tr_from t = current \<and> tr_to t \<notin> set visited) (sg_transitions g))"

definition graph_nodes :: "state_graph \<Rightarrow> string set" where
  "graph_nodes g = tr_to ` set (sg_transitions g)"

lemma successors_nodes: "set (successors g visited current) \<subseteq> graph_nodes g"
  by (auto simp: successors_def graph_nodes_def)

function reach_loop :: "state_graph \<Rightarrow> string list \<Rightarrow> string list \<Rightarrow> string list" where
  "reach_loop g visited stack =
     (if stack = [] then visited
      else
        (let current = last stack; rest = butlast stack in
         if current \<in> set visited then reach_loop g visited rest
         else reach_loop g (visited @ [current])
                (rest @ successors g (visited @ [current]) current)))"
  by pat_completeness auto
termination
proof (relation "measures [\<lambda>(g, visited, stack). card (graph_nodes g \<union> set stack - set visited),
    \<lambda>(g, visited, stack). length stack]")
  fix g visited stack current rest
  assume "stack \<noteq> ([] :: string list)" and c: "current = last stack" and r: "rest = butlast stack"
  then have stack: "stack = rest @ [current]" by simp
  have fin: "finite (graph_nodes g \<union> set stack - set visited)" by (simp add: graph_nodes_def)
  {
    assume "current \<in> set visited"
    then have "graph_nodes g \<union> set rest - set visited = graph_nodes g \<union> set stack - set visited"
      by (auto simp: stack)
    then show "((g, visited, rest), g, visited, stack)
        \<in> measures [\<lambda>(g, visited, stack). card (graph_nodes g \<union> set stack - set visited),
            \<lambda>(g, visited, stack). length stack]"
      by (simp add: stack)
  next
    assume "current \<notin> set visited"
    then have "graph_nodes g \<union> set (rest @ successors g (visited @ [current]) current)
          - set (visited @ [current])
        \<subset> graph_nodes g \<union> set stack - set visited"
      using successors_nodes [of g "visited @ [current]" current] by (auto simp: stack)
    from psubset_card_mono [OF fin this]
    show "((g, visited @ [current], rest @ successors g (visited @ [current]) current), g, visited, stack)
        \<in> measures [\<lambda>(g, visited, stack). card (graph_nodes g \<union> set stack - set visited),
            \<lambda>(g, visited, stack). length stack]"
      by simp
  }
qed simp

declare reach_loop.simps [simp del]

definition reachable_from :: "state_graph \<Rightarrow> string \<Rightarrow> string list" where
  "reachable_from g start = reach_loop g [] [start]"

definition outgoing :: "state_graph \<Rightarrow> string \<Rightarrow> state_transition list" where
  "outgoing g state = filter (\<lambda>t. tr_from t = state) (sg_transitions g)"

section \<open>The findings\<close>

definition unreachable_finding :: "string \<Rightarrow> state_node \<Rightarrow> finding" where
  "unreachable_finding name n = \<lparr>fi_severity = FWarning, fi_category = UNREACHABLE_STATE,
     fi_step = ''state:'' @ name,
     fi_message = ''State '' @ quoted name @ '' is not reachable from the initial state. Preconditions: ''
       @ (if node_pre n \<noteq> [] then repr_str_list (sorted_set (node_pre n)) else ''none''),
     fi_suggestion = ''Add a use case whose postconditions establish the preconditions needed to reach this state''\<rparr>"

definition dead_end_finding :: "string \<Rightarrow> state_node \<Rightarrow> finding" where
  "dead_end_finding name n = \<lparr>fi_severity = FInfo, fi_category = DEAD_END_STATE,
     fi_step = ''state:'' @ name,
     fi_message = ''State '' @ quoted name @ '' has no outgoing use cases (dead end). Source UCs: ''
       @ repr_str_list (node_sources n),
     fi_suggestion = ''Mark the use case as terminal: true if this is an expected leaf state, or add use cases that continue from this state''\<rparr>"

definition orphan_precondition_finding :: "string \<Rightarrow> finding" where
  "orphan_precondition_finding pre = \<lparr>fi_severity = FWarning, fi_category = UNREACHABLE_STATE,
     fi_step = ''precondition'',
     fi_message = ''Precondition '' @ quoted pre
       @ '' is required by a UC but never established as a postcondition by any other UC'',
     fi_suggestion = ''Add a use case whose postconditions include this precondition, or mark it as an external/assumed precondition''\<rparr>"

definition orphan_preconditions :: "registry \<Rightarrow> string list" where
  "orphan_preconditions r =
     (let used = concat (map uc_preconditions (usecases r));
          assumed = concat (map uc_assumed_preconditions (usecases r));
          produced = concat (map uc_postconditions (usecases r))
      in filter (\<lambda>p. p \<notin> set produced \<and> p \<notin> set assumed) used)"

text \<open>\<^verbatim>\<open>graph.states[name]\<close> raises \<^verbatim>\<open>KeyError\<close> for a missing name: that is \<open>Inl\<close> the name.\<close>

definition dead_end_findings ::
  "(string list \<Rightarrow> string list) \<Rightarrow> state_graph \<Rightarrow> string list \<Rightarrow> (string, finding list) res" where
  "dead_end_findings ord g reachable =
     map_sum id concat (res_map (\<lambda>name.
       if name = ''initial'' then Inr []
       else
         (case map_of (sg_states g) name of
            None \<Rightarrow> Inl name
          | Some n \<Rightarrow>
              Inr (if outgoing g name = [] \<and> \<not> node_terminal n then [dead_end_finding name n] else [])))
       (ord reachable))"

definition check_coverage ::
  "(string list \<Rightarrow> string list) \<Rightarrow> registry \<Rightarrow> state_graph \<Rightarrow> (string, finding list) res" where
  "check_coverage ord r g =
     (let reachable = reachable_from g ''initial'' in
      res_bind (dead_end_findings ord g reachable) (\<lambda>dead_ends.
        Inr (map (\<lambda>(name, n). unreachable_finding name n)
              (filter (\<lambda>(name, n). name \<noteq> ''initial'' \<and> name \<notin> set reachable) (sg_states g))
             @ dead_ends
             @ map orphan_precondition_finding (ord (orphan_preconditions r)))))"

definition analyze_states ::
  "(string list \<Rightarrow> string list) \<Rightarrow> registry \<Rightarrow> (string, state_graph \<times> finding list) res" where
  "analyze_states ord r =
     (let g = build_state_graph r in res_bind (check_coverage ord r g) (\<lambda>fs. Inr (g, fs)))"

section \<open>The search computes reachability\<close>

definition edges :: "state_graph \<Rightarrow> (string \<times> string) set" where
  "edges g = (\<lambda>t. (tr_from t, tr_to t)) ` set (sg_transitions g)"

lemma set_successors: "set (successors g visited c) = {w. (c, w) \<in> edges g \<and> w \<notin> set visited}"
  by (auto simp: successors_def edges_def)

text \<open>The invariant of the loop: an edge from a visited state leads to a visited or a stacked one.\<close>

definition search_inv :: "state_graph \<Rightarrow> string list \<Rightarrow> string list \<Rightarrow> bool" where
  "search_inv g visited stack \<longleftrightarrow> edges g `` set visited \<subseteq> set visited \<union> set stack"

lemma search_closure:
  assumes "search_inv g visited stack" and "(v, w) \<in> (edges g)\<^sup>*" and "v \<in> set visited"
  shows "w \<in> set visited \<union> (edges g)\<^sup>* `` set stack"
  using assms(2,3)
proof (induction rule: rtrancl_induct)
  case base
  then show ?case by simp
next
  case (step y z)
  then consider "y \<in> set visited" | x where "x \<in> set stack" "(x, y) \<in> (edges g)\<^sup>*" by blast
  then show ?case
  proof cases
    case 1
    with step.hyps(2) assms(1) show ?thesis by (auto simp: search_inv_def)
  next
    case 2
    with step.hyps(2) show ?thesis by (meson ImageI UnI2 rtrancl.rtrancl_into_rtrancl)
  qed
qed

lemma reach_loop_correct:
  "search_inv g visited stack \<Longrightarrow>
     set (reach_loop g visited stack) = set visited \<union> (edges g)\<^sup>* `` set stack"
proof (induction g visited stack rule: reach_loop.induct)
  case (1 g visited stack)
  show ?case
  proof (cases "stack = []")
    case True
    then show ?thesis by (simp add: reach_loop.simps [of _ _ "[]"])
  next
    case False
    define c where "c = last stack"
    define rest where "rest = butlast stack"
    have stack: "stack = rest @ [c]" using False by (simp add: c_def rest_def)
    show ?thesis
    proof (cases "c \<in> set visited")
      case True
      have inv: "search_inv g visited rest"
        using "1.prems" True by (auto simp: search_inv_def stack)
      have "set (reach_loop g visited rest) = set visited \<union> (edges g)\<^sup>* `` set rest"
        by (rule "1.IH"(1) [OF False c_def rest_def True inv])
      moreover have "reach_loop g visited stack = reach_loop g visited rest"
        using False True by (simp add: reach_loop.simps [of _ _ stack] c_def rest_def)
      ultimately show ?thesis using search_closure [OF inv _ True] by (auto simp: stack)
    next
      case new: False
      let ?v = "visited @ [c]"
      let ?s = "rest @ successors g ?v c"
      have inv: "search_inv g ?v ?s"
        using "1.prems" by (auto simp: search_inv_def stack set_successors)
      have "set (reach_loop g ?v ?s) = set ?v \<union> (edges g)\<^sup>* `` set ?s"
        by (rule "1.IH"(2) [OF False c_def rest_def new inv])
      moreover have "reach_loop g visited stack = reach_loop g ?v ?s"
        using False new by (simp add: reach_loop.simps [of _ _ stack] c_def rest_def Let_def)
      moreover have "set ?v \<union> (edges g)\<^sup>* `` set ?s = set visited \<union> (edges g)\<^sup>* `` set stack"
      proof
        have "(edges g)\<^sup>* `` set (successors g ?v c) \<subseteq> (edges g)\<^sup>* `` {c}"
          by (auto simp: set_successors intro: converse_rtrancl_into_rtrancl)
        then show "set ?v \<union> (edges g)\<^sup>* `` set ?s \<subseteq> set visited \<union> (edges g)\<^sup>* `` set stack"
          by (auto simp: stack)
        show "set visited \<union> (edges g)\<^sup>* `` set stack \<subseteq> set ?v \<union> (edges g)\<^sup>* `` set ?s"
          using search_closure [OF inv, of c] by (auto simp: stack)
      qed
      ultimately show ?thesis by simp
    qed
  qed
qed

lemma reachable_from_correct: "set (reachable_from g start) = (edges g)\<^sup>* `` {start}"
  using reach_loop_correct [of g "[]" "[start]"] by (simp add: reachable_from_def search_inv_def)

lemma reach_loop_distinct: "distinct visited \<Longrightarrow> distinct (reach_loop g visited stack)"
proof (induction g visited stack rule: reach_loop.induct)
  case (1 g visited stack)
  then show ?case by (simp add: reach_loop.simps [of _ _ stack] Let_def)
qed

section \<open>The graph of a registry\<close>

lemma edges_build: "edges (build_state_graph r) = (\<lambda>u. (uc_from_state u, uc_to_state u)) ` set (usecases r)"
proof -
  have "edges (foldl add_usecase g us) = edges g \<union> (\<lambda>u. (uc_from_state u, uc_to_state u)) ` set us" for g us
    by (induction us arbitrary: g) (auto simp: add_usecase_def edges_def Let_def)
  then show ?thesis by (simp add: build_state_graph_def empty_graph_def edges_def)
qed

text \<open>The nodes: their names, and which of them are terminal.\<close>

definition graph_inv :: "state_graph \<Rightarrow> bool" where
  "graph_inv g \<longleftrightarrow> wf_dict (sg_states g) \<and> ''initial'' \<in> dom (map_of (sg_states g)) \<and>
     fst ` edges g \<union> snd ` edges g \<subseteq> dom (map_of (sg_states g))"

lemma add_usecase_keys:
  "dom (map_of (sg_states (add_usecase g u))) =
     insert (uc_from_state u) (insert (uc_to_state u) (dom (map_of (sg_states g))))"
  by (auto simp: add_usecase_def Let_def split: option.split if_splits)

lemma graph_inv_add: "graph_inv g \<Longrightarrow> graph_inv (add_usecase g u)"
proof -
  assume g: "graph_inv g"
  have "wf_dict (sg_states (add_usecase g u))"
    using g by (auto simp: graph_inv_def add_usecase_def Let_def split: option.split)
  moreover have "edges (add_usecase g u) = insert (uc_from_state u, uc_to_state u) (edges g)"
    by (auto simp: add_usecase_def edges_def Let_def)
  ultimately show ?thesis
    using g unfolding graph_inv_def add_usecase_keys by auto
qed

lemma graph_inv_build: "graph_inv (build_state_graph r)"
proof -
  have "graph_inv g \<Longrightarrow> graph_inv (foldl add_usecase g us)" for g us
    by (induction us arbitrary: g) (auto simp: graph_inv_add)
  moreover have "graph_inv empty_graph"
    by (simp add: graph_inv_def empty_graph_def edges_def wf_dict_def)
  ultimately show ?thesis by (simp add: build_state_graph_def)
qed

definition marked_terminal :: "state_graph \<Rightarrow> string \<Rightarrow> bool" where
  "marked_terminal g s \<longleftrightarrow> (\<exists>n. map_of (sg_states g) s = Some n \<and> node_terminal n)"

lemma marked_add:
  "marked_terminal (add_usecase g u) s \<longleftrightarrow>
     marked_terminal g s \<or> (uc_terminal u \<and> s = uc_to_state u)"
  by (auto simp: marked_terminal_def add_usecase_def Let_def state_node_of_def split: option.split)

lemma marked_build:
  "marked_terminal (build_state_graph r) s \<longleftrightarrow>
     (\<exists>u \<in> set (usecases r). uc_terminal u \<and> uc_to_state u = s)"
proof -
  have "marked_terminal (foldl add_usecase g us) s \<longleftrightarrow>
      marked_terminal g s \<or> (\<exists>u \<in> set us. uc_terminal u \<and> uc_to_state u = s)" for g us
    by (induction us arbitrary: g) (auto simp: marked_add)
  then show ?thesis
    by (simp add: build_state_graph_def marked_terminal_def empty_graph_def state_node_of_def)
qed

section \<open>The result of the analysis\<close>

definition dead_ends_of :: "state_graph \<Rightarrow> string \<Rightarrow> finding list" where
  "dead_ends_of g name =
     (case map_of (sg_states g) name of
        None \<Rightarrow> []
      | Some n \<Rightarrow>
          if name \<noteq> ''initial'' \<and> outgoing g name = [] \<and> \<not> node_terminal n
          then [dead_end_finding name n] else [])"

lemma set_orphan_preconditions:
  "set (orphan_preconditions r) = {p. \<exists>u \<in> set (usecases r). p \<in> set (uc_preconditions u) \<and>
     (\<forall>v \<in> set (usecases r). p \<notin> set (uc_postconditions v) \<and> p \<notin> set (uc_assumed_preconditions v))}"
  by (auto simp: orphan_preconditions_def Let_def)

lemma set_dead_ends:
  "set (dead_ends_of g s) = {dead_end_finding s n | n. map_of (sg_states g) s = Some n \<and>
     s \<noteq> ''initial'' \<and> outgoing g s = [] \<and> \<not> node_terminal n}"
  by (auto simp: dead_ends_of_def split: option.split)

lemma reachable_nodes:
  "graph_inv g \<Longrightarrow> (''initial'', s) \<in> (edges g)\<^sup>* \<Longrightarrow> s \<in> dom (map_of (sg_states g))"
  by (erule rtrancl.cases) (force simp: graph_inv_def)+

lemma dead_end_findings_total:
  assumes "graph_inv g" and "set (ord rs) \<subseteq> (edges g)\<^sup>* `` {''initial''}"
  shows "dead_end_findings ord g rs = Inr (concat (map (dead_ends_of g) (ord rs)))"
proof -
  have "\<exists>n. map_of (sg_states g) s = Some n" if "s \<in> set (ord rs)" for s
    using that assms(2) reachable_nodes [OF assms(1)] by blast
  then have "res_map (\<lambda>name. if name = ''initial'' then Inr []
      else (case map_of (sg_states g) name of None \<Rightarrow> Inl name
        | Some n \<Rightarrow> Inr (if outgoing g name = [] \<and> \<not> node_terminal n
            then [dead_end_finding name n] else []))) (ord rs) =
      Inr (map (dead_ends_of g) (ord rs))"
    by (intro res_map_total) (fastforce simp: dead_ends_of_def)
  then show ?thesis by (simp only: dead_end_findings_def map_sum.simps)
qed

context set_iteration
begin

lemma analyze_states_result:
  "analyze_states ord r = Inr (build_state_graph r,
     map (\<lambda>(name, n). unreachable_finding name n)
       (filter (\<lambda>(name, n). name \<noteq> ''initial'' \<and> name \<notin> set (reachable_from (build_state_graph r) ''initial''))
         (sg_states (build_state_graph r)))
     @ concat (map (dead_ends_of (build_state_graph r)) (ord (reachable_from (build_state_graph r) ''initial'')))
     @ map orphan_precondition_finding (ord (orphan_preconditions r)))"
proof -
  have "dead_end_findings ord (build_state_graph r) (reachable_from (build_state_graph r) ''initial'') =
    Inr (concat (map (dead_ends_of (build_state_graph r))
      (ord (reachable_from (build_state_graph r) ''initial''))))"
    by (rule dead_end_findings_total [OF graph_inv_build]) (simp add: ord_set reachable_from_correct)
  then show ?thesis by (simp add: analyze_states_def check_coverage_def Let_def)
qed

end

section \<open>Properties\<close>

text \<open>
  C15: \<^verbatim>\<open>reachable_from\<close> ends on every graph, also on one with cycles, and returns each state that
  can be reached over the transitions exactly once, and no other.
\<close>

theorem reachable_from_exact:
  "set (reachable_from g start) = {s. (start, s) \<in> (edges g)\<^sup>*} \<and> distinct (reachable_from g start)"
  using reachable_from_correct reach_loop_distinct [of "[]"] by (auto simp: reachable_from_def)

text \<open>
  The graph built from a registry has one transition from the required conditions to the
  postconditions for each use case, a state for both ends of every transition and for
  \<^verbatim>\<open>initial\<close>, and marks as terminal exactly the states in which a terminal use case ends.
\<close>

theorem state_graph_exact:
  "edges (build_state_graph r) = (\<lambda>u. (uc_from_state u, uc_to_state u)) ` set (usecases r) \<and>
   ''initial'' \<in> dom (map_of (sg_states (build_state_graph r))) \<and>
   fst ` edges (build_state_graph r) \<union> snd ` edges (build_state_graph r)
     \<subseteq> dom (map_of (sg_states (build_state_graph r))) \<and>
   marked_terminal (build_state_graph r) s =
     (\<exists>u \<in> set (usecases r). uc_terminal u \<and> uc_to_state u = s)"
  using edges_build marked_build graph_inv_build unfolding graph_inv_def by blast

text \<open>
  The analysis of a registry never raises \<^verbatim>\<open>KeyError\<close>, and its findings are exactly: the states
  other than \<^verbatim>\<open>initial\<close> that no path from \<^verbatim>\<open>initial\<close> reaches, the reachable ones without an
  outgoing transition in which no terminal use case ends, and the preconditions that no use case
  establishes or assumes.
\<close>

theorem state_findings_exact:
  assumes "set_iteration ord"
  shows "\<exists>fs. analyze_states ord r = Inr (build_state_graph r, fs) \<and>
    set fs =
      {unreachable_finding s n | s n. map_of (sg_states (build_state_graph r)) s = Some n \<and>
         s \<noteq> ''initial'' \<and> (''initial'', s) \<notin> (edges (build_state_graph r))\<^sup>*} \<union>
      {dead_end_finding s n | s n. map_of (sg_states (build_state_graph r)) s = Some n \<and>
         s \<noteq> ''initial'' \<and> (''initial'', s) \<in> (edges (build_state_graph r))\<^sup>* \<and>
         s \<notin> fst ` edges (build_state_graph r) \<and> \<not> node_terminal n} \<union>
      orphan_precondition_finding ` {p. \<exists>u \<in> set (usecases r). p \<in> set (uc_preconditions u) \<and>
         (\<forall>v \<in> set (usecases r). p \<notin> set (uc_postconditions v) \<and> p \<notin> set (uc_assumed_preconditions v))}"
proof -
  let ?g = "build_state_graph r"
  let ?reach = "reachable_from ?g ''initial''"
  have wf: "wf_dict (sg_states ?g)" using graph_inv_build by (simp add: graph_inv_def)
  have reach: "s \<in> set ?reach \<longleftrightarrow> (''initial'', s) \<in> (edges ?g)\<^sup>*" for s
    by (simp add: reachable_from_correct)
  have out: "outgoing ?g s = [] \<longleftrightarrow> s \<notin> fst ` edges ?g" for s
    by (force simp: outgoing_def edges_def filter_empty_conv)
  have "set (map (\<lambda>(name, n). unreachable_finding name n)
       (filter (\<lambda>(name, n). name \<noteq> ''initial'' \<and> name \<notin> set ?reach) (sg_states ?g))) =
     {unreachable_finding s n | s n. map_of (sg_states ?g) s = Some n \<and>
         s \<noteq> ''initial'' \<and> (''initial'', s) \<notin> (edges ?g)\<^sup>*}"
    unfolding reach by (force simp: wf_dict_lookup [OF wf, symmetric])
  moreover have "set (concat (map (dead_ends_of ?g) (ord ?reach))) =
      {dead_end_finding s n | s n. map_of (sg_states ?g) s = Some n \<and>
         s \<noteq> ''initial'' \<and> (''initial'', s) \<in> (edges ?g)\<^sup>* \<and>
         s \<notin> fst ` edges ?g \<and> \<not> node_terminal n}"
    unfolding set_concat set_map image_image set_dead_ends out set_iteration.ord_set [OF assms]
    by (simp only: set_eq_iff UN_iff mem_Collect_eq Bex_def reach) blast
  moreover have "set (map orphan_precondition_finding (ord (orphan_preconditions r))) =
      orphan_precondition_finding ` {p. \<exists>u \<in> set (usecases r). p \<in> set (uc_preconditions u) \<and>
         (\<forall>v \<in> set (usecases r). p \<notin> set (uc_postconditions v) \<and> p \<notin> set (uc_assumed_preconditions v))}"
    unfolding set_map set_iteration.ord_set [OF assms] set_orphan_preconditions ..
  ultimately show ?thesis
    unfolding set_iteration.analyze_states_result [OF assms]
    by - (intro exI conjI, rule refl, simp only: set_append Un_assoc)
qed

definition example_states :: registry where
  "example_states = registry_of
     [(''u.yaml'', UseCaseSpec (plain_usecase ''create'' None [plain_step ''s'' ''actions/a'']))]"

theorem state_findings_exact_witness:
  "\<exists>fs n. analyze_states sorted_set example_states = Inr (build_state_graph example_states, fs) \<and>
    dead_end_finding ''done'' n \<in> set fs"
proof -
  let ?g = "build_state_graph example_states"
  have "map (\<lambda>u. (uc_from_state u, uc_to_state u)) (usecases example_states) = [(''initial'', ''done'')]"
    by code_simp
  from arg_cong [OF this, of set] have e: "edges ?g = {(''initial'', ''done'')}"
    unfolding edges_build set_map by simp
  have "map_option node_terminal (map_of (sg_states ?g) ''done'') = Some False" by code_simp
  then obtain n where n: "map_of (sg_states ?g) ''done'' = Some n" "\<not> node_terminal n" by auto
  obtain fs where fs: "analyze_states sorted_set example_states = Inr (?g, fs)"
    and elems: "{dead_end_finding s n | s n.
       map_of (sg_states ?g) s = Some n \<and> s \<noteq> ''initial'' \<and> (''initial'', s) \<in> (edges ?g)\<^sup>* \<and>
       s \<notin> fst ` edges ?g \<and> \<not> node_terminal n} \<subseteq> set fs"
    using state_findings_exact [OF sorted_iter.set_iteration_axioms, of example_states]
    by - (elim exE conjE, rule that, assumption, simp only: Un_assoc, rule le_supI2, rule Un_upper1)
  have "(''initial'', ''done'') \<in> (edges ?g)\<^sup>*" "''done'' \<notin> fst ` edges ?g" unfolding e by auto
  with n elems have "dead_end_finding ''done'' n \<in> set fs" by blast
  with fs show ?thesis by blast
qed

end
