(* ===== verification/Completeness.thy ===== *)
theory Completeness
  imports State_Coverage
begin

text \<open>
  The completeness analyzers of \<^verbatim>\<open>src/ucf/completeness\<close> and the engine that runs them. Each
  analyzer goes through the registry, records one coverage entry per obligation and one finding per
  entry that nothing covers; the locale \<open>coverage_report\<close> states that contract. \<open>ord\<close> is the
  iteration order of a set.
\<close>

section \<open>Which use cases reach an action\<close>

text \<open>\<^verbatim>\<open>_build_action_uc_map\<close> of the platform and invariant analyzers: the steps only.\<close>

definition step_uc_pairs :: "usecase_spec \<Rightarrow> (string \<times> usecase_spec) list" where
  "step_uc_pairs uc = map (\<lambda>s. (st_use s, uc)) (uc_steps uc)"

definition step_uc_map :: "registry \<Rightarrow> (string, usecase_spec list) dict" where
  "step_uc_map r = dict_group [] (concat (map step_uc_pairs (usecases r)))"

definition component_ref :: "component_spec \<Rightarrow> string" where
  "component_ref c = ''components/'' @ comp_name c"

text \<open>The one of the error and input analyzers also follows required components.\<close>

definition component_actions :: "registry \<Rightarrow> (string, string list) dict" where
  "component_actions r =
     dict_of (map (\<lambda>c. (component_ref c, map st_use (comp_steps c))) (components r))"

definition all_uc_pairs ::
  "(string list \<Rightarrow> string list) \<Rightarrow> (string, string list) dict \<Rightarrow> usecase_spec \<Rightarrow>
     (string \<times> usecase_spec) list" where
  "all_uc_pairs ord comps uc =
     step_uc_pairs uc
     @ concat (map (\<lambda>q. map (\<lambda>a. (a, uc)) (ord (dict_get comps (req_ref q) []))) (uc_requires uc))"

definition action_uc_map ::
  "(string list \<Rightarrow> string list) \<Rightarrow> registry \<Rightarrow> (string, usecase_spec list) dict" where
  "action_uc_map ord r =
     dict_group [] (concat (map (all_uc_pairs ord (component_actions r)) (usecases r)))"

definition action_ref :: "string \<Rightarrow> string" where
  "action_ref name = ''actions/'' @ name"

section \<open>Error reachability\<close>

record error_coverage =
  ec_action :: string
  ec_code :: string
  ec_condition :: string
  ec_covered_by :: "string list"

text \<open>
  \<^verbatim>\<open>len(a & b) >= len(a) * 0.6\<close>: for sizes a double represents, the product is an integer
  exactly when \<open>5\<close> divides the size, so the comparison is the one of \<open>5 * k\<close> and \<open>3 * n\<close>.
\<close>

definition words_overlap :: "string \<Rightarrow> string \<Rightarrow> bool" where
  "words_overlap condition trigger =
     (let cw = remdups (py_words (py_lower condition)); tw = py_words (py_lower trigger);
          common = filter (\<lambda>w. w \<in> set tw) cw
      in 3 \<le> length cw \<and> 3 * length cw \<le> 5 * length common)"

definition handles_error_code :: "alternative_flow \<Rightarrow> string \<Rightarrow> bool" where
  "handles_error_code alt code \<longleftrightarrow> truthy (alt_handles_error alt) \<and> alt_handles_error alt = Some code"

definition flow_handles_error :: "alternative_flow \<Rightarrow> string \<Rightarrow> string \<Rightarrow> bool" where
  "flow_handles_error alt code condition \<longleftrightarrow>
     (let code_lower = py_replace ''_'' ''-'' (py_lower code) in
      handles_error_code alt code
      \<or> sublist code_lower (py_lower (alt_name alt))
      \<or> sublist code_lower (py_lower (alt_trigger alt))
      \<or> words_overlap condition (alt_trigger alt))"

definition error_coverage_of ::
  "usecase_spec list \<Rightarrow> action_spec \<Rightarrow> error_def \<Rightarrow> error_coverage" where
  "error_coverage_of ucs a e =
     \<lparr>ec_action = act_name a, ec_code = err_code e, ec_condition = err_condition e,
      ec_covered_by = concat (map (\<lambda>uc.
        map (\<lambda>alt. uc_name uc @ '':'' @ alt_name alt)
          (filter (\<lambda>alt. flow_handles_error alt (err_code e) (err_condition e))
            (uc_alternative_flows uc))) ucs)\<rparr>"

definition ec_is_covered :: "error_coverage \<Rightarrow> bool" where
  "ec_is_covered c \<longleftrightarrow> ec_covered_by c \<noteq> []"

definition uncovered_error_finding :: "error_coverage \<Rightarrow> finding" where
  "uncovered_error_finding c = \<lparr>fi_severity = FWarning, fi_category = UNCOVERED_ERROR,
     fi_step = action_ref (ec_action c),
     fi_message = ''Error '' @ quoted (ec_code c) @ '' (condition: '' @ ec_condition c
       @ '') is not handled by any use case alternative flow'',
     fi_suggestion = ''Add an alternative_flow with handles_error: '' @ ec_code c
       @ '' to a use case that references this action''\<rparr>"

text \<open>The loop reports an entry as soon as it is complete, so the findings follow the entries.\<close>

definition report_uncovered :: "('c \<Rightarrow> bool) \<Rightarrow> ('c \<Rightarrow> finding) \<Rightarrow> 'c list \<Rightarrow> 'c list \<times> finding list" where
  "report_uncovered covered report cs = (cs, concat (map (\<lambda>c. if covered c then [] else [report c]) cs))"

definition analyze_errors ::
  "(string list \<Rightarrow> string list) \<Rightarrow> registry \<Rightarrow> error_coverage list \<times> finding list" where
  "analyze_errors ord r =
     (let action_to_ucs = action_uc_map ord r in
      report_uncovered ec_is_covered uncovered_error_finding
        (concat (map (\<lambda>a. if act_errors a = [] then []
           else map (error_coverage_of (dict_get action_to_ucs (action_ref (act_name a)) []) a)
             (act_errors a)) (actions r))))"

section \<open>Input partitions\<close>

text \<open>\<^verbatim>\<open>repr\<close> and \<^verbatim>\<open>str\<close> of a JSON value.\<close>

fun py_repr :: "pyval \<Rightarrow> string"
  and py_repr_items :: "pyval list \<Rightarrow> string list"
  and py_repr_entries :: "(string \<times> pyval) list \<Rightarrow> string list" where
  "py_repr VNone = ''None''"
| "py_repr (VBool b) = (if b then ''True'' else ''False'')"
| "py_repr (VInt i) = show_int i"
| "py_repr (VFloat t) = t"
| "py_repr (VStr s) = repr_str s"
| "py_repr (VList vs) = ''['' @ py_join '', '' (py_repr_items vs) @ '']''"
| "py_repr (VDict es) = ''{'' @ py_join '', '' (py_repr_entries es) @ ''}''"
| "py_repr_items [] = []"
| "py_repr_items (v # vs) = py_repr v # py_repr_items vs"
| "py_repr_entries [] = []"
| "py_repr_entries ((k, v) # es) = (repr_str k @ '': '' @ py_repr v) # py_repr_entries es"

fun py_str :: "pyval \<Rightarrow> string" where
  "py_str (VStr s) = s"
| "py_str v = py_repr v"

record input_partition =
  ip_name :: string
  ip_description :: string

record partition_coverage =
  pc_action :: string
  pc_field :: string
  pc_partition :: input_partition
  pc_covered_by :: "string list"

definition partition :: "string \<Rightarrow> string \<Rightarrow> input_partition" where
  "partition n d = \<lparr>ip_name = n, ip_description = d\<rparr>"

definition derive_partitions :: "string \<Rightarrow> field_def \<Rightarrow> input_partition list" where
  "derive_partitions f fd =
     (let ftype = field_type_value (fd_type fd) in
      [partition ''valid_present'' (f @ '' provided with a valid value'')]
      @ (if \<not> fd_required fd
         then [partition ''absent'' (f @ '' not provided (null/missing)'')] else [])
      @ (if ftype = ''string'' then [partition ''empty_string'' (f @ '' is an empty string'')] else [])
      @ (if ftype \<in> {''integer'', ''number''} then
           (case fd_min fd of None \<Rightarrow> [] | Some m \<Rightarrow> [partition ''below_min'' (f @ '' < '' @ m)])
           @ (case fd_max fd of None \<Rightarrow> [] | Some m \<Rightarrow> [partition ''above_max'' (f @ '' > '' @ m)])
         else [])
      @ (case fd_enum fd of
           None \<Rightarrow> []
         | Some vs \<Rightarrow>
             if vs = [] then []
             else map (\<lambda>v. partition (''enum_'' @ py_str v) (f @ '' == '' @ py_repr v)) vs
               @ [partition ''invalid_enum'' (f @ '' is not one of '' @ py_repr (VList vs))])
      @ (if ftype = ''array'' then [partition ''empty_array'' (f @ '' is an empty array'')] else [])
      @ (if ftype = ''boolean'' then
           [partition ''true'' (f @ '' == true''), partition ''false'' (f @ '' == false'')] else []))"

fun spec_steps :: "any_spec \<Rightarrow> step_def list" where
  "spec_steps (ComponentSpec c) = comp_steps c"
| "spec_steps (UseCaseSpec u) = uc_steps u"
| "spec_steps s = []"

definition action_in_component :: "registry \<Rightarrow> usecase_spec \<Rightarrow> string \<Rightarrow> bool" where
  "action_in_component r uc a \<longleftrightarrow>
     list_ex (\<lambda>q. case resolve_ref r (req_ref q) of
         None \<Rightarrow> False | Some s \<Rightarrow> list_ex (\<lambda>st. st_use st = a) (spec_steps s)) (uc_requires uc)"

definition uc_uses_action :: "registry \<Rightarrow> usecase_spec \<Rightarrow> string \<Rightarrow> bool" where
  "uc_uses_action r uc a \<longleftrightarrow> list_ex (\<lambda>st. st_use st = a) (uc_steps uc) \<or> action_in_component r uc a"

definition bound_action :: "string option \<Rightarrow> string" where
  "bound_action a =
     (let ref = (case a of None \<Rightarrow> [] | Some s \<Rightarrow> s)
      in if prefix ''actions/'' ref then ref else ''actions/'' @ ref)"

definition has_input_validation_invariant :: "registry \<Rightarrow> usecase_spec \<Rightarrow> string \<Rightarrow> bool" where
  "has_input_validation_invariant r uc a \<longleftrightarrow>
     list_ex (\<lambda>i. invariant_reference i = ''invariants/required-inputs-validated'' \<and>
       (case resolve_ref r ''invariants/required-inputs-validated'' of
          Some (InvariantSpec i') \<Rightarrow> list_ex (\<lambda>b. bound_action (at_action b) = a) (inv_applies_to i')
        | _ \<Rightarrow> False)) (uc_invariants uc)"

text \<open>The texts a trigger is searched for.\<close>

definition mentions :: "string \<Rightarrow> string list \<Rightarrow> bool" where
  "mentions text ws \<longleftrightarrow> list_ex (\<lambda>w. sublist w text) ws"

definition handles_validation_error :: "alternative_flow \<Rightarrow> bool" where
  "handles_validation_error alt \<longleftrightarrow> alt_handles_error alt = Some ''VALIDATION_ERROR''"

definition flow_covers_partition ::
  "string \<Rightarrow> string \<Rightarrow> input_partition \<Rightarrow> alternative_flow \<Rightarrow> bool" where
  "flow_covers_partition a f part alt \<longleftrightarrow>
     (let n = ip_name part; trigger = py_lower (alt_trigger alt);
          field = py_replace ''_'' '' '' (py_lower f) in
      (n = ''empty_string'' \<and>
        ((sublist ''empty'' trigger \<and> mentions trigger [field, f]) \<or>
         (truthy (alt_handles_error alt) \<and> sublist ''empty'' (py_lower (the (alt_handles_error alt)))) \<or>
         handles_validation_error alt))
      \<or> (n = ''empty_array'' \<and>
        ((mentions trigger [''empty'', ''no ''] \<and> mentions trigger [field, f]) \<or>
         handles_validation_error alt))
      \<or> (n = ''below_min'' \<and> mentions trigger [''below'', ''minimum'', ''negative''])
      \<or> (n = ''above_max'' \<and> mentions trigger [''above'', ''maximum'', ''exceeds''])
      \<or> (n = ''invalid_enum'' \<and> mentions trigger [''invalid'', ''unrecognized''])
      \<or> (prefix ''enum_'' n \<and>
        (list_ex (\<lambda>st. st_use st = a \<and> map_of (st_input st) f = Some (VStr (drop 5 n))) (alt_steps alt)
         \<or> sublist (py_lower (drop 5 n)) trigger))
      \<or> (n \<in> {''true'', ''false''} \<and> sublist n trigger))"

definition partition_covered ::
  "registry \<Rightarrow> usecase_spec \<Rightarrow> string \<Rightarrow> string \<Rightarrow> input_partition \<Rightarrow> bool" where
  "partition_covered r uc a f part \<longleftrightarrow>
     (let n = ip_name part;
          all_steps = uc_steps uc @ concat (map alt_steps (uc_alternative_flows uc)) in
      (n = ''valid_present'' \<and> uc_uses_action r uc a \<and>
        (list_ex (\<lambda>st. st_use st = a \<and> f \<in> set (dict_keys (st_input st))) all_steps
         \<or> action_in_component r uc a))
      \<or> (n = ''absent'' \<and>
        (list_ex (\<lambda>st. st_use st = a \<and> f \<notin> set (dict_keys (st_input st))) all_steps
         \<or> action_in_component r uc a))
      \<or> (n \<in> {''empty_string'', ''empty_array'', ''invalid_enum''} \<and>
        has_input_validation_invariant r uc a)
      \<or> list_ex (flow_covers_partition a f part) (uc_alternative_flows uc))"

definition partition_coverage_of ::
  "registry \<Rightarrow> usecase_spec list \<Rightarrow> action_spec \<Rightarrow> string \<Rightarrow> input_partition \<Rightarrow> partition_coverage" where
  "partition_coverage_of r ucs a f part =
     \<lparr>pc_action = act_name a, pc_field = f, pc_partition = part,
      pc_covered_by = map uc_name
        (filter (\<lambda>uc. partition_covered r uc (action_ref (act_name a)) f part) ucs)\<rparr>"

definition pc_is_covered :: "partition_coverage \<Rightarrow> bool" where
  "pc_is_covered c \<longleftrightarrow> pc_covered_by c \<noteq> []"

definition uncovered_partition_finding :: "partition_coverage \<Rightarrow> finding" where
  "uncovered_partition_finding c = \<lparr>fi_severity = FInfo, fi_category = UNCOVERED_INPUT_PARTITION,
     fi_step = action_ref (pc_action c),
     fi_message = ''Input '' @ quoted (pc_field c) @ '' partition '' @ quoted (ip_name (pc_partition c))
       @ '' ('' @ ip_description (pc_partition c) @ '') is not covered by any use case'',
     fi_suggestion = ''Add an alternative_flow or test case that exercises '' @ quoted (pc_field c)
       @ '' in the '' @ quoted (ip_name (pc_partition c)) @ '' partition''\<rparr>"

definition analyze_partitions ::
  "(string list \<Rightarrow> string list) \<Rightarrow> registry \<Rightarrow> partition_coverage list \<times> finding list" where
  "analyze_partitions ord r =
     (let action_to_ucs = action_uc_map ord r in
      report_uncovered pc_is_covered uncovered_partition_finding
        (concat (map (\<lambda>a. concat (map (\<lambda>(f, fd).
             map (partition_coverage_of r (dict_get action_to_ucs (action_ref (act_name a)) []) a f)
               (derive_partitions f fd)) (act_input a))) (actions r))))"

section \<open>Platform bindings\<close>

record platform_scenario =
  ps_action :: string
  ps_scenario :: string
  ps_description :: string
  ps_covered_by :: "string list"

fun show_status :: "status \<Rightarrow> string" where
  "show_status (StatusStr s) = s"
| "show_status (StatusInt i) = show_int i"

definition scenario :: "string \<Rightarrow> string \<Rightarrow> string \<Rightarrow> platform_scenario" where
  "scenario a n d = \<lparr>ps_action = a, ps_scenario = n, ps_description = d, ps_covered_by = []\<rparr>"

definition derive_http_scenarios :: "action_spec \<Rightarrow> http_binding \<Rightarrow> platform_scenario list" where
  "derive_http_scenarios a h =
     (let name = act_name a in
      [scenario name ''http_success''
        (''HTTP '' @ http_method h @ '' '' @ http_path h @ '' returns 2xx'')]
      @ map (\<lambda>e. scenario name (''http_error_'' @ show_status (err_status e))
          (''HTTP returns '' @ show_status (err_status e) @ '' ('' @ err_code e @ '')'')) (act_errors a)
      @ (if act_reads a \<noteq> []
         then [scenario name ''http_resource_not_found'' ''Referenced resource does not exist''] else []))"

definition derive_ui_scenarios :: "action_spec \<Rightarrow> platform_scenario list" where
  "derive_ui_scenarios a =
     [scenario (act_name a) ''ui_happy_path'' ''UI interaction completes successfully'']"

definition error_codes_for_status :: "registry \<Rightarrow> string \<Rightarrow> string \<Rightarrow> string list" where
  "error_codes_for_status r name status =
     (case resolve_ref r (action_ref name) of
        Some (ActionSpec a) \<Rightarrow>
          map err_code (filter (\<lambda>e. show_status (err_status e) = status) (act_errors a))
      | _ \<Rightarrow> [])"

definition handles_one_of :: "alternative_flow \<Rightarrow> string list \<Rightarrow> bool" where
  "handles_one_of alt codes \<longleftrightarrow>
     truthy (alt_handles_error alt) \<and> the (alt_handles_error alt) \<in> set codes"

definition scenario_covered :: "registry \<Rightarrow> usecase_spec \<Rightarrow> platform_scenario \<Rightarrow> bool" where
  "scenario_covered r uc sc \<longleftrightarrow>
     (let n = ps_scenario sc; status = py_replace ''http_error_'' [] n;
          missing = (\<lambda>alt. mentions (py_lower (alt_trigger alt)) [''not found'', ''not exist'']) in
      (n \<in> {''http_success'', ''ui_happy_path''} \<and>
        list_ex (\<lambda>st. st_use st = action_ref (ps_action sc)) (uc_steps uc))
      \<or> (prefix ''http_error_'' n \<and>
        list_ex (\<lambda>alt. sublist status (py_lower (alt_trigger alt))
            \<or> handles_one_of alt (error_codes_for_status r (ps_action sc) status)
            \<or> (missing alt \<and> status = ''404'')) (uc_alternative_flows uc))
      \<or> (n = ''http_resource_not_found'' \<and>
        list_ex (\<lambda>alt. missing alt
            \<or> handles_one_of alt (error_codes_for_status r (ps_action sc) ''404''))
          (uc_alternative_flows uc)))"

definition ps_is_covered :: "platform_scenario \<Rightarrow> bool" where
  "ps_is_covered s \<longleftrightarrow> ps_covered_by s \<noteq> []"

definition uncovered_scenario_finding :: "platform_scenario \<Rightarrow> finding" where
  "uncovered_scenario_finding s = \<lparr>fi_severity = FInfo, fi_category = UNCOVERED_HTTP_SCENARIO,
     fi_step = action_ref (ps_action s),
     fi_message = ''Platform scenario '' @ quoted (ps_scenario s) @ '' ('' @ ps_description s
       @ '') is not covered by any use case'',
     fi_suggestion = ''Add a use case or alternative flow that exercises the ''
       @ quoted (ps_scenario s) @ '' scenario for this action''\<rparr>"

definition cover_scenario ::
  "registry \<Rightarrow> usecase_spec list \<Rightarrow> platform_scenario \<Rightarrow> platform_scenario" where
  "cover_scenario r ucs sc =
     sc\<lparr>ps_covered_by := ps_covered_by sc @ map uc_name (filter (\<lambda>uc. scenario_covered r uc sc) ucs)\<rparr>"

definition action_scenarios :: "action_spec \<Rightarrow> platform_scenario list" where
  "action_scenarios a =
     (case act_platform a of
        None \<Rightarrow> []
      | Some p \<Rightarrow>
          (case pf_http p of None \<Rightarrow> [] | Some h \<Rightarrow> derive_http_scenarios a h)
          @ (case pf_ui p of None \<Rightarrow> [] | Some u \<Rightarrow> derive_ui_scenarios a))"

definition analyze_platforms :: "registry \<Rightarrow> platform_scenario list \<times> finding list" where
  "analyze_platforms r =
     (let action_to_ucs = step_uc_map r in
      report_uncovered ps_is_covered uncovered_scenario_finding
        (concat (map (\<lambda>a. map (cover_scenario r (dict_get action_to_ucs (action_ref (act_name a)) []))
           (action_scenarios a)) (actions r))))"

section \<open>Invariant necessity\<close>

record invariant_coverage =
  ic_invariant :: string
  ic_actions :: "string list"
  ic_exercised_by :: "string list"

definition get_bound_actions :: "invariant_spec \<Rightarrow> string list" where
  "get_bound_actions i =
     map (\<lambda>b. bound_action (at_action b)) (filter (\<lambda>b. truthy (at_action b)) (inv_applies_to i))"

definition ucs_referencing :: "registry \<Rightarrow> invariant_spec \<Rightarrow> string list" where
  "ucs_referencing r i =
     concat (map (\<lambda>uc. map (\<lambda>b. uc_name uc)
       (filter (\<lambda>b. invariant_reference b = ''invariants/'' @ inv_name i) (uc_invariants uc)))
       (usecases r))"

definition invariant_coverage_of ::
  "registry \<Rightarrow> (string, usecase_spec list) dict \<Rightarrow> invariant_spec \<Rightarrow> invariant_coverage" where
  "invariant_coverage_of r m i =
     (let bound = get_bound_actions i;
          exercising = concat (map (\<lambda>a. map uc_name (dict_get m a [])) bound)
      in \<lparr>ic_invariant = inv_name i, ic_actions = bound,
          ic_exercised_by = sorted_set (if exercising = [] then ucs_referencing r i else exercising)\<rparr>)"

definition ic_is_testable :: "invariant_coverage \<Rightarrow> bool" where
  "ic_is_testable c \<longleftrightarrow> ic_exercised_by c \<noteq> []"

definition untestable_finding :: "invariant_spec \<Rightarrow> finding" where
  "untestable_finding i = \<lparr>fi_severity = FInfo, fi_category = UNTESTABLE_INVARIANT,
     fi_step = ''invariants/'' @ inv_name i,
     fi_message = ''Invariant '' @ quoted (inv_name i) @ '' (rule: ''
       @ (if truthy (inv_rule i) then the (inv_rule i) else ''composite'')
       @ '') is not exercised by any use case'',
     fi_suggestion = ''Either the invariant is unnecessary, or there'' @ [CHR 0x27]
       @ ''s a missing use case that could violate it''\<rparr>"

definition analyze_invariants :: "registry \<Rightarrow> invariant_coverage list \<times> finding list" where
  "analyze_invariants r =
     (let m = step_uc_map r;
          covs = map (\<lambda>i. (i, invariant_coverage_of r m i)) (invariants r)
      in (map snd covs,
          concat (map (\<lambda>(i, c). if ic_is_testable c then [] else [untestable_finding i]) covs)))"

section \<open>Resource conflicts\<close>

record resource_conflict =
  rc_resource :: string
  rc_writers :: "string list"
  rc_has_invariant :: bool
  rc_has_concurrency_policy :: bool
  rc_guarded_by_ucs :: "string list"

definition rc_is_guarded :: "resource_conflict \<Rightarrow> bool" where
  "rc_is_guarded c \<longleftrightarrow> rc_has_invariant c \<or> rc_has_concurrency_policy c"

definition collect_resource_writers :: "registry \<Rightarrow> (string, string list) dict" where
  "collect_resource_writers r =
     dict_group [] (concat (map (\<lambda>a. map (\<lambda>w. (rw_resource w, act_name a)) (act_writes a)) (actions r)))"

definition collect_guarded_resources :: "registry \<Rightarrow> string list" where
  "collect_guarded_resources r =
     concat (map (\<lambda>i. map (\<lambda>b. the (at_resource b)) (filter (\<lambda>b. truthy (at_resource b)) (inv_applies_to i))
       @ (if truthy (inv_entity i) then [the (inv_entity i)] else [])) (invariants r))"

definition collect_concurrency_policies :: "registry \<Rightarrow> (string, string list) dict" where
  "collect_concurrency_policies r =
     dict_group [] (concat (map (\<lambda>uc. map (\<lambda>c. (conc_conflict c, uc_name uc)) (uc_concurrency uc))
       (usecases r)))"

definition resource_conflict_of :: "registry \<Rightarrow> string \<Rightarrow> string list \<Rightarrow> resource_conflict" where
  "resource_conflict_of r resource writers =
     (let policies = collect_concurrency_policies r in
      \<lparr>rc_resource = resource, rc_writers = sorted_set writers,
       rc_has_invariant = (resource \<in> set (collect_guarded_resources r)),
       rc_has_concurrency_policy = (resource \<in> set (dict_keys policies)),
       rc_guarded_by_ucs = sort (dict_get policies resource [])\<rparr>)"

definition unguarded_finding :: "resource_conflict \<Rightarrow> finding" where
  "unguarded_finding c = \<lparr>fi_severity = FWarning, fi_category = UNGUARDED_RESOURCE_CONFLICT,
     fi_step = ''resource:'' @ rc_resource c,
     fi_message = ''Resource '' @ quoted (rc_resource c) @ '' is written by multiple actions (''
       @ py_join '', '' (rc_writers c) @ '') but has no invariant or concurrency policy guarding it'',
     fi_suggestion = ''Add an invariant for '' @ quoted (rc_resource c)
       @ '' or add a concurrency policy to use cases that access it''\<rparr>"

text \<open>The values of \<open>collect_resource_writers\<close> stand for sets, so their size is \<open>set_size\<close>.\<close>

definition analyze_resources :: "registry \<Rightarrow> resource_conflict list \<times> finding list" where
  "analyze_resources r =
     report_uncovered rc_is_guarded unguarded_finding
       (map (\<lambda>(resource, writers). resource_conflict_of r resource writers)
         (filter (\<lambda>(resource, writers). \<not> set_size writers < 2) (collect_resource_writers r)))"

section \<open>The engine\<close>

record completeness_report =
  cr_errors :: "error_coverage list"
  cr_partitions :: "partition_coverage list"
  cr_state_graph :: "state_graph option"
  cr_scenarios :: "platform_scenario list"
  cr_invariants :: "invariant_coverage list"
  cr_conflicts :: "resource_conflict list"
  cr_findings :: "finding list"

definition gap_count :: "completeness_report \<Rightarrow> nat" where
  "gap_count c = length (cr_findings c)"

definition errors_covered :: "completeness_report \<Rightarrow> nat" where
  "errors_covered c = length (filter ec_is_covered (cr_errors c))"

definition partitions_covered :: "completeness_report \<Rightarrow> nat" where
  "partitions_covered c = length (filter pc_is_covered (cr_partitions c))"

definition scenarios_covered :: "completeness_report \<Rightarrow> nat" where
  "scenarios_covered c = length (filter ps_is_covered (cr_scenarios c))"

definition invariants_testable :: "completeness_report \<Rightarrow> nat" where
  "invariants_testable c = length (filter ic_is_testable (cr_invariants c))"

definition analyze_all ::
  "(string list \<Rightarrow> string list) \<Rightarrow> registry \<Rightarrow> (string, completeness_report) res" where
  "analyze_all ord r =
     res_bind (analyze_states ord r) (\<lambda>(graph, state_findings).
       let (errors, f1) = analyze_errors ord r; (partitions, f2) = analyze_partitions ord r;
           (scenarios, f4) = analyze_platforms r; (invs, f5) = analyze_invariants r;
           (conflicts, f6) = analyze_resources r
       in Inr \<lparr>cr_errors = errors, cr_partitions = partitions, cr_state_graph = Some graph,
            cr_scenarios = scenarios, cr_invariants = invs, cr_conflicts = conflicts,
            cr_findings = f1 @ f2 @ state_findings @ f4 @ f5 @ f6\<rparr>)"

section \<open>The contract of an analyzer\<close>

text \<open>One finding for each entry that is not covered, in the order of the entries.\<close>

locale coverage_report =
  fixes entries :: "'c list" and findings :: "finding list"
    and covered :: "'c \<Rightarrow> bool" and report :: "'c \<Rightarrow> finding"
  assumes findings_uncovered: "findings = map report (filter (\<lambda>c. \<not> covered c) entries)"
begin

lemma findings_counted: "length findings + length (filter covered entries) = length entries"
  using sum_length_filter_compl [of covered entries] by (simp add: findings_uncovered)

lemma no_findings: "findings = [] \<longleftrightarrow> (\<forall>c \<in> set entries. covered c)"
  by (simp add: findings_uncovered filter_empty_conv)

lemma findings_set: "set findings = report ` {c \<in> set entries. \<not> covered c}"
  by (simp add: findings_uncovered)

end

lemma report_uncovered_contract:
  "coverage_report (fst (report_uncovered covered report cs)) (snd (report_uncovered covered report cs))
     covered report"
proof
  have "concat (map (\<lambda>c. if covered c then [] else [report c]) cs) =
      map report (filter (\<lambda>c. \<not> covered c) cs)" for cs
    by (induction cs) simp_all
  then show "snd (report_uncovered covered report cs) =
      map report (filter (\<lambda>c. \<not> covered c) (fst (report_uncovered covered report cs)))"
    by (simp add: report_uncovered_def)
qed

interpretation errors: coverage_report "fst (analyze_errors ord r)" "snd (analyze_errors ord r)"
    ec_is_covered uncovered_error_finding for ord r
  by (simp add: analyze_errors_def Let_def report_uncovered_contract)

interpretation partitions: coverage_report "fst (analyze_partitions ord r)"
    "snd (analyze_partitions ord r)" pc_is_covered uncovered_partition_finding for ord r
  by (simp add: analyze_partitions_def Let_def report_uncovered_contract)

interpretation platforms: coverage_report "fst (analyze_platforms r)" "snd (analyze_platforms r)"
    ps_is_covered uncovered_scenario_finding for r
  by (simp add: analyze_platforms_def Let_def report_uncovered_contract)

interpretation resources: coverage_report "fst (analyze_resources r)" "snd (analyze_resources r)"
    rc_is_guarded unguarded_finding for r
  by (simp add: analyze_resources_def report_uncovered_contract)

text \<open>The invariant analyzer reports on the specification itself, so its entries are pairs.\<close>

definition invariant_entries :: "registry \<Rightarrow> (invariant_spec \<times> invariant_coverage) list" where
  "invariant_entries r = map (\<lambda>i. (i, invariant_coverage_of r (step_uc_map r) i)) (invariants r)"

interpretation invs: coverage_report "invariant_entries r" "snd (analyze_invariants r)"
    "\<lambda>(i, c). ic_is_testable c" "\<lambda>(i, c). untestable_finding i" for r
proof
  have "concat (map (\<lambda>(i, c). if ic_is_testable c then [] else [untestable_finding i]) es) =
      map (\<lambda>(i, c). untestable_finding i) (filter (\<lambda>e. \<not> (case e of (i, c) \<Rightarrow> ic_is_testable c)) es)"
    for es by (induction es) auto
  then show "snd (analyze_invariants r) = map (\<lambda>(i, c). untestable_finding i)
      (filter (\<lambda>e. \<not> (case e of (i, c) \<Rightarrow> ic_is_testable c)) (invariant_entries r))"
    by (simp add: analyze_invariants_def invariant_entries_def Let_def)
qed

section \<open>Which use cases an action map lists\<close>

definition reaches :: "registry \<Rightarrow> usecase_spec \<Rightarrow> string \<Rightarrow> bool" where
  "reaches r uc a \<longleftrightarrow>
     (\<exists>s \<in> set (uc_steps uc). st_use s = a) \<or>
     (\<exists>q \<in> set (uc_requires uc). \<exists>c \<in> set (components r).
        req_ref q = component_ref c \<and> (\<exists>s \<in> set (comp_steps c). st_use s = a))"

lemma components_iff:
  assumes inv: "registry_inv r"
  shows "c \<in> set (components r) \<longleftrightarrow> ComponentSpec c \<in> set (all_specs r)"
proof -
  have "c \<in> set (components r) \<longleftrightarrow> ComponentSpec c \<in> set (specs_of_kind r ''component'')"
    by (auto simp: components_def List.map_filter_def split: any_spec.splits
        intro!: rev_image_eqI [of "ComponentSpec c"])
  then show ?thesis by (simp add: specs_of_kind_iff [OF inv])
qed

lemma component_refs:
  assumes inv: "registry_inv r"
  shows "inj_on component_ref (set (components r))"
proof (rule inj_onI)
  fix c d
  assume c: "c \<in> set (components r)" and d: "d \<in> set (components r)"
    and "component_ref c = component_ref d"
  then have n: "comp_name c = comp_name d" by (simp add: component_ref_def)
  have g: "get r ''component'' (comp_name x) = Some (ComponentSpec x)" if "x \<in> set (components r)" for x
    using all_specs_filed [OF inv, of "ComponentSpec x"] that by (simp add: components_iff [OF inv])
  have "Some (ComponentSpec c) = Some (ComponentSpec d)"
    using g [OF c] g [OF d] unfolding n by (rule trans [OF sym])
  then show "c = d" by (simp only: option.inject any_spec.inject)
qed

lemma component_actions_lookup:
  assumes inv: "registry_inv r"
  shows "a \<in> set (dict_get (component_actions r) ref []) \<longleftrightarrow>
    (\<exists>c \<in> set (components r). ref = component_ref c \<and> (\<exists>s \<in> set (comp_steps c). st_use s = a))"
proof -
  have one: "map_of (component_actions r) ref = Some v \<longleftrightarrow>
      (\<exists>c \<in> set (components r). ref = component_ref c \<and> v = map st_use (comp_steps c))" for v
    unfolding component_actions_def by (rule dict_of_inj [OF component_refs [OF inv]])
  have "a \<in> set (dict_get (component_actions r) ref []) \<longleftrightarrow>
      (\<exists>v. map_of (component_actions r) ref = Some v \<and> a \<in> set v)"
    by (cases "map_of (component_actions r) ref") (simp_all add: dict_get_def)
  also have "\<dots> \<longleftrightarrow> (\<exists>c \<in> set (components r). ref = component_ref c \<and> a \<in> set (map st_use (comp_steps c)))"
    unfolding one by blast
  finally show ?thesis by auto
qed

context set_iteration
begin

lemma all_uc_pairs_iff:
  assumes "registry_inv r"
  shows "(a, u) \<in> set (all_uc_pairs ord (component_actions r) uc) \<longleftrightarrow> u = uc \<and> reaches r uc a"
proof -
  have "(a, u) \<in> set (all_uc_pairs ord (component_actions r) uc) \<longleftrightarrow>
      u = uc \<and> ((\<exists>s \<in> set (uc_steps uc). st_use s = a) \<or>
        (\<exists>q \<in> set (uc_requires uc). a \<in> set (dict_get (component_actions r) (req_ref q) [])))"
    by (auto simp: all_uc_pairs_def step_uc_pairs_def ord_set)
  then show ?thesis unfolding component_actions_lookup [OF assms] reaches_def .
qed

lemma action_uc_map_lookup:
  assumes "registry_inv r"
  shows "set (dict_get (action_uc_map ord r) a []) = {uc \<in> set (usecases r). reaches r uc a}"
proof -
  let ?ps = "concat (map (all_uc_pairs ord (component_actions r)) (usecases r))"
  have "u \<in> set (dict_get (action_uc_map ord r) a []) \<longleftrightarrow> (a, u) \<in> set ?ps" for u
    unfolding action_uc_map_def dict_get_group by force
  moreover have "(a, u) \<in> set ?ps \<longleftrightarrow> u \<in> set (usecases r) \<and> reaches r u a" for u
    using all_uc_pairs_iff [OF assms, of a u] by auto
  ultimately show ?thesis by blast
qed

end

section \<open>Guards of resources\<close>

definition guarded_resource :: "registry \<Rightarrow> string \<Rightarrow> bool" where
  "guarded_resource r res \<longleftrightarrow> res \<in> set (collect_guarded_resources r) \<or>
     (\<exists>c uc. res = conc_conflict c \<and> uc \<in> set (usecases r) \<and> c \<in> set (uc_concurrency uc))"

lemma guarded_resource_iff: "rc_is_guarded (resource_conflict_of r res ws) \<longleftrightarrow> guarded_resource r res"
proof -
  have "res \<in> set (dict_keys (collect_concurrency_policies r)) \<longleftrightarrow>
      (\<exists>c uc. res = conc_conflict c \<and> uc \<in> set (usecases r) \<and> c \<in> set (uc_concurrency uc))"
    unfolding collect_concurrency_policies_def keys_group by force
  then show ?thesis
    by (simp add: resource_conflict_of_def rc_is_guarded_def guarded_resource_def Let_def del: set_map)
qed

section \<open>Names of partitions\<close>

definition before_enum :: "field_def \<Rightarrow> string list" where
  "before_enum fd =
     (if \<not> fd_required fd then [''absent''] else [])
     @ (if fd_type fd = TString then [''empty_string''] else [])
     @ (if fd_type fd \<in> {TInteger, TNumber} then
          (if fd_min fd = None then [] else [''below_min''])
          @ (if fd_max fd = None then [] else [''above_max'']) else [])"

definition enum_names :: "pyval list option \<Rightarrow> string list" where
  "enum_names e = (case e of None \<Rightarrow> []
     | Some vs \<Rightarrow> if vs = [] then [] else map (\<lambda>v. ''enum_'' @ py_str v) vs @ [''invalid_enum''])"

definition after_enum :: "field_def \<Rightarrow> string list" where
  "after_enum fd =
     (if fd_type fd = TArray then [''empty_array''] else [])
     @ (if fd_type fd = TBoolean then [''true'', ''false''] else [])"

lemma derive_partitions_split:
  "map ip_name (derive_partitions f fd) =
     ''valid_present'' # before_enum fd @ enum_names (fd_enum fd) @ after_enum fd"
  by (cases "fd_type fd"; cases "fd_enum fd")
    (simp_all add: derive_partitions_def partition_def before_enum_def enum_names_def after_enum_def
      comp_def Let_def split: option.split)

lemma before_enum_names:
  "distinct (before_enum fd)" "''absent'' \<in> set (before_enum fd) \<longleftrightarrow> \<not> fd_required fd"
  "set (before_enum fd) \<subseteq> {''absent'', ''empty_string'', ''below_min'', ''above_max''}"
  by (auto simp: before_enum_def)

lemma after_enum_names:
  "distinct (after_enum fd)" "set (after_enum fd) \<subseteq> {''empty_array'', ''true'', ''false''}"
  by (auto simp: after_enum_def)

lemma enum_names_form: "n \<in> set (enum_names e) \<Longrightarrow> n = ''invalid_enum'' \<or> (\<exists>t. n = ''enum_'' @ t)"
  by (auto simp: enum_names_def split: option.splits if_splits)

lemma distinct_enum_names:
  "distinct (enum_names e) \<longleftrightarrow> (case e of None \<Rightarrow> True | Some vs \<Rightarrow> distinct (map py_str vs))"
  by (auto simp: enum_names_def distinct_map inj_on_def split: option.split)

section \<open>Properties\<close>

text \<open>
  The engine accounts for every obligation: its report exists for every registry, and the number
  of gaps is the number of errors, input partitions, platform scenarios, invariants and resource
  conflicts that nothing covers, plus the findings of the state analyzer.
\<close>

theorem engine_accounts:
  assumes "set_iteration ord"
  shows "\<exists>rep g fs. analyze_all ord r = Inr rep \<and> analyze_states ord r = Inr (g, fs) \<and>
    gap_count rep + errors_covered rep + partitions_covered rep + scenarios_covered rep
      + invariants_testable rep + length (filter rc_is_guarded (cr_conflicts rep)) =
    length (cr_errors rep) + length (cr_partitions rep) + length (cr_scenarios rep)
      + length (cr_invariants rep) + length (cr_conflicts rep) + length fs"
proof -
  obtain g fs where st: "analyze_states ord r = Inr (g, fs)"
    using set_iteration.analyze_states_result [OF assms] by blast
  have inv: "length (snd (analyze_invariants r)) + length (filter ic_is_testable (fst (analyze_invariants r)))
      = length (fst (analyze_invariants r))"
    using invs.findings_counted [of r]
    by (simp add: analyze_invariants_def invariant_entries_def Let_def filter_map comp_def)
  show ?thesis
    using errors.findings_counted [of ord r] partitions.findings_counted [of ord r]
      platforms.findings_counted [of r] resources.findings_counted [of r] inv
    by (simp add: analyze_all_def st split_beta Let_def gap_count_def errors_covered_def
        partitions_covered_def scenarios_covered_def invariants_testable_def)
qed

theorem engine_accounts_witness:
  "\<exists>rep. analyze_all sorted_set example_states = Inr rep \<and> cr_conflicts rep = [] \<and>
     gap_count rep = 1"
proof -
  obtain rep g fs where rep: "analyze_all sorted_set example_states = Inr rep"
    and st: "analyze_states sorted_set example_states = Inr (g, fs)"
    and count: "gap_count rep + errors_covered rep + partitions_covered rep + scenarios_covered rep
      + invariants_testable rep + length (filter rc_is_guarded (cr_conflicts rep)) =
    length (cr_errors rep) + length (cr_partitions rep) + length (cr_scenarios rep)
      + length (cr_invariants rep) + length (cr_conflicts rep) + length fs"
    using engine_accounts [OF sorted_iter.set_iteration_axioms] by metis
  have "analyze_errors sorted_set example_states = ([], [])"
    "analyze_partitions sorted_set example_states = ([], [])"
    "analyze_platforms example_states = ([], [])"
    "analyze_invariants example_states = ([], [])"
    "analyze_resources example_states = ([], [])"
    by code_simp+
  with rep st have "cr_errors rep = []" "cr_partitions rep = []" "cr_scenarios rep = []"
    "cr_invariants rep = []" "cr_conflicts rep = []"
    by (auto simp: analyze_all_def)
  moreover have "map_sum id (\<lambda>(g, fs). length fs) (analyze_states sorted_set example_states) = Inr 1"
    by code_simp
  ultimately show ?thesis using rep count st
    by (simp add: errors_covered_def partitions_covered_def scenarios_covered_def invariants_testable_def)
qed

text \<open>
  No error is reported as unhandled exactly when for every error of every action some use case
  that reaches the action, by a step of its main flow or through a required component, has an
  alternative flow that handles the error; the order of Python sets has no influence.
\<close>

theorem error_reachability_exact:
  assumes "registry_inv r" and "set_iteration ord"
  shows "snd (analyze_errors ord r) = [] \<longleftrightarrow>
    (\<forall>a \<in> set (actions r). \<forall>e \<in> set (act_errors a). \<exists>uc \<in> set (usecases r).
       reaches r uc (action_ref (act_name a)) \<and>
       (\<exists>alt \<in> set (uc_alternative_flows uc). flow_handles_error alt (err_code e) (err_condition e)))"
proof -
  have "snd (analyze_errors ord r) = [] \<longleftrightarrow> (\<forall>a \<in> set (actions r). \<forall>e \<in> set (act_errors a).
      ec_is_covered (error_coverage_of
        (dict_get (action_uc_map ord r) (action_ref (act_name a)) []) a e))"
    unfolding errors.no_findings by (auto simp: analyze_errors_def report_uncovered_def Let_def)
  moreover have "ec_is_covered (error_coverage_of ucs a e) \<longleftrightarrow>
      (\<exists>uc \<in> set ucs. \<exists>alt \<in> set (uc_alternative_flows uc).
        flow_handles_error alt (err_code e) (err_condition e))" for ucs a e
    by (auto simp: ec_is_covered_def error_coverage_of_def filter_empty_conv)
  ultimately show ?thesis
    by (simp add: set_iteration.action_uc_map_lookup [OF assms(2,1)] Bex_def)
qed

theorem error_reachability_exact_witness:
  "registry_inv example_states \<and> snd (analyze_errors sorted_set example_states) = []"
proof -
  have inv: "registry_inv example_states" by (simp add: example_states_def)
  have "actions example_states = []" by code_simp
  with error_reachability_exact [OF inv sorted_iter.set_iteration_axioms] inv show ?thesis by simp
qed

text \<open>
  The partitions of an input field always include the valid one, include the absent one exactly
  for optional fields, and have different names unless two values of an enumeration print alike.
\<close>

theorem derive_partitions_names:
  "hd (map ip_name (derive_partitions f fd)) = ''valid_present'' \<and>
   (''absent'' \<in> set (map ip_name (derive_partitions f fd)) \<longleftrightarrow> \<not> fd_required fd) \<and>
   (distinct (map ip_name (derive_partitions f fd)) \<longleftrightarrow>
      (case fd_enum fd of None \<Rightarrow> True | Some vs \<Rightarrow> distinct (map py_str vs)))"
  unfolding derive_partitions_split
proof (intro conjI)
  show "hd (''valid_present'' # before_enum fd @ enum_names (fd_enum fd) @ after_enum fd) = ''valid_present''"
    by simp
  show "''absent'' \<in> set (''valid_present'' # before_enum fd @ enum_names (fd_enum fd) @ after_enum fd) \<longleftrightarrow>
      \<not> fd_required fd"
    using before_enum_names [of fd] after_enum_names [of fd] enum_names_form [of _ "fd_enum fd"] by auto
  show "distinct (''valid_present'' # before_enum fd @ enum_names (fd_enum fd) @ after_enum fd) \<longleftrightarrow>
      (case fd_enum fd of None \<Rightarrow> True | Some vs \<Rightarrow> distinct (map py_str vs))"
    using before_enum_names [of fd] after_enum_names [of fd] enum_names_form [of _ "fd_enum fd"]
    unfolding distinct_enum_names [symmetric] by auto
qed

text \<open>
  No resource is reported as unguarded exactly when every resource that two different actions
  write is named by an invariant, as its entity or in \<^verbatim>\<open>applies_to\<close>, or by a concurrency
  policy of a use case.
\<close>

theorem resource_conflicts_exact:
  "snd (analyze_resources r) = [] \<longleftrightarrow>
     {res. \<exists>a \<in> set (actions r). \<exists>b \<in> set (actions r). act_name a \<noteq> act_name b \<and>
        (\<exists>w \<in> set (act_writes a). rw_resource w = res) \<and> (\<exists>w \<in> set (act_writes b). rw_resource w = res)}
     \<subseteq> set (collect_guarded_resources r) \<union>
       {conc_conflict c | c uc. uc \<in> set (usecases r) \<and> c \<in> set (uc_concurrency uc)}"
proof -
  let ?ps = "concat (map (\<lambda>a. map (\<lambda>w. (rw_resource w, act_name a)) (act_writes a)) (actions r))"
  have wf: "wf_dict (collect_resource_writers r)"
    by (simp add: collect_resource_writers_def)
  have writers: "n \<in> set (dict_get (collect_resource_writers r) res []) \<longleftrightarrow>
      (\<exists>a \<in> set (actions r). act_name a = n \<and> (\<exists>w \<in> set (act_writes a). rw_resource w = res))" for n res
    unfolding collect_resource_writers_def dict_get_group by force
  have two: "\<not> set_size ws < 2 \<longleftrightarrow> (\<exists>m \<in> set ws. \<exists>n \<in> set ws. m \<noteq> n)" for ws :: "string list"
  proof -
    have "set_size ws \<le> 1 \<longleftrightarrow> (\<forall>m \<in> set ws. \<forall>n \<in> set ws. m = n)"
      by (simp add: set_size_card card_le_Suc0_iff_eq)
    then show ?thesis by (auto simp: less_2_cases_iff not_less)
  qed
  have "snd (analyze_resources r) = [] \<longleftrightarrow>
      (\<forall>(res, ws) \<in> set (collect_resource_writers r). \<not> set_size ws < 2 \<longrightarrow>
         rc_is_guarded (resource_conflict_of r res ws))"
    unfolding resources.no_findings by (auto simp: analyze_resources_def report_uncovered_def)
  also have "\<dots> \<longleftrightarrow> (\<forall>res. \<not> set_size (dict_get (collect_resource_writers r) res []) < 2 \<longrightarrow>
      guarded_resource r res)"
    using wf by (fastforce simp: dict_get_def wf_dict_lookup guarded_resource_iff set_size_def
        split: option.splits)
  also have "\<dots> \<longleftrightarrow> {res. \<exists>a \<in> set (actions r). \<exists>b \<in> set (actions r). act_name a \<noteq> act_name b \<and>
        (\<exists>w \<in> set (act_writes a). rw_resource w = res) \<and> (\<exists>w \<in> set (act_writes b). rw_resource w = res)}
     \<subseteq> {res. guarded_resource r res}"
    unfolding two Bex_def writers by blast
  finally show ?thesis by (simp add: guarded_resource_def Un_def)
qed

end
