(* ===== verification/Drift.thy ===== *)
theory Drift
  imports Registry
begin

text \<open>
  Drift detection, \<^verbatim>\<open>src/ucf/drift\<close>: the scanner of \<^verbatim>\<open>@implements\<close> markers on the lines of a
  file, the mapper from specifications to code and the detector. Reading files is outside the
  model: a scan gets the relative path and the lines of each file, and the existence test of the
  path convention is the argument \<open>exists\<close>. \<open>ord\<close> is the iteration order of the set of references.
\<close>

section \<open>The scanner (scanner.py)\<close>

record implementation_entry =
  ie_file :: string
  ie_ref :: string
  ie_line :: nat

record scan_result =
  sr_implementations :: "implementation_entry list"
  sr_scanned :: nat
  sr_markers :: nat

definition is_quote :: "char \<Rightarrow> bool" where
  "is_quote c \<longleftrightarrow> c = CHR 0x22 \<or> c = CHR 0x27"

text \<open>
  \<^verbatim>\<open>_IMPLEMENTS_RE\<close> at the start of a text: the group and the text after the match. The
  expression is deterministic, because white space, quotes and the rest exclude each other.
\<close>

definition match_marker :: "string \<Rightarrow> (string \<times> string) option" where
  "match_marker s =
     (if prefix ''@implements('' s then
        (case dropWhile is_space (drop 12 s) of
           [] \<Rightarrow> None
         | q # t \<Rightarrow>
             let ref = takeWhile (\<lambda>c. \<not> is_quote c) t; u = dropWhile (\<lambda>c. \<not> is_quote c) t;
                 v = dropWhile is_space (tl u) in
             if is_quote q \<and> ref \<noteq> [] \<and> u \<noteq> [] \<and> v \<noteq> [] \<and> hd v = CHR '')'' then Some (ref, tl v)
             else None)
      else None)"

lemma match_marker_shorter:
  assumes "match_marker s = Some (ref, rest)"
  shows "length rest < length s"
proof -
  obtain q t where t: "dropWhile is_space (drop 12 s) = q # t"
    and rest: "rest = tl (dropWhile is_space (tl (dropWhile (\<lambda>c. \<not> is_quote c) t)))"
    using assms by (auto simp: match_marker_def Let_def split: if_splits list.splits)
  have "length (q # t) \<le> length s"
    unfolding t [symmetric] using length_dropWhile_le [of is_space "drop 12 s"] by simp
  moreover have "length rest \<le> length t"
    unfolding rest
    by (metis diff_le_self dual_order.trans length_dropWhile_le length_tl)
  ultimately show ?thesis by simp
qed

function find_markers :: "string \<Rightarrow> string list" where
  "find_markers s =
     (case match_marker s of
        Some (ref, rest) \<Rightarrow> ref # find_markers rest
      | None \<Rightarrow> (if s = [] then [] else find_markers (tl s)))"
  by pat_completeness auto
termination
  by (relation "measure length") (auto dest: match_marker_shorter)

declare find_markers.simps [simp del]

text \<open>\<^verbatim>\<open>_COMMENT_IMPLEMENTS_RE.search(line)\<close>: the group of the leftmost match.\<close>

fun search_comment :: "string \<Rightarrow> string option" where
  "search_comment [] = None"
| "search_comment (c # cs) =
     (case (if c = CHR ''#'' then match_marker (dropWhile is_space cs) else None) of
        Some (ref, rest) \<Rightarrow> Some ref
      | None \<Rightarrow> search_comment cs)"

definition entry :: "string \<Rightarrow> nat \<Rightarrow> string \<Rightarrow> implementation_entry" where
  "entry file n ref = \<lparr>ie_file = file, ie_ref = ref, ie_line = n\<rparr>"

definition scan_line :: "string \<Rightarrow> nat \<Rightarrow> string \<Rightarrow> implementation_entry list" where
  "scan_line file n line =
     (case search_comment line of
        Some ref \<Rightarrow> [entry file n ref]
      | None \<Rightarrow> map (entry file n) (find_markers line))"

definition scan_file :: "string \<Rightarrow> string list \<Rightarrow> implementation_entry list" where
  "scan_file file ls = concat (map (\<lambda>(n, l). scan_line file n l) (enumerate 1 ls))"

definition scan_step :: "scan_result \<Rightarrow> string \<times> string list \<Rightarrow> scan_result" where
  "scan_step r f =
     (let entries = scan_file (fst f) (snd f) in
      \<lparr>sr_implementations = sr_implementations r @ entries, sr_scanned = sr_scanned r + 1,
       sr_markers = sr_markers r + length entries\<rparr>)"

definition scan :: "(string \<times> string list) list \<Rightarrow> scan_result" where
  "scan files = foldl scan_step \<lparr>sr_implementations = [], sr_scanned = 0, sr_markers = 0\<rparr> files"

section \<open>The mapper (mapper.py)\<close>

record spec_code_map =
  sc_spec_to_code :: "(string, string list) dict"
  sc_code_to_spec :: "(string, string list) dict"
  sc_mapped :: nat

definition all_spec_refs :: "registry \<Rightarrow> string list" where
  "all_spec_refs r = map ref_key (all_specs r)"

text \<open>\<^verbatim>\<open>ref.split('/', 1)[-1]\<close>\<close>

definition ref_name :: "string \<Rightarrow> string" where
  "ref_name ref = (case split_once (CHR ''/'') ref of (p, Some n) \<Rightarrow> n | (p, None) \<Rightarrow> p)"

definition plural_prefixes :: "string list" where
  "plural_prefixes = [''actions/'', ''events/'', ''components/'', ''protocols/'', ''use-cases/'',
     ''invariants/'']"

text \<open>
  \<^verbatim>\<open>_SPEC_REF_RE.match(marker)\<close>, its group: a known prefix is dropped when something follows it,
  the dot matches no line feed, and \<^verbatim>\<open>$\<close> also matches before a final line feed.
\<close>

definition spec_ref_group :: "string \<Rightarrow> string option" where
  "spec_ref_group marker =
     (let body = (if marker \<noteq> [] \<and> last marker = CHR 0x0A then butlast marker else marker);
          rests = filter (\<lambda>n. n \<noteq> [])
            (map (\<lambda>p. drop (length p) body) (filter (\<lambda>p. prefix p body) plural_prefixes)) in
      if body = [] \<or> CHR 0x0A \<in> set body then None
      else Some (case rests of [] \<Rightarrow> body | n # _ \<Rightarrow> n))"

definition match_to_spec :: "string \<Rightarrow> string list \<Rightarrow> string option" where
  "match_to_spec marker refs =
     (if marker \<in> set refs then Some marker
      else
        (case List.find (\<lambda>ref. marker = ref_name ref) refs of
           Some ref \<Rightarrow> Some ref
         | None \<Rightarrow>
             (case spec_ref_group marker of
                None \<Rightarrow> None
              | Some name \<Rightarrow> List.find (\<lambda>ref. suffix (CHR ''/'' # name) ref) refs)))"

definition map_entry :: "string list \<Rightarrow> spec_code_map \<Rightarrow> implementation_entry \<Rightarrow> spec_code_map" where
  "map_entry refs m e =
     (case match_to_spec (ie_ref e) refs of
        None \<Rightarrow> m
      | Some ref \<Rightarrow>
          if ref = [] then m
          else m\<lparr>sc_spec_to_code := dict_append (sc_spec_to_code m) ref (ie_file e),
                 sc_code_to_spec := dict_append (sc_code_to_spec m) (ie_file e) ref\<rparr>)"

definition convention_candidates :: "string \<Rightarrow> string list" where
  "convention_candidates ref =
     (case split_once (CHR ''/'') ref of
        (plural, Some name) \<Rightarrow>
          (let snake = py_replace ''-'' ''_'' name in
           [''src/ucf/'' @ butlast plural @ ''/'' @ snake @ ''.py'',
            ''src/'' @ plural @ ''/'' @ snake @ ''.py'', plural @ ''/'' @ snake @ ''.py''])
      | (p, None) \<Rightarrow> [])"

definition apply_candidate ::
  "(string \<Rightarrow> bool) \<Rightarrow> string \<Rightarrow> spec_code_map \<Rightarrow> string \<Rightarrow> spec_code_map" where
  "apply_candidate exists ref m cand =
     (if map_of (sc_code_to_spec m) cand \<noteq> None then m
      else if exists cand
        then m\<lparr>sc_spec_to_code := dict_append (sc_spec_to_code m) ref cand,
               sc_code_to_spec := dict_append (sc_code_to_spec m) cand ref\<rparr>
      else m)"

definition apply_convention_ref ::
  "(string \<Rightarrow> bool) \<Rightarrow> spec_code_map \<Rightarrow> string \<Rightarrow> spec_code_map" where
  "apply_convention_ref exists m ref =
     (if dict_get (sc_spec_to_code m) ref [] \<noteq> [] then m
      else foldl (apply_candidate exists ref) m (convention_candidates ref))"

definition build_map ::
  "(string list \<Rightarrow> string list) \<Rightarrow> (string \<Rightarrow> bool) \<Rightarrow> registry \<Rightarrow> implementation_entry list \<Rightarrow>
     string option \<Rightarrow> spec_code_map" where
  "build_map ord exists r impls convention =
     (let refs = ord (all_spec_refs r);
          m0 = \<lparr>sc_spec_to_code = map (\<lambda>ref. (ref, [])) refs, sc_code_to_spec = [], sc_mapped = 0\<rparr>;
          m1 = foldl (map_entry refs) m0 impls;
          m2 = (if truthy convention then foldl (apply_convention_ref exists) m1 refs else m1)
      in m2\<lparr>sc_mapped := length (filter (\<lambda>paths. paths \<noteq> []) (dict_values (sc_spec_to_code m2)))\<rparr>)"

section \<open>The detector (detector.py)\<close>

record drift_entry =
  de_ref :: string
  de_kind :: string
  de_detail :: string

record drift_result =
  dr_unimplemented :: "drift_entry list"
  dr_orphan_code :: "drift_entry list"
  dr_stale :: "drift_entry list"

definition drift_count :: "drift_result \<Rightarrow> nat" where
  "drift_count d = length (dr_unimplemented d) + length (dr_orphan_code d) + length (dr_stale d)"

definition unimplemented_entry :: "string \<Rightarrow> drift_entry" where
  "unimplemented_entry ref = \<lparr>de_ref = ref, de_kind = fst (split_once (CHR ''/'') ref),
     de_detail = ''No implementation found for '' @ quoted ref\<rparr>"

definition orphan_entry :: "string \<Rightarrow> string \<Rightarrow> drift_entry" where
  "orphan_entry code ref = \<lparr>de_ref = code, de_kind = ''orphan'',
     de_detail = quoted code @ '' references '' @ quoted ref @ '' which does not exist in specs''\<rparr>"

definition find_unimplemented :: "spec_code_map \<Rightarrow> drift_entry list" where
  "find_unimplemented m =
     map (\<lambda>(ref, paths). unimplemented_entry ref) (filter (\<lambda>(ref, paths). paths = []) (sc_spec_to_code m))"

definition find_orphan_code :: "registry \<Rightarrow> spec_code_map \<Rightarrow> drift_entry list" where
  "find_orphan_code r m =
     concat (map (\<lambda>(code, refs). map (orphan_entry code)
       (filter (\<lambda>ref. ref \<notin> set (all_spec_refs r)) refs)) (sc_code_to_spec m))"

definition detect :: "registry \<Rightarrow> spec_code_map \<Rightarrow> drift_result" where
  "detect r m = \<lparr>dr_unimplemented = find_unimplemented m, dr_orphan_code = find_orphan_code r m,
     dr_stale = []\<rparr>"

section \<open>The map is bidirectional\<close>

lemma find_member: "List.find P xs = Some x \<Longrightarrow> x \<in> set xs"
  by (auto simp: find_Some_iff)

lemma match_member: "match_to_spec marker refs = Some ref \<Longrightarrow> ref \<in> set refs"
  by (auto simp: match_to_spec_def split: if_splits option.splits dest: find_member)

text \<open>
  The references listed are those of the registry, both directions say the same and no key is
  doubled.
\<close>

definition map_inv :: "string list \<Rightarrow> spec_code_map \<Rightarrow> bool" where
  "map_inv refs m \<longleftrightarrow> wf_dict (sc_spec_to_code m) \<and> wf_dict (sc_code_to_spec m) \<and>
     set (dict_keys (sc_spec_to_code m)) = set refs \<and>
     (\<forall>ref path. path \<in> set (dict_get (sc_spec_to_code m) ref []) \<longleftrightarrow>
        ref \<in> set (dict_get (sc_code_to_spec m) path []))"

lemma map_inv_link:
  assumes "map_inv refs m" and "ref \<in> set refs"
  shows "map_inv refs (m\<lparr>sc_spec_to_code := dict_append (sc_spec_to_code m) ref path,
     sc_code_to_spec := dict_append (sc_code_to_spec m) path ref\<rparr>)"
  using assms by (auto simp: map_inv_def keys_append dict_get_append simp del: set_map)

lemma map_inv_entry: "map_inv refs m \<Longrightarrow> map_inv refs (map_entry refs m e)"
  by (auto simp: map_entry_def map_inv_link dest: match_member split: option.split)

lemma map_inv_entries: "map_inv refs m \<Longrightarrow> map_inv refs (foldl (map_entry refs) m es)"
  by (induction es arbitrary: m) (auto simp: map_inv_entry)

lemma map_inv_candidates:
  "map_inv refs m \<Longrightarrow> ref \<in> set refs \<Longrightarrow> map_inv refs (foldl (apply_candidate exists ref) m cs)"
  by (induction cs arbitrary: m) (auto simp: apply_candidate_def map_inv_link)

lemma map_inv_convention:
  "map_inv refs m \<Longrightarrow> set rs \<subseteq> set refs \<Longrightarrow>
     map_inv refs (foldl (apply_convention_ref exists) m rs)"
  by (induction rs arbitrary: m) (auto simp: apply_convention_ref_def map_inv_candidates)

lemma empty_lists: "dict_get (map (\<lambda>ref. (ref, [])) refs) ref [] = []"
  by (auto simp: dict_get_def split: option.split dest: map_of_SomeD)

context set_iteration
begin

lemma map_inv_build: "map_inv (ord (all_spec_refs r)) (build_map ord exists r impls convention)"
proof -
  let ?refs = "ord (all_spec_refs r)"
  let ?m0 = "\<lparr>sc_spec_to_code = map (\<lambda>ref. (ref, [])) ?refs, sc_code_to_spec = [], sc_mapped = 0\<rparr>"
  have "map_inv ?refs ?m0"
    by (simp add: map_inv_def wf_dict_def comp_def ord_distinct empty_lists)
  then have "map_inv ?refs (foldl (map_entry ?refs) ?m0 impls)" by (rule map_inv_entries)
  moreover from map_inv_convention [OF this subset_refl]
  have "map_inv ?refs (foldl (apply_convention_ref exists) (foldl (map_entry ?refs) ?m0 impls) ?refs)" .
  ultimately show ?thesis by (simp add: build_map_def Let_def map_inv_def)
qed

end

lemma mapped_build:
  "sc_mapped (build_map ord exists r impls convention) =
     length (filter (\<lambda>paths. paths \<noteq> []) (dict_values (sc_spec_to_code (build_map ord exists r impls convention))))"
  by (simp add: build_map_def Let_def)

section \<open>What a map without convention lists\<close>

lemma map_entries_get:
  "[] \<notin> set refs \<Longrightarrow> dict_get (sc_spec_to_code (foldl (map_entry refs) m es)) ref [] =
     dict_get (sc_spec_to_code m) ref [] @
       map ie_file (filter (\<lambda>e. match_to_spec (ie_ref e) refs = Some ref) es)"
proof (induction es arbitrary: m)
  case Nil
  show ?case by simp
next
  case (Cons e es)
  have "dict_get (sc_spec_to_code (map_entry refs m e)) ref [] = dict_get (sc_spec_to_code m) ref [] @
      (if match_to_spec (ie_ref e) refs = Some ref then [ie_file e] else [])"
    using Cons.prems by (auto simp: map_entry_def dict_get_append split: option.split dest: match_member)
  with Cons show ?case by simp
qed

lemma ref_key_nonempty: "ref_key s \<noteq> []"
  by (simp add: ref_key_def)

section \<open>What the scanner returns\<close>

lemma marker_ref:
  "match_marker s = Some (ref, rest) \<Longrightarrow> ref \<noteq> [] \<and> list_all (\<lambda>c. \<not> is_quote c) ref"
  by (auto simp: match_marker_def Let_def list_all_iff split: if_splits list.splits dest: set_takeWhileD)

lemma find_markers_refs:
  "ref \<in> set (find_markers s) \<Longrightarrow> ref \<noteq> [] \<and> list_all (\<lambda>c. \<not> is_quote c) ref"
proof (induction s rule: find_markers.induct)
  case (1 s)
  then show ?case
    by (auto simp: find_markers.simps [of s] split: option.splits if_splits dest: marker_ref)
qed

lemma search_comment_ref:
  "search_comment s = Some ref \<Longrightarrow> ref \<noteq> [] \<and> list_all (\<lambda>c. \<not> is_quote c) ref"
  by (induction s) (auto split: if_splits option.splits dest: marker_ref)

lemma scan_file_entries:
  "e \<in> set (scan_file file ls) \<Longrightarrow> ie_file e = file \<and> ie_ref e \<noteq> [] \<and>
     list_all (\<lambda>c. \<not> is_quote c) (ie_ref e) \<and> 1 \<le> ie_line e \<and> ie_line e \<le> length ls"
  by (auto simp: scan_file_def scan_line_def entry_def in_set_enumerate_eq
      split: option.splits dest: find_markers_refs search_comment_ref)

section \<open>Properties\<close>

text \<open>
  A map built from a registry lists exactly the references of the registry, once each, and its
  two directions agree: a file is listed for a reference if and only if the reference is listed for
  the file, with or without the path convention.
\<close>

theorem spec_code_map_bidirectional:
  assumes "set_iteration ord"
  shows "distinct (dict_keys (sc_spec_to_code (build_map ord exists r impls convention))) \<and>
    set (dict_keys (sc_spec_to_code (build_map ord exists r impls convention))) = set (all_spec_refs r) \<and>
    (path \<in> set (dict_get (sc_spec_to_code (build_map ord exists r impls convention)) ref []) \<longleftrightarrow>
     ref \<in> set (dict_get (sc_code_to_spec (build_map ord exists r impls convention)) path []))"
  using set_iteration.map_inv_build [OF assms, of r exists impls convention]
    set_iteration.ord_set [OF assms]
  by (simp add: map_inv_def wf_dict_def)

theorem spec_code_map_bidirectional_witness:
  "set (dict_keys (sc_spec_to_code (build_map sorted_set (\<lambda>p. False)
      (registry_of [(''pay.yaml'', ActionSpec (plain_action ''pay''))])
      [entry ''pay.py'' 3 ''pay''] None))) = {''actions/pay''}"
proof -
  have "all_spec_refs (registry_of [(''pay.yaml'', ActionSpec (plain_action ''pay''))]) = [''actions/pay'']"
    by code_simp
  then show ?thesis
    using spec_code_map_bidirectional [OF sorted_iter.set_iteration_axioms, of "\<lambda>p. False"
        "registry_of [(''pay.yaml'', ActionSpec (plain_action ''pay''))]"
        "[entry ''pay.py'' 3 ''pay'']" None]
    by (metis list.set(1) list.set(2))
qed

text \<open>
  Orphan code is never reported: a detector that gets the map of its own registry finds no
  orphan and no stale mapping, whatever markers the code has, and every reference of the registry
  is either mapped or counted as drift. The mapper drops the markers that match nothing.
\<close>

theorem no_orphan_code:
  assumes "set_iteration ord"
  shows "dr_orphan_code (detect r (build_map ord exists r impls convention)) = [] \<and>
    dr_stale (detect r (build_map ord exists r impls convention)) = [] \<and>
    sc_mapped (build_map ord exists r impls convention)
      + drift_count (detect r (build_map ord exists r impls convention)) = set_size (all_spec_refs r)"
proof -
  let ?m = "build_map ord exists r impls convention"
  have inv: "map_inv (ord (all_spec_refs r)) ?m"
    by (rule set_iteration.map_inv_build [OF assms])
  have known: "ref \<in> set (all_spec_refs r)" if c: "(code, refs) \<in> set (sc_code_to_spec ?m)" "ref \<in> set refs"
    for code refs ref
  proof -
    have "dict_get (sc_code_to_spec ?m) code [] = refs"
      using inv c by (simp add: map_inv_def wf_dict_lookup dict_get_def)
    with c inv have "code \<in> set (dict_get (sc_spec_to_code ?m) ref [])" by (simp add: map_inv_def)
    then have "ref \<in> set (dict_keys (sc_spec_to_code ?m))"
      by (cases "map_of (sc_spec_to_code ?m) ref") (auto simp: dict_get_def dest!: map_of_SomeD intro: rev_image_eqI)
    then show ?thesis using inv set_iteration.ord_set [OF assms] by (simp add: map_inv_def)
  qed
  then have orphan: "find_orphan_code r ?m = []"
    by (auto simp: find_orphan_code_def filter_empty_conv)
  have "length (dict_keys (sc_spec_to_code ?m)) = set_size (all_spec_refs r)"
    using inv set_iteration.ord_set [OF assms] unfolding set_size_card map_inv_def wf_dict_def
    by (metis distinct_card)
  moreover have "sc_mapped ?m + length (find_unimplemented ?m) = length (sc_spec_to_code ?m)"
    unfolding mapped_build find_unimplemented_def length_map filter_map comp_def
    using sum_length_filter_compl [of "\<lambda>p. snd p \<noteq> []" "sc_spec_to_code ?m"]
    by (simp add: case_prod_unfold)
  ultimately show ?thesis
    using orphan by (simp add: detect_def drift_count_def)
qed

theorem no_orphan_code_witness:
  "dr_orphan_code (detect (registry_of [(''pay.yaml'', ActionSpec (plain_action ''pay''))])
     (build_map sorted_set (\<lambda>p. False) (registry_of [(''pay.yaml'', ActionSpec (plain_action ''pay''))])
       [entry ''refund.py'' 7 ''actions/refund''] None)) = []"
  using no_orphan_code [OF sorted_iter.set_iteration_axioms] by blast

text \<open>
  Without a path convention a specification is reported as unimplemented exactly when it is in
  the registry and no marker of the scanned code matches it.
\<close>

theorem unimplemented_exact:
  assumes "set_iteration ord"
  shows "unimplemented_entry ref \<in> set (dr_unimplemented (detect r (build_map ord exists r impls None))) \<longleftrightarrow>
    ref \<in> set (all_spec_refs r) \<and>
    (\<forall>e \<in> set impls. match_to_spec (ie_ref e) (ord (all_spec_refs r)) \<noteq> Some ref)"
proof -
  let ?m = "build_map ord exists r impls None"
  let ?refs = "ord (all_spec_refs r)"
  have inv: "map_inv ?refs ?m" by (rule set_iteration.map_inv_build [OF assms])
  have "[] \<notin> set ?refs"
    using set_iteration.ord_set [OF assms] ref_key_nonempty
    by (metis (no_types, lifting) all_spec_refs_def imageE list.set_map)
  then have get: "dict_get (sc_spec_to_code ?m) ref [] =
      map ie_file (filter (\<lambda>e. match_to_spec (ie_ref e) ?refs = Some ref) impls)"
    by (simp add: build_map_def truthy_def map_entries_get empty_lists Let_def)
  have "unimplemented_entry ref \<in> set (find_unimplemented ?m) \<longleftrightarrow> (ref, []) \<in> set (sc_spec_to_code ?m)"
    by (auto simp: find_unimplemented_def unimplemented_entry_def)
  also have "\<dots> \<longleftrightarrow> map_of (sc_spec_to_code ?m) ref = Some []"
    using inv by (simp add: map_inv_def wf_dict_lookup)
  also have "\<dots> \<longleftrightarrow> ref \<in> set (dict_keys (sc_spec_to_code ?m)) \<and> dict_get (sc_spec_to_code ?m) ref [] = []"
    by (cases "map_of (sc_spec_to_code ?m) ref")
      (auto simp: dict_get_def map_of_eq_None_iff dest!: map_of_SomeD intro: rev_image_eqI)
  also have "\<dots> \<longleftrightarrow> ref \<in> set (all_spec_refs r) \<and>
      (\<forall>e \<in> set impls. match_to_spec (ie_ref e) ?refs \<noteq> Some ref)"
    using inv set_iteration.ord_set [OF assms] unfolding get map_inv_def by (auto simp: filter_empty_conv)
  finally show ?thesis by (simp add: detect_def)
qed

theorem unimplemented_exact_witness:
  "unimplemented_entry ''actions/pay'' \<in> set (dr_unimplemented (detect
     (registry_of [(''pay.yaml'', ActionSpec (plain_action ''pay''))])
     (build_map sorted_set (\<lambda>p. False) (registry_of [(''pay.yaml'', ActionSpec (plain_action ''pay''))])
       [entry ''refund.py'' 7 ''actions/refund''] None)))"
proof -
  let ?r = "registry_of [(''pay.yaml'', ActionSpec (plain_action ''pay''))]"
  have "''actions/pay'' \<in> set (all_spec_refs ?r)" by code_simp
  moreover have "\<forall>e \<in> set [entry ''refund.py'' 7 ''actions/refund''].
      match_to_spec (ie_ref e) (sorted_set (all_spec_refs ?r)) \<noteq> Some ''actions/pay''"
    by code_simp
  ultimately show ?thesis
    using unimplemented_exact [OF sorted_iter.set_iteration_axioms] by blast
qed

text \<open>
  The counters of a scan are exact, and every marker it returns is a non-empty reference
  without quotes at a line of one of the files, counted from 1.
\<close>

theorem scan_exact:
  "sr_scanned (scan files) = length files \<and>
   sr_markers (scan files) = length (sr_implementations (scan files)) \<and>
   list_all (\<lambda>e. ie_ref e \<noteq> [] \<and> list_all (\<lambda>c. \<not> is_quote c) (ie_ref e) \<and>
     (\<exists>ls. (ie_file e, ls) \<in> set files \<and> 1 \<le> ie_line e \<and> ie_line e \<le> length ls))
     (sr_implementations (scan files))"
proof -
  have "sr_scanned (foldl scan_step r files) = sr_scanned r + length files \<and>
      sr_implementations (foldl scan_step r files) =
        sr_implementations r @ concat (map (\<lambda>f. scan_file (fst f) (snd f)) files) \<and>
      (sr_markers r = length (sr_implementations r) \<longrightarrow>
        sr_markers (foldl scan_step r files) = length (sr_implementations (foldl scan_step r files)))" for r
    by (induction files arbitrary: r) (simp_all add: scan_step_def Let_def)
  then show ?thesis
    using scan_file_entries unfolding scan_def by (fastforce simp: list_all_iff)
qed

text \<open>
  A comment line yields the marker it states: for a reference without quotes, in a line whose
  text before the comment has no \<^verbatim>\<open>#\<close>, the scanner returns exactly one entry, for that
  reference, whatever follows.
\<close>

theorem comment_marker_scanned:
  assumes "CHR ''#'' \<notin> set pre" and "ref \<noteq> []" and "list_all (\<lambda>c. \<not> is_quote c) ref"
  shows "scan_line file n (pre @ ''# @implements('' @ [CHR 0x22] @ ref @ [CHR 0x22, CHR '')''] @ rest)
    = [entry file n ref]"
proof -
  have "match_marker (''@implements('' @ [CHR 0x22] @ ref @ [CHR 0x22, CHR '')''] @ rest) = Some (ref, rest)"
    using assms(2,3)
    by (simp add: match_marker_def Let_def is_quote_def is_space_def list_all_iff takeWhile_append
        dropWhile_append)
  moreover have "dropWhile is_space ('' @implements('' @ x) = ''@implements('' @ x" for x
    by (simp add: is_space_def)
  ultimately have found: "search_comment (''# @implements('' @ [CHR 0x22] @ ref @ [CHR 0x22, CHR '')''] @ rest) = Some ref"
    by simp
  have "search_comment (pre @ t) = search_comment t" for t
    using assms(1) by (induction pre) auto
  with found show ?thesis by (simp add: scan_line_def)
qed

theorem comment_marker_scanned_witness:
  "scan_line ''pay.py'' 4 (''x = 1  # @implements('' @ [CHR 0x22] @ ''actions/pay'' @ [CHR 0x22, CHR '')''] @ [])
    = [entry ''pay.py'' 4 ''actions/pay'']"
proof -
  have "CHR ''#'' \<notin> set ''x = 1  ''" "list_all (\<lambda>c. \<not> is_quote c) ''actions/pay''" by code_simp+
  from comment_marker_scanned [OF this(1) _ this(2), of "''pay.py''" 4 "[]"] show ?thesis by simp
qed

end
