(* ===== verification/Ratchet_Model.thy ===== *)
theory Ratchet_Model
  imports Spec_Model
begin

text \<open>
  The documents of the behaviour ratchet and their validation, \<^verbatim>\<open>src/ucf/ratchet/models.py\<close>,
  \<^verbatim>\<open>identity.py\<close>, \<^verbatim>\<open>references.py\<close>, \<^verbatim>\<open>errors.py\<close> and \<^verbatim>\<open>validation.py\<close>. The constant fields of
  the models (\<^verbatim>\<open>kind\<close>, versions, schema URIs) are left out, parts the ratchet never looks into
  (producers, capture contexts, traces) are JSON vs. An identifier is derived from the SHA-256
  digest of the canonical JSON text of a document without its \<^verbatim>\<open>id\<close>: the digests are the fields
  of the parameter \<open>D\<close>, and properties that need different keys to have different identifiers say
  so. Of an onboarding bundle the ratchet uses its digest, its discovery coverage and the
  outcome of \<^verbatim>\<open>derive_subject_snapshots\<close>: these are the fields of \<open>bundle_view\<close>.
\<close>

section \<open>Bounds of the models\<close>

definition max_safe_integer :: nat where
  "max_safe_integer = 9007199254740991"

definition max_ratchet_rules :: nat where
  "max_ratchet_rules = 256"

definition max_ratchet_subjects :: nat where
  "max_ratchet_subjects = 256"

definition max_ratchet_violations :: nat where
  "max_ratchet_violations = max_ratchet_rules * max_ratchet_subjects"

section \<open>Errors\<close>

datatype ratchet_code =
    BROKEN_REFERENCE | CONTENT_IDENTITY_MISMATCH | DOCUMENT_IDENTITY_MISMATCH
  | DUPLICATE_IDENTITY | ILLEGAL_WEAKENING | INCOMPLETE_COVERAGE | NON_CANONICAL_ORDER
  | SUMMARY_MISMATCH | WRONG_TARGET_KIND

text \<open>
  What a function may raise: a validation error with its code, message and location, \<^verbatim>\<open>KeyError\<close>
  of a dictionary access, pydantic's error for a model out of its bounds, and what the validation
  of the onboarding bundle raises inside \<^verbatim>\<open>derive_subject_snapshots\<close>.
\<close>

datatype ratchet_error =
  Rejected ratchet_code string string | MissingKey string | OutOfBounds string | BadBundle string

section \<open>Documents\<close>

datatype coverage_status = Complete | Partial

record rule_ref =
  rl_id :: string
  rl_version :: string

record ratchet_rule =
  ru_id :: string
  ru_version :: string
  ru_procedure_uri :: string
  ru_producer :: pyval
  ru_summary :: string

record ratchet_policy =
  po_id :: string
  po_evaluator :: pyval
  po_rules :: "ratchet_rule list"

record document_ref =
  dc_target :: string
  dc_digest :: string

record subject_key =
  sk_uri :: string
  sk_kind :: string
  sk_id :: string

record subject_snapshot =
  ss_id :: string
  ss_key :: subject_key
  ss_semantic :: string
  ss_observed :: string
  ss_trace :: pyval

record violation_key =
  vk_rule :: rule_ref
  vk_subject :: string
  vk_slot :: string

record violation =
  vi_id :: string
  vi_key :: violation_key
  vi_message :: string

record violation_input =
  vn_rule :: string
  vn_subject :: subject_key
  vn_slot :: string
  vn_message :: string

record rule_coverage =
  cv_rule :: rule_ref
  cv_status :: coverage_status
  cv_subjects :: "string list"

record assessment =
  as_id :: string
  as_policy :: document_ref
  as_source :: string
  as_producer :: pyval
  as_procedure_uri :: string
  as_capture_context :: pyval
  as_subject_coverage :: coverage_status
  as_subjects :: "subject_snapshot list"
  as_coverage :: "rule_coverage list"
  as_violations :: "violation list"

record baseline_reference =
  br_target :: string
  br_digest :: string
  br_generation :: nat

record baseline =
  bl_id :: string
  bl_generation :: nat
  bl_policy :: document_ref
  bl_source_assessment :: document_ref
  bl_source_evaluation :: "document_ref option"
  bl_predecessor :: "baseline_reference option"
  bl_subjects :: "subject_snapshot list"
  bl_allowances :: "violation_key list"
  bl_protected :: "violation_key list"

datatype subject_change_kind =
    SubjUnchanged | SemanticChanged | ObservedChanged | SemanticAndObservedChanged
  | NewSubject | RemovedSubject | UnknownSubject

record subject_change =
  ch_subject :: string
  ch_change :: subject_change_kind

datatype classification_kind =
  UnchangedLegacy | NewRegression | TouchedLegacy | Reintroduced | Resolved | UnknownViolation

record classification =
  cl_kind :: classification_kind
  cl_key :: violation_key

datatype weakening_status = DeltaNone | DeltaTightening | DeltaReviewRequired

record weakening_delta =
  wd_status :: weakening_status
  wd_added_allowances :: "violation_key list"
  wd_removed_allowances :: "violation_key list"
  wd_removed_protections :: "violation_key list"

datatype evaluation_outcome = Pass | Fail | Inconclusive

record evaluation_report =
  er_id :: string
  er_policy :: document_ref
  er_baseline :: baseline_reference
  er_assessment :: document_ref
  er_subject_changes :: "subject_change list"
  er_classifications :: "classification list"
  er_outcome :: evaluation_outcome
  er_weakening_delta :: weakening_delta

record bundle_view =
  bv_digest :: string
  bv_coverage :: coverage_status
  bv_projection :: "(ratchet_error, subject_snapshot list) res"

text \<open>\<^verbatim>\<open>RatchetBaseline.validate_generation\<close>\<close>

definition generation_ok :: "baseline \<Rightarrow> bool" where
  "generation_ok b \<longleftrightarrow>
     (if bl_generation b = 0 then bl_predecessor b = None \<and> bl_source_evaluation b = None
      else
        (case bl_predecessor b of
           None \<Rightarrow> False
         | Some p \<Rightarrow> bl_source_evaluation b \<noteq> None \<and> int (br_generation p) = int (bl_generation b) - 1))"

section \<open>Identifiers and references\<close>

record digests =
  dg_violation :: "violation_key \<Rightarrow> string"
  dg_subject :: "subject_key \<Rightarrow> string"
  dg_policy :: "ratchet_policy \<Rightarrow> string"
  dg_assessment :: "assessment \<Rightarrow> string"
  dg_baseline :: "baseline \<Rightarrow> string"
  dg_report :: "evaluation_report \<Rightarrow> string"

definition derive_violation_id :: "digests \<Rightarrow> violation_key \<Rightarrow> string" where
  "derive_violation_id D k = ''violation.'' @ dg_violation D k"

definition derive_behavior_subject_id :: "digests \<Rightarrow> subject_key \<Rightarrow> string" where
  "derive_behavior_subject_id D k = ''subject.'' @ dg_subject D k"

text \<open>The projection without the identifier is the document with an empty one.\<close>

definition derive_policy_id :: "digests \<Rightarrow> ratchet_policy \<Rightarrow> string" where
  "derive_policy_id D p = ''policy.'' @ dg_policy D (p\<lparr>po_id := []\<rparr>)"

definition derive_assessment_id :: "digests \<Rightarrow> assessment \<Rightarrow> string" where
  "derive_assessment_id D a = ''assessment.'' @ dg_assessment D (a\<lparr>as_id := []\<rparr>)"

definition derive_baseline_id :: "digests \<Rightarrow> baseline \<Rightarrow> string" where
  "derive_baseline_id D b = ''baseline.'' @ dg_baseline D (b\<lparr>bl_id := []\<rparr>)"

definition derive_evaluation_id :: "digests \<Rightarrow> evaluation_report \<Rightarrow> string" where
  "derive_evaluation_id D r = ''evaluation.'' @ dg_report D (r\<lparr>er_id := []\<rparr>)"

definition policy_ref :: "digests \<Rightarrow> ratchet_policy \<Rightarrow> document_ref" where
  "policy_ref D p = \<lparr>dc_target = po_id p, dc_digest = dg_policy D p\<rparr>"

definition assessment_ref :: "digests \<Rightarrow> assessment \<Rightarrow> document_ref" where
  "assessment_ref D a = \<lparr>dc_target = as_id a, dc_digest = dg_assessment D a\<rparr>"

definition baseline_ref :: "digests \<Rightarrow> baseline \<Rightarrow> baseline_reference" where
  "baseline_ref D b =
     \<lparr>br_target = bl_id b, br_digest = dg_baseline D b, br_generation = bl_generation b\<rparr>"

definition evaluation_ref :: "digests \<Rightarrow> evaluation_report \<Rightarrow> document_ref" where
  "evaluation_ref D r = \<lparr>dc_target = er_id r, dc_digest = dg_report D r\<rparr>"

section \<open>Sequences of checks\<close>

text \<open>A check raises when its condition fails; the first failing check of a sequence raises.\<close>

type_synonym check = "(ratchet_error, unit) res"

definition check :: "bool \<Rightarrow> ratchet_code \<Rightarrow> string \<Rightarrow> string \<Rightarrow> check" where
  "check ok code message location = require ok (Rejected code message location)"

definition checks :: "check list \<Rightarrow> check" where
  "checks cs = res_all id cs"

lemma checks_Inr [simp]: "checks cs = Inr u \<longleftrightarrow> (\<forall>c \<in> set cs. c = Inr ())"
  by (simp add: checks_def res_all_Inr)

lemma check_Inr [simp]: "check ok code m l = Inr u \<longleftrightarrow> ok"
  by (simp add: check_def)

definition at_index :: "string \<Rightarrow> nat \<Rightarrow> string \<Rightarrow> string" where
  "at_index pre i post = pre @ ''['' @ show_nat i @ '']'' @ post"

definition require_unique_and_sorted :: "'a::linorder list \<Rightarrow> string \<Rightarrow> string \<Rightarrow> check" where
  "require_unique_and_sorted vs location label =
     checks
       [check (distinct vs) DUPLICATE_IDENTITY (label @ '' must be unique'') location,
        check (vs = sort vs) NON_CANONICAL_ORDER (label @ '' must be in canonical order'') location]"

lemma unique_and_sorted_Inr [simp]:
  "require_unique_and_sorted vs location label = Inr u \<longleftrightarrow> distinct vs \<and> sorted vs"
  using sorted_sort_id [of vs] sorted_sort [of vs]
  by (auto simp: require_unique_and_sorted_def simp del: sorted_sort)

section \<open>Example documents\<close>

text \<open>
  A policy with one rule and a repository with one subject; the digests are short but tell the
  keys apart.
\<close>

definition ex_digests :: digests where
  "ex_digests = \<lparr>dg_violation = vk_slot, dg_subject = sk_id, dg_policy = (\<lambda>_. ''0''),
     dg_assessment = (\<lambda>_. ''0''), dg_baseline = (\<lambda>_. ''0''), dg_report = (\<lambda>_. ''0'')\<rparr>"

definition ex_rule :: rule_ref where
  "ex_rule = \<lparr>rl_id = ''r'', rl_version = ''1''\<rparr>"

definition ex_policy :: ratchet_policy where
  "ex_policy = \<lparr>po_id = ''policy.0'', po_evaluator = VNone,
     po_rules = [\<lparr>ru_id = ''r'', ru_version = ''1'', ru_procedure_uri = ''u'', ru_producer = VNone, ru_summary = ''s''\<rparr>]\<rparr>"

definition ex_subject :: subject_snapshot where
  "ex_subject = \<lparr>ss_id = ''subject.q'', ss_key = \<lparr>sk_uri = ''u'', sk_kind = ''action'', sk_id = ''q''\<rparr>,
     ss_semantic = ''x'', ss_observed = ''y'', ss_trace = VNone\<rparr>"

definition ex_bundle :: bundle_view where
  "ex_bundle = \<lparr>bv_digest = ''b'', bv_coverage = Complete, bv_projection = Inr [ex_subject]\<rparr>"

end
