(* ===== verification/Ratchet_Validation.thy ===== *)
theory Ratchet_Validation
  imports Ratchet_Model
begin

text \<open>
  The structural checks of \<^verbatim>\<open>src/ucf/ratchet/validation.py\<close>, each as the sequence of its checks, and
  what a document that passes them satisfies. The validations that recompute a document (of an
  evaluation report and of a baseline) are in the theories of the evaluation and the baseline.
\<close>

section \<open>Policies\<close>

definition validate_ratchet_policy :: "digests \<Rightarrow> ratchet_policy \<Rightarrow> check" where
  "validate_ratchet_policy D p =
     (let rule_ids = map ru_id (po_rules p) in
      checks
        [check (distinct rule_ids) DUPLICATE_IDENTITY ''ratchet rule IDs must be unique'' ''$.rules'',
         check (rule_ids = sort rule_ids) NON_CANONICAL_ORDER ''ratchet rules must be sorted by ID'' ''$.rules'',
         check (po_id p = derive_policy_id D p) CONTENT_IDENTITY_MISMATCH
           ''ratchet policy ID is not derived from its exact content'' ''$.id''])"

definition rule_ref_of :: "ratchet_rule \<Rightarrow> rule_ref" where
  "rule_ref_of r = \<lparr>rl_id = ru_id r, rl_version = ru_version r\<rparr>"

lemma validate_policy_Inr [simp]:
  "validate_ratchet_policy D p = Inr u \<longleftrightarrow>
     distinct (map ru_id (po_rules p)) \<and> sorted (map ru_id (po_rules p)) \<and> po_id p = derive_policy_id D p"
  using sorted_sort [of "map ru_id (po_rules p)"] sorted_sort_id [of "map ru_id (po_rules p)"]
  by (auto simp: validate_ratchet_policy_def Let_def simp del: sorted_sort)

section \<open>Subjects\<close>

definition subject_order :: "subject_snapshot \<Rightarrow> string \<times> string \<times> string" where
  "subject_order s = (sk_uri (ss_key s), sk_kind (ss_key s), sk_id (ss_key s))"

definition validate_subjects :: "digests \<Rightarrow> subject_snapshot list \<Rightarrow> string \<Rightarrow> check" where
  "validate_subjects D subjects location =
     checks
       ([require_unique_and_sorted (map subject_order subjects) location ''assessment subjects'',
         check (distinct (map ss_id subjects)) DUPLICATE_IDENTITY
           ''assessment subject IDs must be unique'' location] @
        map (\<lambda>(index, s).
            check (ss_id s = derive_behavior_subject_id D (ss_key s)) CONTENT_IDENTITY_MISMATCH
              ''behavior subject ID is not derived from its stable key'' (at_index location index ''.id''))
          (enumerate 0 subjects))"

lemma enumerate_all [simp]: "(\<forall>(i, x) \<in> set (enumerate n xs). P x) \<longleftrightarrow> (\<forall>x \<in> set xs. P x)"
  by (induction xs arbitrary: n) auto

lemma checks_enumerate:
  "(\<forall>c \<in> set (map (\<lambda>(i, x). check (P x) code m (at_index pre i post)) (enumerate n xs)). c = Inr ()) \<longleftrightarrow>
     (\<forall>x \<in> set xs. P x)"
  by (induction xs arbitrary: n) auto

definition subjects_ok :: "digests \<Rightarrow> subject_snapshot list \<Rightarrow> bool" where
  "subjects_ok D ss \<longleftrightarrow> distinct (map subject_order ss) \<and> sorted (map subject_order ss) \<and>
     distinct (map ss_id ss) \<and> (\<forall>s \<in> set ss. ss_id s = derive_behavior_subject_id D (ss_key s))"

lemma validate_subjects_Inr [simp]: "validate_subjects D ss l = Inr u \<longleftrightarrow> subjects_ok D ss"
  unfolding validate_subjects_def subjects_ok_def checks_Inr set_append ball_Un checks_enumerate
  by simp

section \<open>Assessments\<close>

text \<open>\<^verbatim>\<open>_validate_assessment_internal_references\<close>\<close>

definition coverage_checks :: "assessment \<Rightarrow> nat \<times> rule_coverage \<Rightarrow> check" where
  "coverage_checks a = (\<lambda>(index, coverage).
     let subjects = map ss_id (as_subjects a);
         location = at_index ''$.coverage'' index ''.subjects''
     in checks
       [require_unique_and_sorted (cv_subjects coverage) location ''coverage subjects'',
        check (set (cv_subjects coverage) \<subseteq> set subjects) BROKEN_REFERENCE
          ''coverage names an unknown behavior subject'' location,
        check (\<not> (cv_status coverage = Complete \<and> cv_subjects coverage \<noteq> sorted_set subjects))
          INCOMPLETE_COVERAGE ''complete rule coverage must name every current subject'' location])"

definition violation_checks :: "assessment \<Rightarrow> nat \<times> violation \<Rightarrow> check" where
  "violation_checks a = (\<lambda>(index, v).
     checks
       [check (vk_rule (vi_key v) \<in> set (map cv_rule (as_coverage a))) BROKEN_REFERENCE
          ''violation names a rule absent from assessment coverage''
          (at_index ''$.violations'' index ''.key.rule''),
        check (vk_subject (vi_key v) \<in> set (map ss_id (as_subjects a))) BROKEN_REFERENCE
          ''violation names an unknown behavior subject''
          (at_index ''$.violations'' index ''.key.subject'')])"

definition validate_assessment_internal_references :: "assessment \<Rightarrow> check" where
  "validate_assessment_internal_references a =
     checks (map (coverage_checks a) (enumerate 0 (as_coverage a)) @
       map (violation_checks a) (enumerate 0 (as_violations a)))"

definition rule_order :: "rule_ref \<Rightarrow> string \<times> string" where
  "rule_order r = (rl_id r, rl_version r)"

definition validate_ratchet_assessment_structure :: "digests \<Rightarrow> assessment \<Rightarrow> check" where
  "validate_ratchet_assessment_structure D a =
     checks
       ([validate_subjects D (as_subjects a) ''$.subjects'',
         require_unique_and_sorted (map (rule_order \<circ> cv_rule) (as_coverage a)) ''$.coverage'' ''rule coverage'',
         require_unique_and_sorted (map vi_id (as_violations a)) ''$.violations'' ''violations''] @
        map (\<lambda>(index, v).
            check (vi_id v = derive_violation_id D (vi_key v)) CONTENT_IDENTITY_MISMATCH
              ''violation ID is not derived from its stable key'' (at_index ''$.violations'' index ''.id''))
          (enumerate 0 (as_violations a)) @
        [validate_assessment_internal_references a,
         check (as_id a = derive_assessment_id D a) CONTENT_IDENTITY_MISMATCH
           ''assessment ID is not derived from its exact content'' ''$.id''])"

text \<open>\<^verbatim>\<open>_validate_assessment_references\<close>; the rules of the policy are a set of pairs.\<close>

definition validate_assessment_references :: "ratchet_policy \<Rightarrow> assessment \<Rightarrow> check" where
  "validate_assessment_references p a =
     (let rules = map rule_ref_of (po_rules p) in
      checks
        ([check (length (as_coverage a) = set_size rules) BROKEN_REFERENCE
            ''assessment must contain one coverage record per policy rule'' ''$.coverage''] @
         map (\<lambda>(index, c). check (cv_rule c \<in> set rules) BROKEN_REFERENCE
             ''coverage names an unknown policy rule'' (at_index ''$.coverage'' index ''.rule''))
           (enumerate 0 (as_coverage a)) @
         map (\<lambda>(index, v). check (vk_rule (vi_key v) \<in> set rules) BROKEN_REFERENCE
             ''violation names an unknown policy rule'' (at_index ''$.violations'' index ''.key.rule''))
           (enumerate 0 (as_violations a))))"

definition validate_ratchet_assessment ::
  "digests \<Rightarrow> ratchet_policy \<Rightarrow> bundle_view \<Rightarrow> assessment \<Rightarrow> check" where
  "validate_ratchet_assessment D p bundle a =
     res_bind (checks
       [validate_ratchet_policy D p,
        validate_ratchet_assessment_structure D a,
        check (as_policy a = policy_ref D p) DOCUMENT_IDENTITY_MISMATCH
          ''assessment policy reference differs from the exact policy'' ''$.policy'',
        check (as_source a = bv_digest bundle) DOCUMENT_IDENTITY_MISMATCH
          ''assessment source differs from the exact onboarding bundle'' ''$.source'',
        check (as_subject_coverage a = bv_coverage bundle) SUMMARY_MISMATCH
          ''assessment subject coverage differs from discovery coverage'' ''$.subject_coverage'']) (\<lambda>_.
     res_bind (bv_projection bundle) (\<lambda>expected_subjects.
     checks
       [check (as_subjects a = expected_subjects) DOCUMENT_IDENTITY_MISMATCH
          ''assessment subjects differ from their exact bundle projection'' ''$.subjects'',
        validate_assessment_references p a]))"

text \<open>What a valid assessment satisfies.\<close>

definition coverage_ok :: "string list \<Rightarrow> rule_coverage \<Rightarrow> bool" where
  "coverage_ok subjects c \<longleftrightarrow> distinct (cv_subjects c) \<and> sorted (cv_subjects c) \<and>
     set (cv_subjects c) \<subseteq> set subjects \<and>
     (cv_status c = Complete \<longrightarrow> cv_subjects c = sorted_set subjects)"

definition assessment_ok :: "digests \<Rightarrow> assessment \<Rightarrow> bool" where
  "assessment_ok D a \<longleftrightarrow>
     subjects_ok D (as_subjects a) \<and>
     distinct (map (rule_order \<circ> cv_rule) (as_coverage a)) \<and>
     sorted (map (rule_order \<circ> cv_rule) (as_coverage a)) \<and>
     distinct (map vi_id (as_violations a)) \<and> sorted (map vi_id (as_violations a)) \<and>
     (\<forall>v \<in> set (as_violations a). vi_id v = derive_violation_id D (vi_key v)) \<and>
     (\<forall>c \<in> set (as_coverage a). coverage_ok (map ss_id (as_subjects a)) c) \<and>
     (\<forall>v \<in> set (as_violations a). vk_rule (vi_key v) \<in> cv_rule ` set (as_coverage a) \<and>
        vk_subject (vi_key v) \<in> ss_id ` set (as_subjects a)) \<and>
     as_id a = derive_assessment_id D a"

lemma enumerate_ball: "(\<forall>p \<in> set (enumerate n xs). P (snd p)) \<longleftrightarrow> (\<forall>x \<in> set xs. P x)"
  by (induction xs arbitrary: n) auto

lemma coverage_checks_Inr: "coverage_checks a p = Inr u \<longleftrightarrow> coverage_ok (map ss_id (as_subjects a)) (snd p)"
  by (cases p) (auto simp: coverage_checks_def coverage_ok_def Let_def)

lemma violation_checks_Inr: "violation_checks a p = Inr u \<longleftrightarrow>
    vk_rule (vi_key (snd p)) \<in> cv_rule ` set (as_coverage a) \<and>
    vk_subject (vi_key (snd p)) \<in> ss_id ` set (as_subjects a)"
  by (cases p) (simp add: violation_checks_def)

lemma internal_references_Inr:
  "validate_assessment_internal_references a = Inr u \<longleftrightarrow>
     (\<forall>c \<in> set (as_coverage a). coverage_ok (map ss_id (as_subjects a)) c) \<and>
     (\<forall>v \<in> set (as_violations a). vk_rule (vi_key v) \<in> cv_rule ` set (as_coverage a) \<and>
        vk_subject (vi_key v) \<in> ss_id ` set (as_subjects a))"
proof -
  have "(\<forall>p \<in> set (enumerate 0 (as_coverage a)). coverage_checks a p = Inr ()) \<longleftrightarrow>
      (\<forall>c \<in> set (as_coverage a). coverage_ok (map ss_id (as_subjects a)) c)"
    unfolding coverage_checks_Inr by (rule enumerate_ball)
  moreover have "(\<forall>p \<in> set (enumerate 0 (as_violations a)). violation_checks a p = Inr ()) \<longleftrightarrow>
      (\<forall>v \<in> set (as_violations a). vk_rule (vi_key v) \<in> cv_rule ` set (as_coverage a) \<and>
        vk_subject (vi_key v) \<in> ss_id ` set (as_subjects a))"
    unfolding violation_checks_Inr by (rule enumerate_ball)
  ultimately show ?thesis
    unfolding validate_assessment_internal_references_def checks_Inr set_append ball_Un set_map
      ball_simps by blast
qed

lemma assessment_structure_Inr:
  "validate_ratchet_assessment_structure D a = Inr u \<longleftrightarrow> assessment_ok D a"
  unfolding validate_ratchet_assessment_structure_def assessment_ok_def checks_Inr set_append
    ball_Un checks_enumerate
  by (auto simp: internal_references_Inr)

lemma assessment_references_Inr:
  "validate_assessment_references p a = Inr u \<longleftrightarrow>
     length (as_coverage a) = card (rule_ref_of ` set (po_rules p)) \<and>
     cv_rule ` set (as_coverage a) \<subseteq> rule_ref_of ` set (po_rules p) \<and>
     (\<forall>v \<in> set (as_violations a). vk_rule (vi_key v) \<in> rule_ref_of ` set (po_rules p))"
  unfolding validate_assessment_references_def Let_def checks_Inr set_append ball_Un checks_enumerate
  by (auto simp: set_size_card)

definition assessed :: "digests \<Rightarrow> ratchet_policy \<Rightarrow> bundle_view \<Rightarrow> assessment \<Rightarrow> bool" where
  "assessed D p bundle a \<longleftrightarrow>
     distinct (map ru_id (po_rules p)) \<and> sorted (map ru_id (po_rules p)) \<and>
     po_id p = derive_policy_id D p \<and> assessment_ok D a \<and> as_policy a = policy_ref D p \<and>
     as_source a = bv_digest bundle \<and> as_subject_coverage a = bv_coverage bundle \<and>
     bv_projection bundle = Inr (as_subjects a) \<and>
     cv_rule ` set (as_coverage a) = rule_ref_of ` set (po_rules p)"

lemma inj_rule_order: "inj_on rule_order S"
  by (rule inj_onI) (simp add: rule_order_def prod_eq_iff rule_ref.equality)

lemma coverage_rules_distinct:
  "distinct (map (rule_order \<circ> cv_rule) cs) \<longleftrightarrow> distinct (map cv_rule cs)"
  by (simp add: distinct_map comp_inj_on_iff [symmetric] inj_rule_order flip: map_map)

text \<open>One coverage record per rule, all of different rules: every rule of the policy has one.\<close>

lemma validate_assessment_Inr: "validate_ratchet_assessment D p bundle a = Inr u \<longleftrightarrow> assessed D p bundle a"
proof -
  let ?R = "rule_ref_of ` set (po_rules p)" and ?C = "cv_rule ` set (as_coverage a)"
  have all_rules: "length (as_coverage a) = card ?R \<and> ?C \<subseteq> ?R \<longleftrightarrow> ?C = ?R" if "assessment_ok D a"
  proof -
    have "distinct (map cv_rule (as_coverage a))"
      using that by (simp only: assessment_ok_def coverage_rules_distinct)
    then have "card ?C = length (as_coverage a)"
      by (metis distinct_card length_map set_map)
    then show ?thesis using card_subset_eq [of ?R ?C] by auto
  qed
  have rules_known: "(\<forall>v \<in> set (as_violations a). vk_rule (vi_key v) \<in> ?R)"
    if "assessment_ok D a" "?C \<subseteq> ?R"
    using that by (auto simp: assessment_ok_def)
  show ?thesis
    unfolding validate_ratchet_assessment_def assessed_def
    by (auto simp: res_bind_Inr assessment_structure_Inr assessment_references_Inr
        dest: all_rules [THEN iffD1, rotated] rules_known [rotated])
      (use all_rules rules_known in auto)
qed

section \<open>Baselines\<close>

definition validate_ratchet_baseline_structure :: "digests \<Rightarrow> baseline \<Rightarrow> check" where
  "validate_ratchet_baseline_structure D b =
     (let allowance_ids = map (derive_violation_id D) (bl_allowances b);
          protected_ids = map (derive_violation_id D) (bl_protected b)
      in checks
        [validate_subjects D (bl_subjects b) ''$.subjects'',
         require_unique_and_sorted allowance_ids ''$.allowances'' ''baseline allowances'',
         require_unique_and_sorted protected_ids ''$.protected'' ''protected resolutions'',
         check (set allowance_ids \<inter> set protected_ids = {}) DUPLICATE_IDENTITY
           ''allowances and protected resolutions must be disjoint'' ''$'',
         check (\<forall>k \<in> set (bl_allowances b). vk_subject k \<in> set (map ss_id (bl_subjects b))) BROKEN_REFERENCE
           ''baseline allowance names an unknown current subject'' ''$.allowances'',
         check (bl_id b = derive_baseline_id D b) CONTENT_IDENTITY_MISMATCH
           ''baseline ID is not derived from its exact content'' ''$.id''])"

definition baseline_ok :: "digests \<Rightarrow> baseline \<Rightarrow> bool" where
  "baseline_ok D b \<longleftrightarrow> subjects_ok D (bl_subjects b) \<and>
     distinct (map (derive_violation_id D) (bl_allowances b)) \<and>
     sorted (map (derive_violation_id D) (bl_allowances b)) \<and>
     distinct (map (derive_violation_id D) (bl_protected b)) \<and>
     sorted (map (derive_violation_id D) (bl_protected b)) \<and>
     derive_violation_id D ` set (bl_allowances b) \<inter> derive_violation_id D ` set (bl_protected b) = {} \<and>
     (\<forall>k \<in> set (bl_allowances b). vk_subject k \<in> ss_id ` set (bl_subjects b)) \<and>
     bl_id b = derive_baseline_id D b"

lemma baseline_structure_Inr [simp]:
  "validate_ratchet_baseline_structure D b = Inr u \<longleftrightarrow> baseline_ok D b"
  by (simp add: validate_ratchet_baseline_structure_def baseline_ok_def Let_def conj_assoc)

end
