(* ===== verification/Ratchet_Assessment.thy ===== *)
theory Ratchet_Assessment
  imports Ratchet_Validation
begin

text \<open>
  Building an assessment from the violations a tool reports, \<^verbatim>\<open>src/ucf/ratchet/assessment.py\<close>. The
  producer, the procedure URI and the capture context are passed through. Of the bounds of the
  assessment model, those on the numbers of subjects and of violations can be broken here.
\<close>

section \<open>The builder\<close>

definition violation_of ::
  "digests \<Rightarrow> (string, ratchet_rule) dict \<Rightarrow> (subject_key, subject_snapshot) dict \<Rightarrow> violation_input \<Rightarrow>
   (ratchet_error, violation) res" where
  "violation_of D rules subject_by_key item =
     (case map_of rules (vn_rule item) of
        None \<Rightarrow> Inl (Rejected BROKEN_REFERENCE ''violation names an unknown policy rule'' ''$.violations'')
      | Some rule \<Rightarrow>
          (case map_of subject_by_key (vn_subject item) of
             None \<Rightarrow> Inl (Rejected BROKEN_REFERENCE ''violation names an unknown behavior subject'' ''$.violations'')
           | Some subject \<Rightarrow>
               (let key = \<lparr>vk_rule = rule_ref_of rule, vk_subject = ss_id subject, vk_slot = vn_slot item\<rparr>
                in Inr \<lparr>vi_id = derive_violation_id D key, vi_key = key, vi_message = vn_message item\<rparr>)))"

definition build_ratchet_assessment ::
  "digests \<Rightarrow> ratchet_policy \<Rightarrow> bundle_view \<Rightarrow> pyval \<Rightarrow> string \<Rightarrow> pyval \<Rightarrow> violation_input list \<Rightarrow> string list \<Rightarrow>
   (ratchet_error, assessment) res" where
  "build_ratchet_assessment D p bundle producer procedure_uri capture_context violations partial_rule_ids =
     res_bind (checks
       [validate_ratchet_policy D p,
        check (set partial_rule_ids \<subseteq> set (map ru_id (po_rules p))) BROKEN_REFERENCE
          ''partial coverage names an unknown policy rule'' ''$.coverage'']) (\<lambda>_.
     res_bind (bv_projection bundle) (\<lambda>subjects.
     let subject_by_key = dict_of (map (\<lambda>s. (ss_key s, s)) subjects);
         rules = dict_of (map (\<lambda>r. (ru_id r, r)) (po_rules p));
         subject_refs = sort (map ss_id subjects);
         coverage = map (\<lambda>r. \<lparr>cv_rule = rule_ref_of r,
             cv_status = (if ru_id r \<in> set partial_rule_ids then Partial else Complete),
             cv_subjects = subject_refs\<rparr>) (po_rules p)
     in
     res_bind (res_map (violation_of D rules subject_by_key) violations) (\<lambda>violation_records.
     res_bind (require (length subjects \<le> max_ratchet_subjects \<and> length violation_records \<le> max_ratchet_violations)
       (OutOfBounds ''RatchetAssessment'')) (\<lambda>_.
     let provisional =
           \<lparr>as_id = ''assessment.'' @ replicate 64 CHR ''0'', as_policy = policy_ref D p,
            as_source = bv_digest bundle, as_producer = producer, as_procedure_uri = procedure_uri,
            as_capture_context = capture_context, as_subject_coverage = bv_coverage bundle,
            as_subjects = subjects, as_coverage = coverage,
            as_violations = sort_key vi_id violation_records\<rparr>;
         assessment = provisional\<lparr>as_id := derive_assessment_id D provisional\<rparr>
     in
     res_bind (validate_ratchet_assessment D p bundle assessment) (\<lambda>_. Inr assessment)))))"

section \<open>What it builds\<close>

text \<open>The key of a reported violation: the rule is found by its identifier alone.\<close>

definition rule_named :: "ratchet_policy \<Rightarrow> string \<Rightarrow> rule_ref" where
  "rule_named p i = \<lparr>rl_id = i, rl_version = (case find (\<lambda>r. ru_id r = i) (po_rules p) of Some r \<Rightarrow> ru_version r | None \<Rightarrow> [])\<rparr>"

definition input_key :: "digests \<Rightarrow> ratchet_policy \<Rightarrow> violation_input \<Rightarrow> violation_key" where
  "input_key D p v =
     \<lparr>vk_rule = rule_named p (vn_rule v), vk_subject = derive_behavior_subject_id D (vn_subject v), vk_slot = vn_slot v\<rparr>"

definition input_violation :: "digests \<Rightarrow> ratchet_policy \<Rightarrow> violation_input \<Rightarrow> violation" where
  "input_violation D p v =
     \<lparr>vi_id = derive_violation_id D (input_key D p v), vi_key = input_key D p v, vi_message = vn_message v\<rparr>"

text \<open>What the builder needs of its arguments.\<close>

definition buildable ::
  "digests \<Rightarrow> ratchet_policy \<Rightarrow> bundle_view \<Rightarrow> violation_input list \<Rightarrow> string list \<Rightarrow> subject_snapshot list \<Rightarrow> bool" where
  "buildable D p bundle violations partials subjects \<longleftrightarrow>
     validate_ratchet_policy D p = Inr () \<and> set partials \<subseteq> ru_id ` set (po_rules p) \<and>
     bv_projection bundle = Inr subjects \<and> subjects_ok D subjects \<and>
     (\<forall>v \<in> set violations. vn_rule v \<in> ru_id ` set (po_rules p) \<and> vn_subject v \<in> ss_key ` set subjects) \<and>
     distinct (map (derive_violation_id D \<circ> input_key D p) violations) \<and>
     length subjects \<le> max_ratchet_subjects \<and> length violations \<le> max_ratchet_violations"

lemma policy_rule_lookup:
  assumes "distinct (map ru_id (po_rules p))"
  shows "map_of (dict_of (map (\<lambda>r. (ru_id r, r)) (po_rules p))) i = find (\<lambda>r. ru_id r = i) (po_rules p)"
proof -
  have "map_of (map (\<lambda>r. (ru_id r, r)) rs) i = find (\<lambda>r. ru_id r = i) rs" for rs
    by (induction rs) auto
  then show ?thesis using assms by (simp add: dict_of_distinct comp_def)
qed

lemma find_rule_Some: "find (\<lambda>r. ru_id r = i) (po_rules p) = Some r \<Longrightarrow> r \<in> set (po_rules p) \<and> rule_ref_of r = rule_named p i"
  using find_Some_iff [of "\<lambda>r. ru_id r = i" "po_rules p" r] by (auto simp: rule_ref_of_def rule_named_def)

lemma find_rule_known: "find (\<lambda>r. ru_id r = i) (po_rules p) = None \<longleftrightarrow> i \<notin> ru_id ` set (po_rules p)"
  by (auto simp: find_None_iff)

lemma subject_key_lookup:
  assumes "subjects_ok D ss"
  shows "map_of (dict_of (map (\<lambda>s. (ss_key s, s)) ss)) k = Some s \<longleftrightarrow> s \<in> set ss \<and> ss_key s = k"
proof -
  have "inj_on subject_order (set ss)" using assms by (simp add: subjects_ok_def distinct_map)
  then have "inj_on ss_key (set ss)" by (auto simp: inj_on_def subject_order_def)
  from dict_of_inj [OF this, of "\<lambda>s. s"] show ?thesis by auto
qed

lemma violation_of_Inr:
  assumes policy: "distinct (map ru_id (po_rules p))" and subjects: "subjects_ok D ss"
  shows "violation_of D (dict_of (map (\<lambda>r. (ru_id r, r)) (po_rules p))) (dict_of (map (\<lambda>s. (ss_key s, s)) ss)) v = Inr w \<longleftrightarrow>
    vn_rule v \<in> ru_id ` set (po_rules p) \<and> vn_subject v \<in> ss_key ` set ss \<and> w = input_violation D p v"
proof -
  have id: "ss_id s = derive_behavior_subject_id D (ss_key s)" if "s \<in> set ss" for s
    using subjects that by (simp add: subjects_ok_def)
  show ?thesis
  proof (cases "find (\<lambda>r. ru_id r = vn_rule v) (po_rules p)")
    case None
    then show ?thesis by (simp add: violation_of_def policy_rule_lookup [OF policy] find_rule_known [symmetric])
  next
    case (Some r)
    then have rule: "vn_rule v \<in> ru_id ` set (po_rules p)" "rule_ref_of r = rule_named p (vn_rule v)"
      using find_rule_Some [OF Some] find_rule_known [of "vn_rule v" p] by auto
    show ?thesis
    proof (cases "map_of (dict_of (map (\<lambda>s. (ss_key s, s)) ss)) (vn_subject v)")
      case None
      then have "vn_subject v \<notin> ss_key ` set ss"
        using subject_key_lookup [OF subjects] by force
      with None Some show ?thesis by (simp add: violation_of_def policy_rule_lookup [OF policy])
    next
      case (Some s)
      note s = subject_key_lookup [OF subjects, THEN iffD1, OF Some]
      then have "vn_subject v \<in> ss_key ` set ss" "ss_id s = derive_behavior_subject_id D (vn_subject v)"
        using id [of s] by (metis imageI, metis)
      with \<open>find _ _ = Some r\<close> Some rule show ?thesis
        by (auto simp: violation_of_def policy_rule_lookup [OF policy] Let_def input_violation_def input_key_def)
    qed
  qed
qed

lemma violations_of_Inr:
  assumes policy: "distinct (map ru_id (po_rules p))" and subjects: "subjects_ok D ss"
  shows "res_map (violation_of D (dict_of (map (\<lambda>r. (ru_id r, r)) (po_rules p))) (dict_of (map (\<lambda>s. (ss_key s, s)) ss))) vs = Inr ws \<longleftrightarrow>
    (\<forall>v \<in> set vs. vn_rule v \<in> ru_id ` set (po_rules p) \<and> vn_subject v \<in> ss_key ` set ss) \<and>
    ws = map (input_violation D p) vs"
  unfolding res_map_Inr violation_of_Inr [OF assms]
  by (induction vs arbitrary: ws) (auto simp: list_all2_Cons1)

lemma rules_sorted:
  assumes "distinct (map ru_id rs)" "sorted (map ru_id rs)"
  shows "distinct (map (\<lambda>r. (ru_id r, ru_version r)) rs) \<and> sorted (map (\<lambda>r. (ru_id r, ru_version r)) rs)"
  using assms by (induction rs) (auto simp: order.order_iff_strict)

definition built ::
  "digests \<Rightarrow> ratchet_policy \<Rightarrow> bundle_view \<Rightarrow> pyval \<Rightarrow> string \<Rightarrow> pyval \<Rightarrow> violation_input list \<Rightarrow> string list \<Rightarrow>
   subject_snapshot list \<Rightarrow> assessment" where
  "built D p bundle producer procedure_uri capture_context violations partials subjects =
     (let provisional =
           \<lparr>as_id = ''assessment.'' @ replicate 64 CHR ''0'', as_policy = policy_ref D p,
            as_source = bv_digest bundle, as_producer = producer, as_procedure_uri = procedure_uri,
            as_capture_context = capture_context, as_subject_coverage = bv_coverage bundle,
            as_subjects = subjects,
            as_coverage = map (\<lambda>r. \<lparr>cv_rule = rule_ref_of r,
               cv_status = (if ru_id r \<in> set partials then Partial else Complete),
               cv_subjects = sort (map ss_id subjects)\<rparr>) (po_rules p),
            as_violations = sort_key vi_id (map (input_violation D p) violations)\<rparr>
      in provisional\<lparr>as_id := derive_assessment_id D provisional\<rparr>)"

lemma built_simps [simp]:
  "as_id (built D p bundle pr u cc vs partials ss) = derive_assessment_id D (built D p bundle pr u cc vs partials ss)"
  "as_policy (built D p bundle pr u cc vs partials ss) = policy_ref D p"
  "as_source (built D p bundle pr u cc vs partials ss) = bv_digest bundle"
  "as_subject_coverage (built D p bundle pr u cc vs partials ss) = bv_coverage bundle"
  "as_subjects (built D p bundle pr u cc vs partials ss) = ss"
  "as_coverage (built D p bundle pr u cc vs partials ss) = map (\<lambda>r. \<lparr>cv_rule = rule_ref_of r,
     cv_status = (if ru_id r \<in> set partials then Partial else Complete), cv_subjects = sort (map ss_id ss)\<rparr>) (po_rules p)"
  "as_violations (built D p bundle pr u cc vs partials ss) = sort_key vi_id (map (input_violation D p) vs)"
  by (simp_all add: built_def Let_def derive_assessment_id_def)

lemma built_assessed:
  assumes ok: "buildable D p bundle vs partials ss"
  shows "assessed D p bundle (built D p bundle pr u cc vs partials ss)"
proof -
  let ?a = "built D p bundle pr u cc vs partials ss"
  have ids: "distinct (map ru_id (po_rules p))" "sorted (map ru_id (po_rules p))" "po_id p = derive_policy_id D p"
    and subjects: "subjects_ok D ss" and projection: "bv_projection bundle = Inr ss"
    and dist: "distinct (map (\<lambda>v. derive_violation_id D (input_key D p v)) vs)"
    using ok by (simp_all add: buildable_def comp_def)
  have key: "vk_rule (input_key D p v) \<in> rule_ref_of ` set (po_rules p)"
    "vk_subject (input_key D p v) \<in> ss_id ` set ss" if "v \<in> set vs" for v
  proof -
    have v: "vn_rule v \<in> ru_id ` set (po_rules p)" "vn_subject v \<in> ss_key ` set ss"
      using ok that by (simp_all add: buildable_def)
    then obtain r where "find (\<lambda>r. ru_id r = vn_rule v) (po_rules p) = Some r"
      using find_rule_known [of "vn_rule v" p] by auto
    from find_rule_Some [OF this] show "vk_rule (input_key D p v) \<in> rule_ref_of ` set (po_rules p)"
      by (simp add: input_key_def image_iff) metis
    from v(2) subjects show "vk_subject (input_key D p v) \<in> ss_id ` set ss"
      by (auto simp: input_key_def subjects_ok_def)
  qed
  have order: "map (rule_order \<circ> cv_rule) (as_coverage ?a) = map (\<lambda>r. (ru_id r, ru_version r)) (po_rules p)"
    by (simp add: rule_order_def rule_ref_of_def)
  have coverage: "coverage_ok (map ss_id ss) c" if "c \<in> set (as_coverage ?a)" for c
    using that subjects by (auto simp: coverage_ok_def subjects_ok_def sorted_set_def distinct_remdups_id)
  have violations: "distinct (map vi_id (as_violations ?a))"
  proof -
    have "distinct (map vi_id (map (input_violation D p) vs))"
      using dist by (simp add: comp_def input_violation_def)
    then show ?thesis by (simp only: built_simps distinct_map set_sort distinct_sort)
  qed
  have rules: "cv_rule ` set (as_coverage ?a) = rule_ref_of ` set (po_rules p)"
    by (simp add: image_image)
  have "assessment_ok D ?a"
    unfolding assessment_ok_def order
  proof (intro conjI ballI)
    show "subjects_ok D (as_subjects ?a)" using subjects by simp
    show "distinct (map (\<lambda>r. (ru_id r, ru_version r)) (po_rules p))"
      "sorted (map (\<lambda>r. (ru_id r, ru_version r)) (po_rules p))"
      using rules_sorted [OF ids(1,2)] by blast+
    show "distinct (map vi_id (as_violations ?a))" by (rule violations)
    show "sorted (map vi_id (as_violations ?a))" by simp
    show "coverage_ok (map ss_id (as_subjects ?a)) c" if "c \<in> set (as_coverage ?a)" for c
      using coverage [OF that] by simp
    show "as_id ?a = derive_assessment_id D ?a" by simp
  next
    fix v assume "v \<in> set (as_violations ?a)"
    then obtain w where w: "w \<in> set vs" "v = input_violation D p w" by auto
    then show "vi_id v = derive_violation_id D (vi_key v)" by (simp add: input_violation_def)
    show "vk_rule (vi_key v) \<in> cv_rule ` set (as_coverage ?a)"
      unfolding rules using key(1) [OF w(1)] by (simp add: w(2) input_violation_def)
    show "vk_subject (vi_key v) \<in> ss_id ` set (as_subjects ?a)"
      using key(2) [OF w(1)] by (simp add: w(2) input_violation_def)
  qed
  then show ?thesis
    unfolding assessed_def using ids projection rules by simp
qed

lemma build_Inr:
  "build_ratchet_assessment D p bundle pr u cc vs partials = Inr a \<longleftrightarrow>
     (\<exists>ss. buildable D p bundle vs partials ss \<and> a = built D p bundle pr u cc vs partials ss)"
    (is "?build = _ \<longleftrightarrow> ?spec")
proof
  assume "?spec"
  then obtain ss where ok: "buildable D p bundle vs partials ss"
    and a: "a = built D p bundle pr u cc vs partials ss" by blast
  have policy: "distinct (map ru_id (po_rules p))" and subjects: "subjects_ok D ss"
    using ok by (simp_all add: buildable_def)
  have "\<forall>v \<in> set vs. vn_rule v \<in> ru_id ` set (po_rules p) \<and> vn_subject v \<in> ss_key ` set ss"
    using ok by (simp add: buildable_def)
  then have records: "res_map (violation_of D (dict_of (map (\<lambda>r. (ru_id r, r)) (po_rules p)))
      (dict_of (map (\<lambda>s. (ss_key s, s)) ss))) vs = Inr (map (input_violation D p) vs)"
    unfolding violations_of_Inr [OF policy subjects] by blast
  have "validate_ratchet_assessment D p bundle (built D p bundle pr u cc vs partials ss) = Inr ()"
    unfolding validate_assessment_Inr by (rule built_assessed [OF ok])
  then show "?build = Inr a"
    using ok records unfolding build_ratchet_assessment_def buildable_def a
    by (simp add: res_bind_Inr Let_def built_def)
next
  assume build: "?build = Inr a"
  then obtain ss ws where policy: "distinct (map ru_id (po_rules p))" "validate_ratchet_policy D p = Inr ()"
    and partials: "set partials \<subseteq> ru_id ` set (po_rules p)" and projection: "bv_projection bundle = Inr ss"
    and records: "res_map (violation_of D (dict_of (map (\<lambda>r. (ru_id r, r)) (po_rules p)))
      (dict_of (map (\<lambda>s. (ss_key s, s)) ss))) vs = Inr ws"
    and lengths: "length ss \<le> max_ratchet_subjects" "length ws \<le> max_ratchet_violations"
    and valid: "validate_ratchet_assessment D p bundle a = Inr ()"
    and parts: "as_subjects a = ss" "as_violations a = sort_key vi_id ws"
    unfolding build_ratchet_assessment_def by (auto simp: res_bind_Inr Let_def)
  have a: "assessment_ok D a" using valid unfolding validate_assessment_Inr assessed_def by blast
  then have subjects: "subjects_ok D ss" unfolding assessment_ok_def parts by blast
  have known: "\<forall>v \<in> set vs. vn_rule v \<in> ru_id ` set (po_rules p) \<and> vn_subject v \<in> ss_key ` set ss"
    and ws: "ws = map (input_violation D p) vs"
    using records unfolding violations_of_Inr [OF policy(1) subjects] by blast+
  have "distinct (map vi_id (sort_key vi_id ws))" using a unfolding assessment_ok_def parts by blast
  then have "distinct (map vi_id ws)" by (simp add: distinct_map)
  then have "distinct (map (derive_violation_id D \<circ> input_key D p) vs)"
    by (simp add: ws input_violation_def comp_def)
  then have ok: "buildable D p bundle vs partials ss"
    using policy partials projection subjects known lengths ws unfolding buildable_def by simp
  moreover have "a = built D p bundle pr u cc vs partials ss"
    using build records projection unfolding build_ratchet_assessment_def ws
    by (auto simp: res_bind_Inr Let_def built_def)
  ultimately show ?spec by blast
qed

text \<open>
  The builder returns an assessment exactly when the policy is valid, the partial rules and the
  rules and subjects of all reported violations are known, the subjects of the bundle are
  canonical, no two reported violations have the same identity and the bounds are kept. The
  assessment is then valid for the policy and the bundle, shows exactly the reported violations,
  and covers a rule partially exactly when it is named as partial.
\<close>

theorem build_assessment_exact:
  "((\<exists>a. build_ratchet_assessment D p bundle pr u cc vs partials = Inr a) \<longleftrightarrow>
     (\<exists>ss. buildable D p bundle vs partials ss)) \<and>
   (\<forall>a. build_ratchet_assessment D p bundle pr u cc vs partials = Inr a \<longrightarrow>
     validate_ratchet_assessment D p bundle a = Inr () \<and>
     set (as_violations a) = input_violation D p ` set vs \<and>
     cv_rule ` {c \<in> set (as_coverage a). cv_status c = Partial} =
       rule_ref_of ` {r \<in> set (po_rules p). ru_id r \<in> set partials})"
proof -
  have partial: "cv_rule ` {c \<in> set (as_coverage a). cv_status c = Partial} =
      rule_ref_of ` {r \<in> set (po_rules p). ru_id r \<in> set partials}"
    if "a = built D p bundle pr u cc vs partials ss" for a ss
    unfolding that by (simp add: Compr_image_eq image_image cong: conj_cong if_cong)
      (auto intro!: arg_cong [where f = "image rule_ref_of"] split: if_splits)
  have violations: "set (as_violations a) = input_violation D p ` set vs"
    if "a = built D p bundle pr u cc vs partials ss" for a ss
    by (simp add: that)
  have valid: "validate_ratchet_assessment D p bundle a = Inr ()"
    if "buildable D p bundle vs partials ss" "a = built D p bundle pr u cc vs partials ss" for a ss
    using built_assessed [OF that(1)] unfolding that(2) validate_assessment_Inr .
  show ?thesis
  proof (intro conjI allI impI)
    show "(\<exists>a. build_ratchet_assessment D p bundle pr u cc vs partials = Inr a) \<longleftrightarrow>
        (\<exists>ss. buildable D p bundle vs partials ss)"
      unfolding build_Inr by blast
  next
    fix a assume "build_ratchet_assessment D p bundle pr u cc vs partials = Inr a"
    then obtain ss where ss: "buildable D p bundle vs partials ss" "a = built D p bundle pr u cc vs partials ss"
      unfolding build_Inr by blast
    show "validate_ratchet_assessment D p bundle a = Inr ()" by (rule valid [OF ss])
    show "set (as_violations a) = input_violation D p ` set vs" by (rule violations [OF ss(2)])
    show "cv_rule ` {c \<in> set (as_coverage a). cv_status c = Partial} =
        rule_ref_of ` {r \<in> set (po_rules p). ru_id r \<in> set partials}"
      by (rule partial [OF ss(2)])
  qed
qed

section \<open>An example\<close>

definition ex_build_inputs :: "violation_input list" where
  "ex_build_inputs = [\<lparr>vn_rule = ''r'', vn_subject = \<lparr>sk_uri = ''u'', sk_kind = ''action'', sk_id = ''q''\<rparr>,
     vn_slot = ''a'', vn_message = ''m''\<rparr>]"

theorem build_assessment_exact_witness:
  "\<exists>a. build_ratchet_assessment ex_digests ex_policy ex_bundle VNone ''u'' VNone ex_build_inputs [] = Inr a \<and>
     validate_ratchet_assessment ex_digests ex_policy ex_bundle a = Inr ()"
proof -
  have "\<exists>ss. buildable ex_digests ex_policy ex_bundle ex_build_inputs [] ss"
    by (simp add: buildable_def subjects_ok_def ex_digests_def ex_policy_def ex_bundle_def ex_subject_def ex_build_inputs_def derive_policy_id_def subject_order_def
        derive_behavior_subject_id_def max_ratchet_violations_def max_ratchet_rules_def max_ratchet_subjects_def)
  then show ?thesis
    using build_assessment_exact [of ex_digests ex_policy ex_bundle VNone "''u''" VNone ex_build_inputs "[]"]
    by blast
qed

end
