(* ===== verification/Ratchet_Evaluation.thy ===== *)
theory Ratchet_Evaluation
  imports Ratchet_Validation
begin

text \<open>
  The evaluation of an assessment against a baseline, \<^verbatim>\<open>src/ucf/ratchet/evaluation.py\<close>, and the
  validation of evaluation reports in \<^verbatim>\<open>validation.py\<close>. The dictionaries by violation identifier
  are association lists; a violation whose subject is in neither document raises \<^verbatim>\<open>KeyError\<close>.
\<close>

section \<open>Subject changes\<close>

definition subjects_by_id :: "subject_snapshot list \<Rightarrow> (string, subject_snapshot) dict" where
  "subjects_by_id ss = dict_of (map (\<lambda>s. (ss_id s, s)) ss)"

definition change_kind ::
  "coverage_status \<Rightarrow> subject_snapshot option \<Rightarrow> subject_snapshot option \<Rightarrow> subject_change_kind" where
  "change_kind coverage old new =
     (case old of
        None \<Rightarrow> NewSubject
      | Some o' \<Rightarrow>
          (case new of
             None \<Rightarrow> if coverage = Complete then RemovedSubject else UnknownSubject
           | Some n \<Rightarrow>
               (let semantic_changed = ss_semantic o' \<noteq> ss_semantic n;
                    observed_changed = ss_observed o' \<noteq> ss_observed n
                in if semantic_changed \<and> observed_changed then SemanticAndObservedChanged
                   else if semantic_changed then SemanticChanged
                   else if observed_changed then ObservedChanged
                   else SubjUnchanged)))"

text \<open>An identifier of neither document does not come up: the loop goes through the keys of both.\<close>

definition subject_changes :: "baseline \<Rightarrow> assessment \<Rightarrow> subject_change list" where
  "subject_changes b a =
     (let previous = subjects_by_id (bl_subjects b);
          current = subjects_by_id (as_subjects a)
      in map (\<lambda>identifier.
            (let old = map_of previous identifier; new = map_of current identifier
             in \<lparr>ch_subject = (case new of Some s \<Rightarrow> ss_id s | None \<Rightarrow> (case old of Some s \<Rightarrow> ss_id s | None \<Rightarrow> [])),
                 ch_change = change_kind (as_subject_coverage a) old new\<rparr>))
          (sorted_set (dict_keys previous @ dict_keys current)))"

section \<open>Classification of violations\<close>

definition keys_by_id :: "digests \<Rightarrow> violation_key list \<Rightarrow> (string, violation_key) dict" where
  "keys_by_id D ks = dict_of (map (\<lambda>k. (derive_violation_id D k, k)) ks)"

definition violations_by_id :: "assessment \<Rightarrow> (string, violation_key) dict" where
  "violations_by_id a = dict_of (map (\<lambda>v. (vi_id v, vi_key v)) (as_violations a))"

definition changes_by_subject :: "subject_change list \<Rightarrow> (string, subject_change_kind) dict" where
  "changes_by_subject changes = dict_of (map (\<lambda>c. (ch_subject c, ch_change c)) changes)"

definition coverage_by_rule :: "assessment \<Rightarrow> (rule_ref, coverage_status) dict" where
  "coverage_by_rule a = dict_of (map (\<lambda>c. (cv_rule c, cv_status c)) (as_coverage a))"

definition classify_current ::
  "(string, subject_change_kind) dict \<Rightarrow> (string, violation_key) dict \<Rightarrow> (string, violation_key) dict \<Rightarrow>
   string \<times> violation_key \<Rightarrow> (ratchet_error, classification) res" where
  "classify_current change_by_subject allowances protected = (\<lambda>(identifier, key).
     if identifier \<in> set (dict_keys protected) then Inr \<lparr>cl_kind = Reintroduced, cl_key = key\<rparr>
     else if identifier \<notin> set (dict_keys allowances) then Inr \<lparr>cl_kind = NewRegression, cl_key = key\<rparr>
     else (case map_of change_by_subject (vk_subject key) of
             None \<Rightarrow> Inl (MissingKey (vk_subject key))
           | Some change \<Rightarrow>
               Inr \<lparr>cl_kind = (if change \<noteq> SubjUnchanged then TouchedLegacy else UnchangedLegacy),
                    cl_key = key\<rparr>))"

definition classify_allowance ::
  "coverage_status \<Rightarrow> (rule_ref, coverage_status) dict \<Rightarrow> violation_key \<Rightarrow> classification" where
  "classify_allowance subject_coverage coverage_by key =
     \<lparr>cl_kind = (if subject_coverage = Complete \<and> map_of coverage_by (vk_rule key) = Some Complete
                 then Resolved else UnknownViolation),
      cl_key = key\<rparr>"

definition classifications ::
  "digests \<Rightarrow> baseline \<Rightarrow> assessment \<Rightarrow> (ratchet_error, classification list) res" where
  "classifications D b a =
     (let change_by_subject = changes_by_subject (subject_changes b a);
          allowances = keys_by_id D (bl_allowances b);
          protected = keys_by_id D (bl_protected b);
          current = violations_by_id a
      in res_bind (res_map (classify_current change_by_subject allowances protected) current) (\<lambda>seen.
         Inr (sort_key (\<lambda>c. derive_violation_id D (cl_key c))
           (seen @ map (\<lambda>(_, key). classify_allowance (as_subject_coverage a) (coverage_by_rule a) key)
              (filter (\<lambda>(identifier, _). identifier \<notin> set (dict_keys current)) allowances)))))"

section \<open>The report\<close>

definition regressions :: "classification_kind list" where
  "regressions = [NewRegression, Reintroduced, TouchedLegacy]"

definition has_regression :: "classification list \<Rightarrow> bool" where
  "has_regression cs \<longleftrightarrow> (\<exists>c \<in> set cs. cl_kind c \<in> set regressions)"

definition keys_of_kinds :: "classification_kind list \<Rightarrow> classification list \<Rightarrow> violation_key list" where
  "keys_of_kinds kinds cs = map cl_key (filter (\<lambda>c. cl_kind c \<in> set kinds) cs)"

definition delta_of :: "classification list \<Rightarrow> weakening_delta" where
  "delta_of cs =
     \<lparr>wd_status = (if has_regression cs then DeltaReviewRequired
        else if keys_of_kinds [Resolved] cs \<noteq> [] then DeltaTightening else DeltaNone),
      wd_added_allowances = keys_of_kinds [NewRegression, Reintroduced] cs,
      wd_removed_allowances = keys_of_kinds [Resolved] cs,
      wd_removed_protections = keys_of_kinds [Reintroduced] cs\<rparr>"

definition has_unknown :: "assessment \<Rightarrow> subject_change list \<Rightarrow> classification list \<Rightarrow> bool" where
  "has_unknown a changes cs \<longleftrightarrow>
     (\<exists>c \<in> set cs. cl_kind c = UnknownViolation) \<or>
     (\<exists>c \<in> set changes. ch_change c = UnknownSubject) \<or>
     as_subject_coverage a \<noteq> Complete \<or> (\<exists>c \<in> set (as_coverage a). cv_status c \<noteq> Complete)"

definition outcome_of :: "assessment \<Rightarrow> subject_change list \<Rightarrow> classification list \<Rightarrow> evaluation_outcome" where
  "outcome_of a changes cs =
     (if has_regression cs then Fail else if has_unknown a changes cs then Inconclusive else Pass)"

definition derive_evaluation ::
  "digests \<Rightarrow> ratchet_policy \<Rightarrow> baseline \<Rightarrow> assessment \<Rightarrow> (ratchet_error, evaluation_report) res" where
  "derive_evaluation D p b a =
     (let changes = subject_changes b a in
      res_bind (classifications D b a) (\<lambda>cs.
        let provisional =
          \<lparr>er_id = ''evaluation.'' @ replicate 64 CHR ''0'', er_policy = policy_ref D p,
           er_baseline = baseline_ref D b, er_assessment = assessment_ref D a,
           er_subject_changes = changes, er_classifications = cs,
           er_outcome = outcome_of a changes cs, er_weakening_delta = delta_of cs\<rparr>
        in Inr (provisional\<lparr>er_id := derive_evaluation_id D provisional\<rparr>)))"

definition evaluate_ratchet ::
  "digests \<Rightarrow> ratchet_policy \<Rightarrow> baseline \<Rightarrow> bundle_view \<Rightarrow> assessment \<Rightarrow> (ratchet_error, evaluation_report) res" where
  "evaluate_ratchet D p b bundle a =
     (let rules = map rule_ref_of (po_rules p) in
      res_bind (checks
        [validate_ratchet_assessment D p bundle a,
         validate_ratchet_baseline_structure D b,
         check (bl_policy b = policy_ref D p) DOCUMENT_IDENTITY_MISMATCH
           ''baseline policy differs from the exact evaluation policy'' ''$.baseline.policy'',
         check (\<forall>k \<in> set (bl_allowances b). vk_rule k \<in> set rules) BROKEN_REFERENCE
           ''baseline violation key names an unknown policy rule'' ''$.baseline.allowances'',
         check (\<forall>k \<in> set (bl_protected b). vk_rule k \<in> set rules) BROKEN_REFERENCE
           ''baseline violation key names an unknown policy rule'' ''$.baseline.protected'']) (\<lambda>_.
      derive_evaluation D p b a))"

section \<open>Validation of reports\<close>

definition unique_keys :: "digests \<Rightarrow> violation_key list \<Rightarrow> string \<Rightarrow> string \<Rightarrow> check" where
  "unique_keys D ks location label =
     require_unique_and_sorted (map (derive_violation_id D) ks) location label"

definition validate_ratchet_evaluation_report_structure :: "digests \<Rightarrow> evaluation_report \<Rightarrow> check" where
  "validate_ratchet_evaluation_report_structure D r =
     (let subject_ids = map ch_subject (er_subject_changes r);
          cs = er_classifications r;
          delta = er_weakening_delta r;
          unknown = (\<exists>c \<in> set cs. cl_kind c = UnknownViolation) \<or>
            (\<exists>c \<in> set (er_subject_changes r). ch_change c = UnknownSubject);
          expected_outcomes = (if has_regression cs then [Fail]
            else if unknown then [Inconclusive] else [Pass, Inconclusive]);
          message = ''weakening delta differs from its classifications''
      in checks
        ([require_unique_and_sorted subject_ids ''$.subject_changes'' ''subject changes'',
          unique_keys D (map cl_key cs) ''$.classifications'' ''violation classifications''] @
         map (\<lambda>(index, c).
             check (vk_subject (cl_key c) \<in> set subject_ids) BROKEN_REFERENCE
               ''classification names an unknown report subject''
               (at_index ''$.classifications'' index ''.key.subject''))
           (enumerate 0 cs) @
         [unique_keys D (wd_added_allowances delta) ''$.weakening_delta.added_allowances'' ''added allowances'',
          unique_keys D (wd_removed_allowances delta) ''$.weakening_delta.removed_allowances'' ''removed allowances'',
          unique_keys D (wd_removed_protections delta) ''$.weakening_delta.removed_protections''
            ''removed protections'',
          check (er_outcome r \<in> set expected_outcomes) SUMMARY_MISMATCH
            ''evaluation outcome differs from its internal evidence'' ''$.outcome'',
          check (wd_added_allowances delta = keys_of_kinds [NewRegression, Reintroduced] cs)
            SUMMARY_MISMATCH message ''$.weakening_delta.added_allowances'',
          check (wd_removed_allowances delta = keys_of_kinds [Resolved] cs)
            SUMMARY_MISMATCH message ''$.weakening_delta.removed_allowances'',
          check (wd_removed_protections delta = keys_of_kinds [Reintroduced] cs)
            SUMMARY_MISMATCH message ''$.weakening_delta.removed_protections'',
          check (wd_status delta = (if has_regression cs then DeltaReviewRequired
              else if keys_of_kinds [Resolved] cs \<noteq> [] then DeltaTightening else DeltaNone))
            SUMMARY_MISMATCH ''weakening delta status differs from its exact members''
            ''$.weakening_delta.status'',
          check (er_id r = derive_evaluation_id D r) CONTENT_IDENTITY_MISMATCH
            ''evaluation ID is not derived from its exact content'' ''$.id'']))"

text \<open>The fields are compared in this order; the procedure URI is a constant of every report.\<close>

definition compare_reports :: "evaluation_report \<Rightarrow> evaluation_report \<Rightarrow> check" where
  "compare_reports r expected =
     (let same = (\<lambda>ok location. check ok SUMMARY_MISMATCH
            ''evaluation report differs from the exact recomputed result'' location)
      in checks
        [same (er_policy r = er_policy expected) ''$.policy'',
         same (er_baseline r = er_baseline expected) ''$.baseline'',
         same (er_assessment r = er_assessment expected) ''$.assessment'',
         same (er_subject_changes r = er_subject_changes expected) ''$.subject_changes'',
         same (er_classifications r = er_classifications expected) ''$.classifications'',
         same (er_outcome r = er_outcome expected) ''$.outcome'',
         same (er_weakening_delta r = er_weakening_delta expected) ''$.weakening_delta'',
         same (er_id r = er_id expected) ''$.id''])"

definition validate_ratchet_evaluation_report ::
  "digests \<Rightarrow> ratchet_policy \<Rightarrow> baseline \<Rightarrow> bundle_view \<Rightarrow> assessment \<Rightarrow> evaluation_report \<Rightarrow> check" where
  "validate_ratchet_evaluation_report D p b bundle a r =
     res_bind (validate_ratchet_evaluation_report_structure D r) (\<lambda>_.
     res_bind (evaluate_ratchet D p b bundle a) (\<lambda>expected.
     compare_reports r expected))"

section \<open>Dictionaries whose keys are distinct\<close>

lemma dict_merge_fresh: "distinct (map fst (d @ e)) \<Longrightarrow> dict_merge d e = d @ e"
proof (induction e arbitrary: d)
  case Nil
  show ?case by simp
next
  case (Cons p e)
  obtain k v where p: "p = (k, v)" by (cases p)
  have "AList.update k v d = d @ [(k, v)]" if "k \<notin> fst ` set d" for d :: "('a \<times> 'b) list"
    using that by (induction d) auto
  with Cons.prems p have "AList.update k v d = d @ [(k, v)]" by auto
  with Cons p show ?case by simp
qed

lemma dict_of_map:
  "distinct (map f xs) \<Longrightarrow> dict_of (map (\<lambda>x. (f x, g x)) xs) = map (\<lambda>x. (f x, g x)) xs"
  by (simp add: dict_merge_fresh comp_def)

lemma map_of_map_distinct:
  "distinct (map f xs) \<Longrightarrow> x \<in> set xs \<Longrightarrow> map_of (map (\<lambda>x. (f x, g x)) xs) (f x) = Some (g x)"
  by (rule map_of_is_SomeI) (auto simp: comp_def)

lemma map_of_map_None: "map_of (map (\<lambda>x. (f x, g x)) xs) k = None \<longleftrightarrow> k \<notin> f ` set xs"
  by (simp add: map_of_eq_None_iff image_image)

section \<open>The meaning of an evaluation\<close>

definition allowed_ids :: "digests \<Rightarrow> baseline \<Rightarrow> string set" where
  "allowed_ids D b = derive_violation_id D ` set (bl_allowances b)"

definition protected_ids :: "digests \<Rightarrow> baseline \<Rightarrow> string set" where
  "protected_ids D b = derive_violation_id D ` set (bl_protected b)"

definition violated_ids :: "assessment \<Rightarrow> string set" where
  "violated_ids a = vi_id ` set (as_violations a)"

definition same_subject :: "baseline \<Rightarrow> assessment \<Rightarrow> string \<Rightarrow> bool" where
  "same_subject b a i \<longleftrightarrow> (\<exists>s \<in> set (bl_subjects b). \<exists>t \<in> set (as_subjects a).
     ss_id s = i \<and> ss_id t = i \<and> ss_semantic s = ss_semantic t \<and> ss_observed s = ss_observed t)"

definition complete_coverage :: "assessment \<Rightarrow> bool" where
  "complete_coverage a \<longleftrightarrow> as_subject_coverage a = Complete \<and> (\<forall>c \<in> set (as_coverage a). cv_status c = Complete)"

text \<open>When the evaluation is accepted at all.\<close>

definition evaluable :: "digests \<Rightarrow> ratchet_policy \<Rightarrow> baseline \<Rightarrow> bundle_view \<Rightarrow> assessment \<Rightarrow> bool" where
  "evaluable D p b bundle a \<longleftrightarrow> assessed D p bundle a \<and> baseline_ok D b \<and> bl_policy b = policy_ref D p \<and>
     vk_rule ` set (bl_allowances b @ bl_protected b) \<subseteq> rule_ref_of ` set (po_rules p)"

text \<open>The classification of a current violation, and of an allowance that is not violated.\<close>

definition current_kind :: "digests \<Rightarrow> baseline \<Rightarrow> assessment \<Rightarrow> violation_key \<Rightarrow> classification_kind" where
  "current_kind D b a k =
     (if derive_violation_id D k \<in> protected_ids D b then Reintroduced
      else if derive_violation_id D k \<notin> allowed_ids D b then NewRegression
      else if same_subject b a (vk_subject k) then UnchangedLegacy else TouchedLegacy)"

definition absent_kind :: "assessment \<Rightarrow> violation_key \<Rightarrow> classification_kind" where
  "absent_kind a k =
     (if as_subject_coverage a = Complete \<and> (\<exists>c \<in> set (as_coverage a). cv_rule c = vk_rule k \<and> cv_status c = Complete)
      then Resolved else UnknownViolation)"

definition classified :: "digests \<Rightarrow> baseline \<Rightarrow> assessment \<Rightarrow> classification list" where
  "classified D b a =
     map (\<lambda>v. \<lparr>cl_kind = current_kind D b a (vi_key v), cl_key = vi_key v\<rparr>) (as_violations a) @
     map (\<lambda>k. \<lparr>cl_kind = absent_kind a k, cl_key = k\<rparr>)
       (filter (\<lambda>k. derive_violation_id D k \<notin> violated_ids a) (bl_allowances b))"

definition sorted_classified :: "digests \<Rightarrow> baseline \<Rightarrow> assessment \<Rightarrow> classification list" where
  "sorted_classified D b a = sort_key (\<lambda>c. derive_violation_id D (cl_key c)) (classified D b a)"

lemma set_sorted_classified [simp]: "set (sorted_classified D b a) = set (classified D b a)"
  by (simp add: sorted_classified_def)

section \<open>What the code computes\<close>

lemma subjects_by_id_distinct:
  "distinct (map ss_id ss) \<Longrightarrow> subjects_by_id ss = map (\<lambda>s. (ss_id s, s)) ss"
  by (simp add: subjects_by_id_def dict_of_map)

lemma subject_lookup:
  assumes "distinct (map ss_id ss)"
  shows "map_of (subjects_by_id ss) i = Some s \<longleftrightarrow> s \<in> set ss \<and> ss_id s = i"
  using assms map_of_map_distinct [of ss_id ss s "\<lambda>s. s"]
  by (auto simp: subjects_by_id_distinct dest: map_of_SomeD)

lemma subject_lookup_None: "map_of (subjects_by_id ss) i = None \<longleftrightarrow> i \<notin> ss_id ` set ss"
proof -
  have "set (dict_keys (subjects_by_id ss)) = ss_id ` set ss"
    unfolding subjects_by_id_def keys_merge by (simp add: image_image)
  then show ?thesis by (simp add: map_of_eq_None_iff)
qed

lemma subject_changes_eq:
  assumes "distinct (map ss_id (bl_subjects b))" "distinct (map ss_id (as_subjects a))"
  shows "subject_changes b a =
    map (\<lambda>i. \<lparr>ch_subject = i, ch_change = change_kind (as_subject_coverage a)
          (map_of (subjects_by_id (bl_subjects b)) i) (map_of (subjects_by_id (as_subjects a)) i)\<rparr>)
      (sorted_set (map ss_id (bl_subjects b) @ map ss_id (as_subjects a)))"
proof -
  have keys: "dict_keys (subjects_by_id ss) = map ss_id ss" if "distinct (map ss_id ss)" for ss
    using that by (simp add: subjects_by_id_distinct comp_def)
  have "(case map_of (subjects_by_id (as_subjects a)) i of Some s \<Rightarrow> ss_id s
       | None \<Rightarrow> (case map_of (subjects_by_id (bl_subjects b)) i of Some s \<Rightarrow> ss_id s | None \<Rightarrow> [])) = i"
    if "i \<in> ss_id ` set (bl_subjects b) \<union> ss_id ` set (as_subjects a)" for i
    using that subject_lookup [OF assms(1), of i] subject_lookup [OF assms(2), of i]
      subject_lookup_None [of "bl_subjects b" i] subject_lookup_None [of "as_subjects a" i]
    by (auto split: option.splits)
  then show ?thesis
    unfolding subject_changes_def Let_def keys [OF assms(1)] keys [OF assms(2)]
    by (intro map_cong) auto
qed

lemma subject_changes_ids:
  assumes "distinct (map ss_id (bl_subjects b))" "distinct (map ss_id (as_subjects a))"
  shows "map ch_subject (subject_changes b a) =
    sorted_set (map ss_id (bl_subjects b) @ map ss_id (as_subjects a))"
  by (simp add: subject_changes_eq [OF assms] comp_def)

lemma change_lookup:
  assumes dist: "distinct (map ss_id (bl_subjects b))" "distinct (map ss_id (as_subjects a))"
    and i: "i \<in> ss_id ` set (bl_subjects b) \<union> ss_id ` set (as_subjects a)"
  shows "map_of (changes_by_subject (subject_changes b a)) i =
    Some (change_kind (as_subject_coverage a)
      (map_of (subjects_by_id (bl_subjects b)) i) (map_of (subjects_by_id (as_subjects a)) i))"
proof -
  let ?I = "sorted_set (map ss_id (bl_subjects b) @ map ss_id (as_subjects a))"
  let ?h = "\<lambda>i. change_kind (as_subject_coverage a)
      (map_of (subjects_by_id (bl_subjects b)) i) (map_of (subjects_by_id (as_subjects a)) i)"
  have "changes_by_subject (subject_changes b a) = dict_of (map (\<lambda>i. (i, ?h i)) ?I)"
    by (simp add: changes_by_subject_def subject_changes_eq [OF dist] comp_def)
  also have "\<dots> = map (\<lambda>i. (i, ?h i)) ?I" by (rule dict_of_map) simp
  finally show ?thesis
    using map_of_map_distinct [of "\<lambda>i. i" ?I i ?h] i by auto
qed

lemma change_unchanged_iff:
  assumes "distinct (map ss_id (bl_subjects b))" "distinct (map ss_id (as_subjects a))"
  shows "change_kind (as_subject_coverage a)
      (map_of (subjects_by_id (bl_subjects b)) i) (map_of (subjects_by_id (as_subjects a)) i) = SubjUnchanged
    \<longleftrightarrow> same_subject b a i" (is "change_kind ?c ?old ?new = _ \<longleftrightarrow> _")
proof -
  have same: "same_subject b a i \<longleftrightarrow>
      (\<exists>s t. ?old = Some s \<and> ?new = Some t \<and> ss_semantic s = ss_semantic t \<and> ss_observed s = ss_observed t)"
    unfolding subject_lookup [OF assms(1)] subject_lookup [OF assms(2)] same_subject_def by blast
  show ?thesis
    unfolding same by (cases ?old; cases ?new) (simp_all add: change_kind_def Let_def)
qed

lemma coverage_lookup:
  assumes "distinct (map cv_rule (as_coverage a))"
  shows "map_of (coverage_by_rule a) ru = Some Complete \<longleftrightarrow>
    (\<exists>c \<in> set (as_coverage a). cv_rule c = ru \<and> cv_status c = Complete)"
proof -
  have "coverage_by_rule a = map (\<lambda>c. (cv_rule c, cv_status c)) (as_coverage a)"
    unfolding coverage_by_rule_def by (rule dict_of_map [OF assms])
  moreover have "distinct (map fst (map (\<lambda>c. (cv_rule c, cv_status c)) (as_coverage a)))"
    using assms by (simp add: comp_def)
  ultimately show ?thesis by (auto simp: map_of_eq_Some_iff)
qed

text \<open>The shape of the documents, taken from the validations.\<close>

lemma evaluable_facts:
  assumes "evaluable D p b bundle a"
  shows "distinct (map ss_id (bl_subjects b))" "distinct (map ss_id (as_subjects a))"
    "distinct (map cv_rule (as_coverage a))"
    "distinct (map vi_id (as_violations a))"
    "distinct (map (derive_violation_id D) (bl_allowances b))"
    "distinct (map (derive_violation_id D) (bl_protected b))"
    "\<And>v. v \<in> set (as_violations a) \<Longrightarrow> vi_id v = derive_violation_id D (vi_key v)"
    "\<And>v. v \<in> set (as_violations a) \<Longrightarrow> vk_subject (vi_key v) \<in> ss_id ` set (as_subjects a)"
    "\<And>k. k \<in> set (bl_allowances b) \<Longrightarrow> vk_subject k \<in> ss_id ` set (bl_subjects b)"
    "\<And>k. k \<in> set (bl_allowances b) \<Longrightarrow> vk_rule k \<in> cv_rule ` set (as_coverage a)"
    "allowed_ids D b \<inter> protected_ids D b = {}"
proof -
  have ok: "assessment_ok D a" "baseline_ok D b"
    using assms unfolding evaluable_def assessed_def by blast+
  then have ok: "assessment_ok D a" "baseline_ok D b" "subjects_ok D (bl_subjects b)"
      "subjects_ok D (as_subjects a)"
    unfolding assessment_ok_def baseline_ok_def by blast+
  show "distinct (map ss_id (bl_subjects b))" "distinct (map ss_id (as_subjects a))"
    using ok(3,4) by (simp_all only: subjects_ok_def)
  show "distinct (map cv_rule (as_coverage a))"
    using ok(1) by (simp only: assessment_ok_def coverage_rules_distinct)
  show "distinct (map vi_id (as_violations a))"
    using ok(1) by (simp only: assessment_ok_def)
  show "distinct (map (derive_violation_id D) (bl_allowances b))"
    "distinct (map (derive_violation_id D) (bl_protected b))"
    "allowed_ids D b \<inter> protected_ids D b = {}"
    using ok(2) by (simp_all only: baseline_ok_def allowed_ids_def protected_ids_def)
  show "\<And>v. v \<in> set (as_violations a) \<Longrightarrow> vi_id v = derive_violation_id D (vi_key v)"
    "\<And>v. v \<in> set (as_violations a) \<Longrightarrow> vk_subject (vi_key v) \<in> ss_id ` set (as_subjects a)"
    using ok(1) by (simp_all add: assessment_ok_def)
  show "\<And>k. k \<in> set (bl_allowances b) \<Longrightarrow> vk_subject k \<in> ss_id ` set (bl_subjects b)"
    using ok(2) by (simp add: baseline_ok_def)
  show "\<And>k. k \<in> set (bl_allowances b) \<Longrightarrow> vk_rule k \<in> cv_rule ` set (as_coverage a)"
    using assms by (auto simp: evaluable_def assessed_def)
qed

lemma keys_by_id_distinct:
  "distinct (map (derive_violation_id D) ks) \<Longrightarrow> keys_by_id D ks = map (\<lambda>k. (derive_violation_id D k, k)) ks"
  by (simp add: keys_by_id_def dict_of_map)

lemma classifications_eq:
  assumes ev: "evaluable D p b bundle a"
  shows "classifications D b a = Inr (sorted_classified D b a)"
proof -
  note f = evaluable_facts [OF ev]
  let ?ch = "changes_by_subject (subject_changes b a)"
  have allow: "keys_by_id D (bl_allowances b) = map (\<lambda>k. (derive_violation_id D k, k)) (bl_allowances b)"
    and prot: "keys_by_id D (bl_protected b) = map (\<lambda>k. (derive_violation_id D k, k)) (bl_protected b)"
    and cur: "violations_by_id a = map (\<lambda>v. (vi_id v, vi_key v)) (as_violations a)"
    using f(4-6) by (simp_all add: keys_by_id_distinct violations_by_id_def dict_of_map)
  have keys: "set (dict_keys (keys_by_id D (bl_allowances b))) = allowed_ids D b"
    "set (dict_keys (keys_by_id D (bl_protected b))) = protected_ids D b"
    "set (dict_keys (violations_by_id a)) = violated_ids a"
    by (simp_all add: allow prot cur image_image allowed_ids_def protected_ids_def violated_ids_def)
  have current: "classify_current ?ch (keys_by_id D (bl_allowances b)) (keys_by_id D (bl_protected b))
      (vi_id v, vi_key v) = Inr \<lparr>cl_kind = current_kind D b a (vi_key v), cl_key = vi_key v\<rparr>"
    if v: "v \<in> set (as_violations a)" for v
    using f(7,8) [OF v] change_lookup [OF f(1,2), of "vk_subject (vi_key v)"]
      change_unchanged_iff [OF f(1,2), of "vk_subject (vi_key v)"]
    unfolding classify_current_def keys by (simp add: current_kind_def)
  have seen: "res_map (classify_current ?ch (keys_by_id D (bl_allowances b)) (keys_by_id D (bl_protected b)))
      (violations_by_id a) =
      Inr (map (\<lambda>(i, k). \<lparr>cl_kind = current_kind D b a k, cl_key = k\<rparr>) (violations_by_id a))"
    by (rule res_map_total) (auto simp: cur current)
  have "map (\<lambda>(_, key). classify_allowance (as_subject_coverage a) (coverage_by_rule a) key)
      (filter (\<lambda>(i, _). i \<notin> set (dict_keys (violations_by_id a))) (keys_by_id D (bl_allowances b))) =
    map (\<lambda>k. \<lparr>cl_kind = absent_kind a k, cl_key = k\<rparr>)
      (filter (\<lambda>k. derive_violation_id D k \<notin> violated_ids a) (bl_allowances b))"
    unfolding keys by (simp add: allow filter_map comp_def classify_allowance_def absent_kind_def coverage_lookup f(3))
  then show ?thesis
    unfolding classifications_def Let_def seen res_bind_simps
    by (simp add: cur comp_def sorted_classified_def classified_def)
qed

text \<open>The report of an evaluable input.\<close>

definition report :: "digests \<Rightarrow> ratchet_policy \<Rightarrow> baseline \<Rightarrow> assessment \<Rightarrow> evaluation_report" where
  "report D p b a =
     (let changes = subject_changes b a; cs = sorted_classified D b a;
          provisional =
            \<lparr>er_id = ''evaluation.'' @ replicate 64 CHR ''0'', er_policy = policy_ref D p,
             er_baseline = baseline_ref D b, er_assessment = assessment_ref D a,
             er_subject_changes = changes, er_classifications = cs,
             er_outcome = outcome_of a changes cs, er_weakening_delta = delta_of cs\<rparr>
      in provisional\<lparr>er_id := derive_evaluation_id D provisional\<rparr>)"

lemma report_simps [simp]:
  "er_policy (report D p b a) = policy_ref D p"
  "er_baseline (report D p b a) = baseline_ref D b"
  "er_assessment (report D p b a) = assessment_ref D a"
  "er_subject_changes (report D p b a) = subject_changes b a"
  "er_classifications (report D p b a) = sorted_classified D b a"
  "er_outcome (report D p b a) = outcome_of a (subject_changes b a) (sorted_classified D b a)"
  "er_weakening_delta (report D p b a) = delta_of (sorted_classified D b a)"
  "er_id (report D p b a) = derive_evaluation_id D (report D p b a)"
  by (simp_all add: report_def Let_def derive_evaluation_id_def)

lemma derive_evaluation_eq:
  "evaluable D p b bundle a \<Longrightarrow> derive_evaluation D p b a = Inr (report D p b a)"
  by (simp add: derive_evaluation_def report_def classifications_eq Let_def)

lemma evaluate_Inr: "evaluate_ratchet D p b bundle a = Inr r \<longleftrightarrow> evaluable D p b bundle a \<and> r = report D p b a"
proof -
  have "evaluate_ratchet D p b bundle a = Inr r \<longleftrightarrow>
      evaluable D p b bundle a \<and> derive_evaluation D p b a = Inr r"
    unfolding evaluate_ratchet_def evaluable_def res_bind_Inr checks_Inr Let_def
    by (auto simp: validate_assessment_Inr)
  then show ?thesis by (auto simp: derive_evaluation_eq)
qed

section \<open>Classifications by kind\<close>

definition classified_ids :: "digests \<Rightarrow> classification_kind \<Rightarrow> evaluation_report \<Rightarrow> string set" where
  "classified_ids D kind r =
     (\<lambda>c. derive_violation_id D (cl_key c)) ` {c \<in> set (er_classifications r). cl_kind c = kind}"

lemma current_kind_cases:
  "current_kind D b a k = Reintroduced \<or> current_kind D b a k = NewRegression \<or>
   current_kind D b a k = UnchangedLegacy \<or> current_kind D b a k = TouchedLegacy"
  by (simp add: current_kind_def)

lemma absent_kind_cases: "absent_kind a k = Resolved \<or> absent_kind a k = UnknownViolation"
  by (simp add: absent_kind_def)

lemma absent_resolved:
  "absent_kind a k = Resolved \<longleftrightarrow> as_subject_coverage a = Complete \<and>
     (\<exists>c \<in> set (as_coverage a). cv_rule c = vk_rule k \<and> cv_status c = Complete)"
  by (simp add: absent_kind_def)

lemma bex_classified:
  "(\<exists>c \<in> set (classified D b a). P c) \<longleftrightarrow>
     (\<exists>v \<in> set (as_violations a). P \<lparr>cl_kind = current_kind D b a (vi_key v), cl_key = vi_key v\<rparr>) \<or>
     (\<exists>k \<in> set (bl_allowances b). derive_violation_id D k \<notin> violated_ids a \<and>
        P \<lparr>cl_kind = absent_kind a k, cl_key = k\<rparr>)"
  unfolding classified_def set_append bex_Un set_map set_filter bex_simps by blast

lemma kinds_disjoint:
  assumes "kind \<notin> {Resolved, UnknownViolation}"
  shows "absent_kind a k \<noteq> kind"
  using assms absent_kind_cases [of a k] by auto

lemma kinds_disjoint':
  assumes "kind \<in> {Resolved, UnknownViolation}"
  shows "current_kind D b a k \<noteq> kind"
  using assms current_kind_cases [of D b a k] by auto

lemma classified_current:
  assumes "kind \<notin> {Resolved, UnknownViolation}"
  shows "{c \<in> set (classified D b a). cl_kind c = kind} =
    (\<lambda>v. \<lparr>cl_kind = kind, cl_key = vi_key v\<rparr>) ` {v \<in> set (as_violations a). current_kind D b a (vi_key v) = kind}"
  using kinds_disjoint [OF assms, of a] by (fastforce simp: classified_def)

lemma classified_absent:
  assumes "kind \<in> {Resolved, UnknownViolation}"
  shows "{c \<in> set (classified D b a). cl_kind c = kind} =
    (\<lambda>k. \<lparr>cl_kind = kind, cl_key = k\<rparr>) `
      {k \<in> set (bl_allowances b). derive_violation_id D k \<notin> violated_ids a \<and> absent_kind a k = kind}"
  using kinds_disjoint' [OF assms, of D b a] by (fastforce simp: classified_def)

lemma current_ids:
  assumes ev: "evaluable D p b bundle a" and kind: "kind \<notin> {Resolved, UnknownViolation}"
  shows "classified_ids D kind (report D p b a) =
    vi_id ` {v \<in> set (as_violations a). current_kind D b a (vi_key v) = kind}"
  unfolding classified_ids_def report_simps set_sorted_classified classified_current [OF kind]
  using evaluable_facts(7) [OF ev] by (auto simp: image_image intro!: image_cong)

lemma absent_ids:
  assumes "kind \<in> {Resolved, UnknownViolation}"
  shows "classified_ids D kind (report D p b a) =
    derive_violation_id D ` {k \<in> set (bl_allowances b). absent_kind a k = kind} - violated_ids a"
  unfolding classified_ids_def report_simps set_sorted_classified classified_absent [OF assms]
  by (auto simp: image_image)

lemma complete_resolved:
  assumes ev: "evaluable D p b bundle a" and complete: "complete_coverage a"
    and k: "k \<in> set (bl_allowances b)"
  shows "absent_kind a k = Resolved"
proof -
  obtain c where "c \<in> set (as_coverage a)" "cv_rule c = vk_rule k"
    using evaluable_facts(10) [OF ev k] by auto
  with complete show ?thesis by (auto simp: absent_kind_def complete_coverage_def)
qed

lemma has_regression_iff:
  assumes ev: "evaluable D p b bundle a"
  shows "has_regression (sorted_classified D b a) \<longleftrightarrow>
    (\<exists>v \<in> set (as_violations a). current_kind D b a (vi_key v) \<noteq> UnchangedLegacy)"
proof -
  have "has_regression (sorted_classified D b a) \<longleftrightarrow>
      (\<exists>v \<in> set (as_violations a). current_kind D b a (vi_key v) \<in> set regressions)"
    unfolding has_regression_def set_sorted_classified bex_classified
    using kinds_disjoint [of _ a] by (simp add: regressions_def)
  moreover have "current_kind D b a k \<in> set regressions \<longleftrightarrow> current_kind D b a k \<noteq> UnchangedLegacy" for k
    using current_kind_cases [of D b a k] by (auto simp: regressions_def)
  ultimately show ?thesis by simp
qed

lemma change_kind_complete: "change_kind Complete old new \<noteq> UnknownSubject"
  by (simp add: change_kind_def Let_def split: option.split)

lemma unknown_only_partial:
  assumes ev: "evaluable D p b bundle a" and complete: "complete_coverage a"
  shows "\<not> has_unknown a (subject_changes b a) (sorted_classified D b a)"
proof -
  have "ch_change c \<noteq> UnknownSubject" if "c \<in> set (subject_changes b a)" for c
    using that complete change_kind_complete by (auto simp: subject_changes_def Let_def complete_coverage_def)
  moreover have "\<not> (\<exists>c \<in> set (classified D b a). cl_kind c = UnknownViolation)"
    unfolding bex_classified by (simp add: kinds_disjoint' complete_resolved [OF ev complete])
  ultimately show ?thesis
    using complete unfolding has_unknown_def set_sorted_classified complete_coverage_def by blast
qed

lemma outcome_of_report:
  assumes ev: "evaluable D p b bundle a"
  shows "er_outcome (report D p b a) =
    (if \<exists>v \<in> set (as_violations a). current_kind D b a (vi_key v) \<noteq> UnchangedLegacy then Fail
     else if complete_coverage a then Pass else Inconclusive)"
proof -
  have "has_unknown a (subject_changes b a) (sorted_classified D b a) \<longleftrightarrow> \<not> complete_coverage a"
    using unknown_only_partial [OF ev] by (auto simp: has_unknown_def complete_coverage_def)
  then show ?thesis by (simp add: outcome_of_def has_regression_iff [OF ev])
qed

section \<open>Computed reports are valid\<close>

lemma classified_distinct:
  assumes ev: "evaluable D p b bundle a"
  shows "distinct (map (\<lambda>c. derive_violation_id D (cl_key c)) (sorted_classified D b a))"
proof -
  note f = evaluable_facts [OF ev]
  have ids: "map (\<lambda>v. derive_violation_id D (vi_key v)) (as_violations a) = map vi_id (as_violations a)"
    using f(7) by simp
  have absent: "distinct (map (derive_violation_id D) (filter (\<lambda>k. derive_violation_id D k \<notin> violated_ids a) (bl_allowances b)))"
    by (rule distinct_map_filter [OF f(5)])
  have "map (\<lambda>c. derive_violation_id D (cl_key c)) (classified D b a) = map vi_id (as_violations a) @
      map (derive_violation_id D) (filter (\<lambda>k. derive_violation_id D k \<notin> violated_ids a) (bl_allowances b))"
    by (simp add: classified_def comp_def ids)
  then have "distinct (map (\<lambda>c. derive_violation_id D (cl_key c)) (classified D b a))"
    using f(4) absent by (simp only: distinct_append) (auto simp: violated_ids_def image_iff)
  then show ?thesis
    by (simp add: sorted_classified_def distinct_map)
qed

lemma keys_of_kinds_unique:
  assumes "distinct (map (\<lambda>c. derive_violation_id D (cl_key c)) cs)"
    and "sorted (map (\<lambda>c. derive_violation_id D (cl_key c)) cs)"
  shows "distinct (map (derive_violation_id D) (keys_of_kinds kinds cs))"
    and "sorted (map (derive_violation_id D) (keys_of_kinds kinds cs))"
  using assms by (simp_all add: keys_of_kinds_def comp_def distinct_map_filter sorted_filter)

lemma classified_subject:
  assumes ev: "evaluable D p b bundle a" and c: "c \<in> set (classified D b a)"
  shows "vk_subject (cl_key c) \<in> ss_id ` set (bl_subjects b) \<union> ss_id ` set (as_subjects a)"
  using c evaluable_facts(8,9) [OF ev] unfolding classified_def by (auto simp del: image_iff)

lemma report_structure:
  assumes ev: "evaluable D p b bundle a"
  shows "validate_ratchet_evaluation_report_structure D (report D p b a) = Inr ()"
proof -
  let ?cs = "sorted_classified D b a"
  note f = evaluable_facts [OF ev]
  have sorted: "sorted (map (\<lambda>c. derive_violation_id D (cl_key c)) ?cs)"
    by (simp add: sorted_classified_def)
  note unique = classified_distinct [OF ev] sorted keys_of_kinds_unique [OF classified_distinct [OF ev] sorted]
  have outcome: "outcome_of a (subject_changes b a) ?cs = Fail" if "has_regression ?cs"
    using that by (simp add: outcome_of_def)
  have outcome': "outcome_of a (subject_changes b a) ?cs = Inconclusive"
    if "\<not> has_regression ?cs" "(\<exists>c \<in> set ?cs. cl_kind c = UnknownViolation) \<or>
      (\<exists>c \<in> set (subject_changes b a). ch_change c = UnknownSubject)"
    using that unfolding outcome_of_def has_unknown_def by presburger
  have outcome'': "outcome_of a (subject_changes b a) ?cs \<in> {Pass, Inconclusive}"
    if "\<not> has_regression ?cs"
    using that by (simp add: outcome_of_def)
  show ?thesis
    unfolding validate_ratchet_evaluation_report_structure_def Let_def checks_Inr set_append ball_Un
      checks_enumerate report_simps
    using unique classified_subject [OF ev] outcome outcome' outcome''
    by (simp add: unique_keys_def subject_changes_ids [OF f(1,2)] delta_of_def comp_def)
qed

lemma compare_reports_Inr: "compare_reports r r' = Inr u \<longleftrightarrow> r = r'"
  by (auto simp: compare_reports_def Let_def)

lemma validate_report_Inr:
  "validate_ratchet_evaluation_report D p b bundle a r = Inr u \<longleftrightarrow> evaluable D p b bundle a \<and> r = report D p b a"
  using report_structure [of D p b]
  by (auto simp: validate_ratchet_evaluation_report_def res_bind_Inr compare_reports_Inr evaluate_Inr)

section \<open>Properties\<close>

definition touched_ids :: "baseline \<Rightarrow> assessment \<Rightarrow> string set" where
  "touched_ids b a = vi_id ` {v \<in> set (as_violations a). \<not> same_subject b a (vk_subject (vi_key v))}"

lemma violation_ids_Collect:
  assumes "distinct (map vi_id (as_violations a))" "v \<in> set (as_violations a)"
  shows "vi_id v \<in> vi_id ` {w \<in> set (as_violations a). P w} \<longleftrightarrow> P v"
  using assms by (auto simp: distinct_map dest: inj_onD)

text \<open>
  An accepted evaluation puts every identifier at stake under exactly one classification: a
  current violation is reintroduced when it is protected, a new regression when it is not
  allowed, touched legacy when it is allowed but its subject is new or changed, and unchanged
  legacy otherwise; an allowance without a violation is resolved when the subjects and its rule
  are covered completely, and unknown otherwise.
\<close>

theorem evaluation_classifies:
  assumes "evaluate_ratchet D p b bundle a = Inr r"
  shows "classified_ids D Reintroduced r = violated_ids a \<inter> protected_ids D b \<and>
    classified_ids D NewRegression r = violated_ids a - protected_ids D b - allowed_ids D b \<and>
    classified_ids D TouchedLegacy r = violated_ids a \<inter> allowed_ids D b \<inter> touched_ids b a \<and>
    classified_ids D UnchangedLegacy r = violated_ids a \<inter> allowed_ids D b - touched_ids b a \<and>
    classified_ids D Resolved r \<union> classified_ids D UnknownViolation r = allowed_ids D b - violated_ids a \<and>
    classified_ids D Resolved r = derive_violation_id D ` {k \<in> set (bl_allowances b).
      as_subject_coverage a = Complete \<and>
      (\<exists>c \<in> set (as_coverage a). cv_rule c = vk_rule k \<and> cv_status c = Complete)} - violated_ids a \<and>
    distinct (map (\<lambda>c. derive_violation_id D (cl_key c)) (er_classifications r))"
proof (intro conjI)
  from assms have ev: "evaluable D p b bundle a" and r: "r = report D p b a"
    by (simp_all add: evaluate_Inr)
  note f = evaluable_facts [OF ev]
  have split: "x \<in> vi_id ` {v \<in> set (as_violations a). P v} \<longleftrightarrow>
      (\<exists>v \<in> set (as_violations a). x = derive_violation_id D (vi_key v) \<and> P v)" for x P
    using f(7) by auto
  have touched: "x \<in> touched_ids b a \<longleftrightarrow> \<not> same_subject b a (vk_subject (vi_key v))"
    if "v \<in> set (as_violations a)" "x = derive_violation_id D (vi_key v)" for v x
    using violation_ids_Collect [OF f(4) that(1)] f(7) [OF that(1)] that(2) by (simp add: touched_ids_def)
  have member: "x \<in> violated_ids a \<longleftrightarrow> (\<exists>v \<in> set (as_violations a). x = derive_violation_id D (vi_key v))" for x
    using f(7) by (auto simp: violated_ids_def)
  note ids = r current_ids [OF ev] set_eq_iff split current_kind_def
  show "classified_ids D Reintroduced r = violated_ids a \<inter> protected_ids D b"
    "classified_ids D NewRegression r = violated_ids a - protected_ids D b - allowed_ids D b"
    by (auto simp: ids member split: if_splits)
  show "classified_ids D TouchedLegacy r = violated_ids a \<inter> allowed_ids D b \<inter> touched_ids b a"
    "classified_ids D UnchangedLegacy r = violated_ids a \<inter> allowed_ids D b - touched_ids b a"
    using f(11) touched by (auto simp: ids member split: if_splits)
  show "classified_ids D Resolved r \<union> classified_ids D UnknownViolation r = allowed_ids D b - violated_ids a"
    using absent_kind_cases [of a] by (auto simp: r absent_ids allowed_ids_def)
  show "classified_ids D Resolved r = derive_violation_id D ` {k \<in> set (bl_allowances b).
      as_subject_coverage a = Complete \<and>
      (\<exists>c \<in> set (as_coverage a). cv_rule c = vk_rule k \<and> cv_status c = Complete)} - violated_ids a"
    by (simp only: r absent_ids absent_resolved insert_iff simp_thms)
  show "distinct (map (\<lambda>c. derive_violation_id D (cl_key c)) (er_classifications r))"
    using classified_distinct [OF ev] by (simp add: r)
qed

text \<open>
  An accepted evaluation passes exactly when the coverage is complete and every current
  violation is allowed for a subject that did not change; it fails exactly when some violation is
  not of this kind, whatever the coverage; and it is inconclusive otherwise. In particular a
  protected violation that is back makes it fail.
\<close>

theorem outcome_exact:
  assumes "evaluate_ratchet D p b bundle a = Inr r"
  shows "(er_outcome r = Pass \<longleftrightarrow> complete_coverage a \<and> violated_ids a \<subseteq> allowed_ids D b - touched_ids b a) \<and>
    (er_outcome r = Fail \<longleftrightarrow> \<not> violated_ids a \<subseteq> allowed_ids D b - touched_ids b a) \<and>
    (violated_ids a \<inter> protected_ids D b \<noteq> {} \<longrightarrow> er_outcome r = Fail)"
proof (intro conjI impI)
  from assms have ev: "evaluable D p b bundle a" and r: "r = report D p b a"
    by (simp_all add: evaluate_Inr)
  note f = evaluable_facts [OF ev]
  have "current_kind D b a (vi_key v) = UnchangedLegacy \<longleftrightarrow> vi_id v \<in> allowed_ids D b - touched_ids b a"
    if v: "v \<in> set (as_violations a)" for v
    using violation_ids_Collect [OF f(4) v] f(7) [OF v] f(11)
    by (auto simp: touched_ids_def current_kind_def)
  then have "(\<exists>v \<in> set (as_violations a). current_kind D b a (vi_key v) \<noteq> UnchangedLegacy) \<longleftrightarrow>
      \<not> violated_ids a \<subseteq> allowed_ids D b - touched_ids b a"
    by (auto simp: violated_ids_def)
  then have outcome: "er_outcome r = (if \<not> violated_ids a \<subseteq> allowed_ids D b - touched_ids b a then Fail
      else if complete_coverage a then Pass else Inconclusive)"
    unfolding r outcome_of_report [OF ev] by (simp only:)
  then show "er_outcome r = Pass \<longleftrightarrow> complete_coverage a \<and> violated_ids a \<subseteq> allowed_ids D b - touched_ids b a"
    "er_outcome r = Fail \<longleftrightarrow> \<not> violated_ids a \<subseteq> allowed_ids D b - touched_ids b a"
    by simp_all
  assume "violated_ids a \<inter> protected_ids D b \<noteq> {}"
  with f(11) outcome show "er_outcome r = Fail" by auto
qed

text \<open>
  A report is valid for a policy, a baseline, a bundle and an assessment exactly when it is
  what the evaluation computes from them: a computed report passes every check of its structure,
  and no other report does.
\<close>

theorem report_validation_exact:
  "validate_ratchet_evaluation_report D p b bundle a r = Inr () \<longleftrightarrow> evaluate_ratchet D p b bundle a = Inr r"
  by (simp add: validate_report_Inr evaluate_Inr)

section \<open>Example documents\<close>

text \<open>
  Assessments of the example repository with the violations of the given slots, and a baseline that
  allows and protects the given slots.
\<close>

definition ex_key :: "string \<Rightarrow> violation_key" where
  "ex_key slot = \<lparr>vk_rule = ex_rule, vk_subject = ''subject.q'', vk_slot = slot\<rparr>"

definition ex_assessment :: "string list \<Rightarrow> assessment" where
  "ex_assessment slots = \<lparr>as_id = ''assessment.0'', as_policy = policy_ref ex_digests ex_policy, as_source = ''b'',
     as_producer = VNone, as_procedure_uri = ''u'', as_capture_context = VNone,
     as_subject_coverage = Complete, as_subjects = [ex_subject],
     as_coverage = [\<lparr>cv_rule = ex_rule, cv_status = Complete, cv_subjects = [''subject.q'']\<rparr>],
     as_violations = map (\<lambda>s. \<lparr>vi_id = ''violation.'' @ s, vi_key = ex_key s, vi_message = ''m''\<rparr>) slots\<rparr>"

definition ex_baseline :: "string list \<Rightarrow> string list \<Rightarrow> baseline" where
  "ex_baseline allowed protected = \<lparr>bl_id = ''baseline.0'', bl_generation = 0,
     bl_policy = policy_ref ex_digests ex_policy,
     bl_source_assessment = \<lparr>dc_target = ''assessment.0'', dc_digest = ''0''\<rparr>,
     bl_source_evaluation = None, bl_predecessor = None, bl_subjects = [ex_subject],
     bl_allowances = map ex_key allowed, bl_protected = map ex_key protected\<rparr>"

lemmas ex_defs = ex_digests_def ex_rule_def ex_policy_def ex_subject_def ex_bundle_def ex_key_def
  ex_assessment_def ex_baseline_def

lemma ex_assessed:
  assumes "distinct slots" "sorted slots"
  shows "assessed ex_digests ex_policy ex_bundle (ex_assessment slots)"
  using assms
  by (simp add: assessed_def assessment_ok_def subjects_ok_def coverage_ok_def ex_defs comp_def
      policy_ref_def derive_policy_id_def derive_assessment_id_def derive_violation_id_def
      derive_behavior_subject_id_def sorted_set_def rule_ref_of_def)
    (simp add: distinct_map inj_on_def sorted_map)

lemma ex_evaluable:
  assumes "distinct slots" "sorted slots" "distinct allowed" "sorted allowed"
    and "distinct protected" "sorted protected" "set allowed \<inter> set protected = {}"
  shows "evaluable ex_digests ex_policy (ex_baseline allowed protected) ex_bundle (ex_assessment slots)"
  using ex_assessed [OF assms(1,2)] assms(3-)
  by (auto simp: evaluable_def baseline_ok_def subjects_ok_def ex_defs comp_def derive_baseline_id_def
      derive_violation_id_def derive_behavior_subject_id_def rule_ref_of_def distinct_map inj_on_def sorted_map)

lemma ex_ids:
  "violated_ids (ex_assessment slots) = (@) ''violation.'' ` set slots"
  "allowed_ids ex_digests (ex_baseline allowed protected) = (@) ''violation.'' ` set allowed"
  "protected_ids ex_digests (ex_baseline allowed protected) = (@) ''violation.'' ` set protected"
  "complete_coverage (ex_assessment slots)"
  "touched_ids (ex_baseline allowed protected) (ex_assessment slots) = {}"
  by (auto simp: violated_ids_def allowed_ids_def protected_ids_def complete_coverage_def touched_ids_def
      same_subject_def ex_defs derive_violation_id_def image_image)

theorem evaluation_classifies_witness:
  "\<exists>r. evaluate_ratchet ex_digests ex_policy (ex_baseline [''a''] [''b'']) ex_bundle (ex_assessment [''b'', ''c'']) = Inr r \<and>
     classified_ids ex_digests Reintroduced r = {''violation.b''} \<and>
     classified_ids ex_digests NewRegression r = {''violation.c''} \<and>
     classified_ids ex_digests Resolved r \<union> classified_ids ex_digests UnknownViolation r = {''violation.a''}"
proof -
  let ?b = "ex_baseline [''a''] [''b'']" and ?a = "ex_assessment [''b'', ''c'']"
  let ?r = "report ex_digests ex_policy ?b ?a"
  have "evaluable ex_digests ex_policy ?b ex_bundle ?a"
    by (rule ex_evaluable) simp_all
  then have ev: "evaluate_ratchet ex_digests ex_policy ?b ex_bundle ?a = Inr (report ex_digests ex_policy ?b ?a)"
    by (simp add: evaluate_Inr)
  note parts = evaluation_classifies [OF ev]
  have "classified_ids ex_digests Reintroduced ?r = {''violation.b''}"
    using conjunct1 [OF parts] by (simp add: ex_ids)
  moreover have "classified_ids ex_digests NewRegression ?r = {''violation.c''}"
    using conjunct1 [OF conjunct2 [OF parts]] by (simp add: ex_ids)
  moreover have "classified_ids ex_digests Resolved ?r \<union> classified_ids ex_digests UnknownViolation ?r = {''violation.a''}"
    using conjunct1 [OF conjunct2 [OF conjunct2 [OF conjunct2 [OF conjunct2 [OF parts]]]]] by (simp add: ex_ids)
  ultimately show ?thesis using ev by blast
qed

theorem outcome_exact_witness:
  "\<exists>r. evaluate_ratchet ex_digests ex_policy (ex_baseline [''a''] [''b'']) ex_bundle (ex_assessment [''b'']) = Inr r \<and>
     er_outcome r = Fail"
proof -
  let ?b = "ex_baseline [''a''] [''b'']" and ?a = "ex_assessment [''b'']"
  have "evaluable ex_digests ex_policy ?b ex_bundle ?a"
    by (rule ex_evaluable) simp_all
  then have ev: "evaluate_ratchet ex_digests ex_policy ?b ex_bundle ?a = Inr (report ex_digests ex_policy ?b ?a)"
    by (simp add: evaluate_Inr)
  have "er_outcome (report ex_digests ex_policy ?b ?a) = Fail"
    using outcome_exact [OF ev] by (simp add: ex_ids)
  with ev show ?thesis by blast
qed

end
