(* ===== verification/Ratchet_Baseline.thy ===== *)
theory Ratchet_Baseline
  imports Ratchet_Evaluation
begin

text \<open>
  Establishing and advancing a baseline, \<^verbatim>\<open>src/ucf/ratchet/baseline.py\<close>, the validations of
  baselines that recompute them in \<^verbatim>\<open>validation.py\<close>, and the chains of baselines this gives: what
  was allowed at the beginning is split, at every later time, into what is still allowed and what
  is resolved and protected, and only ever moves from the first part to the second.
\<close>

section \<open>Deriving baselines\<close>

definition with_baseline_id :: "digests \<Rightarrow> baseline \<Rightarrow> baseline" where
  "with_baseline_id D b = b\<lparr>bl_id := derive_baseline_id D b\<rparr>"

definition zero_baseline_id :: string where
  "zero_baseline_id = ''baseline.'' @ replicate 64 CHR ''0''"

definition derive_initial_baseline :: "digests \<Rightarrow> assessment \<Rightarrow> baseline" where
  "derive_initial_baseline D a = with_baseline_id D
     \<lparr>bl_id = zero_baseline_id, bl_generation = 0, bl_policy = as_policy a,
      bl_source_assessment = assessment_ref D a, bl_source_evaluation = None, bl_predecessor = None,
      bl_subjects = as_subjects a,
      bl_allowances = sort_key (derive_violation_id D) (map vi_key (as_violations a)),
      bl_protected = []\<rparr>"

text \<open>
  The model of a baseline bounds its generation and the number of its protected keys; these are
  the two bounds a successor can break when its predecessor and the report respect theirs.
\<close>

definition within_bounds :: "baseline \<Rightarrow> bool" where
  "within_bounds b \<longleftrightarrow> bl_generation b \<le> max_safe_integer \<and> length (bl_protected b) \<le> max_ratchet_violations"

definition successor_protected :: "digests \<Rightarrow> baseline \<Rightarrow> evaluation_report \<Rightarrow> violation_key list" where
  "successor_protected D b r =
     (let resolved = keys_by_id D (keys_of_kinds [Resolved] (er_classifications r));
          protected = dict_merge (keys_by_id D (bl_protected b)) resolved
      in map (\<lambda>identifier. the (map_of protected identifier)) (sorted_set (dict_keys protected)))"

definition derive_successor_baseline ::
  "digests \<Rightarrow> baseline \<Rightarrow> assessment \<Rightarrow> evaluation_report \<Rightarrow> (ratchet_error, baseline) res" where
  "derive_successor_baseline D b a r =
     (let provisional =
        \<lparr>bl_id = zero_baseline_id, bl_generation = bl_generation b + 1, bl_policy = bl_policy b,
         bl_source_assessment = assessment_ref D a, bl_source_evaluation = Some (evaluation_ref D r),
         bl_predecessor = Some (baseline_ref D b), bl_subjects = as_subjects a,
         bl_allowances = sort_key (derive_violation_id D)
           (keys_of_kinds [UnchangedLegacy] (er_classifications r)),
         bl_protected = successor_protected D b r\<rparr>
      in res_bind (require (within_bounds provisional \<and> generation_ok provisional) (OutOfBounds ''RatchetBaseline''))
        (\<lambda>_. Inr (with_baseline_id D provisional)))"

section \<open>Validation against the recomputed baseline\<close>

definition coverage_check :: "assessment \<Rightarrow> string \<Rightarrow> check" where
  "coverage_check a message =
     check (\<not> (as_subject_coverage a \<noteq> Complete \<or> (\<exists>c \<in> set (as_coverage a). cv_status c \<noteq> Complete)))
       INCOMPLETE_COVERAGE message ''$.source_assessment.coverage''"

definition compare_baselines :: "digests \<Rightarrow> baseline \<Rightarrow> baseline \<Rightarrow> string \<Rightarrow> string \<Rightarrow> check" where
  "compare_baselines D b expected message id_message =
     (let same = (\<lambda>ok location. check ok SUMMARY_MISMATCH message location)
      in checks
        [same (bl_policy b = bl_policy expected) ''$.policy'',
         same (bl_source_assessment b = bl_source_assessment expected) ''$.source_assessment'',
         same (bl_source_evaluation b = bl_source_evaluation expected) ''$.source_evaluation'',
         same (bl_predecessor b = bl_predecessor expected) ''$.predecessor'',
         same (bl_generation b = bl_generation expected) ''$.generation'',
         same (bl_subjects b = bl_subjects expected) ''$.subjects'',
         same (bl_allowances b = bl_allowances expected) ''$.allowances'',
         same (bl_protected b = bl_protected expected) ''$.protected'',
         validate_ratchet_baseline_structure D b,
         check (bl_id b = bl_id expected) SUMMARY_MISMATCH id_message ''$.id''])"

definition validate_initial_ratchet_baseline ::
  "digests \<Rightarrow> ratchet_policy \<Rightarrow> bundle_view \<Rightarrow> assessment \<Rightarrow> baseline \<Rightarrow> check" where
  "validate_initial_ratchet_baseline D p bundle a b =
     checks
       [validate_ratchet_assessment D p bundle a,
        coverage_check a ''initial baseline requires complete subject and rule coverage'',
        compare_baselines D b (derive_initial_baseline D a)
          ''initial baseline differs from its exact source assessment''
          ''initial baseline identity differs from its derived state'']"

definition validate_successor_ratchet_baseline ::
  "digests \<Rightarrow> ratchet_policy \<Rightarrow> baseline \<Rightarrow> bundle_view \<Rightarrow> assessment \<Rightarrow> evaluation_report \<Rightarrow> baseline \<Rightarrow> check" where
  "validate_successor_ratchet_baseline D p predecessor bundle a r b =
     res_bind (checks
       [validate_ratchet_evaluation_report D p predecessor bundle a r,
        coverage_check a ''successor baseline requires complete subject and rule coverage'',
        check (er_outcome r = Pass) ILLEGAL_WEAKENING
          ''successor baseline requires a passing evaluation'' ''$.source_evaluation'']) (\<lambda>_.
     res_bind (derive_successor_baseline D predecessor a r) (\<lambda>expected.
     compare_baselines D b expected
       ''successor baseline differs from its exact evaluation''
       ''successor baseline identity differs from its derived state''))"

section \<open>Establishing and advancing\<close>

definition establish_ratchet_baseline ::
  "digests \<Rightarrow> ratchet_policy \<Rightarrow> bundle_view \<Rightarrow> assessment \<Rightarrow> (ratchet_error, baseline) res" where
  "establish_ratchet_baseline D p bundle a =
     res_bind (checks
       [validate_ratchet_assessment D p bundle a,
        coverage_check a ''initial baseline requires complete subject and rule coverage'']) (\<lambda>_.
     let b = derive_initial_baseline D a in
     res_bind (validate_initial_ratchet_baseline D p bundle a b) (\<lambda>_. Inr b))"

definition advance_ratchet_baseline ::
  "digests \<Rightarrow> ratchet_policy \<Rightarrow> baseline \<Rightarrow> bundle_view \<Rightarrow> assessment \<Rightarrow> evaluation_report \<Rightarrow>
   (ratchet_error, baseline) res" where
  "advance_ratchet_baseline D p predecessor bundle a r =
     res_bind (checks
       [validate_ratchet_evaluation_report D p predecessor bundle a r,
        coverage_check a ''baseline advance requires complete subject and rule coverage'',
        check (er_outcome r = Pass) ILLEGAL_WEAKENING
          ''only a passing evaluation can advance the accepted baseline'' ''$.outcome'']) (\<lambda>_.
     res_bind (derive_successor_baseline D predecessor a r) (\<lambda>successor.
     res_bind (validate_successor_ratchet_baseline D p predecessor bundle a r successor) (\<lambda>_.
     Inr successor)))"

section \<open>The derived baselines\<close>

lemma with_baseline_id_simps [simp]:
  "bl_id (with_baseline_id D b) = derive_baseline_id D (with_baseline_id D b)"
  "bl_generation (with_baseline_id D b) = bl_generation b"
  "bl_policy (with_baseline_id D b) = bl_policy b"
  "bl_source_assessment (with_baseline_id D b) = bl_source_assessment b"
  "bl_source_evaluation (with_baseline_id D b) = bl_source_evaluation b"
  "bl_predecessor (with_baseline_id D b) = bl_predecessor b"
  "bl_subjects (with_baseline_id D b) = bl_subjects b"
  "bl_allowances (with_baseline_id D b) = bl_allowances b"
  "bl_protected (with_baseline_id D b) = bl_protected b"
  by (simp_all add: with_baseline_id_def derive_baseline_id_def)

lemma coverage_check_Inr [simp]: "coverage_check a m = Inr u \<longleftrightarrow> complete_coverage a"
  by (auto simp: coverage_check_def complete_coverage_def)

lemma compare_baselines_Inr: "compare_baselines D b b' m m' = Inr u \<longleftrightarrow> baseline_ok D b \<and> b = b'"
  by (auto simp: compare_baselines_def Let_def)

lemma initial_ok:
  assumes "assessed D p bundle a"
  shows "baseline_ok D (derive_initial_baseline D a)"
proof -
  have ok: "assessment_ok D a" using assms by (simp only: assessed_def)
  then have ids: "map (\<lambda>v. derive_violation_id D (vi_key v)) (as_violations a) = map vi_id (as_violations a)"
    by (simp add: assessment_ok_def)
  have dist: "distinct (map (derive_violation_id D) (map vi_key (as_violations a)))"
    using ok by (simp add: comp_def ids) (simp add: assessment_ok_def)
  then have "distinct (map (derive_violation_id D) (sort_key (derive_violation_id D) (map vi_key (as_violations a))))"
    by (simp only: distinct_map set_sort distinct_sort)
  then show ?thesis
    using ok by (auto simp: baseline_ok_def derive_initial_baseline_def assessment_ok_def)
qed

lemma establish_Inr:
  "establish_ratchet_baseline D p bundle a = Inr b \<longleftrightarrow>
     assessed D p bundle a \<and> complete_coverage a \<and> b = derive_initial_baseline D a"
  using initial_ok [of D p _ a]
  by (auto simp: establish_ratchet_baseline_def validate_initial_ratchet_baseline_def Let_def res_bind_Inr
      validate_assessment_Inr compare_baselines_Inr)

lemma validate_initial_Inr:
  "validate_initial_ratchet_baseline D p bundle a b = Inr u \<longleftrightarrow>
     assessed D p bundle a \<and> complete_coverage a \<and> b = derive_initial_baseline D a"
  using initial_ok [of D p _ a]
  by (auto simp: validate_initial_ratchet_baseline_def validate_assessment_Inr compare_baselines_Inr)

lemma keys_of_kind_ids:
  "derive_violation_id D ` set (keys_of_kinds [kind] (er_classifications r)) = classified_ids D kind r"
  by (auto simp: keys_of_kinds_def classified_ids_def image_image)

lemma establish_ids:
  assumes "assessed D p bundle a"
  shows "allowed_ids D (derive_initial_baseline D a) = violated_ids a"
    "protected_ids D (derive_initial_baseline D a) = {}"
  using assms
  by (auto simp: derive_initial_baseline_def allowed_ids_def protected_ids_def violated_ids_def
      assessed_def assessment_ok_def image_image intro!: image_cong)

text \<open>Two key lists with disjoint identifiers, merged into one dictionary.\<close>

lemma merged_keys:
  assumes "distinct (map (derive_violation_id D) (ks @ ls))"
  shows "dict_merge (keys_by_id D ks) (keys_by_id D ls) = map (\<lambda>k. (derive_violation_id D k, k)) (ks @ ls)"
proof -
  have "keys_by_id D ks = map (\<lambda>k. (derive_violation_id D k, k)) ks"
    "keys_by_id D ls = map (\<lambda>k. (derive_violation_id D k, k)) ls"
    using assms by (simp_all add: keys_by_id_distinct)
  moreover have "distinct (map fst (map (\<lambda>k. (derive_violation_id D k, k)) (ks @ ls)))"
    using assms by (simp add: comp_def)
  ultimately show ?thesis by (simp add: dict_merge_fresh)
qed

lemma sorted_by_id:
  assumes "distinct (map (derive_violation_id D) ks)"
  shows "map (derive_violation_id D) (map (\<lambda>i. the (map_of (map (\<lambda>k. (derive_violation_id D k, k)) ks) i))
      (sorted_set (map (derive_violation_id D) ks))) = sorted_set (map (derive_violation_id D) ks)"
proof -
  have "derive_violation_id D (the (map_of (map (\<lambda>k. (derive_violation_id D k, k)) ks) i)) = i"
    if "i \<in> derive_violation_id D ` set ks" for i
    using that map_of_map_distinct [OF assms, of _ "\<lambda>k. k"] by auto
  then show ?thesis unfolding map_map by (intro map_idI) simp
qed

lemma successor_protected_ids:
  assumes ev: "evaluable D p b bundle a" and r: "r = report D p b a"
  shows "map (derive_violation_id D) (successor_protected D b r) =
      sorted_set (map (derive_violation_id D)
        (bl_protected b @ keys_of_kinds [Resolved] (er_classifications r)))" (is ?order)
    and "distinct (map (derive_violation_id D)
        (bl_protected b @ keys_of_kinds [Resolved] (er_classifications r)))" (is "distinct ?ids")
proof -
  note f = evaluable_facts [OF ev]
  have resolved: "classified_ids D Resolved r \<subseteq> allowed_ids D b"
    unfolding r by (auto simp: absent_ids allowed_ids_def)
  have "distinct (map (derive_violation_id D) (keys_of_kinds [Resolved] (er_classifications r)))"
    unfolding r report_simps
    by (rule keys_of_kinds_unique(1) [OF classified_distinct [OF ev]]) (simp add: sorted_classified_def)
  moreover have "derive_violation_id D ` set (bl_protected b) \<inter>
      derive_violation_id D ` set (keys_of_kinds [Resolved] (er_classifications r)) = {}"
    unfolding keys_of_kind_ids using f(11) resolved by (auto simp: protected_ids_def)
  ultimately show dist: "distinct ?ids" using f(6) by simp
  then show ?order
    unfolding successor_protected_def Let_def merged_keys [OF dist] using sorted_by_id [OF dist]
    by (simp add: comp_def)
qed

lemma successor_Inr:
  assumes ev: "evaluable D p b bundle a" and r: "r = report D p b a" and pass: "er_outcome r = Pass"
    and suc: "derive_successor_baseline D b a r = Inr b'"
  shows "baseline_ok D b'" "allowed_ids D b' = violated_ids a" "violated_ids a \<subseteq> allowed_ids D b"
    "protected_ids D b' = protected_ids D b \<union> (allowed_ids D b - violated_ids a)"
    "bl_generation b' = bl_generation b + 1" "generation_ok b'" "within_bounds b'"
    "bl_predecessor b' = Some (baseline_ref D b)"
proof -
  note f = evaluable_facts [OF ev]
  have ev': "evaluate_ratchet D p b bundle a = Inr r" using ev r by (simp add: evaluate_Inr)
  have suc': "bl_allowances b' = sort_key (derive_violation_id D) (keys_of_kinds [UnchangedLegacy] (er_classifications r))"
    "bl_protected b' = successor_protected D b r" "bl_subjects b' = as_subjects a"
    "bl_id b' = derive_baseline_id D b'"
    using suc by (auto simp: derive_successor_baseline_def Let_def res_bind_Inr)
  show gen: "bl_generation b' = bl_generation b + 1" "generation_ok b'" "within_bounds b'"
    "bl_predecessor b' = Some (baseline_ref D b)"
    using suc by (auto simp: derive_successor_baseline_def Let_def res_bind_Inr within_bounds_def
        generation_ok_def baseline_ref_def)
  have kinds: "\<And>v. v \<in> set (as_violations a) \<Longrightarrow> current_kind D b a (vi_key v) = UnchangedLegacy"
    and complete: "complete_coverage a"
    using pass unfolding r outcome_of_report [OF ev] by (metis evaluation_outcome.distinct)+
  show allowed: "allowed_ids D b' = violated_ids a"
    using kinds unfolding allowed_ids_def suc'(1) set_sort keys_of_kind_ids r
    by (auto simp: current_ids [OF ev] violated_ids_def)
  show subset: "violated_ids a \<subseteq> allowed_ids D b"
  proof
    fix x assume "x \<in> violated_ids a"
    then obtain v where v: "v \<in> set (as_violations a)" "x = vi_id v" by (auto simp: violated_ids_def)
    with kinds [OF v(1)] f(7) [OF v(1)] show "x \<in> allowed_ids D b"
      by (simp add: current_kind_def split: if_splits)
  qed
  have resolved: "classified_ids D Resolved r = allowed_ids D b - violated_ids a"
    using complete_resolved [OF ev complete] unfolding r by (auto simp: absent_ids allowed_ids_def)
  have "protected_ids D b' = set (map (derive_violation_id D) (successor_protected D b r))"
    by (simp add: protected_ids_def suc')
  then show protected: "protected_ids D b' = protected_ids D b \<union> (allowed_ids D b - violated_ids a)"
    by (simp add: successor_protected_ids(1) [OF ev r] protected_ids_def image_Un keys_of_kind_ids resolved)
  have "distinct (map (derive_violation_id D) (keys_of_kinds [UnchangedLegacy] (er_classifications r)))"
    unfolding r report_simps
    by (rule keys_of_kinds_unique(1) [OF classified_distinct [OF ev]]) (simp add: sorted_classified_def)
  then have dist: "distinct (map (derive_violation_id D) (bl_allowances b'))"
    unfolding suc' by (simp only: distinct_map set_sort distinct_sort)
  have subjects: "vk_subject k \<in> ss_id ` set (as_subjects a)" if "k \<in> set (bl_allowances b')" for k
  proof -
    from that have "\<lparr>cl_kind = UnchangedLegacy, cl_key = k\<rparr> \<in> set (classified D b a)"
      by (auto simp: suc' r keys_of_kinds_def)
        (metis (full_types) classification.surjective old.unit.exhaust)
    then show ?thesis
      using f(8) absent_kind_cases [of a k] by (auto simp: classified_def)
  qed
  have sorted: "sorted (map (derive_violation_id D) (bl_allowances b'))"
    "sorted (map (derive_violation_id D) (bl_protected b'))"
    "distinct (map (derive_violation_id D) (bl_protected b'))"
    unfolding suc' successor_protected_ids(1) [OF ev r] by simp_all
  have disjoint: "allowed_ids D b' \<inter> protected_ids D b' = {}"
    using allowed subset protected f(11) by blast
  have "subjects_ok D (as_subjects a)"
    using ev unfolding evaluable_def assessed_def assessment_ok_def by blast
  then show "baseline_ok D b'"
    unfolding baseline_ok_def allowed_ids_def [symmetric] protected_ids_def [symmetric]
    using dist sorted disjoint subjects suc'(3,4) by simp
qed

text \<open>A successor can be evaluated against any later valid assessment for the same policy.\<close>

lemma successor_protected_subset:
  assumes ev: "evaluable D p b bundle a" and r: "r = report D p b a"
  shows "set (successor_protected D b r) \<subseteq> set (bl_protected b) \<union> cl_key ` set (er_classifications r)"
proof -
  let ?ks = "bl_protected b @ keys_of_kinds [Resolved] (er_classifications r)"
  note dist = successor_protected_ids(2) [OF ev r]
  have "the (map_of (map (\<lambda>k. (derive_violation_id D k, k)) ?ks) i) \<in> set ?ks"
    if i: "i \<in> derive_violation_id D ` set ?ks" for i
  proof -
    from i obtain k where "k \<in> set ?ks" "i = derive_violation_id D k" by blast
    with map_of_map_distinct [OF dist, of k "\<lambda>k. k"] show ?thesis by simp
  qed
  then have "set (successor_protected D b r) \<subseteq> set ?ks"
    unfolding successor_protected_def Let_def merged_keys [OF dist] by (auto simp: image_image)
  then show ?thesis by (auto simp: keys_of_kinds_def)
qed

lemma classified_rules:
  assumes ev: "evaluable D p b bundle a"
  shows "vk_rule ` cl_key ` set (classified D b a) \<subseteq> rule_ref_of ` set (po_rules p)"
proof -
  have "vk_rule (vi_key v) \<in> cv_rule ` set (as_coverage a)" if "v \<in> set (as_violations a)" for v
    using ev that unfolding evaluable_def assessed_def assessment_ok_def by blast
  moreover have "cv_rule ` set (as_coverage a) = rule_ref_of ` set (po_rules p)"
    using ev unfolding evaluable_def assessed_def by blast
  ultimately show ?thesis using evaluable_facts(10) [OF ev] by (fastforce simp: classified_def)
qed

lemma successor_evaluable:
  assumes ev: "evaluable D p b bundle a" and r: "r = report D p b a" and pass: "er_outcome r = Pass"
    and suc: "derive_successor_baseline D b a r = Inr b'" and later: "assessed D p bundle' a'"
  shows "evaluable D p b' bundle' a'"
proof -
  have suc': "set (bl_allowances b') = set (keys_of_kinds [UnchangedLegacy] (er_classifications r))"
    "bl_protected b' = successor_protected D b r" "bl_policy b' = bl_policy b"
    using suc by (auto simp: derive_successor_baseline_def Let_def res_bind_Inr)
  let ?rules = "rule_ref_of ` set (po_rules p)"
  have allowances: "set (bl_allowances b') \<subseteq> cl_key ` set (classified D b a)"
    unfolding suc' r by (auto simp: keys_of_kinds_def)
  have protected: "set (bl_protected b') \<subseteq> set (bl_protected b) \<union> cl_key ` set (classified D b a)"
    using successor_protected_subset [OF ev r] unfolding suc' by (simp add: r)
  have before: "vk_rule ` set (bl_protected b) \<subseteq> ?rules" "bl_policy b = policy_ref D p"
    using ev unfolding evaluable_def by auto
  have "vk_rule ` set (bl_allowances b') \<subseteq> ?rules"
    using image_mono [OF allowances] classified_rules [OF ev] by (rule order_trans)
  moreover have "vk_rule ` set (bl_protected b') \<subseteq> vk_rule ` (set (bl_protected b) \<union> cl_key ` set (classified D b a))"
    by (rule image_mono [OF protected])
  then have "vk_rule ` set (bl_protected b') \<subseteq> ?rules"
    using classified_rules [OF ev] before(1) unfolding image_Un by (meson Un_least order_trans)
  ultimately have "vk_rule ` set (bl_allowances b' @ bl_protected b') \<subseteq> ?rules"
    unfolding set_append image_Un by (rule Un_least)
  then show ?thesis
    using successor_Inr(1) [OF ev r pass suc] later suc'(3) before(2)
    unfolding evaluable_def by simp
qed

section \<open>Properties\<close>

text \<open>
  A baseline is established exactly from a valid assessment whose coverage is complete. It is
  then of generation 0, valid in itself and accepted by the validation of initial baselines,
  which accepts no other; it allows exactly the current violations and protects nothing.
\<close>

theorem establish_exact:
  "((\<exists>b. establish_ratchet_baseline D p bundle a = Inr b) \<longleftrightarrow>
     validate_ratchet_assessment D p bundle a = Inr () \<and> complete_coverage a) \<and>
   (\<forall>b. establish_ratchet_baseline D p bundle a = Inr b \<longleftrightarrow>
     validate_initial_ratchet_baseline D p bundle a b = Inr ()) \<and>
   (\<forall>b. establish_ratchet_baseline D p bundle a = Inr b \<longrightarrow>
     bl_generation b = 0 \<and> generation_ok b \<and> validate_ratchet_baseline_structure D b = Inr () \<and>
     allowed_ids D b = violated_ids a \<and> protected_ids D b = {})"
  using initial_ok [of D p _ a] establish_ids [of D p _ a]
  by (auto simp: establish_Inr validate_initial_Inr validate_assessment_Inr)
    (auto simp: derive_initial_baseline_def generation_ok_def)

lemma advance_Inr:
  "advance_ratchet_baseline D p b bundle a r = Inr b' \<longleftrightarrow>
     evaluable D p b bundle a \<and> r = report D p b a \<and> er_outcome r = Pass \<and>
     derive_successor_baseline D b a r = Inr b'"
proof -
  have complete: "complete_coverage a" if "evaluable D p b bundle a" "er_outcome (report D p b a) = Pass"
    using that(2) unfolding outcome_of_report [OF that(1)] by (metis evaluation_outcome.distinct)
  show ?thesis
    using complete successor_Inr(1) [of D p b _ a r b']
    by (auto simp: advance_ratchet_baseline_def validate_successor_ratchet_baseline_def res_bind_Inr
        validate_report_Inr compare_baselines_Inr)
qed

lemma validate_successor_Inr:
  "validate_successor_ratchet_baseline D p b bundle a r b' = Inr u \<longleftrightarrow>
     advance_ratchet_baseline D p b bundle a r = Inr b'"
proof -
  have complete: "complete_coverage a" if "evaluable D p b bundle a" "er_outcome (report D p b a) = Pass"
    using that(2) unfolding outcome_of_report [OF that(1)] by (metis evaluation_outcome.distinct)
  show ?thesis
    unfolding advance_Inr
    using complete successor_Inr(1) [of D p b _ a r b']
    by (auto simp: validate_successor_ratchet_baseline_def res_bind_Inr
        validate_report_Inr compare_baselines_Inr)
qed

lemma successor_exists:
  assumes ev: "evaluable D p b bundle a" and r: "r = report D p b a" and pass: "er_outcome r = Pass"
  shows "(\<exists>b'. derive_successor_baseline D b a r = Inr b') \<longleftrightarrow>
    bl_generation b < max_safe_integer \<and>
    card (protected_ids D b \<union> (allowed_ids D b - violated_ids a)) \<le> max_ratchet_violations"
proof -
  have complete: "complete_coverage a"
    using pass unfolding r outcome_of_report [OF ev] by (metis evaluation_outcome.distinct)
  have resolved: "classified_ids D Resolved r = allowed_ids D b - violated_ids a"
    using complete_resolved [OF ev complete] unfolding r by (auto simp: absent_ids allowed_ids_def)
  have "set (map (derive_violation_id D) (successor_protected D b r)) =
      protected_ids D b \<union> (allowed_ids D b - violated_ids a)"
    by (simp add: successor_protected_ids(1) [OF ev r] protected_ids_def image_Un keys_of_kind_ids resolved)
  moreover have "distinct (map (derive_violation_id D) (successor_protected D b r))"
    by (simp add: successor_protected_ids(1) [OF ev r])
  ultimately have "length (successor_protected D b r) =
      card (protected_ids D b \<union> (allowed_ids D b - violated_ids a))"
    by (metis distinct_card length_map)
  then show ?thesis
    by (auto simp: derive_successor_baseline_def Let_def res_bind_Inr within_bounds_def
        generation_ok_def baseline_ref_def)
qed

text \<open>
  C6: A baseline advances exactly on the passing report the evaluation computes for it, as long as
  the generation and the number of protected keys stay within the bounds of the model; the
  validation of successor baselines accepts exactly the baselines that advancing returns.
\<close>

theorem advance_exact:
  "((\<exists>b'. advance_ratchet_baseline D p b bundle a r = Inr b') \<longleftrightarrow>
     evaluate_ratchet D p b bundle a = Inr r \<and> er_outcome r = Pass \<and>
     bl_generation b < max_safe_integer \<and>
     card (protected_ids D b \<union> (allowed_ids D b - violated_ids a)) \<le> max_ratchet_violations) \<and>
   (\<forall>b'. validate_successor_ratchet_baseline D p b bundle a r b' = Inr () \<longleftrightarrow>
     advance_ratchet_baseline D p b bundle a r = Inr b')"
  unfolding validate_successor_Inr advance_Inr evaluate_Inr
  using successor_exists [of D p b _ a r] by auto

lemma advance_facts:
  assumes "advance_ratchet_baseline D p b bundle a r = Inr b'"
  shows "baseline_ok D b' \<and> generation_ok b' \<and> bl_generation b' = bl_generation b + 1 \<and>
    bl_predecessor b' = Some (baseline_ref D b) \<and>
    allowed_ids D b' = violated_ids a \<and> allowed_ids D b' \<subseteq> allowed_ids D b \<and>
    protected_ids D b' = protected_ids D b \<union> (allowed_ids D b - allowed_ids D b')"
proof -
  from assms have ev: "evaluable D p b bundle a" and r: "r = report D p b a"
    and pass: "er_outcome r = Pass" and suc: "derive_successor_baseline D b a r = Inr b'"
    unfolding advance_Inr by blast+
  note facts = successor_Inr [OF ev r pass suc]
  show ?thesis using facts(1,3-6,8) unfolding facts(2) by blast
qed

text \<open>
  Advancing never loosens a baseline: the successor is valid, allows exactly the current
  violations, all of which were allowed before, and protects what was protected before and what
  was allowed and is resolved.
\<close>

theorem advance_tightens:
  assumes "advance_ratchet_baseline D p b bundle a r = Inr b'"
  shows "baseline_ok D b' \<and> generation_ok b' \<and> bl_generation b' = bl_generation b + 1 \<and>
    bl_predecessor b' = Some (baseline_ref D b) \<and>
    allowed_ids D b' = violated_ids a \<and> allowed_ids D b' \<subseteq> allowed_ids D b \<and>
    protected_ids D b' = protected_ids D b \<union> (allowed_ids D b - allowed_ids D b')"
  by (rule advance_facts [OF assms])

section \<open>Chains of baselines\<close>

inductive ratchet_step :: "digests \<Rightarrow> baseline \<Rightarrow> baseline \<Rightarrow> bool" for D where
  advance: "advance_ratchet_baseline D p b bundle a r = Inr b' \<Longrightarrow> ratchet_step D b b'"

inductive established :: "digests \<Rightarrow> baseline \<Rightarrow> bool" for D where
  initial: "establish_ratchet_baseline D p bundle a = Inr b \<Longrightarrow> established D b"

inductive_cases ratchet_stepE: "ratchet_step D b b'"
inductive_cases establishedE: "established D b"

lemma established_ok: "established D b \<Longrightarrow> baseline_ok D b \<and> generation_ok b"
  by (elim establishedE) (auto simp: establish_Inr initial_ok, simp add: derive_initial_baseline_def generation_ok_def)

lemma step_facts:
  assumes "ratchet_step D b b'"
  shows "baseline_ok D b' \<and> generation_ok b'" "allowed_ids D b' \<subseteq> allowed_ids D b"
    "protected_ids D b' = protected_ids D b \<union> (allowed_ids D b - allowed_ids D b')"
    "bl_generation b' = bl_generation b + 1"
  using assms by (elim ratchet_stepE; use advance_facts in blast)+

interpretation wf_chain: transition_system "established D" "ratchet_step D"
    "\<lambda>b. baseline_ok D b \<and> generation_ok b" for D
  by unfold_locales (simp_all add: established_ok step_facts)

interpretation kept_chain: transition_system "\<lambda>b. i \<in> protected_ids D b" "ratchet_step D"
    "\<lambda>b. i \<in> protected_ids D b" for D i
  by unfold_locales (auto simp: step_facts(3))

interpretation allowed_chain: transition_system "\<lambda>b. allowed_ids D b \<subseteq> A" "ratchet_step D"
    "\<lambda>b. allowed_ids D b \<subseteq> A" for D A
  by unfold_locales (auto dest: step_facts(2))

interpretation split_chain: transition_system "\<lambda>b. allowed_ids D b \<union> protected_ids D b = A" "ratchet_step D"
    "\<lambda>b. allowed_ids D b \<union> protected_ids D b = A" for D A
  by unfold_locales (use step_facts(2,3) in blast)+

text \<open>
  C4: Along every chain of baselines that starts with an established one, each baseline is valid
  and splits the violations of the beginning into the allowed and the protected ones; what is
  allowed only shrinks and what is protected only grows.
\<close>

theorem chain_never_loosens:
  assumes "established D b0" and "(ratchet_step D)\<^sup>*\<^sup>* b0 b" and "(ratchet_step D)\<^sup>*\<^sup>* b b'"
  shows "baseline_ok D b' \<and> generation_ok b' \<and>
    allowed_ids D b' \<union> protected_ids D b' = allowed_ids D b0 \<and>
    allowed_ids D b' \<inter> protected_ids D b' = {} \<and>
    allowed_ids D b' \<subseteq> allowed_ids D b \<and> protected_ids D b \<subseteq> protected_ids D b'"
proof -
  have chain: "(ratchet_step D)\<^sup>*\<^sup>* b0 b'" using assms(2,3) by (rule rtranclp_trans)
  have ok: "baseline_ok D b' \<and> generation_ok b'" using wf_chain.inv_reachable [OF assms(1) chain] .
  have "protected_ids D b0 = {}"
    using assms(1) by (auto elim!: establishedE simp: establish_Inr establish_ids)
  then have "allowed_ids D b' \<union> protected_ids D b' = allowed_ids D b0"
    using split_chain.inv_reachable [OF refl chain] by simp
  moreover have "allowed_ids D b' \<inter> protected_ids D b' = {}"
    using ok by (simp add: baseline_ok_def allowed_ids_def protected_ids_def)
  moreover have "protected_ids D b \<subseteq> protected_ids D b'"
    using kept_chain.inv_reachable [OF _ assms(3)] by blast
  moreover have "allowed_ids D b' \<subseteq> allowed_ids D b"
    using allowed_chain.inv_reachable [OF order_refl assms(3)] .
  ultimately show ?thesis using ok by simp
qed

text \<open>
  C5: A violation that is protected at some time can never be accepted again: no later baseline
  allows it, and every accepted evaluation of an assessment that shows it fails.
\<close>

theorem resolved_stays_resolved:
  assumes "i \<in> protected_ids D b" and "(ratchet_step D)\<^sup>*\<^sup>* b b'"
    and "evaluate_ratchet D p b' bundle a = Inr r" and "i \<in> violated_ids a"
  shows "i \<notin> allowed_ids D b' \<and> er_outcome r = Fail \<and>
    (\<forall>b''. advance_ratchet_baseline D p b' bundle a r \<noteq> Inr b'')"
proof -
  have ev: "evaluable D p b' bundle a" and r: "r = report D p b' a"
    using assms(3) by (simp_all add: evaluate_Inr)
  have i: "i \<in> protected_ids D b'" using kept_chain.inv_reachable [OF assms(1,2)] .
  obtain v where v: "v \<in> set (as_violations a)" "i = vi_id v"
    using assms(4) by (auto simp: violated_ids_def)
  then have "current_kind D b' a (vi_key v) = Reintroduced"
    using evaluable_facts(7) [OF ev v(1)] i by (simp add: current_kind_def)
  then have "er_outcome r = Fail"
    unfolding r outcome_of_report [OF ev] using v(1) by (metis classification_kind.distinct)
  then show ?thesis using i evaluable_facts(11) [OF ev] by (auto simp: advance_Inr)
qed

section \<open>An example chain\<close>

text \<open>Two violations are allowed at first, one of them is resolved, and then it is back.\<close>

definition ex_initial :: baseline where
  "ex_initial = derive_initial_baseline ex_digests (ex_assessment [''a'', ''b''])"

definition ex_report :: evaluation_report where
  "ex_report = report ex_digests ex_policy ex_initial (ex_assessment [''a''])"

lemma ex_established: "establish_ratchet_baseline ex_digests ex_policy ex_bundle (ex_assessment [''a'', ''b'']) = Inr ex_initial"
  by (simp add: establish_Inr ex_assessed ex_ids ex_initial_def)

lemma ex_initial_ids:
  "allowed_ids ex_digests ex_initial = {''violation.a'', ''violation.b''}"
  "protected_ids ex_digests ex_initial = {}"
  using establish_ids [OF ex_assessed [of "[''a'', ''b'']"]] by (simp_all add: ex_initial_def ex_ids)

lemma ex_initial_evaluable:
  assumes "distinct slots" "sorted slots"
  shows "evaluable ex_digests ex_policy ex_initial ex_bundle (ex_assessment slots)"
proof -
  have "baseline_ok ex_digests ex_initial"
    unfolding ex_initial_def by (rule initial_ok [OF ex_assessed]) simp_all
  then show ?thesis
    using ex_assessed [OF assms]
    by (simp add: evaluable_def) (simp add: ex_initial_def derive_initial_baseline_def ex_defs rule_ref_of_def)
qed

lemma ex_advance: "\<exists>b. advance_ratchet_baseline ex_digests ex_policy ex_initial ex_bundle (ex_assessment [''a'']) ex_report = Inr b"
proof -
  have ev: "evaluable ex_digests ex_policy ex_initial ex_bundle (ex_assessment [''a''])"
    by (rule ex_initial_evaluable) simp_all
  have "same_subject ex_initial (ex_assessment [''a'']) ''subject.q''"
    by (simp add: same_subject_def ex_initial_def derive_initial_baseline_def ex_defs)
  then have "current_kind ex_digests ex_initial (ex_assessment [''a'']) (ex_key ''a'') = UnchangedLegacy"
    by (simp add: current_kind_def ex_initial_ids) (simp add: ex_defs derive_violation_id_def)
  then have pass: "er_outcome ex_report = Pass"
    unfolding ex_report_def outcome_of_report [OF ev] by (simp add: ex_ids) (simp add: ex_assessment_def)
  have gen: "bl_generation ex_initial = 0"
    by (simp add: ex_initial_def derive_initial_baseline_def)
  show ?thesis
    using successor_exists [OF ev ex_report_def pass] ev pass
    by (simp add: advance_Inr ex_report_def [symmetric] ex_initial_ids ex_ids gen max_safe_integer_def
        max_ratchet_violations_def max_ratchet_rules_def max_ratchet_subjects_def)
qed

definition ex_successor :: baseline where
  "ex_successor = (case derive_successor_baseline ex_digests ex_initial (ex_assessment [''a'']) ex_report of
     Inr b \<Rightarrow> b | Inl _ \<Rightarrow> ex_initial)"

lemma ex_advanced:
  "advance_ratchet_baseline ex_digests ex_policy ex_initial ex_bundle (ex_assessment [''a'']) ex_report = Inr ex_successor"
  using ex_advance by (auto simp: advance_Inr ex_successor_def)

lemma ex_step: "ratchet_step ex_digests ex_initial ex_successor"
  by (rule ratchet_step.advance [OF ex_advanced])

lemma ex_successor_ids:
  "allowed_ids ex_digests ex_successor = {''violation.a''}"
  "protected_ids ex_digests ex_successor = {''violation.b''}"
proof -
  note facts = advance_facts [OF ex_advanced]
  show allowed: "allowed_ids ex_digests ex_successor = {''violation.a''}"
    using facts by (simp add: ex_ids)
  have "protected_ids ex_digests ex_successor =
      protected_ids ex_digests ex_initial \<union> (allowed_ids ex_digests ex_initial - allowed_ids ex_digests ex_successor)"
    using facts by blast
  then show "protected_ids ex_digests ex_successor = {''violation.b''}"
    by (simp add: allowed ex_initial_ids)
qed

theorem establish_exact_witness:
  "\<exists>b. establish_ratchet_baseline ex_digests ex_policy ex_bundle (ex_assessment [''a'', ''b'']) = Inr b \<and>
     bl_generation b = 0 \<and> allowed_ids ex_digests b = {''violation.a'', ''violation.b''}"
proof -
  have "\<forall>b. establish_ratchet_baseline ex_digests ex_policy ex_bundle (ex_assessment [''a'', ''b'']) = Inr b \<longrightarrow>
      bl_generation b = 0 \<and> allowed_ids ex_digests b = violated_ids (ex_assessment [''a'', ''b''])"
    using establish_exact [of ex_digests ex_policy ex_bundle "ex_assessment [''a'', ''b'']"] by blast
  with ex_established show ?thesis by (simp add: ex_ids)
qed

theorem advance_tightens_witness:
  "\<exists>b. advance_ratchet_baseline ex_digests ex_policy ex_initial ex_bundle (ex_assessment [''a'']) ex_report = Inr b \<and>
     bl_generation b = bl_generation ex_initial + 1 \<and> allowed_ids ex_digests b = {''violation.a''}"
  using advance_tightens [OF ex_advanced] ex_advanced by (simp add: ex_ids)

theorem chain_never_loosens_witness:
  "allowed_ids ex_digests ex_successor \<union> protected_ids ex_digests ex_successor = {''violation.a'', ''violation.b''}"
  using chain_never_loosens [OF established.initial [OF ex_established] rtranclp.rtrancl_refl
      r_into_rtranclp [of "ratchet_step ex_digests", OF ex_step]]
  by (simp add: ex_initial_ids)

theorem resolved_stays_resolved_witness:
  "\<exists>r. evaluate_ratchet ex_digests ex_policy ex_successor ex_bundle (ex_assessment [''a'', ''b'']) = Inr r \<and>
     er_outcome r = Fail"
proof -
  have "evaluable ex_digests ex_policy ex_initial ex_bundle (ex_assessment [''a''])"
    "er_outcome ex_report = Pass"
    "derive_successor_baseline ex_digests ex_initial (ex_assessment [''a'']) ex_report = Inr ex_successor"
    using ex_advanced by (simp_all add: advance_Inr)
  note facts = this(1) ex_report_def this(2,3)
  have "evaluable ex_digests ex_policy ex_successor ex_bundle (ex_assessment [''a'', ''b''])"
    by (rule successor_evaluable [OF facts ex_assessed]) simp_all
  then have ev: "evaluate_ratchet ex_digests ex_policy ex_successor ex_bundle (ex_assessment [''a'', ''b'']) =
      Inr (report ex_digests ex_policy ex_successor (ex_assessment [''a'', ''b'']))"
    by (simp add: evaluate_Inr)
  have "''violation.b'' \<in> protected_ids ex_digests ex_successor"
    "''violation.b'' \<in> violated_ids (ex_assessment [''a'', ''b''])"
    by (simp_all add: ex_successor_ids ex_ids)
  then show ?thesis using resolved_stays_resolved [OF _ rtranclp.rtrancl_refl ev] ev by blast
qed

end
