(* ===== verification/Dispatcher.thy ===== *)
theory Dispatcher
  imports Spec_Model
begin

text \<open>
  The adapter dispatcher, \<^verbatim>\<open>src/ucf/adapter_protocol/dispatcher.py\<close>, with the messages it handles
  (\<^verbatim>\<open>models.py\<close>), the error codes (\<^verbatim>\<open>errors.py\<close>) and the comparison of versions (\<^verbatim>\<open>versioning.py\<close>).
  Every block under the dispatcher's lock is a function on the dispatcher state; what happens
  between the blocks is in the theory of sessions. Payloads and producers are JSON values.
\<close>

section \<open>Errors (errors.py)\<close>

datatype error_category = ProtocolFailure | AdapterFailure | Cancelled | Timeout | ProcessFailure

datatype protocol_code =
    ParseError | InvalidMessage | InvalidParams | MethodNotFound | FrameTooLarge | TruncatedFrame
  | IncompatibleVersion | InvalidLifecycle | DuplicateRequestId | TooManyPending
  | SessionRequestLimit | DuplicateCapability | UnsupportedCapability | CapabilityNotNegotiated
  | CorrelationFailure | RequestCancelled | OperationFailed | InternalError | InitializeTimeout
  | OperationTimeout | WriteTimeout | CancelTimeout | ShutdownTimeout | StartFailed
  | UnexpectedEof | ProcessExited | IoFailure | TerminationFailed | InvalidAdapterOutput

definition error_category_for_code :: "protocol_code \<Rightarrow> error_category" where
  "error_category_for_code c =
     (if c = RequestCancelled then Cancelled
      else if c \<in> {OperationFailed, InternalError} then AdapterFailure
      else if c \<in> {InitializeTimeout, OperationTimeout, WriteTimeout, CancelTimeout, ShutdownTimeout} then Timeout
      else if c \<in> {StartFailed, UnexpectedEof, ProcessExited, IoFailure, TerminationFailed, InvalidAdapterOutput}
        then ProcessFailure
      else ProtocolFailure)"

definition json_rpc_error_code :: "protocol_code \<Rightarrow> int" where
  "json_rpc_error_code c =
     (case c of ParseError \<Rightarrow> - 32700 | InvalidMessage \<Rightarrow> - 32600 | MethodNotFound \<Rightarrow> - 32601
      | InvalidParams \<Rightarrow> - 32602 | InternalError \<Rightarrow> - 32603 | _ \<Rightarrow> - 32000)"

section \<open>Messages (models.py)\<close>

definition adapter_protocol_version :: string where
  "adapter_protocol_version = ''1.0.0''"

definition max_pending_requests :: int where
  "max_pending_requests = 64"

definition max_requests_per_session :: int where
  "max_requests_per_session = 65536"

datatype operation = Inventory | Discover | MapOperation | Generate | Verify

datatype adapter_method = Initialize | Operation operation | CancelMethod | Shutdown

datatype operation_kind = RequestKind operation | ResultKind operation

record capability_request =
  cr_name :: string
  cr_minimum_version :: string
  cr_required :: bool

record capability_selection =
  cs_name :: string
  cs_version :: string

datatype request_params =
    InitializeParams string pyval "capability_request list"
  | OperationParams operation_kind pyval
  | ShutdownParams

text \<open>
  A request as the validator \<^verbatim>\<open>require_method_params_match\<close> lets it through: the parameters fit the
  method, and the kind of operation parameters is the request kind of the method.
\<close>

datatype request_body =
    InitializeRequest string pyval "capability_request list"
  | OperationRequest operation pyval
  | ShutdownRequest

definition match_params :: "adapter_method \<Rightarrow> request_params \<Rightarrow> request_body option" where
  "match_params m params =
     (case m of
        Initialize \<Rightarrow> (case params of InitializeParams v c qs \<Rightarrow> Some (InitializeRequest v c qs) | _ \<Rightarrow> None)
      | Shutdown \<Rightarrow> (case params of ShutdownParams \<Rightarrow> Some ShutdownRequest | _ \<Rightarrow> None)
      | CancelMethod \<Rightarrow> None
      | Operation operation \<Rightarrow>
          (case params of
             OperationParams kind payload \<Rightarrow>
               if kind = RequestKind operation then Some (OperationRequest operation payload) else None
           | _ \<Rightarrow> None))"

record request =
  rq_id :: string
  rq_body :: request_body

datatype client_message = RequestMessage request | CancelNotification string

datatype adapter_result =
    InitializeResult string pyval "capability_selection list"
  | OperationResult operation_kind pyval
  | ShutdownResult

record error_object =
  eo_code :: int
  eo_message :: string
  eo_category :: error_category
  eo_ucf_code :: protocol_code

datatype server_message = Success string adapter_result | Failure "string option" error_object

text \<open>
  The validators of the messages: the category of an error fits its code and is not one of the
  local-only ones, an initialize result names each capability once, and an operation result has a
  result kind.
\<close>

definition error_data_ok :: "error_object \<Rightarrow> bool" where
  "error_data_ok e \<longleftrightarrow> eo_category e = error_category_for_code (eo_ucf_code e)"

definition result_ok :: "adapter_result \<Rightarrow> bool" where
  "result_ok r \<longleftrightarrow>
     (case r of
        InitializeResult _ _ cs \<Rightarrow> distinct (map cs_name cs)
      | OperationResult kind _ \<Rightarrow> (case kind of ResultKind _ \<Rightarrow> True | RequestKind _ \<Rightarrow> False)
      | ShutdownResult \<Rightarrow> True)"

definition server_message_ok :: "server_message \<Rightarrow> bool" where
  "server_message_ok m \<longleftrightarrow>
     (case m of
        Success _ r \<Rightarrow> result_ok r
      | Failure _ e \<Rightarrow> error_data_ok e \<and> eo_category e \<notin> {Timeout, ProcessFailure} \<and>
          1 \<le> length (eo_message e) \<and> length (eo_message e) \<le> 1024)"

definition error_response :: "string \<Rightarrow> error_category \<Rightarrow> protocol_code \<Rightarrow> string \<Rightarrow> server_message" where
  "error_response i category code message =
     Failure (Some i) \<lparr>eo_code = json_rpc_error_code code, eo_message = message,
       eo_category = category, eo_ucf_code = code\<rparr>"

section \<open>Versions (versioning.py)\<close>

text \<open>Tuples of (length, text) of the segments, compared lexicographically as in Python.\<close>

definition version_key :: "string \<Rightarrow> (nat \<times> string) list" where
  "version_key v = map (\<lambda>s. (length s, s)) (split_on (CHR ''.'') v)"

definition version_at_least :: "string \<Rightarrow> string \<Rightarrow> bool" where
  "version_at_least actual minimum \<longleftrightarrow> version_key minimum \<le> version_key actual"

section \<open>The dispatcher\<close>

datatype session_state = NEW | READY | CLOSED

record dispatcher =
  d_adapter :: pyval
  d_offered :: "(string, string) dict"
  d_max_pending :: int
  d_max_requests :: int
  d_state :: session_state
  d_negotiated :: "(string, string) dict"
  d_active :: "(string, bool) dict"
  d_seen :: "string list"

text \<open>An active request maps to whether its cancellation event is set; \<open>d_seen\<close> is a set.\<close>

fun method_capability :: "operation \<Rightarrow> string" where
  "method_capability Inventory = ''org.ucf.adapter.inventory''"
| "method_capability Discover = ''org.ucf.adapter.discovery''"
| "method_capability MapOperation = ''org.ucf.adapter.mapping''"
| "method_capability Generate = ''org.ucf.adapter.generation''"
| "method_capability Verify = ''org.ucf.adapter.verification''"

definition method_result_kind :: "operation \<Rightarrow> operation_kind" where
  "method_result_kind m = ResultKind m"

definition new_dispatcher ::
  "pyval \<Rightarrow> capability_selection list \<Rightarrow> int \<Rightarrow> int \<Rightarrow> (string, dispatcher) res" where
  "new_dispatcher adapter offered_capabilities max_pending max_requests =
     (if \<not> (1 \<le> max_pending \<and> max_pending \<le> max_pending_requests)
      then Inl ''max_pending must be between 1 and 64''
      else if \<not> (2 \<le> max_requests \<and> max_requests \<le> max_requests_per_session)
      then Inl ''max_requests must be between 2 and 65536''
      else
        (let offered = dict_of (map (\<lambda>c. (cs_name c, cs_version c)) offered_capabilities) in
         if length offered \<noteq> length offered_capabilities
         then Inl ''offered capabilities must have unique names''
         else Inr \<lparr>d_adapter = adapter, d_offered = offered, d_max_pending = max_pending,
                d_max_requests = max_requests, d_state = NEW, d_negotiated = [], d_active = [], d_seen = []\<rparr>))"

text \<open>The first block of \<^verbatim>\<open>dispatch\<close>: a refusal, or the dispatcher that has seen the identifier.\<close>

definition admit :: "dispatcher \<Rightarrow> request \<Rightarrow> (server_message, dispatcher) res" where
  "admit d rq =
     (if rq_id rq \<in> set (d_seen d)
      then Inl (error_response (rq_id rq) ProtocolFailure DuplicateRequestId
        ''request id was already used in this session'')
      else if int (set_size (d_seen d)) \<ge> d_max_requests d \<or>
          (int (set_size (d_seen d)) = d_max_requests d - 1 \<and> rq_body rq \<noteq> ShutdownRequest)
      then Inl (error_response (rq_id rq) ProtocolFailure SessionRequestLimit
        ''adapter session request limit reached'')
      else Inr (d\<lparr>d_seen := d_seen d @ [rq_id rq]\<rparr>))"

text \<open>The loop of \<^verbatim>\<open>_initialize\<close>: \<open>None\<close> when a required capability is not supported.\<close>

definition supported :: "(string, string) dict \<Rightarrow> capability_request \<Rightarrow> bool" where
  "supported offered q \<longleftrightarrow>
     (case map_of offered (cr_name q) of
        None \<Rightarrow> False
      | Some version \<Rightarrow> version_at_least version (cr_minimum_version q))"

fun select_capabilities ::
  "(string, string) dict \<Rightarrow> capability_request list \<Rightarrow> capability_selection list option" where
  "select_capabilities offered [] = Some []"
| "select_capabilities offered (q # qs) =
     (if \<not> supported offered q
      then (if cr_required q then None else select_capabilities offered qs)
      else map_option ((#) \<lparr>cs_name = cr_name q, cs_version = the (map_of offered (cr_name q))\<rparr>)
        (select_capabilities offered qs))"

definition initialize ::
  "dispatcher \<Rightarrow> string \<Rightarrow> string \<Rightarrow> capability_request list \<Rightarrow> server_message \<times> dispatcher" where
  "initialize d i protocol_version capabilities =
     (if d_state d \<noteq> NEW
      then (error_response i ProtocolFailure InvalidLifecycle ''initialize is legal only in the new state'', d)
      else if protocol_version \<noteq> adapter_protocol_version
      then (error_response i ProtocolFailure IncompatibleVersion ''adapter protocol version is not supported'', d)
      else if \<not> distinct (map cr_name capabilities)
      then (error_response i ProtocolFailure DuplicateCapability ''requested capability names must be unique'', d)
      else
        (case select_capabilities (d_offered d) capabilities of
           None \<Rightarrow> (error_response i ProtocolFailure UnsupportedCapability ''a required capability is unavailable'', d)
         | Some selected \<Rightarrow>
             (let selected = sort_key cs_name selected in
              (Success i (InitializeResult adapter_protocol_version (d_adapter d) selected),
               d\<lparr>d_negotiated := dict_of (map (\<lambda>c. (cs_name c, cs_version c)) selected), d_state := READY\<rparr>))))"

text \<open>The first block of \<^verbatim>\<open>_operate\<close>.\<close>

definition start_operation :: "dispatcher \<Rightarrow> string \<Rightarrow> operation \<Rightarrow> (server_message, dispatcher) res" where
  "start_operation d i operation =
     (if d_state d \<noteq> READY
      then Inl (error_response i ProtocolFailure InvalidLifecycle ''operations are legal only in the ready state'')
      else if method_capability operation \<notin> set (dict_keys (d_negotiated d))
      then Inl (error_response i ProtocolFailure CapabilityNotNegotiated ''operation capability was not negotiated'')
      else if int (length (d_active d)) \<ge> d_max_pending d
      then Inl (error_response i ProtocolFailure TooManyPending ''pending request limit reached'')
      else Inr (d\<lparr>d_active := AList.update i False (d_active d)\<rparr>))"

text \<open>
  What the handler may do: return a payload, which the model of the result accepts or not, return
  something else, raise the cancellation or raise another exception.
\<close>

datatype handler_outcome =
  ReturnsPayload pyval bool | ReturnsOther pyval | RaisesCancelled | RaisesException

definition operation_failed :: "string \<Rightarrow> server_message" where
  "operation_failed i = error_response i AdapterFailure OperationFailed ''adapter operation failed''"

definition finish_operation :: "bool \<Rightarrow> string \<Rightarrow> operation \<Rightarrow> handler_outcome \<Rightarrow> server_message" where
  "finish_operation cancelled i operation outcome =
     (case outcome of
        ReturnsPayload payload valid \<Rightarrow>
          if valid then Success i (OperationResult (method_result_kind operation) payload) else operation_failed i
      | ReturnsOther _ \<Rightarrow> error_response i AdapterFailure OperationFailed ''adapter returned an invalid payload''
      | RaisesCancelled \<Rightarrow>
          if \<not> cancelled then operation_failed i
          else error_response i Cancelled RequestCancelled ''adapter request was cancelled''
      | RaisesException \<Rightarrow> operation_failed i)"

text \<open>The \<^verbatim>\<open>finally\<close> block, \<^verbatim>\<open>_cancel\<close> and \<^verbatim>\<open>_shutdown\<close>.\<close>

definition release :: "dispatcher \<Rightarrow> string \<Rightarrow> dispatcher" where
  "release d i = d\<lparr>d_active := AList.delete i (d_active d)\<rparr>"

definition cancel :: "dispatcher \<Rightarrow> string \<Rightarrow> dispatcher" where
  "cancel d i =
     (case map_of (d_active d) i of
        None \<Rightarrow> d
      | Some _ \<Rightarrow> d\<lparr>d_active := AList.update i True (d_active d)\<rparr>)"

definition shutdown :: "dispatcher \<Rightarrow> string \<Rightarrow> server_message \<times> dispatcher" where
  "shutdown d i =
     (if d_state d \<noteq> READY \<or> d_active d \<noteq> []
      then (error_response i ProtocolFailure InvalidLifecycle
        ''shutdown requires ready state with no pending requests'', d)
      else (Success i ShutdownResult, d\<lparr>d_state := CLOSED\<rparr>))"

section \<open>Properties of the negotiation\<close>

definition selection :: "(string, string) dict \<Rightarrow> capability_request \<Rightarrow> capability_selection" where
  "selection offered q = \<lparr>cs_name = cr_name q, cs_version = the (map_of offered (cr_name q))\<rparr>"

lemma select_capabilities_eq:
  "select_capabilities offered qs =
     (if \<forall>q \<in> set qs. cr_required q \<longrightarrow> supported offered q
      then Some (map (selection offered) (filter (supported offered) qs)) else None)"
  by (induction qs) (auto simp: selection_def)

text \<open>
  The negotiation succeeds exactly in a new session, for the supported protocol version, when no
  capability is named twice and every required one is offered in a sufficient version. It then
  selects every requested capability that is offered in a sufficient version, in the offered
  version and in the order of the names, makes exactly these the negotiated ones and the session
  ready; otherwise it answers with an error and changes nothing.
\<close>

theorem negotiation_exact:
  assumes "initialize d i v qs = (m, d')"
  shows "((\<exists>r. m = Success i r) \<longleftrightarrow> d_state d = NEW \<and> v = ''1.0.0'' \<and> distinct (map cr_name qs) \<and>
      (\<forall>q \<in> set qs. cr_required q \<longrightarrow> supported (d_offered d) q)) \<and>
    (\<forall>r. m = Success i r \<longrightarrow>
      (\<exists>cs. r = InitializeResult ''1.0.0'' (d_adapter d) cs \<and> sorted (map cs_name cs) \<and>
        set cs = selection (d_offered d) ` {q \<in> set qs. supported (d_offered d) q}) \<and>
      d_state d' = READY \<and>
      (\<forall>c w. map_of (d_negotiated d') c = Some w \<longleftrightarrow> map_of (d_offered d) c = Some w \<and>
        (\<exists>q \<in> set qs. cr_name q = c \<and> supported (d_offered d) q))) \<and>
    ((\<forall>r. m \<noteq> Success i r) \<longrightarrow> d' = d)"
proof (cases "d_state d = NEW \<and> v = ''1.0.0'' \<and> distinct (map cr_name qs) \<and>
    (\<forall>q \<in> set qs. cr_required q \<longrightarrow> supported (d_offered d) q)")
  case False
  then have "(\<forall>r. m \<noteq> Success i r) \<and> d' = d"
    using assms by (auto simp: initialize_def select_capabilities_eq adapter_protocol_version_def
        error_response_def split: if_splits)
  with False show ?thesis by blast
next
  case True
  let ?cs = "sort_key cs_name (map (selection (d_offered d)) (filter (supported (d_offered d)) qs))"
  have m: "m = Success i (InitializeResult ''1.0.0'' (d_adapter d) ?cs)"
    and d': "d' = d\<lparr>d_negotiated := dict_of (map (\<lambda>c. (cs_name c, cs_version c)) ?cs), d_state := READY\<rparr>"
    using assms True by (simp_all add: initialize_def select_capabilities_eq adapter_protocol_version_def Let_def)
  have "inj_on cr_name (set qs)" using True by (simp add: distinct_map)
  then have "inj_on cs_name (set ?cs)"
    by (auto simp: inj_on_def selection_def)
  from dict_of_inj [OF this, of cs_version]
  have "map_of (d_negotiated d') c = Some w \<longleftrightarrow> map_of (d_offered d) c = Some w \<and>
      (\<exists>q \<in> set qs. cr_name q = c \<and> supported (d_offered d) q)" for c w
    by (auto simp: d' selection_def supported_def split: option.splits)
  moreover have "set ?cs = selection (d_offered d) ` {q \<in> set qs. supported (d_offered d) q}" by auto
  ultimately show ?thesis using True m d' by auto
qed

section \<open>Properties of the versions\<close>

text \<open>The numbers of a version: \<^verbatim>\<open>int\<close> of a decimal segment.\<close>

definition digit_value :: "char \<Rightarrow> nat" where
  "digit_value c = code_of c - 48"

definition segment_value :: "string \<Rightarrow> nat" where
  "segment_value s = foldl (\<lambda>n c. 10 * n + digit_value c) 0 s"

definition canonical_segment :: "string \<Rightarrow> bool" where
  "canonical_segment s \<longleftrightarrow> s \<noteq> [] \<and> (\<forall>c \<in> set s. is_digit c) \<and> (hd s = CHR ''0'' \<longrightarrow> s = ''0'')"

definition normalized_version :: "string \<Rightarrow> bool" where
  "normalized_version v \<longleftrightarrow> length (split_on (CHR ''.'') v) = 3 \<and> (\<forall>s \<in> set (split_on (CHR ''.'') v). canonical_segment s)"

definition version_numbers :: "string \<Rightarrow> nat list" where
  "version_numbers v = map segment_value (split_on (CHR ''.'') v)"

lemma digit_value_less: "is_digit c \<Longrightarrow> digit_value c < 10"
  unfolding is_digit_def digit_value_def Let_def by linarith

lemma digit_value_mono: "is_digit c \<Longrightarrow> is_digit d \<Longrightarrow> digit_value c < digit_value d \<longleftrightarrow> c < d"
  by (auto simp: is_digit_def digit_value_def Let_def less_char_def)

lemma digit_value_inject: "is_digit c \<Longrightarrow> is_digit d \<Longrightarrow> digit_value c = digit_value d \<longleftrightarrow> c = d"
  using digit_value_mono [of c d] digit_value_mono [of d c] by (metis less_linear less_irrefl)

lemma foldl_digits: "foldl (\<lambda>n c. 10 * n + digit_value c) n s = n * 10 ^ length s + segment_value s"
proof (induction s arbitrary: n rule: rev_induct)
  case Nil
  then show ?case by (simp add: segment_value_def)
next
  case (snoc c s)
  have "segment_value (s @ [c]) = 10 * segment_value s + digit_value c" by (simp add: segment_value_def)
  then show ?case by (simp add: snoc distrib_left)
qed

lemma segment_value_Cons: "segment_value (c # s) = digit_value c * 10 ^ length s + segment_value s"
  using foldl_digits [of "digit_value c" s] by (simp add: segment_value_def)

lemma segment_value_bound: "\<forall>c \<in> set s. is_digit c \<Longrightarrow> segment_value s < 10 ^ length s"
proof (induction s)
  case Nil
  then show ?case by (simp add: segment_value_def)
next
  case (Cons c s)
  then have "segment_value s < 10 ^ length s" "Suc (digit_value c) \<le> 10"
    using digit_value_less [of c] by auto
  then have "segment_value (c # s) < Suc (digit_value c) * 10 ^ length s"
    by (simp add: segment_value_Cons)
  also have "\<dots> \<le> 10 * 10 ^ length s" using \<open>Suc (digit_value c) \<le> 10\<close> by (rule mult_le_mono1)
  finally show ?case by simp
qed

text \<open>Texts of digits of one length are ordered as their values.\<close>

lemma segment_value_same_length:
  "length s = length t \<Longrightarrow> \<forall>c \<in> set s \<union> set t. is_digit c \<Longrightarrow> segment_value s < segment_value t \<longleftrightarrow> s < t"
proof (induction s t rule: list_induct2)
  case Nil
  then show ?case by simp
next
  case (Cons c s d t)
  have bounds: "segment_value s < 10 ^ length s" "segment_value t < 10 ^ length t"
    using Cons.prems segment_value_bound by auto
  have less: "segment_value (c # s) < segment_value (d # t)"
    if "digit_value c < digit_value d" "length s = length t" "segment_value s < 10 ^ length s"
    for c d :: char and s t
  proof -
    have "segment_value (c # s) < Suc (digit_value c) * 10 ^ length s"
      using that(3) by (simp add: segment_value_Cons)
    also have "\<dots> \<le> digit_value d * 10 ^ length s" using that(1) by (intro mult_le_mono1) simp
    finally show ?thesis by (simp add: segment_value_Cons that(2))
  qed
  consider "c = d" | "digit_value c < digit_value d" "c < d" | "digit_value d < digit_value c" "d < c"
    using digit_value_mono [of c d] digit_value_mono [of d c] Cons.prems
    by (cases c d rule: linorder_cases) auto
  then show ?case
  proof cases
    case 1
    then show ?thesis using Cons by (simp add: segment_value_Cons)
  next
    case 2
    then show ?thesis using less [OF 2(1) Cons.hyps bounds(1)] by simp
  next
    case 3
    then show ?thesis using less [OF 3(1) Cons.hyps [symmetric] bounds(2)] by auto
  qed
qed

lemma segment_value_longer:
  assumes "canonical_segment s" "canonical_segment t" "length s < length t"
  shows "segment_value s < segment_value t"
proof -
  obtain d u where t: "t = d # u" using assms(2) by (cases t) (auto simp: canonical_segment_def)
  have "d \<noteq> CHR ''0''" using assms t by (auto simp: canonical_segment_def)
  then have "1 \<le> digit_value d"
    using assms(2) t digit_value_inject [of d "CHR ''0''"]
    by (auto simp: canonical_segment_def digit_value_def is_digit_def)
  then have "1 * 10 ^ length u \<le> digit_value d * 10 ^ length u" by (rule mult_le_mono1)
  then have "10 ^ length u \<le> segment_value t" unfolding t segment_value_Cons by linarith
  moreover have "segment_value s < 10 ^ length s"
    using assms(1) segment_value_bound by (auto simp: canonical_segment_def)
  moreover have "(10::nat) ^ length s \<le> 10 ^ length u" using assms(3) t by (intro power_increasing) auto
  ultimately show ?thesis by linarith
qed

lemma segment_order:
  assumes "canonical_segment s" "canonical_segment t"
  shows "(length s, s) < (length t, t) \<longleftrightarrow> segment_value s < segment_value t"
proof -
  have digits: "\<forall>c \<in> set s \<union> set t. is_digit c" using assms by (auto simp: canonical_segment_def)
  consider "length s < length t" | "length t < length s" | "length s = length t" by linarith
  then show ?thesis
  proof cases
    case 1
    then show ?thesis using segment_value_longer [OF assms] by (simp add: less_prod_def)
  next
    case 2
    then show ?thesis using segment_value_longer [OF assms(2,1)] by (simp add: less_prod_def)
  next
    case 3
    then show ?thesis using segment_value_same_length [OF 3 digits] by (simp add: less_prod_def)
  qed
qed

lemma segment_inject:
  assumes "canonical_segment s" "canonical_segment t"
  shows "segment_value s = segment_value t \<longleftrightarrow> s = t"
  using segment_order [OF assms] segment_order [OF assms(2,1)]
  by (metis less_irrefl less_linear prod.inject)

lemma version_order_lists:
  assumes "\<forall>s \<in> set ss. canonical_segment s" "\<forall>t \<in> set ts. canonical_segment t"
  shows "map (\<lambda>s. (length s, s)) ss \<le> map (\<lambda>t. (length t, t)) ts \<longleftrightarrow> map segment_value ss \<le> map segment_value ts"
  using assms
proof (induction ss arbitrary: ts)
  case Nil
  then show ?case by simp
next
  case (Cons s ss)
  show ?case
  proof (cases ts)
    case Nil
    then show ?thesis by simp
  next
    case (Cons t us)
    then have "canonical_segment s" "canonical_segment t" using Cons.prems by auto
    then show ?thesis
      using Cons.IH [of us] Cons.prems Cons segment_order [of s t] segment_inject [of s t]
      by (auto simp del: less_prod_simp)
  qed
qed

text \<open>
  On normalized versions the comparison by length and text of the segments is the comparison of
  the three numbers, however long they are.
\<close>

theorem version_at_least_numeric:
  assumes "normalized_version actual" and "normalized_version minimum"
  shows "version_at_least actual minimum \<longleftrightarrow> version_numbers minimum \<le> version_numbers actual"
  using assms version_order_lists [of "split_on (CHR ''.'') minimum" "split_on (CHR ''.'') actual"]
  by (simp add: version_at_least_def version_key_def version_numbers_def normalized_version_def)

theorem version_at_least_numeric_witness:
  "version_at_least ''10.0.0'' ''9.12.3'' \<and> \<not> version_at_least ''1.2.9'' ''1.10.0''"
proof -
  have norm: "normalized_version ''10.0.0'' \<and> normalized_version ''9.12.3'' \<and>
      normalized_version ''1.2.9'' \<and> normalized_version ''1.10.0''"
    by code_simp
  have "version_numbers ''9.12.3'' \<le> version_numbers ''10.0.0'' \<and>
      \<not> version_numbers ''1.10.0'' \<le> version_numbers ''1.2.9''"
    by code_simp
  then show ?thesis
    using norm version_at_least_numeric [of "''10.0.0''" "''9.12.3''"]
      version_at_least_numeric [of "''1.2.9''" "''1.10.0''"] by blast
qed

definition ex_new :: dispatcher where
  "ex_new = \<lparr>d_adapter = VNone, d_offered = [(''a'', ''1.2.0''), (''b'', ''1.0.0'')], d_max_pending = 1,
     d_max_requests = 3, d_state = NEW, d_negotiated = [], d_active = [], d_seen = []\<rparr>"

theorem negotiation_exact_witness:
  "\<exists>m d'. initialize ex_new ''i'' ''1.0.0''
       [\<lparr>cr_name = ''a'', cr_minimum_version = ''1.0.0'', cr_required = True\<rparr>,
        \<lparr>cr_name = ''b'', cr_minimum_version = ''1.5.0'', cr_required = False\<rparr>] = (m, d') \<and>
     d_state d' = READY \<and> map_of (d_negotiated d') ''a'' = Some ''1.2.0'' \<and> map_of (d_negotiated d') ''b'' = None"
proof -
  let ?qs = "[\<lparr>cr_name = ''a'', cr_minimum_version = ''1.0.0'', cr_required = True\<rparr>,
    \<lparr>cr_name = ''b'', cr_minimum_version = ''1.5.0'', cr_required = False\<rparr>]"
  obtain m d' where run: "initialize ex_new ''i'' ''1.0.0'' ?qs = (m, d')" by (cases "initialize ex_new ''i'' ''1.0.0'' ?qs")
  have offered: "supported (d_offered ex_new) (?qs ! 0) \<and> \<not> supported (d_offered ex_new) (?qs ! 1)"
    by code_simp
  have "d_state ex_new = NEW" "distinct (map cr_name ?qs)" "\<forall>q \<in> set ?qs. cr_required q \<longrightarrow> supported (d_offered ex_new) q"
    using offered by (simp_all add: ex_new_def)
  then have "\<exists>r. m = Success ''i'' r" using negotiation_exact [OF run] by blast
  then have "d_state d' = READY" and "\<forall>c w. map_of (d_negotiated d') c = Some w \<longleftrightarrow>
      map_of (d_offered ex_new) c = Some w \<and> (\<exists>q \<in> set ?qs. cr_name q = c \<and> supported (d_offered ex_new) q)"
    using negotiation_exact [OF run] by blast+
  moreover from this(2) offered have "map_of (d_negotiated d') ''a'' = Some ''1.2.0''" by (simp add: ex_new_def)
  moreover from calculation(2) offered have "map_of (d_negotiated d') ''b'' \<noteq> Some w" for w by (simp add: ex_new_def)
  ultimately show ?thesis using run by blast
qed

end
