(* ===== verification/Inventory_Model.thy ===== *)
theory Inventory_Model
  imports Dispatcher
begin

text \<open>
  Repository inventories, \<^verbatim>\<open>src/ucf/inventory/models.py\<close>: paths, ignore policies, the records of a
  snapshot and the validators of policies and snapshots. Constant fields, confidences, producers
  and string patterns are left as they are in JSON; digests are the fields of the parameter \<open>D\<close>.
  All characters of the model are in Unicode normal form, so the tests for it always pass.
\<close>

section \<open>Repository paths\<close>

text \<open>\<^verbatim>\<open>PurePosixPath\<close> of a relative path: its parts, its text and its parent.\<close>

definition posix_parts :: "string \<Rightarrow> string list" where
  "posix_parts s = filter (\<lambda>p. p \<noteq> [] \<and> p \<noteq> ''.'') (split_on (CHR ''/'') s)"

definition posix_text :: "string list \<Rightarrow> string" where
  "posix_text ps = (if ps = [] then ''.'' else py_join ''/'' ps)"

definition posix_parent :: "string \<Rightarrow> string" where
  "posix_parent s = posix_text (butlast (posix_parts s))"

definition portable_path_key :: "string \<Rightarrow> string" where
  "portable_path_key path = py_lower path"

definition upper_char :: "char \<Rightarrow> char" where
  "upper_char c = (if is_lower c then char_of (code_of c - 32) else c)"

definition windows_reserved :: "string list" where
  "windows_reserved = [''AUX'', ''CON'', ''NUL'', ''PRN''] @
     map (\<lambda>n. ''COM'' @ show_nat n) [1..<10] @ map (\<lambda>n. ''LPT'' @ show_nat n) [1..<10]"

definition portable_segment :: "string \<Rightarrow> bool" where
  "portable_segment v \<longleftrightarrow>
     \<not> (length v > 255 \<or> CHR '':'' \<in> set v \<or> list_ex (\<lambda>c. c \<in> set ''<>\"|?*'') v \<or>
        suffix '' '' v \<or> suffix ''.'' v \<or> list_ex (\<lambda>c. code_of c < 32 \<or> code_of c = 127) v) \<and>
     map upper_char (fst (split_once (CHR ''.'') v)) \<notin> set windows_reserved"

definition repository_path_ok :: "string \<Rightarrow> bool" where
  "repository_path_ok v \<longleftrightarrow>
     \<not> (v = [] \<or> prefix ''/'' v \<or> CHR 0x5C \<in> set v \<or> CHR 0x00 \<in> set v \<or> sublist ''//'' v) \<and>
     (v = ''.'' \<or>
      (\<not> list_ex (\<lambda>p. p \<in> {[], ''.'', ''..''}) (posix_parts v) \<and> posix_text (posix_parts v) = v \<and>
       list_all portable_segment (posix_parts v)))"

definition path_segment_ok :: "string \<Rightarrow> bool" where
  "path_segment_ok v \<longleftrightarrow>
     \<not> (v = [] \<or> v \<in> {''.'', ''..''} \<or> CHR ''/'' \<in> set v \<or> CHR 0x5C \<in> set v \<or> CHR 0x00 \<in> set v) \<and>
     portable_segment v"

section \<open>Ignore policies\<close>

datatype ignore_matcher = PathPrefix string | PathSegment string

record ignore_rule =
  ig_id :: string
  ig_reason :: string
  ig_matcher :: ignore_matcher

type_synonym ignore_policy = "ignore_rule list"

definition matcher_ok :: "ignore_matcher \<Rightarrow> bool" where
  "matcher_ok m \<longleftrightarrow>
     (case m of PathPrefix p \<Rightarrow> repository_path_ok p \<and> p \<noteq> ''.'' | PathSegment s \<Rightarrow> path_segment_ok s)"

definition matcher_identity :: "ignore_matcher \<Rightarrow> string \<times> string" where
  "matcher_identity m =
     (case m of PathPrefix p \<Rightarrow> (''path_prefix'', portable_path_key p)
      | PathSegment s \<Rightarrow> (''path_segment'', portable_path_key s))"

definition validate_rules :: "ignore_policy \<Rightarrow> (string, unit) res" where
  "validate_rules rules =
     res_all id
       [require (distinct (map ig_id rules)) ''ignore policy rule IDs must be unique'',
        require (map ig_id rules = sort (map ig_id rules)) ''ignore policy rules must be sorted by ID'',
        require (distinct (map (matcher_identity \<circ> ig_matcher) rules)) ''ignore policy matchers must be unique'']"

definition rule_matches :: "string \<Rightarrow> ignore_rule \<Rightarrow> bool" where
  "rule_matches path r =
     (case ig_matcher r of
        PathPrefix p \<Rightarrow> p = ''.'' \<or> path = p \<or> prefix (p @ ''/'') path
      | PathSegment s \<Rightarrow> s \<in> set (if path = ''.'' then [] else posix_parts path))"

definition matching_rule_ids :: "ignore_policy \<Rightarrow> string \<Rightarrow> string list" where
  "matching_rule_ids policy path = map ig_id (filter (rule_matches path) policy)"

section \<open>Records\<close>

datatype fact_kind = ApiDescription | BuildManifest | PublicInterface | RepositoryEntry | TestAsset

definition all_fact_kinds :: "fact_kind list" where
  "all_fact_kinds = [ApiDescription, BuildManifest, PublicInterface, RepositoryEntry, TestAsset]"

datatype record_kind = FactRecord fact_kind | DiagnosticRecord | IgnoreMatchRecord | ProvenanceRecord

fun kind_value :: "record_kind \<Rightarrow> string" where
  "kind_value (FactRecord ApiDescription) = ''api_description''"
| "kind_value (FactRecord BuildManifest) = ''build_manifest''"
| "kind_value (FactRecord PublicInterface) = ''public_interface''"
| "kind_value (FactRecord RepositoryEntry) = ''repository_entry''"
| "kind_value (FactRecord TestAsset) = ''test_asset''"
| "kind_value DiagnosticRecord = ''inventory_diagnostic''"
| "kind_value IgnoreMatchRecord = ''inventory_ignore_match''"
| "kind_value ProvenanceRecord = ''inventory_provenance''"

fun record_id_prefix :: "record_kind \<Rightarrow> string" where
  "record_id_prefix (FactRecord ApiDescription) = ''api''"
| "record_id_prefix (FactRecord BuildManifest) = ''manifest''"
| "record_id_prefix (FactRecord PublicInterface) = ''interface''"
| "record_id_prefix (FactRecord RepositoryEntry) = ''entry''"
| "record_id_prefix (FactRecord TestAsset) = ''test''"
| "record_id_prefix DiagnosticRecord = ''diagnostic''"
| "record_id_prefix IgnoreMatchRecord = ''ignore''"
| "record_id_prefix ProvenanceRecord = ''provenance''"

record record_ref =
  rf_kind :: record_kind
  rf_id :: string

record source_span =
  sp_start_line :: int
  sp_start_column :: int
  sp_end_line :: int
  sp_end_column :: int

definition source_span_ok :: "source_span \<Rightarrow> bool" where
  "source_span_ok s \<longleftrightarrow> 1 \<le> sp_start_line s \<and> 1 \<le> sp_start_column s \<and> 1 \<le> sp_end_line s \<and> 1 \<le> sp_end_column s \<and>
     \<not> (sp_end_line s, sp_end_column s) < (sp_start_line s, sp_start_column s)"

record provenance =
  pv_id :: string
  pv_source_path :: string
  pv_content_digest :: "string option"
  pv_source_span :: "source_span option"
  pv_producer :: pyval
  pv_procedure_uri :: string

definition provenance_ok :: "provenance \<Rightarrow> bool" where
  "provenance_ok p \<longleftrightarrow> \<not> (pv_source_span p \<noteq> None \<and> pv_content_digest p = None)"

datatype entry_kind = Directory | File | Symlink

record entry_fact =
  en_id :: string
  en_provenance :: record_ref
  en_confidence :: pyval
  en_path :: string
  en_kind :: entry_kind
  en_size :: "int option"
  en_content_digest :: "string option"
  en_symlink_digest :: "string option"

definition entry_coordinates_ok :: "entry_fact \<Rightarrow> bool" where
  "entry_coordinates_ok e \<longleftrightarrow>
     (case en_kind e of
        Directory \<Rightarrow> en_size e = None \<and> en_content_digest e = None \<and> en_symlink_digest e = None
      | File \<Rightarrow> en_size e \<noteq> None \<and> en_content_digest e \<noteq> None \<and> en_symlink_digest e = None
      | Symlink \<Rightarrow> en_size e = None \<and> en_content_digest e = None \<and> en_symlink_digest e \<noteq> None)"

datatype fact_details =
    ApiDetails string "string option"
  | ManifestDetails string
  | InterfaceDetails string string "string option" string
  | TestDetails string "string option"

record file_fact =
  ff_id :: string
  ff_provenance :: record_ref
  ff_confidence :: pyval
  ff_entry :: record_ref
  ff_details :: fact_details

datatype diagnostic_severity = Info | Warning | Error

record diagnostic =
  di_id :: string
  di_severity :: diagnostic_severity
  di_code :: string
  di_fact_kind :: "fact_kind option"
  di_path :: "string option"
  di_stage :: string
  di_message :: string
  di_provenance :: "record_ref option"

record ignore_match =
  im_id :: string
  im_rule_id :: string
  im_path :: string

datatype inventory_record =
    Provenance provenance
  | Entry entry_fact
  | FileFact file_fact
  | Diagnostic diagnostic
  | IgnoreMatch ignore_match

fun details_kind :: "fact_details \<Rightarrow> fact_kind" where
  "details_kind (ApiDetails u v) = ApiDescription"
| "details_kind (ManifestDetails u) = BuildManifest"
| "details_kind (InterfaceDetails u n c d) = PublicInterface"
| "details_kind (TestDetails u n) = TestAsset"

fun record_kind_of :: "inventory_record \<Rightarrow> record_kind" where
  "record_kind_of (Provenance p) = ProvenanceRecord"
| "record_kind_of (Entry e) = FactRecord RepositoryEntry"
| "record_kind_of (FileFact f) = FactRecord (details_kind (ff_details f))"
| "record_kind_of (Diagnostic d) = DiagnosticRecord"
| "record_kind_of (IgnoreMatch m) = IgnoreMatchRecord"

fun fact_kind_of :: "inventory_record \<Rightarrow> fact_kind option" where
  "fact_kind_of (Entry e) = Some RepositoryEntry"
| "fact_kind_of (FileFact f) = Some (details_kind (ff_details f))"
| "fact_kind_of r = None"

fun record_id :: "inventory_record \<Rightarrow> string" where
  "record_id (Provenance p) = pv_id p"
| "record_id (Entry e) = en_id e"
| "record_id (FileFact f) = ff_id f"
| "record_id (Diagnostic d) = di_id d"
| "record_id (IgnoreMatch m) = im_id m"

fun without_id :: "inventory_record \<Rightarrow> inventory_record" where
  "without_id (Provenance p) = Provenance (p\<lparr>pv_id := []\<rparr>)"
| "without_id (Entry e) = Entry (e\<lparr>en_id := []\<rparr>)"
| "without_id (FileFact f) = FileFact (f\<lparr>ff_id := []\<rparr>)"
| "without_id (Diagnostic d) = Diagnostic (d\<lparr>di_id := []\<rparr>)"
| "without_id (IgnoreMatch m) = IgnoreMatch (m\<lparr>im_id := []\<rparr>)"

definition record_key :: "inventory_record \<Rightarrow> string \<times> string" where
  "record_key r = (kind_value (record_kind_of r), record_id r)"

text \<open>
  The semantic identity of a fact leaves out its identifier, confidence and provenance, that of a
  diagnostic its identifier and message: the canonical JSON text of what remains is modelled by
  what remains.
\<close>

definition no_ref :: record_ref where
  "no_ref = \<lparr>rf_kind = ProvenanceRecord, rf_id = []\<rparr>"

fun semantic_identity :: "inventory_record \<Rightarrow> inventory_record" where
  "semantic_identity (Entry e) = Entry (e\<lparr>en_id := [], en_provenance := no_ref, en_confidence := VNone\<rparr>)"
| "semantic_identity (FileFact f) = FileFact (f\<lparr>ff_id := [], ff_provenance := no_ref, ff_confidence := VNone\<rparr>)"
| "semantic_identity (Diagnostic d) = Diagnostic (d\<lparr>di_id := [], di_message := []\<rparr>)"
| "semantic_identity r = r"

section \<open>Derived identifiers\<close>

record revision_entry =
  re_content_digest :: "string option"
  re_entry_kind :: entry_kind
  re_path_text :: string
  re_size :: "int option"
  re_symlink_digest :: "string option"

record revision_failure =
  rv_code :: string
  rv_fact_kind :: "fact_kind option"
  rv_path :: "string option"
  rv_severity :: diagnostic_severity
  rv_stage :: string

record coverage =
  co_fact_kind :: fact_kind
  co_status :: string
  co_count :: int

record inventory_snapshot =
  sn_subject_uri :: string
  sn_source_revision :: string
  sn_producer :: pyval
  sn_capability :: capability_selection
  sn_policy :: ignore_policy
  sn_coverage :: "coverage list"
  sn_records :: "inventory_record list"

text \<open>
  SHA-256 of canonical JSON: of a record without its identifier, of the projection the source
  revision is derived from, and of a snapshot; \<open>dg_failure_text\<close> is the canonical text that orders
  the failures of the projection.
\<close>

record inventory_digests =
  dg_record :: "inventory_record \<Rightarrow> string"
  dg_failure_text :: "revision_failure \<Rightarrow> string"
  dg_revision :: "revision_entry list \<times> revision_failure list \<Rightarrow> string"
  dg_snapshot :: "inventory_snapshot \<Rightarrow> string"

definition derive_inventory_record_id :: "inventory_digests \<Rightarrow> inventory_record \<Rightarrow> string" where
  "derive_inventory_record_id D r =
     record_id_prefix (record_kind_of r) @ ''.'' @ dg_record D (without_id r)"

fun entry_of :: "inventory_record \<Rightarrow> entry_fact option" where
  "entry_of (Entry e) = Some e"
| "entry_of r = None"

definition entries_of :: "inventory_record list \<Rightarrow> entry_fact list" where
  "entries_of rs = List.map_filter entry_of rs"

fun diagnostic_of :: "inventory_record \<Rightarrow> diagnostic option" where
  "diagnostic_of (Diagnostic d) = Some d"
| "diagnostic_of r = None"

definition diagnostics_of :: "inventory_record list \<Rightarrow> diagnostic list" where
  "diagnostics_of rs = List.map_filter diagnostic_of rs"

fun ignore_match_of :: "inventory_record \<Rightarrow> ignore_match option" where
  "ignore_match_of (IgnoreMatch m) = Some m"
| "ignore_match_of r = None"

definition ignore_matches_of :: "inventory_record list \<Rightarrow> ignore_match list" where
  "ignore_matches_of rs = List.map_filter ignore_match_of rs"

definition derive_inventory_source_revision :: "inventory_digests \<Rightarrow> inventory_record list \<Rightarrow> string" where
  "derive_inventory_source_revision D rs =
     (let entries = map (\<lambda>e. \<lparr>re_content_digest = en_content_digest e, re_entry_kind = en_kind e,
            re_path_text = en_path e, re_size = en_size e, re_symlink_digest = en_symlink_digest e\<rparr>) (entries_of rs);
          failures = map (\<lambda>d. \<lparr>rv_code = di_code d, rv_fact_kind = di_fact_kind d, rv_path = di_path d,
            rv_severity = di_severity d, rv_stage = di_stage d\<rparr>)
            (filter (\<lambda>d. di_severity d = Error \<and> di_fact_kind d \<in> {None, Some RepositoryEntry}) (diagnostics_of rs))
      in dg_revision D (sort_key re_path_text entries, sort_key (dg_failure_text D) failures))"

end
