(* ===== verification/Inventory_Validation.thy ===== *)
theory Inventory_Validation
  imports Inventory_Model
begin

text \<open>
  The validators of inventory snapshots, \<^verbatim>\<open>src/ucf/inventory/models.py\<close>: the header, the loop over
  the records with the identities it collects, and the checks of the topology. A \<^verbatim>\<open>ValueError\<close> is
  its message. The second part says what the checks amount to.
\<close>

section \<open>Fields of a record\<close>

definition repository_path :: "string \<Rightarrow> bool" where
  "repository_path v \<longleftrightarrow> length v \<le> 1024 \<and> repository_path_ok v"

fun record_fields_ok :: "inventory_record \<Rightarrow> bool" where
  "record_fields_ok (Provenance p) \<longleftrightarrow> repository_path (pv_source_path p) \<and> provenance_ok p \<and>
     (case pv_source_span p of None \<Rightarrow> True | Some s \<Rightarrow> source_span_ok s)"
| "record_fields_ok (Entry e) \<longleftrightarrow> repository_path (en_path e) \<and> entry_coordinates_ok e \<and>
     (case en_size e of None \<Rightarrow> True | Some n \<Rightarrow> 0 \<le> n)"
| "record_fields_ok (FileFact f) \<longleftrightarrow> True"
| "record_fields_ok (Diagnostic d) \<longleftrightarrow> (case di_path d of None \<Rightarrow> True | Some p \<Rightarrow> repository_path p)"
| "record_fields_ok (IgnoreMatch m) \<longleftrightarrow> repository_path (im_path m)"

definition policy_ok :: "ignore_policy \<Rightarrow> bool" where
  "policy_ok policy \<longleftrightarrow> length policy \<le> 256 \<and> list_all (matcher_ok \<circ> ig_matcher) policy \<and>
     validate_rules policy = Inr ()"

definition subject_uri_ok :: "string \<Rightarrow> bool" where
  "subject_uri_ok v \<longleftrightarrow> fst (split_once (CHR '':'') v) \<noteq> ''file''"

section \<open>The header\<close>

definition inventory_capability :: string where
  "inventory_capability = ''org.ucf.adapter.inventory''"

definition inventory_version :: string where
  "inventory_version = ''1.0.0''"

definition count_of :: "inventory_record list \<Rightarrow> fact_kind \<Rightarrow> int" where
  "count_of rs k = int (length (filter (\<lambda>r. fact_kind_of r = Some k) rs))"

definition error_diagnostics :: "inventory_record list \<Rightarrow> diagnostic list" where
  "error_diagnostics rs = filter (\<lambda>d. di_severity d = Error) (diagnostics_of rs)"

definition partial_kinds :: "inventory_record list \<Rightarrow> fact_kind list" where
  "partial_kinds rs =
     (let errors = error_diagnostics rs in
      if list_ex (\<lambda>d. di_fact_kind d = None) errors then all_fact_kinds
      else List.map_filter di_fact_kind errors)"

definition validate_snapshot_header ::
  "capability_selection \<Rightarrow> coverage list \<Rightarrow> inventory_record list option \<Rightarrow> (string, unit) res" where
  "validate_snapshot_header capability coverage records =
     res_all id
       ([require (cs_name capability = inventory_capability \<and> cs_version capability = inventory_version)
           ''inventory snapshot capability coordinates are incompatible'',
         require (map co_fact_kind coverage = all_fact_kinds) ''inventory coverage must contain every fact kind''] @
        (case records of
           None \<Rightarrow> []
         | Some rs \<Rightarrow>
             [require (list_all (\<lambda>c. co_count c = count_of rs (co_fact_kind c)) coverage)
                ''inventory coverage counts do not match records'',
              require (list_all (\<lambda>c. (co_status c = ''partial'') = (co_fact_kind c \<in> set (partial_kinds rs))) coverage)
                ''inventory coverage status does not match error diagnostics'']))"

section \<open>References and identifiers\<close>

definition records_by_id :: "inventory_record list \<Rightarrow> (string, inventory_record) dict" where
  "records_by_id rs = dict_of (map (\<lambda>r. (record_id r, r)) rs)"

definition resolve_inventory_ref ::
  "record_ref \<Rightarrow> (string, inventory_record) dict \<Rightarrow> record_kind \<Rightarrow> (string, inventory_record) res" where
  "resolve_inventory_ref ref by_id expected =
     (case map_of by_id (rf_id ref) of
        None \<Rightarrow> Inl ''inventory reference is broken or has wrong kind''
      | Some target \<Rightarrow>
          if rf_kind ref \<noteq> expected \<or> record_kind_of target \<noteq> expected
          then Inl ''inventory reference is broken or has wrong kind'' else Inr target)"

fun as_provenance :: "inventory_record \<Rightarrow> (string, provenance) res" where
  "as_provenance (Provenance p) = Inr p"
| "as_provenance r = Inl ''AssertionError''"

fun as_entry :: "inventory_record \<Rightarrow> (string, entry_fact) res" where
  "as_entry (Entry e) = Inr e"
| "as_entry r = Inl ''AssertionError''"

definition resolve_provenance :: "record_ref \<Rightarrow> (string, inventory_record) dict \<Rightarrow> (string, provenance) res" where
  "resolve_provenance ref by_id = res_bind (resolve_inventory_ref ref by_id ProvenanceRecord) as_provenance"

definition resolve_entry :: "record_ref \<Rightarrow> (string, inventory_record) dict \<Rightarrow> (string, entry_fact) res" where
  "resolve_entry ref by_id = res_bind (resolve_inventory_ref ref by_id (FactRecord RepositoryEntry)) as_entry"

definition validate_record_id :: "inventory_digests \<Rightarrow> inventory_record \<Rightarrow> (string, unit) res" where
  "validate_record_id D r =
     res_all id
       [require (prefix (record_id_prefix (record_kind_of r) @ ''.'') (record_id r))
          ''inventory record ID prefix does not match its kind'',
        require (record_id r = derive_inventory_record_id D r)
          ''inventory record ID is not derived from its semantic identity'']"

section \<open>The loop over the records\<close>

text \<open>The three sets of identities the loop fills.\<close>

record identities =
  id_facts :: "inventory_record list"
  id_diagnostics :: "inventory_record list"
  id_ignores :: "string list"

definition no_identities :: identities where
  "no_identities = \<lparr>id_facts = [], id_diagnostics = [], id_ignores = []\<rparr>"

definition validate_provenance_record :: "pyval \<Rightarrow> ignore_policy \<Rightarrow> provenance \<Rightarrow> (string, unit) res" where
  "validate_provenance_record producer policy p =
     res_all id
       [require (pv_producer p = producer) ''inventory provenance producer differs from snapshot'',
        require (matching_rule_ids policy (pv_source_path p) = [])
          ''inventory provenance records evidence below an ignored path'']"

definition expected_digest :: "entry_fact \<Rightarrow> string option" where
  "expected_digest e =
     (case en_kind e of File \<Rightarrow> en_content_digest e | Symlink \<Rightarrow> en_symlink_digest e | Directory \<Rightarrow> None)"

definition validate_entry_record :: "ignore_policy \<Rightarrow> provenance \<Rightarrow> entry_fact \<Rightarrow> (string, unit) res" where
  "validate_entry_record policy p e =
     res_all id
       [require (pv_source_path p = en_path e) ''repository entry provenance path does not match'',
        require (pv_content_digest p = expected_digest e) ''repository entry provenance digest does not match'',
        require (pv_source_span p = None) ''repository entry provenance cannot have a source span'',
        require (matching_rule_ids policy (en_path e) = [])
          ''repository entry records evidence below an ignored path'']"

definition validate_file_fact :: "provenance \<Rightarrow> entry_fact \<Rightarrow> (string, unit) res" where
  "validate_file_fact p e =
     res_all id
       [require (en_kind e = File) ''inventory classification facts must reference a file'',
        require (pv_source_path p = en_path e) ''fact provenance path differs from its entry'',
        require (pv_content_digest p = en_content_digest e) ''fact provenance digest differs from its file entry'']"

definition validate_diagnostic_path :: "ignore_policy \<Rightarrow> diagnostic \<Rightarrow> (string, unit) res" where
  "validate_diagnostic_path policy d =
     require (\<not> (case di_path d of None \<Rightarrow> False | Some p \<Rightarrow> matching_rule_ids policy p \<noteq> []))
       ''inventory diagnostic records evidence below an ignored path''"

definition validate_ignore_match :: "ignore_policy \<Rightarrow> ignore_match \<Rightarrow> (string, unit) res" where
  "validate_ignore_match policy m =
     res_all id
       [require (im_rule_id m \<in> set (map ig_id policy)) ''ignore match references an unknown policy rule'',
        require (im_rule_id m \<in> set (matching_rule_ids policy (im_path m)))
          ''ignore match path does not match its policy rule'',
        require (im_rule_id m = Min (set (matching_rule_ids policy (im_path m))))
          ''ignore match must use the canonical rule for its pruned path'']"

definition validate_inventory_record ::
  "inventory_digests \<Rightarrow> (string, inventory_record) dict \<Rightarrow> pyval \<Rightarrow> ignore_policy \<Rightarrow> inventory_record \<Rightarrow>
     identities \<Rightarrow> (string, identities) res" where
  "validate_inventory_record D by_id producer policy r seen =
     res_bind (validate_record_id D r) (\<lambda>_.
     case r of
       Provenance p \<Rightarrow> res_bind (validate_provenance_record producer policy p) (\<lambda>_. Inr seen)
     | Entry e \<Rightarrow>
         res_bind (resolve_provenance (en_provenance e) by_id) (\<lambda>p.
         res_bind (require (semantic_identity r \<notin> set (id_facts seen))
           ''inventory facts must have unique semantic identities'') (\<lambda>_.
         res_bind (validate_entry_record policy p e) (\<lambda>_.
         Inr (seen\<lparr>id_facts := semantic_identity r # id_facts seen\<rparr>))))
     | FileFact f \<Rightarrow>
         res_bind (resolve_provenance (ff_provenance f) by_id) (\<lambda>p.
         res_bind (require (semantic_identity r \<notin> set (id_facts seen))
           ''inventory facts must have unique semantic identities'') (\<lambda>_.
         res_bind (resolve_entry (ff_entry f) by_id) (\<lambda>e.
         res_bind (validate_file_fact p e) (\<lambda>_.
         Inr (seen\<lparr>id_facts := semantic_identity r # id_facts seen\<rparr>)))))
     | Diagnostic d \<Rightarrow>
         res_bind (require (semantic_identity r \<notin> set (id_diagnostics seen))
           ''diagnostic semantic coordinates must be unique'') (\<lambda>_.
         res_bind (validate_diagnostic_path policy d) (\<lambda>_.
         res_bind
           (case di_provenance d of
              None \<Rightarrow> Inr ()
            | Some ref \<Rightarrow>
                res_bind (resolve_provenance ref by_id) (\<lambda>p.
                require (di_path d = Some (pv_source_path p)) ''diagnostic provenance path does not match''))
           (\<lambda>_. Inr (seen\<lparr>id_diagnostics := semantic_identity r # id_diagnostics seen\<rparr>))))
     | IgnoreMatch m \<Rightarrow>
         res_bind (validate_ignore_match policy m) (\<lambda>_.
         res_bind (require (im_path m \<notin> set (id_ignores seen))
           ''each pruned path must have exactly one ignore match'') (\<lambda>_.
         Inr (seen\<lparr>id_ignores := im_path m # id_ignores seen\<rparr>))))"

fun validate_each_record ::
  "inventory_digests \<Rightarrow> (string, inventory_record) dict \<Rightarrow> pyval \<Rightarrow> ignore_policy \<Rightarrow> inventory_record list \<Rightarrow>
     identities \<Rightarrow> (string, identities) res" where
  "validate_each_record D by_id producer policy [] seen = Inr seen"
| "validate_each_record D by_id producer policy (r # rs) seen =
     res_bind (validate_inventory_record D by_id producer policy r seen)
       (validate_each_record D by_id producer policy rs)"

section \<open>Topology\<close>

definition is_directory :: "(string, entry_fact) dict \<Rightarrow> string \<Rightarrow> bool" where
  "is_directory by_path path =
     (case map_of by_path path of None \<Rightarrow> False | Some e \<Rightarrow> en_kind e = Directory)"

definition entries_by_path :: "entry_fact list \<Rightarrow> (string, entry_fact) dict" where
  "entries_by_path es = dict_of (map (\<lambda>e. (en_path e, e)) es)"

definition path_prefixes :: "string \<Rightarrow> string list" where
  "path_prefixes path =
     map (\<lambda>k. py_join ''/'' (take k (posix_parts path))) [1..<Suc (length (posix_parts path))]"

definition first_pruned :: "ignore_policy \<Rightarrow> string \<Rightarrow> string option" where
  "first_pruned policy path = find (\<lambda>p. matching_rule_ids policy p \<noteq> []) (path_prefixes path)"

definition validate_topology :: "ignore_policy \<Rightarrow> inventory_record list \<Rightarrow> (string, unit) res" where
  "validate_topology policy rs =
     (let entries = entries_of rs; by_path = entries_by_path entries; matches = ignore_matches_of rs in
      res_all id
        [require (distinct (map en_path entries)) ''repository entry paths must be unique'',
         require (distinct (map (portable_path_key \<circ> en_path) entries)) ''repository path identity collision'',
         require (is_directory by_path ''.'') ''repository inventory must contain a root directory entry'',
         res_all (\<lambda>e. require (en_path e = ''.'' \<or> is_directory by_path (posix_parent (en_path e)))
           ''repository entry parent must exist and be a directory'') entries,
         require (distinct (map (portable_path_key \<circ> im_path) matches)) ''ignore match path identity collision'',
         res_all (\<lambda>m. require (first_pruned policy (im_path m) = Some (im_path m) \<and>
             is_directory by_path (posix_parent (im_path m)))
           ''ignore match is not a topology-bound minimal pruned path'') matches])"

fun referenced_provenance :: "inventory_record \<Rightarrow> string option" where
  "referenced_provenance (Entry e) = Some (rf_id (en_provenance e))"
| "referenced_provenance (FileFact f) = Some (rf_id (ff_provenance f))"
| "referenced_provenance (Diagnostic d) = map_option rf_id (di_provenance d)"
| "referenced_provenance r = None"

fun provenance_id :: "inventory_record \<Rightarrow> string option" where
  "provenance_id (Provenance p) = Some (pv_id p)"
| "provenance_id r = None"

definition validate_records ::
  "inventory_digests \<Rightarrow> inventory_record list \<Rightarrow> pyval \<Rightarrow> ignore_policy \<Rightarrow> string \<Rightarrow> (string, unit) res" where
  "validate_records D rs producer policy source_revision =
     res_bind (res_all id
       [require (distinct (map record_id rs)) ''inventory record IDs must be unique'',
        require (map record_key rs = sort (map record_key rs)) ''inventory records must be canonically sorted'',
        require (int (length (diagnostics_of rs)) \<le> 10000) ''inventory diagnostics exceed the profile limit'']) (\<lambda>_.
     res_bind (validate_each_record D (records_by_id rs) producer policy rs no_identities) (\<lambda>_.
     res_bind (validate_topology policy rs) (\<lambda>_.
     res_all id
       [require (set (List.map_filter provenance_id rs) = set (List.map_filter referenced_provenance rs))
          ''inventory contains orphan provenance'',
        require (source_revision = derive_inventory_source_revision D rs)
          ''inventory source revision is not derived from repository entries''])))"

definition validate_snapshot :: "inventory_digests \<Rightarrow> inventory_snapshot \<Rightarrow> (string, unit) res" where
  "validate_snapshot D s =
     res_bind (validate_snapshot_header (sn_capability s) (sn_coverage s) (Some (sn_records s))) (\<lambda>_.
     validate_records D (sn_records s) (sn_producer s) (sn_policy s) (sn_source_revision s))"

definition max_inventory_records :: int where
  "max_inventory_records = 65534"

text \<open>The model \<^verbatim>\<open>InventorySnapshot\<close>: its fields are valid, and so is the whole.\<close>

definition snapshot_ok :: "inventory_digests \<Rightarrow> inventory_snapshot \<Rightarrow> bool" where
  "snapshot_ok D s \<longleftrightarrow> subject_uri_ok (sn_subject_uri s) \<and> policy_ok (sn_policy s) \<and> list_all record_fields_ok (sn_records s) \<and>
     list_all (\<lambda>c. co_status c \<in> {''complete'', ''partial''} \<and> 0 \<le> co_count c) (sn_coverage s) \<and>
     int (length (sn_records s)) \<le> max_inventory_records \<and> validate_snapshot D s = Inr ()"

section \<open>What the loop checks\<close>

declare res_all.simps [simp del] and res_all_Inr [simp]

text \<open>The checks of one record that do not depend on the records before it.\<close>

definition entry_evidence_ok :: "ignore_policy \<Rightarrow> (string, inventory_record) dict \<Rightarrow> entry_fact \<Rightarrow> bool" where
  "entry_evidence_ok policy by_id e \<longleftrightarrow>
     (\<exists>p. resolve_provenance (en_provenance e) by_id = Inr p \<and> validate_entry_record policy p e = Inr ())"

definition file_evidence_ok :: "(string, inventory_record) dict \<Rightarrow> file_fact \<Rightarrow> bool" where
  "file_evidence_ok by_id f \<longleftrightarrow>
     (\<exists>p e. resolve_provenance (ff_provenance f) by_id = Inr p \<and> resolve_entry (ff_entry f) by_id = Inr e \<and>
        validate_file_fact p e = Inr ())"

definition diagnostic_evidence_ok :: "ignore_policy \<Rightarrow> (string, inventory_record) dict \<Rightarrow> diagnostic \<Rightarrow> bool" where
  "diagnostic_evidence_ok policy by_id d \<longleftrightarrow> validate_diagnostic_path policy d = Inr () \<and>
     (\<forall>ref. di_provenance d = Some ref \<longrightarrow>
        (\<exists>p. resolve_provenance ref by_id = Inr p \<and> di_path d = Some (pv_source_path p)))"

definition record_ok ::
  "inventory_digests \<Rightarrow> (string, inventory_record) dict \<Rightarrow> pyval \<Rightarrow> ignore_policy \<Rightarrow> inventory_record \<Rightarrow> bool" where
  "record_ok D by_id producer policy r \<longleftrightarrow> validate_record_id D r = Inr () \<and>
     (case r of
        Provenance p \<Rightarrow> validate_provenance_record producer policy p = Inr ()
      | Entry e \<Rightarrow> entry_evidence_ok policy by_id e
      | FileFact f \<Rightarrow> file_evidence_ok by_id f
      | Diagnostic d \<Rightarrow> diagnostic_evidence_ok policy by_id d
      | IgnoreMatch m \<Rightarrow> validate_ignore_match policy m = Inr ())"

definition is_fact :: "inventory_record \<Rightarrow> bool" where
  "is_fact r \<longleftrightarrow> fact_kind_of r \<noteq> None"

definition is_diagnostic :: "inventory_record \<Rightarrow> bool" where
  "is_diagnostic r \<longleftrightarrow> diagnostic_of r \<noteq> None"

text \<open>The identities of the records are new and pairwise different.\<close>

definition identities_fresh :: "identities \<Rightarrow> inventory_record list \<Rightarrow> bool" where
  "identities_fresh seen rs \<longleftrightarrow>
     distinct (map semantic_identity (filter is_fact rs)) \<and>
     semantic_identity ` set (filter is_fact rs) \<inter> set (id_facts seen) = {} \<and>
     distinct (map semantic_identity (filter is_diagnostic rs)) \<and>
     semantic_identity ` set (filter is_diagnostic rs) \<inter> set (id_diagnostics seen) = {} \<and>
     distinct (map im_path (ignore_matches_of rs)) \<and>
     im_path ` set (ignore_matches_of rs) \<inter> set (id_ignores seen) = {}"

fun note_identity :: "inventory_record \<Rightarrow> identities \<Rightarrow> identities" where
  "note_identity (Provenance p) seen = seen"
| "note_identity (Entry e) seen = seen\<lparr>id_facts := semantic_identity (Entry e) # id_facts seen\<rparr>"
| "note_identity (FileFact f) seen = seen\<lparr>id_facts := semantic_identity (FileFact f) # id_facts seen\<rparr>"
| "note_identity (Diagnostic d) seen = seen\<lparr>id_diagnostics := semantic_identity (Diagnostic d) # id_diagnostics seen\<rparr>"
| "note_identity (IgnoreMatch m) seen = seen\<lparr>id_ignores := im_path m # id_ignores seen\<rparr>"

lemma select_simps [simp]:
  "entries_of [] = []" "diagnostics_of [] = []" "ignore_matches_of [] = []"
  "entries_of (r # rs) = (case entry_of r of None \<Rightarrow> entries_of rs | Some x \<Rightarrow> x # entries_of rs)"
  "diagnostics_of (r # rs) = (case diagnostic_of r of None \<Rightarrow> diagnostics_of rs | Some y \<Rightarrow> y # diagnostics_of rs)"
  "ignore_matches_of (r # rs) = (case ignore_match_of r of None \<Rightarrow> ignore_matches_of rs | Some z \<Rightarrow> z # ignore_matches_of rs)"
  by (simp_all add: entries_of_def diagnostics_of_def ignore_matches_of_def List.map_filter_simps
      split: option.splits)

lemma entry_of_Some [simp]: "entry_of r = Some e \<longleftrightarrow> r = Entry e"
  by (cases r) auto

lemma diagnostic_of_Some [simp]: "diagnostic_of r = Some d \<longleftrightarrow> r = Diagnostic d"
  by (cases r) auto

lemma ignore_match_of_Some [simp]: "ignore_match_of r = Some m \<longleftrightarrow> r = IgnoreMatch m"
  by (cases r) auto

lemma set_select [simp]:
  "e \<in> set (entries_of rs) \<longleftrightarrow> Entry e \<in> set rs"
  "d \<in> set (diagnostics_of rs) \<longleftrightarrow> Diagnostic d \<in> set rs"
  "m \<in> set (ignore_matches_of rs) \<longleftrightarrow> IgnoreMatch m \<in> set rs"
  by (induction rs) (auto split: option.splits)

lemma identities_fresh_Cons:
  "identities_fresh seen (r # rs) \<longleftrightarrow> identities_fresh seen [r] \<and> identities_fresh (note_identity r seen) rs"
  by (cases r) (auto simp: identities_fresh_def is_fact_def is_diagnostic_def)

lemma validate_inventory_record_Inr:
  "validate_inventory_record D by_id producer policy r seen = Inr seen' \<longleftrightarrow>
     record_ok D by_id producer policy r \<and> identities_fresh seen [r] \<and> seen' = note_identity r seen"
  by (cases r) (auto simp: validate_inventory_record_def record_ok_def res_bind_Inr identities_fresh_def
      is_fact_def is_diagnostic_def entry_evidence_ok_def file_evidence_ok_def diagnostic_evidence_ok_def
      split: option.splits)

lemma validate_each_record_Inr:
  "(\<exists>seen'. validate_each_record D by_id producer policy rs seen = Inr seen') \<longleftrightarrow>
     (\<forall>r \<in> set rs. record_ok D by_id producer policy r) \<and> identities_fresh seen rs"
proof (induction rs arbitrary: seen)
  case Nil
  show ?case by (simp add: identities_fresh_def)
next
  case (Cons r rs)
  show ?case
    unfolding identities_fresh_Cons [of seen r rs]
    by (auto simp: res_bind_Inr validate_inventory_record_Inr Cons.IH)
qed

lemma is_directory_by_path:
  assumes "distinct (map en_path es)"
  shows "is_directory (entries_by_path es) path \<longleftrightarrow> (\<exists>e \<in> set es. en_path e = path \<and> en_kind e = Directory)"
proof -
  have "map_of (entries_by_path es) path = Some e \<longleftrightarrow> e \<in> set es \<and> en_path e = path" for e
    using dict_of_inj [of en_path es "\<lambda>e. e" path e] assms by (auto simp: entries_by_path_def distinct_map)
  moreover have "is_directory (entries_by_path es) path \<longleftrightarrow>
      (\<exists>e. map_of (entries_by_path es) path = Some e \<and> en_kind e = Directory)"
    by (simp add: is_directory_def split: option.splits)
  ultimately show ?thesis by blast
qed

lemma records_by_id_lookup:
  assumes "distinct (map record_id rs)"
  shows "map_of (records_by_id rs) i = Some r \<longleftrightarrow> r \<in> set rs \<and> record_id r = i"
  using dict_of_inj [of record_id rs "\<lambda>r. r" i r] assms by (auto simp: records_by_id_def distinct_map)

lemma as_record_Inr [simp]:
  "as_provenance r = Inr p \<longleftrightarrow> r = Provenance p"
  "as_entry r = Inr e \<longleftrightarrow> r = Entry e"
  by (cases r; simp)+

lemma resolve_inventory_ref_Inr:
  assumes "distinct (map record_id rs)"
  shows "resolve_inventory_ref ref (records_by_id rs) k = Inr r \<longleftrightarrow>
    r \<in> set rs \<and> record_id r = rf_id ref \<and> rf_kind ref = k \<and> record_kind_of r = k"
proof -
  have "resolve_inventory_ref ref (records_by_id rs) k = Inr r \<longleftrightarrow>
      map_of (records_by_id rs) (rf_id ref) = Some r \<and> rf_kind ref = k \<and> record_kind_of r = k"
    by (auto simp: resolve_inventory_ref_def split: option.splits if_splits)
  then show ?thesis by (simp add: records_by_id_lookup [OF assms])
qed

lemma resolve_provenance_Inr:
  assumes "distinct (map record_id rs)"
  shows "resolve_provenance ref (records_by_id rs) = Inr p \<longleftrightarrow>
    Provenance p \<in> set rs \<and> pv_id p = rf_id ref \<and> rf_kind ref = ProvenanceRecord"
  by (auto simp: resolve_provenance_def res_bind_Inr resolve_inventory_ref_Inr [OF assms])

lemma resolve_entry_Inr:
  assumes "distinct (map record_id rs)"
  shows "resolve_entry ref (records_by_id rs) = Inr e \<longleftrightarrow>
    Entry e \<in> set rs \<and> en_id e = rf_id ref \<and> rf_kind ref = FactRecord RepositoryEntry"
  by (auto simp: resolve_entry_def res_bind_Inr resolve_inventory_ref_Inr [OF assms])

end
