(* ===== verification/Inventory_Topology.thy ===== *)
theory Inventory_Topology
  imports Inventory_Validation
begin

text \<open>
  What a valid snapshot looks like: its entries are a directory tree, the pruned paths are leaves of
  that tree, and nothing below a pruned path is reported.
\<close>

section \<open>Parts of a path\<close>

definition segment :: "string \<Rightarrow> bool" where
  "segment p \<longleftrightarrow> p \<noteq> [] \<and> p \<noteq> ''.'' \<and> CHR ''/'' \<notin> set p"

lemma posix_parts_segment: "p \<in> set (posix_parts v) \<Longrightarrow> segment p"
  by (auto simp: posix_parts_def segment_def dest: split_by_parts)

lemma posix_parts_text:
  assumes "\<And>p. p \<in> set ps \<Longrightarrow> segment p"
  shows "posix_parts (posix_text ps) = ps"
proof (cases "ps = []")
  case True
  then show ?thesis by (simp add: posix_text_def posix_parts_def)
next
  case False
  have "split_on (CHR ''/'') (py_join ''/'' ps) = ps"
    using False assms by (intro split_join) (auto simp: segment_def)
  moreover have "filter (\<lambda>p. p \<noteq> [] \<and> p \<noteq> ''.'') ps = ps"
    using assms by (intro filter_True) (auto simp: segment_def)
  ultimately show ?thesis using False by (simp add: posix_text_def posix_parts_def)
qed

lemma posix_parts_take [simp]:
  "posix_parts (posix_text (take k (posix_parts v))) = take k (posix_parts v)"
  by (rule posix_parts_text) (auto dest: in_set_takeD posix_parts_segment)

lemma posix_parts_butlast [simp]:
  "posix_parts (posix_text (butlast (posix_parts v))) = butlast (posix_parts v)"
  by (rule posix_parts_text) (auto dest: in_set_butlastD posix_parts_segment)

lemma posix_parts_root [simp]: "posix_parts ''.'' = []" "posix_text [] = ''.''"
  by (simp_all add: posix_parts_def posix_text_def)

lemma posix_text_parts: "repository_path v \<Longrightarrow> posix_text (posix_parts v) = v"
  by (auto simp: repository_path_def repository_path_ok_def)

lemma posix_parts_Nil: "repository_path v \<Longrightarrow> posix_parts v = [] \<longleftrightarrow> v = ''.''"
  using posix_text_parts [of v] by auto

lemma posix_parts_inj: "repository_path v \<Longrightarrow> repository_path w \<Longrightarrow> posix_parts v = posix_parts w \<longleftrightarrow> v = w"
  by (metis posix_text_parts)

lemma py_join_append:
  "ps \<noteq> [] \<Longrightarrow> qs \<noteq> [] \<Longrightarrow> py_join sep (ps @ qs) = py_join sep ps @ sep @ py_join sep qs"
proof (induction ps rule: induct_list012)
  case (2 p)
  then show ?case by (cases qs) auto
qed auto

text \<open>A path below another one continues its text.\<close>

lemma below_text:
  assumes "repository_path v" "repository_path w" "posix_parts v \<noteq> []" "prefix (posix_parts v) (posix_parts w)"
  shows "w = v \<or> prefix (v @ ''/'') w"
proof -
  obtain xs where xs: "posix_parts w = posix_parts v @ xs" using assms(4) by (auto simp: prefix_def)
  show ?thesis
  proof (cases "xs = []")
    case True
    then show ?thesis using xs posix_parts_inj [OF assms(1,2)] by simp
  next
    case False
    have "w = py_join ''/'' (posix_parts v @ xs)"
      using posix_text_parts [OF assms(2)] xs assms(3) by (simp add: posix_text_def)
    also have "\<dots> = v @ ''/'' @ py_join ''/'' xs"
      using py_join_append [OF assms(3) False] posix_text_parts [OF assms(1)] assms(3) by (simp add: posix_text_def)
    finally show ?thesis by (auto simp: prefix_def)
  qed
qed

section \<open>Rules and paths below\<close>

lemma rule_matches_nonempty:
  assumes "matcher_ok (ig_matcher r)" "rule_matches v r" "repository_path v"
  shows "posix_parts v \<noteq> []"
proof
  assume "posix_parts v = []"
  then have "v = ''.''" using posix_parts_Nil [OF assms(3)] by simp
  then show False
    using assms(1,2) by (cases "ig_matcher r")
      (auto simp: rule_matches_def matcher_ok_def repository_path_ok_def prefix_Cons append_eq_Cons_conv)
qed

lemma rule_matches_below:
  assumes "matcher_ok (ig_matcher r)" "rule_matches v r" "repository_path v" "repository_path w"
    and "prefix (posix_parts v) (posix_parts w)"
  shows "rule_matches w r"
proof (cases "ig_matcher r")
  case (PathPrefix p)
  have "w = v \<or> prefix (v @ ''/'') w" by (rule below_text) (use assms rule_matches_nonempty in auto)
  then show ?thesis
    using assms(1,2) PathPrefix by (auto simp: rule_matches_def matcher_ok_def prefix_def)
next
  case (PathSegment s)
  have "s \<in> set (posix_parts w)"
    using assms(2,5) PathSegment by (auto simp: rule_matches_def prefix_def split: if_splits)
  then show ?thesis using PathSegment by (auto simp: rule_matches_def)
qed

lemma matching_below:
  assumes "policy_ok policy" "matching_rule_ids policy v \<noteq> []" "repository_path v" "repository_path w"
    and "prefix (posix_parts v) (posix_parts w)"
  shows "matching_rule_ids policy w \<noteq> []"
proof -
  obtain r where r: "r \<in> set policy" "rule_matches v r"
    using assms(2) by (auto simp: matching_rule_ids_def filter_empty_conv)
  then have "matcher_ok (ig_matcher r)" using assms(1) by (auto simp: policy_ok_def list_all_iff)
  then have "rule_matches w r" using rule_matches_below r assms(3-5) by blast
  then show ?thesis using r by (auto simp: matching_rule_ids_def filter_empty_conv)
qed

section \<open>What a valid snapshot satisfies\<close>

lemma validate_topology_Inr:
  "validate_topology policy rs = Inr () \<longleftrightarrow>
     distinct (map en_path (entries_of rs)) \<and> distinct (map (portable_path_key \<circ> en_path) (entries_of rs)) \<and>
     is_directory (entries_by_path (entries_of rs)) ''.'' \<and>
     (\<forall>e. Entry e \<in> set rs \<longrightarrow> en_path e \<noteq> ''.'' \<longrightarrow>
        is_directory (entries_by_path (entries_of rs)) (posix_parent (en_path e))) \<and>
     distinct (map (portable_path_key \<circ> im_path) (ignore_matches_of rs)) \<and>
     (\<forall>m. IgnoreMatch m \<in> set rs \<longrightarrow> first_pruned policy (im_path m) = Some (im_path m) \<and>
        is_directory (entries_by_path (entries_of rs)) (posix_parent (im_path m)))"
  by (auto simp: validate_topology_def Let_def)

definition directory_at :: "inventory_record list \<Rightarrow> string \<Rightarrow> bool" where
  "directory_at rs path \<longleftrightarrow> (\<exists>d. Entry d \<in> set rs \<and> en_path d = path \<and> en_kind d = Directory)"

lemma snapshot_okD:
  assumes "snapshot_ok D s"
  shows "policy_ok (sn_policy s)" "\<And>r. r \<in> set (sn_records s) \<Longrightarrow> record_fields_ok r"
    and "distinct (map record_id (sn_records s))" "sorted (map record_key (sn_records s))"
    and "\<And>r. r \<in> set (sn_records s) \<Longrightarrow> record_ok D (records_by_id (sn_records s)) (sn_producer s) (sn_policy s) r"
    and "identities_fresh no_identities (sn_records s)"
    and "validate_topology (sn_policy s) (sn_records s) = Inr ()"
    and "\<And>path. is_directory (entries_by_path (entries_of (sn_records s))) path \<longleftrightarrow> directory_at (sn_records s) path"
proof -
  let ?rs = "sn_records s"
  have v: "validate_records D ?rs (sn_producer s) (sn_policy s) (sn_source_revision s) = Inr ()"
    using assms by (auto simp: snapshot_ok_def validate_snapshot_def res_bind_Inr)
  then have each: "\<exists>seen. validate_each_record D (records_by_id ?rs) (sn_producer s) (sn_policy s) ?rs no_identities = Inr seen"
    by (auto simp: validate_records_def res_bind_Inr)
  then show "identities_fresh no_identities ?rs"
    and "\<And>r. r \<in> set ?rs \<Longrightarrow> record_ok D (records_by_id ?rs) (sn_producer s) (sn_policy s) r"
    by (simp_all add: validate_each_record_Inr)
  show "policy_ok (sn_policy s)" "\<And>r. r \<in> set ?rs \<Longrightarrow> record_fields_ok r"
    using assms by (simp_all add: snapshot_ok_def list_all_iff)
  show "distinct (map record_id ?rs)"
    using v by (auto simp: validate_records_def res_bind_Inr)
  have "map record_key ?rs = sort (map record_key ?rs)"
    using v by (auto simp: validate_records_def res_bind_Inr)
  then show "sorted (map record_key ?rs)" by (metis sorted_sort)
  show t: "validate_topology (sn_policy s) ?rs = Inr ()"
    using v by (auto simp: validate_records_def res_bind_Inr)
  then have "distinct (map en_path (entries_of ?rs))" by (simp add: validate_topology_Inr)
  then show "is_directory (entries_by_path (entries_of ?rs)) path \<longleftrightarrow> directory_at ?rs path" for path
    by (auto simp: is_directory_by_path directory_at_def)
qed

lemma snapshot_parent:
  assumes "snapshot_ok D s" "Entry e \<in> set (sn_records s)" "en_path e \<noteq> ''.''"
  shows "directory_at (sn_records s) (posix_parent (en_path e))"
  using snapshot_okD(7,8) [OF assms(1)] assms(2,3) by (simp add: validate_topology_Inr)

lemma snapshot_path:
  assumes "snapshot_ok D s"
  shows "Entry e \<in> set (sn_records s) \<Longrightarrow> repository_path (en_path e)"
    and "IgnoreMatch m \<in> set (sn_records s) \<Longrightarrow> repository_path (im_path m)"
    and "Provenance p \<in> set (sn_records s) \<Longrightarrow> repository_path (pv_source_path p)"
    and "Diagnostic d \<in> set (sn_records s) \<Longrightarrow> di_path d = Some q \<Longrightarrow> repository_path q"
  using snapshot_okD(2) [OF assms] by force+

lemma distinct_map_D: "distinct (map f xs) \<Longrightarrow> x \<in> set xs \<Longrightarrow> y \<in> set xs \<Longrightarrow> f x = f y \<Longrightarrow> x = y"
  by (auto simp: distinct_map dest: inj_onD)

lemma snapshot_entry_unique:
  assumes "snapshot_ok D s" "Entry e \<in> set (sn_records s)" "Entry d \<in> set (sn_records s)"
    and "py_lower (en_path d) = py_lower (en_path e)"
  shows "d = e"
proof -
  have "distinct (map (portable_path_key \<circ> en_path) (entries_of (sn_records s)))"
    using snapshot_okD(7) [OF assms(1)] by (simp add: validate_topology_Inr)
  then show ?thesis using distinct_map_D assms(2-4) by (fastforce simp: portable_path_key_def)
qed

lemma snapshot_ancestor:
  assumes "snapshot_ok D s" "Entry e \<in> set (sn_records s)" "j < length (posix_parts (en_path e))"
  shows "directory_at (sn_records s) (posix_text (take (length (posix_parts (en_path e)) - Suc j) (posix_parts (en_path e))))"
  using assms(3)
proof (induction j)
  case 0
  then have "en_path e \<noteq> ''.''" by auto
  from snapshot_parent [OF assms(1,2) this] show ?case by (simp add: posix_parent_def butlast_conv_take)
next
  case (Suc j)
  let ?ps = "posix_parts (en_path e)"
  from Suc obtain d where d: "Entry d \<in> set (sn_records s)" "en_path d = posix_text (take (length ?ps - Suc j) ?ps)"
    by (auto simp: directory_at_def)
  have parts: "posix_parts (en_path d) = take (length ?ps - Suc j) ?ps" using d(2) by simp
  then have "en_path d \<noteq> ''.''" using Suc.prems by auto
  from snapshot_parent [OF assms(1) d(1) this] show ?case
    using Suc.prems by (simp add: posix_parent_def parts butlast_take)
qed

section \<open>Pruned paths\<close>

text \<open>The path whose contents a record is evidence of.\<close>

fun evidence_path :: "inventory_record \<Rightarrow> string option" where
  "evidence_path (Provenance p) = Some (pv_source_path p)"
| "evidence_path (Entry e) = Some (en_path e)"
| "evidence_path (FileFact f) = None"
| "evidence_path (Diagnostic d) = di_path d"
| "evidence_path (IgnoreMatch m) = None"

lemma evidence_not_ignored:
  assumes "snapshot_ok D s" "r \<in> set (sn_records s)" "evidence_path r = Some q"
  shows "repository_path q \<and> matching_rule_ids (sn_policy s) q = []"
proof -
  have "record_ok D (records_by_id (sn_records s)) (sn_producer s) (sn_policy s) r"
    by (rule snapshot_okD(5) [OF assms(1,2)])
  moreover have "record_fields_ok r" by (rule snapshot_okD(2) [OF assms(1,2)])
  ultimately show ?thesis using assms(3)
    by (cases r) (auto simp: record_ok_def validate_provenance_record_def entry_evidence_ok_def
        validate_entry_record_def diagnostic_evidence_ok_def validate_diagnostic_path_def)
qed

lemma ignore_match_facts:
  assumes "snapshot_ok D s" "IgnoreMatch m \<in> set (sn_records s)"
  shows "directory_at (sn_records s) (posix_parent (im_path m))"
    and "first_pruned (sn_policy s) (im_path m) = Some (im_path m)"
    and "im_rule_id m \<in> set (matching_rule_ids (sn_policy s) (im_path m))"
    and "im_rule_id m = Min (set (matching_rule_ids (sn_policy s) (im_path m)))"
    and "repository_path (im_path m)" "im_path m \<noteq> ''.''"
proof -
  show "directory_at (sn_records s) (posix_parent (im_path m))"
    and p: "first_pruned (sn_policy s) (im_path m) = Some (im_path m)"
    using snapshot_okD(7,8) [OF assms(1)] assms(2) by (simp_all add: validate_topology_Inr)
  have "im_rule_id m \<in> set (matching_rule_ids (sn_policy s) (im_path m)) \<and>
      im_rule_id m = Min (set (matching_rule_ids (sn_policy s) (im_path m)))"
    using snapshot_okD(5) [OF assms] unfolding record_ok_def validate_ignore_match_def
    by (simp split: if_splits) metis
  then show "im_rule_id m \<in> set (matching_rule_ids (sn_policy s) (im_path m))"
    and "im_rule_id m = Min (set (matching_rule_ids (sn_policy s) (im_path m)))" by blast+
  show "repository_path (im_path m)" by (rule snapshot_path(2) [OF assms])
  show "im_path m \<noteq> ''.''" using p by (auto simp: first_pruned_def path_prefixes_def)
qed

lemma path_prefixes_eq:
  assumes "repository_path v"
  shows "path_prefixes v = map (\<lambda>k. posix_text (take k (posix_parts v))) [1..<Suc (length (posix_parts v))]"
  by (auto simp: path_prefixes_def posix_text_def simp del: upt_Suc)

lemma find_sorted_least:
  assumes "find P (map f [a..<b]) = Some x"
  shows "\<exists>k. a \<le> k \<and> k < b \<and> f k = x \<and> P x \<and> (\<forall>j. a \<le> j \<longrightarrow> j < k \<longrightarrow> \<not> P (f j))"
proof -
  obtain i where i: "i < b - a" "P x" "x = f (a + i)" and least: "\<And>j. j < i \<Longrightarrow> \<not> P (f (a + j))"
    using assms by (auto simp: find_Some_iff)
  have "\<not> P (f j)" if "a \<le> j" "j < a + i" for j using least [of "j - a"] that by simp
  with i show ?thesis by (intro exI [of _ "a + i"]) auto
qed

text \<open>No prefix of a pruned path is matched.\<close>

lemma ignore_match_minimal:
  assumes "snapshot_ok D s" "IgnoreMatch m \<in> set (sn_records s)"
    and "1 \<le> j" "j < length (posix_parts (im_path m))"
  shows "matching_rule_ids (sn_policy s) (posix_text (take j (posix_parts (im_path m)))) = []"
proof -
  let ?ps = "posix_parts (im_path m)"
  have path: "repository_path (im_path m)" by (rule ignore_match_facts(5) [OF assms(1,2)])
  obtain k where k: "k < Suc (length ?ps)" "posix_text (take k ?ps) = im_path m"
    and least: "\<forall>j. 1 \<le> j \<longrightarrow> j < k \<longrightarrow> matching_rule_ids (sn_policy s) (posix_text (take j ?ps)) = []"
    using find_sorted_least [OF ignore_match_facts(2) [OF assms(1,2), unfolded first_pruned_def path_prefixes_eq [OF path]]]
    by auto
  have "take k ?ps = ?ps" using posix_parts_take [of k "im_path m"] k(2) by simp
  then have "\<not> k < length ?ps" by (metis length_take min.absorb4 nat_neq_iff)
  then show ?thesis using least assms(3,4) by simp
qed

section \<open>Example\<close>

definition ex_inventory_digests :: inventory_digests where
  "ex_inventory_digests = \<lparr>dg_record = \<lambda>r. (case r of Provenance p \<Rightarrow> pv_source_path p | Entry e \<Rightarrow> en_path e
       | FileFact f \<Rightarrow> rf_id (ff_entry f) | Diagnostic d \<Rightarrow> di_code d | IgnoreMatch m \<Rightarrow> im_path m),
     dg_failure_text = rv_code, dg_revision = (\<lambda>x. concat (map re_path_text (fst x))), dg_snapshot = sn_subject_uri\<rparr>"

definition ex_entry :: "string \<Rightarrow> entry_kind \<Rightarrow> entry_fact" where
  "ex_entry path kind = \<lparr>en_id = ''entry.'' @ path,
     en_provenance = \<lparr>rf_kind = ProvenanceRecord, rf_id = ''provenance.'' @ path\<rparr>, en_confidence = VNone,
     en_path = path, en_kind = kind, en_size = (if kind = File then Some 3 else None),
     en_content_digest = (if kind = File then Some path else None), en_symlink_digest = None\<rparr>"

definition ex_provenance :: "string \<Rightarrow> entry_kind \<Rightarrow> provenance" where
  "ex_provenance path kind = \<lparr>pv_id = ''provenance.'' @ path, pv_source_path = path,
     pv_content_digest = (if kind = File then Some path else None), pv_source_span = None,
     pv_producer = VNone, pv_procedure_uri = ''urn:scan:1.0.0''\<rparr>"

definition ex_ignore :: ignore_match where
  "ex_ignore = \<lparr>im_id = ''ignore.out'', im_rule_id = ''r1'', im_path = ''out''\<rparr>"

definition ex_records :: "inventory_record list" where
  "ex_records = [IgnoreMatch ex_ignore, Provenance (ex_provenance ''.'' Directory),
     Provenance (ex_provenance ''src'' Directory), Provenance (ex_provenance ''src/a.py'' File),
     Entry (ex_entry ''.'' Directory), Entry (ex_entry ''src'' Directory), Entry (ex_entry ''src/a.py'' File)]"

definition ex_snapshot :: inventory_snapshot where
  "ex_snapshot = \<lparr>sn_subject_uri = ''urn:repo'', sn_source_revision = ''.srcsrc/a.py'', sn_producer = VNone,
     sn_capability = \<lparr>cs_name = ''org.ucf.adapter.inventory'', cs_version = ''1.0.0''\<rparr>,
     sn_policy = [\<lparr>ig_id = ''r1'', ig_reason = ''generated'', ig_matcher = PathPrefix ''out''\<rparr>],
     sn_coverage = map (\<lambda>k. \<lparr>co_fact_kind = k, co_status = ''complete'',
       co_count = (if k = RepositoryEntry then 3 else 0)\<rparr>) all_fact_kinds,
     sn_records = ex_records\<rparr>"

lemma ex_snapshot_ok: "snapshot_ok ex_inventory_digests ex_snapshot"
  by code_simp

section \<open>The topology of valid snapshots\<close>

text \<open>
  C10: The entries of a valid snapshot are a directory tree: every proper prefix of the path of an
  entry, down to the root, is the path of exactly one recorded entry, which is a directory, and no
  two entries have the same path up to the case of ASCII letters.
\<close>

theorem snapshot_is_tree:
  assumes "snapshot_ok D s" and "Entry e \<in> set (sn_records s)"
  shows "directory_at (sn_records s) ''.'' \<and>
    (\<forall>k < length (posix_parts (en_path e)). \<exists>d. Entry d \<in> set (sn_records s) \<and> en_kind d = Directory \<and>
       posix_parts (en_path d) = take k (posix_parts (en_path e)) \<and>
       (\<forall>d'. Entry d' \<in> set (sn_records s) \<and> en_path d' = en_path d \<longrightarrow> d' = d)) \<and>
    (\<forall>d. Entry d \<in> set (sn_records s) \<and> py_lower (en_path d) = py_lower (en_path e) \<longrightarrow> d = e)"
proof (intro conjI allI impI)
  show "directory_at (sn_records s) ''.''"
    using snapshot_okD(7,8) [OF assms(1)] by (simp add: validate_topology_Inr)
next
  fix k assume k: "k < length (posix_parts (en_path e))"
  then have "directory_at (sn_records s) (posix_text (take k (posix_parts (en_path e))))"
    using snapshot_ancestor [OF assms, of "length (posix_parts (en_path e)) - Suc k"] by simp
  then obtain d where d: "Entry d \<in> set (sn_records s)" "en_kind d = Directory"
      "en_path d = posix_text (take k (posix_parts (en_path e)))"
    unfolding directory_at_def by blast
  have "\<forall>d'. Entry d' \<in> set (sn_records s) \<and> en_path d' = en_path d \<longrightarrow> d' = d"
    using snapshot_entry_unique [OF assms(1) d(1)] by auto
  moreover have "posix_parts (en_path d) = take k (posix_parts (en_path e))" by (simp add: d(3))
  ultimately show "\<exists>d. Entry d \<in> set (sn_records s) \<and> en_kind d = Directory \<and>
      posix_parts (en_path d) = take k (posix_parts (en_path e)) \<and>
      (\<forall>d'. Entry d' \<in> set (sn_records s) \<and> en_path d' = en_path d \<longrightarrow> d' = d)" using d(1,2) by blast
next
  fix d assume "Entry d \<in> set (sn_records s) \<and> py_lower (en_path d) = py_lower (en_path e)"
  then show "d = e" using snapshot_entry_unique [OF assms] by blast
qed

theorem snapshot_is_tree_witness:
  "snapshot_ok ex_inventory_digests ex_snapshot \<and>
   {d. Entry d \<in> set ex_records \<and> py_lower (en_path d) = py_lower ''src/a.py''} = {ex_entry ''src/a.py'' File}"
proof -
  have e: "Entry (ex_entry ''src/a.py'' File) \<in> set (sn_records ex_snapshot)"
    by (simp add: ex_snapshot_def ex_records_def ex_entry_def)
  have "\<forall>d. Entry d \<in> set ex_records \<and> py_lower (en_path d) = py_lower ''src/a.py'' \<longrightarrow> d = ex_entry ''src/a.py'' File"
    using snapshot_is_tree [OF ex_snapshot_ok e] by (simp add: ex_snapshot_def ex_entry_def)
  moreover have "Entry (ex_entry ''src/a.py'' File) \<in> set ex_records" "en_path (ex_entry ''src/a.py'' File) = ''src/a.py''"
    using e by (simp_all add: ex_snapshot_def ex_entry_def)
  ultimately show ?thesis using ex_snapshot_ok by auto
qed

text \<open>
  A pruned path of a valid snapshot is a leaf of the tree: its parent is a recorded directory,
  no entry, provenance or diagnostic is at the path or below it, no other pruned path is below it,
  and the rule it names is the least of the rules that match it.
\<close>

theorem pruned_paths_are_leaves:
  assumes "snapshot_ok D s" and "IgnoreMatch m \<in> set (sn_records s)"
  shows "directory_at (sn_records s) (posix_parent (im_path m)) \<and>
    (\<forall>r q. r \<in> set (sn_records s) \<and> evidence_path r = Some q \<longrightarrow> \<not> prefix (posix_parts (im_path m)) (posix_parts q)) \<and>
    (\<forall>n. IgnoreMatch n \<in> set (sn_records s) \<and> prefix (posix_parts (im_path m)) (posix_parts (im_path n)) \<longrightarrow> n = m) \<and>
    im_rule_id m = Min (set (matching_rule_ids (sn_policy s) (im_path m)))"
proof (intro conjI allI impI)
  note facts = ignore_match_facts [OF assms]
  have policy: "policy_ok (sn_policy s)" by (rule snapshot_okD(1) [OF assms(1)])
  have matched: "matching_rule_ids (sn_policy s) (im_path m) \<noteq> []" using facts(3) by auto
  show "directory_at (sn_records s) (posix_parent (im_path m))" by (rule facts(1))
  show "im_rule_id m = Min (set (matching_rule_ids (sn_policy s) (im_path m)))" by (rule facts(4))
  show "\<not> prefix (posix_parts (im_path m)) (posix_parts q)"
    if "r \<in> set (sn_records s) \<and> evidence_path r = Some q" for r q
    using evidence_not_ignored [OF assms(1)] that matching_below [OF policy matched facts(5)] by blast
  show "n = m"
    if n: "IgnoreMatch n \<in> set (sn_records s) \<and> prefix (posix_parts (im_path m)) (posix_parts (im_path n))" for n
  proof -
    let ?j = "length (posix_parts (im_path m))"
    have path: "repository_path (im_path n)" using ignore_match_facts(5) [OF assms(1)] n by blast
    have m_parts: "take ?j (posix_parts (im_path n)) = posix_parts (im_path m)"
      using n by (auto simp: prefix_def)
    then have "matching_rule_ids (sn_policy s) (posix_text (take ?j (posix_parts (im_path n)))) \<noteq> []"
      using matched posix_text_parts [OF facts(5)] by simp
    moreover have "1 \<le> ?j" using posix_parts_Nil [OF facts(5)] facts(6) by (cases "posix_parts (im_path m)") auto
    ultimately have "\<not> ?j < length (posix_parts (im_path n))"
      using ignore_match_minimal [OF assms(1)] n by blast
    then have "im_path n = im_path m"
      using n m_parts posix_parts_inj [OF path facts(5)] by simp
    moreover have "distinct (map (portable_path_key \<circ> im_path) (ignore_matches_of (sn_records s)))"
      using snapshot_okD(7) [OF assms(1)] by (simp add: validate_topology_Inr)
    ultimately show ?thesis using distinct_map_D n assms(2) by fastforce
  qed
qed

theorem pruned_paths_are_leaves_witness:
  "snapshot_ok ex_inventory_digests ex_snapshot \<and> directory_at ex_records ''.'' \<and>
   im_rule_id ex_ignore = Min (set (matching_rule_ids (sn_policy ex_snapshot) ''out''))"
  using pruned_paths_are_leaves [OF ex_snapshot_ok, of ex_ignore] ex_snapshot_ok
  by (simp add: ex_snapshot_def ex_records_def ex_ignore_def posix_parent_def posix_parts_def)

end
