(* ===== verification/Inventory_Paging.thy ===== *)
theory Inventory_Paging
  imports Inventory_Topology
begin

text \<open>
  Pages of an inventory, \<^verbatim>\<open>src/ucf/inventory/models.py\<close>, their assembly, \<^verbatim>\<open>paging.py\<close>, and the client
  that collects them, \<^verbatim>\<open>client.py\<close>. The adapter process is the argument \<open>call\<close>: what it answers to
  the n-th request.
\<close>

section \<open>Cursors and pages\<close>

record cursor =
  cu_digest :: string
  cu_after_kind :: record_kind
  cu_after_id :: string

definition cursor_ok :: "cursor \<Rightarrow> bool" where
  "cursor_ok c \<longleftrightarrow> prefix (record_id_prefix (cu_after_kind c) @ ''.'') (cu_after_id c)"

definition cursor_option_ok :: "cursor option \<Rightarrow> bool" where
  "cursor_option_ok c \<longleftrightarrow> (case c of None \<Rightarrow> True | Some k \<Rightarrow> cursor_ok k)"

record page =
  pg_subject_uri :: string
  pg_source_revision :: string
  pg_snapshot_digest :: string
  pg_producer :: pyval
  pg_capability :: capability_selection
  pg_policy :: ignore_policy
  pg_coverage :: "coverage list"
  pg_request_cursor :: "cursor option"
  pg_records :: "inventory_record list"
  pg_next_cursor :: "cursor option"
  pg_complete :: bool

definition max_page_records :: int where
  "max_page_records = 256"

definition max_inventory_pages :: int where
  "max_inventory_pages = max_requests_per_session - 2"

definition validate_page :: "inventory_digests \<Rightarrow> page \<Rightarrow> (string, unit) res" where
  "validate_page D p =
     res_bind (validate_snapshot_header (pg_capability p) (pg_coverage p) None) (\<lambda>_.
     res_bind (res_all (validate_record_id D) (pg_records p)) (\<lambda>_.
     let keys = map record_key (pg_records p) in
     res_all id
       [require (distinct keys \<and> keys = sort keys) ''inventory page records must be unique and canonically sorted'',
        require (pg_complete p = (pg_next_cursor p = None)) ''inventory page completion does not match its cursor'',
        require (case pg_request_cursor p of None \<Rightarrow> True | Some c \<Rightarrow> cu_digest c = pg_snapshot_digest p)
          ''inventory page request cursor has a different snapshot'',
        require (case pg_request_cursor p of None \<Rightarrow> True
            | Some c \<Rightarrow> \<not> hd keys \<le> (kind_value (cu_after_kind c), cu_after_id c))
          ''inventory page does not advance beyond its request cursor'',
        require (case pg_next_cursor p of None \<Rightarrow> True
            | Some c \<Rightarrow> cu_digest c = pg_snapshot_digest p \<and>
                cu_after_kind c = record_kind_of (last (pg_records p)) \<and>
                cu_after_id c = record_id (last (pg_records p)))
          ''inventory page cursor does not identify its last record'']))"

text \<open>The model \<^verbatim>\<open>InventoryPage\<close>: its fields are valid, and so is the whole.\<close>

definition page_ok :: "inventory_digests \<Rightarrow> page \<Rightarrow> bool" where
  "page_ok D p \<longleftrightarrow> subject_uri_ok (pg_subject_uri p) \<and> policy_ok (pg_policy p) \<and>
     list_all record_fields_ok (pg_records p) \<and>
     list_all (\<lambda>c. co_status c \<in> {''complete'', ''partial''} \<and> 0 \<le> co_count c) (pg_coverage p) \<and>
     cursor_option_ok (pg_request_cursor p) \<and> cursor_option_ok (pg_next_cursor p) \<and>
     1 \<le> int (length (pg_records p)) \<and> int (length (pg_records p)) \<le> max_page_records \<and>
     validate_page D p = Inr ()"

section \<open>Assembly (paging.py)\<close>

text \<open>
  The constructor of the snapshot raises when its model does not accept it; the message of that
  error is not modelled.
\<close>

record page_header =
  ph_subject_uri :: string
  ph_source_revision :: string
  ph_snapshot_digest :: string
  ph_producer :: pyval
  ph_capability :: capability_selection
  ph_policy :: ignore_policy
  ph_coverage :: "coverage list"

definition header_of :: "page \<Rightarrow> page_header" where
  "header_of p =
     \<lparr>ph_subject_uri = pg_subject_uri p, ph_source_revision = pg_source_revision p,
      ph_snapshot_digest = pg_snapshot_digest p, ph_producer = pg_producer p, ph_capability = pg_capability p,
      ph_policy = pg_policy p, ph_coverage = pg_coverage p\<rparr>"

text \<open>The inner loop: the key of every record is beyond the previous one.\<close>

fun advance_keys :: "(string \<times> string) option \<Rightarrow> inventory_record list \<Rightarrow> (string, (string \<times> string) option) res" where
  "advance_keys previous [] = Inr previous"
| "advance_keys previous (r # rs) =
     (if (case previous of None \<Rightarrow> False | Some k \<Rightarrow> record_key r \<le> k)
      then Inl ''inventory pages overlap or are not globally ordered''
      else advance_keys (Some (record_key r)) rs)"

record assembly =
  as_expected_cursor :: "cursor option"
  as_terminal :: bool
  as_records :: "inventory_record list"
  as_previous_key :: "(string \<times> string) option"

fun assemble_loop :: "page_header \<Rightarrow> page list \<Rightarrow> assembly \<Rightarrow> (string, assembly) res" where
  "assemble_loop header [] a = Inr a"
| "assemble_loop header (p # ps) a =
     (if as_terminal a then Inl ''inventory page appears after terminal page''
      else if pg_request_cursor p \<noteq> as_expected_cursor a
      then Inl ''inventory page request cursor breaks the page chain''
      else if header_of p \<noteq> header then Inl ''inventory page headers do not match''
      else
        res_bind (advance_keys (as_previous_key a) (pg_records p)) (\<lambda>key.
        assemble_loop header ps
          \<lparr>as_expected_cursor = pg_next_cursor p, as_terminal = pg_complete p,
           as_records = as_records a @ pg_records p, as_previous_key = key\<rparr>))"

definition snapshot_of :: "page_header \<Rightarrow> inventory_record list \<Rightarrow> inventory_snapshot" where
  "snapshot_of h rs =
     \<lparr>sn_subject_uri = ph_subject_uri h, sn_source_revision = ph_source_revision h, sn_producer = ph_producer h,
      sn_capability = ph_capability h, sn_policy = ph_policy h, sn_coverage = ph_coverage h, sn_records = rs\<rparr>"

definition assemble_inventory_pages :: "inventory_digests \<Rightarrow> page list \<Rightarrow> int \<Rightarrow> (string, inventory_snapshot) res" where
  "assemble_inventory_pages D pages record_limit =
     (if \<not> (1 \<le> record_limit \<and> record_limit \<le> max_page_records)
      then Inl ''inventory request record limit is invalid''
      else if pages = [] then Inl ''inventory page sequence must not be empty''
      else if int (length pages) > max_inventory_pages
      then Inl ''inventory page sequence exceeds the page limit''
      else if int (sum_list (map (\<lambda>p. length (pg_records p)) pages)) > max_inventory_records
      then Inl ''inventory page sequence exceeds the record limit''
      else if list_ex (\<lambda>p. int (length (pg_records p)) > record_limit) pages
      then Inl ''inventory page exceeds its request record limit''
      else
        (let first = header_of (hd pages) in
         res_bind (assemble_loop first pages
           \<lparr>as_expected_cursor = None, as_terminal = False, as_records = [], as_previous_key = None\<rparr>) (\<lambda>a.
         if \<not> as_terminal a \<or> as_expected_cursor a \<noteq> None
         then Inl ''inventory page sequence is incomplete''
         else
           (let snapshot = snapshot_of first (as_records a) in
            if \<not> snapshot_ok D snapshot then Inl ''InventorySnapshot is not valid''
            else if dg_snapshot D snapshot \<noteq> ph_snapshot_digest first
            then Inl ''assembled inventory snapshot digest does not match its pages''
            else Inr snapshot))))"

section \<open>Collection (client.py)\<close>

record inventory_request =
  ir_subject_uri :: string
  ir_root_path :: string
  ir_fact_kinds :: "fact_kind list"
  ir_policy :: ignore_policy
  ir_record_limit :: int
  ir_cursor :: "cursor option"

definition inventory_request_ok :: "inventory_request \<Rightarrow> bool" where
  "inventory_request_ok rq \<longleftrightarrow> subject_uri_ok (ir_subject_uri rq) \<and> repository_path (ir_root_path rq) \<and>
     ir_fact_kinds rq = all_fact_kinds \<and> policy_ok (ir_policy rq) \<and>
     1 \<le> ir_record_limit rq \<and> ir_record_limit rq \<le> max_page_records \<and>
     cursor_option_ok (ir_cursor rq)"

text \<open>
  What comes of one call: the call raises, its payload cannot be decoded, or it decodes to the
  fields of a page, which the model then accepts or not.
\<close>

datatype 'e page_answer = CallRaises 'e | Undecodable | Decoded page

datatype 'e collect_error =
  ValueError string | AdapterProtocolError error_category protocol_code string | CallError 'e

definition invalid_adapter_output :: "'e collect_error" where
  "invalid_adapter_output =
     AdapterProtocolError ProcessFailure InvalidAdapterOutput ''adapter returned an invalid inventory page''"

definition decode_adapter_page :: "inventory_digests \<Rightarrow> 'e page_answer \<Rightarrow> ('e collect_error, page) res" where
  "decode_adapter_page D answer =
     (case answer of
        CallRaises e \<Rightarrow> Inl (CallError e)
      | Undecodable \<Rightarrow> Inl invalid_adapter_output
      | Decoded p \<Rightarrow> if page_ok D p then Inr p else Inl invalid_adapter_output)"

definition records_in :: "page list \<Rightarrow> int" where
  "records_in pages = int (sum_list (map (\<lambda>p. length (pg_records p)) pages))"

function collect_pages ::
  "inventory_digests \<Rightarrow> (nat \<Rightarrow> inventory_request \<Rightarrow> 'e page_answer) \<Rightarrow> inventory_request \<Rightarrow>
     page list \<Rightarrow> cursor option \<Rightarrow> ('e collect_error, page list) res" where
  "collect_pages D call request pages cursor =
     (case decode_adapter_page D (call (length pages) (request\<lparr>ir_cursor := cursor\<rparr>)) of
        Inl e \<Rightarrow> Inl e
      | Inr p \<Rightarrow>
          if pg_request_cursor p \<noteq> cursor then Inl invalid_adapter_output
          else if int (length (pg_records p)) > ir_record_limit request then Inl invalid_adapter_output
          else if int (length (pages @ [p])) > max_inventory_pages \<or> records_in (pages @ [p]) > max_inventory_records
          then Inl invalid_adapter_output
          else if pg_complete p then Inr (pages @ [p])
          else if int (length (pages @ [p])) = max_inventory_pages then Inl invalid_adapter_output
          else collect_pages D call request (pages @ [p]) (pg_next_cursor p))"
  by pat_completeness auto
termination
  by (relation "measure (\<lambda>(_, _, _, pages, _). nat (max_inventory_pages - int (length pages)))")
    (auto simp: max_inventory_pages_def max_requests_per_session_def)

declare collect_pages.simps [simp del]

definition collect_inventory_from_process ::
  "inventory_digests \<Rightarrow> bool \<Rightarrow> (nat \<Rightarrow> inventory_request \<Rightarrow> 'e page_answer) \<Rightarrow> inventory_request \<Rightarrow>
     ('e collect_error, inventory_snapshot) res" where
  "collect_inventory_from_process D ready call request =
     (if \<not> ready then Inl (ValueError ''adapter must be initialized before inventory'')
      else if ir_cursor request \<noteq> None
      then Inl (ValueError ''inventory collection must start without a cursor'')
      else
        res_bind (collect_pages D call request [] None) (\<lambda>pages.
        case assemble_inventory_pages D pages (ir_record_limit request) of
          Inl _ \<Rightarrow> Inl invalid_adapter_output
        | Inr s \<Rightarrow> Inr s))"

section \<open>The pages of a snapshot\<close>

text \<open>How a snapshot is cut into pages, given the chunks of its records.\<close>

definition cursor_after :: "page_header \<Rightarrow> inventory_record list \<Rightarrow> cursor" where
  "cursor_after h rs =
     \<lparr>cu_digest = ph_snapshot_digest h, cu_after_kind = record_kind_of (last rs), cu_after_id = record_id (last rs)\<rparr>"

definition page_with :: "page_header \<Rightarrow> cursor option \<Rightarrow> inventory_record list \<Rightarrow> cursor option \<Rightarrow> page" where
  "page_with h request_cursor rs next_cursor =
     \<lparr>pg_subject_uri = ph_subject_uri h, pg_source_revision = ph_source_revision h,
      pg_snapshot_digest = ph_snapshot_digest h, pg_producer = ph_producer h, pg_capability = ph_capability h,
      pg_policy = ph_policy h, pg_coverage = ph_coverage h, pg_request_cursor = request_cursor, pg_records = rs,
      pg_next_cursor = next_cursor, pg_complete = (next_cursor = None)\<rparr>"

fun pages_from :: "page_header \<Rightarrow> cursor option \<Rightarrow> inventory_record list list \<Rightarrow> page list" where
  "pages_from h c [] = []"
| "pages_from h c (rs # rss) =
     (let following = (if rss = [] then None else Some (cursor_after h rs))
      in page_with h c rs following # pages_from h following rss)"

definition snapshot_header :: "inventory_digests \<Rightarrow> inventory_snapshot \<Rightarrow> page_header" where
  "snapshot_header D s =
     \<lparr>ph_subject_uri = sn_subject_uri s, ph_source_revision = sn_source_revision s,
      ph_snapshot_digest = dg_snapshot D s, ph_producer = sn_producer s, ph_capability = sn_capability s,
      ph_policy = sn_policy s, ph_coverage = sn_coverage s\<rparr>"

definition pages_of :: "inventory_digests \<Rightarrow> inventory_snapshot \<Rightarrow> inventory_record list list \<Rightarrow> page list" where
  "pages_of D s chunks = pages_from (snapshot_header D s) None chunks"

definition chunks_of :: "int \<Rightarrow> inventory_snapshot \<Rightarrow> inventory_record list list \<Rightarrow> bool" where
  "chunks_of limit s chunks \<longleftrightarrow>
     concat chunks = sn_records s \<and> (\<forall>rs \<in> set chunks. rs \<noteq> [] \<and> int (length rs) \<le> limit)"

lemma page_with_simps [simp]:
  "pg_request_cursor (page_with h c rs n) = c" "pg_records (page_with h c rs n) = rs"
  "pg_next_cursor (page_with h c rs n) = n" "pg_complete (page_with h c rs n) \<longleftrightarrow> n = None"
  "header_of (page_with h c rs n) = h"
  by (simp_all add: page_with_def header_of_def)

lemma header_of_pages: "p \<in> set (pages_from h c rss) \<Longrightarrow> header_of p = h"
  by (induction h c rss rule: pages_from.induct) (auto simp: Let_def)

lemma records_of_pages [simp]: "map pg_records (pages_from h c rss) = rss"
  by (induction h c rss rule: pages_from.induct) (auto simp: Let_def)

lemma length_pages_from [simp]: "length (pages_from h c rss) = length rss"
  by (metis length_map records_of_pages)

lemma pages_from_Nil [simp]: "pages_from h c rss = [] \<longleftrightarrow> rss = []"
  by (cases rss) (simp_all add: Let_def)

lemma page_eq:
  "p = page_with (header_of p) (pg_request_cursor p) (pg_records p) (pg_next_cursor p) \<longleftrightarrow>
     (pg_complete p \<longleftrightarrow> pg_next_cursor p = None)"
  by (cases p) (auto simp: page_with_def header_of_def)

text \<open>A valid page is determined by its header, its cursor, its records and whether it is the last.\<close>

lemma page_ok_shape:
  assumes "page_ok D p"
  shows "pg_records p \<noteq> []" "int (length (pg_records p)) \<le> max_page_records"
    and "p = page_with (header_of p) (pg_request_cursor p) (pg_records p)
      (if pg_complete p then None else Some (cursor_after (header_of p) (pg_records p)))"
proof -
  have v: "validate_page D p = Inr ()" and "1 \<le> int (length (pg_records p))"
    and "int (length (pg_records p)) \<le> max_page_records"
    using assms by (auto simp: page_ok_def)
  then show "pg_records p \<noteq> []" "int (length (pg_records p)) \<le> max_page_records" by auto
  have complete: "pg_complete p \<longleftrightarrow> pg_next_cursor p = None"
    using v by (auto simp: validate_page_def res_bind_Inr Let_def)
  have "c = cursor_after (header_of p) (pg_records p)" if "pg_next_cursor p = Some c" for c
    using v that by (cases c) (auto simp: validate_page_def res_bind_Inr Let_def cursor_after_def header_of_def)
  then have "pg_next_cursor p = (if pg_complete p then None else Some (cursor_after (header_of p) (pg_records p)))"
    using complete by auto
  with complete page_eq [of p] show "p = page_with (header_of p) (pg_request_cursor p) (pg_records p)
      (if pg_complete p then None else Some (cursor_after (header_of p) (pg_records p)))" by metis
qed

section \<open>The loop of the assembly\<close>

definition last_key :: "inventory_record list \<Rightarrow> (string \<times> string) option" where
  "last_key rs = (if rs = [] then None else Some (record_key (last rs)))"

definition ascending :: "inventory_record list \<Rightarrow> bool" where
  "ascending rs \<longleftrightarrow> sorted_wrt (<) (map record_key rs)"

lemma ascending_Nil [simp]: "ascending []"
  by (simp add: ascending_def)

lemma ascending_append:
  "ascending (rs @ qs) \<longleftrightarrow> ascending rs \<and> ascending qs \<and> (\<forall>r \<in> set rs. \<forall>q \<in> set qs. record_key r < record_key q)"
  by (auto simp: ascending_def sorted_wrt_append)

lemma ascending_Cons [simp]:
  "ascending (r # rs) \<longleftrightarrow> (\<forall>q \<in> set rs. record_key r < record_key q) \<and> ascending rs"
  by (simp add: ascending_def)

lemma ascending_snoc:
  assumes "ascending rs"
  shows "ascending (rs @ [r]) \<longleftrightarrow> (case last_key rs of None \<Rightarrow> True | Some k \<Rightarrow> k < record_key r)"
proof (cases rs rule: rev_cases)
  case Nil
  then show ?thesis by (simp add: ascending_def last_key_def)
next
  case (snoc qs q)
  then have "record_key p < record_key q" if "p \<in> set qs" for p
    using assms that by (auto simp: ascending_append)
  then show ?thesis
    using assms snoc by (auto simp: ascending_append last_key_def intro: less_trans)
qed

lemma last_key_snoc [simp]: "last_key (rs @ [r]) = Some (record_key r)"
  by (simp add: last_key_def)

lemma advance_keys_Inr:
  "ascending acc \<Longrightarrow> advance_keys (last_key acc) rs = Inr k \<longleftrightarrow> ascending (acc @ rs) \<and> k = last_key (acc @ rs)"
proof (induction rs arbitrary: acc)
  case Nil
  then show ?case by auto
next
  case (Cons r rs)
  show ?case
  proof (cases "ascending (acc @ [r])")
    case True
    then have "\<not> (case last_key acc of None \<Rightarrow> False | Some k \<Rightarrow> record_key r \<le> k)"
      using ascending_snoc [OF Cons.prems, of r] by (auto split: option.splits)
    then show ?thesis using Cons.IH [OF True] by simp
  next
    case False
    then have "case last_key acc of None \<Rightarrow> False | Some k \<Rightarrow> record_key r \<le> k"
      using ascending_snoc [OF Cons.prems, of r] by (auto split: option.splits)
    moreover have "\<not> ascending (acc @ r # rs)"
      using False ascending_append [of "acc @ [r]" rs] by simp
    ultimately show ?thesis by simp
  qed
qed

definition collected :: "cursor option \<Rightarrow> inventory_record list \<Rightarrow> assembly" where
  "collected c acc = \<lparr>as_expected_cursor = c, as_terminal = False, as_records = acc, as_previous_key = last_key acc\<rparr>"

definition ends_with :: "(string, assembly) res \<Rightarrow> inventory_record list \<Rightarrow> bool" where
  "ends_with r rs \<longleftrightarrow> (\<exists>a. r = Inr a \<and> as_terminal a \<and> as_expected_cursor a = None \<and> as_records a = rs)"

lemma assemble_loop_exact:
  assumes "\<forall>p \<in> set ps. page_ok D p" and "ascending acc"
  shows "ends_with (assemble_loop h ps (collected c acc)) rs \<longleftrightarrow>
    ps \<noteq> [] \<and> rs = acc @ concat (map pg_records ps) \<and> ascending rs \<and> ps = pages_from h c (map pg_records ps)"
  using assms
proof (induction ps arbitrary: c acc)
  case Nil
  show ?case by (simp add: ends_with_def collected_def)
next
  case (Cons p ps)
  note shape = page_ok_shape [of D p]
  have ok: "page_ok D p" and oks: "\<forall>p \<in> set ps. page_ok D p" using Cons.prems by auto
  let ?acc = "acc @ pg_records p"
  show ?case
  proof (cases "pg_request_cursor p = c \<and> header_of p = h \<and> ascending ?acc")
    case False
    then have "\<not> ends_with (assemble_loop h (p # ps) (collected c acc)) rs"
      using advance_keys_Inr [OF Cons.prems(2), of "pg_records p"]
      by (auto simp: ends_with_def collected_def res_bind_Inr)
    moreover have "\<not> (ascending (acc @ concat (map pg_records (p # ps))) \<and>
        p # ps = pages_from h c (map pg_records (p # ps)))"
      using False ascending_append [of ?acc "concat (map pg_records ps)"]
        header_of_pages [of p h c "map pg_records (p # ps)"]
      by (auto simp: Let_def) (metis page_with_simps(1,5))+
    ultimately show ?thesis by blast
  next
    case True
    then have key: "advance_keys (last_key acc) (pg_records p) = Inr (last_key ?acc)"
      using advance_keys_Inr [OF Cons.prems(2)] by simp
    show ?thesis
    proof (cases "pg_complete p")
      case complete: True
      then have p: "p = page_with h c (pg_records p) None" using shape(3) [OF ok] True by simp
      then have none: "pg_next_cursor p = None" by (metis page_with_simps(3))
      then have other: "p \<noteq> page_with h' c' rs' (Some x)" for h' c' rs' x by auto
      show ?thesis
        using True key complete p none other
        by (cases ps) (auto simp: ends_with_def collected_def Let_def)
    next
      case more: False
      then have p: "p = page_with h c (pg_records p) (Some (cursor_after h (pg_records p)))"
        using shape(3) [OF ok] True by simp
      then have next_cursor: "pg_next_cursor p = Some (cursor_after h (pg_records p))" by (metis page_with_simps(3))
      then have other: "p \<noteq> page_with h' c' rs' None" for h' c' rs' by auto
      have "assemble_loop h (p # ps) (collected c acc) =
          assemble_loop h ps (collected (Some (cursor_after h (pg_records p))) ?acc)"
        using True key more next_cursor by (simp add: collected_def)
      then show ?thesis
        using Cons.IH [OF oks, of ?acc "Some (cursor_after h (pg_records p))"] True p more other
        by (auto simp: Let_def)
    qed
  qed
qed

section \<open>The assembly gives back exactly the snapshots that were cut into pages\<close>

lemma snapshot_ok_ascending:
  assumes "snapshot_ok D s"
  shows "ascending (sn_records s)" "sn_records s \<noteq> []" "int (length (sn_records s)) \<le> max_inventory_records"
proof -
  have "distinct (map record_key (sn_records s))"
    using snapshot_okD(3) [OF assms] by (auto simp: distinct_map record_key_def inj_on_def)
  then show "ascending (sn_records s)"
    using snapshot_okD(4) [OF assms] by (simp add: ascending_def strict_sorted_iff)
  have "directory_at (sn_records s) ''.''"
    using snapshot_okD(7,8) [OF assms] by (simp add: validate_topology_Inr)
  then show "sn_records s \<noteq> []" by (auto simp: directory_at_def)
  show "int (length (sn_records s)) \<le> max_inventory_records" using assms by (simp add: snapshot_ok_def)
qed

lemma snapshot_of_header [simp]: "snapshot_of (snapshot_header D s) (sn_records s) = s"
  by (simp add: snapshot_of_def snapshot_header_def)

lemma header_of_snapshot: "dg_snapshot D (snapshot_of h rs) = ph_snapshot_digest h \<Longrightarrow> snapshot_header D (snapshot_of h rs) = h"
  by (simp add: snapshot_of_def snapshot_header_def)

lemma length_chunks: "\<forall>rs \<in> set rss. rs \<noteq> [] \<Longrightarrow> length rss \<le> length (concat rss)"
proof (induction rss)
  case (Cons rs rss)
  then show ?case by (cases rs) auto
qed simp

lemma length_pages_records: "sum_list (map (\<lambda>p. length (pg_records p)) ps) = length (concat (map pg_records ps))"
  by (simp add: length_concat comp_def)

lemma assemble_Inr:
  "assemble_inventory_pages D pages limit = Inr s \<longleftrightarrow>
     1 \<le> limit \<and> limit \<le> max_page_records \<and> pages \<noteq> [] \<and> int (length pages) \<le> max_inventory_pages \<and>
     records_in pages \<le> max_inventory_records \<and> (\<forall>p \<in> set pages. int (length (pg_records p)) \<le> limit) \<and>
     (\<exists>rs. ends_with (assemble_loop (header_of (hd pages)) pages (collected None [])) rs \<and>
        s = snapshot_of (header_of (hd pages)) rs \<and> snapshot_ok D s \<and>
        dg_snapshot D s = ph_snapshot_digest (header_of (hd pages)))"
  unfolding assemble_inventory_pages_def ends_with_def collected_def records_in_def Let_def last_key_def
  by (auto simp: res_bind_Inr list_ex_iff not_le not_less)

lemma assemble_exact:
  assumes pages: "\<forall>p \<in> set pages. page_ok D p"
  shows "assemble_inventory_pages D pages limit = Inr s \<longleftrightarrow>
    1 \<le> limit \<and> limit \<le> max_page_records \<and> snapshot_ok D s \<and>
    (\<exists>chunks. chunks_of limit s chunks \<and> pages = pages_of D s chunks)" (is "_ \<longleftrightarrow> ?right")
proof
  assume a: "assemble_inventory_pages D pages limit = Inr s"
  define h where "h = header_of (hd pages)"
  obtain rs where loop: "ends_with (assemble_loop h pages (collected None [])) rs" and s: "s = snapshot_of h rs"
    and ok: "snapshot_ok D s" and dg: "dg_snapshot D s = ph_snapshot_digest h"
    and limits: "1 \<le> limit" "limit \<le> max_page_records" "\<forall>p \<in> set pages. int (length (pg_records p)) \<le> limit"
    using a unfolding assemble_Inr h_def by blast
  have exact: "rs = concat (map pg_records pages)" "pages = pages_from h None (map pg_records pages)"
    using loop assemble_loop_exact [OF pages, of "[]" h None rs] by simp_all
  have "chunks_of limit s (map pg_records pages)"
    using exact(1) s limits(3) page_ok_shape(1) pages by (auto simp: chunks_of_def snapshot_of_def)
  moreover have "pages = pages_of D s (map pg_records pages)"
    using exact(2) header_of_snapshot dg unfolding s pages_of_def by metis
  ultimately show ?right using ok limits by blast
next
  assume ?right
  then obtain chunks where limits: "1 \<le> limit" "limit \<le> max_page_records" and ok: "snapshot_ok D s"
    and chunks: "chunks_of limit s chunks" and p: "pages = pages_of D s chunks" by blast
  let ?h = "snapshot_header D s"
  have records: "map pg_records pages = chunks" and nonempty: "pages \<noteq> []"
    using p chunks snapshot_ok_ascending(2) [OF ok] by (auto simp: pages_of_def chunks_of_def)
  then have h: "header_of (hd pages) = ?h"
    using header_of_pages p by (metis hd_in_set pages_of_def)
  have len: "int (length chunks) \<le> max_inventory_records" "records_in pages \<le> max_inventory_records"
    using snapshot_ok_ascending(3) [OF ok] length_chunks [of chunks] chunks records
    by (auto simp: chunks_of_def records_in_def length_pages_records)
  have "ends_with (assemble_loop ?h pages (collected None [])) (sn_records s)"
    using assemble_loop_exact [OF pages, of "[]" ?h None "sn_records s"] chunks records nonempty p
      snapshot_ok_ascending(1) [OF ok] by (simp add: chunks_of_def pages_of_def)
  moreover have "int (length (pg_records p)) \<le> limit" if "p \<in> set pages" for p
    using chunks records that by (metis chunks_of_def image_eqI list.set_map)
  moreover have "int (length pages) \<le> max_inventory_pages"
    using len(1) records by (auto simp: max_inventory_records_def max_inventory_pages_def max_requests_per_session_def)
  ultimately show "assemble_inventory_pages D pages limit = Inr s"
    unfolding assemble_Inr h using limits nonempty len(2) ok
    by (auto simp: snapshot_header_def snapshot_of_def intro!: exI [of _ "sn_records s"])
qed

section \<open>The pages of a valid snapshot are valid\<close>

lemma record_key_cursor: "(kind_value (cu_after_kind (cursor_after h rs)), cu_after_id (cursor_after h rs)) = record_key (last rs)"
  by (simp add: cursor_after_def record_key_def)

lemma record_id_prefixed:
  "validate_record_id D r = Inr () \<Longrightarrow> prefix (record_id_prefix (record_kind_of r) @ ''.'') (record_id r)"
  by (simp add: validate_record_id_def derive_inventory_record_id_def)

definition page_fields_ok :: "inventory_digests \<Rightarrow> page_header \<Rightarrow> bool" where
  "page_fields_ok D h \<longleftrightarrow> subject_uri_ok (ph_subject_uri h) \<and> policy_ok (ph_policy h) \<and>
     list_all (\<lambda>c. co_status c \<in> {''complete'', ''partial''} \<and> 0 \<le> co_count c) (ph_coverage h) \<and>
     validate_snapshot_header (ph_capability h) (ph_coverage h) None = Inr ()"

lemma header_without_records:
  "validate_snapshot_header c cov (Some rs) = Inr () \<Longrightarrow> validate_snapshot_header c cov None = Inr ()"
  by (simp add: validate_snapshot_header_def)

lemma snapshot_page_fields: "snapshot_ok D s \<Longrightarrow> page_fields_ok D (snapshot_header D s)"
  by (auto simp: snapshot_ok_def page_fields_ok_def snapshot_header_def validate_snapshot_def res_bind_Inr
      intro: header_without_records)

text \<open>A request cursor the page goes beyond: none, or the one after some earlier chunk.\<close>

definition follows :: "page_header \<Rightarrow> cursor option \<Rightarrow> inventory_record list \<Rightarrow> bool" where
  "follows h c rs \<longleftrightarrow> (\<forall>k. c = Some k \<longrightarrow> cursor_ok k \<and> cu_digest k = ph_snapshot_digest h \<and>
     (\<forall>r \<in> set rs. (kind_value (cu_after_kind k), cu_after_id k) < record_key r))"

lemma page_with_ok:
  assumes fields: "page_fields_ok D h" and follows: "follows h c rs" and rs: "ascending rs" "rs \<noteq> []"
    "int (length rs) \<le> max_page_records" "\<forall>r \<in> set rs. record_fields_ok r \<and> validate_record_id D r = Inr ()"
    and following: "n = None \<or> n = Some (cursor_after h rs)"
  shows "page_ok D (page_with h c rs n)"
proof -
  have keys: "distinct (map record_key rs)" "map record_key rs = sort (map record_key rs)"
    using rs(1) by (simp_all add: ascending_def strict_sorted_iff sorted_sort_id)
  have first: "hd (map record_key rs) = record_key (hd rs)" "hd rs \<in> set rs" using rs(2) by (simp_all add: hd_map)
  have "prefix (record_id_prefix (record_kind_of (last rs)) @ ''.'') (record_id (last rs))"
    using rs(2,4) record_id_prefixed by (metis last_in_set)
  then have cursors: "cursor_option_ok n"
    using following by (auto simp: cursor_option_ok_def cursor_ok_def cursor_after_def)
  have "cursor_option_ok c" using follows by (cases c) (auto simp: cursor_option_ok_def follows_def)
  moreover have "validate_page D (page_with h c rs n) = Inr ()"
    using fields follows following keys rs(4) first
    by (auto simp: validate_page_def page_with_def page_fields_ok_def res_bind_Inr Let_def follows_def
        cursor_after_def not_le simp flip: keys(2) split: option.splits)
  ultimately show ?thesis
    using fields rs cursors
    by (cases rs) (auto simp: page_ok_def page_with_def page_fields_ok_def list_all_iff)
qed

lemma pages_from_ok:
  assumes "page_fields_ok D h" and "ascending (concat rss)" and "follows h c (concat rss)"
    and "\<forall>rs \<in> set rss. rs \<noteq> [] \<and> int (length rs) \<le> max_page_records"
    and "\<forall>r \<in> set (concat rss). record_fields_ok r \<and> validate_record_id D r = Inr ()"
  shows "\<forall>p \<in> set (pages_from h c rss). page_ok D p"
  using assms(2-)
proof (induction rss arbitrary: c)
  case Nil
  then show ?case by simp
next
  case (Cons rs rss)
  let ?n = "if rss = [] then None else Some (cursor_after h rs)"
  have rs: "rs \<noteq> []" "last rs \<in> set rs" "ascending rs" "ascending (concat rss)"
    using Cons.prems by (auto simp: ascending_append)
  have "validate_record_id D (last rs) = Inr ()" using Cons.prems(4) rs(2) by auto
  then have "cursor_ok (cursor_after h rs)"
    using record_id_prefixed by (auto simp: cursor_ok_def cursor_after_def)
  then have "follows h (Some (cursor_after h rs)) (concat rss)"
    using Cons.prems(1) rs(2) unfolding follows_def record_key_cursor
    by (auto simp: ascending_append record_key_cursor cursor_after_def [of h rs, THEN arg_cong, of cu_digest])
  moreover have "follows h None (concat rss)" by (simp add: follows_def)
  ultimately have "\<forall>p \<in> set (pages_from h ?n rss). page_ok D p"
    using Cons.IH [OF rs(4)] Cons.prems(3,4) by simp
  moreover have "page_ok D (page_with h c rs ?n)"
    using Cons.prems rs by (intro page_with_ok [OF assms(1)]) (auto simp: follows_def)
  ultimately show ?case by (simp add: Let_def)
qed

lemma pages_of_ok:
  assumes "snapshot_ok D s" and "chunks_of limit s chunks" and "limit \<le> max_page_records"
  shows "\<forall>p \<in> set (pages_of D s chunks). page_ok D p"
  unfolding pages_of_def
proof (rule pages_from_ok)
  show "page_fields_ok D (snapshot_header D s)" by (rule snapshot_page_fields [OF assms(1)])
  show "ascending (concat chunks)" using assms(2) snapshot_ok_ascending(1) [OF assms(1)] by (simp add: chunks_of_def)
  show "follows (snapshot_header D s) None (concat chunks)" by (simp add: follows_def)
  show "\<forall>rs \<in> set chunks. rs \<noteq> [] \<and> int (length rs) \<le> max_page_records"
    using assms(2,3) by (fastforce simp: chunks_of_def)
  show "\<forall>r \<in> set (concat chunks). record_fields_ok r \<and> validate_record_id D r = Inr ()"
    using assms(2) snapshot_okD(2,5) [OF assms(1)] by (simp add: chunks_of_def record_ok_def)
qed

section \<open>The collection loop\<close>

text \<open>The adapter answers the requests the client makes with these pages, up to the last one.\<close>

fun answers ::
  "inventory_digests \<Rightarrow> (nat \<Rightarrow> inventory_request \<Rightarrow> 'e page_answer) \<Rightarrow> inventory_request \<Rightarrow>
     nat \<Rightarrow> cursor option \<Rightarrow> page list \<Rightarrow> bool" where
  "answers D call rq n c [] \<longleftrightarrow> False"
| "answers D call rq n c (p # ps) \<longleftrightarrow>
     call n (rq\<lparr>ir_cursor := c\<rparr>) = Decoded p \<and> page_ok D p \<and> pg_request_cursor p = c \<and>
     int (length (pg_records p)) \<le> ir_record_limit rq \<and>
     (if pg_complete p then ps = [] else answers D call rq (Suc n) (pg_next_cursor p) ps)"

lemma replace_error_Inr: "(case r of Inl _ \<Rightarrow> Inl e | Inr s' \<Rightarrow> Inr s') = Inr s \<longleftrightarrow> r = Inr s"
  by (cases r) auto

lemma decode_Inr: "decode_adapter_page D a = Inr p \<longleftrightarrow> a = Decoded p \<and> page_ok D p"
  by (auto simp: decode_adapter_page_def split: page_answer.splits)

lemma records_in_append [simp]: "records_in (ps @ qs) = records_in ps + records_in qs"
  by (simp add: records_in_def)

lemma records_in_nonneg [simp]: "0 \<le> records_in ps"
  by (simp add: records_in_def)

lemma collect_pages_sound:
  "collect_pages D call rq pages c = Inr ps \<Longrightarrow>
     \<exists>later. ps = pages @ later \<and> answers D call rq (length pages) c later"
proof (induction D call rq pages c arbitrary: ps rule: collect_pages.induct)
  case (1 D call rq pages c)
  obtain p where p: "decode_adapter_page D (call (length pages) (rq\<lparr>ir_cursor := c\<rparr>)) = Inr p"
    using "1.prems" by (subst (asm) collect_pages.simps) (auto split: sum.splits)
  have req: "pg_request_cursor p = c" "int (length (pg_records p)) \<le> ir_record_limit rq"
    and limits: "\<not> (int (length (pages @ [p])) > max_inventory_pages \<or> records_in (pages @ [p]) > max_inventory_records)"
    using "1.prems" p by (subst (asm) collect_pages.simps; force split: if_splits)+
  show ?case
  proof (cases "pg_complete p")
    case True
    then have "ps = pages @ [p]"
      using "1.prems" p by (subst (asm) collect_pages.simps) (auto split: if_splits)
    then show ?thesis using True p req by (intro exI [of _ "[p]"]) (simp add: decode_Inr)
  next
    case False
    then have next_page: "int (length (pages @ [p])) \<noteq> max_inventory_pages"
      "collect_pages D call rq (pages @ [p]) (pg_next_cursor p) = Inr ps"
      using "1.prems" p by (subst (asm) collect_pages.simps; force split: if_splits)+
    obtain later where "ps = (pages @ [p]) @ later" "answers D call rq (length (pages @ [p])) (pg_next_cursor p) later"
      using "1.IH" [OF p _ _ limits False next_page(1) next_page(2)] req by auto
    then show ?thesis using False p req by (intro exI [of _ "p # later"]) (simp add: decode_Inr)
  qed
qed

lemma collect_pages_complete:
  "answers D call rq (length pages) c later \<Longrightarrow> int (length (pages @ later)) \<le> max_inventory_pages \<Longrightarrow>
     records_in (pages @ later) \<le> max_inventory_records \<Longrightarrow> collect_pages D call rq pages c = Inr (pages @ later)"
proof (induction later arbitrary: pages c)
  case (Cons p ps)
  have rest: "collect_pages D call rq (pages @ [p]) (pg_next_cursor p) = Inr ((pages @ [p]) @ ps)"
    if "\<not> pg_complete p"
    using Cons.IH [of "pages @ [p]" "pg_next_cursor p"] Cons.prems that by simp
  have "records_in [p] \<le> records_in (p # ps)" by (simp add: records_in_def)
  then have limits: "records_in (pages @ [p]) \<le> max_inventory_records" "int (length (pages @ [p])) \<le> max_inventory_pages"
    using Cons.prems(2,3) by (simp_all only: records_in_append) simp_all
  have "int (length (pages @ [p])) \<noteq> max_inventory_pages" if "\<not> pg_complete p"
    using Cons.prems(1,2) that by (cases ps) auto
  then show ?case
    using Cons.prems(1) limits rest
    by (subst collect_pages.simps) (auto simp: decode_Inr decode_adapter_page_def split: if_splits)
qed simp

lemma answers_page_ok: "answers D call rq n c ps \<Longrightarrow> p \<in> set ps \<Longrightarrow> page_ok D p"
  by (induction ps arbitrary: n c) (auto split: if_splits)

lemma answers_calls:
  "answers D call rq n c ps \<Longrightarrow> i < length ps \<Longrightarrow>
     call (n + i) (rq\<lparr>ir_cursor := pg_request_cursor (ps ! i)\<rparr>) = Decoded (ps ! i)"
proof (induction ps arbitrary: n c i)
  case (Cons p ps)
  then show ?case
  proof (cases i)
    case (Suc j)
    with Cons.prems have "answers D call rq (Suc n) (pg_next_cursor p) ps" "j < length ps"
      by (auto split: if_splits)
    from Cons.IH [OF this] show ?thesis by (simp add: Suc)
  qed auto
qed simp

lemma answers_pages_from:
  assumes "rss \<noteq> []" "\<forall>p \<in> set (pages_from h c rss). page_ok D p"
    and "\<forall>rs \<in> set rss. int (length rs) \<le> ir_record_limit rq"
    and "\<forall>i < length rss. call (n + i) (rq\<lparr>ir_cursor := pg_request_cursor (pages_from h c rss ! i)\<rparr>) =
      Decoded (pages_from h c rss ! i)"
  shows "answers D call rq n c (pages_from h c rss)"
  using assms
proof (induction rss arbitrary: n c)
  case (Cons rs rss)
  let ?n = "if rss = [] then None else Some (cursor_after h rs)"
  have tail: "answers D call rq (Suc n) ?n (pages_from h ?n rss)" if "rss \<noteq> []"
  proof (rule Cons.IH [OF that])
    show "\<forall>i < length rss. call (Suc n + i) (rq\<lparr>ir_cursor := pg_request_cursor (pages_from h ?n rss ! i)\<rparr>) =
        Decoded (pages_from h ?n rss ! i)"
    proof (intro allI impI)
      fix i assume "i < length rss"
      then show "call (Suc n + i) (rq\<lparr>ir_cursor := pg_request_cursor (pages_from h ?n rss ! i)\<rparr>) =
          Decoded (pages_from h ?n rss ! i)"
        using Cons.prems(4) [rule_format, of "Suc i"] by (simp add: Let_def)
    qed
  qed (use Cons.prems in \<open>auto simp: Let_def\<close>)
  have "call n (rq\<lparr>ir_cursor := c\<rparr>) = Decoded (page_with h c rs ?n)"
    using Cons.prems(4) [rule_format, of 0] by (simp add: Let_def)
  then show ?case using Cons.prems(2,3) tail by (cases "rss = []") (simp_all add: Let_def)
qed simp

section \<open>Properties\<close>

definition ex_chunks :: "inventory_record list list" where
  "ex_chunks = [take 3 ex_records, drop 3 ex_records]"

lemma ex_chunks_of: "chunks_of 4 ex_snapshot ex_chunks"
  by (simp add: chunks_of_def ex_chunks_def ex_snapshot_def ex_records_def)

lemma ex_pages_ok: "\<forall>p \<in> set (pages_of ex_inventory_digests ex_snapshot ex_chunks). page_ok ex_inventory_digests p"
  by (rule pages_of_ok [OF ex_snapshot_ok ex_chunks_of]) (simp add: max_page_records_def)

text \<open>
  C11: Pages are assembled to a snapshot exactly when the snapshot is valid and the pages are that
  snapshot cut into non-empty chunks of at most the requested size, in order, each page requested by
  the cursor of the one before and only the last one complete. So no page can be left out, repeated,
  reordered or taken from another snapshot.
\<close>

theorem assembly_exact:
  assumes "\<forall>p \<in> set pages. page_ok D p"
  shows "assemble_inventory_pages D pages limit = Inr s \<longleftrightarrow>
    1 \<le> limit \<and> limit \<le> 256 \<and> snapshot_ok D s \<and>
    (\<exists>chunks. concat chunks = sn_records s \<and> (\<forall>rs \<in> set chunks. rs \<noteq> [] \<and> int (length rs) \<le> limit) \<and>
       pages = pages_of D s chunks)"
  using assemble_exact [OF assms, of limit s] by (simp add: chunks_of_def max_page_records_def)

theorem assembly_exact_witness:
  "assemble_inventory_pages ex_inventory_digests (pages_of ex_inventory_digests ex_snapshot ex_chunks) 4 = Inr ex_snapshot"
  using assembly_exact [OF ex_pages_ok, of 4 ex_snapshot] ex_snapshot_ok ex_chunks_of by (auto simp: chunks_of_def)

text \<open>
  C12: Round trip: however the records of a valid snapshot are cut into chunks of at most the
  requested size, every page that comes of it is valid, and assembling the pages gives the snapshot
  back.
\<close>

theorem paging_roundtrip:
  assumes "snapshot_ok D s" and "1 \<le> limit" and "limit \<le> 256" and "concat chunks = sn_records s"
    and "\<forall>rs \<in> set chunks. rs \<noteq> [] \<and> int (length rs) \<le> limit"
  shows "(\<forall>p \<in> set (pages_of D s chunks). page_ok D p) \<and>
    assemble_inventory_pages D (pages_of D s chunks) limit = Inr s"
proof
  have c: "chunks_of limit s chunks" using assms(4,5) by (simp add: chunks_of_def)
  show ok: "\<forall>p \<in> set (pages_of D s chunks). page_ok D p"
    by (rule pages_of_ok [OF assms(1) c]) (simp add: assms(3) max_page_records_def)
  show "assemble_inventory_pages D (pages_of D s chunks) limit = Inr s"
    using assemble_exact [OF ok, of limit s] assms(1-3) c by (auto simp: max_page_records_def)
qed

theorem paging_roundtrip_witness:
  "list_all (page_ok ex_inventory_digests) (pages_of ex_inventory_digests ex_snapshot ex_chunks) \<and>
   assemble_inventory_pages ex_inventory_digests (pages_of ex_inventory_digests ex_snapshot ex_chunks) 4 = Inr ex_snapshot"
  unfolding list_all_iff
  by (rule paging_roundtrip [OF ex_snapshot_ok])
    (use ex_chunks_of in \<open>simp_all add: chunks_of_def\<close>)

text \<open>
  C13: The collection always ends, and it returns a snapshot exactly when the snapshot is valid and
  the adapter answered the requests of the client, in order, with the pages of that snapshot;
  whatever else the adapter answers, the collection raises.
\<close>

theorem collection_exact:
  assumes "inventory_request_ok rq" and "ir_cursor rq = None"
  shows "collect_inventory_from_process D True call rq = Inr s \<longleftrightarrow>
    snapshot_ok D s \<and>
    (\<exists>chunks. chunks_of (ir_record_limit rq) s chunks \<and>
       (\<forall>i < length chunks. call i (rq\<lparr>ir_cursor := pg_request_cursor (pages_of D s chunks ! i)\<rparr>) =
          Decoded (pages_of D s chunks ! i)))" (is "_ \<longleftrightarrow> ?right")
proof
  assume "collect_inventory_from_process D True call rq = Inr s"
  then obtain pages where pages: "collect_pages D call rq [] None = Inr pages"
    and s: "assemble_inventory_pages D pages (ir_record_limit rq) = Inr s"
    using assms(2) by (auto simp: collect_inventory_from_process_def res_bind_Inr replace_error_Inr)
  have a: "answers D call rq 0 None pages" using collect_pages_sound [OF pages] by auto
  have "\<forall>p \<in> set pages. page_ok D p" using answers_page_ok [OF a] by blast
  then obtain chunks where ok: "snapshot_ok D s" and chunks: "chunks_of (ir_record_limit rq) s chunks"
    and p: "pages = pages_of D s chunks"
    using assemble_exact s by blast
  have "length pages = length chunks" using p by (simp add: pages_of_def)
  then show ?right using answers_calls [OF a] ok chunks p by auto
next
  have limits: "1 \<le> ir_record_limit rq" "ir_record_limit rq \<le> max_page_records"
    using assms(1) by (simp_all add: inventory_request_ok_def)
  assume ?right
  then obtain chunks where ok: "snapshot_ok D s" and chunks: "chunks_of (ir_record_limit rq) s chunks"
    and calls: "\<forall>i < length chunks. call i (rq\<lparr>ir_cursor := pg_request_cursor (pages_of D s chunks ! i)\<rparr>) =
      Decoded (pages_of D s chunks ! i)" by blast
  let ?pages = "pages_of D s chunks"
  have pages_ok: "\<forall>p \<in> set ?pages. page_ok D p" by (rule pages_of_ok [OF ok chunks limits(2)])
  then have s: "assemble_inventory_pages D ?pages (ir_record_limit rq) = Inr s"
    using assemble_exact limits ok chunks by blast
  then have bounds: "int (length ?pages) \<le> max_inventory_pages" "records_in ?pages \<le> max_inventory_records" "?pages \<noteq> []"
    by (simp_all add: assemble_Inr)
  have "answers D call rq 0 None ?pages"
    unfolding pages_of_def
    by (rule answers_pages_from)
      (use bounds(3) pages_ok chunks calls in \<open>simp_all add: pages_of_def chunks_of_def\<close>)
  then have "collect_pages D call rq [] None = Inr ?pages"
    using collect_pages_complete [of D call rq "[]" None ?pages] bounds by simp
  then show "collect_inventory_from_process D True call rq = Inr s"
    using s assms(2) by (simp add: collect_inventory_from_process_def)
qed

definition ex_inventory_request :: inventory_request where
  "ex_inventory_request = \<lparr>ir_subject_uri = ''urn:repo'', ir_root_path = ''.'', ir_fact_kinds = all_fact_kinds,
     ir_policy = sn_policy ex_snapshot, ir_record_limit = 4, ir_cursor = None\<rparr>"

definition ex_adapter :: "nat \<Rightarrow> inventory_request \<Rightarrow> unit page_answer" where
  "ex_adapter i rq = (if i < 2 then Decoded (pages_of ex_inventory_digests ex_snapshot ex_chunks ! i) else CallRaises ())"

lemma ex_inventory_request_ok: "inventory_request_ok ex_inventory_request"
  by code_simp

theorem collection_exact_witness:
  "inventory_request_ok ex_inventory_request \<and>
   collect_inventory_from_process ex_inventory_digests True ex_adapter ex_inventory_request = Inr ex_snapshot"
proof -
  have "ir_cursor ex_inventory_request = None" "ir_record_limit ex_inventory_request = 4" "length ex_chunks = 2"
    by (simp_all add: ex_inventory_request_def ex_chunks_def)
  then show ?thesis
    using collection_exact [OF ex_inventory_request_ok, of ex_inventory_digests ex_adapter ex_snapshot]
      ex_snapshot_ok ex_chunks_of ex_inventory_request_ok by (auto simp: ex_adapter_def)
qed

end
