(* ===== verification/Adapter_Session.thy ===== *)
theory Adapter_Session
  imports Dispatcher
begin

text \<open>
  Sessions with an adapter: the dispatcher of \<^verbatim>\<open>adapter_protocol/dispatcher.py\<close> with its requests in
  flight. The dispatcher is asynchronous; between two blocks under its lock, and while a handler
  runs, the blocks of other requests come in any order. A session is the dispatcher, the requests
  that still owe a response, each with how far it is, and the responses given so far; its steps
  are the blocks.
\<close>

section \<open>Steps\<close>

datatype task = Admitted request_body | Running operation | Finishing server_message

record session =
  s_dispatcher :: dispatcher
  s_tasks :: "(string, task) dict"
  s_log :: "server_message list"

definition respond :: "session \<Rightarrow> string \<Rightarrow> server_message \<Rightarrow> dispatcher \<Rightarrow> session" where
  "respond s i m d = s\<lparr>s_dispatcher := d, s_tasks := AList.delete i (s_tasks s), s_log := s_log s @ [m]\<rparr>"

definition progress :: "session \<Rightarrow> string \<Rightarrow> task \<Rightarrow> dispatcher \<Rightarrow> session" where
  "progress s i t d = s\<lparr>s_dispatcher := d, s_tasks := AList.update i t (s_tasks s)\<rparr>"

text \<open>
  \<open>abandon\<close> is the task of the request being cancelled from outside: the \<^verbatim>\<open>finally\<close> block runs but no
  response is given. A handler decides its outcome while the cancellation event is in any state.
\<close>

inductive session_step :: "session \<Rightarrow> session \<Rightarrow> bool" where
  refuse: "admit (s_dispatcher s) rq = Inl m \<Longrightarrow> session_step s (s\<lparr>s_log := s_log s @ [m]\<rparr>)"
| admit: "admit (s_dispatcher s) rq = Inr d \<Longrightarrow>
    session_step s (progress s (rq_id rq) (Admitted (rq_body rq)) d)"
| initialize: "map_of (s_tasks s) i = Some (Admitted (InitializeRequest v c qs)) \<Longrightarrow>
    initialize (s_dispatcher s) i v qs = (m, d) \<Longrightarrow> session_step s (respond s i m d)"
| shutdown: "map_of (s_tasks s) i = Some (Admitted ShutdownRequest) \<Longrightarrow>
    shutdown (s_dispatcher s) i = (m, d) \<Longrightarrow> session_step s (respond s i m d)"
| reject: "map_of (s_tasks s) i = Some (Admitted (OperationRequest operation payload)) \<Longrightarrow>
    start_operation (s_dispatcher s) i operation = Inl m \<Longrightarrow> session_step s (respond s i m (s_dispatcher s))"
| start: "map_of (s_tasks s) i = Some (Admitted (OperationRequest operation payload)) \<Longrightarrow>
    start_operation (s_dispatcher s) i operation = Inr d \<Longrightarrow> session_step s (progress s i (Running operation) d)"
| finish: "map_of (s_tasks s) i = Some (Running operation) \<Longrightarrow>
    map_of (d_active (s_dispatcher s)) i = Some cancelled \<Longrightarrow>
    session_step s (progress s i (Finishing (finish_operation cancelled i operation outcome)) (s_dispatcher s))"
| release: "map_of (s_tasks s) i = Some (Finishing m) \<Longrightarrow>
    session_step s (respond s i m (release (s_dispatcher s) i))"
| abandon: "map_of (s_tasks s) i = Some (Running operation) \<Longrightarrow>
    session_step s (s\<lparr>s_dispatcher := release (s_dispatcher s) i, s_tasks := AList.delete i (s_tasks s)\<rparr>)"
| cancel: "session_step s (s\<lparr>s_dispatcher := cancel (s_dispatcher s) i\<rparr>)"

inductive started :: "session \<Rightarrow> bool" where
  new: "new_dispatcher adapter offered max_pending max_requests = Inr d \<Longrightarrow>
    started \<lparr>s_dispatcher = d, s_tasks = [], s_log = []\<rparr>"

inductive_cases startedE: "started s"

section \<open>Responses\<close>

fun response_id :: "server_message \<Rightarrow> string option" where
  "response_id (Success i r) = Some i"
| "response_id (Failure i e) = i"

fun refusal :: "server_message \<Rightarrow> bool" where
  "refusal (Success i r) = False"
| "refusal (Failure i e) = (eo_ucf_code e \<in> {DuplicateRequestId, SessionRequestLimit})"

fun shutdown_answer :: "server_message \<Rightarrow> bool" where
  "shutdown_answer (Success i r) = (r = ShutdownResult)"
| "shutdown_answer (Failure i e) =
     (eo_message e = ''shutdown requires ready state with no pending requests'')"

text \<open>The answers to admitted requests: everything but the refusals.\<close>

definition answered :: "session \<Rightarrow> string option list" where
  "answered s = map response_id (filter (\<lambda>m. \<not> refusal m) (s_log s))"

section \<open>The invariant\<close>

definition in_progress :: "task option \<Rightarrow> bool" where
  "in_progress t \<longleftrightarrow> (case t of Some (Running _) \<Rightarrow> True | Some (Finishing _) \<Rightarrow> True | _ \<Rightarrow> False)"

definition tasks_ok :: "session \<Rightarrow> bool" where
  "tasks_ok s \<longleftrightarrow>
     (let d = s_dispatcher s in
      wf_dict (s_tasks s) \<and> wf_dict (d_active d) \<and>
      dom (map_of (s_tasks s)) \<subseteq> set (d_seen d) \<and>
      (\<forall>i. map_of (d_active d) i \<noteq> None \<longleftrightarrow> in_progress (map_of (s_tasks s) i)) \<and>
      (\<forall>i operation. map_of (s_tasks s) i = Some (Running operation) \<longrightarrow>
        map_of (d_negotiated d) (method_capability operation) \<noteq> None))"

definition limits_ok :: "dispatcher \<Rightarrow> bool" where
  "limits_ok d \<longleftrightarrow> 1 \<le> d_max_pending d \<and> d_max_pending d \<le> max_pending_requests \<and>
     2 \<le> d_max_requests d \<and> d_max_requests d \<le> max_requests_per_session \<and>
     int (length (d_active d)) \<le> d_max_pending d \<and>
     distinct (d_seen d) \<and> int (length (d_seen d)) \<le> d_max_requests d"

definition phase_ok :: "dispatcher \<Rightarrow> bool" where
  "phase_ok d \<longleftrightarrow> (d_state d \<noteq> READY \<longrightarrow> d_active d = []) \<and> (d_state d = NEW \<longrightarrow> d_negotiated d = []) \<and>
     wf_dict (d_offered d) \<and>
     (\<forall>c v. map_of (d_negotiated d) c = Some v \<longrightarrow> map_of (d_offered d) c = Some v)"

definition log_ok :: "session \<Rightarrow> bool" where
  "log_ok s \<longleftrightarrow> (\<forall>m \<in> set (s_log s). server_message_ok m) \<and> distinct (answered s) \<and>
     set (answered s) \<subseteq> Some ` (set (d_seen (s_dispatcher s)) - dom (map_of (s_tasks s))) \<and>
     (\<forall>i m. map_of (s_tasks s) i = Some (Finishing m) \<longrightarrow>
        response_id m = Some i \<and> \<not> refusal m \<and> server_message_ok m)"

definition session_inv :: "session \<Rightarrow> bool" where
  "session_inv s \<longleftrightarrow> tasks_ok s \<and> limits_ok (s_dispatcher s) \<and> phase_ok (s_dispatcher s) \<and> log_ok s"

section \<open>The blocks\<close>

lemma in_keys: "k \<in> set (dict_keys d) \<longleftrightarrow> map_of d k \<noteq> None"
  by (simp add: map_of_eq_None_iff)

lemma map_of_delete [simp]: "map_of (AList.delete k d) = (map_of d)(k := None)"
  by (rule AList.delete_conv')

lemma wf_dict_delete [simp]: "wf_dict d \<Longrightarrow> wf_dict (AList.delete k d)"
  by (simp add: wf_dict_def AList.distinct_delete)

lemma length_delete: "length (AList.delete k d) \<le> length d"
  by (simp add: AList.length_delete_le)

lemma length_update_fresh: "map_of d k = None \<Longrightarrow> length (AList.update k v d) = Suc (length d)"
  by (induction d) (auto split: if_splits)

lemma length_update_old: "map_of d k \<noteq> None \<Longrightarrow> length (AList.update k v d) = length d"
  by (induction d) (auto split: if_splits)

lemma admit_Inr:
  "admit d rq = Inr d' \<longleftrightarrow> rq_id rq \<notin> set (d_seen d) \<and> int (set_size (d_seen d)) < d_max_requests d \<and>
     (int (set_size (d_seen d)) < d_max_requests d - 1 \<or> rq_body rq = ShutdownRequest) \<and>
     d' = d\<lparr>d_seen := d_seen d @ [rq_id rq]\<rparr>"
  by (auto simp: admit_def)

lemma error_response_simps [simp]:
  "response_id (error_response i cat c msg) = Some i"
  "refusal (error_response i cat c msg) \<longleftrightarrow> c \<in> {DuplicateRequestId, SessionRequestLimit}"
  "shutdown_answer (error_response i cat c msg) \<longleftrightarrow> msg = ''shutdown requires ready state with no pending requests''"
  "server_message_ok (error_response i cat c msg) \<longleftrightarrow>
     cat = error_category_for_code c \<and> cat \<notin> {Timeout, ProcessFailure} \<and> 1 \<le> length msg \<and> length msg \<le> 1024"
  by (simp_all add: error_response_def server_message_ok_def error_data_ok_def)

lemma success_ok [simp]: "server_message_ok (Success i r) = result_ok r"
  by (simp add: server_message_ok_def)

lemma admit_Inl:
  assumes "admit d rq = Inl m"
  shows "refusal m \<and> server_message_ok m"
  using assms by (auto simp: admit_def error_category_for_code_def split: if_splits)

lemma select_capabilities_names:
  "select_capabilities offered qs = Some cs \<Longrightarrow> distinct (map cr_name qs) \<Longrightarrow>
     distinct (map cs_name cs) \<and> set (map cs_name cs) \<subseteq> set (map cr_name qs) \<and>
     (\<forall>c \<in> set cs. map_of offered (cs_name c) = Some (cs_version c))"
proof (induction qs arbitrary: cs)
  case Nil
  then show ?case by simp
next
  case (Cons q qs)
  show ?case
  proof (cases "supported offered q")
    case True
    then obtain ds where ds: "select_capabilities offered qs = Some ds"
      "cs = \<lparr>cs_name = cr_name q, cs_version = the (map_of offered (cr_name q))\<rparr> # ds"
      using Cons.prems by auto
    then show ?thesis
      using Cons.IH [OF ds(1)] Cons.prems(2) True by (auto simp: supported_def split: option.splits)
  next
    case False
    then show ?thesis using Cons by (auto split: if_splits)
  qed
qed

lemma initialize_shape:
  assumes "initialize d i v qs = (m, d')"
  shows "response_id m = Some i \<and> \<not> refusal m \<and> server_message_ok m \<and> \<not> shutdown_answer m \<and>
    (d' = d \<or> d_state d = NEW \<and> (\<exists>n. d' = d\<lparr>d_negotiated := n, d_state := READY\<rparr> \<and>
       (\<forall>c w. map_of n c = Some w \<longrightarrow> map_of (d_offered d) c = Some w)))"
proof (cases "d_state d = NEW \<and> v = adapter_protocol_version \<and> distinct (map cr_name qs) \<and>
    select_capabilities (d_offered d) qs \<noteq> None")
  case False
  then show ?thesis
    using assms by (auto simp: initialize_def error_category_for_code_def split: if_splits option.splits)
next
  case True
  then obtain cs where cs: "select_capabilities (d_offered d) qs = Some cs" by auto
  note names = select_capabilities_names [OF cs]
  have "map_of (d_offered d) c = Some w"
    if "map_of (dict_of (map (\<lambda>c. (cs_name c, cs_version c)) (sort_key cs_name cs))) c = Some w" for c w
  proof -
    have "distinct (map fst (map (\<lambda>c. (cs_name c, cs_version c)) (sort_key cs_name cs)))"
      using names True by (simp add: comp_def distinct_map)
    then have "map_of (map (\<lambda>c. (cs_name c, cs_version c)) (sort_key cs_name cs)) c = Some w"
      using that by (simp add: dict_of_distinct)
    then show ?thesis using names True by (auto dest!: map_of_SomeD)
  qed
  moreover have "m = Success i (InitializeResult adapter_protocol_version (d_adapter d) (sort_key cs_name cs))"
    "d' = d\<lparr>d_negotiated := dict_of (map (\<lambda>c. (cs_name c, cs_version c)) (sort_key cs_name cs)), d_state := READY\<rparr>"
    using assms True cs by (simp_all add: initialize_def Let_def)
  moreover have "distinct (map cs_name (sort_key cs_name cs))"
    using names True by (simp add: distinct_map)
  ultimately show ?thesis using True by (auto simp: result_ok_def)
qed

lemma start_Inr:
  "start_operation d i operation = Inr d' \<longleftrightarrow> d_state d = READY \<and>
     map_of (d_negotiated d) (method_capability operation) \<noteq> None \<and>
     int (length (d_active d)) < d_max_pending d \<and> d' = d\<lparr>d_active := AList.update i False (d_active d)\<rparr>"
  unfolding start_operation_def in_keys by auto

lemma start_Inl:
  assumes "start_operation d i operation = Inl m"
  shows "response_id m = Some i \<and> \<not> refusal m \<and> server_message_ok m \<and> \<not> shutdown_answer m"
  using assms by (auto simp: start_operation_def error_category_for_code_def split: if_splits)

lemma finish_shape:
  "response_id (finish_operation c i operation outcome) = Some i \<and>
   \<not> refusal (finish_operation c i operation outcome) \<and>
   server_message_ok (finish_operation c i operation outcome) \<and>
   \<not> shutdown_answer (finish_operation c i operation outcome)"
  by (cases outcome)
    (simp_all add: finish_operation_def operation_failed_def error_category_for_code_def result_ok_def
      method_result_kind_def)

lemma shutdown_shape:
  assumes "shutdown d i = (m, d')"
  shows "response_id m = Some i \<and> \<not> refusal m \<and> server_message_ok m \<and> shutdown_answer m \<and>
    (d' = d \<or> d_state d = READY \<and> d_active d = [] \<and> d' = d\<lparr>d_state := CLOSED\<rparr>)"
  using assms by (auto simp: shutdown_def error_category_for_code_def result_ok_def split: if_splits)

lemma cancel_simps [simp]:
  "d_state (cancel d i) = d_state d" "d_seen (cancel d i) = d_seen d"
  "d_negotiated (cancel d i) = d_negotiated d" "d_offered (cancel d i) = d_offered d"
  "d_max_pending (cancel d i) = d_max_pending d" "d_max_requests (cancel d i) = d_max_requests d"
  "length (d_active (cancel d i)) = length (d_active d)"
  "(d_active (cancel d i) = []) \<longleftrightarrow> (d_active d = [])"
  "map_of (d_active (cancel d i)) j = None \<longleftrightarrow> map_of (d_active d) j = None"
  "wf_dict (d_active d) \<Longrightarrow> wf_dict (d_active (cancel d i))"
proof -
  show len: "length (d_active (cancel d i)) = length (d_active d)"
    by (auto simp: cancel_def length_update_old split: option.splits)
  then show "(d_active (cancel d i) = []) \<longleftrightarrow> (d_active d = [])"
    by (metis length_0_conv)
qed (auto simp: cancel_def split: option.splits)

section \<open>The invariant is kept\<close>

lemma respond_simps [simp]:
  "s_dispatcher (respond s i m d) = d" "s_tasks (respond s i m d) = AList.delete i (s_tasks s)"
  "s_log (respond s i m d) = s_log s @ [m]"
  by (simp_all add: respond_def)

lemma progress_simps [simp]:
  "s_dispatcher (progress s i t d) = d" "s_tasks (progress s i t d) = AList.update i t (s_tasks s)"
  "s_log (progress s i t d) = s_log s"
  by (simp_all add: progress_def)

lemma in_progress_simps [simp]:
  "\<not> in_progress None" "\<not> in_progress (Some (Admitted b))"
  "in_progress (Some (Running operation))" "in_progress (Some (Finishing m))"
  by (simp_all add: in_progress_def)

lemma active_iff:
  "tasks_ok s \<Longrightarrow> map_of (d_active (s_dispatcher s)) i \<noteq> None \<longleftrightarrow> in_progress (map_of (s_tasks s) i)"
  unfolding tasks_ok_def Let_def by blast

lemma idle_tasks:
  assumes "tasks_ok s" and "phase_ok (s_dispatcher s)" and "d_state (s_dispatcher s) = NEW"
  shows "map_of (s_tasks s) i \<noteq> Some (Running operation)"
  using assms by (force simp: tasks_ok_def phase_ok_def Let_def)

lemma phase_step:
  assumes "session_step s t" and "phase_ok (s_dispatcher s)"
  shows "phase_ok (s_dispatcher t)"
  using assms
proof (cases rule: session_step.cases)
  case (initialize i v c qs m d)
  then show ?thesis using initialize_shape [OF initialize(3)] assms(2) by (auto simp: phase_ok_def)
next
  case (shutdown i m d)
  then show ?thesis using shutdown_shape [OF shutdown(3)] assms(2) by (auto simp: phase_ok_def)
qed (auto simp: phase_ok_def admit_Inr start_Inr release_def)

lemma limits_step:
  assumes "session_step s t" and "limits_ok (s_dispatcher s)" and "tasks_ok s"
  shows "limits_ok (s_dispatcher t)"
  using assms
proof (cases rule: session_step.cases)
  case (admit rq d)
  then show ?thesis using assms(2) by (auto simp: limits_ok_def admit_Inr set_size_card distinct_card)
next
  case (initialize i v c qs m d)
  then show ?thesis using initialize_shape [OF initialize(3)] assms(2) by (auto simp: limits_ok_def)
next
  case (shutdown i m d)
  then show ?thesis using shutdown_shape [OF shutdown(3)] assms(2) by (auto simp: limits_ok_def)
next
  case (start i operation payload d)
  then have "map_of (d_active (s_dispatcher s)) i = None"
    using active_iff [OF assms(3), of i] by auto
  then show ?thesis using start assms(2) by (auto simp: limits_ok_def start_Inr length_update_fresh)
next
  case (release i m)
  then show ?thesis using assms(2) length_delete [of i "d_active (s_dispatcher s)"]
    by (simp add: limits_ok_def release_def)
next
  case (abandon i operation)
  then show ?thesis using assms(2) length_delete [of i "d_active (s_dispatcher s)"]
    by (simp add: limits_ok_def release_def)
qed (auto simp: limits_ok_def)

lemma tasks_respond:
  assumes ok: "tasks_ok s" and "wf_dict (d_active d)" and "d_seen d = d_seen (s_dispatcher s)"
    and "\<And>j. map_of (d_active d) j \<noteq> None \<longleftrightarrow> j \<noteq> i \<and> map_of (d_active (s_dispatcher s)) j \<noteq> None"
    and "\<And>j operation. map_of (s_tasks s) j = Some (Running operation) \<Longrightarrow>
      map_of (d_negotiated d) (method_capability operation) \<noteq> None"
  shows "tasks_ok (respond s i m d)"
proof -
  have "map_of (d_active d) j \<noteq> None \<longleftrightarrow> in_progress (((map_of (s_tasks s))(i := None)) j)" for j
    using assms(4) [of j] active_iff [OF ok, of j] by (cases "j = i") simp_all
  then show ?thesis using assms(1-3,5) unfolding tasks_ok_def Let_def
    by (auto split: if_splits)
qed

lemma tasks_progress:
  assumes ok: "tasks_ok s" and "wf_dict (d_active d)" and "insert i (set (d_seen (s_dispatcher s))) \<subseteq> set (d_seen d)"
    and "\<And>j. map_of (d_active d) j \<noteq> None \<longleftrightarrow>
      (if j = i then in_progress (Some t) else map_of (d_active (s_dispatcher s)) j \<noteq> None)"
    and "d_negotiated d = d_negotiated (s_dispatcher s)"
    and "\<And>operation. t = Running operation \<Longrightarrow> map_of (d_negotiated d) (method_capability operation) \<noteq> None"
  shows "tasks_ok (progress s i t d)"
proof -
  have "map_of (d_active d) j \<noteq> None \<longleftrightarrow> in_progress (((map_of (s_tasks s))(i \<mapsto> t)) j)" for j
    using assms(4) [of j] active_iff [OF ok, of j] by (cases "j = i") simp_all
  then show ?thesis using assms(1-3,5,6) unfolding tasks_ok_def Let_def
    by (auto split: if_splits)
qed

lemma waiting_inactive:
  "tasks_ok s \<Longrightarrow> map_of (s_tasks s) i = Some (Admitted b) \<Longrightarrow> map_of (d_active (s_dispatcher s)) i = None"
  using active_iff [of s i] by auto

lemma running_capable:
  "tasks_ok s \<Longrightarrow> map_of (s_tasks s) i = Some (Running operation) \<Longrightarrow>
     map_of (d_negotiated (s_dispatcher s)) (method_capability operation) \<noteq> None"
  unfolding tasks_ok_def Let_def by blast

lemma task_seen: "tasks_ok s \<Longrightarrow> map_of (s_tasks s) i = Some t \<Longrightarrow> i \<in> set (d_seen (s_dispatcher s))"
  unfolding tasks_ok_def Let_def by blast

lemma active_wf: "tasks_ok s \<Longrightarrow> wf_dict (d_active (s_dispatcher s))"
  unfolding tasks_ok_def Let_def by blast

lemma tasks_step:
  assumes "session_step s t" and ok: "tasks_ok s" and "phase_ok (s_dispatcher s)"
  shows "tasks_ok t"
  using assms(1)
proof (cases rule: session_step.cases)
  case (refuse rq m)
  then show ?thesis using ok by (simp add: tasks_ok_def Let_def)
next
  case (admit rq d)
  have "map_of (s_tasks s) (rq_id rq) = None"
    using admit(2) task_seen [OF ok] by (cases "map_of (s_tasks s) (rq_id rq)") (auto simp: admit_Inr)
  then have "map_of (d_active (s_dispatcher s)) (rq_id rq) = None"
    using active_iff [OF ok, of "rq_id rq"] by simp
  then show ?thesis
    unfolding admit(1) using admit(2) active_wf [OF ok] by (intro tasks_progress ok) (auto simp: admit_Inr)
next
  case (initialize i v c qs m d)
  have "map_of (d_negotiated d) (method_capability operation) \<noteq> None"
    if "map_of (s_tasks s) j = Some (Running operation)" for j operation
    using that initialize_shape [OF initialize(3)] running_capable [OF ok that] idle_tasks [OF ok assms(3), of j]
    by auto
  moreover have "d_active d = d_active (s_dispatcher s)" "d_seen d = d_seen (s_dispatcher s)"
    using initialize_shape [OF initialize(3)] by auto
  ultimately show ?thesis
    unfolding initialize(1) using waiting_inactive [OF ok initialize(2)] active_wf [OF ok]
    by (intro tasks_respond ok) auto
next
  case (shutdown i m d)
  have "d_active d = d_active (s_dispatcher s)" "d_seen d = d_seen (s_dispatcher s)"
    "d_negotiated d = d_negotiated (s_dispatcher s)"
    using shutdown_shape [OF shutdown(3)] by auto
  then show ?thesis
    unfolding shutdown(1) using waiting_inactive [OF ok shutdown(2)] active_wf [OF ok] running_capable [OF ok]
    by (intro tasks_respond ok) auto
next
  case (reject i operation payload m)
  then show ?thesis
    unfolding reject(1) using waiting_inactive [OF ok reject(2)] active_wf [OF ok] running_capable [OF ok]
    by (intro tasks_respond ok) auto
next
  case (start i operation payload d)
  then show ?thesis
    unfolding start(1) using active_wf [OF ok] task_seen [OF ok start(2)]
    by (intro tasks_progress ok) (auto simp: start_Inr)
next
  case (finish i operation cancelled outcome)
  then show ?thesis
    unfolding finish(1) using active_wf [OF ok] task_seen [OF ok finish(2)]
    by (intro tasks_progress ok) auto
next
  case (release i m)
  then show ?thesis
    unfolding release(1) using active_wf [OF ok] running_capable [OF ok]
    by (intro tasks_respond ok) (auto simp: release_def)
next
  case (abandon i operation)
  have "tasks_ok (respond s i (operation_failed i) (release (s_dispatcher s) i))"
    using active_wf [OF ok] running_capable [OF ok] by (intro tasks_respond ok) (auto simp: release_def)
  then show ?thesis by (simp add: abandon(1) tasks_ok_def Let_def)
next
  case (cancel i)
  have "map_of (d_active (Dispatcher.cancel (s_dispatcher s) i)) j \<noteq> None \<longleftrightarrow> in_progress (map_of (s_tasks s) j)" for j
    using active_iff [OF ok, of j] by simp
  then show ?thesis using ok active_wf [OF ok] unfolding cancel(1) tasks_ok_def Let_def by simp
qed

lemma log_respond:
  assumes ok: "log_ok s" "tasks_ok s" and i: "map_of (s_tasks s) i \<noteq> None" and seen: "d_seen d = d_seen (s_dispatcher s)"
    and m: "response_id m = Some i" "\<not> refusal m" "server_message_ok m"
  shows "log_ok (respond s i m d)"
proof -
  have "i \<in> set (d_seen (s_dispatcher s))" using ok(2) i by (auto simp: tasks_ok_def Let_def)
  moreover have "Some i \<notin> set (answered s)" using ok(1) i by (auto simp: log_ok_def)
  moreover have "answered (respond s i m d) = answered s @ [Some i]" using m by (simp add: answered_def)
  ultimately show ?thesis using ok(1) m seen by (auto simp: log_ok_def)
qed

lemma log_progress:
  assumes ok: "log_ok s" and i: "map_of (s_tasks s) i \<noteq> None" and seen: "d_seen d = d_seen (s_dispatcher s)"
    and t: "\<And>m. t = Finishing m \<Longrightarrow> response_id m = Some i \<and> \<not> refusal m \<and> server_message_ok m"
  shows "log_ok (progress s i t d)"
proof -
  have "dom (map_of (s_tasks (progress s i t d))) = dom (map_of (s_tasks s))"
    using i by (auto simp: insert_absorb domI)
  then show ?thesis using ok seen t by (auto simp: log_ok_def answered_def)
qed

lemma log_step:
  assumes "session_step s t" and ok: "log_ok s" "tasks_ok s"
  shows "log_ok t"
  using assms(1)
proof (cases rule: session_step.cases)
  case (refuse rq m)
  then show ?thesis using ok(1) admit_Inl [OF refuse(2)] by (auto simp: log_ok_def answered_def)
next
  case (admit rq d)
  then have "rq_id rq \<notin> set (d_seen (s_dispatcher s))" "d_seen d = d_seen (s_dispatcher s) @ [rq_id rq]"
    by (simp_all add: admit_Inr)
  then show ?thesis using admit ok(1) by (auto simp: log_ok_def answered_def)
next
  case (initialize i v c qs m d)
  have "d_seen d = d_seen (s_dispatcher s)" using initialize_shape [OF initialize(3)] by auto
  then show ?thesis
    unfolding initialize(1) using initialize_shape [OF initialize(3)] initialize(2)
    by (intro log_respond ok) auto
next
  case (shutdown i m d)
  have "d_seen d = d_seen (s_dispatcher s)" using shutdown_shape [OF shutdown(3)] by auto
  then show ?thesis
    unfolding shutdown(1) using shutdown_shape [OF shutdown(3)] shutdown(2)
    by (intro log_respond ok) auto
next
  case (reject i operation payload m)
  then show ?thesis
    unfolding reject(1) using start_Inl [OF reject(3)] by (intro log_respond ok) auto
next
  case (start i operation payload d)
  then show ?thesis
    unfolding start(1) by (intro log_progress ok) (auto simp: start_Inr)
next
  case (finish i operation cancelled outcome)
  then show ?thesis
    unfolding finish(1) using finish_shape [of cancelled i operation outcome]
    by (intro log_progress ok) auto
next
  case (release i m)
  moreover have "response_id m = Some i \<and> \<not> refusal m \<and> server_message_ok m"
    using ok(1) release(2) by (simp add: log_ok_def)
  ultimately show ?thesis
    unfolding release(1) by (intro log_respond ok) (auto simp: release_def)
next
  case (abandon i operation)
  then show ?thesis using ok(1) by (auto simp: log_ok_def answered_def release_def)
next
  case (cancel i)
  then show ?thesis using ok(1) by (auto simp: log_ok_def answered_def)
qed

lemma new_dispatcher_Inr:
  assumes "new_dispatcher adapter offered max_pending max_requests = Inr d"
  shows "d_state d = NEW \<and> d_negotiated d = [] \<and> d_active d = [] \<and> d_seen d = [] \<and> wf_dict (d_offered d) \<and>
    1 \<le> d_max_pending d \<and> d_max_pending d \<le> max_pending_requests \<and>
    2 \<le> d_max_requests d \<and> d_max_requests d \<le> max_requests_per_session"
  using assms by (auto simp: new_dispatcher_def Let_def split: if_splits)

lemma started_inv: "started s \<Longrightarrow> session_inv s"
  by (elim startedE)
    (auto dest!: new_dispatcher_Inr simp: session_inv_def tasks_ok_def limits_ok_def phase_ok_def log_ok_def
      answered_def Let_def)

lemma step_inv: "session_step s t \<Longrightarrow> session_inv s \<Longrightarrow> session_inv t"
  by (simp add: session_inv_def tasks_step limits_step phase_step log_step)

interpretation adapter: transition_system started session_step session_inv
  by unfold_locales (simp_all add: started_inv step_inv)

section \<open>The slot reserved for the shutdown\<close>

text \<open>The last request of a session is only ever spent on a shutdown.\<close>

definition slot_ok :: "session \<Rightarrow> bool" where
  "slot_ok s \<longleftrightarrow>
     (int (length (d_seen (s_dispatcher s))) < d_max_requests (s_dispatcher s) \<or>
      (\<exists>i. map_of (s_tasks s) i = Some (Admitted ShutdownRequest)) \<or> (\<exists>m \<in> set (s_log s). shutdown_answer m)) \<and>
     (\<forall>i m. map_of (s_tasks s) i = Some (Finishing m) \<longrightarrow> \<not> shutdown_answer m)"

lemma slot_kept:
  assumes "slot_ok s" and "set (s_log s) \<subseteq> set (s_log t)"
    and "d_seen (s_dispatcher t) = d_seen (s_dispatcher s)"
    and "d_max_requests (s_dispatcher t) = d_max_requests (s_dispatcher s)"
    and "\<And>j. map_of (s_tasks s) j = Some (Admitted ShutdownRequest) \<Longrightarrow> map_of (s_tasks t) j = map_of (s_tasks s) j"
    and "\<And>j m. map_of (s_tasks t) j = Some (Finishing m) \<Longrightarrow> map_of (s_tasks s) j = Some (Finishing m) \<or> \<not> shutdown_answer m"
  shows "slot_ok t"
proof -
  have "\<exists>j. map_of (s_tasks t) j = Some (Admitted ShutdownRequest)"
    if "map_of (s_tasks s) i = Some (Admitted ShutdownRequest)" for i
    using assms(5) [OF that] that by auto
  then show ?thesis using assms unfolding slot_ok_def by (smt (verit) subsetD)
qed

lemma slot_step:
  assumes "session_step s t" and slot: "slot_ok s" and ok: "tasks_ok s" "limits_ok (s_dispatcher s)"
  shows "slot_ok t"
  using assms(1)
proof (cases rule: session_step.cases)
  case (admit rq d)
  have d: "d = s_dispatcher s\<lparr>d_seen := d_seen (s_dispatcher s) @ [rq_id rq]\<rparr>"
    and fresh: "rq_id rq \<notin> set (d_seen (s_dispatcher s))" using admit(2) by (simp_all add: admit_Inr)
  have new: "map_of (s_tasks s) (rq_id rq) = None"
    using fresh task_seen [OF ok(1)] by (cases "map_of (s_tasks s) (rq_id rq)") auto
  have size: "set_size (d_seen (s_dispatcher s)) = length (d_seen (s_dispatcher s))"
    using ok(2) by (simp add: limits_ok_def set_size_card distinct_card)
  show ?thesis
  proof (cases "rq_body rq = ShutdownRequest")
    case True
    then show ?thesis using slot by (auto simp: slot_ok_def admit(1))
  next
    case False
    then have "int (length (d_seen (s_dispatcher s))) < d_max_requests (s_dispatcher s) - 1"
      using admit(2) size by (simp add: admit_Inr)
    then show ?thesis using slot by (auto simp: slot_ok_def admit(1) d)
  qed
next
  case (shutdown i m d)
  then show ?thesis using shutdown_shape [OF shutdown(3)] slot by (auto simp: slot_ok_def)
next
  case (initialize i v c qs m d)
  have "d_seen d = d_seen (s_dispatcher s)" "d_max_requests d = d_max_requests (s_dispatcher s)"
    using initialize_shape [OF initialize(3)] by auto
  then show ?thesis
    unfolding initialize(1) using initialize(2) by (intro slot_kept [OF slot]) (auto split: if_splits)
next
  case (start i operation payload d)
  then show ?thesis
    by (intro slot_kept [OF slot]) (auto simp: start_Inr split: if_splits)
next
  case (finish i operation cancelled outcome)
  then show ?thesis
    using finish_shape [of cancelled i operation outcome]
    by (intro slot_kept [OF slot]) (auto split: if_splits)
qed (rule slot_kept [OF slot]; auto simp: release_def split: if_splits)+

interpretation slots: transition_system started session_step "\<lambda>s. session_inv s \<and> slot_ok s"
proof
  fix s assume "started s"
  then show "session_inv s \<and> slot_ok s"
    by (elim startedE) (auto dest: new_dispatcher_Inr started.new [THEN started_inv] simp: slot_ok_def)
next
  fix s t assume "session_step s t" "session_inv s \<and> slot_ok s"
  then show "session_inv t \<and> slot_ok t"
    using slot_step [of s t] step_inv [of s t] by (simp add: session_inv_def)
qed

section \<open>Draining a session\<close>

lemma AList_delete_length: "map_of d k \<noteq> None \<Longrightarrow> length (AList.delete k d) < length d"
  by (induction d) (auto simp: AList.length_delete_le le_imp_less_Suc split: if_splits)

text \<open>One active request, brought to its end by a handler that raises an exception.\<close>

lemma drain_one:
  assumes ok: "session_inv s" and active: "d_active (s_dispatcher s) \<noteq> []"
  shows "\<exists>t. session_step\<^sup>*\<^sup>* s t \<and> length (d_active (s_dispatcher t)) < length (d_active (s_dispatcher s)) \<and>
    d_state (s_dispatcher t) = d_state (s_dispatcher s) \<and> d_seen (s_dispatcher t) = d_seen (s_dispatcher s) \<and>
    d_max_requests (s_dispatcher t) = d_max_requests (s_dispatcher s)"
proof -
  obtain i c rest where "d_active (s_dispatcher s) = (i, c) # rest"
    using active by (metis list.exhaust surj_pair)
  then have c: "map_of (d_active (s_dispatcher s)) i = Some c" by simp
  have tasks: "tasks_ok s" using ok by (simp add: session_inv_def)
  have drained: "length (d_active (release (s_dispatcher s) i)) < length (d_active (s_dispatcher s))"
    using AList_delete_length [of "d_active (s_dispatcher s)" i] c by (simp add: release_def)
  have fields: "d_state (release d i) = d_state d" "d_seen (release d i) = d_seen d"
    "d_max_requests (release d i) = d_max_requests d" for d
    by (simp_all add: release_def)
  have "in_progress (map_of (s_tasks s) i)" using active_iff [OF tasks, of i] c by simp
  then consider operation where "map_of (s_tasks s) i = Some (Running operation)"
    | m where "map_of (s_tasks s) i = Some (Finishing m)"
    by (auto simp: in_progress_def split: option.splits task.splits)
  then show ?thesis
  proof cases
    case 1
    let ?m = "finish_operation c i operation RaisesException"
    let ?t = "progress s i (Finishing ?m) (s_dispatcher s)"
    have "session_step s ?t" by (rule session_step.finish [OF 1 c])
    moreover have "session_step ?t (respond ?t i ?m (release (s_dispatcher ?t) i))"
      by (rule session_step.release) simp
    ultimately have "session_step\<^sup>*\<^sup>* s (respond ?t i ?m (release (s_dispatcher ?t) i))" by simp
    then show ?thesis using drained fields by (intro exI conjI) (assumption, simp_all)
  next
    case 2
    then have "session_step s (respond s i m (release (s_dispatcher s) i))" by (rule session_step.release)
    then have "session_step\<^sup>*\<^sup>* s (respond s i m (release (s_dispatcher s) i))" by simp
    then show ?thesis using drained fields by (intro exI conjI) (assumption, simp_all)
  qed
qed

lemma drain:
  assumes "session_inv s"
  shows "\<exists>t. session_step\<^sup>*\<^sup>* s t \<and> d_active (s_dispatcher t) = [] \<and>
    d_state (s_dispatcher t) = d_state (s_dispatcher s) \<and> d_seen (s_dispatcher t) = d_seen (s_dispatcher s) \<and>
    d_max_requests (s_dispatcher t) = d_max_requests (s_dispatcher s)"
  using assms
proof (induction "length (d_active (s_dispatcher s))" arbitrary: s rule: less_induct)
  case less
  show ?case
  proof (cases "d_active (s_dispatcher s) = []")
    case True
    then show ?thesis by blast
  next
    case False
    from drain_one [OF less.prems this] obtain t where t: "session_step\<^sup>*\<^sup>* s t"
      "length (d_active (s_dispatcher t)) < length (d_active (s_dispatcher s))"
      "d_state (s_dispatcher t) = d_state (s_dispatcher s)" "d_seen (s_dispatcher t) = d_seen (s_dispatcher s)"
      "d_max_requests (s_dispatcher t) = d_max_requests (s_dispatcher s)" by blast
    from less.hyps [OF t(2)] adapter.inv_steps [OF t(1) less.prems] t show ?thesis
      by (metis rtranclp_trans)
  qed
qed

section \<open>Running a session\<close>

text \<open>The steps as an executable function: which block runs next is the label.\<close>

datatype label =
  Send request | Advance string | Outcome string handler_outcome | Abandon string | SendCancel string

fun session_next :: "label \<Rightarrow> session \<Rightarrow> session option" where
  "session_next (Send rq) s =
     (case admit (s_dispatcher s) rq of
        Inl m \<Rightarrow> Some (s\<lparr>s_log := s_log s @ [m]\<rparr>)
      | Inr d \<Rightarrow> Some (progress s (rq_id rq) (Admitted (rq_body rq)) d))"
| "session_next (Advance i) s =
     (case map_of (s_tasks s) i of
        Some (Admitted (InitializeRequest v c qs)) \<Rightarrow>
          (case initialize (s_dispatcher s) i v qs of (m, d) \<Rightarrow> Some (respond s i m d))
      | Some (Admitted ShutdownRequest) \<Rightarrow>
          (case shutdown (s_dispatcher s) i of (m, d) \<Rightarrow> Some (respond s i m d))
      | Some (Admitted (OperationRequest operation payload)) \<Rightarrow>
          (case start_operation (s_dispatcher s) i operation of
             Inl m \<Rightarrow> Some (respond s i m (s_dispatcher s))
           | Inr d \<Rightarrow> Some (progress s i (Running operation) d))
      | Some (Finishing m) \<Rightarrow> Some (respond s i m (release (s_dispatcher s) i))
      | _ \<Rightarrow> None)"
| "session_next (Outcome i outcome) s =
     (case (map_of (s_tasks s) i, map_of (d_active (s_dispatcher s)) i) of
        (Some (Running operation), Some cancelled) \<Rightarrow>
          Some (progress s i (Finishing (finish_operation cancelled i operation outcome)) (s_dispatcher s))
      | _ \<Rightarrow> None)"
| "session_next (Abandon i) s =
     (case map_of (s_tasks s) i of
        Some (Running operation) \<Rightarrow>
          Some (s\<lparr>s_dispatcher := release (s_dispatcher s) i, s_tasks := AList.delete i (s_tasks s)\<rparr>)
      | _ \<Rightarrow> None)"
| "session_next (SendCancel i) s = Some (s\<lparr>s_dispatcher := cancel (s_dispatcher s) i\<rparr>)"

fun session_run :: "label list \<Rightarrow> session \<Rightarrow> session option" where
  "session_run [] s = Some s"
| "session_run (l # ls) s = (case session_next l s of None \<Rightarrow> None | Some t \<Rightarrow> session_run ls t)"

lemma session_next_step: "session_next l s = Some t \<Longrightarrow> session_step s t"
  by (cases l)
    (auto split: sum.splits option.splits task.splits request_body.splits prod.splits
      intro: session_step.intros)

lemma session_step_next: "session_step s t \<Longrightarrow> \<exists>l. session_next l s = Some t"
proof (induction rule: session_step.induct)
  case (refuse s rq m)
  then show ?case by (intro exI [of _ "Send rq"]) simp
next
  case (admit s rq d)
  then show ?case by (intro exI [of _ "Send rq"]) simp
next
  case (initialize s i v c qs m d)
  then show ?case by (intro exI [of _ "Advance i"]) simp
next
  case (shutdown s i m d)
  then show ?case by (intro exI [of _ "Advance i"]) simp
next
  case (reject s i operation payload m)
  then show ?case by (intro exI [of _ "Advance i"]) simp
next
  case (start s i operation payload d)
  then show ?case by (intro exI [of _ "Advance i"]) simp
next
  case (finish s i operation cancelled outcome)
  then show ?case by (intro exI [of _ "Outcome i outcome"]) simp
next
  case (release s i m)
  then show ?case by (intro exI [of _ "Advance i"]) simp
next
  case (abandon s i operation)
  then show ?case by (intro exI [of _ "Abandon i"]) simp
next
  case (cancel s i)
  then show ?case by (intro exI [of _ "SendCancel i"]) simp
qed

lemma session_run_steps: "session_run ls s = Some t \<Longrightarrow> session_step\<^sup>*\<^sup>* s t"
proof (induction ls arbitrary: s)
  case Nil
  then show ?case by simp
next
  case (Cons l ls)
  then obtain u where "session_next l s = Some u" "session_run ls u = Some t" by (auto split: option.splits)
  with Cons.IH session_next_step show ?case by (metis converse_rtranclp_into_rtranclp)
qed

text \<open>An adapter that offers the inventory and admits three requests.\<close>

definition ex_dispatcher :: dispatcher where
  "ex_dispatcher = \<lparr>d_adapter = VNone, d_offered = [(''org.ucf.adapter.inventory'', ''1.2.0'')],
     d_max_pending = 1, d_max_requests = 3, d_state = NEW, d_negotiated = [], d_active = [], d_seen = []\<rparr>"

definition ex_start :: session where
  "ex_start = \<lparr>s_dispatcher = ex_dispatcher, s_tasks = [], s_log = []\<rparr>"

definition ex_initialize :: request where
  "ex_initialize = \<lparr>rq_id = ''a'', rq_body = InitializeRequest ''1.0.0'' VNone
     [\<lparr>cr_name = ''org.ucf.adapter.inventory'', cr_minimum_version = ''1.0.0'', cr_required = True\<rparr>]\<rparr>"

definition ex_inventory :: request where
  "ex_inventory = \<lparr>rq_id = ''b'', rq_body = OperationRequest Inventory VNone\<rparr>"

definition ex_shutdown :: request where
  "ex_shutdown = \<lparr>rq_id = ''c'', rq_body = ShutdownRequest\<rparr>"

text \<open>A session that is initialized and runs an operation, and one whose shutdown came too early.\<close>

definition ex_ready :: "label list" where
  "ex_ready = [Send ex_initialize, Advance ''a'', Send ex_inventory, Advance ''b'']"

definition ex_early :: "label list" where
  "ex_early = ex_ready @ [Send ex_shutdown, Advance ''c'', Outcome ''b'' RaisesException, Advance ''b'']"

lemma ex_started: "started ex_start"
proof -
  have "new_dispatcher VNone [\<lparr>cs_name = ''org.ucf.adapter.inventory'', cs_version = ''1.2.0''\<rparr>] 1 3 = Inr ex_dispatcher"
    by (simp add: new_dispatcher_def ex_dispatcher_def max_pending_requests_def max_requests_per_session_def)
  then show ?thesis unfolding ex_start_def by (rule started.new)
qed

lemma ex_ready_run:
  "case session_run ex_ready ex_start of None \<Rightarrow> False
   | Some s \<Rightarrow> d_state (s_dispatcher s) = READY \<and> map_of (s_tasks s) ''b'' = Some (Running Inventory) \<and>
       length (s_tasks s) = 1 \<and> d_seen (s_dispatcher s) = [''a'', ''b''] \<and>
       list_all (\<lambda>m. \<not> shutdown_answer m) (s_log s)"
  by code_simp

lemma ex_early_run:
  "case session_run ex_early ex_start of None \<Rightarrow> False
   | Some s \<Rightarrow> d_state (s_dispatcher s) = READY \<and> s_tasks s = [] \<and> d_active (s_dispatcher s) = [] \<and>
       length (d_seen (s_dispatcher s)) = 3 \<and> d_max_requests (s_dispatcher s) = 3"
  by code_simp

section \<open>Properties\<close>

text \<open>
  C8: In every reachable session the limits hold: at most the configured number of operations is
  active, at most the configured number of requests is ever admitted, and both are within the
  bounds of the protocol. Operations are active only in the ready state, and a handler runs only
  for a capability that was negotiated in a version the adapter offers.
\<close>

theorem session_limits:
  assumes "started s0" and "session_step\<^sup>*\<^sup>* s0 s"
  shows "int (length (d_active (s_dispatcher s))) \<le> d_max_pending (s_dispatcher s) \<and>
    d_max_pending (s_dispatcher s) \<le> 64 \<and>
    int (card (set (d_seen (s_dispatcher s)))) \<le> d_max_requests (s_dispatcher s) \<and>
    d_max_requests (s_dispatcher s) \<le> 65536 \<and>
    (d_active (s_dispatcher s) \<noteq> [] \<longrightarrow> d_state (s_dispatcher s) = READY) \<and>
    (\<forall>i operation. map_of (s_tasks s) i = Some (Running operation) \<longrightarrow>
      (\<exists>v. map_of (d_negotiated (s_dispatcher s)) (method_capability operation) = Some v \<and>
           map_of (d_offered (s_dispatcher s)) (method_capability operation) = Some v))"
proof -
  have inv: "session_inv s" using adapter.inv_reachable [OF assms] .
  have limits: "limits_ok (s_dispatcher s)" and phase: "phase_ok (s_dispatcher s)" and tasks: "tasks_ok s"
    using inv by (simp_all add: session_inv_def)
  have "\<exists>v. map_of (d_negotiated (s_dispatcher s)) (method_capability operation) = Some v \<and>
      map_of (d_offered (s_dispatcher s)) (method_capability operation) = Some v"
    if "map_of (s_tasks s) i = Some (Running operation)" for i operation
    using running_capable [OF tasks that] phase by (auto simp: phase_ok_def)
  with limits phase show ?thesis
    by (auto simp: limits_ok_def phase_ok_def distinct_card max_pending_requests_def max_requests_per_session_def)
qed

text \<open>
  In every reachable session every response satisfies the validators of its model, and no
  request is answered twice: apart from the refusals of identifiers that were used before or that
  exceed the session limit, the responses name pairwise different identifiers, all of admitted
  requests that owe no further response.
\<close>

theorem answered_once:
  assumes "started s0" and "session_step\<^sup>*\<^sup>* s0 s"
  shows "(\<forall>m \<in> set (s_log s). server_message_ok m) \<and> distinct (answered s) \<and>
    set (answered s) \<subseteq> Some ` (set (d_seen (s_dispatcher s)) - dom (map_of (s_tasks s)))"
  using adapter.inv_reachable [OF assms] by (simp add: session_inv_def log_ok_def)

text \<open>
  The lifecycle of the documentation: new, ready and closed, with operations pending only in the
  ready state and none when the session closes.
\<close>

inductive lifecycle_step :: "int \<Rightarrow> session_state \<times> string set \<Rightarrow> session_state \<times> string set \<Rightarrow> bool"
  for limit where
  ready: "lifecycle_step limit (NEW, {}) (READY, {})"
| pend: "i \<notin> P \<Longrightarrow> int (card P) < limit \<Longrightarrow> lifecycle_step limit (READY, P) (READY, insert i P)"
| settle: "i \<in> P \<Longrightarrow> lifecycle_step limit (READY, P) (READY, P - {i})"
| closed: "lifecycle_step limit (READY, {}) (CLOSED, {})"

definition lifecycle :: "session \<Rightarrow> session_state \<times> string set" where
  "lifecycle s = (d_state (s_dispatcher s), dom (map_of (d_active (s_dispatcher s))))"

lemma finish_dom: "dom (map_of (d_active (Dispatcher.cancel d i))) = dom (map_of (d_active d))"
  by (auto simp: Dispatcher.cancel_def split: option.splits)

lemma lifecycle_release:
  assumes inv: "session_inv s" and i: "in_progress (map_of (s_tasks s) i)"
    and t: "s_dispatcher t = Dispatcher.release (s_dispatcher s) i"
  shows "lifecycle_step limit (lifecycle s) (lifecycle t)"
proof -
  have "i \<in> dom (map_of (d_active (s_dispatcher s)))"
    using active_iff [of s i] inv i by (auto simp: session_inv_def)
  moreover from this have "d_state (s_dispatcher s) = READY"
    using inv by (auto simp: session_inv_def phase_ok_def)
  ultimately show ?thesis
    by (auto simp: lifecycle_def t Dispatcher.release_def intro: lifecycle_step.settle [of i])
qed

text \<open>
  C7: The dispatcher implements this lifecycle: every step of a reachable session, in whatever
  order the blocks of concurrent requests run, is a step of the lifecycle or leaves it as it is.
\<close>

theorem session_refines_lifecycle:
  assumes "started s0" and "session_step\<^sup>*\<^sup>* s0 s" and "session_step s t"
  shows "lifecycle t = lifecycle s \<or> lifecycle_step (d_max_pending (s_dispatcher s)) (lifecycle s) (lifecycle t)"
proof -
  have inv: "session_inv s" using adapter.inv_reachable [OF assms(1,2)] .
  then have tasks: "tasks_ok s" and phase: "phase_ok (s_dispatcher s)" by (simp_all add: session_inv_def)
  from assms(3) show ?thesis
  proof (cases rule: session_step.cases)
    case (initialize i v c qs m d)
    then show ?thesis
      using initialize_shape [OF initialize(3)] phase lifecycle_step.ready
      by (auto simp: lifecycle_def phase_ok_def)
  next
    case (shutdown i m d)
    then show ?thesis
      using shutdown_shape [OF shutdown(3)] lifecycle_step.closed by (auto simp: lifecycle_def)
  next
    case (start i operation payload d)
    have d: "d_state (s_dispatcher s) = READY" "int (length (d_active (s_dispatcher s))) < d_max_pending (s_dispatcher s)"
      "d = s_dispatcher s\<lparr>d_active := AList.update i False (d_active (s_dispatcher s))\<rparr>"
      using start(3) by (auto simp: start_Inr)
    have "card (dom (map_of (d_active (s_dispatcher s)))) \<le> length (d_active (s_dispatcher s))"
      by (metis card_length dom_map_of_conv_image_fst length_map set_map)
    moreover have "i \<notin> dom (map_of (d_active (s_dispatcher s)))"
      using waiting_inactive [OF tasks start(2)] by auto
    ultimately show ?thesis
      using d by (auto simp: lifecycle_def start(1) intro!: lifecycle_step.pend)
  next
    case (release i m)
    then show ?thesis using lifecycle_release [OF inv, of i t] by simp
  next
    case (abandon i operation)
    then show ?thesis using lifecycle_release [OF inv, of i t] by simp
  next
    case (cancel i)
    then show ?thesis by (simp add: lifecycle_def finish_dom)
  qed (auto simp: lifecycle_def admit_Inr)
qed

text \<open>
  C9: A reachable ready session in which no shutdown was asked for yet can always be closed,
  whatever the number of requests it has admitted: for every identifier not used so far there is
  a run that lets the active operations end and then answers a shutdown request with success.
\<close>

theorem shutdown_available:
  assumes "started s0" and "session_step\<^sup>*\<^sup>* s0 s" and "d_state (s_dispatcher s) = READY"
    and "\<forall>j. map_of (s_tasks s) j \<noteq> Some (Admitted ShutdownRequest)"
    and "\<forall>m \<in> set (s_log s). \<not> shutdown_answer m" and "i \<notin> set (d_seen (s_dispatcher s))"
  shows "\<exists>t. session_step\<^sup>*\<^sup>* s t \<and> d_state (s_dispatcher t) = CLOSED \<and> Success i ShutdownResult \<in> set (s_log t)"
proof -
  have inv: "session_inv s" and slot: "slot_ok s" using slots.inv_reachable [OF assms(1,2)] by simp_all
  have free: "int (length (d_seen (s_dispatcher s))) < d_max_requests (s_dispatcher s)"
    using slot assms(4,5) by (auto simp: slot_ok_def)
  from drain [OF inv] obtain t where t: "session_step\<^sup>*\<^sup>* s t" "d_active (s_dispatcher t) = []"
    "d_state (s_dispatcher t) = READY" "d_seen (s_dispatcher t) = d_seen (s_dispatcher s)"
    "d_max_requests (s_dispatcher t) = d_max_requests (s_dispatcher s)"
    using assms(3) by auto
  let ?rq = "\<lparr>rq_id = i, rq_body = ShutdownRequest\<rparr>"
  let ?d = "s_dispatcher t\<lparr>d_seen := d_seen (s_dispatcher t) @ [i]\<rparr>"
  let ?u = "progress t i (Admitted ShutdownRequest) ?d"
  have "int (set_size (d_seen (s_dispatcher t))) \<le> int (length (d_seen (s_dispatcher t)))"
    using set_size_le [of "d_seen (s_dispatcher t)"] by simp
  then have "admit (s_dispatcher t) ?rq = Inr ?d"
    using free t assms(6) by (simp add: admit_Inr)
  then have admitted: "session_step t ?u" using session_step.admit [of t ?rq ?d] by simp
  have "shutdown ?d i = (Success i ShutdownResult, ?d\<lparr>d_state := CLOSED\<rparr>)"
    using t by (simp add: Dispatcher.shutdown_def)
  then have "session_step ?u (respond ?u i (Success i ShutdownResult) (?d\<lparr>d_state := CLOSED\<rparr>))"
    by (intro session_step.shutdown) simp_all
  with t(1) admitted have "session_step\<^sup>*\<^sup>* s (respond ?u i (Success i ShutdownResult) (?d\<lparr>d_state := CLOSED\<rparr>))"
    by (meson rtranclp.rtrancl_into_rtrancl)
  then show ?thesis by (intro exI conjI) (assumption, simp_all)
qed

definition exhausted :: "session \<Rightarrow> bool" where
  "exhausted s \<longleftrightarrow> d_state (s_dispatcher s) = READY \<and>
     d_max_requests (s_dispatcher s) \<le> int (set_size (d_seen (s_dispatcher s))) \<and>
     (\<forall>i b. map_of (s_tasks s) i \<noteq> Some (Admitted b))"

lemma exhausted_step: "session_step s t \<Longrightarrow> exhausted s \<Longrightarrow> exhausted t"
  by (cases rule: session_step.cases, assumption)
    (auto simp: exhausted_def admit_Inr release_def split: if_splits)

interpretation stuck: transition_system exhausted session_step exhausted
  by unfold_locales (simp_all add: exhausted_step)

text \<open>
  A ready session whose requests are all admitted, and none of which waits for its block, stays
  ready forever: no further request is admitted, so it cannot be shut down any more. The session
  of the witness gets there because the request that the last slot is reserved for was a shutdown
  that came while an operation was pending.
\<close>

theorem exhausted_session_stays_ready:
  assumes "d_state (s_dispatcher s) = READY"
    and "d_max_requests (s_dispatcher s) \<le> int (card (set (d_seen (s_dispatcher s))))"
    and "\<forall>i b. map_of (s_tasks s) i \<noteq> Some (Admitted b)" and "session_step\<^sup>*\<^sup>* s t"
  shows "d_state (s_dispatcher t) = READY \<and> (\<forall>rq. \<exists>m. admit (s_dispatcher t) rq = Inl m)"
proof -
  have "exhausted s" using assms(1-3) by (simp add: exhausted_def set_size_card)
  then have "exhausted t" by (rule stuck.inv_steps [OF assms(4)])
  then show ?thesis by (auto simp: exhausted_def admit_def)
qed

section \<open>Witnesses\<close>

lemma ex_ready_reached:
  obtains s where "session_step\<^sup>*\<^sup>* ex_start s" "d_state (s_dispatcher s) = READY"
    "s_tasks s = [(''b'', Running Inventory)]" "d_seen (s_dispatcher s) = [''a'', ''b'']"
    "\<forall>m \<in> set (s_log s). \<not> shutdown_answer m"
proof -
  from ex_ready_run obtain s where s: "session_run ex_ready ex_start = Some s" "d_state (s_dispatcher s) = READY"
    "map_of (s_tasks s) ''b'' = Some (Running Inventory)" "length (s_tasks s) = 1"
    "d_seen (s_dispatcher s) = [''a'', ''b'']" "list_all (\<lambda>m. \<not> shutdown_answer m) (s_log s)"
    by (auto split: option.splits)
  then have "s_tasks s = [(''b'', Running Inventory)]"
    by (cases "s_tasks s") (auto split: if_splits)
  then show thesis using that session_run_steps [OF s(1)] s by (auto simp: list_all_iff)
qed

theorem session_limits_witness:
  "\<exists>s. session_step\<^sup>*\<^sup>* ex_start s \<and>
     (\<exists>v. map_of (d_negotiated (s_dispatcher s)) ''org.ucf.adapter.inventory'' = Some v)"
proof -
  obtain s where s: "session_step\<^sup>*\<^sup>* ex_start s" "s_tasks s = [(''b'', Running Inventory)]"
    by (rule ex_ready_reached)
  have "map_of (s_tasks s) ''b'' = Some (Running Inventory)" using s(2) by simp
  then have "\<exists>v. map_of (d_negotiated (s_dispatcher s)) (method_capability Inventory) = Some v"
    using session_limits [OF ex_started s(1)] by blast
  with s(1) show ?thesis by auto
qed

theorem answered_once_witness: "\<exists>s. session_step\<^sup>*\<^sup>* ex_start s \<and> d_seen (s_dispatcher s) = [''a'', ''b''] \<and> distinct (answered s)"
proof -
  obtain s where s: "session_step\<^sup>*\<^sup>* ex_start s" "d_seen (s_dispatcher s) = [''a'', ''b'']"
    by (rule ex_ready_reached)
  then show ?thesis using answered_once [OF ex_started s(1)] by blast
qed

theorem session_refines_lifecycle_witness:
  "\<exists>s t. session_step\<^sup>*\<^sup>* ex_start s \<and> session_step s t \<and>
     (lifecycle t = lifecycle s \<or> lifecycle_step (d_max_pending (s_dispatcher s)) (lifecycle s) (lifecycle t))"
proof -
  obtain s where s: "session_step\<^sup>*\<^sup>* ex_start s" by (rule ex_ready_reached)
  have t: "session_step s (s\<lparr>s_dispatcher := Dispatcher.cancel (s_dispatcher s) ''b''\<rparr>)"
    by (rule session_step.cancel)
  show ?thesis using session_refines_lifecycle [OF ex_started s t] s t by blast
qed

theorem shutdown_available_witness:
  "\<exists>t. session_step\<^sup>*\<^sup>* ex_start t \<and> d_state (s_dispatcher t) = CLOSED \<and> Success ''c'' ShutdownResult \<in> set (s_log t)"
proof -
  obtain s where s: "session_step\<^sup>*\<^sup>* ex_start s" "d_state (s_dispatcher s) = READY"
    "s_tasks s = [(''b'', Running Inventory)]" "d_seen (s_dispatcher s) = [''a'', ''b'']"
    "\<forall>m \<in> set (s_log s). \<not> shutdown_answer m"
    by (rule ex_ready_reached)
  have "\<forall>j. map_of (s_tasks s) j \<noteq> Some (Admitted ShutdownRequest)" using s(3) by simp
  from shutdown_available [OF ex_started s(1,2) this s(5), of "''c''"] s(4) obtain t
    where "session_step\<^sup>*\<^sup>* s t" "d_state (s_dispatcher t) = CLOSED" "Success ''c'' ShutdownResult \<in> set (s_log t)"
    by auto
  with s(1) show ?thesis by (meson rtranclp_trans)
qed

theorem exhausted_session_stays_ready_witness:
  "\<exists>s. started ex_start \<and> session_step\<^sup>*\<^sup>* ex_start s \<and> d_active (s_dispatcher s) = [] \<and>
     (\<forall>t. session_step\<^sup>*\<^sup>* s t \<longrightarrow> d_state (s_dispatcher t) = READY)"
proof -
  from ex_early_run obtain s where s: "session_run ex_early ex_start = Some s" "d_state (s_dispatcher s) = READY"
    "s_tasks s = []" "d_active (s_dispatcher s) = []" "length (d_seen (s_dispatcher s)) = 3"
    "d_max_requests (s_dispatcher s) = 3"
    by (auto split: option.splits)
  have steps: "session_step\<^sup>*\<^sup>* ex_start s" by (rule session_run_steps [OF s(1)])
  have "limits_ok (s_dispatcher s)" using adapter.inv_reachable [OF ex_started steps] by (simp add: session_inv_def)
  then have full: "d_max_requests (s_dispatcher s) \<le> int (card (set (d_seen (s_dispatcher s))))"
    using s(5,6) by (simp add: limits_ok_def distinct_card)
  have "\<forall>i b. map_of (s_tasks s) i \<noteq> Some (Admitted b)" using s(3) by simp
  from exhausted_session_stays_ready [OF s(2) full this] steps ex_started s(4) show ?thesis by blast
qed

end
