(* ===== verification/IR_Model.thy ===== *)
theory IR_Model
  imports Py_String
begin

text \<open>
  The intermediate representation of behavior, \<^verbatim>\<open>src/ucf/ir/models.py\<close>: entities, references, values
  and documents, and their canonical JSON, \<^verbatim>\<open>src/ucf/ir/codec.py\<close>. The discriminating \<^verbatim>\<open>kind\<close> of a
  model is the constructor or the record type; string patterns (identifiers, versions, timestamps)
  are not modelled.
\<close>

section \<open>Kinds and references\<close>

datatype entity_kind =
    ActionKind | UseCaseKind | StepKind | BindingKind | EffectKind | ObservationKind | InvariantKind
  | ProvenanceKind | EvidenceKind | CapabilityKind

fun entity_kind_value :: "entity_kind \<Rightarrow> string" where
  "entity_kind_value ActionKind = ''action''"
| "entity_kind_value UseCaseKind = ''use_case''"
| "entity_kind_value StepKind = ''step''"
| "entity_kind_value BindingKind = ''binding''"
| "entity_kind_value EffectKind = ''effect''"
| "entity_kind_value ObservationKind = ''observation''"
| "entity_kind_value InvariantKind = ''invariant''"
| "entity_kind_value ProvenanceKind = ''provenance''"
| "entity_kind_value EvidenceKind = ''verification_evidence''"
| "entity_kind_value CapabilityKind = ''capability_requirement''"

datatype value_kind =
    NullKind | BooleanKind | StringKind | IntegerKind | DecimalKind | TimestampKind | ListKind | RecordKind

fun value_kind_value :: "value_kind \<Rightarrow> string" where
  "value_kind_value NullKind = ''null''"
| "value_kind_value BooleanKind = ''boolean''"
| "value_kind_value StringKind = ''string''"
| "value_kind_value IntegerKind = ''integer''"
| "value_kind_value DecimalKind = ''decimal''"
| "value_kind_value TimestampKind = ''timestamp''"
| "value_kind_value ListKind = ''list''"
| "value_kind_value RecordKind = ''record''"

record entity_ref =
  er_kind :: entity_kind
  er_id :: string

section \<open>Ports and values\<close>

datatype direction = Input | Output

fun direction_value :: "direction \<Rightarrow> string" where
  "direction_value Input = ''input''"
| "direction_value Output = ''output''"

record port =
  po_name :: string
  po_value_kind :: value_kind
  po_required :: bool

record port_ref =
  pr_owner :: entity_ref
  pr_direction :: direction
  pr_name :: string

datatype ir_value =
    NullValue
  | BooleanValue bool
  | StringValue string
  | IntegerValue int
  | DecimalValue string
  | TimestampValue string
  | ListValue "ir_value list"
  | RecordValue "(string \<times> ir_value) list"

fun kind_of_value :: "ir_value \<Rightarrow> value_kind" where
  "kind_of_value NullValue = NullKind"
| "kind_of_value (BooleanValue b) = BooleanKind"
| "kind_of_value (StringValue s) = StringKind"
| "kind_of_value (IntegerValue i) = IntegerKind"
| "kind_of_value (DecimalValue d) = DecimalKind"
| "kind_of_value (TimestampValue t) = TimestampKind"
| "kind_of_value (ListValue vs) = ListKind"
| "kind_of_value (RecordValue es) = RecordKind"

datatype binding_source = PortSource port_ref | ValueSource ir_value

record domain_target =
  dt_subject :: string
  dt_path :: "string list"

record declared_rule =
  dr_dialect :: string
  dr_statement :: string

record ir_producer =
  ip_name :: string
  ip_version :: string

record ir_check =
  ck_id :: string
  ck_version :: string
  ck_procedure_uri :: string

section \<open>Entities\<close>

record ir_action =
  ac_id :: string
  ac_input_ports :: "port list"
  ac_output_ports :: "port list"
  ac_effects :: "entity_ref list"
  ac_requires :: "entity_ref list"
  ac_provenance :: entity_ref

record ir_use_case =
  us_id :: string
  us_input_ports :: "port list"
  us_output_ports :: "port list"
  us_steps :: "entity_ref list"
  us_invariants :: "entity_ref list"
  us_requires :: "entity_ref list"
  us_provenance :: entity_ref

record ir_step =
  st_id :: string
  st_action :: entity_ref
  st_bindings :: "entity_ref list"
  st_effects :: "entity_ref list"
  st_observations :: "entity_ref list"
  st_requires :: "entity_ref list"
  st_provenance :: entity_ref

record ir_binding =
  bi_id :: string
  bi_target :: port_ref
  bi_source :: binding_source
  bi_provenance :: entity_ref

record ir_effect =
  ef_id :: string
  ef_operation :: string
  ef_target :: domain_target
  ef_value :: ir_value
  ef_requires :: "entity_ref list"
  ef_provenance :: entity_ref

record ir_observation =
  ob_id :: string
  ob_subject :: entity_ref
  ob_target :: domain_target
  ob_value :: ir_value
  ob_provenance :: entity_ref

record ir_invariant =
  iv_id :: string
  iv_applies_to :: "entity_ref list"
  iv_condition :: declared_rule
  iv_requires :: "entity_ref list"
  iv_provenance :: entity_ref

record ir_provenance =
  pv_id :: string
  pv_source_uri :: string
  pv_source_revision :: string
  pv_producer :: ir_producer
  pv_captured_at :: string

record ir_evidence =
  ev_id :: string
  ev_subjects :: "entity_ref list"
  ev_check :: ir_check
  ev_outcome :: string
  ev_executed_at :: string
  ev_source_revision :: string
  ev_environment :: string
  ev_provenance :: entity_ref

record ir_capability =
  ca_id :: string
  ca_name :: string
  ca_minimum_version :: string
  ca_required :: bool
  ca_provenance :: entity_ref

datatype entity =
    Action ir_action
  | UseCase ir_use_case
  | Step ir_step
  | Binding ir_binding
  | Effect ir_effect
  | Observation ir_observation
  | Invariant ir_invariant
  | Provenance ir_provenance
  | Evidence ir_evidence
  | Capability ir_capability

fun kind_of :: "entity \<Rightarrow> entity_kind" where
  "kind_of (Action a) = ActionKind"
| "kind_of (UseCase u) = UseCaseKind"
| "kind_of (Step s) = StepKind"
| "kind_of (Binding b) = BindingKind"
| "kind_of (Effect e) = EffectKind"
| "kind_of (Observation x) = ObservationKind"
| "kind_of (Invariant i) = InvariantKind"
| "kind_of (Provenance p) = ProvenanceKind"
| "kind_of (Evidence v) = EvidenceKind"
| "kind_of (Capability c) = CapabilityKind"

fun entity_id :: "entity \<Rightarrow> string" where
  "entity_id (Action a) = ac_id a"
| "entity_id (UseCase u) = us_id u"
| "entity_id (Step s) = st_id s"
| "entity_id (Binding b) = bi_id b"
| "entity_id (Effect e) = ef_id e"
| "entity_id (Observation x) = ob_id x"
| "entity_id (Invariant i) = iv_id i"
| "entity_id (Provenance p) = pv_id p"
| "entity_id (Evidence v) = ev_id v"
| "entity_id (Capability c) = ca_id c"

record behavior_ir =
  be_document_id :: string
  be_roots :: "entity_ref list"
  be_entities :: "entity list"

section \<open>JSON\<close>

datatype json =
    JNull
  | JBool bool
  | JInt int
  | JString string
  | JList "json list"
  | JObject "(string \<times> json) list"

text \<open>\<^verbatim>\<open>model_dump(mode="json")\<close> of the models, field by field.\<close>

definition dump_ref :: "entity_ref \<Rightarrow> json" where
  "dump_ref r = JObject [(''kind'', JString ''entity_ref''),
     (''target_kind'', JString (entity_kind_value (er_kind r))), (''target_id'', JString (er_id r))]"

definition dump_refs :: "entity_ref list \<Rightarrow> json" where
  "dump_refs rs = JList (map dump_ref rs)"

definition dump_port :: "port \<Rightarrow> json" where
  "dump_port p = JObject [(''kind'', JString ''port''), (''name'', JString (po_name p)),
     (''value_kind'', JString (value_kind_value (po_value_kind p))), (''required'', JBool (po_required p))]"

definition dump_port_ref :: "port_ref \<Rightarrow> json" where
  "dump_port_ref p = JObject [(''kind'', JString ''port_ref''), (''owner'', dump_ref (pr_owner p)),
     (''direction'', JString (direction_value (pr_direction p))), (''name'', JString (pr_name p))]"

fun dump_value :: "ir_value \<Rightarrow> json" where
  "dump_value NullValue = JObject [(''kind'', JString ''null'')]"
| "dump_value (BooleanValue b) = JObject [(''kind'', JString ''boolean''), (''value'', JBool b)]"
| "dump_value (StringValue s) = JObject [(''kind'', JString ''string''), (''value'', JString s)]"
| "dump_value (IntegerValue i) = JObject [(''kind'', JString ''integer''), (''value'', JInt i)]"
| "dump_value (DecimalValue d) = JObject [(''kind'', JString ''decimal''), (''value'', JString d)]"
| "dump_value (TimestampValue t) = JObject [(''kind'', JString ''timestamp''), (''value'', JString t)]"
| "dump_value (ListValue vs) = JObject [(''kind'', JString ''list''), (''items'', JList (map dump_value vs))]"
| "dump_value (RecordValue es) = JObject [(''kind'', JString ''record''),
     (''entries'', JList (map (\<lambda>e. JObject [(''kind'', JString ''record_entry''), (''name'', JString (fst e)),
       (''value'', dump_value (snd e))]) es))]"

definition dump_source :: "binding_source \<Rightarrow> json" where
  "dump_source s = (case s of PortSource p \<Rightarrow> dump_port_ref p | ValueSource v \<Rightarrow> dump_value v)"

definition dump_target :: "domain_target \<Rightarrow> json" where
  "dump_target t = JObject [(''kind'', JString ''domain_target''), (''subject'', JString (dt_subject t)),
     (''path'', JList (map JString (dt_path t)))]"

definition dump_rule :: "declared_rule \<Rightarrow> json" where
  "dump_rule r = JObject [(''kind'', JString ''declared_rule''), (''dialect'', JString (dr_dialect r)),
     (''statement'', JString (dr_statement r))]"

definition dump_digest :: "string \<Rightarrow> json" where
  "dump_digest d = JObject [(''kind'', JString ''digest''), (''algorithm'', JString ''sha-256''), (''value'', JString d)]"

definition dump_producer :: "ir_producer \<Rightarrow> json" where
  "dump_producer p = JObject [(''kind'', JString ''producer''), (''name'', JString (ip_name p)),
     (''version'', JString (ip_version p))]"

definition dump_check :: "ir_check \<Rightarrow> json" where
  "dump_check c = JObject [(''kind'', JString ''check''), (''id'', JString (ck_id c)),
     (''version'', JString (ck_version c)), (''procedure_uri'', JString (ck_procedure_uri c))]"

text \<open>The fields of an entity after its kind and its identifier.\<close>

definition dump_ports :: "port list \<Rightarrow> json" where
  "dump_ports ps = JList (map dump_port ps)"

fun dump_fields :: "entity \<Rightarrow> (string \<times> json) list" where
  "dump_fields (Action a) = [(''input_ports'', dump_ports (ac_input_ports a)),
     (''output_ports'', dump_ports (ac_output_ports a)), (''effects'', dump_refs (ac_effects a)),
     (''requires'', dump_refs (ac_requires a)), (''provenance'', dump_ref (ac_provenance a))]"
| "dump_fields (UseCase u) = [(''input_ports'', dump_ports (us_input_ports u)),
     (''output_ports'', dump_ports (us_output_ports u)), (''steps'', dump_refs (us_steps u)),
     (''invariants'', dump_refs (us_invariants u)), (''requires'', dump_refs (us_requires u)),
     (''provenance'', dump_ref (us_provenance u))]"
| "dump_fields (Step s) = [(''action'', dump_ref (st_action s)), (''bindings'', dump_refs (st_bindings s)),
     (''effects'', dump_refs (st_effects s)), (''observations'', dump_refs (st_observations s)),
     (''requires'', dump_refs (st_requires s)), (''provenance'', dump_ref (st_provenance s))]"
| "dump_fields (Binding b) = [(''target'', dump_port_ref (bi_target b)), (''source'', dump_source (bi_source b)),
     (''provenance'', dump_ref (bi_provenance b))]"
| "dump_fields (Effect e) = [(''operation'', JString (ef_operation e)), (''target'', dump_target (ef_target e)),
     (''value'', dump_value (ef_value e)), (''requires'', dump_refs (ef_requires e)),
     (''provenance'', dump_ref (ef_provenance e))]"
| "dump_fields (Observation x) = [(''subject'', dump_ref (ob_subject x)), (''target'', dump_target (ob_target x)),
     (''value'', dump_value (ob_value x)), (''provenance'', dump_ref (ob_provenance x))]"
| "dump_fields (Invariant i) = [(''applies_to'', dump_refs (iv_applies_to i)), (''condition'', dump_rule (iv_condition i)),
     (''requires'', dump_refs (iv_requires i)), (''provenance'', dump_ref (iv_provenance i))]"
| "dump_fields (Provenance p) = [(''source'', JObject [(''kind'', JString ''artifact_source''),
       (''uri'', JString (pv_source_uri p)), (''revision'', dump_digest (pv_source_revision p))]),
     (''producer'', dump_producer (pv_producer p)), (''captured_at'', JString (pv_captured_at p))]"
| "dump_fields (Evidence v) = [(''subjects'', dump_refs (ev_subjects v)), (''check'', dump_check (ev_check v)),
     (''outcome'', JString (ev_outcome v)), (''executed_at'', JString (ev_executed_at v)),
     (''source_revision'', dump_digest (ev_source_revision v)), (''environment'', dump_digest (ev_environment v)),
     (''provenance'', dump_ref (ev_provenance v))]"
| "dump_fields (Capability c) = [(''name'', JString (ca_name c)), (''minimum_version'', JString (ca_minimum_version c)),
     (''required'', JBool (ca_required c)), (''provenance'', dump_ref (ca_provenance c))]"

definition dump_entity :: "entity \<Rightarrow> json" where
  "dump_entity e = JObject ((''kind'', JString (entity_kind_value (kind_of e))) # (''id'', JString (entity_id e)) #
     dump_fields e)"

definition dump_behavior :: "behavior_ir \<Rightarrow> json" where
  "dump_behavior d = JObject [(''kind'', JString ''behavior_ir''), (''ir_version'', JString ''1.0.0''),
     (''document_id'', JString (be_document_id d)), (''roots'', dump_refs (be_roots d)),
     (''entities'', JList (map dump_entity (be_entities d)))]"

end
