(* ===== verification/IR_Validation.thy ===== *)
theory IR_Validation
  imports IR_Model
begin

text \<open>
  The semantic validation of behavior documents, \<^verbatim>\<open>src/ucf/ir/validation.py\<close>, with the error codes
  of \<^verbatim>\<open>errors.py\<close>: every failure has its code, message and location.
\<close>

section \<open>Errors\<close>

datatype ir_error_code =
    INVALID_JSON | DUPLICATE_JSON_MEMBER | MALFORMED_VERSION | UNSUPPORTED_VERSION | UNKNOWN_FIELD
  | INVALID_STRUCTURE | INVALID_VALUE | DUPLICATE_IDENTITY | DUPLICATE_PORT | DUPLICATE_REFERENCE
  | DUPLICATE_CAPABILITY | BROKEN_REFERENCE | WRONG_TARGET_KIND | UNKNOWN_PORT | INVALID_BINDING
  | MISSING_CAPABILITY_REQUIREMENT | UNSUPPORTED_CAPABILITY | DOCUMENT_IDENTITY_MISMATCH
  | MAPPING_BASIS_MISMATCH | MISSING_CLAIM_BASIS | CANDIDATE_IS_NOT_EVIDENCE | CLAIM_BASIS_MISMATCH
  | EVIDENCE_NOT_PASSED | STALE_EVIDENCE | CIRCULAR_CLAIM_BASIS | VERIFIED_UNAVAILABLE

datatype ir_error = IRValidationError ir_error_code string string | AssertionError string

definition fail :: "ir_error_code \<Rightarrow> string \<Rightarrow> string \<Rightarrow> (ir_error, 'a) res" where
  "fail code message location = Inl (IRValidationError code message location)"

definition at_position :: "string \<Rightarrow> nat \<Rightarrow> string" where
  "at_position location i = location @ ''['' @ show_nat i @ '']''"

text \<open>A loop over positions whose body may raise, and a sequence of checks.\<close>

definition each_position :: "(nat \<times> 'a \<Rightarrow> ('e, unit) res) \<Rightarrow> 'a list \<Rightarrow> ('e, unit) res" where
  "each_position f xs = res_all f (zip [0..<length xs] xs)"

definition in_order :: "('e, unit) res list \<Rightarrow> ('e, unit) res" where
  "in_order cs = res_all id cs"

lemma fail_simps [simp]: "fail c m l \<noteq> Inr x" "fail c m l = Inl e \<longleftrightarrow> e = IRValidationError c m l"
  by (auto simp: fail_def)

lemma if_fail_Inr: "(if c then fail code m l else r) = Inr x \<longleftrightarrow> \<not> c \<and> r = Inr x"
  by simp

lemma in_order_Inr [simp]: "in_order cs = Inr u \<longleftrightarrow> (\<forall>c \<in> set cs. c = Inr ())"
  by (simp add: in_order_def res_all_Inr)

lemma each_position_Inr: "each_position f xs = Inr u \<longleftrightarrow> (\<forall>i < length xs. f (i, xs ! i) = Inr ())"
  by (force simp: each_position_def res_all_Inr set_zip)

section \<open>The index\<close>

type_synonym entity_index = "(string, entity) dict"

fun build_index ::
  "nat \<Rightarrow> entity list \<Rightarrow> entity_index \<Rightarrow> (string, string) dict \<Rightarrow> (ir_error, entity_index) res" where
  "build_index i [] index names = Inr index"
| "build_index i (e # es) index names =
     (let location = at_position ''$.entities'' i in
      case map_of index (entity_id e) of
        Some previous \<Rightarrow>
          fail DUPLICATE_IDENTITY
            (''entity id '' @ repr_str (entity_id e) @ '' is used by both '' @
             repr_str (entity_kind_value (kind_of previous)) @ '' and '' @ repr_str (entity_kind_value (kind_of e)))
            (location @ ''.id'')
      | None \<Rightarrow>
          (case e of
             Capability c \<Rightarrow>
               (case map_of names (ca_name c) of
                  Some previous_id \<Rightarrow>
                    fail DUPLICATE_CAPABILITY
                      (''capability name '' @ repr_str (ca_name c) @ '' is declared by both '' @
                       repr_str previous_id @ '' and '' @ repr_str (ca_id c))
                      (location @ ''.name'')
                | None \<Rightarrow>
                    build_index (Suc i) es (AList.update (entity_id e) e index) (AList.update (ca_name c) (ca_id c) names))
           | _ \<Rightarrow> build_index (Suc i) es (AList.update (entity_id e) e index) names))"

section \<open>References\<close>

definition resolve_ir_ref ::
  "entity_ref \<Rightarrow> entity_index \<Rightarrow> string \<Rightarrow> entity_kind list option \<Rightarrow> (ir_error, entity) res" where
  "resolve_ir_ref ref index location expected =
     (case map_of index (er_id ref) of
        None \<Rightarrow> fail BROKEN_REFERENCE (''reference target '' @ repr_str (er_id ref) @ '' does not exist'') location
      | Some target \<Rightarrow>
          if kind_of target \<noteq> er_kind ref
          then fail WRONG_TARGET_KIND
            (''reference declares '' @ repr_str (entity_kind_value (er_kind ref)) @ '', but '' @
             repr_str (er_id ref) @ '' is '' @ repr_str (entity_kind_value (kind_of target)))
            (location @ ''.target_kind'')
          else
            (case expected of
               None \<Rightarrow> Inr target
             | Some ks \<Rightarrow>
                 if kind_of target \<notin> set ks
                 then fail WRONG_TARGET_KIND
                   (repr_str (er_id ref) @ '' has kind '' @ repr_str (entity_kind_value (kind_of target)) @
                    ''; expected one of: '' @ py_join '', '' (sorted_set (map entity_kind_value ks)))
                   (location @ ''.target_kind'')
                 else Inr target))"

definition check_ref :: "entity_ref \<Rightarrow> entity_index \<Rightarrow> string \<Rightarrow> entity_kind list option \<Rightarrow> (ir_error, unit) res" where
  "check_ref ref index location expected = res_bind (resolve_ir_ref ref index location expected) (\<lambda>_. Inr ())"

fun validate_refs_from ::
  "nat \<Rightarrow> entity_ref list \<Rightarrow> entity_ref list \<Rightarrow> entity_index \<Rightarrow> string \<Rightarrow> entity_kind list option \<Rightarrow> bool \<Rightarrow>
     (ir_error, unit) res" where
  "validate_refs_from i seen [] index location expected unique = Inr ()"
| "validate_refs_from i seen (ref # refs) index location expected unique =
     (if unique \<and> ref \<in> set seen
      then fail DUPLICATE_REFERENCE
        (''reference to '' @ repr_str (entity_kind_value (er_kind ref)) @ '' '' @ repr_str (er_id ref) @ '' is duplicated'')
        (at_position location i)
      else
        res_bind (check_ref ref index (at_position location i) expected) (\<lambda>_.
        validate_refs_from (Suc i) (ref # seen) refs index location expected unique))"

definition validate_ref_sequence ::
  "entity_ref list \<Rightarrow> entity_index \<Rightarrow> string \<Rightarrow> entity_kind list option \<Rightarrow> bool \<Rightarrow> (ir_error, unit) res" where
  "validate_ref_sequence refs index location expected unique =
     validate_refs_from 0 [] refs index location expected unique"

definition is_required_capability :: "entity option \<Rightarrow> bool" where
  "is_required_capability e = (case e of Some (Capability c) \<Rightarrow> ca_required c | _ \<Rightarrow> False)"

definition require_semantic_capability ::
  "entity_ref list \<Rightarrow> entity_index \<Rightarrow> string \<Rightarrow> (ir_error, unit) res" where
  "require_semantic_capability refs index location =
     (if list_ex (\<lambda>ref. is_required_capability (map_of index (er_id ref))) refs then Inr ()
      else fail MISSING_CAPABILITY_REQUIREMENT ''opaque semantics require at least one required capability'' location)"

section \<open>Ports and values\<close>

fun validate_ports_from :: "nat \<Rightarrow> string list \<Rightarrow> port list \<Rightarrow> string \<Rightarrow> (ir_error, unit) res" where
  "validate_ports_from i seen [] location = Inr ()"
| "validate_ports_from i seen (p # ps) location =
     (if po_name p \<in> set seen
      then fail DUPLICATE_PORT (''port name '' @ repr_str (po_name p) @ '' is duplicated'')
        (at_position location i @ ''.name'')
      else validate_ports_from (Suc i) (po_name p # seen) ps location)"

definition validate_ports :: "port list \<Rightarrow> string \<Rightarrow> (ir_error, unit) res" where
  "validate_ports ps location = validate_ports_from 0 [] ps location"

function (sequential) validate_value :: "ir_value \<Rightarrow> string \<Rightarrow> (ir_error, unit) res"
  and validate_items :: "nat \<Rightarrow> ir_value list \<Rightarrow> string \<Rightarrow> (ir_error, unit) res"
  and validate_entries :: "nat \<Rightarrow> string list \<Rightarrow> (string \<times> ir_value) list \<Rightarrow> string \<Rightarrow> (ir_error, unit) res" where
  "validate_value (ListValue vs) location = validate_items 0 vs location"
| "validate_value (RecordValue es) location = validate_entries 0 [] es location"
| "validate_value v location = Inr ()"
| "validate_items i [] location = Inr ()"
| "validate_items i (v # vs) location =
     res_bind (validate_value v (at_position (location @ ''.items'') i)) (\<lambda>_. validate_items (Suc i) vs location)"
| "validate_entries i seen [] location = Inr ()"
| "validate_entries i seen ((name, v) # es) location =
     (if name \<in> set seen
      then fail DUPLICATE_IDENTITY (''record entry name '' @ repr_str name @ '' is duplicated'')
        (at_position (location @ ''.entries'') i @ ''.name'')
      else
        res_bind (validate_value v (at_position (location @ ''.entries'') i @ ''.value'')) (\<lambda>_.
        validate_entries (Suc i) (name # seen) es location))"
  by pat_completeness auto
termination
  by (relation "measure (\<lambda>x. case x of Inl (v, _) \<Rightarrow> size v | Inr (Inl (_, vs, _)) \<Rightarrow> size_list size vs
      | Inr (Inr (_, _, es, _)) \<Rightarrow> size_list (\<lambda>(_, v). Suc (size v)) es)")
    (auto simp: size_prod_def)

fun as_action :: "entity \<Rightarrow> (ir_error, ir_action) res" where
  "as_action (Action a) = Inr a"
| "as_action e = Inl (AssertionError ''kind-discriminated entity index is inconsistent'')"

definition step_action :: "ir_step \<Rightarrow> entity_index \<Rightarrow> string \<Rightarrow> (ir_error, ir_action) res" where
  "step_action step index location =
     res_bind (resolve_ir_ref (st_action step) index location (Some [ActionKind])) as_action"

definition ports_of_direction :: "direction \<Rightarrow> port list \<Rightarrow> port list \<Rightarrow> port list" where
  "ports_of_direction d inputs outputs = (case d of Input \<Rightarrow> inputs | Output \<Rightarrow> outputs)"

definition owner_ports :: "port_ref \<Rightarrow> entity_index \<Rightarrow> string \<Rightarrow> (ir_error, port list) res" where
  "owner_ports ref index location =
     res_bind (resolve_ir_ref (pr_owner ref) index (location @ ''.owner'') (Some [UseCaseKind, StepKind])) (\<lambda>e.
     case e of
       Step s \<Rightarrow>
         res_bind (step_action s index (location @ ''.owner.action'')) (\<lambda>a.
         Inr (ports_of_direction (pr_direction ref) (ac_input_ports a) (ac_output_ports a)))
     | UseCase u \<Rightarrow> Inr (ports_of_direction (pr_direction ref) (us_input_ports u) (us_output_ports u))
     | _ \<Rightarrow> Inl (AssertionError ''validated port owner kind is inconsistent''))"

definition resolve_port :: "port_ref \<Rightarrow> entity_index \<Rightarrow> string \<Rightarrow> (ir_error, port) res" where
  "resolve_port ref index location =
     res_bind (owner_ports ref index location) (\<lambda>ports.
     case find (\<lambda>p. po_name p = pr_name ref) ports of
       None \<Rightarrow>
         fail UNKNOWN_PORT
           (direction_value (pr_direction ref) @ '' port '' @ repr_str (pr_name ref) @ '' does not exist on '' @
            repr_str (er_id (pr_owner ref))) (location @ ''.name'')
     | Some p \<Rightarrow> Inr p)"

definition source_direction_ok :: "entity \<Rightarrow> direction \<Rightarrow> bool" where
  "source_direction_ok owner d =
     (case owner of UseCase _ \<Rightarrow> d = Input | Step _ \<Rightarrow> d = Output | _ \<Rightarrow> False)"

definition source_kind :: "binding_source \<Rightarrow> port \<Rightarrow> entity_index \<Rightarrow> string \<Rightarrow> (ir_error, value_kind) res" where
  "source_kind source target index location =
     (case source of
        PortSource ref \<Rightarrow>
          res_bind (resolve_ir_ref (pr_owner ref) index (location @ ''.source.owner'') (Some [UseCaseKind, StepKind]))
            (\<lambda>owner.
          if \<not> source_direction_ok owner (pr_direction ref)
          then fail INVALID_BINDING ''binding source must be a use-case input or a step output''
            (location @ ''.source.direction'')
          else res_bind (resolve_port ref index (location @ ''.source'')) (\<lambda>p. Inr (po_value_kind p)))
      | ValueSource v \<Rightarrow>
          res_bind (validate_value v (location @ ''.source'')) (\<lambda>_.
          if kind_of_value v = NullKind \<and> po_required target
          then fail INVALID_BINDING ''null cannot bind to a required input port'' (location @ ''.source'')
          else Inr (kind_of_value v)))"

definition validate_binding :: "ir_binding \<Rightarrow> entity_index \<Rightarrow> string \<Rightarrow> (ir_error, unit) res" where
  "validate_binding b index location =
     res_bind (check_ref (pr_owner (bi_target b)) index (location @ ''.target.owner'') (Some [StepKind])) (\<lambda>_.
     if pr_direction (bi_target b) \<noteq> Input
     then fail INVALID_BINDING ''binding target must be an input port'' (location @ ''.target.direction'')
     else
       res_bind (resolve_port (bi_target b) index (location @ ''.target'')) (\<lambda>target.
       res_bind (source_kind (bi_source b) target index location) (\<lambda>kind.
       if kind \<noteq> NullKind \<and> kind \<noteq> po_value_kind target
       then fail INVALID_BINDING
         (''source value kind '' @ repr_str (value_kind_value kind) @ '' does not match target value kind '' @
          repr_str (value_kind_value (po_value_kind target))) (location @ ''.source'')
       else Inr ())))"

section \<open>Documents\<close>

definition capability_kinds :: "entity_kind list option" where
  "capability_kinds = Some [CapabilityKind]"

definition behavior_kinds :: "entity_kind list option" where
  "behavior_kinds = Some [ActionKind, StepKind, UseCaseKind]"

definition check_provenance :: "entity_ref \<Rightarrow> entity_index \<Rightarrow> string \<Rightarrow> (ir_error, unit) res" where
  "check_provenance ref index location = check_ref ref index (location @ ''.provenance'') (Some [ProvenanceKind])"

fun validate_entity :: "entity_index \<Rightarrow> nat \<times> entity \<Rightarrow> (ir_error, unit) res" where
  "validate_entity index (i, Action a) =
     (let location = at_position ''$.entities'' i in
      in_order
        [validate_ports (ac_input_ports a) (location @ ''.input_ports''),
         validate_ports (ac_output_ports a) (location @ ''.output_ports''),
         validate_ref_sequence (ac_effects a) index (location @ ''.effects'') (Some [EffectKind]) True,
         validate_ref_sequence (ac_requires a) index (location @ ''.requires'') capability_kinds True,
         check_provenance (ac_provenance a) index location])"
| "validate_entity index (i, UseCase u) =
     (let location = at_position ''$.entities'' i in
      in_order
        [validate_ports (us_input_ports u) (location @ ''.input_ports''),
         validate_ports (us_output_ports u) (location @ ''.output_ports''),
         validate_ref_sequence (us_steps u) index (location @ ''.steps'') (Some [StepKind]) False,
         validate_ref_sequence (us_invariants u) index (location @ ''.invariants'') (Some [InvariantKind]) True,
         validate_ref_sequence (us_requires u) index (location @ ''.requires'') capability_kinds True,
         check_provenance (us_provenance u) index location])"
| "validate_entity index (i, Step s) =
     (let location = at_position ''$.entities'' i in
      in_order
        [res_bind (step_action s index (location @ ''.action'')) (\<lambda>_. Inr ()),
         validate_ref_sequence (st_bindings s) index (location @ ''.bindings'') (Some [BindingKind]) True,
         validate_ref_sequence (st_effects s) index (location @ ''.effects'') (Some [EffectKind]) True,
         validate_ref_sequence (st_observations s) index (location @ ''.observations'') (Some [ObservationKind]) True,
         validate_ref_sequence (st_requires s) index (location @ ''.requires'') capability_kinds True,
         check_provenance (st_provenance s) index location])"
| "validate_entity index (i, Binding b) =
     (let location = at_position ''$.entities'' i in
      in_order [validate_binding b index location, check_provenance (bi_provenance b) index location])"
| "validate_entity index (i, Effect e) =
     (let location = at_position ''$.entities'' i in
      in_order
        [validate_value (ef_value e) (location @ ''.value''),
         validate_ref_sequence (ef_requires e) index (location @ ''.requires'') capability_kinds True,
         require_semantic_capability (ef_requires e) index (location @ ''.requires''),
         check_provenance (ef_provenance e) index location])"
| "validate_entity index (i, Observation x) =
     (let location = at_position ''$.entities'' i in
      in_order
        [check_ref (ob_subject x) index (location @ ''.subject'') behavior_kinds,
         validate_value (ob_value x) (location @ ''.value''),
         check_provenance (ob_provenance x) index location])"
| "validate_entity index (i, Invariant v) =
     (let location = at_position ''$.entities'' i in
      in_order
        [validate_ref_sequence (iv_applies_to v) index (location @ ''.applies_to'') behavior_kinds True,
         validate_ref_sequence (iv_requires v) index (location @ ''.requires'') capability_kinds True,
         require_semantic_capability (iv_requires v) index (location @ ''.requires''),
         check_provenance (iv_provenance v) index location])"
| "validate_entity index (i, Evidence v) =
     (let location = at_position ''$.entities'' i in
      in_order
        [validate_ref_sequence (ev_subjects v) index (location @ ''.subjects'') None True,
         check_provenance (ev_provenance v) index location])"
| "validate_entity index (i, Provenance p) = Inr ()"
| "validate_entity index (i, Capability c) =
     check_provenance (ca_provenance c) index (at_position ''$.entities'' i)"

definition validate_ir_semantics :: "behavior_ir \<Rightarrow> (ir_error, unit) res" where
  "validate_ir_semantics d =
     res_bind (build_index 0 (be_entities d) [] []) (\<lambda>index.
     res_bind (validate_ref_sequence (be_roots d) index ''$.roots'' (Some [UseCaseKind]) True) (\<lambda>_.
     each_position (validate_entity index) (be_entities d)))"

section \<open>Required capabilities\<close>

text \<open>
  A version is normalized when it is three numbers without leading zeros; \<open>available\<close> maps the names
  of capabilities to their versions.
\<close>

fun digits_value :: "nat \<Rightarrow> string \<Rightarrow> nat" where
  "digits_value n [] = n"
| "digits_value n (c # cs) = digits_value (10 * n + (code_of c - 48)) cs"

definition number_text :: "string \<Rightarrow> bool" where
  "number_text s \<longleftrightarrow> s \<noteq> [] \<and> list_all is_digit s \<and> (s = ''0'' \<or> hd s \<noteq> CHR ''0'')"

definition semantic_version :: "string \<Rightarrow> bool" where
  "semantic_version v \<longleftrightarrow> length (split_on (CHR ''.'') v) = 3 \<and> list_all number_text (split_on (CHR ''.'') v)"

definition version_tuple :: "string \<Rightarrow> string \<Rightarrow> (ir_error, nat list) res" where
  "version_tuple version location =
     (if \<not> semantic_version version
      then fail INVALID_VALUE
        (''capability version '' @ repr_str version @ '' is not normalized major.minor.patch'') location
      else Inr (map (digits_value 0) (split_on (CHR ''.'') version)))"

definition check_capability ::
  "(string, string) dict \<Rightarrow> nat \<times> entity \<Rightarrow> (ir_error, unit) res" where
  "check_capability available ie =
     (case snd ie of
        Capability c \<Rightarrow>
          if \<not> ca_required c then Inr ()
          else
            (let location = at_position ''$.entities'' (fst ie) @ ''.minimum_version'' in
             case map_of available (ca_name c) of
               None \<Rightarrow>
                 fail UNSUPPORTED_CAPABILITY (''required capability '' @ repr_str (ca_name c) @ '' is unavailable'') location
             | Some actual \<Rightarrow>
                 res_bind (version_tuple actual (''$.capabilities.'' @ ca_name c)) (\<lambda>actual_version.
                 res_bind (version_tuple (ca_minimum_version c) location) (\<lambda>minimum_version.
                 if actual_version < minimum_version
                 then fail UNSUPPORTED_CAPABILITY
                   (''capability '' @ repr_str (ca_name c) @ '' has version '' @ repr_str actual @
                    ''; requires at least '' @ repr_str (ca_minimum_version c)) location
                 else Inr ())))
      | _ \<Rightarrow> Inr ())"

definition validate_required_capabilities :: "behavior_ir \<Rightarrow> (string, string) dict \<Rightarrow> (ir_error, unit) res" where
  "validate_required_capabilities d available = each_position (check_capability available) (be_entities d)"

section \<open>What a valid document is\<close>

definition capability_names :: "entity list \<Rightarrow> string list" where
  "capability_names es = List.map_filter (\<lambda>e. case e of Capability c \<Rightarrow> Some (ca_name c) | _ \<Rightarrow> None) es"

definition index_of :: "entity list \<Rightarrow> entity_index" where
  "index_of es = map (\<lambda>e. (entity_id e, e)) es"

text \<open>A reference names an entity of the document, by identifier and kind.\<close>

definition refers_to :: "entity list \<Rightarrow> entity_kind set \<Rightarrow> entity_ref \<Rightarrow> bool" where
  "refers_to es K r \<longleftrightarrow> (\<exists>e \<in> set es. entity_id e = er_id r \<and> kind_of e = er_kind r \<and> kind_of e \<in> K)"

definition refs_to :: "entity list \<Rightarrow> entity_kind set \<Rightarrow> entity_ref list \<Rightarrow> bool" where
  "refs_to es K rs \<longleftrightarrow> distinct rs \<and> (\<forall>r \<in> set rs. refers_to es K r)"

definition requires_capability :: "entity list \<Rightarrow> entity_ref list \<Rightarrow> bool" where
  "requires_capability es rs \<longleftrightarrow> (\<exists>r \<in> set rs. \<exists>c. Capability c \<in> set es \<and> ca_id c = er_id r \<and> ca_required c)"

text \<open>The ports of the owner of a port reference: of a use case, or of the action of a step.\<close>

definition has_ports :: "entity list \<Rightarrow> port_ref \<Rightarrow> port list \<Rightarrow> bool" where
  "has_ports es r ps \<longleftrightarrow>
     (\<exists>u. UseCase u \<in> set es \<and> us_id u = er_id (pr_owner r) \<and> er_kind (pr_owner r) = UseCaseKind \<and>
        ps = ports_of_direction (pr_direction r) (us_input_ports u) (us_output_ports u)) \<or>
     (\<exists>s a. Step s \<in> set es \<and> st_id s = er_id (pr_owner r) \<and> er_kind (pr_owner r) = StepKind \<and>
        Action a \<in> set es \<and> ac_id a = er_id (st_action s) \<and> er_kind (st_action s) = ActionKind \<and>
        ps = ports_of_direction (pr_direction r) (ac_input_ports a) (ac_output_ports a))"

definition port_at :: "entity list \<Rightarrow> port_ref \<Rightarrow> port \<Rightarrow> bool" where
  "port_at es r p \<longleftrightarrow> (\<exists>ps. has_ports es r ps \<and> find (\<lambda>p. po_name p = pr_name r) ps = Some p)"

fun value_ok :: "ir_value \<Rightarrow> bool" where
  "value_ok (ListValue vs) \<longleftrightarrow> (\<forall>v \<in> set vs. value_ok v)"
| "value_ok (RecordValue es) \<longleftrightarrow> distinct (map fst es) \<and> (\<forall>e \<in> set es. value_ok (snd e))"
| "value_ok v \<longleftrightarrow> True"

definition source_ok :: "entity list \<Rightarrow> binding_source \<Rightarrow> port \<Rightarrow> bool" where
  "source_ok es source p \<longleftrightarrow>
     (case source of
        PortSource r \<Rightarrow>
          pr_direction r = (if er_kind (pr_owner r) = UseCaseKind then Input else Output) \<and>
          (\<exists>q. port_at es r q \<and> po_value_kind q \<in> {NullKind, po_value_kind p})
      | ValueSource v \<Rightarrow>
          value_ok v \<and> (if kind_of_value v = NullKind then \<not> po_required p else kind_of_value v = po_value_kind p))"

definition binding_ok :: "entity list \<Rightarrow> ir_binding \<Rightarrow> bool" where
  "binding_ok es b \<longleftrightarrow> er_kind (pr_owner (bi_target b)) = StepKind \<and> pr_direction (bi_target b) = Input \<and>
     (\<exists>p. port_at es (bi_target b) p \<and> source_ok es (bi_source b) p)"

fun entity_ok :: "entity list \<Rightarrow> entity \<Rightarrow> bool" where
  "entity_ok es (Action a) \<longleftrightarrow> distinct (map po_name (ac_input_ports a)) \<and> distinct (map po_name (ac_output_ports a)) \<and>
     refs_to es {EffectKind} (ac_effects a) \<and> refs_to es {CapabilityKind} (ac_requires a) \<and>
     refers_to es {ProvenanceKind} (ac_provenance a)"
| "entity_ok es (UseCase u) \<longleftrightarrow> distinct (map po_name (us_input_ports u)) \<and> distinct (map po_name (us_output_ports u)) \<and>
     (\<forall>r \<in> set (us_steps u). refers_to es {StepKind} r) \<and> refs_to es {InvariantKind} (us_invariants u) \<and>
     refs_to es {CapabilityKind} (us_requires u) \<and> refers_to es {ProvenanceKind} (us_provenance u)"
| "entity_ok es (Step s) \<longleftrightarrow> refers_to es {ActionKind} (st_action s) \<and> refs_to es {BindingKind} (st_bindings s) \<and>
     refs_to es {EffectKind} (st_effects s) \<and> refs_to es {ObservationKind} (st_observations s) \<and>
     refs_to es {CapabilityKind} (st_requires s) \<and> refers_to es {ProvenanceKind} (st_provenance s)"
| "entity_ok es (Binding b) \<longleftrightarrow> binding_ok es b \<and> refers_to es {ProvenanceKind} (bi_provenance b)"
| "entity_ok es (Effect e) \<longleftrightarrow> value_ok (ef_value e) \<and> refs_to es {CapabilityKind} (ef_requires e) \<and>
     requires_capability es (ef_requires e) \<and> refers_to es {ProvenanceKind} (ef_provenance e)"
| "entity_ok es (Observation x) \<longleftrightarrow> refers_to es {ActionKind, StepKind, UseCaseKind} (ob_subject x) \<and>
     value_ok (ob_value x) \<and> refers_to es {ProvenanceKind} (ob_provenance x)"
| "entity_ok es (Invariant v) \<longleftrightarrow> refs_to es {ActionKind, StepKind, UseCaseKind} (iv_applies_to v) \<and>
     refs_to es {CapabilityKind} (iv_requires v) \<and> requires_capability es (iv_requires v) \<and>
     refers_to es {ProvenanceKind} (iv_provenance v)"
| "entity_ok es (Evidence v) \<longleftrightarrow> refs_to es UNIV (ev_subjects v) \<and> refers_to es {ProvenanceKind} (ev_provenance v)"
| "entity_ok es (Provenance p) \<longleftrightarrow> True"
| "entity_ok es (Capability c) \<longleftrightarrow> refers_to es {ProvenanceKind} (ca_provenance c)"

definition ir_ok :: "behavior_ir \<Rightarrow> bool" where
  "ir_ok d \<longleftrightarrow> distinct (map entity_id (be_entities d)) \<and> distinct (capability_names (be_entities d)) \<and>
     refs_to (be_entities d) {UseCaseKind} (be_roots d) \<and> (\<forall>e \<in> set (be_entities d). entity_ok (be_entities d) e)"

section \<open>The validation accepts exactly the valid documents\<close>

lemma update_new: "k \<notin> set (dict_keys al) \<Longrightarrow> AList.update k v al = al @ [(k, v)]"
  by (induction al) auto

lemma capability_names_simps [simp]:
  "capability_names [] = []"
  "capability_names (e # es) =
     (case e of Capability c \<Rightarrow> ca_name c # capability_names es | _ \<Rightarrow> capability_names es)"
  by (simp_all add: capability_names_def List.map_filter_simps split: entity.splits)

lemma map_of_None_keys: "map_of d k = None \<longleftrightarrow> k \<notin> set (dict_keys d)"
  by (simp add: map_of_eq_None_iff)

lemma build_index_Inr:
  "build_index i es index names = Inr index' \<longleftrightarrow>
     distinct (map entity_id es) \<and> set (map entity_id es) \<inter> set (dict_keys index) = {} \<and>
     distinct (capability_names es) \<and> set (capability_names es) \<inter> set (dict_keys names) = {} \<and>
     index' = index @ index_of es"
proof (induction es arbitrary: i index names)
  case Nil
  then show ?case by (auto simp: index_of_def)
next
  case (Cons e es)
  show ?case
  proof (cases "map_of index (entity_id e)")
    case (Some p)
    then have "entity_id e \<in> set (dict_keys index)" by (metis map_of_None_keys option.distinct(1))
    then show ?thesis by (auto simp: Let_def Some)
  next
    case None
    then have new: "entity_id e \<notin> set (dict_keys index)" by (simp add: map_of_None_keys)
    show ?thesis
    proof (cases e)
      case (Capability c)
      show ?thesis
      proof (cases "map_of names (ca_name c)")
        case (Some n)
        then have "ca_name c \<in> set (dict_keys names)" by (metis map_of_None_keys option.distinct(1))
        then show ?thesis using None Capability by (auto simp: Let_def Some)
      next
        case no_name: None
        then have "ca_name c \<notin> set (dict_keys names)" by (simp add: map_of_None_keys)
        then show ?thesis
          using None new Capability no_name Cons.IH by (auto simp: Let_def update_new index_of_def)
      qed
    qed (use None new Cons.IH in \<open>auto simp: Let_def update_new index_of_def\<close>)
  qed
qed

lemma index_of_lookup:
  "distinct (map entity_id es) \<Longrightarrow> map_of (index_of es) i = Some e \<longleftrightarrow> e \<in> set es \<and> entity_id e = i"
  by (auto simp: index_of_def map_of_eq_Some_iff comp_def)

lemma resolve_ir_ref_Inr:
  assumes "distinct (map entity_id es)"
  shows "resolve_ir_ref r (index_of es) location expected = Inr e \<longleftrightarrow>
    e \<in> set es \<and> entity_id e = er_id r \<and> kind_of e = er_kind r \<and>
    (case expected of None \<Rightarrow> True | Some ks \<Rightarrow> kind_of e \<in> set ks)"
proof -
  have "resolve_ir_ref r (index_of es) location expected = Inr e \<longleftrightarrow>
      map_of (index_of es) (er_id r) = Some e \<and> kind_of e = er_kind r \<and>
      (case expected of None \<Rightarrow> True | Some ks \<Rightarrow> kind_of e \<in> set ks)"
    by (auto simp: resolve_ir_ref_def split: option.splits if_splits)
  then show ?thesis by (simp add: index_of_lookup [OF assms])
qed

definition kinds_of :: "entity_kind list option \<Rightarrow> entity_kind set" where
  "kinds_of expected = (case expected of None \<Rightarrow> UNIV | Some ks \<Rightarrow> set ks)"

lemma check_ref_Inr:
  assumes "distinct (map entity_id es)"
  shows "check_ref r (index_of es) location expected = Inr () \<longleftrightarrow> refers_to es (kinds_of expected) r"
  by (auto simp: check_ref_def res_bind_Inr resolve_ir_ref_Inr [OF assms] refers_to_def kinds_of_def
      split: option.splits)

lemma validate_refs_from_Inr:
  assumes "distinct (map entity_id es)"
  shows "validate_refs_from i seen rs (index_of es) location expected unique = Inr () \<longleftrightarrow>
    (unique \<longrightarrow> distinct rs \<and> set rs \<inter> set seen = {}) \<and> (\<forall>r \<in> set rs. refers_to es (kinds_of expected) r)"
proof (induction rs arbitrary: i seen)
  case Nil
  show ?case by simp
next
  case (Cons r rs)
  show ?case
    by (auto simp: res_bind_Inr check_ref_Inr [OF assms] Cons.IH)
qed

lemma validate_ref_sequence_Inr:
  assumes "distinct (map entity_id es)"
  shows "validate_ref_sequence rs (index_of es) location expected True = Inr () \<longleftrightarrow> refs_to es (kinds_of expected) rs"
    and "validate_ref_sequence rs (index_of es) location expected False = Inr () \<longleftrightarrow>
      (\<forall>r \<in> set rs. refers_to es (kinds_of expected) r)"
  by (auto simp: validate_ref_sequence_def validate_refs_from_Inr [OF assms] refs_to_def)

lemma require_semantic_capability_Inr:
  assumes "distinct (map entity_id es)"
  shows "require_semantic_capability rs (index_of es) location = Inr () \<longleftrightarrow> requires_capability es rs"
proof -
  have "is_required_capability (map_of (index_of es) i) \<longleftrightarrow> (\<exists>c. Capability c \<in> set es \<and> ca_id c = i \<and> ca_required c)" for i
  proof -
    have "is_required_capability x \<longleftrightarrow> (\<exists>c. x = Some (Capability c) \<and> ca_required c)" for x
      by (auto simp: is_required_capability_def split: option.splits entity.splits)
    then show ?thesis by (auto simp: index_of_lookup [OF assms])
  qed
  then show ?thesis by (auto simp: require_semantic_capability_def requires_capability_def list_ex_iff)
qed

lemma validate_ports_from_Inr:
  "validate_ports_from i seen ps location = Inr () \<longleftrightarrow> distinct (map po_name ps) \<and> po_name ` set ps \<inter> set seen = {}"
  by (induction ps arbitrary: i seen) auto

lemma validate_ports_Inr: "validate_ports ps location = Inr () \<longleftrightarrow> distinct (map po_name ps)"
  by (simp add: validate_ports_def validate_ports_from_Inr)

lemma validate_value_Inr:
  "validate_value v location = Inr () \<longleftrightarrow> value_ok v"
  "validate_items i vs location = Inr () \<longleftrightarrow> (\<forall>v \<in> set vs. value_ok v)"
  "validate_entries i seen es location = Inr () \<longleftrightarrow>
     distinct (map fst es) \<and> fst ` set es \<inter> set seen = {} \<and> (\<forall>e \<in> set es. value_ok (snd e))"
  by (induction v location and i vs location and i seen es location rule: validate_value_validate_items_validate_entries.induct)
    (auto simp: res_bind_Inr)

lemma as_action_Inr [simp]: "as_action e = Inr a \<longleftrightarrow> e = Action a"
  by (cases e) auto

lemma step_action_Inr:
  assumes "distinct (map entity_id es)"
  shows "step_action s (index_of es) location = Inr a \<longleftrightarrow>
    Action a \<in> set es \<and> ac_id a = er_id (st_action s) \<and> er_kind (st_action s) = ActionKind"
  by (auto simp: step_action_def res_bind_Inr resolve_ir_ref_Inr [OF assms])

lemma owner_ports_Inr:
  assumes "distinct (map entity_id es)"
  shows "owner_ports r (index_of es) location = Inr ps \<longleftrightarrow> has_ports es r ps"
proof
  assume "owner_ports r (index_of es) location = Inr ps"
  then obtain e where e: "resolve_ir_ref (pr_owner r) (index_of es) (location @ ''.owner'') (Some [UseCaseKind, StepKind]) = Inr e"
    and ps: "(case e of
       Step s \<Rightarrow> res_bind (step_action s (index_of es) (location @ ''.owner.action''))
         (\<lambda>a. Inr (ports_of_direction (pr_direction r) (ac_input_ports a) (ac_output_ports a)))
     | UseCase u \<Rightarrow> Inr (ports_of_direction (pr_direction r) (us_input_ports u) (us_output_ports u))
     | _ \<Rightarrow> Inl (AssertionError ''validated port owner kind is inconsistent'')) = Inr ps"
    by (auto simp: owner_ports_def res_bind_Inr)
  from e have "e \<in> set es" "entity_id e = er_id (pr_owner r)" "kind_of e = er_kind (pr_owner r)"
    by (simp_all add: resolve_ir_ref_Inr [OF assms])
  with ps show "has_ports es r ps"
    by (cases e) (force simp: has_ports_def res_bind_Inr step_action_Inr [OF assms])+
next
  assume "has_ports es r ps"
  then consider (use_case) u where "UseCase u \<in> set es" "us_id u = er_id (pr_owner r)" "er_kind (pr_owner r) = UseCaseKind"
      "ps = ports_of_direction (pr_direction r) (us_input_ports u) (us_output_ports u)"
    | (step) s a where "Step s \<in> set es" "st_id s = er_id (pr_owner r)" "er_kind (pr_owner r) = StepKind"
      "Action a \<in> set es" "ac_id a = er_id (st_action s)" "er_kind (st_action s) = ActionKind"
      "ps = ports_of_direction (pr_direction r) (ac_input_ports a) (ac_output_ports a)"
    by (auto simp: has_ports_def)
  then show "owner_ports r (index_of es) location = Inr ps"
  proof cases
    case use_case
    then have "resolve_ir_ref (pr_owner r) (index_of es) (location @ ''.owner'') (Some [UseCaseKind, StepKind]) = Inr (UseCase u)"
      by (simp add: resolve_ir_ref_Inr [OF assms])
    then show ?thesis using use_case by (simp add: owner_ports_def)
  next
    case step
    then have "resolve_ir_ref (pr_owner r) (index_of es) (location @ ''.owner'') (Some [UseCaseKind, StepKind]) = Inr (Step s)"
      by (simp add: resolve_ir_ref_Inr [OF assms])
    moreover have "step_action s (index_of es) (location @ ''.owner.action'') = Inr a"
      using step by (simp add: step_action_Inr [OF assms])
    ultimately show ?thesis using step by (simp add: owner_ports_def)
  qed
qed

lemma resolve_port_Inr:
  assumes "distinct (map entity_id es)"
  shows "resolve_port r (index_of es) location = Inr p \<longleftrightarrow> port_at es r p"
  by (auto simp: resolve_port_def port_at_def res_bind_Inr owner_ports_Inr [OF assms] split: option.splits)

lemma port_owner:
  assumes "port_at es r p"
  shows "\<exists>e \<in> set es. entity_id e = er_id (pr_owner r) \<and> kind_of e = er_kind (pr_owner r) \<and>
    er_kind (pr_owner r) \<in> {UseCaseKind, StepKind} \<and> source_direction_ok e (pr_direction r) =
      (pr_direction r = (if er_kind (pr_owner r) = UseCaseKind then Input else Output))"
proof -
  obtain ps where "has_ports es r ps" using assms by (auto simp: port_at_def)
  then consider (use_case) u where "UseCase u \<in> set es" "us_id u = er_id (pr_owner r)" "er_kind (pr_owner r) = UseCaseKind"
    | (step) s where "Step s \<in> set es" "st_id s = er_id (pr_owner r)" "er_kind (pr_owner r) = StepKind"
    unfolding has_ports_def by blast
  then show ?thesis
  proof cases
    case use_case
    then show ?thesis by (intro bexI [of _ "UseCase u"]) (simp_all add: source_direction_ok_def)
  next
    case step
    then show ?thesis by (intro bexI [of _ "Step s"]) (simp_all add: source_direction_ok_def)
  qed
qed

lemma source_kind_ok:
  assumes "distinct (map entity_id es)"
  shows "(\<exists>k. source_kind source p (index_of es) location = Inr k \<and> (k = NullKind \<or> k = po_value_kind p)) \<longleftrightarrow>
    source_ok es source p"
proof (cases source)
  case (ValueSource v)
  then show ?thesis
    by (cases "value_ok v") (auto simp: source_kind_def source_ok_def res_bind_Inr validate_value_Inr)
next
  case (PortSource r)
  note iff = resolve_ir_ref_Inr [OF assms] resolve_port_Inr [OF assms]
  show ?thesis
  proof
    assume "\<exists>k. source_kind source p (index_of es) location = Inr k \<and> (k = NullKind \<or> k = po_value_kind p)"
    then obtain e q where e: "e \<in> set es" "entity_id e = er_id (pr_owner r)" "kind_of e = er_kind (pr_owner r)"
        "source_direction_ok e (pr_direction r)" "kind_of e \<in> {UseCaseKind, StepKind}"
      and q: "port_at es r q" "po_value_kind q \<in> {NullKind, po_value_kind p}"
      using PortSource by (auto simp: source_kind_def res_bind_Inr iff split: if_splits)
    have "pr_direction r = (if er_kind (pr_owner r) = UseCaseKind then Input else Output)"
      using e(3-5) by (cases e) (auto simp: source_direction_ok_def)
    then show "source_ok es source p" using q PortSource by (auto simp: source_ok_def)
  next
    assume "source_ok es source p"
    then obtain q where q: "port_at es r q" "po_value_kind q \<in> {NullKind, po_value_kind p}"
      and dir: "pr_direction r = (if er_kind (pr_owner r) = UseCaseKind then Input else Output)"
      using PortSource by (auto simp: source_ok_def)
    obtain e where e: "e \<in> set es" "entity_id e = er_id (pr_owner r)" "kind_of e = er_kind (pr_owner r)"
        "er_kind (pr_owner r) \<in> {UseCaseKind, StepKind}" "source_direction_ok e (pr_direction r)"
      using port_owner [OF q(1)] dir by blast
    then have "resolve_ir_ref (pr_owner r) (index_of es) (location @ ''.source.owner'') (Some [UseCaseKind, StepKind]) = Inr e"
      by (simp add: iff)
    moreover have "resolve_port r (index_of es) (location @ ''.source'') = Inr q" using q by (simp add: iff)
    ultimately show "\<exists>k. source_kind source p (index_of es) location = Inr k \<and> (k = NullKind \<or> k = po_value_kind p)"
      using PortSource e(5) q(2) by (simp add: source_kind_def)
  qed
qed

lemma validate_binding_Inr:
  assumes "distinct (map entity_id es)"
  shows "validate_binding b (index_of es) location = Inr () \<longleftrightarrow> binding_ok es b"
proof -
  let ?ref = "check_ref (pr_owner (bi_target b)) (index_of es) (location @ ''.target.owner'') (Some [StepKind]) = Inr ()"
  have "validate_binding b (index_of es) location = Inr () \<longleftrightarrow>
      ?ref \<and> pr_direction (bi_target b) = Input \<and>
      (\<exists>p. port_at es (bi_target b) p \<and> (\<exists>k. source_kind (bi_source b) p (index_of es) location = Inr k \<and>
         (k = NullKind \<or> k = po_value_kind p)))"
    by (simp add: validate_binding_def res_bind_Inr resolve_port_Inr [OF assms] if_fail_Inr)
  also have "\<dots> \<longleftrightarrow> ?ref \<and> pr_direction (bi_target b) = Input \<and>
      (\<exists>p. port_at es (bi_target b) p \<and> source_ok es (bi_source b) p)"
    by (simp add: source_kind_ok [OF assms])
  also have "\<dots> \<longleftrightarrow> binding_ok es b"
    using port_owner [of es "bi_target b"]
    by (fastforce simp: binding_ok_def check_ref_Inr [OF assms] refers_to_def kinds_of_def)
  finally show ?thesis .
qed

lemma validate_entity_Inr:
  assumes "distinct (map entity_id es)"
  shows "validate_entity (index_of es) (i, e) = Inr () \<longleftrightarrow> entity_ok es e"
proof -
  have action: "(\<exists>a. step_action s (index_of es) l = Inr a) \<longleftrightarrow> refers_to es {ActionKind} (st_action s)" for s l
  proof -
    have "kind_of e = ActionKind \<longleftrightarrow> (\<exists>a. e = Action a)" for e by (cases e) auto
    then show ?thesis by (fastforce simp: step_action_Inr [OF assms] refers_to_def)
  qed
  show ?thesis
    by (cases e; simp add: Let_def validate_ports_Inr validate_ref_sequence_Inr [OF assms] check_provenance_def
      check_ref_Inr [OF assms] kinds_of_def capability_kinds_def behavior_kinds_def res_bind_Inr action
      validate_binding_Inr [OF assms] validate_value_Inr require_semantic_capability_Inr [OF assms]; blast)
qed

lemma validate_ir_semantics_Inr: "validate_ir_semantics d = Inr () \<longleftrightarrow> ir_ok d"
proof (cases "distinct (map entity_id (be_entities d))")
  case True
  then show ?thesis
    by (simp add: validate_ir_semantics_def ir_ok_def res_bind_Inr build_index_Inr each_position_Inr
        validate_ref_sequence_Inr [OF True] validate_entity_Inr [OF True] kinds_of_def all_set_conv_all_nth)
next
  case False
  then show ?thesis by (auto simp: validate_ir_semantics_def ir_ok_def res_bind_Inr build_index_Inr)
qed

section \<open>Properties\<close>

text \<open>
  C16: The validation of a behavior document succeeds exactly when the identifiers of the entities
  and the names of the capabilities are unique, every reference names an existing entity of a kind
  its field allows, sets of references have no duplicates, port names and record names are unique,
  every binding connects an existing step input with a source of its kind, and opaque semantics
  require a required capability.
\<close>

theorem ir_validation_exact: "validate_ir_semantics d = Inr () \<longleftrightarrow> ir_ok d"
  by (rule validate_ir_semantics_Inr)

end
