(* ===== verification/IR_Capabilities.thy ===== *)
theory IR_Capabilities
  imports IR_Validation Dispatcher
begin

text \<open>
  The two comparisons of versions in the sources agree: the numbers that the validation of required
  capabilities compares, and the lengths and texts that the adapter negotiation compares.
\<close>

lemma digits_value_segment: "digits_value n s = foldl (\<lambda>m c. 10 * m + digit_value c) n s"
  by (induction n s rule: digits_value.induct) (simp_all add: digit_value_def)

lemma semantic_version_normalized [simp]: "semantic_version v \<longleftrightarrow> normalized_version v"
  by (auto simp: semantic_version_def normalized_version_def number_text_def canonical_segment_def list_all_iff)

lemma version_tuple_Inr: "version_tuple v location = Inr t \<longleftrightarrow> normalized_version v \<and> t = version_numbers v"
  by (auto simp: version_tuple_def version_numbers_def segment_value_def digits_value_segment)

lemma version_at_least_numbers:
  "normalized_version v \<Longrightarrow> normalized_version w \<Longrightarrow> version_at_least v w \<longleftrightarrow> version_numbers w \<le> version_numbers v"
  using version_order_lists [of "split_on (CHR ''.'') w" "split_on (CHR ''.'') v"]
  by (simp add: version_at_least_def version_key_def version_numbers_def normalized_version_def)

definition capability_met :: "(string, string) dict \<Rightarrow> ir_capability \<Rightarrow> bool" where
  "capability_met available c \<longleftrightarrow>
     (\<exists>v. map_of available (ca_name c) = Some v \<and> normalized_version v \<and> normalized_version (ca_minimum_version c) \<and>
        version_at_least v (ca_minimum_version c))"

lemma check_capability_Inr:
  "check_capability available (i, e) = Inr () \<longleftrightarrow>
     (\<forall>c. e = Capability c \<and> ca_required c \<longrightarrow> capability_met available c)"
proof (cases e)
  case (Capability c)
  show ?thesis
  proof (cases "map_of available (ca_name c)")
    case None
    then show ?thesis using Capability by (simp add: check_capability_def capability_met_def Let_def)
  next
    case (Some v)
    then show ?thesis
      using Capability version_at_least_numbers [of v "ca_minimum_version c"]
      by (auto simp: check_capability_def capability_met_def Let_def res_bind_Inr if_fail_Inr version_tuple_Inr not_less)
  qed
qed (simp_all add: check_capability_def)

text \<open>
  The required capabilities of a document are validated successfully exactly when each of them
  is available in a version that the negotiation of an adapter session would accept for the minimum
  version of the document.
\<close>

theorem required_capabilities_exact:
  "validate_required_capabilities d available = Inr () \<longleftrightarrow>
     (\<forall>c. Capability c \<in> set (be_entities d) \<and> ca_required c \<longrightarrow>
        (\<exists>v. map_of available (ca_name c) = Some v \<and> normalized_version v \<and>
           normalized_version (ca_minimum_version c) \<and> version_at_least v (ca_minimum_version c)))"
proof -
  have "validate_required_capabilities d available = Inr () \<longleftrightarrow>
      (\<forall>e \<in> set (be_entities d). \<forall>c. e = Capability c \<and> ca_required c \<longrightarrow> capability_met available c)"
    by (simp add: validate_required_capabilities_def each_position_Inr check_capability_Inr all_set_conv_all_nth)
  then show ?thesis by (auto simp: capability_met_def)
qed

definition ex_capability :: ir_capability where
  "ex_capability = \<lparr>ca_id = ''cap'', ca_name = ''org.a'', ca_minimum_version = ''1.2.0'', ca_required = True,
     ca_provenance = \<lparr>er_kind = ProvenanceKind, er_id = ''prov''\<rparr>\<rparr>"

theorem required_capabilities_exact_witness:
  "validate_required_capabilities \<lparr>be_document_id = ''doc'', be_roots = [], be_entities = [Capability ex_capability]\<rparr>
     [(''org.a'', ''1.10.0'')] = Inr ()"
proof -
  have "normalized_version ''1.10.0'' \<and> normalized_version ''1.2.0'' \<and> version_at_least ''1.10.0'' ''1.2.0''"
    by code_simp
  then show ?thesis by (subst required_capabilities_exact) (simp add: ex_capability_def)
qed

end
