(* ===== verification/IR_Canonical.thy ===== *)
theory IR_Canonical
  imports IR_Model
begin

text \<open>
  The canonical JSON of a behavior document, \<^verbatim>\<open>src/ucf/ir/codec.py\<close>: sets of references, ports,
  record entries and entities in a fixed order, and the members of every object sorted. The
  canonical text is printed from it, so equality of texts is equality of these values.
\<close>

section \<open>Members\<close>

definition member :: "string \<Rightarrow> json \<Rightarrow> json option" where
  "member k j = (case j of JObject ms \<Rightarrow> map_of ms k | _ \<Rightarrow> None)"

definition text_of :: "json option \<Rightarrow> string" where
  "text_of j = (case j of Some (JString s) \<Rightarrow> s | _ \<Rightarrow> [])"

definition text_member :: "string \<Rightarrow> json \<Rightarrow> string" where
  "text_member k j = text_of (member k j)"

definition list_member :: "string \<Rightarrow> json \<Rightarrow> json list" where
  "list_member k j = (case member k j of Some (JList js) \<Rightarrow> js | _ \<Rightarrow> [])"

section \<open>Canonical order\<close>

definition reference_set_fields :: "string list" where
  "reference_set_fields = [''applies_to'', ''bindings'', ''effects'', ''invariants'', ''observations'',
     ''requires'', ''roots'', ''subjects'']"

definition port_set_fields :: "string list" where
  "port_set_fields = [''input_ports'', ''output_ports'']"

definition sort_items :: "string \<Rightarrow> string \<Rightarrow> json list \<Rightarrow> json list" where
  "sort_items owner_kind field items =
     (if field = ''entities'' then sort_key (\<lambda>item. (text_member ''kind'' item, text_member ''id'' item)) items
      else if field \<in> set port_set_fields then sort_key (text_member ''name'') items
      else if field = ''entries'' \<and> owner_kind = ''record'' then sort_key (text_member ''name'') items
      else if field \<in> set reference_set_fields
      then sort_key (\<lambda>item. (text_member ''target_kind'' item, text_member ''target_id'' item)) items
      else items)"

fun canonicalize :: "string \<Rightarrow> string \<Rightarrow> json \<Rightarrow> json" where
  "canonicalize owner_kind field (JObject ms) =
     JObject (map (\<lambda>m. (fst m, canonicalize (text_member ''kind'' (JObject ms)) (fst m) (snd m))) ms)"
| "canonicalize owner_kind field (JList js) =
     JList (sort_items owner_kind field (map (canonicalize owner_kind field) js))"
| "canonicalize owner_kind field j = j"

text \<open>\<^verbatim>\<open>json.dumps(sort_keys=True)\<close>, read again.\<close>

fun sort_members :: "json \<Rightarrow> json" where
  "sort_members (JObject ms) = JObject (sort_key fst (map (\<lambda>m. (fst m, sort_members (snd m))) ms))"
| "sort_members (JList js) = JList (map sort_members js)"
| "sort_members j = j"

definition canonical_ir :: "behavior_ir \<Rightarrow> json" where
  "canonical_ir d = sort_members (canonicalize [] [] (dump_behavior d))"

definition canonical_entity :: "entity \<Rightarrow> json" where
  "canonical_entity e = sort_members (canonicalize [] [] (dump_entity e))"

section \<open>Lemmas\<close>

lemma map_of_filter: "map_of ms k = (case filter (\<lambda>m. fst m = k) ms of [] \<Rightarrow> None | m # _ \<Rightarrow> Some (snd m))"
  by (induction ms) auto

lemma map_of_sort_key [simp]: "map_of (sort_key fst ms) k = map_of ms k"
  by (simp add: map_of_filter filter_sort [symmetric] sort_key_stable)

lemma map_of_map_snd: "map_of (map (\<lambda>m. (fst m, f (fst m) (snd m))) ms) k = map_option (f k) (map_of ms k)"
  by (induction ms) auto

lemma member_sort_members: "member k (sort_members j) = map_option sort_members (member k j)"
  using map_of_map_snd [of "\<lambda>_. sort_members"] by (cases j) (simp_all add: member_def)

lemma member_canonicalize:
  "member k (canonicalize ok f (JObject ms)) = map_option (canonicalize (text_member ''kind'' (JObject ms)) k) (map_of ms k)"
  by (simp add: member_def map_of_map_snd)

lemma text_of_map [simp]:
  "text_of (map_option sort_members x) = text_of x"
  "text_of (map_option (canonicalize ok f) x) = text_of x"
  by (cases x; cases "the x"; simp add: text_of_def)+

lemma text_member_sort_members [simp]: "text_member k (sort_members j) = text_member k j"
  by (simp add: text_member_def member_sort_members)

lemma text_member_canonicalize [simp]: "text_member k (canonicalize ok f j) = text_member k j"
proof (cases j)
  case (JObject ms)
  then show ?thesis
    by (simp add: text_member_def member_canonicalize del: canonicalize.simps(1)) (simp add: member_def)
qed (simp_all add: text_member_def member_def)

lemma canonicalize_object: "canonicalize ok f (JObject ms) = canonicalize [] [] (JObject ms)"
  by simp

lemma text_member_dump [simp]:
  "text_member ''kind'' (dump_entity e) = entity_kind_value (kind_of e)"
  "text_member ''id'' (dump_entity e) = entity_id e"
  "text_member ''target_kind'' (dump_ref r) = entity_kind_value (er_kind r)"
  "text_member ''target_id'' (dump_ref r) = er_id r"
  by (simp_all add: text_member_def member_def text_of_def dump_entity_def dump_ref_def)

lemma text_member_entity [simp]:
  "text_member ''kind'' (canonical_entity e) = entity_kind_value (kind_of e)"
  "text_member ''id'' (canonical_entity e) = entity_id e"
  by (simp_all add: canonical_entity_def)

lemma map_insort_key: "(\<And>x. g (f x) = k x) \<Longrightarrow> map f (insort_key k x xs) = insort_key g (f x) (map f xs)"
  by (induction xs) auto

lemma map_sort_key:
  assumes "\<And>x. g (f x) = k x"
  shows "map f (sort_key k xs) = sort_key g (map f xs)"
  by (induction xs) (simp_all add: map_insort_key [of g f k, OF assms])

lemma distinct_map_sort: "distinct (map f (sort_key g xs)) \<longleftrightarrow> distinct (map f xs)"
  by (simp add: distinct_map)

section \<open>Entities and roots of the canonical JSON\<close>

definition entity_key :: "entity \<Rightarrow> string \<times> string" where
  "entity_key e = (entity_kind_value (kind_of e), entity_id e)"

definition reference_key :: "entity_ref \<Rightarrow> string \<times> string" where
  "reference_key r = (entity_kind_value (er_kind r), er_id r)"

definition canonical_ref :: "entity_ref \<Rightarrow> json" where
  "canonical_ref r = sort_members (dump_ref r)"

lemma canonical_behavior:
  "canonical_ir d = JObject [(''document_id'', JString (be_document_id d)),
     (''entities'', JList (map canonical_entity (sort_key entity_key (be_entities d)))),
     (''ir_version'', JString ''1.0.0''), (''kind'', JString ''behavior_ir''),
     (''roots'', JList (map canonical_ref (sort_key reference_key (be_roots d))))]"
proof -
  have entity: "canonicalize ok f (dump_entity e) = canonicalize [] [] (dump_entity e)" for ok f e
    by (simp add: dump_entity_def)
  have ref: "canonicalize ok f (dump_ref r) = dump_ref r" for ok f r by (simp add: dump_ref_def)
  have entities: "map sort_members (sort_key (\<lambda>item. (text_member ''kind'' item, text_member ''id'' item))
      (map (\<lambda>e. canonicalize [] [] (dump_entity e)) es)) = map canonical_entity (sort_key entity_key es)" for es
    by (subst map_sort_key [symmetric, where k = entity_key])
      (simp_all add: entity_key_def canonical_entity_def [abs_def] comp_def)
  have roots: "map sort_members (sort_key (\<lambda>item. (text_member ''target_kind'' item, text_member ''target_id'' item))
      (map dump_ref rs)) = map canonical_ref (sort_key reference_key rs)" for rs
    by (subst map_sort_key [symmetric, where k = reference_key])
      (simp_all add: reference_key_def canonical_ref_def [abs_def] comp_def)
  have fields: "canonicalize [] [] (dump_behavior d) = JObject [(''kind'', JString ''behavior_ir''),
      (''ir_version'', JString ''1.0.0''), (''document_id'', JString (be_document_id d)),
      (''roots'', JList (sort_key (\<lambda>item. (text_member ''target_kind'' item, text_member ''target_id'' item))
         (map dump_ref (be_roots d)))),
      (''entities'', JList (sort_key (\<lambda>item. (text_member ''kind'' item, text_member ''id'' item))
         (map (\<lambda>e. canonicalize [] [] (dump_entity e)) (be_entities d))))]"
  proof -
    have kind: "text_member ''kind'' (JObject ((''kind'', JString k) # ms)) = k" for k ms
      by (simp add: text_member_def member_def text_of_def)
    show ?thesis
      by (simp add: dump_behavior_def dump_refs_def comp_def ref kind sort_items_def port_set_fields_def
        reference_set_fields_def entity [of "''behavior_ir''" "''entities''"])
  qed
  show ?thesis
    by (simp add: canonical_ir_def fields entities roots)
qed

end
