(* ===== verification/Behavior_Delta.thy ===== *)
theory Behavior_Delta
  imports IR_Canonical IR_Validation
begin

text \<open>
  Differences of behavior documents, the part of \<^verbatim>\<open>src/ucf/change_lifecycle\<close> that derives and
  validates behavior deltas: \<^verbatim>\<open>validation.py\<close>, \<^verbatim>\<open>behavior.py\<close> and the models of a delta. SHA-256 of
  canonical JSON is a field of the parameter \<open>D\<close>. Of the OpenSpec manifest of a proposal only the
  artifacts are modelled, and a document handed over is an instance of its model, so the tests of run-time types always pass.
\<close>

section \<open>Errors\<close>

datatype lifecycle_code =
    LcBrokenReference | LcContentIdentityMismatch | LcCyclicDependency | LcDestinationConflict
  | LcDocumentIdentityMismatch | LcDuplicateIdentity | LcDuplicateJsonMember | LcEvidenceContextInvalid
  | LcEvidenceNotPassed | LcIncompleteCoverage | LcIncompleteDelta | LcIncompleteTasks | LcInvalidJson
  | LcInvalidStructure | LcInvalidTransition | LcNonCanonicalOrder | LcPublishFailed | LcSourceChanged
  | LcUnsafeFilesystem | LcUnsupportedEvidenceProfile | LcUnsupportedOpenspecProfile | LcWrongTargetKind

text \<open>A validation error, a failed assertion, or a constructor whose model refuses its fields.\<close>

datatype lifecycle_error =
  LifecycleError lifecycle_code string string | LifecycleAssertion string | LifecycleModelError string

section \<open>References\<close>

type_synonym subject_id = "string \<times> string"

record behavior_ref =
  br_document_id :: string
  br_digest :: string

record behavior_entity_ref =
  bl_document :: behavior_ref
  bl_subject :: subject_id

record change_ref =
  cf_change_id :: string
  cf_digest :: string

datatype artifact_role =
  ProjectConfig | ChangeMetadata | ProposalArtifact | DesignArtifact | TasksArtifact | DeltaSpec | BaseSpec | OpaqueArtifact

text \<open>An artifact of the OpenSpec manifest, with the text that its base64 content stands for.\<close>

record openspec_artifact =
  oa_path :: string
  oa_role :: artifact_role
  oa_text :: string
  oa_digest :: string

record change_proposal =
  cp_change_id :: string
  cp_base_behavior :: behavior_ref
  cp_openspec :: "openspec_artifact list"

datatype change_aspect = Definition | RootMembership

datatype delta_entry =
    AddedBehavior behavior_entity_ref bool
  | ModifiedBehavior behavior_entity_ref behavior_entity_ref "change_aspect list" bool bool
  | RemovedBehavior behavior_entity_ref bool

record behavior_delta =
  de_change_id :: string
  de_proposal :: change_ref
  de_base_behavior :: behavior_ref
  de_final_behavior :: behavior_ref
  de_entries :: "delta_entry list"

record change_digests =
  dg_behavior :: "json \<Rightarrow> string"
  dg_proposal :: "change_proposal \<Rightarrow> string"
  dg_delta :: "behavior_delta \<Rightarrow> string"

definition behavior_document_ref :: "change_digests \<Rightarrow> behavior_ir \<Rightarrow> behavior_ref" where
  "behavior_document_ref D d = \<lparr>br_document_id = be_document_id d, br_digest = dg_behavior D (canonical_ir d)\<rparr>"

definition change_proposal_ref :: "change_digests \<Rightarrow> change_proposal \<Rightarrow> change_ref" where
  "change_proposal_ref D p = \<lparr>cf_change_id = cp_change_id p, cf_digest = dg_proposal D p\<rparr>"

definition behavior_delta_ref :: "change_digests \<Rightarrow> behavior_delta \<Rightarrow> change_ref" where
  "behavior_delta_ref D de = \<lparr>cf_change_id = de_change_id de, cf_digest = dg_delta D de\<rparr>"

section \<open>Entities and roots of a canonical document\<close>

definition canonical_entities :: "behavior_ir \<Rightarrow> (subject_id, json) dict" where
  "canonical_entities d =
     dict_of (map (\<lambda>e. ((text_member ''kind'' e, text_member ''id'' e), e)) (list_member ''entities'' (canonical_ir d)))"

definition canonical_roots :: "behavior_ir \<Rightarrow> subject_id list" where
  "canonical_roots d =
     map (\<lambda>r. (text_member ''target_kind'' r, text_member ''target_id'' r)) (list_member ''roots'' (canonical_ir d))"

section \<open>Entries (validation.py, _derive_entries)\<close>

definition keys_minus :: "(subject_id, json) dict \<Rightarrow> (subject_id, json) dict \<Rightarrow> subject_id list" where
  "keys_minus d e = sorted_set (filter (\<lambda>k. k \<notin> set (dict_keys e)) (dict_keys d))"

definition keys_common :: "(subject_id, json) dict \<Rightarrow> (subject_id, json) dict \<Rightarrow> subject_id list" where
  "keys_common d e = sorted_set (filter (\<lambda>k. k \<in> set (dict_keys e)) (dict_keys d))"

fun entry_kind_text :: "delta_entry \<Rightarrow> string" where
  "entry_kind_text (AddedBehavior f r) = ''added_behavior''"
| "entry_kind_text (ModifiedBehavior b f as br fr) = ''modified_behavior''"
| "entry_kind_text (RemovedBehavior b r) = ''removed_behavior''"

fun entry_subject :: "delta_entry \<Rightarrow> subject_id" where
  "entry_subject (AddedBehavior f r) = bl_subject f"
| "entry_subject (ModifiedBehavior b f as br fr) = bl_subject b"
| "entry_subject (RemovedBehavior b r) = bl_subject b"

definition entry_sort_key :: "delta_entry \<Rightarrow> string \<times> string \<times> string" where
  "entry_sort_key e = (entry_kind_text e, entry_subject e)"

definition located :: "behavior_ref \<Rightarrow> subject_id \<Rightarrow> behavior_entity_ref" where
  "located d k = \<lparr>bl_document = d, bl_subject = k\<rparr>"

definition modified_entry ::
  "behavior_ref \<Rightarrow> behavior_ref \<Rightarrow> (subject_id, json) dict \<Rightarrow> (subject_id, json) dict \<Rightarrow>
     subject_id list \<Rightarrow> subject_id list \<Rightarrow> subject_id \<Rightarrow> delta_entry option" where
  "modified_entry base_ref final_ref base_entities final_entities base_roots final_roots k =
     (let definition_changed = map_of base_entities k \<noteq> map_of final_entities k;
          root_changed = (k \<in> set base_roots) \<noteq> (k \<in> set final_roots)
      in if \<not> definition_changed \<and> \<not> root_changed then None
         else Some (ModifiedBehavior (located base_ref k) (located final_ref k)
           (map fst (filter snd [(Definition, definition_changed), (RootMembership, root_changed)]))
           (k \<in> set base_roots) (k \<in> set final_roots)))"

definition derive_entries :: "change_digests \<Rightarrow> behavior_ir \<Rightarrow> behavior_ir \<Rightarrow> delta_entry list" where
  "derive_entries D base final =
     (let be = canonical_entities base; fe = canonical_entities final;
          br = canonical_roots base; fr = canonical_roots final;
          base_ref = behavior_document_ref D base; final_ref = behavior_document_ref D final
      in sort_key entry_sort_key
        (map (\<lambda>k. AddedBehavior (located final_ref k) (k \<in> set fr)) (keys_minus fe be) @
         List.map_filter (modified_entry base_ref final_ref be fe br fr) (keys_common be fe) @
         map (\<lambda>k. RemovedBehavior (located base_ref k) (k \<in> set br)) (keys_minus be fe)))"

section \<open>Validation of the documents (behavior.py)\<close>

text \<open>The document that parsing the canonical JSON gives.\<close>

fun canonical_value :: "ir_value \<Rightarrow> ir_value" where
  "canonical_value (ListValue vs) = ListValue (map canonical_value vs)"
| "canonical_value (RecordValue es) = RecordValue (sort_key fst (map (\<lambda>e. (fst e, canonical_value (snd e))) es))"
| "canonical_value v = v"

definition canonical_ports :: "port list \<Rightarrow> port list" where
  "canonical_ports ps = sort_key po_name ps"

definition canonical_refs :: "entity_ref list \<Rightarrow> entity_ref list" where
  "canonical_refs rs = sort_key reference_key rs"

definition canonical_source :: "binding_source \<Rightarrow> binding_source" where
  "canonical_source s = (case s of PortSource r \<Rightarrow> PortSource r | ValueSource v \<Rightarrow> ValueSource (canonical_value v))"

fun canonical_form :: "entity \<Rightarrow> entity" where
  "canonical_form (Action a) = Action (a\<lparr>ac_input_ports := canonical_ports (ac_input_ports a),
     ac_output_ports := canonical_ports (ac_output_ports a), ac_effects := canonical_refs (ac_effects a),
     ac_requires := canonical_refs (ac_requires a)\<rparr>)"
| "canonical_form (UseCase u) = UseCase (u\<lparr>us_input_ports := canonical_ports (us_input_ports u),
     us_output_ports := canonical_ports (us_output_ports u), us_invariants := canonical_refs (us_invariants u),
     us_requires := canonical_refs (us_requires u)\<rparr>)"
| "canonical_form (Step s) = Step (s\<lparr>st_bindings := canonical_refs (st_bindings s),
     st_effects := canonical_refs (st_effects s), st_observations := canonical_refs (st_observations s),
     st_requires := canonical_refs (st_requires s)\<rparr>)"
| "canonical_form (Binding b) = Binding (b\<lparr>bi_source := canonical_source (bi_source b)\<rparr>)"
| "canonical_form (Effect e) = Effect (e\<lparr>ef_value := canonical_value (ef_value e),
     ef_requires := canonical_refs (ef_requires e)\<rparr>)"
| "canonical_form (Observation x) = Observation (x\<lparr>ob_value := canonical_value (ob_value x)\<rparr>)"
| "canonical_form (Invariant i) = Invariant (i\<lparr>iv_applies_to := canonical_refs (iv_applies_to i),
     iv_requires := canonical_refs (iv_requires i)\<rparr>)"
| "canonical_form (Evidence v) = Evidence (v\<lparr>ev_subjects := canonical_refs (ev_subjects v)\<rparr>)"
| "canonical_form (Provenance p) = Provenance p"
| "canonical_form (Capability c) = Capability c"

definition canonical_document :: "behavior_ir \<Rightarrow> behavior_ir" where
  "canonical_document d = \<lparr>be_document_id = be_document_id d, be_roots = canonical_refs (be_roots d),
     be_entities = sort_key entity_key (map canonical_form (be_entities d))\<rparr>"

definition ir_error_codes :: "(ir_error_code \<times> lifecycle_code) list" where
  "ir_error_codes =
     [(BROKEN_REFERENCE, LcBrokenReference), (DOCUMENT_IDENTITY_MISMATCH, LcDocumentIdentityMismatch),
      (DUPLICATE_CAPABILITY, LcDuplicateIdentity), (DUPLICATE_IDENTITY, LcDuplicateIdentity),
      (DUPLICATE_REFERENCE, LcDuplicateIdentity), (WRONG_TARGET_KIND, LcWrongTargetKind)]"

fun ir_error_code_value :: "ir_error_code \<Rightarrow> string" where
  "ir_error_code_value BROKEN_REFERENCE = ''broken_reference''"
| "ir_error_code_value DUPLICATE_CAPABILITY = ''duplicate_capability''"
| "ir_error_code_value DUPLICATE_IDENTITY = ''duplicate_identity''"
| "ir_error_code_value DUPLICATE_PORT = ''duplicate_port''"
| "ir_error_code_value DUPLICATE_REFERENCE = ''duplicate_reference''"
| "ir_error_code_value WRONG_TARGET_KIND = ''wrong_target_kind''"
| "ir_error_code_value UNKNOWN_PORT = ''unknown_port''"
| "ir_error_code_value INVALID_BINDING = ''invalid_binding''"
| "ir_error_code_value MISSING_CAPABILITY_REQUIREMENT = ''missing_capability_requirement''"
| "ir_error_code_value INVALID_JSON = ''invalid_json''"
| "ir_error_code_value DUPLICATE_JSON_MEMBER = ''duplicate_json_member''"
| "ir_error_code_value MALFORMED_VERSION = ''malformed_version''"
| "ir_error_code_value UNSUPPORTED_VERSION = ''unsupported_version''"
| "ir_error_code_value UNKNOWN_FIELD = ''unknown_field''"
| "ir_error_code_value INVALID_STRUCTURE = ''invalid_structure''"
| "ir_error_code_value INVALID_VALUE = ''invalid_value''"
| "ir_error_code_value UNSUPPORTED_CAPABILITY = ''unsupported_capability''"
| "ir_error_code_value DOCUMENT_IDENTITY_MISMATCH = ''document_identity_mismatch''"
| "ir_error_code_value MAPPING_BASIS_MISMATCH = ''mapping_basis_mismatch''"
| "ir_error_code_value MISSING_CLAIM_BASIS = ''missing_claim_basis''"
| "ir_error_code_value CANDIDATE_IS_NOT_EVIDENCE = ''candidate_is_not_evidence''"
| "ir_error_code_value CLAIM_BASIS_MISMATCH = ''claim_basis_mismatch''"
| "ir_error_code_value EVIDENCE_NOT_PASSED = ''evidence_not_passed''"
| "ir_error_code_value STALE_EVIDENCE = ''stale_evidence''"
| "ir_error_code_value CIRCULAR_CLAIM_BASIS = ''circular_claim_basis''"
| "ir_error_code_value VERIFIED_UNAVAILABLE = ''verified_unavailable''"

fun lifecycle_error_of :: "string \<Rightarrow> ir_error \<Rightarrow> lifecycle_error" where
  "lifecycle_error_of location (IRValidationError code message l) =
     LifecycleError (case map_of ir_error_codes code of Some c \<Rightarrow> c | None \<Rightarrow> LcInvalidStructure)
       (''invalid Behavior IR ('' @ ir_error_code_value code @ ''): '' @ message)
       (if prefix ''$'' l then location @ tl l else location)"
| "lifecycle_error_of location (AssertionError m) = LifecycleAssertion m"

definition validate_behavior_document :: "behavior_ir \<Rightarrow> string \<Rightarrow> (lifecycle_error, unit) res" where
  "validate_behavior_document d location =
     (case validate_ir_semantics (canonical_document d) of
        Inl e \<Rightarrow> Inl (lifecycle_error_of location e) | Inr _ \<Rightarrow> Inr ())"

section \<open>The model of a delta (models.py)\<close>

fun modified_entry_ok :: "delta_entry \<Rightarrow> bool" where
  "modified_entry_ok (ModifiedBehavior b f aspects br fr) \<longleftrightarrow>
     bl_subject b = bl_subject f \<and> aspects = filter (\<lambda>a. a \<in> set aspects) [Definition, RootMembership] \<and>
     (Definition \<in> set aspects \<or> RootMembership \<in> set aspects) \<and> (RootMembership \<in> set aspects) = (br \<noteq> fr)"
| "modified_entry_ok e \<longleftrightarrow> True"

fun entry_binds :: "behavior_ref \<Rightarrow> behavior_ref \<Rightarrow> delta_entry \<Rightarrow> bool" where
  "entry_binds base final (AddedBehavior f r) \<longleftrightarrow> bl_document f = final"
| "entry_binds base final (ModifiedBehavior b f as br fr) \<longleftrightarrow> bl_document b = base \<and> bl_document f = final"
| "entry_binds base final (RemovedBehavior b r) \<longleftrightarrow> bl_document b = base"

definition validate_delta_shape :: "behavior_delta \<Rightarrow> (string, unit) res" where
  "validate_delta_shape delta =
     res_all id
       [require (cf_change_id (de_proposal delta) = de_change_id delta) ''delta change ID differs from its proposal'',
        require (br_document_id (de_base_behavior delta) = br_document_id (de_final_behavior delta))
          ''behavior delta must retain document identity and IR version'',
        require (br_digest (de_base_behavior delta) \<noteq> br_digest (de_final_behavior delta))
          ''behavior delta base and final behavior digests must differ'',
        require (list_all (entry_binds (de_base_behavior delta) (de_final_behavior delta)) (de_entries delta))
          ''behavior delta entry does not bind its top-level behavior document'',
        require (distinct (map entry_subject (de_entries delta))) ''behavior delta contains duplicate subjects'',
        require (map entry_sort_key (de_entries delta) = sort (map entry_sort_key (de_entries delta)))
          ''behavior delta entries are not in canonical order'']"

section \<open>Deltas (validation.py)\<close>

definition lifecycle_check :: "bool \<Rightarrow> lifecycle_code \<Rightarrow> string \<Rightarrow> string \<Rightarrow> (lifecycle_error, unit) res" where
  "lifecycle_check c code message location = require c (LifecycleError code message location)"

definition validate_change_proposal :: "change_digests \<Rightarrow> change_proposal \<Rightarrow> behavior_ir \<Rightarrow> (lifecycle_error, unit) res" where
  "validate_change_proposal D proposal base =
     res_bind (validate_behavior_document base ''$.base_behavior'') (\<lambda>_.
     lifecycle_check (cp_base_behavior proposal = behavior_document_ref D base) LcDocumentIdentityMismatch
       ''proposal base behavior does not match the supplied document'' ''$.base_behavior'')"

definition validate_document_pair :: "behavior_ir \<Rightarrow> behavior_ir \<Rightarrow> (lifecycle_error, unit) res" where
  "validate_document_pair base final =
     res_bind (validate_behavior_document base ''$.base_behavior'') (\<lambda>_.
     res_bind (validate_behavior_document final ''$.final_behavior'') (\<lambda>_.
     lifecycle_check (be_document_id base = be_document_id final) LcDocumentIdentityMismatch
       ''base and final behavior must retain document identity and version'' ''$.final_behavior''))"

definition derive_behavior_delta ::
  "change_digests \<Rightarrow> change_proposal \<Rightarrow> behavior_ir \<Rightarrow> behavior_ir \<Rightarrow> (lifecycle_error, behavior_delta) res" where
  "derive_behavior_delta D proposal base final =
     res_bind (validate_change_proposal D proposal base) (\<lambda>_.
     res_bind (validate_document_pair base final) (\<lambda>_.
     let entries = derive_entries D base final in
     res_bind (lifecycle_check (entries \<noteq> []) LcIncompleteDelta
       ''base and final behavior contain no semantic difference'' ''$.entries'') (\<lambda>_.
     let delta = \<lparr>de_change_id = cp_change_id proposal, de_proposal = change_proposal_ref D proposal,
       de_base_behavior = behavior_document_ref D base, de_final_behavior = behavior_document_ref D final,
       de_entries = entries\<rparr> in
     case validate_delta_shape delta of
       Inl m \<Rightarrow> Inl (LifecycleModelError m)
     | Inr _ \<Rightarrow> Inr delta)))"

definition validate_behavior_delta ::
  "change_digests \<Rightarrow> behavior_delta \<Rightarrow> change_proposal \<Rightarrow> behavior_ir \<Rightarrow> behavior_ir \<Rightarrow> (lifecycle_error, unit) res" where
  "validate_behavior_delta D delta proposal base final =
     res_bind (validate_change_proposal D proposal base) (\<lambda>_.
     res_bind (validate_document_pair base final) (\<lambda>_.
     let expected = derive_entries D base final in
     res_all id
       [lifecycle_check (de_change_id delta = cp_change_id proposal) LcBrokenReference
          ''delta change ID differs from the proposal'' ''$.change_id'',
        lifecycle_check (de_proposal delta = change_proposal_ref D proposal) LcContentIdentityMismatch
          ''delta proposal reference is stale or fabricated'' ''$.proposal'',
        lifecycle_check (de_base_behavior delta = behavior_document_ref D base) LcDocumentIdentityMismatch
          ''delta base behavior does not match the supplied document'' ''$.base_behavior'',
        lifecycle_check (de_final_behavior delta = behavior_document_ref D final) LcDocumentIdentityMismatch
          ''delta final behavior does not match the supplied document'' ''$.final_behavior'',
        lifecycle_check (expected \<noteq> [] \<and> de_entries delta = expected) LcIncompleteDelta
          ''delta membership is not the exact exhaustive behavior difference'' ''$.entries'']))"

section \<open>What the canonical dictionaries hold\<close>

lemma entity_kind_value_inject [simp]: "entity_kind_value k = entity_kind_value k' \<longleftrightarrow> k = k'"
  by (cases k; cases k') simp_all

lemma reference_key_inject: "reference_key r = reference_key r' \<longleftrightarrow> r = r'"
  by (cases r; cases r') (auto simp: reference_key_def)

lemma canonical_entities_eq:
  "canonical_entities d = dict_of (map (\<lambda>e. (entity_key e, canonical_entity e)) (sort_key entity_key (be_entities d)))"
  by (simp add: canonical_entities_def canonical_behavior list_member_def member_def comp_def entity_key_def)

lemma canonical_roots_eq: "canonical_roots d = map reference_key (sort_key reference_key (be_roots d))"
proof -
  have "(text_member ''target_kind'' (canonical_ref r), text_member ''target_id'' (canonical_ref r)) = reference_key r" for r
    by (simp add: canonical_ref_def reference_key_def)
  then show ?thesis by (simp add: canonical_roots_def canonical_behavior list_member_def member_def comp_def)
qed

lemma inj_entity_key: "distinct (map entity_id es) \<Longrightarrow> inj_on entity_key (set es)"
  by (auto simp: distinct_map inj_on_def entity_key_def)

lemma canonical_entities_lookup:
  assumes "distinct (map entity_id (be_entities d))"
  shows "map_of (canonical_entities d) k = Some j \<longleftrightarrow> (\<exists>e \<in> set (be_entities d). entity_key e = k \<and> canonical_entity e = j)"
  using dict_of_inj [of entity_key "sort_key entity_key (be_entities d)" canonical_entity k j] inj_entity_key [OF assms]
  by (auto simp: canonical_entities_eq)

lemma canonical_entities_keys: "set (dict_keys (canonical_entities d)) = entity_key ` set (be_entities d)"
  by (simp add: canonical_entities_eq keys_merge image_image del: set_map) (simp add: image_image)

lemma canonical_roots_set: "set (canonical_roots d) = reference_key ` set (be_roots d)"
  by (simp add: canonical_roots_eq)

lemma roots_are_entities:
  assumes "ir_ok d"
  shows "set (canonical_roots d) \<subseteq> set (dict_keys (canonical_entities d))"
proof
  fix k assume "k \<in> set (canonical_roots d)"
  then obtain r where "r \<in> set (be_roots d)" "k = reference_key r" by (auto simp: canonical_roots_set)
  moreover from this assms obtain e where "e \<in> set (be_entities d)" "entity_id e = er_id r" "kind_of e = er_kind r"
    by (auto simp: ir_ok_def refs_to_def refers_to_def)
  ultimately show "k \<in> set (dict_keys (canonical_entities d))"
    unfolding canonical_entities_keys by (auto simp: entity_key_def reference_key_def image_iff intro!: bexI [of _ e])
qed

section \<open>Entries of a delta\<close>

lemma set_keys_minus [simp]: "k \<in> set (keys_minus d e) \<longleftrightarrow> k \<in> set (dict_keys d) \<and> k \<notin> set (dict_keys e)"
  by (auto simp: keys_minus_def)

lemma set_keys_common [simp]: "k \<in> set (keys_common d e) \<longleftrightarrow> k \<in> set (dict_keys d) \<and> k \<in> set (dict_keys e)"
  by (auto simp: keys_common_def)

definition changed_at :: "behavior_ir \<Rightarrow> behavior_ir \<Rightarrow> subject_id \<Rightarrow> bool" where
  "changed_at base final k \<longleftrightarrow>
     map_of (canonical_entities base) k \<noteq> map_of (canonical_entities final) k \<or>
     (k \<in> set (canonical_roots base)) \<noteq> (k \<in> set (canonical_roots final))"

definition entity_keys :: "behavior_ir \<Rightarrow> subject_id set" where
  "entity_keys d = entity_key ` set (be_entities d)"

lemma modified_entry_Some:
  "modified_entry base_ref final_ref be fe br fr k = Some x \<Longrightarrow> entry_subject x = k \<and>
     entry_kind_text x = ''modified_behavior'' \<and> modified_entry_ok x \<and> entry_binds base_ref final_ref x"
  by (auto simp: modified_entry_def Let_def located_def split: if_splits)

lemma modified_entry_None:
  "modified_entry (behavior_document_ref D base) (behavior_document_ref D final) (canonical_entities base)
     (canonical_entities final) (canonical_roots base) (canonical_roots final) k = None \<longleftrightarrow> \<not> changed_at base final k"
  by (auto simp: modified_entry_def Let_def changed_at_def)

lemma set_map_filter: "set (List.map_filter f xs) = {y. \<exists>x \<in> set xs. f x = Some y}"
  by (induction xs) (auto simp: List.map_filter_simps split: option.splits)

abbreviation modified_at :: "change_digests \<Rightarrow> behavior_ir \<Rightarrow> behavior_ir \<Rightarrow> subject_id \<Rightarrow> delta_entry option" where
  "modified_at D base final \<equiv> modified_entry (behavior_document_ref D base) (behavior_document_ref D final)
     (canonical_entities base) (canonical_entities final) (canonical_roots base) (canonical_roots final)"

lemma set_derive_entries:
  "x \<in> set (derive_entries D base final) \<longleftrightarrow>
     (\<exists>k \<in> entity_keys final - entity_keys base. x = AddedBehavior (located (behavior_document_ref D final) k) (k \<in> set (canonical_roots final))) \<or>
     (\<exists>k \<in> entity_keys base \<inter> entity_keys final. modified_at D base final k = Some x) \<or>
     (\<exists>k \<in> entity_keys base - entity_keys final. x = RemovedBehavior (located (behavior_document_ref D base) k) (k \<in> set (canonical_roots base)))"
proof -
  have keys: "fst ` set (canonical_entities d) = entity_keys d" for d
    using canonical_entities_keys [of d] by (simp add: entity_keys_def)
  show ?thesis
    by (simp add: derive_entries_def Let_def set_map_filter image_iff Bex_def keys conj_assoc)
qed

lemma modified_at_Some:
  "(\<exists>x. modified_at D base final k = Some x) \<longleftrightarrow> changed_at base final k"
  using modified_entry_None [of D base final k] by (cases "modified_at D base final k") auto

lemma derive_entries_subjects:
  "(\<exists>x \<in> set (derive_entries D base final). entry_subject x = k \<and> entry_kind_text x = ''added_behavior'') \<longleftrightarrow>
     k \<in> entity_keys final - entity_keys base"
  "(\<exists>x \<in> set (derive_entries D base final). entry_subject x = k \<and> entry_kind_text x = ''removed_behavior'') \<longleftrightarrow>
     k \<in> entity_keys base - entity_keys final"
  "(\<exists>x \<in> set (derive_entries D base final). entry_subject x = k \<and> entry_kind_text x = ''modified_behavior'') \<longleftrightarrow>
     k \<in> entity_keys base \<inter> entity_keys final \<and> changed_at base final k"
proof -
  note mods = modified_entry_Some [of "behavior_document_ref D base" "behavior_document_ref D final"]
  show "(\<exists>x \<in> set (derive_entries D base final). entry_subject x = k \<and> entry_kind_text x = ''added_behavior'') \<longleftrightarrow>
     k \<in> entity_keys final - entity_keys base"
    unfolding set_derive_entries Bex_def by (fastforce simp: located_def dest: mods)
  show "(\<exists>x \<in> set (derive_entries D base final). entry_subject x = k \<and> entry_kind_text x = ''removed_behavior'') \<longleftrightarrow>
     k \<in> entity_keys base - entity_keys final"
    unfolding set_derive_entries Bex_def by (fastforce simp: located_def dest: mods)
  show "(\<exists>x \<in> set (derive_entries D base final). entry_subject x = k \<and> entry_kind_text x = ''modified_behavior'') \<longleftrightarrow>
     k \<in> entity_keys base \<inter> entity_keys final \<and> changed_at base final k"
    (is "?l \<longleftrightarrow> ?r")
  proof
    assume ?l
    then obtain x where x: "x \<in> set (derive_entries D base final)" "entry_subject x = k"
      "entry_kind_text x = ''modified_behavior''" by blast
    then obtain k' where "k' \<in> entity_keys base \<inter> entity_keys final" "modified_at D base final k' = Some x"
      unfolding set_derive_entries by auto
    then show ?r using x(2) mods [of _ _ _ _ k' x] modified_at_Some [of D base final k'] by auto
  next
    assume r: ?r
    then obtain x where "modified_at D base final k = Some x" using modified_at_Some by blast
    then show ?l using r mods [of _ _ _ _ k x] by (auto simp: set_derive_entries intro!: bexI [of _ x])
  qed
qed

lemma derive_entries_shape:
  "distinct (map entry_subject (derive_entries D base final))"
  "list_all (entry_binds (behavior_document_ref D base) (behavior_document_ref D final)) (derive_entries D base final)"
  "list_all modified_entry_ok (derive_entries D base final)"
  "sorted (map entry_sort_key (derive_entries D base final))"
proof -
  show "sorted (map entry_sort_key (derive_entries D base final))" by (simp add: derive_entries_def Let_def)
  show "list_all (entry_binds (behavior_document_ref D base) (behavior_document_ref D final)) (derive_entries D base final)"
    "list_all modified_entry_ok (derive_entries D base final)"
    by (auto simp: list_all_iff set_derive_entries located_def dest: modified_entry_Some)
  have filtered: "map entry_subject (List.map_filter (modified_at D base final) ks) = filter (changed_at base final) ks" for ks
  proof (induction ks)
    case (Cons k ks)
    then show ?case
      using modified_entry_None [of D base final k] modified_entry_Some
      by (cases "modified_at D base final k") (auto simp: List.map_filter_simps)
  qed (simp add: List.map_filter_simps)
  have subject: "entry_subject \<circ> (\<lambda>k. AddedBehavior (located d k) (P k)) = id"
    "entry_subject \<circ> (\<lambda>k. RemovedBehavior (located d k) (P k)) = id" for d P
    by (auto simp: located_def)
  have "distinct (keys_minus (canonical_entities final) (canonical_entities base) @
      filter (changed_at base final) (keys_common (canonical_entities base) (canonical_entities final)) @
      keys_minus (canonical_entities base) (canonical_entities final))"
    by (auto simp: keys_minus_def keys_common_def)
  moreover have "distinct (map f (sort_key g xs)) \<longleftrightarrow> distinct (map f xs)" for f :: "delta_entry \<Rightarrow> subject_id"
    and g :: "delta_entry \<Rightarrow> string \<times> string \<times> string" and xs by (simp add: distinct_map)
  ultimately show "distinct (map entry_subject (derive_entries D base final))"
    by (simp only: derive_entries_def Let_def map_append map_map subject filtered list.map_id)
qed

section \<open>No entries means the same canonical JSON\<close>

lemma derive_entries_Nil:
  "derive_entries D base final = [] \<longleftrightarrow>
     entity_keys base = entity_keys final \<and> (\<forall>k \<in> entity_keys base. \<not> changed_at base final k)"
  (is "?empty \<longleftrightarrow> ?same")
proof
  assume ?empty
  then show ?same using derive_entries_subjects [of D base final] by auto
next
  assume ?same
  then have "x \<notin> set (derive_entries D base final)" for x
    using modified_at_Some [of D base final] by (auto simp: set_derive_entries)
  then show ?empty by (metis list.set_intros(1) neq_Nil_conv)
qed

lemma sorted_keys_unique:
  assumes "distinct (map k xs)" "distinct (map k ys)" "k ` set xs = k ` set ys"
  shows "map k (sort_key k xs) = map k (sort_key k ys)"
  using assms by (intro sorted_distinct_set_unique) (simp_all add: distinct_map)

lemma distinct_entity_key: "distinct (map entity_id es) \<Longrightarrow> distinct (map entity_key es)"
  using inj_entity_key [of es] by (simp add: distinct_map)

lemma canonical_entity_list:
  assumes "distinct (map entity_id (be_entities d))"
  shows "map canonical_entity (sort_key entity_key (be_entities d)) =
    map (\<lambda>k. the (map_of (canonical_entities d) k)) (map entity_key (sort_key entity_key (be_entities d)))"
proof -
  have "map_of (canonical_entities d) (entity_key e) = Some (canonical_entity e)" if "e \<in> set (be_entities d)" for e
    using canonical_entities_lookup [OF assms] that by blast
  then show ?thesis by simp
qed

lemma canonical_ir_equal:
  assumes ids: "distinct (map entity_id (be_entities base))" "distinct (map entity_id (be_entities final))"
    and roots: "distinct (be_roots base)" "distinct (be_roots final)" and id: "be_document_id base = be_document_id final"
    and keys: "entity_keys base = entity_keys final"
    and entities: "\<And>k. k \<in> entity_keys base \<Longrightarrow> map_of (canonical_entities base) k = map_of (canonical_entities final) k"
    and root_keys: "set (canonical_roots base) = set (canonical_roots final)"
  shows "canonical_ir base = canonical_ir final"
proof -
  have k: "map entity_key (sort_key entity_key (be_entities base)) = map entity_key (sort_key entity_key (be_entities final))"
    using keys ids by (intro sorted_keys_unique distinct_entity_key) (simp_all add: entity_keys_def)
  have "map canonical_entity (sort_key entity_key (be_entities base)) =
      map (\<lambda>k. the (map_of (canonical_entities final) k)) (map entity_key (sort_key entity_key (be_entities base)))"
    unfolding canonical_entity_list [OF ids(1)] using entities by (simp add: entity_keys_def)
  then have e: "map canonical_entity (sort_key entity_key (be_entities base)) =
      map canonical_entity (sort_key entity_key (be_entities final))"
    unfolding canonical_entity_list [OF ids(2)] k .
  have "inj reference_key" by (rule injI) (simp add: reference_key_inject)
  moreover have "map reference_key (sort_key reference_key (be_roots base)) = map reference_key (sort_key reference_key (be_roots final))"
    using root_keys roots inj_on_subset [OF \<open>inj reference_key\<close> subset_UNIV]
    by (intro sorted_keys_unique) (simp_all add: distinct_map canonical_roots_set)
  ultimately have "sort_key reference_key (be_roots base) = sort_key reference_key (be_roots final)"
    by (simp add: inj_map_eq_map)
  with e id show ?thesis by (simp add: canonical_behavior)
qed

lemma derive_entries_same:
  assumes "ir_ok base" "ir_ok final" "be_document_id base = be_document_id final"
  shows "derive_entries D base final = [] \<longleftrightarrow> canonical_ir base = canonical_ir final"
proof
  assume empty: "derive_entries D base final = []"
  note same = empty [unfolded derive_entries_Nil]
  have roots: "set (canonical_roots d) \<subseteq> entity_keys d" if "ir_ok d" for d
    using roots_are_entities [OF that] canonical_entities_keys [of d] by (simp add: entity_keys_def)
  have "set (canonical_roots base) = set (canonical_roots final)"
    using same roots [OF assms(1)] roots [OF assms(2)] by (auto simp: changed_at_def)
  then show "canonical_ir base = canonical_ir final"
    using same assms by (intro canonical_ir_equal) (auto simp: changed_at_def ir_ok_def refs_to_def)
next
  assume "canonical_ir base = canonical_ir final"
  then have "canonical_entities base = canonical_entities final" "canonical_roots base = canonical_roots final"
    by (simp_all add: canonical_entities_def canonical_roots_def)
  moreover from this canonical_entities_keys [of base] canonical_entities_keys [of final]
  have "entity_keys base = entity_keys final" by (simp add: entity_keys_def)
  ultimately show "derive_entries D base final = []" by (simp add: derive_entries_Nil changed_at_def)
qed

section \<open>Example\<close>

definition ex_prov_ref :: entity_ref where
  "ex_prov_ref = \<lparr>er_kind = ProvenanceKind, er_id = ''prov''\<rparr>"

definition ex_provenance_entity :: entity where
  "ex_provenance_entity = Provenance \<lparr>pv_id = ''prov'', pv_source_uri = ''urn:src'', pv_source_revision = ''0'',
     pv_producer = \<lparr>ip_name = ''org.tool'', ip_version = ''1.0.0''\<rparr>, pv_captured_at = ''2026-01-01T00:00:00Z''\<rparr>"

definition ex_use_case :: "entity_ref list \<Rightarrow> ir_use_case" where
  "ex_use_case steps = \<lparr>us_id = ''uc'', us_input_ports = [], us_output_ports = [], us_steps = steps,
     us_invariants = [], us_requires = [], us_provenance = ex_prov_ref\<rparr>"

definition ex_action :: ir_action where
  "ex_action = \<lparr>ac_id = ''act'', ac_input_ports = [], ac_output_ports = [], ac_effects = [], ac_requires = [],
     ac_provenance = ex_prov_ref\<rparr>"

definition ex_step :: ir_step where
  "ex_step = \<lparr>st_id = ''step'', st_action = \<lparr>er_kind = ActionKind, er_id = ''act''\<rparr>, st_bindings = [], st_effects = [],
     st_observations = [], st_requires = [], st_provenance = ex_prov_ref\<rparr>"

definition ex_steps :: "nat \<Rightarrow> entity_ref list" where
  "ex_steps n = replicate n \<lparr>er_kind = StepKind, er_id = ''step''\<rparr>"

definition ex_behavior :: "nat \<Rightarrow> entity list \<Rightarrow> behavior_ir" where
  "ex_behavior n es = \<lparr>be_document_id = ''doc'', be_roots = [\<lparr>er_kind = UseCaseKind, er_id = ''uc''\<rparr>],
     be_entities = [Action ex_action, ex_provenance_entity, Step ex_step, UseCase (ex_use_case (ex_steps n))] @ es\<rparr>"

definition ex_change_digests :: change_digests where
  "ex_change_digests = \<lparr>dg_behavior = \<lambda>j. concat (map (\<lambda>e. text_member ''id'' e @
       concat (map (text_member ''target_id'') (list_member ''steps'' e))) (list_member ''entities'' j)),
     dg_proposal = cp_change_id, dg_delta = de_change_id\<rparr>"

definition ex_proposal :: change_proposal where
  "ex_proposal = \<lparr>cp_change_id = ''chg'', cp_base_behavior = behavior_document_ref ex_change_digests (ex_behavior 1 []),
     cp_openspec = []\<rparr>"

lemma ex_behavior_ok: "ir_ok (ex_behavior 1 [])" "ir_ok (ex_behavior 2 [])"
  by (auto simp: ir_ok_def ex_behavior_def capability_names_def List.map_filter_simps refs_to_def refers_to_def ex_steps_def
      ex_action_def ex_step_def ex_use_case_def ex_provenance_entity_def ex_prov_ref_def numeral_2_eq_2)

section \<open>Properties\<close>

text \<open>
  C17: The entries of a delta are the exact difference: an added entry for every entity only in the
  final document, a removed one for every entity only in the base document, a modified one for every
  entity of both whose canonical JSON or root membership differs, one entry per subject; and there is
  no entry exactly when the canonical JSON of the two documents is the same.
\<close>

theorem delta_exact:
  assumes "ir_ok base" and "ir_ok final" and "be_document_id base = be_document_id final"
  shows "(\<forall>k. (\<exists>x \<in> set (derive_entries D base final). entry_subject x = k \<and> entry_kind_text x = ''added_behavior'') \<longleftrightarrow>
      k \<in> entity_keys final - entity_keys base) \<and>
    (\<forall>k. (\<exists>x \<in> set (derive_entries D base final). entry_subject x = k \<and> entry_kind_text x = ''removed_behavior'') \<longleftrightarrow>
      k \<in> entity_keys base - entity_keys final) \<and>
    (\<forall>k. (\<exists>x \<in> set (derive_entries D base final). entry_subject x = k \<and> entry_kind_text x = ''modified_behavior'') \<longleftrightarrow>
      k \<in> entity_keys base \<inter> entity_keys final \<and> changed_at base final k) \<and>
    distinct (map entry_subject (derive_entries D base final)) \<and>
    (derive_entries D base final = [] \<longleftrightarrow> canonical_ir base = canonical_ir final)"
  using derive_entries_subjects [of D base final] derive_entries_shape(1) derive_entries_same [OF assms] by blast

theorem delta_exact_witness:
  "\<exists>x \<in> set (derive_entries ex_change_digests (ex_behavior 1 []) (ex_behavior 2 [])).
     entry_subject x = (''use_case'', ''uc'') \<and> entry_kind_text x = ''modified_behavior''"
proof -
  have same: "be_document_id (ex_behavior 1 []) = be_document_id (ex_behavior 2 [])" by (simp add: ex_behavior_def)
  have "(''use_case'', ''uc'') \<in> entity_keys (ex_behavior 1 []) \<inter> entity_keys (ex_behavior 2 [])"
    by (auto simp: entity_keys_def ex_behavior_def entity_key_def ex_use_case_def)
  moreover have "map_of (canonical_entities (ex_behavior 1 [])) (''use_case'', ''uc'') \<noteq>
      map_of (canonical_entities (ex_behavior 2 [])) (''use_case'', ''uc'')"
    by code_simp
  then have "changed_at (ex_behavior 1 []) (ex_behavior 2 []) (''use_case'', ''uc'')" by (simp add: changed_at_def)
  ultimately show ?thesis using delta_exact [OF ex_behavior_ok same, of ex_change_digests] by blast
qed

lemma lifecycle_check_Inr [simp]: "lifecycle_check c code m l = Inr u \<longleftrightarrow> c"
  by (simp add: lifecycle_check_def)

lemma derived_shape:
  "validate_delta_shape \<lparr>de_change_id = cp_change_id p, de_proposal = change_proposal_ref D p,
     de_base_behavior = behavior_document_ref D base, de_final_behavior = behavior_document_ref D final,
     de_entries = derive_entries D base final\<rparr> = Inr () \<longleftrightarrow>
   be_document_id base = be_document_id final \<and>
   dg_behavior D (canonical_ir base) \<noteq> dg_behavior D (canonical_ir final)"
  using derive_entries_shape(1,2,4)
  by (auto simp: validate_delta_shape_def res_all_Inr change_proposal_ref_def behavior_document_ref_def sorted_sort_id
      simp del: res_all.simps)

lemma validate_behavior_delta_Inr:
  assumes "validate_delta_shape delta = Inr ()"
  shows "validate_behavior_delta D delta proposal base final = Inr () \<longleftrightarrow>
    derive_behavior_delta D proposal base final = Inr delta"
proof
  assume v: "validate_behavior_delta D delta proposal base final = Inr ()"
  then have delta: "delta = \<lparr>de_change_id = cp_change_id proposal, de_proposal = change_proposal_ref D proposal,
      de_base_behavior = behavior_document_ref D base, de_final_behavior = behavior_document_ref D final,
      de_entries = derive_entries D base final\<rparr>"
    by (cases delta) (auto simp: validate_behavior_delta_def res_bind_Inr res_all_Inr Let_def simp del: res_all.simps)
  show "derive_behavior_delta D proposal base final = Inr delta"
    using v assms unfolding delta
    by (auto simp: validate_behavior_delta_def derive_behavior_delta_def res_bind_Inr res_all_Inr Let_def
        simp del: res_all.simps)
next
  assume "derive_behavior_delta D proposal base final = Inr delta"
  then show "validate_behavior_delta D delta proposal base final = Inr ()"
    by (auto simp: validate_behavior_delta_def derive_behavior_delta_def res_bind_Inr res_all_Inr Let_def
        simp del: res_all.simps split: sum.splits)
qed

text \<open>
  A delta is accepted exactly when deriving the delta of the same proposal and documents gives it:
  nothing can be left out, added or attributed to other documents.
\<close>

theorem delta_validation_exact:
  assumes "validate_delta_shape delta = Inr ()"
  shows "validate_behavior_delta D delta proposal base final = Inr () \<longleftrightarrow>
    derive_behavior_delta D proposal base final = Inr delta"
  by (rule validate_behavior_delta_Inr [OF assms])

definition ex_delta :: behavior_delta where
  "ex_delta = \<lparr>de_change_id = ''chg'', de_proposal = change_proposal_ref ex_change_digests ex_proposal,
     de_base_behavior = behavior_document_ref ex_change_digests (ex_behavior 1 []),
     de_final_behavior = behavior_document_ref ex_change_digests (ex_behavior 2 []),
     de_entries = derive_entries ex_change_digests (ex_behavior 1 []) (ex_behavior 2 [])\<rparr>"

lemma ex_delta_derived:
  "derive_behavior_delta ex_change_digests ex_proposal (ex_behavior 1 []) (ex_behavior 2 []) = Inr ex_delta"
  by code_simp

lemma ex_delta_shape: "validate_delta_shape ex_delta = Inr ()"
  by code_simp

theorem delta_validation_exact_witness:
  "validate_behavior_delta ex_change_digests ex_delta ex_proposal (ex_behavior 1 []) (ex_behavior 2 []) = Inr ()"
  using delta_validation_exact [OF ex_delta_shape] ex_delta_derived by blast

end
