(* ===== verification/Impact_Graph.thy ===== *)
theory Impact_Graph
  imports Behavior_Delta
begin

text \<open>
  The impact graph of a change, \<^verbatim>\<open>src/ucf/change_governance/graph.py\<close>, with the models of its
  coordinates and edges: every reference of the two documents becomes an edge from the coordinate that
  refers to the one it refers to. Exceptions are their messages.
\<close>

section \<open>Coordinates and edges (models.py)\<close>

datatype graph_side = BaseSide | FinalSide

fun side_value :: "graph_side \<Rightarrow> string" where
  "side_value BaseSide = ''base''"
| "side_value FinalSide = ''final''"

datatype impact_precision = Definite | MayAffect | Unresolved

fun precision_value :: "impact_precision \<Rightarrow> string" where
  "precision_value Definite = ''definite''"
| "precision_value MayAffect = ''may_affect''"
| "precision_value Unresolved = ''unresolved''"

datatype impact_relation =
  RootReference | EntityReference | PortSelection | StepPortDefinition | RequiredCapability

fun relation_value :: "impact_relation \<Rightarrow> string" where
  "relation_value RootReference = ''root_reference''"
| "relation_value EntityReference = ''entity_reference''"
| "relation_value PortSelection = ''port_selection''"
| "relation_value StepPortDefinition = ''step_port_definition''"
| "relation_value RequiredCapability = ''required_capability''"

datatype coordinate =
    EntityCoordinate entity_kind string
  | PortCoordinate entity_kind string direction string "string option"
  | DocumentCoordinate string

type_synonym coordinate_key = "string list"

fun coordinate_key :: "coordinate \<Rightarrow> coordinate_key" where
  "coordinate_key (EntityCoordinate k i) = [''entity_coordinate'', entity_kind_value k, i]"
| "coordinate_key (PortCoordinate k i d n a) =
     [''port_coordinate'', entity_kind_value k, i, direction_value d, n, (case a of None \<Rightarrow> [] | Some s \<Rightarrow> s)]"
| "coordinate_key (DocumentCoordinate i) = [''document_coordinate'', i]"

record impact_edge =
  ie_side :: graph_side
  ie_source :: coordinate
  ie_target :: coordinate
  ie_field_path :: string
  ie_relation :: impact_relation
  ie_precision :: impact_precision

definition edge_key :: "impact_edge \<Rightarrow> string \<times> coordinate_key \<times> coordinate_key \<times> string \<times> string \<times> string" where
  "edge_key e = (side_value (ie_side e), coordinate_key (ie_source e), coordinate_key (ie_target e),
     ie_field_path e, relation_value (ie_relation e), precision_value (ie_precision e))"

section \<open>Edges of a document\<close>

definition edge ::
  "graph_side \<Rightarrow> coordinate \<Rightarrow> coordinate \<Rightarrow> string \<Rightarrow> impact_relation \<Rightarrow> impact_precision \<Rightarrow> impact_edge" where
  "edge side source target field_path relation precision =
     \<lparr>ie_side = side, ie_source = source, ie_target = target, ie_field_path = field_path,
      ie_relation = relation, ie_precision = precision\<rparr>"

definition ref_coordinate :: "entity_ref \<Rightarrow> coordinate" where
  "ref_coordinate r = EntityCoordinate (er_kind r) (er_id r)"

definition entity_coordinate :: "entity \<Rightarrow> coordinate" where
  "entity_coordinate e = EntityCoordinate (kind_of e) (entity_id e)"

definition single_ref_edge :: "graph_side \<Rightarrow> coordinate \<Rightarrow> string \<Rightarrow> entity_ref \<Rightarrow> impact_edge" where
  "single_ref_edge side source field_path ref =
     edge side source (ref_coordinate ref) field_path EntityReference MayAffect"

definition position_path :: "string \<Rightarrow> nat \<Rightarrow> string" where
  "position_path field i = ''/'' @ field @ ''/'' @ show_nat i"

definition ref_edges :: "graph_side \<Rightarrow> coordinate \<Rightarrow> string \<Rightarrow> entity_ref list \<Rightarrow> bool \<Rightarrow> impact_edge list" where
  "ref_edges side source field refs ordered =
     (let selected = (if ordered then refs else sort_key reference_key refs) in
      map (\<lambda>(i, ref). single_ref_edge side source (position_path field i) ref) (zip [0..<length selected] selected))"

definition resolved_action :: "entity \<Rightarrow> string option" where
  "resolved_action owner = (case owner of Step s \<Rightarrow> Some (er_id (st_action s)) | _ \<Rightarrow> None)"

text \<open>The coordinate of a port reference, or what looking up its owner or the model of the coordinate raises.\<close>

definition port_coordinate :: "port_ref \<Rightarrow> entity_index \<Rightarrow> (string, coordinate) res" where
  "port_coordinate ref entities =
     (case map_of entities (er_id (pr_owner ref)) of
        None \<Rightarrow> Inl ''KeyError''
      | Some owner \<Rightarrow>
          (let k = er_kind (pr_owner ref) in
           if k \<notin> {ActionKind, UseCaseKind, StepKind} then Inl ''owner kind of a port coordinate''
           else if k = StepKind \<and> resolved_action owner = None
           then Inl ''step port coordinate requires its resolved action''
           else if k \<noteq> StepKind \<and> resolved_action owner \<noteq> None
           then Inl ''only a step port coordinate may name a resolved action''
           else Inr (PortCoordinate k (er_id (pr_owner ref)) (pr_direction ref) (pr_name ref) (resolved_action owner))))"

fun port_definition :: "coordinate \<Rightarrow> coordinate option" where
  "port_definition (PortCoordinate StepKind i d n (Some a)) = Some (PortCoordinate ActionKind a d n None)"
| "port_definition c = None"

text \<open>The edge to the selected port, and the one from a step port to its definition.\<close>

definition port_edges ::
  "graph_side \<Rightarrow> coordinate \<Rightarrow> string \<Rightarrow> port_ref \<Rightarrow> entity_index \<Rightarrow> (string, impact_edge list \<times> impact_edge list) res" where
  "port_edges side source field_path ref entities =
     res_bind (port_coordinate ref entities) (\<lambda>c.
     Inr ([edge side source c field_path PortSelection MayAffect],
       (case port_definition c of
          None \<Rightarrow> []
        | Some definition \<Rightarrow> [edge side c definition ''/action'' StepPortDefinition MayAffect])))"

definition provenance_edge :: "graph_side \<Rightarrow> coordinate \<Rightarrow> entity_ref \<Rightarrow> impact_edge" where
  "provenance_edge side source ref = single_ref_edge side source ''/provenance'' ref"

definition binding_edges ::
  "graph_side \<Rightarrow> coordinate \<Rightarrow> ir_binding \<Rightarrow> entity_index \<Rightarrow> (string, impact_edge list \<times> impact_edge list) res" where
  "binding_edges side source b entities =
     res_bind (port_edges side source ''/target'' (bi_target b) entities) (\<lambda>t.
     res_bind (case bi_source b of
         PortSource ref \<Rightarrow> port_edges side source ''/source'' ref entities
       | ValueSource v \<Rightarrow> Inr ([], [])) (\<lambda>s.
     Inr (fst t @ fst s @ [provenance_edge side source (bi_provenance b)], snd t @ snd s)))"

fun entity_edges ::
  "graph_side \<Rightarrow> coordinate \<Rightarrow> entity_index \<Rightarrow> entity \<Rightarrow> (string, impact_edge list \<times> impact_edge list) res" where
  "entity_edges side document entities (Action a) =
     (let source = entity_coordinate (Action a) in
      Inr (ref_edges side source ''effects'' (ac_effects a) False @ ref_edges side source ''requires'' (ac_requires a) False @
        [provenance_edge side source (ac_provenance a)], []))"
| "entity_edges side document entities (UseCase u) =
     (let source = entity_coordinate (UseCase u) in
      Inr (ref_edges side source ''steps'' (us_steps u) True @ ref_edges side source ''invariants'' (us_invariants u) False @
        ref_edges side source ''requires'' (us_requires u) False @ [provenance_edge side source (us_provenance u)], []))"
| "entity_edges side document entities (Step s) =
     (let source = entity_coordinate (Step s) in
      Inr ([single_ref_edge side source ''/action'' (st_action s)] @
        ref_edges side source ''bindings'' (st_bindings s) False @ ref_edges side source ''effects'' (st_effects s) False @
        ref_edges side source ''observations'' (st_observations s) False @
        ref_edges side source ''requires'' (st_requires s) False @ [provenance_edge side source (st_provenance s)], []))"
| "entity_edges side document entities (Binding b) = binding_edges side (entity_coordinate (Binding b)) b entities"
| "entity_edges side document entities (Effect e) =
     (let source = entity_coordinate (Effect e) in
      Inr (ref_edges side source ''requires'' (ef_requires e) False @ [provenance_edge side source (ef_provenance e)], []))"
| "entity_edges side document entities (Observation x) =
     (let source = entity_coordinate (Observation x) in
      Inr ([single_ref_edge side source ''/subject'' (ob_subject x), provenance_edge side source (ob_provenance x)], []))"
| "entity_edges side document entities (Invariant v) =
     (let source = entity_coordinate (Invariant v) in
      Inr (ref_edges side source ''applies_to'' (iv_applies_to v) False @
        ref_edges side source ''requires'' (iv_requires v) False @ [provenance_edge side source (iv_provenance v)], []))"
| "entity_edges side document entities (Evidence v) =
     (let source = entity_coordinate (Evidence v) in
      Inr (ref_edges side source ''subjects'' (ev_subjects v) False @ [provenance_edge side source (ev_provenance v)], []))"
| "entity_edges side document entities (Provenance p) = Inr ([], [])"
| "entity_edges side document entities (Capability c) =
     (let source = entity_coordinate (Capability c) in
      Inr ([provenance_edge side source (ca_provenance c)] @
        (if ca_required c
         then [edge side document source (''/@required_capabilities/'' @ ca_id c) RequiredCapability Definite] else []), []))"

definition root_edges :: "graph_side \<Rightarrow> coordinate \<Rightarrow> entity_ref list \<Rightarrow> impact_edge list" where
  "root_edges side document roots =
     map (\<lambda>(i, ref). edge side document (ref_coordinate ref) (position_path ''roots'' i) RootReference MayAffect)
       (zip [0..<length roots] (sort_key reference_key roots))"

definition extract_edges :: "behavior_ir \<Rightarrow> graph_side \<Rightarrow> (string, impact_edge list) res" where
  "extract_edges d side =
     (let entities = dict_of (map (\<lambda>e. (entity_id e, e)) (be_entities d));
          document = DocumentCoordinate (be_document_id d)
      in res_bind (res_map (entity_edges side document entities) (sort_key entity_key (be_entities d))) (\<lambda>parts.
         Inr (root_edges side document (be_roots d) @ concat (map fst parts) @
           dict_values (dict_of (map (\<lambda>e. ((coordinate_key (ie_source e), coordinate_key (ie_target e)), e))
             (concat (map snd parts)))))))"

definition impact_edges :: "behavior_ir \<Rightarrow> behavior_ir \<Rightarrow> (string, impact_edge list) res" where
  "impact_edges base final =
     res_bind (extract_edges base BaseSide) (\<lambda>be.
     res_bind (extract_edges final FinalSide) (\<lambda>fe.
     Inr (sort_key edge_key (be @ fe))))"

section \<open>The edges of a valid document\<close>

text \<open>What the model of a port coordinate checks: a step port, and no other, names the action of its step.\<close>

fun coordinate_ok :: "coordinate \<Rightarrow> bool" where
  "coordinate_ok (PortCoordinate k i d n a) \<longleftrightarrow> k \<in> {ActionKind, UseCaseKind, StepKind} \<and> (k = StepKind) = (a \<noteq> None)"
| "coordinate_ok c \<longleftrightarrow> True"

lemma direction_value_inject [simp]: "direction_value d = direction_value d' \<longleftrightarrow> d = d'"
  by (cases d; cases d') simp_all

lemma side_value_inject [simp]: "side_value s = side_value s' \<longleftrightarrow> s = s'"
  by (cases s; cases s') simp_all

lemma coordinate_key_inject:
  "coordinate_ok c \<Longrightarrow> coordinate_ok c' \<Longrightarrow> coordinate_key c = coordinate_key c' \<longleftrightarrow> c = c'"
  by (cases c; cases c') (auto split: option.splits)

lemma edge_fields [simp]:
  "ie_side (edge s a b f r p) = s" "ie_source (edge s a b f r p) = a" "ie_target (edge s a b f r p) = b"
  "ie_field_path (edge s a b f r p) = f"
  by (simp_all add: edge_def)

lemma ref_coordinate_ok [simp]: "coordinate_ok (ref_coordinate r)" "coordinate_ok (entity_coordinate e)"
  by (simp_all add: ref_coordinate_def entity_coordinate_def)

lemma single_ref_edge_fields [simp]:
  "ie_side (single_ref_edge s a f r) = s" "ie_source (single_ref_edge s a f r) = a"
  "ie_target (single_ref_edge s a f r) = ref_coordinate r" "ie_field_path (single_ref_edge s a f r) = f"
  by (simp_all add: single_ref_edge_def)

lemma provenance_edge_fields [simp]:
  "ie_side (provenance_edge s a r) = s" "ie_source (provenance_edge s a r) = a"
  "ie_target (provenance_edge s a r) = ref_coordinate r" "ie_field_path (provenance_edge s a r) = ''/provenance''"
  by (simp_all add: provenance_edge_def)

definition edge_ok :: "graph_side \<Rightarrow> impact_edge \<Rightarrow> bool" where
  "edge_ok side e \<longleftrightarrow> ie_side e = side \<and> coordinate_ok (ie_source e) \<and> coordinate_ok (ie_target e) \<and>
     prefix ''/'' (ie_field_path e)"

lemma ref_edges_ok: "coordinate_ok source \<Longrightarrow> e \<in> set (ref_edges side source field refs ordered) \<Longrightarrow>
    edge_ok side e \<and> ie_source e = source"
  by (auto simp: ref_edges_def Let_def edge_ok_def position_path_def)

lemma ref_edges_paths:
  "map ie_field_path (ref_edges side source field refs ordered) = map (position_path field) [0..<length refs]"
  by (auto simp: ref_edges_def Let_def comp_def case_prod_unfold map_fst_zip simp flip: map_map [of _ fst, unfolded comp_def])

text \<open>The coordinate of a port that is there, and the edge from a step port to its definition.\<close>

lemma port_coordinate_Inr:
  assumes ids: "distinct (map entity_id es)" and ports: "has_ports es r ps"
  shows "\<exists>c. port_coordinate r (dict_of (map (\<lambda>e. (entity_id e, e)) es)) = Inr c \<and> coordinate_ok c"
proof -
  have lookup: "map_of (dict_of (map (\<lambda>e. (entity_id e, e)) es)) (entity_id e) = Some e" if "e \<in> set es" for e
    using that ids by (simp add: dict_of_distinct comp_def inj_on_def distinct_map map_of_eq_Some_iff image_iff)
  from ports consider (use_case) u where "UseCase u \<in> set es" "us_id u = er_id (pr_owner r)" "er_kind (pr_owner r) = UseCaseKind"
    | (step) s where "Step s \<in> set es" "st_id s = er_id (pr_owner r)" "er_kind (pr_owner r) = StepKind"
    unfolding has_ports_def by blast
  then show ?thesis
  proof cases
    case use_case
    then show ?thesis using lookup [of "UseCase u"] by (simp add: port_coordinate_def resolved_action_def)
  next
    case step
    then show ?thesis using lookup [of "Step s"] by (simp add: port_coordinate_def resolved_action_def)
  qed
qed

lemma port_definition_ok: "port_definition c = Some d \<Longrightarrow> coordinate_ok d \<and> (\<exists>i x n a. c = PortCoordinate StepKind i x n a)"
  by (cases c rule: port_definition.cases) auto

definition definition_edge :: "graph_side \<Rightarrow> impact_edge \<Rightarrow> bool" where
  "definition_edge side x \<longleftrightarrow> edge_ok side x \<and> (\<exists>i d n a. ie_source x = PortCoordinate StepKind i d n a)"

lemma port_edges_Inr:
  assumes "distinct (map entity_id es)" "port_at es r p" "coordinate_ok source"
  shows "\<exists>c ds. port_edges side source field r (dict_of (map (\<lambda>e. (entity_id e, e)) es)) =
      Inr ([edge side source c field PortSelection MayAffect], ds) \<and> coordinate_ok c \<and>
    (\<forall>e \<in> set ds. definition_edge side e)"
proof -
  obtain ps where ps: "has_ports es r ps" using assms(2) by (auto simp: port_at_def)
  obtain c where c: "port_coordinate r (dict_of (map (\<lambda>e. (entity_id e, e)) es)) = Inr c" "coordinate_ok c"
    using port_coordinate_Inr [OF assms(1) ps] by blast
  show ?thesis
    using c port_definition_ok [of c] by (cases "port_definition c") (auto simp: port_edges_def edge_ok_def definition_edge_def)
qed

lemma show_nat_nonempty [simp]: "show_nat n \<noteq> []" "[] \<noteq> show_nat n"
  by (subst show_nat.simps, simp)+

lemma digit_char_inject: "a < 10 \<Longrightarrow> b < 10 \<Longrightarrow> digit_char a = digit_char b \<longleftrightarrow> a = b"
  by (simp add: digit_char_def)

lemma show_nat_inject: "show_nat n = show_nat m \<Longrightarrow> n = m"
proof (induction n arbitrary: m rule: show_nat.induct)
  case (1 n)
  show ?case
  proof (cases "n < 10 \<or> m < 10")
    case True
    then show ?thesis using "1.prems"
      by (auto simp: show_nat.simps [of n] show_nat.simps [of m] digit_char_inject split: if_splits)
  next
    case False
    then have "show_nat (n div 10) = show_nat (m div 10)" "n mod 10 = m mod 10"
      using "1.prems" by (simp_all add: show_nat.simps [of n] show_nat.simps [of m] digit_char_inject)
    then show ?thesis using "1.IH" [of "m div 10"] False by (metis div_mult_mod_eq)
  qed
qed

lemma position_path_inject: "position_path f i = position_path f j \<longleftrightarrow> i = j"
  by (auto simp: position_path_def dest: show_nat_inject)

lemma distinct_positions: "distinct (map (position_path f) [0..<n])"
  by (auto simp: distinct_map inj_on_def position_path_inject)

definition own_edge :: "graph_side \<Rightarrow> coordinate \<Rightarrow> entity \<Rightarrow> impact_edge \<Rightarrow> bool" where
  "own_edge side document e x \<longleftrightarrow> edge_ok side x \<and>
     (ie_source x = entity_coordinate e \<or>
      ie_source x = document \<and> ie_field_path x = ''/@required_capabilities/'' @ entity_id e)"

lemma entity_edges_Inr:
  assumes ids: "distinct (map entity_id es)" and ok: "entity_ok es e" and document: "coordinate_ok document"
  shows "\<exists>own ds. entity_edges side document (dict_of (map (\<lambda>e. (entity_id e, e)) es)) e = Inr (own, ds) \<and>
    (\<forall>x \<in> set own. own_edge side document e x) \<and> distinct (map ie_field_path own) \<and> (\<forall>x \<in> set ds. definition_edge side x)"
proof (cases e)
  case (Binding b)
  note port = port_edges_Inr [OF ids _ ref_coordinate_ok(2) [of e]]
  obtain p where p: "port_at es (bi_target b) p" "source_ok es (bi_source b) p"
    using ok Binding by (auto simp: binding_ok_def)
  obtain c ds where t: "port_edges side (entity_coordinate e) ''/target'' (bi_target b) (dict_of (map (\<lambda>e. (entity_id e, e)) es)) =
      Inr ([edge side (entity_coordinate e) c ''/target'' PortSelection MayAffect], ds)"
    "coordinate_ok c" "\<forall>x \<in> set ds. definition_edge side x"
    using port [OF p(1)] by blast
  show ?thesis
  proof (cases "bi_source b")
    case (PortSource r)
    then obtain q where "port_at es r q" using p(2) by (auto simp: source_ok_def)
    then obtain c' ds' where "port_edges side (entity_coordinate e) ''/source'' r (dict_of (map (\<lambda>e. (entity_id e, e)) es)) =
        Inr ([edge side (entity_coordinate e) c' ''/source'' PortSelection MayAffect], ds')"
      "coordinate_ok c'" "\<forall>x \<in> set ds'. definition_edge side x"
      using port by blast
    then show ?thesis using t Binding PortSource by (auto simp: binding_edges_def own_edge_def edge_ok_def)
  next
    case (ValueSource v)
    then show ?thesis using t Binding by (auto simp: binding_edges_def own_edge_def edge_ok_def)
  qed
qed (use document in \<open>auto simp: Let_def own_edge_def edge_ok_def ref_edges_paths distinct_positions position_path_def
   simp del: map_map dest!: ref_edges_ok [rotated]\<close>)

lemma distinct_map_concat:
  assumes "distinct xs" "\<And>x. x \<in> set xs \<Longrightarrow> distinct (map g (f x))"
    and "\<And>x y. x \<in> set xs \<Longrightarrow> y \<in> set xs \<Longrightarrow> x \<noteq> y \<Longrightarrow> g ` set (f x) \<inter> g ` set (f y) = {}"
  shows "distinct (map g (concat (map f xs)))"
  using assms by (induction xs) (simp_all add: image_UN, blast)

definition edge_place :: "impact_edge \<Rightarrow> coordinate_key \<times> string" where
  "edge_place x = (coordinate_key (ie_source x), ie_field_path x)"

definition edge_ends :: "impact_edge \<Rightarrow> coordinate_key \<times> coordinate_key" where
  "edge_ends x = (coordinate_key (ie_source x), coordinate_key (ie_target x))"

lemma edge_key_place: "edge_key x = edge_key y \<Longrightarrow> edge_place x = edge_place y \<and> edge_ends x = edge_ends y \<and> ie_side x = ie_side y"
  by (auto simp: edge_key_def edge_place_def edge_ends_def)

lemma distinct_edge_key:
  "distinct (map edge_place xs) \<Longrightarrow> distinct (map edge_key xs)"
  "distinct (map edge_ends xs) \<Longrightarrow> distinct (map edge_key xs)"
  by (auto simp: distinct_map inj_on_def dest: edge_key_place)

lemma root_edges_facts:
  "x \<in> set (root_edges side document roots) \<Longrightarrow> coordinate_ok document \<Longrightarrow>
     edge_ok side x \<and> ie_source x = document \<and> (\<exists>i. ie_field_path x = position_path ''roots'' i)"
  "distinct (map edge_place (root_edges side document roots))"
proof -
  show "x \<in> set (root_edges side document roots) \<Longrightarrow> coordinate_ok document \<Longrightarrow>
     edge_ok side x \<and> ie_source x = document \<and> (\<exists>i. ie_field_path x = position_path ''roots'' i)"
    by (auto simp: root_edges_def edge_ok_def position_path_def)
  have "map ie_field_path (root_edges side document roots) = map (position_path ''roots'') [0..<length roots]"
    by (auto simp: root_edges_def comp_def case_prod_unfold map_fst_zip simp flip: map_map [of _ fst, unfolded comp_def])
  then have "distinct (map ie_field_path (root_edges side document roots))" by (simp add: distinct_positions)
  then show "distinct (map edge_place (root_edges side document roots))"
    by (auto simp: distinct_map inj_on_def edge_place_def)
qed

lemma distinct_map_append3:
  assumes "distinct (map f xs)" "distinct (map f ys)" "distinct (map f zs)"
    and "\<And>x y. x \<in> set xs \<Longrightarrow> y \<in> set ys \<union> set zs \<Longrightarrow> f x \<noteq> f y"
    and "\<And>x y. x \<in> set ys \<Longrightarrow> y \<in> set zs \<Longrightarrow> f x \<noteq> f y"
  shows "distinct (map f (xs @ ys @ zs))"
  using assms by fastforce

lemma edges_apart:
  "ie_source x = document \<Longrightarrow> ie_field_path x = position_path ''roots'' i \<Longrightarrow> own_edge side document e y \<Longrightarrow>
     document = DocumentCoordinate j \<Longrightarrow> edge_key x \<noteq> edge_key y"
  "ie_source x = DocumentCoordinate j \<Longrightarrow> definition_edge side y \<Longrightarrow> edge_key x \<noteq> edge_key y"
  "own_edge side (DocumentCoordinate j) e x \<Longrightarrow> definition_edge side y \<Longrightarrow> edge_key x \<noteq> edge_key y"
  by (auto simp: own_edge_def definition_edge_def entity_coordinate_def position_path_def edge_place_def dest!: edge_key_place)

lemma own_edges_distinct:
  assumes ids: "distinct (map entity_id es)" and document: "document = DocumentCoordinate i"
    and own: "\<And>e x. e \<in> set es \<Longrightarrow> x \<in> set (own e) \<Longrightarrow> own_edge side document e x"
    and paths: "\<And>e. e \<in> set es \<Longrightarrow> distinct (map ie_field_path (own e))"
  shows "distinct (map edge_place (concat (map own es)))"
proof (rule distinct_map_concat)
  show "distinct es" using ids by (simp add: distinct_map)
  show "distinct (map edge_place (own e))" if "e \<in> set es" for e
    using paths [OF that] by (auto simp: distinct_map inj_on_def edge_place_def)
  show "edge_place ` set (own e) \<inter> edge_place ` set (own e') = {}" if e: "e \<in> set es" "e' \<in> set es" "e \<noteq> e'" for e e'
  proof -
    have "entity_id e \<noteq> entity_id e'" using ids e by (auto simp: distinct_map dest: inj_onD)
    then have "edge_place x \<noteq> edge_place y" if "x \<in> set (own e)" "y \<in> set (own e')" for x y
      using own [OF e(1) that(1)] own [OF e(2) that(2)] unfolding document
      by (auto simp: own_edge_def edge_place_def entity_coordinate_def)
    then show ?thesis by fastforce
  qed
qed

lemma dict_values_facts:
  fixes f :: "'a \<Rightarrow> 'b"
  shows "set (dict_values (dict_of (map (\<lambda>e. (f e, e)) xs))) \<subseteq> set xs"
    and "distinct (map f (dict_values (dict_of (map (\<lambda>e. (f e, e)) xs))))"
proof -
  let ?d = "dict_of (map (\<lambda>e. (f e, e)) xs)"
  have wf: "wf_dict ?d" by simp
  have entry: "v \<in> set xs \<and> k = f v" if "(k, v) \<in> set ?d" for k v
  proof -
    have "map_of (rev (map (\<lambda>e. (f e, e)) xs)) k = Some v"
      using wf_dict_lookup [OF wf, of k v] that by (simp add: map_of_merge_rev)
    then show ?thesis by (auto dest!: map_of_SomeD)
  qed
  then show "set (dict_values ?d) \<subseteq> set xs" by auto
  have "map f (dict_values ?d) = dict_keys ?d" using entry by auto
  then show "distinct (map f (dict_values ?d))" using wf unfolding wf_dict_def by metis
qed

lemma extract_edges_Inr:
  assumes ok: "ir_ok d"
  shows "\<exists>es. extract_edges d side = Inr es \<and> (\<forall>x \<in> set es. edge_ok side x) \<and> distinct (map edge_key es)"
proof -
  let ?es = "sort_key entity_key (be_entities d)" and ?document = "DocumentCoordinate (be_document_id d)"
  let ?index = "dict_of (map (\<lambda>e. (entity_id e, e)) (be_entities d))"
  have ids: "distinct (map entity_id (be_entities d))" and entities: "\<forall>e \<in> set ?es. entity_ok (be_entities d) e"
    using ok by (simp_all add: ir_ok_def)
  have "\<forall>e \<in> set ?es. \<exists>p. entity_edges side ?document ?index e = Inr p \<and> (\<forall>x \<in> set (fst p). own_edge side ?document e x) \<and>
      distinct (map ie_field_path (fst p)) \<and> (\<forall>x \<in> set (snd p). definition_edge side x)"
  proof
    fix e assume "e \<in> set ?es"
    then obtain own ds where "entity_edges side ?document ?index e = Inr (own, ds)"
      "\<forall>x \<in> set own. own_edge side ?document e x" "distinct (map ie_field_path own)" "\<forall>x \<in> set ds. definition_edge side x"
      using entity_edges_Inr [OF ids, of e ?document side] entities by auto
    then show "\<exists>p. entity_edges side ?document ?index e = Inr p \<and> (\<forall>x \<in> set (fst p). own_edge side ?document e x) \<and>
      distinct (map ie_field_path (fst p)) \<and> (\<forall>x \<in> set (snd p). definition_edge side x)"
      by (intro exI [of _ "(own, ds)"]) simp
  qed
  from bchoice [OF this] obtain h where h: "\<forall>e \<in> set ?es. entity_edges side ?document ?index e = Inr (h e) \<and>
      (\<forall>x \<in> set (fst (h e)). own_edge side ?document e x) \<and> distinct (map ie_field_path (fst (h e))) \<and>
      (\<forall>x \<in> set (snd (h e)). definition_edge side x)"
    by blast
  let ?roots = "root_edges side ?document (be_roots d)" and ?own = "concat (map (\<lambda>e. fst (h e)) ?es)"
  let ?ds = "concat (map (\<lambda>e. snd (h e)) ?es)"
  let ?defs = "dict_values (dict_of (map (\<lambda>e. (edge_ends e, e)) ?ds))"
  have res: "extract_edges d side = Inr (?roots @ ?own @ ?defs)"
    using h res_map_total [of ?es "entity_edges side ?document ?index" h]
    by (simp add: extract_edges_def edge_ends_def comp_def)
  have own: "\<exists>e. own_edge side ?document e x" if "x \<in> set ?own" for x using h that by auto
  have defs: "definition_edge side x" if "x \<in> set ?defs" for x using dict_values_facts(1) [of edge_ends ?ds] h that by auto
  have keys: "distinct (map edge_key ?roots)" "distinct (map edge_key ?own)" "distinct (map edge_key ?defs)"
  proof -
    show "distinct (map edge_key ?roots)" by (rule distinct_edge_key(1) [OF root_edges_facts(2)])
    show "distinct (map edge_key ?defs)" by (rule distinct_edge_key(2) [OF dict_values_facts(2)])
    have "distinct (map entity_id ?es)" using ids by (simp add: distinct_map)
    then show "distinct (map edge_key ?own)"
      using own_edges_distinct [of ?es ?document _ "\<lambda>e. fst (h e)" side] h by (intro distinct_edge_key(1)) blast
  qed
  have roots: "edge_ok side x" "ie_source x = ?document" "\<exists>i. ie_field_path x = position_path ''roots'' i"
    if "x \<in> set ?roots" for x using root_edges_facts(1) [OF that] by auto
  have "distinct (map edge_key (?roots @ ?own @ ?defs))"
  proof (rule distinct_map_append3 [OF keys])
    show "edge_key x \<noteq> edge_key y" if "x \<in> set ?roots" "y \<in> set ?own \<union> set ?defs" for x y
      using roots(2,3) [OF that(1)] that(2) own [of y] defs [of y] edges_apart(1,2) by blast
    show "edge_key x \<noteq> edge_key y" if "x \<in> set ?own" "y \<in> set ?defs" for x y
      using own [OF that(1)] defs [OF that(2)] edges_apart(3) by blast
  qed
  moreover have "\<forall>x \<in> set (?roots @ ?own @ ?defs). edge_ok side x"
    unfolding set_append Ball_def using roots(1) own defs unfolding own_edge_def definition_edge_def by blast
  ultimately show ?thesis using res by blast
qed

lemma impact_edges_Inr:
  assumes "ir_ok base" "ir_ok final"
  shows "\<exists>es. impact_edges base final = Inr es \<and> (\<forall>x \<in> set es. edge_ok (ie_side x) x) \<and>
    distinct (map edge_key es) \<and> sorted (map edge_key es)"
proof -
  obtain be where be: "extract_edges base BaseSide = Inr be" "\<forall>x \<in> set be. edge_ok BaseSide x" "distinct (map edge_key be)"
    using extract_edges_Inr [OF assms(1)] by blast
  obtain fe where fe: "extract_edges final FinalSide = Inr fe" "\<forall>x \<in> set fe. edge_ok FinalSide x" "distinct (map edge_key fe)"
    using extract_edges_Inr [OF assms(2)] by blast
  have "edge_key x \<noteq> edge_key y" if "x \<in> set be" "y \<in> set fe" for x y
    using that be(2) fe(2) by (auto simp: edge_ok_def dest!: edge_key_place)
  then have "distinct (map edge_key (sort_key edge_key (be @ fe)))" using be(3) fe(3) by (auto simp: distinct_map inj_on_def dest: sym)
  then show ?thesis using be(1,2) fe(1,2) by (auto simp: impact_edges_def edge_ok_def)
qed

end
