(* ===== verification/Impact_Search.thy ===== *)
theory Impact_Search
  imports Impact_Graph
begin

text \<open>
  The search of \<^verbatim>\<open>_derive_witnesses\<close> in \<^verbatim>\<open>src/ucf/change_governance/graph.py\<close>: from the coordinates
  a change touches, against the edges, to everything that depends on them. The heap is modelled by
  taking the least element of a list, which is what \<^verbatim>\<open>heappop\<close> returns. The search is proved to visit
  every coordinate that can be reached, once, by the least of all walks to it.
\<close>

section \<open>The search\<close>

definition source_key :: "impact_edge list \<Rightarrow> nat \<Rightarrow> coordinate_key" where
  "source_key es i = coordinate_key (ie_source (es ! i))"

text \<open>\<^verbatim>\<open>reverse[(side, key)]\<close>: the edges of the side that end at a coordinate.\<close>

definition incoming :: "impact_edge list \<Rightarrow> graph_side \<Rightarrow> coordinate_key \<Rightarrow> nat list" where
  "incoming es side k =
     filter (\<lambda>i. ie_side (es ! i) = side \<and> coordinate_key (ie_target (es ! i)) = k) [0..<length es]"

type_synonym search_item = "nat \<times> nat list \<times> coordinate_key"

definition pushed :: "impact_edge list \<Rightarrow> graph_side \<Rightarrow> coordinate_key list \<Rightarrow> nat list \<Rightarrow> coordinate_key \<Rightarrow> search_item list" where
  "pushed es side visited path k =
     map (\<lambda>i. (length path + 1, path @ [i], source_key es i))
       (filter (\<lambda>i. source_key es i \<notin> set visited) (incoming es side k))"

definition open_keys :: "impact_edge list \<Rightarrow> search_item list \<Rightarrow> coordinate_key list \<Rightarrow> coordinate_key set" where
  "open_keys es queue visited = ((snd \<circ> snd) ` set queue \<union> source_key es ` {..<length es}) - set visited"

lemma open_keys_visit:
  assumes "(l, path, k) \<in> set queue" "k \<notin> set visited"
  shows "card (open_keys es (remove1 (l, path, k) queue @ pushed es side (k # visited) path k) (k # visited)) <
    card (open_keys es queue visited)"
proof (rule psubset_card_mono)
  show "finite (open_keys es queue visited)" by (simp add: open_keys_def)
  have "k \<in> open_keys es queue visited" using assms by (force simp: open_keys_def)
  moreover have "open_keys es (remove1 (l, path, k) queue @ pushed es side (k # visited) path k) (k # visited) \<subseteq>
      open_keys es queue visited - {k}"
    by (auto simp: open_keys_def pushed_def incoming_def dest: notin_set_remove1 intro: rev_image_eqI)
  ultimately show "open_keys es (remove1 (l, path, k) queue @ pushed es side (k # visited) path k) (k # visited) \<subset>
      open_keys es queue visited" by blast
qed

lemma open_keys_skip:
  "card (open_keys es (remove1 item queue) visited) \<le> card (open_keys es queue visited)"
  by (rule card_mono) (auto simp: open_keys_def dest: set_remove1_subset [THEN subsetD])

function search ::
  "impact_edge list \<Rightarrow> graph_side \<Rightarrow> search_item list \<Rightarrow> coordinate_key list \<Rightarrow> (coordinate_key \<times> nat list) list \<Rightarrow>
     (coordinate_key \<times> nat list) list" where
  "search es side queue visited found =
     (if queue = [] then found
      else
        (let (l, path, k) = Min (set queue); rest = remove1 (l, path, k) queue in
         if k \<in> set visited then search es side rest visited found
         else
           search es side (rest @ pushed es side (k # visited) path k) (k # visited)
             (if path = [] then found else found @ [(k, path)])))"
  by pat_completeness auto
termination
proof (relation "measures [\<lambda>(es, side, queue, visited, found). card (open_keys es queue visited),
    \<lambda>(es, side, queue, visited, found). length queue]", goal_cases)
  case 1
  then show ?case by simp
next
  case (2 es side queue visited found item l rest path k rest')
  then have "(l, path, k) \<in> set queue" using Min_in [of "set queue"] by auto
  then have "length (remove1 (l, path, k) queue) < length queue"
    using length_pos_if_in_set [of "(l, path, k)" queue] by (simp add: length_remove1)
  then show ?case using 2 open_keys_skip [of es "(l, path, k)" queue visited] by auto
next
  case (3 es side queue visited found item l rest path k rest')
  then have "(l, path, k) \<in> set queue" using Min_in [of "set queue"] by auto
  then show ?case using 3 open_keys_visit [of l path k queue visited es side] by auto
qed

declare search.simps [simp del]


section \<open>Walks against the edges\<close>

fun walk :: "impact_edge list \<Rightarrow> graph_side \<Rightarrow> coordinate_key \<Rightarrow> nat list \<Rightarrow> coordinate_key \<Rightarrow> bool" where
  "walk es side k [] t \<longleftrightarrow> k = t"
| "walk es side k (i # p) t \<longleftrightarrow> i \<in> set (incoming es side k) \<and> walk es side (source_key es i) p t"

definition reach :: "impact_edge list \<Rightarrow> graph_side \<Rightarrow> coordinate_key set \<Rightarrow> nat list \<Rightarrow> coordinate_key \<Rightarrow> bool" where
  "reach es side S p t \<longleftrightarrow> (\<exists>s \<in> S. walk es side s p t)"

text \<open>The shortest walk, and among these the least sequence of edges.\<close>

definition best :: "impact_edge list \<Rightarrow> graph_side \<Rightarrow> coordinate_key set \<Rightarrow> nat list \<Rightarrow> coordinate_key \<Rightarrow> bool" where
  "best es side S p t \<longleftrightarrow> reach es side S p t \<and> (\<forall>q. reach es side S q t \<longrightarrow> (length p, p) \<le> (length q, q))"

lemma walk_append: "walk es side k (p @ q) t \<longleftrightarrow> (\<exists>m. walk es side k p m \<and> walk es side m q t)"
  by (induction p arbitrary: k) auto

lemma reach_Nil: "reach es side S [] t \<longleftrightarrow> t \<in> S"
  by (auto simp: reach_def)

lemma reach_snoc:
  "reach es side S (p @ [i]) t \<longleftrightarrow> (\<exists>m. reach es side S p m \<and> i \<in> set (incoming es side m) \<and> t = source_key es i)"
  by (auto simp: reach_def walk_append)

lemma best_unique: "best es side S p t \<Longrightarrow> best es side S q t \<Longrightarrow> p = q"
  unfolding best_def by (metis order_antisym prod.inject)

lemma lex_snoc:
  fixes p q :: "nat list"
  assumes "length p = length q" "p \<le> q"
  shows "p @ [i] \<le> q @ [i]"
  using assms by (induction p q rule: list_induct2) auto

lemma walk_order_snoc:
  fixes p q :: "nat list"
  assumes "(length p, p) \<le> (length q, q)"
  shows "(length (p @ [i]), p @ [i]) \<le> (length (q @ [i]), q @ [i])"
  using assms by (auto intro: lex_snoc)

section \<open>The invariant of the search\<close>

definition graph_search_inv ::
  "impact_edge list \<Rightarrow> graph_side \<Rightarrow> coordinate_key set \<Rightarrow> search_item list \<Rightarrow> coordinate_key list \<Rightarrow>
     (coordinate_key \<times> nat list) list \<Rightarrow> bool" where
  "graph_search_inv es side S queue visited found \<longleftrightarrow>
     (\<forall>(l, p, k) \<in> set queue. l = length p \<and> reach es side S p k) \<and>
     (\<forall>s \<in> S. s \<in> set visited \<or> (0, [], s) \<in> set queue) \<and>
     (\<forall>v \<in> set visited. \<exists>p. best es side S p v \<and>
        (\<forall>i \<in> set (incoming es side v). source_key es i \<in> set visited \<or>
           (length p + 1, p @ [i], source_key es i) \<in> set queue)) \<and>
     set found = {(k, p). k \<in> set visited \<and> p \<noteq> [] \<and> best es side S p k} \<and>
     distinct (map fst found)"

lemma graph_search_invD:
  assumes "graph_search_inv es side S queue visited found"
  shows "(l, p, k) \<in> set queue \<Longrightarrow> l = length p \<and> reach es side S p k"
    and "s \<in> S \<Longrightarrow> s \<in> set visited \<or> (0, [], s) \<in> set queue"
    and "v \<in> set visited \<Longrightarrow> \<exists>p. best es side S p v \<and> (\<forall>i \<in> set (incoming es side v).
      source_key es i \<in> set visited \<or> (length p + 1, p @ [i], source_key es i) \<in> set queue)"
    and "set found = {(k, p). k \<in> set visited \<and> p \<noteq> [] \<and> best es side S p k}"
    and "distinct (map fst found)"
  using assms unfolding graph_search_inv_def by blast+

text \<open>Every walk to a coordinate not yet visited is bounded by an item of the queue.\<close>

lemma search_frontier:
  assumes inv: "graph_search_inv es side S queue visited found"
    and q: "reach es side S q t" "t \<notin> set visited"
  shows "\<exists>(l, p, k) \<in> set queue. k \<notin> set visited \<and> (l, p) \<le> (length q, q)"
  using q
proof (induction q arbitrary: t rule: rev_induct)
  case Nil
  then show ?case using inv by (auto simp: graph_search_inv_def reach_Nil)
next
  case (snoc i q)
  then obtain m where m: "reach es side S q m" "i \<in> set (incoming es side m)" "t = source_key es i"
    by (auto simp: reach_snoc)
  show ?case
  proof (cases "m \<in> set visited")
    case False
    then obtain l p k where f: "(l, p, k) \<in> set queue" "k \<notin> set visited" "(l, p) \<le> (length q, q)"
      using snoc.IH [OF m(1)] by auto
    then have "(l, p) \<le> (length (q @ [i]), q @ [i])" by auto
    then show ?thesis using f(1,2) by auto
  next
    case True
    then obtain p where p: "best es side S p m" "(length p + 1, p @ [i], t) \<in> set queue"
      using graph_search_invD(3) [OF inv True] m(2,3) snoc.prems(2) by blast
    then have "(length p, p) \<le> (length q, q)" using m(1) by (simp add: best_def)
    then have "(length p + 1, p @ [i]) \<le> (length (q @ [i]), q @ [i])" using walk_order_snoc [of p q i] by simp
    then show ?thesis using p(2) snoc.prems(2) by auto
  qed
qed

lemma search_pop_best:
  assumes inv: "graph_search_inv es side S queue visited found"
    and item: "(l, p, k) \<in> set queue" "\<And>x. x \<in> set queue \<Longrightarrow> (l, p, k) \<le> x" "k \<notin> set visited"
  shows "l = length p" "best es side S p k"
proof -
  show l: "l = length p" using inv item(1) by (auto simp: graph_search_inv_def)
  have "(length p, p) \<le> (length q, q)" if q: "reach es side S q k" for q
  proof -
    obtain l' p' k' where f: "(l', p', k') \<in> set queue" "(l', p') \<le> (length q, q)"
      using search_frontier [OF inv q item(3)] by auto
    then have "(l, p) \<le> (l', p')" using item(2) [OF f(1)] by auto
    then show ?thesis using f(2) unfolding l by (rule order_trans)
  qed
  then show "best es side S p k" using inv item(1) by (auto simp: graph_search_inv_def best_def)
qed

lemma in_remove1_cases: "x \<in> set xs \<Longrightarrow> x \<in> set (remove1 y xs) \<or> x = y"
  by (metis in_set_remove1)

lemma graph_search_inv_skip:
  assumes "graph_search_inv es side S queue visited found" "k \<in> set visited"
  shows "graph_search_inv es side S (remove1 (l, p, k) queue) visited found"
proof -
  have kept: "x \<in> set (remove1 (l, p, k) queue)" if "x \<in> set queue" "snd (snd x) \<notin> set visited" for x
    using in_remove1_cases [OF that(1), of "(l, p, k)"] that(2) assms(2) by auto
  have "(l', p', k') \<in> set queue" if "(l', p', k') \<in> set (remove1 (l, p, k) queue)" for l' p' k'
    using that set_remove1_subset by fast
  moreover have "source_key es i \<in> set visited \<or> x \<in> set (remove1 (l, p, k) queue)"
    if "source_key es i \<in> set visited \<or> x \<in> set queue" "snd (snd x) = source_key es i" for i x
    using that kept [of x] by auto
  moreover have "s \<in> set visited \<or> (0, [], s) \<in> set (remove1 (l, p, k) queue)" if "s \<in> S" for s
    using that assms(1) kept [of "(0, [], s)"] by (auto simp: graph_search_inv_def)
  ultimately show ?thesis using assms(1) unfolding graph_search_inv_def by (smt (verit) case_prodE case_prodI2 snd_conv)
qed

lemma graph_search_inv_visit:
  assumes inv: "graph_search_inv es side S queue visited found"
    and item: "(l, p, k) \<in> set queue" "\<And>x. x \<in> set queue \<Longrightarrow> (l, p, k) \<le> x" "k \<notin> set visited"
  shows "graph_search_inv es side S (remove1 (l, p, k) queue @ pushed es side (k # visited) p k) (k # visited)
    (if p = [] then found else found @ [(k, p)])"
proof -
  note best = search_pop_best [OF inv item]
  let ?queue = "remove1 (l, p, k) queue @ pushed es side (k # visited) p k"
  have kept: "x \<in> set ?queue" if "x \<in> set queue" "snd (snd x) \<noteq> k" for x
    using in_remove1_cases [OF that(1), of "(l, p, k)"] that(2) by auto
  have "l' = length p' \<and> reach es side S p' k'" if "(l', p', k') \<in> set ?queue" for l' p' k'
    using that graph_search_invD(1) [OF inv, of l' p' k'] best(2)
    by (auto simp: pushed_def best_def reach_snoc dest: set_remove1_subset [THEN subsetD])
  moreover have "s \<in> set (k # visited) \<or> (0, [], s) \<in> set ?queue" if "s \<in> S" for s
    using graph_search_invD(2) [OF inv that] kept [of "(0, [], s)"] by auto
  moreover have "\<exists>p. best es side S p v \<and> (\<forall>i \<in> set (incoming es side v). source_key es i \<in> set (k # visited) \<or>
      (length p + 1, p @ [i], source_key es i) \<in> set ?queue)" if v: "v \<in> set (k # visited)" for v
  proof (cases "v = k")
    case True
    then show ?thesis using best by (intro exI [of _ p]) (auto simp: pushed_def)
  next
    case False
    then obtain q where q: "best es side S q v" "\<forall>i \<in> set (incoming es side v). source_key es i \<in> set visited \<or>
        (length q + 1, q @ [i], source_key es i) \<in> set queue"
      using graph_search_invD(3) [OF inv, of v] v by auto
    have "source_key es i \<in> set (k # visited) \<or> (length q + 1, q @ [i], source_key es i) \<in> set ?queue"
      if "i \<in> set (incoming es side v)" for i
      using q(2) that kept [of "(length q + 1, q @ [i], source_key es i)"] by auto
    then show ?thesis using q(1) by blast
  qed
  moreover have "set (if p = [] then found else found @ [(k, p)]) =
      {(k', p'). k' \<in> set (k # visited) \<and> p' \<noteq> [] \<and> best es side S p' k'}"
  proof -
    have "best es side S p' k \<longleftrightarrow> p' = p" for p' using best(2) best_unique by blast
    then show ?thesis using graph_search_invD(4) [OF inv] by auto
  qed
  moreover have "distinct (map fst (if p = [] then found else found @ [(k, p)]))"
    using graph_search_invD(4,5) [OF inv] item(3) by force
  ultimately show ?thesis unfolding graph_search_inv_def by blast
qed

lemma graph_search_inv_result:
  "graph_search_inv es side S queue visited found \<Longrightarrow>
     set (search es side queue visited found) = {(k, p). p \<noteq> [] \<and> best es side S p k} \<and>
     distinct (map fst (search es side queue visited found))"
proof (induction es side queue visited found rule: search.induct)
  case (1 es side queue visited found)
  show ?case
  proof (cases "queue = []")
    case True
    then have "k \<in> set visited" if "best es side S p k" for k p
      using search_frontier [OF "1.prems", of p k] that by (auto simp: best_def)
    then show ?thesis using "1.prems" True by (auto simp: search.simps graph_search_inv_def)
  next
    case False
    obtain l p k where item: "Min (set queue) = (l, p, k)" by (cases "Min (set queue)")
    have least: "(l, p, k) \<in> set queue" "\<And>x. x \<in> set queue \<Longrightarrow> (l, p, k) \<le> x"
      using Min_in [of "set queue"] False by (auto simp flip: item)
    show ?thesis
    proof (cases "k \<in> set visited")
      case True
      then show ?thesis
        using "1.IH"(1) [OF False item [symmetric] refl refl refl True] graph_search_inv_skip [OF "1.prems" True] False item
        by (simp add: search.simps [of es side queue])
    next
      case new: False
      then show ?thesis
        using "1.IH"(2) [OF False item [symmetric] refl refl refl new] graph_search_inv_visit [OF "1.prems" least new] False item
        by (simp add: search.simps [of es side queue])
    qed
  qed
qed

definition seed_queue :: "coordinate_key list \<Rightarrow> search_item list" where
  "seed_queue ks = map (\<lambda>k. (0, [], k)) (sorted_set ks)"

lemma search_result:
  "set (search es side (seed_queue ks) [] []) = {(k, p). p \<noteq> [] \<and> best es side (set ks) p k} \<and>
   distinct (map fst (search es side (seed_queue ks) [] []))"
proof (rule graph_search_inv_result)
  show "graph_search_inv es side (set ks) (seed_queue ks) [] []"
    by (auto simp: graph_search_inv_def seed_queue_def reach_Nil)
qed

text \<open>
  C18: The search from a set of seeds finds every coordinate that depends on one of them, and only
  those: it returns a coordinate with a path exactly when the path is the least of all walks from a
  seed to the coordinate - the shortest ones, and among those the one with the least edge indexes -
  and is not empty. It returns no coordinate twice, whatever cycles the references have.
\<close>

theorem search_exact:
  "set (search es side (seed_queue ks) [] []) = {(k, p). p \<noteq> [] \<and> best es side (set ks) p k} \<and>
   distinct (map fst (search es side (seed_queue ks) [] []))"
  by (rule search_result)

end
