(* ===== verification/Impact_Witnesses.thy ===== *)
theory Impact_Witnesses
  imports Impact_Search
begin

text \<open>
  The witnesses of an impact, \<^verbatim>\<open>src/ucf/change_governance/graph.py\<close> and the models of subjects,
  findings and witnesses in \<^verbatim>\<open>models.py\<close>: the seeds of a changed entity on each side, the search from
  them, and the validation of the witnesses it gives. Exceptions are their messages.
\<close>

section \<open>Subjects, findings and witnesses (models.py)\<close>

record impact_subject =
  su_operation :: string
  su_key :: subject_id

record impact_finding =
  fi_subject :: impact_subject
  fi_precision :: impact_precision
  fi_changed_paths :: "string list"

record impact_witness =
  wi_subject :: impact_subject
  wi_side :: graph_side
  wi_affected :: coordinate
  wi_precision :: impact_precision
  wi_edges :: "nat list"

definition impact_order :: "impact_subject \<Rightarrow> string \<times> string \<times> string" where
  "impact_order s = (su_operation s, su_key s)"

definition witness_identity :: "impact_witness \<Rightarrow> string \<times> (string \<times> string \<times> string) \<times> coordinate_key" where
  "witness_identity w = (side_value (wi_side w), impact_order (wi_subject w), coordinate_key (wi_affected w))"

definition witness_key ::
  "impact_witness \<Rightarrow> (string \<times> (string \<times> string \<times> string) \<times> coordinate_key) \<times> nat list" where
  "witness_key w = (witness_identity w, wi_edges w)"

definition path_precision :: "impact_edge list \<Rightarrow> nat list \<Rightarrow> impact_precision" where
  "path_precision es path =
     (let precisions = map (\<lambda>i. ie_precision (es ! i)) path in
      if Unresolved \<in> set precisions then Unresolved
      else if MayAffect \<in> set precisions then MayAffect else Definite)"

fun binds_subject :: "coordinate \<Rightarrow> impact_subject \<Rightarrow> bool" where
  "binds_subject (EntityCoordinate k i) s \<longleftrightarrow> (entity_kind_value k, i) = su_key s"
| "binds_subject (PortCoordinate k i d n a) s \<longleftrightarrow> (entity_kind_value k, i) = su_key s"
| "binds_subject (DocumentCoordinate i) s \<longleftrightarrow> False"

text \<open>The walk along a path of edges: the last coordinate, or where the path breaks or turns back.\<close>

fun follow :: "coordinate \<Rightarrow> coordinate_key list \<Rightarrow> impact_edge list \<Rightarrow> (string, coordinate) res" where
  "follow current seen [] = Inr current"
| "follow current seen (e # path) =
     (if ie_target e \<noteq> current then Inl ''is discontinuous''
      else if coordinate_key (ie_source e) \<in> set seen then Inl ''contains a coordinate cycle''
      else follow (ie_source e) (coordinate_key (ie_source e) # seen) path)"

definition validate_witness :: "impact_edge list \<Rightarrow> impact_witness \<Rightarrow> (string, unit) res" where
  "validate_witness es w =
     (let path = map (\<lambda>i. es ! i) (wi_edges w); start = ie_target (hd path) in
      if wi_edges w = [] then Inl ''too_short''
      else if \<not> distinct (wi_edges w) then Inl ''repeats an edge''
      else if \<exists>i \<in> set (wi_edges w). length es \<le> i then Inl ''names an out-of-range edge''
      else if \<exists>e \<in> set path. ie_side e \<noteq> wi_side w then Inl ''crosses graph sides''
      else if \<not> binds_subject start (wi_subject w) then Inl ''does not start at its direct subject''
      else
        (case follow start [coordinate_key start] path of
           Inl m \<Rightarrow> Inl m
         | Inr end \<Rightarrow>
             if end \<noteq> wi_affected w then Inl ''ends at the wrong coordinate''
             else if wi_precision w \<noteq> path_precision es (wi_edges w) then Inl ''precision disagrees with its path''
             else Inr ()))"

section \<open>Seeds\<close>

definition entity_at :: "behavior_ir \<Rightarrow> subject_id \<Rightarrow> (string, entity) res" where
  "entity_at d k =
     (case find (\<lambda>e. entity_key e = k) (be_entities d) of None \<Rightarrow> Inl ''StopIteration'' | Some e \<Rightarrow> Inr e)"

fun declared_ports :: "entity \<Rightarrow> (direction \<times> port list) list option" where
  "declared_ports (Action a) = Some [(Input, ac_input_ports a), (Output, ac_output_ports a)]"
| "declared_ports (UseCase u) = Some [(Input, us_input_ports u), (Output, us_output_ports u)]"
| "declared_ports e = None"

definition port_seed :: "entity \<Rightarrow> direction \<Rightarrow> port \<Rightarrow> coordinate" where
  "port_seed e d p = PortCoordinate (kind_of e) (entity_id e) d (po_name p) None"

text \<open>The ports of the current declaration that the opposite one does not have in the same form.\<close>

definition changed_declared_ports ::
  "entity \<Rightarrow> (direction \<times> port list) list \<Rightarrow> (direction \<times> port list) list \<Rightarrow> coordinate list" where
  "changed_declared_ports current current_ports opposite_ports =
     concat (map (\<lambda>((d, ps), (d', opposite)).
       (let opposite_by_name = dict_of (map (\<lambda>p. (po_name p, p)) opposite) in
        map (port_seed current d) (filter (\<lambda>p. map_of opposite_by_name (po_name p) \<noteq> Some p) ps)))
       (zip current_ports opposite_ports))"

definition selects_step :: "graph_side \<Rightarrow> string \<Rightarrow> graph_side \<times> coordinate \<Rightarrow> bool" where
  "selects_step side step_id p =
     (case p of (s, PortCoordinate k i d n a) \<Rightarrow> s = side \<and> k = StepKind \<and> i = step_id | _ \<Rightarrow> False)"

definition selected_step_ports :: "string \<Rightarrow> graph_side \<Rightarrow> impact_edge list \<Rightarrow> coordinate list" where
  "selected_step_ports step_id side es =
     (let ends = concat (map (\<lambda>e. [(ie_side e, ie_source e), (ie_side e, ie_target e)]) es);
          selected = dict_of (map (\<lambda>p. (coordinate_key (snd p), snd p)) (filter (selects_step side step_id) ends))
      in map (\<lambda>k. the (map_of selected k)) (sorted_set (dict_keys selected)))"

definition all_port_seeds :: "entity \<Rightarrow> graph_side \<Rightarrow> impact_edge list \<Rightarrow> coordinate list" where
  "all_port_seeds e side es =
     (case declared_ports e of
        Some ports \<Rightarrow> concat (map (\<lambda>(d, ps). map (port_seed e d) ps) ports)
      | None \<Rightarrow> (case e of Step s \<Rightarrow> selected_step_ports (st_id s) side es | _ \<Rightarrow> []))"

definition modified_port_seeds ::
  "subject_id \<Rightarrow> graph_side \<Rightarrow> behavior_ir \<Rightarrow> behavior_ir \<Rightarrow> impact_edge list \<Rightarrow> (string, coordinate list) res" where
  "modified_port_seeds k side document opposite es =
     res_bind (entity_at document k) (\<lambda>current.
     res_bind (entity_at opposite k) (\<lambda>other.
     case declared_ports current of
       Some ps \<Rightarrow>
         (case declared_ports other of
            Some qs \<Rightarrow>
              if kind_of other = kind_of current then Inr (changed_declared_ports current ps qs)
              else Inl ''delta retained identity with a different type''
          | None \<Rightarrow> Inl ''delta retained identity with a different type'')
     | None \<Rightarrow>
         (case (current, other) of
            (Step s, Step t) \<Rightarrow> Inr (if st_action s \<noteq> st_action t then selected_step_ports (st_id s) side es else [])
          | _ \<Rightarrow> Inr [])))"

definition side_document :: "behavior_ir \<Rightarrow> behavior_ir \<Rightarrow> graph_side \<Rightarrow> behavior_ir" where
  "side_document base final side = (case side of BaseSide \<Rightarrow> base | FinalSide \<Rightarrow> final)"

definition opposite_side :: "graph_side \<Rightarrow> graph_side" where
  "opposite_side side = (case side of BaseSide \<Rightarrow> FinalSide | FinalSide \<Rightarrow> BaseSide)"

fun entry_sides :: "delta_entry \<Rightarrow> graph_side list" where
  "entry_sides (AddedBehavior f r) = [FinalSide]"
| "entry_sides (ModifiedBehavior b f as br fr) = [BaseSide, FinalSide]"
| "entry_sides (RemovedBehavior b r) = [BaseSide]"

definition entry_seeds ::
  "delta_entry \<Rightarrow> graph_side \<Rightarrow> behavior_ir \<Rightarrow> behavior_ir \<Rightarrow> impact_edge list \<Rightarrow> (string, coordinate list) res" where
  "entry_seeds entry side base final es =
     (let document = side_document base final side in
      res_bind (entity_at document (entry_subject entry)) (\<lambda>e.
      res_bind (case entry of
          ModifiedBehavior b f as br fr \<Rightarrow>
            modified_port_seeds (entry_subject entry) side document (side_document base final (opposite_side side)) es
        | _ \<Rightarrow> Inr (all_port_seeds e side es)) (\<lambda>ports.
      let unique = dict_of (map (\<lambda>c. (coordinate_key c, c)) (entity_coordinate e # ports)) in
      Inr (map (\<lambda>k. the (map_of unique k)) (sorted_set (dict_keys unique))))))"

section \<open>Witnesses\<close>

definition edge_coordinates :: "impact_edge list \<Rightarrow> (coordinate_key, coordinate) dict" where
  "edge_coordinates es = dict_of (concat (map (\<lambda>e.
     [(coordinate_key (ie_source e), ie_source e), (coordinate_key (ie_target e), ie_target e)]) es))"

definition witness_of ::
  "impact_edge list \<Rightarrow> impact_finding \<Rightarrow> graph_side \<Rightarrow> coordinate_key \<times> nat list \<Rightarrow> (string, impact_witness) res" where
  "witness_of es finding side found =
     (case map_of (edge_coordinates es) (fst found) of
        None \<Rightarrow> Inl ''KeyError''
      | Some c \<Rightarrow> Inr \<lparr>wi_subject = fi_subject finding, wi_side = side, wi_affected = c,
          wi_precision = path_precision es (snd found), wi_edges = snd found\<rparr>)"

definition side_witnesses ::
  "impact_edge list \<Rightarrow> behavior_ir \<Rightarrow> behavior_ir \<Rightarrow> delta_entry \<times> impact_finding \<Rightarrow> graph_side \<Rightarrow>
     (string, impact_witness list) res" where
  "side_witnesses es base final p side =
     res_bind (entry_seeds (fst p) side base final es) (\<lambda>seeds.
     res_map (witness_of es (snd p) side) (search es side (seed_queue (map coordinate_key seeds)) [] []))"

definition entry_witnesses ::
  "impact_edge list \<Rightarrow> behavior_ir \<Rightarrow> behavior_ir \<Rightarrow> delta_entry \<times> impact_finding \<Rightarrow> (string, impact_witness list) res" where
  "entry_witnesses es base final p =
     res_bind (res_map (side_witnesses es base final p) (entry_sides (fst p))) (\<lambda>ws. Inr (concat ws))"

definition derive_witnesses ::
  "delta_entry list \<Rightarrow> impact_finding list \<Rightarrow> impact_edge list \<Rightarrow> behavior_ir \<Rightarrow> behavior_ir \<Rightarrow>
     (string, impact_witness list) res" where
  "derive_witnesses entries findings es base final =
     res_bind (res_map (entry_witnesses es base final) (zip entries findings)) (\<lambda>ws.
     if length entries \<noteq> length findings then Inl ''ValueError'' else Inr (sort_key witness_key (concat ws)))"

definition derive_impact_graph ::
  "delta_entry list \<Rightarrow> impact_finding list \<Rightarrow> behavior_ir \<Rightarrow> behavior_ir \<Rightarrow>
     (string, impact_edge list \<times> impact_witness list) res" where
  "derive_impact_graph entries findings base final =
     res_bind (impact_edges base final) (\<lambda>es.
     res_bind (derive_witnesses entries findings es base final) (\<lambda>ws. Inr (es, ws)))"

section \<open>The coordinates along a least walk\<close>

definition vertices :: "impact_edge list \<Rightarrow> coordinate_key \<Rightarrow> nat list \<Rightarrow> coordinate_key list" where
  "vertices es k p = k # map (source_key es) p"

lemma walk_split:
  "walk es side k p t \<Longrightarrow> n \<le> length p \<Longrightarrow>
     walk es side k (take n p) (vertices es k p ! n) \<and> walk es side (vertices es k p ! n) (drop n p) t"
proof (induction p arbitrary: k n)
  case (Cons i p)
  then show ?case by (cases n) (auto simp: vertices_def)
qed (simp add: vertices_def)

lemma best_distinct:
  assumes best: "best es side S p t" and k: "k \<in> S" "walk es side k p t"
  shows "distinct (vertices es k p)"
proof (rule ccontr)
  assume "\<not> distinct (vertices es k p)"
  then obtain m n where mn: "m < n" "n < length (vertices es k p)" "vertices es k p ! m = vertices es k p ! n"
    by (metis distinct_conv_nth linorder_neqE_nat)
  then have n: "n \<le> length p" "m \<le> length p" by (simp_all add: vertices_def)
  have "walk es side k (take m p @ drop n p) t"
    unfolding walk_append using walk_split [OF k(2) n(1)] walk_split [OF k(2) n(2)] mn(3) by auto
  then have "(length p, p) \<le> (length (take m p @ drop n p), take m p @ drop n p)"
    using best k(1) unfolding best_def reach_def by blast
  moreover have "length (take m p @ drop n p) < length p" using mn(1) n by simp
  ultimately show False by auto
qed

definition edges_ok :: "impact_edge list \<Rightarrow> bool" where
  "edges_ok es \<longleftrightarrow> (\<forall>x \<in> set es. edge_ok (ie_side x) x)"

lemma incoming_facts:
  assumes "edges_ok es" "i \<in> set (incoming es side k)"
  shows "i < length es" "ie_side (es ! i) = side" "coordinate_key (ie_target (es ! i)) = k"
    "coordinate_ok (ie_source (es ! i))" "coordinate_ok (ie_target (es ! i))"
  using assms nth_mem [of i es] by (auto simp: incoming_def edges_ok_def edge_ok_def)

lemma follow_walk:
  assumes es: "edges_ok es"
  shows "walk es side (coordinate_key c) p t \<Longrightarrow> coordinate_ok c \<Longrightarrow>
    distinct (vertices es (coordinate_key c) p) \<Longrightarrow> set seen \<inter> set (map (source_key es) p) = {} \<Longrightarrow>
    \<exists>c'. follow c seen (map (\<lambda>i. es ! i) p) = Inr c' \<and> coordinate_key c' = t \<and> coordinate_ok c'"
proof (induction p arbitrary: c seen)
  case (Cons i p)
  then have i: "i \<in> set (incoming es side (coordinate_key c))" and w: "walk es side (source_key es i) p t" by simp_all
  note facts = incoming_facts [OF es i]
  have target: "ie_target (es ! i) = c" using facts(3,5) Cons.prems(2) coordinate_key_inject by blast
  have "\<exists>c'. follow (ie_source (es ! i)) (source_key es i # seen) (map (\<lambda>i. es ! i) p) = Inr c' \<and>
      coordinate_key c' = t \<and> coordinate_ok c'"
    using w facts(4) Cons.prems(3,4) by (intro Cons.IH) (auto simp: source_key_def vertices_def)
  then show ?case using target Cons.prems(4) by (simp add: source_key_def)
qed simp

lemma walk_edges:
  assumes "edges_ok es" "walk es side k p t" "i \<in> set p"
  shows "i < length es" "ie_side (es ! i) = side"
proof -
  have "\<exists>m. i \<in> set (incoming es side m)" using assms(2,3) by (induction p arbitrary: k) auto
  then show "i < length es" "ie_side (es ! i) = side" using incoming_facts [OF assms(1)] by blast+
qed

lemma edge_coordinates_lookup:
  assumes es: "edges_ok es" and c: "coordinate_ok c" and e: "e \<in> set es" "c = ie_source e \<or> c = ie_target e"
  shows "map_of (edge_coordinates es) (coordinate_key c) = Some c"
proof -
  let ?ends = "concat (map (\<lambda>e. [ie_source e, ie_target e]) es)"
  have "edge_coordinates es = dict_of (map (\<lambda>c. (coordinate_key c, c)) ?ends)"
    unfolding edge_coordinates_def by (rule arg_cong [where f = dict_of]) (induction es, auto)
  moreover have "inj_on coordinate_key (set ?ends)"
    using es coordinate_key_inject unfolding edges_ok_def edge_ok_def by (auto intro!: inj_onI)
  ultimately show ?thesis using dict_of_inj [of coordinate_key ?ends "\<lambda>c. c"] e by auto
qed

text \<open>A coordinate the search finds becomes a witness the report accepts.\<close>

lemma witness_valid:
  assumes es: "edges_ok es" and seeds: "\<And>c. c \<in> set seeds \<Longrightarrow> coordinate_ok c \<and> binds_subject c (fi_subject finding)"
    and best: "best es side (coordinate_key ` set seeds) p t" and p: "p \<noteq> []"
  shows "\<exists>w. witness_of es finding side (t, p) = Inr w \<and> validate_witness es w = Inr () \<and> wi_subject w = fi_subject finding \<and>
    wi_side w = side \<and> coordinate_key (wi_affected w) = t \<and> wi_edges w = p"
proof -
  obtain c where c: "c \<in> set seeds" "walk es side (coordinate_key c) p t" using best by (auto simp: best_def reach_def)
  have d: "distinct (vertices es (coordinate_key c) p)" using best_distinct [OF best _ c(2)] c(1) by blast
  have i: "hd p \<in> set (incoming es side (coordinate_key c))" using c(2) p by (cases p) auto
  have start: "ie_target (es ! hd p) = c"
    using incoming_facts(3,5) [OF es i] seeds [OF c(1)] coordinate_key_inject by blast
  obtain c' where c': "follow c [coordinate_key c] (map (\<lambda>i. es ! i) p) = Inr c'" "coordinate_key c' = t" "coordinate_ok c'"
    using follow_walk [OF es c(2) _ d, of "[coordinate_key c]"] seeds [OF c(1)] d by (auto simp: vertices_def)
  obtain m where m: "last p \<in> set (incoming es side m)" "t = source_key es (last p)"
    using c(2) p walk_append [of es side "coordinate_key c" "butlast p" "[last p]" t] by auto
  have last: "c' = ie_source (es ! last p)"
    using c'(2,3) m(2) incoming_facts(4) [OF es m(1)] coordinate_key_inject unfolding source_key_def by blast
  have "map_of (edge_coordinates es) t = Some c'"
    using edge_coordinates_lookup [OF es c'(3), of "es ! last p"] last c'(2) incoming_facts(1) [OF es m(1)] by auto
  then have w: "witness_of es finding side (t, p) = Inr \<lparr>wi_subject = fi_subject finding, wi_side = side, wi_affected = c',
      wi_precision = path_precision es p, wi_edges = p\<rparr>" by (simp add: witness_of_def)
  have "distinct p" using d by (auto simp: vertices_def distinct_map)
  moreover have "\<not> (\<exists>i \<in> set p. length es \<le> i)" "\<not> (\<exists>e \<in> (!) es ` set p. ie_side e \<noteq> side)"
    using walk_edges [OF es c(2)] by fastforce+
  ultimately show ?thesis using w start c' seeds [OF c(1)] p by (simp add: validate_witness_def Let_def hd_map)
qed

section \<open>The seeds belong to the changed entity\<close>

definition own_coordinate :: "subject_id \<Rightarrow> coordinate \<Rightarrow> bool" where
  "own_coordinate k c \<longleftrightarrow> coordinate_ok c \<and> (\<forall>s. su_key s = k \<longrightarrow> binds_subject c s)"

lemma picked_values:
  "c \<in> set (map (\<lambda>k. the (map_of (dict_of (map (\<lambda>x. (f x, g x)) xs)) k)) (sorted_set (dict_keys (dict_of (map (\<lambda>x. (f x, g x)) xs))))) \<Longrightarrow>
     c \<in> g ` set xs"
proof -
  let ?d = "dict_of (map (\<lambda>x. (f x, g x)) xs)"
  assume "c \<in> set (map (\<lambda>k. the (map_of ?d k)) (sorted_set (dict_keys ?d)))"
  then obtain k where k: "k \<in> set (dict_keys ?d)" "c = the (map_of ?d k)" by auto
  then have "map_of (rev (map (\<lambda>x. (f x, g x)) xs)) k \<noteq> None"
    by (simp add: map_of_eq_None_iff keys_merge image_image del: set_map) (simp add: image_image)
  then obtain v where "map_of (rev (map (\<lambda>x. (f x, g x)) xs)) k = Some v" by blast
  then show "c \<in> g ` set xs" using k(2) map_of_SomeD [of _ k v] by (force simp: map_of_merge_rev)
qed

lemma selected_step_ports_own:
  assumes "edges_ok es" "c \<in> set (selected_step_ports i side es)"
  shows "own_coordinate (''step'', i) c"
proof -
  have "c \<in> snd ` set (filter (selects_step side i) (concat (map (\<lambda>e. [(ie_side e, ie_source e), (ie_side e, ie_target e)]) es)))"
    using assms(2) unfolding selected_step_ports_def Let_def by (rule picked_values)
  then have "coordinate_ok c \<and> selects_step side i (side, c)"
    using assms(1) by (auto simp: selects_step_def edges_ok_def edge_ok_def split: coordinate.splits)
  then show ?thesis by (cases c) (auto simp: own_coordinate_def selects_step_def)
qed

lemma port_seed_own: "declared_ports e = Some ps \<Longrightarrow> own_coordinate (entity_key e) (port_seed e d p)"
  by (cases e) (auto simp: own_coordinate_def port_seed_def entity_key_def)

lemma all_port_seeds_own:
  assumes "edges_ok es" "c \<in> set (all_port_seeds e side es)"
  shows "own_coordinate (entity_key e) c"
  using assms selected_step_ports_own [OF assms(1), of c "entity_id e" side] port_seed_own [of e]
  by (cases e) (auto simp: all_port_seeds_def entity_key_def)

lemma entity_at_Inr: "k \<in> entity_keys d \<Longrightarrow> \<exists>e. entity_at d k = Inr e \<and> e \<in> set (be_entities d) \<and> entity_key e = k"
proof -
  assume "k \<in> entity_keys d"
  then obtain e where "find (\<lambda>e. entity_key e = k) (be_entities d) = Some e"
    by (cases "find (\<lambda>e. entity_key e = k) (be_entities d)") (auto simp: entity_keys_def find_None_iff)
  moreover from this have "e \<in> set (be_entities d)" "entity_key e = k" by (auto simp: find_Some_iff)
  ultimately show ?thesis by (simp add: entity_at_def)
qed

lemma modified_port_seeds_own:
  assumes es: "edges_ok es" and k: "k \<in> entity_keys document" "k \<in> entity_keys opposite"
  shows "\<exists>cs. modified_port_seeds k side document opposite es = Inr cs \<and> (\<forall>c \<in> set cs. own_coordinate k c)"
proof -
  obtain e e' where e: "entity_at document k = Inr e" "entity_key e = k" "entity_at opposite k = Inr e'" "entity_key e' = k"
    using entity_at_Inr [OF k(1)] entity_at_Inr [OF k(2)] by blast
  then have kind: "kind_of e' = kind_of e" by (auto simp: entity_key_def)
  show ?thesis
  proof (cases "declared_ports e")
    case (Some ps)
    then obtain qs where "declared_ports e' = Some qs" using kind by (cases e; cases e') auto
    moreover have "\<forall>c \<in> set (changed_declared_ports e ps qs). own_coordinate k c"
      using port_seed_own [OF Some] e(2) by (auto simp: changed_declared_ports_def Let_def)
    ultimately show ?thesis using e kind Some by (simp add: modified_port_seeds_def)
  next
    case None
    then show ?thesis using e kind selected_step_ports_own [OF es]
      by (cases e; cases e') (auto simp: modified_port_seeds_def entity_key_def)
  qed
qed

definition entry_in :: "behavior_ir \<Rightarrow> behavior_ir \<Rightarrow> delta_entry \<Rightarrow> bool" where
  "entry_in base final x \<longleftrightarrow> (\<forall>side \<in> set (entry_sides x). entry_subject x \<in> entity_keys (side_document base final side))"

lemma derived_entry_in: "x \<in> set (derive_entries D base final) \<Longrightarrow> entry_in base final x"
  unfolding set_derive_entries
  by (auto simp: entry_in_def side_document_def located_def modified_entry_def Let_def split: if_splits)

lemma entry_seeds_own:
  assumes es: "edges_ok es" and x: "entry_in base final x" "side \<in> set (entry_sides x)"
  shows "\<exists>cs. entry_seeds x side base final es = Inr cs \<and> (\<forall>c \<in> set cs. own_coordinate (entry_subject x) c)"
proof -
  let ?k = "entry_subject x" and ?d = "side_document base final side"
  obtain e where e: "entity_at ?d ?k = Inr e" "entity_key e = ?k" using entity_at_Inr x by (fastforce simp: entry_in_def)
  obtain ports where ports: "(case x of
      ModifiedBehavior b f as br fr \<Rightarrow> modified_port_seeds ?k side ?d (side_document base final (opposite_side side)) es
    | _ \<Rightarrow> Inr (all_port_seeds e side es)) = Inr ports" "\<forall>c \<in> set ports. own_coordinate ?k c"
  proof (cases x)
    case (ModifiedBehavior b f as br fr)
    then have "?k \<in> entity_keys ?d" "?k \<in> entity_keys (side_document base final (opposite_side side))"
      using x by (auto simp: entry_in_def opposite_side_def split: graph_side.splits)
    then show ?thesis using modified_port_seeds_own [OF es] that ModifiedBehavior by fastforce
  qed (use all_port_seeds_own [OF es, of _ e side] e(2) that in auto)
  have "own_coordinate ?k (entity_coordinate e)"
    using e(2) by (auto simp: own_coordinate_def entity_coordinate_def entity_key_def)
  with ports(2) have own: "own_coordinate ?k c" if "c \<in> (\<lambda>c. c) ` set (entity_coordinate e # ports)" for c using that by auto
  show ?thesis
    unfolding entry_seeds_def Let_def e(1) res_bind_simps ports(1)
    by (intro exI conjI ballI own, rule refl, rule picked_values)
qed

section \<open>The witnesses of a change\<close>

lemma res_map_list_all2: "(\<And>x. x \<in> set xs \<Longrightarrow> \<exists>y. f x = Inr y \<and> P x y) \<Longrightarrow> \<exists>ys. res_map f xs = Inr ys \<and> list_all2 P xs ys"
proof (induction xs)
  case (Cons x xs)
  obtain y where "f x = Inr y" "P x y" using Cons.prems [of x] by auto
  moreover obtain ys where "res_map f xs = Inr ys" "list_all2 P xs ys" using Cons by force
  ultimately show ?case by simp
qed simp

text \<open>What is known of one witness found from an entry on a side.\<close>

definition witness_ok :: "impact_edge list \<Rightarrow> impact_subject \<Rightarrow> graph_side \<Rightarrow> impact_witness \<Rightarrow> bool" where
  "witness_ok es s side w \<longleftrightarrow> validate_witness es w = Inr () \<and> wi_subject w = s \<and> wi_side w = side"

lemma list_all2_keys: "list_all2 (\<lambda>x y. P x y \<and> k y = g x) xs ys \<Longrightarrow> map k ys = map g xs"
  by (induction rule: list_all2_induct) auto

lemma side_witnesses_Inr:
  assumes es: "edges_ok es" and x: "entry_in base final x" "side \<in> set (entry_sides x)" and s: "su_key (fi_subject f) = entry_subject x"
  shows "\<exists>ws. side_witnesses es base final (x, f) side = Inr ws \<and> (\<forall>w \<in> set ws. witness_ok es (fi_subject f) side w) \<and>
    distinct (map witness_identity ws)"
proof -
  obtain cs where cs: "entry_seeds x side base final es = Inr cs" "\<forall>c \<in> set cs. own_coordinate (entry_subject x) c"
    using entry_seeds_own [OF es x] by blast
  let ?found = "search es side (seed_queue (map coordinate_key cs)) [] []"
  have found: "set ?found = {(k, p). p \<noteq> [] \<and> best es side (coordinate_key ` set cs) p k}" "distinct (map fst ?found)"
    using search_result [of es side "map coordinate_key cs"] by simp_all
  have "\<exists>w. witness_of es f side y = Inr w \<and> witness_ok es (fi_subject f) side w \<and> coordinate_key (wi_affected w) = fst y"
    if "y \<in> set ?found" for y
    using witness_valid [OF es, of cs f side "snd y" "fst y"] cs(2) s that found(1)
    by (cases y) (auto simp: own_coordinate_def witness_ok_def)
  then obtain ws where ws: "res_map (witness_of es f side) ?found = Inr ws"
    "list_all2 (\<lambda>y w. witness_ok es (fi_subject f) side w \<and> coordinate_key (wi_affected w) = fst y) ?found ws"
    using res_map_list_all2 [of ?found "witness_of es f side"
      "\<lambda>y w. witness_ok es (fi_subject f) side w \<and> coordinate_key (wi_affected w) = fst y"] by blast
  have keys: "map (\<lambda>w. coordinate_key (wi_affected w)) ws = map fst ?found" using list_all2_keys [OF ws(2)] by simp
  have "\<forall>w \<in> set ws. witness_ok es (fi_subject f) side w" using ws(2) by (auto simp: list_all2_conv_all_nth in_set_conv_nth)
  moreover have "distinct (map witness_identity ws)"
    using found(2) unfolding keys [symmetric] by (auto simp: distinct_map inj_on_def witness_identity_def)
  ultimately show ?thesis using cs(1) ws(1) by (simp add: side_witnesses_def)
qed

lemma map_const_all2: "list_all2 (\<lambda>x y. (\<forall>z \<in> set y. P x z) \<and> distinct (map k y)) xs ys \<Longrightarrow> distinct xs \<Longrightarrow>
    (\<And>x x' z z'. x \<in> set xs \<Longrightarrow> x' \<in> set xs \<Longrightarrow> P x z \<Longrightarrow> P x' z' \<Longrightarrow> k z = k z' \<Longrightarrow> x = x') \<Longrightarrow>
    distinct (map k (concat ys))"
proof (induction xs ys rule: list_all2_induct)
  case (Cons x xs y ys)
  have "k z \<noteq> k z'" if z: "z \<in> set y" "z' \<in> set (concat ys)" for z z'
  proof
    assume eq: "k z = k z'"
    obtain n where n: "n < length ys" "z' \<in> set (ys ! n)" using z(2) by (metis UN_iff in_set_conv_nth set_concat)
    then have "P (xs ! n) z'" "xs ! n \<in> set xs" using Cons.hyps(2) by (auto simp: list_all2_conv_all_nth)
    moreover have "P x z" using Cons.hyps(1) z(1) by blast
    ultimately show False using Cons.prems(2) [of x "xs ! n" z z'] eq Cons.prems(1) by auto
  qed
  moreover have "distinct (map k (concat ys))" using Cons.prems by (intro Cons.IH) auto
  ultimately show ?case using Cons.hyps(1) by fastforce
qed simp

lemma witness_ok_identity:
  "witness_ok es s side w \<Longrightarrow> witness_ok es s' side' w' \<Longrightarrow> witness_identity w = witness_identity w' \<Longrightarrow>
     side = side' \<and> su_key s = su_key s'"
  by (auto simp: witness_ok_def witness_identity_def impact_order_def)

definition entry_witness :: "impact_edge list \<Rightarrow> delta_entry \<times> impact_finding \<Rightarrow> impact_witness \<Rightarrow> bool" where
  "entry_witness es p w \<longleftrightarrow> (\<exists>side \<in> set (entry_sides (fst p)). witness_ok es (fi_subject (snd p)) side w)"

lemma entry_witnesses_Inr:
  assumes es: "edges_ok es" and x: "entry_in base final x" and s: "su_key (fi_subject f) = entry_subject x"
  shows "\<exists>ws. entry_witnesses es base final (x, f) = Inr ws \<and> (\<forall>w \<in> set ws. entry_witness es (x, f) w) \<and>
    distinct (map witness_identity ws)"
proof -
  obtain wss where wss: "res_map (side_witnesses es base final (x, f)) (entry_sides x) = Inr wss"
    "list_all2 (\<lambda>side ws. (\<forall>w \<in> set ws. witness_ok es (fi_subject f) side w) \<and> distinct (map witness_identity ws))
      (entry_sides x) wss"
    using res_map_list_all2 [of "entry_sides x" "side_witnesses es base final (x, f)"
      "\<lambda>side ws. (\<forall>w \<in> set ws. witness_ok es (fi_subject f) side w) \<and> distinct (map witness_identity ws)"]
      side_witnesses_Inr [OF es x _ s] by blast
  have "distinct (entry_sides x)" by (cases x) simp_all
  then have "distinct (map witness_identity (concat wss))"
    by (rule map_const_all2 [OF wss(2)]) (auto dest: witness_ok_identity)
  moreover have "\<forall>w \<in> set (concat wss). entry_witness es (x, f) w"
    using wss(2) by (fastforce simp: entry_witness_def list_all2_conv_all_nth in_set_conv_nth)
  ultimately show ?thesis using wss(1) by (simp add: entry_witnesses_def)
qed

lemma derive_witnesses_Inr:
  assumes es: "edges_ok es" and xs: "\<forall>x \<in> set xs. entry_in base final x" "distinct (map entry_subject xs)"
    and fs: "list_all2 (\<lambda>x f. su_key (fi_subject f) = entry_subject x) xs fs"
  shows "\<exists>ws. derive_witnesses xs fs es base final = Inr ws \<and> distinct (map witness_identity ws) \<and> sorted (map witness_key ws) \<and>
    (\<forall>w \<in> set ws. validate_witness es w = Inr () \<and> (\<exists>f \<in> set fs. wi_subject w = fi_subject f))"
proof -
  let ?Q = "\<lambda>p ws. (\<forall>w \<in> set ws. entry_witness es p w) \<and> distinct (map witness_identity ws)"
  have pair: "fst p \<in> set xs \<and> snd p \<in> set fs \<and> su_key (fi_subject (snd p)) = entry_subject (fst p)" if "p \<in> set (zip xs fs)" for p
  proof -
    obtain x f where "p = (x, f)" by (cases p)
    then show ?thesis using that fs set_zip_leftD [of x f xs fs] set_zip_rightD [of x f xs fs] by (auto simp: list_all2_iff)
  qed
  then have "\<exists>ws. entry_witnesses es base final p = Inr ws \<and> ?Q p ws" if "p \<in> set (zip xs fs)" for p
    using entry_witnesses_Inr [OF es, of base final "fst p" "snd p"] xs(1) that by auto
  then obtain wss where wss: "res_map (entry_witnesses es base final) (zip xs fs) = Inr wss" "list_all2 ?Q (zip xs fs) wss"
    using res_map_list_all2 [of "zip xs fs" "entry_witnesses es base final" ?Q] by blast
  have zip: "map fst (zip xs fs) = xs" using fs by (simp add: list_all2_lengthD)
  have "map (entry_subject \<circ> fst) (zip xs fs) = map entry_subject xs" using arg_cong [OF zip, of "map entry_subject"] by simp
  then have subjects: "distinct (map (entry_subject \<circ> fst) (zip xs fs))" using xs(2) by metis
  then have same: "p = p'" if "p \<in> set (zip xs fs)" "p' \<in> set (zip xs fs)" "entry_witness es p w" "entry_witness es p' w'"
    "witness_identity w = witness_identity w'" for p p' w w'
  proof -
    note p = that
    obtain side side' where "witness_ok es (fi_subject (snd p)) side w" "witness_ok es (fi_subject (snd p')) side' w'"
      using p(3,4) by (auto simp: entry_witness_def)
    then have "entry_subject (fst p) = entry_subject (fst p')"
      using witness_ok_identity [OF _ _ p(5)] pair [OF p(1)] pair [OF p(2)] by metis
    then show ?thesis using subjects p(1,2) by (auto simp: distinct_map inj_on_def)
  qed
  have "distinct (zip xs fs)" using subjects by (simp add: distinct_map)
  with wss(2) have "distinct (map witness_identity (concat wss))" by (rule map_const_all2) (rule same)
  then have "distinct (map witness_identity (sort_key witness_key (concat wss)))" by (auto simp: distinct_map)
  moreover have "\<exists>p \<in> set (zip xs fs). entry_witness es p w" if w: "w \<in> set (concat wss)" for w
  proof -
    obtain n where n: "n < length wss" "w \<in> set (wss ! n)" using w by (metis UN_iff in_set_conv_nth set_concat)
    have "entry_witness es (zip xs fs ! n) w" using list_all2_nthD2 [OF wss(2) n(1)] n(2) by blast
    moreover have "zip xs fs ! n \<in> set (zip xs fs)" using n(1) list_all2_lengthD [OF wss(2)] by (intro nth_mem) simp
    ultimately show ?thesis by blast
  qed
  then have "\<forall>w \<in> set (sort_key witness_key (concat wss)). validate_witness es w = Inr () \<and> (\<exists>f \<in> set fs. wi_subject w = fi_subject f)"
    unfolding set_sort entry_witness_def witness_ok_def using pair by blast
  ultimately show ?thesis using wss(1) fs by (simp add: derive_witnesses_def list_all2_lengthD)
qed

lemma impact_graph_Inr:
  assumes docs: "ir_ok base" "ir_ok final"
    and fs: "list_all2 (\<lambda>x f. su_key (fi_subject f) = entry_subject x) (derive_entries D base final) fs"
  shows "\<exists>es ws. derive_impact_graph (derive_entries D base final) fs base final = Inr (es, ws) \<and>
    distinct (map edge_key es) \<and> sorted (map edge_key es) \<and> distinct (map witness_identity ws) \<and> sorted (map witness_key ws) \<and>
    (\<forall>w \<in> set ws. validate_witness es w = Inr () \<and> (\<exists>f \<in> set fs. wi_subject w = fi_subject f))"
proof -
  obtain es where es: "impact_edges base final = Inr es" "edges_ok es" "distinct (map edge_key es)" "sorted (map edge_key es)"
    using impact_edges_Inr [OF docs] by (auto simp: edges_ok_def)
  have "\<forall>x \<in> set (derive_entries D base final). entry_in base final x" using derived_entry_in by blast
  from derive_witnesses_Inr [OF es(2) this derive_entries_shape(1) fs] show ?thesis
    using es(1,3,4) by (auto simp: derive_impact_graph_def)
qed

text \<open>
  C19: The impact graph of a difference of two valid documents can always be derived, and it is one a
  report accepts: the edges and the witnesses are in order without repetition, and every witness is a
  path of edges on its own side, without a repeated edge or coordinate, from a coordinate of the
  changed entity to the affected one, with the precision of its path.
\<close>

theorem impact_graph_valid:
  assumes "ir_ok base" and "ir_ok final"
    and "list_all2 (\<lambda>x f. su_key (fi_subject f) = entry_subject x) (derive_entries D base final) fs"
  shows "\<exists>es ws. derive_impact_graph (derive_entries D base final) fs base final = Inr (es, ws) \<and>
    distinct (map edge_key es) \<and> sorted (map edge_key es) \<and> distinct (map witness_identity ws) \<and> sorted (map witness_key ws) \<and>
    (\<forall>w \<in> set ws. validate_witness es w = Inr () \<and> (\<exists>f \<in> set fs. wi_subject w = fi_subject f))"
  by (rule impact_graph_Inr [OF assms])

definition ex_impact_finding :: impact_finding where
  "ex_impact_finding = \<lparr>fi_subject = \<lparr>su_operation = ''modified'', su_key = (''use_case'', ''uc'')\<rparr>,
     fi_precision = Definite, fi_changed_paths = [''/steps/1'']\<rparr>"

theorem impact_graph_valid_witness:
  "\<exists>es ws. derive_impact_graph (derive_entries ex_change_digests (ex_behavior 1 []) (ex_behavior 2 [])) [ex_impact_finding]
     (ex_behavior 1 []) (ex_behavior 2 []) = Inr (es, ws) \<and> (\<forall>w \<in> set ws. validate_witness es w = Inr ())"
proof -
  have "list_all2 (\<lambda>x f. su_key (fi_subject f) = entry_subject x)
      (derive_entries ex_change_digests (ex_behavior 1 []) (ex_behavior 2 [])) [ex_impact_finding]"
    by code_simp
  from impact_graph_valid [OF ex_behavior_ok this] show ?thesis by blast
qed

end
