(* ===== verification/Impact_Changes.thy ===== *)
theory Impact_Changes
  imports Impact_Graph
begin

text \<open>
  The changed paths of an entity, \<^verbatim>\<open>_field_changes\<close> in \<^verbatim>\<open>src/ucf/change_governance/impact.py\<close>: the JSON
  pointers at which two canonical JSON values differ. Proved: the pointers are all different, and there
  is none exactly when the values are equal.
\<close>

definition escape_pointer :: "string \<Rightarrow> string" where
  "escape_pointer s = py_replace ''/'' ''~1'' (py_replace ''~'' ''~0'' s)"

definition child_path :: "string \<Rightarrow> string \<Rightarrow> string" where
  "child_path path segment = path @ ''/'' @ segment"

lemma member_size: "map_of ms k = Some j \<Longrightarrow> size j < Suc (size_list (size_prod (\<lambda>x. 0) size) ms)"
  by (induction ms) (auto split: if_splits)

lemma element_size: "i < length js \<Longrightarrow> size (js ! i) < Suc (size_list size js)"
  by (metis less_SucI nth_mem size_list_estimation' le_imp_less_Suc order_refl)

function (sequential) field_changes :: "string \<Rightarrow> json \<Rightarrow> json \<Rightarrow> string list" where
  "field_changes path (JObject ms) (JObject ns) =
     concat (map (\<lambda>k.
       (case map_of ms k of
          None \<Rightarrow> [child_path path (escape_pointer k)]
        | Some a \<Rightarrow>
            (case map_of ns k of
               None \<Rightarrow> [child_path path (escape_pointer k)]
             | Some b \<Rightarrow> field_changes (child_path path (escape_pointer k)) a b)))
       (sorted_set (dict_keys ms @ dict_keys ns)))"
| "field_changes path (JList xs) (JList ys) =
     concat (map (\<lambda>i.
       (if i < length xs
        then (if i < length ys then field_changes (child_path path (show_nat i)) (xs ! i) (ys ! i)
              else [child_path path (show_nat i)])
        else [child_path path (show_nat i)]))
       [0..<max (length xs) (length ys)])"
| "field_changes path a b = (if a = b then [] else [path])"
  by pat_completeness auto
termination
  by (relation "measure (\<lambda>(path, a, b). size a)") (auto dest: member_size element_size)

section \<open>Segments\<close>

lemma replace_char: "py_replace [c] new s = concat (map (\<lambda>d. if d = c then new else [d]) s)"
  by (induction s) auto

lemma escape_pointer_eq:
  "escape_pointer s = concat (map (\<lambda>c. if c = CHR ''~'' then ''~0'' else if c = CHR ''/'' then ''~1'' else [c]) s)"
  unfolding escape_pointer_def replace_char by (induction s) simp_all

lemma escape_pointer_inject: "escape_pointer s = escape_pointer t \<longleftrightarrow> s = t"
proof (induction s arbitrary: t)
  case Nil
  then show ?case by (cases t) (auto simp: escape_pointer_eq)
next
  case (Cons c s)
  then show ?case by (cases t) (auto simp: escape_pointer_eq split: if_splits)
qed

lemma escape_pointer_no_slash: "CHR ''/'' \<notin> set (escape_pointer s)"
  by (auto simp: escape_pointer_eq split: if_splits)

lemma show_nat_no_slash: "CHR ''/'' \<notin> set (show_nat i)"
  using show_nat_digits [of "CHR ''/''" i] by (auto simp: is_digit_def)

text \<open>A path at or below another one.\<close>

definition below :: "string \<Rightarrow> string \<Rightarrow> bool" where
  "below path p \<longleftrightarrow> (\<exists>rest. p = path @ rest \<and> (rest = [] \<or> hd rest = CHR ''/''))"

lemma below_refl [simp]: "below p p"
  by (simp add: below_def)

lemma below_child: "below (child_path path s) p \<Longrightarrow> below path p"
  by (auto simp: below_def child_path_def)

lemma takeWhile_segment:
  assumes "CHR ''/'' \<notin> set s" "rest = [] \<or> hd rest = CHR ''/''"
  shows "takeWhile (\<lambda>c. c \<noteq> CHR ''/'') (s @ rest) = s"
proof -
  have "takeWhile (\<lambda>c. c \<noteq> CHR ''/'') (s @ rest) = s @ takeWhile (\<lambda>c. c \<noteq> CHR ''/'') rest"
    using assms(1) by (intro takeWhile_append2) auto
  then show ?thesis using assms(2) by (cases rest) auto
qed

lemma below_segment:
  assumes "CHR ''/'' \<notin> set s" "CHR ''/'' \<notin> set t" "below (child_path path s) p" "below (child_path path t) p"
  shows "s = t"
proof -
  obtain r where r: "p = path @ ''/'' @ s @ r" "r = [] \<or> hd r = CHR ''/''"
    using assms(3) unfolding below_def child_path_def by auto
  obtain r' where r': "p = path @ ''/'' @ t @ r'" "r' = [] \<or> hd r' = CHR ''/''"
    using assms(4) unfolding below_def child_path_def by auto
  have "s @ r = t @ r'" using r(1) r'(1) by simp
  then show ?thesis using takeWhile_segment [OF assms(1) r(2)] takeWhile_segment [OF assms(2) r'(2)] by simp
qed

lemma distinct_below:
  assumes "distinct xs" "inj_on seg (set xs)" "\<And>x. x \<in> set xs \<Longrightarrow> CHR ''/'' \<notin> set (seg x)"
    and "\<And>x. x \<in> set xs \<Longrightarrow> distinct (f x) \<and> (\<forall>p \<in> set (f x). below (child_path path (seg x)) p)"
  shows "distinct (concat (map f xs)) \<and> (\<forall>p \<in> set (concat (map f xs)). below path p)"
proof
  show "\<forall>p \<in> set (concat (map f xs)). below path p" using assms(4) below_child by fastforce
  have "set (f x) \<inter> set (f y) = {}" if "x \<in> set xs" "y \<in> set xs" "x \<noteq> y" for x y
    using that assms(2-4) below_segment [of "seg x" "seg y" path] unfolding inj_on_def by blast
  then show "distinct (concat (map f xs))" using assms(1,4)
    by (induction xs) auto
qed

section \<open>The changed paths\<close>

lemma field_changes_below: "distinct (field_changes path a b) \<and> (\<forall>p \<in> set (field_changes path a b). below path p)"
proof (induction path a b rule: field_changes.induct)
  case (1 path ms ns)
  show ?case unfolding field_changes.simps
    by (rule distinct_below [where seg = escape_pointer])
       (auto simp: inj_on_def escape_pointer_inject escape_pointer_no_slash "1.IH" split: option.splits)
next
  case (2 path xs ys)
  show ?case unfolding field_changes.simps
    by (rule distinct_below [where seg = show_nat])
       (auto simp: inj_on_def show_nat_no_slash "2.IH" dest: show_nat_inject)
qed auto

text \<open>JSON whose objects have their members in order of their names, without repetition.\<close>

fun ordered_json :: "json \<Rightarrow> bool" where
  "ordered_json (JObject ms) \<longleftrightarrow> sorted_wrt (<) (map fst ms) \<and> (\<forall>m \<in> set ms. ordered_json (snd m))"
| "ordered_json (JList js) \<longleftrightarrow> (\<forall>j \<in> set js. ordered_json j)"
| "ordered_json j \<longleftrightarrow> True"

lemma strict_sorted_map_of:
  fixes ms ns :: "('k::linorder \<times> 'v) list"
  assumes "sorted_wrt (<) (map fst ms)" "sorted_wrt (<) (map fst ns)" "map_of ms = map_of ns"
  shows "ms = ns"
proof -
  have pairs: "xs = map (\<lambda>k. (k, the (map_of xs k))) (map fst xs)" if "distinct (map fst xs)" for xs :: "('k \<times> 'v) list"
    using that by (simp add: comp_def, intro map_idI [symmetric], auto)
  have "distinct (map fst ms)" "distinct (map fst ns)" using assms(1,2) by (simp_all add: strict_sorted_iff)
  moreover have "set (map fst ms) = set (map fst ns)" using assms(3) by (metis dom_map_of_conv_image_fst set_map)
  then have "map fst ms = map fst ns" using assms(1,2) by (intro sorted_distinct_set_unique) (simp_all add: strict_sorted_iff)
  ultimately show ?thesis using pairs [of ms] pairs [of ns] assms(3) by metis
qed

lemma concat_map_Nil: "concat (map f xs) = [] \<longleftrightarrow> (\<forall>x \<in> set xs. f x = [])"
  by (induction xs) auto

lemma field_changes_Nil: "ordered_json a \<Longrightarrow> ordered_json b \<Longrightarrow> field_changes path a b = [] \<longleftrightarrow> a = b"
proof (induction path a b rule: field_changes.induct)
  case (1 path ms ns)
  have all: "ordered_json j" if "map_of ms k = Some j \<or> map_of ns k = Some j" for k j
    using that "1.prems" by (auto dest!: map_of_SomeD)
  show ?case
  proof
    assume nil: "field_changes path (JObject ms) (JObject ns) = []"
    have "map_of ms k = map_of ns k" for k
    proof (cases "k \<in> set (dict_keys ms @ dict_keys ns)")
      case True
      then have k: "k \<in> set (sorted_set (dict_keys ms @ dict_keys ns))" by simp
      then have "(case map_of ms k of None \<Rightarrow> [child_path path (escape_pointer k)] | Some a \<Rightarrow>
          (case map_of ns k of None \<Rightarrow> [child_path path (escape_pointer k)]
           | Some b \<Rightarrow> field_changes (child_path path (escape_pointer k)) a b)) = []"
        using nil unfolding field_changes.simps concat_map_Nil by auto
      then show ?thesis using "1.IH" [OF k] all by (auto split: option.splits)
    next
      case False
      then show ?thesis by (metis Un_iff map_of_None_keys set_append)
    qed
    then show "JObject ms = JObject ns" using strict_sorted_map_of [of ms ns] "1.prems" by auto
  next
    assume "JObject ms = JObject ns"
    then have same: "ns = ms" by simp
    have "field_changes (child_path path (escape_pointer k)) a a = []" if "map_of ms k = Some a"
      "k \<in> set (sorted_set (dict_keys ms @ dict_keys ms))" for k a
      using "1.IH" [of k a a] that all same by auto
    then show "field_changes path (JObject ms) (JObject ns) = []"
      unfolding same field_changes.simps concat_map_Nil by (auto split: option.splits simp: map_of_None_keys)
  qed
next
  case (2 path xs ys)
  have IH: "field_changes (child_path path (show_nat i)) (xs ! i) (ys ! i) = [] \<longleftrightarrow> xs ! i = ys ! i"
    if "i < length xs" "i < length ys" for i
    using that "2.prems" by (intro "2.IH") simp_all
  show ?case
  proof
    assume nil: "field_changes path (JList xs) (JList ys) = []"
    then have each: "\<forall>i < max (length xs) (length ys). i < length xs \<and> i < length ys \<and>
        field_changes (child_path path (show_nat i)) (xs ! i) (ys ! i) = []"
      unfolding field_changes.simps concat_map_Nil by (metis atLeastLessThan_iff le0 list.distinct(1) set_upt)
    then have "length xs = length ys"
      using each [rule_format, of "length xs"] each [rule_format, of "length ys"]
      by (cases rule: linorder_cases [of "length xs" "length ys"]) auto
    moreover have "xs ! i = ys ! i" if "i < length xs" "i < length ys" for i
      using IH [OF that] each [rule_format, of i] that by auto
    ultimately show "JList xs = JList ys" by (auto intro: nth_equalityI)
  next
    assume "JList xs = JList ys"
    then show "field_changes path (JList xs) (JList ys) = []"
      unfolding field_changes.simps concat_map_Nil using IH by simp
  qed
qed auto

section \<open>Canonical JSON is ordered\<close>

fun distinct_json :: "json \<Rightarrow> bool" where
  "distinct_json (JObject ms) \<longleftrightarrow> distinct (map fst ms) \<and> (\<forall>m \<in> set ms. distinct_json (snd m))"
| "distinct_json (JList js) \<longleftrightarrow> (\<forall>j \<in> set js. distinct_json j)"
| "distinct_json j \<longleftrightarrow> True"

lemma ordered_sort_members: "distinct_json j \<Longrightarrow> ordered_json (sort_members j)"
proof (induction j)
  case (JObject ms)
  let ?ms = "map (\<lambda>m. (fst m, sort_members (snd m))) ms"
  have "distinct (map fst ?ms)" using JObject.prems by (simp add: comp_def)
  then have "distinct (map fst (sort_key fst ?ms))" unfolding distinct_map_sort .
  moreover have "\<forall>m \<in> set ms. ordered_json (sort_members (snd m))" using JObject by (fastforce simp: snds.simps)
  ultimately show ?case by (simp add: strict_sorted_iff)
qed auto

lemma set_sort_items [simp]: "set (sort_items k f js) = set js"
  by (simp add: sort_items_def)

lemma distinct_canonicalize: "distinct_json j \<Longrightarrow> distinct_json (canonicalize k f j)"
  by (induction k f j rule: canonicalize.induct) (auto simp: comp_def)

lemma distinct_dump_value: "distinct_json (dump_value v)"
  by (induction v) auto

lemma distinct_dump_entity: "distinct_json (dump_entity e)"
  by (cases e) (auto simp: dump_entity_def dump_ports_def dump_port_def dump_refs_def dump_ref_def dump_port_ref_def
      dump_source_def dump_target_def dump_rule_def dump_producer_def dump_digest_def dump_check_def distinct_dump_value
      split: binding_source.splits)

lemma ordered_canonical_entity: "ordered_json (canonical_entity e)"
  unfolding canonical_entity_def by (intro ordered_sort_members distinct_canonicalize distinct_dump_entity)

lemma no_root_member: "''@root'' \<notin> fst ` set (dump_fields e)"
  by (cases e) auto

lemma canonical_entity_object:
  "\<exists>ms. canonical_entity e = JObject ms \<and> ''@root'' \<notin> set (dict_keys ms)"
proof -
  obtain ms where ms: "dump_entity e = JObject ms" "''@root'' \<notin> fst ` set ms"
    using no_root_member [of e] by (auto simp: dump_entity_def)
  then show ?thesis by (auto simp: canonical_entity_def image_image image_iff)
qed

lemma root_path_fresh: "''/@root'' \<notin> set (field_changes [] (canonical_entity e) (canonical_entity e'))"
proof
  obtain ms ns where ms: "canonical_entity e = JObject ms" "''@root'' \<notin> set (dict_keys ms)"
    and ns: "canonical_entity e' = JObject ns" "''@root'' \<notin> set (dict_keys ns)"
    using canonical_entity_object by metis
  assume "''/@root'' \<in> set (field_changes [] (canonical_entity e) (canonical_entity e'))"
  then obtain k where k: "k \<in> set (dict_keys ms @ dict_keys ns)" "below (child_path [] (escape_pointer k)) ''/@root''"
    using field_changes_below unfolding ms(1) ns(1) field_changes.simps by (fastforce split: option.splits)
  have "below (child_path [] ''@root'') ''/@root''" by (simp add: child_path_def)
  then have "escape_pointer k = ''@root''"
    using below_segment [OF escape_pointer_no_slash _ k(2)] by simp
  also have "\<dots> = escape_pointer ''@root''" by (simp add: escape_pointer_eq)
  finally show False using k(1) ms(2) ns(2) by (simp add: escape_pointer_inject)
qed

end
