(* ===== verification/Impact_Report.thy ===== *)
theory Impact_Report
  imports Impact_Witnesses Impact_Changes
begin

text \<open>
  Impact reports, \<^verbatim>\<open>src/ucf/change_governance/impact.py\<close>, with the report models of \<^verbatim>\<open>models.py\<close> and
  their validators: what changed directly, what that may affect, what cannot be decided by structure,
  and whether the change is compatible. A document handed over is an instance of its model, so the
  tests of run-time types always pass; lengths of texts are not modelled.
\<close>

section \<open>Errors (errors.py)\<close>

datatype governance_code =
    GcBrokenReference | GcContentIdentityMismatch | GcDecisionSetMismatch | GcDerivedClassMismatch
  | GcDocumentIdentityMismatch | GcDuplicateIdentity | GcDuplicateJsonMember | GcIncompleteAssessment
  | GcInvalidJson | GcInvalidStructure | GcNonCanonicalOrder | GcProcedureMismatch | GcSummaryMismatch
  | GcUnresolvedAssessment

text \<open>
  A validation error, one of the lifecycle let through, the invalid structure of a document that its
  model refuses (with the message of the model), or another exception: a constructor that refuses its
  fields (with its message) or a failed lookup.
\<close>

datatype governance_error =
    GovernanceError governance_code string string
  | GovernanceLifecycle lifecycle_error
  | GovernanceInvalid string
  | GovernanceOther string

definition other_error :: "(string, 'a) res \<Rightarrow> (governance_error, 'a) res" where
  "other_error r = (case r of Inl m \<Rightarrow> Inl (GovernanceOther m) | Inr x \<Rightarrow> Inr x)"

section \<open>Models (models.py)\<close>

datatype decision_class =
    PublicContract | ProductionDependency | IrreversibleMigration | ControlWeakening | ProductSemantics | ScopeExpansion

definition decision_classes :: "decision_class list" where
  "decision_classes = [PublicContract, ProductionDependency, IrreversibleMigration, ControlWeakening, ProductSemantics,
     ScopeExpansion]"

datatype compatibility_outcome = Compatible | Breaking | CompatibilityUndecided

datatype compatibility_profile =
  BackwardCompatibleGraphExtension | BreakingBaseRootContract | BreakingRequiredCapability | CompatibilityUnresolved

datatype unresolved_reason =
    OpaqueDeclaredRule | DomainSemantics | ValueSemantics | ProvenanceContext | VerificationContext | CapabilitySemantics

fun unresolved_reason_value :: "unresolved_reason \<Rightarrow> string" where
  "unresolved_reason_value OpaqueDeclaredRule = ''opaque_declared_rule''"
| "unresolved_reason_value DomainSemantics = ''domain_semantics''"
| "unresolved_reason_value ValueSemantics = ''value_semantics''"
| "unresolved_reason_value ProvenanceContext = ''provenance_context''"
| "unresolved_reason_value VerificationContext = ''verification_context''"
| "unresolved_reason_value CapabilitySemantics = ''capability_semantics''"

record compatibility =
  cm_outcome :: compatibility_outcome
  cm_profile :: compatibility_profile
  cm_reasons :: "string list"

record unresolved_impact =
  ui_subject :: impact_subject
  ui_changed_path :: string
  ui_sides :: "graph_side list"
  ui_reason :: unresolved_reason

record impact_report =
  im_change_id :: string
  im_proposal :: change_ref
  im_delta :: change_ref
  im_base_behavior :: behavior_ref
  im_final_behavior :: behavior_ref
  im_findings :: "impact_finding list"
  im_edges :: "impact_edge list"
  im_witnesses :: "impact_witness list"
  im_unresolved :: "unresolved_impact list"
  im_compatibility :: compatibility
  im_required_classes :: "decision_class list"

definition shape_checks :: "(bool \<times> string) list \<Rightarrow> (string, unit) res" where
  "shape_checks cs = res_all (\<lambda>(c, m). require c m) cs"

definition validate_finding :: "impact_finding \<Rightarrow> (string, unit) res" where
  "validate_finding f = shape_checks
     [(fi_changed_paths f \<noteq> [], ''too_short''),
      (distinct (fi_changed_paths f), ''impact finding contains duplicate changed paths''),
      (fi_changed_paths f = sort (fi_changed_paths f), ''impact finding changed paths are not canonical'')]"

definition validate_unresolved :: "unresolved_impact \<Rightarrow> (string, unit) res" where
  "validate_unresolved u = shape_checks
     [(ui_sides u \<noteq> [] \<and> length (ui_sides u) \<le> 2, ''length''),
      (distinct (ui_sides u), ''unresolved impact contains duplicate graph sides''),
      (ui_sides u = sort_key side_value (ui_sides u), ''unresolved impact graph sides are not canonical'')]"

definition validate_compatibility :: "compatibility \<Rightarrow> (string, unit) res" where
  "validate_compatibility c = shape_checks
     [(cm_reasons c \<noteq> [], ''too_short''),
      (distinct (cm_reasons c), ''compatibility assessment contains duplicate reasons''),
      (cm_reasons c = sort (cm_reasons c), ''compatibility reasons are not canonical''),
      (cm_outcome c = Compatible \<longrightarrow> cm_profile c = BackwardCompatibleGraphExtension,
         ''compatible outcome uses the wrong profile''),
      (cm_outcome c = CompatibilityUndecided \<longrightarrow> cm_profile c = CompatibilityUnresolved,
         ''unresolved outcome uses the wrong profile''),
      (cm_outcome c = Breaking \<longrightarrow> cm_profile c \<in> {BreakingBaseRootContract, BreakingRequiredCapability},
         ''breaking outcome uses the wrong profile'')]"

definition finding_key :: "impact_finding \<Rightarrow> (string \<times> string \<times> string) \<times> string list" where
  "finding_key f = (impact_order (fi_subject f), fi_changed_paths f)"

definition unresolved_key :: "unresolved_impact \<Rightarrow> (string \<times> string \<times> string) \<times> string \<times> string list \<times> string" where
  "unresolved_key u = (impact_order (ui_subject u), ui_changed_path u, map side_value (ui_sides u),
     unresolved_reason_value (ui_reason u))"

definition required_classes_of :: "compatibility \<Rightarrow> decision_class list" where
  "required_classes_of c = (if cm_outcome c = Breaking then [PublicContract] else [])"

definition validate_report_shape :: "impact_report \<Rightarrow> (string, unit) res" where
  "validate_report_shape r =
     res_bind (shape_checks
       [(im_findings r \<noteq> [], ''too_short''),
        (cf_change_id (im_proposal r) = im_change_id r \<and> cf_change_id (im_delta r) = im_change_id r,
           ''impact report predecessor change IDs disagree''),
        (br_document_id (im_base_behavior r) = br_document_id (im_final_behavior r),
           ''impact report behavior document identities disagree''),
        (br_digest (im_base_behavior r) \<noteq> br_digest (im_final_behavior r),
           ''impact report base and final behavior digests must differ''),
        (distinct (map finding_key (im_findings r)), ''impact findings contain duplicate identities''),
        (sorted (map finding_key (im_findings r)), ''impact findings are not in canonical order''),
        (\<forall>f \<in> set (im_findings r). su_operation (fi_subject f) \<noteq> ''unchanged'',
           ''impact report cannot contain unchanged direct subjects''),
        (distinct (map edge_key (im_edges r)), ''impact edges contain duplicate identities''),
        (sorted (map edge_key (im_edges r)), ''impact edges are not in canonical order''),
        (distinct (map witness_identity (im_witnesses r)), ''impact witnesses contain duplicate identities''),
        (sorted (map witness_key (im_witnesses r)), ''impact witnesses are not in canonical order''),
        (distinct (map unresolved_key (im_unresolved r)), ''unresolved impacts contain duplicate identities''),
        (sorted (map unresolved_key (im_unresolved r)), ''unresolved impacts are not in canonical order'')]) (\<lambda>_.
     let subjects = map (\<lambda>f. impact_order (fi_subject f)) (im_findings r) in
     res_bind (res_all (\<lambda>w. if impact_order (wi_subject w) \<notin> set subjects then Inl ''impact witness names no direct finding''
        else validate_witness (im_edges r) w) (im_witnesses r)) (\<lambda>_.
     res_bind (res_all (\<lambda>u. require (impact_order (ui_subject u) \<in> set subjects)
        ''unresolved impact names no direct finding'') (im_unresolved r)) (\<lambda>_.
     require (im_required_classes r = required_classes_of (im_compatibility r))
       ''impact report derived decision classes disagree with compatibility'')))"

section \<open>Direct findings\<close>

definition impact_finding_of :: "string \<Rightarrow> subject_id \<Rightarrow> string list \<Rightarrow> (string, impact_finding) res" where
  "impact_finding_of operation k paths =
     (let f = \<lparr>fi_subject = \<lparr>su_operation = operation, su_key = k\<rparr>, fi_precision = Definite, fi_changed_paths = paths\<rparr> in
      res_bind (validate_finding f) (\<lambda>_. Inr f))"

fun direct_finding ::
  "(subject_id, json) dict \<Rightarrow> (subject_id, json) dict \<Rightarrow> delta_entry \<Rightarrow> (string, impact_finding) res" where
  "direct_finding base_entities final_entities (AddedBehavior f r) = impact_finding_of ''added'' (bl_subject f) [[]]"
| "direct_finding base_entities final_entities (RemovedBehavior b r) = impact_finding_of ''removed'' (bl_subject b) [[]]"
| "direct_finding base_entities final_entities (ModifiedBehavior b f aspects br fr) =
     (case (map_of base_entities (bl_subject b), map_of final_entities (bl_subject b)) of
        (Some x, Some y) \<Rightarrow>
          (let changed = field_changes [] x y in
           impact_finding_of ''modified'' (bl_subject b) (if br \<noteq> fr then sort (changed @ [''/@root'']) else changed))
      | _ \<Rightarrow> Inl ''KeyError'')"

section \<open>What structure cannot decide\<close>

definition unresolved_reason_of :: "string \<Rightarrow> string \<Rightarrow> unresolved_reason option" where
  "unresolved_reason_of kind path =
     (if kind = ''invariant'' \<and> prefix ''/condition'' path then Some OpaqueDeclaredRule
      else if kind \<in> {''effect'', ''observation''} \<and> (prefix ''/operation'' path \<or> prefix ''/target'' path)
      then Some DomainSemantics
      else if kind \<in> {''binding'', ''effect'', ''observation''} \<and> (prefix ''/source'' path \<or> prefix ''/value'' path)
      then Some ValueSemantics
      else if kind = ''provenance'' then Some ProvenanceContext
      else if kind = ''verification_evidence'' \<and> (prefix ''/check'' path \<or> prefix ''/environment'' path \<or>
        prefix ''/executed_at'' path \<or> prefix ''/outcome'' path \<or> prefix ''/source_revision'' path)
      then Some VerificationContext
      else if kind = ''capability_requirement'' \<and> prefix ''/name'' path then Some CapabilitySemantics
      else None)"

definition finding_sides :: "impact_finding \<Rightarrow> graph_side list" where
  "finding_sides f = (if su_operation (fi_subject f) = ''added'' then [FinalSide]
     else if su_operation (fi_subject f) = ''removed'' then [BaseSide] else [BaseSide, FinalSide])"

definition unresolved_order :: "unresolved_impact \<Rightarrow> (string \<times> string \<times> string) \<times> string \<times> string" where
  "unresolved_order u = (impact_order (ui_subject u), ui_changed_path u, unresolved_reason_value (ui_reason u))"

definition finding_unresolved :: "impact_finding \<Rightarrow> unresolved_impact list" where
  "finding_unresolved f = List.map_filter (\<lambda>path.
     (case unresolved_reason_of (fst (su_key (fi_subject f))) path of
        None \<Rightarrow> None
      | Some reason \<Rightarrow> Some \<lparr>ui_subject = fi_subject f, ui_changed_path = path, ui_sides = finding_sides f,
          ui_reason = reason\<rparr>)) (fi_changed_paths f)"

definition derive_unresolved :: "impact_finding list \<Rightarrow> (string, unresolved_impact list) res" where
  "derive_unresolved findings =
     (let us = concat (map finding_unresolved findings) in
      res_bind (res_all validate_unresolved us) (\<lambda>_. Inr (sort_key unresolved_order us)))"

section \<open>Compatibility\<close>

definition capabilities :: "behavior_ir \<Rightarrow> (string, ir_capability) dict" where
  "capabilities d = dict_of (List.map_filter (\<lambda>e. case e of Capability c \<Rightarrow> Some (ca_id c, c) | _ \<Rightarrow> None) (be_entities d))"

text \<open>The three numbers of a version; what \<^verbatim>\<open>int\<close> takes beyond digits is not the text of a validated version.\<close>

definition capability_version :: "string \<Rightarrow> (string, nat list) res" where
  "capability_version v =
     (let parts = split_on (CHR ''.'') v in
      if length parts = 3 \<and> list_all (\<lambda>p. p \<noteq> [] \<and> list_all is_digit p) parts then Inr (map (digits_value 0) parts)
      else Inl ''ValueError'')"

definition capability_break :: "ir_capability option \<Rightarrow> ir_capability \<Rightarrow> (string, string list) res" where
  "capability_break previous c =
     (let introduced = Inr [''required capability '' @ ca_name c @ '' was introduced''] in
      if \<not> ca_required c then Inr []
      else
        (case previous of
           None \<Rightarrow> introduced
         | Some p \<Rightarrow>
             if \<not> ca_required p then introduced
             else
               res_bind (capability_version (ca_minimum_version c)) (\<lambda>new.
               res_bind (capability_version (ca_minimum_version p)) (\<lambda>old.
               Inr (if old < new
                 then [''required capability '' @ ca_name c @ '' minimum version increased from '' @ ca_minimum_version p @
                   '' to '' @ ca_minimum_version c]
                 else [])))))"

definition required_capability_breaks :: "behavior_ir \<Rightarrow> behavior_ir \<Rightarrow> (string, string list) res" where
  "required_capability_breaks base final =
     res_bind (res_map (\<lambda>i. capability_break (map_of (capabilities base) i) (the (map_of (capabilities final) i)))
       (sorted_set (dict_keys (capabilities final)))) (\<lambda>reasons. Inr (concat reasons))"

definition compatibility_of ::
  "compatibility_outcome \<Rightarrow> compatibility_profile \<Rightarrow> string list \<Rightarrow> (string, compatibility) res" where
  "compatibility_of outcome profile reasons =
     (let c = \<lparr>cm_outcome = outcome, cm_profile = profile, cm_reasons = reasons\<rparr> in
      res_bind (validate_compatibility c) (\<lambda>_. Inr c))"

definition lost_roots :: "behavior_ir \<Rightarrow> behavior_ir \<Rightarrow> subject_id list" where
  "lost_roots base final = sorted_set (filter (\<lambda>k. k \<notin> set (canonical_roots final)) (canonical_roots base))"

definition lost_root_reason :: "subject_id \<Rightarrow> string" where
  "lost_root_reason k = ''base root '' @ fst k @ '':'' @ snd k @ '' is not a final root''"

definition classify_compatibility :: "behavior_ir \<Rightarrow> behavior_ir \<Rightarrow> (string, compatibility) res" where
  "classify_compatibility base final =
     (let lost = lost_roots base final in
      if lost \<noteq> [] then compatibility_of Breaking BreakingBaseRootContract (map lost_root_reason lost)
      else
        res_bind (required_capability_breaks base final) (\<lambda>reasons.
        if reasons \<noteq> [] then compatibility_of Breaking BreakingRequiredCapability reasons
        else if \<forall>m \<in> set (canonical_entities base). map_of (canonical_entities final) (fst m) = Some (snd m)
        then compatibility_of Compatible BackwardCompatibleGraphExtension [''every base entity and root remains byte-exact'']
        else compatibility_of CompatibilityUndecided CompatibilityUnresolved
          [''existing behavior changed outside the narrow structural profile'']))"

section \<open>The report\<close>

definition report_of ::
  "change_digests \<Rightarrow> change_proposal \<Rightarrow> behavior_delta \<Rightarrow> behavior_ir \<Rightarrow> behavior_ir \<Rightarrow> impact_finding list \<Rightarrow>
     compatibility \<Rightarrow> impact_edge list \<Rightarrow> impact_witness list \<Rightarrow> unresolved_impact list \<Rightarrow> impact_report" where
  "report_of D proposal delta base final findings compatibility edges witnesses unresolved =
     \<lparr>im_change_id = cp_change_id proposal, im_proposal = change_proposal_ref D proposal, im_delta = behavior_delta_ref D delta,
      im_base_behavior = behavior_document_ref D base, im_final_behavior = behavior_document_ref D final,
      im_findings = findings, im_edges = edges, im_witnesses = witnesses, im_unresolved = unresolved,
      im_compatibility = compatibility, im_required_classes = required_classes_of compatibility\<rparr>"

definition derive_impact_report ::
  "change_digests \<Rightarrow> change_proposal \<Rightarrow> behavior_delta \<Rightarrow> behavior_ir \<Rightarrow> behavior_ir \<Rightarrow> (governance_error, impact_report) res" where
  "derive_impact_report D proposal delta base final =
     (case validate_behavior_delta D delta proposal base final of
        Inl e \<Rightarrow> Inl (GovernanceLifecycle e)
      | Inr _ \<Rightarrow>
          other_error (
            res_bind (res_map (direct_finding (canonical_entities base) (canonical_entities final)) (de_entries delta)) (\<lambda>findings.
            res_bind (classify_compatibility base final) (\<lambda>compatibility.
            res_bind (derive_impact_graph (de_entries delta) findings base final) (\<lambda>(edges, witnesses).
            res_bind (derive_unresolved findings) (\<lambda>unresolved.
            let report = report_of D proposal delta base final findings compatibility edges witnesses unresolved in
            res_bind (validate_report_shape report) (\<lambda>_. Inr report)))))))"

end
