(* ===== verification/IR_Canonical_Form.thy ===== *)
theory IR_Canonical_Form
  imports Behavior_Delta
begin

text \<open>
  The canonical form of a behavior document, what parsing its canonical JSON gives: it is valid when the
  document is, and has the same canonical JSON.
\<close>

section \<open>Canonical documents are as valid as the documents\<close>

lemma canonical_form_fields [simp]:
  "kind_of (canonical_form e) = kind_of e" "entity_id (canonical_form e) = entity_id e"
  by (cases e; simp)+

lemma entity_key_form: "entity_key (canonical_form e) = entity_key e"
  by (simp add: entity_key_def)

lemma set_canonical [simp]:
  "set (canonical_refs rs) = set rs" "set (canonical_ports ps) = set ps"
  by (simp_all add: canonical_refs_def canonical_ports_def)

lemma refs_to_canonical [simp]: "refs_to es K (canonical_refs rs) \<longleftrightarrow> refs_to es K rs"
  by (simp add: refs_to_def canonical_refs_def)

lemma refers_to_canonical [simp]: "refers_to (map canonical_form es) K r \<longleftrightarrow> refers_to es K r"
  by (auto simp: refers_to_def)

lemma refers_to_set: "set es = set es' \<Longrightarrow> refers_to es = refers_to es'"
  by (intro ext) (simp add: refers_to_def)

lemma find_filter: "find P xs = (case filter P xs of [] \<Rightarrow> None | x # _ \<Rightarrow> Some x)"
  by (induction xs) auto

lemma find_canonical_ports [simp]: "find (\<lambda>p. po_name p = n) (canonical_ports ps) = find (\<lambda>p. po_name p = n) ps"
  by (simp add: find_filter canonical_ports_def filter_sort [symmetric] sort_key_stable)

lemma distinct_canonical_ports [simp]: "distinct (map po_name (canonical_ports ps)) \<longleftrightarrow> distinct (map po_name ps)"
  by (simp add: canonical_ports_def distinct_map_sort)

lemma value_ok_canonical [simp]: "value_ok (canonical_value v) \<longleftrightarrow> value_ok v"
proof (induction v)
  case (RecordValue es)
  have "distinct (map fst (sort_key fst (map (\<lambda>e. (fst e, canonical_value (snd e))) es))) \<longleftrightarrow> distinct (map fst es)"
    unfolding distinct_map_sort by (simp add: comp_def)
  moreover have "(\<forall>e \<in> set es. value_ok (canonical_value (snd e))) \<longleftrightarrow> (\<forall>e \<in> set es. value_ok (snd e))"
    using RecordValue by (auto simp: snds.simps)
  ultimately show ?case by simp
qed auto

lemma kind_of_canonical_value [simp]: "kind_of_value (canonical_value v) = kind_of_value v"
  by (cases v) simp_all

lemma form_cases:
  "canonical_form x = UseCase u \<Longrightarrow> \<exists>y. x = UseCase y" "canonical_form x = Step s \<Longrightarrow> \<exists>y. x = Step y"
  "canonical_form x = Action a \<Longrightarrow> \<exists>y. x = Action y" "canonical_form x = Capability c \<Longrightarrow> x = Capability c"
  by (cases x; simp)+

lemma in_canonical_forms:
  "UseCase u \<in> canonical_form ` E \<longleftrightarrow> (\<exists>x. UseCase x \<in> E \<and> canonical_form (UseCase x) = UseCase u)"
  "Step s \<in> canonical_form ` E \<longleftrightarrow> (\<exists>x. Step x \<in> E \<and> canonical_form (Step x) = Step s)"
  "Action a \<in> canonical_form ` E \<longleftrightarrow> (\<exists>x. Action x \<in> E \<and> canonical_form (Action x) = Action a)"
  "Capability c \<in> canonical_form ` E \<longleftrightarrow> Capability c \<in> E"
proof -
  have img: "y \<in> canonical_form ` E \<longleftrightarrow> (\<exists>x \<in> E. canonical_form x = y)" for y unfolding image_iff by (simp only: eq_commute)
  show "UseCase u \<in> canonical_form ` E \<longleftrightarrow> (\<exists>x. UseCase x \<in> E \<and> canonical_form (UseCase x) = UseCase u)"
    "Step s \<in> canonical_form ` E \<longleftrightarrow> (\<exists>x. Step x \<in> E \<and> canonical_form (Step x) = Step s)"
    "Action a \<in> canonical_form ` E \<longleftrightarrow> (\<exists>x. Action x \<in> E \<and> canonical_form (Action x) = Action a)"
    "Capability c \<in> canonical_form ` E \<longleftrightarrow> Capability c \<in> E"
    unfolding img using form_cases canonical_form.simps(10) by blast+
qed

lemma has_ports_canonical:
  "has_ports (map canonical_form es) r ps \<longleftrightarrow> (\<exists>qs. has_ports es r qs \<and> ps = canonical_ports qs)"
proof
  assume "has_ports (map canonical_form es) r ps"
  then consider (use_case) u where "UseCase u \<in> canonical_form ` set es" "us_id u = er_id (pr_owner r)"
      "er_kind (pr_owner r) = UseCaseKind" "ps = ports_of_direction (pr_direction r) (us_input_ports u) (us_output_ports u)"
    | (step) s a where "Step s \<in> canonical_form ` set es" "st_id s = er_id (pr_owner r)" "er_kind (pr_owner r) = StepKind"
      "Action a \<in> canonical_form ` set es" "ac_id a = er_id (st_action s)" "er_kind (st_action s) = ActionKind"
      "ps = ports_of_direction (pr_direction r) (ac_input_ports a) (ac_output_ports a)"
    unfolding has_ports_def set_map by blast
  then show "\<exists>qs. has_ports es r qs \<and> ps = canonical_ports qs"
  proof cases
    case use_case
    obtain x where x: "UseCase x \<in> set es" "canonical_form (UseCase x) = UseCase u"
      using use_case(1) unfolding in_canonical_forms by blast
    have "has_ports es r (ports_of_direction (pr_direction r) (us_input_ports x) (us_output_ports x))"
      unfolding has_ports_def using x use_case(2,3) by auto
    moreover have "ps = canonical_ports (ports_of_direction (pr_direction r) (us_input_ports x) (us_output_ports x))"
      using x(2) use_case(4) by (auto simp: ports_of_direction_def split: direction.splits)
    ultimately show ?thesis by blast
  next
    case step
    obtain x y where x: "Step x \<in> set es" "canonical_form (Step x) = Step s"
      and y: "Action y \<in> set es" "canonical_form (Action y) = Action a"
      using step(1,4) unfolding in_canonical_forms by blast
    have "has_ports es r (ports_of_direction (pr_direction r) (ac_input_ports y) (ac_output_ports y))"
      unfolding has_ports_def using x y step(2,3,5,6) by (intro disjI2 exI [of _ x] exI [of _ y]) auto
    moreover have "ps = canonical_ports (ports_of_direction (pr_direction r) (ac_input_ports y) (ac_output_ports y))"
      using y(2) step(7) by (auto simp: ports_of_direction_def split: direction.splits)
    ultimately show ?thesis by blast
  qed
next
  assume "\<exists>qs. has_ports es r qs \<and> ps = canonical_ports qs"
  then obtain qs where qs: "has_ports es r qs" "ps = canonical_ports qs" by blast
  then show "has_ports (map canonical_form es) r ps"
    unfolding has_ports_def set_map in_canonical_forms
    by (fastforce simp: ports_of_direction_def split: direction.splits)
qed

lemma port_at_canonical [simp]: "port_at (map canonical_form es) r p \<longleftrightarrow> port_at es r p"
  unfolding port_at_def has_ports_canonical by auto

lemma source_ok_canonical [simp]:
  "source_ok (map canonical_form es) (canonical_source s) p \<longleftrightarrow> source_ok es s p"
  by (cases s) (simp_all add: source_ok_def canonical_source_def)

lemma requires_capability_canonical [simp]:
  "requires_capability (map canonical_form es) (canonical_refs rs) \<longleftrightarrow> requires_capability es rs"
  by (auto simp: requires_capability_def in_canonical_forms)

lemma refs_to_forms [simp]: "refs_to (map canonical_form es) K rs \<longleftrightarrow> refs_to es K rs"
  by (simp add: refs_to_def)

lemma entity_ok_canonical: "entity_ok (map canonical_form es) (canonical_form e) \<longleftrightarrow> entity_ok es e"
  by (cases e) (auto simp: binding_ok_def)

lemma entity_ok_set: "set es = set es' \<Longrightarrow> entity_ok es e \<longleftrightarrow> entity_ok es' e"
  by (cases e) (simp_all add: refs_to_def refers_to_def requires_capability_def binding_ok_def source_ok_def port_at_def
      has_ports_def cong: binding_source.case_cong)

lemma capability_names_forms: "capability_names (map canonical_form es) = capability_names es"
proof (induction es)
  case (Cons e es)
  then show ?case by (cases e) (simp_all add: capability_names_def List.map_filter_simps)
qed (simp add: capability_names_def)

lemma capability_names_sort: "distinct (capability_names (sort_key k es)) \<longleftrightarrow> distinct (capability_names es)"
  unfolding capability_names_def List.map_filter_def filter_sort distinct_map_sort ..

lemma ir_ok_canonical: "ir_ok (canonical_document d) \<longleftrightarrow> ir_ok d"
proof -
  let ?es = "map canonical_form (be_entities d)"
  have "distinct (capability_names (sort_key entity_key ?es)) \<longleftrightarrow> distinct (capability_names (be_entities d))"
    unfolding capability_names_sort capability_names_forms ..
  moreover have "distinct (map entity_id (sort_key entity_key ?es)) \<longleftrightarrow> distinct (map entity_id (be_entities d))"
    unfolding distinct_map_sort by (simp add: comp_def)
  moreover have "entity_ok (sort_key entity_key ?es) e \<longleftrightarrow> entity_ok ?es e" for e by (rule entity_ok_set) simp
  moreover have "refs_to (sort_key entity_key ?es) K rs \<longleftrightarrow> refs_to (be_entities d) K rs" for K rs
    using refers_to_set [of "sort_key entity_key ?es" ?es] by (simp add: refs_to_def)
  ultimately show ?thesis by (simp add: ir_ok_def canonical_document_def entity_ok_canonical)
qed

lemma validate_behavior_document_Inr: "validate_behavior_document d l = Inr () \<longleftrightarrow> ir_ok d"
  using validate_ir_semantics_Inr [of "canonical_document d"]
  by (cases "validate_ir_semantics (canonical_document d)")
    (simp_all add: validate_behavior_document_def ir_ok_canonical)

section \<open>The canonical document has the same JSON\<close>

lemma sort_key_sorted: "sorted (map k xs) \<Longrightarrow> sort_key k xs = xs"
  by (induction xs) (simp_all add: insort_is_Cons)

lemma sort_key_idem [simp]: "sort_key k (sort_key k xs) = sort_key k xs"
  by (rule sort_key_sorted) simp

lemma sort_key_map_twice:
  assumes "\<And>x. g (f x) = k x"
  shows "sort_key g (map f (sort_key k xs)) = sort_key g (map f xs)"
  using map_sort_key [of g f k xs, OF assms] by simp

lemma reference_json: "(text_member ''target_kind'' (dump_ref r), text_member ''target_id'' (dump_ref r)) = reference_key r"
  by (simp add: reference_key_def)

lemma port_json: "text_member ''name'' (dump_port p) = po_name p"
  by (simp add: dump_port_def text_member_def member_def text_of_def)

lemma canonicalize_refs:
  "f \<in> set reference_set_fields \<Longrightarrow> canonicalize owner f (dump_refs (canonical_refs rs)) = canonicalize owner f (dump_refs rs)"
proof -
  assume f: "f \<in> set reference_set_fields"
  have ref: "canonicalize ok f' (dump_ref r) = dump_ref r" for ok f' r by (simp add: dump_ref_def)
  have "f \<noteq> ''entities'' \<and> f \<notin> set port_set_fields \<and> f \<noteq> ''entries''"
    using f by (auto simp: reference_set_fields_def port_set_fields_def)
  then show ?thesis
    using f sort_key_map_twice [of "\<lambda>item. (text_member ''target_kind'' item, text_member ''target_id'' item)" dump_ref reference_key rs, OF reference_json]
    by (simp add: dump_refs_def canonical_refs_def ref comp_def sort_items_def)
qed

lemma canonicalize_ports:
  "f \<in> set port_set_fields \<Longrightarrow> canonicalize owner f (dump_ports (canonical_ports ps)) = canonicalize owner f (dump_ports ps)"
proof -
  assume f: "f \<in> set port_set_fields"
  have port: "canonicalize ok f' (dump_port p) = dump_port p" for ok f' p by (simp add: dump_port_def)
  have "f \<noteq> ''entities''" using f by (auto simp: port_set_fields_def)
  then show ?thesis
    using f sort_key_map_twice [of "text_member ''name''" dump_port po_name ps, OF port_json]
    by (simp add: dump_ports_def canonical_ports_def port comp_def sort_items_def)
qed

lemma canonicalize_value: "canonicalize owner f (dump_value (canonical_value v)) = canonicalize owner f (dump_value v)"
proof (induction v arbitrary: owner f)
  case (ListValue vs)
  then show ?case by (simp add: comp_def sort_items_def reference_set_fields_def port_set_fields_def text_member_def member_def text_of_def cong: map_cong)
next
  case (RecordValue es)
  let ?item = "\<lambda>e. JObject [(''kind'', JString ''record_entry''), (''name'', JString (fst e)), (''value'', canonicalize ''record_entry'' ''value'' (dump_value (snd e)))]"
  have name: "text_member ''name'' (?item e) = fst e" for e by (simp add: text_member_def member_def text_of_def)
  have "map (\<lambda>e. ?item (fst e, canonical_value (snd e))) es = map ?item es"
    using RecordValue by (auto simp: snds.simps)
  then show ?case
    using sort_key_map_twice [of "text_member ''name''" ?item fst "map (\<lambda>e. (fst e, canonical_value (snd e))) es", OF name]
    by (simp add: comp_def sort_items_def text_member_def member_def text_of_def cong: map_cong)
qed simp_all

lemma canonical_entity_form: "canonical_entity (canonical_form e) = canonical_entity e"
proof -
  note fields = reference_set_fields_def port_set_fields_def
  have "map (\<lambda>m. (fst m, canonicalize ok (fst m) (snd m))) (dump_fields (canonical_form e)) =
      map (\<lambda>m. (fst m, canonicalize ok (fst m) (snd m))) (dump_fields e)" for ok
    by (cases e) (simp_all add: canonicalize_refs canonicalize_ports canonicalize_value fields canonical_source_def dump_source_def
        split: binding_source.splits)
  then show ?thesis by (simp add: canonical_entity_def dump_entity_def text_member_def member_def text_of_def)
qed

lemma canonical_ir_document: "canonical_ir (canonical_document d) = canonical_ir d"
proof -
  have "map canonical_entity (sort_key entity_key (sort_key entity_key (map canonical_form (be_entities d)))) =
      map canonical_entity (map canonical_form (sort_key entity_key (be_entities d)))"
    using map_sort_key [of entity_key canonical_form entity_key "be_entities d", OF entity_key_form] by simp
  also have "\<dots> = map canonical_entity (sort_key entity_key (be_entities d))" by (simp add: comp_def canonical_entity_form)
  finally show ?thesis by (simp add: canonical_behavior canonical_document_def canonical_refs_def)
qed

end
