(* ===== verification/Impact_Exact.thy ===== *)
theory Impact_Exact
  imports Impact_Report IR_Canonical_Form
begin

text \<open>
  When an impact report can be derived. The graph and the unresolved impacts never fail; what can fail
  is the order of the changed paths of an entity and the order of the reasons of a breaking change.
\<close>

section \<open>Direct findings\<close>

fun entry_operation :: "delta_entry \<Rightarrow> string" where
  "entry_operation (AddedBehavior f r) = ''added''"
| "entry_operation (ModifiedBehavior b f as br fr) = ''modified''"
| "entry_operation (RemovedBehavior b r) = ''removed''"

lemma shape_checks_Inr [simp]: "shape_checks cs = Inr () \<longleftrightarrow> (\<forall>c \<in> set cs. fst c)"
  by (auto simp: shape_checks_def res_all_Inr case_prod_unfold)

lemma validate_finding_Inr:
  "validate_finding f = Inr () \<longleftrightarrow>
     fi_changed_paths f \<noteq> [] \<and> distinct (fi_changed_paths f) \<and> sorted (fi_changed_paths f)"
  by (auto simp: validate_finding_def) (metis sorted_sort, simp add: sorted_sort_id)

definition finding_of :: "delta_entry \<Rightarrow> impact_finding \<Rightarrow> bool" where
  "finding_of x f \<longleftrightarrow> fi_subject f = \<lparr>su_operation = entry_operation x, su_key = entry_subject x\<rparr> \<and>
     distinct (fi_changed_paths f)"

lemma impact_finding_of_Inr:
  "impact_finding_of op k paths = Inr f \<longleftrightarrow>
     f = \<lparr>fi_subject = \<lparr>su_operation = op, su_key = k\<rparr>, fi_precision = Definite, fi_changed_paths = paths\<rparr> \<and>
     paths \<noteq> [] \<and> distinct paths \<and> sorted paths"
  by (auto simp: impact_finding_of_def Let_def res_bind_Inr validate_finding_Inr)

definition changed_paths :: "behavior_ir \<Rightarrow> behavior_ir \<Rightarrow> subject_id \<Rightarrow> string list" where
  "changed_paths base final k =
     field_changes [] (the (map_of (canonical_entities base) k)) (the (map_of (canonical_entities final) k))"

text \<open>The changed paths of an entity that did not become or cease to be a root are in order.\<close>

definition paths_in_order :: "behavior_ir \<Rightarrow> behavior_ir \<Rightarrow> subject_id \<Rightarrow> bool" where
  "paths_in_order base final k \<longleftrightarrow>
     (k \<in> set (canonical_roots base)) \<noteq> (k \<in> set (canonical_roots final)) \<or> sorted (changed_paths base final k)"

lemma entity_json:
  assumes "ir_ok d" "k \<in> entity_keys d"
  obtains e where "map_of (canonical_entities d) k = Some (canonical_entity e)"
  using assms canonical_entities_lookup [of d] by (auto simp: entity_keys_def ir_ok_def)

lemma changed_paths_facts:
  assumes docs: "ir_ok base" "ir_ok final" and k: "k \<in> entity_keys base" "k \<in> entity_keys final"
  shows "distinct (changed_paths base final k)" "''/@root'' \<notin> set (changed_paths base final k)"
    "changed_paths base final k = [] \<longleftrightarrow> map_of (canonical_entities base) k = map_of (canonical_entities final) k"
proof -
  obtain e where e: "map_of (canonical_entities base) k = Some (canonical_entity e)" using entity_json [OF docs(1) k(1)] .
  obtain e' where e': "map_of (canonical_entities final) k = Some (canonical_entity e')" using entity_json [OF docs(2) k(2)] .
  show "distinct (changed_paths base final k)" using field_changes_below by (simp add: changed_paths_def)
  show "''/@root'' \<notin> set (changed_paths base final k)" using root_path_fresh e e' by (simp add: changed_paths_def)
  show "changed_paths base final k = [] \<longleftrightarrow> map_of (canonical_entities base) k = map_of (canonical_entities final) k"
    using field_changes_Nil [OF ordered_canonical_entity ordered_canonical_entity] e e' by (simp add: changed_paths_def)
qed

lemma modified_finding:
  assumes docs: "ir_ok base" "ir_ok final" and k: "k \<in> entity_keys base" "k \<in> entity_keys final"
    and x: "modified_at D base final k = Some x"
  shows "(\<exists>f. direct_finding (canonical_entities base) (canonical_entities final) x = Inr f) \<longleftrightarrow> paths_in_order base final k"
    and "direct_finding (canonical_entities base) (canonical_entities final) x = Inr f \<Longrightarrow> finding_of x f"
proof -
  note facts = changed_paths_facts [OF docs k]
  have changed: "changed_at base final k" using modified_at_Some [of D base final k] x by blast
  obtain e where e: "map_of (canonical_entities base) k = Some (canonical_entity e)" using entity_json [OF docs(1) k(1)] .
  obtain e' where e': "map_of (canonical_entities final) k = Some (canonical_entity e')" using entity_json [OF docs(2) k(2)] .
  let ?br = "k \<in> set (canonical_roots base)" and ?fr = "k \<in> set (canonical_roots final)"
  let ?paths = "if ?br \<noteq> ?fr then sort (changed_paths base final k @ [''/@root'']) else changed_paths base final k"
  obtain as where form: "x = ModifiedBehavior (located (behavior_document_ref D base) k) (located (behavior_document_ref D final) k) as ?br ?fr"
    using x by (auto simp: modified_entry_def Let_def split: if_splits)
  have res: "direct_finding (canonical_entities base) (canonical_entities final) x = impact_finding_of ''modified'' k ?paths"
    using e e' by (simp add: form located_def changed_paths_def Let_def)
  have "set (sort (changed_paths base final k @ [''/@root''])) \<noteq> {}" by simp
  then have "sort (changed_paths base final k @ [''/@root'']) \<noteq> []" by (metis list.set(1))
  then have "?paths \<noteq> [] \<and> distinct ?paths" using facts changed by (auto simp: changed_at_def)
  then show "(\<exists>f. direct_finding (canonical_entities base) (canonical_entities final) x = Inr f) \<longleftrightarrow> paths_in_order base final k"
    unfolding res impact_finding_of_Inr by (auto simp: paths_in_order_def)
  show "finding_of x f" if "direct_finding (canonical_entities base) (canonical_entities final) x = Inr f"
    using that unfolding res impact_finding_of_Inr by (auto simp: finding_of_def form located_def)
qed

lemma direct_finding_Inr:
  assumes docs: "ir_ok base" "ir_ok final" and x: "x \<in> set (derive_entries D base final)"
  shows "(\<exists>f. direct_finding (canonical_entities base) (canonical_entities final) x = Inr f) \<longleftrightarrow>
      (entry_operation x = ''modified'' \<longrightarrow> paths_in_order base final (entry_subject x))"
    and "direct_finding (canonical_entities base) (canonical_entities final) x = Inr f \<Longrightarrow> finding_of x f"
proof -
  from x consider (added) k r where "x = AddedBehavior (located (behavior_document_ref D final) k) r"
    | (modified) k where "k \<in> entity_keys base" "k \<in> entity_keys final" "modified_at D base final k = Some x"
    | (removed) k r where "x = RemovedBehavior (located (behavior_document_ref D base) k) r"
    unfolding set_derive_entries by blast
  then have "((\<exists>f. direct_finding (canonical_entities base) (canonical_entities final) x = Inr f) \<longleftrightarrow>
      (entry_operation x = ''modified'' \<longrightarrow> paths_in_order base final (entry_subject x))) \<and>
    (\<forall>f. direct_finding (canonical_entities base) (canonical_entities final) x = Inr f \<longrightarrow> finding_of x f)"
  proof cases
    case modified
    then have "entry_operation x = ''modified''" "entry_subject x = k"
      by (auto simp: modified_entry_def Let_def located_def split: if_splits)
    then show ?thesis using modified_finding [OF docs modified] by auto
  qed (auto simp: impact_finding_of_Inr finding_of_def located_def)
  then show "(\<exists>f. direct_finding (canonical_entities base) (canonical_entities final) x = Inr f) \<longleftrightarrow>
      (entry_operation x = ''modified'' \<longrightarrow> paths_in_order base final (entry_subject x))"
    and "direct_finding (canonical_entities base) (canonical_entities final) x = Inr f \<Longrightarrow> finding_of x f" by blast+
qed

section \<open>Compatibility\<close>

lemma lex_suffix:
  fixes xs ys :: string
  assumes "xs < ys" "\<forall>d \<in> set ys. c < d"
  shows "xs @ c # r < ys @ c # r'"
  using assms
proof (induction xs arbitrary: ys)
  case Nil
  then show ?case by (cases ys) auto
next
  case (Cons x xs)
  then show ?case by (cases ys) auto
qed

lemma less_append_same: "p @ x < p @ y \<longleftrightarrow> x < (y :: string)"
  by (induction p) auto

lemma sorted_reasons:
  assumes "sorted_wrt (<) ks" "\<forall>k \<in> set ks. fst k = kind \<and> (\<forall>c \<in> set (snd k). CHR '' '' < c)"
  shows "sorted_wrt (<) (map lost_root_reason ks)"
  using assms
proof (induction ks)
  case (Cons k ks)
  have "lost_root_reason k < lost_root_reason k'" if "k' \<in> set ks" for k'
  proof -
    have "k < k'" "fst k = kind" "fst k' = kind" "\<forall>c \<in> set (snd k'). CHR '' '' < c" using Cons.prems that by auto
    then have "snd k @ CHR '' '' # ''is not a final root'' < snd k' @ CHR '' '' # ''is not a final root''"
      by (intro lex_suffix) (auto simp: less_prod_def)
    then show ?thesis using \<open>fst k = kind\<close> \<open>fst k' = kind\<close> by (simp add: lost_root_reason_def less_append_same)
  qed
  then show ?case using Cons by simp
qed simp

text \<open>The reasons of a breaking change for its capabilities are in order (or there is none of these).\<close>

definition reasons_in_order :: "behavior_ir \<Rightarrow> behavior_ir \<Rightarrow> bool" where
  "reasons_in_order base final \<longleftrightarrow>
     lost_roots base final \<noteq> [] \<or>
     (\<exists>reasons. required_capability_breaks base final = Inr reasons \<and> sorted_wrt (<) reasons)"

lemma compatibility_of_Inr:
  "compatibility_of outcome profile reasons = Inr c \<longleftrightarrow>
     c = \<lparr>cm_outcome = outcome, cm_profile = profile, cm_reasons = reasons\<rparr> \<and>
     validate_compatibility c = Inr ()"
  by (auto simp: compatibility_of_def Let_def res_bind_Inr)

lemma validate_compatibility_Inr:
  "validate_compatibility \<lparr>cm_outcome = outcome, cm_profile = profile, cm_reasons = reasons\<rparr> = Inr () \<longleftrightarrow>
     reasons \<noteq> [] \<and> sorted_wrt (<) reasons \<and>
     (outcome, profile) \<in> {(Compatible, BackwardCompatibleGraphExtension), (CompatibilityUndecided, CompatibilityUnresolved),
       (Breaking, BreakingBaseRootContract), (Breaking, BreakingRequiredCapability)}"
proof -
  have "reasons = sort reasons \<longleftrightarrow> sorted reasons" by (metis sorted_sort sorted_sort_id)
  then show ?thesis by (cases outcome) (auto simp: validate_compatibility_def strict_sorted_iff)
qed

definition root_ids_ok :: "behavior_ir \<Rightarrow> bool" where
  "root_ids_ok d \<longleftrightarrow> (\<forall>r \<in> set (be_roots d). \<forall>c \<in> set (er_id r). CHR '' '' < c)"

lemma classify_compatibility_Inr:
  assumes "ir_ok base" "root_ids_ok base"
  shows "(\<exists>c. classify_compatibility base final = Inr c) \<longleftrightarrow> reasons_in_order base final"
proof (cases "lost_roots base final = []")
  case True
  show ?thesis
  proof (cases "required_capability_breaks base final")
    case (Inl e)
    then show ?thesis using True by (simp add: classify_compatibility_def reasons_in_order_def)
  next
    case (Inr reasons)
    then show ?thesis using True
      by (auto simp: classify_compatibility_def reasons_in_order_def compatibility_of_Inr validate_compatibility_Inr
          ex_simps simp del: ex_simps)
  qed
next
  case False
  have "fst k = ''use_case'' \<and> (\<forall>c \<in> set (snd k). CHR '' '' < c)" if "k \<in> set (lost_roots base final)" for k
  proof -
    have "k \<in> set (canonical_roots base)" using that by (simp add: lost_roots_def)
    then obtain r where "r \<in> set (be_roots base)" "k = reference_key r" by (auto simp: canonical_roots_set)
    then show ?thesis using assms
      by (auto simp: reference_key_def root_ids_ok_def ir_ok_def refs_to_def refers_to_def)
  qed
  then have "sorted_wrt (<) (map lost_root_reason (lost_roots base final))"
    by (intro sorted_reasons [of _ "''use_case''"]) (auto simp: lost_roots_def strict_sorted_iff)
  then show ?thesis using False
    by (auto simp: classify_compatibility_def Let_def reasons_in_order_def compatibility_of_Inr validate_compatibility_Inr)
qed

section \<open>Unresolved impacts\<close>

lemma finding_unresolved_facts:
  "u \<in> set (finding_unresolved f) \<Longrightarrow> ui_subject u = fi_subject f \<and> ui_changed_path u \<in> set (fi_changed_paths f) \<and>
     ui_sides u = finding_sides f"
  by (auto simp: finding_unresolved_def set_map_filter split: option.splits)

lemma finding_unresolved_paths: "distinct (fi_changed_paths f) \<Longrightarrow> distinct (map ui_changed_path (finding_unresolved f))"
proof -
  have selected: "map g (List.map_filter h ps) = filter (\<lambda>p. h p \<noteq> None) ps" if "\<And>p y. h p = Some y \<Longrightarrow> g y = p"
    for g :: "unresolved_impact \<Rightarrow> string" and h ps
    using that by (induction ps) (auto simp: List.map_filter_simps split: option.splits)
  have "\<exists>P. map ui_changed_path (finding_unresolved f) = filter P (fi_changed_paths f)"
    unfolding finding_unresolved_def by (intro exI, rule selected) (auto split: option.splits)
  then show "distinct (map ui_changed_path (finding_unresolved f))" if "distinct (fi_changed_paths f)"
    using that by (metis distinct_filter)
qed

definition unresolved_place :: "unresolved_impact \<Rightarrow> (string \<times> string \<times> string) \<times> string" where
  "unresolved_place u = (impact_order (ui_subject u), ui_changed_path u)"

lemma unresolved_orders:
  "unresolved_order u \<le> unresolved_order v \<Longrightarrow> unresolved_place u \<le> unresolved_place v"
  "unresolved_place u < unresolved_place v \<Longrightarrow> unresolved_key u < unresolved_key v"
  by (auto simp: unresolved_order_def unresolved_key_def unresolved_place_def)

lemma sorted_by_place:
  assumes "sorted (map unresolved_order us)" "distinct (map unresolved_place us)"
  shows "sorted (map unresolved_key us)" "distinct (map unresolved_key us)"
proof -
  have "sorted (map unresolved_place us)"
    using assms(1) unfolding sorted_map by (rule sorted_wrt_mono_rel [rotated]) (rule unresolved_orders)
  then have "sorted_wrt (\<lambda>u v. unresolved_place u < unresolved_place v) us"
    using assms(2) strict_sorted_iff [of "map unresolved_place us"] by (simp add: sorted_wrt_map)
  then have "sorted_wrt (\<lambda>u v. unresolved_key u < unresolved_key v) us"
    by (rule sorted_wrt_mono_rel [rotated]) (rule unresolved_orders)
  then show "sorted (map unresolved_key us)" "distinct (map unresolved_key us)"
    using strict_sorted_iff [of "map unresolved_key us"] by (simp_all add: sorted_wrt_map)
qed

lemma finding_sides_ok: "validate_unresolved u = Inr () \<longleftrightarrow> True" if "ui_sides u = finding_sides f"
proof -
  have "sort_key side_value (finding_sides f) = finding_sides f" by (auto simp: finding_sides_def)
  then show ?thesis using that by (auto simp: validate_unresolved_def finding_sides_def)
qed

lemma derive_unresolved_Inr:
  assumes "distinct (map (impact_order \<circ> fi_subject) fs)" "\<forall>f \<in> set fs. distinct (fi_changed_paths f)"
  shows "\<exists>us. derive_unresolved fs = Inr us \<and> sorted (map unresolved_key us) \<and> distinct (map unresolved_key us) \<and>
    (\<forall>u \<in> set us. \<exists>f \<in> set fs. ui_subject u = fi_subject f)"
proof -
  let ?us = "concat (map finding_unresolved fs)"
  have valid: "res_all validate_unresolved ?us = Inr ()"
    unfolding res_all_Inr using finding_unresolved_facts finding_sides_ok by fastforce
  have "distinct (map unresolved_place ?us)"
  proof (rule distinct_map_concat)
    show "distinct fs" using assms(1) by (simp add: distinct_map)
    show "distinct (map unresolved_place (finding_unresolved f))" if "f \<in> set fs" for f
      using finding_unresolved_paths [of f] assms(2) that by (auto simp: distinct_map inj_on_def unresolved_place_def)
    show "unresolved_place ` set (finding_unresolved f) \<inter> unresolved_place ` set (finding_unresolved g) = {}"
      if "f \<in> set fs" "g \<in> set fs" "f \<noteq> g" for f g
      using that assms(1) by (auto simp: unresolved_place_def distinct_map inj_on_def dest!: finding_unresolved_facts)
  qed
  then have "distinct (map unresolved_place (sort_key unresolved_order ?us))" unfolding distinct_map_sort .
  from sorted_by_place [OF _ this]
  have "sorted (map unresolved_key (sort_key unresolved_order ?us))" "distinct (map unresolved_key (sort_key unresolved_order ?us))"
    by simp_all
  moreover have "\<forall>u \<in> set (sort_key unresolved_order ?us). \<exists>f \<in> set fs. ui_subject u = fi_subject f"
    using finding_unresolved_facts by fastforce
  moreover have "derive_unresolved fs = Inr (sort_key unresolved_order ?us)"
    unfolding derive_unresolved_def Let_def valid by simp
  ultimately show ?thesis by blast
qed

section \<open>Findings in order\<close>

lemma operation_order:
  "entry_sort_key x \<le> entry_sort_key y \<Longrightarrow> entry_subject x \<noteq> entry_subject y \<Longrightarrow>
     (entry_operation x, entry_subject x) < (entry_operation y, entry_subject y)"
  by (cases x; cases y) (auto simp: entry_sort_key_def less_le)

lemma findings_sorted:
  assumes xs: "sorted (map entry_sort_key xs)" "distinct (map entry_subject xs)"
    and fs: "list_all2 finding_of xs fs"
  shows "sorted (map finding_key fs)" "distinct (map finding_key fs)" "distinct (map (impact_order \<circ> fi_subject) fs)"
proof -
  have "map (impact_order \<circ> fi_subject) fs = map (\<lambda>x. (entry_operation x, entry_subject x)) xs"
    using fs by (induction rule: list_all2_induct) (auto simp: finding_of_def impact_order_def)
  moreover have "sorted_wrt (<) (map (\<lambda>x. (entry_operation x, entry_subject x)) xs)"
    using xs
  proof (induction xs)
    case (Cons x xs)
    then have "(entry_operation x, entry_subject x) < (entry_operation y, entry_subject y)" if "y \<in> set xs" for y
      using that by (intro operation_order) auto
    then show ?case using Cons by simp
  qed simp
  ultimately have strict: "sorted_wrt (<) (map (impact_order \<circ> fi_subject) fs)" by simp
  then show "distinct (map (impact_order \<circ> fi_subject) fs)" by (simp add: strict_sorted_iff)
  have "sorted_wrt (\<lambda>f g. finding_key f < finding_key g) fs"
    using strict unfolding sorted_wrt_map by (rule sorted_wrt_mono_rel [rotated]) (auto simp: finding_key_def)
  then show "sorted (map finding_key fs)" "distinct (map finding_key fs)"
    using strict_sorted_iff [of "map finding_key fs"] by (simp_all add: sorted_wrt_map)
qed

lemma list_all2_mono_mem: "list_all2 P xs ys \<Longrightarrow> (\<And>x y. x \<in> set xs \<Longrightarrow> P x y \<Longrightarrow> Q x y) \<Longrightarrow> list_all2 Q xs ys"
  by (induction rule: list_all2_induct) auto

lemma res_map_exists: "(\<exists>ys. res_map f xs = Inr ys) \<longleftrightarrow> (\<forall>x \<in> set xs. \<exists>y. f x = Inr y)"
  by (induction xs) (auto split: sum.splits)

lemma modified_entries:
  "x \<in> set (derive_entries D base final) \<Longrightarrow> entry_operation x = ''modified'' \<Longrightarrow>
     entry_subject x \<in> entity_keys base \<inter> entity_keys final"
  by (auto simp: set_derive_entries modified_entry_def Let_def located_def split: if_splits)

lemma unchanged_paths:
  assumes docs: "ir_ok base" "ir_ok final" and k: "k \<in> entity_keys base" "k \<in> entity_keys final" "\<not> changed_at base final k"
  shows "paths_in_order base final k"
  using changed_paths_facts(3) [OF docs k(1,2)] k(3) by (simp add: paths_in_order_def changed_at_def)

definition all_paths_in_order :: "behavior_ir \<Rightarrow> behavior_ir \<Rightarrow> bool" where
  "all_paths_in_order base final \<longleftrightarrow> (\<forall>k \<in> entity_keys base \<inter> entity_keys final. paths_in_order base final k)"

lemma findings_exist:
  assumes docs: "ir_ok base" "ir_ok final"
  shows "(\<exists>fs. res_map (direct_finding (canonical_entities base) (canonical_entities final)) (derive_entries D base final) = Inr fs) \<longleftrightarrow>
    all_paths_in_order base final"
proof -
  have "(\<forall>x \<in> set (derive_entries D base final). entry_operation x = ''modified'' \<longrightarrow> paths_in_order base final (entry_subject x)) \<longleftrightarrow>
      all_paths_in_order base final" (is "?l \<longleftrightarrow> _")
  proof
    assume l: ?l
    have "paths_in_order base final k" if k: "k \<in> entity_keys base" "k \<in> entity_keys final" for k
    proof (cases "changed_at base final k")
      case True
      then obtain x where x: "modified_at D base final k = Some x" using modified_at_Some by blast
      then have "x \<in> set (derive_entries D base final)" using k set_derive_entries by blast
      moreover have "entry_operation x = ''modified''" "entry_subject x = k"
        using x by (auto simp: modified_entry_def Let_def located_def split: if_splits)
      ultimately show ?thesis using l by auto
    qed (rule unchanged_paths [OF docs k])
    then show "all_paths_in_order base final" by (simp add: all_paths_in_order_def)
  qed (use modified_entries in \<open>fastforce simp: all_paths_in_order_def\<close>)
  then show ?thesis unfolding res_map_exists using direct_finding_Inr(1) [OF docs] by fastforce
qed

lemma valid_delta_facts:
  assumes "validate_behavior_delta D delta p base final = Inr ()"
  shows "ir_ok base" "ir_ok final" "de_change_id delta = cp_change_id p" "de_entries delta = derive_entries D base final"
    "de_entries delta \<noteq> []" "de_base_behavior delta = behavior_document_ref D base"
    "de_final_behavior delta = behavior_document_ref D final"
  using assms by (auto simp: validate_behavior_delta_def validate_document_pair_def res_bind_Inr res_all_Inr Let_def
      validate_behavior_document_Inr simp del: res_all.simps)

lemma validate_report_shape_Inr:
  "validate_report_shape r = Inr () \<longleftrightarrow>
     im_findings r \<noteq> [] \<and> cf_change_id (im_proposal r) = im_change_id r \<and> cf_change_id (im_delta r) = im_change_id r \<and>
     br_document_id (im_base_behavior r) = br_document_id (im_final_behavior r) \<and>
     br_digest (im_base_behavior r) \<noteq> br_digest (im_final_behavior r) \<and>
     distinct (map finding_key (im_findings r)) \<and> sorted (map finding_key (im_findings r)) \<and>
     (\<forall>f \<in> set (im_findings r). su_operation (fi_subject f) \<noteq> ''unchanged'') \<and>
     distinct (map edge_key (im_edges r)) \<and> sorted (map edge_key (im_edges r)) \<and>
     distinct (map witness_identity (im_witnesses r)) \<and> sorted (map witness_key (im_witnesses r)) \<and>
     distinct (map unresolved_key (im_unresolved r)) \<and> sorted (map unresolved_key (im_unresolved r)) \<and>
     (\<forall>w \<in> set (im_witnesses r). impact_order (wi_subject w) \<in> (impact_order \<circ> fi_subject) ` set (im_findings r) \<and>
        validate_witness (im_edges r) w = Inr ()) \<and>
     (\<forall>u \<in> set (im_unresolved r). impact_order (ui_subject u) \<in> (impact_order \<circ> fi_subject) ` set (im_findings r)) \<and>
     im_required_classes r = required_classes_of (im_compatibility r)"
  unfolding validate_report_shape_def Let_def res_bind_Inr shape_checks_Inr res_all_Inr require_Inr
  by (auto simp: comp_def image_def split: if_splits)

lemma report_shape:
  assumes delta: "validate_delta_shape delta = Inr ()" "validate_behavior_delta D delta p base final = Inr ()"
    and fs: "list_all2 finding_of (de_entries delta) fs"
    and graph: "distinct (map edge_key es)" "sorted (map edge_key es)" "distinct (map witness_identity ws)" "sorted (map witness_key ws)"
      "\<forall>w \<in> set ws. validate_witness es w = Inr () \<and> (\<exists>f \<in> set fs. wi_subject w = fi_subject f)"
    and us: "sorted (map unresolved_key us)" "distinct (map unresolved_key us)" "\<forall>u \<in> set us. \<exists>f \<in> set fs. ui_subject u = fi_subject f"
  shows "validate_report_shape (report_of D p delta base final fs c es ws us) = Inr ()"
proof -
  have d: "de_change_id delta = cp_change_id p" "de_entries delta = derive_entries D base final" "de_entries delta \<noteq> []"
    "de_base_behavior delta = behavior_document_ref D base" "de_final_behavior delta = behavior_document_ref D final"
    using valid_delta_facts [OF delta(2)] by simp_all
  have behavior: "be_document_id base = be_document_id final" "dg_behavior D (canonical_ir base) \<noteq> dg_behavior D (canonical_ir final)"
    using delta(1) by (auto simp: validate_delta_shape_def res_all_Inr d behavior_document_ref_def simp del: res_all.simps)
  note sorted = findings_sorted [OF _ _ fs, unfolded d(2), OF derive_entries_shape(4,1)]
  have "su_operation (fi_subject f) \<noteq> ''unchanged''" if f: "f \<in> set fs" for f
  proof -
    obtain i where i: "i < length fs" "f = fs ! i" using f by (auto simp: in_set_conv_nth)
    then have "finding_of (de_entries delta ! i) f" using list_all2_nthD2 [OF fs] by blast
    then show ?thesis by (cases "de_entries delta ! i") (auto simp: finding_of_def)
  qed
  moreover have "fs \<noteq> []" using fs d(3) by (cases fs) auto
  ultimately show ?thesis
    unfolding validate_report_shape_Inr using sorted graph us behavior d(1)
    by (fastforce simp: report_of_def change_proposal_ref_def behavior_delta_ref_def behavior_document_ref_def)
qed

lemma other_error_Inr: "other_error r = Inr x \<longleftrightarrow> r = Inr x"
  by (cases r) (simp_all add: other_error_def)

lemma derive_impact_report_Inr:
  assumes delta: "validate_delta_shape delta = Inr ()" and roots: "root_ids_ok base"
  shows "(\<exists>r. derive_impact_report D p delta base final = Inr r) \<longleftrightarrow>
    validate_behavior_delta D delta p base final = Inr () \<and> all_paths_in_order base final \<and> reasons_in_order base final"
proof (cases "validate_behavior_delta D delta p base final = Inr ()")
  case False
  then have "\<exists>e. validate_behavior_delta D delta p base final = Inl e" by (metis old.sum.exhaust old.unit.exhaust)
  then show ?thesis using False by (auto simp: derive_impact_report_def)
next
  case True
  then have docs: "ir_ok base" "ir_ok final" and entries: "de_entries delta = derive_entries D base final"
    using valid_delta_facts by blast+
  let ?finding = "direct_finding (canonical_entities base) (canonical_entities final)"
  show ?thesis
  proof
    assume "\<exists>r. derive_impact_report D p delta base final = Inr r"
    then obtain fs c where "res_map ?finding (derive_entries D base final) = Inr fs" "classify_compatibility base final = Inr c"
      using True entries by (auto simp: derive_impact_report_def other_error_Inr res_bind_Inr)
    then show "validate_behavior_delta D delta p base final = Inr () \<and> all_paths_in_order base final \<and> reasons_in_order base final"
      using True findings_exist [OF docs] classify_compatibility_Inr [OF docs(1) roots] by blast
  next
    assume "validate_behavior_delta D delta p base final = Inr () \<and> all_paths_in_order base final \<and> reasons_in_order base final"
    then obtain fs c where fs: "res_map ?finding (derive_entries D base final) = Inr fs" and c: "classify_compatibility base final = Inr c"
      using findings_exist [OF docs] classify_compatibility_Inr [OF docs(1) roots] by blast
    have "list_all2 (\<lambda>x f. ?finding x = Inr f) (derive_entries D base final) fs" using fs by (simp add: res_map_Inr)
    then have all2: "list_all2 finding_of (derive_entries D base final) fs"
      using direct_finding_Inr(2) [OF docs] by (rule list_all2_mono_mem)
    then have subjects: "list_all2 (\<lambda>x f. su_key (fi_subject f) = entry_subject x) (derive_entries D base final) fs"
      "\<forall>f \<in> set fs. distinct (fi_changed_paths f)"
      by (auto simp: finding_of_def list_all2_conv_all_nth in_set_conv_nth)
    obtain es ws where graph: "derive_impact_graph (derive_entries D base final) fs base final = Inr (es, ws)"
      "distinct (map edge_key es)" "sorted (map edge_key es)" "distinct (map witness_identity ws)" "sorted (map witness_key ws)"
      "\<forall>w \<in> set ws. validate_witness es w = Inr () \<and> (\<exists>f \<in> set fs. wi_subject w = fi_subject f)"
      using impact_graph_Inr [OF docs subjects(1)] by blast
    obtain us where us: "derive_unresolved fs = Inr us" "sorted (map unresolved_key us)" "distinct (map unresolved_key us)"
      "\<forall>u \<in> set us. \<exists>f \<in> set fs. ui_subject u = fi_subject f"
      using derive_unresolved_Inr [OF findings_sorted(3) [OF derive_entries_shape(4,1) all2] subjects(2)] by blast
    have "validate_report_shape (report_of D p delta base final fs c es ws us) = Inr ()"
      using all2 by (intro report_shape [OF delta True _ graph(2-6) us(2-4)]) (simp add: entries)
    then show "\<exists>r. derive_impact_report D p delta base final = Inr r"
      using True fs c graph(1) us(1) by (simp add: derive_impact_report_def entries other_error_Inr)
  qed
qed

section \<open>What compatibility means\<close>

definition version_of :: "ir_capability \<Rightarrow> nat list" where
  "version_of c = map (digits_value 0) (split_on (CHR ''.'') (ca_minimum_version c))"

text \<open>A capability the final document requires and the base document does not, or only in an older version.\<close>

definition newly_required :: "behavior_ir \<Rightarrow> ir_capability \<Rightarrow> bool" where
  "newly_required base c \<longleftrightarrow> ca_required c \<and>
     (\<forall>p. Capability p \<in> set (be_entities base) \<and> ca_id p = ca_id c \<and> ca_required p \<longrightarrow> version_of p < version_of c)"

lemma capability_version_Inr: "capability_version v = Inr ns \<Longrightarrow> ns = map (digits_value 0) (split_on (CHR ''.'') v)"
  by (auto simp: capability_version_def Let_def split: if_splits)

lemma capabilities_lookup:
  assumes "ir_ok d"
  shows "map_of (capabilities d) i = Some c \<longleftrightarrow> Capability c \<in> set (be_entities d) \<and> ca_id c = i"
proof -
  let ?cs = "List.map_filter (\<lambda>e. case e of Capability c \<Rightarrow> Some c | _ \<Rightarrow> None) (be_entities d)"
  have pairs: "List.map_filter (\<lambda>e. case e of Capability c \<Rightarrow> Some (ca_id c, c) | _ \<Rightarrow> None) es =
      map (\<lambda>c. (ca_id c, c)) (List.map_filter (\<lambda>e. case e of Capability c \<Rightarrow> Some c | _ \<Rightarrow> None) es)" for es
    by (induction es) (auto simp: List.map_filter_simps split: entity.splits)
  have caps: "c \<in> set (List.map_filter (\<lambda>e. case e of Capability c \<Rightarrow> Some c | _ \<Rightarrow> None) es) \<longleftrightarrow> Capability c \<in> set es"
    for c es by (induction es) (auto simp: List.map_filter_simps split: entity.splits)
  have "inj_on ca_id (set ?cs)"
  proof (rule inj_onI)
    fix x y
    assume xy: "x \<in> set ?cs" "y \<in> set ?cs" "ca_id x = ca_id y"
    then have "entity_id (Capability x) = entity_id (Capability y)" by simp
    with xy(1,2) show "x = y" using assms unfolding caps ir_ok_def distinct_map inj_on_def by blast
  qed
  then show ?thesis
    unfolding capabilities_def pairs using dict_of_inj [of ca_id ?cs "\<lambda>c. c" i c] caps by auto
qed

lemma capability_break_Nil:
  assumes "ir_ok base" "capability_break (map_of (capabilities base) (ca_id c)) c = Inr rs"
  shows "rs = [] \<longleftrightarrow> \<not> newly_required base c"
proof (cases "map_of (capabilities base) (ca_id c)")
  case None
  then have "\<not> (Capability p \<in> set (be_entities base) \<and> ca_id p = ca_id c)" for p
    using capabilities_lookup [OF assms(1), of "ca_id c" p] by auto
  then show ?thesis using assms(2) None by (auto simp: capability_break_def newly_required_def Let_def split: if_splits)
next
  case (Some p)
  then have "Capability q \<in> set (be_entities base) \<and> ca_id q = ca_id c \<longleftrightarrow> q = p" for q
    using capabilities_lookup [OF assms(1), of "ca_id c" q] by auto
  then have "newly_required base c \<longleftrightarrow> ca_required c \<and> (ca_required p \<longrightarrow> version_of p < version_of c)"
    unfolding newly_required_def by (metis (no_types, lifting))
  then show ?thesis using assms(2) Some
    by (auto simp: capability_break_def Let_def res_bind_Inr version_of_def dest!: capability_version_Inr split: if_splits)
qed

lemma required_breaks_Nil:
  assumes docs: "ir_ok base" "ir_ok final" and rs: "required_capability_breaks base final = Inr rs"
  shows "rs = [] \<longleftrightarrow> (\<nexists>c. Capability c \<in> set (be_entities final) \<and> newly_required base c)"
proof -
  let ?break = "\<lambda>i. capability_break (map_of (capabilities base) i) (the (map_of (capabilities final) i))"
  let ?ids = "sorted_set (dict_keys (capabilities final))"
  obtain parts where parts: "list_all2 (\<lambda>i r. ?break i = Inr r) ?ids parts" "rs = concat parts"
    using rs by (auto simp: required_capability_breaks_def res_bind_Inr res_map_Inr)
  have each: "r = [] \<longleftrightarrow> \<not> newly_required base c" if "?break (ca_id c) = Inr r" "Capability c \<in> set (be_entities final)" for r c
    using that capability_break_Nil [OF docs(1), of c r] capabilities_lookup [OF docs(2), of "ca_id c" c] by simp
  have ids: "i \<in> set ?ids \<longleftrightarrow> (\<exists>c. Capability c \<in> set (be_entities final) \<and> ca_id c = i)" for i
    unfolding capabilities_lookup [OF docs(2), symmetric]
    using map_of_eq_None_iff [of "capabilities final" i] by (cases "map_of (capabilities final) i") auto
  have "rs = [] \<longleftrightarrow> (\<forall>n < length ?ids. parts ! n = [])"
    using parts list_all2_lengthD [OF parts(1)] by (simp add: all_set_conv_all_nth)
  also have "\<dots> \<longleftrightarrow> (\<forall>i \<in> set ?ids. \<forall>c. Capability c \<in> set (be_entities final) \<and> ca_id c = i \<longrightarrow> \<not> newly_required base c)"
    unfolding all_set_conv_all_nth
  proof (intro all_cong)
    fix n assume n: "n < length ?ids"
    then obtain c where c: "Capability c \<in> set (be_entities final)" "ca_id c = ?ids ! n" using ids nth_mem by metis
    then have "c' = c" if "Capability c' \<in> set (be_entities final)" "ca_id c' = ?ids ! n" for c'
      using that capabilities_lookup [OF docs(2)] by (metis option.inject)
    moreover have "parts ! n = [] \<longleftrightarrow> \<not> newly_required base c" using each [of c] c list_all2_nthD [OF parts(1) n] by simp
    ultimately show "parts ! n = [] \<longleftrightarrow> (\<forall>c. Capability c \<in> set (be_entities final) \<and> ca_id c = ?ids ! n \<longrightarrow> \<not> newly_required base c)"
      using c by (metis (no_types, lifting))
  qed
  finally show ?thesis using ids by blast
qed

lemma classify_compatibility_cases:
  assumes docs: "ir_ok base" "ir_ok final" and c: "classify_compatibility base final = Inr c"
  shows "(cm_outcome c = Breaking \<longleftrightarrow> \<not> set (canonical_roots base) \<subseteq> set (canonical_roots final) \<or>
      (\<exists>x. Capability x \<in> set (be_entities final) \<and> newly_required base x))"
    and "cm_outcome c = Compatible \<longleftrightarrow> cm_outcome c \<noteq> Breaking \<and>
      set (canonical_entities base) \<subseteq> set (canonical_entities final)"
proof -
  have lost: "lost_roots base final = [] \<longleftrightarrow> set (canonical_roots base) \<subseteq> set (canonical_roots final)"
    by (auto simp: lost_roots_def filter_empty_conv simp flip: set_empty)
  have lookup: "map_of (canonical_entities final) k = Some v \<longleftrightarrow> (k, v) \<in> set (canonical_entities final)" for k v
    by (simp add: wf_dict_lookup canonical_entities_eq)
  show "(cm_outcome c = Breaking \<longleftrightarrow> \<not> set (canonical_roots base) \<subseteq> set (canonical_roots final) \<or>
      (\<exists>x. Capability x \<in> set (be_entities final) \<and> newly_required base x))"
    using c required_breaks_Nil [OF docs] lost
    by (auto simp: classify_compatibility_def Let_def res_bind_Inr compatibility_of_Inr split: if_splits)
  show "cm_outcome c = Compatible \<longleftrightarrow> cm_outcome c \<noteq> Breaking \<and>
      set (canonical_entities base) \<subseteq> set (canonical_entities final)"
    using c by (auto simp: classify_compatibility_def Let_def res_bind_Inr compatibility_of_Inr lookup subset_iff split: if_splits)
qed

section \<open>Properties\<close>

text \<open>
  C20: A report can be derived from a delta exactly when the delta is valid for the proposal and the
  documents, the changed paths of every entity of both are in the order of texts (unless it became
  or ceased to be a root), and the reasons of a breaking change are in order without repetition.
\<close>

theorem impact_report_exact:
  assumes "validate_delta_shape delta = Inr ()" and "root_ids_ok base"
  shows "(\<exists>r. derive_impact_report D p delta base final = Inr r) \<longleftrightarrow>
    validate_behavior_delta D delta p base final = Inr () \<and>
    (\<forall>k \<in> entity_keys base \<inter> entity_keys final. paths_in_order base final k) \<and>
    reasons_in_order base final"
  using derive_impact_report_Inr [OF assms, of D p final] by (simp add: all_paths_in_order_def)

theorem impact_report_exact_witness:
  "\<exists>r. derive_impact_report ex_change_digests ex_proposal ex_delta (ex_behavior 1 []) (ex_behavior 2 []) = Inr r"
proof -
  have "root_ids_ok (ex_behavior 1 [])"
    "\<forall>k \<in> entity_keys (ex_behavior 1 []) \<inter> entity_keys (ex_behavior 2 []). paths_in_order (ex_behavior 1 []) (ex_behavior 2 []) k"
    "required_capability_breaks (ex_behavior 1 []) (ex_behavior 2 []) = Inr []"
    by code_simp+
  then show ?thesis
    using impact_report_exact [OF ex_delta_shape, of "ex_behavior 1 []" ex_change_digests ex_proposal "ex_behavior 2 []"]
      delta_validation_exact_witness
    by (simp add: reasons_in_order_def)
qed

text \<open>
  A classified change is breaking exactly when a root of the base document is no root of the final
  one or the final document requires a capability that the base does not require in that or a newer
  version; otherwise it is compatible exactly when every entity of the base document is in the final
  one with the same canonical JSON, and undecided in the remaining cases.
\<close>

theorem compatibility_exact:
  assumes "ir_ok base" and "ir_ok final" and "classify_compatibility base final = Inr c"
  shows "(cm_outcome c = Breaking \<longleftrightarrow> \<not> set (canonical_roots base) \<subseteq> set (canonical_roots final) \<or>
      (\<exists>x. Capability x \<in> set (be_entities final) \<and> newly_required base x)) \<and>
    (cm_outcome c = Compatible \<longleftrightarrow> cm_outcome c \<noteq> Breaking \<and>
      set (canonical_entities base) \<subseteq> set (canonical_entities final))"
  using classify_compatibility_cases [OF assms] by blast

definition ex_required :: "string \<Rightarrow> string \<Rightarrow> entity" where
  "ex_required i n = Capability \<lparr>ca_id = i, ca_name = n, ca_minimum_version = ''1.0.0'', ca_required = True, ca_provenance = ex_prov_ref\<rparr>"

theorem compatibility_exact_witness:
  "\<exists>x. Capability x \<in> set (be_entities (ex_behavior 1 [ex_required ''cap'' ''org.cap''])) \<and> newly_required (ex_behavior 1 []) x"
proof -
  have docs: "ir_ok (ex_behavior 1 [])" "ir_ok (ex_behavior 1 [ex_required ''cap'' ''org.cap''])"
    by (auto simp: ir_ok_def ex_behavior_def capability_names_def List.map_filter_simps refs_to_def refers_to_def ex_steps_def
        ex_action_def ex_step_def ex_use_case_def ex_provenance_entity_def ex_prov_ref_def ex_required_def)
  have c: "classify_compatibility (ex_behavior 1 []) (ex_behavior 1 [ex_required ''cap'' ''org.cap'']) =
      Inr \<lparr>cm_outcome = Breaking, cm_profile = BreakingRequiredCapability,
        cm_reasons = [''required capability org.cap was introduced'']\<rparr>"
    by code_simp
  have "canonical_roots (ex_behavior 1 []) = canonical_roots (ex_behavior 1 [ex_required ''cap'' ''org.cap''])" by code_simp
  then show ?thesis using compatibility_exact [OF docs c] by simp
qed

end
