(* ===== verification/Change_Gate.thy ===== *)
theory Change_Gate
  imports Impact_Exact
begin

text \<open>
  The gate of a change, \<^verbatim>\<open>src/ucf/change_governance/validation.py\<close> with the assessment, declaration and
  gate models of \<^verbatim>\<open>models.py\<close>: which decision classes a change needs, who decided them and how, and
  whether the change may go on. SHA-256 of the canonical JSON of a document is a field of the parameter
  \<open>G\<close>. Writing and reading back a document is the check of its models, since the JSON text of a value
  is read as that value; the texts that the pydantic library puts around a refusal are not modelled.
\<close>

section \<open>Models (models.py)\<close>

datatype decision_disposition = Applies | DoesNotApply | UnresolvedClass

datatype assessment_basis = Derived | Declared

record declared_basis =
  db_source_uri :: string
  db_source_digest :: string
  db_summary :: string

record class_assessment =
  dc_class :: decision_class
  dc_disposition :: decision_disposition
  dc_basis :: assessment_basis
  dc_declared_basis :: "declared_basis option"

record decision_assessment =
  da_change_id :: string
  da_proposal :: change_ref
  da_delta :: change_ref
  da_base_behavior :: behavior_ref
  da_final_behavior :: behavior_ref
  da_impact :: change_ref
  da_assessments :: "class_assessment list"

record decision_evidence =
  de_source_uri :: string
  de_source_digest :: string
  de_summary :: string

datatype decision_outcome = Approved | Rejected

record declared_decision =
  dd_class :: decision_class
  dd_outcome :: decision_outcome
  dd_evidence :: decision_evidence

record decision_declaration =
  dl_change_id :: string
  dl_proposal :: change_ref
  dl_delta :: change_ref
  dl_base_behavior :: behavior_ref
  dl_final_behavior :: behavior_ref
  dl_impact :: change_ref
  dl_assessment :: change_ref
  dl_decisions :: "declared_decision list"

datatype gate_status = PassNoDecision | PassApproved | BlockUnresolved | BlockDecisionRequired | BlockRejected

datatype blocker_reason = UnresolvedClassification | DecisionRequired | DecisionRejected

record gate_blocker =
  gb_class :: decision_class
  gb_reason :: blocker_reason

record gate_evaluation =
  ge_change_id :: string
  ge_proposal :: change_ref
  ge_delta :: change_ref
  ge_base_behavior :: behavior_ref
  ge_final_behavior :: behavior_ref
  ge_impact :: change_ref
  ge_assessment :: change_ref
  ge_declaration :: "change_ref option"
  ge_status :: gate_status
  ge_required_classes :: "decision_class list"
  ge_blockers :: "gate_blocker list"

record governance_digests =
  gd_impact :: "impact_report \<Rightarrow> string"
  gd_assessment :: "decision_assessment \<Rightarrow> string"
  gd_declaration :: "decision_declaration \<Rightarrow> string"

section \<open>References (codec.py)\<close>

definition impact_report_ref :: "governance_digests \<Rightarrow> impact_report \<Rightarrow> change_ref" where
  "impact_report_ref G r = \<lparr>cf_change_id = im_change_id r, cf_digest = gd_impact G r\<rparr>"

definition decision_assessment_ref :: "governance_digests \<Rightarrow> decision_assessment \<Rightarrow> change_ref" where
  "decision_assessment_ref G a = \<lparr>cf_change_id = da_change_id a, cf_digest = gd_assessment G a\<rparr>"

definition decision_declaration_ref :: "governance_digests \<Rightarrow> decision_declaration \<Rightarrow> change_ref" where
  "decision_declaration_ref G d = \<lparr>cf_change_id = dl_change_id d, cf_digest = gd_declaration G d\<rparr>"

section \<open>Checks of the models\<close>

definition behavior_context_ok :: "behavior_ref \<Rightarrow> behavior_ref \<Rightarrow> bool" where
  "behavior_context_ok base final \<longleftrightarrow> br_document_id base = br_document_id final \<and> br_digest base \<noteq> br_digest final"

definition decision_class_order :: "decision_class \<Rightarrow> nat" where
  "decision_class_order c = length (takeWhile (\<lambda>d. d \<noteq> c) decision_classes)"

definition class_sequence_checks :: "decision_class list \<Rightarrow> string \<Rightarrow> (bool \<times> string) list" where
  "class_sequence_checks classes label =
     [(distinct classes, label @ '' contain duplicate classes''),
      (classes = sort_key decision_class_order classes, label @ '' are not in taxonomy order'')]"

definition validate_basis :: "class_assessment \<Rightarrow> (string, unit) res" where
  "validate_basis a = (case dc_basis a of
     Derived \<Rightarrow> shape_checks
       [(dc_disposition a = Applies, ''derived decision class must apply''),
        (dc_declared_basis a = None, ''derived decision class cannot contain a declared basis'')]
   | Declared \<Rightarrow> require (dc_declared_basis a \<noteq> None) ''declared decision class requires an inspectable basis'')"

definition validate_assessment_shape :: "decision_assessment \<Rightarrow> (string, unit) res" where
  "validate_assessment_shape a =
     (let classes = map dc_class (da_assessments a) in
      shape_checks
       [(length (da_assessments a) = 6, ''length''),
        (\<forall>r \<in> {da_proposal a, da_delta a, da_impact a}. cf_change_id r = da_change_id a,
           ''decision assessment predecessor change IDs disagree''),
        (behavior_context_ok (da_base_behavior a) (da_final_behavior a), ''decision assessment behavior context is inconsistent''),
        (distinct classes, ''decision assessment contains duplicate classes''),
        (classes = decision_classes, ''decision assessment must cover the fixed taxonomy in canonical order'')])"

definition validate_declaration_shape :: "decision_declaration \<Rightarrow> (string, unit) res" where
  "validate_declaration_shape d =
     (let classes = map dd_class (dl_decisions d) in
      shape_checks
       [(dl_decisions d \<noteq> [] \<and> length (dl_decisions d) \<le> 6, ''length''),
        (\<forall>r \<in> {dl_proposal d, dl_delta d, dl_impact d, dl_assessment d}. cf_change_id r = dl_change_id d,
           ''decision declaration predecessor change IDs disagree''),
        (behavior_context_ok (dl_base_behavior d) (dl_final_behavior d), ''decision declaration behavior context is inconsistent''),
        (distinct classes, ''decision declaration contains duplicate classes''),
        (classes = sort_key decision_class_order classes, ''decision declaration classes are not in taxonomy order'')])"

definition blocked_for :: "blocker_reason \<Rightarrow> gate_evaluation \<Rightarrow> bool" where
  "blocked_for reason g \<longleftrightarrow> (\<forall>b \<in> set (ge_blockers g). gb_reason b = reason)"

definition validate_gate_status :: "gate_evaluation \<Rightarrow> (string, unit) res" where
  "validate_gate_status g =
     (let blocked = (\<lambda>c m. shape_checks [(ge_blockers g \<noteq> [], ''blocked gate requires at least one blocker''), (c, m)]) in
      case ge_status g of
        PassNoDecision \<Rightarrow> require (ge_declaration g = None \<and> ge_required_classes g = [] \<and> ge_blockers g = [])
          ''pass_no_decision gate cannot require or reference a decision''
      | PassApproved \<Rightarrow> require (ge_declaration g \<noteq> None \<and> ge_required_classes g \<noteq> [] \<and> ge_blockers g = [])
          ''pass_approved gate requires a declaration and no blockers''
      | BlockUnresolved \<Rightarrow> blocked (ge_declaration g = None \<and> blocked_for UnresolvedClassification g)
          ''block_unresolved gate has inconsistent blockers''
      | BlockDecisionRequired \<Rightarrow> blocked (ge_declaration g = None \<and> ge_required_classes g \<noteq> [] \<and> blocked_for DecisionRequired g)
          ''block_decision_required gate has inconsistent blockers''
      | BlockRejected \<Rightarrow> blocked (ge_declaration g \<noteq> None \<and> ge_required_classes g \<noteq> [] \<and> blocked_for DecisionRejected g)
          ''block_rejected gate has inconsistent blockers'')"

definition validate_gate_shape :: "gate_evaluation \<Rightarrow> (string, unit) res" where
  "validate_gate_shape g =
     res_bind (shape_checks
       ([(length (ge_required_classes g) \<le> 6, ''length''),
         (length (ge_blockers g) \<le> 6, ''length''),
         (\<forall>r \<in> {ge_proposal g, ge_delta g, ge_impact g, ge_assessment g} \<union> set_option (ge_declaration g).
            cf_change_id r = ge_change_id g, ''gate evaluation predecessor change IDs disagree''),
         (behavior_context_ok (ge_base_behavior g) (ge_final_behavior g), ''gate evaluation behavior context is inconsistent'')] @
        class_sequence_checks (ge_required_classes g) ''gate required classes'' @
        class_sequence_checks (map gb_class (ge_blockers g)) ''gate blockers'')) (\<lambda>_.
     validate_gate_status g)"

text \<open>The models of the edges of a report.\<close>

definition validate_coordinate :: "coordinate \<Rightarrow> (string, unit) res" where
  "validate_coordinate c = (case c of
     PortCoordinate k i d n a \<Rightarrow> shape_checks
       [(k \<in> {ActionKind, UseCaseKind, StepKind}, ''owner kind of a port coordinate''),
        (\<not> (k = StepKind \<and> a = None), ''step port coordinate requires its resolved action''),
        (\<not> (k \<noteq> StepKind \<and> a \<noteq> None), ''only a step port coordinate may name a resolved action'')]
   | _ \<Rightarrow> Inr ())"

definition validate_edge :: "impact_edge \<Rightarrow> (string, unit) res" where
  "validate_edge e = res_all id
     [validate_coordinate (ie_source e), validate_coordinate (ie_target e),
      require (prefix ''/'' (ie_field_path e)) ''impact edge field path must be a JSON pointer'']"

section \<open>Reading a document back (codec.py)\<close>

definition reparse_report :: "impact_report \<Rightarrow> (string, unit) res" where
  "reparse_report r = res_all id
     [require (im_findings r \<noteq> []) ''too_short'', res_all validate_finding (im_findings r), res_all validate_edge (im_edges r),
      res_all (\<lambda>w. res_all id [validate_coordinate (wi_affected w), require (wi_edges w \<noteq> []) ''too_short'']) (im_witnesses r),
      res_all validate_unresolved (im_unresolved r), validate_compatibility (im_compatibility r), validate_report_shape r]"

definition reparse_assessment :: "decision_assessment \<Rightarrow> (string, unit) res" where
  "reparse_assessment a = res_all id
     [require (length (da_assessments a) = 6) ''length'', res_all validate_basis (da_assessments a), validate_assessment_shape a]"

text \<open>A document that its own JSON text cannot be read back from is an invalid structure.\<close>

definition structural :: "(string, unit) res \<Rightarrow> (governance_error, unit) res" where
  "structural r = (case r of Inl m \<Rightarrow> Inl (GovernanceInvalid m) | Inr _ \<Rightarrow> Inr ())"

definition governance_check :: "bool \<Rightarrow> governance_code \<Rightarrow> string \<Rightarrow> string \<Rightarrow> (governance_error, unit) res" where
  "governance_check c code message location = require c (GovernanceError code message location)"

section \<open>The impact report (validation.py)\<close>

fun lifecycle_code_value :: "lifecycle_code \<Rightarrow> string" where
  "lifecycle_code_value LcBrokenReference = ''broken_reference''"
| "lifecycle_code_value LcContentIdentityMismatch = ''content_identity_mismatch''"
| "lifecycle_code_value LcCyclicDependency = ''cyclic_dependency''"
| "lifecycle_code_value LcDestinationConflict = ''destination_conflict''"
| "lifecycle_code_value LcDocumentIdentityMismatch = ''document_identity_mismatch''"
| "lifecycle_code_value LcDuplicateIdentity = ''duplicate_identity''"
| "lifecycle_code_value LcDuplicateJsonMember = ''duplicate_json_member''"
| "lifecycle_code_value LcEvidenceContextInvalid = ''evidence_context_invalid''"
| "lifecycle_code_value LcEvidenceNotPassed = ''evidence_not_passed''"
| "lifecycle_code_value LcIncompleteCoverage = ''incomplete_coverage''"
| "lifecycle_code_value LcIncompleteDelta = ''incomplete_delta''"
| "lifecycle_code_value LcIncompleteTasks = ''incomplete_tasks''"
| "lifecycle_code_value LcInvalidJson = ''invalid_json''"
| "lifecycle_code_value LcInvalidStructure = ''invalid_structure''"
| "lifecycle_code_value LcInvalidTransition = ''invalid_transition''"
| "lifecycle_code_value LcNonCanonicalOrder = ''non_canonical_order''"
| "lifecycle_code_value LcPublishFailed = ''publish_failed''"
| "lifecycle_code_value LcSourceChanged = ''source_changed''"
| "lifecycle_code_value LcUnsafeFilesystem = ''unsafe_filesystem''"
| "lifecycle_code_value LcUnsupportedEvidenceProfile = ''unsupported_evidence_profile''"
| "lifecycle_code_value LcUnsupportedOpenspecProfile = ''unsupported_openspec_profile''"
| "lifecycle_code_value LcWrongTargetKind = ''wrong_target_kind''"

text \<open>What \<^verbatim>\<open>except ChangeLifecycleValidationError\<close> does; other exceptions go through.\<close>

fun restate_lifecycle :: "governance_error \<Rightarrow> governance_error" where
  "restate_lifecycle (GovernanceLifecycle (LifecycleError code message location)) =
     GovernanceError GcContentIdentityMismatch (lifecycle_code_value code @ '' at '' @ location @ '': '' @ message) ''$''"
| "restate_lifecycle e = e"

text \<open>The proposal, the delta and the two documents that every call hands on.\<close>

record change =
  ch_proposal :: change_proposal
  ch_delta :: behavior_delta
  ch_base :: behavior_ir
  ch_final :: behavior_ir

definition derive_report :: "change_digests \<Rightarrow> change \<Rightarrow> (governance_error, impact_report) res" where
  "derive_report D x = derive_impact_report D (ch_proposal x) (ch_delta x) (ch_base x) (ch_final x)"

definition validate_impact_report :: "change_digests \<Rightarrow> impact_report \<Rightarrow> change \<Rightarrow> (governance_error, unit) res" where
  "validate_impact_report D r x =
     res_bind (structural (reparse_report r)) (\<lambda>_.
     case derive_report D x of
       Inl e \<Rightarrow> Inl (restate_lifecycle e)
     | Inr expected \<Rightarrow> governance_check (r = expected) GcSummaryMismatch
         ''impact report does not equal the report recomputed from its exact proposal, delta, base, and final behavior'' ''$'')"

section \<open>The assessment\<close>

definition other_classes :: "decision_class list \<Rightarrow> decision_class list" where
  "other_classes derived = filter (\<lambda>c. c \<notin> set derived) decision_classes"

definition derived_assessment :: "decision_class \<Rightarrow> class_assessment" where
  "derived_assessment c = \<lparr>dc_class = c, dc_disposition = Applies, dc_basis = Derived, dc_declared_basis = None\<rparr>"

definition position_text :: "string \<Rightarrow> nat \<Rightarrow> string \<Rightarrow> string" where
  "position_text field i rest = ''$.'' @ field @ ''['' @ show_nat i @ '']'' @ rest"

definition combined_assessments :: "decision_class list \<Rightarrow> class_assessment list \<Rightarrow> class_assessment list" where
  "combined_assessments derived declarations =
     (let declared = dict_of (map (\<lambda>a. (dc_class a, a)) declarations) in
      map (\<lambda>c. if c \<in> set derived then derived_assessment c else the (map_of declared c)) decision_classes)"

definition check_declarations :: "decision_class list \<Rightarrow> class_assessment list \<Rightarrow> (governance_error, unit) res" where
  "check_declarations derived declarations =
     (let classes = map dc_class declarations; expected = other_classes derived in
      res_bind (res_all (\<lambda>(i, a). governance_check (dc_basis a = Declared) GcDerivedClassMismatch
        ''caller classifications must use declared basis'' (position_text ''declarations'' i ''.basis''))
          (zip [0..<length declarations] declarations)) (\<lambda>_.
      res_all id
        [governance_check (distinct classes) GcDuplicateIdentity
           ''declared assessment contains duplicate decision classes'' ''$.declarations'',
         governance_check (set classes \<subseteq> set expected) GcDerivedClassMismatch
           ''caller cannot replace a structurally derived decision class'' ''$.declarations'',
         governance_check (set classes = set expected) GcIncompleteAssessment
           ''declared assessment must classify every non-derived decision class'' ''$.declarations'',
         governance_check (classes = expected) GcNonCanonicalOrder
           ''declared assessment classes are not in taxonomy order'' ''$.declarations'']))"

definition assessment_of :: "change_digests \<Rightarrow> governance_digests \<Rightarrow> impact_report \<Rightarrow> class_assessment list \<Rightarrow> change \<Rightarrow> decision_assessment" where
  "assessment_of D G impact assessments x =
     \<lparr>da_change_id = im_change_id impact, da_proposal = change_proposal_ref D (ch_proposal x),
      da_delta = behavior_delta_ref D (ch_delta x), da_base_behavior = im_base_behavior impact,
      da_final_behavior = im_final_behavior impact, da_impact = impact_report_ref G impact, da_assessments = assessments\<rparr>"

definition create_decision_assessment ::
  "change_digests \<Rightarrow> governance_digests \<Rightarrow> impact_report \<Rightarrow> class_assessment list \<Rightarrow> change \<Rightarrow>
     (governance_error, decision_assessment) res" where
  "create_decision_assessment D G impact declarations x =
     res_bind (validate_impact_report D impact x) (\<lambda>_.
     res_bind (check_declarations (im_required_classes impact) declarations) (\<lambda>_.
     let a = assessment_of D G impact (combined_assessments (im_required_classes impact) declarations) x in
     other_error (res_bind (validate_assessment_shape a) (\<lambda>_. Inr a))))"

definition declared_assessments :: "decision_assessment \<Rightarrow> class_assessment list" where
  "declared_assessments a = filter (\<lambda>c. dc_basis c = Declared) (da_assessments a)"

definition validate_decision_assessment ::
  "change_digests \<Rightarrow> governance_digests \<Rightarrow> decision_assessment \<Rightarrow> impact_report \<Rightarrow> change \<Rightarrow> (governance_error, unit) res" where
  "validate_decision_assessment D G a impact x =
     res_bind (structural (reparse_assessment a)) (\<lambda>_.
     res_bind (validate_impact_report D impact x) (\<lambda>_.
     res_bind (governance_check (da_impact a = impact_report_ref G impact) GcContentIdentityMismatch
       ''decision assessment impact reference does not match exact impact'' ''$.impact'') (\<lambda>_.
     res_bind (create_decision_assessment D G impact (declared_assessments a) x) (\<lambda>expected.
     governance_check (a = expected) GcSummaryMismatch
       ''decision assessment does not equal the assessment recomputed from its exact impact and declarations'' ''$''))))"

section \<open>The declaration\<close>

definition classes_with :: "decision_disposition \<Rightarrow> decision_assessment \<Rightarrow> decision_class list" where
  "classes_with disposition a = map dc_class (filter (\<lambda>c. dc_disposition c = disposition) (da_assessments a))"

definition declaration_of ::
  "change_digests \<Rightarrow> governance_digests \<Rightarrow> decision_assessment \<Rightarrow> impact_report \<Rightarrow> declared_decision list \<Rightarrow> change \<Rightarrow> decision_declaration" where
  "declaration_of D G a impact decisions x =
     \<lparr>dl_change_id = da_change_id a, dl_proposal = change_proposal_ref D (ch_proposal x),
      dl_delta = behavior_delta_ref D (ch_delta x), dl_base_behavior = da_base_behavior a,
      dl_final_behavior = da_final_behavior a, dl_impact = impact_report_ref G impact,
      dl_assessment = decision_assessment_ref G a, dl_decisions = decisions\<rparr>"

definition create_decision_declaration ::
  "change_digests \<Rightarrow> governance_digests \<Rightarrow> decision_assessment \<Rightarrow> impact_report \<Rightarrow> declared_decision list \<Rightarrow> change \<Rightarrow>
     (governance_error, decision_declaration) res" where
  "create_decision_declaration D G a impact decisions x =
     res_bind (validate_decision_assessment D G a impact x) (\<lambda>_.
     res_bind (governance_check (classes_with UnresolvedClass a = []) GcUnresolvedAssessment
       ''an unresolved assessment cannot be replaced by a decision'' ''$.assessment.assessments'') (\<lambda>_.
     let applicable = classes_with Applies a; classes = map dd_class decisions in
     res_bind (governance_check (applicable \<noteq> [] \<and> distinct classes \<and> classes = applicable) GcDecisionSetMismatch
       ''decision classes must equal the exact applicable class set in taxonomy order'' ''$.decisions'') (\<lambda>_.
     let d = declaration_of D G a impact decisions x in
     other_error (res_bind (validate_declaration_shape d) (\<lambda>_. Inr d)))))"

definition validate_decision_declaration ::
  "change_digests \<Rightarrow> governance_digests \<Rightarrow> decision_declaration \<Rightarrow> decision_assessment \<Rightarrow> impact_report \<Rightarrow> change \<Rightarrow>
     (governance_error, unit) res" where
  "validate_decision_declaration D G d a impact x =
     res_bind (structural (validate_declaration_shape d)) (\<lambda>_.
     res_bind (validate_decision_assessment D G a impact x) (\<lambda>_.
     res_bind (governance_check (dl_impact d = impact_report_ref G impact \<and> dl_assessment d = decision_assessment_ref G a)
       GcContentIdentityMismatch ''decision declaration predecessor references are stale'' ''$'') (\<lambda>_.
     res_bind (create_decision_declaration D G a impact (dl_decisions d) x) (\<lambda>expected.
     governance_check (d = expected) GcSummaryMismatch
       ''decision declaration does not equal the declaration recomputed from its exact predecessors'' ''$''))))"

section \<open>The gate\<close>

definition blockers_for :: "blocker_reason \<Rightarrow> decision_class list \<Rightarrow> gate_blocker list" where
  "blockers_for reason classes = map (\<lambda>c. \<lparr>gb_class = c, gb_reason = reason\<rparr>) classes"

definition rejected_classes :: "decision_declaration \<Rightarrow> decision_class list" where
  "rejected_classes d = map dd_class (filter (\<lambda>c. dd_outcome c = Rejected) (dl_decisions d))"

text \<open>The status, the blockers and the reference to the declaration.\<close>

definition gate_verdict ::
  "change_digests \<Rightarrow> governance_digests \<Rightarrow> decision_assessment \<Rightarrow> impact_report \<Rightarrow> decision_declaration option \<Rightarrow> change \<Rightarrow>
     (governance_error, gate_status \<times> gate_blocker list \<times> change_ref option) res" where
  "gate_verdict D G a impact declaration x =
     (let unresolved = classes_with UnresolvedClass a; required = classes_with Applies a in
      if unresolved \<noteq> [] then
        res_bind (governance_check (declaration = None) GcUnresolvedAssessment
          ''a declaration cannot bypass unresolved classification'' ''$.declaration'') (\<lambda>_.
        Inr (BlockUnresolved, blockers_for UnresolvedClassification unresolved, None))
      else if required = [] then
        res_bind (governance_check (declaration = None) GcDecisionSetMismatch
          ''a declaration is invalid when no decision class applies'' ''$.declaration'') (\<lambda>_.
        Inr (PassNoDecision, [], None))
      else
        (case declaration of
           None \<Rightarrow> Inr (BlockDecisionRequired, blockers_for DecisionRequired required, None)
         | Some d \<Rightarrow>
             res_bind (validate_decision_declaration D G d a impact x) (\<lambda>_.
             Inr (if rejected_classes d \<noteq> []
               then (BlockRejected, blockers_for DecisionRejected (rejected_classes d), Some (decision_declaration_ref G d))
               else (PassApproved, [], Some (decision_declaration_ref G d))))))"

definition gate_of ::
  "change_digests \<Rightarrow> governance_digests \<Rightarrow> decision_assessment \<Rightarrow> impact_report \<Rightarrow> change \<Rightarrow>
     gate_status \<times> gate_blocker list \<times> change_ref option \<Rightarrow> gate_evaluation" where
  "gate_of D G a impact x v = (case v of (status, blockers, reference) \<Rightarrow>
     \<lparr>ge_change_id = da_change_id a, ge_proposal = change_proposal_ref D (ch_proposal x),
      ge_delta = behavior_delta_ref D (ch_delta x), ge_base_behavior = da_base_behavior a,
      ge_final_behavior = da_final_behavior a, ge_impact = impact_report_ref G impact,
      ge_assessment = decision_assessment_ref G a, ge_declaration = reference, ge_status = status,
      ge_required_classes = classes_with Applies a, ge_blockers = blockers\<rparr>)"

definition evaluate_change_gate ::
  "change_digests \<Rightarrow> governance_digests \<Rightarrow> decision_assessment \<Rightarrow> impact_report \<Rightarrow> decision_declaration option \<Rightarrow> change \<Rightarrow>
     (governance_error, gate_evaluation) res" where
  "evaluate_change_gate D G a impact declaration x =
     res_bind (validate_decision_assessment D G a impact x) (\<lambda>_.
     res_bind (gate_verdict D G a impact declaration x) (\<lambda>v.
     let g = gate_of D G a impact x v in
     other_error (res_bind (validate_gate_shape g) (\<lambda>_. Inr g))))"

definition validate_gate_evaluation ::
  "change_digests \<Rightarrow> governance_digests \<Rightarrow> gate_evaluation \<Rightarrow> decision_assessment \<Rightarrow> impact_report \<Rightarrow>
     decision_declaration option \<Rightarrow> change \<Rightarrow> (governance_error, unit) res" where
  "validate_gate_evaluation D G g a impact declaration x =
     res_bind (structural (validate_gate_shape g)) (\<lambda>_.
     res_bind (evaluate_change_gate D G a impact declaration x) (\<lambda>expected.
     governance_check (g = expected) GcSummaryMismatch
       ''gate evaluation does not equal the result recomputed from its exact predecessors'' ''$''))"

section \<open>A derived report is read back\<close>

lemma structural_Inr [simp]: "structural r = Inr u \<longleftrightarrow> r = Inr ()"
  by (cases r) (simp_all add: structural_def)

lemma governance_check_Inr [simp]: "governance_check c code m l = Inr u \<longleftrightarrow> c"
  by (simp add: governance_check_def)

lemma validate_coordinate_Inr: "validate_coordinate c = Inr () \<longleftrightarrow> coordinate_ok c"
  by (cases c) (auto simp: validate_coordinate_def)

lemma validate_edge_Inr: "validate_edge e = Inr () \<longleftrightarrow> edge_ok (ie_side e) e"
  by (simp add: validate_edge_def res_all_Inr validate_coordinate_Inr edge_ok_def del: res_all.simps)

lemma follow_end: "follow c seen path = Inr z \<Longrightarrow> path \<noteq> [] \<Longrightarrow> z \<in> ie_source ` set path"
proof (induction path arbitrary: c seen)
  case (Cons e path)
  then show ?case by (cases path) (auto split: if_splits)
qed simp

lemma valid_witness_facts:
  assumes "validate_witness es w = Inr ()"
  shows "wi_edges w \<noteq> []" "wi_affected w \<in> ie_source ` set es"
proof -
  show edges: "wi_edges w \<noteq> []" using assms by (auto simp: validate_witness_def)
  let ?path = "map (\<lambda>i. es ! i) (wi_edges w)"
  have "follow (ie_target (hd ?path)) [coordinate_key (ie_target (hd ?path))] ?path = Inr (wi_affected w)"
    using assms by (auto simp: validate_witness_def Let_def split: if_splits sum.splits)
  then have "wi_affected w \<in> ie_source ` set ?path" using edges by (auto dest!: follow_end)
  moreover have "\<forall>i \<in> set (wi_edges w). i < length es"
    using assms by (auto simp: validate_witness_def Let_def not_le split: if_splits)
  ultimately show "wi_affected w \<in> ie_source ` set es" by auto
qed

lemma derived_report_reparsed:
  assumes "derive_report D x = Inr r"
  shows "reparse_report r = Inr ()"
proof -
  let ?base = "ch_base x" and ?final = "ch_final x"
  obtain fs c es ws us where delta: "validate_behavior_delta D (ch_delta x) (ch_proposal x) ?base ?final = Inr ()"
    and fs: "res_map (direct_finding (canonical_entities ?base) (canonical_entities ?final)) (de_entries (ch_delta x)) = Inr fs"
    and c: "classify_compatibility ?base ?final = Inr c"
    and graph: "derive_impact_graph (de_entries (ch_delta x)) fs ?base ?final = Inr (es, ws)"
    and us: "derive_unresolved fs = Inr us"
    and r: "r = report_of D (ch_proposal x) (ch_delta x) ?base ?final fs c es ws us" "validate_report_shape r = Inr ()"
    using assms
    by (auto simp: derive_report_def derive_impact_report_def other_error_Inr res_bind_Inr Let_def split: sum.splits)
  have docs: "ir_ok ?base" "ir_ok ?final" using valid_delta_facts [OF delta] by blast+
  have "impact_edges ?base ?final = Inr es" using graph by (auto simp: derive_impact_graph_def res_bind_Inr)
  then have edges: "\<forall>e \<in> set es. edge_ok (ie_side e) e" using impact_edges_Inr [OF docs] by auto
  have "\<forall>w \<in> set ws. validate_witness es w = Inr ()" using r by (simp add: validate_report_shape_Inr report_of_def)
  then have ws: "\<forall>w \<in> set ws. wi_edges w \<noteq> [] \<and> coordinate_ok (wi_affected w)"
    using valid_witness_facts [of es] edges by (fastforce simp: edge_ok_def)
  have finding: "impact_finding_of op k paths = Inr f \<Longrightarrow> validate_finding f = Inr ()" for op k paths f
    by (auto simp: impact_finding_of_def Let_def res_bind_Inr)
  have entry: "validate_finding f = Inr ()"
    if "direct_finding (canonical_entities ?base) (canonical_entities ?final) y = Inr f" for y f
    using that by (cases y) (auto simp only: direct_finding.simps Let_def split: option.splits dest!: finding)
  have "\<forall>f \<in> set fs. validate_finding f = Inr ()"
  proof
    fix f assume "f \<in> set fs"
    then obtain y where "direct_finding (canonical_entities ?base) (canonical_entities ?final) y = Inr f"
      using fs by (auto simp: res_map_Inr list_all2_conv_all_nth in_set_conv_nth)
    then show "validate_finding f = Inr ()" by (rule entry)
  qed
  moreover have "\<forall>u \<in> set us. validate_unresolved u = Inr ()"
    using us by (auto simp: derive_unresolved_def Let_def res_bind_Inr res_all_Inr)
  moreover have "validate_compatibility c = Inr ()"
    using c by (auto simp: classify_compatibility_def Let_def res_bind_Inr compatibility_of_Inr split: if_splits)
  moreover have "fs \<noteq> []" using r by (simp add: validate_report_shape_Inr report_of_def)
  ultimately show ?thesis
    using edges ws r by (simp add: reparse_report_def res_all_Inr report_of_def validate_coordinate_Inr validate_edge_Inr del: res_all.simps)
qed

lemma validate_impact_report_Inr: "validate_impact_report D r x = Inr () \<longleftrightarrow> derive_report D x = Inr r"
  using derived_report_reparsed [of D x r]
  by (auto simp: validate_impact_report_def res_bind_Inr split: sum.splits)

section \<open>Assessments\<close>

lemma classes_facts: "distinct decision_classes" "length decision_classes = 6" "set decision_classes = UNIV"
proof -
  show "set decision_classes = UNIV" using decision_class.exhaust by (auto simp: decision_classes_def)
qed (simp_all add: decision_classes_def)

lemma derived_classes: "derive_report D x = Inr r \<Longrightarrow> im_required_classes r = required_classes_of (im_compatibility r)"
  using derived_report_reparsed [of D x r]
  by (simp add: reparse_report_def res_all_Inr validate_report_shape_Inr del: res_all.simps)

lemma check_declarations_Inr:
  "check_declarations derived as = Inr () \<longleftrightarrow>
     (\<forall>a \<in> set as. dc_basis a = Declared) \<and> map dc_class as = other_classes derived"
proof -
  have "set as = snd ` set (zip [0..<length as] as)" by (simp flip: set_map)
  then have "(\<forall>p \<in> set (zip [0..<length as] as). dc_basis (snd p) = Declared) \<longleftrightarrow> (\<forall>a \<in> set as. dc_basis a = Declared)"
    by (metis (no_types, lifting) imageE image_eqI)
  moreover have "distinct (other_classes derived)" using classes_facts by (simp add: other_classes_def)
  ultimately show ?thesis
    by (auto simp: check_declarations_def Let_def res_bind_Inr res_all_Inr case_prod_beta simp del: res_all.simps set_map)
qed

definition assessments_ok :: "decision_class list \<Rightarrow> class_assessment list \<Rightarrow> bool" where
  "assessments_ok derived as \<longleftrightarrow> map dc_class as = decision_classes \<and>
     (\<forall>a \<in> set as. if dc_class a \<in> set derived then a = derived_assessment (dc_class a) else dc_basis a = Declared)"

lemma declared_lookup:
  assumes "distinct (map dc_class ds)" "a \<in> set ds"
  shows "map_of (dict_of (map (\<lambda>a. (dc_class a, a)) ds)) (dc_class a) = Some a"
  using assms by (simp add: dict_of_distinct comp_def inj_on_def distinct_map map_of_eq_Some_iff image_iff)

lemma derived_assessment_fields [simp]:
  "dc_class (derived_assessment c) = c" "dc_disposition (derived_assessment c) = Applies"
  "dc_basis (derived_assessment c) = Derived" "dc_declared_basis (derived_assessment c) = None"
  by (simp_all add: derived_assessment_def)

lemma combined_checked:
  assumes "check_declarations derived ds = Inr ()"
  shows "assessments_ok derived (combined_assessments derived ds)"
    and "filter (\<lambda>a. dc_basis a = Declared) (combined_assessments derived ds) = ds"
proof -
  define g where g: "g = (\<lambda>c. the (map_of (dict_of (map (\<lambda>a. (dc_class a, a)) ds)) c))"
  let ?f = "\<lambda>c. if c \<in> set derived then derived_assessment c else g c"
  have ds: "\<forall>a \<in> set ds. dc_basis a = Declared" "map dc_class ds = other_classes derived"
    using assms by (simp_all add: check_declarations_Inr)
  have "distinct (map dc_class ds)" unfolding ds(2) using classes_facts by (simp add: other_classes_def)
  then have found: "g (dc_class a) = a" if "a \<in> set ds" for a by (simp only: g declared_lookup [OF _ that] option.sel)
  have "set (map dc_class ds) = {c. c \<notin> set derived}"
    unfolding ds(2) using classes_facts by (simp add: other_classes_def)
  then have set_ds: "dc_class ` set ds = {c. c \<notin> set derived}" by simp
  have f: "dc_class (g c) = c \<and> dc_basis (g c) = Declared" if c: "c \<notin> set derived" for c
  proof -
    obtain a where "a \<in> set ds" "c = dc_class a" using set_ds c by (auto simp: set_eq_iff)
    then show ?thesis using found [of a] ds(1) by simp
  qed
  have combined: "combined_assessments derived ds = map ?f decision_classes"
    by (simp add: combined_assessments_def Let_def g)
  have "map dc_class (map ?f cs) = cs" for cs using f by (induction cs) auto
  moreover have "if dc_class (?f c) \<in> set derived then ?f c = derived_assessment (dc_class (?f c)) else dc_basis (?f c) = Declared" for c
    using f by simp
  ultimately show "assessments_ok derived (combined_assessments derived ds)"
    unfolding assessments_ok_def combined set_map ball_simps by blast
  have "filter (\<lambda>a. dc_basis a = Declared) (map ?f decision_classes) = map ?f (other_classes derived)"
    unfolding filter_map other_classes_def using f by (intro arg_cong [where f = "map ?f"] filter_cong) auto
  also have "\<dots> = map g (other_classes derived)" by (simp add: other_classes_def)
  also have "\<dots> = ds" unfolding ds(2) [symmetric] map_map using found by (simp add: map_idI)
  finally show "filter (\<lambda>a. dc_basis a = Declared) (combined_assessments derived ds) = ds" unfolding combined .
qed

lemma declared_part:
  assumes "assessments_ok derived as"
  shows "check_declarations derived (filter (\<lambda>a. dc_basis a = Declared) as) = Inr ()"
    and "combined_assessments derived (filter (\<lambda>a. dc_basis a = Declared) as) = as"
proof -
  let ?ds = "filter (\<lambda>a. dc_basis a = Declared) as"
  have classes: "map dc_class as = decision_classes" and cases: "\<And>a. a \<in> set as \<Longrightarrow>
      if dc_class a \<in> set derived then a = derived_assessment (dc_class a) else dc_basis a = Declared"
    using assms by (simp_all add: assessments_ok_def)
  have basis: "dc_basis a = Declared \<longleftrightarrow> dc_class a \<notin> set derived" if "a \<in> set as" for a
    using cases [OF that] by (auto split: if_splits) (metis assessment_basis.distinct(1) derived_assessment_fields(3))
  have "map dc_class ?ds = filter (\<lambda>c. c \<notin> set derived) (map dc_class as)"
    unfolding filter_map using basis by (intro arg_cong [where f = "map dc_class"] filter_cong) auto
  then have other: "map dc_class ?ds = other_classes derived" by (simp add: classes other_classes_def)
  then show "check_declarations derived ?ds = Inr ()" by (simp add: check_declarations_Inr)
  have "distinct (map dc_class ?ds)" unfolding other using classes_facts by (simp add: other_classes_def)
  note lookup = declared_lookup [OF this]
  have "(if dc_class a \<in> set derived then derived_assessment (dc_class a)
      else the (map_of (dict_of (map (\<lambda>a. (dc_class a, a)) ?ds)) (dc_class a))) = a" if "a \<in> set as" for a
    using cases [OF that] lookup [of a] basis [OF that] that by (auto split: if_splits)
  then show "combined_assessments derived ?ds = as"
    by (simp add: combined_assessments_def Let_def classes [symmetric] comp_def map_idI del: if_split)
qed

lemma assessments_length: "assessments_ok derived as \<Longrightarrow> length as = 6"
  using classes_facts(2) by (metis assessments_ok_def length_map)

lemma report_facts:
  assumes "derive_report D x = Inr r"
  shows "cp_change_id (ch_proposal x) = im_change_id r" "de_change_id (ch_delta x) = im_change_id r"
    "behavior_context_ok (im_base_behavior r) (im_final_behavior r)" "validate_report_shape r = Inr ()"
    "im_compatibility r \<in> {c. classify_compatibility (ch_base x) (ch_final x) = Inr c}"
proof -
  obtain fs c es ws us where r: "r = report_of D (ch_proposal x) (ch_delta x) (ch_base x) (ch_final x) fs c es ws us"
      "validate_report_shape r = Inr ()"
    and delta: "validate_behavior_delta D (ch_delta x) (ch_proposal x) (ch_base x) (ch_final x) = Inr ()"
    and c: "classify_compatibility (ch_base x) (ch_final x) = Inr c"
    using assms
    by (auto simp: derive_report_def derive_impact_report_def other_error_Inr res_bind_Inr Let_def split: sum.splits)
  show "validate_report_shape r = Inr ()" by (rule r(2))
  show "cp_change_id (ch_proposal x) = im_change_id r" "de_change_id (ch_delta x) = im_change_id r"
    "im_compatibility r \<in> {c. classify_compatibility (ch_base x) (ch_final x) = Inr c}"
    using valid_delta_facts(3) [OF delta] c by (simp_all add: r(1) report_of_def)
  show "behavior_context_ok (im_base_behavior r) (im_final_behavior r)"
    using r(2) by (simp add: validate_report_shape_Inr behavior_context_ok_def)
qed

lemma assessment_shape:
  assumes "derive_report D x = Inr impact" "assessments_ok derived as"
  shows "validate_assessment_shape (assessment_of D G impact as x) = Inr ()"
  using report_facts(1-3) [OF assms(1)] assms(2) assessments_length [OF assms(2)] classes_facts(1)
  by (auto simp: validate_assessment_shape_def Let_def assessment_of_def change_proposal_ref_def behavior_delta_ref_def
      impact_report_ref_def assessments_ok_def)

lemma create_decision_assessment_Inr:
  "create_decision_assessment D G impact ds x = Inr a \<longleftrightarrow>
     derive_report D x = Inr impact \<and> check_declarations (im_required_classes impact) ds = Inr () \<and>
     a = assessment_of D G impact (combined_assessments (im_required_classes impact) ds) x"
  using assessment_shape [OF _ combined_checked(1), of D x impact "im_required_classes impact" ds G]
  by (auto simp: create_decision_assessment_def res_bind_Inr Let_def other_error_Inr validate_impact_report_Inr)

lemma created_assessments:
  "create_decision_assessment D G impact ds x = Inr a \<Longrightarrow>
     da_assessments a = combined_assessments (im_required_classes impact) ds"
  by (simp add: create_decision_assessment_Inr assessment_of_def)

lemma validate_decision_assessment_Inr:
  "validate_decision_assessment D G a impact x = Inr () \<longleftrightarrow>
     derive_report D x = Inr impact \<and> assessments_ok (im_required_classes impact) (da_assessments a) \<and>
     (\<forall>c \<in> set (declared_assessments a). dc_declared_basis c \<noteq> None) \<and>
     a = assessment_of D G impact (da_assessments a) x" (is "_ \<longleftrightarrow> ?rhs")
proof
  assume v: "validate_decision_assessment D G a impact x = Inr ()"
  then have report: "derive_report D x = Inr impact" and a: "a = assessment_of D G impact
      (combined_assessments (im_required_classes impact) (declared_assessments a)) x"
    and ds: "check_declarations (im_required_classes impact) (declared_assessments a) = Inr ()"
    and basis: "\<forall>c \<in> set (da_assessments a). validate_basis c = Inr ()"
    by (auto simp: validate_decision_assessment_def res_bind_Inr validate_impact_report_Inr create_decision_assessment_Inr
        reparse_assessment_def res_all_Inr simp del: res_all.simps)
  have as: "da_assessments a = combined_assessments (im_required_classes impact) (declared_assessments a)"
    by (subst a) (simp add: assessment_of_def)
  have "dc_declared_basis c \<noteq> None" if "c \<in> set (declared_assessments a)" for c
    using that basis by (auto simp: validate_basis_def declared_assessments_def)
  then show ?rhs using report a combined_checked(1) [OF ds] unfolding as [symmetric] by blast
next
  assume r: ?rhs
  have "validate_basis c = Inr ()" if c: "c \<in> set (da_assessments a)" for c
  proof (cases "dc_class c \<in> set (im_required_classes impact)")
    case True
    then have "c = derived_assessment (dc_class c)" using r c by (auto simp: assessments_ok_def)
    then have "dc_basis c = Derived" "dc_disposition c = Applies" "dc_declared_basis c = None"
      using derived_assessment_fields by metis+
    then show ?thesis by (simp add: validate_basis_def)
  next
    case False
    then show ?thesis using r c by (auto simp: assessments_ok_def validate_basis_def declared_assessments_def)
  qed
  moreover have "length (da_assessments a) = 6" "validate_assessment_shape a = Inr ()"
    using r assessments_length assessment_shape by metis+
  moreover have "da_impact a = impact_report_ref G impact" using r by (metis assessment_of_def decision_assessment.select_convs(6))
  ultimately show "validate_decision_assessment D G a impact x = Inr ()"
    using r declared_part [of "im_required_classes impact" "da_assessments a"]
    by (simp add: validate_decision_assessment_def res_bind_Inr validate_impact_report_Inr create_decision_assessment_Inr
        reparse_assessment_def res_all_Inr declared_assessments_def del: res_all.simps)
qed

section \<open>Declarations\<close>

text \<open>Classes in the order of the taxonomy, without repetition.\<close>

definition taxonomic :: "decision_class list \<Rightarrow> bool" where
  "taxonomic cs \<longleftrightarrow> (\<exists>P. cs = filter P decision_classes)"

lemma taxonomic_facts:
  assumes "taxonomic cs"
  shows "distinct cs" "length cs \<le> 6" "sort_key decision_class_order cs = cs"
proof -
  obtain P where P: "cs = filter P decision_classes" using assms by (auto simp: taxonomic_def)
  show "distinct cs" "length cs \<le> 6" using classes_facts(1,2) length_filter_le [of P decision_classes] by (auto simp: P)
  have "sort_key decision_class_order decision_classes = decision_classes" by code_simp
  then show "sort_key decision_class_order cs = cs" by (simp add: P flip: filter_sort)
qed

lemma taxonomic_part:
  assumes "taxonomic (map f xs)"
  shows "taxonomic (map f (filter q xs))"
proof -
  obtain P where P: "map f xs = filter P decision_classes" using assms by (auto simp: taxonomic_def)
  have "distinct (map f xs)" using taxonomic_facts(1) [OF assms] .
  then have "q x \<longleftrightarrow> f x \<in> f ` {y \<in> set xs. q y}" if "x \<in> set xs" for x
    using that by (auto simp: distinct_map inj_on_def)
  then have "map f (filter q xs) = filter (\<lambda>c. c \<in> f ` {y \<in> set xs. q y}) (map f xs)"
    unfolding filter_map by (intro arg_cong [where f = "map f"] filter_cong) auto
  then show ?thesis unfolding taxonomic_def P filter_filter by blast
qed

lemma classes_with_taxonomic: "assessments_ok derived (da_assessments a) \<Longrightarrow> taxonomic (classes_with disposition a)"
  unfolding classes_with_def
  by (intro taxonomic_part) (auto simp: assessments_ok_def taxonomic_def intro: exI [of _ "\<lambda>c. True"])

lemma assessment_fields:
  assumes "derive_report D x = Inr impact" "a = assessment_of D G impact as x"
  shows "cp_change_id (ch_proposal x) = da_change_id a" "de_change_id (ch_delta x) = da_change_id a"
    "im_change_id impact = da_change_id a" "behavior_context_ok (da_base_behavior a) (da_final_behavior a)"
  using report_facts(1-3) [OF assms(1)] by (simp_all add: assms(2) assessment_of_def)

definition decides :: "declared_decision list \<Rightarrow> decision_assessment \<Rightarrow> bool" where
  "decides decisions a \<longleftrightarrow> classes_with UnresolvedClass a = [] \<and> decisions \<noteq> [] \<and> map dd_class decisions = classes_with Applies a"

lemma create_decision_declaration_Inr:
  "create_decision_declaration D G a impact decisions x = Inr d \<longleftrightarrow>
     validate_decision_assessment D G a impact x = Inr () \<and> decides decisions a \<and> d = declaration_of D G a impact decisions x"
proof -
  have shape: "validate_declaration_shape (declaration_of D G a impact decisions x) = Inr ()"
    if "validate_decision_assessment D G a impact x = Inr ()" "decides decisions a"
  proof -
    have valid: "derive_report D x = Inr impact" "a = assessment_of D G impact (da_assessments a) x"
      "taxonomic (map dd_class decisions)"
      using that classes_with_taxonomic by (auto simp: validate_decision_assessment_Inr decides_def)
    show ?thesis
      using assessment_fields [OF valid(1,2)] taxonomic_facts [OF valid(3)] that(2)
      by (auto simp: validate_declaration_shape_def Let_def declaration_of_def decides_def change_proposal_ref_def
          behavior_delta_ref_def impact_report_ref_def decision_assessment_ref_def)
  qed
  moreover have "distinct (classes_with Applies a)" if "validate_decision_assessment D G a impact x = Inr ()"
    using that taxonomic_facts(1) [OF classes_with_taxonomic] by (auto simp: validate_decision_assessment_Inr)
  ultimately show ?thesis
    by (auto simp: create_decision_declaration_def res_bind_Inr Let_def other_error_Inr decides_def)
qed

lemma declaration_fields:
  assumes "create_decision_declaration D G a impact decisions x = Inr d"
  shows "dl_impact d = impact_report_ref G impact" "dl_assessment d = decision_assessment_ref G a"
    "dl_change_id d = da_change_id a" "dl_decisions d = decisions" "decides decisions a" "validate_declaration_shape d = Inr ()"
proof -
  show "validate_declaration_shape d = Inr ()"
    using assms by (auto simp: create_decision_declaration_def res_bind_Inr Let_def other_error_Inr)
qed (use assms in \<open>simp_all add: create_decision_declaration_Inr declaration_of_def\<close>)

lemma validate_decision_declaration_Inr:
  "validate_decision_declaration D G d a impact x = Inr () \<longleftrightarrow>
     create_decision_declaration D G a impact (dl_decisions d) x = Inr d"
proof
  assume d: "create_decision_declaration D G a impact (dl_decisions d) x = Inr d"
  then have "validate_decision_assessment D G a impact x = Inr ()" by (simp only: create_decision_declaration_Inr)
  then show "validate_decision_declaration D G d a impact x = Inr ()"
    using d declaration_fields [OF d] by (simp add: validate_decision_declaration_def res_bind_Inr)
qed (auto simp: validate_decision_declaration_def res_bind_Inr)

section \<open>The gate\<close>

definition gate_passes :: "gate_evaluation \<Rightarrow> bool" where
  "gate_passes g \<longleftrightarrow> ge_status g \<in> {PassNoDecision, PassApproved}"

lemma rejected_classes_taxonomic:
  assumes "validate_decision_assessment D G a impact x = Inr ()" "decides (dl_decisions d) a"
  shows "taxonomic (rejected_classes d)"
  using assms classes_with_taxonomic unfolding rejected_classes_def
  by (intro taxonomic_part) (auto simp: decides_def validate_decision_assessment_Inr)

lemma blockers_for_classes [simp]:
  "map gb_class (blockers_for reason cs) = cs" "blockers_for reason cs = [] \<longleftrightarrow> cs = []"
  "\<forall>b \<in> set (blockers_for reason cs). gb_reason b = reason" "length (blockers_for reason cs) = length cs"
  by (auto simp: blockers_for_def comp_def)

lemma gate_shape:
  assumes a: "validate_decision_assessment D G a impact x = Inr ()" and v: "gate_verdict D G a impact declaration x = Inr v"
  shows "validate_gate_shape (gate_of D G a impact x v) = Inr ()"
proof -
  have valid: "derive_report D x = Inr impact" "a = assessment_of D G impact (da_assessments a) x"
    "\<And>p. taxonomic (classes_with p a)"
    using a classes_with_taxonomic by (auto simp: validate_decision_assessment_Inr)
  note refs = assessment_fields [OF valid(1,2)] change_proposal_ref_def behavior_delta_ref_def impact_report_ref_def
    decision_assessment_ref_def
  obtain status blockers reference where v3: "v = (status, blockers, reference)" by (cases v)
  have reference: "\<forall>r \<in> set_option reference. cf_change_id r = da_change_id a"
    using v by (auto simp: v3 gate_verdict_def Let_def res_bind_Inr validate_decision_declaration_Inr
        decision_declaration_ref_def split: if_splits option.splits dest!: declaration_fields(3))
  have "taxonomic (map gb_class blockers)"
    using v valid(3) rejected_classes_taxonomic [OF a]
    by (auto simp: v3 gate_verdict_def Let_def res_bind_Inr validate_decision_declaration_Inr taxonomic_def [of "[]"]
        intro: exI [of _ "\<lambda>c. False"] split: if_splits option.splits dest!: declaration_fields(5))
  note sequences = taxonomic_facts [OF this] taxonomic_facts [OF valid(3) [of Applies]]
  have "validate_gate_status (gate_of D G a impact x v) = Inr ()"
    using v by (auto simp: v3 gate_verdict_def Let_def res_bind_Inr validate_gate_status_def gate_of_def blocked_for_def
        split: if_splits option.splits)
  then show ?thesis
    using sequences refs reference
    by (auto simp: validate_gate_shape_def res_bind_Inr class_sequence_checks_def gate_of_def v3)
qed

lemma evaluate_change_gate_Inr:
  "evaluate_change_gate D G a impact declaration x = Inr g \<longleftrightarrow>
     validate_decision_assessment D G a impact x = Inr () \<and>
     (\<exists>v. gate_verdict D G a impact declaration x = Inr v \<and> g = gate_of D G a impact x v)"
  using gate_shape by (auto simp: evaluate_change_gate_def res_bind_Inr Let_def other_error_Inr)

lemma map_filter_set: "c \<in> set (map f (filter q xs)) \<longleftrightarrow> (\<exists>x \<in> set xs. q x \<and> f x = c)"
  by auto

definition approves :: "decision_declaration option \<Rightarrow> decision_class \<Rightarrow> bool" where
  "approves declaration c \<longleftrightarrow> (\<exists>d. declaration = Some d \<and> (\<exists>q \<in> set (dl_decisions d). dd_class q = c \<and> dd_outcome q = Approved))"

lemma verdict_cases:
  assumes a: "validate_decision_assessment D G a impact x = Inr ()"
    and v: "gate_verdict D G a impact declaration x = Inr (status, blockers, reference)"
  shows "c \<in> set (map gb_class blockers) \<longleftrightarrow>
      (if classes_with UnresolvedClass a \<noteq> [] then c \<in> set (classes_with UnresolvedClass a)
       else c \<in> set (classes_with Applies a) \<and> \<not> approves declaration c)"
    and "status \<in> {PassNoDecision, PassApproved} \<longleftrightarrow> blockers = []"
proof -
  have decided: "c \<in> set (rejected_classes d) \<longleftrightarrow> c \<in> set (classes_with Applies a) \<and> \<not> approves (Some d) c"
    if d: "validate_decision_declaration D G d a impact x = Inr ()" for d
  proof -
    have "decides (dl_decisions d) a" using d declaration_fields(5) by (auto simp: validate_decision_declaration_Inr)
    then have classes: "map dd_class (dl_decisions d) = classes_with Applies a" by (simp add: decides_def)
    have "taxonomic (classes_with Applies a)" using a classes_with_taxonomic by (auto simp: validate_decision_assessment_Inr)
    then have "distinct (map dd_class (dl_decisions d))" unfolding classes by (rule taxonomic_facts(1))
    then have "inj_on dd_class (set (dl_decisions d))" by (simp add: distinct_map)
    moreover have "q' = Rejected \<longleftrightarrow> q' \<noteq> Approved" for q' by (cases q') simp_all
    ultimately show ?thesis
      unfolding classes [symmetric] rejected_classes_def approves_def by (auto dest: inj_onD)
  qed
  show "status \<in> {PassNoDecision, PassApproved} \<longleftrightarrow> blockers = []"
    using v by (auto simp: gate_verdict_def Let_def res_bind_Inr split: if_splits option.splits)
  show "c \<in> set (map gb_class blockers) \<longleftrightarrow>
      (if classes_with UnresolvedClass a \<noteq> [] then c \<in> set (classes_with UnresolvedClass a)
       else c \<in> set (classes_with Applies a) \<and> \<not> approves declaration c)"
  proof (cases "classes_with UnresolvedClass a = [] \<and> classes_with Applies a \<noteq> []")
    case True
    show ?thesis
    proof (cases "declaration")
      case None
      then show ?thesis using v True by (auto simp: gate_verdict_def approves_def simp del: set_map)
    next
      case (Some d)
      then have "validate_decision_declaration D G d a impact x = Inr ()" "map gb_class blockers = rejected_classes d"
        using v True by (auto simp: gate_verdict_def res_bind_Inr split: if_splits)
      then show ?thesis using decided [of d] True Some by simp
    qed
  next
    case False
    then show ?thesis using v by (auto simp: gate_verdict_def Let_def res_bind_Inr simp del: set_map split: if_splits)
  qed
qed

lemma required_apply:
  assumes "validate_decision_assessment D G a impact x = Inr ()" "c \<in> set (im_required_classes impact)"
  shows "c \<in> set (classes_with Applies a)"
proof -
  have a: "assessments_ok (im_required_classes impact) (da_assessments a)"
    using assms(1) by (simp add: validate_decision_assessment_Inr)
  then have "c \<in> dc_class ` set (da_assessments a)"
    using classes_facts(3) unfolding assessments_ok_def set_map [symmetric] by simp
  then obtain y where y: "y \<in> set (da_assessments a)" "dc_class y = c" by auto
  then have "y = derived_assessment c" using a assms(2) by (auto simp: assessments_ok_def)
  then show ?thesis using y unfolding classes_with_def map_filter_set by (metis derived_assessment_fields(2))
qed

section \<open>An approved breaking change\<close>

definition ex_proposal_of :: "behavior_ir \<Rightarrow> change_proposal" where
  "ex_proposal_of base = \<lparr>cp_change_id = ''chg'', cp_base_behavior = behavior_document_ref ex_change_digests base,
     cp_openspec = []\<rparr>"

definition ex_delta_of :: "behavior_ir \<Rightarrow> behavior_ir \<Rightarrow> behavior_delta" where
  "ex_delta_of base final = \<lparr>de_change_id = ''chg'', de_proposal = change_proposal_ref ex_change_digests (ex_proposal_of base),
     de_base_behavior = behavior_document_ref ex_change_digests base,
     de_final_behavior = behavior_document_ref ex_change_digests final,
     de_entries = derive_entries ex_change_digests base final\<rparr>"

definition ex_change :: change where
  "ex_change = \<lparr>ch_proposal = ex_proposal_of (ex_behavior 1 []),
     ch_delta = ex_delta_of (ex_behavior 1 []) (ex_behavior 1 [ex_required ''cap'' ''org.cap'']),
     ch_base = ex_behavior 1 [], ch_final = ex_behavior 1 [ex_required ''cap'' ''org.cap'']\<rparr>"

definition ex_governance_digests :: governance_digests where
  "ex_governance_digests = \<lparr>gd_impact = im_change_id, gd_assessment = da_change_id, gd_declaration = dl_change_id\<rparr>"

definition ex_declared :: "class_assessment list" where
  "ex_declared = map (\<lambda>c. \<lparr>dc_class = c, dc_disposition = DoesNotApply, dc_basis = Declared,
     dc_declared_basis = Some \<lparr>db_source_uri = ''urn:review'', db_source_digest = ''0'', db_summary = ''none''\<rparr>\<rparr>)
     (other_classes [PublicContract])"

definition ex_assessments :: "class_assessment list" where
  "ex_assessments = combined_assessments [PublicContract] ex_declared"

definition ex_decisions :: "declared_decision list" where
  "ex_decisions = [\<lparr>dd_class = PublicContract, dd_outcome = Approved,
     dd_evidence = \<lparr>de_source_uri = ''urn:minutes'', de_source_digest = ''0'', de_summary = ''agreed''\<rparr>\<rparr>]"

definition ex_final :: behavior_ir where
  "ex_final = ex_behavior 1 [ex_required ''cap'' ''org.cap'']"

lemma ex_change_fields:
  "ch_proposal ex_change = ex_proposal_of (ex_behavior 1 [])" "ch_delta ex_change = ex_delta_of (ex_behavior 1 []) ex_final"
  "ch_base ex_change = ex_behavior 1 []" "ch_final ex_change = ex_final"
  by (simp_all add: ex_change_def ex_final_def)

lemma ex_change_valid:
  "validate_behavior_delta ex_change_digests (ex_delta_of (ex_behavior 1 []) ex_final) (ex_proposal_of (ex_behavior 1 []))
     (ex_behavior 1 []) ex_final = Inr ()"
  by code_simp

lemma ex_change_shape: "validate_delta_shape (ex_delta_of (ex_behavior 1 []) ex_final) = Inr ()" "root_ids_ok (ex_behavior 1 [])"
  by code_simp+

lemma ex_change_paths: "all_paths_in_order (ex_behavior 1 []) ex_final"
  by code_simp

lemma ex_change_breaks:
  "required_capability_breaks (ex_behavior 1 []) ex_final = Inr [''required capability org.cap was introduced'']"
  "classify_compatibility (ex_behavior 1 []) ex_final = Inr \<lparr>cm_outcome = Breaking,
      cm_profile = BreakingRequiredCapability, cm_reasons = [''required capability org.cap was introduced'']\<rparr>"
  by code_simp+

lemma ex_change_report:
  obtains r where "derive_report ex_change_digests ex_change = Inr r" "im_required_classes r = [PublicContract]"
proof -
  have "\<exists>r. derive_report ex_change_digests ex_change = Inr r"
    unfolding derive_report_def ex_change_fields derive_impact_report_Inr [OF ex_change_shape]
    using ex_change_valid ex_change_paths ex_change_breaks(1) by (simp add: reasons_in_order_def)
  then obtain r where r: "derive_report ex_change_digests ex_change = Inr r" by blast
  then have "im_required_classes r = [PublicContract]"
    using report_facts(5) [OF r] derived_classes [OF r] ex_change_breaks(2)
    by (simp add: required_classes_of_def ex_change_fields)
  with r that show ?thesis by blast
qed

lemma ex_gate:
  obtains a r d g where "evaluate_change_gate ex_change_digests ex_governance_digests a r (Some d) ex_change = Inr g"
    "gate_passes g" "dl_decisions d = ex_decisions"
proof -
  obtain r where r: "derive_report ex_change_digests ex_change = Inr r" "im_required_classes r = [PublicContract]"
    by (rule ex_change_report)
  define a where "a = assessment_of ex_change_digests ex_governance_digests r ex_assessments ex_change"
  then have as: "da_assessments a = ex_assessments" by (simp add: assessment_of_def)
  define d where "d = declaration_of ex_change_digests ex_governance_digests a r ex_decisions ex_change"
  have ex: "\<forall>c \<in> set (filter (\<lambda>c. dc_basis c = Declared) ex_assessments). dc_declared_basis c \<noteq> None"
    "map dc_class (filter (\<lambda>c. dc_disposition c = UnresolvedClass) ex_assessments) = []"
    "map dc_class (filter (\<lambda>c. dc_disposition c = Applies) ex_assessments) = [PublicContract]"
    by code_simp+
  have checked: "check_declarations [PublicContract] ex_declared = Inr ()" by code_simp
  have "assessments_ok [PublicContract] ex_assessments" unfolding ex_assessments_def by (rule combined_checked(1) [OF checked])
  then have valid: "validate_decision_assessment ex_change_digests ex_governance_digests a r ex_change = Inr ()"
    unfolding validate_decision_assessment_Inr declared_assessments_def as using r ex(1) a_def by simp
  have decides: "decides ex_decisions a" using ex(2,3) by (simp add: decides_def classes_with_def as ex_decisions_def)
  have decisions: "dl_decisions d = ex_decisions" by (simp add: d_def declaration_of_def)
  have declared: "validate_decision_declaration ex_change_digests ex_governance_digests d a r ex_change = Inr ()"
    unfolding validate_decision_declaration_Inr create_decision_declaration_Inr decisions using valid decides d_def by simp
  have "rejected_classes d = []" by (simp add: rejected_classes_def decisions ex_decisions_def)
  then have "gate_verdict ex_change_digests ex_governance_digests a r (Some d) ex_change =
      Inr (PassApproved, [], Some (decision_declaration_ref ex_governance_digests d))"
    using declared ex(2,3) by (simp add: gate_verdict_def classes_with_def as)
  then have "evaluate_change_gate ex_change_digests ex_governance_digests a r (Some d) ex_change =
      Inr (gate_of ex_change_digests ex_governance_digests a r ex_change
        (PassApproved, [], Some (decision_declaration_ref ex_governance_digests d)))"
    using valid by (simp add: evaluate_change_gate_Inr)
  then show ?thesis using decisions by (intro that) (auto simp: gate_passes_def gate_of_def)
qed

section \<open>Properties\<close>

text \<open>
  C21: The verdict of an evaluated gate: what blocks is every unresolved class, and when there is none
  every class that applies and is not approved by the declaration; the change passes exactly when
  nothing blocks; and the evaluation names the classes that apply.
\<close>

theorem gate_exact:
  assumes "evaluate_change_gate D G a impact declaration x = Inr g"
  shows "(gate_passes g \<longleftrightarrow> classes_with UnresolvedClass a = [] \<and>
      (\<forall>c \<in> set (classes_with Applies a). approves declaration c)) \<and>
    gb_class ` set (ge_blockers g) = (if classes_with UnresolvedClass a \<noteq> [] then set (classes_with UnresolvedClass a)
       else {c \<in> set (classes_with Applies a). \<not> approves declaration c}) \<and>
    ge_required_classes g = classes_with Applies a"
proof -
  obtain v where a: "validate_decision_assessment D G a impact x = Inr ()"
    and v: "gate_verdict D G a impact declaration x = Inr v" and g: "g = gate_of D G a impact x v"
    using assms by (auto simp: evaluate_change_gate_Inr)
  obtain status blockers reference where v3: "v = (status, blockers, reference)" by (cases v)
  note verdict = verdict_cases [OF a v [unfolded v3]]
  have blockers: "gb_class ` set blockers = (if classes_with UnresolvedClass a \<noteq> [] then set (classes_with UnresolvedClass a)
       else {c \<in> set (classes_with Applies a). \<not> approves declaration c})"
    by (rule set_eqI) (use verdict(1) in simp)
  then have "blockers = [] \<longleftrightarrow> classes_with UnresolvedClass a = [] \<and> (\<forall>c \<in> set (classes_with Applies a). approves declaration c)"
  proof (cases "classes_with UnresolvedClass a = []")
    case True
    have "blockers = [] \<longleftrightarrow> gb_class ` set blockers = {}" by simp
    then show ?thesis unfolding blockers using True by auto
  next
    case False
    then show ?thesis using blockers by (cases blockers) auto
  qed
  then show ?thesis using verdict(2) blockers by (simp add: g v3 gate_of_def gate_passes_def)
qed

theorem gate_exact_witness:
  "\<exists>a r d g. evaluate_change_gate ex_change_digests ex_governance_digests a r (Some d) ex_change = Inr g \<and> gate_passes g \<and>
     ge_required_classes g = classes_with Applies a \<and> classes_with UnresolvedClass a = []"
proof -
  obtain a r d g where g: "evaluate_change_gate ex_change_digests ex_governance_digests a r (Some d) ex_change = Inr g" "gate_passes g"
    by (rule ex_gate)
  with gate_exact [OF g(1)] show ?thesis by blast
qed

text \<open>
  C22: A change that takes away a root of the base document, or newly requires a capability, passes only
  when a declaration approves its effect on the public contract.
\<close>

theorem breaking_needs_approval:
  assumes "evaluate_change_gate D G a impact declaration x = Inr g" and "gate_passes g"
    and "\<not> set (canonical_roots (ch_base x)) \<subseteq> set (canonical_roots (ch_final x)) \<or>
      (\<exists>c. Capability c \<in> set (be_entities (ch_final x)) \<and> newly_required (ch_base x) c)"
  shows "approves declaration PublicContract"
proof -
  obtain v where a: "validate_decision_assessment D G a impact x = Inr ()"
    and v: "gate_verdict D G a impact declaration x = Inr v" and g: "g = gate_of D G a impact x v"
    using assms(1) by (auto simp: evaluate_change_gate_Inr)
  then have report: "derive_report D x = Inr impact" by (simp add: validate_decision_assessment_Inr)
  then have "validate_behavior_delta D (ch_delta x) (ch_proposal x) (ch_base x) (ch_final x) = Inr ()"
    by (auto simp: derive_report_def derive_impact_report_def split: sum.splits)
  then have docs: "ir_ok (ch_base x)" "ir_ok (ch_final x)" using valid_delta_facts by blast+
  have "cm_outcome (im_compatibility impact) = Breaking"
    using classify_compatibility_cases(1) [OF docs, of "im_compatibility impact"] report_facts(5) [OF report] assms(3) by simp
  then have "PublicContract \<in> set (classes_with Applies a)"
    using derived_classes [OF report] required_apply [OF a] by (simp add: required_classes_of_def)
  moreover obtain status blockers reference where v3: "v = (status, blockers, reference)" by (cases v)
  moreover have "blockers = []" "classes_with UnresolvedClass a = []"
    using verdict_cases(2) [OF a v [unfolded v3]] assms(2) v
    by (auto simp: g v3 gate_of_def gate_passes_def gate_verdict_def Let_def res_bind_Inr split: if_splits)
  ultimately show ?thesis using verdict_cases(1) [OF a v [unfolded v3], of PublicContract] by simp
qed

theorem breaking_needs_approval_witness:
  "\<exists>a r d g. evaluate_change_gate ex_change_digests ex_governance_digests a r (Some d) ex_change = Inr g \<and>
     approves (Some d) PublicContract"
proof -
  obtain a r d g where g: "evaluate_change_gate ex_change_digests ex_governance_digests a r (Some d) ex_change = Inr g" "gate_passes g"
    by (rule ex_gate)
  have "Capability c \<in> set (be_entities (ch_final ex_change)) \<and> newly_required (ch_base ex_change) c"
    if "c = \<lparr>ca_id = ''cap'', ca_name = ''org.cap'', ca_minimum_version = ''1.0.0'', ca_required = True, ca_provenance = ex_prov_ref\<rparr>" for c
    by (simp add: that ex_change_def ex_behavior_def ex_required_def newly_required_def ex_provenance_entity_def)
  then show ?thesis using g breaking_needs_approval [OF g] by blast
qed

text \<open>
  C23: A gate is accepted exactly when evaluating the same documents gives it, and so is a declaration,
  an impact report, and an assessment whose declared classes all have a basis.
\<close>

theorem governance_validation_exact:
  shows "(validate_gate_evaluation D G g a impact declaration x = Inr () \<longleftrightarrow>
      evaluate_change_gate D G a impact declaration x = Inr g) \<and>
    (validate_decision_declaration D G d a impact x = Inr () \<longleftrightarrow>
      create_decision_declaration D G a impact (dl_decisions d) x = Inr d) \<and>
    (validate_decision_assessment D G a impact x = Inr () \<longleftrightarrow>
      create_decision_assessment D G impact (declared_assessments a) x = Inr a \<and>
      list_all (\<lambda>c. dc_declared_basis c \<noteq> None) (declared_assessments a)) \<and>
    (validate_impact_report D impact x = Inr () \<longleftrightarrow> derive_report D x = Inr impact)"
proof (intro conjI)
  show "validate_decision_assessment D G a impact x = Inr () \<longleftrightarrow>
      create_decision_assessment D G impact (declared_assessments a) x = Inr a \<and>
      list_all (\<lambda>c. dc_declared_basis c \<noteq> None) (declared_assessments a)"
  proof
    assume v: "validate_decision_assessment D G a impact x = Inr ()"
    then have "list_all (\<lambda>c. dc_declared_basis c \<noteq> None) (declared_assessments a)"
      by (simp add: validate_decision_assessment_Inr list_all_iff)
    with v show "create_decision_assessment D G impact (declared_assessments a) x = Inr a \<and>
        list_all (\<lambda>c. dc_declared_basis c \<noteq> None) (declared_assessments a)"
      by (auto simp: validate_decision_assessment_def res_bind_Inr)
  next
    assume c: "create_decision_assessment D G impact (declared_assessments a) x = Inr a \<and>
        list_all (\<lambda>c. dc_declared_basis c \<noteq> None) (declared_assessments a)"
    then have ds: "check_declarations (im_required_classes impact) (declared_assessments a) = Inr ()" "derive_report D x = Inr impact"
        "a = assessment_of D G impact (combined_assessments (im_required_classes impact) (declared_assessments a)) x"
      unfolding create_decision_assessment_Inr by blast+
    have as: "combined_assessments (im_required_classes impact) (declared_assessments a) = da_assessments a"
      by (rule created_assessments [OF conjunct1 [OF c], symmetric])
    show "validate_decision_assessment D G a impact x = Inr ()"
      unfolding validate_decision_assessment_Inr
      using ds(2) ds(3) [unfolded as] combined_checked(1) [OF ds(1), unfolded as] c by (simp only: list_all_iff) blast
  qed
  show "validate_gate_evaluation D G g a impact declaration x = Inr () \<longleftrightarrow>
      evaluate_change_gate D G a impact declaration x = Inr g"
    using gate_shape by (auto simp: validate_gate_evaluation_def res_bind_Inr evaluate_change_gate_Inr)
qed (simp_all only: validate_decision_declaration_Inr validate_impact_report_Inr)

text \<open>
  A gate can be evaluated exactly when the assessment is valid and the declaration fits: none while
  a class is unresolved or when no class applies, otherwise none or a valid one.
\<close>

theorem gate_evaluates_exact:
  "(\<exists>g. evaluate_change_gate D G a impact declaration x = Inr g) \<longleftrightarrow>
     validate_decision_assessment D G a impact x = Inr () \<and>
     (case declaration of
        None \<Rightarrow> True
      | Some d \<Rightarrow> classes_with UnresolvedClass a = [] \<and> classes_with Applies a \<noteq> [] \<and>
          validate_decision_declaration D G d a impact x = Inr ())"
  unfolding evaluate_change_gate_Inr
  by (auto simp: gate_verdict_def Let_def res_bind_Inr split: option.splits if_splits)

end
