(* ===== verification/Task_Graph.thy ===== *)
theory Task_Graph
  imports Behavior_Delta
begin

text \<open>
  The tasks of a change, the part of \<^verbatim>\<open>src/ucf/change_lifecycle/validation.py\<close> that derives a task
  graph from the OpenSpec task list, validates it and completes its tasks, with the models of a task
  graph. A document handed over is an instance of its model, so reading it back and the tests of
  run-time types always succeed; bounds on the lengths of texts are not modelled.
\<close>

section \<open>Models (models.py)\<close>

record delta_subject =
  ds_operation :: string
  ds_target :: subject_id

record task_source =
  ts_path :: string
  ts_digest :: string
  ts_line :: nat

datatype task_status = Pending | Completed

record change_task =
  ct_id :: string
  ct_order :: nat
  ct_depends_on :: "string list"
  ct_subjects :: "delta_subject list"
  ct_status :: task_status
  ct_source :: task_source

record task_graph =
  tg_change_id :: string
  tg_delta :: change_ref
  tg_tasks :: "change_task list"

definition max_change_tasks :: nat where
  "max_change_tasks = 1024"

definition validate_graph_shape :: "task_graph \<Rightarrow> (string, unit) res" where
  "validate_graph_shape g = res_all (\<lambda>(c, m). require c m)
     [(cf_change_id (tg_delta g) = tg_change_id g, ''Value error, task graph change ID differs from its delta''),
      (distinct (map ct_id (tg_tasks g)), ''Value error, task graph contains duplicate task IDs''),
      (map ct_order (tg_tasks g) = [1..<Suc (length (tg_tasks g))],
         ''Value error, task graph order is not canonical and contiguous'')]"

definition delta_subject_key :: "delta_subject \<Rightarrow> string \<times> string \<times> string" where
  "delta_subject_key s = (ds_operation s, ds_target s)"

fun delta_subject_ref :: "delta_entry \<Rightarrow> delta_subject" where
  "delta_subject_ref (AddedBehavior f r) = \<lparr>ds_operation = ''added'', ds_target = bl_subject f\<rparr>"
| "delta_subject_ref (ModifiedBehavior b f as br fr) = \<lparr>ds_operation = ''modified'', ds_target = bl_subject f\<rparr>"
| "delta_subject_ref (RemovedBehavior b r) = \<lparr>ds_operation = ''removed'', ds_target = bl_subject b\<rparr>"

section \<open>The task list of OpenSpec\<close>

text \<open>
  \<^verbatim>\<open>_OPENSPEC_TASK.match\<close>: a list mark, a box and a number, with white space between them and after the
  number, where a number is a run of digits and dots with a digit on both sides of every dot. The
  result is the mark in the box and the number.
\<close>

definition task_number :: "string \<Rightarrow> (string \<times> string) option" where
  "task_number s =
     (let number = takeWhile (\<lambda>c. is_digit c \<or> c = CHR ''.'') s; rest = drop (length number) s in
      if (\<forall>part \<in> set (split_on (CHR ''.'') number). part \<noteq> []) \<and> rest \<noteq> [] \<and> is_space (hd rest)
      then Some (number, rest) else None)"

definition match_openspec_task :: "string \<Rightarrow> (char \<times> string) option" where
  "match_openspec_task line =
     (case line of
        bullet # rest \<Rightarrow>
          (case dropWhile is_space rest of
             opening # mark # closing # after \<Rightarrow>
               if bullet \<in> {CHR ''-'', CHR ''*''} \<and> is_space (hd rest) \<and> opening = CHR ''['' \<and>
                 mark \<in> {CHR '' '', CHR ''x'', CHR ''X''} \<and> closing = CHR '']'' \<and> after \<noteq> [] \<and> is_space (hd after)
               then map_option (\<lambda>(number, _). (mark, number)) (task_number (dropWhile is_space after))
               else None
           | _ \<Rightarrow> None)
      | _ \<Rightarrow> None)"

definition task_id_of :: "string \<Rightarrow> string" where
  "task_id_of number = ''task.'' @ map (\<lambda>c. if c = CHR ''.'' then CHR ''-'' else c) number"

definition number_of_task :: "string \<Rightarrow> string" where
  "number_of_task i = map (\<lambda>c. if c = CHR ''-'' then CHR ''.'' else c) (remove_prefix ''task.'' i)"

text \<open>The tasks of a text with the numbers of their lines, from 1.\<close>

definition parse_task_lines :: "string \<Rightarrow> (string \<times> nat \<times> task_status) list" where
  "parse_task_lines text = List.map_filter (\<lambda>(line_number, line).
     map_option (\<lambda>(mark, number). (task_id_of number, line_number, if mark = CHR '' '' then Pending else Completed))
       (match_openspec_task line)) (zip [1..<Suc (length (py_splitlines text))] (py_splitlines text))"

section \<open>Cycles\<close>

text \<open>
  The search of \<^verbatim>\<open>_find_task_cycle\<close>. The stack has its top first; \<open>active\<close> and \<open>active_index\<close> of the
  code are the identities on the stack from the bottom and their positions. A target that is no task
  ends the search with a failed lookup.
\<close>

type_synonym task_dict = "(string, change_task) dict"

definition tasks_by_id :: "change_task list \<Rightarrow> task_dict" where
  "tasks_by_id tasks = dict_of (map (\<lambda>t. (ct_id t, t)) tasks)"

definition stack_weight :: "task_dict \<Rightarrow> (string \<times> nat) list \<Rightarrow> nat" where
  "stack_weight tasks stack = sum_list (map (\<lambda>(i, n). case map_of tasks i of
     None \<Rightarrow> 1 | Some t \<Rightarrow> 1 + 2 * (length (ct_depends_on t) - n)) stack)"

definition unseen :: "task_dict \<Rightarrow> string list \<Rightarrow> (string \<times> nat) list \<Rightarrow> string set" where
  "unseen tasks visited stack = {i. map_of tasks i \<noteq> None} - set visited - fst ` set stack"

lemma finite_unseen [simp]: "finite (unseen tasks visited stack)"
  by (rule finite_subset [of _ "fst ` set tasks"])
    (auto simp: unseen_def dest!: map_of_SomeD simp flip: not_None_eq, metis fst_conv image_eqI)

function search_cycle ::
  "task_dict \<Rightarrow> string list \<Rightarrow> (string \<times> nat) list \<Rightarrow> (string, string list option \<times> string list) res" where
  "search_cycle tasks visited [] = Inr (None, visited)"
| "search_cycle tasks visited ((i, n) # stack) =
     (case map_of tasks i of
        None \<Rightarrow> Inl ''KeyError''
      | Some t \<Rightarrow>
          if length (ct_depends_on t) \<le> n then search_cycle tasks (i # visited) stack
          else
            let target = ct_depends_on t ! n; active = rev (map fst ((i, n) # stack)) in
            if target \<in> set active then Inr (Some (dropWhile (\<lambda>x. x \<noteq> target) active @ [target]), visited)
            else if target \<in> set visited then search_cycle tasks visited ((i, Suc n) # stack)
            else search_cycle tasks visited ((target, 0) # (i, Suc n) # stack))"
  by pat_completeness auto

termination
proof (relation "measures [\<lambda>(tasks, visited, stack). card (unseen tasks visited stack),
    \<lambda>(tasks, visited, stack). stack_weight tasks stack]", goal_cases)
  case 1
  show ?case by simp
next
  case (2 tasks visited i n stack t)
  then have "unseen tasks (i # visited) stack = unseen tasks visited ((i, n) # stack)" by (auto simp: unseen_def)
  then show ?case using 2 by (simp add: stack_weight_def)
next
  case (3 tasks visited i n stack t target active)
  have "unseen tasks visited ((i, Suc n) # stack) = unseen tasks visited ((i, n) # stack)" by (auto simp: unseen_def)
  then show ?case using 3 by (simp add: stack_weight_def)
next
  case (4 tasks visited i n stack t target active)
  show ?case
  proof (cases "map_of tasks target")
    case None
    then have "unseen tasks visited ((target, 0) # (i, Suc n) # stack) = unseen tasks visited ((i, n) # stack)"
      by (auto simp: unseen_def)
    then show ?thesis using 4 None by (simp add: stack_weight_def)
  next
    case (Some u)
    then have "unseen tasks visited ((target, 0) # (i, Suc n) # stack) \<subset> unseen tasks visited ((i, n) # stack)"
      using 4 by (auto simp: unseen_def)
    then show ?thesis by (simp add: psubset_card_mono)
  qed
qed

fun search_cycles :: "task_dict \<Rightarrow> string list \<Rightarrow> string list \<Rightarrow> (string, string list option) res" where
  "search_cycles tasks visited [] = Inr None"
| "search_cycles tasks visited (root # roots) =
     (if root \<in> set visited then search_cycles tasks visited roots
      else res_bind (search_cycle tasks visited [(root, 0)]) (\<lambda>(cycle, visited').
        case cycle of Some c \<Rightarrow> Inr (Some c) | None \<Rightarrow> search_cycles tasks visited' roots))"

definition find_task_cycle :: "task_dict \<Rightarrow> (string, string list option) res" where
  "find_task_cycle tasks = search_cycles tasks [] (dict_keys tasks)"

section \<open>Validation\<close>

definition task_location :: "nat \<Rightarrow> string \<Rightarrow> string" where
  "task_location i rest = ''$.tasks['' @ show_nat i @ '']'' @ rest"

definition source_coordinate :: "change_task \<Rightarrow> string \<times> nat" where
  "source_coordinate t = (ts_path (ct_source t), ts_line (ct_source t))"

text \<open>\<^verbatim>\<open>len(xs) == len(set(xs)) and xs == tuple(sorted(xs))\<close>\<close>

definition canonical_sequence :: "'a::linorder list \<Rightarrow> bool" where
  "canonical_sequence xs \<longleftrightarrow> distinct xs \<and> xs = sort xs"

definition check_task :: "nat \<Rightarrow> string list \<Rightarrow> (string \<times> nat) list \<Rightarrow> change_task \<Rightarrow> (lifecycle_error, unit) res" where
  "check_task i ids coordinates t = res_all id
     [lifecycle_check (ct_id t \<notin> set ids) LcDuplicateIdentity (''duplicate task ID '' @ repr_str (ct_id t)) (task_location i ''.id''),
      lifecycle_check (ct_order t = i + 1) LcNonCanonicalOrder ''task order is not canonical and contiguous'' (task_location i ''.order''),
      lifecycle_check (canonical_sequence (ct_depends_on t)) LcNonCanonicalOrder
        ''task dependencies are duplicated or non-canonical'' (task_location i ''.depends_on''),
      lifecycle_check (canonical_sequence (map delta_subject_key (ct_subjects t))) LcNonCanonicalOrder
        ''task subjects are duplicated or non-canonical'' (task_location i ''.subjects''),
      lifecycle_check (source_coordinate t \<notin> set coordinates) LcDuplicateIdentity
        ''tasks share one source coordinate'' (task_location i ''.source'')]"

fun check_tasks_from ::
  "nat \<Rightarrow> string list \<Rightarrow> (string \<times> nat) list \<Rightarrow> change_task list \<Rightarrow> (lifecycle_error, unit) res" where
  "check_tasks_from i ids coordinates [] = Inr ()"
| "check_tasks_from i ids coordinates (t # ts) =
     res_bind (check_task i ids coordinates t) (\<lambda>_.
     check_tasks_from (Suc i) (ct_id t # ids) (source_coordinate t # coordinates) ts)"

text \<open>The dependencies of a task that are not completed tasks.\<close>

definition incomplete_predecessors :: "task_dict \<Rightarrow> change_task \<Rightarrow> string list" where
  "incomplete_predecessors tasks t =
     filter (\<lambda>i. case map_of tasks i of None \<Rightarrow> True | Some p \<Rightarrow> ct_status p \<noteq> Completed) (ct_depends_on t)"

definition validate_task_status :: "task_dict \<Rightarrow> nat \<Rightarrow> change_task \<Rightarrow> (lifecycle_error, unit) res" where
  "validate_task_status tasks i t =
     (let missing = filter (\<lambda>j. map_of tasks j = None) (ct_depends_on t); incomplete = incomplete_predecessors tasks t in
      res_all id
        [lifecycle_check (missing = []) LcBrokenReference
           (''task dependencies do not resolve: '' @ repr_str_tuple missing) (task_location i ''.depends_on''),
         lifecycle_check (\<not> (ct_status t = Completed \<and> incomplete \<noteq> [])) LcInvalidTransition
           (''completed task has pending predecessors: '' @ repr_str_tuple incomplete) (task_location i ''.status'')])"

definition validate_task_precedence :: "task_dict \<Rightarrow> nat \<Rightarrow> change_task \<Rightarrow> (lifecycle_error, unit) res" where
  "validate_task_precedence tasks i t = res_all (\<lambda>j.
     case map_of tasks j of
       None \<Rightarrow> Inl (LifecycleAssertion ''KeyError'')
     | Some p \<Rightarrow> lifecycle_check (ct_order p < ct_order t) LcNonCanonicalOrder
         ''task dependency must precede the dependent task'' (task_location i ''.depends_on'')) (ct_depends_on t)"

definition each_task :: "(nat \<Rightarrow> change_task \<Rightarrow> (lifecycle_error, unit) res) \<Rightarrow> change_task list \<Rightarrow> (lifecycle_error, unit) res" where
  "each_task f tasks = res_all (\<lambda>(i, t). f i t) (zip [0..<length tasks] tasks)"

definition validate_task_graph_topology :: "task_graph \<Rightarrow> (lifecycle_error, unit) res" where
  "validate_task_graph_topology g =
     (let tasks = tasks_by_id (tg_tasks g) in
      res_bind (check_tasks_from 0 [] [] (tg_tasks g)) (\<lambda>_.
      res_bind (each_task (validate_task_status tasks) (tg_tasks g)) (\<lambda>_.
      case find_task_cycle tasks of
        Inl e \<Rightarrow> Inl (LifecycleAssertion e)
      | Inr (Some cycle) \<Rightarrow> Inl (LifecycleError LcCyclicDependency
          (''task dependency cycle detected: '' @ py_join '' -> '' cycle) ''$.tasks'')
      | Inr None \<Rightarrow> each_task (validate_task_precedence tasks) (tg_tasks g))))"

text \<open>\<^verbatim>\<open>repr\<close> of a list of triples of texts\<close>

definition repr_keys :: "(string \<times> string \<times> string) list \<Rightarrow> string" where
  "repr_keys ks = ''['' @ py_join '', '' (map (\<lambda>(a, b, c). repr_str_tuple [a, b, c]) ks) @ '']''"

definition expected_subjects :: "behavior_delta \<Rightarrow> (string \<times> string \<times> string) list" where
  "expected_subjects delta = map (\<lambda>e. delta_subject_key (delta_subject_ref e)) (de_entries delta)"

definition actual_subjects :: "task_graph \<Rightarrow> (string \<times> string \<times> string) list" where
  "actual_subjects g = concat (map (\<lambda>t. map delta_subject_key (ct_subjects t)) (tg_tasks g))"

definition validate_task_graph_against_delta ::
  "change_digests \<Rightarrow> task_graph \<Rightarrow> behavior_delta \<Rightarrow> (lifecycle_error, unit) res" where
  "validate_task_graph_against_delta D g delta =
     res_bind (lifecycle_check (tg_change_id g = de_change_id delta) LcBrokenReference
       ''task graph change ID differs from the delta'' ''$.change_id'') (\<lambda>_.
     res_bind (lifecycle_check (tg_delta g = behavior_delta_ref D delta) LcContentIdentityMismatch
       ''task graph delta reference is stale or fabricated'' ''$.delta'') (\<lambda>_.
     res_bind (validate_task_graph_topology g) (\<lambda>_.
     let expected = expected_subjects delta; actual = actual_subjects g;
         missing = sorted_set (filter (\<lambda>k. k \<notin> set actual) expected);
         extra = sorted_set (filter (\<lambda>k. k \<notin> set expected) actual) in
     lifecycle_check (set actual = set expected) (if extra \<noteq> [] then LcBrokenReference else LcIncompleteCoverage)
       (''task subject coverage differs from the delta; missing='' @ repr_keys missing @ '', extra='' @ repr_keys extra)
       ''$.tasks'')))"

definition validate_task_source :: "change_proposal \<Rightarrow> nat \<Rightarrow> change_task \<Rightarrow> (lifecycle_error, unit) res" where
  "validate_task_source proposal i t =
     (let source = ct_source t in
      case find (\<lambda>a. oa_path a = ts_path source) (cp_openspec proposal) of
        None \<Rightarrow> Inl (LifecycleError LcBrokenReference ''task source artifact does not resolve'' (task_location i ''.source.artifact_path''))
      | Some artifact \<Rightarrow>
          res_bind (lifecycle_check (oa_role artifact = TasksArtifact \<and> oa_digest artifact = ts_digest source)
            LcContentIdentityMismatch ''task source artifact identity does not match the proposal'' (task_location i ''.source'')) (\<lambda>_.
          let lines = py_splitlines (oa_text artifact) in
          res_bind (lifecycle_check (ts_line source \<le> length lines) LcBrokenReference
            ''task source line does not exist'' (task_location i ''.source.line'')) (\<lambda>_.
          lifecycle_check (map_option snd (match_openspec_task (lines ! (ts_line source - 1))) = Some (number_of_task (ct_id t)))
            LcContentIdentityMismatch ''task ID does not match its OpenSpec checkbox coordinate'' (task_location i ''.source.line''))))"

definition validate_task_graph ::
  "change_digests \<Rightarrow> task_graph \<Rightarrow> behavior_delta \<Rightarrow> change_proposal \<Rightarrow> behavior_ir \<Rightarrow> behavior_ir \<Rightarrow> (lifecycle_error, unit) res" where
  "validate_task_graph D g delta proposal base final =
     res_bind (validate_behavior_delta D delta proposal base final) (\<lambda>_.
     res_bind (validate_task_graph_against_delta D g delta) (\<lambda>_.
     each_task (validate_task_source proposal) (tg_tasks g)))"

section \<open>Deriving a graph\<close>

type_synonym assignments = "(string, delta_subject list) dict"

definition check_assignments :: "assignments \<Rightarrow> (lifecycle_error, unit) res" where
  "check_assignments subjects = res_all (\<lambda>(i, ss). lifecycle_check (ss \<noteq> []) LcInvalidStructure
     ''Tuple should have at least 1 item after validation, not 0'' (''$.subject_assignments['' @ repr_str i @ '']'')) subjects"

definition check_parsed ::
  "(string \<times> nat \<times> task_status) list \<Rightarrow> assignments \<Rightarrow> (string, string list) dict \<Rightarrow> (lifecycle_error, unit) res" where
  "check_parsed parsed subjects dependencies =
     (let ids = map fst parsed in res_all id
        [lifecycle_check (length parsed \<le> max_change_tasks) LcInvalidStructure
           (''OpenSpec tasks artifact exceeds the '' @ show_nat max_change_tasks @ ''-task limit'') ''$.openspec.artifacts'',
         lifecycle_check (parsed \<noteq> []) LcInvalidStructure
           ''OpenSpec tasks artifact has no numbered checkbox tasks'' ''$.openspec.artifacts'',
         lifecycle_check (distinct ids) LcDuplicateIdentity
           ''OpenSpec tasks artifact contains duplicate task IDs'' ''$.openspec.artifacts'',
         lifecycle_check (set (dict_keys subjects) = set ids) LcIncompleteCoverage
           ''subject assignments must name every and only parsed task'' ''$.subject_assignments'',
         lifecycle_check (set (dict_keys dependencies) \<subseteq> set ids) LcBrokenReference
           ''dependency assignments name an unknown task'' ''$.dependencies''])"

definition task_of ::
  "openspec_artifact \<Rightarrow> assignments \<Rightarrow> (string, string list) dict \<Rightarrow> nat \<Rightarrow> string \<times> nat \<times> task_status \<Rightarrow> change_task" where
  "task_of artifact subjects dependencies order parsed = (case parsed of (i, line, status) \<Rightarrow>
     \<lparr>ct_id = i, ct_order = order,
      ct_depends_on = sort (case map_of dependencies i of None \<Rightarrow> [] | Some ts \<Rightarrow> ts),
      ct_subjects = sort_key delta_subject_key (the (map_of subjects i)), ct_status = status,
      ct_source = \<lparr>ts_path = oa_path artifact, ts_digest = oa_digest artifact, ts_line = line\<rparr>\<rparr>)"

definition derive_task_graph ::
  "change_digests \<Rightarrow> change_proposal \<Rightarrow> behavior_delta \<Rightarrow> behavior_ir \<Rightarrow> behavior_ir \<Rightarrow> assignments \<Rightarrow>
     (string, string list) dict \<Rightarrow> (lifecycle_error, task_graph) res" where
  "derive_task_graph D proposal delta base final subjects dependencies =
     res_bind (check_assignments subjects) (\<lambda>_.
     case filter (\<lambda>a. oa_role a = TasksArtifact) (cp_openspec proposal) of
       [artifact] \<Rightarrow>
         (let parsed = parse_task_lines (oa_text artifact) in
          res_bind (check_parsed parsed subjects dependencies) (\<lambda>_.
          let g = \<lparr>tg_change_id = cp_change_id proposal, tg_delta = behavior_delta_ref D delta,
                tg_tasks = map (\<lambda>(order, p). task_of artifact subjects dependencies order p)
                  (zip [1..<Suc (length parsed)] parsed)\<rparr> in
          case validate_graph_shape g of
            Inl m \<Rightarrow> Inl (LifecycleError LcInvalidStructure m ''$.tasks'')
          | Inr _ \<Rightarrow> res_bind (validate_task_graph D g delta proposal base final) (\<lambda>_. Inr g)))
     | _ \<Rightarrow> Inl (LifecycleError LcInvalidStructure ''task derivation requires exactly one OpenSpec tasks artifact''
         ''$.openspec.artifacts''))"

section \<open>Completing a task\<close>

definition mark_completed :: "string \<Rightarrow> change_task list \<Rightarrow> change_task list" where
  "mark_completed i tasks = map (\<lambda>t. if ct_id t = i then t\<lparr>ct_status := Completed\<rparr> else t) tasks"

definition complete_change_task ::
  "change_digests \<Rightarrow> task_graph \<Rightarrow> string \<Rightarrow> behavior_delta \<Rightarrow> change_proposal \<Rightarrow> behavior_ir \<Rightarrow> behavior_ir \<Rightarrow>
     (lifecycle_error, task_graph) res" where
  "complete_change_task D g i delta proposal base final =
     res_bind (validate_task_graph D g delta proposal base final) (\<lambda>_.
     let tasks = tasks_by_id (tg_tasks g) in
     case map_of tasks i of
       None \<Rightarrow> Inl (LifecycleError LcBrokenReference (''task '' @ repr_str i @ '' does not exist'') ''$.tasks'')
     | Some t \<Rightarrow>
         let incomplete = incomplete_predecessors tasks t in
         res_bind (lifecycle_check (incomplete = []) LcInvalidTransition
           (''task completion requires completed predecessors: '' @ repr_str_tuple incomplete) ''$.tasks'') (\<lambda>_.
         if ct_status t = Completed then Inr g
         else
           let successor = g\<lparr>tg_tasks := mark_completed i (tg_tasks g)\<rparr> in
           case validate_graph_shape successor of
             Inl m \<Rightarrow> Inl (LifecycleModelError m)
           | Inr _ \<Rightarrow> res_bind (validate_task_graph D successor delta proposal base final) (\<lambda>_. Inr successor)))"

section \<open>The search finds the cycles\<close>

definition depends :: "task_dict \<Rightarrow> string \<Rightarrow> string \<Rightarrow> bool" where
  "depends tasks a b \<longleftrightarrow> (\<exists>t. map_of tasks a = Some t \<and> b \<in> set (ct_depends_on t))"

definition is_cycle :: "task_dict \<Rightarrow> string list \<Rightarrow> bool" where
  "is_cycle tasks c \<longleftrightarrow> 2 \<le> length c \<and> hd c = last c \<and> successively (depends tasks) c"

definition resolved :: "task_dict \<Rightarrow> bool" where
  "resolved tasks \<longleftrightarrow> (\<forall>a b. depends tasks a b \<longrightarrow> map_of tasks b \<noteq> None)"

text \<open>What the visited tasks depend on was visited before.\<close>

fun finished :: "task_dict \<Rightarrow> string list \<Rightarrow> bool" where
  "finished tasks [] \<longleftrightarrow> True"
| "finished tasks (v # vs) \<longleftrightarrow> (\<forall>b. depends tasks v b \<longrightarrow> b \<in> set vs) \<and> finished tasks vs"

text \<open>The dependencies before the pointers are visited, except the one that is being explored above it.\<close>

fun stack_ok :: "task_dict \<Rightarrow> string list \<Rightarrow> string option \<Rightarrow> (string \<times> nat) list \<Rightarrow> bool" where
  "stack_ok tasks visited child [] \<longleftrightarrow> True"
| "stack_ok tasks visited child ((i, n) # stack) \<longleftrightarrow>
     (\<exists>t. map_of tasks i = Some t \<and> n \<le> length (ct_depends_on t) \<and>
        (\<forall>k < n. ct_depends_on t ! k \<in> set visited \<or> child = Some (ct_depends_on t ! k)) \<and>
        (\<forall>c. child = Some c \<longrightarrow> c \<in> set (ct_depends_on t))) \<and>
     stack_ok tasks visited (Some i) stack"

lemma stack_ok_mono: "stack_ok tasks visited child stack \<Longrightarrow> set visited \<subseteq> set visited' \<Longrightarrow>
    (\<And>c. child = Some c \<Longrightarrow> child' = Some c \<or> c \<in> set visited' \<and> child' = None) \<Longrightarrow> (child = None \<Longrightarrow> child' = None) \<Longrightarrow>
    stack_ok tasks visited' child' stack"
  by (induction tasks visited child stack arbitrary: child' rule: stack_ok.induct) (auto, blast+)

lemma stack_path:
  "stack_ok tasks visited child stack \<Longrightarrow> successively (depends tasks) (rev (map fst stack) @ (case child of None \<Rightarrow> [] | Some c \<Rightarrow> [c]))"
proof (induction tasks visited child stack rule: stack_ok.induct)
  case (2 tasks visited child i n stack)
  then have "successively (depends tasks) (rev (map fst stack) @ [i])" by auto
  moreover have "depends tasks i c" if "child = Some c" for c using 2 that by (auto simp: depends_def)
  ultimately show ?case by (cases child) (auto simp: successively_append_iff)
qed (auto split: option.splits)

lemma closed_cycle:
  assumes "successively P (active @ [target])" "target \<in> set active"
  shows "2 \<le> length (dropWhile (\<lambda>x. x \<noteq> target) active @ [target]) \<and>
    hd (dropWhile (\<lambda>x. x \<noteq> target) active @ [target]) = last (dropWhile (\<lambda>x. x \<noteq> target) active @ [target]) \<and>
    successively P (dropWhile (\<lambda>x. x \<noteq> target) active @ [target])"
proof -
  let ?rest = "dropWhile (\<lambda>x. x \<noteq> target) active"
  have rest: "?rest \<noteq> []" "hd ?rest = target" using assms(2) hd_dropWhile [of "\<lambda>x. x \<noteq> target" active] by auto
  have "active @ [target] = takeWhile (\<lambda>x. x \<noteq> target) active @ ?rest @ [target]" by simp
  then have "successively P (?rest @ [target])" using assms(1) by (metis successively_append_iff)
  then show ?thesis using rest by (cases ?rest) auto
qed

definition search_ok :: "task_dict \<Rightarrow> string set \<Rightarrow> (string, string list option \<times> string list) res \<Rightarrow> bool" where
  "search_ok tasks need r \<longleftrightarrow> (\<exists>c visited. r = Inr (Some c, visited) \<and> is_cycle tasks c) \<or>
     (\<exists>visited. r = Inr (None, visited) \<and> finished tasks visited \<and> need \<subseteq> set visited)"

lemma search_ok_mono: "search_ok tasks need r \<Longrightarrow> need' \<subseteq> need \<Longrightarrow> search_ok tasks need' r"
  by (auto simp: search_ok_def)

lemma search_cycle_spec:
  assumes "resolved tasks" "stack_ok tasks visited None stack" "finished tasks visited"
  shows "search_ok tasks (set visited \<union> fst ` set stack) (search_cycle tasks visited stack)"
  using assms
proof (induction tasks visited stack rule: search_cycle.induct)
  case (1 tasks visited)
  then show ?case by (simp add: search_ok_def)
next
  case (2 tasks visited i n stack)
  obtain t where t: "map_of tasks i = Some t" "n \<le> length (ct_depends_on t)"
      "\<forall>k < n. ct_depends_on t ! k \<in> set visited"
    and stack: "stack_ok tasks visited (Some i) stack"
    using "2.prems"(2) by auto
  show ?case
  proof (cases "length (ct_depends_on t) \<le> n")
    case True
    have "finished tasks (i # visited)"
      using True t "2.prems"(3) by (auto simp: depends_def in_set_conv_nth)
    moreover have "stack_ok tasks (i # visited) None stack" by (rule stack_ok_mono [OF stack]) auto
    ultimately show ?thesis using "2.IH"(1) [OF t(1) True "2.prems"(1)] t(1) True by simp
  next
    case False
    define target where "target = ct_depends_on t ! n"
    define active where "active = rev (map fst ((i, n) # stack))"
    have target: "target \<in> set (ct_depends_on t)" using False by (simp add: target_def)
    then have dep: "depends tasks i target" using t(1) by (auto simp: depends_def)
    have path: "successively (depends tasks) (active @ [target])"
      using stack_path [OF "2.prems"(2)] dep by (simp add: active_def successively_append_iff)
    note IH = "2.IH"(2,3) [OF t(1) False target_def active_def]
    have step: "search_cycle tasks visited ((i, n) # stack) =
        (if target \<in> set active then Inr (Some (dropWhile (\<lambda>x. x \<noteq> target) active @ [target]), visited)
         else if target \<in> set visited then search_cycle tasks visited ((i, Suc n) # stack)
         else search_cycle tasks visited ((target, 0) # (i, Suc n) # stack))"
      using t(1) False by (subst search_cycle.simps) (simp only: option.case if_False Let_def target_def active_def)
    show ?thesis
    proof (cases "target \<in> set active")
      case True
      then show ?thesis unfolding step using closed_cycle [OF path] by (simp add: is_cycle_def search_ok_def)
    next
      case inactive: False
      show ?thesis
      proof (cases "target \<in> set visited")
        case True
        have "stack_ok tasks visited None ((i, Suc n) # stack)"
          using t False True stack by (auto simp: target_def less_Suc_eq)
        from IH(1) [OF inactive True "2.prems"(1) this "2.prems"(3)] show ?thesis unfolding step using inactive True by simp
      next
        case unvisited: False
        obtain u where u: "map_of tasks target = Some u" using "2.prems"(1) dep by (auto simp: resolved_def)
        have "stack_ok tasks visited None ((target, 0) # (i, Suc n) # stack)"
          using t False target u stack by (auto simp: target_def less_Suc_eq)
        from IH(2) [OF inactive unvisited "2.prems"(1) this "2.prems"(3)] show ?thesis
          unfolding step using inactive unvisited by (auto elim: search_ok_mono)
      qed
    qed
  qed
qed

lemma search_cycles_spec:
  assumes "resolved tasks" "finished tasks visited" "set roots \<subseteq> set (dict_keys tasks)"
  shows "(\<exists>c. search_cycles tasks visited roots = Inr (Some c) \<and> is_cycle tasks c) \<or>
    search_cycles tasks visited roots = Inr None \<and> (\<exists>visited'. finished tasks visited' \<and> set visited \<union> set roots \<subseteq> set visited')"
  using assms
proof (induction roots arbitrary: visited)
  case (Cons root roots)
  show ?case
  proof (cases "root \<in> set visited")
    case False
    have "map_of tasks root \<noteq> None" using Cons.prems(3) by (auto simp: map_of_eq_None_iff)
    then have "stack_ok tasks visited None [(root, 0)]" by auto
    from search_cycle_spec [OF Cons.prems(1) this Cons.prems(2)]
    consider (found) c visited' where "search_cycle tasks visited [(root, 0)] = Inr (Some c, visited')" "is_cycle tasks c"
      | (none) visited' where "search_cycle tasks visited [(root, 0)] = Inr (None, visited')" "finished tasks visited'"
          "set visited \<union> fst ` set [(root, 0::nat)] \<subseteq> set visited'"
      unfolding search_ok_def by blast
    then show ?thesis
    proof cases
      case found
      then show ?thesis using False by (simp del: search_cycle.simps)
    next
      case none
      then have "search_cycles tasks visited (root # roots) = search_cycles tasks visited' roots"
        using False by (simp del: search_cycle.simps)
      moreover have "set visited \<union> set (root # roots) \<subseteq> set visited' \<union> set roots" using none(3) by auto
      ultimately show ?thesis using Cons.IH [of visited', OF Cons.prems(1) none(2)] Cons.prems(3) by fastforce
    qed
  next
    case True
    then have "search_cycles tasks visited (root # roots) = search_cycles tasks visited roots"
      "set visited \<union> set (root # roots) = set visited \<union> set roots" by auto
    then show ?thesis using Cons.IH [of visited] Cons.prems by simp
  qed
qed auto

lemma cycle_successor:
  assumes "is_cycle tasks c" "x \<in> set c"
  shows "\<exists>y \<in> set c. depends tasks x y"
proof -
  obtain k where k: "k < length c" "x = c ! k" using assms(2) by (auto simp: in_set_conv_nth)
  have c: "2 \<le> length c" "hd c = last c" "\<forall>j. Suc j < length c \<longrightarrow> depends tasks (c ! j) (c ! Suc j)"
    using assms(1) by (auto simp: is_cycle_def successively_conv_nth)
  show ?thesis
  proof (cases "Suc k < length c")
    case True
    then show ?thesis using c(3) k by (meson nth_mem)
  next
    case False
    then have "x = c ! 0" using k c(1,2) by (metis Suc_lessI diff_Suc_1 hd_conv_nth last_conv_nth length_greater_0_conv list.size(3) not_less_zero)
    then show ?thesis using c(1,3) by (metis One_nat_def Suc_le_lessD Suc_1 nth_mem)
  qed
qed

lemma finished_acyclic: "finished tasks vs \<Longrightarrow> is_cycle tasks c \<Longrightarrow> set c \<inter> set vs = {}"
proof (induction vs)
  case (Cons v vs)
  then have apart: "set c \<inter> set vs = {}" by simp
  have "v \<notin> set c"
  proof
    assume "v \<in> set c"
    then obtain y where "y \<in> set c" "depends tasks v y" using cycle_successor [OF Cons.prems(2)] by blast
    then show False using Cons.prems(1) apart by auto
  qed
  then show ?case using apart by simp
qed simp

lemma find_task_cycle_spec:
  assumes "resolved tasks"
  shows "(find_task_cycle tasks = Inr None \<and> (\<nexists>c. is_cycle tasks c)) \<or>
    (\<exists>c. find_task_cycle tasks = Inr (Some c) \<and> is_cycle tasks c)"
proof -
  have "\<not> is_cycle tasks p" if visited: "finished tasks visited" "set (dict_keys tasks) \<subseteq> set visited" for p visited
  proof
    assume p: "is_cycle tasks p"
    then have "hd p \<in> set p" by (cases p) (auto simp: is_cycle_def)
    then have "hd p \<in> set (dict_keys tasks)" using cycle_successor [OF p] by (force simp: depends_def dest: map_of_SomeD)
    then show False using finished_acyclic [OF visited(1) p] visited(2) \<open>hd p \<in> set p\<close> by blast
  qed
  then show ?thesis
    using search_cycles_spec [OF assms, of "[]" "dict_keys tasks"] unfolding find_task_cycle_def by auto
qed

section \<open>Valid topologies\<close>

definition task_ids :: "change_task list \<Rightarrow> string list" where
  "task_ids tasks = map ct_id tasks"

text \<open>The tasks that a task depends on are there, come before it, and are completed if it is.\<close>

definition predecessors_ok :: "change_task list \<Rightarrow> change_task \<Rightarrow> bool" where
  "predecessors_ok tasks t \<longleftrightarrow> (\<forall>i \<in> set (ct_depends_on t). \<exists>p \<in> set tasks. ct_id p = i \<and> ct_order p < ct_order t \<and>
     (ct_status t = Completed \<longrightarrow> ct_status p = Completed))"

definition topology_ok :: "task_graph \<Rightarrow> bool" where
  "topology_ok g \<longleftrightarrow> distinct (task_ids (tg_tasks g)) \<and> map ct_order (tg_tasks g) = [1..<Suc (length (tg_tasks g))] \<and>
     distinct (map source_coordinate (tg_tasks g)) \<and>
     (\<forall>t \<in> set (tg_tasks g). sorted_wrt (<) (ct_depends_on t) \<and> sorted_wrt (<) (map delta_subject_key (ct_subjects t)) \<and>
        predecessors_ok (tg_tasks g) t)"

lemma canonical_sequence_iff [simp]: "canonical_sequence xs \<longleftrightarrow> sorted_wrt (<) xs"
  by (auto simp: canonical_sequence_def strict_sorted_iff sorted_sort_id) (metis sorted_sort)

lemma task_lookup:
  assumes "distinct (task_ids tasks)"
  shows "map_of (tasks_by_id tasks) i = Some t \<longleftrightarrow> t \<in> set tasks \<and> ct_id t = i"
proof -
  have "map_of (tasks_by_id tasks) = map_of (map (\<lambda>t. (ct_id t, t)) tasks)"
    using assms by (simp add: tasks_by_id_def dict_of_distinct comp_def task_ids_def)
  then show ?thesis using assms by (auto simp: map_of_eq_Some_iff comp_def task_ids_def)
qed

lemma check_tasks_from_Inr:
  "check_tasks_from i ids coordinates ts = Inr () \<longleftrightarrow>
     distinct (task_ids ts) \<and> set (task_ids ts) \<inter> set ids = {} \<and>
     map ct_order ts = [Suc i..<Suc i + length ts] \<and>
     distinct (map source_coordinate ts) \<and> set (map source_coordinate ts) \<inter> set coordinates = {} \<and>
     (\<forall>t \<in> set ts. sorted_wrt (<) (ct_depends_on t) \<and> sorted_wrt (<) (map delta_subject_key (ct_subjects t)))"
proof (induction ts arbitrary: i ids coordinates)
  case (Cons t ts)
  have "[Suc i..<Suc i + length (t # ts)] = Suc i # [Suc (Suc i)..<Suc (Suc i) + length ts]"
    by (simp add: upt_conv_Cons del: upt_Suc)
  then show ?case
    unfolding check_tasks_from.simps res_bind_Inr Cons.IH by (auto simp: check_task_def res_all_Inr task_ids_def simp del: res_all.simps upt_Suc)
qed (simp add: task_ids_def)

lemma zip_ball: "(\<forall>p \<in> set (zip [k..<k + length xs] xs). P (snd p)) \<longleftrightarrow> (\<forall>x \<in> set xs. P x)"
proof -
  have "set xs = snd ` set (zip [k..<k + length xs] xs)" by (simp flip: set_map)
  then show ?thesis by (metis (no_types, lifting) imageE image_eqI)
qed

lemma each_task_Inr:
  assumes "\<And>i t. t \<in> set tasks \<Longrightarrow> f i t = Inr () \<longleftrightarrow> P t"
  shows "each_task f tasks = Inr () \<longleftrightarrow> (\<forall>t \<in> set tasks. P t)"
proof -
  have "each_task f tasks = Inr () \<longleftrightarrow> (\<forall>p \<in> set (zip [0..<length tasks] tasks). P (snd p))"
    unfolding each_task_def res_all_Inr case_prod_beta
    by (intro ball_cong refl assms) (metis prod.collapse set_zip_rightD)
  then show ?thesis using zip_ball [of 0 tasks P] by simp
qed

definition predecessors_known :: "change_task list \<Rightarrow> change_task \<Rightarrow> bool" where
  "predecessors_known tasks t \<longleftrightarrow> (\<forall>i \<in> set (ct_depends_on t). \<exists>p \<in> set tasks. ct_id p = i \<and>
     (ct_status t = Completed \<longrightarrow> ct_status p = Completed))"

definition all_completed :: "change_task list \<Rightarrow> string list \<Rightarrow> bool" where
  "all_completed tasks is \<longleftrightarrow> (\<forall>j \<in> set is. \<exists>p \<in> set tasks. ct_id p = j \<and> ct_status p = Completed)"

lemma incomplete_predecessors_Nil:
  assumes "distinct (task_ids tasks)"
  shows "incomplete_predecessors (tasks_by_id tasks) t = [] \<longleftrightarrow> all_completed tasks (ct_depends_on t)"
  unfolding incomplete_predecessors_def filter_empty_conv all_completed_def
proof (intro ball_cong refl)
  fix j
  show "\<not> (case map_of (tasks_by_id tasks) j of None \<Rightarrow> True | Some p \<Rightarrow> ct_status p \<noteq> Completed) \<longleftrightarrow>
      (\<exists>p \<in> set tasks. ct_id p = j \<and> ct_status p = Completed)"
    using task_lookup [OF assms, of j] by (cases "map_of (tasks_by_id tasks) j") (auto, metis)
qed

lemma validate_task_status_Inr:
  assumes "distinct (task_ids tasks)"
  shows "validate_task_status (tasks_by_id tasks) i t = Inr () \<longleftrightarrow> predecessors_known tasks t"
proof -
  have found: "map_of (tasks_by_id tasks) j = None \<longleftrightarrow> (\<nexists>p. p \<in> set tasks \<and> ct_id p = j)" for j
    using task_lookup [OF assms, of j] by (cases "map_of (tasks_by_id tasks) j") auto
  show ?thesis
    using incomplete_predecessors_Nil [OF assms, of t]
    by (auto simp: validate_task_status_def Let_def res_all_Inr filter_empty_conv found predecessors_known_def all_completed_def simp del: res_all.simps)
qed

lemma validate_task_precedence_Inr:
  assumes "distinct (task_ids tasks)"
  shows "validate_task_precedence (tasks_by_id tasks) i t = Inr () \<longleftrightarrow>
    (\<forall>j \<in> set (ct_depends_on t). \<exists>p \<in> set tasks. ct_id p = j \<and> ct_order p < ct_order t)"
  unfolding validate_task_precedence_def res_all_Inr
proof (intro ball_cong refl)
  fix j
  show "(case map_of (tasks_by_id tasks) j of None \<Rightarrow> Inl (LifecycleAssertion ''KeyError'')
      | Some p \<Rightarrow> lifecycle_check (ct_order p < ct_order t) LcNonCanonicalOrder
          ''task dependency must precede the dependent task'' (task_location i ''.depends_on'')) = Inr () \<longleftrightarrow>
      (\<exists>p \<in> set tasks. ct_id p = j \<and> ct_order p < ct_order t)"
    using task_lookup [OF assms, of j] by (cases "map_of (tasks_by_id tasks) j") (auto, metis)
qed

lemma ordered_acyclic:
  assumes "distinct (task_ids tasks)" "\<forall>t \<in> set tasks. predecessors_ok tasks t"
  shows "\<not> is_cycle (tasks_by_id tasks) c"
proof
  assume c: "is_cycle (tasks_by_id tasks) c"
  let ?order = "\<lambda>i. ct_order (the (map_of (tasks_by_id tasks) i))"
  have down: "?order b < ?order a" if dep: "depends (tasks_by_id tasks) a b" for a b
  proof -
    obtain t where t: "map_of (tasks_by_id tasks) a = Some t" "b \<in> set (ct_depends_on t)" using dep by (auto simp: depends_def)
    then obtain p where p: "p \<in> set tasks" "ct_id p = b" "ct_order p < ct_order t"
      using assms(2) task_lookup [OF assms(1), of a t] unfolding predecessors_ok_def by blast
    then have "map_of (tasks_by_id tasks) b = Some p" by (simp add: task_lookup [OF assms(1)])
    then show ?thesis using t p by simp
  qed
  have "finite (?order ` set c)" "?order ` set c \<noteq> {}" using c by (auto simp: is_cycle_def)
  then obtain x where x: "x \<in> set c" "?order x = Min (?order ` set c)" by (metis (no_types, lifting) Min_in imageE)
  obtain y where "y \<in> set c" "?order y < ?order x" using cycle_successor [OF c x(1)] down by blast
  then show False using x(2) by (simp add: Min_gr_iff leD)
qed

lemma validate_graph_topology_Inr: "validate_task_graph_topology g = Inr () \<longleftrightarrow> topology_ok g"
proof (cases "check_tasks_from 0 [] [] (tg_tasks g) = Inr ()")
  case False
  then have "\<not> topology_ok g" by (auto simp: check_tasks_from_Inr topology_ok_def simp del: upt_Suc)
  then show ?thesis using False by (auto simp: validate_task_graph_topology_def Let_def res_bind_Inr)
next
  case True
  let ?tasks = "tg_tasks g"
  have ids: "distinct (task_ids ?tasks)" using True by (simp add: check_tasks_from_Inr)
  note checks = each_task_Inr [of ?tasks "validate_task_status (tasks_by_id ?tasks)" "predecessors_known ?tasks",
      OF validate_task_status_Inr [OF ids]]
    each_task_Inr [of ?tasks "validate_task_precedence (tasks_by_id ?tasks)"
      "\<lambda>t. \<forall>j \<in> set (ct_depends_on t). \<exists>p \<in> set ?tasks. ct_id p = j \<and> ct_order p < ct_order t", OF validate_task_precedence_Inr [OF ids]]
  have same: "p = q" if "p \<in> set ?tasks" "q \<in> set ?tasks" "ct_id p = ct_id q" for p q
    using that ids by (auto simp: task_ids_def distinct_map dest: inj_onD)
  have split: "predecessors_ok ?tasks t \<longleftrightarrow> predecessors_known ?tasks t \<and>
      (\<forall>j \<in> set (ct_depends_on t). \<exists>p \<in> set ?tasks. ct_id p = j \<and> ct_order p < ct_order t)" for t
  proof
    assume r: "predecessors_known ?tasks t \<and> (\<forall>j \<in> set (ct_depends_on t). \<exists>p \<in> set ?tasks. ct_id p = j \<and> ct_order p < ct_order t)"
    show "predecessors_ok ?tasks t"
      unfolding predecessors_ok_def
    proof
      fix j assume j: "j \<in> set (ct_depends_on t)"
      obtain p where p: "p \<in> set ?tasks" "ct_id p = j" "ct_status t = Completed \<longrightarrow> ct_status p = Completed"
        using r j by (auto simp: predecessors_known_def)
      obtain q where "q \<in> set ?tasks" "ct_id q = j" "ct_order q < ct_order t" using r j by blast
      then show "\<exists>p \<in> set ?tasks. ct_id p = j \<and> ct_order p < ct_order t \<and> (ct_status t = Completed \<longrightarrow> ct_status p = Completed)"
        using p same [of p q] by auto
    qed
  next
    assume "predecessors_ok ?tasks t"
    then show "predecessors_known ?tasks t \<and> (\<forall>j \<in> set (ct_depends_on t). \<exists>p \<in> set ?tasks. ct_id p = j \<and> ct_order p < ct_order t)"
      unfolding predecessors_ok_def predecessors_known_def by blast
  qed
  have ok: "topology_ok g \<longleftrightarrow> (\<forall>t \<in> set ?tasks. predecessors_ok ?tasks t)"
    using True by (auto simp: check_tasks_from_Inr topology_ok_def simp del: upt_Suc)
  show ?thesis
  proof (cases "\<forall>t \<in> set ?tasks. predecessors_known ?tasks t")
    case False
    then show ?thesis using True ok split checks(1) by (auto simp: validate_task_graph_topology_def Let_def res_bind_Inr)
  next
    case known: True
    have "resolved (tasks_by_id ?tasks)"
      using known task_lookup [OF ids] by (fastforce simp: resolved_def depends_def predecessors_known_def)
    then consider "find_task_cycle (tasks_by_id ?tasks) = Inr None"
      | c where "find_task_cycle (tasks_by_id ?tasks) = Inr (Some c)" "is_cycle (tasks_by_id ?tasks) c"
      using find_task_cycle_spec by blast
    then show ?thesis
    proof cases
      case 1
      then show ?thesis using True known ok split checks by (simp add: validate_task_graph_topology_def)
    next
      case 2
      then show ?thesis using True known ok ordered_acyclic [OF ids] checks(1)
        by (auto simp: validate_task_graph_topology_def Let_def res_bind_Inr)
    qed
  qed
qed

section \<open>Valid graphs\<close>

definition source_resolves :: "change_proposal \<Rightarrow> change_task \<Rightarrow> bool" where
  "source_resolves proposal t \<longleftrightarrow> (\<exists>a. find (\<lambda>a. oa_path a = ts_path (ct_source t)) (cp_openspec proposal) = Some a \<and>
     oa_role a = TasksArtifact \<and> oa_digest a = ts_digest (ct_source t) \<and> ts_line (ct_source t) \<le> length (py_splitlines (oa_text a)) \<and>
     map_option snd (match_openspec_task (py_splitlines (oa_text a) ! (ts_line (ct_source t) - 1))) = Some (number_of_task (ct_id t)))"

definition task_graph_ok :: "change_digests \<Rightarrow> behavior_delta \<Rightarrow> change_proposal \<Rightarrow> task_graph \<Rightarrow> bool" where
  "task_graph_ok D delta proposal g \<longleftrightarrow> tg_change_id g = de_change_id delta \<and> tg_delta g = behavior_delta_ref D delta \<and>
     topology_ok g \<and> set (actual_subjects g) = set (expected_subjects delta) \<and>
     (\<forall>t \<in> set (tg_tasks g). source_resolves proposal t)"

lemma validate_task_source_Inr: "validate_task_source proposal i t = Inr () \<longleftrightarrow> source_resolves proposal t"
  by (auto simp: validate_task_source_def source_resolves_def Let_def res_bind_Inr split: option.splits)

lemma validate_task_graph_Inr:
  "validate_task_graph D g delta proposal base final = Inr () \<longleftrightarrow>
     validate_behavior_delta D delta proposal base final = Inr () \<and> task_graph_ok D delta proposal g"
  using each_task_Inr [of "tg_tasks g" "validate_task_source proposal" "source_resolves proposal"]
  by (auto simp: validate_task_graph_def validate_task_graph_against_delta_def res_bind_Inr Let_def task_graph_ok_def
      validate_task_source_Inr validate_graph_topology_Inr)

section \<open>Completing tasks\<close>

definition completed_copy :: "string \<Rightarrow> change_task \<Rightarrow> change_task" where
  "completed_copy i t = (if ct_id t = i then t\<lparr>ct_status := Completed\<rparr> else t)"

lemma mark_completed_copy: "mark_completed i tasks = map (completed_copy i) tasks"
  by (simp add: mark_completed_def completed_copy_def)

lemma completed_copy_fields [simp]:
  "ct_id (completed_copy i t) = ct_id t" "ct_order (completed_copy i t) = ct_order t"
  "ct_depends_on (completed_copy i t) = ct_depends_on t" "ct_subjects (completed_copy i t) = ct_subjects t"
  "ct_source (completed_copy i t) = ct_source t"
  "ct_status (completed_copy i t) = (if ct_id t = i then Completed else ct_status t)"
  by (simp_all add: completed_copy_def)

lemma source_coordinate_copy [simp]: "source_coordinate (completed_copy i t) = source_coordinate t"
  by (simp add: source_coordinate_def)

lemma mark_completed_ok:
  assumes g: "task_graph_ok D delta proposal g"
    and t: "t \<in> set (tg_tasks g)" "ct_id t = i" "all_completed (tg_tasks g) (ct_depends_on t)"
  shows "task_graph_ok D delta proposal (g\<lparr>tg_tasks := mark_completed i (tg_tasks g)\<rparr>)"
proof -
  let ?tasks = "tg_tasks g"
  have ids: "distinct (task_ids ?tasks)" using g by (simp add: task_graph_ok_def topology_ok_def)
  have "predecessors_ok (map (completed_copy i) ?tasks) (completed_copy i x)" if x: "x \<in> set ?tasks" for x
    unfolding predecessors_ok_def
  proof
    fix j assume j: "j \<in> set (ct_depends_on (completed_copy i x))"
    then obtain p where p: "p \<in> set ?tasks" "ct_id p = j" "ct_order p < ct_order x" "ct_status x = Completed \<longrightarrow> ct_status p = Completed"
      using g x unfolding task_graph_ok_def topology_ok_def predecessors_ok_def by (metis completed_copy_fields(3))
    have "ct_status p = Completed" if "ct_status (completed_copy i x) = Completed"
    proof (cases "ct_id x = i")
      case True
      then have "x = t" using x t(1,2) ids by (auto simp: task_ids_def distinct_map dest: inj_onD)
      then obtain q where "q \<in> set ?tasks" "ct_id q = j" "ct_status q = Completed" using t(3) j by (auto simp: all_completed_def)
      then show ?thesis using p(1,2) ids by (auto simp: task_ids_def distinct_map dest: inj_onD)
    qed (use that p(4) in simp)
    then show "\<exists>p \<in> set (map (completed_copy i) ?tasks). ct_id p = j \<and> ct_order p < ct_order (completed_copy i x) \<and>
        (ct_status (completed_copy i x) = Completed \<longrightarrow> ct_status p = Completed)"
      using p by (intro bexI [of _ "completed_copy i p"]) auto
  qed
  moreover have "map ct_order (map (completed_copy i) ?tasks) = map ct_order ?tasks"
    "task_ids (map (completed_copy i) ?tasks) = task_ids ?tasks"
    by (simp_all add: task_ids_def)
  moreover have "source_resolves proposal (completed_copy i x) \<longleftrightarrow> source_resolves proposal x" for x
    by (simp add: source_resolves_def)
  ultimately show ?thesis
    using g by (simp add: task_graph_ok_def topology_ok_def mark_completed_copy actual_subjects_def comp_def del: upt_Suc)
qed

lemma graph_shape_ok: "task_graph_ok D delta proposal g \<Longrightarrow> validate_graph_shape g = Inr ()"
  by (auto simp: validate_graph_shape_def res_all_Inr task_graph_ok_def topology_ok_def task_ids_def behavior_delta_ref_def
      simp del: res_all.simps upt_Suc)

lemma complete_change_task_Inr:
  assumes valid: "validate_task_graph D g delta proposal base final = Inr ()"
  shows "complete_change_task D g i delta proposal base final = Inr g' \<longleftrightarrow>
    (\<exists>t \<in> set (tg_tasks g). ct_id t = i \<and> all_completed (tg_tasks g) (ct_depends_on t) \<and>
       g' = g\<lparr>tg_tasks := mark_completed i (tg_tasks g)\<rparr>)"
proof -
  have g: "task_graph_ok D delta proposal g" and delta: "validate_behavior_delta D delta proposal base final = Inr ()"
    using valid by (simp_all add: validate_task_graph_Inr)
  then have ids: "distinct (task_ids (tg_tasks g))" by (simp add: task_graph_ok_def topology_ok_def)
  note incomplete = incomplete_predecessors_Nil [OF ids]
  show ?thesis
  proof (cases "map_of (tasks_by_id (tg_tasks g)) i")
    case None
    then have "\<not> (t \<in> set (tg_tasks g) \<and> ct_id t = i)" for t using task_lookup [OF ids, of i t] by simp
    then show ?thesis using None valid by (auto simp: complete_change_task_def)
  next
    case (Some t)
    then have t: "t \<in> set (tg_tasks g)" "ct_id t = i" using task_lookup [OF ids] by auto
    then have only: "x \<in> set (tg_tasks g) \<and> ct_id x = i \<longleftrightarrow> x = t" for x
      using ids by (auto simp: task_ids_def distinct_map dest: inj_onD)
    have same: "g\<lparr>tg_tasks := mark_completed i (tg_tasks g)\<rparr> = g" if "ct_status t = Completed"
    proof -
      have "completed_copy i x = x" if "x \<in> set (tg_tasks g)" for x
        using that only [of x] \<open>ct_status t = Completed\<close> by (auto simp: completed_copy_def)
      then show ?thesis by (simp add: mark_completed_copy map_idI)
    qed
    have succ: "validate_task_graph D (g\<lparr>tg_tasks := mark_completed i (tg_tasks g)\<rparr>) delta proposal base final = Inr ()"
        "validate_graph_shape (g\<lparr>tg_tasks := mark_completed i (tg_tasks g)\<rparr>) = Inr ()"
      if "all_completed (tg_tasks g) (ct_depends_on t)"
      using mark_completed_ok [OF g t that] graph_shape_ok delta by (auto simp: validate_task_graph_Inr)
    have "complete_change_task D g i delta proposal base final = Inr g' \<longleftrightarrow>
        all_completed (tg_tasks g) (ct_depends_on t) \<and> g' = g\<lparr>tg_tasks := mark_completed i (tg_tasks g)\<rparr>"
    proof (cases "all_completed (tg_tasks g) (ct_depends_on t)")
      case True
      then show ?thesis using Some valid incomplete [of t] same succ [OF True]
        by (cases "ct_status t = Completed") (auto simp: complete_change_task_def Let_def res_bind_Inr)
    next
      case False
      then show ?thesis using Some valid incomplete [of t] by (simp add: complete_change_task_def Let_def res_bind_Inr)
    qed
    then show ?thesis using only by metis
  qed
qed

section \<open>Completing a graph step by step\<close>

inductive task_step ::
  "change_digests \<Rightarrow> behavior_delta \<Rightarrow> change_proposal \<Rightarrow> behavior_ir \<Rightarrow> behavior_ir \<Rightarrow> task_graph \<Rightarrow> task_graph \<Rightarrow> bool"
  for D delta proposal base final where
  complete: "complete_change_task D g i delta proposal base final = Inr g' \<Longrightarrow> task_step D delta proposal base final g g'"

inductive_cases task_stepE: "task_step D delta proposal base final g g'"

text \<open>The graph is the same but for the status of its tasks, and what was completed still is.\<close>

definition advanced_task :: "change_task \<Rightarrow> change_task \<Rightarrow> bool" where
  "advanced_task t t' \<longleftrightarrow> ct_id t' = ct_id t \<and> ct_order t' = ct_order t \<and> ct_depends_on t' = ct_depends_on t \<and>
     ct_subjects t' = ct_subjects t \<and> ct_source t' = ct_source t \<and> (ct_status t = Completed \<longrightarrow> ct_status t' = Completed)"

definition advanced :: "task_graph \<Rightarrow> task_graph \<Rightarrow> bool" where
  "advanced g g' \<longleftrightarrow> tg_change_id g' = tg_change_id g \<and> tg_delta g' = tg_delta g \<and>
     list_all2 advanced_task (tg_tasks g) (tg_tasks g')"

lemma advanced_refl: "advanced g g"
  by (simp add: advanced_def advanced_task_def list_all2_refl)

lemma advanced_trans: "advanced g g' \<Longrightarrow> advanced g' g'' \<Longrightarrow> advanced g g''"
  unfolding advanced_def using list_all2_trans [of advanced_task advanced_task advanced_task]
  by (auto simp: advanced_task_def)

lemma task_step_keeps:
  assumes "task_step D delta proposal base final g g'"
  shows "validate_task_graph D g' delta proposal base final = Inr ()" "advanced g g'"
proof -
  obtain i where i: "complete_change_task D g i delta proposal base final = Inr g'" using assms by (rule task_stepE)
  then have valid: "validate_task_graph D g delta proposal base final = Inr ()"
    by (auto simp: complete_change_task_def res_bind_Inr)
  then obtain t where t: "t \<in> set (tg_tasks g)" "ct_id t = i" "all_completed (tg_tasks g) (ct_depends_on t)"
      "g' = g\<lparr>tg_tasks := mark_completed i (tg_tasks g)\<rparr>"
    using i complete_change_task_Inr [OF valid] by blast
  show "validate_task_graph D g' delta proposal base final = Inr ()"
    using valid mark_completed_ok [OF _ t(1-3)] t(4) by (simp add: validate_task_graph_Inr)
  show "advanced g g'"
    by (simp add: advanced_def advanced_task_def t(4) mark_completed_copy list_all2_map2 list_all2_refl)
qed

interpretation task_runs: transition_system
    "\<lambda>g. g = g0 \<and> validate_task_graph D g delta proposal base final = Inr ()" "task_step D delta proposal base final"
    "\<lambda>g. validate_task_graph D g delta proposal base final = Inr () \<and> advanced g0 g" for D delta proposal base final g0
  by unfold_locales (use task_step_keeps advanced_refl advanced_trans in blast)+

lemma task_steps_keep:
  assumes "(task_step D delta proposal base final)\<^sup>*\<^sup>* g g'" "validate_task_graph D g delta proposal base final = Inr ()"
  shows "validate_task_graph D g' delta proposal base final = Inr () \<and> advanced g g'"
  using task_runs.inv_reachable [OF _ assms(1)] assms(2) by blast

lemma first_pending_ready:
  assumes g: "topology_ok g" "tg_tasks g = xs @ t # ys" and xs: "\<forall>x \<in> set xs. ct_status x = Completed"
  shows "all_completed (tg_tasks g) (ct_depends_on t)"
  unfolding all_completed_def
proof
  fix j assume "j \<in> set (ct_depends_on t)"
  then obtain p where p: "p \<in> set (tg_tasks g)" "ct_id p = j" "ct_order p < ct_order t"
    using g(1) in_set_conv_decomp [of t "tg_tasks g"] g(2) unfolding topology_ok_def predecessors_ok_def by blast
  have order: "ct_order (tg_tasks g ! k) = Suc k" if "k < length (tg_tasks g)" for k
  proof -
    have "map ct_order (tg_tasks g) ! k = [1..<Suc (length (tg_tasks g))] ! k" using g(1) by (simp only: topology_ok_def)
    then show ?thesis using that by (simp del: upt_Suc)
  qed
  obtain k where k: "k < length (tg_tasks g)" "p = tg_tasks g ! k" using p(1) by (auto simp: in_set_conv_nth)
  have "ct_order t = Suc (length xs)" using order [of "length xs"] g(2) by simp
  then have "k < length xs" using order [OF k(1)] k(2) p(3) by simp
  then have "p \<in> set xs" using k(2) g(2) by (simp add: nth_append)
  then show "\<exists>p \<in> set (tg_tasks g). ct_id p = j \<and> ct_status p = Completed" using p xs by blast
qed

lemma completable:
  assumes "validate_task_graph D g delta proposal base final = Inr ()"
  shows "\<exists>g'. (task_step D delta proposal base final)\<^sup>*\<^sup>* g g' \<and> (\<forall>t \<in> set (tg_tasks g'). ct_status t = Completed)"
  using assms
proof (induction "length (filter (\<lambda>t. ct_status t = Pending) (tg_tasks g))" arbitrary: g rule: less_induct)
  case less
  show ?case
  proof (cases "\<exists>t \<in> set (tg_tasks g). ct_status t = Pending")
    case False
    then have "ct_status t = Completed" if "t \<in> set (tg_tasks g)" for t using that by (cases "ct_status t") auto
    then show ?thesis by blast
  next
    case True
    then obtain xs t ys where split: "tg_tasks g = xs @ t # ys" "ct_status t = Pending" "\<forall>x \<in> set xs. ct_status x \<noteq> Pending"
      using split_list_first_prop [of "tg_tasks g" "\<lambda>t. ct_status t = Pending"] by blast
    have xs: "\<forall>x \<in> set xs. ct_status x = Completed"
    proof
      fix x assume "x \<in> set xs"
      then show "ct_status x = Completed" using split(3) by (cases "ct_status x") auto
    qed
    have "topology_ok g" using less.prems by (simp add: validate_task_graph_Inr task_graph_ok_def)
    then have ready: "all_completed (tg_tasks g) (ct_depends_on t)" using first_pending_ready split(1) xs by blast
    let ?g = "g\<lparr>tg_tasks := mark_completed (ct_id t) (tg_tasks g)\<rparr>"
    have "complete_change_task D g (ct_id t) delta proposal base final = Inr ?g"
      using complete_change_task_Inr [OF less.prems] ready split(1) by auto
    then have step: "task_step D delta proposal base final g ?g" by (rule task_step.intros)
    have "length (filter (\<lambda>t. ct_status t = Pending) (map (completed_copy i) ts)) \<le> length (filter (\<lambda>t. ct_status t = Pending) ts)" for i ts
      by (induction ts) auto
    then have "length (filter (\<lambda>t. ct_status t = Pending) (tg_tasks ?g)) < length (filter (\<lambda>t. ct_status t = Pending) (tg_tasks g))"
      using split(2) by (simp add: split(1) mark_completed_copy add_mono le_imp_less_Suc)
    then obtain g' where "(task_step D delta proposal base final)\<^sup>*\<^sup>* ?g g'" "\<forall>t \<in> set (tg_tasks g'). ct_status t = Completed"
      using less.hyps [of ?g] task_step_keeps(1) [OF step] by blast
    then show ?thesis using step by (meson converse_rtranclp_into_rtranclp)
  qed
qed

section \<open>The derived tasks\<close>

lemma number_of_task_id:
  assumes "\<forall>c \<in> set number. is_digit c \<or> c = CHR ''.''"
  shows "number_of_task (task_id_of number) = number"
proof -
  have "(if (if c = CHR ''.'' then CHR ''-'' else c) = CHR ''-'' then CHR ''.'' else if c = CHR ''.'' then CHR ''-'' else c) = c"
    if "c \<in> set number" for c
    using assms that by (auto simp: is_digit_def)
  then show ?thesis
    by (simp add: number_of_task_def task_id_of_def remove_prefix_def comp_def map_idI)
qed

lemma matched_number:
  assumes "match_openspec_task line = Some (mark, number)"
  shows "\<forall>c \<in> set number. is_digit c \<or> c = CHR ''.''"
proof -
  obtain s rest where "task_number s = Some (number, rest)"
    using assms by (auto simp: match_openspec_task_def split: list.splits if_splits)
  then show ?thesis by (auto simp: task_number_def Let_def dest: set_takeWhileD split: if_splits)
qed

definition line_match :: "nat \<times> string \<Rightarrow> (string \<times> nat \<times> task_status) option" where
  "line_match = (\<lambda>(line_number, line). map_option (\<lambda>(mark, number).
     (task_id_of number, line_number, if mark = CHR '' '' then Pending else Completed)) (match_openspec_task line))"

lemma parsed_line:
  assumes "(i, line, status) \<in> set (parse_task_lines text)"
  shows "1 \<le> line" "line \<le> length (py_splitlines text)"
    "map_option snd (match_openspec_task (py_splitlines text ! (line - 1))) = Some (number_of_task i)"
proof -
  let ?lines = "py_splitlines text"
  obtain p where p: "p \<in> set (zip [1..<Suc (length ?lines)] ?lines)" "line_match p = Some (i, line, status)"
    using assms by (auto simp: parse_task_lines_def line_match_def set_map_filter simp del: upt_Suc)
  then obtain k where k: "k < length ?lines" "p = (Suc k, ?lines ! k)" by (auto simp: set_zip simp del: upt_Suc)
  then obtain mark number where m: "match_openspec_task (?lines ! k) = Some (mark, number)" "i = task_id_of number" "line = Suc k"
    using p(2) by (auto simp: line_match_def)
  then show "1 \<le> line" "line \<le> length ?lines"
    "map_option snd (match_openspec_task (?lines ! (line - 1))) = Some (number_of_task i)"
    using k(1) number_of_task_id [OF matched_number [OF m(1)]] by simp_all
qed

lemma parsed_lines_distinct: "distinct (map (\<lambda>p. fst (snd p)) (parse_task_lines text))"
proof -
  have "map (\<lambda>p. fst (snd p)) (List.map_filter line_match ps) = map fst (filter (\<lambda>p. line_match p \<noteq> None) ps)" for ps
    by (induction ps) (auto simp: List.map_filter_simps line_match_def split: option.splits)
  moreover have "distinct (map fst (filter q (zip [1..<Suc n] xs)))" for q n and xs :: "string list"
    by (intro distinct_map_filter) (simp add: map_fst_zip_take del: upt_Suc)
  ultimately show ?thesis unfolding parse_task_lines_def line_match_def by simp
qed

definition dependencies_of :: "(string, string list) dict \<Rightarrow> string \<Rightarrow> string list" where
  "dependencies_of dependencies i = (case map_of dependencies i of None \<Rightarrow> [] | Some ts \<Rightarrow> ts)"

definition subjects_of :: "assignments \<Rightarrow> string \<Rightarrow> (string \<times> string \<times> string) list" where
  "subjects_of subjects i = map delta_subject_key (the (map_of subjects i))"

text \<open>The tasks of a list, their assigned subjects and their dependencies make a graph for a delta.\<close>

definition tasks_fit ::
  "behavior_delta \<Rightarrow> assignments \<Rightarrow> (string, string list) dict \<Rightarrow> (string \<times> nat \<times> task_status) list \<Rightarrow> bool" where
  "tasks_fit delta subjects dependencies parsed \<longleftrightarrow>
     parsed \<noteq> [] \<and> length parsed \<le> max_change_tasks \<and> distinct (map fst parsed) \<and>
     set (dict_keys subjects) = set (map fst parsed) \<and> set (dict_keys dependencies) \<subseteq> set (map fst parsed) \<and>
     (\<forall>i \<in> set (map fst parsed). subjects_of subjects i \<noteq> [] \<and> distinct (subjects_of subjects i)) \<and>
     (\<Union>i \<in> set (map fst parsed). set (subjects_of subjects i)) = set (expected_subjects delta) \<and>
     (\<forall>k < length parsed. distinct (dependencies_of dependencies (fst (parsed ! k))) \<and>
        (\<forall>j \<in> set (dependencies_of dependencies (fst (parsed ! k))). \<exists>m < k. fst (parsed ! m) = j \<and>
           (snd (snd (parsed ! k)) = Completed \<longrightarrow> snd (snd (parsed ! m)) = Completed)))"

definition tasks_from ::
  "openspec_artifact \<Rightarrow> assignments \<Rightarrow> (string, string list) dict \<Rightarrow> (string \<times> nat \<times> task_status) list \<Rightarrow> change_task list" where
  "tasks_from a subjects dependencies parsed =
     map (\<lambda>(order, p). task_of a subjects dependencies order p) (zip [1..<Suc (length parsed)] parsed)"

lemma strict_sort: "sorted_wrt (<) (sort xs) \<longleftrightarrow> distinct (xs :: 'a::linorder list)"
  by (simp add: strict_sorted_iff)

lemma keys_sort_key: "map f (sort_key f xs) = sort (map f xs)"
  using map_sort_key [of "\<lambda>x. x" f f xs] by simp

lemma task_of_fields:
  "ct_id (task_of a subjects dependencies n p) = fst p" "ct_order (task_of a subjects dependencies n p) = n"
  "ct_depends_on (task_of a subjects dependencies n p) = sort (dependencies_of dependencies (fst p))"
  "map delta_subject_key (ct_subjects (task_of a subjects dependencies n p)) = sort (subjects_of subjects (fst p))"
  "ct_status (task_of a subjects dependencies n p) = snd (snd p)"
  "source_coordinate (task_of a subjects dependencies n p) = (oa_path a, fst (snd p))"
  "ct_source (task_of a subjects dependencies n p) = \<lparr>ts_path = oa_path a, ts_digest = oa_digest a, ts_line = fst (snd p)\<rparr>"
  by (cases p; simp add: task_of_def dependencies_of_def subjects_of_def keys_sort_key source_coordinate_def)+

lemma tasks_from_nth:
  "length (tasks_from a subjects dependencies parsed) = length parsed"
  "k < length parsed \<Longrightarrow> tasks_from a subjects dependencies parsed ! k = task_of a subjects dependencies (Suc k) (parsed ! k)"
  by (simp_all add: tasks_from_def del: upt_Suc)

lemma map_tasks_from:
  assumes "\<And>n p. f (task_of a subjects dependencies n p) = g p"
  shows "map f (tasks_from a subjects dependencies parsed) = map g parsed"
  by (rule nth_equalityI) (simp_all add: tasks_from_nth assms)

lemma predecessors_from:
  assumes k: "k < length parsed" and tasks: "tasks = tasks_from a subjects dependencies parsed"
  shows "predecessors_ok tasks (tasks ! k) \<longleftrightarrow> (\<forall>j \<in> set (dependencies_of dependencies (fst (parsed ! k))).
    \<exists>m < k. fst (parsed ! m) = j \<and> (snd (snd (parsed ! k)) = Completed \<longrightarrow> snd (snd (parsed ! m)) = Completed))"
proof -
  have "(\<exists>p \<in> set tasks. ct_id p = j \<and> ct_order p < ct_order (tasks ! k) \<and> (ct_status (tasks ! k) = Completed \<longrightarrow> ct_status p = Completed)) \<longleftrightarrow>
      (\<exists>m < k. fst (parsed ! m) = j \<and> (snd (snd (parsed ! k)) = Completed \<longrightarrow> snd (snd (parsed ! m)) = Completed))" for j
  proof
    assume "\<exists>p \<in> set tasks. ct_id p = j \<and> ct_order p < ct_order (tasks ! k) \<and> (ct_status (tasks ! k) = Completed \<longrightarrow> ct_status p = Completed)"
    then obtain m where "m < length parsed" "ct_id (tasks ! m) = j" "ct_order (tasks ! m) < ct_order (tasks ! k)"
        "ct_status (tasks ! k) = Completed \<longrightarrow> ct_status (tasks ! m) = Completed"
      by (auto simp: in_set_conv_nth tasks tasks_from_nth(1))
    then show "\<exists>m < k. fst (parsed ! m) = j \<and> (snd (snd (parsed ! k)) = Completed \<longrightarrow> snd (snd (parsed ! m)) = Completed)"
      using k by (intro exI [of _ m]) (simp add: tasks tasks_from_nth(2) task_of_fields)
  next
    assume "\<exists>m < k. fst (parsed ! m) = j \<and> (snd (snd (parsed ! k)) = Completed \<longrightarrow> snd (snd (parsed ! m)) = Completed)"
    then obtain m where m: "m < k" "fst (parsed ! m) = j" "snd (snd (parsed ! k)) = Completed \<longrightarrow> snd (snd (parsed ! m)) = Completed"
      by blast
    then have "tasks ! m \<in> set tasks" using k by (simp add: tasks tasks_from_nth(1))
    then show "\<exists>p \<in> set tasks. ct_id p = j \<and> ct_order p < ct_order (tasks ! k) \<and> (ct_status (tasks ! k) = Completed \<longrightarrow> ct_status p = Completed)"
      using m k by (intro bexI [of _ "tasks ! m"]) (simp_all add: tasks tasks_from_nth(2) task_of_fields)
  qed
  then show ?thesis using k by (simp add: predecessors_ok_def tasks tasks_from_nth(2) task_of_fields)
qed

definition graph_from ::
  "change_digests \<Rightarrow> behavior_delta \<Rightarrow> change_proposal \<Rightarrow> openspec_artifact \<Rightarrow> assignments \<Rightarrow> (string, string list) dict \<Rightarrow> task_graph" where
  "graph_from D delta proposal a subjects dependencies =
     \<lparr>tg_change_id = cp_change_id proposal, tg_delta = behavior_delta_ref D delta,
      tg_tasks = tasks_from a subjects dependencies (parse_task_lines (oa_text a))\<rparr>"

lemma graph_from_ok:
  assumes a: "find (\<lambda>b. oa_path b = oa_path a) (cp_openspec proposal) = Some a" "oa_role a = TasksArtifact"
    and ids: "distinct (map fst (parse_task_lines (oa_text a)))" "de_change_id delta = cp_change_id proposal"
  shows "task_graph_ok D delta proposal (graph_from D delta proposal a subjects dependencies) \<longleftrightarrow>
    (\<forall>i \<in> set (map fst (parse_task_lines (oa_text a))). distinct (subjects_of subjects i)) \<and>
    (\<Union>i \<in> set (map fst (parse_task_lines (oa_text a))). set (subjects_of subjects i)) = set (expected_subjects delta) \<and>
    (\<forall>k < length (parse_task_lines (oa_text a)).
       distinct (dependencies_of dependencies (fst (parse_task_lines (oa_text a) ! k))) \<and>
       (\<forall>j \<in> set (dependencies_of dependencies (fst (parse_task_lines (oa_text a) ! k))). \<exists>m < k.
          fst (parse_task_lines (oa_text a) ! m) = j \<and> (snd (snd (parse_task_lines (oa_text a) ! k)) = Completed \<longrightarrow>
            snd (snd (parse_task_lines (oa_text a) ! m)) = Completed)))"
proof -
  define parsed where "parsed = parse_task_lines (oa_text a)"
  define tasks where "tasks = tasks_from a subjects dependencies parsed"
  have orders: "map ct_order tasks = [1..<Suc (length tasks)]"
    by (rule nth_equalityI) (simp_all add: tasks_def tasks_from_nth task_of_fields del: upt_Suc)
  have lengths: "length tasks = length parsed" by (simp add: tasks_def tasks_from_nth)
  have "map ct_id tasks = map fst parsed" unfolding tasks_def by (rule map_tasks_from) (simp add: task_of_fields)
  then have task_ids: "distinct (task_ids tasks)" using ids(1) by (simp add: task_ids_def parsed_def)
  have "map source_coordinate tasks = map (\<lambda>p. (oa_path a, fst (snd p))) parsed"
    unfolding tasks_def by (rule map_tasks_from) (simp add: task_of_fields)
  then have coordinates: "distinct (map source_coordinate tasks)"
    using parsed_lines_distinct [of "oa_text a"] by (simp add: distinct_map inj_on_def parsed_def)
  have sources: "source_resolves proposal t" if t: "t \<in> set tasks" for t
  proof -
    obtain k where k: "k < length parsed" "t = tasks ! k" using t lengths by (auto simp: in_set_conv_nth)
    obtain i line status where p: "parsed ! k = (i, line, status)" by (cases "parsed ! k")
    then have "(i, line, status) \<in> set (parse_task_lines (oa_text a))" using k(1) unfolding parsed_def by (metis nth_mem)
    from parsed_line [OF this] show ?thesis
      using a k(1) p by (simp add: source_resolves_def k(2) tasks_def tasks_from_nth(2) task_of_fields)
  qed
  have keys: "map (\<lambda>t. map delta_subject_key (ct_subjects t)) tasks = map (\<lambda>p. sort (subjects_of subjects (fst p))) parsed"
    unfolding tasks_def by (rule map_tasks_from) (simp add: task_of_fields)
  have covered: "set (concat (map (\<lambda>t. map delta_subject_key (ct_subjects t)) tasks)) =
      (\<Union>i \<in> set (map fst parsed). set (subjects_of subjects i))" unfolding keys by simp
  have each: "(\<forall>t \<in> set tasks. sorted_wrt (<) (ct_depends_on t) \<and> sorted_wrt (<) (map delta_subject_key (ct_subjects t)) \<and>
        predecessors_ok tasks t) \<longleftrightarrow>
      (\<forall>i \<in> set (map fst parsed). distinct (subjects_of subjects i)) \<and>
      (\<forall>k < length parsed. distinct (dependencies_of dependencies (fst (parsed ! k))) \<and>
        (\<forall>j \<in> set (dependencies_of dependencies (fst (parsed ! k))). \<exists>m < k. fst (parsed ! m) = j \<and>
          (snd (snd (parsed ! k)) = Completed \<longrightarrow> snd (snd (parsed ! m)) = Completed)))"
    unfolding all_set_conv_all_nth [of tasks] all_set_conv_all_nth [of "map fst parsed"] lengths length_map
    using predecessors_from [OF _ tasks_def] by (auto simp: tasks_def tasks_from_nth(2) task_of_fields strict_sort)
  show ?thesis
    using orders task_ids coordinates sources covered each ids(2)
    by (auto simp: task_graph_ok_def topology_ok_def graph_from_def actual_subjects_def tasks_def [symmetric]
        simp del: upt_Suc simp flip: parsed_def)
qed

lemma delta_change_id:
  "validate_behavior_delta D delta proposal base final = Inr () \<Longrightarrow> de_change_id delta = cp_change_id proposal"
  by (auto simp: validate_behavior_delta_def res_bind_Inr res_all_Inr Let_def simp del: res_all.simps)

lemma find_only:
  assumes "distinct (map oa_path as)" "filter (\<lambda>a. oa_role a = TasksArtifact) as = [a]"
  shows "find (\<lambda>b. oa_path b = oa_path a) as = Some a" "oa_role a = TasksArtifact"
proof -
  have "a \<in> set (filter (\<lambda>a. oa_role a = TasksArtifact) as)" unfolding assms(2) by simp
  then have a: "a \<in> set as" "oa_role a = TasksArtifact" by auto
  show "oa_role a = TasksArtifact" by (rule a(2))
  show "find (\<lambda>b. oa_path b = oa_path a) as = Some a"
    using a(1) assms(1) by (induction as) (auto simp: image_iff)
qed

lemma check_assignments_Inr:
  assumes "wf_dict subjects"
  shows "check_assignments subjects = Inr () \<longleftrightarrow> (\<forall>i \<in> set (dict_keys subjects). subjects_of subjects i \<noteq> [])"
proof -
  have "the (map_of subjects i) = ss" if "(i, ss) \<in> set subjects" for i ss
    using that assms by (simp add: wf_dict_def)
  then show ?thesis by (force simp: check_assignments_def res_all_Inr subjects_of_def)
qed

lemma derive_task_graph_Inr:
  assumes wf: "wf_dict subjects" "distinct (map oa_path (cp_openspec proposal))"
  shows "derive_task_graph D proposal delta base final subjects dependencies = Inr g \<longleftrightarrow>
    validate_behavior_delta D delta proposal base final = Inr () \<and>
    (\<exists>a. filter (\<lambda>a. oa_role a = TasksArtifact) (cp_openspec proposal) = [a] \<and>
       tasks_fit delta subjects dependencies (parse_task_lines (oa_text a)) \<and>
       g = graph_from D delta proposal a subjects dependencies)"
proof (cases "validate_behavior_delta D delta proposal base final = Inr () \<and>
    (\<exists>a. filter (\<lambda>a. oa_role a = TasksArtifact) (cp_openspec proposal) = [a])")
  case False
  then show ?thesis
    by (auto simp: derive_task_graph_def res_bind_Inr Let_def validate_task_graph_Inr split: list.splits sum.splits)
next
  case True
  then obtain a where a: "filter (\<lambda>a. oa_role a = TasksArtifact) (cp_openspec proposal) = [a]"
    and delta: "validate_behavior_delta D delta proposal base final = Inr ()" by blast
  let ?parsed = "parse_task_lines (oa_text a)" and ?g = "graph_from D delta proposal a subjects dependencies"
  have graph: "\<lparr>tg_change_id = cp_change_id proposal, tg_delta = behavior_delta_ref D delta,
      tg_tasks = map (\<lambda>(order, p). task_of a subjects dependencies order p) (zip [1..<Suc (length ?parsed)] ?parsed)\<rparr> = ?g"
    by (simp add: graph_from_def tasks_from_def)
  have checked: "check_parsed ?parsed subjects dependencies = Inr () \<longleftrightarrow> length ?parsed \<le> max_change_tasks \<and> ?parsed \<noteq> [] \<and>
      distinct (map fst ?parsed) \<and> set (dict_keys subjects) = set (map fst ?parsed) \<and>
      set (dict_keys dependencies) \<subseteq> set (map fst ?parsed)"
    by (auto simp: check_parsed_def Let_def res_all_Inr simp del: res_all.simps set_map)
  have shape: "task_graph_ok D delta proposal ?g \<Longrightarrow> validate_graph_shape ?g = Inr ()" by (rule graph_shape_ok)
  have rest: "(case validate_graph_shape ?g of Inl m \<Rightarrow> Inl (LifecycleError LcInvalidStructure m ''$.tasks'')
      | Inr _ \<Rightarrow> res_bind (validate_task_graph D ?g delta proposal base final) (\<lambda>_. Inr ?g)) = Inr g \<longleftrightarrow>
      task_graph_ok D delta proposal ?g \<and> g = ?g"
    using shape delta by (cases "validate_graph_shape ?g") (auto simp: res_bind_Inr validate_task_graph_Inr)
  have "derive_task_graph D proposal delta base final subjects dependencies = Inr g \<longleftrightarrow>
      check_assignments subjects = Inr () \<and> check_parsed ?parsed subjects dependencies = Inr () \<and>
      task_graph_ok D delta proposal ?g \<and> g = ?g"
    unfolding derive_task_graph_def a list.case Let_def graph res_bind_Inr rest by auto
  also have "\<dots> \<longleftrightarrow> tasks_fit delta subjects dependencies ?parsed \<and> g = ?g"
    unfolding check_assignments_Inr [OF wf(1)] checked tasks_fit_def
    using graph_from_ok [OF find_only [OF wf(2) a] _ delta_change_id [OF delta], of D subjects dependencies] by metis
  finally show ?thesis using a delta by auto
qed

section \<open>An example\<close>

definition ex_artifact :: openspec_artifact where
  "ex_artifact = \<lparr>oa_path = ''changes/chg/tasks.md'', oa_role = TasksArtifact,
     oa_text = ''# Tasks'' @ [CHR 0x0A] @ ''- [x] 1.1 Model'' @ [CHR 0x0A] @ ''* [ ]  1.2 Test'' @ [CHR 0x0D, CHR 0x0A] @ ''done'',
     oa_digest = ''0''\<rparr>"

definition ex_task_proposal :: change_proposal where
  "ex_task_proposal = ex_proposal\<lparr>cp_openspec := [ex_artifact]\<rparr>"

definition ex_assignments :: assignments where
  "ex_assignments = [(''task.1-1'', [\<lparr>ds_operation = ''modified'', ds_target = (''use_case'', ''uc'')\<rparr>]),
     (''task.1-2'', [\<lparr>ds_operation = ''modified'', ds_target = (''use_case'', ''uc'')\<rparr>])]"

definition ex_dependencies :: "(string, string list) dict" where
  "ex_dependencies = [(''task.1-2'', [''task.1-1''])]"

definition ex_graph :: task_graph where
  "ex_graph = graph_from ex_change_digests ex_delta ex_task_proposal ex_artifact ex_assignments ex_dependencies"

lemma ex_parsed:
  "parse_task_lines (oa_text ex_artifact) = [(''task.1-1'', 2, Completed), (''task.1-2'', 3, Pending)]"
  by code_simp

lemma ex_task_delta:
  "validate_behavior_delta ex_change_digests ex_delta ex_task_proposal (ex_behavior 1 []) (ex_behavior 2 []) = Inr ()"
  by code_simp

lemma ex_expected: "expected_subjects ex_delta = [(''modified'', ''use_case'', ''uc'')]"
  by code_simp

lemma ex_fit: "tasks_fit ex_delta ex_assignments ex_dependencies (parse_task_lines (oa_text ex_artifact))"
  unfolding tasks_fit_def ex_parsed ex_expected
  by (auto simp: max_change_tasks_def ex_assignments_def ex_dependencies_def subjects_of_def delta_subject_key_def
      dependencies_of_def less_Suc_eq)

lemma ex_wf: "wf_dict ex_assignments" "distinct (map oa_path (cp_openspec ex_task_proposal))"
  by (simp_all add: ex_assignments_def wf_dict_def ex_task_proposal_def)

lemma ex_graph_valid:
  "validate_task_graph ex_change_digests ex_graph ex_delta ex_task_proposal (ex_behavior 1 []) (ex_behavior 2 []) = Inr ()"
proof -
  have "derive_task_graph ex_change_digests ex_task_proposal ex_delta (ex_behavior 1 []) (ex_behavior 2 []) ex_assignments
      ex_dependencies = Inr ex_graph"
    unfolding derive_task_graph_Inr [OF ex_wf] using ex_task_delta ex_fit
    by (auto simp: ex_graph_def ex_task_proposal_def ex_artifact_def)
  then show ?thesis
    by (auto simp: derive_task_graph_def res_bind_Inr Let_def validate_task_graph_Inr split: list.splits sum.splits)
qed

section \<open>Properties\<close>

text \<open>
  C26: The search for a cycle ends. When every dependency is a task it finds nothing exactly when the
  dependencies have no cycle, and what it returns otherwise is a cycle: each task of it depends on the
  next one, and the last is the first.
\<close>

theorem task_cycle_exact:
  assumes "resolved tasks"
  shows "(find_task_cycle tasks = Inr None \<longleftrightarrow> (\<nexists>c. is_cycle tasks c)) \<and>
    (find_task_cycle tasks \<noteq> Inr None \<longrightarrow> (\<exists>c. find_task_cycle tasks = Inr (Some c) \<and> is_cycle tasks c))"
  using find_task_cycle_spec [OF assms] by auto

theorem task_cycle_exact_witness: "find_task_cycle (tasks_by_id (tg_tasks ex_graph)) = Inr None"
proof -
  have ok: "topology_ok ex_graph" using ex_graph_valid by (simp add: validate_task_graph_Inr task_graph_ok_def)
  then have ids: "distinct (task_ids (tg_tasks ex_graph))" by (simp add: topology_ok_def)
  have "resolved (tasks_by_id (tg_tasks ex_graph))"
    using ok task_lookup [OF ids] unfolding resolved_def depends_def topology_ok_def predecessors_ok_def by fastforce
  then show ?thesis using task_cycle_exact ordered_acyclic [OF ids] ok unfolding topology_ok_def by blast
qed

text \<open>
  C27: A task graph is valid exactly when its delta is, it belongs to the delta, its tasks are numbered
  from 1 with distinct identities and sources, their dependencies and subjects are in order, every
  dependency comes before its task and is completed when the task is, together they cover exactly the
  subjects of the delta, and every source is the line of the task in the task list.
\<close>

theorem task_graph_exact:
  "validate_task_graph D g delta proposal base final = Inr () \<longleftrightarrow>
     validate_behavior_delta D delta proposal base final = Inr () \<and>
     tg_change_id g = de_change_id delta \<and> tg_delta g = behavior_delta_ref D delta \<and> topology_ok g \<and>
     set (actual_subjects g) = set (expected_subjects delta) \<and> list_all (source_resolves proposal) (tg_tasks g)"
  by (simp only: validate_task_graph_Inr task_graph_ok_def list_all_iff)

text \<open>
  A task graph can be derived exactly when the delta is valid, there is one task list, and its tasks
  with the given subjects and dependencies fit: distinct numbers, subjects for every task that cover the
  delta, dependencies on earlier tasks only. The graph is then the one of these tasks, in their order.
\<close>

theorem task_derivation_exact:
  assumes "wf_dict subjects" and "distinct (map oa_path (cp_openspec proposal))"
  shows "derive_task_graph D proposal delta base final subjects dependencies = Inr g \<longleftrightarrow>
    validate_behavior_delta D delta proposal base final = Inr () \<and>
    (\<exists>a. filter (\<lambda>a. oa_role a = TasksArtifact) (cp_openspec proposal) = [a] \<and>
       tasks_fit delta subjects dependencies (parse_task_lines (oa_text a)) \<and>
       g = graph_from D delta proposal a subjects dependencies)"
  by (rule derive_task_graph_Inr [OF assms])

theorem task_derivation_exact_witness:
  "derive_task_graph ex_change_digests ex_task_proposal ex_delta (ex_behavior 1 []) (ex_behavior 2 []) ex_assignments
     ex_dependencies = Inr ex_graph"
  unfolding task_derivation_exact [OF ex_wf] using ex_task_delta ex_fit
  by (auto simp: ex_graph_def ex_task_proposal_def ex_artifact_def)

text \<open>
  C28: Completing tasks in any order keeps a graph valid and takes back nothing: only the status of tasks
  changes, and only from pending to completed. And however far one has come, all tasks can be completed.
\<close>

theorem tasks_completable:
  assumes "validate_task_graph D g delta proposal base final = Inr ()" and "(task_step D delta proposal base final)\<^sup>*\<^sup>* g g'"
  shows "validate_task_graph D g' delta proposal base final = Inr () \<and> advanced g g' \<and>
    (\<exists>g''. (task_step D delta proposal base final)\<^sup>*\<^sup>* g' g'' \<and> list_all (\<lambda>t. ct_status t = Completed) (tg_tasks g''))"
  using task_steps_keep [OF assms(2,1)] completable [of D g' delta proposal base final] by (auto simp: list_all_iff)

theorem tasks_completable_witness:
  "\<exists>g. (task_step ex_change_digests ex_delta ex_task_proposal (ex_behavior 1 []) (ex_behavior 2 []))\<^sup>*\<^sup>* ex_graph g \<and>
     list_all (\<lambda>t. ct_status t = Completed) (tg_tasks g)"
  using tasks_completable [OF ex_graph_valid rtranclp.rtrancl_refl] by blast

end
