(* ===== verification/Change_Archive.thy ===== *)
theory Change_Archive
  imports Task_Graph Impact_Exact
begin

text \<open>
  The rest of a change's life, \<^verbatim>\<open>src/ucf/change_lifecycle/validation.py\<close>: binding execution evidence
  to the subjects of a delta, the implementation record, the verification record and the archive
  record. The validation of an evidence result in its context belongs to \<^verbatim>\<open>implementation_evidence\<close>
  and is a parameter, like the receipt made of its digests; what the lifecycle does not read of a
  result or a context is kept as JSON. Documents are instances of their models.
\<close>

section \<open>Evidence\<close>

record evidence_result =
  vr_subject :: behavior_entity_ref
  vr_base_behavior :: behavior_ref
  vr_outcome :: string
  vr_fields :: json

record evidence_context =
  ec_result :: evidence_result
  ec_fields :: json

text \<open>
  What validating a result in its context raises, if anything; the receipt of a context; and SHA-256 of
  the canonical JSON of a document.
\<close>

record evidence_procedures =
  ep_invalid :: "evidence_context \<Rightarrow> string option"
  ep_receipt :: "evidence_context \<Rightarrow> json"

record evidence_binding =
  eb_subject :: delta_subject
  eb_result :: evidence_result
  eb_validation :: json

record implementation_record =
  ip_change_id :: string
  ip_tasks :: change_ref
  ip_bindings :: "evidence_binding list"

record verification_record =
  vf_change_id :: string
  vf_implementation :: change_ref
  vf_subjects :: "delta_subject list"

record archive_record =
  ar_change_id :: string
  ar_proposal :: change_ref
  ar_delta :: change_ref
  ar_tasks :: change_ref
  ar_implementation :: change_ref
  ar_verification :: change_ref
  ar_final_behavior :: behavior_ir

record lifecycle_digests =
  ld_tasks :: "task_graph \<Rightarrow> string"
  ld_implementation :: "implementation_record \<Rightarrow> string"
  ld_verification :: "verification_record \<Rightarrow> string"

definition task_graph_ref :: "lifecycle_digests \<Rightarrow> task_graph \<Rightarrow> change_ref" where
  "task_graph_ref L g = \<lparr>cf_change_id = tg_change_id g, cf_digest = ld_tasks L g\<rparr>"

definition implementation_record_ref :: "lifecycle_digests \<Rightarrow> implementation_record \<Rightarrow> change_ref" where
  "implementation_record_ref L r = \<lparr>cf_change_id = ip_change_id r, cf_digest = ld_implementation L r\<rparr>"

definition verification_record_ref :: "lifecycle_digests \<Rightarrow> verification_record \<Rightarrow> change_ref" where
  "verification_record_ref L r = \<lparr>cf_change_id = vf_change_id r, cf_digest = ld_verification L r\<rparr>"

definition max_evidence_contexts :: nat where
  "max_evidence_contexts = 256"

definition validate_evidence_contexts :: "evidence_context list \<Rightarrow> (lifecycle_error, unit) res" where
  "validate_evidence_contexts contexts = lifecycle_check (length contexts \<le> max_evidence_contexts) LcInvalidStructure
     (''evidence contexts exceed the '' @ show_nat max_evidence_contexts @ ''-binding limit'') ''$.evidence_contexts''"

definition context_location :: "nat \<Rightarrow> string \<Rightarrow> string" where
  "context_location i rest = ''$.evidence_contexts['' @ show_nat i @ '']'' @ rest"

fun evidence_subject :: "delta_entry \<Rightarrow> (lifecycle_error, behavior_entity_ref) res" where
  "evidence_subject (AddedBehavior f r) = Inr f"
| "evidence_subject (ModifiedBehavior b f as br fr) = Inr f"
| "evidence_subject (RemovedBehavior b r) = Inl (LifecycleAssertion ''removed behavior must be rejected before evidence binding'')"

definition is_removed :: "delta_entry \<Rightarrow> bool" where
  "is_removed e = (case e of RemovedBehavior b r \<Rightarrow> True | _ \<Rightarrow> False)"

definition reject_removed :: "behavior_delta \<Rightarrow> (lifecycle_error, unit) res" where
  "reject_removed delta = res_all (\<lambda>(i, e). lifecycle_check (\<not> is_removed e) LcUnsupportedEvidenceProfile
     ''removed behavior requires final-state absence evidence; base-subject execution evidence is not accepted''
     (''$.entries['' @ show_nat i @ '']'')) (zip [0..<length (de_entries delta)] (de_entries delta))"

type_synonym subject_key3 = "string \<times> string \<times> string"

type_synonym expected_evidence = "(subject_key3, delta_subject \<times> behavior_entity_ref) dict"

definition expected_evidence :: "behavior_delta \<Rightarrow> (lifecycle_error, expected_evidence) res" where
  "expected_evidence delta =
     res_bind (res_map (\<lambda>e. res_bind (evidence_subject e) (\<lambda>s.
       Inr (delta_subject_key (delta_subject_ref e), delta_subject_ref e, s))) (de_entries delta)) (\<lambda>ps. Inr (dict_of ps))"

definition bind_context ::
  "evidence_procedures \<Rightarrow> expected_evidence \<Rightarrow> subject_key3 list \<Rightarrow> nat \<Rightarrow> evidence_context \<Rightarrow>
     (lifecycle_error, subject_key3 \<times> evidence_binding) res" where
  "bind_context P expected used i context =
     (let result = ec_result context in
      case ep_invalid P context of
        Some m \<Rightarrow> Inl (LifecycleError LcEvidenceContextInvalid (''execution evidence context is not valid: '' @ m) (context_location i []))
      | None \<Rightarrow>
          (case filter (\<lambda>(k, r, s). vr_subject result = s) expected of
             [(key, subject_ref, subject)] \<Rightarrow>
               res_bind (lifecycle_check (vr_base_behavior result = bl_document subject) LcDocumentIdentityMismatch
                 ''execution evidence binds the wrong behavior document'' (context_location i ''.result.request.base_behavior'')) (\<lambda>_.
               res_bind (lifecycle_check (key \<notin> set used) LcDuplicateIdentity
                 ''multiple evidence results bind one delta subject'' (context_location i [])) (\<lambda>_.
               Inr (key, \<lparr>eb_subject = subject_ref, eb_result = result, eb_validation = ep_receipt P context\<rparr>)))
           | _ \<Rightarrow> Inl (LifecycleError LcBrokenReference ''execution evidence subject does not resolve to one delta entry''
               (context_location i ''.result.request.subject''))))"

fun bind_contexts ::
  "evidence_procedures \<Rightarrow> expected_evidence \<Rightarrow> subject_key3 list \<Rightarrow> nat \<Rightarrow> evidence_context list \<Rightarrow>
     (lifecycle_error, subject_key3 list \<times> evidence_binding list) res" where
  "bind_contexts P expected used i [] = Inr (used, [])"
| "bind_contexts P expected used i (context # contexts) =
     res_bind (bind_context P expected used i context) (\<lambda>(key, binding).
     res_bind (bind_contexts P expected (key # used) (Suc i) contexts) (\<lambda>(used', bindings).
     Inr (used', binding # bindings)))"

definition binding_key :: "evidence_binding \<Rightarrow> subject_key3" where
  "binding_key b = delta_subject_key (eb_subject b)"

definition bind_implementation_evidence ::
  "evidence_procedures \<Rightarrow> behavior_delta \<Rightarrow> evidence_context list \<Rightarrow> (lifecycle_error, evidence_binding list) res" where
  "bind_implementation_evidence P delta contexts =
     res_bind (reject_removed delta) (\<lambda>_.
     res_bind (expected_evidence delta) (\<lambda>expected.
     res_bind (bind_contexts P expected [] 0 contexts) (\<lambda>(used, bindings).
     res_bind (lifecycle_check (set used = set (dict_keys expected)) LcIncompleteCoverage
       ''implementation evidence does not cover every delta subject'' ''$.evidence_contexts'') (\<lambda>_.
     Inr (sort_key binding_key bindings)))))"

section \<open>The implementation record\<close>

definition require_completed_tasks :: "task_graph \<Rightarrow> (lifecycle_error, unit) res" where
  "require_completed_tasks g =
     (let incomplete = map ct_id (filter (\<lambda>t. ct_status t \<noteq> Completed) (tg_tasks g)) in
      lifecycle_check (incomplete = []) LcIncompleteTasks
        (''implementation requires completed tasks: '' @ repr_str_tuple incomplete) ''$.tasks'')"

definition implementation_shape :: "implementation_record \<Rightarrow> (string, unit) res" where
  "implementation_shape r =
     (let keys = map binding_key (ip_bindings r) in res_all (\<lambda>(c, m). require c m)
       [(ip_bindings r \<noteq> [] \<and> length (ip_bindings r) \<le> 256, ''length''),
        (cf_change_id (ip_tasks r) = ip_change_id r, ''implementation record change ID differs from its tasks''),
        (distinct keys, ''implementation record contains duplicate delta subjects''),
        (keys = sort keys, ''implementation bindings are not in canonical order'')])"

definition verification_shape :: "verification_record \<Rightarrow> (string, unit) res" where
  "verification_shape r =
     (let keys = map delta_subject_key (vf_subjects r) in res_all (\<lambda>(c, m). require c m)
       [(vf_subjects r \<noteq> [] \<and> length (vf_subjects r) \<le> 256, ''length''),
        (cf_change_id (vf_implementation r) = vf_change_id r, ''verification record change ID differs from implementation''),
        (distinct keys, ''verification record contains duplicate subjects''),
        (keys = sort keys, ''verification subjects are not in canonical order'')])"

definition archive_shape :: "archive_record \<Rightarrow> (string, unit) res" where
  "archive_shape r = require (\<forall>ref \<in> {ar_proposal r, ar_delta r, ar_tasks r, ar_implementation r, ar_verification r}.
     cf_change_id ref = ar_change_id r) ''archive predecessor change IDs are not identical''"

definition model_error :: "(string, unit) res \<Rightarrow> (lifecycle_error, unit) res" where
  "model_error r = (case r of Inl m \<Rightarrow> Inl (LifecycleModelError m) | Inr _ \<Rightarrow> Inr ())"

text \<open>The documents that the records of a change belong to, and the parameters.\<close>

record life =
  lf_digests :: change_digests
  lf_lifecycle :: lifecycle_digests
  lf_procedures :: evidence_procedures
  lf_proposal :: change_proposal
  lf_delta :: behavior_delta
  lf_base :: behavior_ir
  lf_final :: behavior_ir
  lf_contexts :: "evidence_context list"

definition validate_tasks :: "life \<Rightarrow> task_graph \<Rightarrow> (lifecycle_error, unit) res" where
  "validate_tasks x g = validate_task_graph (lf_digests x) g (lf_delta x) (lf_proposal x) (lf_base x) (lf_final x)"

definition derive_implementation_record :: "life \<Rightarrow> task_graph \<Rightarrow> (lifecycle_error, implementation_record) res" where
  "derive_implementation_record x g =
     res_bind (validate_evidence_contexts (lf_contexts x)) (\<lambda>_.
     res_bind (validate_tasks x g) (\<lambda>_.
     res_bind (require_completed_tasks g) (\<lambda>_.
     res_bind (bind_implementation_evidence (lf_procedures x) (lf_delta x) (lf_contexts x)) (\<lambda>bindings.
     let r = \<lparr>ip_change_id = tg_change_id g, ip_tasks = task_graph_ref (lf_lifecycle x) g, ip_bindings = bindings\<rparr> in
     res_bind (model_error (implementation_shape r)) (\<lambda>_. Inr r)))))"

definition validate_implementation_record :: "life \<Rightarrow> implementation_record \<Rightarrow> task_graph \<Rightarrow> (lifecycle_error, unit) res" where
  "validate_implementation_record x r g =
     res_bind (validate_evidence_contexts (lf_contexts x)) (\<lambda>_.
     res_bind (validate_tasks x g) (\<lambda>_.
     res_bind (require_completed_tasks g) (\<lambda>_.
     res_bind (lifecycle_check (ip_change_id r = tg_change_id g) LcBrokenReference
       ''implementation record change ID differs from the task graph'' ''$.change_id'') (\<lambda>_.
     res_bind (lifecycle_check (ip_tasks r = task_graph_ref (lf_lifecycle x) g) LcContentIdentityMismatch
       ''implementation task reference is stale or fabricated'' ''$.tasks'') (\<lambda>_.
     res_bind (bind_implementation_evidence (lf_procedures x) (lf_delta x) (lf_contexts x)) (\<lambda>expected.
     lifecycle_check (ip_bindings r = expected) LcContentIdentityMismatch
       ''implementation evidence bindings are not exact'' ''$.bindings''))))))"

section \<open>The verification record\<close>

definition require_passing_evidence :: "implementation_record \<Rightarrow> (lifecycle_error, unit) res" where
  "require_passing_evidence r =
     (let nonpassing = map (\<lambda>b. snd (ds_target (eb_subject b))) (filter (\<lambda>b. vr_outcome (eb_result b) \<noteq> ''passed'') (ip_bindings r)) in
      lifecycle_check (nonpassing = []) LcEvidenceNotPassed
        (''verification requires passing evidence: '' @ repr_str_tuple nonpassing) ''$.bindings'')"

definition derive_verification_record ::
  "life \<Rightarrow> implementation_record \<Rightarrow> task_graph \<Rightarrow> (lifecycle_error, verification_record) res" where
  "derive_verification_record x r g =
     res_bind (validate_implementation_record x r g) (\<lambda>_.
     res_bind (require_passing_evidence r) (\<lambda>_.
     let v = \<lparr>vf_change_id = ip_change_id r, vf_implementation = implementation_record_ref (lf_lifecycle x) r,
              vf_subjects = map eb_subject (ip_bindings r)\<rparr> in
     res_bind (model_error (verification_shape v)) (\<lambda>_. Inr v)))"

definition validate_verification_record ::
  "life \<Rightarrow> verification_record \<Rightarrow> implementation_record \<Rightarrow> task_graph \<Rightarrow> (lifecycle_error, unit) res" where
  "validate_verification_record x v r g =
     res_bind (validate_implementation_record x r g) (\<lambda>_.
     res_all id
       [require_passing_evidence r,
        lifecycle_check (vf_change_id v = ip_change_id r) LcBrokenReference
          ''verification change ID differs from implementation'' ''$.change_id'',
        lifecycle_check (vf_implementation v = implementation_record_ref (lf_lifecycle x) r) LcContentIdentityMismatch
          ''verification implementation reference is stale or fabricated'' ''$.implementation'',
        lifecycle_check (vf_subjects v = map eb_subject (ip_bindings r)) LcIncompleteCoverage
          ''verification subjects differ from accepted evidence'' ''$.subjects''])"

section \<open>The archive record\<close>

definition archive_of ::
  "life \<Rightarrow> task_graph \<Rightarrow> implementation_record \<Rightarrow> verification_record \<Rightarrow> behavior_ir \<Rightarrow> archive_record" where
  "archive_of x g r v final =
     \<lparr>ar_change_id = cp_change_id (lf_proposal x), ar_proposal = change_proposal_ref (lf_digests x) (lf_proposal x),
      ar_delta = behavior_delta_ref (lf_digests x) (lf_delta x), ar_tasks = task_graph_ref (lf_lifecycle x) g,
      ar_implementation = implementation_record_ref (lf_lifecycle x) r,
      ar_verification = verification_record_ref (lf_lifecycle x) v, ar_final_behavior = final\<rparr>"

definition derive_archive_record ::
  "life \<Rightarrow> task_graph \<Rightarrow> implementation_record \<Rightarrow> verification_record \<Rightarrow> (lifecycle_error, archive_record) res" where
  "derive_archive_record x g r v =
     res_bind (validate_evidence_contexts (lf_contexts x)) (\<lambda>_.
     res_bind (validate_behavior_delta (lf_digests x) (lf_delta x) (lf_proposal x) (lf_base x) (lf_final x)) (\<lambda>_.
     res_bind (validate_verification_record x v r g) (\<lambda>_.
     let a = archive_of x g r v (canonical_document (lf_final x)) in
     res_bind (model_error (archive_shape a)) (\<lambda>_. Inr a))))"

definition validate_archive_record ::
  "life \<Rightarrow> archive_record \<Rightarrow> task_graph \<Rightarrow> implementation_record \<Rightarrow> verification_record \<Rightarrow> (lifecycle_error, unit) res" where
  "validate_archive_record x a g r v =
     res_bind (validate_evidence_contexts (lf_contexts x)) (\<lambda>_.
     res_bind (validate_behavior_delta (lf_digests x) (lf_delta x) (lf_proposal x) (lf_base x) (lf_final x)) (\<lambda>_.
     res_bind (validate_verification_record x v r g) (\<lambda>_.
     let expected = archive_of x g r v (ar_final_behavior a) in
     res_bind (res_all (\<lambda>(field, actual, ref). lifecycle_check (actual = ref) LcContentIdentityMismatch
         (''archive '' @ field @ '' reference is stale or fabricated'') (''$.'' @ field))
       [(''proposal'', ar_proposal a, ar_proposal expected), (''delta'', ar_delta a, ar_delta expected),
        (''tasks'', ar_tasks a, ar_tasks expected), (''implementation'', ar_implementation a, ar_implementation expected),
        (''verification'', ar_verification a, ar_verification expected)]) (\<lambda>_.
     res_bind (lifecycle_check (ar_change_id a = cp_change_id (lf_proposal x)) LcBrokenReference
       ''archive change ID differs from the proposal'' ''$.change_id'') (\<lambda>_.
     lifecycle_check (canonical_ir (ar_final_behavior a) = canonical_ir (lf_final x) \<and>
         behavior_document_ref (lf_digests x) (ar_final_behavior a) = de_final_behavior (lf_delta x))
       LcDocumentIdentityMismatch ''archive final behavior is not the exact accepted delta target'' ''$.final_behavior'')))))"

section \<open>What binding evidence finds out\<close>

lemma dict_of_id: "distinct (map fst (d @ ps)) \<Longrightarrow> dict_merge d ps = d @ ps"
proof (induction ps arbitrary: d)
  case (Cons p ps)
  have "AList.update (fst p) (snd p) d = d @ [p]" using Cons.prems
    by (induction d) (auto simp: image_iff)
  then show ?case using Cons.IH [of "d @ [p]"] Cons.prems by (simp add: dict_merge_def case_prod_beta)
qed (simp add: dict_merge_def)

definition final_subject :: "change_digests \<Rightarrow> behavior_ir \<Rightarrow> delta_entry \<Rightarrow> behavior_entity_ref" where
  "final_subject D final e = located (behavior_document_ref D final) (entry_subject e)"

definition entry_key :: "delta_entry \<Rightarrow> subject_key3" where
  "entry_key e = delta_subject_key (delta_subject_ref e)"

lemma derived_entry:
  assumes "e \<in> set (derive_entries D base final)" "\<not> is_removed e"
  shows "evidence_subject e = Inr (final_subject D final e)" "snd (entry_key e) = entry_subject e"
  using assms(1)[unfolded set_derive_entries] assms(2)
  by (auto simp: final_subject_def entry_key_def delta_subject_key_def is_removed_def located_def modified_entry_def Let_def
      split: if_splits)

lemma reject_removed_Inr: "reject_removed delta = Inr () \<longleftrightarrow> (\<forall>e \<in> set (de_entries delta). \<not> is_removed e)"
proof -
  have "reject_removed delta = Inr () \<longleftrightarrow>
      (\<forall>p \<in> set (zip [0..<0 + length (de_entries delta)] (de_entries delta)). \<not> is_removed (snd p))"
    by (simp add: reject_removed_def res_all_Inr case_prod_beta)
  then show ?thesis using zip_ball [of 0 "de_entries delta" "\<lambda>e. \<not> is_removed e"] by simp
qed

definition evidence_items :: "change_digests \<Rightarrow> behavior_ir \<Rightarrow> delta_entry list \<Rightarrow> expected_evidence" where
  "evidence_items D final es = map (\<lambda>e. (entry_key e, delta_subject_ref e, final_subject D final e)) es"

lemma expected_evidence_Inr:
  assumes es: "de_entries delta = derive_entries D base final" "\<forall>e \<in> set (de_entries delta). \<not> is_removed e"
  shows "expected_evidence delta = Inr (evidence_items D final (de_entries delta))"
proof -
  have items: "res_map (\<lambda>e. res_bind (evidence_subject e) (\<lambda>s. Inr (delta_subject_key (delta_subject_ref e), delta_subject_ref e, s)))
      (de_entries delta) = Inr (evidence_items D final (de_entries delta))"
    using es derived_entry(1) by (auto simp: res_map_Inr evidence_items_def entry_key_def list_all2_map2 intro!: list_all2_same [THEN iffD2])
  have "distinct (map entry_subject (de_entries delta))" using es(1) derive_entries_shape(1) by simp
  then have "distinct (map (snd \<circ> entry_key) (de_entries delta))" using es derived_entry(2) by (simp cong: map_cong)
  then have "distinct (map fst (evidence_items D final (de_entries delta)))"
    by (auto simp: evidence_items_def comp_def distinct_map inj_on_def)
  then show ?thesis using items dict_of_id [of "[]"] by (simp add: expected_evidence_def)
qed

text \<open>A context that is accepted for an entry.\<close>

definition fits_entry :: "evidence_procedures \<Rightarrow> change_digests \<Rightarrow> behavior_ir \<Rightarrow> evidence_context \<Rightarrow> delta_entry \<Rightarrow> bool" where
  "fits_entry P D final c e \<longleftrightarrow> ep_invalid P c = None \<and> vr_subject (ec_result c) = final_subject D final e \<and>
     vr_base_behavior (ec_result c) = behavior_document_ref D final"

definition binding_of :: "evidence_procedures \<Rightarrow> evidence_context \<Rightarrow> delta_entry \<Rightarrow> evidence_binding" where
  "binding_of P c e = \<lparr>eb_subject = delta_subject_ref e, eb_result = ec_result c, eb_validation = ep_receipt P c\<rparr>"

lemma filter_one:
  assumes "distinct (map f es)" "e \<in> set es"
  shows "filter (\<lambda>e'. f e = f e') es = [e]"
  using assms by (induction es) (auto simp: filter_empty_conv, metis image_eqI)

lemma bind_context_Inr:
  assumes es: "distinct (map entry_subject es)"
  shows "bind_context P (evidence_items D final es) used i c = Inr (k, b) \<longleftrightarrow>
    (\<exists>e \<in> set es. fits_entry P D final c e \<and> entry_key e \<notin> set used \<and> k = entry_key e \<and> b = binding_of P c e)"
proof -
  let ?s = "vr_subject (ec_result c)"
  have subjects: "final_subject D final e = final_subject D final e' \<longleftrightarrow> entry_subject e = entry_subject e'" for e e'
    by (simp add: final_subject_def located_def)
  have filtered: "filter (\<lambda>(k, r, s). ?s = s) (evidence_items D final es) =
      evidence_items D final (filter (\<lambda>e. ?s = final_subject D final e) es)"
    by (simp add: evidence_items_def filter_map comp_def)
  show ?thesis
  proof (cases "\<exists>e \<in> set es. ?s = final_subject D final e")
    case True
    then obtain e where e: "e \<in> set es" "?s = final_subject D final e" by blast
    have "filter (\<lambda>e'. ?s = final_subject D final e') es = [e]"
      using filter_one [OF es e(1)] by (simp add: e(2) subjects)
    then have one: "filter (\<lambda>(k, r, s). ?s = s) (evidence_items D final es) = [(entry_key e, delta_subject_ref e, final_subject D final e)]"
      unfolding filtered by (simp add: evidence_items_def)
    have same: "e' = e" if "e' \<in> set es" "?s = final_subject D final e'" for e'
      using that e es by (auto simp: subjects distinct_map dest: inj_onD)
    have "bl_document (final_subject D final e) = behavior_document_ref D final" by (simp add: final_subject_def located_def)
    then have "bind_context P (evidence_items D final es) used i c = Inr (k, b) \<longleftrightarrow>
        ep_invalid P c = None \<and> vr_base_behavior (ec_result c) = behavior_document_ref D final \<and> entry_key e \<notin> set used \<and>
        k = entry_key e \<and> b = binding_of P c e"
      by (auto simp: bind_context_def Let_def one res_bind_Inr binding_of_def split: option.splits)
    moreover have "fits_entry P D final c e \<longleftrightarrow> ep_invalid P c = None \<and> vr_base_behavior (ec_result c) = behavior_document_ref D final"
      using e(2) by (simp add: fits_entry_def)
    moreover have "e' = e" if "e' \<in> set es" "fits_entry P D final c e'" for e' using same that by (simp add: fits_entry_def)
    ultimately show ?thesis using e(1) by (metis (no_types, lifting))
  next
    case False
    then have "filter (\<lambda>e. ?s = final_subject D final e) es = []" by (auto simp: filter_empty_conv)
    then have none: "filter (\<lambda>(k, r, s). ?s = s) (evidence_items D final es) = []" unfolding filtered by (simp add: evidence_items_def)
    have "bind_context P (evidence_items D final es) used i c \<noteq> Inr (k, b)"
      by (simp add: bind_context_def Let_def none split: option.splits)
    then show ?thesis using False by (auto simp: fits_entry_def)
  qed
qed

lemma bind_contexts_Inr:
  assumes es: "distinct (map entry_subject es)"
  shows "bind_contexts P (evidence_items D final es) used i cs = Inr (used', bs) \<longleftrightarrow>
    (\<exists>es'. list_all2 (fits_entry P D final) cs es' \<and> set es' \<subseteq> set es \<and> distinct (map entry_key es') \<and>
       set (map entry_key es') \<inter> set used = {} \<and> used' = rev (map entry_key es') @ used \<and> bs = map2 (binding_of P) cs es')"
proof (induction cs arbitrary: used i used' bs)
  case (Cons c cs)
  have "bind_contexts P (evidence_items D final es) used i (c # cs) = Inr (used', bs) \<longleftrightarrow>
      (\<exists>e bs'. e \<in> set es \<and> fits_entry P D final c e \<and> entry_key e \<notin> set used \<and> bs = binding_of P c e # bs' \<and>
         bind_contexts P (evidence_items D final es) (entry_key e # used) (Suc i) cs = Inr (used', bs'))"
  proof -
    have "bind_contexts P (evidence_items D final es) used i (c # cs) = Inr (used', bs) \<longleftrightarrow>
        (\<exists>k b bs'. bind_context P (evidence_items D final es) used i c = Inr (k, b) \<and> bs = b # bs' \<and>
           bind_contexts P (evidence_items D final es) (k # used) (Suc i) cs = Inr (used', bs'))"
      by (cases "bind_context P (evidence_items D final es) used i c") (auto simp: res_bind_Inr split: prod.splits)
    then show ?thesis unfolding bind_context_Inr [OF es] by blast
  qed
  also have "\<dots> \<longleftrightarrow> (\<exists>e es'. e \<in> set es \<and> fits_entry P D final c e \<and> entry_key e \<notin> set used \<and>
      list_all2 (fits_entry P D final) cs es' \<and> set es' \<subseteq> set es \<and> distinct (map entry_key es') \<and>
      set (map entry_key es') \<inter> set (entry_key e # used) = {} \<and> used' = rev (map entry_key es') @ entry_key e # used \<and>
      bs = binding_of P c e # map2 (binding_of P) cs es')"
    unfolding Cons.IH by blast
  also have "\<dots> \<longleftrightarrow> (\<exists>es'. list_all2 (fits_entry P D final) (c # cs) es' \<and> set es' \<subseteq> set es \<and> distinct (map entry_key es') \<and>
       set (map entry_key es') \<inter> set used = {} \<and> used' = rev (map entry_key es') @ used \<and> bs = map2 (binding_of P) (c # cs) es')"
    (is "?l \<longleftrightarrow> (\<exists>es'. ?r es')")
  proof
    assume ?l
    then obtain e es' where "e \<in> set es \<and> fits_entry P D final c e \<and> entry_key e \<notin> set used \<and>
      list_all2 (fits_entry P D final) cs es' \<and> set es' \<subseteq> set es \<and> distinct (map entry_key es') \<and>
      set (map entry_key es') \<inter> set (entry_key e # used) = {} \<and> used' = rev (map entry_key es') @ entry_key e # used \<and>
      bs = binding_of P c e # map2 (binding_of P) cs es'" by blast
    then have "?r (e # es')" by auto
    then show "\<exists>es'. ?r es'" by blast
  next
    assume "\<exists>es'. ?r es'"
    then obtain e es' where r: "?r (e # es')" by (auto simp: list_all2_Cons1)
    show ?l by (rule exI [of _ e], rule exI [of _ es']) (use r in auto)
  qed
  finally show ?case .
qed auto

text \<open>The contexts are accepted one for one for the entries.\<close>

definition evidence_pairing ::
  "evidence_procedures \<Rightarrow> change_digests \<Rightarrow> behavior_ir \<Rightarrow> delta_entry list \<Rightarrow> evidence_context list \<Rightarrow> delta_entry list \<Rightarrow> bool" where
  "evidence_pairing P D final es cs es' \<longleftrightarrow> distinct es' \<and> set es' = set es \<and> list_all2 (fits_entry P D final) cs es'"

lemma binding_key_of [simp]: "binding_key (binding_of P c e) = entry_key e"
  by (simp add: binding_key_def binding_of_def entry_key_def)

lemma bind_evidence_Inr:
  assumes es: "de_entries delta = derive_entries D base final"
  shows "bind_implementation_evidence P delta cs = Inr bs \<longleftrightarrow>
    (\<forall>e \<in> set (de_entries delta). \<not> is_removed e) \<and>
    (\<exists>es'. evidence_pairing P D final (de_entries delta) cs es' \<and> bs = sort_key binding_key (map2 (binding_of P) cs es'))"
proof (cases "\<forall>e \<in> set (de_entries delta). \<not> is_removed e")
  case False
  then show ?thesis by (auto simp: bind_implementation_evidence_def res_bind_Inr reject_removed_Inr)
next
  case True
  let ?es = "de_entries delta"
  have subjects: "distinct (map entry_subject ?es)" using es derive_entries_shape(1) by simp
  have keys: "inj_on entry_key (set ?es)"
  proof (rule inj_onI)
    fix e e' assume e: "e \<in> set ?es" "e' \<in> set ?es" "entry_key e = entry_key e'"
    then have "entry_subject e = entry_subject e'" using es True derived_entry(2) by metis
    then show "e = e'" using e(1,2) subjects by (auto simp: distinct_map dest: inj_onD)
  qed
  have pairing: "set es' \<subseteq> set ?es \<and> distinct (map entry_key es') \<and> set (rev (map entry_key es') @ []) = set (map fst (evidence_items D final ?es)) \<longleftrightarrow>
      distinct es' \<and> set es' = set ?es" for es'
  proof -
    have items: "set (map fst (evidence_items D final ?es)) = entry_key ` set ?es" by (auto simp: evidence_items_def)
    have "set es' = set ?es" if "set es' \<subseteq> set ?es" "entry_key ` set es' = entry_key ` set ?es"
      using that keys inj_on_image_eq_iff [of entry_key "set ?es" "set es'" "set ?es"] by blast
    moreover have "inj_on entry_key (set es')" if "set es' \<subseteq> set ?es" using that keys inj_on_subset by blast
    ultimately show ?thesis unfolding items by (auto simp: distinct_map)
  qed
  have "bind_implementation_evidence P delta cs = Inr bs \<longleftrightarrow>
      (\<exists>used bs'. bind_contexts P (evidence_items D final ?es) [] 0 cs = Inr (used, bs') \<and>
         set used = set (map fst (evidence_items D final ?es)) \<and> bs = sort_key binding_key bs')"
    using True by (auto simp: bind_implementation_evidence_def res_bind_Inr reject_removed_Inr expected_evidence_Inr [OF es])
  also have "\<dots> \<longleftrightarrow> (\<exists>es'. list_all2 (fits_entry P D final) cs es' \<and> set es' \<subseteq> set ?es \<and> distinct (map entry_key es') \<and>
      set (rev (map entry_key es') @ []) = set (map fst (evidence_items D final ?es)) \<and>
      bs = sort_key binding_key (map2 (binding_of P) cs es'))"
    unfolding bind_contexts_Inr [OF subjects] by (auto simp del: set_append set_rev)
  also have "\<dots> \<longleftrightarrow> (\<exists>es'. evidence_pairing P D final ?es cs es' \<and> bs = sort_key binding_key (map2 (binding_of P) cs es'))"
    unfolding evidence_pairing_def by (rule ex_cong1) (use pairing in blast)
  finally show ?thesis using True by simp
qed

lemma pairing_keys:
  assumes "evidence_pairing P D final es cs es'"
  shows "map binding_key (sort_key binding_key (map2 (binding_of P) cs es')) = sort (map entry_key es')"
proof -
  have length: "length cs = length es'" using assms by (auto simp: evidence_pairing_def dest: list_all2_lengthD)
  have "map binding_key (map2 (binding_of P) cs es') = map entry_key es'"
    using length by (intro nth_equalityI) auto
  then show ?thesis by (simp add: keys_sort_key)
qed

section \<open>The records\<close>

lemma model_error_Inr [simp]: "model_error r = Inr u \<longleftrightarrow> r = Inr ()"
  by (cases r) (simp_all add: model_error_def)

definition evidence_complete :: "life \<Rightarrow> delta_entry list \<Rightarrow> bool" where
  "evidence_complete x es' \<longleftrightarrow> (\<forall>e \<in> set (de_entries (lf_delta x)). \<not> is_removed e) \<and>
     evidence_pairing (lf_procedures x) (lf_digests x) (lf_final x) (de_entries (lf_delta x)) (lf_contexts x) es'"

definition record_of :: "life \<Rightarrow> task_graph \<Rightarrow> delta_entry list \<Rightarrow> implementation_record" where
  "record_of x g es' = \<lparr>ip_change_id = tg_change_id g, ip_tasks = task_graph_ref (lf_lifecycle x) g,
     ip_bindings = sort_key binding_key (map2 (binding_of (lf_procedures x)) (lf_contexts x) es')\<rparr>"

definition tasks_done :: "life \<Rightarrow> task_graph \<Rightarrow> bool" where
  "tasks_done x g \<longleftrightarrow> length (lf_contexts x) \<le> max_evidence_contexts \<and> validate_tasks x g = Inr () \<and>
     (\<forall>t \<in> set (tg_tasks g). ct_status t = Completed)"

lemma tasks_done_delta:
  assumes "tasks_done x g"
  shows "validate_behavior_delta (lf_digests x) (lf_delta x) (lf_proposal x) (lf_base x) (lf_final x) = Inr ()"
    "de_entries (lf_delta x) = derive_entries (lf_digests x) (lf_base x) (lf_final x)" "de_entries (lf_delta x) \<noteq> []"
    "tg_change_id g = de_change_id (lf_delta x)"
proof -
  show delta: "validate_behavior_delta (lf_digests x) (lf_delta x) (lf_proposal x) (lf_base x) (lf_final x) = Inr ()"
    using assms by (simp add: tasks_done_def validate_tasks_def validate_task_graph_Inr)
  show "de_entries (lf_delta x) = derive_entries (lf_digests x) (lf_base x) (lf_final x)" "de_entries (lf_delta x) \<noteq> []"
    using valid_delta_facts [OF delta] by blast+
  show "tg_change_id g = de_change_id (lf_delta x)"
    using assms by (simp add: tasks_done_def validate_tasks_def validate_task_graph_Inr task_graph_ok_def)
qed

lemma require_completed_Inr: "require_completed_tasks g = Inr u \<longleftrightarrow> (\<forall>t \<in> set (tg_tasks g). ct_status t = Completed)"
  by (auto simp: require_completed_tasks_def Let_def filter_empty_conv)

lemma record_shape:
  assumes "tasks_done x g" "evidence_complete x es'"
  shows "implementation_shape (record_of x g es') = Inr ()"
proof -
  let ?bs = "ip_bindings (record_of x g es')"
  have pairing: "evidence_pairing (lf_procedures x) (lf_digests x) (lf_final x) (de_entries (lf_delta x)) (lf_contexts x) es'"
    using assms(2) by (simp add: evidence_complete_def)
  have keys: "map binding_key ?bs = sort (map entry_key es')" using pairing_keys [OF pairing] by (simp add: record_of_def)
  have es: "de_entries (lf_delta x) = derive_entries (lf_digests x) (lf_base x) (lf_final x)" by (rule tasks_done_delta(2) [OF assms(1)])
  have "entry_key e \<noteq> entry_key e'" if "e \<in> set es'" "e' \<in> set es'" "e \<noteq> e'" for e e'
  proof -
    have "e \<in> set (derive_entries (lf_digests x) (lf_base x) (lf_final x))" "e' \<in> set (derive_entries (lf_digests x) (lf_base x) (lf_final x))"
      "\<not> is_removed e" "\<not> is_removed e'"
      using that pairing assms(2) es by (auto simp: evidence_pairing_def evidence_complete_def)
    then show ?thesis using that(3) derive_entries_shape(1) derived_entry(2) by (metis distinct_map inj_on_def)
  qed
  then have distinct: "distinct (map entry_key es')" using pairing by (auto simp: evidence_pairing_def distinct_map inj_on_def)
  have length: "length ?bs = length es'" "length (lf_contexts x) = length es'" using pairing
    by (auto simp: record_of_def evidence_pairing_def dest: list_all2_lengthD)
  have "es' \<noteq> []" using pairing tasks_done_delta(3) [OF assms(1)] by (auto simp: evidence_pairing_def)
  then have "?bs \<noteq> []" using length(1) by (metis length_0_conv)
  moreover have "length ?bs \<le> 256" using length assms(1) by (simp add: tasks_done_def max_evidence_contexts_def)
  moreover have "cf_change_id (ip_tasks (record_of x g es')) = ip_change_id (record_of x g es')"
    by (simp add: record_of_def task_graph_ref_def)
  ultimately show ?thesis using keys distinct by (simp add: implementation_shape_def Let_def res_all_Inr sorted_sort_id del: res_all.simps)
qed

lemma derive_implementation_record_Inr:
  "derive_implementation_record x g = Inr r \<longleftrightarrow> tasks_done x g \<and> (\<exists>es'. evidence_complete x es' \<and> r = record_of x g es')"
proof (cases "tasks_done x g")
  case False
  then show ?thesis
    by (auto simp: derive_implementation_record_def res_bind_Inr validate_evidence_contexts_def require_completed_Inr tasks_done_def)
next
  case True
  have "derive_implementation_record x g = Inr r \<longleftrightarrow> (\<exists>bs. bind_implementation_evidence (lf_procedures x) (lf_delta x) (lf_contexts x) = Inr bs \<and>
      r = \<lparr>ip_change_id = tg_change_id g, ip_tasks = task_graph_ref (lf_lifecycle x) g, ip_bindings = bs\<rparr> \<and> implementation_shape r = Inr ())"
    using True by (auto simp: derive_implementation_record_def res_bind_Inr validate_evidence_contexts_def require_completed_Inr
        tasks_done_def Let_def)
  also have "\<dots> \<longleftrightarrow> (\<exists>es'. evidence_complete x es' \<and> r = record_of x g es' \<and> implementation_shape r = Inr ())"
    unfolding bind_evidence_Inr [OF tasks_done_delta(2) [OF True]] evidence_complete_def record_of_def by blast
  also have "\<dots> \<longleftrightarrow> (\<exists>es'. evidence_complete x es' \<and> r = record_of x g es')" using record_shape [OF True] by blast
  finally show ?thesis using True by simp
qed

lemma validate_implementation_record_Inr:
  "validate_implementation_record x r g = Inr () \<longleftrightarrow> derive_implementation_record x g = Inr r"
proof (cases "tasks_done x g")
  case False
  then show ?thesis unfolding derive_implementation_record_Inr
    by (auto simp: validate_implementation_record_def res_bind_Inr validate_evidence_contexts_def require_completed_Inr tasks_done_def)
next
  case True
  have "validate_implementation_record x r g = Inr () \<longleftrightarrow>
      ip_change_id r = tg_change_id g \<and> ip_tasks r = task_graph_ref (lf_lifecycle x) g \<and>
      bind_implementation_evidence (lf_procedures x) (lf_delta x) (lf_contexts x) = Inr (ip_bindings r)"
    using True by (auto simp: validate_implementation_record_def res_bind_Inr validate_evidence_contexts_def require_completed_Inr tasks_done_def)
  also have "\<dots> \<longleftrightarrow> (\<exists>es'. evidence_complete x es' \<and> r = record_of x g es')"
    unfolding bind_evidence_Inr [OF tasks_done_delta(2) [OF True]] evidence_complete_def record_of_def by (cases r) auto
  finally show ?thesis using True by (simp add: derive_implementation_record_Inr)
qed

section \<open>The records are accepted when they are derived\<close>

lemma verification_Inr:
  "derive_verification_record x r g = Inr v \<longleftrightarrow> validate_verification_record x v r g = Inr ()"
proof (cases "validate_implementation_record x r g = Inr ()")
  case False
  then show ?thesis by (auto simp: derive_verification_record_def validate_verification_record_def res_bind_Inr)
next
  case True
  then obtain es' where es': "tasks_done x g" "evidence_complete x es'" "r = record_of x g es'"
    by (auto simp: validate_implementation_record_Inr derive_implementation_record_Inr)
  let ?v = "\<lparr>vf_change_id = ip_change_id r, vf_implementation = implementation_record_ref (lf_lifecycle x) r,
    vf_subjects = map eb_subject (ip_bindings r)\<rparr>"
  have "map delta_subject_key (map eb_subject (ip_bindings r)) = map binding_key (ip_bindings r)"
    by (simp add: binding_key_def)
  then have "verification_shape ?v = Inr ()"
    using record_shape [OF es'(1,2)] es'(3)
    by (simp add: implementation_shape_def verification_shape_def Let_def res_all_Inr implementation_record_ref_def del: res_all.simps map_map)
  then have "derive_verification_record x r g = Inr v \<longleftrightarrow> require_passing_evidence r = Inr () \<and> v = ?v"
    using True by (auto simp: derive_verification_record_def res_bind_Inr Let_def)
  also have "\<dots> \<longleftrightarrow> validate_verification_record x v r g = Inr ()"
    using True by (cases v) (auto simp: validate_verification_record_def res_bind_Inr res_all_Inr simp del: res_all.simps)
  finally show ?thesis .
qed

lemma verification_facts:
  assumes "validate_verification_record x v r g = Inr ()"
  shows "validate_implementation_record x r g = Inr ()" "require_passing_evidence r = Inr ()" "vf_change_id v = ip_change_id r"
  using assms by (auto simp: validate_verification_record_def res_bind_Inr res_all_Inr simp del: res_all.simps)

lemma archive_shape_ok:
  assumes "validate_verification_record x v r g = Inr ()"
  shows "archive_shape (archive_of x g r v final) = Inr ()"
proof -
  obtain es' where es': "tasks_done x g" "r = record_of x g es'"
    using verification_facts(1) [OF assms] by (auto simp: validate_implementation_record_Inr derive_implementation_record_Inr)
  have "tg_change_id g = cp_change_id (lf_proposal x)" "de_change_id (lf_delta x) = cp_change_id (lf_proposal x)"
    using tasks_done_delta [OF es'(1)] delta_change_id by simp_all
  moreover have "ip_change_id r = tg_change_id g" by (simp add: es'(2) record_of_def)
  ultimately show ?thesis
    using verification_facts(3) [OF assms]
    by (simp add: archive_shape_def archive_of_def change_proposal_ref_def behavior_delta_ref_def task_graph_ref_def
        implementation_record_ref_def verification_record_ref_def)
qed

lemma verification_context:
  assumes "validate_verification_record x v r g = Inr ()"
  shows "validate_evidence_contexts (lf_contexts x) = Inr ()"
    "validate_behavior_delta (lf_digests x) (lf_delta x) (lf_proposal x) (lf_base x) (lf_final x) = Inr ()"
proof -
  have finished: "tasks_done x g"
    using verification_facts(1) [OF assms] by (auto simp: validate_implementation_record_Inr derive_implementation_record_Inr)
  then show "validate_evidence_contexts (lf_contexts x) = Inr ()" by (simp add: tasks_done_def validate_evidence_contexts_def)
  show "validate_behavior_delta (lf_digests x) (lf_delta x) (lf_proposal x) (lf_base x) (lf_final x) = Inr ()"
    by (rule tasks_done_delta(1) [OF finished])
qed

lemma derive_archive_record_Inr:
  "derive_archive_record x g r v = Inr a \<longleftrightarrow>
     validate_verification_record x v r g = Inr () \<and> a = archive_of x g r v (canonical_document (lf_final x))"
proof (cases "validate_verification_record x v r g = Inr ()")
  case False
  then show ?thesis by (simp add: derive_archive_record_def res_bind_Inr)
next
  case True
  then show ?thesis using verification_context [OF True] archive_shape_ok [OF True]
    by (auto simp: derive_archive_record_def res_bind_Inr Let_def)
qed

lemma document_id_json: "canonical_ir d = canonical_ir d' \<Longrightarrow> be_document_id d = be_document_id d'"
  by (simp add: canonical_behavior)

lemma validate_archive_record_Inr:
  "validate_archive_record x a g r v = Inr () \<longleftrightarrow>
     validate_verification_record x v r g = Inr () \<and> a = archive_of x g r v (ar_final_behavior a) \<and>
     canonical_ir (ar_final_behavior a) = canonical_ir (lf_final x)"
proof (cases "validate_verification_record x v r g = Inr ()")
  case False
  then show ?thesis by (auto simp: validate_archive_record_def res_bind_Inr)
next
  case True
  let ?e = "archive_of x g r v (ar_final_behavior a)"
  have "de_final_behavior (lf_delta x) = behavior_document_ref (lf_digests x) (lf_final x)"
    using valid_delta_facts(7) [OF verification_context(2) [OF True]] .
  then have final: "behavior_document_ref (lf_digests x) d = de_final_behavior (lf_delta x)" if "canonical_ir d = canonical_ir (lf_final x)" for d
    using that document_id_json [OF that] by (simp add: behavior_document_ref_def)
  have "validate_archive_record x a g r v = Inr () \<longleftrightarrow>
      (ar_proposal a = ar_proposal ?e \<and> ar_delta a = ar_delta ?e \<and> ar_tasks a = ar_tasks ?e \<and>
       ar_implementation a = ar_implementation ?e \<and> ar_verification a = ar_verification ?e) \<and>
      ar_change_id a = ar_change_id ?e \<and> canonical_ir (ar_final_behavior a) = canonical_ir (lf_final x) \<and>
      behavior_document_ref (lf_digests x) (ar_final_behavior a) = de_final_behavior (lf_delta x)"
    unfolding validate_archive_record_def Let_def res_bind_Inr res_all_Inr verification_context [OF True] True
    by (simp add: archive_of_def del: res_all.simps)
  also have "\<dots> \<longleftrightarrow> a = ?e \<and> canonical_ir (ar_final_behavior a) = canonical_ir (lf_final x)"
    using final [of "ar_final_behavior a"] by (cases a) (auto simp: archive_of_def)
  finally show ?thesis using True by simp
qed

section \<open>When a change can be archived\<close>

definition passed_evidence :: "life \<Rightarrow> delta_entry list \<Rightarrow> bool" where
  "passed_evidence x es \<longleftrightarrow> evidence_complete x es \<and> list_all (\<lambda>c. vr_outcome (ec_result c) = ''passed'') (lf_contexts x)"

lemma passing_Inr: "require_passing_evidence r = Inr () \<longleftrightarrow> (\<forall>b \<in> set (ip_bindings r). vr_outcome (eb_result b) = ''passed'')"
  by (simp add: require_passing_evidence_def Let_def filter_empty_conv)

lemma pairing_length: "evidence_complete x es' \<Longrightarrow> length (lf_contexts x) = length es'"
  by (auto simp: evidence_complete_def evidence_pairing_def dest: list_all2_lengthD)

lemma record_passing:
  assumes "evidence_complete x es'"
  shows "require_passing_evidence (record_of x g es') = Inr () \<longleftrightarrow> passed_evidence x es'"
proof -
  let ?bs = "map2 (binding_of (lf_procedures x)) (lf_contexts x) es'"
  have same: "map eb_result ?bs = map ec_result (lf_contexts x)"
    using pairing_length [OF assms] by (intro nth_equalityI) (simp_all add: binding_of_def)
  have "require_passing_evidence (record_of x g es') = Inr () \<longleftrightarrow> list_all (\<lambda>y. vr_outcome y = ''passed'') (map eb_result ?bs)"
    unfolding passing_Inr by (simp add: record_of_def list_all_iff del: map_map)
  then show ?thesis unfolding same using assms by (simp add: passed_evidence_def list_all_iff)
qed

lemma verified_iff:
  "(\<exists>v. validate_verification_record x v r g = Inr ()) \<longleftrightarrow>
     tasks_done x g \<and> (\<exists>es'. passed_evidence x es' \<and> r = record_of x g es')" (is "?l \<longleftrightarrow> ?r")
proof
  assume ?l
  then obtain v where v: "validate_verification_record x v r g = Inr ()" by blast
  obtain es' where "tasks_done x g" "evidence_complete x es'" "r = record_of x g es'"
    using verification_facts(1) [OF v] by (auto simp: validate_implementation_record_Inr derive_implementation_record_Inr)
  then show ?r using verification_facts(2) [OF v] record_passing by blast
next
  assume r: ?r
  then obtain es' where es': "passed_evidence x es'" "r = record_of x g es'" by blast
  then have "evidence_complete x es'" by (simp add: passed_evidence_def)
  then have "validate_implementation_record x r g = Inr ()" "require_passing_evidence r = Inr ()"
    using r es' record_passing by (auto simp: validate_implementation_record_Inr derive_implementation_record_Inr)
  then have "validate_verification_record x \<lparr>vf_change_id = ip_change_id r,
      vf_implementation = implementation_record_ref (lf_lifecycle x) r, vf_subjects = map eb_subject (ip_bindings r)\<rparr> r g = Inr ()"
    by (simp add: validate_verification_record_def res_bind_Inr res_all_Inr del: res_all.simps)
  then show ?l by blast
qed

lemma archivable:
  "(\<exists>r v a. derive_archive_record x g r v = Inr a) \<longleftrightarrow> tasks_done x g \<and> (\<exists>es'. passed_evidence x es')"
  unfolding derive_archive_record_Inr using verified_iff [of x _ g] by blast

lemma passed_entry:
  assumes "passed_evidence x es'" "e \<in> set (de_entries (lf_delta x))"
  shows "\<not> is_removed e" "\<exists>c \<in> set (lf_contexts x). fits_entry (lf_procedures x) (lf_digests x) (lf_final x) c e \<and>
    vr_outcome (ec_result c) = ''passed''"
proof -
  show "\<not> is_removed e" using assms by (simp add: passed_evidence_def evidence_complete_def)
  have "e \<in> set es'" "list_all2 (fits_entry (lf_procedures x) (lf_digests x) (lf_final x)) (lf_contexts x) es'"
    using assms by (simp_all add: passed_evidence_def evidence_complete_def evidence_pairing_def)
  then obtain c where "c \<in> set (lf_contexts x)" "fits_entry (lf_procedures x) (lf_digests x) (lf_final x) c e"
    by (fastforce simp: list_all2_conv_all_nth in_set_conv_nth)
  then show "\<exists>c \<in> set (lf_contexts x). fits_entry (lf_procedures x) (lf_digests x) (lf_final x) c e \<and>
      vr_outcome (ec_result c) = ''passed''"
    using assms(1) by (auto simp: passed_evidence_def list_all_iff)
qed

section \<open>An example\<close>

definition ex_procedures :: evidence_procedures where
  "ex_procedures = \<lparr>ep_invalid = (\<lambda>c. if ec_fields c = JNull then None else Some ''invalid''), ep_receipt = ec_fields\<rparr>"

definition ex_context :: evidence_context where
  "ex_context = \<lparr>ec_result = \<lparr>vr_subject = final_subject ex_change_digests (ex_behavior 2 []) (hd (de_entries ex_delta)),
     vr_base_behavior = behavior_document_ref ex_change_digests (ex_behavior 2 []), vr_outcome = ''passed'', vr_fields = JNull\<rparr>,
     ec_fields = JNull\<rparr>"

definition ex_life :: life where
  "ex_life = \<lparr>lf_digests = ex_change_digests,
     lf_lifecycle = \<lparr>ld_tasks = (\<lambda>g. ''tasks''), ld_implementation = (\<lambda>r. ''implementation''), ld_verification = (\<lambda>r. ''verification'')\<rparr>,
     lf_procedures = ex_procedures, lf_proposal = ex_task_proposal, lf_delta = ex_delta, lf_base = ex_behavior 1 [],
     lf_final = ex_behavior 2 [], lf_contexts = [ex_context]\<rparr>"

lemma ex_entries: "map is_removed (de_entries ex_delta) = [False]"
  by code_simp

lemma ex_passed: "passed_evidence ex_life (de_entries ex_delta)"
  using ex_entries by (auto simp: passed_evidence_def evidence_complete_def evidence_pairing_def ex_life_def fits_entry_def
      ex_context_def ex_procedures_def)

lemma ex_archived: "\<exists>g r v a. derive_archive_record ex_life g r v = Inr a"
proof -
  obtain g where "validate_task_graph ex_change_digests g ex_delta ex_task_proposal (ex_behavior 1 []) (ex_behavior 2 []) = Inr ()"
      "\<forall>t \<in> set (tg_tasks g). ct_status t = Completed"
    using completable [OF ex_graph_valid] task_steps_keep [OF _ ex_graph_valid] by blast
  then have "tasks_done ex_life g" by (simp add: tasks_done_def validate_tasks_def ex_life_def max_evidence_contexts_def)
  then show ?thesis using archivable ex_passed by blast
qed

section \<open>Properties\<close>

text \<open>
  Evidence is bound exactly when no behavior of the delta was removed and the contexts can be paired
  one for one with the entries, each valid, about the final subject of its entry and the final document.
\<close>

theorem evidence_exact:
  assumes "validate_behavior_delta D delta proposal base final = Inr ()"
  shows "(\<exists>bs. bind_implementation_evidence P delta contexts = Inr bs) \<longleftrightarrow>
    (\<forall>e \<in> set (de_entries delta). \<not> is_removed e) \<and>
    (\<exists>es. distinct es \<and> set es = set (de_entries delta) \<and> list_all2 (fits_entry P D final) contexts es)"
  unfolding bind_evidence_Inr [OF valid_delta_facts(4) [OF assms]] evidence_pairing_def by blast

theorem evidence_exact_witness:
  "\<exists>bs. bind_implementation_evidence ex_procedures ex_delta [ex_context] = Inr bs"
  unfolding evidence_exact [OF ex_task_delta]
  using ex_passed by (auto simp: passed_evidence_def evidence_complete_def evidence_pairing_def ex_life_def)

text \<open>
  C24: A change can be archived exactly when its task graph is accepted and all its tasks are completed,
  it removes no behavior, and the at most 256 contexts can be paired one for one with the entries of its
  delta, each valid, about the final document and with the outcome passed.
\<close>

theorem archive_exact:
  "(\<exists>r v a. derive_archive_record x g r v = Inr a) \<longleftrightarrow>
     length (lf_contexts x) \<le> max_evidence_contexts \<and> validate_tasks x g = Inr () \<and>
     list_all (\<lambda>t. ct_status t = Completed) (tg_tasks g) \<and>
     list_all (\<lambda>e. \<not> is_removed e) (de_entries (lf_delta x)) \<and>
     (\<exists>es. distinct es \<and> set es = set (de_entries (lf_delta x)) \<and>
        list_all2 (\<lambda>c e. fits_entry (lf_procedures x) (lf_digests x) (lf_final x) c e \<and> vr_outcome (ec_result c) = ''passed'')
          (lf_contexts x) es)"
proof -
  have "list_all2 (\<lambda>c e. F c e \<and> Q c) cs es \<longleftrightarrow> list_all2 F cs es \<and> list_all Q cs" for F Q and cs :: "evidence_context list" and es :: "delta_entry list"
    by (auto simp: list_all2_conv_all_nth list_all_length)
  then show ?thesis
    by (auto simp: archivable tasks_done_def passed_evidence_def evidence_complete_def evidence_pairing_def list_all_iff)
qed

text \<open>
  Whatever archive record is derived, every task of the change is completed, no entry of its delta is
  a removal, and each has evidence about the final document that is valid and passed; the record names
  the proposal, the delta, the tasks and the records it was derived from and holds the final document in
  canonical form.
\<close>

theorem archived_is_proven:
  assumes "derive_archive_record x g r v = Inr a"
  shows "(\<forall>t \<in> set (tg_tasks g). ct_status t = Completed) \<and>
    (\<forall>e \<in> set (de_entries (lf_delta x)). \<not> is_removed e \<and> (\<exists>c \<in> set (lf_contexts x).
       fits_entry (lf_procedures x) (lf_digests x) (lf_final x) c e \<and> vr_outcome (ec_result c) = ''passed'')) \<and>
    a = archive_of x g r v (canonical_document (lf_final x)) \<and> canonical_ir (ar_final_behavior a) = canonical_ir (lf_final x)"
proof -
  have v: "validate_verification_record x v r g = Inr ()" and a: "a = archive_of x g r v (canonical_document (lf_final x))"
    using assms by (simp_all add: derive_archive_record_Inr)
  obtain es' where es': "tasks_done x g" "passed_evidence x es'" using v verified_iff by blast
  then show ?thesis using passed_entry [OF es'(2)] a canonical_ir_document by (auto simp: tasks_done_def archive_of_def)
qed

theorem archived_is_proven_witness:
  "\<exists>g r v a. derive_archive_record ex_life g r v = Inr a \<and> canonical_ir (ar_final_behavior a) = canonical_ir (ex_behavior 2 [])"
proof -
  obtain g r v a where a: "derive_archive_record ex_life g r v = Inr a" using ex_archived by blast
  then show ?thesis using archived_is_proven [OF a] by (auto simp: ex_life_def)
qed

text \<open>
  C25: An implementation or a verification record is accepted exactly when deriving it again gives it, and
  an archive record exactly when it differs from the derived one at most in the form of the final
  document, with the same canonical JSON.
\<close>

theorem record_validation_exact:
  "(validate_implementation_record x r g = Inr () \<longleftrightarrow> derive_implementation_record x g = Inr r) \<and>
   (validate_verification_record x v r g = Inr () \<longleftrightarrow> derive_verification_record x r g = Inr v) \<and>
   (validate_archive_record x a g r v = Inr () \<longleftrightarrow>
      derive_archive_record x g r v = Inr (a\<lparr>ar_final_behavior := canonical_document (lf_final x)\<rparr>) \<and>
      canonical_ir (ar_final_behavior a) = canonical_ir (lf_final x))"
proof -
  have "a = archive_of x g r v (ar_final_behavior a) \<longleftrightarrow>
      a\<lparr>ar_final_behavior := canonical_document (lf_final x)\<rparr> = archive_of x g r v (canonical_document (lf_final x))"
    by (cases a) (auto simp: archive_of_def)
  then show ?thesis by (auto simp: validate_implementation_record_Inr verification_Inr validate_archive_record_Inr derive_archive_record_Inr)
qed

end
