(* ===== verification/Onboarding_Proposal.thy ===== *)
theory Onboarding_Proposal
  imports IR_Validation
begin

text \<open>
  Proposals of behavior for a discovered interface, the models of \<^verbatim>\<open>src/ucf/onboarding/models.py\<close> and
  \<^verbatim>\<open>validate_candidate_proposal\<close> of \<^verbatim>\<open>validation.py\<close>: a use case with steps, the action of each step and
  bindings of the inputs of the action to inputs of the use case or outputs of earlier steps.
  A document handed over is an instance of its model.
\<close>

section \<open>Models\<close>

datatype onboarding_code =
    ObBrokenReference | ObContentIdentityMismatch | ObDocumentIdentityMismatch | ObDuplicateIdentity
  | ObInvalidDecision | ObInvalidProposal | ObIllegalPromotion | ObNonCanonicalOrder | ObStaleDecision
  | ObSummaryMismatch | ObUnreachableEntity | ObWrongTargetKind

text \<open>A validation error, another exception with its name, or an error of the IR the code lets through.\<close>

datatype onboarding_error =
  OnboardingError onboarding_code string string | OnboardingException string | OnboardingIrError ir_error

definition ob_check :: "bool \<Rightarrow> onboarding_code \<Rightarrow> string \<Rightarrow> string \<Rightarrow> (onboarding_error, unit) res" where
  "ob_check c code message location = require c (OnboardingError code message location)"

datatype proposal_kind = ProposedActionKind | ProposedBindingKind | ProposedStepKind | ProposedUseCaseKind

fun proposal_kind_value :: "proposal_kind \<Rightarrow> string" where
  "proposal_kind_value ProposedActionKind = ''proposed_action''"
| "proposal_kind_value ProposedBindingKind = ''proposed_binding''"
| "proposal_kind_value ProposedStepKind = ''proposed_step''"
| "proposal_kind_value ProposedUseCaseKind = ''proposed_use_case''"

record proposal_ref =
  pp_kind :: proposal_kind
  pp_id :: string

record proposal_port_ref =
  pq_owner :: proposal_ref
  pq_direction :: direction
  pq_name :: string

record proposed_action =
  pa_id :: string
  pa_input_ports :: "port list"
  pa_output_ports :: "port list"

record proposed_use_case =
  pu_id :: string
  pu_input_ports :: "port list"
  pu_output_ports :: "port list"
  pu_steps :: "proposal_ref list"

record proposed_step =
  ps_id :: string
  ps_action :: proposal_ref
  ps_bindings :: "proposal_ref list"

record proposed_binding =
  pb_id :: string
  pb_target :: proposal_port_ref
  pb_source :: proposal_port_ref

datatype proposal_entity =
    ProposedAction proposed_action
  | ProposedBinding proposed_binding
  | ProposedStep proposed_step
  | ProposedUseCase proposed_use_case

fun proposal_kind_of :: "proposal_entity \<Rightarrow> proposal_kind" where
  "proposal_kind_of (ProposedAction a) = ProposedActionKind"
| "proposal_kind_of (ProposedBinding b) = ProposedBindingKind"
| "proposal_kind_of (ProposedStep s) = ProposedStepKind"
| "proposal_kind_of (ProposedUseCase u) = ProposedUseCaseKind"

fun proposal_id :: "proposal_entity \<Rightarrow> string" where
  "proposal_id (ProposedAction a) = pa_id a"
| "proposal_id (ProposedBinding b) = pb_id b"
| "proposal_id (ProposedStep s) = ps_id s"
| "proposal_id (ProposedUseCase u) = pu_id u"

record candidate_proposal =
  cn_root :: proposal_ref
  cn_entities :: "proposal_entity list"

section \<open>Validation (validation.py)\<close>

type_synonym proposal_index = "(string, proposal_entity) dict"

definition resolve_proposal_ref :: "proposal_ref \<Rightarrow> proposal_index \<Rightarrow> string \<Rightarrow> (onboarding_error, proposal_entity) res" where
  "resolve_proposal_ref ref by_id location =
     (case map_of by_id (pp_id ref) of
        None \<Rightarrow> Inl (OnboardingError ObBrokenReference ''proposal reference target does not exist'' location)
      | Some target \<Rightarrow>
          res_bind (ob_check (proposal_kind_of target = pp_kind ref) ObWrongTargetKind
            ''proposal reference target has a different kind'' location) (\<lambda>_. Inr target))"

definition validate_proposal_ports :: "port list \<Rightarrow> string \<Rightarrow> (onboarding_error, unit) res" where
  "validate_proposal_ports ports location =
     (let names = map po_name ports in
      ob_check (distinct names \<and> sorted names) ObNonCanonicalOrder ''proposal ports must be unique and sorted by name'' location)"

definition find_port :: "port list \<Rightarrow> proposal_port_ref \<Rightarrow> string \<Rightarrow> (onboarding_error, port) res" where
  "find_port ports ref location =
     (case find (\<lambda>p. po_name p = pq_name ref) ports of
        Some p \<Rightarrow> Inr p
      | None \<Rightarrow> Inl (OnboardingError ObInvalidProposal ''proposal port reference does not resolve'' location))"

definition resolve_binding_source ::
  "proposal_port_ref \<Rightarrow> proposed_use_case \<Rightarrow> proposal_index \<Rightarrow> proposed_step \<Rightarrow> (string, nat) dict \<Rightarrow> string \<Rightarrow>
     (onboarding_error, port) res" where
  "resolve_binding_source source root by_id target_step positions location =
     res_bind (resolve_proposal_ref (pq_owner source) by_id location) (\<lambda>owner.
     case owner of
       ProposedUseCase u \<Rightarrow>
         res_bind (ob_check (pu_id u = pu_id root \<and> pq_direction source = Input) ObInvalidProposal
           ''binding source use case must be the root input'' location) (\<lambda>_.
         find_port (pu_input_ports u) source location)
     | ProposedStep s \<Rightarrow>
         res_bind (case map_of positions (ps_id target_step) of
             None \<Rightarrow> if pq_direction source = Output \<and> map_of positions (ps_id s) \<noteq> None
               then Inl (OnboardingException ''KeyError'')
               else ob_check False ObInvalidProposal ''binding source step must be a prior step output'' location
           | Some n \<Rightarrow>
               ob_check (pq_direction source = Output \<and> (case map_of positions (ps_id s) of None \<Rightarrow> False | Some m \<Rightarrow> m < n))
                 ObInvalidProposal ''binding source step must be a prior step output'' location) (\<lambda>_.
         res_bind (resolve_proposal_ref (ps_action s) by_id location) (\<lambda>e.
         case e of
           ProposedAction a \<Rightarrow> find_port (pa_output_ports a) source location
         | _ \<Rightarrow> Inl (OnboardingException ''AssertionError'')))
     | _ \<Rightarrow> Inl (OnboardingError ObInvalidProposal ''binding source owner must be a use case or prior step'' location))"

text \<open>One binding of a step: what it reaches and the input it binds.\<close>

definition validate_step_binding ::
  "proposed_use_case \<Rightarrow> proposed_step \<Rightarrow> proposed_action \<Rightarrow> proposal_index \<Rightarrow> (string, nat) dict \<Rightarrow> string \<Rightarrow>
     nat \<times> proposal_ref \<Rightarrow> (onboarding_error, string \<times> string) res" where
  "validate_step_binding root step action by_id positions location ir =
     (case ir of (i, ref) \<Rightarrow>
      let here = at_position (location @ ''.bindings'') i in
      res_bind (resolve_proposal_ref ref by_id here) (\<lambda>e.
      case e of
        ProposedBinding b \<Rightarrow>
          res_bind (ob_check (pp_kind (pq_owner (pb_target b)) = ProposedStepKind \<and> pp_id (pq_owner (pb_target b)) = ps_id step \<and>
              pq_direction (pb_target b) = Input) ObInvalidProposal
            ''binding target must be an input on its owning step'' here) (\<lambda>_.
          res_bind (find_port (pa_input_ports action) (pb_target b) (here @ ''.target'')) (\<lambda>target_port.
          res_bind (resolve_binding_source (pb_source b) root by_id step positions (here @ ''.source'')) (\<lambda>source_port.
          res_bind (ob_check (po_value_kind source_port = po_value_kind target_port) ObInvalidProposal
            ''binding source and target value kinds differ'' here) (\<lambda>_.
          Inr (pb_id b, po_name target_port)))))
      | _ \<Rightarrow> Inl (OnboardingError ObWrongTargetKind ''step bindings must resolve to proposed bindings'' here)))"

text \<open>The identifiers of the bindings, which the caller adds to what is reachable.\<close>

definition validate_step_bindings ::
  "proposed_use_case \<Rightarrow> proposed_step \<Rightarrow> proposed_action \<Rightarrow> proposal_index \<Rightarrow> (string, nat) dict \<Rightarrow> string \<Rightarrow>
     (onboarding_error, string list) res" where
  "validate_step_bindings root step action by_id positions location =
     res_bind (ob_check (distinct (map pp_id (ps_bindings step))) ObDuplicateIdentity
       ''step binding references must be unique'' (location @ ''.bindings'')) (\<lambda>_.
     res_bind (res_map (validate_step_binding root step action by_id positions location)
       (zip [0..<length (ps_bindings step)] (ps_bindings step))) (\<lambda>bound.
     let bound_inputs = map snd bound; required_inputs = map po_name (filter po_required (pa_input_ports action)) in
     res_bind (ob_check (distinct bound_inputs \<and> list_all (\<lambda>n. n \<in> set bound_inputs) required_inputs) ObInvalidProposal
       ''each required action input needs exactly one binding'' (location @ ''.bindings'')) (\<lambda>_.
     Inr (map fst bound))))"

definition set_default :: "'k \<Rightarrow> 'v \<Rightarrow> ('k, 'v) dict \<Rightarrow> ('k, 'v) dict" where
  "set_default k v d = (if map_of d k = None then AList.update k v d else d)"

fun list_index :: "'a \<Rightarrow> 'a list \<Rightarrow> nat" where
  "list_index x [] = 0"
| "list_index x (y # ys) = (if y = x then 0 else Suc (list_index x ys))"

fun validate_proposal_steps ::
  "proposed_use_case \<Rightarrow> proposal_index \<Rightarrow> string list \<Rightarrow> string \<Rightarrow> nat \<Rightarrow> string list \<Rightarrow> (string, nat) dict \<Rightarrow> proposal_ref list \<Rightarrow>
     (onboarding_error, string list) res" where
  "validate_proposal_steps root by_id ids location i reachable positions [] = Inr reachable"
| "validate_proposal_steps root by_id ids location i reachable positions (ref # refs) =
     (let here = at_position (location @ ''.root.steps'') i in
      res_bind (resolve_proposal_ref ref by_id here) (\<lambda>e.
      case e of
        ProposedStep step \<Rightarrow>
          (let positions' = set_default (ps_id step) i positions;
               there = at_position (location @ ''.entities'') (list_index (ps_id step) ids) in
           res_bind (resolve_proposal_ref (ps_action step) by_id (there @ ''.action'')) (\<lambda>e'.
           case e' of
             ProposedAction action \<Rightarrow>
               res_bind (validate_step_bindings root step action by_id positions' there) (\<lambda>bound.
               validate_proposal_steps root by_id ids location (Suc i)
                 (reachable @ [ps_id step, pa_id action] @ bound) positions' refs)
           | _ \<Rightarrow> Inl (OnboardingError ObWrongTargetKind ''step action must resolve to a proposed action'' (there @ ''.action''))))
      | _ \<Rightarrow> Inl (OnboardingError ObWrongTargetKind ''use-case steps must resolve to proposed steps'' here)))"

fun validate_entity_ports :: "string \<Rightarrow> nat \<times> proposal_entity \<Rightarrow> (onboarding_error, unit) res" where
  "validate_entity_ports location (i, ProposedAction a) =
     in_order [validate_proposal_ports (pa_input_ports a) (at_position (location @ ''.entities'') i @ ''.input_ports''),
       validate_proposal_ports (pa_output_ports a) (at_position (location @ ''.entities'') i @ ''.output_ports'')]"
| "validate_entity_ports location (i, ProposedUseCase u) =
     in_order [validate_proposal_ports (pu_input_ports u) (at_position (location @ ''.entities'') i @ ''.input_ports''),
       validate_proposal_ports (pu_output_ports u) (at_position (location @ ''.entities'') i @ ''.output_ports'')]"
| "validate_entity_ports location (i, e) = Inr ()"

definition proposal_sort_key :: "proposal_entity \<Rightarrow> string \<times> string" where
  "proposal_sort_key e = (proposal_kind_value (proposal_kind_of e), proposal_id e)"

definition proposal_index_of :: "proposal_entity list \<Rightarrow> proposal_index" where
  "proposal_index_of es = dict_of (map (\<lambda>e. (proposal_id e, e)) es)"

definition validate_candidate_proposal :: "candidate_proposal \<Rightarrow> string \<Rightarrow> (onboarding_error, unit) res" where
  "validate_candidate_proposal p location =
     (let es = cn_entities p; ids = map proposal_id es; by_id = proposal_index_of es in
      res_bind (ob_check (distinct ids) ObDuplicateIdentity ''proposal entity IDs must be globally unique''
        (location @ ''.entities'')) (\<lambda>_.
      res_bind (ob_check (sorted (map proposal_sort_key es)) ObNonCanonicalOrder
        ''proposal entities must be in canonical kind and ID order'' (location @ ''.entities'')) (\<lambda>_.
      res_bind (resolve_proposal_ref (cn_root p) by_id (location @ ''.root'')) (\<lambda>e.
      case e of
        ProposedUseCase root \<Rightarrow>
          res_bind (each_position (validate_entity_ports location) es) (\<lambda>_.
          res_bind (validate_proposal_steps root by_id ids location 0 [pu_id root] [] (pu_steps root)) (\<lambda>reachable.
          ob_check (set reachable = set ids) ObUnreachableEntity
            ''proposal contains an entity unreachable from its root'' (location @ ''.entities'')))
      | _ \<Rightarrow> Inl (OnboardingError ObWrongTargetKind ''proposal root must resolve to a proposed use case''
          (location @ ''.root''))))))"

section \<open>What a valid proposal is\<close>

text \<open>A reference resolves to an entity of the proposal.\<close>

definition names :: "proposal_entity list \<Rightarrow> proposal_ref \<Rightarrow> proposal_entity \<Rightarrow> bool" where
  "names es r e \<longleftrightarrow> e \<in> set es \<and> proposal_id e = pp_id r \<and> proposal_kind_of e = pp_kind r"

text \<open>A step that occurs before the first occurrence of another one.\<close>

definition earlier :: "string list \<Rightarrow> string \<Rightarrow> string \<Rightarrow> bool" where
  "earlier ids s t \<longleftrightarrow> t \<in> set (takeWhile (\<lambda>j. j \<noteq> s) ids)"

definition step_order :: "proposed_use_case \<Rightarrow> string list" where
  "step_order u = map pp_id (pu_steps u)"

text \<open>What a source refers to: an input of the use case, or an output of the action of an earlier step.\<close>

definition supplies :: "proposal_entity list \<Rightarrow> proposed_use_case \<Rightarrow> proposed_step \<Rightarrow> proposal_port_ref \<Rightarrow> port \<Rightarrow> bool" where
  "supplies es u s r q \<longleftrightarrow>
     names es (pq_owner r) (ProposedUseCase u) \<and> pq_direction r = Input \<and>
       find (\<lambda>p. po_name p = pq_name r) (pu_input_ports u) = Some q \<or>
     (\<exists>t a. names es (pq_owner r) (ProposedStep t) \<and> pq_direction r = Output \<and> earlier (step_order u) (ps_id s) (ps_id t) \<and>
       names es (ps_action t) (ProposedAction a) \<and> find (\<lambda>p. po_name p = pq_name r) (pa_output_ports a) = Some q)"

definition bound_name :: "proposed_binding \<Rightarrow> string" where
  "bound_name b = pq_name (pb_target b)"

definition binds_input :: "proposal_entity list \<Rightarrow> proposed_use_case \<Rightarrow> proposed_step \<Rightarrow> proposed_action \<Rightarrow> proposed_binding \<Rightarrow> bool" where
  "binds_input es u s a b \<longleftrightarrow>
     pq_owner (pb_target b) = \<lparr>pp_kind = ProposedStepKind, pp_id = ps_id s\<rparr> \<and> pq_direction (pb_target b) = Input \<and>
     (\<exists>p q. find (\<lambda>p. po_name p = bound_name b) (pa_input_ports a) = Some p \<and> supplies es u s (pb_source b) q \<and>
        po_value_kind q = po_value_kind p)"

definition step_bound ::
  "proposal_entity list \<Rightarrow> proposed_use_case \<Rightarrow> proposed_step \<Rightarrow> proposed_action \<Rightarrow> proposed_binding list \<Rightarrow> bool" where
  "step_bound es u s a bs \<longleftrightarrow> distinct (map pp_id (ps_bindings s)) \<and>
     list_all2 (\<lambda>r b. names es r (ProposedBinding b) \<and> binds_input es u s a b) (ps_bindings s) bs \<and>
     distinct (map bound_name bs) \<and> (\<forall>p \<in> set (pa_input_ports a). po_required p \<longrightarrow> po_name p \<in> bound_name ` set bs)"

definition step_checked ::
  "proposal_entity list \<Rightarrow> proposed_use_case \<Rightarrow> proposal_ref \<Rightarrow> proposed_step \<times> proposed_action \<times> proposed_binding list \<Rightarrow> bool" where
  "step_checked es u r sab \<longleftrightarrow> (case sab of (s, a, bs) \<Rightarrow>
     names es r (ProposedStep s) \<and> names es (ps_action s) (ProposedAction a) \<and> step_bound es u s a bs)"

fun ports_ok :: "proposal_entity \<Rightarrow> bool" where
  "ports_ok (ProposedAction a) \<longleftrightarrow> sorted_wrt (<) (map po_name (pa_input_ports a)) \<and> sorted_wrt (<) (map po_name (pa_output_ports a))"
| "ports_ok (ProposedUseCase u) \<longleftrightarrow> sorted_wrt (<) (map po_name (pu_input_ports u)) \<and> sorted_wrt (<) (map po_name (pu_output_ports u))"
| "ports_ok e \<longleftrightarrow> True"

definition used :: "proposed_step \<times> proposed_action \<times> proposed_binding list \<Rightarrow> proposal_entity set" where
  "used sab = (case sab of (s, a, bs) \<Rightarrow> {ProposedStep s, ProposedAction a} \<union> ProposedBinding ` set bs)"

definition proposal_ok :: "candidate_proposal \<Rightarrow> bool" where
  "proposal_ok p \<longleftrightarrow> distinct (map proposal_id (cn_entities p)) \<and> sorted (map proposal_sort_key (cn_entities p)) \<and>
     (\<forall>e \<in> set (cn_entities p). ports_ok e) \<and>
     (\<exists>u sabs. names (cn_entities p) (cn_root p) (ProposedUseCase u) \<and>
        list_all2 (step_checked (cn_entities p) u) (pu_steps u) sabs \<and>
        set (cn_entities p) = insert (ProposedUseCase u) (\<Union> (used ` set sabs)))"

section \<open>The validation accepts exactly the valid proposals\<close>

lemma ob_check_Inr [simp]: "ob_check c code m l = Inr x \<longleftrightarrow> c"
  by (simp add: ob_check_def)

lemma proposal_index_lookup:
  assumes "distinct (map proposal_id es)"
  shows "map_of (proposal_index_of es) i = Some e \<longleftrightarrow> e \<in> set es \<and> proposal_id e = i"
proof -
  have "map_of (proposal_index_of es) = map_of (map (\<lambda>e. (proposal_id e, e)) es)"
    unfolding proposal_index_of_def by (rule dict_of_distinct) (use assms in \<open>simp add: comp_def\<close>)
  then show ?thesis using assms by (auto simp: map_of_eq_Some_iff comp_def)
qed

lemma resolve_proposal_ref_Inr:
  assumes "distinct (map proposal_id es)"
  shows "resolve_proposal_ref r (proposal_index_of es) location = Inr e \<longleftrightarrow> names es r e"
proof -
  have "resolve_proposal_ref r (proposal_index_of es) location = Inr e \<longleftrightarrow>
      map_of (proposal_index_of es) (pp_id r) = Some e \<and> proposal_kind_of e = pp_kind r"
    by (auto simp: resolve_proposal_ref_def res_bind_Inr split: option.splits)
  then show ?thesis by (simp add: proposal_index_lookup [OF assms] names_def)
qed

lemma find_port_Inr: "find_port ps r location = Inr p \<longleftrightarrow> find (\<lambda>p. po_name p = pq_name r) ps = Some p"
  by (simp add: find_port_def split: option.splits)

lemma validate_proposal_ports_Inr:
  "validate_proposal_ports ps location = Inr () \<longleftrightarrow> sorted_wrt (<) (map po_name ps)"
  by (auto simp: validate_proposal_ports_def Let_def strict_sorted_iff)

lemma validate_entity_ports_Inr: "validate_entity_ports location (i, e) = Inr () \<longleftrightarrow> ports_ok e"
  by (cases e) (simp_all add: validate_proposal_ports_Inr)

subsection \<open>Positions\<close>

definition first_positions :: "string list \<Rightarrow> (string, nat) dict \<Rightarrow> bool" where
  "first_positions ids d \<longleftrightarrow> (\<forall>j. map_of d j = (if j \<in> set ids then Some (length (takeWhile (\<lambda>k. k \<noteq> j) ids)) else None))"

lemma takeWhile_fresh: "j \<notin> set xs \<Longrightarrow> takeWhile (\<lambda>k. k \<noteq> j) (xs @ ys) = xs @ takeWhile (\<lambda>k. k \<noteq> j) ys"
  by (induction xs) auto

lemma takeWhile_prefix: "j \<in> set xs \<Longrightarrow> takeWhile (\<lambda>k. k \<noteq> j) (xs @ ys) = takeWhile (\<lambda>k. k \<noteq> j) xs"
  by (induction xs) auto

lemma takeWhile_before:
  "s \<in> set xs \<Longrightarrow> t \<in> set xs \<and> length (takeWhile (\<lambda>k. k \<noteq> t) xs) < length (takeWhile (\<lambda>k. k \<noteq> s) xs) \<longleftrightarrow>
     t \<in> set (takeWhile (\<lambda>k. k \<noteq> s) xs)"
proof (induction xs)
  case (Cons x xs)
  then show ?case by (cases "x = s"; cases "x = t") auto
qed simp

lemma first_positions_snoc:
  assumes "first_positions ids d"
  shows "first_positions (ids @ [k]) (set_default k (length ids) d)"
  unfolding first_positions_def
proof
  fix j
  have d: "map_of d i = (if i \<in> set ids then Some (length (takeWhile (\<lambda>k. k \<noteq> i) ids)) else None)" for i
    using assms by (simp add: first_positions_def)
  show "map_of (set_default k (length ids) d) j =
      (if j \<in> set (ids @ [k]) then Some (length (takeWhile (\<lambda>k. k \<noteq> j) (ids @ [k]))) else None)"
  proof (cases "j \<in> set ids")
    case True
    then show ?thesis using d [of j] d [of k] by (auto simp: set_default_def map_of_update takeWhile_prefix)
  next
    case False
    then show ?thesis using d [of j] d [of k] by (auto simp: set_default_def map_of_update takeWhile_fresh)
  qed
qed

subsection \<open>Sources and bindings\<close>

lemma only_action:
  "(\<exists>e. P e \<and> (case e of ProposedAction a \<Rightarrow> f a | _ \<Rightarrow> Inl x) = Inr q) \<longleftrightarrow> (\<exists>a. P (ProposedAction a) \<and> f a = Inr q)"
  (is "?l \<longleftrightarrow> ?r")
proof
  assume ?l
  then obtain e where "P e" "(case e of ProposedAction a \<Rightarrow> f a | _ \<Rightarrow> Inl x) = Inr q" by blast
  then show ?r by (cases e) auto
qed (metis proposal_entity.case(1))

lemma only_binding:
  "(\<exists>e. P e \<and> (case e of ProposedBinding b \<Rightarrow> f b | _ \<Rightarrow> Inl x) = Inr q) \<longleftrightarrow> (\<exists>b. P (ProposedBinding b) \<and> f b = Inr q)"
  (is "?l \<longleftrightarrow> ?r")
proof
  assume ?l
  then obtain e where "P e" "(case e of ProposedBinding b \<Rightarrow> f b | _ \<Rightarrow> Inl x) = Inr q" by blast
  then show ?r by (cases e) auto
qed (metis proposal_entity.case(2))

lemma only_step:
  "(\<exists>e. P e \<and> (case e of ProposedStep s \<Rightarrow> f s | _ \<Rightarrow> Inl x) = Inr q) \<longleftrightarrow> (\<exists>s. P (ProposedStep s) \<and> f s = Inr q)"
  (is "?l \<longleftrightarrow> ?r")
proof
  assume ?l
  then obtain e where "P e" "(case e of ProposedStep s \<Rightarrow> f s | _ \<Rightarrow> Inl x) = Inr q" by blast
  then show ?r by (cases e) auto
qed (metis proposal_entity.case(3))

lemma only_use_case:
  "(\<exists>e. P e \<and> (case e of ProposedUseCase u \<Rightarrow> f u | _ \<Rightarrow> Inl x) = Inr q) \<longleftrightarrow> (\<exists>u. P (ProposedUseCase u) \<and> f u = Inr q)"
  (is "?l \<longleftrightarrow> ?r")
proof
  assume ?l
  then obtain e where "P e" "(case e of ProposedUseCase u \<Rightarrow> f u | _ \<Rightarrow> Inl x) = Inr q" by blast
  then show ?r by (cases e) auto
qed (metis proposal_entity.case(4))

lemmas only_kind = only_action only_binding only_step only_use_case

lemma names_unique:
  assumes "distinct (map proposal_id es)" "names es r e" "names es r' e'" "pp_id r = pp_id r'"
  shows "e = e'"
  using assms by (metis distinct_map inj_onD names_def)

lemma resolve_binding_source_Inr:
  assumes es: "distinct (map proposal_id es)" and root: "names es r (ProposedUseCase u)"
    and d: "first_positions ids d" and s: "ps_id s \<in> set ids"
    and order: "takeWhile (\<lambda>j. j \<noteq> ps_id s) ids = takeWhile (\<lambda>j. j \<noteq> ps_id s) (step_order u)"
  shows "resolve_binding_source source u (proposal_index_of es) s d location = Inr q \<longleftrightarrow> supplies es u s source q"
proof -
  note resolve = resolve_proposal_ref_Inr [OF es]
  obtain n where n: "map_of d (ps_id s) = Some n" "n = length (takeWhile (\<lambda>k. k \<noteq> ps_id s) ids)"
    using d s by (simp add: first_positions_def)
  have before: "(case map_of d t of None \<Rightarrow> False | Some m \<Rightarrow> m < n) \<longleftrightarrow> earlier (step_order u) (ps_id s) t" for t
    using d takeWhile_before [OF s, of t] n(2) by (auto simp: first_positions_def earlier_def order)
  have use_case: "names es (pq_owner source) (ProposedUseCase v) \<and> pu_id v = pu_id u \<longleftrightarrow>
      names es (pq_owner source) (ProposedUseCase u) \<and> v = u" for v
    using names_unique [OF es _ root, of _ "ProposedUseCase v"] root by (auto simp: names_def)
  show ?thesis
  proof (cases "\<exists>e. names es (pq_owner source) e")
    case False
    then show ?thesis by (auto simp: resolve_binding_source_def res_bind_Inr resolve supplies_def)
  next
    case True
    then obtain e where e: "names es (pq_owner source) e" by blast
    have only: "names es (pq_owner source) e' \<longleftrightarrow> e' = e" for e' using e names_unique [OF es _ e] by blast
    have eq: "resolve_proposal_ref (pq_owner source) (proposal_index_of es) location = Inr e" using e by (simp add: resolve)
    show ?thesis
    proof (cases e)
      case (ProposedUseCase v)
      then have "pu_id v = pu_id u \<longleftrightarrow> v = u" using use_case [of v] e by auto
      then show ?thesis using ProposedUseCase
        by (auto simp: resolve_binding_source_def eq res_bind_Inr find_port_Inr supplies_def only)
    next
      case (ProposedStep t)
      then show ?thesis
        by (simp add: resolve_binding_source_def eq n(1) before res_bind_Inr resolve only_kind find_port_Inr supplies_def only)
    qed (simp_all add: resolve_binding_source_def eq supplies_def only)
  qed
qed

lemma validate_step_binding_Inr:
  assumes es: "distinct (map proposal_id es)" and root: "names es r (ProposedUseCase u)"
    and d: "first_positions ids d" and s: "ps_id s \<in> set ids"
    and order: "takeWhile (\<lambda>j. j \<noteq> ps_id s) ids = takeWhile (\<lambda>j. j \<noteq> ps_id s) (step_order u)"
  shows "validate_step_binding u s a (proposal_index_of es) d location (i, ref) = Inr x \<longleftrightarrow>
    (\<exists>b. names es ref (ProposedBinding b) \<and> binds_input es u s a b \<and> x = (pb_id b, bound_name b))"
proof -
  have owner: "r = \<lparr>pp_kind = ProposedStepKind, pp_id = ps_id s\<rparr> \<longleftrightarrow> pp_kind r = ProposedStepKind \<and> pp_id r = ps_id s" for r
    by (cases r) simp
  have name: "find (\<lambda>p. po_name p = n) ps = Some p \<Longrightarrow> po_name p = n" for n ps p by (auto simp: find_Some_iff)
  have found: "find (\<lambda>p. po_name p = n) ps = Some p \<and> (\<exists>q. R q \<and> S q \<and> (k, po_name p) = x) \<longleftrightarrow>
      find (\<lambda>p. po_name p = n) ps = Some p \<and> (\<exists>q. R q \<and> S q) \<and> x = (k, n)" for n ps p R S k x
    using name by auto
  have "validate_step_binding u s a (proposal_index_of es) d location (i, ref) = Inr x \<longleftrightarrow>
      (\<exists>b. names es ref (ProposedBinding b) \<and> pp_kind (pq_owner (pb_target b)) = ProposedStepKind \<and>
        pp_id (pq_owner (pb_target b)) = ps_id s \<and> pq_direction (pb_target b) = Input \<and>
        (\<exists>p. find (\<lambda>p. po_name p = pq_name (pb_target b)) (pa_input_ports a) = Some p \<and>
          (\<exists>q. supplies es u s (pb_source b) q \<and> po_value_kind q = po_value_kind p \<and> (pb_id b, po_name p) = x)))"
    by (simp add: validate_step_binding_def Let_def res_bind_Inr resolve_proposal_ref_Inr [OF es] only_kind find_port_Inr
        resolve_binding_source_Inr [OF es root d s order])
  then show ?thesis unfolding found by (simp add: binds_input_def bound_name_def owner) blast
qed

lemma res_map_positions:
  assumes "\<And>i r x. f (i, r) = Inr x \<longleftrightarrow> (\<exists>b. P r b \<and> x = g b)"
  shows "res_map f (zip [n..<n + length rs] rs) = Inr xs \<longleftrightarrow> (\<exists>bs. list_all2 P rs bs \<and> xs = map g bs)"
proof (induction rs arbitrary: n xs)
  case (Cons r rs)
  have "res_map f (zip [n..<n + length (r # rs)] (r # rs)) = Inr xs \<longleftrightarrow>
      (\<exists>y ys. xs = y # ys \<and> f (n, r) = Inr y \<and> res_map f (zip [Suc n..<Suc n + length rs] rs) = Inr ys)"
    by (auto simp: upt_conv_Cons simp del: upt_Suc split: sum.splits)
  also have "\<dots> \<longleftrightarrow> (\<exists>b bs. xs = g b # map g bs \<and> P r b \<and> list_all2 P rs bs)"
    unfolding Cons.IH assms by blast
  also have "\<dots> \<longleftrightarrow> (\<exists>b bs. list_all2 P (r # rs) (b # bs) \<and> xs = map g (b # bs))" by auto
  also have "\<dots> \<longleftrightarrow> (\<exists>bs. list_all2 P (r # rs) bs \<and> xs = map g bs)" by (metis list_all2_Cons1)
  finally show ?case .
qed auto

lemma ex_image: "(\<exists>xs. (\<exists>bs. L bs \<and> xs = X bs) \<and> Q xs \<and> R xs) \<longleftrightarrow> (\<exists>bs. L bs \<and> Q (X bs) \<and> R (X bs))"
  by blast

lemma validate_step_bindings_Inr:
  assumes es: "distinct (map proposal_id es)" and root: "names es r (ProposedUseCase u)"
    and d: "first_positions ids d" and s: "ps_id s \<in> set ids"
    and order: "takeWhile (\<lambda>j. j \<noteq> ps_id s) ids = takeWhile (\<lambda>j. j \<noteq> ps_id s) (step_order u)"
  shows "validate_step_bindings u s a (proposal_index_of es) d location = Inr bound \<longleftrightarrow>
    (\<exists>bs. step_bound es u s a bs \<and> bound = map pb_id bs)"
proof -
  note each = res_map_positions [where f = "validate_step_binding u s a (proposal_index_of es) d location" and n = 0 and
      P = "\<lambda>r b. names es r (ProposedBinding b) \<and> binds_input es u s a b" and g = "\<lambda>b. (pb_id b, bound_name b)", simplified]
  have ok: "distinct (map snd xs) \<and> list_all (\<lambda>n. n \<in> set (map snd xs)) (map po_name (filter po_required (pa_input_ports a))) \<longleftrightarrow>
      distinct (map bound_name bs) \<and> (\<forall>p \<in> set (pa_input_ports a). po_required p \<longrightarrow> po_name p \<in> bound_name ` set bs)"
    if "xs = map (\<lambda>b. (pb_id b, bound_name b)) bs" for xs bs
    by (auto simp: that comp_def list_all_iff image_iff)
  have "validate_step_bindings u s a (proposal_index_of es) d location = Inr bound \<longleftrightarrow>
      distinct (map pp_id (ps_bindings s)) \<and> (\<exists>xs. (\<exists>bs. list_all2 (\<lambda>r b. names es r (ProposedBinding b) \<and> binds_input es u s a b)
        (ps_bindings s) bs \<and> xs = map (\<lambda>b. (pb_id b, bound_name b)) bs) \<and>
        (distinct (map snd xs) \<and> list_all (\<lambda>n. n \<in> set (map snd xs)) (map po_name (filter po_required (pa_input_ports a)))) \<and>
        map fst xs = bound)"
    by (simp add: validate_step_bindings_def res_bind_Inr Let_def each validate_step_binding_Inr [OF assms])
  also have "\<dots> \<longleftrightarrow> (\<exists>bs. step_bound es u s a bs \<and> bound = map pb_id bs)"
    unfolding ex_image ok [OF refl] step_bound_def by (auto simp: comp_def)
  finally show ?thesis .
qed

subsection \<open>Steps\<close>

definition reached_ids :: "proposed_step \<times> proposed_action \<times> proposed_binding list \<Rightarrow> string list" where
  "reached_ids sab = (case sab of (s, a, bs) \<Rightarrow> [ps_id s, pa_id a] @ map pb_id bs)"

lemma validate_proposal_steps_Inr:
  assumes es: "distinct (map proposal_id es)" and root: "names es r (ProposedUseCase u)"
  shows "first_positions past d \<Longrightarrow> past @ map pp_id refs = step_order u \<Longrightarrow>
    validate_proposal_steps u (proposal_index_of es) ids location (length past) reachable d refs = Inr R \<longleftrightarrow>
    (\<exists>sabs. list_all2 (step_checked es u) refs sabs \<and> R = reachable @ concat (map reached_ids sabs))"
proof (induction refs arbitrary: past d reachable)
  case Nil
  then show ?case by auto
next
  case (Cons ref refs)
  let ?here = "at_position (location @ ''.root.steps'') (length past)"
  let ?there = "\<lambda>s. at_position (location @ ''.entities'') (list_index (ps_id s) ids)"
  let ?d = "set_default (pp_id ref) (length past) d"
  have d: "first_positions (past @ [pp_id ref]) ?d" by (rule first_positions_snoc [OF Cons.prems(1)])
  have order: "takeWhile (\<lambda>j. j \<noteq> pp_id ref) (past @ [pp_id ref]) = takeWhile (\<lambda>j. j \<noteq> pp_id ref) (step_order u)"
    using takeWhile_prefix [of "pp_id ref" "past @ [pp_id ref]" "map pp_id refs"] Cons.prems(2) by simp
  have rest: "validate_proposal_steps u (proposal_index_of es) ids location (Suc (length past)) reachable' ?d refs = Inr R \<longleftrightarrow>
      (\<exists>sabs. list_all2 (step_checked es u) refs sabs \<and> R = reachable' @ concat (map reached_ids sabs))" for reachable'
    using Cons.IH [OF d, of reachable'] Cons.prems(2) by simp
  have bound: "validate_step_bindings u s a (proposal_index_of es) ?d l = Inr b \<longleftrightarrow> (\<exists>bs. step_bound es u s a bs \<and> b = map pb_id bs)"
    if "ps_id s = pp_id ref" for s a b l
    by (rule validate_step_bindings_Inr [OF es root d]) (simp_all add: that order)
  have "validate_proposal_steps u (proposal_index_of es) ids location (length past) reachable d (ref # refs) = Inr R \<longleftrightarrow>
      (\<exists>s. names es ref (ProposedStep s) \<and> (\<exists>a. names es (ps_action s) (ProposedAction a) \<and>
        (\<exists>b. validate_step_bindings u s a (proposal_index_of es) (set_default (ps_id s) (length past) d) (?there s) = Inr b \<and>
          validate_proposal_steps u (proposal_index_of es) ids location (Suc (length past))
            (reachable @ [ps_id s, pa_id a] @ b) (set_default (ps_id s) (length past) d) refs = Inr R)))"
    by (simp add: Let_def res_bind_Inr resolve_proposal_ref_Inr [OF es] only_kind)
  also have "\<dots> \<longleftrightarrow> (\<exists>s. names es ref (ProposedStep s) \<and> (\<exists>a. names es (ps_action s) (ProposedAction a) \<and>
        (\<exists>bs. step_bound es u s a bs \<and> (\<exists>sabs. list_all2 (step_checked es u) refs sabs \<and>
          R = (reachable @ [ps_id s, pa_id a] @ map pb_id bs) @ concat (map reached_ids sabs)))))"
  proof -
    have "names es ref (ProposedStep s) \<Longrightarrow> ps_id s = pp_id ref" for s by (simp add: names_def)
    then show ?thesis using bound rest by (intro ex_cong1 conj_cong refl) auto
  qed
  also have "\<dots> \<longleftrightarrow> (\<exists>sab sabs. step_checked es u ref sab \<and> list_all2 (step_checked es u) refs sabs \<and>
      R = reachable @ concat (map reached_ids (sab # sabs)))"
    by (auto simp: step_checked_def reached_ids_def)
  also have "\<dots> \<longleftrightarrow> (\<exists>sabs. list_all2 (step_checked es u) (ref # refs) sabs \<and> R = reachable @ concat (map reached_ids sabs))"
    by (metis list_all2_Cons1)
  finally show ?case .
qed

subsection \<open>Proposals\<close>

lemma checked_used:
  assumes "list_all2 (step_checked es u) refs sabs"
  shows "\<Union> (used ` set sabs) \<subseteq> set es"
    "set (concat (map reached_ids sabs)) = proposal_id ` \<Union> (used ` set sabs)"
proof -
  have bindings: "ProposedBinding ` set bs \<subseteq> set es" if "step_bound es u s a bs" for s a bs
    using that by (auto simp: step_bound_def names_def list_all2_conv_all_nth in_set_conv_nth)
  show "\<Union> (used ` set sabs) \<subseteq> set es"
  proof
    fix e assume "e \<in> \<Union> (used ` set sabs)"
    then obtain sab where sab: "sab \<in> set sabs" "e \<in> used sab" by blast
    then obtain r where "step_checked es u r sab" using assms by (auto simp: list_all2_conv_all_nth in_set_conv_nth)
    moreover obtain s a bs where "sab = (s, a, bs)" by (cases sab)
    ultimately show "e \<in> set es" using sab(2) bindings [of s a bs] by (auto simp: step_checked_def used_def names_def)
  qed
  have "set (reached_ids sab) = proposal_id ` used sab" for sab
    by (cases sab) (auto simp: reached_ids_def used_def image_iff)
  then show "set (concat (map reached_ids sabs)) = proposal_id ` \<Union> (used ` set sabs)" by auto
qed

lemma validate_candidate_proposal_Inr: "validate_candidate_proposal p location = Inr () \<longleftrightarrow> proposal_ok p"
proof (cases "distinct (map proposal_id (cn_entities p))")
  case False
  then show ?thesis by (simp add: validate_candidate_proposal_def proposal_ok_def Let_def res_bind_Inr)
next
  case True
  let ?es = "cn_entities p"
  have ports: "each_position (validate_entity_ports location) ?es = Inr x \<longleftrightarrow> (\<forall>e \<in> set ?es. ports_ok e)" for x
    by (auto simp: each_position_Inr validate_entity_ports_Inr all_set_conv_all_nth)
  have start: "first_positions [] []" by (simp add: first_positions_def)
  have steps: "validate_proposal_steps u (proposal_index_of ?es) (map proposal_id ?es) location 0 [pu_id u] [] (pu_steps u) = Inr R \<longleftrightarrow>
      (\<exists>sabs. list_all2 (step_checked ?es u) (pu_steps u) sabs \<and> R = pu_id u # concat (map reached_ids sabs))"
    if "names ?es (cn_root p) (ProposedUseCase u)" for u R
    using validate_proposal_steps_Inr [OF True that start, of "pu_steps u"] by (simp add: step_order_def)
  have reached: "set (pu_id u # concat (map reached_ids sabs)) = set (map proposal_id ?es) \<longleftrightarrow>
      set ?es = insert (ProposedUseCase u) (\<Union> (used ` set sabs))"
    if u: "names ?es (cn_root p) (ProposedUseCase u)" and sabs: "list_all2 (step_checked ?es u) (pu_steps u) sabs" for u sabs
  proof -
    let ?reached = "insert (ProposedUseCase u) (\<Union> (used ` set sabs))"
    have ids: "set (pu_id u # concat (map reached_ids sabs)) = proposal_id ` ?reached" using checked_used(2) [OF sabs] by simp
    have sub: "?reached \<subseteq> set ?es" using checked_used(1) [OF sabs] u by (auto simp: names_def)
    have inj: "inj_on proposal_id (set ?es)" using True by (simp add: distinct_map)
    show ?thesis unfolding ids set_map inj_on_image_eq_iff [OF inj sub subset_refl] by (rule eq_commute)
  qed
  have "validate_candidate_proposal p location = Inr () \<longleftrightarrow>
      sorted (map proposal_sort_key ?es) \<and> (\<forall>e \<in> set ?es. ports_ok e) \<and>
      (\<exists>u. names ?es (cn_root p) (ProposedUseCase u) \<and> (\<exists>R.
        validate_proposal_steps u (proposal_index_of ?es) (map proposal_id ?es) location 0 [pu_id u] [] (pu_steps u) = Inr R \<and>
        set R = set (map proposal_id ?es)))"
    by (auto simp: validate_candidate_proposal_def Let_def res_bind_Inr True resolve_proposal_ref_Inr [OF True] only_kind ports)
  also have "\<dots> \<longleftrightarrow> sorted (map proposal_sort_key ?es) \<and> (\<forall>e \<in> set ?es. ports_ok e) \<and>
      (\<exists>u. names ?es (cn_root p) (ProposedUseCase u) \<and> (\<exists>sabs. list_all2 (step_checked ?es u) (pu_steps u) sabs \<and>
        set ?es = insert (ProposedUseCase u) (\<Union> (used ` set sabs))))"
    using steps reached by (intro conj_cong ex_cong1 refl) (metis (no_types, lifting))
  also have "\<dots> \<longleftrightarrow> proposal_ok p"
    unfolding proposal_ok_def using True by blast
  finally show ?thesis .
qed

text \<open>
  C29: A proposal is accepted exactly when its identifiers are unique and its entities in canonical
  order, the names of its ports strictly increasing, its root is a use case whose steps call actions
  with each required input bound exactly once, to an input of the use case or an output of an earlier
  step of the same kind of value, and it has no other entities.
\<close>

theorem proposal_exact: "validate_candidate_proposal p location = Inr () \<longleftrightarrow> proposal_ok p"
  by (rule validate_candidate_proposal_Inr)

end
