(* ===== verification/Onboarding_Discovery.thy ===== *)
theory Onboarding_Discovery
  imports Onboarding_Proposal Inventory_Model
begin

text \<open>
  Discovery of behavior and the review of its candidates, \<^verbatim>\<open>src/ucf/onboarding\<close>: the models, the
  derived identities, and \<^verbatim>\<open>validate_discovery_exchange\<close> and \<^verbatim>\<open>validate_decision_set\<close> of
  \<^verbatim>\<open>validation.py\<close>. SHA-256 of canonical JSON is a parameter, a function of what the JSON is made of.
\<close>

section \<open>Models\<close>

record inventory_binding =
  ib_subject_uri :: string
  ib_source_revision :: string
  ib_digest :: string

record discovery_candidate =
  dc_id :: string
  dc_semantic_digest :: string
  dc_subject :: record_ref
  dc_evidence :: "record_ref list"
  dc_confidence :: pyval
  dc_proposal :: candidate_proposal

record discovery_diagnostic =
  dd_id :: string
  dd_severity :: string
  dd_code :: string
  dd_message :: string
  dd_evidence :: "record_ref option"

record discovery_coverage =
  dv_status :: string
  dv_eligible :: "record_ref list"
  dv_uncovered :: "record_ref list"

record discovery_request =
  dq_capability :: capability_selection
  dq_binding :: inventory_binding
  dq_inventory :: inventory_snapshot

record discovery_result =
  ds_binding :: inventory_binding
  ds_producer :: ir_producer
  ds_capability :: capability_selection
  ds_procedure_uri :: string
  ds_coverage :: discovery_coverage
  ds_diagnostics :: "discovery_diagnostic list"
  ds_candidates :: "discovery_candidate list"

record candidate_ref =
  cr_discovery_digest :: string
  cr_candidate_id :: string
  cr_semantic_digest :: string

record review =
  dn_id :: string
  dn_candidate :: candidate_ref
  dn_reason :: string

datatype decision =
    AcceptedDecision review
  | EditedDecision review string candidate_proposal
  | RejectedDecision review
  | UncertainDecision review

fun decision_head :: "decision \<Rightarrow> review" where
  "decision_head (AcceptedDecision h) = h"
| "decision_head (EditedDecision h d p) = h"
| "decision_head (RejectedDecision h) = h"
| "decision_head (UncertainDecision h) = h"

record capture_context =
  cc_captured_at :: string
  cc_environment :: string

record decision_set =
  de_discovery_digest :: string
  de_binding :: inventory_binding
  de_reviewer :: ir_producer
  de_capture_context :: capture_context
  de_decisions :: "decision list"

section \<open>Derived identities (identity.py)\<close>

record onboarding_digests =
  od_proposal :: "candidate_proposal \<Rightarrow> string"
  od_candidate :: "discovery_candidate \<times> capability_selection \<times> inventory_binding \<times> string \<times> ir_producer \<Rightarrow> string"
  od_decision :: "capture_context \<times> decision \<times> string \<times> inventory_binding \<times> ir_producer \<Rightarrow> string"
  od_discovery :: "discovery_result \<Rightarrow> string"
  od_decisions :: "decision_set \<Rightarrow> string"
  od_text :: "string \<Rightarrow> string"
  od_behavior :: "json \<Rightarrow> string"

definition derive_discovery_candidate_id :: "onboarding_digests \<Rightarrow> discovery_candidate \<Rightarrow> discovery_result \<Rightarrow> string" where
  "derive_discovery_candidate_id D c r = ''candidate.'' @
     od_candidate D (c\<lparr>dc_id := [], dc_semantic_digest := []\<rparr>, ds_capability r, ds_binding r, ds_procedure_uri r, ds_producer r)"

fun without_decision_id :: "decision \<Rightarrow> decision" where
  "without_decision_id (AcceptedDecision h) = AcceptedDecision (h\<lparr>dn_id := []\<rparr>)"
| "without_decision_id (EditedDecision h d p) = EditedDecision (h\<lparr>dn_id := []\<rparr>) d p"
| "without_decision_id (RejectedDecision h) = RejectedDecision (h\<lparr>dn_id := []\<rparr>)"
| "without_decision_id (UncertainDecision h) = UncertainDecision (h\<lparr>dn_id := []\<rparr>)"

definition derive_decision_id :: "onboarding_digests \<Rightarrow> decision \<Rightarrow> decision_set \<Rightarrow> string" where
  "derive_decision_id D d s = ''decision.'' @
     od_decision D (de_capture_context s, without_decision_id d, de_discovery_digest s, de_binding s, de_reviewer s)"

section \<open>The exchange with a discovery adapter\<close>

definition check_binding ::
  "(string \<Rightarrow> (onboarding_error, unit) res) \<Rightarrow> inventory_binding \<Rightarrow> inventory_binding \<Rightarrow> (onboarding_error, unit) res" where
  "check_binding mismatch a b = res_all (\<lambda>(field, x, y). if x = y then Inr () else mismatch field)
     [(''subject_uri'', ib_subject_uri a, ib_subject_uri b), (''source_revision'', ib_source_revision a, ib_source_revision b),
      (''canonical_digest'', ib_digest a, ib_digest b)]"

definition inventory_by_id :: "inventory_record list \<Rightarrow> (string, inventory_record) dict" where
  "inventory_by_id rs = dict_of (map (\<lambda>r. (record_id r, r)) rs)"

text \<open>A reference to a record of the inventory, with the two messages of its caller.\<close>

definition check_record_ref ::
  "inventory_record list \<Rightarrow> record_ref \<Rightarrow> string \<Rightarrow> string \<Rightarrow> string \<Rightarrow> (onboarding_error, unit) res" where
  "check_record_ref rs ref missing wrong location =
     (case map_of (inventory_by_id rs) (rf_id ref) of
        None \<Rightarrow> Inl (OnboardingError ObBrokenReference missing location)
      | Some target \<Rightarrow> ob_check (record_kind_of target = rf_kind ref) ObWrongTargetKind wrong location)"

definition validate_diagnostics :: "discovery_request \<Rightarrow> discovery_result \<Rightarrow> (onboarding_error, unit) res" where
  "validate_diagnostics request result =
     (let ids = map dd_id (ds_diagnostics result) in
      in_order
        [ob_check (distinct ids) ObDuplicateIdentity ''discovery diagnostic IDs must be unique'' ''$.diagnostics'',
         ob_check (sorted ids) ObNonCanonicalOrder ''discovery diagnostics must be sorted by ID'' ''$.diagnostics'',
         each_position (\<lambda>(i, d). case dd_evidence d of None \<Rightarrow> Inr ()
           | Some ref \<Rightarrow> check_record_ref (sn_records (dq_inventory request)) ref ''diagnostic evidence target does not exist''
               ''diagnostic evidence target has a different kind'' (at_position ''$.diagnostics'' i @ ''.evidence''))
           (ds_diagnostics result)])"

definition ref_key_of :: "record_ref \<Rightarrow> string \<times> string" where
  "ref_key_of r = (kind_value (rf_kind r), rf_id r)"

definition is_public_interface :: "inventory_record \<Rightarrow> bool" where
  "is_public_interface r = (record_kind_of r = FactRecord PublicInterface)"

definition validate_candidate ::
  "onboarding_digests \<Rightarrow> discovery_request \<Rightarrow> discovery_result \<Rightarrow> nat \<times> discovery_candidate \<Rightarrow> (onboarding_error, unit) res" where
  "validate_candidate D request result ic =
     (case ic of (i, c) \<Rightarrow>
      let location = at_position ''$.candidates'' i; rs = sn_records (dq_inventory request);
          keys = map ref_key_of (dc_evidence c) in
      in_order
        [validate_candidate_proposal (dc_proposal c) (location @ ''.proposal''),
         ob_check (dc_semantic_digest c = od_proposal D (dc_proposal c)) ObContentIdentityMismatch
           ''candidate semantic digest does not match its proposal'' (location @ ''.semantic_digest''),
         ob_check (dc_id c = derive_discovery_candidate_id D c result) ObContentIdentityMismatch
           ''candidate ID does not match its exact content and context'' (location @ ''.id''),
         ob_check (distinct keys \<and> sorted keys) ObNonCanonicalOrder
           ''candidate evidence must be unique and canonically sorted'' (location @ ''.evidence''),
         each_position (\<lambda>(j, ref). check_record_ref rs ref ''candidate evidence target does not exist''
           ''candidate evidence target has a different kind'' (at_position (location @ ''.evidence'') j)) (dc_evidence c),
         (case map_of (inventory_by_id rs) (rf_id (dc_subject c)) of
            None \<Rightarrow> Inl (OnboardingError ObBrokenReference ''candidate subject target does not exist'' (location @ ''.subject''))
          | Some target \<Rightarrow> ob_check (rf_kind (dc_subject c) = FactRecord PublicInterface \<and> is_public_interface target)
              ObWrongTargetKind ''candidate subject must resolve to a public interface'' (location @ ''.subject'')),
         ob_check (dc_subject c \<in> set (dc_evidence c)) ObSummaryMismatch ''candidate evidence must include its subject''
           (location @ ''.evidence'')])"

definition interface_keys :: "inventory_record list \<Rightarrow> (string \<times> string) list" where
  "interface_keys rs = map (\<lambda>r. (kind_value (FactRecord PublicInterface), record_id r)) (filter is_public_interface rs)"

definition validate_coverage :: "discovery_request \<Rightarrow> discovery_result \<Rightarrow> (onboarding_error, unit) res" where
  "validate_coverage request result =
     (let coverage = ds_coverage result; eligible = map ref_key_of (dv_eligible coverage);
          uncovered = map ref_key_of (dv_uncovered coverage); expected = interface_keys (sn_records (dq_inventory request)) in
      in_order
        [res_all (\<lambda>(location, keys). ob_check (distinct keys \<and> sorted keys) ObNonCanonicalOrder
           ''coverage references must be unique and canonically sorted'' location)
           [(''$.coverage.eligible_subjects'', eligible), (''$.coverage.uncovered_subjects'', uncovered)],
         ob_check (set eligible = set expected) ObSummaryMismatch
           ''eligible subjects do not match inventory public interfaces'' ''$.coverage.eligible_subjects'',
         ob_check (set uncovered \<subseteq> set expected) ObBrokenReference
           ''uncovered subjects must be eligible public interfaces'' ''$.coverage.uncovered_subjects'',
         ob_check (set (map (ref_key_of \<circ> dc_subject) (ds_candidates result)) = set expected - set uncovered) ObSummaryMismatch
           ''candidate subjects do not match declared discovery coverage'' ''$.coverage''])"

definition validate_candidates :: "onboarding_digests \<Rightarrow> discovery_request \<Rightarrow> discovery_result \<Rightarrow> (onboarding_error, unit) res" where
  "validate_candidates D request result =
     (let ids = map dc_id (ds_candidates result) in
      in_order
        [ob_check (distinct ids) ObDuplicateIdentity ''discovery candidate IDs must be unique'' ''$.candidates'',
         ob_check (sorted ids) ObNonCanonicalOrder ''discovery candidates must be sorted by content identity'' ''$.candidates'',
         ob_check (distinct (map dc_semantic_digest (ds_candidates result))) ObDuplicateIdentity
           ''discovery candidates must have unique semantic proposals'' ''$.candidates'',
         each_position (validate_candidate D request result) (ds_candidates result),
         validate_coverage request result])"

definition validate_discovery_exchange ::
  "onboarding_digests \<Rightarrow> discovery_request \<Rightarrow> discovery_result \<Rightarrow> (onboarding_error, unit) res" where
  "validate_discovery_exchange D request result = in_order
     [check_binding (\<lambda>field. Inl (OnboardingError ObDocumentIdentityMismatch
        ''discovery result names a different inventory snapshot'' (''$.inventory_binding.'' @ field)))
        (dq_binding request) (ds_binding result),
      validate_diagnostics request result, validate_candidates D request result]"

section \<open>The decisions of the reviewer\<close>

definition stale_decision :: "bool \<Rightarrow> string \<Rightarrow> string \<Rightarrow> (onboarding_error, unit) res" where
  "stale_decision ok message location = ob_check ok ObStaleDecision message location"

definition candidates_by_id :: "discovery_result \<Rightarrow> (string, discovery_candidate) dict" where
  "candidates_by_id discovery = dict_of (map (\<lambda>c. (dc_id c, c)) (ds_candidates discovery))"

definition decided :: "decision_set \<Rightarrow> string list" where
  "decided s = map (\<lambda>d. cr_candidate_id (dn_candidate (decision_head d))) (de_decisions s)"

definition validate_decision ::
  "onboarding_digests \<Rightarrow> discovery_result \<Rightarrow> decision_set \<Rightarrow> nat \<times> decision \<Rightarrow> (onboarding_error, unit) res" where
  "validate_decision D discovery s x =
     (case x of (i, d) \<Rightarrow>
      let location = at_position ''$.decisions'' i; ref = dn_candidate (decision_head d) in
      case map_of (candidates_by_id discovery) (cr_candidate_id ref) of
        None \<Rightarrow> Inl (OnboardingException ''KeyError'')
      | Some c \<Rightarrow>
          in_order
            [stale_decision (cr_discovery_digest ref = od_discovery D discovery)
               ''candidate reference names a different discovery document'' (location @ ''.candidate.discovery_digest''),
             stale_decision (cr_semantic_digest ref = dc_semantic_digest c)
               ''candidate semantic digest is stale'' (location @ ''.candidate.semantic_digest''),
             (case d of
                EditedDecision h digest p \<Rightarrow>
                  in_order [validate_candidate_proposal p (location @ ''.replacement''),
                    stale_decision (digest = od_proposal D p) ''edited replacement digest is stale'' (location @ ''.replacement_digest'')]
              | _ \<Rightarrow> Inr ()),
             ob_check (dn_id (decision_head d) = derive_decision_id D d s) ObContentIdentityMismatch
               ''decision ID does not match its exact content and context'' (location @ ''.id'')])"

definition validate_decision_set :: "onboarding_digests \<Rightarrow> discovery_result \<Rightarrow> decision_set \<Rightarrow> (onboarding_error, unit) res" where
  "validate_decision_set D discovery s = in_order
     [stale_decision (de_discovery_digest s = od_discovery D discovery)
        ''decision set names a different discovery document'' ''$.discovery.canonical_digest'',
      check_binding (\<lambda>field. stale_decision False ''decision set names a different inventory snapshot''
        (''$.inventory_binding.'' @ field)) (de_binding s) (ds_binding discovery),
      stale_decision (length (decided s) = length (candidates_by_id discovery) \<and> distinct (decided s) \<and>
        set (decided s) = set (dict_keys (candidates_by_id discovery)))
        ''decisions must cover every current candidate exactly once'' ''$.decisions'',
      each_position (validate_decision D discovery s) (de_decisions s),
      ob_check (sorted (decided s)) ObNonCanonicalOrder ''decisions must be sorted by candidate ID'' ''$.decisions'']"

section \<open>What the validations accept\<close>

definition resolves_record :: "inventory_record list \<Rightarrow> record_ref \<Rightarrow> inventory_record \<Rightarrow> bool" where
  "resolves_record rs ref r \<longleftrightarrow> map_of (inventory_by_id rs) (rf_id ref) = Some r \<and> record_kind_of r = rf_kind ref"

abbreviation canonical :: "'a::linorder list \<Rightarrow> bool" where
  "canonical xs \<equiv> sorted_wrt (<) xs"

definition candidate_ok :: "onboarding_digests \<Rightarrow> inventory_record list \<Rightarrow> discovery_result \<Rightarrow> discovery_candidate \<Rightarrow> bool" where
  "candidate_ok D rs result c \<longleftrightarrow> proposal_ok (dc_proposal c) \<and> dc_semantic_digest c = od_proposal D (dc_proposal c) \<and>
     dc_id c = derive_discovery_candidate_id D c result \<and> canonical (map ref_key_of (dc_evidence c)) \<and>
     (\<forall>ref \<in> set (dc_evidence c). \<exists>r. resolves_record rs ref r) \<and>
     rf_kind (dc_subject c) = FactRecord PublicInterface \<and> dc_subject c \<in> set (dc_evidence c)"

definition discovery_covered :: "inventory_record list \<Rightarrow> discovery_result \<Rightarrow> bool" where
  "discovery_covered rs result \<longleftrightarrow>
     canonical (map ref_key_of (dv_eligible (ds_coverage result))) \<and> canonical (map ref_key_of (dv_uncovered (ds_coverage result))) \<and>
     set (map ref_key_of (dv_eligible (ds_coverage result))) = set (interface_keys rs) \<and>
     set (map ref_key_of (dv_uncovered (ds_coverage result))) \<union> (ref_key_of \<circ> dc_subject) ` set (ds_candidates result) = set (interface_keys rs) \<and>
     set (map ref_key_of (dv_uncovered (ds_coverage result))) \<inter> (ref_key_of \<circ> dc_subject) ` set (ds_candidates result) = {}"

definition exchange_ok :: "onboarding_digests \<Rightarrow> discovery_request \<Rightarrow> discovery_result \<Rightarrow> bool" where
  "exchange_ok D request result \<longleftrightarrow> (let rs = sn_records (dq_inventory request) in
     dq_binding request = ds_binding result \<and> canonical (map dd_id (ds_diagnostics result)) \<and>
     (\<forall>d \<in> set (ds_diagnostics result). \<forall>ref. dd_evidence d = Some ref \<longrightarrow> (\<exists>r. resolves_record rs ref r)) \<and>
     canonical (map dc_id (ds_candidates result)) \<and> distinct (map dc_semantic_digest (ds_candidates result)) \<and>
     (\<forall>c \<in> set (ds_candidates result). candidate_ok D rs result c) \<and> discovery_covered rs result)"

text \<open>A decision about a candidate of the discovery, made for exactly this discovery.\<close>

definition decision_ok :: "onboarding_digests \<Rightarrow> discovery_result \<Rightarrow> decision_set \<Rightarrow> decision \<Rightarrow> bool" where
  "decision_ok D discovery s d \<longleftrightarrow> (\<exists>c. map_of (candidates_by_id discovery) (cr_candidate_id (dn_candidate (decision_head d))) = Some c \<and>
     cr_semantic_digest (dn_candidate (decision_head d)) = dc_semantic_digest c) \<and>
     cr_discovery_digest (dn_candidate (decision_head d)) = od_discovery D discovery \<and>
     (\<forall>h digest p. d = EditedDecision h digest p \<longrightarrow> proposal_ok p \<and> digest = od_proposal D p) \<and>
     dn_id (decision_head d) = derive_decision_id D d s"

definition decisions_ok :: "onboarding_digests \<Rightarrow> discovery_result \<Rightarrow> decision_set \<Rightarrow> bool" where
  "decisions_ok D discovery s \<longleftrightarrow> de_discovery_digest s = od_discovery D discovery \<and> de_binding s = ds_binding discovery \<and>
     canonical (decided s) \<and> set (decided s) = dc_id ` set (ds_candidates discovery) \<and>
     (\<forall>d \<in> set (de_decisions s). decision_ok D discovery s d)"

lemma canonical_iff: "distinct xs \<and> sorted xs \<longleftrightarrow> canonical xs"
  by (auto simp: strict_sorted_iff)

lemma check_binding_Inr:
  assumes "\<And>field. mismatch field \<noteq> Inr ()"
  shows "check_binding mismatch a b = Inr () \<longleftrightarrow> a = b"
  using assms by (cases a; cases b) (auto simp: check_binding_def res_all_Inr simp del: res_all.simps)

lemma check_record_ref_Inr: "check_record_ref rs ref m w l = Inr () \<longleftrightarrow> (\<exists>r. resolves_record rs ref r)"
  by (auto simp: check_record_ref_def resolves_record_def split: option.splits)

lemma validate_diagnostics_Inr:
  "validate_diagnostics request result = Inr () \<longleftrightarrow> canonical (map dd_id (ds_diagnostics result)) \<and>
     (\<forall>d \<in> set (ds_diagnostics result). \<forall>ref. dd_evidence d = Some ref \<longrightarrow> (\<exists>r. resolves_record (sn_records (dq_inventory request)) ref r))"
proof -
  have "(case x of None \<Rightarrow> Inr () | Some ref \<Rightarrow> check_record_ref rs ref m w l) = Inr () \<longleftrightarrow>
      (\<forall>ref. x = Some ref \<longrightarrow> (\<exists>r. resolves_record rs ref r))" for x rs m w l
    by (cases x) (simp_all add: check_record_ref_Inr)
  then show ?thesis
    by (simp add: validate_diagnostics_def Let_def each_position_Inr all_set_conv_all_nth strict_sorted_iff) blast
qed

lemma validate_candidate_Inr:
  "validate_candidate D request result (i, c) = Inr () \<longleftrightarrow> candidate_ok D (sn_records (dq_inventory request)) result c"
proof -
  let ?rs = "sn_records (dq_inventory request)"
  have subject: "(case map_of (inventory_by_id ?rs) (rf_id (dc_subject c)) of
        None \<Rightarrow> Inl (OnboardingError ObBrokenReference ''candidate subject target does not exist'' l)
      | Some target \<Rightarrow> ob_check (rf_kind (dc_subject c) = FactRecord PublicInterface \<and> is_public_interface target) e m l) = Inr () \<longleftrightarrow>
      rf_kind (dc_subject c) = FactRecord PublicInterface \<and> (\<exists>r. resolves_record ?rs (dc_subject c) r)" for e m l
    by (auto simp: resolves_record_def is_public_interface_def split: option.splits)
  have refs: "each_position (\<lambda>(j, ref). check_record_ref ?rs ref m w (l j)) (dc_evidence c) = Inr () \<longleftrightarrow>
      (\<forall>ref \<in> set (dc_evidence c). \<exists>r. resolves_record ?rs ref r)" for m w l
    by (simp add: each_position_Inr check_record_ref_Inr all_set_conv_all_nth)
  show ?thesis
    unfolding validate_candidate_def Let_def prod.case in_order_Inr candidate_ok_def
    by (simp only: validate_candidate_proposal_Inr subject refs canonical_iff list.set ball_simps ob_check_Inr insert_iff) blast
qed

lemma validate_coverage_Inr: "validate_coverage request result = Inr () \<longleftrightarrow> discovery_covered (sn_records (dq_inventory request)) result"
proof -
  let ?E = "set (interface_keys (sn_records (dq_inventory request)))"
  let ?U = "set (map ref_key_of (dv_uncovered (ds_coverage result)))"
  let ?S = "set (map (ref_key_of \<circ> dc_subject) (ds_candidates result))"
  have "validate_coverage request result = Inr () \<longleftrightarrow>
      (canonical (map ref_key_of (dv_eligible (ds_coverage result))) \<and> canonical (map ref_key_of (dv_uncovered (ds_coverage result)))) \<and>
      set (map ref_key_of (dv_eligible (ds_coverage result))) = ?E \<and> (?U \<subseteq> ?E \<and> ?S = ?E - ?U)"
    by (simp only: validate_coverage_def Let_def in_order_Inr res_all_Inr list.set ball_simps insert_iff ob_check_Inr canonical_iff
        prod.case simp_thms conj_assoc)
  also have "?U \<subseteq> ?E \<and> ?S = ?E - ?U \<longleftrightarrow> ?U \<union> ?S = ?E \<and> ?U \<inter> ?S = {}" by blast
  finally show ?thesis by (simp add: discovery_covered_def)
qed

lemma validate_discovery_exchange_Inr: "validate_discovery_exchange D request result = Inr () \<longleftrightarrow> exchange_ok D request result"
proof -
  have "validate_candidates D request result = Inr () \<longleftrightarrow> canonical (map dc_id (ds_candidates result)) \<and>
      distinct (map dc_semantic_digest (ds_candidates result)) \<and>
      (\<forall>c \<in> set (ds_candidates result). candidate_ok D (sn_records (dq_inventory request)) result c) \<and>
      discovery_covered (sn_records (dq_inventory request)) result"
    by (auto simp: validate_candidates_def Let_def each_position_Inr validate_candidate_Inr validate_coverage_Inr
        all_set_conv_all_nth strict_sorted_iff)
  then show ?thesis
    by (simp add: validate_discovery_exchange_def exchange_ok_def Let_def validate_diagnostics_Inr check_binding_Inr)
qed

lemma validate_decision_Inr: "validate_decision D discovery s (i, d) = Inr () \<longleftrightarrow> decision_ok D discovery s d"
proof -
  have edited: "(case d of
        EditedDecision h digest p \<Rightarrow> in_order [validate_candidate_proposal p l, stale_decision (digest = od_proposal D p) m l']
      | _ \<Rightarrow> Inr ()) = Inr () \<longleftrightarrow> (\<forall>h digest p. d = EditedDecision h digest p \<longrightarrow> proposal_ok p \<and> digest = od_proposal D p)" for l m l'
    by (cases d) (simp_all add: stale_decision_def validate_candidate_proposal_Inr)
  show ?thesis
    unfolding validate_decision_def Let_def prod.case decision_ok_def
    by (cases "map_of (candidates_by_id discovery) (cr_candidate_id (dn_candidate (decision_head d)))")
      (simp_all add: edited, auto simp: stale_decision_def)
qed

lemma validate_decision_set_Inr: "validate_decision_set D discovery s = Inr () \<longleftrightarrow> decisions_ok D discovery s"
proof -
  have keys: "set (dict_keys (candidates_by_id discovery)) = dc_id ` set (ds_candidates discovery)"
    using keys_merge [of "[]" "map (\<lambda>c. (dc_id c, c)) (ds_candidates discovery)"] by (simp add: candidates_by_id_def image_image)
  have "distinct (dict_keys (candidates_by_id discovery))"
    using wf_dict_merge [of "[]"] by (simp add: candidates_by_id_def wf_dict_def)
  then have cover: "length (decided s) = length (candidates_by_id discovery) \<and> distinct (decided s) \<and>
        set (decided s) = set (dict_keys (candidates_by_id discovery)) \<longleftrightarrow>
      distinct (decided s) \<and> set (decided s) = dc_id ` set (ds_candidates discovery)"
    unfolding keys [symmetric] by (metis distinct_card length_map)
  show ?thesis
    unfolding validate_decision_set_def in_order_Inr decisions_ok_def cover
    by (simp add: stale_decision_def check_binding_Inr each_position_Inr validate_decision_Inr all_set_conv_all_nth strict_sorted_iff) blast
qed

section \<open>Properties\<close>

text \<open>
  C30: The result of a discovery is accepted exactly when it is about the inventory asked for, its
  diagnostics and candidates are in canonical order, every candidate is a valid proposal for a public
  interface of the inventory with evidence there and identities derived from its content, no two
  candidates propose the same, and the interfaces with a candidate and those declared uncovered are,
  without overlap, all public interfaces of the inventory.
\<close>

theorem discovery_exact: "validate_discovery_exchange D request result = Inr () \<longleftrightarrow> exchange_ok D request result"
  by (rule validate_discovery_exchange_Inr)

text \<open>
  A set of decisions is accepted exactly when it is about this discovery and its inventory, it
  decides every candidate once in the order of their identifiers, and every decision names the content
  it was made for, with a valid proposal for an edited candidate and the identity derived from it.
\<close>

theorem decisions_exact: "validate_decision_set D discovery s = Inr () \<longleftrightarrow> decisions_ok D discovery s"
  by (rule validate_decision_set_Inr)

end
