(* ===== verification/Onboarding_Materialize.thy ===== *)
theory Onboarding_Materialize
  imports Onboarding_Discovery IR_Canonical_Form "HOL-Library.Multiset"
begin

text \<open>
  The behavior of the accepted and edited candidates, \<^verbatim>\<open>src/ucf/onboarding/reconciliation.py\<close>:
  the entities of their proposals with the provenance of their decisions, as one behavior document, and
  what each decision contributed to it.
\<close>

section \<open>Entities\<close>

fun behavior_kind :: "proposal_kind \<Rightarrow> entity_kind" where
  "behavior_kind ProposedActionKind = ActionKind"
| "behavior_kind ProposedBindingKind = BindingKind"
| "behavior_kind ProposedStepKind = StepKind"
| "behavior_kind ProposedUseCaseKind = UseCaseKind"

definition materialized_ref :: "proposal_ref \<Rightarrow> entity_ref" where
  "materialized_ref r = \<lparr>er_kind = behavior_kind (pp_kind r), er_id = pp_id r\<rparr>"

definition materialized_port_ref :: "proposal_port_ref \<Rightarrow> port_ref" where
  "materialized_port_ref r = \<lparr>pr_owner = materialized_ref (pq_owner r), pr_direction = pq_direction r, pr_name = pq_name r\<rparr>"

fun materialize_entity :: "entity_ref \<Rightarrow> proposal_entity \<Rightarrow> entity" where
  "materialize_entity prov (ProposedAction a) = Action \<lparr>ac_id = pa_id a, ac_input_ports = pa_input_ports a,
     ac_output_ports = pa_output_ports a, ac_effects = [], ac_requires = [], ac_provenance = prov\<rparr>"
| "materialize_entity prov (ProposedBinding b) = Binding \<lparr>bi_id = pb_id b, bi_target = materialized_port_ref (pb_target b),
     bi_source = PortSource (materialized_port_ref (pb_source b)), bi_provenance = prov\<rparr>"
| "materialize_entity prov (ProposedStep s) = Step (ir_step.make (ps_id s) (materialized_ref (ps_action s))
     (map materialized_ref (ps_bindings s)) [] [] [] prov)"
| "materialize_entity prov (ProposedUseCase u) = UseCase \<lparr>us_id = pu_id u, us_input_ports = pu_input_ports u,
     us_output_ports = pu_output_ports u, us_steps = map materialized_ref (pu_steps u), us_invariants = [], us_requires = [],
     us_provenance = prov\<rparr>"

definition materialize_proposal :: "candidate_proposal \<Rightarrow> entity_ref \<Rightarrow> entity list" where
  "materialize_proposal p prov = map (materialize_entity prov) (cn_entities p)"

section \<open>The document\<close>

type_synonym choice = "decision \<times> candidate_proposal"

fun select_proposals :: "discovery_result \<Rightarrow> decision list \<Rightarrow> (onboarding_error, choice list) res" where
  "select_proposals discovery [] = Inr []"
| "select_proposals discovery (d # ds) =
     (let candidate = map_of (candidates_by_id discovery) (cr_candidate_id (dn_candidate (decision_head d)));
          select = (\<lambda>p. res_bind (validate_candidate_proposal p ''$'') (\<lambda>_.
            res_bind (select_proposals discovery ds) (\<lambda>rest. Inr ((d, p) # rest)))) in
      case d of
        AcceptedDecision h \<Rightarrow>
          (case candidate of None \<Rightarrow> Inl (OnboardingException ''KeyError'') | Some c \<Rightarrow> select (dc_proposal c))
      | EditedDecision h digest p \<Rightarrow>
          (case candidate of
             None \<Rightarrow> res_bind (validate_candidate_proposal p ''$'') (\<lambda>_. Inl (OnboardingException ''KeyError''))
           | Some c \<Rightarrow> select p)
      | _ \<Rightarrow> select_proposals discovery ds)"

definition choice_ids :: "choice \<Rightarrow> string list" where
  "choice_ids x = map proposal_id (cn_entities (snd x))"

definition decision_id :: "choice \<Rightarrow> string" where
  "decision_id x = dn_id (decision_head (fst x))"

definition decision_provenance_id :: "onboarding_digests \<Rightarrow> choice \<Rightarrow> string" where
  "decision_provenance_id D x = ''provenance.'' @ od_text D (decision_id x)"

definition provenance_ref :: "onboarding_digests \<Rightarrow> choice \<Rightarrow> entity_ref" where
  "provenance_ref D x = \<lparr>er_kind = ProvenanceKind, er_id = decision_provenance_id D x\<rparr>"

definition decision_provenance :: "onboarding_digests \<Rightarrow> decision_set \<Rightarrow> choice \<Rightarrow> entity" where
  "decision_provenance D s x = IR_Model.Provenance (IR_Model.ir_provenance.make (decision_provenance_id D x)
     (''urn:ucf:onboarding:decision-set:'' @ od_decisions D s) (od_decisions D s) (de_reviewer s)
     (cc_captured_at (de_capture_context s)))"

definition choice_entities :: "onboarding_digests \<Rightarrow> decision_set \<Rightarrow> choice \<Rightarrow> entity list" where
  "choice_entities D s x = decision_provenance D s x # materialize_proposal (snd x) (provenance_ref D x)"

text \<open>The loop over the selected proposals with \<^verbatim>\<open>entities\<close>, \<^verbatim>\<open>root_refs\<close> and \<^verbatim>\<open>provenance_ids\<close>.\<close>

fun materialize_choices ::
  "onboarding_digests \<Rightarrow> decision_set \<Rightarrow> string list \<Rightarrow> entity list \<Rightarrow> entity_ref list \<Rightarrow> (string, string) dict \<Rightarrow> choice list \<Rightarrow>
     (onboarding_error, entity list \<times> entity_ref list \<times> (string, string) dict) res" where
  "materialize_choices D s proposal_ids entities roots provenance_ids [] = Inr (entities, roots, provenance_ids)"
| "materialize_choices D s proposal_ids entities roots provenance_ids (x # xs) =
     (let p = decision_provenance_id D x in
      res_bind (ob_check (p \<notin> set proposal_ids \<and> p \<notin> snd ` set provenance_ids) ObDuplicateIdentity
        ''decision provenance collides on a behavior entity ID'' ''$.behavior.entities'') (\<lambda>_.
      materialize_choices D s proposal_ids (entities @ choice_entities D s x) (roots @ [materialized_ref (cn_root (snd x))])
        (AList.update (decision_id x) p provenance_ids) xs))"

definition parse_canonical :: "behavior_ir \<Rightarrow> (onboarding_error, behavior_ir) res" where
  "parse_canonical d = (case validate_ir_semantics (canonical_document d) of
     Inl e \<Rightarrow> Inl (OnboardingIrError e) | Inr _ \<Rightarrow> Inr (canonical_document d))"

record materialization =
  mt_candidate :: candidate_ref
  mt_decision_id :: string
  mt_root :: behavior_entity_ref
  mt_entities :: "behavior_entity_ref list"

definition behavior_ref_of :: "onboarding_digests \<Rightarrow> behavior_ir \<Rightarrow> entity \<Rightarrow> behavior_entity_ref" where
  "behavior_ref_of D behavior e = \<lparr>bl_document = \<lparr>br_document_id = be_document_id behavior,
     br_digest = od_behavior D (canonical_ir behavior)\<rparr>, bl_subject = entity_key e\<rparr>"

definition index_entity :: "behavior_ir \<Rightarrow> string \<Rightarrow> (onboarding_error, entity) res" where
  "index_entity behavior i = (case map_of (dict_of (map (\<lambda>e. (entity_id e, e)) (be_entities behavior))) i of
     None \<Rightarrow> Inl (OnboardingException ''KeyError'') | Some e \<Rightarrow> Inr e)"

definition link_choice ::
  "onboarding_digests \<Rightarrow> behavior_ir \<Rightarrow> (string, string) dict \<Rightarrow> choice \<Rightarrow> (onboarding_error, materialization) res" where
  "link_choice D behavior provenance_ids x =
     (case map_of provenance_ids (decision_id x) of
        None \<Rightarrow> Inl (OnboardingException ''KeyError'')
      | Some p \<Rightarrow>
          res_bind (res_map (index_entity behavior) (sorted_set (choice_ids x) @ [p])) (\<lambda>es.
          res_bind (index_entity behavior (pp_id (cn_root (snd x)))) (\<lambda>root.
          Inr \<lparr>mt_candidate = dn_candidate (decision_head (fst x)), mt_decision_id = decision_id x,
            mt_root = behavior_ref_of D behavior root,
            mt_entities = sort_key bl_subject (map (behavior_ref_of D behavior) es)\<rparr>)))"

definition materialize_behavior ::
  "onboarding_digests \<Rightarrow> discovery_result \<Rightarrow> decision_set \<Rightarrow> (onboarding_error, behavior_ir \<times> materialization list) res" where
  "materialize_behavior D discovery s =
     res_bind (validate_decision_set D discovery s) (\<lambda>_.
     res_bind (select_proposals discovery (de_decisions s)) (\<lambda>selected.
     let proposal_ids = concat (map choice_ids selected) in
     res_bind (ob_check (distinct proposal_ids) ObDuplicateIdentity
       ''accepted and edited proposals collide on behavior entity IDs'' ''$.behavior.entities'') (\<lambda>_.
     res_bind (materialize_choices D s proposal_ids [] [] [] selected) (\<lambda>(entities, roots, provenance_ids).
     res_bind (parse_canonical \<lparr>be_document_id = ''behavior.'' @ od_decisions D s, be_roots = roots, be_entities = entities\<rparr>)
       (\<lambda>behavior.
     res_bind (res_map (link_choice D behavior provenance_ids) selected) (\<lambda>links.
     Inr (behavior, links)))))))"

section \<open>What is materialized\<close>

definition chosen :: "discovery_result \<Rightarrow> decision list \<Rightarrow> choice list" where
  "chosen discovery ds = List.map_filter (\<lambda>d. case d of
       AcceptedDecision h \<Rightarrow> map_option (\<lambda>c. (d, dc_proposal c)) (map_of (candidates_by_id discovery) (cr_candidate_id (dn_candidate h)))
     | EditedDecision h digest p \<Rightarrow> Some (d, p)
     | _ \<Rightarrow> None) ds"

definition chosen_document :: "onboarding_digests \<Rightarrow> decision_set \<Rightarrow> choice list \<Rightarrow> behavior_ir" where
  "chosen_document D s xs = \<lparr>be_document_id = ''behavior.'' @ od_decisions D s,
     be_roots = map (\<lambda>x. materialized_ref (cn_root (snd x))) xs, be_entities = concat (map (choice_entities D s) xs)\<rparr>"

text \<open>The identifiers of the entities of the document are all different.\<close>

definition choices_ok :: "onboarding_digests \<Rightarrow> choice list \<Rightarrow> bool" where
  "choices_ok D xs \<longleftrightarrow> (\<forall>x \<in> set xs. proposal_ok (snd x)) \<and> distinct (concat (map choice_ids xs) @ map (decision_provenance_id D) xs)"

lemma select_proposals_Inr:
  assumes "\<forall>d \<in> set ds. map_of (candidates_by_id discovery) (cr_candidate_id (dn_candidate (decision_head d))) \<noteq> None"
  shows "select_proposals discovery ds = Inr xs \<longleftrightarrow> xs = chosen discovery ds \<and> (\<forall>x \<in> set xs. proposal_ok (snd x))"
  using assms
proof (induction ds arbitrary: xs)
  case Nil
  then show ?case by (auto simp: chosen_def List.map_filter_simps)
next
  case (Cons d ds)
  obtain c where c: "map_of (candidates_by_id discovery) (cr_candidate_id (dn_candidate (decision_head d))) = Some c"
    using Cons.prems by auto
  have rest: "select_proposals discovery ds = Inr ys \<longleftrightarrow> ys = chosen discovery ds \<and> (\<forall>x \<in> set ys. proposal_ok (snd x))" for ys
    using Cons by simp
  show ?case using c
    by (cases d) (auto simp: Let_def res_bind_Inr rest validate_candidate_proposal_Inr chosen_def List.map_filter_simps)
qed

definition provenance_links :: "onboarding_digests \<Rightarrow> choice list \<Rightarrow> (string, string) dict" where
  "provenance_links D xs = map (\<lambda>x. (decision_id x, decision_provenance_id D x)) xs"

lemma materialize_choices_Inr:
  assumes "distinct (map (decision_provenance_id D) ys)"
  shows "materialize_choices D s ids es rs (provenance_links D ys) xs = Inr r \<longleftrightarrow>
    distinct (map (decision_provenance_id D) (ys @ xs)) \<and> decision_provenance_id D ` set xs \<inter> set ids = {} \<and>
    r = (es @ concat (map (choice_entities D s) xs), rs @ map (\<lambda>x. materialized_ref (cn_root (snd x))) xs, provenance_links D (ys @ xs))"
  using assms
proof (induction xs arbitrary: ys es rs)
  case Nil
  then show ?case by auto
next
  case (Cons x xs)
  have seen: "snd ` set (provenance_links D ys) = decision_provenance_id D ` set ys" by (auto simp: provenance_links_def image_iff)
  show ?case
  proof (cases "decision_provenance_id D x \<in> set ids \<or> decision_provenance_id D x \<in> decision_provenance_id D ` set ys")
    case True
    then show ?thesis by (auto simp: Let_def res_bind_Inr seen)
  next
    case False
    then have "decision_id x \<notin> set (dict_keys (provenance_links D ys))"
      by (auto simp: provenance_links_def decision_provenance_id_def)
    then have update: "AList.update (decision_id x) (decision_provenance_id D x) (provenance_links D ys) = provenance_links D (ys @ [x])"
      by (simp add: update_new) (simp add: provenance_links_def)
    have "distinct (map (decision_provenance_id D) (ys @ [x]))" using False Cons.prems by auto
    from Cons.IH [OF this] show ?thesis using False by (auto simp: Let_def res_bind_Inr seen update)
  qed
qed

lemma parse_canonical_Inr: "parse_canonical d = Inr b \<longleftrightarrow> ir_ok d \<and> b = canonical_document d"
  using validate_ir_semantics_Inr [of "canonical_document d"]
  by (cases "validate_ir_semantics (canonical_document d)") (auto simp: parse_canonical_def ir_ok_canonical)

section \<open>The document is valid\<close>

lemma has_ports_mono: "set es \<subseteq> set es' \<Longrightarrow> has_ports es r ps \<Longrightarrow> has_ports es' r ps"
  unfolding has_ports_def by blast

lemma port_at_mono: "set es \<subseteq> set es' \<Longrightarrow> port_at es r p \<Longrightarrow> port_at es' r p"
  unfolding port_at_def using has_ports_mono by blast

lemma refers_to_mono: "set es \<subseteq> set es' \<Longrightarrow> refers_to es K r \<Longrightarrow> refers_to es' K r"
  unfolding refers_to_def by blast

lemma refs_to_mono: "set es \<subseteq> set es' \<Longrightarrow> refs_to es K rs \<Longrightarrow> refs_to es' K rs"
  unfolding refs_to_def using refers_to_mono by blast

lemma source_ok_mono: "set es \<subseteq> set es' \<Longrightarrow> source_ok es source p \<Longrightarrow> source_ok es' source p"
  unfolding source_ok_def using port_at_mono [of es es'] by (cases source) (simp; blast)+

lemma binding_ok_mono: "set es \<subseteq> set es' \<Longrightarrow> binding_ok es b \<Longrightarrow> binding_ok es' b"
  unfolding binding_ok_def using port_at_mono source_ok_mono by blast

lemma requires_capability_mono: "set es \<subseteq> set es' \<Longrightarrow> requires_capability es rs \<Longrightarrow> requires_capability es' rs"
  unfolding requires_capability_def by blast

lemma entity_ok_mono: "set es \<subseteq> set es' \<Longrightarrow> entity_ok es e \<Longrightarrow> entity_ok es' e"
  using refers_to_mono refs_to_mono binding_ok_mono requires_capability_mono by (cases e) (simp; blast)+

subsection \<open>The entities of one choice\<close>

lemma materialized_entity [simp]:
  "entity_id (materialize_entity prov e) = proposal_id e"
  "kind_of (materialize_entity prov e) = behavior_kind (proposal_kind_of e)"
  by (cases e; simp add: ir_step.make_def)+

lemma materialized_ref_simps [simp]:
  "er_id (materialized_ref r) = pp_id r" "er_kind (materialized_ref r) = behavior_kind (pp_kind r)"
  by (simp_all add: materialized_ref_def)

lemma names_materialized: "names es r e \<Longrightarrow> materialize_entity prov e \<in> set E \<Longrightarrow> refers_to E {behavior_kind (pp_kind r)} (materialized_ref r)"
  unfolding names_def refers_to_def by (intro bexI [of _ "materialize_entity prov e"]) auto

lemma behavior_kind_eq [simp]:
  "behavior_kind k = UseCaseKind \<longleftrightarrow> k = ProposedUseCaseKind" "behavior_kind k = StepKind \<longleftrightarrow> k = ProposedStepKind"
  "behavior_kind k = ActionKind \<longleftrightarrow> k = ProposedActionKind" "behavior_kind k = BindingKind \<longleftrightarrow> k = ProposedBindingKind"
  by (cases k; simp)+

lemma step_port_at:
  assumes E: "\<And>e. e \<in> set es \<Longrightarrow> materialize_entity prov e \<in> set E"
    and s: "ProposedStep s \<in> set es" "pq_owner r = \<lparr>pp_kind = ProposedStepKind, pp_id = ps_id s\<rparr>"
    and a: "names es (ps_action s) (ProposedAction a)"
    and p: "find (\<lambda>p. po_name p = pq_name r) (ports_of_direction (pq_direction r) (pa_input_ports a) (pa_output_ports a)) = Some p"
  shows "port_at E (materialized_port_ref r) p"
proof -
  have "has_ports E (materialized_port_ref r) (ports_of_direction (pq_direction r) (pa_input_ports a) (pa_output_ports a))"
    unfolding has_ports_def materialized_port_ref_def
    using E [OF s(1)] E [of "ProposedAction a"] s(2) a
    by (intro disjI2 exI conjI) (auto simp: names_def ir_step.make_def)
  then show ?thesis using p unfolding port_at_def by (auto simp: materialized_port_ref_def)
qed

lemma use_case_port_at:
  assumes E: "\<And>e. e \<in> set es \<Longrightarrow> materialize_entity prov e \<in> set E"
    and u: "names es (pq_owner r) (ProposedUseCase u)" "pq_direction r = Input"
    and p: "find (\<lambda>p. po_name p = pq_name r) (pu_input_ports u) = Some p"
  shows "port_at E (materialized_port_ref r) p"
proof -
  have "has_ports E (materialized_port_ref r) (pu_input_ports u)"
    unfolding has_ports_def materialized_port_ref_def
    using E [of "ProposedUseCase u"] u
    by (intro disjI1 exI conjI) (auto simp: names_def ports_of_direction_def)
  then show ?thesis using p unfolding port_at_def by (auto simp: materialized_port_ref_def)
qed

lemma supplies_source:
  assumes E: "\<And>e. e \<in> set es \<Longrightarrow> materialize_entity prov e \<in> set E"
    and q: "supplies es u s r q" "po_value_kind q = po_value_kind p"
  shows "source_ok E (PortSource (materialized_port_ref r)) p"
  using q(1) unfolding supplies_def
proof (elim disjE exE conjE)
  assume u: "names es (pq_owner r) (ProposedUseCase u)" "pq_direction r = Input"
    "find (\<lambda>p. po_name p = pq_name r) (pu_input_ports u) = Some q"
  from use_case_port_at [OF E this] u(1,2) show ?thesis using q(2)
    by (auto simp: source_ok_def materialized_port_ref_def names_def)
next
  fix t a
  assume t: "names es (pq_owner r) (ProposedStep t)" "pq_direction r = Output"
    and a: "names es (ps_action t) (ProposedAction a)" "find (\<lambda>p. po_name p = pq_name r) (pa_output_ports a) = Some q"
  have owner: "pq_owner r = \<lparr>pp_kind = ProposedStepKind, pp_id = ps_id t\<rparr>" using t(1) by (cases "pq_owner r") (simp add: names_def)
  have "port_at E (materialized_port_ref r) q"
    by (rule step_port_at [OF E _ owner a(1)]) (use t a(2) in \<open>simp_all add: names_def ports_of_direction_def\<close>)
  then show ?thesis using q(2) owner t(2) by (auto simp: source_ok_def materialized_port_ref_def)
qed

lemma ports_ok_distinct: "sorted_wrt (<) (map po_name ps) \<Longrightarrow> distinct (map po_name ps)"
  by (simp add: strict_sorted_iff)

lemma materialized_ref_inj: "distinct (map pp_id rs) \<Longrightarrow> distinct (map materialized_ref rs)"
  by (auto simp: distinct_map inj_on_def materialized_ref_def)

lemma binding_materialized:
  assumes E: "\<And>e. e \<in> set es \<Longrightarrow> materialize_entity prov e \<in> set E"
    and s: "ProposedStep s \<in> set es" "names es (ps_action s) (ProposedAction a)"
    and b: "binds_input es u s a b"
  shows "binding_ok E \<lparr>bi_id = pb_id b, bi_target = materialized_port_ref (pb_target b),
    bi_source = PortSource (materialized_port_ref (pb_source b)), bi_provenance = prov\<rparr>"
proof -
  from b obtain p q where p: "find (\<lambda>p. po_name p = pq_name (pb_target b)) (pa_input_ports a) = Some p"
    and q: "supplies es u s (pb_source b) q" "po_value_kind q = po_value_kind p"
    and owner: "pq_owner (pb_target b) = \<lparr>pp_kind = ProposedStepKind, pp_id = ps_id s\<rparr>" "pq_direction (pb_target b) = Input"
    unfolding binds_input_def bound_name_def by blast
  have "port_at E (materialized_port_ref (pb_target b)) p"
    by (rule step_port_at [OF E s(1) owner(1) s(2)]) (use p owner(2) in \<open>simp_all add: ports_of_direction_def\<close>)
  then show ?thesis using supplies_source [OF E q] owner
    by (auto simp: binding_ok_def materialized_port_ref_def)
qed

lemma step_materialized:
  assumes E: "\<And>e. e \<in> set es \<Longrightarrow> materialize_entity prov e \<in> set E" and prov: "refers_to E {ProvenanceKind} prov"
    and sab: "step_checked es u r sab" and e: "e \<in> used sab" and ports: "\<And>e. e \<in> set es \<Longrightarrow> ports_ok e"
  shows "entity_ok E (materialize_entity prov e)"
proof -
  obtain s a bs where sab_eq: "sab = (s, a, bs)" by (cases sab)
  have s: "names es r (ProposedStep s)" and a: "names es (ps_action s) (ProposedAction a)" and bound: "step_bound es u s a bs"
    using sab by (simp_all add: step_checked_def sab_eq)
  have bs: "names es ref (ProposedBinding b) \<and> binds_input es u s a b" if "(ref, b) \<in> set (zip (ps_bindings s) bs)" for ref b
    using bound that by (auto simp: step_bound_def list_all2_iff)
  have same: "length (ps_bindings s) = length bs" using bound by (auto simp: step_bound_def list_all2_iff)
  consider (step) "e = ProposedStep s" | (action) "e = ProposedAction a" | (bind) b where "b \<in> set bs" "e = ProposedBinding b"
    using e by (auto simp: used_def sab_eq)
  then show ?thesis
  proof cases
    case step
    have "refers_to E {BindingKind} (materialized_ref ref)" if ref: "ref \<in> set (ps_bindings s)" for ref
    proof -
      obtain b where "(ref, b) \<in> set (zip (ps_bindings s) bs)" using ref same by (metis in_set_impl_in_set_zip1)
      with bs have b: "names es ref (ProposedBinding b)" by blast
      then show ?thesis using names_materialized [OF b E] by (auto simp: names_def)
    qed
    moreover have "refers_to E {ActionKind} (materialized_ref (ps_action s))"
      using names_materialized [OF a E] a by (auto simp: names_def)
    ultimately show ?thesis using prov bound materialized_ref_inj [of "ps_bindings s"]
      by (auto simp: step refs_to_def ir_step.make_def step_bound_def)
  next
    case action
    have "ProposedAction a \<in> set es" using a by (simp add: names_def)
    then have "ports_ok (ProposedAction a)" by (rule ports)
    then show ?thesis using prov by (simp add: action refs_to_def ports_ok_distinct)
  next
    case bind
    then obtain ref where "(ref, b) \<in> set (zip (ps_bindings s) bs)" using same by (metis in_set_impl_in_set_zip2)
    then have b: "binds_input es u s a b" using bs by blast
    have "ProposedStep s \<in> set es" using s by (simp add: names_def)
    from binding_materialized [OF E this a b] show ?thesis using prov by (simp add: bind)
  qed
qed

lemma list_all2_partner: "list_all2 P xs ys \<Longrightarrow> x \<in> set xs \<Longrightarrow> \<exists>y. P x y"
  by (induction xs ys rule: list_all2_induct) auto

lemma proposal_materialized:
  assumes ok: "proposal_ok p" and E: "set (materialize_proposal p prov) \<subseteq> set E" and prov: "refers_to E {ProvenanceKind} prov"
    and e: "e \<in> set (cn_entities p)"
  shows "entity_ok E (materialize_entity prov e)"
proof -
  let ?es = "cn_entities p"
  have in_E: "materialize_entity prov e \<in> set E" if "e \<in> set ?es" for e using E that by (auto simp: materialize_proposal_def)
  from ok obtain u sabs where u: "names ?es (cn_root p) (ProposedUseCase u)"
    and sabs: "list_all2 (step_checked ?es u) (pu_steps u) sabs"
    and all: "set ?es = insert (ProposedUseCase u) (\<Union> (used ` set sabs))"
    unfolding proposal_ok_def by blast
  have ports: "\<And>e. e \<in> set ?es \<Longrightarrow> ports_ok e" using ok by (simp add: proposal_ok_def)
  from e all consider (root) "e = ProposedUseCase u" | (step) sab where "sab \<in> set sabs" "e \<in> used sab" by blast
  then show ?thesis
  proof cases
    case root
    have "refers_to E {StepKind} (materialized_ref r)" if r: "r \<in> set (pu_steps u)" for r
    proof -
      obtain sab where "step_checked ?es u r sab" using list_all2_partner [OF sabs r] by blast
      then obtain s where s: "names ?es r (ProposedStep s)" by (auto simp: step_checked_def)
      then show ?thesis using names_materialized [OF s in_E] by (auto simp: names_def)
    qed
    moreover have "ports_ok (ProposedUseCase u)" by (rule ports) (use u in \<open>simp add: names_def\<close>)
    ultimately show ?thesis using prov by (simp add: root refs_to_def ports_ok_distinct)
  next
    case step
    obtain r where "step_checked ?es u r sab" using sabs step(1) by (auto simp: list_all2_conv_all_nth in_set_conv_nth)
    from step_materialized [OF in_E prov this step(2) ports] show ?thesis by simp
  qed
qed

subsection \<open>All entities\<close>

lemma choice_entity_ids: "map entity_id (choice_entities D s x) = decision_provenance_id D x # choice_ids x"
  by (simp add: choice_entities_def decision_provenance_def IR_Model.ir_provenance.make_def materialize_proposal_def choice_ids_def)

lemma distinct_interleaved: "distinct (concat (map (\<lambda>x. f x # g x) xs)) \<longleftrightarrow> distinct (concat (map g xs) @ map f xs)"
  by (induction xs) auto

lemma distinct_picks:
  assumes "distinct (concat (map g xs))" and "\<And>x. x \<in> set xs \<Longrightarrow> f x \<in> set (g x)"
  shows "distinct (map f xs)"
  using assms
proof (induction xs)
  case (Cons a xs)
  have "f a \<in> set (g a)" and "\<And>x. x \<in> set xs \<Longrightarrow> f x \<in> set (g x)" using Cons.prems(2) by simp_all
  moreover from this(2) have "f ` set xs \<subseteq> set (concat (map g xs))" by auto
  ultimately show ?case using Cons.IH Cons.prems(1) by auto
qed simp

lemma no_capabilities: "capability_names (concat (map (choice_entities D s) xs)) = []"
proof -
  have "capability_names (materialize_proposal p prov) = []" for p prov
  proof -
    have "capability_names (map (materialize_entity prov) es) = []" for es
    proof (induction es)
      case (Cons e es)
      then show ?case by (cases e) simp_all
    qed simp
    then show ?thesis by (simp add: materialize_proposal_def)
  qed
  moreover have "capability_names (es @ es') = capability_names es @ capability_names es'" for es es'
    by (simp add: capability_names_def List.map_filter_def)
  ultimately show ?thesis by (induction xs) (simp_all add: choice_entities_def decision_provenance_def)
qed

lemma chosen_document_ok:
  assumes "choices_ok D xs"
  shows "ir_ok (chosen_document D s xs)"
proof -
  let ?E = "concat (map (choice_entities D s) xs)"
  have ids: "map entity_id ?E = concat (map (\<lambda>x. decision_provenance_id D x # choice_ids x) xs)"
    by (simp add: map_concat comp_def choice_entity_ids)
  have all: "distinct (concat (map choice_ids xs) @ map (decision_provenance_id D) xs)" and ok: "\<And>x. x \<in> set xs \<Longrightarrow> proposal_ok (snd x)"
    using assms by (auto simp: choices_ok_def)
  have "distinct (map entity_id ?E)"
    unfolding ids distinct_interleaved by (rule all)
  moreover have "refs_to ?E {UseCaseKind} (map (\<lambda>x. materialized_ref (cn_root (snd x))) xs)"
  proof -
    have root: "\<exists>u. names (cn_entities (snd x)) (cn_root (snd x)) (ProposedUseCase u)" if "x \<in> set xs" for x
      using ok [OF that] unfolding proposal_ok_def by blast
    have "pp_id (cn_root (snd x)) \<in> set (choice_ids x)" if "x \<in> set xs" for x
      using root [OF that] by (force simp: choice_ids_def names_def)
    with all have "distinct (map (\<lambda>x. pp_id (cn_root (snd x))) xs)" by (intro distinct_picks [of choice_ids]) auto
    then have "distinct (map (\<lambda>x. materialized_ref (cn_root (snd x))) xs)" by (auto simp: distinct_map inj_on_def materialized_ref_def)
    moreover have "refers_to ?E {UseCaseKind} (materialized_ref (cn_root (snd x)))" if x: "x \<in> set xs" for x
    proof -
      obtain u where u: "names (cn_entities (snd x)) (cn_root (snd x)) (ProposedUseCase u)" using root [OF x] by blast
      have "materialize_entity (provenance_ref D x) (ProposedUseCase u) \<in> set ?E"
        using u x by (auto simp: choice_entities_def materialize_proposal_def names_def simp del: materialize_entity.simps)
      from names_materialized [OF u this] u show ?thesis by (auto simp: names_def)
    qed
    ultimately show ?thesis by (auto simp: refs_to_def)
  qed
  moreover have "entity_ok ?E e" if e: "e \<in> set ?E" for e
  proof -
    obtain x where x: "x \<in> set xs" "e \<in> set (choice_entities D s x)" using e by auto
    then have sub: "set (materialize_proposal (snd x) (provenance_ref D x)) \<subseteq> set ?E" "decision_provenance D s x \<in> set ?E"
      by (auto simp: choice_entities_def)
    have prov: "refers_to ?E {ProvenanceKind} (provenance_ref D x)"
      unfolding refers_to_def
      by (intro bexI [OF _ sub(2)]) (simp add: provenance_ref_def decision_provenance_def IR_Model.ir_provenance.make_def)
    show ?thesis
    proof (cases "e = decision_provenance D s x")
      case True
      then show ?thesis by (simp add: decision_provenance_def)
    next
      case False
      then obtain e' where "e' \<in> set (cn_entities (snd x))" "e = materialize_entity (provenance_ref D x) e'"
        using x(2) by (auto simp: choice_entities_def materialize_proposal_def simp del: materialize_entity.simps)
      then show ?thesis using proposal_materialized [OF ok [OF x(1)] sub(1) prov] by simp
    qed
  qed
  ultimately show ?thesis by (simp add: ir_ok_def chosen_document_def no_capabilities)
qed

section \<open>What each decision contributed\<close>

definition contribution :: "onboarding_digests \<Rightarrow> decision_set \<Rightarrow> behavior_ir \<Rightarrow> choice \<Rightarrow> materialization" where
  "contribution D s behavior x =
     (let here = (\<lambda>k. \<lparr>bl_document = \<lparr>br_document_id = be_document_id behavior, br_digest = od_behavior D (canonical_ir behavior)\<rparr>,
        bl_subject = k\<rparr>) in
      \<lparr>mt_candidate = dn_candidate (decision_head (fst x)), mt_decision_id = decision_id x,
       mt_root = here (entity_kind_value UseCaseKind, pp_id (cn_root (snd x))),
       mt_entities = map here (sort (map entity_key (choice_entities D s x)))\<rparr>)"

lemma index_entity_Inr:
  assumes "distinct (map entity_id (be_entities b))" "e \<in> set (be_entities b)"
  shows "index_entity b (entity_id e) = Inr e"
proof -
  have "map_of (dict_of (map (\<lambda>e. (entity_id e, e)) (be_entities b))) = map_of (map (\<lambda>e. (entity_id e, e)) (be_entities b))"
    by (rule dict_of_distinct) (use assms(1) in \<open>simp add: comp_def\<close>)
  moreover have "map_of (map (\<lambda>e. (entity_id e, e)) (be_entities b)) (entity_id e) = Some e"
    using assms by (auto simp: map_of_eq_Some_iff comp_def)
  ultimately show ?thesis by (simp add: index_entity_def)
qed

lemma sort_mset_cong: "mset xs = mset ys \<Longrightarrow> sort xs = sort ys"
  by (rule properties_for_sort) simp_all

lemma link_choice_Inr:
  assumes ok: "choices_ok D xs" and x: "x \<in> set xs" and b: "b = canonical_document (chosen_document D s xs)"
  shows "link_choice D b (provenance_links D xs) x = Inr (contribution D s b x)"
proof -
  let ?E = "choice_entities D s x" and ?here = "\<lambda>e. behavior_ref_of D b e"
  define located where "located = (\<lambda>k. \<lparr>bl_document = \<lparr>br_document_id = be_document_id b, br_digest = od_behavior D (canonical_ir b)\<rparr>,
    bl_subject = k\<rparr>)"
  define pick where "pick i = the (map_of (map (\<lambda>e. (entity_id e, e)) ?E) i)" for i
  have valid: "ir_ok b" unfolding b ir_ok_canonical by (rule chosen_document_ok [OF ok])
  have ids: "map entity_id ?E = decision_provenance_id D x # choice_ids x" by (rule choice_entity_ids)
  have "distinct (concat (map choice_ids xs) @ map (decision_provenance_id D) xs)" using ok by (simp add: choices_ok_def)
  then have "distinct (concat (map (\<lambda>x. decision_provenance_id D x # choice_ids x) xs))" unfolding distinct_interleaved .
  then have own: "distinct (decision_provenance_id D x # choice_ids x)" using x by (auto simp: distinct_concat_iff)
  have pick: "pick (entity_id e) = e" if "e \<in> set ?E" for e
  proof -
    have "map_of (map (\<lambda>e. (entity_id e, e)) ?E) (entity_id e) = Some e"
      using own that unfolding ids [symmetric] by (auto simp: map_of_eq_Some_iff comp_def)
    then show ?thesis by (simp add: pick_def)
  qed
  then have "map pick (map entity_id ?E) = ?E" by (simp add: map_idI)
  then have picked: "map pick (decision_provenance_id D x # choice_ids x) = ?E" by (simp only: ids)
  have index: "index_entity b i = Inr (canonical_form (pick i))" if i: "i \<in> set (decision_provenance_id D x # choice_ids x)" for i
  proof -
    obtain e where e: "e \<in> set ?E" "i = entity_id e" using i unfolding ids [symmetric] by auto
    have "canonical_form e \<in> set (be_entities b)" using e(1) x by (auto simp: b canonical_document_def chosen_document_def)
    from index_entity_Inr [OF _ this] valid show ?thesis using e pick by (simp add: ir_ok_def)
  qed
  have each: "res_map (index_entity b) (sorted_set (choice_ids x) @ [decision_provenance_id D x]) =
      Inr (map (\<lambda>i. canonical_form (pick i)) (sorted_set (choice_ids x) @ [decision_provenance_id D x]))"
    by (rule res_map_total) (use index in auto)
  have here: "?here (canonical_form e) = located (entity_key e)" for e
    by (simp add: behavior_ref_of_def located_def entity_key_form)
  have "sort_key bl_subject (map ?here (map (\<lambda>i. canonical_form (pick i)) (sorted_set (choice_ids x) @ [decision_provenance_id D x]))) =
      sort_key bl_subject (map located (map entity_key (map pick (sorted_set (choice_ids x) @ [decision_provenance_id D x]))))"
    by (simp add: here comp_def)
  also have "\<dots> = map located (sort (map entity_key (map pick (sorted_set (choice_ids x) @ [decision_provenance_id D x]))))"
    by (rule map_sort_key [symmetric]) (simp add: located_def)
  also have "sort (map entity_key (map pick (sorted_set (choice_ids x) @ [decision_provenance_id D x]))) = sort (map entity_key ?E)"
  proof -
    have "mset (sorted_set (choice_ids x) @ [decision_provenance_id D x]) = mset (decision_provenance_id D x # choice_ids x)"
      using own by (simp add: sorted_set_def distinct_remdups_id)
    then show ?thesis unfolding picked [symmetric] by (intro sort_mset_cong) (simp only: mset_map)
  qed
  finally have entities: "sort_key bl_subject (map ?here (map (\<lambda>i. canonical_form (pick i)) (sorted_set (choice_ids x) @ [decision_provenance_id D x]))) =
    map located (sort (map entity_key ?E))" .
  have "proposal_ok (snd x)" using ok x by (simp add: choices_ok_def)
  then obtain u where u: "names (cn_entities (snd x)) (cn_root (snd x)) (ProposedUseCase u)" unfolding proposal_ok_def by blast
  let ?u = "materialize_entity (provenance_ref D x) (ProposedUseCase u)"
  have "?u \<in> set ?E" "entity_id ?u = pp_id (cn_root (snd x))"
    using u by (auto simp: choice_entities_def materialize_proposal_def names_def simp del: materialize_entity.simps)
  then have "pp_id (cn_root (snd x)) \<in> set (map entity_id ?E)" "pick (pp_id (cn_root (snd x))) = ?u"
    using pick [of ?u] by (force simp del: materialize_entity.simps)+
  then have "index_entity b (pp_id (cn_root (snd x))) = Inr (canonical_form ?u)"
    using index [of "pp_id (cn_root (snd x))"] unfolding ids by (simp only:)
  moreover have "entity_key ?u = (entity_kind_value UseCaseKind, pp_id (cn_root (snd x)))"
    using u by (simp add: entity_key_def names_def)
  moreover have "map_of (provenance_links D xs) (decision_id x) = Some (decision_provenance_id D x)"
  proof -
    have "(decision_id x, decision_provenance_id D x) \<in> set (provenance_links D xs)" using x by (auto simp: provenance_links_def)
    then obtain p where p: "map_of (provenance_links D xs) (decision_id x) = Some p" by (metis map_of_None_keys not_Some_eq rev_image_eqI fst_conv set_map)
    from map_of_SomeD [OF this] have "p = decision_provenance_id D x" by (auto simp: provenance_links_def decision_provenance_id_def)
    with p show ?thesis by simp
  qed
  ultimately show ?thesis
    by (simp only: link_choice_def option.case each res_bind_simps entities here contribution_def Let_def located_def)
qed

section \<open>The materialization\<close>

lemma materialize_links_Inr:
  assumes "choices_ok D xs" "b = canonical_document (chosen_document D s xs)"
  shows "res_map (link_choice D b (provenance_links D xs)) xs = Inr (map (contribution D s b) xs)"
  by (rule res_map_total) (rule link_choice_Inr [OF assms(1) _ assms(2)])

lemma chosen_ids: "choices_ok D xs \<longleftrightarrow> (\<forall>x \<in> set xs. proposal_ok (snd x)) \<and> distinct (concat (map choice_ids xs)) \<and>
    distinct (map (decision_provenance_id D) xs) \<and> decision_provenance_id D ` set xs \<inter> set (concat (map choice_ids xs)) = {}"
  by (auto simp: choices_ok_def)

text \<open>
  The behavior of a decided discovery: the decisions are of this discovery, every chosen proposal is
  valid, and no two of the identifiers of the entities and of the provenance of the decisions are equal.
\<close>

definition materialized :: "onboarding_digests \<Rightarrow> discovery_result \<Rightarrow> decision_set \<Rightarrow> behavior_ir" where
  "materialized D discovery s = canonical_document (chosen_document D s (chosen discovery (de_decisions s)))"

lemma decisions_known:
  assumes "decisions_ok D discovery s"
  shows "\<forall>d \<in> set (de_decisions s). map_of (candidates_by_id discovery) (cr_candidate_id (dn_candidate (decision_head d))) \<noteq> None"
  using assms by (auto simp: decisions_ok_def decision_ok_def)

lemma materialize_behavior_Inr:
  "materialize_behavior D discovery s = Inr r \<longleftrightarrow> decisions_ok D discovery s \<and> choices_ok D (chosen discovery (de_decisions s)) \<and>
     r = (materialized D discovery s, map (contribution D s (materialized D discovery s)) (chosen discovery (de_decisions s)))"
proof (cases "decisions_ok D discovery s")
  case False
  then show ?thesis by (auto simp: materialize_behavior_def res_bind_Inr validate_decision_set_Inr)
next
  case True
  let ?xs = "chosen discovery (de_decisions s)" and ?d = "chosen_document D s (chosen discovery (de_decisions s))"
  note known = decisions_known [OF True]
  have selected: "select_proposals discovery (de_decisions s) = Inr xs \<longleftrightarrow> xs = ?xs \<and> (\<forall>x \<in> set ?xs. proposal_ok (snd x))" for xs
    unfolding select_proposals_Inr [OF known] by (intro conj_cong refl) simp
  have looped: "materialize_choices D s (concat (map choice_ids ?xs)) [] [] [] ?xs = Inr t \<longleftrightarrow>
      distinct (map (decision_provenance_id D) ?xs) \<and> decision_provenance_id D ` set ?xs \<inter> set (concat (map choice_ids ?xs)) = {} \<and>
      t = (be_entities ?d, be_roots ?d, provenance_links D ?xs)" for t
    using materialize_choices_Inr [of D "[]" s _ "[]" "[]" ?xs t] by (simp add: provenance_links_def chosen_document_def)
  have doc: "\<lparr>be_document_id = ''behavior.'' @ od_decisions D s, be_roots = be_roots ?d, be_entities = be_entities ?d\<rparr> = ?d"
    by (simp add: chosen_document_def)
  have "materialize_behavior D discovery s = Inr r \<longleftrightarrow>
      (\<forall>x \<in> set ?xs. proposal_ok (snd x)) \<and> distinct (concat (map choice_ids ?xs)) \<and>
      (distinct (map (decision_provenance_id D) ?xs) \<and> decision_provenance_id D ` set ?xs \<inter> set (concat (map choice_ids ?xs)) = {}) \<and> ir_ok ?d \<and>
      (\<exists>links. res_map (link_choice D (canonical_document ?d) (provenance_links D ?xs)) ?xs = Inr links \<and>
        r = (canonical_document ?d, links))"
  proof -
    have "materialize_behavior D discovery s = Inr r \<longleftrightarrow> (\<exists>xs. select_proposals discovery (de_decisions s) = Inr xs \<and>
        distinct (concat (map choice_ids xs)) \<and> (\<exists>t. materialize_choices D s (concat (map choice_ids xs)) [] [] [] xs = Inr t \<and>
          (\<exists>b. parse_canonical \<lparr>be_document_id = ''behavior.'' @ od_decisions D s, be_roots = fst (snd t), be_entities = fst t\<rparr> = Inr b \<and>
            (\<exists>links. res_map (link_choice D b (snd (snd t))) xs = Inr links \<and> r = (b, links)))))"
      by (simp add: materialize_behavior_def res_bind_Inr validate_decision_set_Inr True Let_def split_beta) blast
    also have "\<dots> \<longleftrightarrow> (\<forall>x \<in> set ?xs. proposal_ok (snd x)) \<and> distinct (concat (map choice_ids ?xs)) \<and>
        (\<exists>t. materialize_choices D s (concat (map choice_ids ?xs)) [] [] [] ?xs = Inr t \<and>
          (\<exists>b. parse_canonical \<lparr>be_document_id = ''behavior.'' @ od_decisions D s, be_roots = fst (snd t), be_entities = fst t\<rparr> = Inr b \<and>
            (\<exists>links. res_map (link_choice D b (snd (snd t))) ?xs = Inr links \<and> r = (b, links))))"
      unfolding selected by blast
    finally show ?thesis unfolding looped parse_canonical_Inr by (simp add: doc [simplified])
  qed
  also have "\<dots> \<longleftrightarrow> choices_ok D ?xs \<and> ir_ok ?d \<and>
      (\<exists>links. res_map (link_choice D (canonical_document ?d) (provenance_links D ?xs)) ?xs = Inr links \<and>
        r = (canonical_document ?d, links))"
    unfolding chosen_ids by blast
  also have "\<dots> \<longleftrightarrow> choices_ok D ?xs \<and> r = (canonical_document ?d, map (contribution D s (canonical_document ?d)) ?xs)"
    using chosen_document_ok materialize_links_Inr [OF _ refl] by fastforce
  finally show ?thesis using True by (simp add: materialized_def)
qed

section \<open>Properties\<close>

text \<open>
  The behavior of a decided discovery is built exactly when the decisions are valid for this
  discovery, the chosen proposals are valid and no two identifiers of their entities and of the
  provenance of their decisions are equal; it is the canonical document of these entities, and every
  accepted or edited decision is linked to the root and all entities it contributed.
\<close>

theorem materialize_exact:
  "materialize_behavior D discovery s = Inr r \<longleftrightarrow> decisions_ok D discovery s \<and> choices_ok D (chosen discovery (de_decisions s)) \<and>
     r = (materialized D discovery s, map (contribution D s (materialized D discovery s)) (chosen discovery (de_decisions s)))"
  by (rule materialize_behavior_Inr)

fun promoted :: "decision \<Rightarrow> bool" where
  "promoted (AcceptedDecision h) = True"
| "promoted (EditedDecision h digest p) = True"
| "promoted (RejectedDecision h) = False"
| "promoted (UncertainDecision h) = False"

lemma chosen_decisions:
  assumes "\<forall>d \<in> set ds. map_of (candidates_by_id discovery) (cr_candidate_id (dn_candidate (decision_head d))) \<noteq> None"
  shows "map fst (chosen discovery ds) = filter promoted ds"
  using assms
proof (induction ds)
  case (Cons d ds)
  then have "map fst (chosen discovery ds) = filter promoted ds" by simp
  then show ?case using Cons.prems by (cases d) (auto simp: chosen_def List.map_filter_simps)
qed (simp add: chosen_def List.map_filter_simps)

lemma contribution_keys:
  assumes x: "x \<in> set xs" and ok: "choices_ok D xs" and b: "b = canonical_document (chosen_document D s xs)"
    and r: "r \<in> set (mt_root (contribution D s b x) # mt_entities (contribution D s b x))"
  shows "bl_subject r \<in> entity_keys b"
proof -
  have keys: "entity_keys b = entity_key ` set (concat (map (choice_entities D s) xs))"
    by (simp add: b entity_keys_def canonical_document_def chosen_document_def image_image entity_key_form)
  have "proposal_ok (snd x)" using ok x by (simp add: choices_ok_def)
  then obtain u where u: "names (cn_entities (snd x)) (cn_root (snd x)) (ProposedUseCase u)" unfolding proposal_ok_def by blast
  let ?u = "materialize_entity (provenance_ref D x) (ProposedUseCase u)"
  have "?u \<in> set (choice_entities D s x)" "entity_key ?u = (entity_kind_value UseCaseKind, pp_id (cn_root (snd x)))"
    using u by (auto simp: choice_entities_def materialize_proposal_def names_def entity_key_def simp del: materialize_entity.simps)
  then have "(entity_kind_value UseCaseKind, pp_id (cn_root (snd x))) \<in> entity_key ` set (choice_entities D s x)" by (metis image_eqI)
  then have "bl_subject r \<in> entity_key ` set (choice_entities D s x)" using r by (auto simp: contribution_def Let_def)
  then show ?thesis using x by (auto simp: keys)
qed

text \<open>
  C31: A behavior that is built is a valid document, there is one link for each accepted or edited
  decision, in their order, and what the links refer to are entities of the document.
\<close>

theorem materialized_is_valid:
  assumes "materialize_behavior D discovery s = Inr (behavior, links)"
  shows "validate_ir_semantics behavior = Inr () \<and>
    map mt_decision_id links = map (dn_id \<circ> decision_head) (filter promoted (de_decisions s)) \<and>
    list_all (\<lambda>m. list_all (\<lambda>r. bl_subject r \<in> entity_keys behavior) (mt_root m # mt_entities m)) links"
proof -
  let ?xs = "chosen discovery (de_decisions s)"
  have r: "decisions_ok D discovery s" "choices_ok D ?xs" "behavior = canonical_document (chosen_document D s ?xs)"
    "links = map (contribution D s behavior) ?xs"
    using assms by (auto simp: materialize_behavior_Inr materialized_def)
  have "map (dn_id \<circ> decision_head) (map fst ?xs) = map (dn_id \<circ> decision_head) (filter promoted (de_decisions s))"
    by (simp only: chosen_decisions [OF decisions_known [OF r(1)]])
  then have "map mt_decision_id links = map (dn_id \<circ> decision_head) (filter promoted (de_decisions s))"
    by (simp add: r(4) contribution_def Let_def decision_id_def comp_def)
  moreover have "validate_ir_semantics behavior = Inr ()"
    unfolding validate_ir_semantics_Inr r(3) ir_ok_canonical by (rule chosen_document_ok [OF r(2)])
  ultimately show ?thesis using contribution_keys [OF _ r(2,3)] by (simp add: list_all_iff r(4))
qed

subsection \<open>Example\<close>

text \<open>An interface called with the input of a use case: one step, its action and one binding, accepted.\<close>

definition ex_onboarding_digests :: onboarding_digests where
  "ex_onboarding_digests = \<lparr>od_proposal = (\<lambda>p. ''p''), od_candidate = (\<lambda>c. ''c''), od_decision = (\<lambda>d. ''d''), od_discovery = (\<lambda>r. ''r''),
     od_decisions = (\<lambda>s. ''s''), od_text = (\<lambda>t. t), od_behavior = (\<lambda>j. ''b'')\<rparr>"

definition ex_amount :: port where
  "ex_amount = \<lparr>po_name = ''amount'', po_value_kind = DecimalKind, po_required = True\<rparr>"

definition ex_step_ref :: proposal_ref where
  "ex_step_ref = \<lparr>pp_kind = ProposedStepKind, pp_id = ''charge''\<rparr>"

definition ex_root :: proposal_ref where
  "ex_root = \<lparr>pp_kind = ProposedUseCaseKind, pp_id = ''pay''\<rparr>"

definition ex_candidate_proposal :: candidate_proposal where
  "ex_candidate_proposal = \<lparr>cn_root = ex_root,
     cn_entities = [ProposedAction \<lparr>pa_id = ''post'', pa_input_ports = [ex_amount], pa_output_ports = []\<rparr>,
       ProposedBinding \<lparr>pb_id = ''bind'', pb_target = \<lparr>pq_owner = ex_step_ref, pq_direction = Input, pq_name = ''amount''\<rparr>,
         pb_source = \<lparr>pq_owner = ex_root, pq_direction = Input, pq_name = ''amount''\<rparr>\<rparr>,
       ProposedStep \<lparr>ps_id = ''charge'', ps_action = \<lparr>pp_kind = ProposedActionKind, pp_id = ''post''\<rparr>,
         ps_bindings = [\<lparr>pp_kind = ProposedBindingKind, pp_id = ''bind''\<rparr>]\<rparr>,
       ProposedUseCase \<lparr>pu_id = ''pay'', pu_input_ports = [ex_amount], pu_output_ports = [], pu_steps = [ex_step_ref]\<rparr>]\<rparr>"

definition ex_inventory_binding :: inventory_binding where
  "ex_inventory_binding = \<lparr>ib_subject_uri = ''urn:shop'', ib_source_revision = ''1'', ib_digest = ''i''\<rparr>"

definition ex_interface :: record_ref where
  "ex_interface = \<lparr>rf_kind = FactRecord PublicInterface, rf_id = ''post_payment''\<rparr>"

definition ex_reviewed_discovery :: discovery_result where
  "ex_reviewed_discovery = \<lparr>ds_binding = ex_inventory_binding, ds_producer = \<lparr>ip_name = ''tool'', ip_version = ''1''\<rparr>,
     ds_capability = \<lparr>cs_name = ''org.ucf.adapter.discovery'', cs_version = ''1.0.0''\<rparr>, ds_procedure_uri = ''urn:procedure'',
     ds_coverage = \<lparr>dv_status = ''complete'', dv_eligible = [ex_interface], dv_uncovered = []\<rparr>, ds_diagnostics = [],
     ds_candidates = [\<lparr>dc_id = ''candidate.c'', dc_semantic_digest = ''p'', dc_subject = ex_interface, dc_evidence = [ex_interface],
       dc_confidence = VStr ''high'', dc_proposal = ex_candidate_proposal\<rparr>]\<rparr>"

definition ex_decision_set :: decision_set where
  "ex_decision_set = \<lparr>de_discovery_digest = ''r'', de_binding = ex_inventory_binding, de_reviewer = \<lparr>ip_name = ''reviewer'', ip_version = ''1''\<rparr>,
     de_capture_context = \<lparr>cc_captured_at = ''2026-01-01T00:00:00Z'', cc_environment = ''ci''\<rparr>,
     de_decisions = [AcceptedDecision \<lparr>dn_id = ''decision.d'',
       dn_candidate = \<lparr>cr_discovery_digest = ''r'', cr_candidate_id = ''candidate.c'', cr_semantic_digest = ''p''\<rparr>, dn_reason = ''ok''\<rparr>]\<rparr>"

lemmas ex_onboarding_defs = ex_onboarding_digests_def ex_amount_def ex_step_ref_def ex_root_def ex_candidate_proposal_def
  ex_inventory_binding_def ex_interface_def ex_reviewed_discovery_def ex_decision_set_def

lemma ex_proposal_ok: "proposal_ok ex_candidate_proposal"
proof -
  have "validate_candidate_proposal ex_candidate_proposal ''$'' = Inr ()" by code_simp
  then show ?thesis by (simp only: validate_candidate_proposal_Inr)
qed

lemma ex_chosen: "chosen ex_reviewed_discovery (de_decisions ex_decision_set) = [(hd (de_decisions ex_decision_set), ex_candidate_proposal)]"
  by (simp add: chosen_def List.map_filter_simps ex_decision_set_def candidates_by_id_def ex_reviewed_discovery_def)

lemma ex_materialized:
  "materialize_behavior ex_onboarding_digests ex_reviewed_discovery ex_decision_set =
     Inr (materialized ex_onboarding_digests ex_reviewed_discovery ex_decision_set,
       map (contribution ex_onboarding_digests ex_decision_set (materialized ex_onboarding_digests ex_reviewed_discovery ex_decision_set))
         [(hd (de_decisions ex_decision_set), ex_candidate_proposal)])"
proof -
  have "decisions_ok ex_onboarding_digests ex_reviewed_discovery ex_decision_set"
    unfolding validate_decision_set_Inr [symmetric] by code_simp
  moreover have "choices_ok ex_onboarding_digests [(hd (de_decisions ex_decision_set), ex_candidate_proposal)]"
    unfolding choices_ok_def using ex_proposal_ok
    by (simp add: choice_ids_def decision_provenance_id_def decision_id_def) (simp add: ex_onboarding_defs)
  ultimately show ?thesis by (simp only: materialize_behavior_Inr ex_chosen)
qed

theorem materialized_is_valid_witness:
  "validate_ir_semantics (materialized ex_onboarding_digests ex_reviewed_discovery ex_decision_set) = Inr () \<and>
     map (dn_id \<circ> decision_head) (filter promoted (de_decisions ex_decision_set)) = [''decision.d'']"
  using materialized_is_valid [OF ex_materialized] by (simp add: ex_decision_set_def)

end
