(* ===== verification/Trust_IR.thy ===== *)
theory Trust_IR
  imports Behavior_Delta
begin

text \<open>
  Trust documents: what is claimed of the entities of a behavior document and on which basis,
  \<^verbatim>\<open>src/ucf/ir/trust_models.py\<close>, and the validation of one document,
  \<^verbatim>\<open>validate_trust_semantics\<close> of \<^verbatim>\<open>trust_validation.py\<close>. The version of the IR in a reference is a
  constant of its model, so its comparison always succeeds and is left out.
\<close>

section \<open>Models\<close>

datatype trust_kind = SourceRecordKind | DeclarationKind | ObservedFactKind | BehaviorCandidateKind | MappingKind | ClaimKind

fun trust_kind_value :: "trust_kind \<Rightarrow> string" where
  "trust_kind_value SourceRecordKind = ''source_record''"
| "trust_kind_value DeclarationKind = ''declaration''"
| "trust_kind_value ObservedFactKind = ''observed_fact''"
| "trust_kind_value BehaviorCandidateKind = ''behavior_candidate''"
| "trust_kind_value MappingKind = ''mapping''"
| "trust_kind_value ClaimKind = ''claim''"

datatype claim_level = ObservedLevel | DeclaredLevel | MappedLevel | TestedLevel | VerifiedLevel

fun claim_level_value :: "claim_level \<Rightarrow> string" where
  "claim_level_value ObservedLevel = ''observed''"
| "claim_level_value DeclaredLevel = ''declared''"
| "claim_level_value MappedLevel = ''mapped''"
| "claim_level_value TestedLevel = ''tested''"
| "claim_level_value VerifiedLevel = ''verified''"

record trust_ref =
  tr_kind :: trust_kind
  tr_id :: string

record fact_assertion =
  fa_target :: domain_target
  fa_value :: ir_value

record source_record =
  so_id :: string
  so_uri :: string
  so_revision :: string
  so_producer :: ir_producer
  so_captured_at :: string

record trust_declaration =
  td_id :: string
  td_subject :: behavior_entity_ref
  td_trace :: trust_ref

record observed_fact =
  fc_id :: string
  fc_subject :: behavior_entity_ref
  fc_assertion :: fact_assertion
  fc_trace :: trust_ref

record behavior_candidate =
  bc_id :: string
  bc_subjects :: "trust_ref list"
  bc_confidence :: string
  bc_trace :: trust_ref

datatype mapping_disposition = MappingMatch | MappingConflict

fun disposition_value :: "mapping_disposition \<Rightarrow> string" where
  "disposition_value MappingMatch = ''match''"
| "disposition_value MappingConflict = ''conflict''"

record trust_mapping =
  tm_id :: string
  tm_declaration :: trust_ref
  tm_observation :: trust_ref
  tm_disposition :: mapping_disposition
  tm_trace :: trust_ref

datatype trust_evidence = BehaviorEvidence behavior_entity_ref | RecordEvidence trust_ref

record tested_basis =
  tb_evidence :: trust_evidence
  tb_artifact :: trust_ref
  tb_check :: ir_check
  tb_environment :: string
  tb_producer :: ir_producer

datatype claim_basis =
    ObservedClaimBasis trust_ref
  | DeclaredClaimBasis trust_ref
  | MappedClaimBasis trust_ref
  | TestedClaimBasis tested_basis
  | VerifiedClaimBasis

record trust_claim =
  tc_id :: string
  tc_level :: claim_level
  tc_subject :: behavior_entity_ref
  tc_basis :: claim_basis
  tc_trace :: trust_ref

datatype trust_record =
    SourceRecord source_record
  | Declaration trust_declaration
  | ObservedFact observed_fact
  | BehaviorCandidate behavior_candidate
  | TrustMapping trust_mapping
  | Claim trust_claim

fun trust_kind_of :: "trust_record \<Rightarrow> trust_kind" where
  "trust_kind_of (SourceRecord s) = SourceRecordKind"
| "trust_kind_of (Declaration d) = DeclarationKind"
| "trust_kind_of (ObservedFact f) = ObservedFactKind"
| "trust_kind_of (BehaviorCandidate c) = BehaviorCandidateKind"
| "trust_kind_of (TrustMapping m) = MappingKind"
| "trust_kind_of (Claim c) = ClaimKind"

fun trust_id :: "trust_record \<Rightarrow> string" where
  "trust_id (SourceRecord s) = so_id s"
| "trust_id (Declaration d) = td_id d"
| "trust_id (ObservedFact f) = fc_id f"
| "trust_id (BehaviorCandidate c) = bc_id c"
| "trust_id (TrustMapping m) = tm_id m"
| "trust_id (Claim c) = tc_id c"

record trust_ir =
  ti_document_id :: string
  ti_subject :: behavior_ref
  ti_records :: "trust_record list"

section \<open>References\<close>

type_synonym trust_index = "(string, trust_record) dict"

fun build_trust_index :: "nat \<Rightarrow> trust_record list \<Rightarrow> trust_index \<Rightarrow> (ir_error, trust_index) res" where
  "build_trust_index i [] index = Inr index"
| "build_trust_index i (r # rs) index =
     (case map_of index (trust_id r) of
        Some previous \<Rightarrow>
          fail DUPLICATE_IDENTITY
            (''trust record id '' @ repr_str (trust_id r) @ '' is used by both '' @
             repr_str (trust_kind_value (trust_kind_of previous)) @ '' and '' @ repr_str (trust_kind_value (trust_kind_of r)))
            (at_position ''$.records'' i @ ''.id'')
      | None \<Rightarrow> build_trust_index (Suc i) rs (AList.update (trust_id r) r index))"

text \<open>
  What \<^verbatim>\<open>_resolve_record\<close> and \<^verbatim>\<open>_resolve_behavior_ref\<close> have in common: they differ in the name of the
  target, in the kinds and in the records they find.
\<close>

definition resolve_target ::
  "string \<Rightarrow> ('t \<Rightarrow> 'k) \<Rightarrow> ('k \<Rightarrow> string) \<Rightarrow> (string, 't) dict \<Rightarrow> 'k \<Rightarrow> string \<Rightarrow> string \<Rightarrow> 'k list option \<Rightarrow> (ir_error, 't) res" where
  "resolve_target what kind value index k i location expected =
     (case map_of index i of
        None \<Rightarrow> fail BROKEN_REFERENCE (what @ '' target '' @ repr_str i @ '' does not exist'') location
      | Some target \<Rightarrow>
          if kind target \<noteq> k
          then fail WRONG_TARGET_KIND
            (''reference declares '' @ repr_str (value k) @ '', but '' @ repr_str i @ '' is '' @ repr_str (value (kind target)))
            (location @ ''.target_kind'')
          else
            (case expected of
               None \<Rightarrow> Inr target
             | Some ks \<Rightarrow>
                 if kind target \<notin> set ks
                 then fail WRONG_TARGET_KIND
                   (repr_str i @ '' has kind '' @ repr_str (value (kind target)) @ ''; expected one of: '' @
                    py_join '', '' (sorted_set (map value ks)))
                   (location @ ''.target_kind'')
                 else Inr target))"

definition resolve_record :: "trust_ref \<Rightarrow> trust_index \<Rightarrow> string \<Rightarrow> trust_kind list option \<Rightarrow> (ir_error, trust_record) res" where
  "resolve_record ref index location expected =
     resolve_target ''trust record'' trust_kind_of trust_kind_value index (tr_kind ref) (tr_id ref) location expected"

definition check_record :: "trust_ref \<Rightarrow> trust_index \<Rightarrow> string \<Rightarrow> trust_kind list option \<Rightarrow> (ir_error, unit) res" where
  "check_record ref index location expected = res_bind (resolve_record ref index location expected) (\<lambda>_. Inr ())"

fun validate_record_refs ::
  "nat \<Rightarrow> trust_ref list \<Rightarrow> trust_ref list \<Rightarrow> trust_index \<Rightarrow> string \<Rightarrow> trust_kind list \<Rightarrow> (ir_error, unit) res" where
  "validate_record_refs i seen [] index location expected = Inr ()"
| "validate_record_refs i seen (ref # refs) index location expected =
     (if ref \<in> set seen
      then fail DUPLICATE_REFERENCE
        (''reference to '' @ repr_str (trust_kind_value (tr_kind ref)) @ '' '' @ repr_str (tr_id ref) @ '' is duplicated'')
        (at_position location i)
      else res_bind (check_record ref index (at_position location i) (Some expected)) (\<lambda>_.
        validate_record_refs (Suc i) (ref # seen) refs index location expected))"

definition validate_behavior_ref :: "behavior_entity_ref \<Rightarrow> trust_ir \<Rightarrow> string \<Rightarrow> (ir_error, unit) res" where
  "validate_behavior_ref ref document location =
     res_all (\<lambda>(field, actual, expected).
        if actual \<noteq> expected
        then fail DOCUMENT_IDENTITY_MISMATCH (''behavior reference '' @ field @ '' does not match subject_document'')
          (location @ ''.'' @ field)
        else Inr ())
       [(''document_id'', br_document_id (bl_document ref), br_document_id (ti_subject document)),
        (''canonical_digest'', br_digest (bl_document ref), br_digest (ti_subject document))]"

definition validate_trace :: "trust_ref \<Rightarrow> trust_index \<Rightarrow> string \<Rightarrow> (ir_error, unit) res" where
  "validate_trace ref index location = check_record ref index location (Some [SourceRecordKind])"

section \<open>The basis of a claim\<close>

fun basis_type :: "claim_level \<Rightarrow> string" where
  "basis_type ObservedLevel = ''ObservedClaimBasis''"
| "basis_type DeclaredLevel = ''DeclaredClaimBasis''"
| "basis_type MappedLevel = ''MappedClaimBasis''"
| "basis_type TestedLevel = ''TestedClaimBasis''"
| "basis_type VerifiedLevel = ''VerifiedClaimBasis''"

fun is_basis_of :: "claim_level \<Rightarrow> claim_basis \<Rightarrow> bool" where
  "is_basis_of ObservedLevel (ObservedClaimBasis r) = True"
| "is_basis_of DeclaredLevel (DeclaredClaimBasis r) = True"
| "is_basis_of MappedLevel (MappedClaimBasis r) = True"
| "is_basis_of TestedLevel (TestedClaimBasis b) = True"
| "is_basis_of VerifiedLevel VerifiedClaimBasis = True"
| "is_basis_of level basis = False"

definition validate_claim_basis :: "trust_claim \<Rightarrow> trust_index \<Rightarrow> trust_ir \<Rightarrow> string \<Rightarrow> (ir_error, unit) res" where
  "validate_claim_basis c index document location =
     (if \<not> is_basis_of (tc_level c) (tc_basis c)
      then fail MISSING_CLAIM_BASIS (repr_str (claim_level_value (tc_level c)) @ '' claim requires '' @ basis_type (tc_level c))
        (location @ ''.basis'')
      else
        (case tc_basis c of
           ObservedClaimBasis r \<Rightarrow> check_record r index (location @ ''.basis.fact'') (Some [ObservedFactKind])
         | DeclaredClaimBasis r \<Rightarrow> check_record r index (location @ ''.basis.declaration'') (Some [DeclarationKind])
         | MappedClaimBasis r \<Rightarrow> check_record r index (location @ ''.basis.mapping'') (Some [MappingKind])
         | TestedClaimBasis b \<Rightarrow>
             res_bind (check_record (tb_artifact b) index (location @ ''.basis.artifact'') (Some [SourceRecordKind])) (\<lambda>_.
             case tb_evidence b of
               BehaviorEvidence r \<Rightarrow> validate_behavior_ref r document (location @ ''.basis.evidence'')
             | RecordEvidence r \<Rightarrow> check_record r index (location @ ''.basis.evidence'') None)
         | VerifiedClaimBasis \<Rightarrow> Inr ()))"

section \<open>Cycles of claims\<close>

text \<open>The claims of a document with their positions, and what a tested claim gives as evidence among the records.\<close>

fun claims_from :: "nat \<Rightarrow> trust_record list \<Rightarrow> (nat \<times> trust_claim) list" where
  "claims_from i [] = []"
| "claims_from i (Claim c # rs) = (i, c) # claims_from (Suc i) rs"
| "claims_from i (r # rs) = claims_from (Suc i) rs"

fun record_evidence :: "trust_claim \<Rightarrow> trust_ref option" where
  "record_evidence c = (case tc_basis c of
     TestedClaimBasis b \<Rightarrow> (case tb_evidence b of RecordEvidence r \<Rightarrow> Some r | _ \<Rightarrow> None) | _ \<Rightarrow> None)"

fun claim_edge :: "trust_claim \<Rightarrow> string option" where
  "claim_edge c = (case record_evidence c of Some r \<Rightarrow> if tr_kind r = ClaimKind then Some (tr_id r) else None | None \<Rightarrow> None)"

definition claim_edges :: "(nat \<times> trust_claim) list \<Rightarrow> (string, string) dict" where
  "claim_edges cs = dict_of (List.map_filter (\<lambda>(i, c). map_option (\<lambda>t. (tc_id c, t)) (claim_edge c)) cs)"

definition claim_locations :: "(nat \<times> trust_claim) list \<Rightarrow> (string, string) dict" where
  "claim_locations cs = dict_of (map (\<lambda>(i, c). (tc_id c, at_position ''$.records'' i @ ''.basis.evidence'')) cs)"

datatype visit_state = Visiting | Visited

definition unvisited :: "(string, string) dict \<Rightarrow> (string, visit_state) dict \<Rightarrow> nat" where
  "unvisited edges state = card (set (dict_keys edges) - set (dict_keys state))"

lemma unvisited_less:
  assumes "map_of edges c = Some t" "map_of state c = None"
  shows "unvisited edges (AList.update c v state) < unvisited edges state"
  unfolding unvisited_def
proof (rule psubset_card_mono)
  have "c \<in> set (dict_keys edges)" using assms(1) by (metis domI dom_map_of_conv_image_fst set_map)
  moreover have "c \<notin> set (dict_keys state)" using assms(2) by (simp add: map_of_None_keys)
  ultimately show "set (dict_keys edges) - set (dict_keys (AList.update c v state)) \<subset> set (dict_keys edges) - set (dict_keys state)"
    unfolding keys_update by blast
qed simp

text \<open>
  The nested function \<^verbatim>\<open>visit\<close>: a claim that is being visited closes a cycle, one that was visited is done.
  A missing location would raise a \<^verbatim>\<open>KeyError\<close>.
\<close>

function visit_claim ::
  "(string, string) dict \<Rightarrow> (string, string) dict \<Rightarrow> (string, visit_state) dict \<Rightarrow> string \<Rightarrow>
     (ir_error, (string, visit_state) dict) res" where
  "visit_claim edges locations state c =
     (case map_of state c of
        Some Visiting \<Rightarrow>
          (case map_of locations c of
             None \<Rightarrow> Inl (AssertionError ''KeyError'')
           | Some l \<Rightarrow> fail CIRCULAR_CLAIM_BASIS (''claim basis contains a cycle through '' @ repr_str c) l)
      | Some Visited \<Rightarrow> Inr state
      | None \<Rightarrow>
          (case map_of edges c of
             None \<Rightarrow> Inr (AList.update c Visited (AList.update c Visiting state))
           | Some t \<Rightarrow> res_bind (visit_claim edges locations (AList.update c Visiting state) t) (\<lambda>state'.
               Inr (AList.update c Visited state'))))"
  by pat_completeness auto
termination
  by (relation "measure (\<lambda>(edges, locations, state, c). unvisited edges state)") (auto simp: unvisited_less)

declare visit_claim.simps [simp del]

fun visit_claims ::
  "(string, string) dict \<Rightarrow> (string, string) dict \<Rightarrow> (string, visit_state) dict \<Rightarrow> (nat \<times> trust_claim) list \<Rightarrow> (ir_error, unit) res" where
  "visit_claims edges locations state [] = Inr ()"
| "visit_claims edges locations state ((i, c) # cs) =
     res_bind (visit_claim edges locations state (tc_id c)) (\<lambda>state'. visit_claims edges locations state' cs)"

definition validate_claim_cycles :: "(nat \<times> trust_claim) list \<Rightarrow> (ir_error, unit) res" where
  "validate_claim_cycles cs = visit_claims (claim_edges cs) (claim_locations cs) [] cs"

section \<open>The semantic validation\<close>

definition validate_trust_record :: "trust_index \<Rightarrow> trust_ir \<Rightarrow> nat \<times> trust_record \<Rightarrow> (ir_error, unit) res" where
  "validate_trust_record index document ir =
     (case ir of (i, r) \<Rightarrow>
      let location = at_position ''$.records'' i in
      case r of
        SourceRecord s \<Rightarrow> Inr ()
      | Declaration d \<Rightarrow> in_order [validate_trace (td_trace d) index (location @ ''.trace''),
          validate_behavior_ref (td_subject d) document (location @ ''.subject'')]
      | ObservedFact f \<Rightarrow> in_order [validate_trace (fc_trace f) index (location @ ''.trace''),
          validate_behavior_ref (fc_subject f) document (location @ ''.subject'')]
      | BehaviorCandidate c \<Rightarrow> in_order [validate_trace (bc_trace c) index (location @ ''.trace''),
          validate_record_refs 0 [] (bc_subjects c) index (location @ ''.subjects'') [DeclarationKind, ObservedFactKind],
          (if set (map tr_kind (bc_subjects c)) \<noteq> {DeclarationKind, ObservedFactKind} \<or> length (bc_subjects c) \<noteq> 2
           then fail INVALID_STRUCTURE ''mapping candidate requires exactly one declaration and one observed_fact''
             (location @ ''.subjects'')
           else Inr ())]
      | TrustMapping m \<Rightarrow> in_order [validate_trace (tm_trace m) index (location @ ''.trace''),
          check_record (tm_declaration m) index (location @ ''.declaration'') (Some [DeclarationKind]),
          check_record (tm_observation m) index (location @ ''.observation'') (Some [ObservedFactKind])]
      | Claim c \<Rightarrow> in_order [validate_trace (tc_trace c) index (location @ ''.trace''),
          validate_behavior_ref (tc_subject c) document (location @ ''.subject''),
          validate_claim_basis c index document location])"

definition reject_record_evidence :: "nat \<times> trust_claim \<Rightarrow> (ir_error, unit) res" where
  "reject_record_evidence ic =
     (case ic of (i, c) \<Rightarrow>
      case record_evidence c of
        None \<Rightarrow> Inr ()
      | Some r \<Rightarrow>
          let location = at_position ''$.records'' i @ ''.basis.evidence'' in
          if tr_kind r = BehaviorCandidateKind
          then fail CANDIDATE_IS_NOT_EVIDENCE ''behavior candidates are review metadata, not test evidence'' location
          else fail MISSING_CLAIM_BASIS ''tested claim requires verification_evidence from behavior IR'' location)"

definition validate_trust_semantics :: "trust_ir \<Rightarrow> (ir_error, unit) res" where
  "validate_trust_semantics document =
     res_bind (build_trust_index 0 (ti_records document) []) (\<lambda>index.
     let claims = claims_from 0 (ti_records document) in
     in_order
       [each_position (validate_trust_record index document) (ti_records document),
        validate_claim_cycles claims,
        res_all reject_record_evidence claims])"

section \<open>What a valid trust document is\<close>

definition has_record :: "trust_record list \<Rightarrow> trust_kind \<Rightarrow> trust_ref \<Rightarrow> bool" where
  "has_record rs K ref \<longleftrightarrow> tr_kind ref = K \<and> (\<exists>r \<in> set rs. trust_id r = tr_id ref \<and> trust_kind_of r = K)"

fun basis_ok :: "trust_record list \<Rightarrow> behavior_ref \<Rightarrow> claim_level \<Rightarrow> claim_basis \<Rightarrow> bool" where
  "basis_ok rs doc level (ObservedClaimBasis r) \<longleftrightarrow> level = ObservedLevel \<and> has_record rs ObservedFactKind r"
| "basis_ok rs doc level (DeclaredClaimBasis r) \<longleftrightarrow> level = DeclaredLevel \<and> has_record rs DeclarationKind r"
| "basis_ok rs doc level (MappedClaimBasis r) \<longleftrightarrow> level = MappedLevel \<and> has_record rs MappingKind r"
| "basis_ok rs doc level (TestedClaimBasis b) \<longleftrightarrow> level = TestedLevel \<and> has_record rs SourceRecordKind (tb_artifact b) \<and>
     (\<exists>e. tb_evidence b = BehaviorEvidence e \<and> bl_document e = doc)"
| "basis_ok rs doc level VerifiedClaimBasis \<longleftrightarrow> level = VerifiedLevel"

fun trust_record_ok :: "trust_record list \<Rightarrow> behavior_ref \<Rightarrow> trust_record \<Rightarrow> bool" where
  "trust_record_ok rs doc (SourceRecord s) \<longleftrightarrow> True"
| "trust_record_ok rs doc (Declaration d) \<longleftrightarrow> has_record rs SourceRecordKind (td_trace d) \<and> bl_document (td_subject d) = doc"
| "trust_record_ok rs doc (ObservedFact f) \<longleftrightarrow> has_record rs SourceRecordKind (fc_trace f) \<and> bl_document (fc_subject f) = doc"
| "trust_record_ok rs doc (BehaviorCandidate c) \<longleftrightarrow> has_record rs SourceRecordKind (bc_trace c) \<and>
     (\<exists>d f. (bc_subjects c = [d, f] \<or> bc_subjects c = [f, d]) \<and> has_record rs DeclarationKind d \<and> has_record rs ObservedFactKind f)"
| "trust_record_ok rs doc (TrustMapping m) \<longleftrightarrow> has_record rs SourceRecordKind (tm_trace m) \<and>
     has_record rs DeclarationKind (tm_declaration m) \<and> has_record rs ObservedFactKind (tm_observation m)"
| "trust_record_ok rs doc (Claim c) \<longleftrightarrow> has_record rs SourceRecordKind (tc_trace c) \<and> bl_document (tc_subject c) = doc \<and>
     basis_ok rs doc (tc_level c) (tc_basis c)"

definition trust_ok :: "trust_ir \<Rightarrow> bool" where
  "trust_ok t \<longleftrightarrow> distinct (map trust_id (ti_records t)) \<and>
     (\<forall>r \<in> set (ti_records t). trust_record_ok (ti_records t) (ti_subject t) r)"

section \<open>The validation accepts exactly the valid documents\<close>

definition trust_index_of :: "trust_record list \<Rightarrow> trust_index" where
  "trust_index_of rs = map (\<lambda>r. (trust_id r, r)) rs"

lemma build_trust_index_Inr:
  "build_trust_index i rs index = Inr index' \<longleftrightarrow>
     distinct (map trust_id rs) \<and> set (map trust_id rs) \<inter> set (dict_keys index) = {} \<and> index' = index @ trust_index_of rs"
proof (induction rs arbitrary: i index)
  case Nil
  then show ?case by (auto simp: trust_index_of_def)
next
  case (Cons r rs)
  show ?case
  proof (cases "map_of index (trust_id r)")
    case None
    then have new: "trust_id r \<notin> set (dict_keys index)" by (simp add: map_of_None_keys)
    then show ?thesis using Cons.IH [of "Suc i" "index @ [(trust_id r, r)]"] None
      by (auto simp: update_new [OF new] trust_index_of_def)
  next
    case (Some p)
    then have "trust_id r \<in> set (dict_keys index)" by (metis map_of_None_keys option.distinct(1))
    then show ?thesis by (auto simp: Some)
  qed
qed

lemma resolve_target_Inr:
  "resolve_target what kind value index k i location expected = Inr t \<longleftrightarrow>
     map_of index i = Some t \<and> kind t = k \<and> (\<forall>ks. expected = Some ks \<longrightarrow> k \<in> set ks)"
  by (cases "map_of index i"; cases expected) (auto simp: resolve_target_def)

lemma trust_lookup:
  assumes "distinct (map trust_id rs)"
  shows "map_of (trust_index_of rs) i = Some r \<longleftrightarrow> r \<in> set rs \<and> trust_id r = i"
  using assms by (auto simp: trust_index_of_def map_of_eq_Some_iff comp_def)

lemma check_record_Inr:
  assumes "distinct (map trust_id rs)"
  shows "check_record ref (trust_index_of rs) location (Some ks) = Inr () \<longleftrightarrow> (\<exists>K \<in> set ks. has_record rs K ref)"
  by (auto simp: check_record_def res_bind_Inr resolve_record_def resolve_target_Inr trust_lookup [OF assms] has_record_def)

lemma validate_behavior_ref_Inr: "validate_behavior_ref ref t location = Inr () \<longleftrightarrow> bl_document ref = ti_subject t"
  by (cases "bl_document ref"; cases "ti_subject t") (auto simp: validate_behavior_ref_def res_all_Inr simp del: res_all.simps)

lemma validate_trace_Inr:
  "distinct (map trust_id rs) \<Longrightarrow> validate_trace ref (trust_index_of rs) location = Inr () \<longleftrightarrow> has_record rs SourceRecordKind ref"
  by (simp add: validate_trace_def check_record_Inr)

lemma validate_record_refs_Inr:
  assumes "distinct (map trust_id rs)"
  shows "validate_record_refs i seen refs (trust_index_of rs) location ks = Inr () \<longleftrightarrow>
    distinct refs \<and> set refs \<inter> set seen = {} \<and> (\<forall>ref \<in> set refs. \<exists>K \<in> set ks. has_record rs K ref)"
  by (induction refs arbitrary: i seen) (auto simp: res_bind_Inr check_record_Inr [OF assms])

lemma validate_claim_basis_Inr:
  assumes "distinct (map trust_id (ti_records t))"
  shows "validate_claim_basis c (trust_index_of (ti_records t)) t location = Inr () \<and> record_evidence c = None \<longleftrightarrow>
    basis_ok (ti_records t) (ti_subject t) (tc_level c) (tc_basis c)"
  by (cases "tc_level c"; cases "tc_basis c")
    (auto simp: validate_claim_basis_def check_record_Inr [OF assms] res_bind_Inr validate_behavior_ref_Inr split: trust_evidence.splits)

lemma pair_kinds:
  assumes "distinct refs \<and> set (map tr_kind refs) = {DeclarationKind, ObservedFactKind} \<and> length refs = 2"
  shows "\<exists>d f. (refs = [d, f] \<or> refs = [f, d]) \<and> tr_kind d = DeclarationKind \<and> tr_kind f = ObservedFactKind"
proof -
  from assms obtain x y where "refs = [x, y]" by (auto simp: numeral_2_eq_2 length_Suc_conv)
  then show ?thesis using assms by (auto simp: doubleton_eq_iff)
qed

lemma candidate_subjects:
  "(distinct refs \<and> (\<forall>ref \<in> set refs. has_record rs DeclarationKind ref \<or> has_record rs ObservedFactKind ref)) \<and>
     set (map tr_kind refs) = {DeclarationKind, ObservedFactKind} \<and> length refs = 2 \<longleftrightarrow>
   (\<exists>d f. (refs = [d, f] \<or> refs = [f, d]) \<and> has_record rs DeclarationKind d \<and> has_record rs ObservedFactKind f)" (is "?l \<longleftrightarrow> ?r")
proof
  assume ?l
  then obtain d f where "refs = [d, f] \<or> refs = [f, d]" "tr_kind d = DeclarationKind" "tr_kind f = ObservedFactKind"
    using pair_kinds [of refs] by blast
  then show ?r using \<open>?l\<close> by (intro exI [of _ d] exI [of _ f]) (auto simp: has_record_def)
next
  assume ?r
  then show ?l by (auto simp: has_record_def)
qed

lemma validate_trust_record_Inr:
  assumes ids: "distinct (map trust_id (ti_records t))"
  shows "validate_trust_record (trust_index_of (ti_records t)) t (i, r) = Inr () \<and> (\<forall>c. r = Claim c \<longrightarrow> record_evidence c = None) \<longleftrightarrow>
    trust_record_ok (ti_records t) (ti_subject t) r"
proof (cases r)
  case (BehaviorCandidate c)
  have "validate_trust_record (trust_index_of (ti_records t)) t (i, r) = Inr () \<longleftrightarrow> has_record (ti_records t) SourceRecordKind (bc_trace c) \<and>
      ((distinct (bc_subjects c) \<and> (\<forall>ref \<in> set (bc_subjects c). has_record (ti_records t) DeclarationKind ref \<or> has_record (ti_records t) ObservedFactKind ref)) \<and>
      set (map tr_kind (bc_subjects c)) = {DeclarationKind, ObservedFactKind} \<and> length (bc_subjects c) = 2)"
    by (simp add: BehaviorCandidate validate_trust_record_def Let_def validate_trace_Inr [OF ids] validate_record_refs_Inr [OF ids] if_fail_Inr)
  then show ?thesis unfolding candidate_subjects by (simp add: BehaviorCandidate)
next
  case (Claim c)
  then show ?thesis using validate_claim_basis_Inr [OF ids, of c]
    by (auto simp: validate_trust_record_def Let_def validate_trace_Inr [OF ids] validate_behavior_ref_Inr)
qed (simp_all add: validate_trust_record_def Let_def validate_trace_Inr [OF ids] validate_behavior_ref_Inr check_record_Inr [OF ids])

lemma set_claims_from: "(\<exists>i. (i, c) \<in> set (claims_from n rs)) \<longleftrightarrow> Claim c \<in> set rs"
proof (induction rs arbitrary: n)
  case (Cons r rs)
  then show ?case by (cases r) auto
qed simp

lemma reject_record_evidence_Inr: "reject_record_evidence (i, c) = Inr () \<longleftrightarrow> record_evidence c = None"
  by (auto simp: reject_record_evidence_def Let_def split: option.splits)

subsection \<open>Cycles\<close>

definition claim_follows :: "(string, string) dict \<Rightarrow> (string \<times> string) set" where
  "claim_follows edges = {(c, t). map_of edges c = Some t}"

text \<open>No cycle can be reached from a claim.\<close>

definition off_cycles :: "(string, string) dict \<Rightarrow> string \<Rightarrow> bool" where
  "off_cycles edges c \<longleftrightarrow> (\<forall>w. (c, w) \<in> (claim_follows edges)\<^sup>* \<longrightarrow> (w, w) \<notin> (claim_follows edges)\<^sup>+)"

lemma off_cycles_step:
  assumes "map_of edges c = Some t"
  shows "off_cycles edges c \<longleftrightarrow> off_cycles edges t"
proof
  have ct: "(c, t) \<in> claim_follows edges" using assms by (simp add: claim_follows_def)
  assume "off_cycles edges c"
  then show "off_cycles edges t" unfolding off_cycles_def using ct by (meson converse_rtrancl_into_rtrancl)
next
  have only: "(c, w) \<in> claim_follows edges \<Longrightarrow> w = t" for w using assms by (simp add: claim_follows_def)
  assume t: "off_cycles edges t"
  show "off_cycles edges c" unfolding off_cycles_def
  proof (intro allI impI notI)
    fix w assume w: "(c, w) \<in> (claim_follows edges)\<^sup>*" "(w, w) \<in> (claim_follows edges)\<^sup>+"
    show False
    proof (cases "w = c")
      case True
      then obtain x where "(c, x) \<in> claim_follows edges" "(x, c) \<in> (claim_follows edges)\<^sup>*" using w(2) by (metis tranclD)
      then show False using t w(2) only True unfolding off_cycles_def by blast
    next
      case False
      then obtain x where "(c, x) \<in> claim_follows edges" "(x, w) \<in> (claim_follows edges)\<^sup>*" using w(1) by (metis converse_rtranclE)
      then show False using t w(2) only unfolding off_cycles_def by blast
    qed
  qed
qed

lemma off_cycles_end: "map_of edges c = None \<Longrightarrow> off_cycles edges c"
  unfolding off_cycles_def by (metis (mono_tags, lifting) converse_rtranclE tranclD claim_follows_def case_prodD mem_Collect_eq option.distinct(1))

definition visits_ok :: "(string, string) dict \<Rightarrow> (string, visit_state) dict \<Rightarrow> string \<Rightarrow> bool" where
  "visits_ok edges state c \<longleftrightarrow> (\<forall>v. map_of state v = Some Visited \<longrightarrow> off_cycles edges v) \<and>
     (\<forall>v. map_of state v = Some Visiting \<longrightarrow> (v, c) \<in> (claim_follows edges)\<^sup>+)"

lemma visit_claim_exact:
  "visits_ok edges state c \<Longrightarrow>
     (if off_cycles edges c
      then \<exists>state'. visit_claim edges locations state c = Inr state' \<and>
        (\<forall>v. map_of state' v = Some Visited \<longrightarrow> off_cycles edges v) \<and>
        (\<forall>v. map_of state' v = Some Visiting \<longleftrightarrow> map_of state v = Some Visiting)
      else \<exists>e. visit_claim edges locations state c = Inl e)"
proof (induction edges locations state c rule: visit_claim.induct)
  case (1 edges locations state c)
  note start = "1.prems"
  show ?case
  proof (cases "map_of state c")
    case None
    show ?thesis
    proof (cases "map_of edges c")
      case leaf: None
      have "visit_claim edges locations state c = Inr (AList.update c Visited (AList.update c Visiting state))"
        by (simp add: visit_claim.simps [of edges locations state c] None leaf)
      then show ?thesis using start off_cycles_end [OF leaf] None by (auto simp: visits_ok_def)
    next
      case (Some t)
      let ?state = "AList.update c Visiting state"
      have ct: "(c, t) \<in> claim_follows edges" using Some by (simp add: claim_follows_def)
      have run: "visit_claim edges locations state c = res_bind (visit_claim edges locations ?state t) (\<lambda>state'. Inr (AList.update c Visited state'))"
        by (simp add: visit_claim.simps [of edges locations state c] None Some)
      have "visits_ok edges ?state t"
        using start ct None unfolding visits_ok_def by (auto intro: trancl_into_trancl)
      note IH = "1.IH" [OF None Some this]
      show ?thesis
      proof (cases "off_cycles edges t")
        case True
        then obtain state' where state': "visit_claim edges locations ?state t = Inr state'"
          "\<forall>v. map_of state' v = Some Visited \<longrightarrow> off_cycles edges v"
          "\<forall>v. map_of state' v = Some Visiting \<longleftrightarrow> map_of ?state v = Some Visiting" using IH by auto
        have c: "off_cycles edges c" using True off_cycles_step [OF Some] by simp
        have "(\<forall>v. map_of (AList.update c Visited state') v = Some Visited \<longrightarrow> off_cycles edges v) \<and>
            (\<forall>v. map_of (AList.update c Visited state') v = Some Visiting \<longleftrightarrow> map_of state v = Some Visiting)"
          using state'(2,3) c None by auto
        then show ?thesis using c by (simp add: run state'(1))
      next
        case False
        then show ?thesis using IH off_cycles_step [OF Some] by (auto simp: run)
      qed
    qed
  next
    case (Some v)
    show ?thesis
    proof (cases v)
      case Visiting
      then have "\<not> off_cycles edges c" using start Some unfolding visits_ok_def off_cycles_def by blast
      then show ?thesis
        by (cases "map_of locations c") (simp_all add: visit_claim.simps [of edges locations state c] Some Visiting fail_def)
    next
      case Visited
      then show ?thesis using start by (auto simp: visit_claim.simps [of edges locations state c] Some visits_ok_def)
    qed
  qed
qed

lemma visit_claims_exact:
  assumes "\<forall>v s. map_of state v = Some s \<longrightarrow> s = Visited \<and> off_cycles edges v"
  shows "visit_claims edges locations state cs = Inr () \<longleftrightarrow> (\<forall>(i, c) \<in> set cs. off_cycles edges (tc_id c))"
  using assms
proof (induction cs arbitrary: state)
  case (Cons ic cs)
  obtain i c where ic: "ic = (i, c)" by fastforce
  have "visits_ok edges state (tc_id c)" using Cons.prems by (auto simp: visits_ok_def)
  note visit = visit_claim_exact [OF this, of locations]
  show ?case
  proof (cases "off_cycles edges (tc_id c)")
    case True
    then obtain state' where state': "visit_claim edges locations state (tc_id c) = Inr state'"
      "\<forall>v. map_of state' v = Some Visited \<longrightarrow> off_cycles edges v" "\<forall>v. map_of state' v = Some Visiting \<longleftrightarrow> map_of state v = Some Visiting"
      using visit by auto
    then have "\<forall>v s. map_of state' v = Some s \<longrightarrow> s = Visited \<and> off_cycles edges v"
      using Cons.prems by (metis visit_state.distinct(1) visit_state.exhaust)
    from Cons.IH [OF this] show ?thesis using True state'(1) by (simp add: ic)
  next
    case False
    then show ?thesis using visit by (auto simp: ic)
  qed
qed simp

definition claim_relation :: "(nat \<times> trust_claim) list \<Rightarrow> (string \<times> string) set" where
  "claim_relation cs = {(a, b). \<exists>(i, c) \<in> set cs. tc_id c = a \<and> claim_edge c = Some b}"

lemma claim_follows_claims:
  assumes "distinct (map (tc_id \<circ> snd) cs)"
  shows "claim_follows (claim_edges cs) = claim_relation cs"
proof -
  let ?ps = "List.map_filter (\<lambda>(i, c). map_option (\<lambda>t. (tc_id c, t)) (claim_edge c)) cs"
  have set: "set ?ps = {(tc_id c, t) |i c t. (i, c) \<in> set cs \<and> claim_edge c = Some t}"
    by (force simp: List.map_filter_def simp del: claim_edge.simps)
  have "map fst ?ps = map (tc_id \<circ> snd) (filter (\<lambda>(i, c). claim_edge c \<noteq> None) cs)"
    by (induction cs) (auto simp: List.map_filter_simps simp del: claim_edge.simps)
  then have distinct: "distinct (map fst ?ps)" using assms by (simp add: distinct_map_filter)
  show ?thesis
    unfolding claim_follows_def claim_edges_def dict_of_distinct [OF distinct] claim_relation_def
    using distinct set by (auto simp: map_of_eq_Some_iff simp del: claim_edge.simps)
qed

lemma validate_claim_cycles_Inr:
  assumes "distinct (map (tc_id \<circ> snd) cs)"
  shows "validate_claim_cycles cs = Inr () \<longleftrightarrow> acyclic (claim_relation cs)"
proof -
  have "validate_claim_cycles cs = Inr () \<longleftrightarrow> (\<forall>(i, c) \<in> set cs. off_cycles (claim_edges cs) (tc_id c))"
    unfolding validate_claim_cycles_def by (rule visit_claims_exact) simp
  also have "\<dots> \<longleftrightarrow> acyclic (claim_relation cs)"
  proof
    assume off: "\<forall>(i, c) \<in> set cs. off_cycles (claim_edges cs) (tc_id c)"
    show "acyclic (claim_relation cs)" unfolding acyclic_def
    proof (intro allI notI)
      fix a assume cycle: "(a, a) \<in> (claim_relation cs)\<^sup>+"
      then obtain i c where "(i, c) \<in> set cs" "tc_id c = a" by (auto dest!: tranclD simp: claim_relation_def)
      then show False using off cycle unfolding off_cycles_def claim_follows_claims [OF assms] by blast
    qed
  next
    assume "acyclic (claim_relation cs)"
    then show "\<forall>(i, c) \<in> set cs. off_cycles (claim_edges cs) (tc_id c)"
      unfolding off_cycles_def claim_follows_claims [OF assms] acyclic_def by blast
  qed
  finally show ?thesis .
qed

lemma claims_from_ids: "map (tc_id \<circ> snd) (claims_from n rs) = map trust_id (filter (\<lambda>r. trust_kind_of r = ClaimKind) rs)"
proof (induction rs arbitrary: n)
  case (Cons r rs)
  then show ?case by (cases r) simp_all
qed simp

subsection \<open>Documents\<close>

lemma validate_trust_semantics_Inr: "validate_trust_semantics t = Inr () \<longleftrightarrow> trust_ok t"
proof (cases "distinct (map trust_id (ti_records t))")
  case False
  then show ?thesis by (simp add: validate_trust_semantics_def res_bind_Inr build_trust_index_Inr trust_ok_def)
next
  case True
  let ?rs = "ti_records t"
  let ?cs = "claims_from 0 ?rs"
  have claims: "(\<forall>(i, c) \<in> set ?cs. record_evidence c = None) \<longleftrightarrow> (\<forall>c. Claim c \<in> set ?rs \<longrightarrow> record_evidence c = None)"
    unfolding set_claims_from [of _ 0, symmetric] by blast
  have "distinct (map (tc_id \<circ> snd) ?cs)" unfolding claims_from_ids using True by (simp add: distinct_map_filter)
  note cycles = validate_claim_cycles_Inr [OF this]
  have "acyclic (claim_relation ?cs)" if "\<forall>(i, c) \<in> set ?cs. record_evidence c = None"
  proof -
    have "claim_relation ?cs = {}" using that by (auto simp: claim_relation_def)
    then show ?thesis by (simp add: acyclic_def)
  qed
  then have "validate_trust_semantics t = Inr () \<longleftrightarrow>
      (\<forall>i < length ?rs. validate_trust_record (trust_index_of ?rs) t (i, ?rs ! i) = Inr ()) \<and> (\<forall>(i, c) \<in> set ?cs. record_evidence c = None)"
    by (auto simp: validate_trust_semantics_def res_bind_Inr build_trust_index_Inr True Let_def each_position_Inr cycles res_all_Inr
        reject_record_evidence_Inr)
  also have "\<dots> \<longleftrightarrow> (\<forall>i < length ?rs. validate_trust_record (trust_index_of ?rs) t (i, ?rs ! i) = Inr () \<and>
      (\<forall>c. ?rs ! i = Claim c \<longrightarrow> record_evidence c = None))"
    unfolding claims by (metis in_set_conv_nth)
  also have "\<dots> \<longleftrightarrow> trust_ok t"
    unfolding validate_trust_record_Inr [OF True] trust_ok_def by (simp add: True all_set_conv_all_nth)
  finally show ?thesis .
qed

section \<open>Properties\<close>

text \<open>
  A trust document is accepted exactly when its records have distinct identifiers, every record
  names a source record, all references lead to records of the kind demanded and to this behavior
  document, and the basis of a claim is that of its level, with evidence of the behavior document for
  a tested claim.
\<close>

theorem trust_semantics_exact: "validate_trust_semantics t = Inr () \<longleftrightarrow> trust_ok t"
  by (rule validate_trust_semantics_Inr)

text \<open>
  C36: The search for cycles in the claims of a document whose identifiers differ ends, and it accepts
  exactly the claims whose evidence does not lead back to them.
\<close>

theorem claim_cycles_exact:
  assumes "distinct (map trust_id rs)"
  shows "validate_claim_cycles (claims_from 0 rs) = Inr () \<longleftrightarrow> acyclic (claim_relation (claims_from 0 rs))"
proof (rule validate_claim_cycles_Inr)
  show "distinct (map (tc_id \<circ> snd) (claims_from 0 rs))" unfolding claims_from_ids using assms by (simp add: distinct_map_filter)
qed

definition ex_tested_claim :: "string \<Rightarrow> string \<Rightarrow> trust_claim" where
  "ex_tested_claim i evidence = \<lparr>tc_id = i, tc_level = TestedLevel,
     tc_subject = \<lparr>bl_document = \<lparr>br_document_id = ''doc'', br_digest = ''h''\<rparr>, bl_subject = (''action'', ''a'')\<rparr>,
     tc_basis = TestedClaimBasis \<lparr>tb_evidence = RecordEvidence \<lparr>tr_kind = ClaimKind, tr_id = evidence\<rparr>,
       tb_artifact = \<lparr>tr_kind = SourceRecordKind, tr_id = ''src''\<rparr>, tb_check = \<lparr>ck_id = ''c'', ck_version = ''1'', ck_procedure_uri = ''u''\<rparr>,
       tb_environment = ''e'', tb_producer = \<lparr>ip_name = ''p'', ip_version = ''1''\<rparr>\<rparr>,
     tc_trace = \<lparr>tr_kind = SourceRecordKind, tr_id = ''src''\<rparr>\<rparr>"

theorem claim_cycles_exact_witness:
  "validate_claim_cycles (claims_from 0 [Claim (ex_tested_claim ''c1'' ''c2''), Claim (ex_tested_claim ''c2'' ''c1'')]) \<noteq> Inr ()"
proof -
  let ?rs = "[Claim (ex_tested_claim ''c1'' ''c2''), Claim (ex_tested_claim ''c2'' ''c1'')]"
  have "(''c1'', ''c2'') \<in> claim_relation (claims_from 0 ?rs)" "(''c2'', ''c1'') \<in> claim_relation (claims_from 0 ?rs)"
    by (simp_all add: claim_relation_def ex_tested_claim_def)
  then have "\<not> acyclic (claim_relation (claims_from 0 ?rs))" unfolding acyclic_def by (meson r_into_trancl trancl_into_trancl)
  moreover have "distinct (map trust_id ?rs)" by (simp add: ex_tested_claim_def)
  ultimately show ?thesis using claim_cycles_exact [of ?rs] by blast
qed

end
