(* ===== verification/Trust_Claims.thy ===== *)
theory Trust_Claims
  imports Trust_IR IR_Canonical_Form
begin

text \<open>
  What a behavior document supports of the claims about it, \<^verbatim>\<open>validate_trust_against_behavior\<close> and
  \<^verbatim>\<open>reconcile_mapping\<close> of \<^verbatim>\<open>src/ucf/ir/trust_validation.py\<close>. SHA-256 of canonical JSON is the
  parameter \<open>H\<close>.
\<close>

section \<open>The document behind the claims\<close>

definition validate_document_binding :: "(json \<Rightarrow> string) \<Rightarrow> behavior_ref \<Rightarrow> behavior_ir \<Rightarrow> string \<Rightarrow> (ir_error, unit) res" where
  "validate_document_binding H ref behavior location =
     res_all (\<lambda>(field, actual, expected).
        if actual \<noteq> expected
        then fail DOCUMENT_IDENTITY_MISMATCH (''subject_document '' @ field @ '' does not match supplied behavior IR'')
          (location @ ''.'' @ field)
        else Inr ())
       [(''document_id'', br_document_id ref, be_document_id behavior),
        (''canonical_digest'', br_digest ref, H (canonical_ir behavior))]"

type_synonym behavior_index = "(string, entity) dict"

definition build_behavior_index :: "behavior_ir \<Rightarrow> behavior_index" where
  "build_behavior_index behavior = dict_of (map (\<lambda>e. (entity_id e, e)) (be_entities behavior))"

definition resolve_behavior_ref :: "behavior_entity_ref \<Rightarrow> behavior_index \<Rightarrow> string \<Rightarrow> string list option \<Rightarrow> (ir_error, entity) res" where
  "resolve_behavior_ref ref index location expected =
     resolve_target ''behavior entity'' (\<lambda>e. entity_kind_value (kind_of e)) (\<lambda>k. k) index (fst (bl_subject ref)) (snd (bl_subject ref))
       location expected"

definition evidence_kinds :: "string list" where
  "evidence_kinds = [entity_kind_value EvidenceKind]"

definition check_behavior_ref :: "behavior_entity_ref \<Rightarrow> behavior_index \<Rightarrow> string \<Rightarrow> string list option \<Rightarrow> (ir_error, unit) res" where
  "check_behavior_ref ref index location expected = res_bind (resolve_behavior_ref ref index location expected) (\<lambda>_. Inr ())"

definition validate_external_ref :: "behavior_index \<Rightarrow> nat \<times> trust_record \<Rightarrow> (ir_error, unit) res" where
  "validate_external_ref index ir =
     (case ir of (i, r) \<Rightarrow>
      let location = at_position ''$.records'' i in
      case r of
        Declaration d \<Rightarrow> check_behavior_ref (td_subject d) index (location @ ''.subject'') None
      | ObservedFact f \<Rightarrow> check_behavior_ref (fc_subject f) index (location @ ''.subject'') None
      | Claim c \<Rightarrow> in_order [check_behavior_ref (tc_subject c) index (location @ ''.subject'') None,
          (case tc_basis c of
             TestedClaimBasis b \<Rightarrow>
               (case tb_evidence b of
                  BehaviorEvidence e \<Rightarrow> check_behavior_ref e index (location @ ''.basis.evidence'') (Some evidence_kinds)
                | RecordEvidence r \<Rightarrow> Inr ())
           | _ \<Rightarrow> Inr ())]
      | _ \<Rightarrow> Inr ())"

section \<open>Mappings\<close>

definition derive_mapping_disposition ::
  "trust_declaration \<Rightarrow> observed_fact \<Rightarrow> behavior_index \<Rightarrow> string \<Rightarrow> (ir_error, mapping_disposition) res" where
  "derive_mapping_disposition d f index location =
     (if td_subject d \<noteq> fc_subject f
      then fail MAPPING_BASIS_MISMATCH ''mapping declaration and observation subjects differ'' (location @ ''.observation'')
      else
        res_bind (resolve_behavior_ref (td_subject d) index (location @ ''.declaration'') None) (\<lambda>declared.
        case declared of
          Effect e \<Rightarrow>
            if ef_target e \<noteq> fa_target (fc_assertion f)
            then fail MAPPING_BASIS_MISMATCH ''observed assertion targets a different behavior slot'' (location @ ''.observation'')
            else Inr (if ef_value e = fa_value (fc_assertion f) then MappingMatch else MappingConflict)
        | _ \<Rightarrow> fail MAPPING_BASIS_MISMATCH ''same-behavior-slot requires a declaration that references an effect''
            (location @ ''.declaration'')))"

definition validate_mapping_disposition ::
  "trust_mapping \<Rightarrow> trust_declaration \<Rightarrow> observed_fact \<Rightarrow> behavior_index \<Rightarrow> string \<Rightarrow> (ir_error, unit) res" where
  "validate_mapping_disposition m d f index location =
     res_bind (derive_mapping_disposition d f index location) (\<lambda>expected.
     if tm_disposition m \<noteq> expected
     then fail MAPPING_BASIS_MISMATCH
       (''mapping disposition '' @ repr_str (disposition_value (tm_disposition m)) @
        '' does not match the immutable inputs; expected '' @ repr_str (disposition_value expected))
       (location @ ''.disposition'')
     else Inr ())"

text \<open>A reference to a record of a known kind, with the failed assertion of a record of another class.\<close>

definition inconsistent :: "(ir_error, 'a) res" where
  "inconsistent = Inl (AssertionError ''kind-discriminated trust index is inconsistent'')"

definition resolve_declaration :: "trust_ref \<Rightarrow> trust_index \<Rightarrow> string \<Rightarrow> (ir_error, trust_declaration) res" where
  "resolve_declaration ref index location =
     res_bind (resolve_record ref index location (Some [DeclarationKind])) (\<lambda>r.
     case r of Declaration d \<Rightarrow> Inr d | _ \<Rightarrow> inconsistent)"

definition resolve_fact :: "trust_ref \<Rightarrow> trust_index \<Rightarrow> string \<Rightarrow> (ir_error, observed_fact) res" where
  "resolve_fact ref index location =
     res_bind (resolve_record ref index location (Some [ObservedFactKind])) (\<lambda>r.
     case r of ObservedFact f \<Rightarrow> Inr f | _ \<Rightarrow> inconsistent)"

definition validate_mapping_record :: "trust_index \<Rightarrow> behavior_index \<Rightarrow> nat \<times> trust_record \<Rightarrow> (ir_error, unit) res" where
  "validate_mapping_record trust_index index ir =
     (case ir of (i, r) \<Rightarrow>
      let location = at_position ''$.records'' i in
      case r of
        TrustMapping m \<Rightarrow>
          res_bind (resolve_declaration (tm_declaration m) trust_index (location @ ''.declaration'')) (\<lambda>d.
          res_bind (resolve_fact (tm_observation m) trust_index (location @ ''.observation'')) (\<lambda>f.
          validate_mapping_disposition m d f index location))
      | _ \<Rightarrow> Inr ())"

section \<open>Claims\<close>

definition claim_basis_mismatch :: "bool \<Rightarrow> string \<Rightarrow> string \<Rightarrow> (ir_error, unit) res" where
  "claim_basis_mismatch ok field location =
     (if ok then Inr () else fail CLAIM_BASIS_MISMATCH (''claim '' @ field @ '' does not match its exact basis'') (location @ ''.'' @ field))"

definition evaluate_tested_claim ::
  "trust_claim \<Rightarrow> tested_basis \<Rightarrow> trust_index \<Rightarrow> behavior_index \<Rightarrow> string \<Rightarrow> (ir_error, unit) res" where
  "evaluate_tested_claim c b trust_index index location =
     (case tb_evidence b of
        RecordEvidence r \<Rightarrow> Inl (AssertionError ''internal trust validation accepted non-IR evidence'')
      | BehaviorEvidence r \<Rightarrow>
          res_bind (resolve_behavior_ref r index (location @ ''.basis.evidence'') (Some evidence_kinds)) (\<lambda>e.
          case e of
            Evidence v \<Rightarrow>
              if ev_outcome v \<noteq> ''passed''
              then fail EVIDENCE_NOT_PASSED (''verification evidence outcome is '' @ repr_str (ev_outcome v))
                (location @ ''.basis.evidence.outcome'')
              else
                res_bind (resolve_record (tb_artifact b) trust_index (location @ ''.basis.artifact'') (Some [SourceRecordKind])) (\<lambda>a.
                case a of
                  SourceRecord s \<Rightarrow>
                    if ev_source_revision v \<noteq> so_revision s
                    then fail STALE_EVIDENCE ''evidence source revision differs from the current artifact revision''
                      (location @ ''.basis.artifact.source_revision'')
                    else
                      res_bind (in_order
                        [claim_basis_mismatch (list_ex (\<lambda>r. (entity_kind_value (er_kind r), er_id r) = bl_subject (tc_subject c)) (ev_subjects v))
                           ''subject'' (location @ ''.basis''),
                         claim_basis_mismatch (ev_check v = tb_check b) ''check'' (location @ ''.basis''),
                         claim_basis_mismatch (ev_environment v = tb_environment b) ''environment'' (location @ ''.basis'')]) (\<lambda>_.
                      res_bind (resolve_behavior_ref
                        \<lparr>bl_document = bl_document (tc_subject c),
                         bl_subject = (entity_kind_value (er_kind (ev_provenance v)), er_id (ev_provenance v))\<rparr>
                        index (location @ ''.basis.evidence.provenance'') (Some [entity_kind_value ProvenanceKind])) (\<lambda>p.
                      case p of
                        Provenance pv \<Rightarrow> claim_basis_mismatch (pv_producer pv = tb_producer b) ''producer'' (location @ ''.basis'')
                      | _ \<Rightarrow> Inl (AssertionError ''kind-discriminated behavior index is inconsistent'')))
                | _ \<Rightarrow> inconsistent)
          | _ \<Rightarrow> Inl (AssertionError ''kind-discriminated behavior index is inconsistent'')))"

definition evaluate_claim :: "trust_claim \<Rightarrow> trust_index \<Rightarrow> behavior_index \<Rightarrow> string \<Rightarrow> (ir_error, claim_level) res" where
  "evaluate_claim c trust_index index location =
     (if tc_level c = VerifiedLevel
      then fail VERIFIED_UNAVAILABLE
        ''verified claims are unavailable until a versioned property, assumptions, and proof or exhaustive procedure are represented''
        (location @ ''.level'')
      else
        res_bind (case tc_basis c of
            ObservedClaimBasis r \<Rightarrow>
              res_bind (resolve_fact r trust_index (location @ ''.basis.fact'')) (\<lambda>f.
              claim_basis_mismatch (fc_subject f = tc_subject c) ''subject'' (location @ ''.basis''))
          | DeclaredClaimBasis r \<Rightarrow>
              res_bind (resolve_declaration r trust_index (location @ ''.basis.declaration'')) (\<lambda>d.
              claim_basis_mismatch (td_subject d = tc_subject c) ''subject'' (location @ ''.basis''))
          | MappedClaimBasis r \<Rightarrow>
              res_bind (resolve_record r trust_index (location @ ''.basis.mapping'') (Some [MappingKind])) (\<lambda>x.
              case x of
                TrustMapping m \<Rightarrow>
                  res_bind (resolve_declaration (tm_declaration m) trust_index (location @ ''.basis.mapping.declaration'')) (\<lambda>d.
                  res_bind (resolve_fact (tm_observation m) trust_index (location @ ''.basis.mapping.observation'')) (\<lambda>f.
                  claim_basis_mismatch (td_subject d = tc_subject c \<and> fc_subject f = tc_subject c) ''mapping_pair'' (location @ ''.basis'')))
              | _ \<Rightarrow> inconsistent)
          | TestedClaimBasis b \<Rightarrow> evaluate_tested_claim c b trust_index index location
          | VerifiedClaimBasis \<Rightarrow> Inl (AssertionError ''unhandled claim basis'')) (\<lambda>_.
        Inr (tc_level c)))"

definition evaluate_claim_record :: "trust_index \<Rightarrow> behavior_index \<Rightarrow> nat \<times> trust_record \<Rightarrow> (ir_error, unit) res" where
  "evaluate_claim_record trust_index index ir =
     (case ir of (i, r) \<Rightarrow>
      case r of
        Claim c \<Rightarrow> res_bind (evaluate_claim c trust_index index (at_position ''$.records'' i)) (\<lambda>_. Inr ())
      | _ \<Rightarrow> Inr ())"

definition validate_trust_against_behavior :: "(json \<Rightarrow> string) \<Rightarrow> trust_ir \<Rightarrow> behavior_ir \<Rightarrow> (ir_error, unit) res" where
  "validate_trust_against_behavior H t behavior =
     res_bind (in_order
       [validate_trust_semantics t, validate_ir_semantics behavior,
        validate_document_binding H (ti_subject t) behavior ''$.subject_document'',
        each_position (validate_external_ref (build_behavior_index behavior)) (ti_records t)]) (\<lambda>_.
     res_bind (build_trust_index 0 (ti_records t) []) (\<lambda>trust_index.
     in_order
       [each_position (validate_mapping_record trust_index (build_behavior_index behavior)) (ti_records t),
        each_position (evaluate_claim_record trust_index (build_behavior_index behavior)) (ti_records t)]))"

text \<open>The levels of the claims, a set.\<close>

definition supported_claim_levels :: "(json \<Rightarrow> string) \<Rightarrow> trust_ir \<Rightarrow> behavior_ir \<Rightarrow> (ir_error, claim_level set) res" where
  "supported_claim_levels H t behavior =
     res_bind (validate_trust_against_behavior H t behavior) (\<lambda>_.
     Inr (set (List.map_filter (\<lambda>r. case r of Claim c \<Rightarrow> Some (tc_level c) | _ \<Rightarrow> None) (ti_records t))))"

definition reconcile_mapping ::
  "(json \<Rightarrow> string) \<Rightarrow> trust_ir \<Rightarrow> behavior_ir \<Rightarrow> string \<Rightarrow> string \<Rightarrow> string \<Rightarrow> trust_ref \<Rightarrow> (ir_error, trust_mapping) res" where
  "reconcile_mapping H t behavior mapping_id declaration_id observation_id trace =
     res_bind (validate_trust_against_behavior H t behavior) (\<lambda>_.
     res_bind (build_trust_index 0 (ti_records t) []) (\<lambda>trust_index.
     if map_of trust_index mapping_id \<noteq> None
     then fail DUPLICATE_IDENTITY (''trust record id '' @ repr_str mapping_id @ '' already exists'') ''$.mapping_id''
     else
       let dref = \<lparr>tr_kind = DeclarationKind, tr_id = declaration_id\<rparr>; oref = \<lparr>tr_kind = ObservedFactKind, tr_id = observation_id\<rparr> in
       res_bind (resolve_declaration dref trust_index ''$.declaration_id'') (\<lambda>d.
       res_bind (resolve_fact oref trust_index ''$.observation_id'') (\<lambda>f.
       res_bind (validate_trace trace trust_index ''$.trace'') (\<lambda>_.
       res_bind (derive_mapping_disposition d f (build_behavior_index behavior) ''$'') (\<lambda>disposition.
       Inr \<lparr>tm_id = mapping_id, tm_declaration = dref, tm_observation = oref, tm_disposition = disposition, tm_trace = trace\<rparr>))))))"

section \<open>What supports a claim\<close>

definition declared_as :: "trust_record list \<Rightarrow> trust_ref \<Rightarrow> trust_declaration \<Rightarrow> bool" where
  "declared_as rs ref d \<longleftrightarrow> Declaration d \<in> set rs \<and> td_id d = tr_id ref"

definition observed_as :: "trust_record list \<Rightarrow> trust_ref \<Rightarrow> observed_fact \<Rightarrow> bool" where
  "observed_as rs ref f \<longleftrightarrow> ObservedFact f \<in> set rs \<and> fc_id f = tr_id ref"

text \<open>Passing evidence of the behavior document about the subject, for the current revision of the artifact.\<close>

definition passing_evidence :: "trust_record list \<Rightarrow> entity list \<Rightarrow> behavior_entity_ref \<Rightarrow> tested_basis \<Rightarrow> bool" where
  "passing_evidence rs es subject b \<longleftrightarrow> (\<exists>r v a pv.
     tb_evidence b = BehaviorEvidence r \<and> Evidence v \<in> set es \<and> bl_subject r = entity_key (Evidence v) \<and> ev_outcome v = ''passed'' \<and>
     SourceRecord a \<in> set rs \<and> so_id a = tr_id (tb_artifact b) \<and> ev_source_revision v = so_revision a \<and>
     bl_subject subject \<in> (\<lambda>r. (entity_kind_value (er_kind r), er_id r)) ` set (ev_subjects v) \<and>
     ev_check v = tb_check b \<and> ev_environment v = tb_environment b \<and>
     Provenance pv \<in> set es \<and> er_kind (ev_provenance v) = ProvenanceKind \<and> er_id (ev_provenance v) = pv_id pv \<and> pv_producer pv = tb_producer b)"

fun basis_supports :: "trust_record list \<Rightarrow> entity list \<Rightarrow> behavior_entity_ref \<Rightarrow> claim_basis \<Rightarrow> bool" where
  "basis_supports rs es subject (ObservedClaimBasis r) \<longleftrightarrow> (\<exists>f. observed_as rs r f \<and> fc_subject f = subject)"
| "basis_supports rs es subject (DeclaredClaimBasis r) \<longleftrightarrow> (\<exists>d. declared_as rs r d \<and> td_subject d = subject)"
| "basis_supports rs es subject (MappedClaimBasis r) \<longleftrightarrow> (\<exists>m d f. TrustMapping m \<in> set rs \<and> tm_id m = tr_id r \<and>
     declared_as rs (tm_declaration m) d \<and> observed_as rs (tm_observation m) f \<and> td_subject d = subject \<and> fc_subject f = subject)"
| "basis_supports rs es subject (TestedClaimBasis b) \<longleftrightarrow> passing_evidence rs es subject b"
| "basis_supports rs es subject VerifiedClaimBasis \<longleftrightarrow> False"

text \<open>The effect a declaration and an observation are about, and whether the observation agrees with it.\<close>

definition same_slot :: "entity list \<Rightarrow> trust_declaration \<Rightarrow> observed_fact \<Rightarrow> ir_effect \<Rightarrow> bool" where
  "same_slot es d f e \<longleftrightarrow> td_subject d = fc_subject f \<and> Effect e \<in> set es \<and> bl_subject (td_subject d) = entity_key (Effect e) \<and>
     ef_target e = fa_target (fc_assertion f)"

definition disposition_of :: "observed_fact \<Rightarrow> ir_effect \<Rightarrow> mapping_disposition" where
  "disposition_of f e = (if ef_value e = fa_value (fc_assertion f) then MappingMatch else MappingConflict)"

definition mapping_supported :: "trust_record list \<Rightarrow> entity list \<Rightarrow> trust_mapping \<Rightarrow> bool" where
  "mapping_supported rs es m \<longleftrightarrow> (\<exists>d f e. declared_as rs (tm_declaration m) d \<and> observed_as rs (tm_observation m) f \<and>
     same_slot es d f e \<and> tm_disposition m = disposition_of f e)"

fun subjects_exist :: "entity list \<Rightarrow> trust_record \<Rightarrow> bool" where
  "subjects_exist es (Declaration d) \<longleftrightarrow> bl_subject (td_subject d) \<in> entity_key ` set es"
| "subjects_exist es (ObservedFact f) \<longleftrightarrow> bl_subject (fc_subject f) \<in> entity_key ` set es"
| "subjects_exist es (Claim c) \<longleftrightarrow> bl_subject (tc_subject c) \<in> entity_key ` set es"
| "subjects_exist es r \<longleftrightarrow> True"

definition trust_supported :: "(json \<Rightarrow> string) \<Rightarrow> trust_ir \<Rightarrow> behavior_ir \<Rightarrow> bool" where
  "trust_supported H t b \<longleftrightarrow> trust_ok t \<and> ir_ok b \<and>
     ti_subject t = \<lparr>br_document_id = be_document_id b, br_digest = H (canonical_ir b)\<rparr> \<and>
     (\<forall>r \<in> set (ti_records t). subjects_exist (be_entities b) r) \<and>
     (\<forall>m. TrustMapping m \<in> set (ti_records t) \<longrightarrow> mapping_supported (ti_records t) (be_entities b) m) \<and>
     (\<forall>c. Claim c \<in> set (ti_records t) \<longrightarrow> basis_supports (ti_records t) (be_entities b) (tc_subject c) (tc_basis c))"

section \<open>The validation accepts exactly the supported documents\<close>

lemma validate_document_binding_Inr:
  "validate_document_binding H ref b location = Inr () \<longleftrightarrow> ref = \<lparr>br_document_id = be_document_id b, br_digest = H (canonical_ir b)\<rparr>"
  by (cases ref) (auto simp: validate_document_binding_def res_all_Inr simp del: res_all.simps)

lemma behavior_lookup:
  assumes "distinct (map entity_id (be_entities b))"
  shows "map_of (build_behavior_index b) i = Some e \<longleftrightarrow> e \<in> set (be_entities b) \<and> entity_id e = i"
proof -
  have "map_of (build_behavior_index b) = map_of (map (\<lambda>e. (entity_id e, e)) (be_entities b))"
    unfolding build_behavior_index_def by (rule dict_of_distinct) (use assms in \<open>simp add: comp_def\<close>)
  then show ?thesis using assms by (auto simp: map_of_eq_Some_iff comp_def)
qed

lemma resolve_behavior_ref_Inr:
  assumes "distinct (map entity_id (be_entities b))"
  shows "resolve_behavior_ref ref (build_behavior_index b) location expected = Inr e \<longleftrightarrow>
    e \<in> set (be_entities b) \<and> bl_subject ref = entity_key e \<and> (\<forall>ks. expected = Some ks \<longrightarrow> fst (entity_key e) \<in> set ks)"
  by (cases "bl_subject ref") (auto simp: resolve_behavior_ref_def resolve_target_Inr behavior_lookup [OF assms] entity_key_def)

lemma check_behavior_ref_Inr:
  assumes "distinct (map entity_id (be_entities b))"
  shows "check_behavior_ref ref (build_behavior_index b) location expected = Inr () \<longleftrightarrow>
    bl_subject ref \<in> entity_key ` set (be_entities b) \<and> (\<forall>ks. expected = Some ks \<longrightarrow> fst (bl_subject ref) \<in> set ks)"
  by (auto simp: check_behavior_ref_def res_bind_Inr resolve_behavior_ref_Inr [OF assms])

lemma resolve_record_Inr:
  assumes "distinct (map trust_id rs)"
  shows "resolve_record ref (trust_index_of rs) location expected = Inr r \<longleftrightarrow>
    r \<in> set rs \<and> trust_id r = tr_id ref \<and> tr_kind ref = trust_kind_of r \<and> (\<forall>ks. expected = Some ks \<longrightarrow> tr_kind ref \<in> set ks)"
  unfolding resolve_record_def resolve_target_Inr trust_lookup [OF assms]
  by (simp only: conj_assoc eq_commute [of "tr_kind ref" "trust_kind_of r"])

lemma trust_kind_cases:
  "trust_kind_of r = DeclarationKind \<longleftrightarrow> (\<exists>d. r = Declaration d)" "trust_kind_of r = ObservedFactKind \<longleftrightarrow> (\<exists>f. r = ObservedFact f)"
  "trust_kind_of r = MappingKind \<longleftrightarrow> (\<exists>m. r = TrustMapping m)" "trust_kind_of r = SourceRecordKind \<longleftrightarrow> (\<exists>s. r = SourceRecord s)"
  by (cases r; simp)+

lemma resolve_declaration_Inr:
  assumes "distinct (map trust_id rs)"
  shows "resolve_declaration ref (trust_index_of rs) location = Inr d \<longleftrightarrow> declared_as rs ref d \<and> tr_kind ref = DeclarationKind"
proof -
  have only: "(case r of Declaration d \<Rightarrow> Inr d | _ \<Rightarrow> inconsistent) = Inr d \<longleftrightarrow> r = Declaration d" for r
    by (cases r) (auto simp: inconsistent_def)
  then have "resolve_declaration ref (trust_index_of rs) location = Inr d \<longleftrightarrow>
      resolve_record ref (trust_index_of rs) location (Some [DeclarationKind]) = Inr (Declaration d)"
    unfolding resolve_declaration_def res_bind_Inr only by simp
  then show ?thesis by (auto simp: resolve_record_Inr [OF assms] declared_as_def)
qed

lemma resolve_fact_Inr:
  assumes "distinct (map trust_id rs)"
  shows "resolve_fact ref (trust_index_of rs) location = Inr f \<longleftrightarrow> observed_as rs ref f \<and> tr_kind ref = ObservedFactKind"
proof -
  have only: "(case r of ObservedFact f \<Rightarrow> Inr f | _ \<Rightarrow> inconsistent) = Inr f \<longleftrightarrow> r = ObservedFact f" for r
    by (cases r) (auto simp: inconsistent_def)
  then have "resolve_fact ref (trust_index_of rs) location = Inr f \<longleftrightarrow>
      resolve_record ref (trust_index_of rs) location (Some [ObservedFactKind]) = Inr (ObservedFact f)"
    unfolding resolve_fact_def res_bind_Inr only by simp
  then show ?thesis by (auto simp: resolve_record_Inr [OF assms] observed_as_def)
qed

lemma derive_mapping_disposition_Inr:
  assumes "distinct (map entity_id (be_entities b))"
  shows "derive_mapping_disposition d f (build_behavior_index b) location = Inr x \<longleftrightarrow>
    (\<exists>e. same_slot (be_entities b) d f e \<and> x = disposition_of f e)"
proof -
  have "(case y of Effect e \<Rightarrow> if ef_target e \<noteq> T then fail c1 m1 l1 else Inr (D e) | _ \<Rightarrow> fail c2 m2 l2) = Inr x \<longleftrightarrow>
      (\<exists>e. y = Effect e \<and> ef_target e = T \<and> x = D e)" for y T D c1 m1 l1 c2 m2 l2
    by (cases y) auto
  then have "derive_mapping_disposition d f (build_behavior_index b) location = Inr x \<longleftrightarrow> td_subject d = fc_subject f \<and>
      (\<exists>y. resolve_behavior_ref (td_subject d) (build_behavior_index b) (location @ ''.declaration'') None = Inr y \<and>
        (\<exists>e. y = Effect e \<and> ef_target e = fa_target (fc_assertion f) \<and> x = disposition_of f e))"
    unfolding derive_mapping_disposition_def if_fail_Inr res_bind_Inr disposition_of_def by simp
  then show ?thesis by (simp only: resolve_behavior_ref_Inr [OF assms] same_slot_def) blast
qed

lemma claim_basis_mismatch_Inr [simp]: "claim_basis_mismatch ok field location = Inr u \<longleftrightarrow> ok"
  by (simp add: claim_basis_mismatch_def)

lemma validate_mapping_disposition_Inr:
  assumes "distinct (map entity_id (be_entities b))"
  shows "validate_mapping_disposition m d f (build_behavior_index b) location = Inr () \<longleftrightarrow>
    (\<exists>e. same_slot (be_entities b) d f e \<and> tm_disposition m = disposition_of f e)"
  unfolding validate_mapping_disposition_def res_bind_Inr derive_mapping_disposition_Inr [OF assms] if_fail_Inr by auto

lemma validate_mapping_record_Inr:
  assumes rs: "distinct (map trust_id rs)" and es: "distinct (map entity_id (be_entities b))" and r: "trust_record_ok rs doc r"
  shows "validate_mapping_record (trust_index_of rs) (build_behavior_index b) (i, r) = Inr () \<longleftrightarrow>
    (\<forall>m. r = TrustMapping m \<longrightarrow> mapping_supported rs (be_entities b) m)"
proof (cases r)
  case (TrustMapping m)
  have kinds: "tr_kind (tm_declaration m) = DeclarationKind" "tr_kind (tm_observation m) = ObservedFactKind"
    using r by (auto simp: TrustMapping has_record_def)
  show ?thesis
    by (simp add: TrustMapping validate_mapping_record_def Let_def res_bind_Inr resolve_declaration_Inr [OF rs] resolve_fact_Inr [OF rs]
        validate_mapping_disposition_Inr [OF es] kinds mapping_supported_def)
qed (simp_all add: validate_mapping_record_def Let_def)

lemma ex_constructor: "(\<exists>x. A x \<and> (\<exists>v. x = C v \<and> B v)) \<longleftrightarrow> (\<exists>v. A (C v) \<and> B v)"
  by blast

lemma in_image_ex: "list_ex (\<lambda>r. f r = k) xs \<longleftrightarrow> k \<in> f ` set xs"
  by (auto simp: list_ex_iff)

lemma kind_value_inj [simp]: "entity_kind_value k = entity_kind_value k' \<longleftrightarrow> k = k'"
  by (cases k; cases k') simp_all

lemma provenance_value: "entity_kind_value k = ''provenance'' \<longleftrightarrow> k = ProvenanceKind"
  by (cases k) simp_all

lemma evaluate_tested_claim_Inr:
  assumes rs: "distinct (map trust_id rs)" and es: "distinct (map entity_id (be_entities b))" and ok: "has_record rs SourceRecordKind (tb_artifact t)"
  shows "evaluate_tested_claim c t (trust_index_of rs) (build_behavior_index b) location = Inr () \<longleftrightarrow>
    passing_evidence rs (be_entities b) (tc_subject c) t"
proof -
  have artifact: "tr_kind (tb_artifact t) = SourceRecordKind" using ok by (simp add: has_record_def)
  have evidence: "(case e of Evidence v \<Rightarrow> F v | _ \<Rightarrow> Inl x) = Inr () \<longleftrightarrow> (\<exists>v. e = Evidence v \<and> F v = Inr ())"
    for e x and F :: "ir_evidence \<Rightarrow> (ir_error, unit) res" by (cases e) auto
  have provenance: "(case e of Provenance v \<Rightarrow> F v | _ \<Rightarrow> Inl x) = Inr () \<longleftrightarrow> (\<exists>v. e = Provenance v \<and> F v = Inr ())"
    for e x and F :: "ir_provenance \<Rightarrow> (ir_error, unit) res" by (cases e) auto
  have source: "(case a of SourceRecord s \<Rightarrow> F s | _ \<Rightarrow> inconsistent) = Inr () \<longleftrightarrow> (\<exists>s. a = SourceRecord s \<and> F s = Inr ())"
    for a and F :: "source_record \<Rightarrow> (ir_error, unit) res" by (cases a) (auto simp: inconsistent_def)
  show ?thesis
  proof (cases "tb_evidence t")
    case (RecordEvidence r)
    then show ?thesis by (simp add: evaluate_tested_claim_def passing_evidence_def)
  next
    case (BehaviorEvidence r)
    have "evaluate_tested_claim c t (trust_index_of rs) (build_behavior_index b) location = Inr () \<longleftrightarrow>
        (\<exists>v. Evidence v \<in> set (be_entities b) \<and> bl_subject r = entity_key (Evidence v) \<and> ev_outcome v = ''passed'' \<and>
          (\<exists>a. SourceRecord a \<in> set rs \<and> so_id a = tr_id (tb_artifact t) \<and> ev_source_revision v = so_revision a \<and>
            (bl_subject (tc_subject c) \<in> (\<lambda>r. (entity_kind_value (er_kind r), er_id r)) ` set (ev_subjects v) \<and>
             ev_check v = tb_check t \<and> ev_environment v = tb_environment t) \<and>
            (\<exists>pv. Provenance pv \<in> set (be_entities b) \<and> er_kind (ev_provenance v) = ProvenanceKind \<and> er_id (ev_provenance v) = pv_id pv \<and>
              pv_producer pv = tb_producer t)))"
      unfolding evaluate_tested_claim_def BehaviorEvidence trust_evidence.case res_bind_Inr evidence if_fail_Inr source provenance in_image_ex
        resolve_behavior_ref_Inr [OF es] resolve_record_Inr [OF rs] in_order_Inr ex_constructor
      by (simp add: evidence_kinds_def entity_key_def artifact provenance_value)
    then show ?thesis unfolding passing_evidence_def BehaviorEvidence trust_evidence.inject by blast
  qed
qed

lemma evaluate_claim_Inr:
  assumes rs: "distinct (map trust_id rs)" and es: "distinct (map entity_id (be_entities b))" and basis: "basis_ok rs doc (tc_level c) (tc_basis c)"
    and mappings: "\<And>m. TrustMapping m \<in> set rs \<Longrightarrow> trust_record_ok rs doc (TrustMapping m)"
  shows "(\<exists>l. evaluate_claim c (trust_index_of rs) (build_behavior_index b) location = Inr l) \<longleftrightarrow>
    basis_supports rs (be_entities b) (tc_subject c) (tc_basis c)"
proof (cases "tc_basis c")
  case (ObservedClaimBasis r)
  then have "tr_kind r = ObservedFactKind" "tc_level c = ObservedLevel" using basis by (simp_all add: has_record_def)
  then show ?thesis by (simp add: evaluate_claim_def ObservedClaimBasis res_bind_Inr resolve_fact_Inr [OF rs])
next
  case (DeclaredClaimBasis r)
  then have "tr_kind r = DeclarationKind" "tc_level c = DeclaredLevel" using basis by (simp_all add: has_record_def)
  then show ?thesis by (simp add: evaluate_claim_def DeclaredClaimBasis res_bind_Inr resolve_declaration_Inr [OF rs])
next
  case (MappedClaimBasis r)
  then have r: "tr_kind r = MappingKind" "tc_level c = MappedLevel" using basis by (simp_all add: has_record_def)
  have only: "(case x of TrustMapping m \<Rightarrow> F m | _ \<Rightarrow> inconsistent) = Inr u \<longleftrightarrow> (\<exists>m. x = TrustMapping m \<and> F m = Inr u)"
    for x u and F :: "trust_mapping \<Rightarrow> (ir_error, unit) res" by (cases x) (auto simp: inconsistent_def)
  have kinds: "tr_kind (tm_declaration m) = DeclarationKind" "tr_kind (tm_observation m) = ObservedFactKind" if "TrustMapping m \<in> set rs" for m
    using mappings [OF that] by (simp_all add: has_record_def)
  show ?thesis
    unfolding evaluate_claim_def MappedClaimBasis claim_basis.case basis_supports.simps res_bind_Inr if_fail_Inr only
      resolve_record_Inr [OF rs] ex_constructor resolve_declaration_Inr [OF rs] resolve_fact_Inr [OF rs] r
    by (simp add: kinds cong: conj_cong)
next
  case (TestedClaimBasis t)
  then have "tc_level c = TestedLevel" "has_record rs SourceRecordKind (tb_artifact t)" using basis by simp_all
  then show ?thesis by (simp add: evaluate_claim_def TestedClaimBasis res_bind_Inr evaluate_tested_claim_Inr [OF rs es])
next
  case VerifiedClaimBasis
  then show ?thesis using basis by (simp add: evaluate_claim_def)
qed

lemma validate_external_ref_Inr:
  assumes es: "distinct (map entity_id (be_entities b))"
  shows "validate_external_ref (build_behavior_index b) (i, r) = Inr () \<Longrightarrow> subjects_exist (be_entities b) r"
    and "subjects_exist (be_entities b) r \<Longrightarrow> (\<And>c. r = Claim c \<Longrightarrow> basis_supports rs (be_entities b) (tc_subject c) (tc_basis c)) \<Longrightarrow>
      validate_external_ref (build_behavior_index b) (i, r) = Inr ()"
proof -
  show "validate_external_ref (build_behavior_index b) (i, r) = Inr () \<Longrightarrow> subjects_exist (be_entities b) r"
    by (cases r) (simp_all add: validate_external_ref_def Let_def check_behavior_ref_Inr [OF es])
  assume r: "subjects_exist (be_entities b) r" and claims: "\<And>c. r = Claim c \<Longrightarrow> basis_supports rs (be_entities b) (tc_subject c) (tc_basis c)"
  show "validate_external_ref (build_behavior_index b) (i, r) = Inr ()"
  proof (cases r)
    case (Claim c)
    have "check_behavior_ref e (build_behavior_index b) l (Some evidence_kinds) = Inr ()"
      if tested: "tc_basis c = TestedClaimBasis t" "tb_evidence t = BehaviorEvidence e" for t e l
    proof -
      have "passing_evidence rs (be_entities b) (tc_subject c) t" using claims [OF Claim] tested by simp
      then obtain v where "Evidence v \<in> set (be_entities b)" "bl_subject e = entity_key (Evidence v)"
        by (auto simp: passing_evidence_def tested(2))
      then have "bl_subject e \<in> entity_key ` set (be_entities b)" "fst (bl_subject e) \<in> set evidence_kinds"
        by (simp, simp add: entity_key_def evidence_kinds_def)
      then show ?thesis by (simp add: check_behavior_ref_Inr [OF es])
    qed
    then show ?thesis using r
      by (auto simp: Claim validate_external_ref_def Let_def check_behavior_ref_Inr [OF es] split: claim_basis.splits trust_evidence.splits)
  qed (use r in \<open>simp_all add: validate_external_ref_def Let_def check_behavior_ref_Inr [OF es]\<close>)
qed

lemma validate_trust_against_behavior_Inr: "validate_trust_against_behavior H t b = Inr () \<longleftrightarrow> trust_supported H t b"
proof (cases "trust_ok t \<and> ir_ok b")
  case False
  then show ?thesis
    by (auto simp: validate_trust_against_behavior_def res_bind_Inr validate_trust_semantics_Inr validate_ir_semantics_Inr trust_supported_def)
next
  case True
  let ?rs = "ti_records t" and ?bi = "build_behavior_index b"
  have rs: "distinct (map trust_id ?rs)" and es: "distinct (map entity_id (be_entities b))" using True by (auto simp: trust_ok_def ir_ok_def)
  have ok: "trust_record_ok ?rs (ti_subject t) r" if "r \<in> set ?rs" for r using True that by (simp add: trust_ok_def)
  have mapped: "validate_mapping_record (trust_index_of ?rs) ?bi (i, r) = Inr () \<longleftrightarrow> (\<forall>m. r = TrustMapping m \<longrightarrow> mapping_supported ?rs (be_entities b) m)"
    if "r \<in> set ?rs" for i r by (rule validate_mapping_record_Inr [OF rs es ok [OF that]])
  have claimed: "evaluate_claim_record (trust_index_of ?rs) ?bi (i, r) = Inr () \<longleftrightarrow>
      (\<forall>c. r = Claim c \<longrightarrow> basis_supports ?rs (be_entities b) (tc_subject c) (tc_basis c))" if r: "r \<in> set ?rs" for i r
  proof (cases r)
    case (Claim c)
    have "basis_ok ?rs (ti_subject t) (tc_level c) (tc_basis c)" using ok [OF r] by (simp add: Claim)
    from evaluate_claim_Inr [OF rs es this ok] show ?thesis by (simp add: evaluate_claim_record_def Claim res_bind_Inr)
  qed (simp_all add: evaluate_claim_record_def)
  have "validate_trust_against_behavior H t b = Inr () \<longleftrightarrow>
      ti_subject t = \<lparr>br_document_id = be_document_id b, br_digest = H (canonical_ir b)\<rparr> \<and>
      (\<forall>i < length ?rs. validate_external_ref ?bi (i, ?rs ! i) = Inr ()) \<and>
      (\<forall>i < length ?rs. validate_mapping_record (trust_index_of ?rs) ?bi (i, ?rs ! i) = Inr ()) \<and>
      (\<forall>i < length ?rs. evaluate_claim_record (trust_index_of ?rs) ?bi (i, ?rs ! i) = Inr ())"
    using True by (simp add: validate_trust_against_behavior_def res_bind_Inr validate_trust_semantics_Inr validate_ir_semantics_Inr
        validate_document_binding_Inr build_trust_index_Inr rs each_position_Inr)
  also have "\<dots> \<longleftrightarrow> ti_subject t = \<lparr>br_document_id = be_document_id b, br_digest = H (canonical_ir b)\<rparr> \<and>
      (\<forall>i < length ?rs. subjects_exist (be_entities b) (?rs ! i)) \<and>
      (\<forall>i < length ?rs. \<forall>m. ?rs ! i = TrustMapping m \<longrightarrow> mapping_supported ?rs (be_entities b) m) \<and>
      (\<forall>i < length ?rs. \<forall>c. ?rs ! i = Claim c \<longrightarrow> basis_supports ?rs (be_entities b) (tc_subject c) (tc_basis c))"
  proof -
    let ?claims = "\<forall>i < length ?rs. \<forall>c. ?rs ! i = Claim c \<longrightarrow> basis_supports ?rs (be_entities b) (tc_subject c) (tc_basis c)"
    have mappings: "(\<forall>i < length ?rs. validate_mapping_record (trust_index_of ?rs) ?bi (i, ?rs ! i) = Inr ()) \<longleftrightarrow>
        (\<forall>i < length ?rs. \<forall>m. ?rs ! i = TrustMapping m \<longrightarrow> mapping_supported ?rs (be_entities b) m)"
      and claims: "(\<forall>i < length ?rs. evaluate_claim_record (trust_index_of ?rs) ?bi (i, ?rs ! i) = Inr ()) \<longleftrightarrow> ?claims"
      using mapped claimed by (meson nth_mem)+
    have external: "(\<forall>i < length ?rs. validate_external_ref ?bi (i, ?rs ! i) = Inr ()) \<longleftrightarrow>
        (\<forall>i < length ?rs. subjects_exist (be_entities b) (?rs ! i))" if ?claims
    proof (intro all_cong)
      fix i assume "i < length ?rs"
      then show "validate_external_ref ?bi (i, ?rs ! i) = Inr () \<longleftrightarrow> subjects_exist (be_entities b) (?rs ! i)"
        using validate_external_ref_Inr(1) [OF es] validate_external_ref_Inr(2) [OF es, of "?rs ! i" ?rs i] that by blast
    qed
    show ?thesis
    proof (cases ?claims)
      case True
      show ?thesis unfolding mappings claims external [OF True] ..
    next
      case False
      then show ?thesis unfolding mappings claims by (simp only: simp_thms)
    qed
  qed
  also have "\<dots> \<longleftrightarrow> trust_supported H t b"
    unfolding trust_supported_def using True by (auto simp: all_set_conv_all_nth) (metis in_set_conv_nth)+
  finally show ?thesis .
qed

section \<open>Reconciling a mapping\<close>

lemma has_record_mono: "set rs \<subseteq> set rs' \<Longrightarrow> has_record rs K r \<Longrightarrow> has_record rs' K r"
  unfolding has_record_def by blast

lemma basis_ok_mono: "set rs \<subseteq> set rs' \<Longrightarrow> basis_ok rs doc level basis \<Longrightarrow> basis_ok rs' doc level basis"
  using has_record_mono by (cases basis) auto

lemma trust_record_ok_mono: "set rs \<subseteq> set rs' \<Longrightarrow> trust_record_ok rs doc r \<Longrightarrow> trust_record_ok rs' doc r"
  using has_record_mono basis_ok_mono by (cases r) (simp; blast)+

lemma passing_evidence_mono: "set rs \<subseteq> set rs' \<Longrightarrow> passing_evidence rs es subject b \<Longrightarrow> passing_evidence rs' es subject b"
  unfolding passing_evidence_def by blast

lemma basis_supports_mono: "set rs \<subseteq> set rs' \<Longrightarrow> basis_supports rs es subject basis \<Longrightarrow> basis_supports rs' es subject basis"
  using passing_evidence_mono by (cases basis) (simp_all add: declared_as_def observed_as_def; blast)+

lemma mapping_supported_mono: "set rs \<subseteq> set rs' \<Longrightarrow> mapping_supported rs es m \<Longrightarrow> mapping_supported rs' es m"
  unfolding mapping_supported_def declared_as_def observed_as_def by blast

definition declaration_ref :: "string \<Rightarrow> trust_ref" where
  "declaration_ref i = \<lparr>tr_kind = DeclarationKind, tr_id = i\<rparr>"

definition observation_ref :: "string \<Rightarrow> trust_ref" where
  "observation_ref i = \<lparr>tr_kind = ObservedFactKind, tr_id = i\<rparr>"

lemma reconcile_mapping_Inr:
  "reconcile_mapping H t b mapping_id declaration_id observation_id trace = Inr m \<longleftrightarrow>
     trust_supported H t b \<and> mapping_id \<notin> trust_id ` set (ti_records t) \<and> has_record (ti_records t) SourceRecordKind trace \<and>
     (\<exists>d f e. declared_as (ti_records t) (declaration_ref declaration_id) d \<and> observed_as (ti_records t) (observation_ref observation_id) f \<and>
        same_slot (be_entities b) d f e \<and>
        m = \<lparr>tm_id = mapping_id, tm_declaration = declaration_ref declaration_id, tm_observation = observation_ref observation_id,
          tm_disposition = disposition_of f e, tm_trace = trace\<rparr>)"
proof (cases "trust_supported H t b")
  case False
  then show ?thesis by (simp add: reconcile_mapping_def res_bind_Inr validate_trust_against_behavior_Inr)
next
  case True
  then have rs: "distinct (map trust_id (ti_records t))" and es: "distinct (map entity_id (be_entities b))"
    by (auto simp: trust_supported_def trust_ok_def ir_ok_def)
  have unused: "map_of (trust_index_of (ti_records t)) mapping_id = None \<longleftrightarrow> mapping_id \<notin> trust_id ` set (ti_records t)"
    by (simp add: map_of_None_keys trust_index_of_def image_image)
  have kinds: "tr_kind (declaration_ref i) = DeclarationKind" "tr_kind (observation_ref i) = ObservedFactKind" for i
    by (simp_all add: declaration_ref_def observation_ref_def)
  have "reconcile_mapping H t b mapping_id declaration_id observation_id trace = Inr m \<longleftrightarrow>
      mapping_id \<notin> trust_id ` set (ti_records t) \<and>
      (\<exists>d. declared_as (ti_records t) (declaration_ref declaration_id) d \<and> (\<exists>f. observed_as (ti_records t) (observation_ref observation_id) f \<and>
        has_record (ti_records t) SourceRecordKind trace \<and>
        (\<exists>x. (\<exists>e. same_slot (be_entities b) d f e \<and> x = disposition_of f e) \<and>
          m = \<lparr>tm_id = mapping_id, tm_declaration = declaration_ref declaration_id, tm_observation = observation_ref observation_id,
            tm_disposition = x, tm_trace = trace\<rparr>)))"
    unfolding reconcile_mapping_def Let_def declaration_ref_def [symmetric] observation_ref_def [symmetric] if_fail_Inr
    by (simp add: res_bind_Inr validate_trust_against_behavior_Inr True build_trust_index_Inr rs unused validate_trace_Inr [OF rs]
        resolve_declaration_Inr [OF rs] resolve_fact_Inr [OF rs] derive_mapping_disposition_Inr [OF es] kinds if_fail_Inr eq_commute [of _ m])
  then show ?thesis using True by blast
qed

definition with_mapping :: "trust_ir \<Rightarrow> trust_mapping \<Rightarrow> trust_ir" where
  "with_mapping t m = t\<lparr>ti_records := ti_records t @ [TrustMapping m]\<rparr>"

lemma with_mapping_supported:
  assumes "reconcile_mapping H t b mapping_id declaration_id observation_id trace = Inr m"
  shows "trust_supported H (with_mapping t m) b"
proof -
  let ?rs = "ti_records t" and ?rs' = "ti_records t @ [TrustMapping m]"
  from assms obtain d f e where ok: "trust_supported H t b" and new: "mapping_id \<notin> trust_id ` set ?rs"
    and trace: "has_record ?rs SourceRecordKind trace"
    and d: "declared_as ?rs (declaration_ref declaration_id) d" and f: "observed_as ?rs (observation_ref observation_id) f"
    and e: "same_slot (be_entities b) d f e"
    and m: "m = \<lparr>tm_id = mapping_id, tm_declaration = declaration_ref declaration_id, tm_observation = observation_ref observation_id,
          tm_disposition = disposition_of f e, tm_trace = trace\<rparr>"
    unfolding reconcile_mapping_Inr by blast
  have sub: "set ?rs \<subseteq> set ?rs'" by auto
  have "has_record ?rs DeclarationKind (declaration_ref declaration_id)" using d by (force simp: has_record_def declared_as_def declaration_ref_def)
  moreover have "has_record ?rs ObservedFactKind (observation_ref observation_id)" using f by (force simp: has_record_def observed_as_def observation_ref_def)
  ultimately have "trust_record_ok ?rs (ti_subject t) (TrustMapping m)" using trace by (simp add: m)
  then have own: "trust_record_ok ?rs' (ti_subject t) (TrustMapping m)" by (rule trust_record_ok_mono [OF sub])
  have "mapping_supported ?rs (be_entities b) m" unfolding mapping_supported_def m using d f e by auto
  then have mapped: "mapping_supported ?rs' (be_entities b) m" by (rule mapping_supported_mono [OF sub])
  have "tm_id m = mapping_id" by (simp add: m)
  then have ids: "distinct (map trust_id ?rs')" using ok new by (auto simp: trust_supported_def trust_ok_def)
  have "\<forall>r \<in> set ?rs'. trust_record_ok ?rs' (ti_subject t) r"
    using ok own trust_record_ok_mono [OF sub] unfolding trust_supported_def trust_ok_def by (auto simp del: trust_record_ok.simps)
  moreover have "\<forall>m \<in> {m. TrustMapping m \<in> set ?rs'}. mapping_supported ?rs' (be_entities b) m"
    using ok mapped mapping_supported_mono [OF sub] unfolding trust_supported_def by auto
  moreover have "\<forall>c \<in> {c. Claim c \<in> set ?rs'}. basis_supports ?rs' (be_entities b) (tc_subject c) (tc_basis c)"
    using ok basis_supports_mono [OF sub] unfolding trust_supported_def by auto
  ultimately show ?thesis
    using ok ids unfolding trust_supported_def trust_ok_def with_mapping_def by simp
qed

section \<open>The canonical document (trust_codec.py)\<close>

text \<open>
  The document whose fields \<^verbatim>\<open>canonical_trust_ir_json\<close> writes in order: records by kind and identifier,
  the subjects of a candidate and the entries of a record value sorted.
\<close>

fun canonical_trust_record :: "trust_record \<Rightarrow> trust_record" where
  "canonical_trust_record (ObservedFact f) =
     ObservedFact (f\<lparr>fc_assertion := (fc_assertion f)\<lparr>fa_value := canonical_value (fa_value (fc_assertion f))\<rparr>\<rparr>)"
| "canonical_trust_record (BehaviorCandidate c) =
     BehaviorCandidate (c\<lparr>bc_subjects := sort_key (\<lambda>r. (trust_kind_value (tr_kind r), tr_id r)) (bc_subjects c)\<rparr>)"
| "canonical_trust_record r = r"

definition trust_key :: "trust_record \<Rightarrow> string \<times> string" where
  "trust_key r = (trust_kind_value (trust_kind_of r), trust_id r)"

definition canonical_trust :: "trust_ir \<Rightarrow> trust_ir" where
  "canonical_trust t = t\<lparr>ti_records := map canonical_trust_record (sort_key trust_key (ti_records t))\<rparr>"

text \<open>\<^verbatim>\<open>parse_trust_ir_json\<close> of the text that \<^verbatim>\<open>canonical_trust_ir_json\<close> gives for a document.\<close>

definition parse_canonical_trust :: "trust_ir \<Rightarrow> (ir_error, trust_ir) res" where
  "parse_canonical_trust t = res_bind (validate_trust_semantics (canonical_trust t)) (\<lambda>_. Inr (canonical_trust t))"

lemma canonical_trust_record_id [simp]:
  "trust_id (canonical_trust_record r) = trust_id r" "trust_kind_of (canonical_trust_record r) = trust_kind_of r"
  by (cases r; simp)+

lemma has_record_canonical: "has_record (map canonical_trust_record rs) K r \<longleftrightarrow> has_record rs K r"
  by (auto simp: has_record_def)

lemma has_record_set: "set rs = set rs' \<Longrightarrow> has_record rs K r \<longleftrightarrow> has_record rs' K r"
  by (simp add: has_record_def)

lemma trust_record_ok_set: "set rs = set rs' \<Longrightarrow> trust_record_ok rs doc r \<longleftrightarrow> trust_record_ok rs' doc r"
  using trust_record_ok_mono [of rs rs'] trust_record_ok_mono [of rs' rs] by blast

definition is_pair :: "('a \<Rightarrow> bool) \<Rightarrow> ('a \<Rightarrow> bool) \<Rightarrow> 'a list \<Rightarrow> bool" where
  "is_pair P Q xs \<longleftrightarrow> (\<exists>d f. (xs = [d, f] \<or> xs = [f, d]) \<and> P d \<and> Q f)"

lemma is_pair_rev: "is_pair P Q (rev xs) \<longleftrightarrow> is_pair P Q xs"
  unfolding is_pair_def rev_swap by auto

lemma is_pair_sort: "is_pair P Q (sort_key k xs) \<longleftrightarrow> is_pair P Q xs"
proof (cases "length xs = 2")
  case True
  then obtain x y where "xs = [x, y]" by (auto simp: numeral_2_eq_2 length_Suc_conv)
  then have "sort_key k xs = xs \<or> sort_key k xs = rev xs" by simp
  then show ?thesis using is_pair_rev by metis
next
  case False
  then have "\<not> is_pair P Q xs" "\<not> is_pair P Q (sort_key k xs)"
    by (auto simp: is_pair_def) (metis length_sort length_Cons list.size(3) numeral_2_eq_2)+
  then show ?thesis by simp
qed

lemma trust_record_ok_canonical:
  "trust_record_ok (map canonical_trust_record rs) doc (canonical_trust_record r) \<longleftrightarrow> trust_record_ok rs doc r"
proof (cases r)
  case (BehaviorCandidate c)
  have "trust_record_ok rs doc (BehaviorCandidate c) \<longleftrightarrow> has_record rs SourceRecordKind (bc_trace c) \<and>
      is_pair (has_record rs DeclarationKind) (has_record rs ObservedFactKind) (bc_subjects c)" for rs c
    by (simp add: is_pair_def)
  then show ?thesis
    by (simp add: BehaviorCandidate is_pair_sort has_record_canonical [abs_def] del: trust_record_ok.simps(4))
next
  case (Claim c)
  have "basis_ok (map canonical_trust_record rs) doc level basis \<longleftrightarrow> basis_ok rs doc level basis" for level basis
    by (cases basis) (simp_all add: has_record_canonical)
  then show ?thesis by (simp add: Claim has_record_canonical)
qed (simp_all add: has_record_canonical)

lemma trust_ok_canonical: "trust_ok (canonical_trust t) \<longleftrightarrow> trust_ok t"
proof -
  let ?rs = "ti_records t"
  have ids: "distinct (map trust_id (map canonical_trust_record (sort_key trust_key ?rs))) \<longleftrightarrow> distinct (map trust_id ?rs)"
    by (simp add: comp_def distinct_map_sort)
  have "trust_record_ok (map canonical_trust_record (sort_key trust_key ?rs)) doc (canonical_trust_record r) \<longleftrightarrow> trust_record_ok ?rs doc r"
    for doc r unfolding trust_record_ok_canonical by (rule trust_record_ok_set) simp
  then show ?thesis unfolding trust_ok_def canonical_trust_def by (simp add: ids [simplified])
qed

section \<open>Reading the canonical texts again\<close>

lemma canonical_trust_records: "set (ti_records (canonical_trust t)) = canonical_trust_record ` set (ti_records t)"
  by (simp add: canonical_trust_def)

lemma canonical_record_eq:
  "canonical_trust_record r = SourceRecord s \<longleftrightarrow> r = SourceRecord s" "canonical_trust_record r = Declaration d \<longleftrightarrow> r = Declaration d"
  "canonical_trust_record r = TrustMapping m \<longleftrightarrow> r = TrustMapping m" "canonical_trust_record r = Claim c \<longleftrightarrow> r = Claim c"
  by (cases r; simp)+

text \<open>An observation with its value in the canonical form.\<close>

definition canonical_fact :: "observed_fact \<Rightarrow> observed_fact" where
  "canonical_fact f = f\<lparr>fc_assertion := (fc_assertion f)\<lparr>fa_value := canonical_value (fa_value (fc_assertion f))\<rparr>\<rparr>"

lemma canonical_fact_simps [simp]:
  "fc_id (canonical_fact f) = fc_id f" "fc_subject (canonical_fact f) = fc_subject f"
  "fa_target (fc_assertion (canonical_fact f)) = fa_target (fc_assertion f)"
  "fa_value (fc_assertion (canonical_fact f)) = canonical_value (fa_value (fc_assertion f))"
  by (simp_all add: canonical_fact_def)

lemma canonical_record_fact: "canonical_trust_record r = ObservedFact f \<longleftrightarrow> (\<exists>g. r = ObservedFact g \<and> f = canonical_fact g)"
  by (cases r) (auto simp: canonical_fact_def)

lemma canonical_entity_eq:
  "canonical_form x = Effect e \<longleftrightarrow> (\<exists>y. x = Effect y \<and> e = y\<lparr>ef_value := canonical_value (ef_value y), ef_requires := canonical_refs (ef_requires y)\<rparr>)"
  "canonical_form x = Evidence v \<longleftrightarrow> (\<exists>y. x = Evidence y \<and> v = y\<lparr>ev_subjects := canonical_refs (ev_subjects y)\<rparr>)"
  "canonical_form x = Provenance p \<longleftrightarrow> x = Provenance p"
  by (cases x; auto)+

lemma in_image_one: "(\<And>x. h x = y \<longleftrightarrow> x = z) \<Longrightarrow> y \<in> h ` S \<longleftrightarrow> z \<in> S"
  by (metis imageE image_eqI)

lemma in_image_some:
  assumes "\<And>x. h x = y \<longleftrightarrow> (\<exists>g. x = c g \<and> Q g)"
  shows "y \<in> h ` S \<longleftrightarrow> (\<exists>g. c g \<in> S \<and> Q g)"
proof -
  have "y \<in> h ` S \<longleftrightarrow> (\<exists>x \<in> S. h x = y)" by blast
  then show ?thesis unfolding assms by blast
qed

lemma canonical_document_entities: "set (be_entities (canonical_document b)) = canonical_form ` set (be_entities b)"
  by (simp add: canonical_document_def)

lemma declared_as_canonical: "declared_as (ti_records (canonical_trust t)) r d \<longleftrightarrow> declared_as (ti_records t) r d"
  unfolding declared_as_def canonical_trust_records in_image_one [OF canonical_record_eq(2)] ..

lemma observed_as_canonical:
  "observed_as (ti_records (canonical_trust t)) r f \<longleftrightarrow> (\<exists>g. observed_as (ti_records t) r g \<and> f = canonical_fact g)"
proof -
  have "ObservedFact f \<in> set (ti_records (canonical_trust t)) \<longleftrightarrow> (\<exists>g. ObservedFact g \<in> set (ti_records t) \<and> f = canonical_fact g)"
    unfolding canonical_trust_records by (rule in_image_some) (rule canonical_record_fact)
  then show ?thesis by (auto simp: observed_as_def)
qed

lemma entity_keys_canonical: "entity_key ` set (be_entities (canonical_document b)) = entity_key ` set (be_entities b)"
  unfolding canonical_document_entities image_image entity_key_form ..

lemma subjects_exist_canonical:
  "subjects_exist (be_entities (canonical_document b)) (canonical_trust_record r) \<longleftrightarrow> subjects_exist (be_entities b) r"
  by (cases r) (simp_all add: entity_keys_canonical)

lemma passing_evidence_canonical:
  "passing_evidence (ti_records (canonical_trust t)) (be_entities (canonical_document b)) subject basis \<longleftrightarrow>
     passing_evidence (ti_records t) (be_entities b) subject basis"
proof -
  have source: "SourceRecord a \<in> set (ti_records (canonical_trust t)) \<longleftrightarrow> SourceRecord a \<in> set (ti_records t)" for a
    unfolding canonical_trust_records by (rule in_image_one) (rule canonical_record_eq(1))
  have prov: "Provenance p \<in> set (be_entities (canonical_document b)) \<longleftrightarrow> Provenance p \<in> set (be_entities b)" for p
    unfolding canonical_document_entities by (rule in_image_one) (rule canonical_entity_eq(3))
  have evidence: "(\<exists>v. Evidence v \<in> set (be_entities (canonical_document b)) \<and> P v) \<longleftrightarrow>
      (\<exists>v. Evidence v \<in> set (be_entities b) \<and> P (v\<lparr>ev_subjects := canonical_refs (ev_subjects v)\<rparr>))" for P
    unfolding canonical_document_entities in_image_some [of canonical_form, OF canonical_entity_eq(2)] by blast
  have "passing_evidence rs es subject basis \<longleftrightarrow> (\<exists>v. Evidence v \<in> set es \<and> (\<exists>r a pv.
      tb_evidence basis = BehaviorEvidence r \<and> bl_subject r = entity_key (Evidence v) \<and> ev_outcome v = ''passed'' \<and>
      SourceRecord a \<in> set rs \<and> so_id a = tr_id (tb_artifact basis) \<and> ev_source_revision v = so_revision a \<and>
      bl_subject subject \<in> (\<lambda>r. (entity_kind_value (er_kind r), er_id r)) ` set (ev_subjects v) \<and>
      ev_check v = tb_check basis \<and> ev_environment v = tb_environment basis \<and>
      Provenance pv \<in> set es \<and> er_kind (ev_provenance v) = ProvenanceKind \<and> er_id (ev_provenance v) = pv_id pv \<and>
      pv_producer pv = tb_producer basis))" for rs es
    unfolding passing_evidence_def by blast
  then show ?thesis by (simp add: evidence source prov entity_key_def)
qed

lemma basis_supports_canonical:
  "basis_supports (ti_records (canonical_trust t)) (be_entities (canonical_document b)) subject basis \<longleftrightarrow>
     basis_supports (ti_records t) (be_entities b) subject basis"
proof -
  have mapping: "TrustMapping m \<in> set (ti_records (canonical_trust t)) \<longleftrightarrow> TrustMapping m \<in> set (ti_records t)" for m
    unfolding canonical_trust_records by (rule in_image_one) (rule canonical_record_eq(3))
  show ?thesis
    by (cases basis) (simp_all add: declared_as_canonical observed_as_canonical passing_evidence_canonical mapping, (metis canonical_fact_simps(2))+)
qed

text \<open>
  Every observation that conflicts with its declaration still differs from it when the entries of both
  values are put in the canonical order.
\<close>

definition conflicts_remain :: "trust_ir \<Rightarrow> behavior_ir \<Rightarrow> bool" where
  "conflicts_remain t b \<longleftrightarrow> (\<forall>m d f e. TrustMapping m \<in> set (ti_records t) \<and> tm_disposition m = MappingConflict \<and>
     declared_as (ti_records t) (tm_declaration m) d \<and> observed_as (ti_records t) (tm_observation m) f \<and>
     same_slot (be_entities b) d f e \<longrightarrow> canonical_value (ef_value e) \<noteq> canonical_value (fa_value (fc_assertion f)))"

lemma mapping_supported_canonical:
  "mapping_supported (ti_records (canonical_trust t)) (be_entities (canonical_document b)) m \<longleftrightarrow>
     (\<exists>d f e. declared_as (ti_records t) (tm_declaration m) d \<and> observed_as (ti_records t) (tm_observation m) f \<and>
        same_slot (be_entities b) d f e \<and>
        tm_disposition m = (if canonical_value (ef_value e) = canonical_value (fa_value (fc_assertion f)) then MappingMatch else MappingConflict))"
proof -
  have effect: "(\<exists>e. Effect e \<in> set (be_entities (canonical_document b)) \<and> P e) \<longleftrightarrow>
      (\<exists>e. Effect e \<in> set (be_entities b) \<and> P (e\<lparr>ef_value := canonical_value (ef_value e), ef_requires := canonical_refs (ef_requires e)\<rparr>))" for P
    unfolding canonical_document_entities in_image_some [of canonical_form, OF canonical_entity_eq(1)] by blast
  have "mapping_supported (ti_records (canonical_trust t)) (be_entities (canonical_document b)) m \<longleftrightarrow>
      (\<exists>d f. declared_as (ti_records t) (tm_declaration m) d \<and> observed_as (ti_records t) (tm_observation m) f \<and>
        (\<exists>e. Effect e \<in> set (be_entities (canonical_document b)) \<and> (td_subject d = fc_subject (canonical_fact f) \<and>
          bl_subject (td_subject d) = entity_key (Effect e) \<and> ef_target e = fa_target (fc_assertion (canonical_fact f)) \<and>
          tm_disposition m = disposition_of (canonical_fact f) e)))"
    unfolding mapping_supported_def declared_as_canonical observed_as_canonical same_slot_def by blast
  then show ?thesis unfolding effect by (simp add: same_slot_def disposition_of_def entity_key_def) blast
qed

lemma unique_sources:
  assumes "distinct (map trust_id (ti_records t))" "distinct (map entity_id (be_entities b))"
    "declared_as (ti_records t) rd d" "declared_as (ti_records t) rd d'" "observed_as (ti_records t) ro f" "observed_as (ti_records t) ro f'"
    "same_slot (be_entities b) d f e" "same_slot (be_entities b) d' f' e'"
  shows "d = d' \<and> f = f' \<and> e = e'"
proof -
  have records: "inj_on trust_id (set (ti_records t))" and entities: "inj_on entity_id (set (be_entities b))"
    using assms(1,2) by (simp_all add: distinct_map)
  have "Declaration d = Declaration d'" by (rule inj_onD [OF records]) (use assms(3,4) in \<open>simp_all add: declared_as_def\<close>)
  moreover have "ObservedFact f = ObservedFact f'" by (rule inj_onD [OF records]) (use assms(5,6) in \<open>simp_all add: observed_as_def\<close>)
  moreover have "Effect e = Effect e'"
    by (rule inj_onD [OF entities]) (use assms(7,8) calculation in \<open>auto simp: same_slot_def entity_key_def\<close>)
  ultimately show ?thesis by simp
qed

lemma trust_supported_canonical:
  assumes ok: "trust_supported H t b"
  shows "trust_supported H (canonical_trust t) (canonical_document b) \<longleftrightarrow> conflicts_remain t b"
proof -
  have ids: "distinct (map trust_id (ti_records t))" "distinct (map entity_id (be_entities b))"
    using ok by (auto simp: trust_supported_def trust_ok_def ir_ok_def)
  have mapping: "TrustMapping m \<in> set (ti_records (canonical_trust t)) \<longleftrightarrow> TrustMapping m \<in> set (ti_records t)" for m
    unfolding canonical_trust_records by (rule in_image_one) (rule canonical_record_eq(3))
  have claim: "Claim c \<in> set (ti_records (canonical_trust t)) \<longleftrightarrow> Claim c \<in> set (ti_records t)" for c
    unfolding canonical_trust_records by (rule in_image_one) (rule canonical_record_eq(4))
  have "trust_supported H (canonical_trust t) (canonical_document b) \<longleftrightarrow>
      (\<forall>m. TrustMapping m \<in> set (ti_records t) \<longrightarrow> mapping_supported (ti_records (canonical_trust t)) (be_entities (canonical_document b)) m)"
  proof -
    have "\<forall>r \<in> set (ti_records (canonical_trust t)). subjects_exist (be_entities (canonical_document b)) r"
      unfolding canonical_trust_records using ok subjects_exist_canonical unfolding trust_supported_def by blast
    moreover have "ti_subject (canonical_trust t) = \<lparr>br_document_id = be_document_id (canonical_document b),
        br_digest = H (canonical_ir (canonical_document b))\<rparr>"
      using ok by (simp add: trust_supported_def canonical_trust_def canonical_document_def canonical_ir_document [unfolded canonical_document_def])
    ultimately show ?thesis using ok
      unfolding trust_supported_def trust_ok_canonical ir_ok_canonical claim mapping basis_supports_canonical by blast
  qed
  also have "\<dots> \<longleftrightarrow> conflicts_remain t b"
  proof -
    have "mapping_supported (ti_records (canonical_trust t)) (be_entities (canonical_document b)) m \<longleftrightarrow>
        (\<forall>d f e. tm_disposition m = MappingConflict \<and> declared_as (ti_records t) (tm_declaration m) d \<and>
           observed_as (ti_records t) (tm_observation m) f \<and> same_slot (be_entities b) d f e \<longrightarrow>
           canonical_value (ef_value e) \<noteq> canonical_value (fa_value (fc_assertion f)))"
      if m: "TrustMapping m \<in> set (ti_records t)" for m
    proof -
      obtain d f e where x: "declared_as (ti_records t) (tm_declaration m) d" "observed_as (ti_records t) (tm_observation m) f"
        "same_slot (be_entities b) d f e" "tm_disposition m = disposition_of f e"
        using ok m unfolding trust_supported_def mapping_supported_def by blast
      have only: "d' = d \<and> f' = f \<and> e' = e" if "declared_as (ti_records t) (tm_declaration m) d'"
        "observed_as (ti_records t) (tm_observation m) f'" "same_slot (be_entities b) d' f' e'" for d' f' e'
        using unique_sources [OF ids that(1) x(1) that(2) x(2) that(3) x(3)] .
      have "mapping_supported (ti_records (canonical_trust t)) (be_entities (canonical_document b)) m \<longleftrightarrow>
          tm_disposition m = (if canonical_value (ef_value e) = canonical_value (fa_value (fc_assertion f)) then MappingMatch else MappingConflict)"
        unfolding mapping_supported_canonical using x(1-3) only by blast
      also have "\<dots> \<longleftrightarrow> (tm_disposition m = MappingConflict \<longrightarrow> canonical_value (ef_value e) \<noteq> canonical_value (fa_value (fc_assertion f)))"
        using x(4) by (auto simp: disposition_of_def split: if_splits)
      finally show ?thesis using x(1-3) only by blast
    qed
    then show ?thesis unfolding conflicts_remain_def by blast
  qed
  finally show ?thesis .
qed

section \<open>Properties\<close>

text \<open>
  C32: A trust document is accepted against a behavior document exactly when both are valid, it is about
  this document by identifier and digest, its subjects exist there, each mapping says rightly whether
  observation and declaration of the same effect agree, and what each claim rests on supports it:
  a record about the same subject, or passing evidence for the current revision of the artifact, with
  the check, environment and producer claimed.
\<close>

theorem trust_exact: "validate_trust_against_behavior H t b = Inr () \<longleftrightarrow> trust_supported H t b"
  by (rule validate_trust_against_behavior_Inr)

text \<open>
  C33: In an accepted document no claim is verified, every claim has the basis of its level, and a tested
  claim has passing evidence of the behavior document about its subject.
\<close>

theorem accepted_claims_backed:
  assumes "supported_claim_levels H t b = Inr levels"
  shows "VerifiedLevel \<notin> levels \<and>
    list_all (\<lambda>r. case r of Claim c \<Rightarrow> tc_level c \<in> levels \<and> is_basis_of (tc_level c) (tc_basis c) \<and>
        (case tc_basis c of TestedClaimBasis s \<Rightarrow> passing_evidence (ti_records t) (be_entities b) (tc_subject c) s | _ \<Rightarrow> True)
      | _ \<Rightarrow> True) (ti_records t)"
proof -
  have ok: "trust_supported H t b" and levels: "levels = {l. \<exists>c. Claim c \<in> set (ti_records t) \<and> tc_level c = l}"
  proof -
    have "set (List.map_filter (\<lambda>r. case r of Claim c \<Rightarrow> Some (tc_level c) | _ \<Rightarrow> None) rs) = {l. \<exists>c. Claim c \<in> set rs \<and> tc_level c = l}" for rs
      by (auto simp: List.map_filter_def split: trust_record.splits) blast
    then show "trust_supported H t b" "levels = {l. \<exists>c. Claim c \<in> set (ti_records t) \<and> tc_level c = l}"
      using assms by (auto simp: supported_claim_levels_def res_bind_Inr validate_trust_against_behavior_Inr)
  qed
  have each: "tc_level c \<noteq> VerifiedLevel \<and> is_basis_of (tc_level c) (tc_basis c) \<and>
      (\<forall>s. tc_basis c = TestedClaimBasis s \<longrightarrow> passing_evidence (ti_records t) (be_entities b) (tc_subject c) s)"
    if c: "Claim c \<in> set (ti_records t)" for c
  proof -
    have supports: "basis_supports (ti_records t) (be_entities b) (tc_subject c) (tc_basis c)"
      and "trust_record_ok (ti_records t) (ti_subject t) (Claim c)" using ok c by (auto simp: trust_supported_def trust_ok_def simp del: trust_record_ok.simps)
    then have "basis_ok (ti_records t) (ti_subject t) (tc_level c) (tc_basis c)" by simp
    with supports show ?thesis by (cases "tc_basis c") auto
  qed
  show ?thesis
  proof (intro conjI)
    show "VerifiedLevel \<notin> levels" using each by (auto simp: levels)
    have "list_all (\<lambda>r. \<forall>c. r = Claim c \<longrightarrow> tc_level c \<in> levels \<and> is_basis_of (tc_level c) (tc_basis c) \<and>
        (\<forall>s. tc_basis c = TestedClaimBasis s \<longrightarrow> passing_evidence (ti_records t) (be_entities b) (tc_subject c) s)) (ti_records t)"
      using each by (auto simp: list_all_iff levels)
    then show "list_all (\<lambda>r. case r of Claim c \<Rightarrow> tc_level c \<in> levels \<and> is_basis_of (tc_level c) (tc_basis c) \<and>
        (case tc_basis c of TestedClaimBasis s \<Rightarrow> passing_evidence (ti_records t) (be_entities b) (tc_subject c) s | _ \<Rightarrow> True)
      | _ \<Rightarrow> True) (ti_records t)"
      by (rule list.pred_mono_strong) (auto split: trust_record.splits claim_basis.splits)
  qed
qed

text \<open>
  C34: A mapping that is reconciled from the documents keeps the trust document accepted when it is added.
\<close>

theorem reconciled_stays_accepted:
  assumes "reconcile_mapping H t b mapping_id declaration_id observation_id trace = Inr m"
  shows "validate_trust_against_behavior H (with_mapping t m) b = Inr ()"
  unfolding validate_trust_against_behavior_Inr by (rule with_mapping_supported [OF assms])

subsection \<open>Example\<close>

text \<open>A behavior document with one effect, on a record whose entries can come in two orders.\<close>

definition ex_entries :: "bool \<Rightarrow> ir_value" where
  "ex_entries flipped = RecordValue ((if flipped then rev else id) [(''amount'', IntegerValue 1), (''unit'', StringValue ''eur'')])"

definition ex_slot :: domain_target where
  "ex_slot = \<lparr>dt_subject = ''account'', dt_path = [''balance'']\<rparr>"

definition ex_ledger :: "bool \<Rightarrow> behavior_ir" where
  "ex_ledger flipped = \<lparr>be_document_id = ''ledger'', be_roots = [],
     be_entities =
       [Capability \<lparr>ca_id = ''cap'', ca_name = ''org.ledger'', ca_minimum_version = ''1.0.0'', ca_required = True,
          ca_provenance = \<lparr>er_kind = ProvenanceKind, er_id = ''prov''\<rparr>\<rparr>,
        Effect \<lparr>ef_id = ''charge'', ef_operation = ''write'', ef_target = ex_slot, ef_value = ex_entries flipped,
          ef_requires = [\<lparr>er_kind = CapabilityKind, er_id = ''cap''\<rparr>], ef_provenance = \<lparr>er_kind = ProvenanceKind, er_id = ''prov''\<rparr>\<rparr>,
        Provenance \<lparr>pv_id = ''prov'', pv_source_uri = ''urn:src'', pv_source_revision = ''r'',
          pv_producer = \<lparr>ip_name = ''p'', ip_version = ''1''\<rparr>, pv_captured_at = ''2026-01-01T00:00:00Z''\<rparr>]\<rparr>"

definition ex_charge :: behavior_entity_ref where
  "ex_charge = \<lparr>bl_document = \<lparr>br_document_id = ''ledger'', br_digest = ''h''\<rparr>, bl_subject = (''effect'', ''charge'')\<rparr>"

definition ex_trace :: trust_ref where
  "ex_trace = \<lparr>tr_kind = SourceRecordKind, tr_id = ''src''\<rparr>"

definition ex_trust :: "trust_ir" where
  "ex_trust = \<lparr>ti_document_id = ''trust'', ti_subject = \<lparr>br_document_id = ''ledger'', br_digest = ''h''\<rparr>,
     ti_records =
       [Claim \<lparr>tc_id = ''claim'', tc_level = DeclaredLevel, tc_subject = ex_charge,
          tc_basis = DeclaredClaimBasis (declaration_ref ''decl''), tc_trace = ex_trace\<rparr>,
        Declaration \<lparr>td_id = ''decl'', td_subject = ex_charge, td_trace = ex_trace\<rparr>,
        ObservedFact \<lparr>fc_id = ''obs'', fc_subject = ex_charge, fc_assertion = \<lparr>fa_target = ex_slot, fa_value = ex_entries False\<rparr>, fc_trace = ex_trace\<rparr>,
        SourceRecord \<lparr>so_id = ''src'', so_uri = ''urn:log'', so_revision = ''r'', so_producer = \<lparr>ip_name = ''p'', ip_version = ''1''\<rparr>,
          so_captured_at = ''2026-01-01T00:00:00Z''\<rparr>]\<rparr>"

definition ex_digest :: "json \<Rightarrow> string" where
  "ex_digest j = ''h''"

definition ex_mapping :: "mapping_disposition \<Rightarrow> trust_mapping" where
  "ex_mapping disposition = \<lparr>tm_id = ''map'', tm_declaration = declaration_ref ''decl'', tm_observation = observation_ref ''obs'',
     tm_disposition = disposition, tm_trace = ex_trace\<rparr>"

lemma ex_trust_accepted: "validate_trust_against_behavior ex_digest ex_trust (ex_ledger True) = Inr ()"
  by code_simp

theorem accepted_claims_backed_witness:
  "\<exists>levels. supported_claim_levels ex_digest ex_trust (ex_ledger True) = Inr levels \<and> VerifiedLevel \<notin> levels"
proof -
  have "supported_claim_levels ex_digest ex_trust (ex_ledger True) = Inr {DeclaredLevel}"
    by (simp add: supported_claim_levels_def ex_trust_accepted) (simp add: ex_trust_def List.map_filter_simps)
  with accepted_claims_backed [OF this] show ?thesis by blast
qed

lemma ex_reconciled:
  "reconcile_mapping ex_digest ex_trust (ex_ledger True) ''map'' ''decl'' ''obs'' ex_trace = Inr (ex_mapping MappingConflict)"
  by code_simp

theorem reconciled_stays_accepted_witness:
  "validate_trust_against_behavior ex_digest (with_mapping ex_trust (ex_mapping MappingConflict)) (ex_ledger True) = Inr ()"
  by (rule reconciled_stays_accepted [OF ex_reconciled])



end
