(* ===== verification/Onboarding_Trust.thy ===== *)
theory Onboarding_Trust
  imports Onboarding_Materialize Trust_Claims
begin

text \<open>
  The trust document of an onboarding and the bundle of all its documents, \<^verbatim>\<open>src/ucf/onboarding/trust.py\<close>
  and \<^verbatim>\<open>bundle.py\<close>: every materialized behavior is declared by its reviewer and observed as a public
  interface, and nothing more is claimed of it.
\<close>

section \<open>The records of the trust document\<close>

definition discovery_schema_uri :: string where
  "discovery_schema_uri = ''urn:ucf:adapter:discovery-result:1.0.0''"

definition decision_schema_uri :: string where
  "decision_schema_uri = ''urn:ucf:onboarding:decision-set:1.0.0''"

definition discovery_source :: "onboarding_digests \<Rightarrow> discovery_result \<Rightarrow> decision_set \<Rightarrow> source_record" where
  "discovery_source D discovery s = \<lparr>so_id = ''source.discovery'', so_uri = discovery_schema_uri, so_revision = od_discovery D discovery,
     so_producer = ds_producer discovery, so_captured_at = cc_captured_at (de_capture_context s)\<rparr>"

definition decision_source :: "onboarding_digests \<Rightarrow> decision_set \<Rightarrow> source_record" where
  "decision_source D s = \<lparr>so_id = ''source.decisions'', so_uri = decision_schema_uri, so_revision = od_decisions D s,
     so_producer = de_reviewer s, so_captured_at = cc_captured_at (de_capture_context s)\<rparr>"

definition decision_trace :: trust_ref where
  "decision_trace = \<lparr>tr_kind = SourceRecordKind, tr_id = ''source.decisions''\<rparr>"

definition interface_of :: "discovery_result \<Rightarrow> materialization \<Rightarrow> (onboarding_error, string) res" where
  "interface_of discovery link =
     (case map_of (candidates_by_id discovery) (cr_candidate_id (mt_candidate link)) of
        None \<Rightarrow> Inl (OnboardingException ''KeyError'')
      | Some c \<Rightarrow> Inr (rf_id (dc_subject c)))"

definition link_suffix :: "materialization \<Rightarrow> string" where
  "link_suffix link = remove_prefix ''candidate.'' (cr_candidate_id (mt_candidate link))"

definition declared_claim :: "materialization \<Rightarrow> trust_claim" where
  "declared_claim link = \<lparr>tc_id = ''claim.declared.'' @ link_suffix link, tc_level = DeclaredLevel, tc_subject = mt_root link,
     tc_basis = DeclaredClaimBasis (declaration_ref (''declaration.'' @ link_suffix link)), tc_trace = decision_trace\<rparr>"

definition observed_claim :: "materialization \<Rightarrow> trust_claim" where
  "observed_claim link = \<lparr>tc_id = ''claim.observed.'' @ link_suffix link, tc_level = ObservedLevel, tc_subject = mt_root link,
     tc_basis = ObservedClaimBasis (observation_ref (''observed.'' @ link_suffix link)), tc_trace = decision_trace\<rparr>"

definition records_of_link :: "materialization \<Rightarrow> string \<Rightarrow> trust_record list" where
  "records_of_link link interface = (let suffix = link_suffix link in
     [Declaration \<lparr>td_id = ''declaration.'' @ suffix, td_subject = mt_root link, td_trace = decision_trace\<rparr>,
      ObservedFact \<lparr>fc_id = ''observed.'' @ suffix, fc_subject = mt_root link,
        fc_assertion = \<lparr>fa_target = \<lparr>dt_subject = ''inventory'', dt_path = [''public-interface-id'']\<rparr>, fa_value = StringValue interface\<rparr>,
        fc_trace = decision_trace\<rparr>,
      Claim (declared_claim link), Claim (observed_claim link)])"

definition trust_document ::
  "onboarding_digests \<Rightarrow> discovery_result \<Rightarrow> decision_set \<Rightarrow> behavior_ir \<Rightarrow> trust_record list \<Rightarrow> trust_ir" where
  "trust_document D discovery s behavior links =
     (let behavior_digest = od_behavior D (canonical_ir behavior) in
      \<lparr>ti_document_id = ''trust.'' @ od_text D (behavior_digest @ od_decisions D s),
       ti_subject = \<lparr>br_document_id = be_document_id behavior, br_digest = behavior_digest\<rparr>,
       ti_records = [SourceRecord (discovery_source D discovery s), SourceRecord (decision_source D s)] @ links\<rparr>)"

section \<open>Building and validating it\<close>

definition lift_ir :: "(ir_error, 'a) res \<Rightarrow> (onboarding_error, 'a) res" where
  "lift_ir r = (case r of Inl e \<Rightarrow> Inl (OnboardingIrError e) | Inr x \<Rightarrow> Inr x)"

fun validate_onboarding_record :: "nat \<times> trust_record \<Rightarrow> (onboarding_error, unit) res" where
  "validate_onboarding_record (i, BehaviorCandidate c) =
     ob_check False ObIllegalPromotion ''BRN-002 trust cannot contain candidates or mappings'' (at_position ''$.records'' i)"
| "validate_onboarding_record (i, TrustMapping m) =
     ob_check False ObIllegalPromotion ''BRN-002 trust cannot contain candidates or mappings'' (at_position ''$.records'' i)"
| "validate_onboarding_record (i, Claim c) =
     ob_check (tc_level c \<in> {ObservedLevel, DeclaredLevel}) ObIllegalPromotion
       ''BRN-002 trust permits only independently supported observed and declared claims'' (at_position ''$.records'' i @ ''.level'')"
| "validate_onboarding_record (i, r) = Inr ()"

definition validate_onboarding_trust :: "onboarding_digests \<Rightarrow> trust_ir \<Rightarrow> behavior_ir \<Rightarrow> (onboarding_error, unit) res" where
  "validate_onboarding_trust D trust behavior = in_order
     [each_position validate_onboarding_record (ti_records trust),
      lift_ir (validate_trust_against_behavior (od_behavior D) trust behavior)]"

definition build_onboarding_trust ::
  "onboarding_digests \<Rightarrow> discovery_result \<Rightarrow> decision_set \<Rightarrow> behavior_ir \<Rightarrow> materialization list \<Rightarrow> (onboarding_error, trust_ir) res" where
  "build_onboarding_trust D discovery s behavior links =
     res_bind (validate_decision_set D discovery s) (\<lambda>_.
     res_bind (materialize_behavior D discovery s) (\<lambda>(expected_behavior, expected_links).
     res_bind (ob_check (behavior = expected_behavior) ObDocumentIdentityMismatch
       ''Behavior IR differs from deterministic decision materialization'' ''$.behavior'') (\<lambda>_.
     res_bind (ob_check (links = expected_links) ObIllegalPromotion
       ''materializations must be the exact accepted and edited decisions'' ''$.materializations'') (\<lambda>_.
     res_bind (res_map (interface_of discovery) links) (\<lambda>interfaces.
     res_bind (lift_ir (parse_canonical_trust
       (trust_document D discovery s behavior (concat (map2 records_of_link links interfaces))))) (\<lambda>trust.
     res_bind (validate_onboarding_trust D trust behavior) (\<lambda>_. Inr trust)))))))"

section \<open>The bundle\<close>

text \<open>SHA-256 of the canonical JSON of an inventory, and of a trust document in its canonical form.\<close>

record bundle_digests =
  bd_inventory :: "inventory_snapshot \<Rightarrow> string"
  bd_trust :: "trust_ir \<Rightarrow> string"

datatype document_kind = InventoryDocument | DiscoveryDocument | DecisionsDocument | BehaviorDocument | TrustDocument

record bundle_document =
  bu_kind :: document_kind
  bu_schema_uri :: string
  bu_schema_version :: string
  bu_digest :: string

datatype disposition = AcceptedDisposition | EditedDisposition | RejectedDisposition | UncertainDisposition

record onboarding_baseline =
  bs_documents :: "bundle_document list"
  bs_dispositions :: "(disposition \<times> string list) list"
  bs_materializations :: "materialization list"
  bs_discovery_status :: string
  bs_uncovered :: "record_ref list"
  bs_claim_levels :: "(claim_level \<times> string list) list"

record onboarding_bundle =
  nb_capture_context :: capture_context
  nb_inventory :: inventory_snapshot
  nb_discovery :: discovery_result
  nb_decisions :: decision_set
  nb_behavior :: behavior_ir
  nb_trust :: trust_ir
  nb_baseline :: onboarding_baseline

fun disposition_of_decision :: "decision \<Rightarrow> disposition" where
  "disposition_of_decision (AcceptedDecision h) = AcceptedDisposition"
| "disposition_of_decision (EditedDecision h digest p) = EditedDisposition"
| "disposition_of_decision (RejectedDecision h) = RejectedDisposition"
| "disposition_of_decision (UncertainDecision h) = UncertainDisposition"

definition candidate_id_of :: "decision \<Rightarrow> string" where
  "candidate_id_of d = cr_candidate_id (dn_candidate (decision_head d))"

definition dispositions_of :: "decision list \<Rightarrow> (disposition \<times> string list) list" where
  "dispositions_of ds = map (\<lambda>k. (k, sort (map candidate_id_of (filter (\<lambda>d. disposition_of_decision d = k) ds))))
     [AcceptedDisposition, EditedDisposition, RejectedDisposition, UncertainDisposition]"

definition claim_ids :: "claim_level \<Rightarrow> trust_record list \<Rightarrow> string list" where
  "claim_ids l rs = List.map_filter (\<lambda>r. case r of Claim c \<Rightarrow> if tc_level c = l then Some (tc_id c) else None | _ \<Rightarrow> None) rs"

definition claim_levels_of :: "trust_record list \<Rightarrow> (claim_level \<times> string list) list" where
  "claim_levels_of rs = map (\<lambda>l. (l, sort (claim_ids l rs))) [ObservedLevel, DeclaredLevel, MappedLevel, TestedLevel, VerifiedLevel]"

definition bundle_documents ::
  "onboarding_digests \<Rightarrow> bundle_digests \<Rightarrow> inventory_snapshot \<Rightarrow> discovery_result \<Rightarrow> decision_set \<Rightarrow> behavior_ir \<Rightarrow> trust_ir \<Rightarrow>
     bundle_document list" where
  "bundle_documents D E inventory discovery s behavior trust =
     [\<lparr>bu_kind = InventoryDocument, bu_schema_uri = ''urn:ucf:schema:inventory:1.0.0'', bu_schema_version = ''1.0.0'',
       bu_digest = bd_inventory E inventory\<rparr>,
      \<lparr>bu_kind = DiscoveryDocument, bu_schema_uri = discovery_schema_uri, bu_schema_version = ''1.0.0'', bu_digest = od_discovery D discovery\<rparr>,
      \<lparr>bu_kind = DecisionsDocument, bu_schema_uri = decision_schema_uri, bu_schema_version = ''1.0.0'', bu_digest = od_decisions D s\<rparr>,
      \<lparr>bu_kind = BehaviorDocument, bu_schema_uri = ''urn:ucf:schema:ir:1.0.0'', bu_schema_version = ''1.0.0'',
       bu_digest = od_behavior D (canonical_ir behavior)\<rparr>,
      \<lparr>bu_kind = TrustDocument, bu_schema_uri = ''urn:ucf:schema:trust-ir:1.0.0'', bu_schema_version = ''1.0.0'',
       bu_digest = bd_trust E (canonical_trust trust)\<rparr>]"

definition derive_onboarding_baseline ::
  "onboarding_digests \<Rightarrow> bundle_digests \<Rightarrow> inventory_snapshot \<Rightarrow> discovery_result \<Rightarrow> decision_set \<Rightarrow> behavior_ir \<Rightarrow> trust_ir \<Rightarrow>
     materialization list \<Rightarrow> onboarding_baseline" where
  "derive_onboarding_baseline D E inventory discovery s behavior trust links =
     \<lparr>bs_documents = bundle_documents D E inventory discovery s behavior trust, bs_dispositions = dispositions_of (de_decisions s),
      bs_materializations = sort_key (\<lambda>m. cr_candidate_id (mt_candidate m)) links,
      bs_discovery_status = dv_status (ds_coverage discovery), bs_uncovered = dv_uncovered (ds_coverage discovery),
      bs_claim_levels = claim_levels_of (ti_records trust)\<rparr>"

text \<open>The request the discovery answers; its model refuses another capability and a binding to another inventory.\<close>

definition inventory_binding_of :: "bundle_digests \<Rightarrow> inventory_snapshot \<Rightarrow> inventory_binding" where
  "inventory_binding_of E inventory = \<lparr>ib_subject_uri = sn_subject_uri inventory, ib_source_revision = sn_source_revision inventory,
     ib_digest = bd_inventory E inventory\<rparr>"

definition discovery_capability :: capability_selection where
  "discovery_capability = \<lparr>cs_name = ''org.ucf.adapter.discovery'', cs_version = ''1.0.0''\<rparr>"

definition request_for :: "bundle_digests \<Rightarrow> inventory_snapshot \<Rightarrow> discovery_result \<Rightarrow> (onboarding_error, discovery_request) res" where
  "request_for E inventory discovery =
     (if ds_capability discovery = discovery_capability \<and> ds_binding discovery = inventory_binding_of E inventory
      then Inr \<lparr>dq_capability = ds_capability discovery, dq_binding = ds_binding discovery, dq_inventory = inventory\<rparr>
      else Inl (OnboardingException ''ValidationError''))"

definition validate_onboarding_bundle :: "onboarding_digests \<Rightarrow> bundle_digests \<Rightarrow> onboarding_bundle \<Rightarrow> (onboarding_error, unit) res" where
  "validate_onboarding_bundle D E b =
     res_bind (ob_check (nb_capture_context b = de_capture_context (nb_decisions b)) ObDocumentIdentityMismatch
       ''bundle capture context differs from its decision set'' ''$.capture_context'') (\<lambda>_.
     res_bind (request_for E (nb_inventory b) (nb_discovery b)) (\<lambda>request.
     res_bind (validate_discovery_exchange D request (nb_discovery b)) (\<lambda>_.
     res_bind (validate_decision_set D (nb_discovery b) (nb_decisions b)) (\<lambda>_.
     res_bind (materialize_behavior D (nb_discovery b) (nb_decisions b)) (\<lambda>(behavior, links).
     res_bind (ob_check (nb_behavior b = behavior) ObDocumentIdentityMismatch
       ''embedded Behavior IR differs from deterministic materialization'' ''$.behavior'') (\<lambda>_.
     res_bind (build_onboarding_trust D (nb_discovery b) (nb_decisions b) (nb_behavior b) links) (\<lambda>trust.
     res_bind (ob_check (nb_trust b = trust) ObDocumentIdentityMismatch
       ''embedded Trust IR differs from deterministic evidence import'' ''$.trust'') (\<lambda>_.
     ob_check (nb_baseline b =
         derive_onboarding_baseline D E (nb_inventory b) (nb_discovery b) (nb_decisions b) (nb_behavior b) (nb_trust b) links)
       ObSummaryMismatch ''onboarding baseline differs from its exact embedded documents'' ''$.baseline''))))))))"

definition build_onboarding_bundle ::
  "onboarding_digests \<Rightarrow> bundle_digests \<Rightarrow> inventory_snapshot \<Rightarrow> discovery_result \<Rightarrow> decision_set \<Rightarrow>
     (onboarding_error, onboarding_bundle) res" where
  "build_onboarding_bundle D E inventory discovery s =
     res_bind (request_for E inventory discovery) (\<lambda>request.
     res_bind (validate_discovery_exchange D request discovery) (\<lambda>_.
     res_bind (validate_decision_set D discovery s) (\<lambda>_.
     res_bind (materialize_behavior D discovery s) (\<lambda>(behavior, links).
     res_bind (build_onboarding_trust D discovery s behavior links) (\<lambda>trust.
     let bundle = \<lparr>nb_capture_context = de_capture_context s, nb_inventory = inventory, nb_discovery = discovery, nb_decisions = s,
       nb_behavior = behavior, nb_trust = trust,
       nb_baseline = derive_onboarding_baseline D E inventory discovery s behavior trust links\<rparr> in
     res_bind (validate_onboarding_bundle D E bundle) (\<lambda>_. Inr bundle))))))"

section \<open>The trust document is always accepted\<close>

lemma trust_supported_reorder:
  assumes ok: "trust_supported H t b" and same: "set (ti_records t) = set rs" and ids: "distinct (map trust_id rs)"
  shows "trust_supported H (t\<lparr>ti_records := rs\<rparr>) b"
proof -
  have sub: "set (ti_records t) \<subseteq> set rs" using same by simp
  have "\<forall>r \<in> set rs. trust_record_ok rs (ti_subject t) r"
    using ok trust_record_ok_mono [OF sub] unfolding trust_supported_def trust_ok_def same by blast
  moreover have "\<forall>m. TrustMapping m \<in> set rs \<longrightarrow> mapping_supported rs (be_entities b) m"
    using ok mapping_supported_mono [OF sub] unfolding trust_supported_def same by blast
  moreover have "\<forall>c. Claim c \<in> set rs \<longrightarrow> basis_supports rs (be_entities b) (tc_subject c) (tc_basis c)"
    using ok basis_supports_mono [OF sub] unfolding trust_supported_def same by blast
  ultimately show ?thesis using ok ids unfolding trust_supported_def trust_ok_def same by simp
qed

definition record_tags :: "string list" where
  "record_tags = [''declaration.'', ''observed.'', ''claim.declared.'', ''claim.observed.'']"

lemma ids_of_link: "map trust_id (records_of_link link i) = map (\<lambda>tag. tag @ link_suffix link) record_tags"
  by (simp add: records_of_link_def Let_def record_tags_def declared_claim_def observed_claim_def)

lemma distinct_tagged:
  assumes "distinct xs"
  shows "distinct ([''source.discovery'', ''source.decisions''] @ concat (map (\<lambda>x. map (\<lambda>tag. tag @ x) record_tags) xs))"
proof -
  have "distinct (concat (map (\<lambda>x. map (\<lambda>tag. tag @ x) record_tags) xs))"
    using assms by (induction xs) (auto simp: record_tags_def)
  then show ?thesis by (auto simp: record_tags_def)
qed

lemma ids_of_links:
  assumes "length links = length interfaces"
  shows "map trust_id (concat (map2 records_of_link links interfaces)) =
    concat (map (\<lambda>x. map (\<lambda>tag. tag @ x) record_tags) (map link_suffix links))"
  using assms by (induction links interfaces rule: list_induct2) (simp_all add: ids_of_link)

lemma canonical_links: "map canonical_trust_record (concat (map2 records_of_link links interfaces)) = concat (map2 records_of_link links interfaces)"
proof -
  have "map canonical_trust_record (records_of_link link i) = records_of_link link i" for link i
    by (simp add: records_of_link_def Let_def declared_claim_def observed_claim_def)
  then show ?thesis by (simp add: map_concat comp_def case_prod_unfold)
qed

lemma in_links:
  assumes "r \<in> set (concat (map2 records_of_link links interfaces))"
  obtains link i where "link \<in> set links" "r \<in> set (records_of_link link i)"
    "set (records_of_link link i) \<subseteq> set (concat (map2 records_of_link links interfaces))"
proof -
  from assms obtain link i where "(link, i) \<in> set (zip links interfaces)" "r \<in> set (records_of_link link i)" by auto
  moreover from this(1) have "link \<in> set links" by (rule set_zip_leftD)
  moreover have "set (records_of_link link i) \<subseteq> set (concat (map2 records_of_link links interfaces))"
    using \<open>(link, i) \<in> set (zip links interfaces)\<close> by auto
  ultimately show ?thesis using that by blast
qed

lemma link_record_supported:
  assumes r: "r \<in> set (records_of_link link i)" and sub: "set (records_of_link link i) \<subseteq> set rs"
    and source: "SourceRecord (decision_source D s) \<in> set rs" and doc: "bl_document (mt_root link) = doc"
  shows "trust_record_ok rs doc r" and "\<And>c. r = Claim c \<Longrightarrow> basis_supports rs es (tc_subject c) (tc_basis c)"
    and "\<And>m. r \<noteq> TrustMapping m"
proof -
  have trace: "has_record rs SourceRecordKind decision_trace"
    unfolding has_record_def using source by (force simp: decision_trace_def decision_source_def)
  let ?d = "Declaration \<lparr>td_id = ''declaration.'' @ link_suffix link, td_subject = mt_root link, td_trace = decision_trace\<rparr>"
  let ?f = "ObservedFact \<lparr>fc_id = ''observed.'' @ link_suffix link, fc_subject = mt_root link,
        fc_assertion = \<lparr>fa_target = \<lparr>dt_subject = ''inventory'', dt_path = [''public-interface-id'']\<rparr>, fa_value = StringValue i\<rparr>,
        fc_trace = decision_trace\<rparr>"
  have d: "?d \<in> set rs" and f: "?f \<in> set rs" using sub by (simp_all add: records_of_link_def Let_def declared_claim_def observed_claim_def)
  have dref: "has_record rs DeclarationKind (declaration_ref (''declaration.'' @ link_suffix link))"
    unfolding has_record_def by (intro conjI bexI [OF _ d]) (simp_all add: declaration_ref_def)
  have fref: "has_record rs ObservedFactKind (observation_ref (''observed.'' @ link_suffix link))"
    unfolding has_record_def by (intro conjI bexI [OF _ f]) (simp_all add: observation_ref_def)
  show "trust_record_ok rs doc r" using r trace dref fref doc by (auto simp: records_of_link_def Let_def declared_claim_def observed_claim_def)
  show "\<And>m. r \<noteq> TrustMapping m" using r by (auto simp: records_of_link_def Let_def declared_claim_def observed_claim_def)
  have declared: "\<exists>x. declared_as rs (declaration_ref (''declaration.'' @ link_suffix link)) x \<and> td_subject x = mt_root link"
    unfolding declared_as_def by (intro exI conjI, rule d) (simp_all add: declaration_ref_def)
  have observed: "\<exists>x. observed_as rs (observation_ref (''observed.'' @ link_suffix link)) x \<and> fc_subject x = mt_root link"
    unfolding observed_as_def by (intro exI conjI, rule f) (simp_all add: observation_ref_def)
  show "basis_supports rs es (tc_subject c) (tc_basis c)" if "r = Claim c" for c
    using r that declared observed by (auto simp: records_of_link_def Let_def declared_claim_def observed_claim_def)
qed

definition subject_of :: "discovery_result \<Rightarrow> materialization \<Rightarrow> string" where
  "subject_of discovery link = rf_id (dc_subject (the (map_of (candidates_by_id discovery) (cr_candidate_id (mt_candidate link)))))"

definition trust_links :: "discovery_result \<Rightarrow> materialization list \<Rightarrow> trust_record list" where
  "trust_links discovery links = concat (map2 records_of_link links (map (subject_of discovery) links))"

definition trust_of :: "onboarding_digests \<Rightarrow> discovery_result \<Rightarrow> decision_set \<Rightarrow> behavior_ir \<Rightarrow> materialization list \<Rightarrow> trust_ir" where
  "trust_of D discovery s behavior links = canonical_trust (trust_document D discovery s behavior (trust_links discovery links))"

definition content_ids :: "discovery_result \<Rightarrow> bool" where
  "content_ids discovery \<longleftrightarrow> (\<forall>c \<in> set (ds_candidates discovery). \<exists>x. dc_id c = ''candidate.'' @ x)"

lemma exchange_content_ids: "exchange_ok D request discovery \<Longrightarrow> content_ids discovery"
  unfolding exchange_ok_def content_ids_def Let_def candidate_ok_def derive_discovery_candidate_id_def by blast

lemma linked_candidates:
  assumes "decisions_ok D discovery s"
  shows "map (\<lambda>x. cr_candidate_id (mt_candidate (contribution D s b x))) (chosen discovery (de_decisions s)) =
    map candidate_id_of (filter promoted (de_decisions s))"
proof -
  have "map candidate_id_of (map fst (chosen discovery (de_decisions s))) = map candidate_id_of (filter promoted (de_decisions s))"
    by (simp only: chosen_decisions [OF decisions_known [OF assms]])
  then show ?thesis by (simp add: contribution_def Let_def candidate_id_of_def comp_def)
qed

lemma distinct_suffixes:
  assumes ok: "decisions_ok D discovery s" and ids: "content_ids discovery"
  shows "distinct (map link_suffix (map (contribution D s b) (chosen discovery (de_decisions s))))"
proof -
  let ?ids = "map candidate_id_of (filter promoted (de_decisions s))"
  have decided: "decided s = map candidate_id_of (de_decisions s)" by (simp add: decided_def candidate_id_of_def)
  have "distinct (decided s)" using ok by (simp add: decisions_ok_def strict_sorted_iff)
  then have distinct: "distinct ?ids" unfolding decided by (simp add: distinct_map_filter)
  have "set ?ids \<subseteq> set (decided s)" unfolding decided by auto
  moreover have "set (decided s) = dc_id ` set (ds_candidates discovery)" using ok by (simp add: decisions_ok_def)
  ultimately have known: "set ?ids \<subseteq> dc_id ` set (ds_candidates discovery)" by simp
  have prefixed: "\<exists>x. i = ''candidate.'' @ x" if i: "i \<in> set ?ids" for i
  proof -
    obtain c where "c \<in> set (ds_candidates discovery)" "i = dc_id c" using known i by blast
    then show ?thesis using ids unfolding content_ids_def by blast
  qed
  have "inj_on (remove_prefix ''candidate.'') (set ?ids)"
  proof (rule inj_onI)
    fix i j assume "i \<in> set ?ids" "j \<in> set ?ids" and same: "remove_prefix ''candidate.'' i = remove_prefix ''candidate.'' j"
    then obtain x y where "i = ''candidate.'' @ x" "j = ''candidate.'' @ y" using prefixed by blast
    then show "i = j" using same by (simp only: remove_prefix_append)
  qed
  then have "distinct (map (remove_prefix ''candidate.'') ?ids)"
    unfolding distinct_map [of "remove_prefix ''candidate.''"] using distinct by blast
  moreover have "map link_suffix (map (contribution D s b) (chosen discovery (de_decisions s))) = map (remove_prefix ''candidate.'') ?ids"
    unfolding linked_candidates [OF ok, of b, symmetric] by (simp add: link_suffix_def)
  ultimately show ?thesis by simp
qed

lemma interfaces_known:
  assumes "decisions_ok D discovery s"
  shows "res_map (interface_of discovery) (map (contribution D s b) (chosen discovery (de_decisions s))) =
    Inr (map (subject_of discovery) (map (contribution D s b) (chosen discovery (de_decisions s))))"
proof (rule res_map_total)
  fix link assume "link \<in> set (map (contribution D s b) (chosen discovery (de_decisions s)))"
  then have "cr_candidate_id (mt_candidate link) \<in> set (map candidate_id_of (filter promoted (de_decisions s)))"
    unfolding linked_candidates [OF assms, of b, symmetric] by auto
  then obtain d where "d \<in> set (de_decisions s)" "cr_candidate_id (mt_candidate link) = candidate_id_of d" by auto
  then show "interface_of discovery link = Inr (subject_of discovery link)"
    using decisions_known [OF assms] by (auto simp: interface_of_def subject_of_def candidate_id_of_def)
qed

lemma onboarding_trust_supported:
  assumes ok: "decisions_ok D discovery s" and ids: "content_ids discovery" and choices: "choices_ok D (chosen discovery (de_decisions s))"
    and b: "b = materialized D discovery s" and links: "links = map (contribution D s b) (chosen discovery (de_decisions s))"
  shows "trust_supported (od_behavior D) (trust_document D discovery s b (trust_links discovery links)) b"
proof -
  let ?rs = "ti_records (trust_document D discovery s b (trust_links discovery links))"
  have rs: "?rs = [SourceRecord (discovery_source D discovery s), SourceRecord (decision_source D s)] @ trust_links discovery links"
    by (simp add: trust_document_def Let_def)
  have subject: "ti_subject (trust_document D discovery s b (trust_links discovery links)) =
      \<lparr>br_document_id = be_document_id b, br_digest = od_behavior D (canonical_ir b)\<rparr>" by (simp add: trust_document_def Let_def)
  have "map trust_id ?rs = [''source.discovery'', ''source.decisions''] @
      concat (map (\<lambda>x. map (\<lambda>tag. tag @ x) record_tags) (map link_suffix links))"
    unfolding rs by (simp add: trust_links_def ids_of_links discovery_source_def decision_source_def)
  moreover have "distinct (map link_suffix links)" unfolding links by (rule distinct_suffixes [OF ok ids])
  ultimately have distinct: "distinct (map trust_id ?rs)" using distinct_tagged by metis
  have b': "b = canonical_document (chosen_document D s (chosen discovery (de_decisions s)))" by (simp add: b materialized_def)
  have valid: "ir_ok b" unfolding b' ir_ok_canonical by (rule chosen_document_ok [OF choices])
  have root: "bl_document (mt_root link) = \<lparr>br_document_id = be_document_id b, br_digest = od_behavior D (canonical_ir b)\<rparr>"
    "bl_subject (mt_root link) \<in> entity_key ` set (be_entities b)" if "link \<in> set links" for link
  proof -
    from that obtain x where x: "x \<in> set (chosen discovery (de_decisions s))" "link = contribution D s b x" by (auto simp: links)
    show "bl_document (mt_root link) = \<lparr>br_document_id = be_document_id b, br_digest = od_behavior D (canonical_ir b)\<rparr>"
      by (simp add: x(2) contribution_def Let_def)
    show "bl_subject (mt_root link) \<in> entity_key ` set (be_entities b)"
      using contribution_keys [OF x(1) choices b', of "mt_root link"] by (simp add: x(2) entity_keys_def)
  qed
  have each: "trust_record_ok ?rs \<lparr>br_document_id = be_document_id b, br_digest = od_behavior D (canonical_ir b)\<rparr> r \<and>
      subjects_exist (be_entities b) r \<and> (\<forall>m. r \<noteq> TrustMapping m) \<and>
      (\<forall>c. r = Claim c \<longrightarrow> basis_supports ?rs (be_entities b) (tc_subject c) (tc_basis c))" if r: "r \<in> set ?rs" for r
  proof (cases "r \<in> set (trust_links discovery links)")
    case False
    then show ?thesis using r by (auto simp: rs)
  next
    case True
    then obtain link i where link: "link \<in> set links" "r \<in> set (records_of_link link i)" "set (records_of_link link i) \<subseteq> set (trust_links discovery links)"
      unfolding trust_links_def by (rule in_links)
    have sub: "set (records_of_link link i) \<subseteq> set ?rs" using link(3) by (auto simp: rs)
    have source: "SourceRecord (decision_source D s) \<in> set ?rs" by (simp add: rs)
    note supported = link_record_supported [OF link(2) sub source root(1) [OF link(1)]]
    have "subjects_exist (be_entities b) r" using link(2) root(2) [OF link(1)] by (auto simp: records_of_link_def Let_def declared_claim_def observed_claim_def)
    then show ?thesis using supported by blast
  qed
  show ?thesis
    unfolding trust_supported_def trust_ok_def subject using distinct valid each by blast
qed

lemma trust_of_records:
  "set (ti_records (trust_of D discovery s b links)) = set (ti_records (trust_document D discovery s b (trust_links discovery links)))"
proof -
  let ?rs = "ti_records (trust_document D discovery s b (trust_links discovery links))"
  have "set (ti_records (trust_of D discovery s b links)) = set (map canonical_trust_record ?rs)"
    by (simp add: trust_of_def canonical_trust_def)
  also have "map canonical_trust_record ?rs = ?rs"
    using canonical_links [of links "map (subject_of discovery) links"] by (simp add: trust_document_def Let_def trust_links_def)
  finally show ?thesis .
qed

lemma canonical_trust_document:
  assumes "distinct (map trust_id (ti_records (trust_document D discovery s b (trust_links discovery links))))"
    and "trust_supported H (trust_document D discovery s b (trust_links discovery links)) b"
  shows "trust_supported H (trust_of D discovery s b links) b"
proof -
  let ?t = "trust_document D discovery s b (trust_links discovery links)"
  have "distinct (map trust_id (ti_records (trust_of D discovery s b links)))"
    using assms(1) by (simp add: trust_of_def canonical_trust_def comp_def distinct_map_sort)
  from trust_supported_reorder [OF assms(2) trust_of_records [symmetric] this]
  show ?thesis by (simp add: trust_of_def canonical_trust_def)
qed

section \<open>What building gives\<close>

lemma lift_ir_Inr [simp]: "lift_ir r = Inr x \<longleftrightarrow> r = Inr x"
  by (simp add: lift_ir_def split: sum.splits)

lemma only_declared_and_observed:
  assumes "r \<in> set (ti_records (trust_of D discovery s b links))"
  shows "validate_onboarding_record (i, r) = Inr ()"
proof -
  have "r \<in> set (ti_records (trust_document D discovery s b (trust_links discovery links)))"
    using assms unfolding trust_of_records .
  then consider "\<exists>x. r = SourceRecord x" | link j where "r \<in> set (records_of_link link j)"
    by (auto simp: trust_document_def Let_def trust_links_def)
  then show ?thesis by cases (auto simp: records_of_link_def Let_def declared_claim_def observed_claim_def)
qed

lemma build_onboarding_trust_Inr:
  assumes ids: "content_ids discovery"
  shows "build_onboarding_trust D discovery s b links = Inr t \<longleftrightarrow>
    materialize_behavior D discovery s = Inr (b, links) \<and> t = trust_of D discovery s b links"
proof (cases "materialize_behavior D discovery s = Inr (b, links)")
  case False
  then show ?thesis by (auto simp: build_onboarding_trust_def res_bind_Inr)
next
  case True
  then have ok: "decisions_ok D discovery s" and choices: "choices_ok D (chosen discovery (de_decisions s))"
    and b: "b = materialized D discovery s" and links: "links = map (contribution D s b) (chosen discovery (de_decisions s))"
    by (auto simp: materialize_behavior_Inr)
  note supported = onboarding_trust_supported [OF ok ids choices b links]
  then have "distinct (map trust_id (ti_records (trust_document D discovery s b (trust_links discovery links))))"
    and "trust_ok (trust_document D discovery s b (trust_links discovery links))"
    unfolding trust_supported_def trust_ok_def by blast+
  then have "parse_canonical_trust (trust_document D discovery s b (trust_links discovery links)) = Inr (trust_of D discovery s b links)"
    and "trust_supported (od_behavior D) (trust_of D discovery s b links) b"
    using canonical_trust_document supported
    by (simp_all add: parse_canonical_trust_def res_bind_Inr validate_trust_semantics_Inr trust_ok_canonical trust_of_def)
  moreover from this(2) have "validate_onboarding_trust D (trust_of D discovery s b links) b = Inr ()"
    using only_declared_and_observed [OF nth_mem]
    by (simp add: validate_onboarding_trust_def each_position_Inr validate_trust_against_behavior_Inr)
  ultimately show ?thesis
    using interfaces_known [OF ok, of b]
    by (auto simp: build_onboarding_trust_def True res_bind_Inr validate_decision_set_Inr ok links [symmetric] trust_links_def [symmetric] lift_ir_def)
qed

definition bundle_of ::
  "onboarding_digests \<Rightarrow> bundle_digests \<Rightarrow> inventory_snapshot \<Rightarrow> discovery_result \<Rightarrow> decision_set \<Rightarrow> onboarding_bundle" where
  "bundle_of D E inventory discovery s =
     (let b = materialized D discovery s; links = map (contribution D s b) (chosen discovery (de_decisions s));
          t = trust_of D discovery s b links in
      \<lparr>nb_capture_context = de_capture_context s, nb_inventory = inventory, nb_discovery = discovery, nb_decisions = s,
       nb_behavior = b, nb_trust = t, nb_baseline = derive_onboarding_baseline D E inventory discovery s b t links\<rparr>)"

text \<open>An inventory, its discovery and the decisions of its review can be onboarded.\<close>

definition onboards :: "onboarding_digests \<Rightarrow> bundle_digests \<Rightarrow> inventory_snapshot \<Rightarrow> discovery_result \<Rightarrow> decision_set \<Rightarrow> bool" where
  "onboards D E inventory discovery s \<longleftrightarrow> ds_capability discovery = discovery_capability \<and> ds_binding discovery = inventory_binding_of E inventory \<and>
     exchange_ok D \<lparr>dq_capability = ds_capability discovery, dq_binding = ds_binding discovery, dq_inventory = inventory\<rparr> discovery \<and>
     decisions_ok D discovery s \<and> choices_ok D (chosen discovery (de_decisions s))"

lemma request_for_Inr:
  "request_for E inventory discovery = Inr r \<longleftrightarrow> ds_capability discovery = discovery_capability \<and> ds_binding discovery = inventory_binding_of E inventory \<and>
     r = \<lparr>dq_capability = ds_capability discovery, dq_binding = ds_binding discovery, dq_inventory = inventory\<rparr>"
  by (auto simp: request_for_def)

lemma validate_onboarding_bundle_Inr:
  "validate_onboarding_bundle D E b = Inr () \<longleftrightarrow> onboards D E (nb_inventory b) (nb_discovery b) (nb_decisions b) \<and>
     b = bundle_of D E (nb_inventory b) (nb_discovery b) (nb_decisions b)"
proof (cases "onboards D E (nb_inventory b) (nb_discovery b) (nb_decisions b)")
  case False
  then show ?thesis
    by (auto simp: validate_onboarding_bundle_def res_bind_Inr request_for_Inr validate_discovery_exchange_Inr validate_decision_set_Inr
        materialize_behavior_Inr onboards_def)
next
  case True
  let ?discovery = "nb_discovery b" and ?s = "nb_decisions b"
  have ids: "content_ids ?discovery" using True exchange_content_ids unfolding onboards_def by blast
  have made: "materialize_behavior D ?discovery ?s = Inr (materialized D ?discovery ?s,
      map (contribution D ?s (materialized D ?discovery ?s)) (chosen ?discovery (de_decisions ?s)))"
    using True by (simp add: materialize_behavior_Inr onboards_def)
  note trust = build_onboarding_trust_Inr [OF ids]
  have "validate_onboarding_bundle D E b = Inr () \<longleftrightarrow> nb_capture_context b = de_capture_context ?s \<and> nb_behavior b = materialized D ?discovery ?s \<and>
      (let links = map (contribution D ?s (materialized D ?discovery ?s)) (chosen ?discovery (de_decisions ?s)) in
       nb_trust b = trust_of D ?discovery ?s (nb_behavior b) links \<and>
       nb_baseline b = derive_onboarding_baseline D E (nb_inventory b) ?discovery ?s (nb_behavior b) (nb_trust b) links)"
    using True by (auto simp: validate_onboarding_bundle_def res_bind_Inr request_for_Inr validate_discovery_exchange_Inr validate_decision_set_Inr
        made trust onboards_def Let_def)
  then show ?thesis using True by (cases b) (auto simp: bundle_of_def Let_def)
qed

lemma build_onboarding_bundle_Inr:
  "build_onboarding_bundle D E inventory discovery s = Inr b \<longleftrightarrow> onboards D E inventory discovery s \<and> b = bundle_of D E inventory discovery s"
proof (cases "onboards D E inventory discovery s")
  case False
  then show ?thesis
    by (auto simp: build_onboarding_bundle_def res_bind_Inr request_for_Inr validate_discovery_exchange_Inr validate_decision_set_Inr
        materialize_behavior_Inr onboards_def)
next
  case True
  have ids: "content_ids discovery" using True exchange_content_ids unfolding onboards_def by blast
  have made: "materialize_behavior D discovery s = Inr (materialized D discovery s,
      map (contribution D s (materialized D discovery s)) (chosen discovery (de_decisions s)))"
    using True by (simp add: materialize_behavior_Inr onboards_def)
  have valid: "validate_onboarding_bundle D E (bundle_of D E inventory discovery s) = Inr ()"
    unfolding validate_onboarding_bundle_Inr using True by (simp add: bundle_of_def Let_def)
  have "build_onboarding_bundle D E inventory discovery s = res_bind (validate_onboarding_bundle D E (bundle_of D E inventory discovery s))
      (\<lambda>_. Inr (bundle_of D E inventory discovery s))"
  proof -
    have "request_for E inventory discovery = Inr \<lparr>dq_capability = ds_capability discovery, dq_binding = ds_binding discovery, dq_inventory = inventory\<rparr>"
      "validate_discovery_exchange D \<lparr>dq_capability = ds_capability discovery, dq_binding = ds_binding discovery, dq_inventory = inventory\<rparr> discovery = Inr ()"
      "validate_decision_set D discovery s = Inr ()"
      using True by (auto simp: onboards_def request_for_Inr validate_discovery_exchange_Inr validate_decision_set_Inr)
    moreover have "build_onboarding_trust D discovery s (materialized D discovery s)
        (map (contribution D s (materialized D discovery s)) (chosen discovery (de_decisions s))) =
        Inr (trust_of D discovery s (materialized D discovery s)
          (map (contribution D s (materialized D discovery s)) (chosen discovery (de_decisions s))))"
      unfolding build_onboarding_trust_Inr [OF ids] using made by simp
    ultimately show ?thesis by (simp add: build_onboarding_bundle_def made bundle_of_def Let_def)
  qed
  then show ?thesis using True valid by auto
qed

lemma set_claim_ids: "set (claim_ids l rs) = {i. \<exists>c. Claim c \<in> set rs \<and> tc_level c = l \<and> tc_id c = i}"
proof -
  have claim: "(case r of Claim c \<Rightarrow> if tc_level c = l then Some (tc_id c) else None | _ \<Rightarrow> None) = Some i \<longleftrightarrow>
      (\<exists>c. r = Claim c \<and> tc_level c = l \<and> tc_id c = i)" for r i by (cases r) auto
  have filtered: "set (List.map_filter f rs) = {y. \<exists>x \<in> set rs. f x = Some y}" for f :: "trust_record \<Rightarrow> string option"
    by (force simp: List.map_filter_def)
  show ?thesis unfolding claim_ids_def filtered claim by blast
qed

lemma link_claims:
  assumes "length links = length interfaces"
  shows "Claim c \<in> set (concat (map2 records_of_link links interfaces)) \<longleftrightarrow> c \<in> declared_claim ` set links \<union> observed_claim ` set links"
  using assms by (induction links interfaces rule: list_induct2) (auto simp: records_of_link_def Let_def)

lemma trust_claim_ids:
  "set (claim_ids l (ti_records (trust_of D discovery s b links))) =
     (if l = DeclaredLevel then (\<lambda>link. ''claim.declared.'' @ link_suffix link) ` set links
      else if l = ObservedLevel then (\<lambda>link. ''claim.observed.'' @ link_suffix link) ` set links else {})"
proof -
  have claims: "Claim c \<in> set (ti_records (trust_of D discovery s b links)) \<longleftrightarrow> c \<in> declared_claim ` set links \<union> observed_claim ` set links" for c
    unfolding trust_of_records using link_claims [of links "map (subject_of discovery) links" c]
    by (simp add: trust_document_def Let_def trust_links_def del: set_concat)
  have levels: "tc_level (declared_claim link) = DeclaredLevel" "tc_level (observed_claim link) = ObservedLevel"
    "tc_id (declared_claim link) = ''claim.declared.'' @ link_suffix link" "tc_id (observed_claim link) = ''claim.observed.'' @ link_suffix link"
    for link by (simp_all add: declared_claim_def observed_claim_def)
  show ?thesis unfolding set_claim_ids claims by (cases l) (auto simp: levels image_iff simp del: append_Cons)
qed

section \<open>Properties\<close>

text \<open>
  C37: A bundle is built exactly when the inventory is the one discovered, the discovery and the decisions
  are valid and the identifiers of the chosen entities differ: materializing the behavior, building and
  validating the trust document and validating the bundle never fail then.
\<close>

theorem bundle_exact:
  "build_onboarding_bundle D E inventory discovery s = Inr b \<longleftrightarrow> onboards D E inventory discovery s \<and> b = bundle_of D E inventory discovery s"
  by (rule build_onboarding_bundle_Inr)

text \<open>
  C38: A bundle is accepted exactly when building it again from its inventory, discovery and decisions gives it.
\<close>

theorem bundle_validation_exact:
  "validate_onboarding_bundle D E b = Inr () \<longleftrightarrow>
     build_onboarding_bundle D E (nb_inventory b) (nb_discovery b) (nb_decisions b) = Inr b"
  by (simp only: validate_onboarding_bundle_Inr build_onboarding_bundle_Inr)

text \<open>
  C39: In a bundle every accepted or edited candidate is claimed as declared and as observed, and no claim
  has another level.
\<close>

theorem onboarding_claims_exact:
  assumes "build_onboarding_bundle D E inventory discovery s = Inr b"
  shows "set (claim_ids DeclaredLevel (ti_records (nb_trust b))) =
      (\<lambda>d. ''claim.declared.'' @ remove_prefix ''candidate.'' (candidate_id_of d)) ` {d \<in> set (de_decisions s). promoted d} \<and>
    set (claim_ids ObservedLevel (ti_records (nb_trust b))) =
      (\<lambda>d. ''claim.observed.'' @ remove_prefix ''candidate.'' (candidate_id_of d)) ` {d \<in> set (de_decisions s). promoted d} \<and>
    list_all (\<lambda>l. claim_ids l (ti_records (nb_trust b)) = []) [MappedLevel, TestedLevel, VerifiedLevel] \<and>
    validate_trust_against_behavior (od_behavior D) (nb_trust b) (nb_behavior b) = Inr ()"
proof -
  from assms have on: "onboards D E inventory discovery s" and b: "b = bundle_of D E inventory discovery s"
    by (simp_all add: build_onboarding_bundle_Inr)
  then have ok: "decisions_ok D discovery s" and ids: "content_ids discovery"
    using exchange_content_ids unfolding onboards_def by blast+
  define links where "links = map (contribution D s (nb_behavior b)) (chosen discovery (de_decisions s))"
  have trust: "nb_trust b = trust_of D discovery s (nb_behavior b) links" by (simp add: b bundle_of_def Let_def links_def)
  have candidates: "(\<lambda>link. cr_candidate_id (mt_candidate link)) ` set links = candidate_id_of ` {d \<in> set (de_decisions s). promoted d}"
    using arg_cong [OF linked_candidates [OF ok, of "nb_behavior b"], of set] by (simp add: links_def image_image)
  have tagged: "(\<lambda>link. tag @ link_suffix link) ` set links =
      (\<lambda>d. tag @ remove_prefix ''candidate.'' (candidate_id_of d)) ` {d \<in> set (de_decisions s). promoted d}" for tag
  proof -
    have "(\<lambda>link. tag @ link_suffix link) ` set links =
        (\<lambda>i. tag @ remove_prefix ''candidate.'' i) ` (\<lambda>link. cr_candidate_id (mt_candidate link)) ` set links"
      by (simp only: image_image link_suffix_def)
    then show ?thesis unfolding candidates by (simp only: image_image)
  qed
  have none: "claim_ids l (ti_records (nb_trust b)) = []" if "l \<noteq> DeclaredLevel" "l \<noteq> ObservedLevel" for l
    using trust_claim_ids [of l D discovery s "nb_behavior b" links] that by (simp add: trust)
  have "build_onboarding_trust D discovery s (nb_behavior b) links = Inr (nb_trust b)"
    unfolding build_onboarding_trust_Inr [OF ids] using on
    by (auto simp: onboards_def materialize_behavior_Inr trust b bundle_of_def Let_def links_def)
  then have "validate_trust_against_behavior (od_behavior D) (nb_trust b) (nb_behavior b) = Inr ()"
    by (auto simp: build_onboarding_trust_def res_bind_Inr validate_onboarding_trust_def)
  moreover have "list_all (\<lambda>l. claim_ids l (ti_records (nb_trust b)) = []) [MappedLevel, TestedLevel, VerifiedLevel]"
    using none by simp
  moreover have "set (claim_ids DeclaredLevel (ti_records (nb_trust b))) =
      (\<lambda>d. ''claim.declared.'' @ remove_prefix ''candidate.'' (candidate_id_of d)) ` {d \<in> set (de_decisions s). promoted d}"
    unfolding trust trust_claim_ids tagged by (simp only: if_True simp_thms)
  moreover have "set (claim_ids ObservedLevel (ti_records (nb_trust b))) =
      (\<lambda>d. ''claim.observed.'' @ remove_prefix ''candidate.'' (candidate_id_of d)) ` {d \<in> set (de_decisions s). promoted d}"
    unfolding trust trust_claim_ids tagged by (simp only: claim_level.distinct if_True if_False simp_thms)
  ultimately show ?thesis by blast
qed

definition ex_bundle_digests :: bundle_digests where
  "ex_bundle_digests = \<lparr>bd_inventory = (\<lambda>i. ''i''), bd_trust = (\<lambda>t. ''t'')\<rparr>"

definition ex_onboarded_inventory :: inventory_snapshot where
  "ex_onboarded_inventory = \<lparr>sn_subject_uri = ''urn:shop'', sn_source_revision = ''1'', sn_producer = VNone,
     sn_capability = \<lparr>cs_name = ''org.ucf.adapter.inventory'', cs_version = ''1.0.0''\<rparr>, sn_policy = [], sn_coverage = [],
     sn_records = [FileFact \<lparr>ff_id = ''post_payment'', ff_provenance = no_ref, ff_confidence = VStr ''high'', ff_entry = no_ref,
       ff_details = InterfaceDetails ''urn:http'' ''post_payment'' None ''d''\<rparr>]\<rparr>"

lemma ex_onboards: "onboards ex_onboarding_digests ex_bundle_digests ex_onboarded_inventory ex_reviewed_discovery ex_decision_set"
proof -
  have "request_for ex_bundle_digests ex_onboarded_inventory ex_reviewed_discovery =
      Inr \<lparr>dq_capability = ds_capability ex_reviewed_discovery, dq_binding = ds_binding ex_reviewed_discovery, dq_inventory = ex_onboarded_inventory\<rparr>"
    by code_simp
  moreover have "validate_discovery_exchange ex_onboarding_digests \<lparr>dq_capability = ds_capability ex_reviewed_discovery,
      dq_binding = ds_binding ex_reviewed_discovery, dq_inventory = ex_onboarded_inventory\<rparr> ex_reviewed_discovery = Inr ()"
    by code_simp
  ultimately show ?thesis
    using ex_materialized by (auto simp: onboards_def request_for_Inr validate_discovery_exchange_Inr materialize_behavior_Inr)
qed

theorem onboarding_claims_exact_witness:
  "set (claim_ids ObservedLevel (ti_records (nb_trust (bundle_of ex_onboarding_digests ex_bundle_digests ex_onboarded_inventory ex_reviewed_discovery
     ex_decision_set)))) = {''claim.observed.c''}"
proof -
  have "build_onboarding_bundle ex_onboarding_digests ex_bundle_digests ex_onboarded_inventory ex_reviewed_discovery ex_decision_set =
      Inr (bundle_of ex_onboarding_digests ex_bundle_digests ex_onboarded_inventory ex_reviewed_discovery ex_decision_set)"
    using ex_onboards by (simp add: build_onboarding_bundle_Inr)
  from onboarding_claims_exact [OF this] show ?thesis
    by (simp add: ex_decision_set_def candidate_id_of_def remove_prefix_def conj_disj_distribL Collect_disj_eq cong: conj_cong)
qed

end
