(* ===== verification/Execution_Evidence.thy ===== *)
theory Execution_Evidence
  imports Onboarding_Trust Inventory_Validation
begin

text \<open>
  Evidence that an implementation was executed, \<^verbatim>\<open>src/ucf/implementation_evidence\<close>: which source
  records implement a materialized behavior, and the outcome of running it, with the models of
  \<^verbatim>\<open>models.py\<close> and the whole of \<^verbatim>\<open>validation.py\<close>. SHA-256 of canonical JSON is a parameter; the
  version of the IR in a reference is a constant of its model, so its comparison is left out.
\<close>

section \<open>Errors\<close>

datatype evidence_code =
    IeBrokenReference | IeCapabilityMismatch | IeContentIdentityMismatch | IeDocumentIdentityMismatch | IeDuplicateIdentity
  | IeEnvironmentIdentityMismatch | IeEvidenceNotPassed | IeIncompleteBinding | IeInvalidStructure | IeNonCanonicalOrder
  | IeProcedureMismatch | IeProducerIdentityMismatch | IeRequestIdentityMismatch | IeResultStatusMismatch
  | IeSourceIdentityMismatch | IeSourceNotCandidateEvidence | IeTargetNotMapped | IeTargetNotMaterialized | IeUnknownPort
  | IeValueKindMismatch | IeWrongTargetKind

datatype evidence_error =
    EvidenceError evidence_code string string
  | EvidenceOnboardingError onboarding_error
  | EvidenceIrError ir_error
  | EvidenceException string

definition evidence_check :: "bool \<Rightarrow> evidence_code \<Rightarrow> string \<Rightarrow> string \<Rightarrow> (evidence_error, unit) res" where
  "evidence_check c code message location = require c (EvidenceError code message location)"

lemma evidence_check_Inr [simp]: "evidence_check c code message location = Inr u \<longleftrightarrow> c"
  by (simp add: evidence_check_def)

section \<open>Text profiles\<close>

definition urn_word :: "bool \<Rightarrow> string \<Rightarrow> bool" where
  "urn_word namespace w \<longleftrightarrow> (case w of [] \<Rightarrow> False | c # cs \<Rightarrow>
     (is_lower c \<or> \<not> namespace \<and> is_digit c) \<and>
     list_all (\<lambda>c. is_lower c \<or> is_digit c \<or> c \<in> {CHR ''.'', CHR ''-''} \<or> \<not> namespace \<and> c = CHR ''_'') cs)"

text \<open>\<^verbatim>\<open>_VERSIONED_URN_PATTERN\<close>: no class of the pattern contains a colon, so the parts between colons match one by one.\<close>

definition versioned_urn :: "string \<Rightarrow> bool" where
  "versioned_urn s \<longleftrightarrow> (case split_on (CHR '':'') s of
     scheme # namespace # parts \<Rightarrow> scheme = ''urn'' \<and> urn_word True namespace \<and> 2 \<le> length parts \<and>
       list_all (urn_word False) (butlast parts) \<and> semantic_version (last parts)
   | _ \<Rightarrow> False)"

definition timestamp_text :: "string \<Rightarrow> bool" where
  "timestamp_text t \<longleftrightarrow> list_all2 (\<lambda>p c. if p = CHR ''0'' then is_digit c else c = p) ''0000-00-00T00:00:00Z'' t"

definition days_in_month :: "nat \<Rightarrow> nat \<Rightarrow> nat" where
  "days_in_month year month =
     (if month = 2 then if year mod 4 = 0 \<and> (year mod 100 \<noteq> 0 \<or> year mod 400 = 0) then 29 else 28
      else if month \<in> {4, 6, 9, 11} then 30 else 31)"

text \<open>What \<^verbatim>\<open>datetime.strptime(value, "%Y-%m-%dT%H:%M:%SZ")\<close> accepts of the texts of the pattern.\<close>

definition whole_second_utc :: "string \<Rightarrow> bool" where
  "whole_second_utc t \<longleftrightarrow> timestamp_text t \<and>
     (let field = \<lambda>i n. digits_value 0 (take n (drop i t)); year = field 0 4; month = field 5 2; day = field 8 2 in
      1 \<le> year \<and> 1 \<le> month \<and> month \<le> 12 \<and> 1 \<le> day \<and> day \<le> days_in_month year month \<and>
      field 11 2 \<le> 23 \<and> field 14 2 \<le> 59 \<and> field 17 2 \<le> 59)"

section \<open>Models\<close>

record mapping_request =
  mq_capability :: capability_selection
  mq_adapter_procedure_uri :: string
  mq_onboarding :: string
  mq_behavior :: behavior_ir
  mq_inventory :: inventory_snapshot
  mq_targets :: "behavior_entity_ref list"

record source_binding =
  mb_behavior :: behavior_entity_ref
  mb_source_records :: "record_ref list"

record mapping_result =
  mr_id :: string
  mr_request :: mapping_request
  mr_producer :: ir_producer
  mr_capability :: capability_selection
  mr_procedure_uri :: string
  mr_bindings :: "source_binding list"

record mapping_result_ref =
  mf_target_id :: string
  mf_digest :: string

record implementation_source =
  im_subject_uri :: string
  im_source_revision :: string
  im_records :: "record_ref list"

record execution_environment =
  xe_identity_uri :: string
  xe_revision :: string

record execution_port_value =
  xp_port :: port_ref
  xp_value :: ir_value

record execution_request =
  xq_capability :: capability_selection
  xq_adapter_procedure_uri :: string
  xq_mapping :: mapping_result_ref
  xq_base_behavior :: behavior_ref
  xq_subject :: behavior_entity_ref
  xq_inputs :: "execution_port_value list"
  xq_expected_outputs :: "execution_port_value list"
  xq_source :: implementation_source
  xq_environment :: execution_environment
  xq_check :: ir_check

record execution_result =
  xr_id :: string
  xr_request :: execution_request
  xr_outcome :: string
  xr_executed_at :: string
  xr_producer :: ir_producer
  xr_capability :: capability_selection
  xr_procedure_uri :: string

definition max_implementation_bindings :: nat where
  "max_implementation_bindings = 256"

definition mapping_capability :: capability_selection where
  "mapping_capability = \<lparr>cs_name = ''org.ucf.adapter.mapping'', cs_version = ''1.0.0''\<rparr>"

definition verification_capability :: capability_selection where
  "verification_capability = \<lparr>cs_name = ''org.ucf.adapter.verification'', cs_version = ''1.0.0''\<rparr>"

text \<open>Between one and 256 elements, unique and in the order of their identities.\<close>

definition bounded :: "'a list \<Rightarrow> bool" where
  "bounded xs \<longleftrightarrow> 1 \<le> length xs \<and> length xs \<le> max_implementation_bindings"

definition unique_sorted :: "'a::linorder list \<Rightarrow> bool" where
  "unique_sorted ks \<longleftrightarrow> distinct ks \<and> sorted ks"

definition mapping_request_ok :: "inventory_digests \<Rightarrow> mapping_request \<Rightarrow> bool" where
  "mapping_request_ok N r \<longleftrightarrow> snapshot_ok N (mq_inventory r) \<and> bounded (mq_targets r) \<and> versioned_urn (mq_adapter_procedure_uri r) \<and>
     mq_capability r = mapping_capability \<and> unique_sorted (map bl_subject (mq_targets r))"

definition implementation_binding_ok :: "source_binding \<Rightarrow> bool" where
  "implementation_binding_ok b \<longleftrightarrow> bounded (mb_source_records b) \<and> unique_sorted (map ref_key_of (mb_source_records b))"

definition mapping_result_ok :: "inventory_digests \<Rightarrow> mapping_result \<Rightarrow> bool" where
  "mapping_result_ok N r \<longleftrightarrow> mapping_request_ok N (mr_request r) \<and> bounded (mr_bindings r) \<and>
     list_all implementation_binding_ok (mr_bindings r) \<and> versioned_urn (mr_procedure_uri r) \<and>
     mr_capability r = mapping_capability \<and> mr_procedure_uri r = mq_adapter_procedure_uri (mr_request r) \<and>
     unique_sorted (map (bl_subject \<circ> mb_behavior) (mr_bindings r))"

definition implementation_source_ok :: "implementation_source \<Rightarrow> bool" where
  "implementation_source_ok s \<longleftrightarrow> bounded (im_records s) \<and> unique_sorted (map ref_key_of (im_records s))"

text \<open>\<^verbatim>\<open>_validate_canonical_ir_value\<close>: the entries of all records are in the order of their names.\<close>

fun canonical_ir_value :: "ir_value \<Rightarrow> bool" where
  "canonical_ir_value (ListValue vs) \<longleftrightarrow> (\<forall>v \<in> set vs. canonical_ir_value v)"
| "canonical_ir_value (RecordValue es) \<longleftrightarrow> sorted (map fst es) \<and> (\<forall>e \<in> set es. canonical_ir_value (snd e))"
| "canonical_ir_value v \<longleftrightarrow> True"

definition execution_port_value_ok :: "execution_port_value \<Rightarrow> bool" where
  "execution_port_value_ok v \<longleftrightarrow> validate_value (xp_value v) ''$'' = Inr () \<and> canonical_ir_value (xp_value v)"

definition owner_key :: "port_ref \<Rightarrow> subject_id" where
  "owner_key r = (entity_kind_value (er_kind (pr_owner r)), er_id (pr_owner r))"

definition port_identity :: "execution_port_value \<Rightarrow> (string \<times> string) \<times> string \<times> string" where
  "port_identity v = (owner_key (xp_port v), direction_value (pr_direction (xp_port v)), pr_name (xp_port v))"

definition port_values_ok :: "behavior_entity_ref \<Rightarrow> direction \<Rightarrow> execution_port_value list \<Rightarrow> bool" where
  "port_values_ok subject d vs \<longleftrightarrow> length vs \<le> max_implementation_bindings \<and> list_all execution_port_value_ok vs \<and>
     unique_sorted (map port_identity vs) \<and>
     list_all (\<lambda>v. pr_direction (xp_port v) = d \<and> owner_key (xp_port v) = bl_subject subject) vs"

definition execution_request_ok :: "execution_request \<Rightarrow> bool" where
  "execution_request_ok r \<longleftrightarrow> implementation_source_ok (xq_source r) \<and> versioned_urn (xe_identity_uri (xq_environment r)) \<and>
     versioned_urn (xq_adapter_procedure_uri r) \<and> xq_capability r = verification_capability \<and>
     versioned_urn (ck_procedure_uri (xq_check r)) \<and> bl_document (xq_subject r) = xq_base_behavior r \<and>
     port_values_ok (xq_subject r) Input (xq_inputs r) \<and> port_values_ok (xq_subject r) Output (xq_expected_outputs r)"

definition execution_result_ok :: "execution_result \<Rightarrow> bool" where
  "execution_result_ok r \<longleftrightarrow> execution_request_ok (xr_request r) \<and> xr_outcome r \<in> {''passed'', ''failed'', ''error''} \<and>
     whole_second_utc (xr_executed_at r) \<and> versioned_urn (xr_procedure_uri r) \<and> xr_capability r = verification_capability \<and>
     xr_procedure_uri r = xq_adapter_procedure_uri (xr_request r)"

section \<open>Derived identities (identity.py, codec.py)\<close>

record evidence_digests =
  gd_bundle :: "onboarding_bundle \<Rightarrow> string"
  gd_mapping :: "mapping_result \<Rightarrow> string"
  gd_execution :: "execution_result \<Rightarrow> string"
  gd_environment :: "execution_environment \<Rightarrow> string"
  gd_mapping_content :: "mapping_result \<Rightarrow> string"
  gd_execution_content :: "execution_result \<Rightarrow> string"

definition derive_implementation_mapping_result_id :: "evidence_digests \<Rightarrow> mapping_result \<Rightarrow> string" where
  "derive_implementation_mapping_result_id G r = ''mapping.'' @ gd_mapping_content G (r\<lparr>mr_id := []\<rparr>)"

definition derive_execution_verification_result_id :: "evidence_digests \<Rightarrow> execution_result \<Rightarrow> string" where
  "derive_execution_verification_result_id G r = ''result.'' @ gd_execution_content G (r\<lparr>xr_id := []\<rparr>)"

section \<open>Mappings\<close>

definition lift_onboarding :: "(onboarding_error, 'a) res \<Rightarrow> (evidence_error, 'a) res" where
  "lift_onboarding r = (case r of Inl e \<Rightarrow> Inl (EvidenceOnboardingError e) | Inr x \<Rightarrow> Inr x)"

text \<open>\<^verbatim>\<open>_revalidate_model\<close>: parsing the JSON of a document again, with the validators of its model.\<close>

definition revalidate_model :: "bool \<Rightarrow> (evidence_error, unit) res" where
  "revalidate_model ok = evidence_check ok IeInvalidStructure ''document does not satisfy its closed structural profile'' ''$''"

text \<open>The loops that compare named coordinates, with the error for the first that differs.\<close>

definition compare_fields ::
  "evidence_code \<Rightarrow> (string \<Rightarrow> string) \<Rightarrow> string \<Rightarrow> (string \<times> bool) list \<Rightarrow> (evidence_error, unit) res" where
  "compare_fields code message location fs =
     res_all (\<lambda>(field, same). evidence_check same code (message field) (location @ ''.'' @ field)) fs"

definition behavior_document_of :: "onboarding_digests \<Rightarrow> behavior_ir \<Rightarrow> behavior_ref" where
  "behavior_document_of D b = \<lparr>br_document_id = be_document_id b, br_digest = od_behavior D (canonical_ir b)\<rparr>"

definition materialized_roots :: "onboarding_bundle \<Rightarrow> (behavior_entity_ref, materialization) dict" where
  "materialized_roots b = dict_of (map (\<lambda>m. (mt_root m, m)) (bs_materializations (nb_baseline b)))"

definition validate_mapping_target ::
  "onboarding_digests \<Rightarrow> onboarding_bundle \<Rightarrow> nat \<times> behavior_entity_ref \<Rightarrow> (evidence_error, unit) res" where
  "validate_mapping_target D b it =
     (case it of (i, t) \<Rightarrow>
      let location = at_position ''$.targets'' i; doc = behavior_document_of D (nb_behavior b) in
      res_bind (compare_fields IeDocumentIdentityMismatch
        (\<lambda>field. ''mapping target '' @ field @ '' differs from the bundle behavior'') location
        [(''document_id'', br_document_id (bl_document t) = br_document_id doc),
         (''canonical_digest'', br_digest (bl_document t) = br_digest doc)]) (\<lambda>_.
      case map_of (build_behavior_index (nb_behavior b)) (snd (bl_subject t)) of
        None \<Rightarrow> Inl (EvidenceError IeBrokenReference ''mapping target does not resolve in the bundle behavior'' location)
      | Some e \<Rightarrow> in_order
          [evidence_check (entity_kind_value (kind_of e) = fst (bl_subject t)) IeWrongTargetKind
             ''mapping target kind differs from the resolved behavior entity'' (location @ ''.target_kind''),
           evidence_check (t \<in> set (dict_keys (materialized_roots b))) IeTargetNotMaterialized
             ''mapping target is not a reviewed materialization root'' location]))"

definition validate_implementation_mapping_request ::
  "evidence_digests \<Rightarrow> inventory_digests \<Rightarrow> onboarding_digests \<Rightarrow> bundle_digests \<Rightarrow> mapping_request \<Rightarrow> onboarding_bundle \<Rightarrow>
     (evidence_error, unit) res" where
  "validate_implementation_mapping_request G N D E r b = in_order
     [lift_onboarding (validate_onboarding_bundle D E b),
      evidence_check (mq_onboarding r = gd_bundle G b) IeDocumentIdentityMismatch
        ''mapping request does not bind the supplied onboarding bundle'' ''$.onboarding.canonical_digest'',
      evidence_check (mq_behavior r = nb_behavior b) IeDocumentIdentityMismatch
        ''mapping request Behavior IR differs from the reviewed bundle'' ''$.behavior'',
      evidence_check (mq_inventory r = nb_inventory b) IeDocumentIdentityMismatch
        ''mapping request inventory differs from the reviewed bundle'' ''$.inventory'',
      each_position (validate_mapping_target D b) (mq_targets r),
      revalidate_model (mapping_request_ok N r)]"

definition mapping_id_ok :: "evidence_digests \<Rightarrow> mapping_result \<Rightarrow> (evidence_error, unit) res" where
  "mapping_id_ok G r = evidence_check (mr_id r = derive_implementation_mapping_result_id G r) IeContentIdentityMismatch
     ''mapping result ID is not derived from its exact content'' ''$.id''"

definition validate_implementation_mapping_result_structure ::
  "evidence_digests \<Rightarrow> inventory_digests \<Rightarrow> mapping_result \<Rightarrow> (evidence_error, unit) res" where
  "validate_implementation_mapping_result_structure G N r = in_order [revalidate_model (mapping_result_ok N r), mapping_id_ok G r]"

definition validate_source_record ::
  "inventory_snapshot \<Rightarrow> record_ref list \<Rightarrow> string \<Rightarrow> nat \<times> record_ref \<Rightarrow> (evidence_error, unit) res" where
  "validate_source_record inventory evidence binding_location jr =
     (case jr of (j, r) \<Rightarrow>
      let location = at_position (binding_location @ ''.source_records'') j in
      case map_of (inventory_by_id (sn_records inventory)) (rf_id r) of
        None \<Rightarrow> Inl (EvidenceError IeBrokenReference ''implementation source record does not exist'' location)
      | Some x \<Rightarrow> in_order
          [evidence_check (record_kind_of x = rf_kind r) IeWrongTargetKind
             ''implementation source record kind differs from inventory'' (location @ ''.target_kind''),
           evidence_check (r \<in> set evidence) IeSourceNotCandidateEvidence
             ''implementation source is not reviewed candidate evidence'' location])"

text \<open>The candidate that was materialized as the behavior of a binding; a missing key would be a \<^verbatim>\<open>KeyError\<close>.\<close>

definition bound_candidate :: "onboarding_bundle \<Rightarrow> source_binding \<Rightarrow> (evidence_error, discovery_candidate) res" where
  "bound_candidate b binding =
     (case map_of (materialized_roots b) (mb_behavior binding) of
        None \<Rightarrow> Inl (EvidenceException ''KeyError'')
      | Some m \<Rightarrow> (case map_of (candidates_by_id (nb_discovery b)) (cr_candidate_id (mt_candidate m)) of
          None \<Rightarrow> Inl (EvidenceException ''KeyError'')
        | Some c \<Rightarrow> Inr c))"

definition validate_mapping_binding ::
  "onboarding_bundle \<Rightarrow> inventory_snapshot \<Rightarrow> nat \<times> source_binding \<Rightarrow> (evidence_error, unit) res" where
  "validate_mapping_binding b inventory ix =
     (case ix of (i, binding) \<Rightarrow>
      res_bind (bound_candidate b binding) (\<lambda>c.
      res_bind (each_position (validate_source_record inventory (dc_evidence c) (at_position ''$.bindings'' i)) (mb_source_records binding)) (\<lambda>_.
      evidence_check (dc_subject c \<in> set (mb_source_records binding)) IeSourceNotCandidateEvidence
        ''implementation binding omits the candidate public interface'' (at_position ''$.bindings'' i @ ''.source_records''))))"

definition validate_implementation_mapping_result ::
  "evidence_digests \<Rightarrow> inventory_digests \<Rightarrow> onboarding_digests \<Rightarrow> bundle_digests \<Rightarrow> mapping_result \<Rightarrow> mapping_request \<Rightarrow>
     onboarding_bundle \<Rightarrow> inventory_snapshot \<Rightarrow> ir_producer \<Rightarrow> (string, string) dict \<Rightarrow> (evidence_error, unit) res" where
  "validate_implementation_mapping_result G N D E r request b current adapter negotiated = in_order
     [revalidate_model (mapping_request_ok N request),
      mapping_id_ok G r,
      evidence_check (mr_request r = request) IeRequestIdentityMismatch ''mapping result does not echo the exact request'' ''$.request'',
      validate_implementation_mapping_request G N D E request b,
      evidence_check (mr_producer r = adapter) IeProducerIdentityMismatch
        ''mapping result producer differs from the initialized adapter'' ''$.producer'',
      evidence_check (mr_capability r = mq_capability request \<and>
          map_of negotiated (cs_name (mq_capability request)) = Some (cs_version (mq_capability request)))
        IeCapabilityMismatch ''the exact mapping capability was not selected'' ''$.capability'',
      evidence_check (mr_procedure_uri r = mq_adapter_procedure_uri request) IeProcedureMismatch
        ''mapping result procedure differs from the request'' ''$.procedure_uri'',
      evidence_check (current = mq_inventory request) IeSourceIdentityMismatch
        ''current inventory differs from the mapped source snapshot'' ''$.request.inventory'',
      evidence_check (distinct (map mb_behavior (mr_bindings r)) \<and> set (map mb_behavior (mr_bindings r)) = set (mq_targets request))
        IeIncompleteBinding ''mapping result must contain exactly one binding per target'' ''$.bindings'',
      each_position (validate_mapping_binding b (mq_inventory request)) (mr_bindings r),
      revalidate_model (mapping_result_ok N r)]"

section \<open>Executions\<close>

definition port_kind_ok :: "port \<Rightarrow> ir_value \<Rightarrow> bool" where
  "port_kind_ok p v \<longleftrightarrow>
     \<not> (kind_of_value v = NullKind \<and> po_required p \<or> kind_of_value v \<noteq> NullKind \<and> kind_of_value v \<noteq> po_value_kind p)"

definition validate_port_value :: "port list \<Rightarrow> string \<Rightarrow> nat \<times> execution_port_value \<Rightarrow> (evidence_error, unit) res" where
  "validate_port_value ports location iv =
     (case iv of (i, v) \<Rightarrow>
      case map_of (dict_of (map (\<lambda>p. (po_name p, p)) ports)) (pr_name (xp_port v)) of
        None \<Rightarrow> Inl (EvidenceError IeUnknownPort ''verification value names an unknown behavior port''
          (at_position location i @ ''.port.name''))
      | Some p \<Rightarrow> evidence_check (port_kind_ok p (xp_value v)) IeValueKindMismatch
          ''verification value kind differs from the behavior port'' (at_position location i @ ''.value''))"

definition validate_port_values :: "execution_port_value list \<Rightarrow> port list \<Rightarrow> string \<Rightarrow> (evidence_error, unit) res" where
  "validate_port_values vs ports location = in_order
     [each_position (validate_port_value ports location) vs,
      evidence_check (set (map po_name (filter po_required ports)) \<subseteq> set (map (pr_name \<circ> xp_port) vs)) IeIncompleteBinding
        ''verification values omit a required behavior port'' location]"

text \<open>\<^verbatim>\<open>subject_entity.input_ports\<close> and \<^verbatim>\<open>output_ports\<close>: only use cases and actions have them.\<close>

fun entity_ports :: "entity \<Rightarrow> (evidence_error, port list \<times> port list) res" where
  "entity_ports (UseCase u) = Inr (us_input_ports u, us_output_ports u)"
| "entity_ports (Action a) = Inr (ac_input_ports a, ac_output_ports a)"
| "entity_ports e = Inl (EvidenceException ''AttributeError'')"

definition validate_subject_ports ::
  "behavior_ir \<Rightarrow> mapping_result \<Rightarrow> execution_request \<Rightarrow> (evidence_error, source_binding) res" where
  "validate_subject_ports behavior mapping r =
     (case map_of (build_behavior_index behavior) (snd (bl_subject (xq_subject r))) of
        None \<Rightarrow> Inl (EvidenceError IeBrokenReference ''verification subject does not resolve in the base behavior'' ''$.subject'')
      | Some e \<Rightarrow>
          res_bind (evidence_check (entity_kind_value (kind_of e) = fst (bl_subject (xq_subject r))) IeWrongTargetKind
            ''verification subject kind differs from the resolved entity'' ''$.subject.target_kind'') (\<lambda>_.
          case find (\<lambda>b. mb_behavior b = xq_subject r) (mr_bindings mapping) of
            None \<Rightarrow> Inl (EvidenceError IeTargetNotMapped ''verification subject has no accepted implementation binding'' ''$.subject'')
          | Some binding \<Rightarrow>
              res_bind (entity_ports e) (\<lambda>(inputs, outputs).
              res_bind (in_order [validate_port_values (xq_inputs r) inputs ''$.inputs'',
                validate_port_values (xq_expected_outputs r) outputs ''$.expected_outputs'']) (\<lambda>_. Inr binding))))"

definition validate_execution_verification_request ::
  "evidence_digests \<Rightarrow> inventory_digests \<Rightarrow> onboarding_digests \<Rightarrow> bundle_digests \<Rightarrow> execution_request \<Rightarrow> mapping_result \<Rightarrow>
     onboarding_bundle \<Rightarrow> inventory_snapshot \<Rightarrow> ir_producer \<Rightarrow> (string, string) dict \<Rightarrow> (evidence_error, unit) res" where
  "validate_execution_verification_request G N D E r mapping b current mapping_adapter negotiated =
     (let doc = behavior_document_of D (nb_behavior b); mapped = mq_inventory (mr_request mapping); source = xq_source r in
      res_bind (in_order
        [compare_fields IeSourceIdentityMismatch (\<lambda>field. ''current inventory coordinates differ from the verification source'')
           ''$.source'' [(''subject_uri'', sn_subject_uri current = im_subject_uri source),
             (''source_revision'', sn_source_revision current = im_source_revision source)],
         validate_implementation_mapping_result G N D E mapping (mr_request mapping) b current mapping_adapter negotiated,
         compare_fields IeContentIdentityMismatch
           (\<lambda>field. ''verification mapping '' @ field @ '' differs from the accepted result'') ''$.mapping''
           [(''target_id'', mf_target_id (xq_mapping r) = mr_id mapping),
            (''canonical_digest'', mf_digest (xq_mapping r) = gd_mapping G mapping)],
         compare_fields IeDocumentIdentityMismatch
           (\<lambda>field. ''verification base Behavior '' @ field @ '' differs from the bundle'') ''$.base_behavior''
           [(''document_id'', br_document_id (xq_base_behavior r) = br_document_id doc),
            (''canonical_digest'', br_digest (xq_base_behavior r) = br_digest doc)]]) (\<lambda>_.
      res_bind (validate_subject_ports (nb_behavior b) mapping r) (\<lambda>binding.
      in_order
        [compare_fields IeSourceIdentityMismatch
           (\<lambda>field. ''verification source '' @ field @ '' differs from its mapping'') ''$.source''
           [(''subject_uri'', im_subject_uri source = sn_subject_uri mapped),
            (''source_revision'', im_source_revision source = sn_source_revision mapped),
            (''records'', im_records source = mb_source_records binding)],
         evidence_check (sn_subject_uri current = im_subject_uri source \<and> sn_source_revision current = im_source_revision source \<and>
             current = mapped) IeSourceIdentityMismatch
           ''current inventory differs from the verification source'' ''$.source.source_revision'',
         evidence_check (map_of negotiated (cs_name (xq_capability r)) = Some (cs_version (xq_capability r))) IeCapabilityMismatch
           ''the exact verification capability was not selected'' ''$.capability'',
         revalidate_model (execution_request_ok r)])))"

definition execution_id_ok :: "evidence_digests \<Rightarrow> execution_result \<Rightarrow> (evidence_error, unit) res" where
  "execution_id_ok G r = evidence_check (xr_id r = derive_execution_verification_result_id G r) IeContentIdentityMismatch
     ''verification result ID is not derived from its exact content'' ''$.id''"

definition validate_execution_verification_result_structure ::
  "evidence_digests \<Rightarrow> execution_result \<Rightarrow> (evidence_error, unit) res" where
  "validate_execution_verification_result_structure G r = in_order [revalidate_model (execution_result_ok r), execution_id_ok G r]"

definition validate_execution_verification_result ::
  "evidence_digests \<Rightarrow> inventory_digests \<Rightarrow> onboarding_digests \<Rightarrow> bundle_digests \<Rightarrow> execution_result \<Rightarrow> execution_request \<Rightarrow>
     mapping_result \<Rightarrow> onboarding_bundle \<Rightarrow> inventory_snapshot \<Rightarrow> ir_producer \<Rightarrow> ir_producer \<Rightarrow> (string, string) dict \<Rightarrow>
     (evidence_error, unit) res" where
  "validate_execution_verification_result G N D E r request mapping b current mapping_adapter adapter negotiated = in_order
     [execution_id_ok G r,
      evidence_check (xr_request r = request) IeRequestIdentityMismatch
        ''verification result does not echo the exact request'' ''$.request'',
      validate_execution_verification_request G N D E request mapping b current mapping_adapter negotiated,
      evidence_check (xr_producer r = adapter) IeProducerIdentityMismatch
        ''verification result producer differs from the initialized adapter'' ''$.producer'',
      evidence_check (xr_capability r = xq_capability request \<and>
          map_of negotiated (cs_name (xq_capability request)) = Some (cs_version (xq_capability request)))
        IeCapabilityMismatch ''the exact verification capability was not selected'' ''$.capability'',
      evidence_check (xr_procedure_uri r = xq_adapter_procedure_uri request) IeProcedureMismatch
        ''verification result procedure differs from the request'' ''$.procedure_uri'',
      revalidate_model (execution_result_ok r)]"

section \<open>The reviewed roots of a bundle\<close>

definition reviewed_by :: "onboarding_bundle \<Rightarrow> behavior_entity_ref \<Rightarrow> discovery_candidate \<Rightarrow> bool" where
  "reviewed_by b t c \<longleftrightarrow> (\<exists>m. map_of (materialized_roots b) t = Some m \<and>
     map_of (candidates_by_id (nb_discovery b)) (cr_candidate_id (mt_candidate m)) = Some c)"

lemma bound_candidate_Inr: "bound_candidate b binding = Inr c \<longleftrightarrow> reviewed_by b (mb_behavior binding) c"
  by (auto simp: bound_candidate_def reviewed_by_def split: option.splits)

lemma valid_bundle:
  assumes "validate_onboarding_bundle D E b = Inr ()"
  defines "xs \<equiv> chosen (nb_discovery b) (de_decisions (nb_decisions b))"
  shows "decisions_ok D (nb_discovery b) (nb_decisions b)" "choices_ok D xs"
    "nb_behavior b = canonical_document (chosen_document D (nb_decisions b) xs)"
    "set (bs_materializations (nb_baseline b)) = contribution D (nb_decisions b) (nb_behavior b) ` set xs"
    "exchange_ok D \<lparr>dq_capability = ds_capability (nb_discovery b), dq_binding = ds_binding (nb_discovery b), dq_inventory = nb_inventory b\<rparr>
       (nb_discovery b)"
proof -
  let ?c = "bundle_of D E (nb_inventory b) (nb_discovery b) (nb_decisions b)"
  have on: "onboards D E (nb_inventory b) (nb_discovery b) (nb_decisions b)" and b: "b = ?c"
    using assms(1) by (auto simp: validate_onboarding_bundle_Inr)
  have "nb_behavior b = nb_behavior ?c" "nb_baseline b = nb_baseline ?c" using b by simp_all
  then show "nb_behavior b = canonical_document (chosen_document D (nb_decisions b) xs)"
    "set (bs_materializations (nb_baseline b)) = contribution D (nb_decisions b) (nb_behavior b) ` set xs"
    by (simp_all add: bundle_of_def Let_def materialized_def xs_def derive_onboarding_baseline_def)
  show "decisions_ok D (nb_discovery b) (nb_decisions b)" "choices_ok D xs"
    "exchange_ok D \<lparr>dq_capability = ds_capability (nb_discovery b), dq_binding = ds_binding (nb_discovery b), dq_inventory = nb_inventory b\<rparr>
       (nb_discovery b)"
    using on unfolding onboards_def xs_def by blast+
qed

lemma valid_bundle_behavior: "validate_onboarding_bundle D E b = Inr () \<Longrightarrow> ir_ok (nb_behavior b)"
  using valid_bundle(2,3) chosen_document_ok by (metis ir_ok_canonical)

lemma materialized_roots_keys: "set (dict_keys (materialized_roots b)) = mt_root ` set (bs_materializations (nb_baseline b))"
  using keys_merge [of "[]" "map (\<lambda>m. (mt_root m, m)) (bs_materializations (nb_baseline b))"]
  by (simp add: materialized_roots_def image_image)

lemma materialized_root_Some:
  assumes "map_of (materialized_roots b) t = Some m"
  shows "m \<in> set (bs_materializations (nb_baseline b))" "mt_root m = t"
proof -
  have "map_of (rev (map (\<lambda>m. (mt_root m, m)) (bs_materializations (nb_baseline b)))) t = Some m"
    using assms by (simp add: materialized_roots_def map_of_merge_rev)
  from map_of_SomeD [OF this] show "m \<in> set (bs_materializations (nb_baseline b))" "mt_root m = t" by auto
qed

lemma materialized_root_entity:
  assumes valid: "validate_onboarding_bundle D E b = Inr ()" and m: "m \<in> set (bs_materializations (nb_baseline b))"
  shows "bl_document (mt_root m) = behavior_document_of D (nb_behavior b)"
    "\<exists>u. UseCase u \<in> set (be_entities (nb_behavior b)) \<and> bl_subject (mt_root m) = entity_key (UseCase u)"
    "\<exists>c \<in> set (ds_candidates (nb_discovery b)). map_of (candidates_by_id (nb_discovery b)) (cr_candidate_id (mt_candidate m)) = Some c"
proof -
  note b = valid_bundle [OF valid]
  obtain x where x: "x \<in> set (chosen (nb_discovery b) (de_decisions (nb_decisions b)))"
    and m_eq: "m = contribution D (nb_decisions b) (nb_behavior b) x"
    using m unfolding b(4) by blast
  show "bl_document (mt_root m) = behavior_document_of D (nb_behavior b)"
    by (simp add: m_eq contribution_def Let_def behavior_document_of_def)
  have "bl_subject (mt_root m) \<in> entity_keys (nb_behavior b)"
    using contribution_keys [OF x b(2,3)] by (simp add: m_eq)
  then obtain e where e: "e \<in> set (be_entities (nb_behavior b))" "bl_subject (mt_root m) = entity_key e"
    by (auto simp: entity_keys_def)
  have "fst (bl_subject (mt_root m)) = entity_kind_value UseCaseKind" by (simp add: m_eq contribution_def Let_def)
  then have "kind_of e = UseCaseKind" using e(2) by (cases e) (simp_all add: entity_key_def)
  then show "\<exists>u. UseCase u \<in> set (be_entities (nb_behavior b)) \<and> bl_subject (mt_root m) = entity_key (UseCase u)"
    using e by (cases e) auto
  have "fst x \<in> set (filter promoted (de_decisions (nb_decisions b)))"
    using x arg_cong [OF chosen_decisions [OF decisions_known [OF b(1)]], of set] by auto
  then obtain c where c: "map_of (candidates_by_id (nb_discovery b)) (cr_candidate_id (mt_candidate m)) = Some c"
    using decisions_known [OF b(1)] by (auto simp: m_eq contribution_def Let_def)
  then have "map_of (rev (map (\<lambda>c. (dc_id c, c)) (ds_candidates (nb_discovery b)))) (cr_candidate_id (mt_candidate m)) = Some c"
    by (simp add: candidates_by_id_def map_of_merge_rev)
  from map_of_SomeD [OF this] c
  show "\<exists>c \<in> set (ds_candidates (nb_discovery b)). map_of (candidates_by_id (nb_discovery b)) (cr_candidate_id (mt_candidate m)) = Some c"
    by auto
qed

lemma reviewed_root:
  assumes valid: "validate_onboarding_bundle D E b = Inr ()" and t: "t \<in> set (dict_keys (materialized_roots b))"
  shows "bl_document t = behavior_document_of D (nb_behavior b)"
    "\<exists>u. UseCase u \<in> set (be_entities (nb_behavior b)) \<and> bl_subject t = entity_key (UseCase u)" "\<exists>c. reviewed_by b t c"
proof -
  obtain m where m: "map_of (materialized_roots b) t = Some m" using t by (metis map_of_None_keys not_Some_eq)
  note root = materialized_root_Some [OF m] and facts = materialized_root_entity [OF valid materialized_root_Some(1) [OF m]]
  show "bl_document t = behavior_document_of D (nb_behavior b)"
    "\<exists>u. UseCase u \<in> set (be_entities (nb_behavior b)) \<and> bl_subject t = entity_key (UseCase u)"
    using facts(1,2) root(2) by simp_all
  show "\<exists>c. reviewed_by b t c" using m facts(3) by (auto simp: reviewed_by_def)
qed

lemma reviewed_evidence:
  assumes valid: "validate_onboarding_bundle D E b = Inr ()" and c: "reviewed_by b t c" and r: "r \<in> set (dc_evidence c)"
  shows "\<exists>x. resolves_record (sn_records (nb_inventory b)) r x"
proof -
  obtain m where m: "m \<in> set (bs_materializations (nb_baseline b))"
    "map_of (candidates_by_id (nb_discovery b)) (cr_candidate_id (mt_candidate m)) = Some c"
    using c materialized_root_Some(1) unfolding reviewed_by_def by blast
  from materialized_root_entity(3) [OF valid m(1)] have "c \<in> set (ds_candidates (nb_discovery b))" using m(2) by auto
  then have "candidate_ok D (sn_records (nb_inventory b)) (nb_discovery b) c"
    using valid_bundle(5) [OF valid] by (simp add: exchange_ok_def Let_def)
  then show ?thesis using r by (simp add: candidate_ok_def)
qed

section \<open>What the validations accept\<close>

lemma compare_fields_Inr: "compare_fields code message location fs = Inr () \<longleftrightarrow> (\<forall>f \<in> set fs. snd f)"
  by (auto simp: compare_fields_def res_all_Inr simp del: res_all.simps)

lemma revalidate_model_Inr [simp]: "revalidate_model ok = Inr () \<longleftrightarrow> ok"
  by (simp add: revalidate_model_def)

lemma lift_onboarding_Inr [simp]: "lift_onboarding r = Inr x \<longleftrightarrow> r = Inr x"
  by (simp add: lift_onboarding_def split: sum.splits)

lemma behavior_ref_eq: "r = r' \<longleftrightarrow> br_document_id r = br_document_id r' \<and> br_digest r = br_digest r'" for r :: behavior_ref
  by (cases r; cases r') simp

lemma validate_mapping_target_Inr:
  assumes "validate_onboarding_bundle D E b = Inr ()"
  shows "validate_mapping_target D b (i, t) = Inr () \<longleftrightarrow> t \<in> set (dict_keys (materialized_roots b))"
proof -
  have "distinct (map entity_id (be_entities (nb_behavior b)))" using valid_bundle_behavior [OF assms] by (simp add: ir_ok_def)
  note lookup = behavior_lookup [OF this]
  show ?thesis
  proof (cases "t \<in> set (dict_keys (materialized_roots b))")
    case True
    note root = reviewed_root(1,2) [OF assms True]
    from root(2) obtain u where u: "UseCase u \<in> set (be_entities (nb_behavior b))" "bl_subject t = entity_key (UseCase u)" by blast
    then have "map_of (build_behavior_index (nb_behavior b)) (snd (bl_subject t)) = Some (UseCase u)"
      by (simp add: lookup entity_key_def)
    then show ?thesis using True root(1) u(2)
      by (simp add: validate_mapping_target_def Let_def res_bind_Inr compare_fields_Inr entity_key_def)
  next
    case False
    then show ?thesis by (simp add: validate_mapping_target_def Let_def res_bind_Inr split: option.splits)
  qed
qed

lemma validate_implementation_mapping_request_Inr:
  "validate_implementation_mapping_request G N D E r b = Inr () \<longleftrightarrow> validate_onboarding_bundle D E b = Inr () \<and>
     mq_onboarding r = gd_bundle G b \<and> mq_behavior r = nb_behavior b \<and> mq_inventory r = nb_inventory b \<and>
     set (mq_targets r) \<subseteq> set (dict_keys (materialized_roots b)) \<and> mapping_request_ok N r"
proof (cases "validate_onboarding_bundle D E b = Inr ()")
  case True
  have "each_position (validate_mapping_target D b) (mq_targets r) = Inr () \<longleftrightarrow>
      set (mq_targets r) \<subseteq> set (dict_keys (materialized_roots b))"
    unfolding each_position_Inr validate_mapping_target_Inr [OF True] by (auto simp: in_set_conv_nth subset_iff)
  then show ?thesis by (simp add: validate_implementation_mapping_request_def True)
next
  case False
  then show ?thesis by (simp add: validate_implementation_mapping_request_def)
qed

text \<open>
  A binding is backed by the review: its records are evidence of the candidate that was materialized as
  its behavior, the interface of the candidate among them.
\<close>

definition backed_binding :: "onboarding_bundle \<Rightarrow> source_binding \<Rightarrow> bool" where
  "backed_binding b binding \<longleftrightarrow> (\<exists>c. reviewed_by b (mb_behavior binding) c \<and>
     set (mb_source_records binding) \<subseteq> set (dc_evidence c) \<and> dc_subject c \<in> set (mb_source_records binding))"

lemma validate_mapping_binding_Inr:
  assumes "validate_onboarding_bundle D E b = Inr ()"
  shows "validate_mapping_binding b (nb_inventory b) (i, binding) = Inr () \<longleftrightarrow> backed_binding b binding"
proof -
  have "each_position (validate_source_record (nb_inventory b) (dc_evidence c) l) rs = Inr () \<longleftrightarrow> set rs \<subseteq> set (dc_evidence c)"
    if c: "reviewed_by b (mb_behavior binding) c" for c l rs
  proof -
    have "validate_source_record (nb_inventory b) (dc_evidence c) l (j, r) = Inr () \<longleftrightarrow> r \<in> set (dc_evidence c)" for j r
      using reviewed_evidence [OF assms c, of r]
      by (auto simp: validate_source_record_def Let_def resolves_record_def split: option.splits)
    then show ?thesis unfolding each_position_Inr by (auto simp: in_set_conv_nth subset_iff)
  qed
  then show ?thesis by (auto simp: validate_mapping_binding_def res_bind_Inr bound_candidate_Inr backed_binding_def)
qed

definition selected :: "(string, string) dict \<Rightarrow> capability_selection \<Rightarrow> bool" where
  "selected negotiated c \<longleftrightarrow> map_of negotiated (cs_name c) = Some (cs_version c)"

text \<open>The mapping of reviewed behaviors to source records that an adapter may give for a bundle.\<close>

definition mapping_accepted ::
  "evidence_digests \<Rightarrow> inventory_digests \<Rightarrow> onboarding_digests \<Rightarrow> bundle_digests \<Rightarrow> mapping_result \<Rightarrow>
     onboarding_bundle \<Rightarrow> ir_producer \<Rightarrow> (string, string) dict \<Rightarrow> bool" where
  "mapping_accepted G N D E r b adapter negotiated \<longleftrightarrow> validate_onboarding_bundle D E b = Inr () \<and>
     mapping_result_ok N r \<and> mr_id r = derive_implementation_mapping_result_id G r \<and> mq_onboarding (mr_request r) = gd_bundle G b \<and>
     mq_behavior (mr_request r) = nb_behavior b \<and> mq_inventory (mr_request r) = nb_inventory b \<and> mr_producer r = adapter \<and>
     selected negotiated mapping_capability \<and> set (map mb_behavior (mr_bindings r)) = set (mq_targets (mr_request r)) \<and>
     list_all (backed_binding b) (mr_bindings r)"

lemma backed_reviewed: "backed_binding b x \<Longrightarrow> mb_behavior x \<in> set (dict_keys (materialized_roots b))"
  unfolding backed_binding_def reviewed_by_def by (metis map_of_None_keys option.distinct(1))

lemma mapping_behaviors_distinct: "mapping_result_ok N r \<Longrightarrow> distinct (map mb_behavior (mr_bindings r))"
  unfolding mapping_result_ok_def unique_sorted_def map_map [symmetric] by (metis distinct_map)

lemma validate_implementation_mapping_result_Inr:
  "validate_implementation_mapping_result G N D E r request b current adapter negotiated = Inr () \<longleftrightarrow>
     mr_request r = request \<and> current = nb_inventory b \<and> mapping_accepted G N D E r b adapter negotiated"
proof (cases "validate_onboarding_bundle D E b = Inr () \<and> mr_request r = request \<and> mq_inventory request = nb_inventory b \<and> mapping_result_ok N r")
  case False
  then show ?thesis
    by (auto simp: validate_implementation_mapping_result_def validate_implementation_mapping_request_Inr mapping_accepted_def)
next
  case True
  then have valid: "validate_onboarding_bundle D E b = Inr ()" and request: "mr_request r = request"
    and inventory: "mq_inventory request = nb_inventory b" and ok: "mapping_result_ok N r" by blast+
  have parts: "mapping_request_ok N request" "mr_capability r = mq_capability request" "mq_capability request = mapping_capability"
    "mr_procedure_uri r = mq_adapter_procedure_uri request"
    using ok request by (auto simp: mapping_result_ok_def mapping_request_ok_def)
  have bindings: "each_position (validate_mapping_binding b (nb_inventory b)) (mr_bindings r) = Inr () \<longleftrightarrow> list_all (backed_binding b) (mr_bindings r)"
    unfolding each_position_Inr validate_mapping_binding_Inr [OF valid] by (simp add: list_all_length)
  have targets: "set (mq_targets request) \<subseteq> set (dict_keys (materialized_roots b))"
    if "list_all (backed_binding b) (mr_bindings r)" "set (map mb_behavior (mr_bindings r)) = set (mq_targets request)"
    using that(1) backed_reviewed unfolding that(2) [symmetric] list_all_iff by fastforce
  have "validate_implementation_mapping_result G N D E r request b current adapter negotiated = Inr () \<longleftrightarrow>
      mr_id r = derive_implementation_mapping_result_id G r \<and> (mq_onboarding request = gd_bundle G b \<and> mq_behavior request = nb_behavior b \<and>
        set (mq_targets request) \<subseteq> set (dict_keys (materialized_roots b))) \<and>
      mr_producer r = adapter \<and> selected negotiated mapping_capability \<and> current = nb_inventory b \<and>
      set (map mb_behavior (mr_bindings r)) = set (mq_targets request) \<and> list_all (backed_binding b) (mr_bindings r)"
    using parts mapping_behaviors_distinct [OF ok]
    by (simp add: validate_implementation_mapping_result_def validate_implementation_mapping_request_Inr valid request inventory ok bindings
        mapping_id_ok_def selected_def)
  also have "\<dots> \<longleftrightarrow> current = nb_inventory b \<and> mapping_accepted G N D E r b adapter negotiated"
    unfolding mapping_accepted_def
    using targets by (simp only: request valid inventory ok simp_thms) blast
  finally show ?thesis by (simp only: request simp_thms)
qed

text \<open>Values for the ports of a behavior: each for a port of its kind, and one for every required port.\<close>

definition ports_supplied :: "port list \<Rightarrow> execution_port_value list \<Rightarrow> bool" where
  "ports_supplied ports vs \<longleftrightarrow>
     list_all (\<lambda>v. list_ex (\<lambda>p. po_name p = pr_name (xp_port v) \<and> port_kind_ok p (xp_value v)) ports) vs \<and>
     list_all (\<lambda>p. po_required p \<longrightarrow> list_ex (\<lambda>v. po_name p = pr_name (xp_port v)) vs) ports"

lemma validate_port_values_Inr:
  assumes "distinct (map po_name ports)"
  shows "validate_port_values vs ports location = Inr () \<longleftrightarrow> ports_supplied ports vs"
proof -
  have "map_of (dict_of (map (\<lambda>p. (po_name p, p)) ports)) = map_of (map (\<lambda>p. (po_name p, p)) ports)"
    by (rule dict_of_distinct) (use assms in \<open>simp add: comp_def\<close>)
  then have lookup: "map_of (dict_of (map (\<lambda>p. (po_name p, p)) ports)) n = Some p \<longleftrightarrow> p \<in> set ports \<and> po_name p = n" for n p
    using assms by (auto simp: map_of_eq_Some_iff comp_def)
  have one: "validate_port_value ports location (i, v) = Inr () \<longleftrightarrow>
      list_ex (\<lambda>p. po_name p = pr_name (xp_port v) \<and> port_kind_ok p (xp_value v)) ports" for i v
  proof (cases "map_of (dict_of (map (\<lambda>p. (po_name p, p)) ports)) (pr_name (xp_port v))")
    case None
    then have "\<not> (p \<in> set ports \<and> po_name p = pr_name (xp_port v))" for p using lookup [of "pr_name (xp_port v)" p] by simp
    then have "\<not> list_ex (\<lambda>p. po_name p = pr_name (xp_port v) \<and> port_kind_ok p (xp_value v)) ports"
      unfolding list_ex_iff by blast
    then show ?thesis by (simp only: validate_port_value_def None prod.case option.case) simp
  next
    case (Some p)
    then have only: "q \<in> set ports \<and> po_name q = pr_name (xp_port v) \<longleftrightarrow> q = p" for q
      using lookup [of "pr_name (xp_port v)" q] by auto
    have "list_ex (\<lambda>q. po_name q = pr_name (xp_port v) \<and> port_kind_ok q (xp_value v)) ports \<longleftrightarrow> port_kind_ok p (xp_value v)"
      unfolding list_ex_iff using only [of p] only by (metis (no_types, lifting))
    then show ?thesis by (simp only: validate_port_value_def Some prod.case option.case evidence_check_Inr)
  qed
  have "each_position (validate_port_value ports location) vs = Inr () \<longleftrightarrow>
      list_all (\<lambda>v. list_ex (\<lambda>p. po_name p = pr_name (xp_port v) \<and> port_kind_ok p (xp_value v)) ports) vs"
    unfolding each_position_Inr one by (simp add: list_all_length)
  moreover have "set (map po_name (filter po_required ports)) \<subseteq> set (map (pr_name \<circ> xp_port) vs) \<longleftrightarrow>
      list_all (\<lambda>p. po_required p \<longrightarrow> list_ex (\<lambda>v. po_name p = pr_name (xp_port v)) vs) ports"
    by (simp add: list_all_iff list_ex_iff subset_iff image_iff) blast
  ultimately show ?thesis by (simp add: validate_port_values_def ports_supplied_def)
qed

text \<open>The request to execute a mapped use case on given inputs, with the outputs expected of it.\<close>

definition execution_accepted ::
  "evidence_digests \<Rightarrow> inventory_digests \<Rightarrow> onboarding_digests \<Rightarrow> bundle_digests \<Rightarrow> execution_request \<Rightarrow> mapping_result \<Rightarrow>
     onboarding_bundle \<Rightarrow> ir_producer \<Rightarrow> (string, string) dict \<Rightarrow> bool" where
  "execution_accepted G N D E q mapping b adapter negotiated \<longleftrightarrow> mapping_accepted G N D E mapping b adapter negotiated \<and>
     execution_request_ok q \<and> selected negotiated verification_capability \<and>
     xq_mapping q = \<lparr>mf_target_id = mr_id mapping, mf_digest = gd_mapping G mapping\<rparr> \<and>
     xq_base_behavior q = behavior_document_of D (nb_behavior b) \<and>
     im_subject_uri (xq_source q) = sn_subject_uri (nb_inventory b) \<and> im_source_revision (xq_source q) = sn_source_revision (nb_inventory b) \<and>
     (\<exists>binding u. binding \<in> set (mr_bindings mapping) \<and> mb_behavior binding = xq_subject q \<and>
        im_records (xq_source q) = mb_source_records binding \<and>
        UseCase u \<in> set (be_entities (nb_behavior b)) \<and> bl_subject (xq_subject q) = entity_key (UseCase u) \<and>
        ports_supplied (us_input_ports u) (xq_inputs q) \<and> ports_supplied (us_output_ports u) (xq_expected_outputs q))"

lemma find_unique:
  assumes "distinct (map f xs)"
  shows "find (\<lambda>x. f x = k) xs = Some x \<longleftrightarrow> x \<in> set xs \<and> f x = k"
  using assms by (induction xs) (auto simp: image_iff)

lemma use_case_unique:
  assumes "distinct (map entity_id es)" "UseCase u \<in> set es" "UseCase v \<in> set es" "entity_key (UseCase u) = entity_key (UseCase v)"
  shows "u = v"
proof -
  have "UseCase u = UseCase v"
    by (rule inj_onD [of entity_id "set es"]) (use assms in \<open>simp_all add: entity_key_def distinct_map\<close>)
  then show ?thesis by simp
qed

lemma validate_subject_ports_Inr:
  assumes valid: "validate_onboarding_bundle D E b = Inr ()" and bindings: "distinct (map mb_behavior (mr_bindings mapping))"
    and backed: "list_all (backed_binding b) (mr_bindings mapping)"
  shows "validate_subject_ports (nb_behavior b) mapping q = Inr binding \<longleftrightarrow>
    binding \<in> set (mr_bindings mapping) \<and> mb_behavior binding = xq_subject q \<and>
    (\<exists>u. UseCase u \<in> set (be_entities (nb_behavior b)) \<and> bl_subject (xq_subject q) = entity_key (UseCase u) \<and>
       ports_supplied (us_input_ports u) (xq_inputs q) \<and> ports_supplied (us_output_ports u) (xq_expected_outputs q))"
proof -
  let ?es = "be_entities (nb_behavior b)" and ?subject = "bl_subject (xq_subject q)"
  have ok: "ir_ok (nb_behavior b)" by (rule valid_bundle_behavior [OF valid])
  then have ids: "distinct (map entity_id ?es)" by (simp add: ir_ok_def)
  note lookup = behavior_lookup [OF ids]
  have ports: "distinct (map po_name (us_input_ports u))" "distinct (map po_name (us_output_ports u))" if "UseCase u \<in> set ?es" for u
    using ok that by (auto simp: ir_ok_def dest!: bspec)
  have root: "\<exists>u. UseCase u \<in> set ?es \<and> ?subject = entity_key (UseCase u)"
    if "x \<in> set (mr_bindings mapping)" "mb_behavior x = xq_subject q" for x
    using reviewed_root(2) [OF valid backed_reviewed [of b x]] backed that by (simp add: list_all_iff)
  show ?thesis
  proof (cases "binding \<in> set (mr_bindings mapping) \<and> mb_behavior binding = xq_subject q")
    case False
    then have "find (\<lambda>b. mb_behavior b = xq_subject q) (mr_bindings mapping) \<noteq> Some binding"
      using find_unique [OF bindings] by blast
    then have "validate_subject_ports (nb_behavior b) mapping q \<noteq> Inr binding"
      by (auto simp: validate_subject_ports_def res_bind_Inr split: option.splits)
    with False show ?thesis by blast
  next
    case True
    then have found: "find (\<lambda>b. mb_behavior b = xq_subject q) (mr_bindings mapping) = Some binding"
      using find_unique [OF bindings] by blast
    obtain u where u: "UseCase u \<in> set ?es" "?subject = entity_key (UseCase u)" using root True by blast
    have only: "u' = u" if "UseCase u' \<in> set ?es" "?subject = entity_key (UseCase u')" for u'
      by (rule use_case_unique [OF ids that(1) u(1)]) (simp only: u(2) [symmetric] that(2) [symmetric])
    have entity: "map_of (build_behavior_index (nb_behavior b)) (snd ?subject) = Some (UseCase u)"
      using u by (simp add: lookup entity_key_def)
    have key: "fst ?subject = entity_kind_value UseCaseKind" using u(2) by (simp add: entity_key_def)
    have "validate_subject_ports (nb_behavior b) mapping q = Inr binding \<longleftrightarrow>
        ports_supplied (us_input_ports u) (xq_inputs q) \<and> ports_supplied (us_output_ports u) (xq_expected_outputs q)"
      by (simp add: validate_subject_ports_def entity key found res_bind_Inr validate_port_values_Inr ports [OF u(1)])
    then show ?thesis using True u only by blast
  qed
qed

lemma validate_execution_verification_request_Inr:
  "validate_execution_verification_request G N D E q mapping b current mapping_adapter negotiated = Inr () \<longleftrightarrow>
     current = nb_inventory b \<and> execution_accepted G N D E q mapping b mapping_adapter negotiated"
proof (cases "current = nb_inventory b \<and> mapping_accepted G N D E mapping b mapping_adapter negotiated \<and> execution_request_ok q")
  case False
  then show ?thesis
    by (auto simp: validate_execution_verification_request_def Let_def res_bind_Inr validate_implementation_mapping_result_Inr execution_accepted_def)
next
  case True
  then have current: "current = nb_inventory b" and mapped: "mapping_accepted G N D E mapping b mapping_adapter negotiated"
    and ok: "execution_request_ok q" by blast+
  have facts: "validate_onboarding_bundle D E b = Inr ()" "mq_inventory (mr_request mapping) = nb_inventory b"
    "distinct (map mb_behavior (mr_bindings mapping))" "list_all (backed_binding b) (mr_bindings mapping)"
    using mapped mapping_behaviors_distinct by (auto simp: mapping_accepted_def)
  have ref: "xq_mapping q = \<lparr>mf_target_id = i, mf_digest = d\<rparr> \<longleftrightarrow> mf_target_id (xq_mapping q) = i \<and> mf_digest (xq_mapping q) = d" for i d
    by (cases "xq_mapping q") simp
  have capability: "xq_capability q = verification_capability" using ok by (simp add: execution_request_ok_def)
  have "validate_execution_verification_request G N D E q mapping b current mapping_adapter negotiated = Inr () \<longleftrightarrow>
      (im_subject_uri (xq_source q) = sn_subject_uri (nb_inventory b) \<and> im_source_revision (xq_source q) = sn_source_revision (nb_inventory b)) \<and>
      xq_mapping q = \<lparr>mf_target_id = mr_id mapping, mf_digest = gd_mapping G mapping\<rparr> \<and>
      xq_base_behavior q = behavior_document_of D (nb_behavior b) \<and> selected negotiated verification_capability \<and>
      (\<exists>binding. validate_subject_ports (nb_behavior b) mapping q = Inr binding \<and> im_records (xq_source q) = mb_source_records binding)"
    unfolding ref behavior_ref_eq [of "xq_base_behavior q"]
    by (simp only: validate_execution_verification_request_def Let_def res_bind_Inr in_order_Inr list.set ball_simps insert_iff compare_fields_Inr
        validate_implementation_mapping_result_Inr snd_conv evidence_check_Inr revalidate_model_Inr current mapped ok facts capability selected_def)
      auto
  then show ?thesis
    unfolding execution_accepted_def validate_subject_ports_Inr [OF facts(1,3,4)] using current mapped ok by (simp only: simp_thms) blast
qed

text \<open>The outcome of an accepted request, from the adapter that was initialized for it.\<close>

definition result_accepted ::
  "evidence_digests \<Rightarrow> inventory_digests \<Rightarrow> onboarding_digests \<Rightarrow> bundle_digests \<Rightarrow> execution_result \<Rightarrow> mapping_result \<Rightarrow>
     onboarding_bundle \<Rightarrow> ir_producer \<Rightarrow> ir_producer \<Rightarrow> (string, string) dict \<Rightarrow> bool" where
  "result_accepted G N D E r mapping b mapping_adapter adapter negotiated \<longleftrightarrow>
     execution_accepted G N D E (xr_request r) mapping b mapping_adapter negotiated \<and> execution_result_ok r \<and>
     xr_id r = derive_execution_verification_result_id G r \<and> xr_producer r = adapter"

lemma validate_execution_verification_result_Inr:
  "validate_execution_verification_result G N D E r request mapping b current mapping_adapter adapter negotiated = Inr () \<longleftrightarrow>
     xr_request r = request \<and> current = nb_inventory b \<and> result_accepted G N D E r mapping b mapping_adapter adapter negotiated"
  by (auto simp: validate_execution_verification_result_def validate_execution_verification_request_Inr result_accepted_def execution_id_ok_def
      execution_accepted_def execution_result_ok_def execution_request_ok_def selected_def)

end
