(* ===== verification/Execution_Projection.thy ===== *)
theory Execution_Projection
  imports Execution_Evidence Inventory_Topology
begin

text \<open>
  What a passed execution adds, \<^verbatim>\<open>src/ucf/implementation_evidence/projection.py\<close>: a successor of the
  reviewed behavior with the evidence and its provenance, and a trust document that claims the executed
  behavior as tested.
\<close>

section \<open>The successor of the behavior\<close>

definition execution_provenance :: "execution_result \<Rightarrow> string \<Rightarrow> ir_provenance" where
  "execution_provenance r i = IR_Model.ir_provenance.make i (im_subject_uri (xq_source (xr_request r)))
     (im_source_revision (xq_source (xr_request r))) (xr_producer r) (xr_executed_at r)"

definition execution_evidence :: "evidence_digests \<Rightarrow> execution_result \<Rightarrow> string \<Rightarrow> string \<Rightarrow> entity \<Rightarrow> ir_evidence" where
  "execution_evidence G r i provenance subject = \<lparr>ev_id = i,
     ev_subjects = [\<lparr>er_kind = kind_of subject, er_id = snd (bl_subject (xq_subject (xr_request r)))\<rparr>],
     ev_check = xq_check (xr_request r), ev_outcome = xr_outcome r, ev_executed_at = xr_executed_at r,
     ev_source_revision = im_source_revision (xq_source (xr_request r)),
     ev_environment = gd_environment G (xq_environment (xr_request r)),
     ev_provenance = \<lparr>er_kind = ProvenanceKind, er_id = provenance\<rparr>\<rparr>"

definition execution_ids :: "evidence_digests \<Rightarrow> execution_result \<Rightarrow> string \<times> string" where
  "execution_ids G r = (''provenance.execution.'' @ gd_execution G r, ''evidence.execution.'' @ gd_execution G r)"

definition extended_behavior :: "evidence_digests \<Rightarrow> execution_result \<Rightarrow> behavior_ir \<Rightarrow> entity \<Rightarrow> behavior_ir" where
  "extended_behavior G r behavior subject = (case execution_ids G r of (p, e) \<Rightarrow>
     behavior\<lparr>be_entities := be_entities behavior @
       [IR_Model.Provenance (execution_provenance r p), Evidence (execution_evidence G r e p subject)]\<rparr>)"

section \<open>The claim\<close>

definition located_in :: "behavior_ref \<Rightarrow> string \<times> string \<Rightarrow> behavior_entity_ref" where
  "located_in document subject = \<lparr>bl_document = document, bl_subject = subject\<rparr>"

definition execution_trace :: "evidence_digests \<Rightarrow> execution_result \<Rightarrow> trust_ref" where
  "execution_trace G r = \<lparr>tr_kind = SourceRecordKind, tr_id = ''source.execution.'' @ gd_execution G r\<rparr>"

definition execution_source_record :: "evidence_digests \<Rightarrow> execution_result \<Rightarrow> source_record" where
  "execution_source_record G r = \<lparr>so_id = ''source.execution.'' @ gd_execution G r, so_uri = im_subject_uri (xq_source (xr_request r)),
     so_revision = im_source_revision (xq_source (xr_request r)), so_producer = xr_producer r, so_captured_at = xr_executed_at r\<rparr>"

definition tested_claim :: "evidence_digests \<Rightarrow> execution_result \<Rightarrow> behavior_ref \<Rightarrow> trust_claim" where
  "tested_claim G r document = \<lparr>tc_id = ''claim.tested.'' @ gd_execution G r, tc_level = TestedLevel,
     tc_subject = located_in document (bl_subject (xq_subject (xr_request r))),
     tc_basis = TestedClaimBasis \<lparr>
       tb_evidence = BehaviorEvidence (located_in document (entity_kind_value EvidenceKind, snd (execution_ids G r))),
       tb_artifact = execution_trace G r, tb_check = xq_check (xr_request r),
       tb_environment = gd_environment G (xq_environment (xr_request r)), tb_producer = xr_producer r\<rparr>,
     tc_trace = execution_trace G r\<rparr>"

definition tested_trust :: "evidence_digests \<Rightarrow> execution_result \<Rightarrow> behavior_ref \<Rightarrow> trust_ir" where
  "tested_trust G r document = \<lparr>ti_document_id = ''document.execution-verification.'' @ gd_execution G r, ti_subject = document,
     ti_records = [SourceRecord (execution_source_record G r), Claim (tested_claim G r document)]\<rparr>"

section \<open>The projection\<close>

definition lift_evidence :: "(ir_error, 'a) res \<Rightarrow> (evidence_error, 'a) res" where
  "lift_evidence r = (case r of Inl e \<Rightarrow> Inl (EvidenceIrError e) | Inr x \<Rightarrow> Inr x)"

definition project_execution_verification ::
  "evidence_digests \<Rightarrow> inventory_digests \<Rightarrow> onboarding_digests \<Rightarrow> bundle_digests \<Rightarrow> execution_result \<Rightarrow> execution_request \<Rightarrow>
     mapping_result \<Rightarrow> onboarding_bundle \<Rightarrow> inventory_snapshot \<Rightarrow> ir_producer \<Rightarrow> ir_producer \<Rightarrow> (string, string) dict \<Rightarrow>
     (evidence_error, behavior_ir \<times> trust_ir) res" where
  "project_execution_verification G N D E r request mapping b current mapping_adapter adapter negotiated =
     (let behavior = nb_behavior b; doc = behavior_document_of D behavior; base = xq_base_behavior (xr_request r);
          subject = bl_subject (xq_subject (xr_request r)) in
      res_bind (in_order
        [validate_execution_verification_result G N D E r request mapping b current mapping_adapter adapter negotiated,
         evidence_check (xr_outcome r = ''passed'') IeEvidenceNotPassed
           ''only passed execution evidence can project a tested claim'' ''$.outcome'',
         compare_fields IeDocumentIdentityMismatch (\<lambda>field. ''verification base Behavior '' @ field @ '' differs from input'')
           ''$.request.base_behavior''
           [(''document_id'', br_document_id base = br_document_id doc), (''canonical_digest'', br_digest base = br_digest doc)]]) (\<lambda>_.
      case map_of (build_behavior_index behavior) (snd subject) of
        None \<Rightarrow> Inl (EvidenceError IeBrokenReference ''verification subject does not exist in the base behavior'' ''$.request.subject'')
      | Some e \<Rightarrow>
          res_bind (evidence_check (entity_kind_value (kind_of e) = fst subject) IeWrongTargetKind
            ''verification subject kind differs from the base behavior'' ''$.request.subject.target_kind'') (\<lambda>_.
          res_bind (res_all (\<lambda>i. evidence_check (map_of (build_behavior_index behavior) i = None) IeDuplicateIdentity
            ''derived execution evidence ID collides with base behavior'' ''$.entities'')
            [fst (execution_ids G r), snd (execution_ids G r)]) (\<lambda>_.
          let successor = canonical_document (extended_behavior G r behavior e);
              trust = tested_trust G r (behavior_document_of D successor) in
          res_bind (lift_evidence (validate_ir_semantics successor)) (\<lambda>_.
          res_bind (lift_evidence (validate_trust_against_behavior (od_behavior D) trust successor)) (\<lambda>_.
          Inr (successor, trust)))))))"

section \<open>The successor is valid and supports the claim\<close>

lemma lift_evidence_Inr [simp]: "lift_evidence r = Inr x \<longleftrightarrow> r = Inr x"
  by (simp add: lift_evidence_def split: sum.splits)

lemma evidence_extends:
  assumes ok: "ir_ok d" and fresh: "IR_Model.pv_id p \<notin> entity_id ` set (be_entities d)" "ev_id v \<notin> entity_id ` set (be_entities d)" "IR_Model.pv_id p \<noteq> ev_id v"
    and subjects: "refs_to (be_entities d) UNIV (ev_subjects v)"
    and provenance: "ev_provenance v = \<lparr>er_kind = ProvenanceKind, er_id = IR_Model.pv_id p\<rparr>"
  shows "ir_ok (d\<lparr>be_entities := be_entities d @ [IR_Model.Provenance p, Evidence v]\<rparr>)"
proof -
  let ?es = "be_entities d" and ?es' = "be_entities d @ [IR_Model.Provenance p, Evidence v]"
  have sub: "set ?es \<subseteq> set ?es'" by auto
  have "capability_names ?es' = capability_names ?es" by (simp add: capability_names_def List.map_filter_def)
  moreover have "distinct (map entity_id ?es')" using ok fresh by (auto simp: ir_ok_def)
  moreover have "refs_to ?es' {UseCaseKind} (be_roots d)" using ok refs_to_mono [OF sub] by (simp add: ir_ok_def)
  moreover have "entity_ok ?es' (Evidence v)"
    using refs_to_mono [OF sub subjects] by (auto simp: refers_to_def provenance)
  moreover have "entity_ok ?es' e" if "e \<in> set ?es" for e
    using ok that entity_ok_mono [OF sub] unfolding ir_ok_def by blast
  ultimately show ?thesis using ok by (auto simp: ir_ok_def)
qed

text \<open>The two facts of a passed execution the successor records, and what the whole projection is.\<close>

definition execution_facts :: "evidence_digests \<Rightarrow> execution_result \<Rightarrow> entity \<Rightarrow> entity set" where
  "execution_facts G r subject = {IR_Model.Provenance (execution_provenance r (fst (execution_ids G r))),
     Evidence (execution_evidence G r (snd (execution_ids G r)) (fst (execution_ids G r)) subject)}"

definition projection_of :: "evidence_digests \<Rightarrow> onboarding_digests \<Rightarrow> execution_result \<Rightarrow> behavior_ir \<Rightarrow> entity \<Rightarrow> behavior_ir \<times> trust_ir" where
  "projection_of G D r behavior e = (let successor = canonical_document (extended_behavior G r behavior e) in
     (successor, tested_trust G r (behavior_document_of D successor)))"

definition execution_fresh :: "evidence_digests \<Rightarrow> execution_result \<Rightarrow> behavior_ir \<Rightarrow> bool" where
  "execution_fresh G r behavior \<longleftrightarrow> {fst (execution_ids G r), snd (execution_ids G r)} \<inter> entity_id ` set (be_entities behavior) = {}"

lemma successor_ok:
  assumes ok: "ir_ok behavior" and e: "e \<in> set (be_entities behavior)" "entity_key e = bl_subject (xq_subject (xr_request r))"
    and fresh: "execution_fresh G r behavior"
  shows "ir_ok (extended_behavior G r behavior e)"
proof -
  have "refers_to (be_entities behavior) UNIV \<lparr>er_kind = kind_of e, er_id = snd (bl_subject (xq_subject (xr_request r)))\<rparr>"
    unfolding refers_to_def by (intro bexI [OF _ e(1)]) (simp add: e(2) [symmetric] entity_key_def)
  then show ?thesis
    unfolding extended_behavior_def execution_ids_def prod.case
    by (intro evidence_extends [OF ok])
      (use fresh in \<open>auto simp: execution_fresh_def execution_ids_def execution_provenance_def IR_Model.ir_provenance.make_def execution_evidence_def refs_to_def\<close>)
qed

lemma successor_entities:
  "set (be_entities (canonical_document (extended_behavior G r behavior e))) =
     canonical_form ` set (be_entities behavior) \<union> execution_facts G r e"
  by (auto simp: extended_behavior_def execution_facts_def canonical_document_def execution_evidence_def canonical_refs_def split: prod.split)

lemma tested_claim_supported:
  assumes ok: "ir_ok behavior" and e: "e \<in> set (be_entities behavior)" "entity_key e = bl_subject (xq_subject (xr_request r))"
    and fresh: "execution_fresh G r behavior" and passed: "xr_outcome r = ''passed''"
  shows "trust_supported (od_behavior D) (snd (projection_of G D r behavior e)) (fst (projection_of G D r behavior e))"
proof -
  let ?s = "canonical_document (extended_behavior G r behavior e)" and ?subject = "bl_subject (xq_subject (xr_request r))"
  let ?doc = "behavior_document_of D ?s" and ?p = "execution_provenance r (fst (execution_ids G r))"
  let ?v = "execution_evidence G r (snd (execution_ids G r)) (fst (execution_ids G r)) e"
  let ?rs = "[SourceRecord (execution_source_record G r), Claim (tested_claim G r ?doc)]"
  have valid: "ir_ok ?s" unfolding ir_ok_canonical by (rule successor_ok [OF ok e fresh])
  have facts: "Evidence ?v \<in> set (be_entities ?s)" "IR_Model.Provenance ?p \<in> set (be_entities ?s)"
    unfolding successor_entities by (simp_all add: execution_facts_def)
  have subject: "?subject \<in> entity_key ` set (be_entities ?s)"
    unfolding successor_entities e(2) [symmetric] entity_key_form [of e, symmetric] using e(1) by blast
  have trace: "has_record ?rs SourceRecordKind (execution_trace G r)"
    by (simp add: has_record_def execution_trace_def execution_source_record_def)
  have "passing_evidence ?rs (be_entities ?s) (located_in ?doc ?subject)
      (case tc_basis (tested_claim G r ?doc) of TestedClaimBasis basis \<Rightarrow> basis)"
    unfolding passing_evidence_def
    by (rule exI [of _ "located_in ?doc (entity_kind_value EvidenceKind, snd (execution_ids G r))"], rule exI [of _ ?v], rule exI [of _ "execution_source_record G r"], rule exI [of _ ?p])
      (use facts e(2) [symmetric] passed in \<open>simp add: tested_claim_def located_in_def execution_evidence_def execution_source_record_def
        execution_provenance_def IR_Model.ir_provenance.make_def execution_trace_def entity_key_def\<close>)
  then show ?thesis
    using valid subject trace
    by (simp add: projection_of_def Let_def tested_trust_def trust_supported_def trust_ok_def behavior_document_of_def tested_claim_def
        located_in_def execution_source_record_def)
qed


lemma accepted_subject:
  assumes "result_accepted G N D E r mapping b mapping_adapter adapter negotiated"
  obtains u where "UseCase u \<in> set (be_entities (nb_behavior b))" "entity_key (UseCase u) = bl_subject (xq_subject (xr_request r))"
    "ir_ok (nb_behavior b)" "xq_base_behavior (xr_request r) = behavior_document_of D (nb_behavior b)"
proof -
  from assms have q: "execution_accepted G N D E (xr_request r) mapping b mapping_adapter negotiated" by (simp add: result_accepted_def)
  then obtain u where "UseCase u \<in> set (be_entities (nb_behavior b))" "bl_subject (xq_subject (xr_request r)) = entity_key (UseCase u)"
    unfolding execution_accepted_def by blast
  moreover have "ir_ok (nb_behavior b)"
    using q valid_bundle_behavior unfolding execution_accepted_def mapping_accepted_def by blast
  moreover have "xq_base_behavior (xr_request r) = behavior_document_of D (nb_behavior b)" using q by (simp add: execution_accepted_def)
  ultimately show ?thesis using that by simp
qed

lemma project_execution_verification_Inr:
  "project_execution_verification G N D E r request mapping b current mapping_adapter adapter negotiated = Inr p \<longleftrightarrow>
     xr_request r = request \<and> current = nb_inventory b \<and> result_accepted G N D E r mapping b mapping_adapter adapter negotiated \<and>
     xr_outcome r = ''passed'' \<and> execution_fresh G r (nb_behavior b) \<and>
     (\<exists>u. UseCase u \<in> set (be_entities (nb_behavior b)) \<and> entity_key (UseCase u) = bl_subject (xq_subject (xr_request r)) \<and>
        p = projection_of G D r (nb_behavior b) (UseCase u))"
proof (cases "xr_request r = request \<and> current = nb_inventory b \<and> result_accepted G N D E r mapping b mapping_adapter adapter negotiated \<and>
    xr_outcome r = ''passed''")
  case False
  then show ?thesis
    by (auto simp: project_execution_verification_def Let_def res_bind_Inr validate_execution_verification_result_Inr)
next
  case True
  then have accepted: "result_accepted G N D E r mapping b mapping_adapter adapter negotiated" and passed: "xr_outcome r = ''passed''" by blast+
  have "validate_execution_verification_result G N D E r request mapping b current mapping_adapter adapter negotiated = Inr ()"
    using True by (simp add: validate_execution_verification_result_Inr)
  note start = this passed
  from accepted obtain u where u: "UseCase u \<in> set (be_entities (nb_behavior b))"
    "entity_key (UseCase u) = bl_subject (xq_subject (xr_request r))"
    and ok: "ir_ok (nb_behavior b)" and base: "xq_base_behavior (xr_request r) = behavior_document_of D (nb_behavior b)"
    by (rule accepted_subject)
  have ids: "distinct (map entity_id (be_entities (nb_behavior b)))" using ok by (simp add: ir_ok_def)
  note lookup = behavior_lookup [OF ids]
  have found: "map_of (build_behavior_index (nb_behavior b)) (snd (bl_subject (xq_subject (xr_request r)))) = Some (UseCase u)"
    "fst (bl_subject (xq_subject (xr_request r))) = entity_kind_value (kind_of (UseCase u))"
    unfolding u(2) [symmetric] using u(1) by (simp_all add: lookup entity_key_def)
  have free: "map_of (build_behavior_index (nb_behavior b)) i = None \<longleftrightarrow> i \<notin> entity_id ` set (be_entities (nb_behavior b))" for i
  proof -
    have "map_of (build_behavior_index (nb_behavior b)) i = None \<longleftrightarrow> \<not> (\<exists>e. map_of (build_behavior_index (nb_behavior b)) i = Some e)" by simp
    then show ?thesis unfolding lookup by blast
  qed
  have only: "UseCase u' \<in> set (be_entities (nb_behavior b)) \<and> entity_key (UseCase u') = bl_subject (xq_subject (xr_request r)) \<longleftrightarrow> u' = u" for u'
    using u use_case_unique [OF ids _ u(1), of u'] by auto
  let ?p = "projection_of G D r (nb_behavior b) (UseCase u)"
  have "project_execution_verification G N D E r request mapping b current mapping_adapter adapter negotiated = Inr p \<longleftrightarrow>
      execution_fresh G r (nb_behavior b) \<and> ir_ok (fst ?p) \<and> trust_supported (od_behavior D) (snd ?p) (fst ?p) \<and> p = ?p"
    by (simp only: project_execution_verification_def Let_def in_order_Inr list.set ball_simps insert_iff start evidence_check_Inr
        compare_fields_Inr snd_conv base res_bind_Inr found option.case res_all_Inr free lift_evidence_Inr validate_ir_semantics_Inr
        validate_trust_against_behavior_Inr execution_fresh_def projection_of_def fst_conv)
      (auto simp: validate_ir_semantics_Inr validate_trust_against_behavior_Inr)
  also have "\<dots> \<longleftrightarrow> execution_fresh G r (nb_behavior b) \<and> p = ?p"
    using tested_claim_supported [OF ok u _ passed] by (auto simp: trust_supported_def)
  finally have "project_execution_verification G N D E r request mapping b current mapping_adapter adapter negotiated = Inr p \<longleftrightarrow>
      execution_fresh G r (nb_behavior b) \<and> p = ?p" .
  moreover have "(\<exists>u'. UseCase u' \<in> set (be_entities (nb_behavior b)) \<and> entity_key (UseCase u') = bl_subject (xq_subject (xr_request r)) \<and>
      p = projection_of G D r (nb_behavior b) (UseCase u')) \<longleftrightarrow> p = ?p"
    unfolding conj_assoc [symmetric] only by simp
  ultimately show ?thesis using True by (simp only: simp_thms)
qed

text \<open>What the projection adds to the reviewed behavior, and what it claims.\<close>

lemma projection_facts:
  assumes p: "(s, t) = projection_of G D r (nb_behavior b) (UseCase u)"
    and u: "UseCase u \<in> set (be_entities (nb_behavior b))" "entity_key (UseCase u) = bl_subject (xq_subject (xr_request r))"
    and accepted: "result_accepted G N D E r mapping b mapping_adapter adapter negotiated" and passed: "xr_outcome r = ''passed''"
    and fresh: "execution_fresh G r (nb_behavior b)"
  shows "set (be_entities s) = canonical_form ` set (be_entities (nb_behavior b)) \<union> execution_facts G r (UseCase u)"
    "set (be_roots s) = set (be_roots (nb_behavior b))" "validate_ir_semantics s = Inr ()"
    "supported_claim_levels (od_behavior D) t s = Inr {TestedLevel}"
proof -
  from accepted have ok: "ir_ok (nb_behavior b)" by (rule accepted_subject)
  have s: "s = canonical_document (extended_behavior G r (nb_behavior b) (UseCase u))" and
    t: "t = tested_trust G r (behavior_document_of D s)" using p by (simp_all add: projection_of_def Let_def)
  have supported: "trust_supported (od_behavior D) t s"
    using tested_claim_supported [OF ok u fresh passed, of D] unfolding p [symmetric] by simp
  then have "validate_trust_against_behavior (od_behavior D) t s = Inr ()" by (simp only: validate_trust_against_behavior_Inr)
  then show "supported_claim_levels (od_behavior D) t s = Inr {TestedLevel}"
    by (simp add: supported_claim_levels_def) (simp add: t tested_trust_def tested_claim_def List.map_filter_simps)
  show "validate_ir_semantics s = Inr ()" using supported by (simp add: validate_ir_semantics_Inr trust_supported_def)
  show "set (be_roots s) = set (be_roots (nb_behavior b))"
    by (simp add: s canonical_document_def extended_behavior_def split: prod.split)
  show "set (be_entities s) = canonical_form ` set (be_entities (nb_behavior b)) \<union> execution_facts G r (UseCase u)"
    unfolding s by (rule successor_entities)
qed

section \<open>Properties\<close>

text \<open>
  C40: A result projects exactly when it is the accepted answer to the request, its outcome is passed and the
  two derived identifiers are not used by the behavior: building the successor and validating it and the
  claim never fail then. The successor consists of the reviewed behavior, the evidence of the execution and
  its provenance, and nothing else; it has the same roots and is valid, and the trust document is accepted
  against it with one level of claims, tested.
\<close>

theorem projection_exact:
  "project_execution_verification G N D E r request mapping b current mapping_adapter adapter negotiated = Inr (s, t) \<longleftrightarrow>
     xr_request r = request \<and> current = nb_inventory b \<and> result_accepted G N D E r mapping b mapping_adapter adapter negotiated \<and>
     xr_outcome r = ''passed'' \<and> execution_fresh G r (nb_behavior b) \<and>
     (\<exists>u. UseCase u \<in> set (be_entities (nb_behavior b)) \<and> entity_key (UseCase u) = bl_subject (xq_subject (xr_request r)) \<and>
        (s, t) = projection_of G D r (nb_behavior b) (UseCase u) \<and>
        set (be_entities s) = canonical_form ` set (be_entities (nb_behavior b)) \<union> execution_facts G r (UseCase u) \<and>
        set (be_roots s) = set (be_roots (nb_behavior b)) \<and> validate_ir_semantics s = Inr () \<and>
        supported_claim_levels (od_behavior D) t s = Inr {TestedLevel})"
  (is "?projected \<longleftrightarrow> ?r \<and> ?c \<and> ?a \<and> ?o \<and> ?f \<and> (\<exists>u. ?use_case u \<and> ?key u \<and> ?projection u \<and> ?facts u)")
proof
  assume ?projected
  then have accepted: ?r ?c ?a ?o ?f and "\<exists>u. ?use_case u \<and> ?key u \<and> ?projection u"
    unfolding project_execution_verification_Inr by blast+
  then obtain u where u: "?use_case u" "?key u" and p: "?projection u" by blast
  have "?facts u" by (intro conjI projection_facts [OF p u accepted(3-5)])
  with accepted u p show "?r \<and> ?c \<and> ?a \<and> ?o \<and> ?f \<and> (\<exists>u. ?use_case u \<and> ?key u \<and> ?projection u \<and> ?facts u)" by blast
next
  assume "?r \<and> ?c \<and> ?a \<and> ?o \<and> ?f \<and> (\<exists>u. ?use_case u \<and> ?key u \<and> ?projection u \<and> ?facts u)"
  then show ?projected unfolding project_execution_verification_Inr by blast
qed

subsection \<open>Example\<close>

definition ex_shop_inventory :: inventory_snapshot where
  "ex_shop_inventory = \<lparr>sn_subject_uri = ''urn:shop'', sn_source_revision = ''.a.py'', sn_producer = VNone,
     sn_capability = \<lparr>cs_name = ''org.ucf.adapter.inventory'', cs_version = ''1.0.0''\<rparr>, sn_policy = [],
     sn_coverage = map (\<lambda>k. \<lparr>co_fact_kind = k, co_status = ''complete'',
       co_count = (if k = RepositoryEntry then 2 else if k = PublicInterface then 1 else 0)\<rparr>) all_fact_kinds,
     sn_records = [Provenance (ex_provenance ''.'' Directory), Provenance (ex_provenance ''a.py'' File),
       FileFact \<lparr>ff_id = ''interface.entry.a.py'', ff_provenance = \<lparr>rf_kind = ProvenanceRecord, rf_id = ''provenance.a.py''\<rparr>,
         ff_confidence = VStr ''high'', ff_entry = \<lparr>rf_kind = FactRecord RepositoryEntry, rf_id = ''entry.a.py''\<rparr>,
         ff_details = InterfaceDetails ''urn:http'' ''post_payment'' None ''d''\<rparr>,
       Entry (ex_entry ''.'' Directory), Entry (ex_entry ''a.py'' File)]\<rparr>"

definition ex_shop_interface :: record_ref where
  "ex_shop_interface = \<lparr>rf_kind = FactRecord PublicInterface, rf_id = ''interface.entry.a.py''\<rparr>"

definition ex_shop_binding :: inventory_binding where
  "ex_shop_binding = \<lparr>ib_subject_uri = ''urn:shop'', ib_source_revision = ''.a.py'', ib_digest = ''i''\<rparr>"

definition ex_shop_discovery :: discovery_result where
  "ex_shop_discovery = ex_reviewed_discovery\<lparr>ds_binding := ex_shop_binding,
     ds_coverage := \<lparr>dv_status = ''complete'', dv_eligible = [ex_shop_interface], dv_uncovered = []\<rparr>,
     ds_candidates := [\<lparr>dc_id = ''candidate.c'', dc_semantic_digest = ''p'', dc_subject = ex_shop_interface, dc_evidence = [ex_shop_interface],
       dc_confidence = VStr ''high'', dc_proposal = ex_candidate_proposal\<rparr>]\<rparr>"

definition ex_shop_decisions :: decision_set where
  "ex_shop_decisions = ex_decision_set\<lparr>de_binding := ex_shop_binding\<rparr>"

definition ex_shop_bundle :: onboarding_bundle where
  "ex_shop_bundle = bundle_of ex_onboarding_digests ex_bundle_digests ex_shop_inventory ex_shop_discovery ex_shop_decisions"

definition ex_evidence_digests :: evidence_digests where
  "ex_evidence_digests = \<lparr>gd_bundle = (\<lambda>b. ''o''), gd_mapping = (\<lambda>r. ''m''), gd_execution = (\<lambda>r. ''x''), gd_environment = (\<lambda>e. ''e''),
     gd_mapping_content = (\<lambda>r. ''m''), gd_execution_content = (\<lambda>r. ''x'')\<rparr>"

definition ex_shop_document :: behavior_ref where
  "ex_shop_document = \<lparr>br_document_id = ''behavior.s'', br_digest = ''b''\<rparr>"

definition ex_shop_root :: behavior_entity_ref where
  "ex_shop_root = \<lparr>bl_document = ex_shop_document, bl_subject = (''use_case'', ''pay'')\<rparr>"

definition ex_mapping_result :: mapping_result where
  "ex_mapping_result = \<lparr>mr_id = ''mapping.m'',
     mr_request = \<lparr>mq_capability = mapping_capability, mq_adapter_procedure_uri = ''urn:shop:map:1.0.0'', mq_onboarding = ''o'',
       mq_behavior = nb_behavior ex_shop_bundle, mq_inventory = ex_shop_inventory, mq_targets = [ex_shop_root]\<rparr>,
     mr_producer = \<lparr>ip_name = ''adapter'', ip_version = ''1''\<rparr>, mr_capability = mapping_capability,
     mr_procedure_uri = ''urn:shop:map:1.0.0'',
     mr_bindings = [\<lparr>mb_behavior = ex_shop_root, mb_source_records = [ex_shop_interface]\<rparr>]\<rparr>"

definition ex_execution_request :: "ir_value \<Rightarrow> execution_request" where
  "ex_execution_request amount = \<lparr>xq_capability = verification_capability, xq_adapter_procedure_uri = ''urn:shop:run:1.0.0'',
     xq_mapping = \<lparr>mf_target_id = ''mapping.m'', mf_digest = ''m''\<rparr>, xq_base_behavior = ex_shop_document, xq_subject = ex_shop_root,
     xq_inputs = [\<lparr>xp_port = \<lparr>pr_owner = \<lparr>er_kind = UseCaseKind, er_id = ''pay''\<rparr>, pr_direction = Input, pr_name = ''amount''\<rparr>,
       xp_value = amount\<rparr>],
     xq_expected_outputs = [],
     xq_source = \<lparr>im_subject_uri = ''urn:shop'', im_source_revision = ''.a.py'', im_records = [ex_shop_interface]\<rparr>,
     xq_environment = \<lparr>xe_identity_uri = ''urn:shop:linux:1.0.0'', xe_revision = ''r''\<rparr>,
     xq_check = \<lparr>ck_id = ''smoke'', ck_version = ''1.0.0'', ck_procedure_uri = ''urn:shop:smoke:1.0.0''\<rparr>\<rparr>"

definition ex_execution_result :: "ir_value \<Rightarrow> string \<Rightarrow> execution_result" where
  "ex_execution_result amount outcome = \<lparr>xr_id = ''result.x'', xr_request = ex_execution_request amount, xr_outcome = outcome,
     xr_executed_at = ''2026-02-28T23:59:59Z'', xr_producer = \<lparr>ip_name = ''adapter'', ip_version = ''1''\<rparr>,
     xr_capability = verification_capability, xr_procedure_uri = ''urn:shop:run:1.0.0''\<rparr>"

definition ex_negotiated :: "(string, string) dict" where
  "ex_negotiated = [(''org.ucf.adapter.mapping'', ''1.0.0''), (''org.ucf.adapter.verification'', ''1.0.0'')]"

lemma ex_shop_valid: "validate_onboarding_bundle ex_onboarding_digests ex_bundle_digests ex_shop_bundle = Inr ()"
proof -
  have "request_for ex_bundle_digests ex_shop_inventory ex_shop_discovery =
      Inr \<lparr>dq_capability = ds_capability ex_shop_discovery, dq_binding = ds_binding ex_shop_discovery, dq_inventory = ex_shop_inventory\<rparr>"
    by code_simp
  moreover have "validate_discovery_exchange ex_onboarding_digests \<lparr>dq_capability = ds_capability ex_shop_discovery,
      dq_binding = ds_binding ex_shop_discovery, dq_inventory = ex_shop_inventory\<rparr> ex_shop_discovery = Inr ()"
    by code_simp
  moreover have "validate_decision_set ex_onboarding_digests ex_shop_discovery ex_shop_decisions = Inr ()"
    by code_simp
  moreover have "choices_ok ex_onboarding_digests (chosen ex_shop_discovery (de_decisions ex_shop_decisions))"
  proof -
    have "chosen ex_shop_discovery (de_decisions ex_shop_decisions) = [(hd (de_decisions ex_decision_set), ex_candidate_proposal)]"
      by (simp add: chosen_def List.map_filter_simps ex_shop_decisions_def ex_decision_set_def candidates_by_id_def ex_shop_discovery_def
          ex_reviewed_discovery_def)
    then show ?thesis unfolding choices_ok_def using ex_proposal_ok
      by (simp add: choice_ids_def decision_provenance_id_def decision_id_def) (simp add: ex_onboarding_defs)
  qed
  ultimately have "onboards ex_onboarding_digests ex_bundle_digests ex_shop_inventory ex_shop_discovery ex_shop_decisions"
    by (auto simp: onboards_def request_for_Inr validate_discovery_exchange_Inr validate_decision_set_Inr)
  then show ?thesis unfolding validate_onboarding_bundle_Inr by (simp add: ex_shop_bundle_def bundle_of_def Let_def)
qed

lemma ex_shop_snapshot: "snapshot_ok ex_inventory_digests ex_shop_inventory"
  by code_simp

lemma ex_shop_candidate: "bound_candidate ex_shop_bundle \<lparr>mb_behavior = ex_shop_root, mb_source_records = [ex_shop_interface]\<rparr> =
    Inr (hd (ds_candidates ex_shop_discovery))"
  by code_simp

lemma ex_shop_use_case: "UseCase (ir_use_case.make ''pay'' [ex_amount] [] [\<lparr>er_kind = StepKind, er_id = ''charge''\<rparr>] [] []
    \<lparr>er_kind = ProvenanceKind, er_id = ''provenance.decision.d''\<rparr>) \<in> set (be_entities (nb_behavior ex_shop_bundle))"
  by code_simp

lemma ex_mapping_structure: "versioned_urn ''urn:shop:map:1.0.0'' \<and> bounded [ex_shop_root] \<and> implementation_binding_ok (hd (mr_bindings ex_mapping_result)) \<and>
    unique_sorted (map bl_subject [ex_shop_root])"
  by code_simp

lemma ex_execution_structure: "execution_result_ok (ex_execution_result (DecimalValue ''5'') ''passed'')"
  by code_simp

lemma ex_mapping_accepted: "mapping_accepted ex_evidence_digests ex_inventory_digests ex_onboarding_digests ex_bundle_digests ex_mapping_result
    ex_shop_bundle \<lparr>ip_name = ''adapter'', ip_version = ''1''\<rparr> ex_negotiated"
proof -
  have "reviewed_by ex_shop_bundle ex_shop_root (hd (ds_candidates ex_shop_discovery))"
    using ex_shop_candidate by (simp add: bound_candidate_Inr)
  then have "backed_binding ex_shop_bundle (hd (mr_bindings ex_mapping_result))"
    by (auto simp: backed_binding_def ex_mapping_result_def ex_shop_discovery_def)
  moreover have "mapping_result_ok ex_inventory_digests ex_mapping_result"
    using ex_shop_snapshot ex_mapping_structure
    by (simp add: mapping_result_ok_def mapping_request_ok_def ex_mapping_result_def bounded_def max_implementation_bindings_def unique_sorted_def)
  moreover have "nb_inventory ex_shop_bundle = ex_shop_inventory" by (simp add: ex_shop_bundle_def bundle_of_def Let_def)
  moreover have "selected ex_negotiated mapping_capability" by code_simp
  ultimately show ?thesis
    using ex_shop_valid by (simp add: mapping_accepted_def) (simp add: ex_mapping_result_def ex_evidence_digests_def
      derive_implementation_mapping_result_id_def)
qed

lemma ex_result_accepted: "result_accepted ex_evidence_digests ex_inventory_digests ex_onboarding_digests ex_bundle_digests
    (ex_execution_result (DecimalValue ''5'') ''passed'') ex_mapping_result ex_shop_bundle
    \<lparr>ip_name = ''adapter'', ip_version = ''1''\<rparr> \<lparr>ip_name = ''adapter'', ip_version = ''1''\<rparr> ex_negotiated"
proof -
  let ?q = "ex_execution_request (DecimalValue ''5'')" and ?u = "ir_use_case.make ''pay'' [ex_amount] [] [\<lparr>er_kind = StepKind, er_id = ''charge''\<rparr>] [] []
    \<lparr>er_kind = ProvenanceKind, er_id = ''provenance.decision.d''\<rparr>"
  have "nb_inventory ex_shop_bundle = ex_shop_inventory" by (simp add: ex_shop_bundle_def bundle_of_def Let_def)
  moreover have "behavior_document_of ex_onboarding_digests (nb_behavior ex_shop_bundle) = ex_shop_document" by code_simp
  moreover have "\<exists>binding u. binding \<in> set (mr_bindings ex_mapping_result) \<and> mb_behavior binding = xq_subject ?q \<and>
      im_records (xq_source ?q) = mb_source_records binding \<and> UseCase u \<in> set (be_entities (nb_behavior ex_shop_bundle)) \<and>
      bl_subject (xq_subject ?q) = entity_key (UseCase u) \<and>
      ports_supplied (us_input_ports u) (xq_inputs ?q) \<and> ports_supplied (us_output_ports u) (xq_expected_outputs ?q)"
  proof (intro exI conjI)
    show "UseCase ?u \<in> set (be_entities (nb_behavior ex_shop_bundle))" by (rule ex_shop_use_case)
    show "hd (mr_bindings ex_mapping_result) \<in> set (mr_bindings ex_mapping_result)" by (simp add: ex_mapping_result_def)
  qed (simp_all add: ex_mapping_result_def ex_execution_request_def ex_shop_root_def entity_key_def ir_use_case.make_def ports_supplied_def
      port_kind_ok_def ex_amount_def)
  moreover have "selected ex_negotiated verification_capability" by code_simp
  moreover have "execution_request_ok ?q" using ex_execution_structure by (simp add: execution_result_ok_def ex_execution_result_def)
  ultimately have "execution_accepted ex_evidence_digests ex_inventory_digests ex_onboarding_digests ex_bundle_digests ?q ex_mapping_result
      ex_shop_bundle \<lparr>ip_name = ''adapter'', ip_version = ''1''\<rparr> ex_negotiated"
    using ex_mapping_accepted by (simp add: execution_accepted_def) (simp add: ex_execution_request_def ex_mapping_result_def ex_evidence_digests_def
      ex_shop_inventory_def)
  then show ?thesis using ex_execution_structure
    by (simp add: result_accepted_def) (simp add: ex_execution_result_def ex_evidence_digests_def derive_execution_verification_result_id_def)
qed

lemma ex_projected: "\<exists>p. project_execution_verification ex_evidence_digests ex_inventory_digests ex_onboarding_digests ex_bundle_digests
    (ex_execution_result (DecimalValue ''5'') ''passed'') (ex_execution_request (DecimalValue ''5'')) ex_mapping_result ex_shop_bundle ex_shop_inventory
    \<lparr>ip_name = ''adapter'', ip_version = ''1''\<rparr> \<lparr>ip_name = ''adapter'', ip_version = ''1''\<rparr> ex_negotiated = Inr p"
proof -
  have "xr_request (ex_execution_result (DecimalValue ''5'') ''passed'') = ex_execution_request (DecimalValue ''5'')"
    "xr_outcome (ex_execution_result (DecimalValue ''5'') ''passed'') = ''passed''" "ex_shop_inventory = nb_inventory ex_shop_bundle"
    by (simp_all add: ex_execution_result_def ex_shop_bundle_def bundle_of_def Let_def)
  moreover have "execution_fresh ex_evidence_digests (ex_execution_result (DecimalValue ''5'') ''passed'') (nb_behavior ex_shop_bundle)" by code_simp
  moreover have "entity_key (UseCase (ir_use_case.make ''pay'' [ex_amount] [] [\<lparr>er_kind = StepKind, er_id = ''charge''\<rparr>] [] []
      \<lparr>er_kind = ProvenanceKind, er_id = ''provenance.decision.d''\<rparr>)) =
      bl_subject (xq_subject (ex_execution_request (DecimalValue ''5'')))"
    by code_simp
  ultimately show ?thesis
    unfolding project_execution_verification_Inr using ex_result_accepted ex_shop_use_case by metis
qed

end
