(* ===== verification/Spec2Isabelle.thy ===== *)
theory Spec2Isabelle
  imports Validator Expressions Completeness Drift Ratchet_Assessment Ratchet_Baseline Inventory_Paging Adapter_Session
    IR_Capabilities Change_Gate Change_Archive Execution_Projection
begin

text \<open>
  A verification library for \<^verbatim>\<open>src/ucf\<close>, a tool chain around specifications of use cases. File names
  below are relative to \<^verbatim>\<open>src/ucf\<close>. Theorems marked with an identifier C1 to C40 in their theories are
  the properties of the development.

  \<^bold>\<open>The program.\<close> Two halves share little code.

  \<^item> The specification half reads YAML specifications (actions, events, components, protocols, use cases,
    invariants) into pydantic models, registers them, resolves references and the \<^verbatim>\<open>extends\<close> chains of
    use cases, and runs analyses over the registry: the validator, the tracer of data through the steps
    of a use case, the completeness analyzers and the detection of drift between specifications and code.
  \<^item> The evidence half exchanges JSON documents with adapters of existing repositories. An adapter takes
    inventory of a repository; behavior is discovered in the inventory, reviewed by people and
    materialized as a behavior document (the IR) with a trust document of claims about it, in an onboarding
    bundle. From there a ratchet keeps known violations from growing; a change of behavior goes through a
    delta, an impact report, a gate with declared decisions, a task graph and an archive; and an execution
    reported by an adapter becomes evidence for a tested claim. Every document is derived from others and
    names them by SHA-256 digests of canonical JSON; the validators derive a document again and compare.

  \<^bold>\<open>How the code is represented.\<close> \<^verbatim>\<open>Prelude\<close> and \<^verbatim>\<open>Py_String\<close> hold what all theories share. A pydantic model
  is a record with the fields of the model in their order; a constant of a model (its \<^verbatim>\<open>kind\<close>, its version
  and its schema URI) has no field and a comparison of such constants, \<^verbatim>\<open>ir_version\<close> among them, is left out. A
  union is a datatype. A function that raises returns \<open>Inl\<close> of the exception; the order of the checks and
  the location of each error are those of the code. A dictionary is an association list in insertion
  order, a set the list of its elements, and where the code iterates over a set the order is a parameter
  \<open>ord\<close>, described by the locale \<open>set_iteration\<close>. Python integers are \<open>int\<close>, or \<open>nat\<close> where they count.
  Strings are exact on ASCII text.

  \<^bold>\<open>The theories.\<close>

  \<^item> \<^verbatim>\<open>Spec_Model\<close>: \<^verbatim>\<open>models\<close>, with the validators of steps.
  \<^item> \<^verbatim>\<open>Registry\<close>: \<^verbatim>\<open>parser/registry.py\<close> and the registration loop of \<^verbatim>\<open>cli.py\<close>; the first definition of a
    name wins and the three dictionaries agree (C14). The locale \<open>spec_source\<close> is what resolving a reference
    promises to the theories above, and a loaded registry is an instance.
  \<^item> \<^verbatim>\<open>Composition\<close>: \<^verbatim>\<open>composition.py\<close>; flattening along an inductive path of \<^verbatim>\<open>extends\<close> references, and what
    each exception means (C1, C2). The returned chain of names runs from the child to the root, as in the code;
    \<^verbatim>\<open>specs/actions/resolve-uc-extends.yaml\<close> documents the opposite order, a divergence that
    \<open>chain_not_in_documented_order\<close> makes precise.
  \<^item> \<^verbatim>\<open>Validator\<close>: \<^verbatim>\<open>validator/core.py\<close> against an independent predicate on registries (C3).
  \<^item> \<^verbatim>\<open>Expressions\<close>: \<^verbatim>\<open>expressions/resolver.py\<close>, the regular expressions as matching functions.
  \<^item> \<^verbatim>\<open>Tracer\<close>, \<^verbatim>\<open>State_Coverage\<close>, \<^verbatim>\<open>Completeness\<close>: \<^verbatim>\<open>tracer\<close> and \<^verbatim>\<open>completeness\<close>; exact findings of every
    analysis, reachability of the state graph (C15), and the locale \<open>coverage_report\<close> that accounts for
    the obligations of each analyzer.
  \<^item> \<^verbatim>\<open>Drift\<close>: \<^verbatim>\<open>drift\<close>, the markers of a source line, the map between specifications and code, the detector.
  \<^item> \<^verbatim>\<open>Ratchet_Model\<close>, \<^verbatim>\<open>Ratchet_Validation\<close>, \<^verbatim>\<open>Ratchet_Evaluation\<close>, \<^verbatim>\<open>Ratchet_Assessment\<close>, \<^verbatim>\<open>Ratchet_Baseline\<close>: \<^verbatim>\<open>ratchet\<close>
    (version 1); the evaluation, establishing and advancing baselines, and what a chain of baselines can
    never do (C4, C5, C6), by invariants of \<open>transition_system\<close>.
  \<^item> \<^verbatim>\<open>Dispatcher\<close>, \<^verbatim>\<open>Adapter_Session\<close>: \<^verbatim>\<open>adapter_protocol\<close> (errors, models, versioning, dispatcher). A session
    interleaves the blocks the dispatcher runs under its lock; it refines an abstract lifecycle, keeps its
    limits and can be shut down (C7, C8, C9).
  \<^item> \<^verbatim>\<open>Inventory_Model\<close>, \<^verbatim>\<open>Inventory_Validation\<close>, \<^verbatim>\<open>Inventory_Topology\<close>, \<^verbatim>\<open>Inventory_Paging\<close>: \<^verbatim>\<open>inventory\<close> (models, paging,
    client); valid snapshots are trees, pages are assembled exactly when they are cut from a valid snapshot,
    and the collection ends (C10 to C13).
  \<^item> \<^verbatim>\<open>IR_Model\<close>, \<^verbatim>\<open>IR_Canonical\<close>, \<^verbatim>\<open>IR_Canonical_Form\<close>, \<^verbatim>\<open>IR_Validation\<close>, \<^verbatim>\<open>IR_Capabilities\<close>: \<^verbatim>\<open>ir\<close> (models, codec,
    validation); canonical JSON, its fixed points, the semantic validation (C16).
  \<^item> \<^verbatim>\<open>Behavior_Delta\<close>, \<^verbatim>\<open>Task_Graph\<close>, \<^verbatim>\<open>Change_Archive\<close>: \<^verbatim>\<open>change_lifecycle\<close> (behavior, models, validation); exact deltas
    (C17), acyclic and completable task graphs (C26 to C28), archives (C24, C25).
  \<^item> \<^verbatim>\<open>Impact_Graph\<close>, \<^verbatim>\<open>Impact_Search\<close>, \<^verbatim>\<open>Impact_Witnesses\<close>, \<^verbatim>\<open>Impact_Changes\<close>, \<^verbatim>\<open>Impact_Report\<close>, \<^verbatim>\<open>Impact_Exact\<close>, \<^verbatim>\<open>Change_Gate\<close>:
    \<^verbatim>\<open>change_governance\<close> (models, graph, impact, validation); the priority-queue search over the
    impact graph (C18), graph and report (C19, C20), the gate (C21 to C23).
  \<^item> \<^verbatim>\<open>Onboarding_Proposal\<close>, \<^verbatim>\<open>Onboarding_Discovery\<close>, \<^verbatim>\<open>Onboarding_Materialize\<close>, \<^verbatim>\<open>Onboarding_Trust\<close>: \<^verbatim>\<open>onboarding\<close> (models,
    validation, identity, reconciliation, trust, bundle); proposals, discovery, materialized behavior and
    bundles (C29 to C31, C37 to C39).
  \<^item> \<^verbatim>\<open>Trust_IR\<close>, \<^verbatim>\<open>Trust_Claims\<close>: \<^verbatim>\<open>ir/trust_models.py\<close>, \<^verbatim>\<open>ir/trust_validation.py\<close>, \<^verbatim>\<open>ir/trust_codec.py\<close>; what a behavior
    document supports of the claims about it, mappings, canonical texts, cycles (C32 to C36).
  \<^item> \<^verbatim>\<open>Execution_Evidence\<close>, \<^verbatim>\<open>Execution_Projection\<close>: \<^verbatim>\<open>implementation_evidence\<close> (models, validation, identity,
    projection); mappings from reviewed behavior to source records, executions, and the tested claim a
    passed execution projects to (C40).

  \<^bold>\<open>The kinds of lemmas.\<close> Most theories have the same three layers: the definitions in the order of the
  file; lemmas \<open>f_Inr\<close>, one for each validator, that say when it accepts, step by step; and a specification
  without indexes, positions and passes (\<open>registry_ok\<close>, \<open>ir_ok\<close>, \<open>proposal_ok\<close>, \<open>trust_supported\<close>,
  \<open>execution_accepted\<close> and others) that the properties equate with the validator. Derivations are shown to
  be total under the specification of their inputs, so that a validator that derives a document again
  accepts exactly the derived document.

  \<^bold>\<open>Parameters.\<close> What is not under \<^verbatim>\<open>src\<close> or cannot be computed here is an argument: the digests of
  canonical JSON (\<open>digests\<close>, \<open>change_digests\<close>, \<open>governance_digests\<close>, \<open>inventory_digests\<close>,
  \<open>onboarding_digests\<close>, \<open>bundle_digests\<close>, \<open>evidence_digests\<close>), with no assumption about collisions; the
  outcome of the handler of an adapter and the answers of an adapter
  process, which are arbitrary; in \<^verbatim>\<open>Change_Archive\<close> the validation of an evidence context and its receipt; in
  the ratchet the projection of the subjects of a bundle; in \<^verbatim>\<open>Drift\<close> the existence of a file.

  \<^bold>\<open>Termination.\<close> No definition uses fuel. Loops over a worklist, the \<^verbatim>\<open>extends\<close> chain, the collection of
  pages and the depth-first searches are functions with a measure, so each of them returns. Python's bound
  on nested calls, which very long chains of claims or \<^verbatim>\<open>extends\<close> references would meet, is not modelled. Bounds of
  the models (the number of records, pages, tasks, violations, requests of a session) are constants with the
  values of the code.

  \<^bold>\<open>Where the code disagrees with itself or its documents.\<close> Besides the order of the \<^verbatim>\<open>extends\<close> chain: requires
  and invariants that a child repeats are kept twice; flattening drops \<^verbatim>\<open>assumed_preconditions\<close> and
  \<^verbatim>\<open>terminal\<close> (\<open>resolve_extends_drops\<close>); a validated registry can still raise \<^verbatim>\<open>STEP_ID_CLASH\<close>
  (\<open>validator_misses_inherited_clash\<close>); orphan actions, branch divergence, conflicts between use cases and
  orphan code are reported wrongly or never (\<open>orphan_actions_exact\<close>, \<open>trace_categories\<close>,
  \<open>no_cross_usecase_conflicts\<close>, \<open>no_orphan_code\<close>); the slot reserved for the shutdown of a session can be
  lost (\<open>exhausted_session_stays_ready\<close>); an impact report of a valid change can fail on the order of
  changed paths or reasons (C20); and a reconciled conflict can be refused once both documents are read from
  their canonical texts (C35).

  \<^bold>\<open>Not modelled.\<close> The command line, the reading of YAML and JSON text with the patterns of string fields,
  the tests of run-time types, transport and process supervision, the publication of files, web handlers, test
  generators and scaffolding, generation, the dependency graph (a graph of the networkx library), the example
  service, adapter conformance, the second version of the ratchet and its projection, runtime evidence
  and the evidence status built on it, and the codecs, wire formats and clients of the evidence documents
  except the inventory client: they are input and output, calls of libraries, or rest on documents that are
  not modelled.
\<close>

end
